(* ===== verification/Prelude.thy ===== *)
theory Prelude
  imports Main "HOL-Library.Word" "HOL-Library.Multiset" "HOL-Library.AList" "HOL-Library.Sublist"
begin

text \<open>
  Shared vocabulary of the development.  Go's machine types are named here (\<open>byte\<close>, \<open>u64\<close>,
  \<open>i64\<close>), a Go map is an association list with distinct keys whose iteration order is
  chosen by the run time (\<open>go_range\<close>), and the generic facts on lists, association lists and
  wrapped integers that several components use are collected.
\<close>

section \<open>Machine types\<close>

type_synonym byte = "8 word"
type_synonym bytes = "8 word list"
type_synonym u64 = "64 word"

text \<open>
  A signed 64-bit integer is an \<open>int\<close>; every arithmetic result is brought back into range by
  \<open>int64\<close>, which is two's complement wrap-around.
\<close>

definition int64 :: "int \<Rightarrow> int" where
  "int64 x = (x + 2 ^ 63) mod 2 ^ 64 - 2 ^ 63"

definition MaxInt64 :: int where
  "MaxInt64 = 2 ^ 63 - 1"

definition MinInt64 :: int where
  "MinInt64 = - (2 ^ 63)"

definition in_int64 :: "int \<Rightarrow> bool" where
  "in_int64 x \<longleftrightarrow> MinInt64 \<le> x \<and> x \<le> MaxInt64"

section \<open>Go maps\<close>

text \<open>
  The order in which \<open>range\<close> visits the keys of a map is not specified by the language.  It is
  a parameter \<open>rng\<close> of every operation that iterates: any function that permutes its argument.
\<close>

definition go_range :: "('k list \<Rightarrow> 'k list) \<Rightarrow> bool" where
  "go_range rng \<longleftrightarrow> (\<forall>ks. mset (rng ks) = mset ks)"

type_synonym ('k, 'v) gomap = "('k \<times> 'v) list"

definition gomap_ok :: "('k, 'v) gomap \<Rightarrow> bool" where
  "gomap_ok m \<longleftrightarrow> distinct (map fst m)"

definition gget :: "('k, 'v) gomap \<Rightarrow> 'k \<Rightarrow> 'v option" where
  "gget m = map_of m"

definition gput :: "('k, 'v) gomap \<Rightarrow> 'k \<Rightarrow> 'v \<Rightarrow> ('k, 'v) gomap" where
  "gput m k v = AList.update k v m"

definition gdel :: "('k, 'v) gomap \<Rightarrow> 'k \<Rightarrow> ('k, 'v) gomap" where
  "gdel m k = AList.delete k m"

definition gkeys :: "('k list \<Rightarrow> 'k list) \<Rightarrow> ('k, 'v) gomap \<Rightarrow> 'k list" where
  "gkeys rng m = rng (map fst m)"

section \<open>Swapping two slots of a slice\<close>

definition exch :: "'a list \<Rightarrow> nat \<Rightarrow> nat \<Rightarrow> 'a list" where
  "exch ys p q = ys[p := ys ! q, q := ys ! p]"

section \<open>Loops whose body may panic\<close>

text \<open>A Go \<open>for ... range\<close> loop over a slice; \<open>None\<close> is a run-time panic and ends it.\<close>

fun for_each :: "('a \<Rightarrow> 's \<Rightarrow> 's option) \<Rightarrow> 'a list \<Rightarrow> 's \<Rightarrow> 's option" where
  "for_each f [] s = Some s"
| "for_each f (x # xs) s = (case f x s of None \<Rightarrow> None | Some s' \<Rightarrow> for_each f xs s')"

section \<open>Fact collections\<close>

named_theorems gomap_simps "equations of the map operations"
named_theorems wf_intros "introduction rules of the components' invariants"

section \<open>Lemmas\<close>

subsection \<open>Wrapped integers\<close>

lemma int64_id [simp]: "in_int64 x \<Longrightarrow> int64 x = x"
  by (simp add: int64_def in_int64_def MinInt64_def MaxInt64_def)

lemma int64_range [simp]: "in_int64 (int64 x)"
proof -
  have "0 \<le> (x + 2 ^ 63) mod 2 ^ 64" and "(x + 2 ^ 63) mod 2 ^ 64 < (2 ^ 64 :: int)"
    by (rule pos_mod_sign, simp) (rule pos_mod_bound, simp)
  then show ?thesis
    by (simp add: int64_def in_int64_def MinInt64_def MaxInt64_def)
qed

lemma int64_mod: "int64 x mod 2 ^ 64 = x mod 2 ^ 64"
  by (simp add: int64_def mod_diff_left_eq)

lemma int64_cong: "x mod 2 ^ 64 = y mod 2 ^ 64 \<Longrightarrow> int64 x = int64 y"
  unfolding int64_def by (metis mod_add_left_eq)

lemma int64_mod_eq: "in_int64 x \<Longrightarrow> in_int64 y \<Longrightarrow> x mod 2 ^ 64 = y mod 2 ^ 64 \<Longrightarrow> x = y"
  using int64_cong [of x y] by simp

subsection \<open>Maps\<close>

lemma go_range_set: "go_range rng \<Longrightarrow> set (rng ks) = set ks"
  by (metis go_range_def set_mset_mset)

lemma go_range_distinct: "go_range rng \<Longrightarrow> distinct (rng ks) = distinct ks"
  unfolding go_range_def by (metis mset_eq_imp_distinct_iff)

lemma go_range_length: "go_range rng \<Longrightarrow> length (rng ks) = length ks"
  unfolding go_range_def by (metis mset_eq_length)

lemma go_range_id [simp]: "go_range (\<lambda>ks. ks)"
  by (simp add: go_range_def)

lemma go_range_rev [simp]: "go_range rev"
  by (simp add: go_range_def)

lemma gomap_ok_Nil [simp]: "gomap_ok []"
  by (simp add: gomap_ok_def)

lemma gomap_ok_gput [simp, wf_intros]: "gomap_ok m \<Longrightarrow> gomap_ok (gput m k v)"
  by (simp add: gomap_ok_def gput_def distinct_update)

lemma gomap_ok_gdel [simp, wf_intros]: "gomap_ok m \<Longrightarrow> gomap_ok (gdel m k)"
  by (simp add: gomap_ok_def gdel_def distinct_delete)

lemma gget_Nil [simp]: "gget [] k = None"
  by (simp add: gget_def)

lemma gget_gput [simp, gomap_simps]: "gget (gput m k v) = (gget m)(k \<mapsto> v)"
  by (simp add: gget_def gput_def update_conv' fun_eq_iff)

lemma gget_gdel [simp, gomap_simps]: "gget (gdel m k) = (gget m)(k := None)"
  by (simp add: gget_def gdel_def delete_conv' fun_eq_iff)

lemma set_gkeys: "go_range rng \<Longrightarrow> set (gkeys rng m) = dom (gget m)"
  by (simp add: gkeys_def go_range_set gget_def dom_map_of_conv_image_fst)

lemma distinct_gkeys: "go_range rng \<Longrightarrow> gomap_ok m \<Longrightarrow> distinct (gkeys rng m)"
  by (simp add: gkeys_def go_range_distinct gomap_ok_def)

lemma gomap_ok_mem: "gomap_ok m \<Longrightarrow> (k, v) \<in> set m \<longleftrightarrow> gget m k = Some v"
  by (simp add: gomap_ok_def gget_def)

lemma gget_mem: "gget m k = Some v \<Longrightarrow> (k, v) \<in> set m"
  by (simp add: gget_def map_of_SomeD)

lemma finite_dom_gget [simp]: "finite (dom (gget m))"
  by (simp add: gget_def finite_dom_map_of)

lemma card_dom_gget: "gomap_ok m \<Longrightarrow> card (dom (gget m)) = length m"
  using distinct_card [of "map fst m"] by (simp add: gomap_ok_def gget_def dom_map_of_conv_image_fst)

lemma set_map_fst_gget: "set (map fst m) = dom (gget m)"
  by (simp add: gget_def dom_map_of_conv_image_fst)

lemma gget_filter:
  "gomap_ok m \<Longrightarrow> gget (filter (\<lambda>(k, v). P k v) m) k =
     (case gget m k of None \<Rightarrow> None | Some v \<Rightarrow> if P k v then Some v else None)"
  by (induction m) (auto simp: gget_def gomap_ok_def split: option.splits
      dest: weak_map_of_SomeI map_of_SomeD intro!: map_of_eq_None_iff [THEN iffD2])

lemma length_gput_new: "gget m k = None \<Longrightarrow> length (gput m k v) = Suc (length m)"
  by (induction m) (auto simp: gget_def gput_def split: if_splits)

lemma length_gdel_old:
  assumes "gomap_ok m" and "gget m k = Some v"
  shows "Suc (length (gdel m k)) = length m"
proof -
  have "dom (gget (gdel m k)) = dom (gget m) - {k}" by auto
  moreover have "k \<in> dom (gget m)" using assms(2) by auto
  ultimately have "Suc (card (dom (gget (gdel m k)))) = card (dom (gget m))"
    by (simp only: card.remove [OF finite_dom_gget])
  with assms(1) show ?thesis by (simp only: card_dom_gget gomap_ok_gdel)
qed

subsection \<open>Swapping\<close>

lemma length_exch [simp]: "length (exch ys p q) = length ys"
  by (simp add: exch_def)

lemma exch_nth:
  "p < length ys \<Longrightarrow> q < length ys \<Longrightarrow>
   exch ys p q ! n = (if n = p then ys ! q else if n = q then ys ! p else ys ! n)"
  by (cases "p = q") (auto simp: exch_def nth_list_update)

lemma mset_exch [simp]: "p < length ys \<Longrightarrow> q < length ys \<Longrightarrow> mset (exch ys p q) = mset ys"
  by (simp add: exch_def mset_swap)

lemma set_exch [simp]: "p < length ys \<Longrightarrow> q < length ys \<Longrightarrow> set (exch ys p q) = set ys"
  by (metis mset_exch set_mset_mset)

lemma exch_map: "p < length ys \<Longrightarrow> q < length ys \<Longrightarrow> map g (exch ys p q) = exch (map g ys) p q"
  by (simp add: exch_def map_update)

subsection \<open>Loops\<close>

text \<open>The loop rule: a body that never panics and keeps \<open>I\<close> gives a loop that does.\<close>

lemma for_each_inv:
  assumes "I xs s" "\<And>x ys s. I (x # ys) s \<Longrightarrow> \<exists>s'. f x s = Some s' \<and> I ys s'"
  shows "\<exists>s'. for_each f xs s = Some s' \<and> I [] s'"
  using assms(1)
proof (induction xs arbitrary: s)
  case (Cons x xs)
  from assms(2) [OF Cons.prems] obtain s' where "f x s = Some s'" "I xs s'" by blast
  with Cons.IH [of s'] show ?case by simp
qed simp

lemma fold_inv:
  assumes "I xs s" "\<And>x ys s. I (x # ys) s \<Longrightarrow> I ys (f x s)"
  shows "I [] (fold f xs s)"
  using assms(1) by (induction xs arbitrary: s) (auto intro: assms(2))

lemma for_each_append: "for_each f (xs @ ys) s = Option.bind (for_each f xs s) (for_each f ys)"
  by (induction xs arbitrary: s) (auto split: option.splits)

subsection \<open>Lists\<close>

lemma rotation_onto:
  assumes "b < (w :: nat)"
  shows "\<exists>j<w. (j + s) mod w = b"
proof -
  define r where "r = s mod w"
  have r: "r < w" using assms by (simp add: r_def)
  define j where "j = (if r \<le> b then b - r else b + w - r)"
  have "j < w" "(j + r) mod w = b" using assms r by (auto simp: j_def)
  then show ?thesis unfolding r_def by (auto simp: mod_add_right_eq)
qed

lemma rotation_mset:
  assumes "0 < n"
  shows "mset (map (\<lambda>k. (k + c) mod n) [0..<n]) = mset [0..<n :: nat]"
proof -
  let ?xs = "map (\<lambda>k. (k + c) mod n) [0..<n]"
  have "set ?xs = set [0..<n]"
  proof
    show "set ?xs \<subseteq> set [0..<n]" using assms by auto
    show "set [0..<n] \<subseteq> set ?xs" using rotation_onto [of _ n c] by force
  qed
  moreover from this have "distinct ?xs" by (intro card_distinct) simp
  ultimately show ?thesis using set_eq_iff_mset_eq_distinct [of ?xs "[0..<n]"] by simp
qed

lemma last_exch_front:
  "xs \<noteq> [] \<Longrightarrow> last (exch xs 0 (length xs - 1)) = xs ! 0"
  by (simp add: last_conv_nth exch_nth flip: length_greater_0_conv)

lemma mset_last_butlast: "xs \<noteq> [] \<Longrightarrow> add_mset (last xs) (mset (butlast xs)) = mset xs"
  by (induction xs) auto

end
