(* ===== verification/Go_Heap.thy ===== *)
theory Go_Heap
  imports Prelude
begin

text \<open>
  Go's \<open>container/heap\<close>, which the transaction index (\<open>nonceHeap\<close>), the priority queue
  (\<open>prque\<close>) and the validator heap instantiate.  The package works through an interface of
  five methods; here the interface is the record \<open>heap_iface\<close> and \<open>heap_up\<close>, \<open>heap_down\<close>,
  \<open>heap_Init\<close>, \<open>heap_Push\<close>, \<open>heap_Pop\<close>, \<open>heap_Remove\<close> and \<open>heap_Fix\<close> follow the package's
  loops.  The locale \<open>heap_impl\<close> states what an implementation of the interface owes, and its
  lemmas say that every operation then keeps the heap order and the multiset of elements.
\<close>

section \<open>The interface and the algorithms\<close>

record ('s, 'a) heap_iface =
  hi_Len :: "'s \<Rightarrow> nat"
  hi_Less :: "'s \<Rightarrow> nat \<Rightarrow> nat \<Rightarrow> bool"
  hi_Swap :: "'s \<Rightarrow> nat \<Rightarrow> nat \<Rightarrow> 's"
  hi_Push :: "'s \<Rightarrow> 'a \<Rightarrow> 's"
  hi_Pop :: "'s \<Rightarrow> 'a \<times> 's"

function heap_up :: "('s, 'a) heap_iface \<Rightarrow> 's \<Rightarrow> nat \<Rightarrow> 's" where
  "heap_up H s j =
     (let i = (j - 1) div 2 in
      if i = j \<or> \<not> hi_Less H s j i then s else heap_up H (hi_Swap H s i j) i)"
  by pat_completeness auto
termination
  by (relation "measure (\<lambda>(H, s, j). j)") auto

text \<open>The child \<open>heap_down\<close> compares with: the left one, or the right one if that is less.\<close>

definition heap_child :: "('s, 'a) heap_iface \<Rightarrow> 's \<Rightarrow> nat \<Rightarrow> nat \<Rightarrow> nat" where
  "heap_child H s i n =
     (let j1 = 2 * i + 1 in if j1 + 1 < n \<and> hi_Less H s (j1 + 1) j1 then j1 + 1 else j1)"

lemma heap_child_gt [termination_simp]: "i < heap_child H s i n"
  by (simp add: heap_child_def Let_def)

text \<open>\<open>heap_down\<close> returns the state and the slot where the element came to rest.\<close>

function heap_down :: "('s, 'a) heap_iface \<Rightarrow> 's \<Rightarrow> nat \<Rightarrow> nat \<Rightarrow> 's \<times> nat" where
  "heap_down H s i n =
     (if n \<le> 2 * i + 1 then (s, i)
      else let j = heap_child H s i n in
        if \<not> hi_Less H s j i then (s, i) else heap_down H (hi_Swap H s i j) j n)"
  by pat_completeness auto
termination
  by (relation "measure (\<lambda>(H, s, i, n). n - i)") (auto intro!: diff_less_mono2 heap_child_gt)

definition heap_Init :: "('s, 'a) heap_iface \<Rightarrow> 's \<Rightarrow> 's" where
  "heap_Init H s =
     (let n = hi_Len H s in fold (\<lambda>i s. fst (heap_down H s i n)) (rev [0..<n div 2]) s)"

definition heap_Push :: "('s, 'a) heap_iface \<Rightarrow> 's \<Rightarrow> 'a \<Rightarrow> 's" where
  "heap_Push H s x = (let s1 = hi_Push H s x in heap_up H s1 (hi_Len H s1 - 1))"

text \<open>\<open>Pop\<close> and \<open>Remove\<close> index out of range on an empty heap or a bad index: \<open>None\<close> is the panic.\<close>

definition heap_Pop :: "('s, 'a) heap_iface \<Rightarrow> 's \<Rightarrow> ('a \<times> 's) option" where
  "heap_Pop H s =
     (if hi_Len H s = 0 then None
      else let n = hi_Len H s - 1; s1 = hi_Swap H s 0 n; s2 = fst (heap_down H s1 0 n)
        in Some (hi_Pop H s2))"

definition heap_sift :: "('s, 'a) heap_iface \<Rightarrow> 's \<Rightarrow> nat \<Rightarrow> nat \<Rightarrow> 's" where
  "heap_sift H s i n =
     (let r = heap_down H s i n in if snd r > i then fst r else heap_up H (fst r) i)"

definition heap_Remove :: "('s, 'a) heap_iface \<Rightarrow> 's \<Rightarrow> nat \<Rightarrow> ('a \<times> 's) option" where
  "heap_Remove H s i =
     (if hi_Len H s \<le> i then None
      else let n = hi_Len H s - 1;
               s1 = (if n \<noteq> i then heap_sift H (hi_Swap H s i n) i n else s)
        in Some (hi_Pop H s1))"

definition heap_Fix :: "('s, 'a) heap_iface \<Rightarrow> 's \<Rightarrow> nat \<Rightarrow> 's" where
  "heap_Fix H s i = heap_sift H s i (hi_Len H s)"

declare heap_up.simps [simp del] heap_down.simps [simp del]

section \<open>The heap order on slices\<close>

definition parent :: "nat \<Rightarrow> nat" where
  "parent j = (j - 1) div 2"

text \<open>\<open>heap_from lt xs L n\<close>: among the first \<open>n\<close> slots, every element whose parent slot is
  at least \<open>L\<close> is not less than its parent.\<close>

definition heap_from :: "('a \<Rightarrow> 'a \<Rightarrow> bool) \<Rightarrow> 'a list \<Rightarrow> nat \<Rightarrow> nat \<Rightarrow> bool" where
  "heap_from lt xs L n \<longleftrightarrow>
     (\<forall>k<n. 0 < k \<longrightarrow> L \<le> parent k \<longrightarrow> \<not> lt (xs ! k) (xs ! parent k))"

definition is_heap :: "('a \<Rightarrow> 'a \<Rightarrow> bool) \<Rightarrow> 'a list \<Rightarrow> bool" where
  "is_heap lt xs \<longleftrightarrow> heap_from lt xs 0 (length xs)"

text \<open>The slice itself as an implementation of the interface.\<close>

definition slice_heap :: "('a \<Rightarrow> 'a \<Rightarrow> bool) \<Rightarrow> ('a list, 'a) heap_iface" where
  "slice_heap lt = \<lparr> hi_Len = length, hi_Less = (\<lambda>xs i j. lt (xs ! i) (xs ! j)), hi_Swap = exch,
     hi_Push = (\<lambda>xs x. xs @ [x]), hi_Pop = (\<lambda>xs. (last xs, butlast xs)) \<rparr>"

lemma slice_heap_simps [simp]:
  "hi_Len (slice_heap lt) = length"
  "hi_Less (slice_heap lt) xs i j = lt (xs ! i) (xs ! j)"
  "hi_Swap (slice_heap lt) = exch"
  "hi_Push (slice_heap lt) xs x = xs @ [x]"
  "hi_Pop (slice_heap lt) xs = (last xs, butlast xs)"
  by (simp_all add: slice_heap_def)

lemma parent_less: "0 < k \<Longrightarrow> parent k < k"
  by (auto simp: parent_def)

lemma parent_mono_gap: "parent k = i \<Longrightarrow> 0 < k \<Longrightarrow> k = 2 * i + 1 \<or> k = 2 * i + 2"
  by (auto simp: parent_def)

lemma child_ge: "0 < k \<Longrightarrow> 2 * parent k + 1 \<le> k"
  by (auto simp: parent_def)

lemma parent_children [simp]: "parent (Suc (2 * i)) = i" "parent (Suc (Suc (2 * i))) = i"
  by (auto simp: parent_def)

lemma heap_up_stop:
  "parent j = j \<or> \<not> hi_Less H s j (parent j) \<Longrightarrow> heap_up H s j = s"
  by (subst heap_up.simps) (simp add: Let_def parent_def)

lemma heap_up_go:
  "parent j \<noteq> j \<Longrightarrow> hi_Less H s j (parent j) \<Longrightarrow>
   heap_up H s j = heap_up H (hi_Swap H s (parent j) j) (parent j)"
  by (subst heap_up.simps) (simp add: Let_def parent_def)

lemma heap_child_cases:
  "heap_child H s i n = 2 * i + 1 \<or> heap_child H s i n = 2 * i + 2"
  by (simp add: heap_child_def Let_def)

lemma heap_child_less: "\<not> n \<le> 2 * i + 1 \<Longrightarrow> heap_child H s i n < n"
  by (simp add: heap_child_def Let_def)

lemma heap_down_stop:
  "n \<le> 2 * i + 1 \<or> \<not> hi_Less H s (heap_child H s i n) i \<Longrightarrow> heap_down H s i n = (s, i)"
  by (subst heap_down.simps) (auto simp: Let_def)

lemma heap_down_go:
  "\<not> n \<le> 2 * i + 1 \<Longrightarrow> hi_Less H s (heap_child H s i n) i \<Longrightarrow>
   heap_down H s i n = heap_down H (hi_Swap H s i (heap_child H s i n)) (heap_child H s i n) n"
  by (subst heap_down.simps) (auto simp: Let_def)

lemma heap_down_ge: "i \<le> snd (heap_down H s i n)"
proof (induction "n - i" arbitrary: s i rule: less_induct)
  case less
  let ?j = "heap_child H s i n"
  show ?case
  proof (cases "n \<le> 2 * i + 1 \<or> \<not> hi_Less H s ?j i")
    case True
    then show ?thesis by (simp only: heap_down_stop) simp
  next
    case False
    have "?j \<le> snd (heap_down H (hi_Swap H s i ?j) ?j n)"
      by (rule less.hyps) (use False heap_child_gt [of i H s n] in auto)
    with False heap_child_gt [of i H s n] show ?thesis by (simp add: heap_down_go)
  qed
qed

lemma heap_down_stays: "\<not> i < snd (heap_down H s i n) \<Longrightarrow> heap_down H s i n = (s, i)"
proof -
  assume stay: "\<not> i < snd (heap_down H s i n)"
  let ?j = "heap_child H s i n"
  have "n \<le> 2 * i + 1 \<or> \<not> hi_Less H s ?j i"
  proof (rule ccontr)
    assume go: "\<not> (n \<le> 2 * i + 1 \<or> \<not> hi_Less H s ?j i)"
    then have "heap_down H s i n = heap_down H (hi_Swap H s i ?j) ?j n"
      by (simp add: heap_down_go)
    with stay heap_down_ge [of ?j H "hi_Swap H s i ?j" n] heap_child_gt [of i H s n]
    show False by simp
  qed
  then show ?thesis by (rule heap_down_stop)
qed

lemma length_heap_up: "j < length xs \<Longrightarrow> length (heap_up (slice_heap lt) xs j) = length xs"
proof (induction j arbitrary: xs rule: less_induct)
  case (less j)
  show ?case
  proof (cases "parent j = j \<or> \<not> lt (xs ! j) (xs ! parent j)")
    case True
    then show ?thesis by (simp add: heap_up_stop)
  next
    case False
    then have "parent j < j" by (cases "j = 0") (auto dest: parent_less simp: parent_def)
    with less.IH [of "parent j" "exch xs (parent j) j"] less.prems False show ?thesis
      by (simp add: heap_up_go)
  qed
qed

lemma length_heap_down: "length (fst (heap_down (slice_heap lt) xs i n)) = length xs"
proof (induction "n - i" arbitrary: xs i rule: less_induct)
  case less
  let ?j = "heap_child (slice_heap lt) xs i n"
  show ?case
  proof (cases "n \<le> 2 * i + 1 \<or> \<not> lt (xs ! ?j) (xs ! i)")
    case True
    then have "heap_down (slice_heap lt) xs i n = (xs, i)" by (intro heap_down_stop) simp
    then show ?thesis by simp
  next
    case False
    then have "n - ?j < n - i" using heap_child_gt [of i "slice_heap lt" xs n] by auto
    from less.hyps [OF this, of "exch xs i ?j"] False show ?thesis
      using heap_down_go [of n i "slice_heap lt" xs] by simp
  qed
qed

lemma length_heap_sift:
  "i < length xs \<Longrightarrow> length (heap_sift (slice_heap lt) xs i n) = length xs"
  by (simp add: heap_sift_def Let_def length_heap_down length_heap_up)

subsection \<open>What a comparison owes\<close>

locale heap_order =
  fixes lt :: "'a \<Rightarrow> 'a \<Rightarrow> bool" and A :: "'a set"
  assumes asym: "x \<in> A \<Longrightarrow> y \<in> A \<Longrightarrow> lt x y \<Longrightarrow> \<not> lt y x"
    and neg_trans: "x \<in> A \<Longrightarrow> y \<in> A \<Longrightarrow> z \<in> A \<Longrightarrow> \<not> lt x y \<Longrightarrow> \<not> lt y z \<Longrightarrow> \<not> lt x z"
begin

text \<open>The loop invariant of \<open>heap_down\<close>, started at \<open>i0\<close> and now at \<open>i\<close>.\<close>

definition down_inv :: "nat \<Rightarrow> nat \<Rightarrow> nat \<Rightarrow> 'a list \<Rightarrow> nat \<Rightarrow> bool" where
  "down_inv L n i0 xs i \<longleftrightarrow> i0 \<le> i \<and> n \<le> length xs \<and> set xs \<subseteq> A \<and>
     (\<forall>k<n. 0 < k \<longrightarrow> L \<le> parent k \<longrightarrow> parent k \<noteq> i \<longrightarrow> k \<noteq> i0 \<longrightarrow>
        \<not> lt (xs ! k) (xs ! parent k)) \<and>
     (i \<noteq> i0 \<longrightarrow> 0 < i0 \<longrightarrow> L \<le> parent i0 \<longrightarrow> \<not> lt (xs ! i0) (xs ! parent i0)) \<and>
     (0 < i \<longrightarrow> L \<le> parent i \<longrightarrow>
        (\<forall>c<n. 0 < c \<longrightarrow> parent c = i \<longrightarrow> \<not> lt (xs ! c) (xs ! parent i)))"

lemma down_inv_step:
  assumes inv: "down_inv L n i0 xs i" and j: "j < n" "j = 2 * i + 1 \<or> j = 2 * i + 2"
    and small: "\<And>c. c < n \<Longrightarrow> 0 < c \<Longrightarrow> parent c = i \<Longrightarrow> c \<noteq> j \<Longrightarrow> \<not> lt (xs ! c) (xs ! j)"
    and small_j: "lt (xs ! j) (xs ! i)"
  shows "down_inv L n i0 (exch xs i j) j"
proof -
  have len: "n \<le> length xs" and A: "set xs \<subseteq> A" and i0: "i0 \<le> i"
    using inv by (auto simp: down_inv_def)
  have pj: "parent j = i" "i < j" using j by (auto simp: parent_def)
  have il: "i < length xs" and jl: "j < length xs" using j pj len by auto
  have inA: "xs ! k \<in> A" if "k < n" for k using that len A by (simp add: subset_iff)
  note sn = exch_nth [OF il jl]
  have ok: "\<not> lt (exch xs i j ! k) (exch xs i j ! parent k)"
    if k: "k < n" "0 < k" "L \<le> parent k" "parent k \<noteq> j" "k \<noteq> i0" for k
  proof (cases "k = i")
    case True
    then have "\<not> lt (xs ! j) (xs ! parent i)"
      using inv k pj j by (auto simp: down_inv_def)
    with True k pj show ?thesis using parent_less [of i] by (auto simp: sn)
  next
    case False
    show ?thesis
    proof (cases "parent k = i")
      case True
      then show ?thesis using False small [of k] k small_j pj asym [OF inA inA small_j] j
        by (auto simp: sn)
    next
      case pk: False
      then have "k \<noteq> j" using pj by auto
      with pk False k have "\<not> lt (xs ! k) (xs ! parent k)"
        using inv by (auto simp: down_inv_def)
      with pk False k \<open>k \<noteq> j\<close> show ?thesis by (simp add: sn)
    qed
  qed
  have ok0: "\<not> lt (exch xs i j ! i0) (exch xs i j ! parent i0)"
    if h: "0 < i0" "L \<le> parent i0"
  proof (cases "i = i0")
    case True
    then have "\<not> lt (xs ! j) (xs ! parent i0)"
      using inv h j(1) pj by (auto simp: down_inv_def)
    with True parent_less [OF h(1)] pj(2) show ?thesis
      by (simp only: sn [unfolded True]) simp
  next
    case False
    then have "\<not> lt (xs ! i0) (xs ! parent i0)" using inv h by (auto simp: down_inv_def)
    with False i0 pj parent_less [OF h(1)] show ?thesis by (simp add: sn)
  qed
  have grand: "\<not> lt (exch xs i j ! c) (exch xs i j ! parent j)"
    if c: "c < n" "0 < c" "parent c = j" "L \<le> parent j" for c
  proof -
    have "c > j" using c parent_less by force
    moreover have "\<not> lt (xs ! c) (xs ! parent c)"
      using inv c pj i0 calculation by (auto simp: down_inv_def)
    ultimately show ?thesis using c pj by (auto simp: sn)
  qed
  show ?thesis
    unfolding down_inv_def using i0 pj len A il jl ok ok0 grand by auto
qed

lemma heap_down_inv:
  assumes "down_inv L n i0 xs i"
  shows "case heap_down (slice_heap lt) xs i n of (ys, i') \<Rightarrow>
    down_inv L n i0 ys i' \<and> i \<le> i' \<and> mset ys = mset xs \<and> length ys = length xs \<and>
    (\<forall>k<length xs. n \<le> k \<longrightarrow> ys ! k = xs ! k) \<and>
    (\<forall>c<n. 0 < c \<longrightarrow> parent c = i' \<longrightarrow> \<not> lt (ys ! c) (ys ! i'))"
  using assms
proof (induction "n - i" arbitrary: xs i rule: less_induct)
  case (less i xs)
  define j where "j = heap_child (slice_heap lt) xs i n"
  have jc: "j = (if 2 * i + 2 < n \<and> lt (xs ! (2 * i + 2)) (xs ! (2 * i + 1)) then 2 * i + 2
    else 2 * i + 1)"
    by (simp add: j_def heap_child_def Let_def)
  have len: "n \<le> length xs" and A: "set xs \<subseteq> A" using less.prems by (auto simp: down_inv_def)
  show ?case
  proof (cases "n \<le> 2 * i + 1")
    case True
    then have "\<not> (c < n \<and> 0 < c \<and> parent c = i)" for c
      using child_ge [of c] by auto
    with True show ?thesis using less.prems by (auto simp: heap_down_stop)
  next
    case False
    have jn: "j < n" "j = 2 * i + 1 \<or> j = 2 * i + 2" "i < j"
      using False by (auto simp: jc)
    have inA: "xs ! k \<in> A" if "k < n" for k using that len A by (simp add: subset_iff)
    have sib: "\<not> lt (xs ! c) (xs ! j)" if "c < n" "0 < c" "parent c = i" "c \<noteq> j" for c
    proof -
      have "c = 2 * i + 1 \<and> j = 2 * i + 2 \<or> c = 2 * i + 2 \<and> j = 2 * i + 1"
        using parent_mono_gap [OF that(3,2)] that(4) jn(2) by auto
      then show ?thesis
      proof
        assume h: "c = 2 * i + 1 \<and> j = 2 * i + 2"
        then have "lt (xs ! j) (xs ! c)" by (simp add: jc split: if_splits)
        with asym [OF inA inA this] that(1) jn(1) show ?thesis by blast
      next
        assume "c = 2 * i + 2 \<and> j = 2 * i + 1"
        with that(1) show ?thesis by (auto simp: jc split: if_splits)
      qed
    qed
    show ?thesis
    proof (cases "lt (xs ! j) (xs ! i)")
      case stop: False
      have "\<not> lt (xs ! c) (xs ! i)" if "c < n" "0 < c" "parent c = i" for c
        using sib [OF that] stop neg_trans [OF inA inA inA, of c j i] that jn by (cases "c = j") auto
      with stop False less.prems show ?thesis
        by (simp add: heap_down_stop j_def)
    next
      case go: True
      have step: "down_inv L n i0 (exch xs i j) j"
        using down_inv_step [OF less.prems jn(1,2) sib go] .
      have IH: "case heap_down (slice_heap lt) (exch xs i j) j n of (ys, i') \<Rightarrow>
          down_inv L n i0 ys i' \<and> j \<le> i' \<and> mset ys = mset (exch xs i j) \<and>
          length ys = length (exch xs i j) \<and>
          (\<forall>k<length (exch xs i j). n \<le> k \<longrightarrow> ys ! k = exch xs i j ! k) \<and>
          (\<forall>c<n. 0 < c \<longrightarrow> parent c = i' \<longrightarrow> \<not> lt (ys ! c) (ys ! i'))"
        by (rule less.hyps [OF _ step]) (use jn in auto)
      have eq: "heap_down (slice_heap lt) xs i n = heap_down (slice_heap lt) (exch xs i j) j n"
        using False go by (simp add: heap_down_go j_def)
      have ij: "i < length xs" "j < length xs" using jn len by auto
      from IH show ?thesis
        unfolding eq using jn(1,3) ij by (auto simp: exch_nth)
    qed
  qed
qed
lemma heap_down_from:
  assumes "down_inv L n i xs i"
  shows "case heap_down (slice_heap lt) xs i n of (ys, i') \<Rightarrow>
    (\<forall>k<n. 0 < k \<longrightarrow> L \<le> parent k \<longrightarrow> k \<noteq> i \<or> i' > i \<longrightarrow> \<not> lt (ys ! k) (ys ! parent k)) \<and>
    (0 < i \<longrightarrow> L \<le> parent i \<longrightarrow> \<not> i' > i \<longrightarrow> ys = xs)"
proof -
  obtain ys i' where r: "heap_down (slice_heap lt) xs i n = (ys, i')" by fastforce
  have stay: "ys = xs" if "\<not> i' > i"
  proof (rule ccontr)
    assume "ys \<noteq> xs"
    with r that heap_down_inv [OF assms] show False
      using heap_down_stays [of i "slice_heap lt" xs n] by simp
  qed
  have "\<not> lt (ys ! k) (ys ! parent k)"
    if "k < n" "0 < k" "L \<le> parent k" "k \<noteq> i \<or> i' > i" for k
    using heap_down_inv [OF assms] that unfolding r down_inv_def by (cases "parent k = i'"; cases "k = i") auto
  with stay r show ?thesis by simp
qed

lemma heap_down_run:
  assumes "down_inv L n i xs i"
  obtains ys i' where "heap_down (slice_heap lt) xs i n = (ys, i')"
    "set ys \<subseteq> A" "mset ys = mset xs" "length ys = length xs"
    "\<And>k. n \<le> k \<Longrightarrow> k < length xs \<Longrightarrow> ys ! k = xs ! k"
    "\<And>k. k < n \<Longrightarrow> 0 < k \<Longrightarrow> L \<le> parent k \<Longrightarrow> k \<noteq> i \<or> i < i' \<Longrightarrow> \<not> lt (ys ! k) (ys ! parent k)"
    "\<not> i < i' \<Longrightarrow> ys = xs"
proof -
  obtain ys i' where r: "heap_down (slice_heap lt) xs i n = (ys, i')" by fastforce
  show ?thesis
  proof (rule that [OF r])
    show "ys = xs" if "\<not> i < i'"
      using heap_down_stays [of i "slice_heap lt" xs n] r that by simp
  qed (use heap_down_inv [OF assms] heap_down_from [OF assms] r in \<open>auto simp: down_inv_def\<close>)
qed

text \<open>\<open>heap_up\<close> repairs a slice in which only slot \<open>j\<close> may be less than its parent.\<close>

definition up_inv :: "nat \<Rightarrow> 'a list \<Rightarrow> nat \<Rightarrow> bool" where
  "up_inv n xs j \<longleftrightarrow> j < n \<and> n \<le> length xs \<and> set xs \<subseteq> A \<and>
     (\<forall>k<n. 0 < k \<longrightarrow> k \<noteq> j \<longrightarrow> \<not> lt (xs ! k) (xs ! parent k)) \<and>
     (0 < j \<longrightarrow> (\<forall>c<n. 0 < c \<longrightarrow> parent c = j \<longrightarrow> \<not> lt (xs ! c) (xs ! parent j)))"

lemma up_inv_step:
  assumes inv: "up_inv n xs j" and j: "0 < j" and less_p: "lt (xs ! j) (xs ! parent j)"
  shows "up_inv n (exch xs (parent j) j) (parent j)"
proof -
  define i where "i = parent j"
  have len: "n \<le> length xs" and A: "set xs \<subseteq> A" and jn: "j < n" and ij: "i < j"
    using inv parent_less [OF j] by (auto simp: up_inv_def i_def)
  have il: "i < length xs" and jl: "j < length xs" using jn ij len by auto
  have inA: "xs ! k \<in> A" if "k < n" for k using that len A by (simp add: subset_iff)
  have ok: "\<not> lt (xs ! k) (xs ! parent k)" if "k < n" "0 < k" "k \<noteq> j" for k
    using inv that by (auto simp: up_inv_def)
  have grand: "\<not> lt (xs ! c) (xs ! i)" if "c < n" "0 < c" "parent c = j" for c
    using inv that j by (auto simp: up_inv_def i_def)
  have ji: "lt (xs ! j) (xs ! i)" using less_p by (simp add: i_def)
  have ninv: "\<not> lt (xs ! i) (xs ! j)" using asym [OF inA inA ji] jn ij by simp
  have sib: "\<not> lt (xs ! k) (xs ! j)" if k: "k < n" "0 < k" "k \<noteq> j" "parent k = i" for k
  proof
    assume "lt (xs ! k) (xs ! j)"
    then have "\<not> lt (xs ! j) (xs ! k)" using asym inA k jn by blast
    moreover have "\<not> lt (xs ! k) (xs ! i)" using ok k by auto
    ultimately show False using neg_trans [OF inA inA inA, of j k i] ji k jn ij by auto
  qed
  note sn = exch_nth [OF il jl]
  have ok': "\<not> lt (exch xs i j ! k) (exch xs i j ! parent k)" if k: "k < n" "0 < k" "k \<noteq> i" for k
  proof (cases "k = j")
    case True
    then show ?thesis using ninv ij by (simp add: sn i_def [symmetric])
  next
    case False
    then show ?thesis
      using sib [OF k(1,2) False] grand [OF k(1,2)] ok [OF k(1,2) False] k ij
      by (cases "parent k = i"; cases "parent k = j") (auto simp: sn)
  qed
  have grand': "\<not> lt (exch xs i j ! c) (exch xs i j ! parent i)"
    if c: "c < n" "0 < c" "parent c = i" "0 < i" for c
  proof -
    have pi: "\<not> lt (xs ! i) (xs ! parent i)" "parent i < i"
      using ok [of i] c ij jn parent_less [of i] by auto
    show ?thesis
    proof (cases "c = j")
      case True
      then show ?thesis using pi ij by (simp add: sn)
    next
      case False
      then have "\<not> lt (xs ! c) (xs ! i)" using ok [of c] c by auto
      then have "\<not> lt (xs ! c) (xs ! parent i)"
        using neg_trans [OF inA inA inA, of c i "parent i"] pi c ij jn by auto
      then show ?thesis using False c pi ij parent_less [of c] by (auto simp: sn)
    qed
  qed
  show ?thesis
    unfolding i_def [symmetric] up_inv_def using ij jn len A il jl ok' grand' by auto
qed

lemma heap_up_slice:
  assumes "up_inv n xs j"
  shows "heap_from lt (heap_up (slice_heap lt) xs j) 0 n \<and>
    mset (heap_up (slice_heap lt) xs j) = mset xs \<and>
    (\<forall>k<length xs. n \<le> k \<longrightarrow> heap_up (slice_heap lt) xs j ! k = xs ! k)"
  using assms
proof (induction j arbitrary: xs rule: less_induct)
  case (less j)
  show ?case
  proof (cases "parent j = j \<or> \<not> lt (xs ! j) (xs ! parent j)")
    case True
    have "\<not> lt (xs ! k) (xs ! parent k)" if "k < n" "0 < k" for k
      using True less.prems parent_less [of k] that by (cases "k = j") (auto simp: up_inv_def)
    with True show ?thesis
      by (auto simp: heap_up_stop heap_from_def)
  next
    case False
    then have j: "0 < j" by (auto simp: parent_def intro: gr0I)
    have pj: "parent j < length xs" "j < length xs" "parent j < n" "j < n"
      using less.prems parent_less [OF j] by (auto simp: up_inv_def)
    have eq: "heap_up (slice_heap lt) xs j = heap_up (slice_heap lt) (exch xs (parent j) j) (parent j)"
      using False by (simp add: heap_up_go)
    have "up_inv n (exch xs (parent j) j) (parent j)"
      using up_inv_step [OF less.prems j] False by simp
    from less.IH [OF parent_less [OF j] this] pj show ?thesis
      unfolding eq by (auto simp: exch_nth)
  qed
qed

lemma is_heap_front:
  assumes "heap_from lt xs 0 n" "k < n" "n \<le> length xs" "set xs \<subseteq> A"
  shows "\<not> lt (xs ! k) (xs ! 0)"
  using assms(2)
proof (induction k rule: less_induct)
  case (less k)
  have inA: "xs ! m \<in> A" if "m < n" for m using that assms(3,4) by (simp add: subset_iff)
  show ?case
  proof (cases "k = 0")
    case True
    then show ?thesis using asym [of "xs ! 0" "xs ! 0"] inA [OF less.prems] by auto
  next
    case False
    then have p: "parent k < k" by (simp add: parent_less)
    then have "\<not> lt (xs ! parent k) (xs ! 0)" using less by simp
    moreover have "\<not> lt (xs ! k) (xs ! parent k)"
      using assms(1) less.prems False by (simp add: heap_from_def)
    ultimately show ?thesis
      using neg_trans [OF inA inA inA, of k "parent k" 0] p less.prems by auto
  qed
qed

text \<open>\<open>heap_sift\<close>, shared by \<open>Remove\<close> and \<open>Fix\<close>: slot \<open>i\<close> holds a new element.\<close>

definition sift_inv :: "nat \<Rightarrow> 'a list \<Rightarrow> nat \<Rightarrow> bool" where
  "sift_inv n xs i \<longleftrightarrow> i < n \<and> n \<le> length xs \<and> set xs \<subseteq> A \<and>
     (\<forall>k<n. 0 < k \<longrightarrow> parent k \<noteq> i \<longrightarrow> k \<noteq> i \<longrightarrow> \<not> lt (xs ! k) (xs ! parent k)) \<and>
     (0 < i \<longrightarrow> (\<forall>c<n. 0 < c \<longrightarrow> parent c = i \<longrightarrow> \<not> lt (xs ! c) (xs ! parent i)))"

lemma sift_inv_down: "sift_inv n xs i \<Longrightarrow> down_inv 0 n i xs i"
  by (auto simp: sift_inv_def down_inv_def)

lemma heap_sift_slice:
  assumes "sift_inv n xs i"
  shows "heap_from lt (heap_sift (slice_heap lt) xs i n) 0 n \<and>
    mset (heap_sift (slice_heap lt) xs i n) = mset xs \<and>
    (\<forall>k<length xs. n \<le> k \<longrightarrow> heap_sift (slice_heap lt) xs i n ! k = xs ! k)"
proof -
  obtain ys i' where r: "heap_down (slice_heap lt) xs i n = (ys, i')"
    and d: "mset ys = mset xs" "length ys = length xs"
    and tail: "\<And>k. n \<le> k \<Longrightarrow> k < length xs \<Longrightarrow> ys ! k = xs ! k"
    and f: "\<And>k. k < n \<Longrightarrow> 0 < k \<Longrightarrow> 0 \<le> parent k \<Longrightarrow> k \<noteq> i \<or> i < i' \<Longrightarrow>
      \<not> lt (ys ! k) (ys ! parent k)"
    and stay: "\<not> i < i' \<Longrightarrow> ys = xs"
    using heap_down_run [OF sift_inv_down [OF assms]] by metis
  show ?thesis
  proof (cases "i' > i")
    case True
    with d f r tail show ?thesis by (simp add: heap_sift_def heap_from_def)
  next
    case False
    then have "ys = xs" by (rule stay)
    moreover have "up_inv n xs i"
      using f False calculation assms by (auto simp: up_inv_def sift_inv_def)
    ultimately show ?thesis using False r heap_up_slice [of n xs i] by (simp add: heap_sift_def)
  qed
qed

lemma heap_Init_loop:
  assumes "set xs \<subseteq> A" "m \<le> length xs div 2" "heap_from lt xs m (length xs)"
  shows "is_heap lt (fold (\<lambda>i s. fst (heap_down (slice_heap lt) s i (length xs))) (rev [0..<m]) xs) \<and>
    mset (fold (\<lambda>i s. fst (heap_down (slice_heap lt) s i (length xs))) (rev [0..<m]) xs) = mset xs"
  using assms
proof (induction m arbitrary: xs)
  case 0
  then show ?case by (simp add: is_heap_def)
next
  case (Suc m)
  have inv: "down_inv m (length xs) m xs m"
    using Suc.prems parent_less [of m] by (auto simp: down_inv_def heap_from_def)
  obtain ys i' where r: "heap_down (slice_heap lt) xs m (length xs) = (ys, i')"
    and d: "set ys \<subseteq> A" "mset ys = mset xs" "length ys = length xs"
    and f: "\<And>k. k < length xs \<Longrightarrow> 0 < k \<Longrightarrow> m \<le> parent k \<Longrightarrow> k \<noteq> m \<or> m < i' \<Longrightarrow>
      \<not> lt (ys ! k) (ys ! parent k)"
    using heap_down_run [OF inv] by metis
  have "heap_from lt ys m (length ys)"
    using f d parent_less [of m] by (force simp: heap_from_def)
  then show ?case
    using Suc.IH [of ys] Suc.prems(2) d r by simp
qed

lemma slice_Init:
  assumes "set xs \<subseteq> A"
  shows "is_heap lt (heap_Init (slice_heap lt) xs) \<and> mset (heap_Init (slice_heap lt) xs) = mset xs"
proof -
  have "heap_from lt xs (length xs div 2) (length xs)"
    by (auto simp: heap_from_def parent_def)
  with heap_Init_loop [OF assms, of "length xs div 2"] show ?thesis
    by (simp add: heap_Init_def Let_def)
qed

lemma slice_Push:
  assumes "is_heap lt xs" "set xs \<subseteq> A" "x \<in> A"
  shows "is_heap lt (heap_Push (slice_heap lt) xs x) \<and>
    mset (heap_Push (slice_heap lt) xs x) = add_mset x (mset xs)"
proof -
  have "up_inv (Suc (length xs)) (xs @ [x]) (length xs)"
  proof -
    have "\<not> lt ((xs @ [x]) ! k) ((xs @ [x]) ! parent k)"
      if "k < Suc (length xs)" "0 < k" "k \<noteq> length xs" for k
      using assms(1) that parent_less [of k] by (auto simp: is_heap_def heap_from_def nth_append)
    moreover have "\<not> (c < Suc (length xs) \<and> 0 < c \<and> parent c = length xs)" for c
      using parent_less [of c] by auto
    ultimately show ?thesis using assms(2,3) by (auto simp: up_inv_def)
  qed
  note up = heap_up_slice [OF this]
  then have "length (heap_up (slice_heap lt) (xs @ [x]) (length xs)) = Suc (length xs)"
    by (metis length_append_singleton mset_eq_length)
  with up show ?thesis by (simp add: heap_Push_def Let_def is_heap_def)
qed

lemma heap_from_butlast:
  "heap_from lt xs 0 (length xs - 1) \<Longrightarrow> is_heap lt (butlast xs)"
proof -
  assume h: "heap_from lt xs 0 (length xs - 1)"
  have "\<not> lt (butlast xs ! k) (butlast xs ! parent k)" if "k < length xs - 1" "0 < k" for k
    using h that parent_less [of k] by (simp add: heap_from_def nth_butlast)
  then show ?thesis by (simp add: is_heap_def heap_from_def)
qed

lemma slice_Pop:
  assumes "is_heap lt xs" "set xs \<subseteq> A" "xs \<noteq> []"
  obtains x ys where "heap_Pop (slice_heap lt) xs = Some (x, ys)" "is_heap lt ys" "x = xs ! 0"
    "mset xs = add_mset x (mset ys)" "\<And>y. y \<in> set xs \<Longrightarrow> \<not> lt y x"
proof -
  let ?n = "length xs - 1" and ?s = "exch xs 0 (length xs - 1)"
  have n: "?n < length xs" "0 < length xs" using assms(3) by auto
  have "\<not> lt (?s ! k) (?s ! parent k)" if "k < ?n" "0 < k" "parent k \<noteq> 0" for k
    using assms(1) n that parent_less [of k] by (auto simp: is_heap_def heap_from_def exch_nth)
  with assms n have inv: "down_inv 0 ?n 0 ?s 0"
    by (auto simp: down_inv_def)
  obtain zs i' where r: "heap_down (slice_heap lt) ?s 0 ?n = (zs, i')"
    and d: "set zs \<subseteq> A" "mset zs = mset ?s" "length zs = length ?s"
    and tail: "\<And>k. ?n \<le> k \<Longrightarrow> k < length ?s \<Longrightarrow> zs ! k = ?s ! k"
    and f: "\<And>k. k < ?n \<Longrightarrow> 0 < k \<Longrightarrow> 0 \<le> parent k \<Longrightarrow> k \<noteq> 0 \<or> 0 < i' \<Longrightarrow>
      \<not> lt (zs ! k) (zs ! parent k)"
    and "\<not> 0 < i' \<Longrightarrow> zs = ?s"
    by (rule heap_down_run [OF inv]) blast
  have zs: "zs \<noteq> []" "mset zs = mset xs" "length zs = length xs" using d n by auto
  have "zs ! ?n = ?s ! ?n" using n by (simp add: tail)
  with n zs have last: "last zs = xs ! 0" by (simp add: last_conv_nth exch_nth)
  have "heap_from lt zs 0 (length zs - 1)"
    using zs by (simp add: heap_from_def f)
  then have h: "is_heap lt (butlast zs)" by (rule heap_from_butlast)
  have "heap_Pop (slice_heap lt) xs = Some (xs ! 0, butlast zs)"
    using assms(3) r last by (simp add: heap_Pop_def Let_def)
  moreover have "mset xs = add_mset (xs ! 0) (mset (butlast zs))"
    using mset_last_butlast [OF zs(1)] zs(2) last by simp
  moreover have "\<not> lt y (xs ! 0)" if "y \<in> set xs" for y
    using that assms(1,2) is_heap_front [of xs "length xs"] by (auto simp: in_set_conv_nth is_heap_def)
  ultimately show ?thesis using that h by blast
qed

lemma slice_Remove:
  assumes "is_heap lt xs" "set xs \<subseteq> A" "i < length xs"
  obtains ys where "heap_Remove (slice_heap lt) xs i = Some (xs ! i, ys)" "is_heap lt ys"
    "mset xs = add_mset (xs ! i) (mset ys)"
proof (cases "length xs - 1 = i")
  case True
  have "is_heap lt (butlast xs)"
    using assms(1) by (intro heap_from_butlast) (auto simp: is_heap_def heap_from_def)
  moreover have "xs \<noteq> []" using assms(3) by auto
  moreover have "last xs = xs ! i" using True last_conv_nth [OF calculation(2)] by simp
  moreover have "mset xs = add_mset (last xs) (mset (butlast xs))"
    using mset_last_butlast [OF calculation(2)] by simp
  ultimately show ?thesis
    using True assms(3) that [of "butlast xs"] by (simp add: heap_Remove_def Let_def)
next
  case False
  let ?n = "length xs - 1" and ?s = "exch xs i (length xs - 1)"
  have n: "?n < length xs" "i < ?n" using assms(3) False by auto
  have ok: "\<not> lt (xs ! k) (xs ! parent k)" if "k < length xs" "0 < k" for k
    using assms(1) that by (simp add: is_heap_def heap_from_def)
  have "\<not> lt (?s ! k) (?s ! parent k)" if "k < ?n" "0 < k" "parent k \<noteq> i" "k \<noteq> i" for k
    using ok [of k] n that parent_less [of k] assms(3) by (auto simp: exch_nth)
  moreover have "\<not> lt (?s ! c) (?s ! parent i)" if c: "c < ?n" "0 < c" "parent c = i" "0 < i" for c
  proof -
    have "xs ! k \<in> A" if "k < length xs" for k using that assms(2) by (simp add: subset_iff)
    then have "\<not> lt (xs ! c) (xs ! parent i)"
      using neg_trans [of "xs ! c" "xs ! i" "xs ! parent i"] ok [of c] ok [of i] c n parent_less [of i]
      by auto
    then show ?thesis using c n parent_less [of i] parent_less [of c] by (auto simp: exch_nth)
  qed
  ultimately have "sift_inv ?n ?s i"
    using n assms(2) by (auto simp: sift_inv_def)
  note sf = heap_sift_slice [OF this]
  let ?zs = "heap_sift (slice_heap lt) ?s i ?n"
  have zs: "mset ?zs = mset xs" "length ?zs = length xs"
    using sf n by (auto dest: mset_eq_length)
  have "?zs ! ?n = ?s ! ?n" using sf n by simp
  then have zn: "?zs \<noteq> []" "last ?zs = xs ! i"
    using n zs by (simp_all add: last_conv_nth exch_nth flip: length_greater_0_conv)
  have "is_heap lt (butlast ?zs)"
    using sf zs by (intro heap_from_butlast) simp
  moreover have "mset xs = add_mset (xs ! i) (mset (butlast ?zs))"
    using mset_last_butlast [OF zn(1)] zs zn by simp
  ultimately show ?thesis
    using that [of "butlast ?zs"] False assms(3) zn by (simp add: heap_Remove_def Let_def)
qed

lemma slice_Fix:
  assumes "is_heap lt xs" "set xs \<subseteq> A" "i < length xs" "x \<in> A"
  shows "is_heap lt (heap_Fix (slice_heap lt) (xs[i := x]) i) \<and>
    mset (heap_Fix (slice_heap lt) (xs[i := x]) i) = mset (xs[i := x])"
proof -
  let ?s = "xs[i := x]" and ?n = "length xs"
  have ok: "\<not> lt (xs ! k) (xs ! parent k)" if "k < length xs" "0 < k" for k
    using assms(1) that by (simp add: is_heap_def heap_from_def)
  have "\<not> lt (?s ! k) (?s ! parent k)" if "k < ?n" "0 < k" "parent k \<noteq> i" "k \<noteq> i" for k
    using ok [of k] that by auto
  moreover have "\<not> lt (?s ! c) (?s ! parent i)" if c: "c < ?n" "0 < c" "parent c = i" "0 < i" for c
  proof -
    have "xs ! k \<in> A" if "k < length xs" for k using that assms(2) by (simp add: subset_iff)
    then have "\<not> lt (xs ! c) (xs ! parent i)"
      using neg_trans [of "xs ! c" "xs ! i" "xs ! parent i"] ok [of c] ok [of i] c assms(3)
        parent_less [of i] by auto
    then show ?thesis using c parent_less [of i] parent_less [of c] by auto
  qed
  ultimately have "sift_inv ?n ?s i"
    using assms set_update_subset_insert [of xs i x] by (auto simp: sift_inv_def)
  from heap_sift_slice [OF this] show ?thesis
    by (auto simp: heap_Fix_def is_heap_def dest: mset_eq_length)
qed

end

subsection \<open>What an implementation of the interface owes\<close>

text \<open>
  \<open>lst\<close> reads the implementation's state as the slice of its elements; the five methods act on
  that slice as the methods of a plain slice do, and keep the implementation's invariant; an
  implementation may ask that a pushed element is \<open>fresh\<close>.
\<close>

locale heap_impl = heap_order lt A for lt :: "'a \<Rightarrow> 'a \<Rightarrow> bool" and A :: "'a set" +
  fixes H :: "('s, 'a) heap_iface" and lst :: "'s \<Rightarrow> 'a list" and inv :: "'s \<Rightarrow> bool"
    and fresh :: "'s \<Rightarrow> 'a \<Rightarrow> bool"
  assumes Len: "inv s \<Longrightarrow> hi_Len H s = length (lst s)"
    and Less: "inv s \<Longrightarrow> i < length (lst s) \<Longrightarrow> j < length (lst s) \<Longrightarrow>
      hi_Less H s i j = lt (lst s ! i) (lst s ! j)"
    and Swap: "inv s \<Longrightarrow> i < length (lst s) \<Longrightarrow> j < length (lst s) \<Longrightarrow>
      inv (hi_Swap H s i j) \<and> lst (hi_Swap H s i j) = exch (lst s) i j"
    and Push: "inv s \<Longrightarrow> fresh s x \<Longrightarrow> inv (hi_Push H s x) \<and> lst (hi_Push H s x) = lst s @ [x]"
    and Pop: "inv s \<Longrightarrow> lst s \<noteq> [] \<Longrightarrow> inv (snd (hi_Pop H s)) \<and>
      fst (hi_Pop H s) = last (lst s) \<and> lst (snd (hi_Pop H s)) = butlast (lst s)"
begin

lemma up_sim:
  "inv s \<Longrightarrow> j < length (lst s) \<Longrightarrow>
   inv (heap_up H s j) \<and> lst (heap_up H s j) = heap_up (slice_heap lt) (lst s) j"
proof (induction j arbitrary: s rule: less_induct)
  case (less j)
  show ?case
  proof (cases "parent j = j \<or> \<not> lt (lst s ! j) (lst s ! parent j)")
    case True
    have "parent j < length (lst s)"
      using less.prems(2) by (cases "j = 0") (auto dest: parent_less simp: parent_def)
    with True less.prems show ?thesis by (simp add: heap_up_stop Less)
  next
    case False
    then have p: "parent j < j" by (cases "j = 0") (auto dest: parent_less simp: parent_def)
    then have pl: "parent j < length (lst s)" using less.prems by simp
    note sw = Swap [OF less.prems(1) pl less.prems(2)]
    show ?thesis
      using False less.IH [OF p, of "hi_Swap H s (parent j) j"] sw pl less.prems
      by (simp add: heap_up_go Less)
  qed
qed

lemma child_sim:
  assumes "inv s" "n \<le> length (lst s)"
  shows "heap_child H s i n = heap_child (slice_heap lt) (lst s) i n"
  using assms by (auto simp: heap_child_def Let_def Less)

lemma down_sim:
  assumes "inv s" "n \<le> length (lst s)"
  shows "inv (fst (heap_down H s i n)) \<and>
    heap_down (slice_heap lt) (lst s) i n = (lst (fst (heap_down H s i n)), snd (heap_down H s i n))"
  using assms
proof (induction "n - i" arbitrary: s i rule: less_induct)
  case less
  let ?j = "heap_child H s i n"
  note ch = child_sim [OF less.prems, of i]
  show ?case
  proof (cases "n \<le> 2 * i + 1")
    case True
    then show ?thesis using less.prems by (simp add: heap_down_stop)
  next
    case False
    then have jn: "?j < n" "i < ?j" by (simp_all add: heap_child_less heap_child_gt)
    then have jl: "i < length (lst s)" "?j < length (lst s)" using less.prems by auto
    show ?thesis
    proof (cases "lt (lst s ! ?j) (lst s ! i)")
      case stop: False
      then show ?thesis using jl less.prems ch by (simp add: heap_down_stop Less)
    next
      case go: True
      note sw = Swap [OF less.prems(1) jl]
      have "n - ?j < n - i" using jn by auto
      from less.hyps [OF this, of "hi_Swap H s i ?j"] sw less.prems(2)
      show ?thesis using False go jl less.prems ch by (simp add: heap_down_go Less)
    qed
  qed
qed

lemma sift_sim:
  assumes "inv s" "n \<le> length (lst s)" "i < n"
  shows "inv (heap_sift H s i n) \<and> lst (heap_sift H s i n) = heap_sift (slice_heap lt) (lst s) i n"
proof (cases "i < snd (heap_down H s i n)")
  case True
  then show ?thesis using down_sim [OF assms(1,2), of i] by (simp add: heap_sift_def)
next
  case False
  then have "heap_down H s i n = (s, i)" by (rule heap_down_stays)
  then show ?thesis
    using down_sim [OF assms(1,2), of i] up_sim [OF assms(1), of i] assms by (simp add: heap_sift_def)
qed

lemma impl_Init:
  assumes "inv s" "set (lst s) \<subseteq> A"
  shows "inv (heap_Init H s) \<and> is_heap lt (lst (heap_Init H s)) \<and> mset (lst (heap_Init H s)) = mset (lst s)"
proof -
  have loop: "inv (fold (\<lambda>i s. fst (heap_down H s i n)) is s) \<and>
      lst (fold (\<lambda>i s. fst (heap_down H s i n)) is s) =
      fold (\<lambda>i s. fst (heap_down (slice_heap lt) s i n)) is (lst s)"
    if "inv s" "n \<le> length (lst s)" for "is" s n
    using that
  proof (induction "is" arbitrary: s)
    case (Cons i "is")
    have "length (lst (fst (heap_down H s i n))) = length (lst s)"
      using down_sim [OF Cons.prems(1,2), of i] length_heap_down [of lt "lst s" i n] Cons.prems(2)
      by simp
    with Cons.IH [of "fst (heap_down H s i n)"] down_sim [OF Cons.prems(1,2), of i] Cons.prems
    show ?case by simp
  qed simp
  show ?thesis
    using loop [OF assms(1), of "length (lst s)" "rev [0..<length (lst s) div 2]"]
      slice_Init [OF assms(2)] assms(1)
    by (simp add: heap_Init_def Let_def Len)
qed

lemma impl_Push:
  assumes "inv s" "is_heap lt (lst s)" "set (lst s) \<subseteq> A" "x \<in> A" "fresh s x"
  shows "inv (heap_Push H s x) \<and> is_heap lt (lst (heap_Push H s x)) \<and>
    mset (lst (heap_Push H s x)) = add_mset x (mset (lst s))"
  using up_sim [of "hi_Push H s x" "length (lst s)"] Push [OF assms(1,5)] slice_Push [OF assms(2-4)]
  by (simp add: heap_Push_def Let_def Len)

lemma impl_Pop:
  assumes "inv s" "is_heap lt (lst s)" "set (lst s) \<subseteq> A" "lst s \<noteq> []"
  obtains x s' where "heap_Pop H s = Some (x, s')" "inv s'" "is_heap lt (lst s')" "x = lst s ! 0"
    "mset (lst s) = add_mset x (mset (lst s'))" "\<And>y. y \<in> set (lst s) \<Longrightarrow> \<not> lt y x"
proof -
  let ?n = "length (lst s) - 1"
  have n: "0 < length (lst s)" "?n < length (lst s)" using assms(4) by auto
  note sw = Swap [OF assms(1) n]
  let ?s2 = "fst (heap_down H (hi_Swap H s 0 ?n) 0 ?n)"
  have d: "inv ?s2 \<and> fst (heap_down (slice_heap lt) (exch (lst s) 0 ?n) 0 ?n) = lst ?s2"
    using down_sim [of "hi_Swap H s 0 ?n" ?n 0] sw by simp
  obtain x ys where p: "heap_Pop (slice_heap lt) (lst s) = Some (x, ys)" "is_heap lt ys" "x = lst s ! 0"
    "mset (lst s) = add_mset x (mset ys)" "\<And>y. y \<in> set (lst s) \<Longrightarrow> \<not> lt y x"
    using slice_Pop [OF assms(2-4)] by blast
  then have xy: "x = last (lst ?s2)" "ys = butlast (lst ?s2)"
    using d n by (auto simp: heap_Pop_def Let_def)
  have "length (lst ?s2) = length (lst s)"
    using d length_heap_down [of lt "exch (lst s) 0 ?n" 0 ?n] by (metis One_nat_def diff_le_self length_exch)
  then have "lst ?s2 \<noteq> []" using n by auto
  with Pop [of ?s2] d xy have q: "fst (hi_Pop H ?s2) = x" "inv (snd (hi_Pop H ?s2))"
    "lst (snd (hi_Pop H ?s2)) = ys" by auto
  have "heap_Pop H s = Some (hi_Pop H ?s2)"
    using n assms(1) by (simp add: heap_Pop_def Let_def Len)
  then show ?thesis using that [of x "snd (hi_Pop H ?s2)"] p q by (cases "hi_Pop H ?s2") simp
qed

lemma impl_Remove:
  assumes "inv s" "is_heap lt (lst s)" "set (lst s) \<subseteq> A" "i < length (lst s)"
  obtains s' where "heap_Remove H s i = Some (lst s ! i, s')" "inv s'" "is_heap lt (lst s')"
    "mset (lst s) = add_mset (lst s ! i) (mset (lst s'))"
proof -
  let ?n = "length (lst s) - 1"
  have n: "?n < length (lst s)" using assms(4) by auto
  let ?s1 = "if ?n \<noteq> i then heap_sift H (hi_Swap H s i ?n) i ?n else s"
  let ?l1 = "if ?n \<noteq> i then heap_sift (slice_heap lt) (exch (lst s) i ?n) i ?n else lst s"
  have s1: "inv ?s1 \<and> lst ?s1 = ?l1"
    using sift_sim [of "hi_Swap H s i ?n" ?n i] Swap [OF assms(1,4) n] assms(1,4) by auto
  obtain ys where p: "heap_Remove (slice_heap lt) (lst s) i = Some (lst s ! i, ys)" "is_heap lt ys"
    "mset (lst s) = add_mset (lst s ! i) (mset ys)"
    using slice_Remove [OF assms(2-4)] by blast
  then have xy: "lst s ! i = last ?l1" "ys = butlast ?l1"
    using assms(4) by (auto simp: heap_Remove_def Let_def split: if_splits)
  have "length ?l1 = length (lst s)"
    using length_heap_sift [of i "exch (lst s) i ?n" lt ?n] assms(4) by simp
  then have "lst ?s1 \<noteq> []" using n s1 by auto
  with Pop [of ?s1] s1 xy have q: "fst (hi_Pop H ?s1) = lst s ! i" "inv (snd (hi_Pop H ?s1))"
    "lst (snd (hi_Pop H ?s1)) = ys" by auto
  have "heap_Remove H s i = Some (hi_Pop H ?s1)"
    using assms(1,4) by (simp add: heap_Remove_def Let_def Len)
  then show ?thesis using that [of "snd (hi_Pop H ?s1)"] p q by (cases "hi_Pop H ?s1") simp
qed

text \<open>\<open>Fix\<close> after the element at one slot has been changed.\<close>

lemma impl_Fix:
  assumes "inv s" "is_heap lt xs" "set xs \<subseteq> A" "x \<in> A" "i < length xs" "lst s = xs[i := x]"
  shows "inv (heap_Fix H s i) \<and> is_heap lt (lst (heap_Fix H s i)) \<and> mset (lst (heap_Fix H s i)) = mset (lst s)"
proof -
  have "inv (heap_sift H s i (length xs)) \<and> lst (heap_sift H s i (length xs)) = heap_sift (slice_heap lt) (lst s) i (length xs)"
    by (rule sift_sim [OF assms(1)]) (simp_all add: assms(5,6))
  then show ?thesis using slice_Fix [OF assms(2,3,5,4)] assms(1,6) by (simp add: heap_Fix_def Len)
qed

end

end
