(* ===== verification/Prque.thy ===== *)
theory Prque
  imports Go_Heap
begin

text \<open>
  The priority queue of \<open>common/prque\<close>: \<open>sstack.go\<close> keeps its items in blocks of \<open>blockSize\<close>
  slots and implements the heap interface over them, \<open>prque.go\<close> wraps it with \<open>container/heap\<close>.
  The abstraction \<open>ss_list\<close> reads the blocks as one slice; the interpretation \<open>prq\<close> shows that
  the block operations refine those of a slice, and the properties follow from \<open>heap_impl\<close>.
\<close>

section \<open>Model\<close>

definition blockSize :: nat where
  "blockSize = 4096"

record 'v item =
  it_value :: 'v
  it_priority :: int

text \<open>
  A slot is \<open>None\<close> when the pointer is nil.  The slice \<open>active\<close> always aliases one of the
  blocks, so it is the number of that block.  The optional call-back \<open>setIndex\<close> acts on a
  state of its own.
\<close>

record ('v, 'c) sstack =
  ss_setIndex :: "('v \<Rightarrow> int \<Rightarrow> 'c \<Rightarrow> 'c) option"
  ss_cb :: 'c
  ss_size :: nat
  ss_capacity :: nat
  ss_offset :: int
  ss_blocks :: "'v item option list list"
  ss_active :: nat

definition newSstack :: "('v \<Rightarrow> int \<Rightarrow> 'c \<Rightarrow> 'c) option \<Rightarrow> 'c \<Rightarrow> ('v, 'c) sstack" where
  "newSstack f c = \<lparr> ss_setIndex = f, ss_cb = c, ss_size = 0, ss_capacity = blockSize,
     ss_offset = 0, ss_blocks = [replicate blockSize None], ss_active = 0 \<rparr>"

definition ss_notify :: "('v, 'c) sstack \<Rightarrow> 'v \<Rightarrow> int \<Rightarrow> ('v, 'c) sstack" where
  "ss_notify s v i =
     (case ss_setIndex s of None \<Rightarrow> s | Some f \<Rightarrow> s\<lparr>ss_cb := f v i (ss_cb s)\<rparr>)"

definition slot :: "'a list list \<Rightarrow> nat \<Rightarrow> 'a" where
  "slot bs i = bs ! (i div blockSize) ! (i mod blockSize)"

definition set_slot :: "'a list list \<Rightarrow> nat \<Rightarrow> nat \<Rightarrow> 'a \<Rightarrow> 'a list list" where
  "set_slot bs b off x = bs[b := (bs ! b)[off := x]]"

definition ss_Push :: "('v, 'c) sstack \<Rightarrow> 'v item \<Rightarrow> ('v, 'c) sstack" where
  "ss_Push s x =
     (let s1 = (if ss_size s = ss_capacity s then
                  s\<lparr>ss_active := length (ss_blocks s), ss_blocks := ss_blocks s @ [replicate blockSize None],
                    ss_capacity := ss_capacity s + blockSize, ss_offset := 0\<rparr>
                else if ss_offset s = int blockSize then
                  s\<lparr>ss_active := ss_size s div blockSize, ss_offset := 0\<rparr>
                else s);
          s2 = ss_notify s1 (it_value x) (int (ss_size s1))
      in s2\<lparr>ss_blocks := set_slot (ss_blocks s2) (ss_active s2) (nat (ss_offset s2)) (Some x),
            ss_offset := ss_offset s2 + 1, ss_size := ss_size s2 + 1\<rparr>)"

definition ss_Pop :: "('v, 'c) sstack \<Rightarrow> 'v item \<times> ('v, 'c) sstack" where
  "ss_Pop s =
     (let s1 = s\<lparr>ss_size := ss_size s - 1, ss_offset := ss_offset s - 1\<rparr>;
          s2 = (if ss_offset s1 < 0 then
                  s1\<lparr>ss_offset := int blockSize - 1, ss_active := ss_size s1 div blockSize\<rparr> else s1);
          res = the (ss_blocks s2 ! ss_active s2 ! nat (ss_offset s2));
          s3 = s2\<lparr>ss_blocks := set_slot (ss_blocks s2) (ss_active s2) (nat (ss_offset s2)) None\<rparr>
      in (res, ss_notify s3 (it_value res) (- 1)))"

definition ss_Len :: "('v, 'c) sstack \<Rightarrow> nat" where
  "ss_Len s = ss_size s"

text \<open>Priorities are compared through the sign of their wrapped 64-bit difference.\<close>

definition prio_lt :: "'v item \<Rightarrow> 'v item \<Rightarrow> bool" where
  "prio_lt a b \<longleftrightarrow> int64 (it_priority a - it_priority b) > 0"

definition ss_Less :: "('v, 'c) sstack \<Rightarrow> nat \<Rightarrow> nat \<Rightarrow> bool" where
  "ss_Less s i j = prio_lt (the (slot (ss_blocks s) i)) (the (slot (ss_blocks s) j))"

definition ss_Swap :: "('v, 'c) sstack \<Rightarrow> nat \<Rightarrow> nat \<Rightarrow> ('v, 'c) sstack" where
  "ss_Swap s i j =
     (let ib = i div blockSize; io = i mod blockSize; jb = j div blockSize; jo = j mod blockSize;
          a = the (ss_blocks s ! jb ! jo); b = the (ss_blocks s ! ib ! io);
          s1 = ss_notify (ss_notify s (it_value a) (int i)) (it_value b) (int j)
      in s1\<lparr>ss_blocks := set_slot (set_slot (ss_blocks s1) ib io (Some a)) jb jo (Some b)\<rparr>)"

definition ss_Reset :: "('v, 'c) sstack \<Rightarrow> ('v, 'c) sstack" where
  "ss_Reset s = newSstack (ss_setIndex s) (ss_cb s)"

definition sstack_iface :: "(('v, 'c) sstack, 'v item) heap_iface" where
  "sstack_iface = \<lparr> hi_Len = ss_Len, hi_Less = ss_Less, hi_Swap = ss_Swap,
     hi_Push = ss_Push, hi_Pop = ss_Pop \<rparr>"

subsection \<open>prque.go\<close>

definition prque_New :: "('v \<Rightarrow> int \<Rightarrow> 'c \<Rightarrow> 'c) option \<Rightarrow> 'c \<Rightarrow> ('v, 'c) sstack" where
  "prque_New f c = newSstack f c"

definition prque_Push :: "('v, 'c) sstack \<Rightarrow> 'v \<Rightarrow> int \<Rightarrow> ('v, 'c) sstack" where
  "prque_Push p v pr = heap_Push sstack_iface p \<lparr> it_value = v, it_priority = pr \<rparr>"

definition prque_Pop :: "('v, 'c) sstack \<Rightarrow> (('v \<times> int) \<times> ('v, 'c) sstack) option" where
  "prque_Pop p = map_option (\<lambda>(it, p'). ((it_value it, it_priority it), p')) (heap_Pop sstack_iface p)"

definition prque_PopItem :: "('v, 'c) sstack \<Rightarrow> ('v \<times> ('v, 'c) sstack) option" where
  "prque_PopItem p = map_option (\<lambda>(it, p'). (it_value it, p')) (heap_Pop sstack_iface p)"

text \<open>A negative index returns nil and changes nothing (the outer \<open>Some\<close>, the inner \<open>None\<close>).\<close>

definition prque_Remove :: "('v, 'c) sstack \<Rightarrow> int \<Rightarrow> ('v item option \<times> ('v, 'c) sstack) option" where
  "prque_Remove p i =
     (if i < 0 then Some (None, p)
      else map_option (\<lambda>(it, p'). (Some it, p')) (heap_Remove sstack_iface p (nat i)))"

definition prque_Empty :: "('v, 'c) sstack \<Rightarrow> bool" where
  "prque_Empty p \<longleftrightarrow> ss_Len p = 0"

definition prque_Size :: "('v, 'c) sstack \<Rightarrow> nat" where
  "prque_Size p = ss_Len p"

definition prque_Reset :: "('v, 'c) sstack \<Rightarrow> ('v, 'c) sstack" where
  "prque_Reset p = prque_New (ss_setIndex p) (ss_cb p)"

section \<open>Abstraction and invariant\<close>

definition ss_list :: "('v, 'c) sstack \<Rightarrow> 'v item list" where
  "ss_list s = map (\<lambda>i. the (slot (ss_blocks s) i)) [0..<ss_size s]"

definition ss_inv :: "('v, 'c) sstack \<Rightarrow> bool" where
  "ss_inv s \<longleftrightarrow> (\<forall>b\<in>set (ss_blocks s). length b = blockSize) \<and>
     ss_capacity s = length (ss_blocks s) * blockSize \<and> ss_size s \<le> ss_capacity s \<and>
     ss_active s < length (ss_blocks s) \<and> 0 \<le> ss_offset s \<and> ss_offset s \<le> int blockSize \<and>
     int (ss_active s * blockSize) + ss_offset s = int (ss_size s)"

definition prio_window :: "int \<Rightarrow> 'v item set" where
  "prio_window lo = {it. lo \<le> it_priority it \<and> it_priority it < lo + 2 ^ 63}"

definition prque_ok :: "int \<Rightarrow> ('v, 'c) sstack \<Rightarrow> bool" where
  "prque_ok lo p \<longleftrightarrow> ss_inv p \<and> is_heap prio_lt (ss_list p) \<and> set (ss_list p) \<subseteq> prio_window lo"

section \<open>Lemmas\<close>

lemma blockSize_pos [simp]: "0 < blockSize" "blockSize \<noteq> 0"
  by (simp_all add: blockSize_def)

lemma notify_simps [simp]:
  "ss_size (ss_notify s v i) = ss_size s" "ss_capacity (ss_notify s v i) = ss_capacity s"
  "ss_offset (ss_notify s v i) = ss_offset s" "ss_blocks (ss_notify s v i) = ss_blocks s"
  "ss_active (ss_notify s v i) = ss_active s" "ss_setIndex (ss_notify s v i) = ss_setIndex s"
  by (simp_all add: ss_notify_def split: option.splits)

lemma slot_set_slot:
  assumes "b < length bs" "off < blockSize" "length (bs ! b) = blockSize"
  shows "slot (set_slot bs b off x) i = (if i = b * blockSize + off then x else slot bs i)"
proof (cases "i div blockSize = b")
  case True
  then have "i = b * blockSize + i mod blockSize" by (metis div_mult_mod_eq)
  with True assms show ?thesis by (auto simp: slot_def set_slot_def nth_list_update)
next
  case False
  then have "i \<noteq> b * blockSize + off" using assms(2) by auto
  with False assms(1) show ?thesis by (simp add: slot_def set_slot_def)
qed

lemma blocks_set_slot:
  "\<forall>b\<in>set bs. length b = blockSize \<Longrightarrow> b < length bs \<Longrightarrow>
   \<forall>b\<in>set (set_slot bs b off x). length b = blockSize"
  by (auto simp: set_slot_def dest!: set_update_subset_insert [THEN subsetD])

lemma length_set_slot [simp]: "length (set_slot bs b off x) = length bs"
  by (simp add: set_slot_def)

lemma slot_append_block:
  assumes "i < length bs * blockSize"
  shows "slot (bs @ [c]) i = slot bs i"
  using assms by (simp add: slot_def nth_append less_mult_imp_div_less)

lemma length_ss_list [simp]: "length (ss_list s) = ss_size s"
  by (simp add: ss_list_def)

lemma ss_list_nth [simp]: "i < ss_size s \<Longrightarrow> ss_list s ! i = the (slot (ss_blocks s) i)"
  by (simp add: ss_list_def)

lemma ss_list_eq_Nil [simp]: "ss_list s = [] \<longleftrightarrow> ss_size s = 0"
  by (simp add: ss_list_def)

lemma ss_inv_block: "ss_inv s \<Longrightarrow> i < ss_size s \<Longrightarrow> i div blockSize < length (ss_blocks s)"
  by (auto simp: ss_inv_def less_mult_imp_div_less)

lemma ss_inv_pos: "ss_inv s \<Longrightarrow> ss_active s * blockSize + nat (ss_offset s) = ss_size s"
proof -
  assume "ss_inv s"
  then have "int (ss_active s * blockSize) + int (nat (ss_offset s)) = int (ss_size s)"
    by (simp add: ss_inv_def)
  then show ?thesis by (simp only: of_nat_add [symmetric] of_nat_eq_iff)
qed

lemma ss_inv_full:
  assumes "ss_inv s" "ss_offset s = int blockSize"
  shows "ss_size s = Suc (ss_active s) * blockSize" "ss_size s div blockSize = Suc (ss_active s)"
proof -
  show "ss_size s = Suc (ss_active s) * blockSize"
    using ss_inv_pos [OF assms(1)] assms(2) by simp
  then show "ss_size s div blockSize = Suc (ss_active s)" by simp
qed

lemma ss_Push_refines:
  assumes "ss_inv s"
  shows "ss_inv (ss_Push s x) \<and> ss_list (ss_Push s x) = ss_list s @ [x]"
proof -
  define s1 where "s1 = (if ss_size s = ss_capacity s then
      s\<lparr>ss_active := length (ss_blocks s), ss_blocks := ss_blocks s @ [replicate blockSize None],
        ss_capacity := ss_capacity s + blockSize, ss_offset := 0\<rparr>
    else if ss_offset s = int blockSize then s\<lparr>ss_active := ss_size s div blockSize, ss_offset := 0\<rparr>
    else s)"
  have inv1: "ss_inv s1" "ss_offset s1 < int blockSize" "ss_size s1 = ss_size s"
    "ss_size s < ss_capacity s1"
    "\<And>i. i < ss_size s \<Longrightarrow> slot (ss_blocks s1) i = slot (ss_blocks s) i"
  proof -
    show "ss_inv s1"
      using assms ss_inv_full [OF assms] mult_less_cancel2 [of "Suc (ss_active s)" blockSize "length (ss_blocks s)"]
      by (simp add: s1_def ss_inv_def) (auto simp: algebra_simps)
  qed (use assms in \<open>auto simp: s1_def ss_inv_def slot_append_block\<close>)
  have pos: "ss_active s1 * blockSize + nat (ss_offset s1) = ss_size s" "nat (ss_offset s1) < blockSize"
    "ss_active s1 < length (ss_blocks s1)" "length (ss_blocks s1 ! ss_active s1) = blockSize"
    using inv1 ss_inv_pos [OF inv1(1)] by (auto simp: ss_inv_def)
  have push: "ss_Push s x = (ss_notify s1 (it_value x) (int (ss_size s1)))
    \<lparr>ss_blocks := set_slot (ss_blocks s1) (ss_active s1) (nat (ss_offset s1)) (Some x),
      ss_offset := ss_offset s1 + 1, ss_size := ss_size s1 + 1\<rparr>"
    by (simp add: ss_Push_def s1_def [symmetric] Let_def)
  have "ss_inv (ss_Push s x)"
    using inv1 pos blocks_set_slot [of "ss_blocks s1" "ss_active s1"]
    by (auto simp: push ss_inv_def)
  moreover have "ss_list (ss_Push s x) = ss_list s @ [x]"
    using inv1 pos slot_set_slot [OF pos(3,2,4)]
    by (auto simp: push ss_list_def intro!: map_cong)
  ultimately show ?thesis by simp
qed

lemma ss_Pop_refines:
  assumes "ss_inv s" "ss_size s \<noteq> 0"
  shows "ss_inv (snd (ss_Pop s)) \<and> fst (ss_Pop s) = last (ss_list s) \<and>
    ss_list (snd (ss_Pop s)) = butlast (ss_list s)"
proof -
  define s2 where "s2 = (if ss_offset s - 1 < 0 then
      s\<lparr>ss_size := ss_size s - 1, ss_offset := int blockSize - 1, ss_active := (ss_size s - 1) div blockSize\<rparr>
    else s\<lparr>ss_size := ss_size s - 1, ss_offset := ss_offset s - 1\<rparr>)"
  have inv2: "ss_inv s2" "ss_offset s2 < int blockSize" "ss_size s2 = ss_size s - 1"
    "ss_blocks s2 = ss_blocks s"
  proof -
    show "ss_inv s2"
    proof (cases "ss_offset s = 0")
      case True
      then have sz: "ss_size s = ss_active s * blockSize" using ss_inv_pos [OF assms(1)] by simp
      then obtain a where a: "ss_active s = Suc a" using assms(2) by (cases "ss_active s") auto
      have "(ss_size s - 1) div blockSize = a"
        using sz a by (simp add: div_nat_eqI blockSize_def)
      moreover have "int (ss_size s - 1) = int (a * blockSize) + (int blockSize - 1)"
        using sz a by (simp add: of_nat_diff Suc_leI)
      ultimately show ?thesis using True a assms by (auto simp: s2_def ss_inv_def)
    next
      case False
      with assms show ?thesis by (auto simp: s2_def ss_inv_def of_nat_diff)
    qed
  qed (use assms in \<open>auto simp: s2_def ss_inv_def\<close>)
  have pos: "ss_active s2 * blockSize + nat (ss_offset s2) = ss_size s - 1" "nat (ss_offset s2) < blockSize"
    "ss_active s2 < length (ss_blocks s)" "length (ss_blocks s ! ss_active s2) = blockSize"
    using inv2 ss_inv_pos [OF inv2(1)] by (auto simp: ss_inv_def)
  let ?res = "the (ss_blocks s ! ss_active s2 ! nat (ss_offset s2))"
  have pop: "ss_Pop s = (?res, ss_notify (s2\<lparr>ss_blocks :=
      set_slot (ss_blocks s) (ss_active s2) (nat (ss_offset s2)) None\<rparr>) (it_value ?res) (- 1))"
    by (simp add: ss_Pop_def s2_def Let_def)
  have "slot (ss_blocks s) (ss_size s - 1) = ss_blocks s ! ss_active s2 ! nat (ss_offset s2)"
    unfolding pos(1) [symmetric] using pos(2) by (simp add: slot_def)
  then have "fst (ss_Pop s) = last (ss_list s)"
    using assms(2) by (simp add: pop last_conv_nth)
  moreover have "ss_inv (snd (ss_Pop s))"
    using inv2 pos blocks_set_slot [of "ss_blocks s" "ss_active s2"]
    by (auto simp: pop ss_inv_def)
  moreover have "ss_list (snd (ss_Pop s)) = butlast (ss_list s)"
    using inv2 pos slot_set_slot [OF pos(3,2,4)]
    by (auto simp: pop ss_list_def butlast_conv_take take_map intro!: map_cong)
  ultimately show ?thesis by simp
qed

lemma ss_Swap_refines:
  assumes "ss_inv s" "i < ss_size s" "j < ss_size s"
  shows "ss_inv (ss_Swap s i j) \<and> ss_list (ss_Swap s i j) = exch (ss_list s) i j"
proof -
  let ?a = "the (slot (ss_blocks s) j)" and ?b = "the (slot (ss_blocks s) i)"
  let ?bs1 = "set_slot (ss_blocks s) (i div blockSize) (i mod blockSize) (Some ?a)"
  let ?bs2 = "set_slot ?bs1 (j div blockSize) (j mod blockSize) (Some ?b)"
  have ib: "i div blockSize < length (ss_blocks s)" and jb: "j div blockSize < length (ss_blocks s)"
    using assms ss_inv_block by auto
  have bl: "\<forall>b\<in>set (ss_blocks s). length b = blockSize" using assms(1) by (simp add: ss_inv_def)
  note bl1 = blocks_set_slot [OF bl ib, of "i mod blockSize" "Some ?a"]
  have bl2: "\<forall>b\<in>set ?bs2. length b = blockSize"
    using blocks_set_slot [OF bl1] jb by simp
  have s1: "slot ?bs1 k = (if k = i then Some ?a else slot (ss_blocks s) k)" for k
    using slot_set_slot [OF ib, of "i mod blockSize" "Some ?a" k] bl ib by simp
  have s2: "slot ?bs2 k = (if k = j then Some ?b else slot ?bs1 k)" for k
    using slot_set_slot [of "j div blockSize" ?bs1 "j mod blockSize" "Some ?b" k] bl1 jb by simp
  have sw: "ss_Swap s i j = (ss_notify (ss_notify s (it_value ?a) (int i)) (it_value ?b) (int j))
    \<lparr>ss_blocks := ?bs2\<rparr>"
    by (simp add: ss_Swap_def Let_def slot_def)
  have "ss_list (ss_Swap s i j) = exch (ss_list s) i j"
    by (rule nth_equalityI) (use assms in \<open>auto simp: sw s2 s1 exch_nth\<close>)
  moreover have "ss_inv (ss_Swap s i j)" using assms bl2 by (simp add: sw ss_inv_def)
  ultimately show ?thesis by simp
qed

lemma sstack_iface_simps [simp]:
  "hi_Len sstack_iface = ss_Len" "hi_Less sstack_iface = ss_Less" "hi_Swap sstack_iface = ss_Swap"
  "hi_Push sstack_iface = ss_Push" "hi_Pop sstack_iface = ss_Pop"
  by (simp_all add: sstack_iface_def)

lemma prio_lt_window:
  "a \<in> prio_window lo \<Longrightarrow> b \<in> prio_window lo \<Longrightarrow> prio_lt a b \<longleftrightarrow> it_priority b < it_priority a"
  by (simp add: prio_lt_def prio_window_def in_int64_def MinInt64_def MaxInt64_def)

interpretation prq: heap_impl prio_lt "prio_window lo" sstack_iface ss_list ss_inv "\<lambda>_ _. True" for lo
  by unfold_locales
    (auto simp: prio_lt_window ss_Len_def ss_Less_def ss_Push_refines ss_Pop_refines ss_Swap_refines)

section \<open>Properties\<close>

lemma newSstack_ok: "prque_ok lo (newSstack f c)" "ss_list (newSstack f c) = []"
  by (auto simp: prque_ok_def newSstack_def ss_inv_def ss_list_def is_heap_def heap_from_def)

lemma prque_Push_mset:
  assumes "prque_ok lo p" "lo \<le> pr" "pr < lo + 2 ^ 63"
  shows "prque_ok lo (prque_Push p v pr) \<and>
    mset (ss_list (prque_Push p v pr)) =
      add_mset \<lparr> it_value = v, it_priority = pr \<rparr> (mset (ss_list p))"
proof -
  let ?it = "\<lparr> it_value = v, it_priority = pr \<rparr>"
  have "?it \<in> prio_window lo" using assms by (simp add: prio_window_def)
  with assms(1) prq.impl_Push [of p lo ?it] show ?thesis
    unfolding prque_ok_def prque_Push_def
    by (metis insert_subset set_mset_add_mset_insert set_mset_mset)
qed

lemma prque_Pop_max:
  assumes "prque_ok lo p" "\<not> prque_Empty p"
  obtains v pr p' where "prque_Pop p = Some ((v, pr), p')" "prque_ok lo p'"
    "mset (ss_list p) = add_mset \<lparr> it_value = v, it_priority = pr \<rparr> (mset (ss_list p'))"
    "\<And>it. it \<in> set (ss_list p) \<Longrightarrow> it_priority it \<le> pr"
proof -
  have ok: "ss_inv p" "is_heap prio_lt (ss_list p)" "set (ss_list p) \<subseteq> prio_window lo"
    and ne: "ss_list p \<noteq> []"
    using assms by (auto simp: prque_ok_def prque_Empty_def ss_Len_def)
  obtain x p' where r: "heap_Pop sstack_iface p = Some (x, p')" "ss_inv p'" "is_heap prio_lt (ss_list p')"
    "mset (ss_list p) = add_mset x (mset (ss_list p'))" and le: "\<And>y. y \<in> set (ss_list p) \<Longrightarrow> \<not> prio_lt y x"
    using prq.impl_Pop [OF ok ne] by metis
  have sub: "insert x (set (ss_list p')) = set (ss_list p)"
    using r(4) by (metis set_mset_add_mset_insert set_mset_mset)
  have "it_priority it \<le> it_priority x" if "it \<in> set (ss_list p)" for it
    using le [OF that] that sub ok(3) prio_lt_window [of it lo x] by (auto simp: not_less)
  moreover have "prque_ok lo p'" using r sub ok(3) by (auto simp: prque_ok_def)
  ultimately show ?thesis
    using that [of "it_value x" "it_priority x" p'] r by (cases x) (simp add: prque_Pop_def)
qed

section \<open>Properties\<close>

text \<open>Pushing a list of values with their priorities, and popping until the queue is empty.\<close>

definition push_all :: "('v \<times> int) list \<Rightarrow> ('v, 'c) sstack \<Rightarrow> ('v, 'c) sstack" where
  "push_all xs p = fold (\<lambda>(v, pr) p. prque_Push p v pr) xs p"

fun pop_n :: "nat \<Rightarrow> ('v, 'c) sstack \<Rightarrow> (('v \<times> int) list \<times> ('v, 'c) sstack) option" where
  "pop_n 0 p = Some ([], p)"
| "pop_n (Suc n) p = (case prque_Pop p of None \<Rightarrow> None
     | Some (x, p') \<Rightarrow> map_option (\<lambda>(xs, p''). (x # xs, p'')) (pop_n n p'))"

definition item_pair :: "'v item \<Rightarrow> 'v \<times> int" where
  "item_pair it = (it_value it, it_priority it)"

lemma item_pair_simp [simp]: "item_pair \<lparr> it_value = v, it_priority = pr \<rparr> = (v, pr)"
  by (simp add: item_pair_def)

lemma push_all_spec:
  assumes "prque_ok lo p" "\<forall>(v, pr)\<in>set xs. lo \<le> pr \<and> pr < lo + 2 ^ 63"
  shows "prque_ok lo (push_all xs p) \<and>
    image_mset item_pair (mset (ss_list (push_all xs p))) = image_mset item_pair (mset (ss_list p)) + mset xs"
  using assms
proof (induction xs arbitrary: p)
  case (Cons x xs)
  obtain v pr where x: "x = (v, pr)" by (cases x)
  with Cons.prems have "prque_ok lo (prque_Push p v pr) \<and>
      mset (ss_list (prque_Push p v pr)) = add_mset \<lparr> it_value = v, it_priority = pr \<rparr> (mset (ss_list p))"
    by (intro prque_Push_mset) auto
  with Cons.IH [of "prque_Push p v pr"] Cons.prems x show ?case
    by (simp add: push_all_def)
qed (simp add: push_all_def)

lemma pop_n_spec:
  assumes "prque_ok lo p" "prque_Size p = n"
  shows "\<exists>xs p'. pop_n n p = Some (xs, p') \<and> prque_Empty p' \<and>
    mset xs = image_mset item_pair (mset (ss_list p)) \<and> sorted_wrt (\<lambda>x y. snd x \<ge> snd y) xs"
  using assms
proof (induction n arbitrary: p)
  case 0
  then show ?case by (simp add: prque_Empty_def prque_Size_def ss_Len_def ss_list_def)
next
  case (Suc n)
  then have "\<not> prque_Empty p" by (simp add: prque_Empty_def prque_Size_def)
  then obtain v pr p' where p: "prque_Pop p = Some ((v, pr), p')" "prque_ok lo p'"
    "mset (ss_list p) = add_mset \<lparr> it_value = v, it_priority = pr \<rparr> (mset (ss_list p'))"
    and max: "\<And>it. it \<in> set (ss_list p) \<Longrightarrow> it_priority it \<le> pr"
    using prque_Pop_max [OF Suc.prems(1)] by blast
  have "prque_Size p' = n"
    using Suc.prems(2) arg_cong [OF p(3), of size] by (simp add: prque_Size_def ss_Len_def)
  from Suc.IH [OF p(2) this] obtain xs p'' where ih: "pop_n n p' = Some (xs, p'')" "prque_Empty p''"
    "mset xs = image_mset item_pair (mset (ss_list p'))" "sorted_wrt (\<lambda>x y. snd x \<ge> snd y) xs" by blast
  have "snd x \<le> pr" if "x \<in> set xs" for x
  proof -
    have "x \<in># image_mset item_pair (mset (ss_list p'))" using that ih(3) by (metis set_mset_mset)
    then obtain it where "it \<in> set (ss_list p')" "x = item_pair it" by auto
    moreover have "set (ss_list p') \<subseteq> set (ss_list p)"
      using p(3) by (metis set_mset_add_mset_insert set_mset_mset subset_insertI)
    ultimately show ?thesis using max by (auto simp: item_pair_def)
  qed
  with ih p show ?case by simp
qed

text \<open>Values pushed with priorities that lie less than \<open>2^63\<close> apart come out of the priority
  queue complete, without a panic and in order of falling priority, across the 4096-slot blocks of the
  stack behind it; then the queue is empty.\<close>

theorem prque_drains_in_order:
  assumes "\<forall>(v, pr)\<in>set xs. lo \<le> pr \<and> pr < lo + 2 ^ 63"
  shows "\<exists>ys p. pop_n (length xs) (push_all xs (prque_New f c)) = Some (ys, p) \<and> prque_Empty p \<and>
    mset ys = mset xs \<and> sorted_wrt (\<lambda>x y. snd x \<ge> snd y) ys"
proof -
  let ?p = "push_all xs (prque_New f c)"
  have p: "prque_ok lo ?p" "image_mset item_pair (mset (ss_list ?p)) = mset xs"
    using push_all_spec [OF newSstack_ok(1) assms, of f c] newSstack_ok(2) [of f c] by (auto simp: prque_New_def)
  then have "prque_Size ?p = length xs"
    by (metis prque_Size_def ss_Len_def length_ss_list size_image_mset size_mset)
  with pop_n_spec [OF p(1) this] p(2) show ?thesis by simp
qed

theorem prque_drains_in_order_witness:
  "\<exists>ys p. pop_n 3 (push_all [(''a'', 5), (''b'', 9), (''c'', - 2)] (prque_New None ())) = Some (ys, p) \<and>
    prque_Empty p \<and> mset ys = mset [(''a'', 5), (''b'', 9), (''c'', - 2)] \<and> sorted_wrt (\<lambda>x y. snd x \<ge> snd y) ys"
  using prque_drains_in_order [of "[(''a'', 5), (''b'', 9), (''c'', - 2)]" "- 2" None "()"] by (simp add: numeral_3_eq_3)

end
