(* ===== verification/Transaction.thy ===== *)
theory Transaction
  imports Prelude
begin

text \<open>
  \<open>common/transaction.go\<close>: addresses, hashes and the transaction struct that the pool, the
  application manager and the ledger exchange.
\<close>

section \<open>Model\<close>

text \<open>\<open>Address\<close> is \<open>[20]byte\<close> and \<open>Hash\<close> is \<open>[32]byte\<close>; the pointer fields of the signature may be nil.\<close>

type_synonym address = bytes
type_synonym hash = bytes

record transaction =
  tx_ContractName :: string
  tx_Payload :: bytes
  tx_Txid :: hash
  tx_From :: address
  tx_NonceValue :: u64
  tx_V :: "int option"
  tx_R :: "int option"
  tx_S :: "int option"

definition HGS :: string where
  "HGS = ''hgs''"

definition HNB :: string where
  "HNB = ''hnb''"

definition NewTransaction :: transaction where
  "NewTransaction = \<lparr> tx_ContractName = [], tx_Payload = [], tx_Txid = replicate 32 0,
     tx_From = replicate 20 0, tx_NonceValue = 0, tx_V = None, tx_R = None, tx_S = None \<rparr>"

text \<open>\<open>copy(dst[k:], src)\<close>: overwrite as many bytes as both slices hold.\<close>

definition go_copy :: "'a list \<Rightarrow> nat \<Rightarrow> 'a list \<Rightarrow> 'a list" where
  "go_copy dst k src = (let n = min (length dst - k) (length src)
     in take k dst @ take n src @ drop (k + n) dst)"

definition Hash_GetBytes :: "hash \<Rightarrow> bytes" where
  "Hash_GetBytes h = go_copy (replicate 32 0) 0 h"

definition Address_SetBytes :: "address \<Rightarrow> bytes \<Rightarrow> address" where
  "Address_SetBytes a b =
     (let b' = (if length b > length a then drop (length b - 20) b else b)
      in go_copy a (20 - length b') b')"

definition Address_GetBytes :: "address \<Rightarrow> bytes" where
  "Address_GetBytes a = go_copy (replicate 20 0) 0 a"

definition TxByNonce_Less :: "transaction list \<Rightarrow> nat \<Rightarrow> nat \<Rightarrow> bool" where
  "TxByNonce_Less s i j \<longleftrightarrow> tx_NonceValue (s ! i) < tx_NonceValue (s ! j)"

text \<open>
  \<open>sort.Sort(TxByNonce(s))\<close>.  The sort is not stable; the pool only sorts transactions with
  distinct nonces, where the result does not depend on that.
\<close>

definition sort_TxByNonce :: "transaction list \<Rightarrow> transaction list" where
  "sort_TxByNonce s = sort_key tx_NonceValue s"

text \<open>\<open>big.Int.Bytes\<close>: the absolute value in big-endian order without leading zeros.\<close>

fun big_Bytes :: "nat \<Rightarrow> bytes" where
  "big_Bytes n = (if n = 0 then [] else big_Bytes (n div 256) @ [of_nat (n mod 256)])"

declare big_Bytes.simps [simp del]

text \<open>\<open>big.Int.SetBytes\<close>.\<close>

definition big_SetBytes :: "bytes \<Rightarrow> int" where
  "big_SetBytes b = fold (\<lambda>c acc. acc * 256 + uint c) b 0"

section \<open>Lemmas\<close>

lemma Address_GetBytes_id [simp]: "length a = 20 \<Longrightarrow> Address_GetBytes a = a"
  by (simp add: Address_GetBytes_def go_copy_def)

lemma Hash_GetBytes_id [simp]: "length h = 32 \<Longrightarrow> Hash_GetBytes h = h"
  by (simp add: Hash_GetBytes_def go_copy_def)

lemma length_Address_SetBytes [simp]: "length a = 20 \<Longrightarrow> length (Address_SetBytes a b) = 20"
  by (auto simp: Address_SetBytes_def go_copy_def Let_def)

lemma Address_SetBytes_full:
  assumes "length a = 20" "20 \<le> length b"
  shows "Address_GetBytes (Address_SetBytes a b) = drop (length b - 20) b"
  using assms by (auto simp: Address_GetBytes_def Address_SetBytes_def go_copy_def Let_def)

end
