(* ===== verification/TxList.thy ===== *)
theory TxList
  imports Go_Heap Transaction
begin

text \<open>
  \<open>txpool/tx_list.go\<close>: \<open>nonceHeap\<close>, the nonce-indexed map \<open>txSortedMap\<close> and the per-account
  \<open>txList\<close>.  The specification of a sorted map is the list \<open>sm_list\<close> of its transactions in nonce
  order; each operation is proved to act on that list as the obvious list function does.
\<close>

section \<open>nonceHeap\<close>

definition nonceHeap_Len :: "u64 list \<Rightarrow> nat" where
  "nonceHeap_Len h = length h"

definition nonceHeap_Less :: "u64 list \<Rightarrow> nat \<Rightarrow> nat \<Rightarrow> bool" where
  "nonceHeap_Less h i j \<longleftrightarrow> h ! i < h ! j"

definition nonceHeap_Swap :: "u64 list \<Rightarrow> nat \<Rightarrow> nat \<Rightarrow> u64 list" where
  "nonceHeap_Swap h i j = h[i := h ! j, j := h ! i]"

definition nonceHeap_Push :: "u64 list \<Rightarrow> u64 \<Rightarrow> u64 list" where
  "nonceHeap_Push h x = h @ [x]"

definition nonceHeap_Pop :: "u64 list \<Rightarrow> u64 \<times> u64 list" where
  "nonceHeap_Pop old = (let n = length old; x = old ! (n - 1) in (x, take (n - 1) old))"

definition nonceHeap :: "(u64 list, u64) heap_iface" where
  "nonceHeap = \<lparr> hi_Len = nonceHeap_Len, hi_Less = nonceHeap_Less, hi_Swap = nonceHeap_Swap,
     hi_Push = nonceHeap_Push, hi_Pop = nonceHeap_Pop \<rparr>"

lemma nonceHeap_simps [simp]:
  "hi_Len nonceHeap = length" "hi_Less nonceHeap h i j = (h ! i < h ! j)"
  "hi_Swap nonceHeap = exch" "hi_Push nonceHeap h x = h @ [x]"
  by (simp_all add: nonceHeap_def nonceHeap_Len_def nonceHeap_Less_def nonceHeap_Swap_def exch_def
      nonceHeap_Push_def fun_eq_iff)

lemma nonceHeap_Pop_simp [simp]: "h \<noteq> [] \<Longrightarrow> hi_Pop nonceHeap h = (last h, butlast h)"
  by (simp add: nonceHeap_def nonceHeap_Pop_def Let_def last_conv_nth butlast_conv_take)

interpretation nh: heap_impl "(<) :: u64 \<Rightarrow> u64 \<Rightarrow> bool" UNIV nonceHeap "\<lambda>h. h" "\<lambda>_. True" "\<lambda>_ _. True"
  by unfold_locales auto

lemma nonceHeap_Pop_shorter [termination_simp]:
  assumes "heap_Pop nonceHeap h = Some (x, h')"
  shows "length h' < length h"
proof -
  let ?n = "length h - 1"
  have h: "h \<noteq> []" using assms by (auto simp: heap_Pop_def split: if_splits)
  let ?d = "fst (heap_down nonceHeap (exch h 0 ?n) 0 ?n)"
  have "length ?d = length h"
    using nh.down_sim [where s = "exch h 0 ?n" and n = ?n and i = 0] length_heap_down [of "(<)" "exch h 0 ?n" 0 ?n] h
    by (metis One_nat_def diff_le_self fst_conv length_exch)
  moreover from this h have "?d \<noteq> []" by (metis length_0_conv)
  ultimately have "h' = butlast ?d"
    using assms h by (auto simp: heap_Pop_def Let_def)
  then show ?thesis using \<open>length ?d = length h\<close> h by simp
qed

section \<open>txSortedMap\<close>

record txSortedMap =
  sm_items :: "(u64, transaction) gomap"
  sm_index :: "u64 list"
  sm_cache :: "transaction list option"

definition newTxSortedMap :: txSortedMap where
  "newTxSortedMap = \<lparr> sm_items = [], sm_index = [], sm_cache = None \<rparr>"

definition sm_Get :: "txSortedMap \<Rightarrow> u64 \<Rightarrow> transaction option" where
  "sm_Get m nonce = gget (sm_items m) nonce"

text \<open>\<open>m.items[nonce]\<close> for a nonce taken from the index (nil, here unspecified, if it were absent).\<close>

definition sm_at :: "(u64, transaction) gomap \<Rightarrow> u64 \<Rightarrow> transaction" where
  "sm_at its nonce = the (gget its nonce)"

definition sm_Put :: "txSortedMap \<Rightarrow> transaction \<Rightarrow> txSortedMap" where
  "sm_Put m tx =
     (let nonce = tx_NonceValue tx;
          idx = (if gget (sm_items m) nonce = None then heap_Push nonceHeap (sm_index m) nonce
                 else sm_index m)
      in m\<lparr>sm_index := idx, sm_items := gput (sm_items m) nonce tx, sm_cache := None\<rparr>)"

function sm_forward_loop ::
  "u64 \<Rightarrow> (u64, transaction) gomap \<Rightarrow> u64 list \<Rightarrow> transaction list \<Rightarrow>
   transaction list \<times> (u64, transaction) gomap \<times> u64 list" where
  "sm_forward_loop threshold its idx removed =
     (if idx \<noteq> [] \<and> idx ! 0 < threshold then
        (case heap_Pop nonceHeap idx of
           None \<Rightarrow> (removed, its, idx)
         | Some (nonce, idx') \<Rightarrow>
             sm_forward_loop threshold (gdel its nonce) idx' (removed @ [sm_at its nonce]))
      else (removed, its, idx))"
  by pat_completeness auto
termination
  by (relation "measure (\<lambda>(t, its, idx, r). length idx)") (auto intro: nonceHeap_Pop_shorter)

definition sm_Forward :: "txSortedMap \<Rightarrow> u64 \<Rightarrow> transaction list \<times> txSortedMap" where
  "sm_Forward m threshold =
     (let (removed, its, idx) = sm_forward_loop threshold (sm_items m) (sm_index m) []
      in (removed, m\<lparr>sm_items := its, sm_index := idx,
            sm_cache := map_option (drop (length removed)) (sm_cache m)\<rparr>))"

definition sm_Filter ::
  "(u64 list \<Rightarrow> u64 list) \<Rightarrow> txSortedMap \<Rightarrow> (transaction \<Rightarrow> bool) \<Rightarrow> transaction list \<times> txSortedMap" where
  "sm_Filter rng m flt =
     (let (removed, its) = fold (\<lambda>nonce (removed, its).
            let tx = sm_at (sm_items m) nonce in
            if flt tx then (removed @ [tx], gdel its nonce) else (removed, its))
            (gkeys rng (sm_items m)) ([], sm_items m)
      in if removed \<noteq> [] then
           (removed, m\<lparr>sm_items := its, sm_index := heap_Init nonceHeap (gkeys rng its), sm_cache := None\<rparr>)
         else (removed, m))"

text \<open>
  \<open>Cap\<close> sorts the index and drops from the end.  A negative limit makes the loop index slot
  \<open>-1\<close>: \<open>None\<close> is that panic.
\<close>

definition sm_Cap :: "txSortedMap \<Rightarrow> int \<Rightarrow> (transaction list \<times> txSortedMap) option" where
  "sm_Cap m threshold =
     (if int (length (sm_items m)) \<le> threshold then Some ([], m)
      else if threshold < 0 then None
      else let idx = sort (sm_index m); t = nat threshold; size = length (sm_items m);
               dropped = rev (drop t (take size idx));
               drops = map (sm_at (sm_items m)) dropped;
               its = fold (\<lambda>nonce its. gdel its nonce) dropped (sm_items m)
        in Some (drops, m\<lparr>sm_items := its, sm_index := heap_Init nonceHeap (take t idx),
             sm_cache := map_option (\<lambda>c. take (length c - length drops) c) (sm_cache m)\<rparr>))"

fun find_slot :: "u64 list \<Rightarrow> u64 \<Rightarrow> nat \<Rightarrow> nat option" where
  "find_slot [] n i = None"
| "find_slot (x # xs) n i = (if x = n then Some i else find_slot xs n (Suc i))"

definition sm_Remove :: "txSortedMap \<Rightarrow> u64 \<Rightarrow> bool \<times> txSortedMap" where
  "sm_Remove m nonce =
     (if gget (sm_items m) nonce = None then (False, m)
      else let idx = (case find_slot (sm_index m) nonce 0 of None \<Rightarrow> sm_index m
                      | Some i \<Rightarrow> (case heap_Remove nonceHeap (sm_index m) i of None \<Rightarrow> sm_index m
                                   | Some (x, h) \<Rightarrow> h))
        in (True, m\<lparr>sm_index := idx, sm_items := gdel (sm_items m) nonce, sm_cache := None\<rparr>))"

function sm_ready_loop ::
  "u64 \<Rightarrow> (u64, transaction) gomap \<Rightarrow> u64 list \<Rightarrow> transaction list \<Rightarrow>
   transaction list \<times> (u64, transaction) gomap \<times> u64 list" where
  "sm_ready_loop nxt its idx ready =
     (if idx \<noteq> [] \<and> idx ! 0 = nxt then
        (case heap_Pop nonceHeap idx of
           None \<Rightarrow> (ready, its, idx)
         | Some (nonce, idx') \<Rightarrow>
             sm_ready_loop (nxt + 1) (gdel its nxt) idx' (ready @ [sm_at its nxt]))
      else (ready, its, idx))"
  by pat_completeness auto
termination
  by (relation "measure (\<lambda>(n, its, idx, r). length idx)") (auto intro: nonceHeap_Pop_shorter)

definition sm_Ready :: "txSortedMap \<Rightarrow> u64 \<Rightarrow> transaction list \<times> txSortedMap" where
  "sm_Ready m start =
     (if sm_index m = [] \<or> sm_index m ! 0 > start then ([], m)
      else let (ready, its, idx) = sm_ready_loop (sm_index m ! 0) (sm_items m) (sm_index m) []
        in (ready, m\<lparr>sm_items := its, sm_index := idx, sm_cache := None\<rparr>))"

definition sm_Len :: "txSortedMap \<Rightarrow> nat" where
  "sm_Len m = length (sm_items m)"

definition sm_Flatten :: "(u64 list \<Rightarrow> u64 list) \<Rightarrow> txSortedMap \<Rightarrow> transaction list \<times> txSortedMap" where
  "sm_Flatten rng m =
     (let c = (case sm_cache m of Some c \<Rightarrow> c
               | None \<Rightarrow> sort_TxByNonce (map (sm_at (sm_items m)) (gkeys rng (sm_items m))))
      in (c, m\<lparr>sm_cache := Some c\<rparr>))"

declare sm_forward_loop.simps [simp del] sm_ready_loop.simps [simp del]

section \<open>txList\<close>

text \<open>The caps are never read or written after construction by the code in use.\<close>

record txList =
  tl_strict :: bool
  tl_txs :: txSortedMap
  tl_costcap :: int
  tl_gascap :: u64

definition newTxList :: "bool \<Rightarrow> txList" where
  "newTxList strict = \<lparr> tl_strict = strict, tl_txs = newTxSortedMap, tl_costcap = 0, tl_gascap = 0 \<rparr>"

definition tl_Overlaps :: "txList \<Rightarrow> transaction \<Rightarrow> bool" where
  "tl_Overlaps l tx \<longleftrightarrow> sm_Get (tl_txs l) (tx_NonceValue tx) \<noteq> None"

definition tl_Add :: "txList \<Rightarrow> transaction \<Rightarrow> bool \<times> transaction option \<times> txList" where
  "tl_Add l tx =
     (let old = sm_Get (tl_txs l) (tx_NonceValue tx) in
      if old \<noteq> None then (False, None, l)
      else (True, old, l\<lparr>tl_txs := sm_Put (tl_txs l) tx\<rparr>))"

definition tl_Forward :: "txList \<Rightarrow> u64 \<Rightarrow> transaction list \<times> txList" where
  "tl_Forward l threshold = (let (r, m) = sm_Forward (tl_txs l) threshold in (r, l\<lparr>tl_txs := m\<rparr>))"

definition tl_Cap :: "txList \<Rightarrow> int \<Rightarrow> (transaction list \<times> txList) option" where
  "tl_Cap l threshold = map_option (\<lambda>(d, m). (d, l\<lparr>tl_txs := m\<rparr>)) (sm_Cap (tl_txs l) threshold)"

definition tl_Remove ::
  "(u64 list \<Rightarrow> u64 list) \<Rightarrow> txList \<Rightarrow> transaction \<Rightarrow> bool \<times> transaction list \<times> txList" where
  "tl_Remove rng l tx =
     (let nonce = tx_NonceValue tx; (removed, m) = sm_Remove (tl_txs l) nonce in
      if \<not> removed then (False, [], l\<lparr>tl_txs := m\<rparr>)
      else if tl_strict l then
        (let (inv, m') = sm_Filter rng m (\<lambda>t. tx_NonceValue t > nonce)
         in (True, inv, l\<lparr>tl_txs := m'\<rparr>))
      else (True, [], l\<lparr>tl_txs := m\<rparr>))"

definition tl_Ready :: "txList \<Rightarrow> u64 \<Rightarrow> transaction list \<times> txList" where
  "tl_Ready l start = (let (r, m) = sm_Ready (tl_txs l) start in (r, l\<lparr>tl_txs := m\<rparr>))"

definition tl_Len :: "txList \<Rightarrow> nat" where
  "tl_Len l = sm_Len (tl_txs l)"

definition tl_Empty :: "txList \<Rightarrow> bool" where
  "tl_Empty l \<longleftrightarrow> tl_Len l = 0"

definition tl_Flatten :: "(u64 list \<Rightarrow> u64 list) \<Rightarrow> txList \<Rightarrow> transaction list \<times> txList" where
  "tl_Flatten rng l = (let (r, m) = sm_Flatten rng (tl_txs l) in (r, l\<lparr>tl_txs := m\<rparr>))"

section \<open>Invariant and specification\<close>

text \<open>The transactions in nonce order: the specification of a sorted map.\<close>

definition sm_list :: "txSortedMap \<Rightarrow> transaction list" where
  "sm_list m = map (sm_at (sm_items m)) (sort (sm_index m))"

definition sm_ok :: "txSortedMap \<Rightarrow> bool" where
  "sm_ok m \<longleftrightarrow> gomap_ok (sm_items m) \<and> is_heap (<) (sm_index m) \<and> distinct (sm_index m) \<and>
     set (sm_index m) = dom (gget (sm_items m)) \<and>
     (\<forall>n tx. gget (sm_items m) n = Some tx \<longrightarrow> tx_NonceValue tx = n) \<and>
     (sm_cache m = None \<or> sm_cache m = Some (sm_list m))"

text \<open>The run of consecutive nonces that a sorted list starts with.\<close>

fun nonce_run :: "u64 \<Rightarrow> transaction list \<Rightarrow> transaction list" where
  "nonce_run n [] = []"
| "nonce_run n (t # ts) = (if tx_NonceValue t = n then t # nonce_run (n + 1) ts else [])"

definition tl_ok :: "txList \<Rightarrow> bool" where
  "tl_ok l \<longleftrightarrow> sm_ok (tl_txs l)"

definition tl_list :: "txList \<Rightarrow> transaction list" where
  "tl_list l = sm_list (tl_txs l)"

section \<open>Lemmas\<close>

lemma sort_add_min:
  fixes x :: "'a :: linorder"
  assumes "mset xs = add_mset x (mset ys)" "\<And>y. y \<in> set xs \<Longrightarrow> \<not> y < x"
  shows "sort xs = x # sort ys"
proof (rule properties_for_sort)
  show "mset (x # sort ys) = mset xs" using assms(1) by simp
  have "set ys \<subseteq> set xs" using assms(1) by (metis mset_add set_mset_add_mset_insert set_mset_mset subset_insertI)
  with assms(2) show "sorted (x # sort ys)" by (auto simp: not_less)
qed

lemma nonceHeap_Pop_sort:
  assumes "is_heap (<) h" "h \<noteq> []"
  obtains h' where "heap_Pop nonceHeap h = Some (h ! 0, h')" "is_heap (<) h'"
    "sort h = (h ! 0) # sort h'" "mset h = add_mset (h ! 0) (mset h')"
proof -
  obtain x h' where *: "heap_Pop nonceHeap h = Some (x, h')" "is_heap (<) h'" "x = h ! 0"
    "mset h = add_mset x (mset h')" and min: "\<And>y. y \<in> set h \<Longrightarrow> \<not> y < x"
    using nh.impl_Pop [of h] assms by auto
  from sort_add_min [OF *(4) min] * that show ?thesis by blast
qed

lemma sort_unique_set:
  fixes xs ys :: "'a :: linorder list"
  assumes "distinct xs" "distinct ys" "set xs = set ys"
  shows "sort xs = sort ys"
  using assms by (intro sorted_distinct_set_unique) auto

lemma sm_okD:
  assumes "sm_ok m"
  shows "gomap_ok (sm_items m)" "is_heap (<) (sm_index m)" "distinct (sm_index m)"
    "set (sm_index m) = dom (gget (sm_items m))"
    "\<And>n tx. gget (sm_items m) n = Some tx \<Longrightarrow> tx_NonceValue tx = n"
  using assms by (auto simp: sm_ok_def)

lemma sm_at_cong:
  "(\<And>n. n \<in> set ns \<Longrightarrow> gget its n = gget its' n) \<Longrightarrow> map (sm_at its) ns = map (sm_at its') ns"
  by (simp add: sm_at_def)

lemma sm_at_nonce [simp]: "sm_ok m \<Longrightarrow> n \<in> set (sm_index m) \<Longrightarrow> tx_NonceValue (sm_at (sm_items m) n) = n"
  by (auto simp: sm_ok_def sm_at_def)

lemma sm_list_nonces: "sm_ok m \<Longrightarrow> map tx_NonceValue (sm_list m) = sort (sm_index m)"
  by (simp add: sm_list_def comp_def cong: map_cong) (rule map_idI, simp)

lemma sm_list_sorted: "sm_ok m \<Longrightarrow> sorted (map tx_NonceValue (sm_list m))"
  by (simp add: sm_list_nonces)

lemma sm_list_distinct: "sm_ok m \<Longrightarrow> distinct (map tx_NonceValue (sm_list m))"
  by (simp add: sm_list_nonces sm_okD)

lemma sm_list_set: "sm_ok m \<Longrightarrow> set (sm_list m) = ran (gget (sm_items m))"
  by (auto simp: sm_list_def sm_okD sm_at_def ran_def image_iff dom_def)
    (metis option.sel)

lemma sm_Get_list:
  assumes "sm_ok m"
  shows "sm_Get m n = Some tx \<longleftrightarrow> tx \<in> set (sm_list m) \<and> tx_NonceValue tx = n"
  using assms sm_okD(5) [OF assms] unfolding sm_list_set [OF assms] sm_Get_def
  by (auto simp: ran_def)

lemma sm_Get_None:
  "sm_ok m \<Longrightarrow> sm_Get m n = None \<longleftrightarrow> n \<notin> tx_NonceValue ` set (sm_list m)"
  using sm_Get_list [of m n] by (cases "sm_Get m n") (auto simp: image_iff, metis)

lemma sm_Len_list: "sm_ok m \<Longrightarrow> sm_Len m = length (sm_list m)"
  by (metis card_dom_gget distinct_card length_map length_sort sm_Len_def sm_list_def sm_okD(1,3,4))

text \<open>A sorted list of transactions is determined by its set.\<close>

lemma nonce_sorted_unique:
  assumes "sorted (map tx_NonceValue xs)" "distinct (map tx_NonceValue xs)"
    "sorted (map tx_NonceValue ys)" "distinct (map tx_NonceValue ys)" "set xs = set ys"
  shows "xs = ys"
proof -
  have d: "distinct xs" "distinct ys" using assms by (auto simp: distinct_map)
  have inj: "inj_on tx_NonceValue (set xs)" using assms(2) by (simp add: distinct_map)
  have "sort_key tx_NonceValue xs = sort_key tx_NonceValue ys"
    using d assms(5) inj by (intro sort_key_inj_key_eq) (auto simp: set_eq_iff_mset_eq_distinct [symmetric])
  then show ?thesis using assms(1,3) by (simp add: sort_key_id_if_sorted)
qed

text \<open>Establishing the invariant and the specification of a result in one step.\<close>

lemma sm_okI:
  assumes "gomap_ok its" "is_heap (<) idx" "distinct idx" "set idx = dom (gget its)"
    "\<And>n tx. gget its n = Some tx \<Longrightarrow> tx_NonceValue tx = n"
  shows "sm_ok \<lparr> sm_items = its, sm_index = idx, sm_cache = None \<rparr>"
  using assms by (simp add: sm_ok_def)

lemma sm_list_unique:
  assumes "sm_ok m" "sorted (map tx_NonceValue xs)" "distinct (map tx_NonceValue xs)"
    "set xs = ran (gget (sm_items m))"
  shows "sm_list m = xs"
  using assms sm_list_set [OF assms(1)]
  by (intro nonce_sorted_unique) (auto simp: sm_list_sorted sm_list_distinct)

lemma newTxSortedMap_ok: "sm_ok newTxSortedMap" "sm_list newTxSortedMap = []"
  by (auto simp: newTxSortedMap_def sm_ok_def sm_list_def is_heap_def heap_from_def)

lemma sm_Put_spec:
  assumes "sm_ok m" "sm_Get m (tx_NonceValue tx) = None"
  shows "sm_ok (sm_Put m tx) \<and> sm_list (sm_Put m tx) = insort_key tx_NonceValue tx (sm_list m)"
proof -
  let ?n = "tx_NonceValue tx"
  have n: "gget (sm_items m) ?n = None" using assms(2) by (simp add: sm_Get_def)
  have push: "is_heap (<) (heap_Push nonceHeap (sm_index m) ?n)"
    "mset (heap_Push nonceHeap (sm_index m) ?n) = add_mset ?n (mset (sm_index m))"
    using nh.impl_Push [of "sm_index m" ?n] sm_okD(2) [OF assms(1)] by auto
  have set: "set (heap_Push nonceHeap (sm_index m) ?n) = insert ?n (set (sm_index m))"
    using push(2) by (metis set_mset_add_mset_insert set_mset_mset)
  have "distinct (heap_Push nonceHeap (sm_index m) ?n)"
    using push(2) n sm_okD(3,4) [OF assms(1)]
    by (metis distinct.simps(2) domIff mset.simps(2) mset_eq_imp_distinct_iff)
  then have ok: "sm_ok (sm_Put m tx)"
    using assms(1) n push set by (auto simp: sm_Put_def Let_def sm_ok_def)
  moreover have "sm_list (sm_Put m tx) = insort_key tx_NonceValue tx (sm_list m)"
  proof (rule sm_list_unique [OF ok])
    show "sorted (map tx_NonceValue (insort_key tx_NonceValue tx (sm_list m)))"
      using sm_list_sorted [OF assms(1)] by (simp add: sorted_insort_key)
    have "?n \<notin> tx_NonceValue ` set (sm_list m)" using assms sm_Get_None by blast
    then show "distinct (map tx_NonceValue (insort_key tx_NonceValue tx (sm_list m)))"
      using sm_list_distinct [OF assms(1)]
      by (auto simp: distinct_map distinct_insort set_insort_key)
    show "set (insort_key tx_NonceValue tx (sm_list m)) = ran (gget (sm_items (sm_Put m tx)))"
      using n sm_list_set [OF assms(1)] by (simp add: sm_Put_def Let_def set_insort_key)
  qed
  ultimately show ?thesis by simp
qed

lemma sm_forward_loop_spec:
  assumes "is_heap (<) idx" "distinct idx"
  shows "sm_forward_loop t its idx removed =
      (removed @ map (sm_at its) (takeWhile (\<lambda>n. n < t) (sort idx)),
       fold (\<lambda>n its. gdel its n) (takeWhile (\<lambda>n. n < t) (sort idx)) its,
       snd (snd (sm_forward_loop t its idx removed))) \<and>
    is_heap (<) (snd (snd (sm_forward_loop t its idx removed))) \<and>
    sort (snd (snd (sm_forward_loop t its idx removed))) = dropWhile (\<lambda>n. n < t) (sort idx)"
  using assms
proof (induction "length idx" arbitrary: idx its removed rule: less_induct)
  case less
  show ?case
  proof (cases "idx \<noteq> [] \<and> idx ! 0 < t")
    case False
    then have "takeWhile (\<lambda>n. n < t) (sort idx) = []"
    proof (cases "idx = []")
      case ne: False
      obtain h' where "sort idx = (idx ! 0) # sort h'"
        using nonceHeap_Pop_sort [OF less.prems(1) ne] by blast
      with False ne show ?thesis by simp
    qed simp
    moreover from this have "dropWhile (\<lambda>n. n < t) (sort idx) = sort idx"
      by (metis append_Nil takeWhile_dropWhile_id)
    moreover have "sm_forward_loop t its idx removed = (removed, its, idx)"
      using False by (subst sm_forward_loop.simps) auto
    ultimately show ?thesis using less.prems by simp
  next
    case True
    then obtain h' where p: "heap_Pop nonceHeap idx = Some (idx ! 0, h')" "is_heap (<) h'"
      "sort idx = (idx ! 0) # sort h'" "mset idx = add_mset (idx ! 0) (mset h')"
      using nonceHeap_Pop_sort [OF less.prems(1)] by blast
    have d: "distinct h'" "idx ! 0 \<notin> set h'"
      using p(4) less.prems(2) by (metis distinct.simps(2) mset.simps(2) mset_eq_imp_distinct_iff)+
    have eq: "sm_forward_loop t its idx removed =
        sm_forward_loop t (gdel its (idx ! 0)) h' (removed @ [sm_at its (idx ! 0)])"
      using True p(1) by (subst sm_forward_loop.simps) auto
    have "map (sm_at (gdel its (idx ! 0))) (takeWhile (\<lambda>n. n < t) (sort h')) =
        map (sm_at its) (takeWhile (\<lambda>n. n < t) (sort h'))"
      using d(2) by (intro sm_at_cong) (auto dest!: set_takeWhileD)
    with less.hyps [OF nonceHeap_Pop_shorter [OF p(1)] p(2) d(1), of "gdel its (idx ! 0)" "removed @ [sm_at its (idx ! 0)]"]
    show ?thesis unfolding eq p(3) using True by simp
  qed
qed

lemma gget_fold_gdel:
  "gget (fold (\<lambda>n its. gdel its n) ns its) k = (if k \<in> set ns then None else gget its k)"
  by (induction ns arbitrary: its) auto

lemma gomap_ok_fold_gdel: "gomap_ok its \<Longrightarrow> gomap_ok (fold (\<lambda>n its. gdel its n) ns its)"
  by (induction ns arbitrary: its) auto

text \<open>Dropping the nonces \<open>R\<close> and keeping the nonces \<open>K\<close>: the step that ends \<open>Forward\<close>,
  \<open>Cap\<close> and \<open>Ready\<close>.\<close>

lemma sm_drop_spec:
  assumes "sm_ok m" "is_heap (<) (sm_index m')" "sort (sm_index m') = K" "distinct K"
    "set R \<inter> set K = {}" "set R \<union> set K = set (sm_index m)"
    "sm_items m' = fold (\<lambda>n its. gdel its n) R (sm_items m)"
    "sm_cache m' = None \<or> sm_cache m' = Some (map (sm_at (sm_items m)) K)"
  shows "sm_ok m' \<and> sm_list m' = map (sm_at (sm_items m)) K"
proof -
  have g: "gget (sm_items m') n = (if n \<in> set R then None else gget (sm_items m) n)" for n
    by (simp add: assms(7) gget_fold_gdel)
  have l: "sm_list m' = map (sm_at (sm_items m)) K"
    unfolding sm_list_def assms(3) using g assms(5) by (intro sm_at_cong) auto
  have idx: "set (sm_index m') = set K" "distinct (sm_index m')"
    using assms(3,4) by (metis set_sort, metis distinct_sort)
  have "set (sm_index m') = dom (gget (sm_items m'))"
    using idx(1) assms(5,6) sm_okD(4) [OF assms(1)] by (auto simp: g dom_def split: if_splits)
  then have "sm_ok m'"
    using assms(2,8) idx l sm_okD(1) [OF assms(1)] sm_okD(5) [OF assms(1)]
    by (auto simp: sm_ok_def assms(7) gomap_ok_fold_gdel gget_fold_gdel)
  with l show ?thesis by simp
qed

lemma sm_list_append:
  assumes "sm_ok m" "sort (sm_index m) = ns1 @ ns2"
  shows "take (length ns1) (sm_list m) = map (sm_at (sm_items m)) ns1"
    "drop (length ns1) (sm_list m) = map (sm_at (sm_items m)) ns2"
  using assms by (simp_all add: sm_list_def)

lemma sm_cacheD: "sm_ok m \<Longrightarrow> sm_cache m = Some c \<Longrightarrow> c = sm_list m"
  by (auto simp: sm_ok_def)

lemma takeWhile_sm_list:
  "sm_ok m \<Longrightarrow> takeWhile (\<lambda>tx. P (tx_NonceValue tx)) (sm_list m) =
     map (sm_at (sm_items m)) (takeWhile P (sort (sm_index m)))"
  "sm_ok m \<Longrightarrow> dropWhile (\<lambda>tx. P (tx_NonceValue tx)) (sm_list m) =
     map (sm_at (sm_items m)) (dropWhile P (sort (sm_index m)))"
  unfolding sm_list_def takeWhile_map dropWhile_map comp_def
  by (auto intro!: arg_cong [where f = "map _"] takeWhile_cong dropWhile_cong)

lemma sm_Forward_spec:
  assumes "sm_ok m"
  shows "fst (sm_Forward m t) = takeWhile (\<lambda>tx. tx_NonceValue tx < t) (sm_list m) \<and>
    sm_ok (snd (sm_Forward m t)) \<and>
    sm_list (snd (sm_Forward m t)) = dropWhile (\<lambda>tx. tx_NonceValue tx < t) (sm_list m)"
proof -
  let ?R = "takeWhile (\<lambda>n. n < t) (sort (sm_index m))" and ?K = "dropWhile (\<lambda>n. n < t) (sort (sm_index m))"
  have RK: "sort (sm_index m) = ?R @ ?K" by simp
  have d: "distinct (?R @ ?K)" using sm_okD(3) [OF assms] by simp
  then have disj: "set ?R \<inter> set ?K = {}" by (simp only: distinct_append)
  have s: "set ?R \<union> set ?K = set (sm_index m)" by (metis RK set_append set_sort)
  obtain idx where r: "sm_forward_loop t (sm_items m) (sm_index m) [] =
      (map (sm_at (sm_items m)) ?R, fold (\<lambda>n its. gdel its n) ?R (sm_items m), idx)"
    and idx: "is_heap (<) idx" "sort idx = ?K"
    using sm_forward_loop_spec [OF sm_okD(2,3) [OF assms], of t "sm_items m" "[]"] by (metis append_Nil prod.collapse snd_conv)
  let ?m = "snd (sm_Forward m t)"
  have "sm_ok ?m \<and> sm_list ?m = map (sm_at (sm_items m)) ?K"
  proof (rule sm_drop_spec [OF assms, where R = ?R])
    show "sm_cache ?m = None \<or> sm_cache ?m = Some (map (sm_at (sm_items m)) ?K)"
      using sm_cacheD [OF assms] sm_list_append(2) [OF assms RK]
      by (cases "sm_cache m") (auto simp: sm_Forward_def r)
    show "set ?R \<inter> set ?K = {}" by (rule disj)
    show "distinct ?K" using sm_okD(3) [OF assms] by simp
  qed (use s idx in \<open>simp_all add: sm_Forward_def r\<close>)
  then show ?thesis
    using takeWhile_sm_list [OF assms, of "\<lambda>n. n < t"] by (simp add: sm_Forward_def r)
qed

lemma sm_Cap_spec:
  assumes "sm_ok m"
  shows "sm_Cap m (int k) \<noteq> None \<and>
    fst (the (sm_Cap m (int k))) = rev (drop k (sm_list m)) \<and>
    sm_ok (snd (the (sm_Cap m (int k)))) \<and> sm_list (snd (the (sm_Cap m (int k)))) = take k (sm_list m)"
proof (cases "length (sm_items m) \<le> k")
  case True
  then have "length (sm_list m) \<le> k" using sm_Len_list [OF assms] by (simp add: sm_Len_def)
  with True assms show ?thesis by (simp add: sm_Cap_def)
next
  case False
  let ?S = "sort (sm_index m)"
  have len: "length (sm_items m) = length ?S"
    using sm_Len_list [OF assms] by (simp add: sm_Len_def sm_list_def)
  have S: "?S = take k ?S @ drop k ?S" by simp
  have d: "distinct (take k ?S @ drop k ?S)" using sm_okD(3) [OF assms] by simp
  then have disj: "set (rev (drop k ?S)) \<inter> set (take k ?S) = {}" by (simp only: distinct_append set_rev Int_commute)
  define m' where "m' = snd (the (sm_Cap m (int k)))"
  have cap: "sm_Cap m (int k) = Some (map (sm_at (sm_items m)) (rev (drop k ?S)), m')"
    and m': "m' = m\<lparr>sm_items := fold (\<lambda>n its. gdel its n) (rev (drop k ?S)) (sm_items m),
      sm_index := heap_Init nonceHeap (take k ?S),
      sm_cache := map_option (\<lambda>c. take (length c - length (drop k ?S)) c) (sm_cache m)\<rparr>"
    using False len by (simp_all add: sm_Cap_def Let_def m'_def)
  have init: "is_heap (<) (heap_Init nonceHeap (take k ?S))"
    "mset (heap_Init nonceHeap (take k ?S)) = mset (take k ?S)"
    using nh.impl_Init [of "take k ?S"] by auto
  have srt: "sort (heap_Init nonceHeap (take k ?S)) = take k ?S"
    using init(2) by (intro properties_for_sort) auto
  have "sm_ok m' \<and> sm_list m' = map (sm_at (sm_items m)) (take k ?S)"
  proof (rule sm_drop_spec [OF assms, where R = "rev (drop k ?S)"])
    show "sm_cache m' = None \<or> sm_cache m' = Some (map (sm_at (sm_items m)) (take k ?S))"
      using sm_cacheD [OF assms] False len
      by (cases "sm_cache m") (auto simp: m' sm_list_def take_map)
    show "set (rev (drop k ?S)) \<union> set (take k ?S) = set (sm_index m)"
      using set_append [of "take k ?S" "drop k ?S"] by auto
    show "set (rev (drop k ?S)) \<inter> set (take k ?S) = {}" by (rule disj)
    show "distinct (take k ?S)" using sm_okD(3) [OF assms] by simp
  qed (use init srt in \<open>simp_all add: m'\<close>)
  then show ?thesis
    using cap by (simp add: sm_list_def rev_map drop_map take_map)
qed

lemma sm_filter_fold:
  "fold (\<lambda>nonce (removed, its). let tx = sm_at its0 nonce in
       if flt tx then (removed @ [tx], gdel its nonce) else (removed, its)) ns (removed, its) =
   (removed @ filter flt (map (sm_at its0) ns),
    fold (\<lambda>n its. gdel its n) (filter (\<lambda>n. flt (sm_at its0 n)) ns) its)"
  by (induction ns arbitrary: removed its) (auto simp: Let_def)

lemma sm_gkeys:
  assumes "sm_ok m" "go_range rng"
  shows "mset (gkeys rng (sm_items m)) = mset (sm_index m)"
proof -
  have "distinct (gkeys rng (sm_items m))" "set (gkeys rng (sm_items m)) = set (sm_index m)"
    using assms sm_okD [OF assms(1)] by (simp_all add: distinct_gkeys set_gkeys)
  then show ?thesis using sm_okD(3) [OF assms(1)] by (simp add: set_eq_iff_mset_eq_distinct)
qed

lemma mset_map_at: "mset (map (sm_at (sm_items m)) (sm_index m)) = mset (sm_list m)"
  by (simp add: sm_list_def)

lemma sm_Filter_spec:
  assumes "sm_ok m" "go_range rng"
  shows "mset (fst (sm_Filter rng m flt)) = mset (filter flt (sm_list m)) \<and>
    sm_ok (snd (sm_Filter rng m flt)) \<and>
    sm_list (snd (sm_Filter rng m flt)) = filter (\<lambda>tx. \<not> flt tx) (sm_list m)"
proof -
  let ?at = "sm_at (sm_items m)" and ?ks = "gkeys rng (sm_items m)" and ?S = "sort (sm_index m)"
  let ?R = "filter (\<lambda>n. flt (?at n)) ?ks" and ?K = "filter (\<lambda>n. \<not> flt (?at n)) ?S"
  let ?removed = "filter flt (map ?at ?ks)"
  let ?its = "fold (\<lambda>n its. gdel its n) ?R (sm_items m)"
  have sk: "set ?ks = set (sm_index m)" using assms sm_okD(4) by (simp add: set_gkeys)
  have "mset ?removed = filter_mset flt (image_mset ?at (mset ?ks))" by simp
  also have "\<dots> = mset (filter flt (sm_list m))"
    using mset_map_at [of m] by (simp add: sm_gkeys [OF assms])
  finally have rem: "mset ?removed = mset (filter flt (sm_list m))" .
  have eq: "sm_Filter rng m flt = (if ?removed \<noteq> [] then (?removed, m\<lparr>sm_items := ?its,
      sm_index := heap_Init nonceHeap (gkeys rng ?its), sm_cache := None\<rparr>) else (?removed, m))"
    by (simp add: sm_Filter_def sm_filter_fold)
  show ?thesis
  proof (cases "?removed = []")
    case True
    then have none: "filter flt (sm_list m) = []" using rem by simp
    then have "filter (\<lambda>tx. \<not> flt tx) (sm_list m) = sm_list m" by (simp add: filter_empty_conv)
    with True none assms show ?thesis unfolding eq by simp
  next
    case False
    have ok: "gomap_ok ?its" using sm_okD(1) [OF assms(1)] by (rule gomap_ok_fold_gdel)
    have dom: "dom (gget ?its) = set ?K"
      using sk sm_okD(4) [OF assms(1)] by (auto simp: gget_fold_gdel dom_def split: if_splits)
    have init: "is_heap (<) (heap_Init nonceHeap (gkeys rng ?its))"
      "mset (heap_Init nonceHeap (gkeys rng ?its)) = mset (gkeys rng ?its)"
      using nh.impl_Init [of "gkeys rng ?its"] by auto
    have dK: "distinct ?K" using sm_okD(3) [OF assms(1)] by simp
    have "mset (gkeys rng ?its) = mset ?K"
      using dK dom ok assms(2)
      by (subst set_eq_iff_mset_eq_distinct [symmetric]) (simp_all add: distinct_gkeys set_gkeys)
    with init(2) have srt: "sort (heap_Init nonceHeap (gkeys rng ?its)) = ?K"
      by (intro properties_for_sort) (auto intro: sorted_wrt_filter)
    have "sm_ok (snd (sm_Filter rng m flt)) \<and> sm_list (snd (sm_Filter rng m flt)) = map ?at ?K"
      by (rule sm_drop_spec [OF assms(1), where R = ?R])
        (use False srt init sk dK in \<open>auto simp: eq\<close>)
    then show ?thesis using rem False by (simp add: eq sm_list_def filter_map comp_def)
  qed
qed

lemma find_slot_spec:
  "find_slot xs n k = (if n \<in> set xs then Some (k + (LEAST i. i < length xs \<and> xs ! i = n)) else None)"
proof (induction xs arbitrary: k)
  case (Cons x xs)
  show ?case
  proof (cases "x = n")
    case True
    then have "(LEAST i. i < length (x # xs) \<and> (x # xs) ! i = n) = 0" by (intro Least_equality) auto
    with True show ?thesis by simp
  next
    case False
    show ?thesis
    proof (cases "n \<in> set xs")
      case True
      then obtain i where "i < length xs" "xs ! i = n" by (auto simp: in_set_conv_nth)
      then have "(LEAST i. i < length (x # xs) \<and> (x # xs) ! i = n) =
          Suc (LEAST i. Suc i < length (x # xs) \<and> (x # xs) ! Suc i = n)"
        using False by (intro Least_Suc [where n = "Suc i"]) auto
      with True False Cons.IH show ?thesis by simp
    qed (use False Cons.IH in simp)
  qed
qed simp

lemma find_slot_Some:
  assumes "n \<in> set xs"
  obtains i where "find_slot xs n 0 = Some i" "i < length xs" "xs ! i = n"
proof -
  from assms obtain j where "j < length xs \<and> xs ! j = n" by (auto simp: in_set_conv_nth)
  from LeastI [where P = "\<lambda>i. i < length xs \<and> xs ! i = n", OF this] assms that
  show ?thesis by (simp add: find_slot_spec)
qed

lemma sm_Remove_spec:
  assumes "sm_ok m"
  shows "fst (sm_Remove m n) = (n \<in> tx_NonceValue ` set (sm_list m)) \<and> sm_ok (snd (sm_Remove m n)) \<and>
    sm_list (snd (sm_Remove m n)) = filter (\<lambda>tx. tx_NonceValue tx \<noteq> n) (sm_list m)"
proof (cases "gget (sm_items m) n")
  case None
  then have "n \<notin> tx_NonceValue ` set (sm_list m)"
    using sm_Get_None [OF assms] by (simp add: sm_Get_def)
  moreover from this have "filter (\<lambda>tx. tx_NonceValue tx \<noteq> n) (sm_list m) = sm_list m"
    by (auto simp: filter_id_conv)
  ultimately show ?thesis using None assms by (simp add: sm_Remove_def)
next
  case (Some tx)
  let ?S = "sort (sm_index m)"
  have mem: "n \<in> set (sm_index m)" using Some sm_okD(4) [OF assms] by auto
  then obtain i where i: "find_slot (sm_index m) n 0 = Some i" "i < length (sm_index m)" "sm_index m ! i = n"
    by (rule find_slot_Some)
  obtain h where h: "heap_Remove nonceHeap (sm_index m) i = Some (n, h)" "is_heap (<) h"
    "mset (sm_index m) = add_mset n (mset h)"
    using nh.impl_Remove [of "sm_index m" i] i sm_okD(2) [OF assms] by auto
  let ?m = "m\<lparr>sm_index := h, sm_items := gdel (sm_items m) n, sm_cache := None\<rparr>"
  have eq: "sm_Remove m n = (True, ?m)" using Some i(1) h(1) by (simp add: sm_Remove_def Let_def)
  have d: "distinct h" "n \<notin> set h"
    using h(3) sm_okD(3) [OF assms] by (metis distinct.simps(2) mset.simps(2) mset_eq_imp_distinct_iff)+
  have sh: "insert n (set h) = set (sm_index m)" using h(3) by (metis set_mset_add_mset_insert set_mset_mset)
  have "sort h = filter (\<lambda>k. k \<noteq> n) ?S"
    using d sh sm_okD(3) [OF assms] by (intro sorted_distinct_set_unique) (auto intro: sorted_wrt_filter)
  then have "sm_ok ?m \<and> sm_list ?m = map (sm_at (sm_items m)) (filter (\<lambda>k. k \<noteq> n) ?S)"
    by (intro sm_drop_spec [OF assms, where R = "[n]"]) (use h d sh sm_okD(3) [OF assms] in auto)
  moreover have "map (sm_at (sm_items m)) (filter (\<lambda>k. k \<noteq> n) ?S) =
      filter (\<lambda>tx. tx_NonceValue tx \<noteq> n) (sm_list m)"
    using assms by (auto simp: sm_list_def filter_map intro!: arg_cong [where f = "map _"] filter_cong)
  moreover have "n \<in> tx_NonceValue ` set (sm_list m)"
    using Some sm_Get_None [OF assms, of n] by (simp add: sm_Get_def)
  ultimately show ?thesis by (simp add: eq)
qed

lemma sm_Flatten_spec:
  assumes "sm_ok m" "go_range rng"
  shows "fst (sm_Flatten rng m) = sm_list m \<and> sm_ok (snd (sm_Flatten rng m)) \<and>
    sm_list (snd (sm_Flatten rng m)) = sm_list m"
proof -
  let ?xs = "map (sm_at (sm_items m)) (gkeys rng (sm_items m))"
  have m: "mset ?xs = mset (sm_list m)"
    using mset_map_at [of m] by (simp add: sm_gkeys [OF assms])
  have inj: "inj_on tx_NonceValue (set ?xs)"
    using m sm_list_distinct [OF assms(1)] by (metis distinct_map set_mset_mset)
  have "sort_TxByNonce ?xs = sort_key tx_NonceValue (sm_list m)"
    unfolding sort_TxByNonce_def using m inj by (intro sort_key_inj_key_eq) auto
  then have "sort_TxByNonce ?xs = sm_list m"
    using sm_list_sorted [OF assms(1)] by (simp add: sort_key_id_if_sorted)
  then have c: "fst (sm_Flatten rng m) = sm_list m"
    using sm_cacheD [OF assms(1)] by (auto simp: sm_Flatten_def Let_def split: option.splits)
  then have "snd (sm_Flatten rng m) = m\<lparr>sm_cache := Some (sm_list m)\<rparr>"
    by (simp add: sm_Flatten_def Let_def)
  with c assms(1) show ?thesis by (simp add: sm_ok_def sm_list_def)
qed

fun run_len :: "u64 \<Rightarrow> u64 list \<Rightarrow> nat" where
  "run_len n [] = 0"
| "run_len n (k # ks) = (if k = n then Suc (run_len (n + 1) ks) else 0)"

lemma nonce_run_take: "nonce_run n ts = take (run_len n (map tx_NonceValue ts)) ts"
  by (induction ts arbitrary: n) auto

lemma run_len_le: "run_len n ks \<le> length ks"
  by (induction ks arbitrary: n) auto

lemma sm_ready_loop_spec:
  assumes "is_heap (<) idx" "distinct idx"
  obtains idx' where "sm_ready_loop n its idx ready =
      (ready @ map (sm_at its) (take (run_len n (sort idx)) (sort idx)),
       fold (\<lambda>n its. gdel its n) (take (run_len n (sort idx)) (sort idx)) its, idx')"
    "is_heap (<) idx'" "sort idx' = drop (run_len n (sort idx)) (sort idx)"
  using assms
proof (induction "length idx" arbitrary: idx its ready n thesis rule: less_induct)
  case less
  show ?case
  proof (cases "idx \<noteq> [] \<and> idx ! 0 = n")
    case False
    then have "run_len n (sort idx) = 0"
    proof (cases "idx = []")
      case ne: False
      obtain h' where "sort idx = (idx ! 0) # sort h'"
        using nonceHeap_Pop_sort [OF less.prems(2) ne] by blast
      with False ne show ?thesis by simp
    qed simp
    moreover have "sm_ready_loop n its idx ready = (ready, its, idx)"
      using False by (subst sm_ready_loop.simps) auto
    ultimately show ?thesis using less.prems by simp
  next
    case True
    then obtain h' where p: "heap_Pop nonceHeap idx = Some (idx ! 0, h')" "is_heap (<) h'"
      "sort idx = (idx ! 0) # sort h'" "mset idx = add_mset (idx ! 0) (mset h')"
      using nonceHeap_Pop_sort [OF less.prems(2)] by blast
    have d: "distinct h'" "n \<notin> set h'"
      using p(4) less.prems(3) True by (metis distinct.simps(2) mset.simps(2) mset_eq_imp_distinct_iff)+
    let ?T = "take (run_len (n + 1) (sort h')) (sort h')"
    obtain idx' where ih: "sm_ready_loop (n + 1) (gdel its n) h' (ready @ [sm_at its n]) =
        ((ready @ [sm_at its n]) @ map (sm_at (gdel its n)) ?T, fold (\<lambda>n its. gdel its n) ?T (gdel its n), idx')"
      "is_heap (<) idx'" "sort idx' = drop (run_len (n + 1) (sort h')) (sort h')"
      by (rule less.hyps [OF nonceHeap_Pop_shorter [OF p(1)] _ p(2) d(1)])
    have at: "map (sm_at (gdel its n)) ?T = map (sm_at its) ?T"
      using d(2) by (intro sm_at_cong) (auto dest!: in_set_takeD)
    have "sm_ready_loop n its idx ready = sm_ready_loop (n + 1) (gdel its n) h' (ready @ [sm_at its n])"
      using True p(1) by (subst sm_ready_loop.simps) auto
    with ih at p(3) True show ?thesis by (intro less.prems(1) [of idx']) simp_all
  qed
qed

text \<open>The transactions \<open>Ready\<close> hands out: the run that starts at the lowest nonce.\<close>

definition ready_prefix :: "transaction list \<Rightarrow> u64 \<Rightarrow> transaction list" where
  "ready_prefix ts start = (case ts of [] \<Rightarrow> [] | t # _ \<Rightarrow>
     if tx_NonceValue t > start then [] else nonce_run (tx_NonceValue t) ts)"

lemma sm_Ready_spec:
  assumes "sm_ok m"
  shows "fst (sm_Ready m start) = ready_prefix (sm_list m) start \<and> sm_ok (snd (sm_Ready m start)) \<and>
    sm_list (snd (sm_Ready m start)) = drop (length (ready_prefix (sm_list m) start)) (sm_list m)"
proof (cases "sm_index m = []")
  case True
  then have "sm_list m = []" by (simp add: sm_list_def)
  with True assms show ?thesis by (simp add: sm_Ready_def ready_prefix_def)
next
  case ne: False
  let ?S = "sort (sm_index m)" and ?n = "sm_index m ! 0"
  obtain h' where h: "?S = ?n # sort h'"
    using nonceHeap_Pop_sort [OF sm_okD(2) [OF assms] ne] by blast
  have hd: "sm_list m = sm_at (sm_items m) ?n # map (sm_at (sm_items m)) (sort h')"
    by (simp add: sm_list_def h)
  have nv: "tx_NonceValue (sm_at (sm_items m) ?n) = ?n" using assms ne by simp
  show ?thesis
  proof (cases "?n > start")
    case True
    then show ?thesis using assms hd nv by (simp add: sm_Ready_def ready_prefix_def)
  next
    case False
    let ?l = "run_len ?n ?S"
    obtain idx' where r: "sm_ready_loop ?n (sm_items m) (sm_index m) [] =
        ([] @ map (sm_at (sm_items m)) (take ?l ?S), fold (\<lambda>n its. gdel its n) (take ?l ?S) (sm_items m), idx')"
      "is_heap (<) idx'" "sort idx' = drop ?l ?S"
      by (rule sm_ready_loop_spec [OF sm_okD(2,3) [OF assms]])
    let ?m = "m\<lparr>sm_items := fold (\<lambda>n its. gdel its n) (take ?l ?S) (sm_items m), sm_index := idx', sm_cache := None\<rparr>"
    have eq: "sm_Ready m start = (map (sm_at (sm_items m)) (take ?l ?S), ?m)"
      using False ne r(1) by (simp add: sm_Ready_def)
    have rp: "ready_prefix (sm_list m) start = take ?l (sm_list m)"
      using False hd nv sm_list_nonces [OF assms] by (simp add: ready_prefix_def nonce_run_take)
    have len: "?l \<le> length (sm_list m)" using run_len_le [of ?n ?S] by (simp add: sm_list_def)
    have "sm_ok ?m \<and> sm_list ?m = map (sm_at (sm_items m)) (drop ?l ?S)"
    proof (rule sm_drop_spec [OF assms, where R = "take ?l ?S"])
      show "set (take ?l ?S) \<inter> set (drop ?l ?S) = {}"
        using sm_okD(3) [OF assms] by (intro set_take_disj_set_drop_if_distinct) auto
      show "set (take ?l ?S) \<union> set (drop ?l ?S) = set (sm_index m)"
        by (metis append_take_drop_id set_append set_sort)
    qed (use r sm_okD(3) [OF assms] in auto)
    moreover have "map (sm_at (sm_items m)) (take ?l ?S) = take ?l (sm_list m)"
      "map (sm_at (sm_items m)) (drop ?l ?S) = drop ?l (sm_list m)"
      by (simp_all add: sm_list_def take_map drop_map)
    moreover have "length (take ?l (sm_list m)) = ?l" using len by simp
    ultimately show ?thesis unfolding eq rp by simp
  qed
qed

section \<open>The contract of the lists\<close>

text \<open>
  Four operations split a list: some transactions leave it and the others stay.  What a client
  needs of them is stated once; \<open>kind\<close> is the part of the list that no operation changes.
\<close>

locale list_split =
  fixes ok :: "'l \<Rightarrow> bool" and lst :: "'l \<Rightarrow> transaction list" and kind :: "'l \<Rightarrow> bool"
    and f :: "'l \<Rightarrow> transaction list \<times> 'l"
  assumes ok_nonces: "ok l \<Longrightarrow> distinct (map tx_NonceValue (lst l))"
    and split_ok: "ok l \<Longrightarrow> ok (snd (f l))"
    and split_kind: "kind (snd (f l)) = kind l"
    and split_mset: "ok l \<Longrightarrow> mset (fst (f l)) + mset (lst (snd (f l))) = mset (lst l)"
begin

lemma split_set: "ok l \<Longrightarrow> f l = (r, l') \<Longrightarrow> set (lst l) = set r \<union> set (lst l')"
  using split_mset [of l] by (metis fst_conv set_mset_mset set_mset_union snd_conv)

lemma split_length: "ok l \<Longrightarrow> f l = (r, l') \<Longrightarrow> length (lst l) = length r + length (lst l')"
  using split_mset [of l] by (metis fst_conv size_mset size_union snd_conv)

lemma split_distinct:
  assumes "ok l" "f l = (r, l')"
  shows "distinct r" "set r \<inter> set (lst l') = {}"
proof -
  have "distinct (lst l)" using ok_nonces [OF assms(1)] by (simp add: distinct_map)
  moreover have "mset (r @ lst l') = mset (lst l)" using split_mset [OF assms(1)] assms(2) by simp
  ultimately have "distinct (r @ lst l')" by (metis mset_eq_imp_distinct_iff)
  then show "distinct r" "set r \<inter> set (lst l') = {}" by auto
qed

lemma split_result: "ok l \<Longrightarrow> f l = (r, l') \<Longrightarrow> ok l' \<and> kind l' = kind l"
  using split_ok [of l] split_kind [of l] by simp

lemma split_nonces: "ok l \<Longrightarrow> inj_on tx_NonceValue (set (lst l))"
  using ok_nonces by (simp add: distinct_map)

end

lemma tl_ok_nonces: "tl_ok l \<Longrightarrow> distinct (map tx_NonceValue (tl_list l))"
  by (simp add: tl_ok_def tl_list_def sm_list_distinct)

lemma tl_Forward_spec:
  assumes "tl_ok l"
  shows "fst (tl_Forward l n) = takeWhile (\<lambda>tx. tx_NonceValue tx < n) (tl_list l)"
    "tl_ok (snd (tl_Forward l n))" "tl_strict (snd (tl_Forward l n)) = tl_strict l"
    "tl_list (snd (tl_Forward l n)) = dropWhile (\<lambda>tx. tx_NonceValue tx < n) (tl_list l)"
  using sm_Forward_spec [of "tl_txs l" n] assms
  by (simp_all add: tl_Forward_def tl_ok_def tl_list_def split_beta)

lemma tl_Ready_spec:
  assumes "tl_ok l"
  shows "fst (tl_Ready l n) = ready_prefix (tl_list l) n"
    "tl_ok (snd (tl_Ready l n))" "tl_strict (snd (tl_Ready l n)) = tl_strict l"
    "tl_list (snd (tl_Ready l n)) = drop (length (ready_prefix (tl_list l) n)) (tl_list l)"
  using sm_Ready_spec [of "tl_txs l" n] assms
  by (simp_all add: tl_Ready_def tl_ok_def tl_list_def split_beta)

lemma tl_Cap_spec:
  assumes "tl_ok l"
  shows "\<exists>l'. tl_Cap l (int k) = Some (rev (drop k (tl_list l)), l') \<and> tl_ok l' \<and>
    tl_strict l' = tl_strict l \<and> tl_list l' = take k (tl_list l)"
  using sm_Cap_spec [of "tl_txs l" k] assms
  by (auto simp: tl_Cap_def tl_ok_def tl_list_def split_beta)

lemma tl_Flatten_spec:
  assumes "tl_ok l" "go_range rng"
  shows "fst (tl_Flatten rng l) = tl_list l" "tl_ok (snd (tl_Flatten rng l))"
    "tl_strict (snd (tl_Flatten rng l)) = tl_strict l" "tl_list (snd (tl_Flatten rng l)) = tl_list l"
  using sm_Flatten_spec [of "tl_txs l" rng] assms
  by (simp_all add: tl_Flatten_def tl_ok_def tl_list_def split_beta)

lemma tl_Len_list: "tl_ok l \<Longrightarrow> tl_Len l = length (tl_list l)"
  by (simp add: tl_Len_def tl_ok_def tl_list_def sm_Len_list)

lemma tl_Empty_list: "tl_ok l \<Longrightarrow> tl_Empty l \<longleftrightarrow> tl_list l = []"
  by (simp add: tl_Empty_def tl_Len_list)

lemma newTxList_ok: "tl_ok (newTxList b)" "tl_list (newTxList b) = []" "tl_strict (newTxList b) = b"
  by (simp_all add: newTxList_def tl_ok_def tl_list_def newTxSortedMap_ok)

lemma tl_Add_spec:
  assumes "tl_ok l"
  shows "tx_NonceValue tx \<in> tx_NonceValue ` set (tl_list l) \<Longrightarrow> tl_Add l tx = (False, None, l)"
    "tx_NonceValue tx \<notin> tx_NonceValue ` set (tl_list l) \<Longrightarrow>
       \<exists>l'. tl_Add l tx = (True, None, l') \<and> tl_ok l' \<and> tl_strict l' = tl_strict l \<and>
         tl_list l' = insort_key tx_NonceValue tx (tl_list l)"
  using assms sm_Get_None [of "tl_txs l" "tx_NonceValue tx"] sm_Put_spec [of "tl_txs l" tx]
  by (auto simp: tl_Add_def Let_def tl_ok_def tl_list_def)

lemma tl_Overlaps_spec:
  "tl_ok l \<Longrightarrow> tl_Overlaps l tx \<longleftrightarrow> tx_NonceValue tx \<in> tx_NonceValue ` set (tl_list l)"
  using sm_Get_None [of "tl_txs l" "tx_NonceValue tx"] by (simp add: tl_Overlaps_def tl_ok_def tl_list_def)

text \<open>
  \<open>Remove\<close> takes out the transaction with the same nonce; on a strict (pending) list the
  transactions behind it are handed back as invalidated.
\<close>

lemma tl_Remove_spec:
  assumes "tl_ok l" "go_range rng"
  shows "tx_NonceValue tx \<notin> tx_NonceValue ` set (tl_list l) \<Longrightarrow>
      \<exists>l'. tl_Remove rng l tx = (False, [], l') \<and> tl_ok l' \<and> tl_strict l' = tl_strict l \<and> tl_list l' = tl_list l"
    "tx_NonceValue tx \<in> tx_NonceValue ` set (tl_list l) \<Longrightarrow>
      \<exists>inv l'. tl_Remove rng l tx = (True, inv, l') \<and> tl_ok l' \<and> tl_strict l' = tl_strict l \<and>
        mset inv = mset (if tl_strict l then filter (\<lambda>t. tx_NonceValue t > tx_NonceValue tx) (tl_list l) else []) \<and>
        tl_list l' = filter (\<lambda>t. if tl_strict l then tx_NonceValue t < tx_NonceValue tx
          else tx_NonceValue t \<noteq> tx_NonceValue tx) (tl_list l)"
proof -
  let ?n = "tx_NonceValue tx" and ?m = "snd (sm_Remove (tl_txs l) (tx_NonceValue tx))"
  have r: "fst (sm_Remove (tl_txs l) ?n) = (?n \<in> tx_NonceValue ` set (tl_list l))" "sm_ok ?m"
    "sm_list ?m = filter (\<lambda>t. tx_NonceValue t \<noteq> ?n) (tl_list l)"
    using sm_Remove_spec [of "tl_txs l" ?n] assms(1) by (simp_all add: tl_ok_def tl_list_def)
  have flt: "filter (\<lambda>t. tx_NonceValue t > ?n) (sm_list ?m) = filter (\<lambda>t. tx_NonceValue t > ?n) (tl_list l)"
    "filter (\<lambda>t. \<not> tx_NonceValue t > ?n) (sm_list ?m) = filter (\<lambda>t. tx_NonceValue t < ?n) (tl_list l)"
    unfolding r(3) by (auto intro!: filter_cong)
  have f: "mset (fst (sm_Filter rng ?m (\<lambda>t. tx_NonceValue t > ?n))) = mset (filter (\<lambda>t. tx_NonceValue t > ?n) (tl_list l))"
    "sm_ok (snd (sm_Filter rng ?m (\<lambda>t. tx_NonceValue t > ?n)))"
    "sm_list (snd (sm_Filter rng ?m (\<lambda>t. tx_NonceValue t > ?n))) = filter (\<lambda>t. tx_NonceValue t < ?n) (tl_list l)"
    using sm_Filter_spec [OF r(2) assms(2), of "\<lambda>t. tx_NonceValue t > ?n"] flt by simp_all
  show "?n \<notin> tx_NonceValue ` set (tl_list l) \<Longrightarrow>
      \<exists>l'. tl_Remove rng l tx = (False, [], l') \<and> tl_ok l' \<and> tl_strict l' = tl_strict l \<and> tl_list l' = tl_list l"
    using r by (auto simp: tl_Remove_def tl_ok_def tl_list_def split_beta Let_def image_iff intro!: filter_True)
  show "?n \<in> tx_NonceValue ` set (tl_list l) \<Longrightarrow>
      \<exists>inv l'. tl_Remove rng l tx = (True, inv, l') \<and> tl_ok l' \<and> tl_strict l' = tl_strict l \<and>
        mset inv = mset (if tl_strict l then filter (\<lambda>t. tx_NonceValue t > ?n) (tl_list l) else []) \<and>
        tl_list l' = filter (\<lambda>t. if tl_strict l then tx_NonceValue t < ?n else tx_NonceValue t \<noteq> ?n) (tl_list l)"
    using r f by (simp add: tl_Remove_def tl_ok_def tl_list_def split_beta Let_def)
qed

interpretation fwd: list_split tl_ok tl_list tl_strict "\<lambda>l. tl_Forward l n" for n
  by unfold_locales
    (simp_all add: tl_ok_nonces tl_Forward_spec flip: mset_append, simp add: tl_Forward_def split_beta)

interpretation rdy: list_split tl_ok tl_list tl_strict "\<lambda>l. tl_Ready l n" for n
proof unfold_locales
  show "mset (fst (tl_Ready l n)) + mset (tl_list (snd (tl_Ready l n))) = mset (tl_list l)" if "tl_ok l" for l
  proof -
    obtain k where "ready_prefix (tl_list l) n = take k (tl_list l)"
    proof
      show "ready_prefix (tl_list l) n = take (case tl_list l of [] \<Rightarrow> 0 | t # _ \<Rightarrow>
          if tx_NonceValue t > n then 0 else run_len (tx_NonceValue t) (map tx_NonceValue (tl_list l))) (tl_list l)"
        by (simp add: ready_prefix_def nonce_run_take split: list.split)
    qed
    then have "ready_prefix (tl_list l) n = take (length (ready_prefix (tl_list l) n)) (tl_list l)"
      by (simp add: min_def)
    then show ?thesis using that by (metis append_take_drop_id mset_append tl_Ready_spec(1,4))
  qed
qed (simp_all add: tl_ok_nonces tl_Ready_spec, simp add: tl_Ready_def split_beta)

interpretation cap: list_split tl_ok tl_list tl_strict "\<lambda>l. the (tl_Cap l (int k))" for k
proof unfold_locales
  show "tl_strict (snd (the (tl_Cap l (int k)))) = tl_strict l" for l
    by (auto simp: tl_Cap_def sm_Cap_def Let_def split: option.splits)
  show "mset (fst (the (tl_Cap l (int k)))) + mset (tl_list (snd (the (tl_Cap l (int k))))) = mset (tl_list l)"
    if "tl_ok l" for l
    using tl_Cap_spec [OF that, of k] mset_append [of "take k (tl_list l)" "drop k (tl_list l)"]
    by (auto simp: add.commute)
  show "tl_ok (snd (the (tl_Cap l (int k))))" if "tl_ok l" for l
    using tl_Cap_spec [OF that, of k] by auto
qed (simp add: tl_ok_nonces)

section \<open>The sorted map refines a list in nonce order\<close>

text \<open>\<open>Put\<close> on a nonce that is taken overwrites; the index keeps its one entry.\<close>

lemma sm_Put_over:
  assumes "sm_ok m"
  shows "sm_ok (sm_Put m tx) \<and> sm_list (sm_Put m tx) =
    insort_key tx_NonceValue tx (filter (\<lambda>t. tx_NonceValue t \<noteq> tx_NonceValue tx) (sm_list m))"
proof (cases "sm_Get m (tx_NonceValue tx)")
  case None
  have "\<forall>t\<in>set (sm_list m). tx_NonceValue t \<noteq> tx_NonceValue tx"
    using sm_Get_None [OF assms] None by (metis imageI)
  then have "filter (\<lambda>t. tx_NonceValue t \<noteq> tx_NonceValue tx) (sm_list m) = sm_list m" by (simp add: filter_id_conv)
  with sm_Put_spec [OF assms None] show ?thesis by simp
next
  case (Some old)
  let ?n = "tx_NonceValue tx" and ?F = "filter (\<lambda>t. tx_NonceValue t \<noteq> tx_NonceValue tx) (sm_list m)"
  have m: "sm_Put m tx = m\<lparr>sm_items := gput (sm_items m) ?n tx, sm_cache := None\<rparr>"
    using Some by (simp add: sm_Put_def sm_Get_def)
  have ok: "sm_ok (sm_Put m tx)"
    using assms Some by (auto simp: m sm_ok_def sm_Get_def)
  have nin: "?n \<notin> tx_NonceValue ` set ?F" by auto
  have "sm_list (sm_Put m tx) = insort_key tx_NonceValue tx ?F"
  proof (rule sm_list_unique [OF ok])
    show "sorted (map tx_NonceValue (insort_key tx_NonceValue tx ?F))"
      using sm_list_sorted [OF assms] by (simp add: sorted_insort_key sorted_filter)
    have "distinct (map tx_NonceValue ?F)" using sm_list_distinct [OF assms] by (rule distinct_map_filter)
    then show "distinct (map tx_NonceValue (insort_key tx_NonceValue tx ?F))"
      using nin by (auto simp: distinct_map distinct_insort set_insort_key)
    have "gget (sm_items m) (tx_NonceValue t) = Some t" if "t \<in> set (sm_list m)" for t
      using sm_Get_list [OF assms, of "tx_NonceValue t" t] that by (simp add: sm_Get_def)
    then show "set (insort_key tx_NonceValue tx ?F) = ran (gget (sm_items (sm_Put m tx)))"
      using sm_list_set [OF assms] sm_okD(5) [OF assms]
      by (fastforce simp: m set_insort_key ran_def split: if_splits)
  qed
  with ok show ?thesis by simp
qed

datatype sm_op = OpPut transaction | OpForward u64 | OpFilter "transaction \<Rightarrow> bool" | OpCap nat
  | OpRemove u64 | OpReady u64 | OpFlatten

text \<open>One call on the map, with what it returns, and the same call on the list.\<close>

fun sm_step :: "(u64 list \<Rightarrow> u64 list) \<Rightarrow> sm_op \<Rightarrow> txSortedMap \<Rightarrow> (transaction list \<times> txSortedMap) option" where
  "sm_step rng (OpPut tx) m = Some ([], sm_Put m tx)"
| "sm_step rng (OpForward n) m = Some (sm_Forward m n)"
| "sm_step rng (OpFilter flt) m = Some (sm_Filter rng m flt)"
| "sm_step rng (OpCap k) m = sm_Cap m (int k)"
| "sm_step rng (OpRemove n) m = Some ([], snd (sm_Remove m n))"
| "sm_step rng (OpReady n) m = Some (sm_Ready m n)"
| "sm_step rng OpFlatten m = Some (sm_Flatten rng m)"

fun list_step :: "sm_op \<Rightarrow> transaction list \<Rightarrow> transaction list \<times> transaction list" where
  "list_step (OpPut tx) ts = ([], insort_key tx_NonceValue tx (filter (\<lambda>t. tx_NonceValue t \<noteq> tx_NonceValue tx) ts))"
| "list_step (OpForward n) ts = (takeWhile (\<lambda>t. tx_NonceValue t < n) ts, dropWhile (\<lambda>t. tx_NonceValue t < n) ts)"
| "list_step (OpFilter flt) ts = (filter flt ts, filter (\<lambda>t. \<not> flt t) ts)"
| "list_step (OpCap k) ts = (rev (drop k ts), take k ts)"
| "list_step (OpRemove n) ts = ([], filter (\<lambda>t. tx_NonceValue t \<noteq> n) ts)"
| "list_step (OpReady n) ts = (ready_prefix ts n, drop (length (ready_prefix ts n)) ts)"
| "list_step OpFlatten ts = (ts, ts)"

fun sm_run :: "(u64 list \<Rightarrow> u64 list) \<Rightarrow> sm_op list \<Rightarrow> txSortedMap \<Rightarrow> (transaction list list \<times> txSortedMap) option" where
  "sm_run rng [] m = Some ([], m)"
| "sm_run rng (op # ops) m =
     (case sm_step rng op m of None \<Rightarrow> None
      | Some (r, m') \<Rightarrow> map_option (\<lambda>(rs, m''). (r # rs, m'')) (sm_run rng ops m'))"

fun list_run :: "sm_op list \<Rightarrow> transaction list \<Rightarrow> transaction list list \<times> transaction list" where
  "list_run [] ts = ([], ts)"
| "list_run (op # ops) ts =
     (let (r, ts') = list_step op ts; (rs, ts'') = list_run ops ts' in (r # rs, ts''))"

lemma sm_step_refines:
  assumes "sm_ok m" "go_range rng"
  shows "\<exists>r m'. sm_step rng op m = Some (r, m') \<and> sm_ok m' \<and> mset r = mset (fst (list_step op (sm_list m))) \<and>
    sm_list m' = snd (list_step op (sm_list m))"
proof (cases op)
  case (OpCap k)
  then show ?thesis using sm_Cap_spec [OF assms(1), of k] by auto
next
  case (OpForward n)
  then show ?thesis using sm_Forward_spec [OF assms(1), of n] by (cases "sm_Forward m n") simp
next
  case (OpFilter flt)
  then show ?thesis using sm_Filter_spec [OF assms, of flt] by (cases "sm_Filter rng m flt") simp
next
  case (OpReady n)
  then show ?thesis using sm_Ready_spec [OF assms(1), of n] by (cases "sm_Ready m n") simp
next
  case OpFlatten
  then show ?thesis using sm_Flatten_spec [OF assms] by (cases "sm_Flatten rng m") simp
qed (use assms sm_Put_over sm_Remove_spec in auto)

lemma sm_run_refines:
  assumes "sm_ok m" "go_range rng"
  shows "\<exists>rs m'. sm_run rng ops m = Some (rs, m') \<and> sm_ok m' \<and>
    map mset rs = map mset (fst (list_run ops (sm_list m))) \<and> sm_list m' = snd (list_run ops (sm_list m))"
  using assms(1)
proof (induction ops arbitrary: m)
  case (Cons op ops)
  obtain r m' where s: "sm_step rng op m = Some (r, m')" "sm_ok m'"
    "mset r = mset (fst (list_step op (sm_list m)))" "sm_list m' = snd (list_step op (sm_list m))"
    using sm_step_refines [OF Cons.prems assms(2), of op] by blast
  with Cons.IH [OF s(2)] show ?case by (auto simp: split_beta)
qed simp

section \<open>Properties\<close>

text \<open>Claim C12.  Every sequence of calls on a fresh \<open>txSortedMap\<close>, whatever order the run time
  iterates its maps in, runs without a panic, returns the same transactions and leaves the same
  content as the plain list machine that keeps the transactions in nonce order: the heap index, the
  item map and the sorted cache never disagree.\<close>

theorem txSortedMap_refines_list:
  assumes "go_range rng"
  shows "\<exists>rs m. sm_run rng ops newTxSortedMap = Some (rs, m) \<and> sm_ok m \<and>
    map mset rs = map mset (fst (list_run ops [])) \<and>
    fst (sm_Flatten rng m) = snd (list_run ops []) \<and> sm_Len m = length (snd (list_run ops []))"
proof -
  obtain rs m where r: "sm_run rng ops newTxSortedMap = Some (rs, m)" "sm_ok m"
    "map mset rs = map mset (fst (list_run ops []))" "sm_list m = snd (list_run ops [])"
    using sm_run_refines [OF newTxSortedMap_ok(1) assms, of ops] by (auto simp: newTxSortedMap_ok)
  with sm_Flatten_spec [OF r(2) assms] sm_Len_list [OF r(2)] show ?thesis by auto
qed

text \<open>A run over three transactions, two of them consecutive.\<close>

definition sample_tx :: "u64 \<Rightarrow> transaction" where
  "sample_tx n = NewTransaction\<lparr>tx_NonceValue := n, tx_Txid := word_of_int (uint n) # replicate 31 0\<rparr>"

theorem txSortedMap_refines_list_witness:
  "\<exists>rs m. sm_run rev [OpPut (sample_tx 7), OpPut (sample_tx 4), OpPut (sample_tx 5), OpReady 4] newTxSortedMap =
      Some (rs, m) \<and> sm_ok m \<and>
    map mset rs = [{#}, {#}, {#}, {#sample_tx 4, sample_tx 5#}] \<and>
    fst (sm_Flatten rev m) = [sample_tx 7] \<and> sm_Len m = 1"
  using txSortedMap_refines_list [OF go_range_rev, of "[OpPut (sample_tx 7), OpPut (sample_tx 4), OpPut (sample_tx 5), OpReady 4]"]
  by (simp add: sample_tx_def ready_prefix_def)

end
