(* ===== verification/Strconv.thy ===== *)
theory Strconv
  imports Prelude
begin

text \<open>
  The decimal numbers of \<open>strconv\<close> as the contracts and the ledger keep them in the state: \<open>FormatInt\<close>, \<open>FormatUint\<close>, \<open>ParseInt\<close> and
  \<open>ParseUint\<close> in base 10 with 64 bits, and eight-byte big-endian numbers of \<open>encoding/binary\<close>.  A parser returns its value together with the
  flag of the error, since some callers drop the error and keep the value.
\<close>

unbundle bit_operations_syntax

section \<open>Model\<close>

text \<open>The bytes of an ASCII literal.\<close>

definition ascii :: "string \<Rightarrow> bytes" where
  "ascii s = map of_char s"

fun format_uint :: "nat \<Rightarrow> bytes" where
  "format_uint n = (if n < 10 then [48 + of_nat n] else format_uint (n div 10) @ [48 + of_nat (n mod 10)])"

declare format_uint.simps [simp del]

definition FormatUint :: "u64 \<Rightarrow> bytes" where
  "FormatUint n = format_uint (unat n)"

definition FormatInt :: "int \<Rightarrow> bytes" where
  "FormatInt v = (if v < 0 then 45 # format_uint (nat (- v)) else format_uint (nat v))"

definition is_digit :: "byte \<Rightarrow> bool" where
  "is_digit c \<longleftrightarrow> 48 \<le> c \<and> c \<le> 57"

text \<open>The digit loop of \<open>ParseUint\<close>: a character that is no digit gives 0, a value beyond \<open>2 ^ 64 - 1\<close> the largest number, both with the error.\<close>

fun parse_digits :: "nat \<Rightarrow> bytes \<Rightarrow> nat \<times> bool" where
  "parse_digits n [] = (n, False)"
| "parse_digits n (c # cs) =
     (if \<not> is_digit c then (0, True)
      else if n \<ge> (2 ^ 64 - 1) div 10 + 1 then (2 ^ 64 - 1, True)
      else let n1 = n * 10 + unat (c - 48) in
        if n1 > 2 ^ 64 - 1 then (2 ^ 64 - 1, True) else parse_digits n1 cs)"

definition parse_uint :: "bytes \<Rightarrow> nat \<times> bool" where
  "parse_uint s = (if s = [] then (0, True) else parse_digits 0 s)"

definition ParseUint :: "bytes \<Rightarrow> u64 \<times> bool" where
  "ParseUint s = (let (n, err) = parse_uint s in (of_nat n, err))"

text \<open>A syntax error gives 0, a range error the nearest number.\<close>

definition ParseInt :: "bytes \<Rightarrow> int \<times> bool" where
  "ParseInt s = (if s = [] then (0, True)
     else let neg = (hd s = 45); body = (if hd s = 43 \<or> hd s = 45 then tl s else s); (un, err) = parse_uint body in
       if err \<and> un \<noteq> 2 ^ 64 - 1 then (0, True)
       else if \<not> neg \<and> un \<ge> 2 ^ 63 then (MaxInt64, True)
       else if neg \<and> un > 2 ^ 63 then (MinInt64, True)
       else (if neg then - int un else int un, False))"

definition be_uint64 :: "u64 \<Rightarrow> bytes" where
  "be_uint64 n = map (\<lambda>i. ucast (drop_bit (8 * i) n)) (rev [0..<8])"

text \<open>\<open>Uint64\<close> reads the first eight bytes and panics on fewer.\<close>

definition be_read64 :: "bytes \<Rightarrow> u64 option" where
  "be_read64 b = (if length b < 8 then None else Some (fold (\<lambda>c acc. push_bit 8 acc OR ucast c) (take 8 b) 0))"

text \<open>
  Hexadecimal strings, \<open>ByteToHex\<close> and \<open>HexToByte\<close> of \<open>util\<close> (\<open>msp\<close> has the same two).  A pair of characters is read by \<open>ParseInt\<close> in base 16,
  which also takes a sign; what is no number counts as 0, and an odd last character is dropped.  The model is for ASCII strings, one byte a character: the code slices a list of runes by the number of
  bytes, which reads beyond the runes of any other string.
\<close>

definition hex_char :: "nat \<Rightarrow> char" where
  "hex_char n = ''0123456789abcdef'' ! n"

definition ByteToHex :: "bytes \<Rightarrow> string" where
  "ByteToHex data = concat (map (\<lambda>b. [hex_char (unat b div 16), hex_char (unat b mod 16)]) data)"

definition hex_val :: "char \<Rightarrow> int option" where
  "hex_val c = (let n = (of_char c :: int) in
     if 48 \<le> n \<and> n \<le> 57 then Some (n - 48) else if 97 \<le> n \<and> n \<le> 102 then Some (n - 87)
     else if 65 \<le> n \<and> n \<le> 70 then Some (n - 55) else None)"

definition hex_pair :: "char \<Rightarrow> char \<Rightarrow> int" where
  "hex_pair c d = (case hex_val d of None \<Rightarrow> 0
     | Some lo \<Rightarrow> if c = CHR ''+'' then lo else if c = CHR ''-'' then - lo
         else (case hex_val c of None \<Rightarrow> 0 | Some hi \<Rightarrow> 16 * hi + lo))"

fun HexToByte :: "string \<Rightarrow> bytes" where
  "HexToByte (c # d # rest) = word_of_int (hex_pair c d) # HexToByte rest"
| "HexToByte _ = []"

section \<open>Round trips\<close>

lemma digit_byte:
  assumes "d < 10"
  shows "is_digit (48 + of_nat d)" "unat (48 + of_nat d - 48 :: byte) = d"
proof -
  have "unat (of_nat d :: byte) = d" using assms by (simp add: unat_of_nat)
  moreover have "unat (48 + of_nat d :: byte) = 48 + d"
    using assms calculation by (subst unat_add_lem [THEN iffD1]) (simp_all add: unat_of_nat)
  ultimately show "is_digit (48 + of_nat d)" "unat (48 + of_nat d - 48 :: byte) = d"
    using assms by (simp_all add: is_digit_def word_le_nat_alt)
qed

lemma parse_digits_append:
  assumes "parse_digits n xs = (m, False)"
  shows "parse_digits n (xs @ ys) = parse_digits m ys"
  using assms by (induction n xs rule: parse_digits.induct) (auto simp: Let_def split: if_splits)

lemma parse_digits_format: "k < 2 ^ 64 \<Longrightarrow> parse_digits 0 (format_uint k) = (k, False)"
proof (induction k rule: format_uint.induct)
  case (1 n)
  show ?case
  proof (cases "n < 10")
    case True
    then show ?thesis using digit_byte [of n] by (simp add: format_uint.simps [of n])
  next
    case False
    have ih: "parse_digits 0 (format_uint (n div 10)) = (n div 10, False)" using 1 False by simp
    have "n div 10 < (2 ^ 64 - 1) div 10 + 1" using "1.prems" by simp
    moreover have "n div 10 * 10 + n mod 10 = n" by simp
    ultimately have "parse_digits (n div 10) [48 + of_nat (n mod 10)] = (n, False)"
      using digit_byte [of "n mod 10"] "1.prems" by (simp add: Let_def not_le)
    then show ?thesis using parse_digits_append [OF ih] False by (simp add: format_uint.simps [of n])
  qed
qed

lemma format_uint_Cons: "\<exists>c cs. format_uint n = c # cs \<and> is_digit c"
proof (induction n rule: format_uint.induct)
  case (1 n)
  show ?case
  proof (cases "n < 10")
    case True
    then show ?thesis using digit_byte(1) [OF True] by (subst format_uint.simps) simp
  next
    case False
    then show ?thesis using 1 by (subst format_uint.simps) auto
  qed
qed

lemma parse_format_uint [simp]: "k < 2 ^ 64 \<Longrightarrow> parse_uint (format_uint k) = (k, False)"
  using format_uint_Cons [of k] parse_digits_format [of k] by (auto simp: parse_uint_def)

lemma ParseUint_FormatUint [simp]: "ParseUint (FormatUint n) = (n, False)"
proof -
  have "unat n < 2 ^ LENGTH(64)" by (rule unsigned_less)
  then show ?thesis by (simp add: ParseUint_def FormatUint_def)
qed

lemma ParseInt_FormatInt [simp]:
  assumes "in_int64 v"
  shows "ParseInt (FormatInt v) = (v, False)"
proof (cases "v < 0")
  case True
  then have "nat (- v) \<le> 2 ^ 63" using assms by (simp add: in_int64_def MinInt64_def nat_le_iff)
  then have "parse_uint (format_uint (nat (- v))) = (nat (- v), False)" by (intro parse_format_uint) simp
  then show ?thesis using True \<open>nat (- v) \<le> 2 ^ 63\<close> by (simp add: FormatInt_def ParseInt_def)
next
  case False
  then have le: "nat v < 2 ^ 63" using assms by (simp add: in_int64_def MaxInt64_def nat_less_iff)
  then have "parse_uint (format_uint (nat v)) = (nat v, False)" by (intro parse_format_uint) simp
  moreover obtain c cs where "format_uint (nat v) = c # cs" "is_digit c" using format_uint_Cons by blast
  moreover from this have "c \<noteq> 43" "c \<noteq> 45" by (auto simp: is_digit_def)
  ultimately show ?thesis using False le by (simp add: FormatInt_def ParseInt_def)
qed

lemma length_be_uint64 [simp]: "length (be_uint64 n) = 8"
  by (simp add: be_uint64_def)

lemma be_step: "push_bit 8 (drop_bit (j + 8) n) OR ucast (ucast (drop_bit j n) :: byte) = drop_bit j (n :: u64)"
  by (rule bit_word_eqI) (auto simp: bit_simps not_le not_less)

lemma be_read64_uint64 [simp]: "be_read64 (be_uint64 n) = Some n"
proof -
  have "rev [0..<8] = [7, 6, 5, 4, 3, 2, 1, 0 :: nat]" by (simp add: upt_rec)
  moreover have "drop_bit 64 n = 0" by (rule bit_word_eqI) (simp add: bit_simps)
  ultimately show ?thesis
    using be_step [of 56 n] be_step [of 48 n] be_step [of 40 n] be_step [of 32 n] be_step [of 24 n] be_step [of 16 n] be_step [of 8 n] be_step [of 0 n]
    by (simp add: be_read64_def be_uint64_def)
qed

lemma hex_val_char:
  assumes "n < 16"
  shows "hex_val (hex_char n) = Some (int n)" "hex_char n \<noteq> CHR ''+''" "hex_char n \<noteq> CHR ''-''"
proof -
  have "\<forall>n \<in> set [0..<16]. hex_val (hex_char n) = Some (int n) \<and> hex_char n \<noteq> CHR ''+'' \<and> hex_char n \<noteq> CHR ''-''" by code_simp
  then show "hex_val (hex_char n) = Some (int n)" "hex_char n \<noteq> CHR ''+''" "hex_char n \<noteq> CHR ''-''" using assms by simp_all
qed

lemma hex_pair_byte: "word_of_int (hex_pair (hex_char (unat b div 16)) (hex_char (unat b mod 16))) = (b :: byte)"
proof -
  have "unat b < 2 ^ LENGTH(8)" by (rule unsigned_less)
  then have "unat b div 16 < 16" "unat b mod 16 < 16" by simp_all
  then have "hex_pair (hex_char (unat b div 16)) (hex_char (unat b mod 16)) = 16 * int (unat b div 16) + int (unat b mod 16)"
    using hex_val_char [of "unat b div 16"] hex_val_char [of "unat b mod 16"] by (simp add: hex_pair_def)
  also have "\<dots> = int (16 * (unat b div 16) + unat b mod 16)" by (simp only: of_nat_add of_nat_mult of_nat_numeral)
  also have "\<dots> = int (unat b)" by (simp only: mult_div_mod_eq)
  finally show ?thesis by simp
qed

lemma HexToByte_ByteToHex [simp]: "HexToByte (ByteToHex data) = data"
  by (induction data) (simp_all add: ByteToHex_def hex_pair_byte)

lemma parse_uint_range: "fst (parse_uint s) \<le> 2 ^ 64 - 1"
proof -
  have "n \<le> 2 ^ 64 - 1 \<Longrightarrow> fst (parse_digits n s) \<le> 2 ^ 64 - 1" for n
    by (induction n s rule: parse_digits.induct) (auto simp: Let_def)
  then show ?thesis by (simp add: parse_uint_def)
qed

lemma ParseInt_range [simp]: "in_int64 (fst (ParseInt s))"
  by (auto simp: ParseInt_def in_int64_def MinInt64_def MaxInt64_def Let_def split: prod.splits)

end
