(* ===== verification/Signer.thy ===== *)
theory Signer
  imports Transaction Strconv "HOL-Library.Monad_Syntax"
begin

text \<open>
  \<open>msp/tx_sign.go\<close>: the signature of a transaction and the address recovered from it.  \<open>None\<close> is a run-time panic, which a nil number of the signature
  causes; errors are values.  The digest, the JSON encoding of what is signed, the recovery of a public key by the C library and the signature made by the key
  of the node are parameters.
\<close>

section \<open>Model\<close>

record sign_env =
  se_marshal :: "string \<Rightarrow> address \<Rightarrow> bytes \<Rightarrow> u64 \<Rightarrow> bytes"
  se_Keccak256 :: "bytes \<Rightarrow> bytes"
  se_recover :: "bytes \<Rightarrow> bytes \<Rightarrow> bytes option"
  se_SignWithHash :: "bytes \<Rightarrow> string + bytes"

datatype sign_error = ErrInvalidSig | ErrInvalidMsgLen | ErrInvalidSignatureLen | ErrInvalidRecoveryID | ErrRecoverFailed | ErrInvalidPublicKey | ErrSignFailed string

definition secp256k1N :: int where
  "secp256k1N = 0xfffffffffffffffffffffffffffffffebaaedce6af48a03bbfd25e8cd0364141"

definition secp256k1halfN :: int where
  "secp256k1halfN = secp256k1N div 2"

text \<open>\<open>big.Int.BitLen\<close> and \<open>big.Int.Uint64\<close> look at the absolute value.\<close>

fun bit_len :: "nat \<Rightarrow> nat" where
  "bit_len n = (if n = 0 then 0 else Suc (bit_len (n div 2)))"

declare bit_len.simps [simp del]

definition big_BitLen :: "int \<Rightarrow> nat" where
  "big_BitLen i = bit_len (nat \<bar>i\<bar>)"

definition big_Uint64 :: "int \<Rightarrow> u64" where
  "big_Uint64 i = of_int \<bar>i\<bar>"

record HNBSigner =
  hs_chainId :: int
  hs_chainIdMul :: int

definition NewHNBSigner :: "int option \<Rightarrow> HNBSigner" where
  "NewHNBSigner chainId = (let c = (case chainId of None \<Rightarrow> 0 | Some c \<Rightarrow> c) in \<lparr> hs_chainId = c, hs_chainIdMul = c * 2 \<rparr>)"

definition GetSigner :: HNBSigner where
  "GetSigner = NewHNBSigner (Some (big_SetBytes (ascii HNB)))"

definition isProtectedV :: "int option \<Rightarrow> bool option" where
  "isProtectedV V = map_option (\<lambda>v. if big_BitLen v \<le> 8 then big_Uint64 v \<noteq> 27 \<and> big_Uint64 v \<noteq> 28 else True) V"

definition Protected :: "transaction \<Rightarrow> bool option" where
  "Protected tx = isProtectedV (tx_V tx)"

definition signHash :: "sign_env \<Rightarrow> bytes \<Rightarrow> hash" where
  "signHash se m = go_copy (replicate 32 0) 0 (se_Keccak256 se m)"

definition signer_Hash :: "sign_env \<Rightarrow> transaction \<Rightarrow> hash" where
  "signer_Hash se tx = signHash se (se_marshal se (tx_ContractName tx) (tx_From tx) (tx_Payload tx) (tx_NonceValue tx))"

text \<open>The second number is looked at only if the first one is at least one.\<close>

definition ValidateSignatureValues :: "byte \<Rightarrow> int option \<Rightarrow> int option \<Rightarrow> bool \<Rightarrow> bool option" where
  "ValidateSignatureValues v r s homestead = do {
     r' \<leftarrow> r;
     if r' < 1 then Some False
     else do {
       s' \<leftarrow> s;
       Some (\<not> s' < 1 \<and> \<not> (homestead \<and> s' > secp256k1halfN) \<and> r' < secp256k1N \<and> s' < secp256k1N \<and> (v = 0 \<or> v = 1)) } }"

definition checkSignature :: "bytes \<Rightarrow> sign_error option" where
  "checkSignature sig = (if length sig \<noteq> 65 then Some ErrInvalidSignatureLen else if sig ! 64 \<ge> 4 then Some ErrInvalidRecoveryID else None)"

definition RecoverPubkey :: "sign_env \<Rightarrow> bytes \<Rightarrow> bytes \<Rightarrow> sign_error + bytes" where
  "RecoverPubkey se msg sig =
     (if length msg \<noteq> 32 then Inl ErrInvalidMsgLen
      else case checkSignature sig of Some e \<Rightarrow> Inl e
      | None \<Rightarrow> (case se_recover se sig msg of None \<Rightarrow> Inl ErrRecoverFailed | Some pub \<Rightarrow> Inr pub))"

definition pub_address :: "sign_env \<Rightarrow> bytes \<Rightarrow> address" where
  "pub_address se pub = go_copy (replicate 20 0) 0 (drop 12 (se_Keccak256 se (drop 1 pub)))"

definition recoverPlain :: "sign_env \<Rightarrow> hash \<Rightarrow> int option \<Rightarrow> int option \<Rightarrow> int option \<Rightarrow> bool \<Rightarrow> (sign_error + address) option" where
  "recoverPlain se sighash R S Vb homestead = do {
     vb \<leftarrow> Vb;
     if big_BitLen vb > 8 then Some (Inl ErrInvalidSig)
     else do {
       let V = (ucast (big_Uint64 vb - 27) :: byte);
       ok \<leftarrow> ValidateSignatureValues V R S homestead;
       if \<not> ok then Some (Inl ErrInvalidSig)
       else do {
         let r = big_Bytes (nat (the R));
         let s = big_Bytes (nat (the S));
         let sig = (go_copy (go_copy (replicate 65 0) (32 - length r) r) (64 - length s) s)[64 := V];
         Some (case RecoverPubkey se sighash sig of Inl e \<Rightarrow> Inl e
           | Inr pub \<Rightarrow> if length pub = 0 \<or> hd pub \<noteq> 4 then Inl ErrInvalidPublicKey else Inr (pub_address se pub)) } } }"

definition HomesteadSigner_Sender :: "sign_env \<Rightarrow> transaction \<Rightarrow> (sign_error + address) option" where
  "HomesteadSigner_Sender se tx = recoverPlain se (signer_Hash se tx) (tx_R tx) (tx_S tx) (tx_V tx) True"

definition FrontierSigner_Sender :: "sign_env \<Rightarrow> transaction \<Rightarrow> (sign_error + address) option" where
  "FrontierSigner_Sender se tx = recoverPlain se (signer_Hash se tx) (tx_R tx) (tx_S tx) (tx_V tx) False"

definition HNBSigner_Sender :: "sign_env \<Rightarrow> HNBSigner \<Rightarrow> transaction \<Rightarrow> (sign_error + address) option" where
  "HNBSigner_Sender se hs tx = do {
     protected \<leftarrow> Protected tx;
     if \<not> protected then HomesteadSigner_Sender se tx
     else recoverPlain se (signer_Hash se tx) (tx_R tx) (tx_S tx) (map_option (\<lambda>v. v - hs_chainIdMul hs - 8) (tx_V tx)) True }"

definition msp_Sender :: "sign_env \<Rightarrow> HNBSigner \<Rightarrow> transaction \<Rightarrow> (sign_error + address) option" where
  "msp_Sender se hs tx = (case HNBSigner_Sender se hs tx of None \<Rightarrow> None | Some (Inl e) \<Rightarrow> Some (Inl e) | Some (Inr addr) \<Rightarrow> Some (Inr addr))"

text \<open>A signature of another length panics.\<close>

definition Frontier_SignatureValues :: "bytes \<Rightarrow> (int \<times> int \<times> int) option" where
  "Frontier_SignatureValues sig =
     (if length sig \<noteq> 65 then None else Some (big_SetBytes (take 32 sig), big_SetBytes (take 32 (drop 32 sig)), big_SetBytes [sig ! 64 + 27]))"

definition HNB_SignatureValues :: "HNBSigner \<Rightarrow> bytes \<Rightarrow> (int \<times> int \<times> int) option" where
  "HNB_SignatureValues hs sig = map_option (\<lambda>(R, S, V). if hs_chainId hs \<noteq> 0 then (R, S, uint (sig ! 64 + 35) + hs_chainIdMul hs) else (R, S, V)) (Frontier_SignatureValues sig)"

definition WithSignature :: "HNBSigner \<Rightarrow> bytes \<Rightarrow> transaction \<Rightarrow> transaction option" where
  "WithSignature hs sig tx = map_option (\<lambda>(r, s, v). tx\<lparr>tx_R := Some r, tx_S := Some s, tx_V := Some v\<rparr>) (HNB_SignatureValues hs sig)"

definition SignTx :: "sign_env \<Rightarrow> HNBSigner \<Rightarrow> transaction \<Rightarrow> (sign_error + transaction) option" where
  "SignTx se hs tx = (case se_SignWithHash se (Hash_GetBytes (signer_Hash se tx)) of Inl e \<Rightarrow> Some (Inl (ErrSignFailed e)) | Inr sig \<Rightarrow> map_option Inr (WithSignature hs sig tx))"

section \<open>When the recovery panics\<close>

lemma bit_len_less: "bit_len n \<le> k \<longleftrightarrow> n < 2 ^ k"
proof (induction k arbitrary: n)
  case 0
  then show ?case by (subst bit_len.simps) auto
next
  case (Suc k)
  show ?case using Suc.IH [of "n div 2"] by (subst bit_len.simps) auto
qed

lemma big_BitLen_8: "big_BitLen v \<le> 8 \<longleftrightarrow> \<bar>v\<bar> < 256"
  using bit_len_less [of "nat \<bar>v\<bar>" 8] by (simp add: big_BitLen_def nat_less_iff)

lemma Validate_None: "ValidateSignatureValues v r s hm = None \<longleftrightarrow> r = None \<or> (\<exists>i \<ge> 1. r = Some i \<and> s = None)"
  by (cases r; cases s) (auto simp: ValidateSignatureValues_def)

lemma recoverPlain_None:
  "recoverPlain se h R S Vb hm = None \<longleftrightarrow> Vb = None \<or> (\<exists>v. Vb = Some v \<and> \<bar>v\<bar> < 256 \<and> (R = None \<or> (\<exists>i \<ge> 1. R = Some i \<and> S = None)))"
proof (cases Vb)
  case (Some v)
  then show ?thesis using Validate_None [of "ucast (big_Uint64 v - 27)" R S hm] big_BitLen_8 [of v]
    by (cases "big_BitLen v > 8") (auto simp: recoverPlain_def Let_def split: Option.bind_splits)
qed (simp add: recoverPlain_def)

text \<open>
  The transactions whose signature cannot even be looked at: the number \<open>V\<close> is missing, or it names a recovery and the number \<open>R\<close> is missing, or \<open>R\<close> is positive and \<open>S\<close> is missing.
\<close>

definition recovery_V :: "HNBSigner \<Rightarrow> int \<Rightarrow> int" where
  "recovery_V hs v = (if \<bar>v\<bar> = 27 \<or> \<bar>v\<bar> = 28 then v else v - hs_chainIdMul hs - 8)"

definition signature_missing :: "HNBSigner \<Rightarrow> transaction \<Rightarrow> bool" where
  "signature_missing hs tx = (case tx_V tx of None \<Rightarrow> True
     | Some v \<Rightarrow> \<bar>recovery_V hs v\<bar> < 256 \<and> (case tx_R tx of None \<Rightarrow> True | Some r \<Rightarrow> r \<ge> 1 \<and> tx_S tx = None))"

lemma isProtectedV_Some: "isProtectedV (Some v) = Some (\<bar>v\<bar> \<noteq> 27 \<and> \<bar>v\<bar> \<noteq> 28)"
proof (cases "\<bar>v\<bar> < 256")
  case True
  then have "uint (big_Uint64 v) = \<bar>v\<bar>" by (simp add: big_Uint64_def uint_word_of_int)
  then show ?thesis using True by (auto simp: isProtectedV_def big_BitLen_8 word_uint_eq_iff)
qed (auto simp: isProtectedV_def big_BitLen_8)

lemma msp_Sender_id: "msp_Sender se hs tx = HNBSigner_Sender se hs tx"
  by (auto simp: msp_Sender_def split: option.split sum.split)

lemma Sender_panics: "msp_Sender se hs tx = None \<longleftrightarrow> signature_missing hs tx"
proof (cases "tx_V tx")
  case (Some v)
  then show ?thesis
    by (auto simp: msp_Sender_id HNBSigner_Sender_def Protected_def isProtectedV_Some HomesteadSigner_Sender_def recoverPlain_None signature_missing_def recovery_V_def split: option.splits)
qed (simp add: msp_Sender_id HNBSigner_Sender_def Protected_def isProtectedV_def signature_missing_def)

end
