(* ===== verification/TxPool.thy ===== *)
theory TxPool
  imports TxList Prque Signer "HOL-Library.Monad_Syntax"
begin

text \<open>
  \<open>txpool/tx_pool.go\<close>, \<open>txpool/store.go\<close> and \<open>txpool/txpoolServer.go\<close>: the pool of pending and queued
  transactions.  The pool is a record that every method takes and returns; \<open>None\<close> is a run-time panic
  (or, for the eviction loops, a loop that does not end), and the theorems show when it occurs.
  The pool mutex makes each method atomic, so a run of the node is a sequence of method calls.
\<close>

section \<open>Configuration, environment and state\<close>

record TxPoolConfig =
  cfg_Locals :: "address list"
  cfg_Journal :: string
  cfg_Rejournal :: int
  cfg_NoLocals :: bool
  cfg_AccountSlots :: u64
  cfg_GlobalSlots :: u64
  cfg_AccountQueue :: u64
  cfg_GlobalQueue :: u64
  cfg_Lifetime :: int

text \<open>Durations are nanoseconds.\<close>

definition time_Second :: int where
  "time_Second = 1000000000"

definition DefaultTxPoolConfig :: TxPoolConfig where
  "DefaultTxPoolConfig = \<lparr> cfg_Locals = [], cfg_Journal = [], cfg_Rejournal = 3600 * time_Second,
     cfg_NoLocals = False, cfg_AccountSlots = 16, cfg_GlobalSlots = 4096, cfg_AccountQueue = 64,
     cfg_GlobalQueue = 1024, cfg_Lifetime = 3 * 3600 * time_Second \<rparr>"

definition sanitize :: "TxPoolConfig \<Rightarrow> TxPoolConfig" where
  "sanitize conf = (if cfg_Rejournal conf < time_Second then conf\<lparr>cfg_Rejournal := time_Second\<rparr> else conf)"

datatype pool_error = ErrInvalidSender | ErrFromMismatch | ErrNonceTooLow | ErrCheckTx string
  | ErrKnown hash | ErrTxQueueFull | ErrReplaceUnderpriced | ErrNilMsg | ErrUnmarshal string

text \<open>
  What the pool calls outside its package: the ledger's nonce of an account with its error,
  what the recovery of a signer relies on, the application's check, the run mode, the clock (its reading when a
  transaction is promoted, and when the eviction ticker fires), the JSON decoder, and the two orders
  in which the run time iterates maps keyed by nonce and by address.
\<close>

record pool_env =
  pe_GetNonce :: "address \<Rightarrow> u64 \<times> string option"
  pe_sign :: sign_env
  pe_CheckTx :: "transaction \<Rightarrow> string option"
  pe_RunMode :: string
  pe_Now :: "transaction \<Rightarrow> int"
  pe_Tick :: int
  pe_Unmarshal :: "bytes \<Rightarrow> string + transaction"
  pe_rngN :: "u64 list \<Rightarrow> u64 list"
  pe_rngA :: "address list \<Rightarrow> address list"

record accountSet =
  as_accounts :: "(address, unit) gomap"
  as_cache :: "address list option"

text \<open>
  \<open>tp_pendingState\<close> is the map inside \<open>PendingCache\<close>, \<open>tp_all\<close> the map inside \<open>txLookup\<close> and
  \<open>tp_notify\<close> the number of tokens in the buffered notification channel.
\<close>

record TxPool =
  tp_config :: TxPoolConfig
  tp_pendingState :: "(address, u64) gomap"
  tp_locals :: accountSet
  tp_journal :: "string option"
  tp_pending :: "(address, txList) gomap"
  tp_queue :: "(address, txList) gomap"
  tp_beats :: "(address, int) gomap"
  tp_all :: "(hash, transaction) gomap"
  tp_notify :: nat

section \<open>store.go, accountSet, txLookup\<close>

definition PendingCache_SetNonce :: "(address, u64) gomap \<Rightarrow> address \<Rightarrow> u64 \<Rightarrow> (address, u64) gomap" where
  "PendingCache_SetNonce pc addr nonce = gput pc addr nonce"

definition PendingCache_GetNonce :: "pool_env \<Rightarrow> (address, u64) gomap \<Rightarrow> address \<Rightarrow> u64" where
  "PendingCache_GetNonce env pc addr =
     (case gget pc addr of Some nonce \<Rightarrow> nonce
      | None \<Rightarrow> (case pe_GetNonce env addr of (nonce, err) \<Rightarrow> if err \<noteq> None then 0 else nonce))"

definition newAccountSet :: accountSet where
  "newAccountSet = \<lparr> as_accounts = [], as_cache = None \<rparr>"

definition as_contains :: "accountSet \<Rightarrow> address \<Rightarrow> bool" where
  "as_contains s addr \<longleftrightarrow> gget (as_accounts s) addr \<noteq> None"

definition as_containsTx :: "accountSet \<Rightarrow> transaction \<Rightarrow> bool" where
  "as_containsTx s tx = as_contains s (tx_From tx)"

definition as_add :: "accountSet \<Rightarrow> address \<Rightarrow> accountSet" where
  "as_add s addr = s\<lparr>as_accounts := gput (as_accounts s) addr (), as_cache := None\<rparr>"

definition as_flatten :: "(address list \<Rightarrow> address list) \<Rightarrow> accountSet \<Rightarrow> address list \<times> accountSet" where
  "as_flatten rng s =
     (let c = (case as_cache s of Some c \<Rightarrow> c | None \<Rightarrow> gkeys rng (as_accounts s))
      in (c, s\<lparr>as_cache := Some c\<rparr>))"

definition lk_Get :: "(hash, transaction) gomap \<Rightarrow> hash \<Rightarrow> transaction option" where
  "lk_Get t h = gget t h"

definition lk_Count :: "(hash, transaction) gomap \<Rightarrow> nat" where
  "lk_Count t = length t"

definition lk_Add :: "(hash, transaction) gomap \<Rightarrow> transaction \<Rightarrow> (hash, transaction) gomap" where
  "lk_Add t tx = gput t (tx_Txid tx) tx"

definition lk_Remove :: "(hash, transaction) gomap \<Rightarrow> hash \<Rightarrow> (hash, transaction) gomap" where
  "lk_Remove t h = gdel t h"

section \<open>Adding and removing one transaction\<close>

abbreviation pool_nonce :: "pool_env \<Rightarrow> TxPool \<Rightarrow> address \<Rightarrow> u64" where
  "pool_nonce env p addr \<equiv> PendingCache_GetNonce env (tp_pendingState p) addr"

definition all_Remove :: "hash \<Rightarrow> TxPool \<Rightarrow> TxPool" where
  "all_Remove h p = p\<lparr>tp_all := lk_Remove (tp_all p) h\<rparr>"

text \<open>The signer of the pool, which is never changed.\<close>

definition pool_signer :: HNBSigner where
  "pool_signer = NewHNBSigner (Some (big_SetBytes (ascii HNB)))"

text \<open>Recovering the sender panics on a transaction without a signature.\<close>

definition validateTx :: "pool_env \<Rightarrow> TxPool \<Rightarrow> transaction \<Rightarrow> bool \<Rightarrow> pool_error option option" where
  "validateTx env p tx loc = do {
     r \<leftarrow> msp_Sender (pe_sign env) pool_signer tx;
     Some (case r of Inl e \<Rightarrow> Some ErrInvalidSender
      | Inr from \<Rightarrow>
          if pe_RunMode env = ''dev'' \<and> Address_GetBytes from \<noteq> Address_GetBytes (tx_From tx)
          then Some ErrFromMismatch
          else if fst (pe_GetNonce env from) > tx_NonceValue tx then Some ErrNonceTooLow
          else map_option ErrCheckTx (pe_CheckTx env tx)) }"

definition enqueueTx :: "hash \<Rightarrow> transaction \<Rightarrow> TxPool \<Rightarrow> (pool_error + bool) \<times> TxPool" where
  "enqueueTx h tx p =
     (let from = tx_From tx;
          l = (case gget (tp_queue p) from of None \<Rightarrow> newTxList False | Some l \<Rightarrow> l);
          (inserted, old, l') = tl_Add l tx;
          p1 = p\<lparr>tp_queue := gput (tp_queue p) from l'\<rparr>
      in if \<not> inserted then (Inl ErrReplaceUnderpriced, p1)
         else let p2 = (case old of None \<Rightarrow> p1 | Some o' \<Rightarrow> all_Remove (tx_Txid o') p1);
                  p3 = (if lk_Get (tp_all p2) h = None then p2\<lparr>tp_all := lk_Add (tp_all p2) tx\<rparr> else p2)
              in (Inr (old \<noteq> None), p3))"

text \<open>The journal's \<open>insert\<close> does nothing but return nil, whatever the guard decides.\<close>

definition journalTx :: "address \<Rightarrow> transaction \<Rightarrow> TxPool \<Rightarrow> TxPool" where
  "journalTx from tx p = p"

definition pool_add :: "pool_env \<Rightarrow> transaction \<Rightarrow> bool \<Rightarrow> TxPool \<Rightarrow> ((pool_error + bool) \<times> TxPool) option" where
  "pool_add env tx loc p =
     (let h = tx_Txid tx in
      if lk_Get (tp_all p) h \<noteq> None then Some (Inl (ErrKnown h), p)
      else map_option (\<lambda>invalid. case invalid of Some e \<Rightarrow> (Inl e, p)
      | None \<Rightarrow>
          if word_of_nat (lk_Count (tp_all p)) \<ge> cfg_GlobalSlots (tp_config p) + cfg_GlobalQueue (tp_config p)
          then (Inl ErrTxQueueFull, p)
          else let from = tx_From tx in
            if (case gget (tp_pending p) from of None \<Rightarrow> False | Some l \<Rightarrow> tl_Overlaps l tx)
            then (Inr False, p)
            else case enqueueTx h tx p of
                (Inl e, p1) \<Rightarrow> (Inl e, p1)
              | (Inr replace, p1) \<Rightarrow>
                  let p2 = (if loc \<and> \<not> as_contains (tp_locals p1) from
                            then p1\<lparr>tp_locals := as_add (tp_locals p1) from\<rparr> else p1)
                  in (Inr replace, journalTx from tx p2)) (validateTx env p tx loc))"

definition promoteTx :: "pool_env \<Rightarrow> address \<Rightarrow> hash \<Rightarrow> transaction \<Rightarrow> TxPool \<Rightarrow> bool \<times> TxPool" where
  "promoteTx env addr h tx p =
     (let l = (case gget (tp_pending p) addr of None \<Rightarrow> newTxList True | Some l \<Rightarrow> l);
          (inserted, old, l') = tl_Add l tx;
          p1 = p\<lparr>tp_pending := gput (tp_pending p) addr l'\<rparr>
      in if \<not> inserted then (False, all_Remove h p1)
         else let p2 = (case old of None \<Rightarrow> p1 | Some o' \<Rightarrow> all_Remove (tx_Txid o') p1);
                  p3 = (if lk_Get (tp_all p2) h = None then p2\<lparr>tp_all := lk_Add (tp_all p2) tx\<rparr> else p2)
              in (True, p3\<lparr>tp_beats := gput (tp_beats p3) addr (pe_Now env tx),
                    tp_pendingState := PendingCache_SetNonce (tp_pendingState p3) addr (tx_NonceValue tx + 1)\<rparr>))"

text \<open>\<open>if pendingState.GetNonce(addr) > nonce { pendingState.SetNonce(addr, nonce) }\<close>\<close>

definition lower_nonce :: "pool_env \<Rightarrow> address \<Rightarrow> u64 \<Rightarrow> TxPool \<Rightarrow> TxPool" where
  "lower_nonce env addr nonce p =
     (if pool_nonce env p addr > nonce
      then p\<lparr>tp_pendingState := PendingCache_SetNonce (tp_pendingState p) addr nonce\<rparr> else p)"

definition remove_queued :: "pool_env \<Rightarrow> address \<Rightarrow> transaction \<Rightarrow> TxPool \<Rightarrow> TxPool" where
  "remove_queued env addr tx p =
     (case gget (tp_queue p) addr of None \<Rightarrow> p
      | Some future \<Rightarrow>
          (case tl_Remove (pe_rngN env) future tx of (removed, invalids, future') \<Rightarrow>
             if tl_Empty future' then p\<lparr>tp_queue := gdel (tp_queue p) addr\<rparr>
             else p\<lparr>tp_queue := gput (tp_queue p) addr future'\<rparr>))"

definition removeTx :: "pool_env \<Rightarrow> hash \<Rightarrow> TxPool \<Rightarrow> TxPool" where
  "removeTx env h p =
     (case lk_Get (tp_all p) h of None \<Rightarrow> p
      | Some tx \<Rightarrow>
          let addr = tx_From tx; p1 = all_Remove h p in
          case gget (tp_pending p1) addr of None \<Rightarrow> remove_queued env addr tx p1
          | Some l \<Rightarrow>
              (case tl_Remove (pe_rngN env) l tx of (removed, invalids, l') \<Rightarrow>
                 if removed then
                   let p2 = (if tl_Empty l'
                             then p1\<lparr>tp_pending := gdel (tp_pending p1) addr, tp_beats := gdel (tp_beats p1) addr\<rparr>
                             else p1\<lparr>tp_pending := gput (tp_pending p1) addr l'\<rparr>);
                       p3 = fold (\<lambda>t p. snd (enqueueTx (tx_Txid t) t p)) invalids p2
                   in lower_nonce env addr (tx_NonceValue tx) p3
                 else remove_queued env addr tx (p1\<lparr>tp_pending := gput (tp_pending p1) addr l'\<rparr>)))"

section \<open>promoteExecutables\<close>

definition drop_txs :: "transaction list \<Rightarrow> TxPool \<Rightarrow> TxPool" where
  "drop_txs txs p = fold (\<lambda>tx p. all_Remove (tx_Txid tx) p) txs p"

text \<open>Lines 740 to 747: cut the queue list of an account that is not local.\<close>

definition cap_account :: "address \<Rightarrow> TxPool \<Rightarrow> txList \<Rightarrow> (TxPool \<times> txList) option" where
  "cap_account addr p l =
     (if \<not> as_contains (tp_locals p) addr then do {
        (drops, l') \<leftarrow> tl_Cap l (sint (cfg_AccountQueue (tp_config p)));
        Some (drop_txs drops (p\<lparr>tp_queue := gput (tp_queue p) addr l'\<rparr>), l')
      } else Some (p, l))"

text \<open>The body of the loop over the accounts: lines 708 to 752.\<close>

definition promote_account :: "pool_env \<Rightarrow> address \<Rightarrow> TxPool \<Rightarrow> TxPool option" where
  "promote_account env addr p =
     (case gget (tp_queue p) addr of None \<Rightarrow> Some p
      | Some l \<Rightarrow>
          let nonce = fst (pe_GetNonce env addr);
              (old, l1) = tl_Forward l nonce;
              p1 = drop_txs old (p\<lparr>tp_queue := gput (tp_queue p) addr l1\<rparr>);
              (ready, l2) = tl_Ready l1 (pool_nonce env p1 addr);
              p2 = fold (\<lambda>tx p. snd (promoteTx env addr (tx_Txid tx) tx p)) ready
                     (p1\<lparr>tp_queue := gput (tp_queue p1) addr l2\<rparr>)
          in do {
            (p3, l3) \<leftarrow> cap_account addr p2 l2;
            Some (if tl_Empty l3 then p3\<lparr>tp_queue := gdel (tp_queue p3) addr\<rparr> else p3)
          })"

text \<open>A uint64 counter decremented by one.\<close>

definition u64_dec :: "nat \<Rightarrow> nat" where
  "u64_dec n = (if n = 0 then 2 ^ 64 - 1 else n - 1)"

definition lists_len :: "(address, txList) gomap \<Rightarrow> nat" where
  "lists_len m = sum_list (map (\<lambda>(a, l). tl_Len l) m)"

text \<open>Lines 790 to 802 and 811 to 823: drop the last pending transaction of an offender.\<close>

definition drop_last :: "pool_env \<Rightarrow> address \<Rightarrow> TxPool \<times> nat \<Rightarrow> (TxPool \<times> nat) option" where
  "drop_last env addr = (\<lambda>(p, pending). do {
     l \<leftarrow> gget (tp_pending p) addr;
     (drops, l') \<leftarrow> tl_Cap l (int (tl_Len l) - 1);
     Some (fold (\<lambda>tx p. lower_nonce env addr (tx_NonceValue tx) (all_Remove (tx_Txid tx) p)) drops
             (p\<lparr>tp_pending := gput (tp_pending p) addr l'\<rparr>), u64_dec pending) })"

abbreviation over_slots :: "TxPool \<Rightarrow> nat \<Rightarrow> bool" where
  "over_slots p pending \<equiv> unat (cfg_GlobalSlots (tp_config p)) < pending"

partial_function (option) equalize_loop ::
  "pool_env \<Rightarrow> address list \<Rightarrow> nat \<Rightarrow> TxPool \<Rightarrow> nat \<Rightarrow> (TxPool \<times> nat) option" where
  "equalize_loop env offenders threshold p pending =
     (if over_slots p pending then do {
        l \<leftarrow> gget (tp_pending p) (offenders ! (length offenders - 2));
        if tl_Len l > threshold then do {
          (p', pending') \<leftarrow> for_each (drop_last env) (butlast offenders) (p, pending);
          equalize_loop env offenders threshold p' pending'
        } else Some (p, pending)
      } else Some (p, pending))"

partial_function (option) spammer_loop ::
  "pool_env \<Rightarrow> (address, unit) sstack \<Rightarrow> address list \<Rightarrow> TxPool \<Rightarrow> nat \<Rightarrow> (address list \<times> TxPool \<times> nat) option" where
  "spammer_loop env spammers offenders p pending =
     (if over_slots p pending \<and> \<not> prque_Empty spammers then do {
        ((offender, prio), spammers') \<leftarrow> prque_Pop spammers;
        let offenders' = offenders @ [offender];
        (p', pending') \<leftarrow> (if length offenders' > 1 then do {
            l \<leftarrow> gget (tp_pending p) offender;
            equalize_loop env offenders' (tl_Len l) p pending
          } else Some (p, pending));
        spammer_loop env spammers' offenders' p' pending'
      } else Some (offenders, p, pending))"

partial_function (option) allowance_loop ::
  "pool_env \<Rightarrow> address list \<Rightarrow> TxPool \<Rightarrow> nat \<Rightarrow> (TxPool \<times> nat) option" where
  "allowance_loop env offenders p pending =
     (if over_slots p pending then do {
        l \<leftarrow> gget (tp_pending p) (last offenders);
        if tl_Len l > unat (cfg_AccountSlots (tp_config p)) then do {
          (p', pending') \<leftarrow> for_each (drop_last env) offenders (p, pending);
          allowance_loop env offenders p' pending'
        } else Some (p, pending)
      } else Some (p, pending))"

declare equalize_loop.simps [code] spammer_loop.simps [code] allowance_loop.simps [code]

text \<open>Lines 760 to 827.\<close>

definition spammers_of :: "pool_env \<Rightarrow> TxPool \<Rightarrow> (address, unit) sstack" where
  "spammers_of env p = fold (\<lambda>addr q.
     (case gget (tp_pending p) addr of None \<Rightarrow> q
      | Some l \<Rightarrow> if \<not> as_contains (tp_locals p) addr \<and> tl_Len l > unat (cfg_AccountSlots (tp_config p))
          then prque_Push q addr (int (tl_Len l)) else q))
     (gkeys (pe_rngA env) (tp_pending p)) (prque_New None ())"

definition cap_pending :: "pool_env \<Rightarrow> TxPool \<Rightarrow> TxPool option" where
  "cap_pending env p =
     (let pending = lists_len (tp_pending p) in
      if over_slots p pending then do {
        (offenders, p1, pending1) \<leftarrow> spammer_loop env (spammers_of env p) [] p pending;
        if over_slots p1 pending1 \<and> offenders \<noteq> [] then do {
          (p2, pending2) \<leftarrow> allowance_loop env offenders p1 pending1;
          Some p2
        } else Some p1
      } else Some p)"

text \<open>
  Lines 828 to 865.  The zero time stands for an account without a heartbeat; accounts are sorted by
  heartbeat and taken from the end.  Which of two accounts with equal heartbeats comes first is as
  open as the map order they were collected in.
\<close>

definition beat_of :: "TxPool \<Rightarrow> address \<Rightarrow> int" where
  "beat_of p addr = (case gget (tp_beats p) addr of None \<Rightarrow> 0 | Some t \<Rightarrow> t)"

fun queue_drop :: "pool_env \<Rightarrow> address list \<Rightarrow> nat \<Rightarrow> TxPool \<Rightarrow> TxPool option" where
  "queue_drop env [] excess p = Some p"
| "queue_drop env (addr # addrs) excess p =
     (if excess = 0 then Some p else do {
        l \<leftarrow> gget (tp_queue p) addr;
        let size = tl_Len l;
        let (txs, l') = tl_Flatten (pe_rngN env) l;
        let p1 = p\<lparr>tp_queue := gput (tp_queue p) addr l'\<rparr>;
        if size \<le> excess
        then queue_drop env addrs (excess - size) (fold (\<lambda>tx. removeTx env (tx_Txid tx)) txs p1)
        else queue_drop env addrs (excess - length (take excess (rev txs)))
               (fold (\<lambda>tx. removeTx env (tx_Txid tx)) (take excess (rev txs)) p1)
      })"

definition cap_queue :: "pool_env \<Rightarrow> TxPool \<Rightarrow> TxPool option" where
  "cap_queue env p =
     (let queued = lists_len (tp_queue p); limit = unat (cfg_GlobalQueue (tp_config p)) in
      if queued > limit then
        let addresses = sort_key (beat_of p)
              (filter (\<lambda>addr. \<not> as_contains (tp_locals p) addr) (gkeys (pe_rngA env) (tp_queue p)))
        in queue_drop env (rev addresses) (queued - limit) p
      else Some p)"

definition pool_Notify :: "TxPool \<Rightarrow> TxPool" where
  "pool_Notify p = (if tp_notify p < 10 then p\<lparr>tp_notify := Suc (tp_notify p)\<rparr> else p)"

text \<open>A nil list of accounts stands for all accounts of the queue.\<close>

definition promoteExecutables :: "pool_env \<Rightarrow> address list option \<Rightarrow> TxPool \<Rightarrow> TxPool option" where
  "promoteExecutables env accounts p =
     (let accounts' = (case accounts of None \<Rightarrow> gkeys (pe_rngA env) (tp_queue p) | Some as \<Rightarrow> as) in
      do {
        p1 \<leftarrow> for_each (promote_account env) accounts' p;
        p2 \<leftarrow> cap_pending env (pool_Notify p1);
        cap_queue env p2
      })"

section \<open>demoteUnexecutables, reset and the public methods\<close>

text \<open>Lines 884 to 891: a pending list that does not start at the account's nonce goes back to the queue.\<close>

definition demote_gap :: "address \<Rightarrow> u64 \<Rightarrow> TxPool \<Rightarrow> txList \<Rightarrow> (TxPool \<times> txList) option" where
  "demote_gap addr nonce p l =
     (if tl_Len l > 0 \<and> sm_Get (tl_txs l) nonce = None then do {
        (demoted, l') \<leftarrow> tl_Cap l 0;
        Some (fold (\<lambda>tx p. snd (enqueueTx (tx_Txid tx) tx p)) demoted
                (p\<lparr>tp_pending := gput (tp_pending p) addr l'\<rparr>), l')
      } else Some (p, l))"

definition demote_account :: "pool_env \<Rightarrow> address \<Rightarrow> TxPool \<Rightarrow> TxPool option" where
  "demote_account env addr p =
     (case gget (tp_pending p) addr of None \<Rightarrow> Some p
      | Some l \<Rightarrow>
          let nonce = fst (pe_GetNonce env addr);
              (old, l1) = tl_Forward l nonce;
              p1 = drop_txs old (p\<lparr>tp_pending := gput (tp_pending p) addr l1\<rparr>)
          in do {
            (p2, l2) \<leftarrow> demote_gap addr nonce p1 l1;
            Some (if tl_Empty l2
                  then p2\<lparr>tp_pending := gdel (tp_pending p2) addr, tp_beats := gdel (tp_beats p2) addr\<rparr>
                  else p2)
          })"

definition demoteUnexecutables :: "pool_env \<Rightarrow> TxPool \<Rightarrow> TxPool option" where
  "demoteUnexecutables env p = for_each (demote_account env) (gkeys (pe_rngA env) (tp_pending p)) p"

text \<open>The second component: the accounts that got a transaction (\<open>dirty\<close>).\<close>

fun add_all :: "pool_env \<Rightarrow> transaction list \<Rightarrow> bool \<Rightarrow> TxPool \<Rightarrow> (pool_error option list \<times> address list \<times> TxPool) option" where
  "add_all env [] loc p = Some ([], [], p)"
| "add_all env (tx # txs) loc p = do {
     (r, p1) \<leftarrow> pool_add env tx loc p;
     (errs, dirty, p2) \<leftarrow> add_all env txs loc p1;
     Some (case r of Inl e \<Rightarrow> (Some e # errs, dirty, p2)
       | Inr replace \<Rightarrow> (None # errs, if replace then dirty else List.insert (tx_From tx) dirty, p2)) }"

definition addTxsLocked :: "pool_env \<Rightarrow> transaction list \<Rightarrow> bool \<Rightarrow> TxPool \<Rightarrow> (pool_error option list \<times> TxPool) option" where
  "addTxsLocked env txs loc p = do {
     (errs, dirty, p1) \<leftarrow> add_all env txs loc p;
     if dirty \<noteq> [] then do {
       p2 \<leftarrow> promoteExecutables env (Some (pe_rngA env dirty)) p1;
       Some (errs, p2)
     } else Some (errs, p1) }"

definition addTx :: "pool_env \<Rightarrow> transaction \<Rightarrow> bool \<Rightarrow> TxPool \<Rightarrow> (pool_error option \<times> TxPool) option" where
  "addTx env tx loc p = do {
     (r, p1) \<leftarrow> pool_add env tx loc p;
     case r of Inl e \<Rightarrow> Some (Some e, p1)
     | Inr replace \<Rightarrow> do {
         p2 \<leftarrow> promoteExecutables env (Some [tx_From tx]) p1;
         Some (None, p2)
       } }"

definition AddLocal :: "pool_env \<Rightarrow> transaction \<Rightarrow> TxPool \<Rightarrow> (pool_error option \<times> TxPool) option" where
  "AddLocal env tx p = addTx env tx (\<not> cfg_NoLocals (tp_config p)) p"

definition AddRemote :: "pool_env \<Rightarrow> transaction \<Rightarrow> TxPool \<Rightarrow> (pool_error option \<times> TxPool) option" where
  "AddRemote env tx p = addTx env tx False p"

definition AddLocals :: "pool_env \<Rightarrow> transaction list \<Rightarrow> TxPool \<Rightarrow> (pool_error option list \<times> TxPool) option" where
  "AddLocals env txs p = addTxsLocked env txs (\<not> cfg_NoLocals (tp_config p)) p"

definition AddRemotes :: "pool_env \<Rightarrow> transaction list \<Rightarrow> TxPool \<Rightarrow> (pool_error option list \<times> TxPool) option" where
  "AddRemotes env txs p = addTxsLocked env txs False p"

text \<open>\<open>txs[len(txs)-1]\<close> of an account's pending list; an empty list panics.\<close>

definition refresh_nonce :: "pool_env \<Rightarrow> address \<Rightarrow> TxPool \<Rightarrow> TxPool option" where
  "refresh_nonce env addr p = do {
     l \<leftarrow> gget (tp_pending p) addr;
     let (txs, l') = tl_Flatten (pe_rngN env) l;
     if txs = [] then None
     else Some (p\<lparr>tp_pending := gput (tp_pending p) addr l',
       tp_pendingState := PendingCache_SetNonce (tp_pendingState p) addr (tx_NonceValue (last txs) + 1)\<rparr>) }"

definition pool_reset :: "pool_env \<Rightarrow> transaction list \<Rightarrow> TxPool \<Rightarrow> TxPool option" where
  "pool_reset env reinject p = do {
     (errs, p1) \<leftarrow> addTxsLocked env reinject False p;
     p2 \<leftarrow> demoteUnexecutables env p1;
     p3 \<leftarrow> for_each (refresh_nonce env) (gkeys (pe_rngA env) (tp_pending p2)) p2;
     promoteExecutables env None p3 }"

text \<open>The eviction branch of \<open>loop\<close>: lines 222 to 236; \<open>time.Since\<close> saturates at the largest duration.\<close>

definition time_Since :: "pool_env \<Rightarrow> int \<Rightarrow> int" where
  "time_Since env t = max MinInt64 (min MaxInt64 (pe_Tick env - t))"

definition evict_account :: "pool_env \<Rightarrow> address \<Rightarrow> TxPool \<Rightarrow> TxPool" where
  "evict_account env addr p =
     (case gget (tp_queue p) addr of None \<Rightarrow> p
      | Some l \<Rightarrow>
          if as_contains (tp_locals p) addr then p
          else if time_Since env (beat_of p addr) > cfg_Lifetime (tp_config p)
          then let (txs, l') = tl_Flatten (pe_rngN env) l
               in fold (\<lambda>tx. removeTx env (tx_Txid tx)) txs (p\<lparr>tp_queue := gput (tp_queue p) addr l'\<rparr>)
          else p)"

definition pool_evict :: "pool_env \<Rightarrow> TxPool \<Rightarrow> TxPool" where
  "pool_evict env p = fold (evict_account env) (gkeys (pe_rngA env) (tp_queue p)) p"

definition pool_stats :: "TxPool \<Rightarrow> nat \<times> nat" where
  "pool_stats p = (lists_len (tp_pending p), lists_len (tp_queue p))"

text \<open>Flattening every list of a map, as \<open>Content\<close> and \<open>Pending\<close> do.\<close>

definition flatten_lists :: "pool_env \<Rightarrow> (address, txList) gomap \<Rightarrow> (address, transaction list) gomap" where
  "flatten_lists env m = map (\<lambda>(a, l). (a, fst (tl_Flatten (pe_rngN env) l))) m"

definition cache_lists :: "pool_env \<Rightarrow> (address, txList) gomap \<Rightarrow> (address, txList) gomap" where
  "cache_lists env m = map (\<lambda>(a, l). (a, snd (tl_Flatten (pe_rngN env) l))) m"

definition pool_Content ::
  "pool_env \<Rightarrow> TxPool \<Rightarrow> ((address, transaction list) gomap \<times> (address, transaction list) gomap) \<times> TxPool" where
  "pool_Content env p = ((flatten_lists env (tp_pending p), flatten_lists env (tp_queue p)),
     p\<lparr>tp_pending := cache_lists env (tp_pending p), tp_queue := cache_lists env (tp_queue p)\<rparr>)"

definition pool_Pending :: "pool_env \<Rightarrow> TxPool \<Rightarrow> (address, transaction list) gomap \<times> TxPool" where
  "pool_Pending env p = (flatten_lists env (tp_pending p), p\<lparr>tp_pending := cache_lists env (tp_pending p)\<rparr>)"

definition pool_Locals :: "pool_env \<Rightarrow> TxPool \<Rightarrow> address list \<times> TxPool" where
  "pool_Locals env p = (let (as, s) = as_flatten (pe_rngA env) (tp_locals p) in (as, p\<lparr>tp_locals := s\<rparr>))"

definition pool_local :: "pool_env \<Rightarrow> TxPool \<Rightarrow> (address, transaction list) gomap \<times> TxPool" where
  "pool_local env p = fold (\<lambda>addr (txs, p).
     let (t1, p1) = (case gget (tp_pending p) addr of None \<Rightarrow> (None, p)
           | Some l \<Rightarrow> (let (ts, l') = tl_Flatten (pe_rngN env) l
                       in (Some ts, p\<lparr>tp_pending := gput (tp_pending p) addr l'\<rparr>)));
         (t2, p2) = (case gget (tp_queue p1) addr of None \<Rightarrow> (None, p1)
           | Some l \<Rightarrow> (let (ts, l') = tl_Flatten (pe_rngN env) l
                       in (Some ts, p1\<lparr>tp_queue := gput (tp_queue p1) addr l'\<rparr>)))
     in (if t1 = None \<and> t2 = None then txs
         else gput txs addr ((case t1 of None \<Rightarrow> [] | Some ts \<Rightarrow> ts) @ (case t2 of None \<Rightarrow> [] | Some ts \<Rightarrow> ts)), p2))
     (gkeys (pe_rngA env) (as_accounts (tp_locals p))) ([], p)"

datatype TxStatus = TxStatusUnknown | TxStatusQueued | TxStatusPending | TxStatusIncluded

definition pool_Status :: "TxPool \<Rightarrow> hash list \<Rightarrow> TxStatus list" where
  "pool_Status p hashes = map (\<lambda>h.
     (case lk_Get (tp_all p) h of None \<Rightarrow> TxStatusUnknown
      | Some tx \<Rightarrow> (case gget (tp_pending p) (tx_From tx) of None \<Rightarrow> TxStatusQueued
          | Some l \<Rightarrow> if gget (sm_items (tl_txs l)) (tx_NonceValue tx) \<noteq> None then TxStatusPending else TxStatusQueued))) hashes"

definition pool_Get :: "TxPool \<Rightarrow> hash \<Rightarrow> transaction option" where
  "pool_Get p h = lk_Get (tp_all p) h"

text \<open>The journal's \<open>load\<close> and \<open>rotate\<close> do nothing but return nil; \<open>rotate\<close>'s argument is computed.\<close>

definition NewTxPool :: "pool_env \<Rightarrow> TxPoolConfig \<Rightarrow> TxPool option" where
  "NewTxPool env config =
     (let conf = sanitize config;
          p = \<lparr> tp_config = conf, tp_pendingState = [],
                tp_locals = fold (\<lambda>addr s. as_add s addr) (cfg_Locals conf) newAccountSet,
                tp_journal = None, tp_pending = [], tp_queue = [], tp_beats = [], tp_all = [], tp_notify = 0 \<rparr>
      in do {
        p1 \<leftarrow> pool_reset env [] p;
        Some (if \<not> cfg_NoLocals conf \<and> cfg_Journal conf \<noteq> []
              then snd (pool_local env (p1\<lparr>tp_journal := Some (cfg_Journal conf)\<rparr>)) else p1) })"

section \<open>txpoolServer.go\<close>

text \<open>The third component of the result: the messages handed to \<open>p2pNetwork.Xmit\<close>.  A nil message is \<open>None\<close>.\<close>

definition RecvTx :: "pool_env \<Rightarrow> bytes option \<Rightarrow> u64 \<Rightarrow> TxPool \<Rightarrow> (pool_error option \<times> TxPool \<times> bytes list) option" where
  "RecvTx env msg msgSender p =
     (case msg of None \<Rightarrow> Some (Some ErrNilMsg, p, [])
      | Some m \<Rightarrow> (case pe_Unmarshal env m of Inl e \<Rightarrow> Some (Some (ErrUnmarshal e), p, [])
          | Inr tx \<Rightarrow>
              if msgSender = 0 then map_option (\<lambda>(e, p'). (e, p', [m])) (AddLocal env tx p)
              else map_option (\<lambda>(e, p'). (e, p', [])) (AddRemote env tx p)))"

fun collect_txs :: "int \<Rightarrow> transaction list \<Rightarrow> transaction list \<Rightarrow> int \<Rightarrow> transaction list" where
  "collect_txs limit [] dst n = dst"
| "collect_txs limit (v # vs) dst n =
     (if n + 1 = limit then dst @ [v] else collect_txs limit vs (dst @ [v]) (n + 1))"

definition GetTxsFromTXPool :: "pool_env \<Rightarrow> int \<Rightarrow> TxPool \<Rightarrow> transaction list \<times> TxPool" where
  "GetTxsFromTXPool env limit p =
     (let (txs, p') = pool_Pending env p;
          stream = concat (map (\<lambda>a. the (gget txs a)) (gkeys (pe_rngA env) txs))
      in (collect_txs limit stream [] 0, p'))"

text \<open>The request goes through the pool's event loop, which resets on a list that is not nil.\<close>

definition DelTxs :: "pool_env \<Rightarrow> transaction list option \<Rightarrow> TxPool \<Rightarrow> TxPool option" where
  "DelTxs env txs p = (case txs of None \<Rightarrow> Some p | Some ts \<Rightarrow> pool_reset env ts p)"

definition IsTxsLenZero :: "pool_env \<Rightarrow> TxPool \<Rightarrow> bool \<times> TxPool" where
  "IsTxsLenZero env p = (let (pending, p') = pool_Pending env p in (length pending = 0, p'))"

definition GetPendingNonce :: "pool_env \<Rightarrow> TxPool \<Rightarrow> address \<Rightarrow> u64" where
  "GetPendingNonce env p addr = pool_nonce env p addr"

text \<open>One message of \<open>handlerTx\<close>; the first component tells whether the goroutine goes on.\<close>

definition handlerTx_step :: "pool_env \<Rightarrow> bytes \<Rightarrow> bool \<Rightarrow> TxPool \<Rightarrow> (bool \<times> TxPool \<times> bytes list) option" where
  "handlerTx_step env msg loc p =
     (case pe_Unmarshal env msg of Inl e \<Rightarrow> Some (False, p, [])
      | Inr tx \<Rightarrow>
          if tx_ContractName tx = [] then Some (True, p, [])
          else if loc then map_option (\<lambda>(e, p'). (True, p', [msg])) (AddLocal env tx p)
          else map_option (\<lambda>(e, p'). (True, p', [])) (AddRemote env tx p))"

end
