(* ===== verification/TxPool_Inv.thy ===== *)
theory TxPool_Inv
  imports TxPool
begin

text \<open>
  The invariant of the pool and its preservation by every method.  The bookkeeping part is stated over
  the sets of transactions filed per account, with a set \<open>F\<close> of transactions in flight: taken out of one
  list, still in the lookup, and not yet filed elsewhere or dropped.
\<close>

section \<open>The books\<close>

definition tx_slot :: "transaction \<Rightarrow> address \<times> u64" where
  "tx_slot tx = (tx_From tx, tx_NonceValue tx)"

definition filed :: "(address \<Rightarrow> transaction set) \<Rightarrow> (address \<Rightarrow> transaction set) \<Rightarrow> transaction set" where
  "filed P Q = (\<Union>a. P a \<union> Q a)"

definition book_ok :: "(address \<Rightarrow> transaction set) \<Rightarrow> (address \<Rightarrow> transaction set) \<Rightarrow>
    (hash, transaction) gomap \<Rightarrow> transaction set \<Rightarrow> bool" where
  "book_ok P Q all F \<longleftrightarrow> gomap_ok all \<and>
     (\<forall>a. \<forall>tx\<in>P a \<union> Q a. tx_From tx = a) \<and>
     (\<forall>h tx. gget all h = Some tx \<longrightarrow> tx_Txid tx = h) \<and>
     ran (gget all) = filed P Q \<union> F \<and> inj_on tx_slot (ran (gget all)) \<and>
     (\<forall>a. P a \<inter> Q a = {}) \<and> filed P Q \<inter> F = {}"

lemma book_okD:
  assumes "book_ok P Q all F"
  shows "gomap_ok all" "tx \<in> P a \<Longrightarrow> tx_From tx = a" "tx \<in> Q a \<Longrightarrow> tx_From tx = a"
    "gget all h = Some tx \<Longrightarrow> tx_Txid tx = h" "ran (gget all) = filed P Q \<union> F"
    "inj_on tx_slot (ran (gget all))" "P a \<inter> Q a = {}" "filed P Q \<inter> F = {}"
  using assms unfolding book_ok_def by blast+

lemma book_okI:
  assumes "gomap_ok all" "\<And>a tx. tx \<in> P a \<Longrightarrow> tx_From tx = a" "\<And>a tx. tx \<in> Q a \<Longrightarrow> tx_From tx = a"
    "\<And>h tx. gget all h = Some tx \<Longrightarrow> tx_Txid tx = h" "ran (gget all) = filed P Q \<union> F"
    "inj_on tx_slot (ran (gget all))" "\<And>a. P a \<inter> Q a = {}" "filed P Q \<inter> F = {}"
  shows "book_ok P Q all F"
  using assms unfolding book_ok_def by blast

lemma filed_mem: "tx \<in> P a \<Longrightarrow> tx \<in> filed P Q" "tx \<in> Q a \<Longrightarrow> tx \<in> filed P Q"
  by (auto simp: filed_def)

lemma book_sym: "book_ok P Q all F \<longleftrightarrow> book_ok Q P all F"
  by (auto simp: book_ok_def filed_def Un_commute Int_commute)

text \<open>Two known transactions of one account with one nonce are the same.\<close>

lemma book_slot_eq:
  assumes "book_ok P Q all F" "s \<in> filed P Q \<union> F" "t \<in> filed P Q \<union> F"
    "tx_From s = tx_From t" "tx_NonceValue s = tx_NonceValue t"
  shows "s = t"
proof (rule inj_onD)
  show "inj_on tx_slot (filed P Q \<union> F)" using book_okD(5,6) [OF assms(1)] by simp
  show "tx_slot s = tx_slot t" using assms(4,5) by (simp add: tx_slot_def)
qed (rule assms(2,3))+

lemma book_take_queue:
  assumes "book_ok P Q all F" "Q a = R \<union> K" "R \<inter> K = {}"
  shows "book_ok P (Q(a := K)) all (F \<union> R)"
proof -
  note D = book_okD [OF assms(1)]
  have "filed P Q = (\<Union>b. P b \<union> (Q(a := K)) b) \<union> R"
  proof -
    have "(\<Union>b. Q b) = (\<Union>b. (Q(a := K)) b) \<union> R"
      using assms(2) by (auto split: if_splits)
    then show ?thesis unfolding filed_def by blast
  qed
  then have f: "filed P Q = filed P (Q(a := K)) \<union> R" by (simp add: filed_def)
  have d: "filed P (Q(a := K)) \<inter> R = {}"
  proof -
    have "tx \<notin> P b" if "tx \<in> R" for tx b
    proof
      assume "tx \<in> P b"
      moreover have "tx \<in> Q a" using that assms(2) by blast
      ultimately have "b = a" using D(2) [of tx b] D(3) [of tx a] by simp
      with \<open>tx \<in> P b\<close> \<open>tx \<in> Q a\<close> D(7) [of a] show False by blast
    qed
    moreover have "tx \<notin> (Q(a := K)) b" if "tx \<in> R" for tx b
    proof
      assume q: "tx \<in> (Q(a := K)) b"
      have "tx \<in> Q a" using that assms(2) by blast
      with q D(3) [of tx b] D(3) [of tx a] that assms(3) show False by (auto split: if_splits)
    qed
    ultimately show ?thesis unfolding filed_def by blast
  qed
  show ?thesis
  proof (rule book_okI)
    show "filed P (Q(a := K)) \<inter> (F \<union> R) = {}" using D(8) f d by blast
    show "P b \<inter> (Q(a := K)) b = {}" for b using D(7) [of b] assms(2) by (auto split: if_splits)
    show "tx_From tx = b" if "tx \<in> (Q(a := K)) b" for tx b
      using D(3) [of tx b] that assms(2) by (auto split: if_splits)
    show "ran (gget all) = filed P (Q(a := K)) \<union> (F \<union> R)" using D(5) f by blast
  qed (rule D; assumption?)+
qed

lemma book_take_pending:
  assumes "book_ok P Q all F" "P a = R \<union> K" "R \<inter> K = {}"
  shows "book_ok (P(a := K)) Q all (F \<union> R)"
  using book_take_queue [of Q P all F a R K] assms book_sym by blast

lemma book_lookup:
  assumes "book_ok P Q all F" "tx \<in> filed P Q \<union> F"
  shows "gget all (tx_Txid tx) = Some tx"
proof -
  have "tx \<in> ran (gget all)" using assms(2) book_okD(5) [OF assms(1)] by blast
  then obtain h where "gget all h = Some tx" by (auto simp: ran_def)
  with book_okD(4) [OF assms(1) this] show ?thesis by simp
qed

lemma ran_delete_unique:
  assumes "m k = Some v" "\<And>h. m h = Some v \<Longrightarrow> h = k"
  shows "ran (m(k := None)) = ran m - {v}"
proof (rule set_eqI)
  fix t
  have "t \<in> ran (m(k := None)) \<longleftrightarrow> (\<exists>h. h \<noteq> k \<and> m h = Some t)" by (auto simp: ran_def)
  also have "\<dots> \<longleftrightarrow> (\<exists>h. m h = Some t) \<and> t \<noteq> v"
    using assms by (metis option.inject)
  finally show "t \<in> ran (m(k := None)) \<longleftrightarrow> t \<in> ran m - {v}" by (simp add: ran_def)
qed

lemma book_drop:
  assumes "book_ok P Q all F" "tx \<in> F"
  shows "book_ok P Q (gdel all (tx_Txid tx)) (F - {tx})" "ran (gget (gdel all (tx_Txid tx))) = ran (gget all) - {tx}"
proof -
  note D = book_okD [OF assms(1)]
  have g: "gget all (tx_Txid tx) = Some tx" using book_lookup [OF assms(1)] assms(2) by blast
  have "h = tx_Txid tx" if "gget all h = Some tx" for h using D(4) [OF that] by simp
  with g show r: "ran (gget (gdel all (tx_Txid tx))) = ran (gget all) - {tx}"
    unfolding gget_gdel by (rule ran_delete_unique)
  show "book_ok P Q (gdel all (tx_Txid tx)) (F - {tx})"
  proof (rule book_okI)
    show "ran (gget (gdel all (tx_Txid tx))) = filed P Q \<union> (F - {tx})"
      unfolding r D(5) using D(8) assms(2) by blast
    show "inj_on tx_slot (ran (gget (gdel all (tx_Txid tx))))"
      unfolding r using D(6) by (rule inj_on_subset) blast
    show "tx_Txid t = h" if "gget (gdel all (tx_Txid tx)) h = Some t" for h t
      using that D(4) [of h t] by (auto split: if_splits)
    show "filed P Q \<inter> (F - {tx}) = {}" using D(8) by blast
    show "gomap_ok (gdel all (tx_Txid tx))" using D(1) by simp
  qed (rule D; assumption?)+
qed

lemma book_file_queue:
  assumes "book_ok P Q all F" "tx \<in> F" "tx_From tx = a"
  shows "book_ok P (Q(a := insert tx (Q a))) all (F - {tx})"
proof -
  note D = book_okD [OF assms(1)]
  have f: "filed P (Q(a := insert tx (Q a))) = insert tx (filed P Q)"
    unfolding filed_def by (auto split: if_splits)
  have n: "tx \<notin> filed P Q" using D(8) assms(2) by blast
  then have n': "tx \<notin> P a" by (auto simp: filed_def)
  show ?thesis
  proof (rule book_okI)
    show "P b \<inter> (Q(a := insert tx (Q a))) b = {}" for b using D(7) [of b] n' by auto
    show "tx_From t = b" if "t \<in> (Q(a := insert tx (Q a))) b" for t b
      using D(3) [of t b] that assms(3) by (auto split: if_splits)
    show "ran (gget all) = filed P (Q(a := insert tx (Q a))) \<union> (F - {tx})" unfolding f D(5) using assms(2) by blast
    show "filed P (Q(a := insert tx (Q a))) \<inter> (F - {tx}) = {}" unfolding f using D(8) by blast
  qed (rule D; assumption?)+
qed

lemma book_file_pending:
  assumes "book_ok P Q all F" "tx \<in> F" "tx_From tx = a"
  shows "book_ok (P(a := insert tx (P a))) Q all (F - {tx})"
  using book_file_queue [of Q P all F tx a] assms book_sym by blast

lemma book_new:
  assumes "book_ok P Q all F" "gget all (tx_Txid tx) = None" "tx_slot tx \<notin> tx_slot ` ran (gget all)"
  shows "book_ok P Q (gput all (tx_Txid tx) tx) (insert tx F)"
proof -
  note D = book_okD [OF assms(1)]
  have r: "ran (gget (gput all (tx_Txid tx) tx)) = insert tx (ran (gget all))" using assms(2) by simp
  have n: "tx \<notin> ran (gget all)" using assms(3) by blast
  show ?thesis
  proof (rule book_okI)
    show "ran (gget (gput all (tx_Txid tx) tx)) = filed P Q \<union> insert tx F" unfolding r D(5) by blast
    show "inj_on tx_slot (ran (gget (gput all (tx_Txid tx) tx)))" unfolding r using D(6) assms(3) n by simp
    show "filed P Q \<inter> insert tx F = {}" using D(5,8) n by blast
    show "tx_Txid t = h" if "gget (gput all (tx_Txid tx) tx) h = Some t" for h t
      using that D(4) [of h t] by (auto split: if_splits)
    show "gomap_ok (gput all (tx_Txid tx) tx)" using D(1) by simp
  qed (rule D; assumption?)+
qed

text \<open>A transaction in flight meets no other of its nonce in the lists of its account.\<close>

lemma book_nonce_free:
  assumes "book_ok P Q all F" "tx \<in> F"
  shows "tx_NonceValue tx \<notin> tx_NonceValue ` P (tx_From tx)" "tx_NonceValue tx \<notin> tx_NonceValue ` Q (tx_From tx)"
proof -
  note D = book_okD [OF assms(1)]
  have False if "t \<in> filed P Q" "tx_From t = tx_From tx" "tx_NonceValue t = tx_NonceValue tx" for t
    using book_slot_eq [OF assms(1), of t tx] that assms(2) D(8) by blast
  then have no: "tx_NonceValue t \<noteq> tx_NonceValue tx" if "t \<in> P (tx_From tx) \<union> Q (tx_From tx)" for t
    using that D(2) [of t "tx_From tx"] D(3) [of t "tx_From tx"] by (auto simp: filed_def)
  then show "tx_NonceValue tx \<notin> tx_NonceValue ` P (tx_From tx)" "tx_NonceValue tx \<notin> tx_NonceValue ` Q (tx_From tx)"
    by (metis UnI1 imageE, metis UnI2 imageE)
qed

lemma book_nonce_disjoint:
  assumes "book_ok P Q all F"
  shows "tx_NonceValue ` P a \<inter> tx_NonceValue ` Q a = {}"
proof -
  note D = book_okD [OF assms]
  have False if "s \<in> P a" "t \<in> Q a" "tx_NonceValue s = tx_NonceValue t" for s t
  proof -
    have "s \<in> filed P Q" "t \<in> filed P Q" using that(1,2) by (auto simp: filed_def)
    moreover have "tx_From s = tx_From t" using D(2) [OF that(1)] D(3) [OF that(2)] by simp
    ultimately have "s = t" using book_slot_eq [OF assms, of s t] that(3) by blast
    with that(1,2) D(7) [of a] show False by blast
  qed
  then show ?thesis by blast
qed

section \<open>The invariant\<close>

definition lview :: "(address, txList) gomap \<Rightarrow> address \<Rightarrow> transaction set" where
  "lview m a = (case gget m a of None \<Rightarrow> {} | Some l \<Rightarrow> set (tl_list l))"

definition lists_wf :: "bool \<Rightarrow> (address, txList) gomap \<Rightarrow> bool" where
  "lists_wf b m \<longleftrightarrow> gomap_ok m \<and> (\<forall>a l. gget m a = Some l \<longrightarrow> tl_ok l \<and> tl_strict l = b)"

definition lists_full :: "(address, txList) gomap \<Rightarrow> bool" where
  "lists_full m \<longleftrightarrow> (\<forall>a l. gget m a = Some l \<longrightarrow> tl_list l \<noteq> [])"

definition pool_inv :: "transaction set \<Rightarrow> TxPool \<Rightarrow> bool" where
  "pool_inv F p \<longleftrightarrow> lists_wf True (tp_pending p) \<and> lists_wf False (tp_queue p) \<and>
     book_ok (lview (tp_pending p)) (lview (tp_queue p)) (tp_all p) F"

definition capacity :: "TxPool \<Rightarrow> nat" where
  "capacity p = unat (cfg_GlobalSlots (tp_config p) + cfg_GlobalQueue (tp_config p))"

definition pool_ok :: "TxPool \<Rightarrow> bool" where
  "pool_ok p \<longleftrightarrow> pool_inv {} p \<and> lists_full (tp_pending p) \<and> lists_full (tp_queue p) \<and>
     lk_Count (tp_all p) \<le> capacity p"

text \<open>
  What the operator has to configure: room for at least one transaction per account, a queue bound
  that is not negative as a Go \<open>int\<close>, and a capacity within the range of the priority queue.
\<close>

definition config_ok :: "TxPoolConfig \<Rightarrow> bool" where
  "config_ok c \<longleftrightarrow> cfg_AccountSlots c > 0 \<and> sint (cfg_AccountQueue c) \<ge> 0 \<and>
     unat (cfg_GlobalSlots c + cfg_GlobalQueue c) < 2 ^ 63"

text \<open>A call that files no new transaction and leaves the configuration and the local accounts alone.\<close>

definition shrinks :: "TxPool \<Rightarrow> TxPool \<Rightarrow> bool" where
  "shrinks p p' \<longleftrightarrow> ran (gget (tp_all p')) \<subseteq> ran (gget (tp_all p)) \<and>
     tp_config p' = tp_config p \<and> tp_locals p' = tp_locals p"

lemma shrinks_refl [simp]: "shrinks p p"
  by (simp add: shrinks_def)

lemma shrinks_trans [trans]: "shrinks p q \<Longrightarrow> shrinks q r \<Longrightarrow> shrinks p r"
  by (auto simp: shrinks_def)

lemma lview_gput [simp]: "lview (gput m a l) = (lview m)(a := set (tl_list l))"
  by (auto simp: lview_def fun_eq_iff)

lemma lview_gdel [simp]: "lview (gdel m a) = (lview m)(a := {})"
  by (auto simp: lview_def fun_eq_iff)

lemma lists_wf_gput [simp]: "lists_wf b m \<Longrightarrow> tl_ok l \<Longrightarrow> tl_strict l = b \<Longrightarrow> lists_wf b (gput m a l)"
  by (auto simp: lists_wf_def)

lemma lists_wf_gdel [simp]: "lists_wf b m \<Longrightarrow> lists_wf b (gdel m a)"
  by (auto simp: lists_wf_def split: if_splits)

lemma lists_full_gput [simp]: "lists_full m \<Longrightarrow> tl_list l \<noteq> [] \<Longrightarrow> lists_full (gput m a l)"
  by (auto simp: lists_full_def)

lemma lists_full_gdel [simp]: "lists_full m \<Longrightarrow> lists_full (gdel m a)"
  by (auto simp: lists_full_def split: if_splits)

lemma pool_count: "pool_inv F p \<Longrightarrow> lk_Count (tp_all p) = card (ran (gget (tp_all p)))"
proof -
  assume "pool_inv F p"
  then have ok: "gomap_ok (tp_all p)" and k: "\<forall>h tx. gget (tp_all p) h = Some tx \<longrightarrow> tx_Txid tx = h"
    by (auto simp: pool_inv_def book_ok_def)
  have "dom (gget (tp_all p)) = tx_Txid ` ran (gget (tp_all p))"
    using k by (force simp: ran_def dom_def image_iff)
  moreover have "inj_on tx_Txid (ran (gget (tp_all p)))"
    using k by (auto simp: inj_on_def ran_def)
  ultimately show ?thesis using card_dom_gget [OF ok] by (simp add: lk_Count_def card_image)
qed

lemma finite_ran_gget [simp]: "finite (ran (gget m))"
  using finite_dom_gget by (rule finite_ran)

lemma shrinks_count:
  assumes "pool_inv F p" "pool_inv F' p'" "shrinks p p'"
  shows "lk_Count (tp_all p') \<le> lk_Count (tp_all p)"
  using assms pool_count by (simp add: shrinks_def card_mono)

section \<open>Steps on the pool\<close>

lemma pool_inv_frame [simp]:
  "pool_inv F (p\<lparr>tp_beats := b\<rparr>) = pool_inv F p" "pool_inv F (p\<lparr>tp_pendingState := n\<rparr>) = pool_inv F p"
  "pool_inv F (p\<lparr>tp_locals := s\<rparr>) = pool_inv F p" "pool_inv F (p\<lparr>tp_notify := k\<rparr>) = pool_inv F p"
  "pool_inv F (p\<lparr>tp_journal := j\<rparr>) = pool_inv F p"
  by (simp_all add: pool_inv_def)

lemma shrinks_frame [simp]:
  "shrinks p (q\<lparr>tp_beats := b\<rparr>) = shrinks p q" "shrinks p (q\<lparr>tp_pendingState := n\<rparr>) = shrinks p q"
  "shrinks p (q\<lparr>tp_notify := k\<rparr>) = shrinks p q" "shrinks p (q\<lparr>tp_pending := m\<rparr>) = shrinks p q"
  "shrinks p (q\<lparr>tp_queue := m\<rparr>) = shrinks p q"
  by (simp_all add: shrinks_def)

lemma pool_inv_listD:
  assumes "pool_inv F p"
  shows "gget (tp_pending p) a = Some l \<Longrightarrow> tl_ok l \<and> tl_strict l"
    "gget (tp_queue p) a = Some l \<Longrightarrow> tl_ok l \<and> \<not> tl_strict l"
    "book_ok (lview (tp_pending p)) (lview (tp_queue p)) (tp_all p) F"
    "gomap_ok (tp_pending p)" "gomap_ok (tp_queue p)"
  using assms by (auto simp: pool_inv_def lists_wf_def)

lemma lview_Some [simp]: "gget m a = Some l \<Longrightarrow> lview m a = set (tl_list l)"
  by (simp add: lview_def)

lemma pool_take_queue:
  assumes "pool_inv F p" "gget (tp_queue p) a = Some l" "tl_ok l'" "\<not> tl_strict l'"
    "set (tl_list l) = set R \<union> set (tl_list l')" "set R \<inter> set (tl_list l') = {}"
  shows "pool_inv (F \<union> set R) (p\<lparr>tp_queue := gput (tp_queue p) a l'\<rparr>)"
  using assms book_take_queue [of "lview (tp_pending p)" "lview (tp_queue p)" "tp_all p" F a "set R" "set (tl_list l')"]
  by (simp add: pool_inv_def)

lemma pool_take_pending:
  assumes "pool_inv F p" "gget (tp_pending p) a = Some l" "tl_ok l'" "tl_strict l'"
    "set (tl_list l) = set R \<union> set (tl_list l')" "set R \<inter> set (tl_list l') = {}"
  shows "pool_inv (F \<union> set R) (p\<lparr>tp_pending := gput (tp_pending p) a l'\<rparr>)"
  using assms book_take_pending [of "lview (tp_pending p)" "lview (tp_queue p)" "tp_all p" F a "set R" "set (tl_list l')"]
  by (simp add: pool_inv_def)

text \<open>Flattening fills the cache of a list and changes nothing else.\<close>

lemma pool_recache:
  assumes "pool_inv F p" "go_range rng"
  shows "gget (tp_queue p) a = Some l \<Longrightarrow> pool_inv F (p\<lparr>tp_queue := gput (tp_queue p) a (snd (tl_Flatten rng l))\<rparr>)"
    "gget (tp_pending p) a = Some l \<Longrightarrow> pool_inv F (p\<lparr>tp_pending := gput (tp_pending p) a (snd (tl_Flatten rng l))\<rparr>)"
  using pool_take_queue [OF assms(1), of a l "snd (tl_Flatten rng l)" "[]"]
    pool_take_pending [OF assms(1), of a l "snd (tl_Flatten rng l)" "[]"]
    tl_Flatten_spec [OF _ assms(2), of l] pool_inv_listD(1,2) [OF assms(1), of a l] by auto

lemma pool_del_queue:
  "pool_inv F p \<Longrightarrow> gget (tp_queue p) a = Some l \<Longrightarrow> tl_list l = [] \<Longrightarrow> pool_inv F (p\<lparr>tp_queue := gdel (tp_queue p) a\<rparr>)"
  using book_take_queue [of "lview (tp_pending p)" "lview (tp_queue p)" "tp_all p" F a "{}" "{}"]
  by (simp add: pool_inv_def)

lemma pool_del_pending:
  "pool_inv F p \<Longrightarrow> gget (tp_pending p) a = Some l \<Longrightarrow> tl_list l = [] \<Longrightarrow> pool_inv F (p\<lparr>tp_pending := gdel (tp_pending p) a\<rparr>)"
  using book_take_pending [of "lview (tp_pending p)" "lview (tp_queue p)" "tp_all p" F a "{}" "{}"]
  by (simp add: pool_inv_def)

lemma all_Remove_frame [simp]:
  "tp_pending (all_Remove h p) = tp_pending p" "tp_queue (all_Remove h p) = tp_queue p"
  "tp_pendingState (all_Remove h p) = tp_pendingState p" "tp_beats (all_Remove h p) = tp_beats p"
  "tp_locals (all_Remove h p) = tp_locals p" "tp_config (all_Remove h p) = tp_config p"
  by (simp_all add: all_Remove_def)

lemma pool_drop:
  assumes "pool_inv F p" "tx \<in> F"
  shows "pool_inv (F - {tx}) (all_Remove (tx_Txid tx) p)" "shrinks p (all_Remove (tx_Txid tx) p)"
  using book_drop [OF pool_inv_listD(3) [OF assms(1)] assms(2)] assms(1)
  by (simp_all add: pool_inv_def all_Remove_def lk_Remove_def shrinks_def ran_def)

lemma drop_txs_frame [simp]:
  "tp_pending (drop_txs R p) = tp_pending p" "tp_queue (drop_txs R p) = tp_queue p"
  "tp_pendingState (drop_txs R p) = tp_pendingState p" "tp_beats (drop_txs R p) = tp_beats p"
  "tp_locals (drop_txs R p) = tp_locals p" "tp_config (drop_txs R p) = tp_config p"
  unfolding drop_txs_def by (induction R arbitrary: p) simp_all

lemma pool_drop_txs:
  assumes "pool_inv F p" "distinct R" "set R \<subseteq> F"
  shows "pool_inv (F - set R) (drop_txs R p) \<and> shrinks p (drop_txs R p)"
  using assms
proof (induction R arbitrary: F p)
  case (Cons tx R)
  from Cons.prems have "tx \<in> F" by simp
  note d = pool_drop [OF Cons.prems(1) this]
  from Cons.IH [OF d(1)] Cons.prems have "pool_inv (F - {tx} - set R) (drop_txs R (all_Remove (tx_Txid tx) p)) \<and>
      shrinks (all_Remove (tx_Txid tx) p) (drop_txs R (all_Remove (tx_Txid tx) p))" by auto
  moreover have "F - {tx} - set R = F - set (tx # R)" by auto
  moreover have "drop_txs (tx # R) p = drop_txs R (all_Remove (tx_Txid tx) p)" by (simp add: drop_txs_def)
  ultimately show ?case using shrinks_trans [OF d(2)] by simp
qed (simp add: drop_txs_def)

lemma set_insort_key': "set (insort_key f x xs) = insert x (set xs)"
  by (rule set_insort_key)

lemma tl_Add_free:
  assumes "case m of None \<Rightarrow> l = newTxList b | Some l' \<Rightarrow> l = l' \<and> tl_ok l \<and> tl_strict l = b"
    "tx_NonceValue tx \<notin> tx_NonceValue ` (case m of None \<Rightarrow> {} | Some l' \<Rightarrow> set (tl_list l'))"
  obtains l' where "tl_Add l tx = (True, None, l')" "tl_ok l'" "tl_strict l' = b" "tl_list l' \<noteq> []"
    "set (tl_list l') = insert tx (case m of None \<Rightarrow> {} | Some l' \<Rightarrow> set (tl_list l'))"
proof -
  have l: "tl_ok l" "tl_strict l = b" "set (tl_list l) = (case m of None \<Rightarrow> {} | Some l' \<Rightarrow> set (tl_list l'))"
    using assms(1) by (auto simp: newTxList_ok split: option.splits)
  then obtain l' where "tl_Add l tx = (True, None, l')" "tl_ok l'" "tl_strict l' = b"
    "tl_list l' = insort_key tx_NonceValue tx (tl_list l)"
    using tl_Add_spec(2) [of l tx] assms(2) by auto
  with l(3) show ?thesis using that [of l'] set_insort_key [of tx_NonceValue tx "tl_list l"] by fastforce
qed

lemma enqueue_flight:
  assumes "pool_inv F p" "tx \<in> F"
  obtains p' where "enqueueTx (tx_Txid tx) tx p = (Inr False, p')" "pool_inv (F - {tx}) p'" "shrinks p p'"
    "tp_pending p' = tp_pending p" "lists_full (tp_queue p) \<Longrightarrow> lists_full (tp_queue p')"
    "tp_pendingState p' = tp_pendingState p"
    "lview (tp_queue p') = (lview (tp_queue p))(tx_From tx := insert tx (lview (tp_queue p) (tx_From tx)))"
proof -
  let ?a = "tx_From tx" and ?m = "gget (tp_queue p) (tx_From tx)"
  let ?l = "case ?m of None \<Rightarrow> newTxList False | Some l \<Rightarrow> l"
  note B = pool_inv_listD(3) [OF assms(1)]
  obtain l' where l': "tl_Add ?l tx = (True, None, l')" "tl_ok l'" "tl_strict l' = False" "tl_list l' \<noteq> []"
    "set (tl_list l') = insert tx (case ?m of None \<Rightarrow> {} | Some l' \<Rightarrow> set (tl_list l'))"
    by (rule tl_Add_free [where m = ?m and l = ?l and b = False and tx = tx])
      (use assms pool_inv_listD(2) [OF assms(1), of ?a] book_nonce_free(2) [OF B assms(2)]
        in \<open>auto simp: lview_def split: option.splits\<close>)
  let ?p' = "p\<lparr>tp_queue := gput (tp_queue p) ?a l'\<rparr>"
  have g: "gget (tp_all p) (tx_Txid tx) = Some tx" using book_lookup [OF B] assms(2) by blast
  have v: "set (tl_list l') = insert tx (lview (tp_queue p) ?a)" using l'(5) by (simp add: lview_def)
  have "enqueueTx (tx_Txid tx) tx p = (Inr False, ?p')"
    using l'(1) g by (simp add: enqueueTx_def lk_Get_def split: option.splits)
  moreover have "pool_inv (F - {tx}) ?p'"
    using book_file_queue [OF B assms(2) refl] assms(1) l'(2,3) v by (simp add: pool_inv_def)
  ultimately show ?thesis using that [of ?p'] l'(4) v by simp
qed

lemma promote_flight:
  assumes "pool_inv F p" "tx \<in> F" "tx_From tx = a"
  obtains p' where "promoteTx env a (tx_Txid tx) tx p = (True, p')" "pool_inv (F - {tx}) p'" "shrinks p p'"
    "tp_queue p' = tp_queue p" "lists_full (tp_pending p) \<Longrightarrow> lists_full (tp_pending p')"
    "tp_pendingState p' = gput (tp_pendingState p) a (tx_NonceValue tx + 1)"
proof -
  let ?m = "gget (tp_pending p) a"
  let ?l = "case ?m of None \<Rightarrow> newTxList True | Some l \<Rightarrow> l"
  note B = pool_inv_listD(3) [OF assms(1)]
  obtain l' where l': "tl_Add ?l tx = (True, None, l')" "tl_ok l'" "tl_strict l' = True" "tl_list l' \<noteq> []"
    "set (tl_list l') = insert tx (case ?m of None \<Rightarrow> {} | Some l' \<Rightarrow> set (tl_list l'))"
    by (rule tl_Add_free [where m = ?m and l = ?l and b = True and tx = tx])
      (use assms pool_inv_listD(1) [OF assms(1), of a] book_nonce_free(1) [OF B assms(2)]
        in \<open>auto simp: lview_def split: option.splits\<close>)
  let ?p1 = "p\<lparr>tp_pending := gput (tp_pending p) a l'\<rparr>"
  let ?p' = "?p1\<lparr>tp_beats := gput (tp_beats p) a (pe_Now env tx),
     tp_pendingState := gput (tp_pendingState p) a (tx_NonceValue tx + 1)\<rparr>"
  have g: "gget (tp_all p) (tx_Txid tx) = Some tx" using book_lookup [OF B] assms(2) by blast
  have v: "set (tl_list l') = insert tx (lview (tp_pending p) a)" using l'(5) by (simp add: lview_def)
  have "promoteTx env a (tx_Txid tx) tx p = (True, ?p')"
    using l'(1) g by (simp add: promoteTx_def lk_Get_def PendingCache_SetNonce_def split: option.splits)
  moreover have "pool_inv (F - {tx}) ?p'"
    using book_file_pending [OF B assms(2,3)] assms(1) l'(2,3) v by (simp add: pool_inv_def)
  ultimately show ?thesis using that [of ?p'] l'(4) by simp
qed

lemma enqueue_all:
  assumes "pool_inv F p" "distinct R" "set R \<subseteq> F"
  obtains p' where "fold (\<lambda>t p. snd (enqueueTx (tx_Txid t) t p)) R p = p'" "pool_inv (F - set R) p'"
    "shrinks p p'" "tp_pending p' = tp_pending p" "lists_full (tp_queue p) \<Longrightarrow> lists_full (tp_queue p')"
    "tp_pendingState p' = tp_pendingState p"
  using assms
proof (induction R arbitrary: F p thesis)
  case (Cons tx R)
  obtain p1 where p1: "enqueueTx (tx_Txid tx) tx p = (Inr False, p1)" "pool_inv (F - {tx}) p1" "shrinks p p1"
    "tp_pending p1 = tp_pending p" "lists_full (tp_queue p) \<Longrightarrow> lists_full (tp_queue p1)"
    "tp_pendingState p1 = tp_pendingState p"
    by (rule enqueue_flight [OF Cons.prems(2), of tx]) (use Cons.prems(4) in auto)
  obtain p' where "fold (\<lambda>t p. snd (enqueueTx (tx_Txid t) t p)) R p1 = p'" "pool_inv (F - {tx} - set R) p'"
    "shrinks p1 p'" "tp_pending p' = tp_pending p1" "lists_full (tp_queue p1) \<Longrightarrow> lists_full (tp_queue p')"
    "tp_pendingState p' = tp_pendingState p1"
    by (rule Cons.IH [OF _ p1(2)]) (use Cons.prems in auto)
  with p1 shrinks_trans show ?case
    by (intro Cons.prems(1) [of p']) (auto simp: Diff_insert2 [symmetric])
qed auto

lemma promote_all:
  assumes "pool_inv F p" "distinct R" "set R \<subseteq> F" "\<forall>tx\<in>set R. tx_From tx = a"
  obtains p' where "fold (\<lambda>t p. snd (promoteTx env a (tx_Txid t) t p)) R p = p'" "pool_inv (F - set R) p'"
    "shrinks p p'" "tp_queue p' = tp_queue p" "lists_full (tp_pending p) \<Longrightarrow> lists_full (tp_pending p')"
    "tp_pendingState p' = (if R = [] then tp_pendingState p else
       fold (\<lambda>t m. gput m a (tx_NonceValue t + 1)) R (tp_pendingState p))"
  using assms
proof (induction R arbitrary: F p thesis)
  case (Cons tx R)
  obtain p1 where p1: "promoteTx env a (tx_Txid tx) tx p = (True, p1)" "pool_inv (F - {tx}) p1" "shrinks p p1"
    "tp_queue p1 = tp_queue p" "lists_full (tp_pending p) \<Longrightarrow> lists_full (tp_pending p1)"
    "tp_pendingState p1 = gput (tp_pendingState p) a (tx_NonceValue tx + 1)"
    by (rule promote_flight [OF Cons.prems(2), of tx a]) (use Cons.prems(4,5) in auto)
  obtain p' where "fold (\<lambda>t p. snd (promoteTx env a (tx_Txid t) t p)) R p1 = p'" "pool_inv (F - {tx} - set R) p'"
    "shrinks p1 p'" "tp_queue p' = tp_queue p1" "lists_full (tp_pending p1) \<Longrightarrow> lists_full (tp_pending p')"
    "tp_pendingState p' = (if R = [] then tp_pendingState p1 else
       fold (\<lambda>t m. gput m a (tx_NonceValue t + 1)) R (tp_pendingState p1))"
    by (rule Cons.IH [OF _ p1(2)]) (use Cons.prems in auto)
  with p1 shrinks_trans show ?case
    by (intro Cons.prems(1) [of p']) (auto simp: Diff_insert2 [symmetric])
qed auto

text \<open>Removing a transaction from the queue by its hash.\<close>

lemma nonce_in_view:
  assumes "pool_inv F p" "tx \<in> ran (gget (tp_all p))" "tx \<notin> F"
  shows "tx_NonceValue tx \<in> tx_NonceValue ` lview (tp_pending p) (tx_From tx) \<longleftrightarrow> tx \<in> lview (tp_pending p) (tx_From tx)"
    "tx_NonceValue tx \<in> tx_NonceValue ` lview (tp_queue p) (tx_From tx) \<longleftrightarrow> tx \<in> lview (tp_queue p) (tx_From tx)"
proof -
  note B = pool_inv_listD(3) [OF assms(1)]
  have f: "tx \<in> filed (lview (tp_pending p)) (lview (tp_queue p))" using assms(2,3) book_okD(5) [OF B] by blast
  have eq: "t = tx" if "t \<in> lview (tp_pending p) (tx_From tx) \<union> lview (tp_queue p) (tx_From tx)"
    "tx_NonceValue t = tx_NonceValue tx" for t
  proof (rule book_slot_eq [OF B])
    show "tx_From t = tx_From tx" using that(1) book_okD(2,3) [OF B, of t "tx_From tx"] by blast
  qed (use that f in \<open>auto simp: filed_def\<close>)
  show "tx_NonceValue tx \<in> tx_NonceValue ` lview (tp_pending p) (tx_From tx) \<longleftrightarrow> tx \<in> lview (tp_pending p) (tx_From tx)"
  proof
    assume "tx_NonceValue tx \<in> tx_NonceValue ` lview (tp_pending p) (tx_From tx)"
    then obtain t where "t \<in> lview (tp_pending p) (tx_From tx)" "tx_NonceValue t = tx_NonceValue tx" by auto
    with eq [of t] show "tx \<in> lview (tp_pending p) (tx_From tx)" by blast
  qed simp
  show "tx_NonceValue tx \<in> tx_NonceValue ` lview (tp_queue p) (tx_From tx) \<longleftrightarrow> tx \<in> lview (tp_queue p) (tx_From tx)"
  proof
    assume "tx_NonceValue tx \<in> tx_NonceValue ` lview (tp_queue p) (tx_From tx)"
    then obtain t where "t \<in> lview (tp_queue p) (tx_From tx)" "tx_NonceValue t = tx_NonceValue tx" by auto
    with eq [of t] show "tx \<in> lview (tp_queue p) (tx_From tx)" by blast
  qed simp
qed

lemma lower_nonce_frame [simp]:
  "pool_inv F (lower_nonce env a n p) = pool_inv F p" "shrinks q (lower_nonce env a n p) = shrinks q p"
  "tp_pending (lower_nonce env a n p) = tp_pending p" "tp_queue (lower_nonce env a n p) = tp_queue p"
  "tp_all (lower_nonce env a n p) = tp_all p" "tp_config (lower_nonce env a n p) = tp_config p"
  "tp_locals (lower_nonce env a n p) = tp_locals p"
  by (simp_all add: lower_nonce_def)

lemma pool_clear_queue:
  "pool_inv F p \<Longrightarrow> gget (tp_queue p) a = Some l \<Longrightarrow> pool_inv (F \<union> set (tl_list l)) (p\<lparr>tp_queue := gdel (tp_queue p) a\<rparr>)"
  using book_take_queue [of "lview (tp_pending p)" "lview (tp_queue p)" "tp_all p" F a "set (tl_list l)" "{}"]
  by (simp add: pool_inv_def)

lemma pool_clear_pending:
  "pool_inv F p \<Longrightarrow> gget (tp_pending p) a = Some l \<Longrightarrow> pool_inv (F \<union> set (tl_list l)) (p\<lparr>tp_pending := gdel (tp_pending p) a\<rparr>)"
  using book_take_pending [of "lview (tp_pending p)" "lview (tp_queue p)" "tp_all p" F a "set (tl_list l)" "{}"]
  by (simp add: pool_inv_def)

lemma set_split_nonce:
  assumes "tl_ok l" "tx \<in> set (tl_list l)"
  shows "set (tl_list l) = {tx} \<union> {t \<in> set (tl_list l). tx_NonceValue t \<noteq> tx_NonceValue tx}"
  using tl_ok_nonces [OF assms(1)] assms(2) by (auto simp: distinct_map dest: inj_onD)

lemma remove_queued_spec:
  assumes "pool_inv F p" "go_range (pe_rngN env)" "tx \<in> lview (tp_queue p) a" "lists_full (tp_queue p)"
  obtains p' where "remove_queued env a tx p = p'" "pool_inv (F \<union> {tx}) p'" "shrinks p p'" "tp_pending p' = tp_pending p"
    "tp_all p' = tp_all p" "lview (tp_queue p') = (lview (tp_queue p))(a := lview (tp_queue p) a - {tx})" "lists_full (tp_queue p')"
proof -
  obtain l where l: "gget (tp_queue p) a = Some l" "tx \<in> set (tl_list l)"
    using assms(3) by (auto simp: lview_def split: option.splits)
  then have ok: "tl_ok l" "\<not> tl_strict l" using pool_inv_listD(2) [OF assms(1)] by auto
  obtain inv l' where r: "tl_Remove (pe_rngN env) l tx = (True, inv, l')" "tl_ok l'" "\<not> tl_strict l'"
    "tl_list l' = filter (\<lambda>t. tx_NonceValue t \<noteq> tx_NonceValue tx) (tl_list l)"
    using tl_Remove_spec(2) [OF ok(1) assms(2), of tx] l(2) ok(2) by auto
  have s: "set (tl_list l) = set [tx] \<union> set (tl_list l')" "set [tx] \<inter> set (tl_list l') = {}"
    using set_split_nonce [OF ok(1) l(2)] r(4) by auto
  have K: "set (tl_list l') = set (tl_list l) - {tx}" using s by auto
  show ?thesis
  proof (cases "tl_list l' = []")
    case True
    have "pool_inv (F \<union> {tx}) (p\<lparr>tp_queue := gdel (tp_queue p) a\<rparr>)"
      using pool_clear_queue [OF assms(1) l(1)] s True by simp
    moreover have "remove_queued env a tx p = p\<lparr>tp_queue := gdel (tp_queue p) a\<rparr>"
      using l(1) r True by (simp add: remove_queued_def tl_Empty_list)
    moreover have "lview (tp_queue (p\<lparr>tp_queue := gdel (tp_queue p) a\<rparr>)) = (lview (tp_queue p))(a := lview (tp_queue p) a - {tx})"
      using K True l(1) by (intro ext) auto
    ultimately show ?thesis by (intro that [of "p\<lparr>tp_queue := gdel (tp_queue p) a\<rparr>"]) (use assms(4) in simp_all)
  next
    case False
    have "pool_inv (F \<union> {tx}) (p\<lparr>tp_queue := gput (tp_queue p) a l'\<rparr>)"
      using pool_take_queue [OF assms(1) l(1) r(2,3) s] by simp
    moreover have "remove_queued env a tx p = p\<lparr>tp_queue := gput (tp_queue p) a l'\<rparr>"
      using l(1) r False by (simp add: remove_queued_def tl_Empty_list)
    ultimately show ?thesis using that [of "p\<lparr>tp_queue := gput (tp_queue p) a l'\<rparr>"] K False l(1) assms(4) by simp
  qed
qed

lemma all_Remove_commute:
  "all_Remove h (p\<lparr>tp_queue := m\<rparr>) = (all_Remove h p)\<lparr>tp_queue := m\<rparr>"
  "all_Remove h (p\<lparr>tp_pending := m\<rparr>) = (all_Remove h p)\<lparr>tp_pending := m\<rparr>"
  by (simp_all add: all_Remove_def)

lemma remove_queued_commute: "remove_queued env a tx (all_Remove h p) = all_Remove h (remove_queued env a tx p)"
  by (simp add: remove_queued_def all_Remove_def split: option.splits prod.splits)

lemma removeTx_queued:
  assumes "pool_inv {} p" "go_range (pe_rngN env)" "tx \<in> lview (tp_queue p) a" "lists_full (tp_queue p)"
  obtains p' where "removeTx env (tx_Txid tx) p = p'" "pool_inv {} p'" "shrinks p p'"
    "lview (tp_pending p') = lview (tp_pending p)" "lists_full (tp_pending p) \<Longrightarrow> lists_full (tp_pending p')"
    "lview (tp_queue p') = (lview (tp_queue p))(a := lview (tp_queue p) a - {tx})" "lists_full (tp_queue p')"
proof -
  let ?h = "tx_Txid tx"
  note B = pool_inv_listD(3) [OF assms(1)]
  have a: "a = tx_From tx" using book_okD(3) [OF B assms(3)] by simp
  have g: "gget (tp_all p) ?h = Some tx" using book_lookup [OF B] assms(3) by (auto simp: filed_def)
  obtain q where q: "pool_inv {} q" "shrinks p q" "removeTx env ?h p = all_Remove ?h (remove_queued env a tx q)"
    "lview (tp_pending q) = lview (tp_pending p)" "lists_full (tp_pending p) \<Longrightarrow> lists_full (tp_pending q)"
    "tp_queue q = tp_queue p"
  proof (cases "gget (tp_pending p) a")
    case None
    then show ?thesis using that [of p] assms(1) a g
      by (simp add: removeTx_def lk_Get_def remove_queued_commute)
  next
    case (Some pl)
    then have ok: "tl_ok pl" "tl_strict pl" using pool_inv_listD(1) [OF assms(1)] by auto
    have "tx_NonceValue tx \<notin> tx_NonceValue ` set (tl_list pl)"
      using book_nonce_disjoint [OF B, of a] assms(3) Some by auto
    then obtain pl' where r: "tl_Remove (pe_rngN env) pl tx = (False, [], pl')" "tl_ok pl'" "tl_strict pl'" "tl_list pl' = tl_list pl"
      using tl_Remove_spec(1) [OF ok(1) assms(2)] ok(2) by blast
    let ?q = "p\<lparr>tp_pending := gput (tp_pending p) a pl'\<rparr>"
    have "pool_inv {} ?q" using pool_take_pending [OF assms(1) Some r(2,3), of "[]"] r(4) by simp
    moreover have "lists_full (tp_pending p) \<Longrightarrow> tl_list pl \<noteq> []" using Some by (auto simp: lists_full_def)
    moreover have "lview (tp_pending ?q) = lview (tp_pending p)" using Some r(4) by (auto simp: fun_eq_iff)
    ultimately show ?thesis using that [of ?q] r Some a g
      by (simp add: removeTx_def Let_def lk_Get_def remove_queued_commute all_Remove_commute [symmetric])
  qed
  obtain p' where p': "remove_queued env a tx q = p'" "pool_inv ({} \<union> {tx}) p'" "shrinks q p'" "tp_pending p' = tp_pending q"
    "tp_all p' = tp_all q" "lview (tp_queue p') = (lview (tp_queue q))(a := lview (tp_queue q) a - {tx})" "lists_full (tp_queue p')"
    by (rule remove_queued_spec [OF q(1) assms(2), of tx a]) (use assms(3,4) q(6) in auto)
  have "pool_inv {} (all_Remove ?h p')" "shrinks p' (all_Remove ?h p')" using pool_drop [OF p'(2), of tx] by auto
  moreover from this(2) have "shrinks p (all_Remove ?h p')" using q(2) p'(3) shrinks_trans by metis
  ultimately show ?thesis using p' q by (intro that [of "all_Remove ?h p'"]) simp_all
qed

lemma removeTx_pending:
  assumes "pool_inv {} p" "go_range (pe_rngN env)" "tx \<in> lview (tp_pending p) a"
    "lists_full (tp_pending p)" "lists_full (tp_queue p)"
  shows "pool_inv {} (removeTx env (tx_Txid tx) p) \<and> shrinks p (removeTx env (tx_Txid tx) p) \<and>
    lists_full (tp_pending (removeTx env (tx_Txid tx) p)) \<and> lists_full (tp_queue (removeTx env (tx_Txid tx) p))"
proof -
  let ?h = "tx_Txid tx" and ?n = "tx_NonceValue tx"
  note B = pool_inv_listD(3) [OF assms(1)]
  have a: "a = tx_From tx" using book_okD(2) [OF B assms(3)] by simp
  have g: "gget (tp_all p) ?h = Some tx" using book_lookup [OF B] assms(3) by (auto simp: filed_def)
  obtain l where l: "gget (tp_pending p) a = Some l" "tx \<in> set (tl_list l)"
    using assms(3) by (auto simp: lview_def split: option.splits)
  then have ok: "tl_ok l" "tl_strict l" using pool_inv_listD(1) [OF assms(1)] by auto
  obtain inv l' where r: "tl_Remove (pe_rngN env) l tx = (True, inv, l')" "tl_ok l'" "tl_strict l'"
    "mset inv = mset (filter (\<lambda>t. tx_NonceValue t > ?n) (tl_list l))"
    "tl_list l' = filter (\<lambda>t. tx_NonceValue t < ?n) (tl_list l)"
    using tl_Remove_spec(2) [OF ok(1) assms(2), of tx] l(2) ok(2) by auto
  have inv: "set inv = {t \<in> set (tl_list l). tx_NonceValue t > ?n}" "distinct inv"
    using tl_ok_nonces [OF ok(1)] mset_eq_setD [OF r(4)] mset_eq_imp_distinct_iff [OF r(4)]
    by (auto simp: distinct_map)
  have s: "set (tl_list l) = set (tx # inv) \<union> set (tl_list l')" "set (tx # inv) \<inter> set (tl_list l') = {}"
    using set_split_nonce [OF ok(1) l(2)] inv(1) r(5) by auto
  have ne: "tx \<notin> set inv" using inv(1) by auto
  define q where "q = (if tl_Empty l' then p\<lparr>tp_pending := gdel (tp_pending p) a, tp_beats := gdel (tp_beats p) a\<rparr>
      else p\<lparr>tp_pending := gput (tp_pending p) a l'\<rparr>)"
  have q: "pool_inv (set (tx # inv)) q" "shrinks p q" "lists_full (tp_pending q)" "tp_queue q = tp_queue p"
    using pool_clear_pending [OF assms(1) l(1)] pool_take_pending [OF assms(1) l(1) r(2,3) s] s assms(4) r(2)
    by (auto simp: q_def tl_Empty_list)
  have d: "pool_inv (set (tx # inv) - {tx}) (all_Remove ?h q)" "shrinks q (all_Remove ?h q)"
    using pool_drop [OF q(1), of tx] by auto
  obtain p3 where p3: "fold (\<lambda>t p. snd (enqueueTx (tx_Txid t) t p)) inv (all_Remove ?h q) = p3"
    "pool_inv (set (tx # inv) - {tx} - set inv) p3" "shrinks (all_Remove ?h q) p3" "tp_pending p3 = tp_pending (all_Remove ?h q)"
    "lists_full (tp_queue (all_Remove ?h q)) \<Longrightarrow> lists_full (tp_queue p3)"
    by (rule enqueue_all [OF d(1) inv(2)]) (use ne in auto)
  have "(if tl_Empty l' then (all_Remove ?h p)\<lparr>tp_pending := gdel (tp_pending p) a, tp_beats := gdel (tp_beats p) a\<rparr>
      else (all_Remove ?h p)\<lparr>tp_pending := gput (tp_pending p) a l'\<rparr>) = all_Remove ?h q"
    by (simp add: q_def all_Remove_def)
  then have eq: "removeTx env ?h p = lower_nonce env a ?n p3"
    using g l(1) r(1) p3(1) a by (cases "tl_Empty l'") (simp_all add: removeTx_def lk_Get_def Let_def)
  have z: "set (tx # inv) - {tx} - set inv = {}" by auto
  have "pool_inv {} p3" using p3(2) unfolding z .
  then show ?thesis
    unfolding eq using p3 q assms(5) shrinks_trans [OF q(2) shrinks_trans [OF d(2) p3(3)]] by simp
qed

lemma removeTx_ok:
  assumes "pool_inv {} p" "go_range (pe_rngN env)" "lists_full (tp_pending p)" "lists_full (tp_queue p)"
  shows "pool_inv {} (removeTx env h p) \<and> shrinks p (removeTx env h p) \<and>
    lists_full (tp_pending (removeTx env h p)) \<and> lists_full (tp_queue (removeTx env h p))"
proof (cases "gget (tp_all p) h")
  case None
  then show ?thesis using assms by (simp add: removeTx_def lk_Get_def)
next
  case (Some tx)
  note B = pool_inv_listD(3) [OF assms(1)]
  have h: "h = tx_Txid tx" using book_okD(4) [OF B Some] by simp
  have "tx \<in> ran (gget (tp_all p))" using Some by (auto simp: ran_def)
  then have "tx \<in> filed (lview (tp_pending p)) (lview (tp_queue p))" using book_okD(5) [OF B] by blast
  then consider a where "tx \<in> lview (tp_pending p) a" | a where "tx \<in> lview (tp_queue p) a" by (auto simp: filed_def)
  then show ?thesis
  proof cases
    case 1
    from removeTx_pending [OF assms(1,2) this assms(3,4)] show ?thesis unfolding h .
  next
    case 2
    obtain p' where "removeTx env (tx_Txid tx) p = p'" "pool_inv {} p'" "shrinks p p'"
      "lview (tp_pending p') = lview (tp_pending p)" "lists_full (tp_pending p) \<Longrightarrow> lists_full (tp_pending p')"
      "lview (tp_queue p') = (lview (tp_queue p))(a := lview (tp_queue p) a - {tx})" "lists_full (tp_queue p')"
      by (rule removeTx_queued [OF assms(1,2) 2 assms(4)]) blast
    then show ?thesis unfolding h using assms(3) by simp
  qed
qed

section \<open>The loops over accounts\<close>

definition lists_full_but :: "address \<Rightarrow> (address, txList) gomap \<Rightarrow> bool" where
  "lists_full_but a m \<longleftrightarrow> (\<forall>b l. b \<noteq> a \<longrightarrow> gget m b = Some l \<longrightarrow> tl_list l \<noteq> [])"

lemma lists_full_but_simps [simp]:
  "lists_full_but a (gput m a l) = lists_full_but a m" "lists_full (gdel m a) = lists_full_but a m"
  by (auto simp: lists_full_but_def lists_full_def)

lemma lists_full_butI: "lists_full m \<Longrightarrow> lists_full_but a m"
  by (simp add: lists_full_but_def lists_full_def)

lemma lists_full_but_fill: "lists_full_but a m \<Longrightarrow> gget m a = Some l \<Longrightarrow> tl_list l \<noteq> [] \<Longrightarrow> lists_full m"
  by (metis lists_full_but_def lists_full_def option.inject)

lemma lview_own: "pool_inv F p \<Longrightarrow> tx \<in> lview (tp_queue p) a \<Longrightarrow> tx_From tx = a"
  "pool_inv F p \<Longrightarrow> tx \<in> lview (tp_pending p) a \<Longrightarrow> tx_From tx = a"
  using book_okD(2,3) [OF pool_inv_listD(3)] by blast+

text \<open>The common end of the account loops: an emptied queue list is deleted.\<close>

lemma close_queue:
  assumes "pool_inv {} p" "gget (tp_queue p) a = Some l" "lists_full_but a (tp_queue p)"
  shows "pool_inv {} (if tl_Empty l then p\<lparr>tp_queue := gdel (tp_queue p) a\<rparr> else p)"
    "lists_full (tp_queue (if tl_Empty l then p\<lparr>tp_queue := gdel (tp_queue p) a\<rparr> else p))"
  using assms pool_del_queue [OF assms(1,2)] pool_inv_listD(2) [OF assms(1,2)] lists_full_but_fill [OF assms(3,2)]
  by (auto simp: tl_Empty_list)

lemma queue_split_drop:
  assumes "pool_inv {} p" "gget (tp_queue p) a = Some l" "tl_ok l'" "tl_strict l' = tl_strict l"
    "set (tl_list l) = set R \<union> set (tl_list l')" "set R \<inter> set (tl_list l') = {}" "distinct R"
  shows "pool_inv {} (drop_txs R (p\<lparr>tp_queue := gput (tp_queue p) a l'\<rparr>))"
    "shrinks p (drop_txs R (p\<lparr>tp_queue := gput (tp_queue p) a l'\<rparr>))"
proof -
  let ?q = "p\<lparr>tp_queue := gput (tp_queue p) a l'\<rparr>"
  have "pool_inv ({} \<union> set R) ?q"
    using pool_take_queue [OF assms(1,2,3) _ assms(5,6)] pool_inv_listD(2) [OF assms(1,2)] assms(4) by blast
  from pool_drop_txs [OF this assms(7)] have "pool_inv ({} \<union> set R - set R) (drop_txs R ?q) \<and> shrinks ?q (drop_txs R ?q)"
    by blast
  moreover have "shrinks p ?q" by simp
  ultimately show "pool_inv {} (drop_txs R ?q)" "shrinks p (drop_txs R ?q)"
    using shrinks_trans [of p ?q "drop_txs R ?q"] by simp_all
qed

lemma cap_account_ok:
  assumes "pool_inv {} p" "gget (tp_queue p) a = Some l" "lists_full (tp_pending p)" "lists_full_but a (tp_queue p)"
    "sint (cfg_AccountQueue (tp_config p)) \<ge> 0"
  obtains p' l' where "cap_account a p l = Some (p', l')" "pool_inv {} p'" "shrinks p p'" "gget (tp_queue p') a = Some l'"
    "lists_full (tp_pending p')" "lists_full_but a (tp_queue p')"
proof (cases "as_contains (tp_locals p) a")
  case True
  then show ?thesis using that [of p l] assms by (simp add: cap_account_def)
next
  case False
  let ?k = "nat (sint (cfg_AccountQueue (tp_config p)))"
  have ok: "tl_ok l" using pool_inv_listD(2) [OF assms(1,2)] by simp
  obtain drops l' where c: "tl_Cap l (int ?k) = Some (drops, l')" using tl_Cap_spec [OF ok, of ?k] by blast
  then have c2: "the (tl_Cap l (int ?k)) = (drops, l')" by simp
  note c' = cap.split_result [OF ok c2] cap.split_set [OF ok c2] cap.split_distinct [OF ok c2]
  let ?p' = "drop_txs drops (p\<lparr>tp_queue := gput (tp_queue p) a l'\<rparr>)"
  have "pool_inv {} ?p'" "shrinks p ?p'" using queue_split_drop [OF assms(1,2), of l' drops] c' by auto
  moreover have "cap_account a p l = Some (?p', l')" using False c assms(5) by (simp add: cap_account_def)
  ultimately show ?thesis using that [of ?p' l'] assms(3,4) by simp
qed

lemma promote_account_ok:
  assumes "pool_inv {} p" "lists_full (tp_pending p)" "lists_full (tp_queue p)"
    "sint (cfg_AccountQueue (tp_config p)) \<ge> 0"
  obtains p' where "promote_account env a p = Some p'" "pool_inv {} p'" "lists_full (tp_pending p')"
    "lists_full (tp_queue p')" "shrinks p p'"
proof (cases "gget (tp_queue p) a")
  case None
  then show ?thesis using that [of p] assms by (simp add: promote_account_def)
next
  case (Some l)
  have ok: "tl_ok l" "\<not> tl_strict l" using pool_inv_listD(2) [OF assms(1) Some] by auto
  obtain old l1 where f: "tl_Forward l (fst (pe_GetNonce env a)) = (old, l1)" by fastforce
  note f' = fwd.split_result [OF ok(1) f] fwd.split_set [OF ok(1) f] fwd.split_distinct [OF ok(1) f]
  let ?p1 = "drop_txs old (p\<lparr>tp_queue := gput (tp_queue p) a l1\<rparr>)"
  have p1: "pool_inv {} ?p1" "shrinks p ?p1"
    using queue_split_drop [OF assms(1) Some, of l1 old] f' by auto
  have g1: "gget (tp_queue ?p1) a = Some l1" by simp
  have ok1: "tl_ok l1" "\<not> tl_strict l1" using f'(1) ok(2) by auto
  obtain ready l2 where r: "tl_Ready l1 (pool_nonce env ?p1 a) = (ready, l2)" by fastforce
  note r' = rdy.split_result [OF ok1(1) r] rdy.split_set [OF ok1(1) r] rdy.split_distinct [OF ok1(1) r]
  let ?q = "?p1\<lparr>tp_queue := gput (tp_queue ?p1) a l2\<rparr>"
  have q: "pool_inv ({} \<union> set ready) ?q"
    using pool_take_queue [OF p1(1) g1, of l2 ready] r' ok1(2) by blast
  have own: "\<forall>tx\<in>set ready. tx_From tx = a"
    using lview_own(1) [OF p1(1), of _ a] r'(2) g1 by simp
  obtain p2 where p2: "fold (\<lambda>t p. snd (promoteTx env a (tx_Txid t) t p)) ready ?q = p2"
    "pool_inv ({} \<union> set ready - set ready) p2" "shrinks ?q p2" "tp_queue p2 = tp_queue ?q"
    "lists_full (tp_pending ?q) \<Longrightarrow> lists_full (tp_pending p2)"
    by (rule promote_all [OF q r'(3) _ own]) auto
  have inv2: "pool_inv {} p2" using p2(2) by simp
  have sh2: "shrinks p p2" using p1(2) p2(3) shrinks_trans [of p ?q p2] by simp
  have g2: "gget (tp_queue p2) a = Some l2" using p2(4) by simp
  have full2: "lists_full (tp_pending p2)" "lists_full_but a (tp_queue p2)"
    using p2(4,5) assms(2) lists_full_butI [OF assms(3)] by simp_all
  have cfg: "sint (cfg_AccountQueue (tp_config p2)) \<ge> 0" using sh2 assms(4) by (simp add: shrinks_def)
  obtain p3 l3 where p3: "cap_account a p2 l2 = Some (p3, l3)" "pool_inv {} p3" "shrinks p2 p3"
    "gget (tp_queue p3) a = Some l3" "lists_full (tp_pending p3)" "lists_full_but a (tp_queue p3)"
    by (rule cap_account_ok [OF inv2 g2 full2 cfg])
  let ?p' = "if tl_Empty l3 then p3\<lparr>tp_queue := gdel (tp_queue p3) a\<rparr> else p3"
  have "promote_account env a p = Some ?p'"
    using Some f r p2(1) p3(1) by (simp add: promote_account_def Let_def)
  moreover note close_queue [OF p3(2,4,6)]
  ultimately show ?thesis using that [of ?p'] p3(5) shrinks_trans [OF sh2 p3(3)] by simp
qed

lemma pending_split_drop:
  assumes "pool_inv {} p" "gget (tp_pending p) a = Some l" "tl_ok l'" "tl_strict l' = tl_strict l"
    "set (tl_list l) = set R \<union> set (tl_list l')" "set R \<inter> set (tl_list l') = {}" "distinct R"
  shows "pool_inv {} (drop_txs R (p\<lparr>tp_pending := gput (tp_pending p) a l'\<rparr>))"
    "shrinks p (drop_txs R (p\<lparr>tp_pending := gput (tp_pending p) a l'\<rparr>))"
proof -
  let ?q = "p\<lparr>tp_pending := gput (tp_pending p) a l'\<rparr>"
  have "pool_inv ({} \<union> set R) ?q"
    using pool_take_pending [OF assms(1,2,3) _ assms(5,6)] pool_inv_listD(1) [OF assms(1,2)] assms(4) by blast
  from pool_drop_txs [OF this assms(7)] have "pool_inv ({} \<union> set R - set R) (drop_txs R ?q) \<and> shrinks ?q (drop_txs R ?q)"
    by blast
  moreover have "shrinks p ?q" by simp
  ultimately show "pool_inv {} (drop_txs R ?q)" "shrinks p (drop_txs R ?q)"
    using shrinks_trans [of p ?q "drop_txs R ?q"] by simp_all
qed

lemma demote_gap_ok:
  assumes "pool_inv {} p" "gget (tp_pending p) a = Some l" "lists_full_but a (tp_pending p)" "lists_full (tp_queue p)"
  obtains p' l' where "demote_gap a n p l = Some (p', l')" "pool_inv {} p'" "shrinks p p'" "gget (tp_pending p') a = Some l'"
    "lists_full_but a (tp_pending p')" "lists_full (tp_queue p')"
proof (cases "tl_Len l > 0 \<and> sm_Get (tl_txs l) n = None")
  case False
  then show ?thesis using that [of p l] assms by (auto simp: demote_gap_def)
next
  case True
  have ok: "tl_ok l" "tl_strict l" using pool_inv_listD(1) [OF assms(1,2)] by auto
  obtain drops l' where c: "tl_Cap l (int 0) = Some (drops, l')" using tl_Cap_spec [OF ok(1), of 0] by blast
  then have c2: "the (tl_Cap l (int 0)) = (drops, l')" by simp
  note c' = cap.split_result [OF ok(1) c2] cap.split_set [OF ok(1) c2] cap.split_distinct [OF ok(1) c2]
  let ?q = "p\<lparr>tp_pending := gput (tp_pending p) a l'\<rparr>"
  have q: "pool_inv ({} \<union> set drops) ?q" using pool_take_pending [OF assms(1,2), of l' drops] c' ok(2) by blast
  obtain p' where p': "fold (\<lambda>t p. snd (enqueueTx (tx_Txid t) t p)) drops ?q = p'" "pool_inv ({} \<union> set drops - set drops) p'"
    "shrinks ?q p'" "tp_pending p' = tp_pending ?q" "lists_full (tp_queue ?q) \<Longrightarrow> lists_full (tp_queue p')"
    by (rule enqueue_all [OF q c'(3)]) auto
  have "demote_gap a n p l = Some (p', l')" using True c p'(1) by (simp add: demote_gap_def)
  then show ?thesis using that [of p' l'] p' assms(3,4) shrinks_trans [of p ?q p'] by simp
qed

lemma close_pending:
  assumes "pool_inv {} p" "gget (tp_pending p) a = Some l" "lists_full_but a (tp_pending p)"
  shows "pool_inv {} (if tl_Empty l then p\<lparr>tp_pending := gdel (tp_pending p) a, tp_beats := b\<rparr> else p)"
    "lists_full (tp_pending (if tl_Empty l then p\<lparr>tp_pending := gdel (tp_pending p) a, tp_beats := b\<rparr> else p))"
  using assms pool_del_pending [OF assms(1,2)] pool_inv_listD(1) [OF assms(1,2)] lists_full_but_fill [OF assms(3,2)]
  by (auto simp: tl_Empty_list)

lemma demote_account_ok:
  assumes "pool_inv {} p" "lists_full (tp_pending p)" "lists_full (tp_queue p)"
  obtains p' where "demote_account env a p = Some p'" "pool_inv {} p'" "lists_full (tp_pending p')"
    "lists_full (tp_queue p')" "shrinks p p'"
proof (cases "gget (tp_pending p) a")
  case None
  then show ?thesis using that [of p] assms by (simp add: demote_account_def)
next
  case (Some l)
  let ?n = "fst (pe_GetNonce env a)"
  have ok: "tl_ok l" "tl_strict l" using pool_inv_listD(1) [OF assms(1) Some] by auto
  obtain old l1 where f: "tl_Forward l ?n = (old, l1)" by fastforce
  note f' = fwd.split_result [OF ok(1) f] fwd.split_set [OF ok(1) f] fwd.split_distinct [OF ok(1) f]
  let ?p1 = "drop_txs old (p\<lparr>tp_pending := gput (tp_pending p) a l1\<rparr>)"
  have p1: "pool_inv {} ?p1" "shrinks p ?p1"
    using pending_split_drop [OF assms(1) Some, of l1 old] f' by auto
  have g1: "gget (tp_pending ?p1) a = Some l1" by simp
  have full1: "lists_full_but a (tp_pending ?p1)" "lists_full (tp_queue ?p1)"
    using assms(3) lists_full_butI [OF assms(2)] by simp_all
  obtain p2 l2 where p2: "demote_gap a ?n ?p1 l1 = Some (p2, l2)" "pool_inv {} p2" "shrinks ?p1 p2" "gget (tp_pending p2) a = Some l2"
    "lists_full_but a (tp_pending p2)" "lists_full (tp_queue p2)"
    by (rule demote_gap_ok [OF p1(1) g1 full1])
  let ?p' = "if tl_Empty l2 then p2\<lparr>tp_pending := gdel (tp_pending p2) a, tp_beats := gdel (tp_beats p2) a\<rparr> else p2"
  have "demote_account env a p = Some ?p'" using Some f p2(1) by (simp add: demote_account_def Let_def)
  moreover note close_pending [OF p2(2,4,5), of "gdel (tp_beats p2) a"]
  ultimately show ?thesis using that [of ?p'] p2(6) shrinks_trans [OF p1(2) p2(3)] by simp
qed

section \<open>Counting\<close>

lemma lists_len_card:
  assumes "lists_wf b m" "\<And>a tx. tx \<in> lview m a \<Longrightarrow> tx_From tx = a"
  shows "lists_len m = card (\<Union>a. lview m a)"
proof -
  have d: "distinct m" "distinct (map fst m)" using assms(1) by (auto simp: lists_wf_def gomap_ok_def distinct_map)
  have g: "gget m a = Some l" if "(a, l) \<in> set m" for a l
    using that assms(1) by (simp add: lists_wf_def gomap_ok_mem)
  have len: "tl_Len l = card (lview m a)" if "(a, l) \<in> set m" for a l
  proof -
    have "tl_ok l" using g [OF that] assms(1) by (auto simp: lists_wf_def)
    then show ?thesis using g [OF that] tl_ok_nonces [of l] by (simp add: tl_Len_list distinct_card distinct_map)
  qed
  have "lists_len m = sum_list (map (\<lambda>(a, l). card (lview m a)) m)"
    unfolding lists_len_def using len by (intro arg_cong [where f = sum_list] map_cong) auto
  also have "\<dots> = sum_list (map (card \<circ> lview m) (map fst m))" by (simp add: comp_def case_prod_unfold)
  also have "\<dots> = sum (card \<circ> lview m) (set (map fst m))" using d(2) by (rule sum_list_distinct_conv_sum_set)
  also have "\<dots> = card (\<Union>a\<in>set (map fst m). lview m a)"
    unfolding comp_def
  proof (rule card_UN_disjoint [symmetric])
    show "\<forall>i\<in>set (map fst m). finite (lview m i)" by (simp add: lview_def split: option.splits)
    show "\<forall>i\<in>set (map fst m). \<forall>j\<in>set (map fst m). i \<noteq> j \<longrightarrow> lview m i \<inter> lview m j = {}" using assms(2) by blast
  qed simp
  also have "(\<Union>a\<in>set (map fst m). lview m a) = (\<Union>a. lview m a)"
  proof -
    have "lview m a = {}" if "a \<notin> set (map fst m)" for a
      using that unfolding set_map_fst_gget by (simp add: lview_def domIff)
    then show ?thesis by blast
  qed
  finally show ?thesis .
qed

abbreviation qset :: "TxPool \<Rightarrow> transaction set" where
  "qset p \<equiv> \<Union>a. lview (tp_queue p) a"

lemma queue_len: "pool_inv F p \<Longrightarrow> lists_len (tp_queue p) = card (qset p)"
  using lists_len_card [of False "tp_queue p"] lview_own(1) by (simp add: pool_inv_def)

lemma finite_qset: "pool_inv F p \<Longrightarrow> finite (qset p)"
  using book_okD(5) [OF pool_inv_listD(3), of F p] finite_ran_gget [of "tp_all p"]
  by (metis UN_Un_distrib finite_Un filed_def)

section \<open>Trimming the queue\<close>

lemma fold_removeTx_ok:
  assumes "pool_inv {} p" "go_range (pe_rngN env)" "lists_full (tp_pending p)" "lists_full (tp_queue p)"
  shows "pool_inv {} (fold (\<lambda>tx. removeTx env (tx_Txid tx)) txs p) \<and>
    lists_full (tp_pending (fold (\<lambda>tx. removeTx env (tx_Txid tx)) txs p)) \<and>
    lists_full (tp_queue (fold (\<lambda>tx. removeTx env (tx_Txid tx)) txs p)) \<and>
    shrinks p (fold (\<lambda>tx. removeTx env (tx_Txid tx)) txs p)"
  using assms
proof (induction txs arbitrary: p)
  case (Cons tx txs)
  note r = removeTx_ok [OF Cons.prems, of "tx_Txid tx"]
  show ?case using Cons.IH [of "removeTx env (tx_Txid tx) p"] r Cons.prems(2)
      shrinks_trans [of p "removeTx env (tx_Txid tx) p"] by simp
qed simp

lemma fold_removeTx_queued:
  assumes "pool_inv {} p" "go_range (pe_rngN env)" "lists_full (tp_pending p)" "lists_full (tp_queue p)"
    "distinct txs" "set txs \<subseteq> lview (tp_queue p) a"
  shows "lview (tp_pending (fold (\<lambda>tx. removeTx env (tx_Txid tx)) txs p)) = lview (tp_pending p) \<and>
    lview (tp_queue (fold (\<lambda>tx. removeTx env (tx_Txid tx)) txs p)) = (lview (tp_queue p))(a := lview (tp_queue p) a - set txs)"
  using assms
proof (induction txs arbitrary: p)
  case (Cons tx txs)
  obtain p' where p': "removeTx env (tx_Txid tx) p = p'" "pool_inv {} p'" "shrinks p p'"
    "lview (tp_pending p') = lview (tp_pending p)" "lists_full (tp_pending p) \<Longrightarrow> lists_full (tp_pending p')"
    "lview (tp_queue p') = (lview (tp_queue p))(a := lview (tp_queue p) a - {tx})" "lists_full (tp_queue p')"
    by (rule removeTx_queued [OF Cons.prems(1,2), of tx a]) (use Cons.prems in auto)
  have "set txs \<subseteq> lview (tp_queue p') a" "distinct txs" using Cons.prems(5,6) p'(6) by auto
  from Cons.IH [OF p'(2) Cons.prems(2) p'(5) [OF Cons.prems(3)] p'(7) this(2,1)]
  show ?case using p'(1,4,6) by (auto simp: fun_eq_iff)
qed auto

lemma UN_upd_minus:
  assumes "X \<subseteq> f a" "\<And>b. b \<noteq> a \<Longrightarrow> f b \<inter> f a = {}"
  shows "(\<Union>b. (f(a := f a - X)) b) = (\<Union>b. f b) - X"
proof
  show "(\<Union>b. (f(a := f a - X)) b) \<subseteq> (\<Union>b. f b) - X"
    using assms by (auto split: if_splits)
  show "(\<Union>b. f b) - X \<subseteq> (\<Union>b. (f(a := f a - X)) b)"
    by (auto split: if_splits)
qed

lemma lview_disjoint: "pool_inv F p \<Longrightarrow> b \<noteq> a \<Longrightarrow> lview (tp_queue p) b \<inter> lview (tp_queue p) a = {}"
  using lview_own(1) by blast

lemma queue_drop_step:
  assumes "pool_inv {} p" "go_range (pe_rngN env)" "lists_full (tp_pending p)" "lists_full (tp_queue p)"
    "gget (tp_queue p) a = Some l" "tl_Flatten (pe_rngN env) l = (txs, l')" "distinct R" "set R \<subseteq> set txs"
  obtains p' where "fold (\<lambda>tx. removeTx env (tx_Txid tx)) R (p\<lparr>tp_queue := gput (tp_queue p) a l'\<rparr>) = p'"
    "pool_inv {} p'" "lists_full (tp_pending p')" "lists_full (tp_queue p')" "shrinks p p'"
    "lview (tp_pending p') = lview (tp_pending p)" "lview (tp_queue p') = (lview (tp_queue p))(a := lview (tp_queue p) a - set R)"
    "card (qset p') + length R = card (qset p)"
proof -
  let ?q = "p\<lparr>tp_queue := gput (tp_queue p) a l'\<rparr>"
  have ok: "tl_ok l" using pool_inv_listD(2) [OF assms(1,5)] by simp
  note fl = tl_Flatten_spec [OF ok assms(2)]
  have txs: "txs = tl_list l" "l' = snd (tl_Flatten (pe_rngN env) l)" using fl(1) assms(6) by auto
  have ne: "tl_list l \<noteq> []" using assms(4,5) by (simp add: lists_full_def)
  have q: "pool_inv {} ?q" "lists_full (tp_queue ?q)" "lview (tp_queue ?q) = lview (tp_queue p)"
    using pool_recache(1) [OF assms(1,2,5)] assms(4,5) ne fl(4) by (auto simp: txs(2) fun_eq_iff)
  let ?p' = "fold (\<lambda>tx. removeTx env (tx_Txid tx)) R ?q"
  have R: "set R \<subseteq> lview (tp_queue ?q) a" using assms(5,8) txs(1) q(3) by simp
  have f: "pool_inv {} ?p'" "lists_full (tp_pending ?p')" "lists_full (tp_queue ?p')" "shrinks ?q ?p'"
    using fold_removeTx_ok [OF q(1) assms(2) _ q(2), of R] assms(3) by auto
  have v: "lview (tp_pending ?p') = lview (tp_pending p)" "lview (tp_queue ?p') = (lview (tp_queue p))(a := lview (tp_queue p) a - set R)"
    using fold_removeTx_queued [OF q(1) assms(2) _ q(2) assms(7) R] assms(3) unfolding q(3) by auto
  have "qset ?p' = qset p - set R"
    unfolding v(2)
  proof (rule UN_upd_minus)
    show "set R \<subseteq> lview (tp_queue p) a" using R unfolding q(3) .
  qed (rule lview_disjoint [OF assms(1)])
  moreover have "set R \<subseteq> qset p" using R unfolding q(3) by (rule order_trans) (rule UN_upper, simp)
  ultimately have "card (qset ?p') + length R = card (qset p)"
    using finite_qset [OF assms(1)] card_mono [OF finite_qset [OF assms(1)], of "set R"] distinct_card [OF assms(7)]
    by (simp add: card_Diff_subset)
  moreover have "shrinks p ?p'" using f(4) shrinks_trans [of p ?q ?p'] by simp
  ultimately show ?thesis using that [of ?p'] f v by blast
qed

text \<open>The drop loop removes exactly the excess, unless the accounts it may take from run out.\<close>

lemma queue_drop_ok:
  assumes "pool_inv {} p" "go_range (pe_rngN env)" "lists_full (tp_pending p)" "lists_full (tp_queue p)"
    "distinct addrs" "\<forall>a\<in>set addrs. gget (tp_queue p) a \<noteq> None"
  obtains p' where "queue_drop env addrs excess p = Some p'" "pool_inv {} p'" "lists_full (tp_pending p')"
    "lists_full (tp_queue p')" "shrinks p p'" "lview (tp_pending p') = lview (tp_pending p)"
    "card (qset p') + excess = card (qset p) \<or> (\<forall>a\<in>set addrs. lview (tp_queue p') a = {})"
    "\<forall>a. a \<notin> set addrs \<longrightarrow> lview (tp_queue p') a = lview (tp_queue p) a"
  using assms
proof (induction addrs arbitrary: p excess thesis)
  case Nil
  then show ?case by (metis empty_iff empty_set queue_drop.simps(1) shrinks_refl)
next
  case (Cons a addrs)
  show ?case
  proof (cases "excess = 0")
    case True
    then show ?thesis using Cons.prems by (intro Cons.prems(1) [of p]) simp_all
  next
    case False
    obtain l where l: "gget (tp_queue p) a = Some l" using Cons.prems(7) by auto
    obtain txs l' where fl: "tl_Flatten (pe_rngN env) l = (txs, l')" by fastforce
    have ok: "tl_ok l" using pool_inv_listD(2) [OF Cons.prems(2) l] by simp
    have txs: "txs = tl_list l" "distinct txs"
      using tl_Flatten_spec(1) [OF ok Cons.prems(3)] fl tl_ok_nonces [OF ok] by (auto simp: distinct_map)
    define R where "R = (if tl_Len l \<le> excess then txs else take excess (rev txs))"
    have R: "distinct R" "set R \<subseteq> set txs" "length R \<le> excess"
      using txs tl_Len_list [OF ok] by (auto simp: R_def dest!: in_set_takeD)
    obtain p1 where p1: "fold (\<lambda>tx. removeTx env (tx_Txid tx)) R (p\<lparr>tp_queue := gput (tp_queue p) a l'\<rparr>) = p1"
      "pool_inv {} p1" "lists_full (tp_pending p1)" "lists_full (tp_queue p1)" "shrinks p p1"
      "lview (tp_pending p1) = lview (tp_pending p)" "lview (tp_queue p1) = (lview (tp_queue p))(a := lview (tp_queue p) a - set R)"
      "card (qset p1) + length R = card (qset p)"
      by (rule queue_drop_step [OF Cons.prems(2-5) l fl R(1,2)])
    have in1: "\<forall>b\<in>set addrs. gget (tp_queue p1) b \<noteq> None"
    proof
      fix b assume b: "b \<in> set addrs"
      then have "b \<noteq> a" using Cons.prems(6) by auto
      obtain lb where "gget (tp_queue p) b = Some lb" using b Cons.prems(7) by auto
      then have "lview (tp_queue p) b \<noteq> {}" using Cons.prems(5) by (auto simp: lists_full_def)
      then have "lview (tp_queue p1) b \<noteq> {}" using p1(7) \<open>b \<noteq> a\<close> by simp
      then show "gget (tp_queue p1) b \<noteq> None" by (auto simp: lview_def)
    qed
    obtain p' where p': "queue_drop env addrs (excess - length R) p1 = Some p'" "pool_inv {} p'" "lists_full (tp_pending p')"
      "lists_full (tp_queue p')" "shrinks p1 p'" "lview (tp_pending p') = lview (tp_pending p1)"
      "card (qset p') + (excess - length R) = card (qset p1) \<or> (\<forall>a\<in>set addrs. lview (tp_queue p') a = {})"
      "\<forall>a. a \<notin> set addrs \<longrightarrow> lview (tp_queue p') a = lview (tp_queue p1) a"
      by (rule Cons.IH [OF _ p1(2) Cons.prems(3) p1(3,4) _ in1]) (use Cons.prems(6) in auto)
    have step: "queue_drop env (a # addrs) excess p = Some p'"
      using False l fl p1(1) p'(1) txs(1) tl_Len_list [OF ok] by (cases "tl_Len l \<le> excess") (simp_all add: R_def)
    have fin: "card (qset p') + excess = card (qset p) \<or> (\<forall>b\<in>set (a # addrs). lview (tp_queue p') b = {})"
    proof (cases "tl_Len l \<le> excess")
      case True
      then have "lview (tp_queue p') a = {}"
        using p'(8) Cons.prems(6) p1(7) l txs(1) by (simp add: R_def)
      with p'(7) p1(8) R(3) show ?thesis by auto
    next
      case False
      then have "excess - length R = 0" using txs(1) tl_Len_list [OF ok] by (simp add: R_def)
      then have "queue_drop env addrs (excess - length R) p1 = Some p1" by (cases addrs) simp_all
      with p'(1) have "p' = p1" by simp
      with p1(8) \<open>excess - length R = 0\<close> R(3) show ?thesis by simp
    qed
    show ?thesis
    proof (rule Cons.prems(1) [OF step p'(2,3,4) shrinks_trans [OF p1(5) p'(5)] _ fin])
      show "lview (tp_pending p') = lview (tp_pending p)" using p'(6) p1(6) by simp
      show "\<forall>b. b \<notin> set (a # addrs) \<longrightarrow> lview (tp_queue p') b = lview (tp_queue p) b" using p'(8) p1(7) by simp
    qed
  qed
qed

end
