(* ===== verification/TxPool_Cap.thy ===== *)
theory TxPool_Cap
  imports TxPool_Inv
begin

text \<open>
  The fairness loops of \<open>promoteExecutables\<close>: when the pending transactions exceed the global limit, the
  accounts with the longest lists are cut first, in step, until the limit holds or every account that is not
  local is down to its guaranteed slots.  The loops are shown to end, not to panic and to count right.
\<close>

section \<open>Lengths of the pending lists\<close>

definition plen :: "TxPool \<Rightarrow> address \<Rightarrow> nat" where
  "plen p a = (case gget (tp_pending p) a of None \<Rightarrow> 0 | Some l \<Rightarrow> length (tl_list l))"

lemma plen_card: "pool_inv F p \<Longrightarrow> plen p a = card (lview (tp_pending p) a)"
  using pool_inv_listD(1) [of F p a] tl_ok_nonces
  by (auto simp: plen_def lview_def distinct_map distinct_card split: option.splits)

lemma plen_Some: "pool_inv F p \<Longrightarrow> gget (tp_pending p) a = Some l \<Longrightarrow> tl_Len l = plen p a"
  using pool_inv_listD(1) [of F p a l] by (simp add: plen_def tl_Len_list)

lemma plen_ex: "0 < plen p a \<Longrightarrow> \<exists>l. gget (tp_pending p) a = Some l"
  by (auto simp: plen_def split: option.splits)

abbreviation pset :: "TxPool \<Rightarrow> transaction set" where
  "pset p \<equiv> \<Union>a. lview (tp_pending p) a"

lemma pending_len: "pool_inv F p \<Longrightarrow> lists_len (tp_pending p) = card (pset p)"
  using lists_len_card [of True "tp_pending p"] lview_own(2) by (simp add: pool_inv_def)

lemma finite_pset: "pool_inv F p \<Longrightarrow> finite (pset p)"
  using book_okD(5) [OF pool_inv_listD(3), of F p] finite_ran_gget [of "tp_all p"]
  by (metis UN_Un_distrib finite_Un filed_def)

lemma plen_le_count: "pool_inv F p \<Longrightarrow> plen p a \<le> lk_Count (tp_all p)"
proof -
  assume inv: "pool_inv F p"
  have "lview (tp_pending p) a \<subseteq> ran (gget (tp_all p))"
    unfolding book_okD(5) [OF pool_inv_listD(3) [OF inv]] by (auto simp: filed_def)
  then show ?thesis unfolding plen_card [OF inv] pool_count [OF inv] by (rule card_mono [OF finite_ran_gget])
qed

section \<open>Dropping the last transaction of an account\<close>

lemma fold_lower_drop:
  assumes "pool_inv {} p" "gget (tp_pending p) a = Some l" "tl_ok l'" "tl_strict l'"
    "set (tl_list l) = {tx} \<union> set (tl_list l')" "tx \<notin> set (tl_list l')"
  shows "pool_inv {} (lower_nonce env a n (all_Remove (tx_Txid tx) (p\<lparr>tp_pending := gput (tp_pending p) a l'\<rparr>)))"
    "shrinks p (lower_nonce env a n (all_Remove (tx_Txid tx) (p\<lparr>tp_pending := gput (tp_pending p) a l'\<rparr>)))"
proof -
  let ?q = "p\<lparr>tp_pending := gput (tp_pending p) a l'\<rparr>"
  have "pool_inv ({} \<union> set [tx]) ?q"
    by (rule pool_take_pending [OF assms(1-4)]) (use assms(5,6) in auto)
  from pool_drop [OF this, of tx] show "pool_inv {} (lower_nonce env a n (all_Remove (tx_Txid tx) ?q))"
    "shrinks p (lower_nonce env a n (all_Remove (tx_Txid tx) ?q))"
    using shrinks_trans [of p ?q] by simp_all
qed

lemma drop_last_ok:
  assumes "pool_inv {} p" "lists_full (tp_pending p)" "2 \<le> plen p a" "n = lists_len (tp_pending p)"
  obtains p' where "drop_last env a (p, n) = Some (p', lists_len (tp_pending p'))" "pool_inv {} p'" "shrinks p p'"
    "lists_full (tp_pending p')" "tp_queue p' = tp_queue p" "plen p' = (plen p)(a := plen p a - 1)"
    "lists_len (tp_pending p) = Suc (lists_len (tp_pending p'))"
proof -
  obtain l where l: "gget (tp_pending p) a = Some l" using plen_ex [of p a] assms(3) by auto
  have ok: "tl_ok l" "tl_strict l" using pool_inv_listD(1) [OF assms(1) l] by auto
  have len: "length (tl_list l) = plen p a" using l by (simp add: plen_def)
  let ?k = "length (tl_list l) - 1" and ?tx = "last (tl_list l)"
  have k: "int (tl_Len l) - 1 = int ?k" "tl_list l \<noteq> []" using assms(3) len tl_Len_list [OF ok(1)] by auto
  have dr: "drop ?k (tl_list l) = [?tx]" using k(2) by (metis append_butlast_last_id append_eq_conv_conj length_butlast)
  obtain l' where c: "tl_Cap l (int ?k) = Some ([?tx], l')" "tl_ok l'" "tl_strict l'" "tl_list l' = take ?k (tl_list l)"
    using tl_Cap_spec [OF ok(1), of ?k] ok(2) unfolding dr by auto
  have app: "tl_list l' @ [?tx] = tl_list l" using append_take_drop_id [of ?k "tl_list l"] unfolding dr c(4) .
  have "distinct (tl_list l' @ [?tx])" using tl_ok_nonces [OF ok(1)] unfolding app by (simp add: distinct_map)
  moreover have "set (tl_list l) = set (tl_list l' @ [?tx])" unfolding app ..
  ultimately have s: "set (tl_list l) = {?tx} \<union> set (tl_list l')" "?tx \<notin> set (tl_list l')" by auto
  let ?p' = "lower_nonce env a (tx_NonceValue ?tx) (all_Remove (tx_Txid ?tx) (p\<lparr>tp_pending := gput (tp_pending p) a l'\<rparr>))"
  have inv: "pool_inv {} ?p'" "shrinks p ?p'" using fold_lower_drop [OF assms(1) l c(2,3) s] by auto
  have v: "lview (tp_pending ?p') = (lview (tp_pending p))(a := lview (tp_pending p) a - {?tx})"
    using l s by auto
  have ps: "pset ?p' = pset p - {?tx}"
    unfolding v
  proof (rule UN_upd_minus)
    show "lview (tp_pending p) b \<inter> lview (tp_pending p) a = {}" if "b \<noteq> a" for b
      using lview_own(2) [OF assms(1)] that by blast
  qed (use l s in simp)
  have "?tx \<in> pset p" using l k(2) by (intro UN_I [of a]) simp_all
  from card_Suc_Diff1 [OF finite_pset [OF assms(1)] this]
  have cnt: "lists_len (tp_pending p) = Suc (lists_len (tp_pending ?p'))"
    unfolding pending_len [OF assms(1)] pending_len [OF inv(1)] ps by simp
  have "plen ?p' = (plen p)(a := plen p a - 1)"
  proof
    show "plen ?p' b = ((plen p)(a := plen p a - 1)) b" for b
      using l c(4) by (cases "b = a") (simp_all add: plen_def)
  qed
  moreover have "length (tl_list l') = plen p a - 1" using c(4) len by simp
  then have "tl_list l' \<noteq> []" using assms(3) by auto
  then have "lists_full (tp_pending ?p')" using assms(2) by simp
  moreover have "drop_last env a (p, n) = Some (?p', lists_len (tp_pending ?p'))"
    using l c(1) k(1) cnt assms(4) by (simp add: drop_last_def u64_dec_def)
  ultimately show ?thesis using that [of ?p'] inv cnt by simp
qed

text \<open>One round over several accounts shortens each of them by one.\<close>

lemma drop_round_ok:
  assumes "pool_inv {} p" "lists_full (tp_pending p)" "distinct os" "\<forall>a\<in>set os. 2 \<le> plen p a" "n = lists_len (tp_pending p)"
  obtains p' where "for_each (drop_last env) os (p, n) = Some (p', lists_len (tp_pending p'))" "pool_inv {} p'" "shrinks p p'"
    "lists_full (tp_pending p')" "tp_queue p' = tp_queue p"
    "plen p' = (\<lambda>a. if a \<in> set os then plen p a - 1 else plen p a)"
    "lists_len (tp_pending p) = lists_len (tp_pending p') + length os"
  using assms
proof (induction os arbitrary: p n thesis)
  case Nil
  then show ?case by (intro Nil.prems(1) [of p]) auto
next
  case (Cons a os)
  obtain p1 where p1: "drop_last env a (p, n) = Some (p1, lists_len (tp_pending p1))" "pool_inv {} p1" "shrinks p p1"
    "lists_full (tp_pending p1)" "tp_queue p1 = tp_queue p" "plen p1 = (plen p)(a := plen p a - 1)"
    "lists_len (tp_pending p) = Suc (lists_len (tp_pending p1))"
    by (rule drop_last_ok [OF Cons.prems(2,3) _ Cons.prems(6), of a]) (use Cons.prems(5) in auto)
  obtain p' where p': "for_each (drop_last env) os (p1, lists_len (tp_pending p1)) = Some (p', lists_len (tp_pending p'))"
    "pool_inv {} p'" "shrinks p1 p'" "lists_full (tp_pending p')" "tp_queue p' = tp_queue p1"
    "plen p' = (\<lambda>a. if a \<in> set os then plen p1 a - 1 else plen p1 a)"
    "lists_len (tp_pending p1) = lists_len (tp_pending p') + length os"
    by (rule Cons.IH [OF _ p1(2,4) _ _ refl]) (use Cons.prems(4,5) p1(6) in auto)
  have "plen p' = (\<lambda>b. if b \<in> set (a # os) then plen p b - 1 else plen p b)"
    using p'(6) p1(6) Cons.prems(4) by (auto simp: fun_eq_iff)
  then show ?case
    using p1 p' shrinks_trans [OF p1(3) p'(3)] by (intro Cons.prems(1) [of p']) simp_all
qed

section \<open>The loops\<close>

lemma equalize_loop_ok:
  assumes "pool_inv {} p" "lists_full (tp_pending p)" "distinct (os @ [v])" "os \<noteq> []"
    "\<forall>a\<in>set os. plen p a = k" "t \<le> k" "1 \<le> t" "n = lists_len (tp_pending p)"
  obtains p' k' where "equalize_loop env (os @ [v]) t p n = Some (p', lists_len (tp_pending p'))" "pool_inv {} p'"
    "shrinks p p'" "lists_full (tp_pending p')" "tp_queue p' = tp_queue p"
    "plen p' = (\<lambda>a. if a \<in> set os then k' else plen p a)" "t \<le> k'"
    "\<not> over_slots p (lists_len (tp_pending p')) \<or> k' = t"
  using assms
proof (induction "k - t" arbitrary: p k n thesis rule: less_induct)
  case less
  have idx: "(os @ [v]) ! (length (os @ [v]) - 2) = last os" using less.prems(5) by (simp add: nth_append last_conv_nth)
  have lo: "last os \<in> set os" using less.prems(5) by simp
  have "plen p (last os) > 0" using less.prems(6,7,8) lo by auto
  then obtain l where l: "gget (tp_pending p) (last os) = Some l" using plen_ex by blast
  have len: "tl_Len l = k" using plen_Some [OF less.prems(2) l] less.prems(6) lo by simp
  show ?case
  proof (cases "over_slots p n \<and> t < k")
    case False
    then have "equalize_loop env (os @ [v]) t p n = Some (p, lists_len (tp_pending p))"
      using l len idx less.prems(9) by (subst equalize_loop.simps) auto
    then show ?thesis
      using False less.prems by (intro less.prems(1) [of p k]) (auto simp: fun_eq_iff)
  next
    case True
    obtain p1 where p1: "for_each (drop_last env) os (p, n) = Some (p1, lists_len (tp_pending p1))" "pool_inv {} p1" "shrinks p p1"
      "lists_full (tp_pending p1)" "tp_queue p1 = tp_queue p"
      "plen p1 = (\<lambda>a. if a \<in> set os then plen p a - 1 else plen p a)"
      "lists_len (tp_pending p) = lists_len (tp_pending p1) + length os"
      by (rule drop_round_ok [where env = env, OF less.prems(2,3) _ _ less.prems(9)]) (use less.prems True in auto)
    obtain p' k' where p': "equalize_loop env (os @ [v]) t p1 (lists_len (tp_pending p1)) = Some (p', lists_len (tp_pending p'))"
      "pool_inv {} p'" "shrinks p1 p'" "lists_full (tp_pending p')" "tp_queue p' = tp_queue p1"
      "plen p' = (\<lambda>a. if a \<in> set os then k' else plen p1 a)" "t \<le> k'"
      "\<not> over_slots p1 (lists_len (tp_pending p')) \<or> k' = t"
      by (rule less.hyps [of "k - 1" p1, OF _ _ p1(2,4) less.prems(4,5) _ _ less.prems(8) refl])
        (use less.prems(6) p1(6) True in auto)
    have "equalize_loop env (os @ [v]) t p n = Some (p', lists_len (tp_pending p'))"
      using l len idx True p1(1) p'(1) by (subst equalize_loop.simps) simp
    moreover have "tp_config p1 = tp_config p" using p1(3) by (simp add: shrinks_def)
    moreover have "plen p' = (\<lambda>a. if a \<in> set os then k' else plen p a)" using p'(6) p1(6) by (auto simp: fun_eq_iff)
    ultimately show ?thesis
      using p' p1(5) shrinks_trans [OF p1(3) p'(3)] by (intro less.prems(1) [of p' k']) auto
  qed
qed

lemma allowance_loop_ok:
  assumes "pool_inv {} p" "lists_full (tp_pending p)" "distinct os" "os \<noteq> []" "\<forall>a\<in>set os. plen p a = k"
    "unat (cfg_AccountSlots (tp_config p)) \<le> k" "0 < cfg_AccountSlots (tp_config p)" "n = lists_len (tp_pending p)"
  obtains p' k' where "allowance_loop env os p n = Some (p', lists_len (tp_pending p'))" "pool_inv {} p'"
    "shrinks p p'" "lists_full (tp_pending p')" "tp_queue p' = tp_queue p"
    "plen p' = (\<lambda>a. if a \<in> set os then k' else plen p a)"
    "\<not> over_slots p (lists_len (tp_pending p')) \<or> k' = unat (cfg_AccountSlots (tp_config p))"
  using assms
proof (induction k arbitrary: p n thesis rule: less_induct)
  case (less k)
  have pos: "0 < unat (cfg_AccountSlots (tp_config p))" using less.prems(8) by (simp add: unat_gt_0 word_greater_zero_iff)
  have lo: "last os \<in> set os" using less.prems(5) by simp
  have "plen p (last os) > 0" using less.prems(6,7) lo pos by auto
  then obtain l where l: "gget (tp_pending p) (last os) = Some l" using plen_ex by blast
  have len: "tl_Len l = k" using plen_Some [OF less.prems(2) l] less.prems(6) lo by simp
  show ?case
  proof (cases "over_slots p n \<and> unat (cfg_AccountSlots (tp_config p)) < k")
    case False
    then have "allowance_loop env os p n = Some (p, lists_len (tp_pending p))"
      using l len less.prems(9) by (subst allowance_loop.simps) auto
    then show ?thesis
      using False less.prems by (intro less.prems(1) [of p k]) (auto simp: fun_eq_iff)
  next
    case True
    obtain p1 where p1: "for_each (drop_last env) os (p, n) = Some (p1, lists_len (tp_pending p1))" "pool_inv {} p1" "shrinks p p1"
      "lists_full (tp_pending p1)" "tp_queue p1 = tp_queue p"
      "plen p1 = (\<lambda>a. if a \<in> set os then plen p a - 1 else plen p a)"
      "lists_len (tp_pending p) = lists_len (tp_pending p1) + length os"
      by (rule drop_round_ok [where env = env, OF less.prems(2,3,4) _ less.prems(9)]) (use less.prems(6) pos True in auto)
    have cfg: "tp_config p1 = tp_config p" using p1(3) by (simp add: shrinks_def)
    obtain p' k' where p': "allowance_loop env os p1 (lists_len (tp_pending p1)) = Some (p', lists_len (tp_pending p'))"
      "pool_inv {} p'" "shrinks p1 p'" "lists_full (tp_pending p')" "tp_queue p' = tp_queue p1"
      "plen p' = (\<lambda>a. if a \<in> set os then k' else plen p1 a)"
      "\<not> over_slots p1 (lists_len (tp_pending p')) \<or> k' = unat (cfg_AccountSlots (tp_config p1))"
      by (rule less.IH [of "k - 1" p1, OF _ _ p1(2,4) less.prems(4,5) _ _ _ refl])
        (use less.prems(6,8) p1(6) True cfg in auto)
    have "allowance_loop env os p n = Some (p', lists_len (tp_pending p'))"
      using l len True p1(1) p'(1) by (subst allowance_loop.simps) simp
    moreover have "plen p' = (\<lambda>a. if a \<in> set os then k' else plen p a)" using p'(6) p1(6) by (auto simp: fun_eq_iff)
    ultimately show ?thesis
      using p' p1(5) cfg shrinks_trans [OF p1(3) p'(3)] by (intro less.prems(1) [of p' k']) auto
  qed
qed

section \<open>The queue of spammers\<close>

text \<open>The priority queue holds the accounts \<open>S\<close>, each with the length of its pending list.\<close>

definition spam_ok :: "address set \<Rightarrow> (address, unit) sstack \<Rightarrow> (address \<Rightarrow> nat) \<Rightarrow> bool" where
  "spam_ok S sp len \<longleftrightarrow> prque_ok 0 sp \<and> distinct (map it_value (ss_list sp)) \<and> it_value ` set (ss_list sp) = S \<and>
     (\<forall>it\<in>set (ss_list sp). it_priority it = int (len (it_value it)))"

lemma spam_Pop:
  assumes "spam_ok S sp len" "\<not> prque_Empty sp"
  obtains v sp' where "prque_Pop sp = Some ((v, int (len v)), sp')" "v \<in> S" "spam_ok (S - {v}) sp' len"
    "\<forall>u\<in>S. len u \<le> len v" "card (S - {v}) < card S"
proof -
  have S: "prque_ok 0 sp" "distinct (map it_value (ss_list sp))" "it_value ` set (ss_list sp) = S"
    "\<forall>it\<in>set (ss_list sp). it_priority it = int (len (it_value it))"
    using assms(1) by (auto simp: spam_ok_def)
  obtain v pr sp' where p: "prque_Pop sp = Some ((v, pr), sp')" "prque_ok 0 sp'"
    "mset (ss_list sp) = add_mset \<lparr> it_value = v, it_priority = pr \<rparr> (mset (ss_list sp'))"
    and max: "\<And>it. it \<in> set (ss_list sp) \<Longrightarrow> it_priority it \<le> pr"
    by (rule prque_Pop_max [OF S(1) assms(2)]) blast
  let ?it = "\<lparr> it_value = v, it_priority = pr \<rparr>"
  have set: "set (ss_list sp) = insert ?it (set (ss_list sp'))" using p(3) by (metis set_mset_add_mset_insert set_mset_mset)
  have pr: "pr = int (len v)" using S(4) set by auto
  have "mset (map it_value (ss_list sp)) = mset (v # map it_value (ss_list sp'))" using p(3) by simp
  then have d: "distinct (v # map it_value (ss_list sp'))" using S(2) mset_eq_imp_distinct_iff by blast
  then have img: "it_value ` set (ss_list sp') = S - {v}" using S(3) set by auto
  have "v \<in> S" using S(3) set by force
  moreover have "spam_ok (S - {v}) sp' len" using p(2) d img S(4) set by (simp add: spam_ok_def)
  moreover have "\<forall>u\<in>S. len u \<le> len v"
  proof
    fix u assume "u \<in> S"
    then obtain it where "it \<in> set (ss_list sp)" "u = it_value it" using S(3) by auto
    with max [of it] S(4) pr show "len u \<le> len v" by simp
  qed
  moreover have "card (S - {v}) < card S" using \<open>v \<in> S\<close> S(3) by (metis List.finite_set card_Diff1_less finite_imageI)
  ultimately show ?thesis using that p(1) pr by blast
qed

lemma spam_empty: "spam_ok S sp len \<Longrightarrow> prque_Empty sp \<Longrightarrow> S = {}"
  by (auto simp: spam_ok_def prque_Empty_def ss_Len_def)

lemma spam_cong: "spam_ok S sp len \<Longrightarrow> (\<And>a. a \<in> S \<Longrightarrow> len' a = len a) \<Longrightarrow> spam_ok S sp len'"
  unfolding spam_ok_def by (metis imageI)

lemma spam_Push:
  assumes "spam_ok S sp len" "v \<notin> S" "int (len v) < 2 ^ 63"
  shows "spam_ok (insert v S) (prque_Push sp v (int (len v))) len"
proof -
  let ?it = "\<lparr> it_value = v, it_priority = int (len v) \<rparr>" and ?sp = "prque_Push sp v (int (len v))"
  have S: "prque_ok 0 sp" "distinct (map it_value (ss_list sp))" "it_value ` set (ss_list sp) = S"
    "\<forall>it\<in>set (ss_list sp). it_priority it = int (len (it_value it))"
    using assms(1) by (auto simp: spam_ok_def)
  have p: "prque_ok 0 ?sp" "mset (ss_list ?sp) = add_mset ?it (mset (ss_list sp))"
    using prque_Push_mset [OF S(1), of "int (len v)" v] assms(3) by auto
  have set: "set (ss_list ?sp) = insert ?it (set (ss_list sp))" using p(2) by (metis set_mset_add_mset_insert set_mset_mset)
  have "mset (map it_value (ss_list ?sp)) = mset (v # map it_value (ss_list sp))" using p(2) by simp
  moreover have "distinct (v # map it_value (ss_list sp))" using S(2,3) assms(2) by auto
  ultimately have "distinct (map it_value (ss_list ?sp))" using mset_eq_imp_distinct_iff by blast
  with p(1) set S(3,4) show ?thesis by (simp add: spam_ok_def)
qed

text \<open>The accounts that may be cut: not local and above the guaranteed slots.\<close>

definition spammer :: "TxPool \<Rightarrow> address \<Rightarrow> bool" where
  "spammer p a \<longleftrightarrow> \<not> as_contains (tp_locals p) a \<and> plen p a > unat (cfg_AccountSlots (tp_config p))"

lemma spammers_of_ok:
  assumes "pool_inv {} p" "go_range (pe_rngA env)" "lk_Count (tp_all p) < 2 ^ 63"
  shows "spam_ok {a. spammer p a} (spammers_of env p) (plen p)"
proof -
  let ?f = "\<lambda>addr q. case gget (tp_pending p) addr of None \<Rightarrow> q
      | Some l \<Rightarrow> if \<not> as_contains (tp_locals p) addr \<and> tl_Len l > unat (cfg_AccountSlots (tp_config p))
          then prque_Push q addr (int (tl_Len l)) else q"
  have step: "spam_ok (S \<union> {a \<in> set ks. spammer p a}) (fold ?f ks q) (plen p)"
    if "spam_ok S q (plen p)" "distinct ks" "S \<inter> set ks = {}" for ks S q
    using that
  proof (induction ks arbitrary: S q)
    case (Cons a ks)
    have "int (plen p a) < 2 ^ 63" using plen_le_count [OF assms(1), of a] assms(3) by simp
    then have push: "spammer p a \<Longrightarrow> spam_ok (insert a S) (prque_Push q a (int (plen p a))) (plen p)"
      using Cons.prems by (intro spam_Push) auto
    show ?case
    proof (cases "spammer p a")
      case True
      then obtain l where l: "gget (tp_pending p) a = Some l" using plen_ex [of p a] by (auto simp: spammer_def)
      have "fold ?f (a # ks) q = fold ?f ks (prque_Push q a (int (plen p a)))"
        using True l plen_Some [OF assms(1) l] by (simp add: spammer_def)
      moreover have "S \<union> {x \<in> set (a # ks). spammer p x} = insert a S \<union> {x \<in> set ks. spammer p x}" using True by auto
      ultimately show ?thesis using Cons.IH [OF push [OF True]] Cons.prems by simp
    next
      case False
      then have "fold ?f (a # ks) q = fold ?f ks q"
        using plen_Some [OF assms(1), of a] by (auto simp: spammer_def split: option.splits)
      moreover have "{x \<in> set (a # ks). spammer p x} = {x \<in> set ks. spammer p x}" using False by auto
      ultimately show ?thesis using Cons.IH [OF Cons.prems(1)] Cons.prems(2,3) by simp
    qed
  qed simp
  have new: "spam_ok {} (prque_New None ()) (plen p)"
    unfolding spam_ok_def prque_New_def newSstack_ok(2) using newSstack_ok(1) by simp
  have ks: "distinct (gkeys (pe_rngA env) (tp_pending p))" "set (gkeys (pe_rngA env) (tp_pending p)) = dom (gget (tp_pending p))"
    using pool_inv_listD(4) [OF assms(1)] assms(2) by (simp_all add: distinct_gkeys set_gkeys)
  have "{a \<in> set (gkeys (pe_rngA env) (tp_pending p)). spammer p a} = {a. spammer p a}"
    unfolding ks(2) using plen_ex by (auto simp: spammer_def dom_def)
  with step [OF new ks(1)] show ?thesis by (simp add: spammers_of_def)
qed

section \<open>Cutting the pending lists\<close>

text \<open>
  The loop that takes accounts off the queue.  \<open>S0\<close> is the set of accounts it may ever touch; all of them stay above
  the guaranteed slots, those taken so far have one common length, and the loop stops early only within the limit.
\<close>

lemma spammer_loop_ok:
  assumes "pool_inv {} p" "lists_full (tp_pending p)" "distinct os" "spam_ok S sp (plen p)" "S \<inter> set os = {}"
    "\<forall>a\<in>set os. plen p a = k" "\<forall>a\<in>S. os \<noteq> [] \<longrightarrow> plen p a \<le> k" "\<forall>a\<in>S \<union> set os. slots < plen p a"
    "n = lists_len (tp_pending p)"
  obtains os' p' k' where "spammer_loop env sp os p n = Some (os', p', lists_len (tp_pending p'))" "pool_inv {} p'"
    "shrinks p p'" "lists_full (tp_pending p')" "tp_queue p' = tp_queue p" "distinct os'" "set os' \<subseteq> S \<union> set os"
    "\<forall>a. a \<notin> S \<union> set os \<longrightarrow> plen p' a = plen p a"
    "\<not> over_slots p (lists_len (tp_pending p')) \<or>
      set os' = S \<union> set os \<and> (\<forall>a\<in>set os'. plen p' a = k') \<and> (os' \<noteq> [] \<longrightarrow> slots < k')"
  using assms
proof (induction "card S" arbitrary: S sp os p k n thesis rule: less_induct)
  case less
  show ?case
  proof (cases "over_slots p n \<and> \<not> prque_Empty sp")
    case False
    then have "spammer_loop env sp os p n = Some (os, p, lists_len (tp_pending p))"
      using less.prems(10) by (subst spammer_loop.simps) auto
    moreover have "\<not> over_slots p (lists_len (tp_pending p)) \<or> S = {}"
      using False spam_empty [OF less.prems(5)] less.prems(10) by blast
    ultimately show ?thesis
      using less.prems by (intro less.prems(1) [of os p k]) (auto simp: neq_Nil_conv)
  next
    case True
    obtain v sp' where pop: "prque_Pop sp = Some ((v, int (plen p v)), sp')" "v \<in> S" "spam_ok (S - {v}) sp' (plen p)"
      "\<forall>u\<in>S. plen p u \<le> plen p v" "card (S - {v}) < card S"
      using spam_Pop [OF less.prems(5)] True by blast
    have v: "v \<notin> set os" "slots < plen p v" using pop(2) less.prems(6,9) by auto
    then obtain l where l: "gget (tp_pending p) v = Some l" using plen_ex [of p v] by auto
    have len: "tl_Len l = plen p v" using plen_Some [OF less.prems(2) l] .
    obtain p1 where p1: "(if length (os @ [v]) > 1 then do { l \<leftarrow> gget (tp_pending p) v; equalize_loop env (os @ [v]) (tl_Len l) p n }
        else Some (p, n)) = Some (p1, lists_len (tp_pending p1))" "pool_inv {} p1" "shrinks p p1" "lists_full (tp_pending p1)"
      "tp_queue p1 = tp_queue p" "\<forall>a. a \<notin> set os \<longrightarrow> plen p1 a = plen p a"
      "\<not> over_slots p (lists_len (tp_pending p1)) \<or> (\<forall>a\<in>set (os @ [v]). plen p1 a = plen p v)"
      "\<forall>a\<in>set os. plen p v \<le> plen p1 a"
    proof (cases "os = []")
      case True
      then show ?thesis using less.prems(2,3,10) by (intro that [of p]) simp_all
    next
      case False
      obtain p1 k' where "equalize_loop env (os @ [v]) (plen p v) p n = Some (p1, lists_len (tp_pending p1))" "pool_inv {} p1"
        "shrinks p p1" "lists_full (tp_pending p1)" "tp_queue p1 = tp_queue p"
        "plen p1 = (\<lambda>a. if a \<in> set os then k' else plen p a)" "plen p v \<le> k'"
        "\<not> over_slots p (lists_len (tp_pending p1)) \<or> k' = plen p v"
        by (rule equalize_loop_ok [where env = env and t = "plen p v", OF less.prems(2,3) _ False less.prems(7) _ _ less.prems(10)])
          (use less.prems(4,8) v pop(2) False in auto)
      then show ?thesis using False l len v(1) by (intro that [of p1]) auto
    qed
    have cfg: "tp_config p1 = tp_config p" using p1(3) by (simp add: shrinks_def)
    have step: "spammer_loop env sp os p n = spammer_loop env sp' (os @ [v]) p1 (lists_len (tp_pending p1))"
      using True pop(1) p1(1) by (subst spammer_loop.simps) simp
    show ?thesis
    proof (cases "over_slots p (lists_len (tp_pending p1))")
      case False
      then have "spammer_loop env sp' (os @ [v]) p1 (lists_len (tp_pending p1)) = Some (os @ [v], p1, lists_len (tp_pending p1))"
        using cfg by (subst spammer_loop.simps) simp
      with step False show ?thesis
        using p1 pop(2) v(1) less.prems(4) by (intro less.prems(1) [of "os @ [v]" p1 k]) auto
    next
      case over: True
      then have eq: "\<forall>a\<in>set (os @ [v]). plen p1 a = plen p v" using p1(7) by blast
      have same: "plen p1 a = plen p a" if "a \<in> S - {v}" for a using p1(6) that less.prems(6) by blast
      have sp': "spam_ok (S - {v}) sp' (plen p1)" using pop(3) same by (rule spam_cong)
      obtain os' p' k' where r: "spammer_loop env sp' (os @ [v]) p1 (lists_len (tp_pending p1)) = Some (os', p', lists_len (tp_pending p'))"
        "pool_inv {} p'" "shrinks p1 p'" "lists_full (tp_pending p')" "tp_queue p' = tp_queue p1" "distinct os'"
        "set os' \<subseteq> (S - {v}) \<union> set (os @ [v])" "\<forall>a. a \<notin> (S - {v}) \<union> set (os @ [v]) \<longrightarrow> plen p' a = plen p1 a"
        "\<not> over_slots p1 (lists_len (tp_pending p')) \<or>
          set os' = (S - {v}) \<union> set (os @ [v]) \<and> (\<forall>a\<in>set os'. plen p' a = k') \<and> (os' \<noteq> [] \<longrightarrow> slots < k')"
      proof (rule less.hyps [OF pop(5) _ p1(2,4) _ sp' _ eq _ _ refl])
        show "\<forall>a\<in>S - {v}. os @ [v] \<noteq> [] \<longrightarrow> plen p1 a \<le> plen p v" using same pop(4) by simp
        show "\<forall>a\<in>(S - {v}) \<union> set (os @ [v]). slots < plen p1 a"
        proof
          fix a assume "a \<in> (S - {v}) \<union> set (os @ [v])"
          then show "slots < plen p1 a" using same [of a] eq v(2) less.prems(9) by (cases "a \<in> S - {v}") auto
        qed
      qed (use less.prems(4,6) v(1) in auto)
      have U: "(S - {v}) \<union> set (os @ [v]) = S \<union> set os" using pop(2) by auto
      show ?thesis
        using r cfg p1(5,6) step shrinks_trans [OF p1(3) r(3)] unfolding U
        by (intro less.prems(1) [of os' p' k']) auto
    qed
  qed
qed

lemma cap_pending_ok:
  assumes "pool_inv {} p" "lists_full (tp_pending p)" "go_range (pe_rngA env)" "lk_Count (tp_all p) < 2 ^ 63"
    "0 < cfg_AccountSlots (tp_config p)"
  obtains p' where "cap_pending env p = Some p'" "pool_inv {} p'" "shrinks p p'" "lists_full (tp_pending p')"
    "tp_queue p' = tp_queue p"
    "\<not> over_slots p (lists_len (tp_pending p')) \<or>
      (\<forall>a. \<not> as_contains (tp_locals p) a \<longrightarrow> plen p' a \<le> unat (cfg_AccountSlots (tp_config p)))"
proof (cases "over_slots p (lists_len (tp_pending p))")
  case False
  then show ?thesis using that [of p] assms by (simp add: cap_pending_def)
next
  case True
  let ?slots = "unat (cfg_AccountSlots (tp_config p))" and ?S = "{a. spammer p a}"
  obtain os p1 k where r: "spammer_loop env (spammers_of env p) [] p (lists_len (tp_pending p)) = Some (os, p1, lists_len (tp_pending p1))"
    "pool_inv {} p1" "shrinks p p1" "lists_full (tp_pending p1)" "tp_queue p1 = tp_queue p" "distinct os" "set os \<subseteq> ?S \<union> set []"
    "\<forall>a. a \<notin> ?S \<union> set [] \<longrightarrow> plen p1 a = plen p a"
    "\<not> over_slots p (lists_len (tp_pending p1)) \<or>
      set os = ?S \<union> set [] \<and> (\<forall>a\<in>set os. plen p1 a = k) \<and> (os \<noteq> [] \<longrightarrow> ?slots < k)"
    by (rule spammer_loop_ok [where env = env, OF assms(1,2) _ spammers_of_ok [OF assms(1,3,4)], of "[]" 0 ?slots])
      (auto simp: spammer_def)
  have cfg: "tp_config p1 = tp_config p" using r(3) by (simp add: shrinks_def)
  have low: "plen p1 a \<le> ?slots" if "\<not> as_contains (tp_locals p) a" "a \<notin> ?S" for a
    using r(8) that by (auto simp: spammer_def)
  show ?thesis
  proof (cases "over_slots p (lists_len (tp_pending p1)) \<and> os \<noteq> []")
    case False
    then have "cap_pending env p = Some p1" using True r(1) cfg by (auto simp: cap_pending_def)
    moreover have "\<not> over_slots p (lists_len (tp_pending p1)) \<or> (\<forall>a. \<not> as_contains (tp_locals p) a \<longrightarrow> plen p1 a \<le> ?slots)"
      using False r(9) low by auto
    ultimately show ?thesis using that [of p1] r by blast
  next
    case over: True
    then have k: "set os = ?S" "\<forall>a\<in>set os. plen p1 a = k" "?slots < k" using r(9) by auto
    obtain p2 k' where a: "allowance_loop env os p1 (lists_len (tp_pending p1)) = Some (p2, lists_len (tp_pending p2))" "pool_inv {} p2"
      "shrinks p1 p2" "lists_full (tp_pending p2)" "tp_queue p2 = tp_queue p1"
      "plen p2 = (\<lambda>a. if a \<in> set os then k' else plen p1 a)"
      "\<not> over_slots p1 (lists_len (tp_pending p2)) \<or> k' = unat (cfg_AccountSlots (tp_config p1))"
      by (rule allowance_loop_ok [where env = env, OF r(2,4,6) _ k(2) _ _ refl]) (use over cfg k(3) assms(5) in auto)
    have "cap_pending env p = Some p2" using True r(1) a(1) over cfg by (simp add: cap_pending_def)
    moreover have "\<not> over_slots p (lists_len (tp_pending p2)) \<or> (\<forall>a. \<not> as_contains (tp_locals p) a \<longrightarrow> plen p2 a \<le> ?slots)"
      using a(6,7) cfg low k(1) by auto
    ultimately show ?thesis using that [of p2] a r(5) shrinks_trans [OF r(3) a(3)] by simp
  qed
qed

lemma cap_queue_ok:
  assumes "pool_inv {} p" "lists_full (tp_pending p)" "lists_full (tp_queue p)" "go_range (pe_rngA env)" "go_range (pe_rngN env)"
  obtains p' where "cap_queue env p = Some p'" "pool_inv {} p'" "shrinks p p'" "lists_full (tp_pending p')" "lists_full (tp_queue p')"
    "lview (tp_pending p') = lview (tp_pending p)"
    "lists_len (tp_queue p') \<le> unat (cfg_GlobalQueue (tp_config p)) \<or>
      (\<forall>a. gget (tp_queue p') a \<noteq> None \<longrightarrow> as_contains (tp_locals p) a)"
proof (cases "lists_len (tp_queue p) > unat (cfg_GlobalQueue (tp_config p))")
  case False
  then show ?thesis using that [of p] assms by (simp add: cap_queue_def)
next
  case True
  let ?limit = "unat (cfg_GlobalQueue (tp_config p))"
  define as where "as = rev (sort_key (beat_of p) (filter (\<lambda>addr. \<not> as_contains (tp_locals p) addr) (gkeys (pe_rngA env) (tp_queue p))))"
  have ks: "distinct (gkeys (pe_rngA env) (tp_queue p))" "set (gkeys (pe_rngA env) (tp_queue p)) = dom (gget (tp_queue p))"
    using pool_inv_listD(5) [OF assms(1)] assms(4) by (simp_all add: distinct_gkeys set_gkeys)
  have as: "distinct as" "set as = {a. gget (tp_queue p) a \<noteq> None \<and> \<not> as_contains (tp_locals p) a}"
    using ks by (auto simp: as_def dom_def)
  obtain p' where r: "queue_drop env as (lists_len (tp_queue p) - ?limit) p = Some p'" "pool_inv {} p'" "lists_full (tp_pending p')"
    "lists_full (tp_queue p')" "shrinks p p'" "lview (tp_pending p') = lview (tp_pending p)"
    "card (qset p') + (lists_len (tp_queue p) - ?limit) = card (qset p) \<or> (\<forall>a\<in>set as. lview (tp_queue p') a = {})"
    "\<forall>a. a \<notin> set as \<longrightarrow> lview (tp_queue p') a = lview (tp_queue p) a"
    by (rule queue_drop_ok [where env = env, OF assms(1,5,2,3) as(1)]) (use as(2) in auto)
  have eq: "cap_queue env p = Some p'" using True r(1) by (simp add: cap_queue_def Let_def as_def)
  have "lists_len (tp_queue p') \<le> ?limit \<or> (\<forall>a. gget (tp_queue p') a \<noteq> None \<longrightarrow> as_contains (tp_locals p) a)"
    using r(7)
  proof
    assume "card (qset p') + (lists_len (tp_queue p) - ?limit) = card (qset p)"
    then have "lists_len (tp_queue p') \<le> ?limit" using True queue_len [OF assms(1)] queue_len [OF r(2)] by linarith
    then show ?thesis ..
  next
    assume e: "\<forall>a\<in>set as. lview (tp_queue p') a = {}"
    have "as_contains (tp_locals p) a" if "gget (tp_queue p') a \<noteq> None" for a
    proof -
      have ne: "lview (tp_queue p') a \<noteq> {}" using that r(4) by (auto simp: lview_def lists_full_def)
      then have "a \<notin> set as" using e by blast
      with r(8) ne have "lview (tp_queue p) a \<noteq> {}" by simp
      then have "gget (tp_queue p) a \<noteq> None" by (auto simp: lview_def)
      with \<open>a \<notin> set as\<close> show ?thesis unfolding as(2) by blast
    qed
    then show ?thesis by blast
  qed
  then show ?thesis using that [OF eq r(2,5,3,4,6)] by blast
qed

section \<open>promoteExecutables and the other methods\<close>

definition pool_room :: "TxPool \<Rightarrow> bool" where
  "pool_room p \<longleftrightarrow> config_ok (tp_config p) \<and> lk_Count (tp_all p) < 2 ^ 63"

lemma pool_room_shrinks: "pool_inv F p \<Longrightarrow> pool_inv F' p' \<Longrightarrow> shrinks p p' \<Longrightarrow> pool_room p \<Longrightarrow> pool_room p'"
  using shrinks_count [of F p F' p'] by (auto simp: pool_room_def shrinks_def)

text \<open>The limits that hold after a promotion.\<close>

definition within_limits :: "TxPool \<Rightarrow> bool" where
  "within_limits p \<longleftrightarrow>
     (lists_len (tp_pending p) \<le> unat (cfg_GlobalSlots (tp_config p)) \<or>
       (\<forall>a. \<not> as_contains (tp_locals p) a \<longrightarrow> plen p a \<le> unat (cfg_AccountSlots (tp_config p)))) \<and>
     (lists_len (tp_queue p) \<le> unat (cfg_GlobalQueue (tp_config p)) \<or>
       (\<forall>a. gget (tp_queue p) a \<noteq> None \<longrightarrow> as_contains (tp_locals p) a))"

definition env_ok :: "pool_env \<Rightarrow> bool" where
  "env_ok env \<longleftrightarrow> go_range (pe_rngN env) \<and> go_range (pe_rngA env)"

definition full_inv :: "TxPool \<Rightarrow> bool" where
  "full_inv p \<longleftrightarrow> pool_inv {} p \<and> lists_full (tp_pending p) \<and> lists_full (tp_queue p)"

lemma for_each_shrinks:
  assumes "\<And>a p. full_inv p \<Longrightarrow> pool_room p \<Longrightarrow> \<exists>p'. f a p = Some p' \<and> full_inv p' \<and> shrinks p p'"
    "full_inv p" "pool_room p"
  shows "\<exists>p'. for_each f as p = Some p' \<and> full_inv p' \<and> shrinks p p'"
proof -
  have "\<exists>p'. for_each f as p = Some p' \<and> full_inv p' \<and> pool_room p' \<and> shrinks p p'"
  proof (rule for_each_inv [where I = "\<lambda>_ q. full_inv q \<and> pool_room q \<and> shrinks p q"])
    show "\<exists>s'. f x s = Some s' \<and> full_inv s' \<and> pool_room s' \<and> shrinks p s'"
      if s: "full_inv s \<and> pool_room s \<and> shrinks p s" for x s
    proof -
      obtain s' where s': "f x s = Some s'" "full_inv s'" "shrinks s s'" using assms(1) [of s x] s by blast
      moreover have "pool_room s'" using pool_room_shrinks [of "{}" s "{}" s'] s s' by (simp add: full_inv_def)
      ultimately show ?thesis using s shrinks_trans [of p s s'] by blast
    qed
  qed (use assms(2,3) in simp)
  then show ?thesis by blast
qed

lemma pool_Notify_frame [simp]:
  "pool_inv F (pool_Notify p) = pool_inv F p" "shrinks q (pool_Notify p) = shrinks q p" "tp_pending (pool_Notify p) = tp_pending p"
  "tp_queue (pool_Notify p) = tp_queue p" "tp_config (pool_Notify p) = tp_config p" "tp_locals (pool_Notify p) = tp_locals p"
  "tp_all (pool_Notify p) = tp_all p"
  by (simp_all add: pool_Notify_def)

lemma promoteExecutables_ok:
  assumes "full_inv p" "pool_room p" "env_ok env"
  obtains p' where "promoteExecutables env accounts p = Some p'" "full_inv p'" "shrinks p p'" "within_limits p'"
proof -
  let ?as = "case accounts of None \<Rightarrow> gkeys (pe_rngA env) (tp_queue p) | Some as \<Rightarrow> as"
  have "\<exists>p1. for_each (promote_account env) ?as p = Some p1 \<and> full_inv p1 \<and> shrinks p p1"
  proof (rule for_each_shrinks [OF _ assms(1,2)])
    fix a q assume "full_inv q" "pool_room q"
    then have q: "pool_inv {} q" "lists_full (tp_pending q)" "lists_full (tp_queue q)" "sint (cfg_AccountQueue (tp_config q)) \<ge> 0"
      by (auto simp: full_inv_def pool_room_def config_ok_def)
    obtain p' where "promote_account env a q = Some p'" "pool_inv {} p'" "lists_full (tp_pending p')" "lists_full (tp_queue p')" "shrinks q p'"
      by (rule promote_account_ok [OF q])
    then show "\<exists>p'. promote_account env a q = Some p' \<and> full_inv p' \<and> shrinks q p'" by (simp add: full_inv_def)
  qed
  then obtain p1 where p1: "for_each (promote_account env) ?as p = Some p1" "full_inv p1" "shrinks p p1" by blast
  have room: "pool_room p1" using pool_room_shrinks [of "{}" p "{}" p1] assms(1,2) p1 by (simp add: full_inv_def)
  let ?n = "pool_Notify p1"
  obtain p2 where p2: "cap_pending env ?n = Some p2" "pool_inv {} p2" "shrinks ?n p2" "lists_full (tp_pending p2)"
    "tp_queue p2 = tp_queue ?n" "\<not> over_slots ?n (lists_len (tp_pending p2)) \<or>
      (\<forall>a. \<not> as_contains (tp_locals ?n) a \<longrightarrow> plen p2 a \<le> unat (cfg_AccountSlots (tp_config ?n)))"
    by (rule cap_pending_ok [of ?n env]) (use p1(2) room assms(3) in \<open>auto simp: full_inv_def env_ok_def pool_room_def config_ok_def\<close>)
  have f2: "lists_full (tp_queue p2)" using p2(5) p1(2) by (simp add: full_inv_def)
  obtain p3 where p3: "cap_queue env p2 = Some p3" "pool_inv {} p3" "shrinks p2 p3" "lists_full (tp_pending p3)" "lists_full (tp_queue p3)"
    "lview (tp_pending p3) = lview (tp_pending p2)" "lists_len (tp_queue p3) \<le> unat (cfg_GlobalQueue (tp_config p2)) \<or>
      (\<forall>a. gget (tp_queue p3) a \<noteq> None \<longrightarrow> as_contains (tp_locals p2) a)"
    by (rule cap_queue_ok [OF p2(2,4) f2, of env]) (use assms(3) in \<open>auto simp: env_ok_def\<close>)
  have "plen p3 = plen p2" "lists_len (tp_pending p3) = lists_len (tp_pending p2)"
    using p3(6) by (auto simp: plen_card [OF p3(2)] plen_card [OF p2(2)] pending_len [OF p3(2)] pending_len [OF p2(2)])
  then have "within_limits p3"
    using p2(3,6) p3(3,7) by (auto simp: within_limits_def shrinks_def)
  moreover have "promoteExecutables env accounts p = Some p3"
    using p1(1) p2(1) p3(1) by (simp add: promoteExecutables_def)
  moreover have "shrinks p ?n" using p1(3) by simp
  then have "shrinks p p3" using shrinks_trans [OF shrinks_trans [OF _ p2(3)] p3(3)] by blast
  ultimately show ?thesis using that [of p3] p3 by (simp add: full_inv_def)
qed

end
