(* ===== verification/TxPool_Safe.thy ===== *)
theory TxPool_Safe
  imports TxPool_Cap
begin

text \<open>
  Every method of the pool keeps the invariant and returns; the properties of the pool and of its server.
\<close>

section \<open>Adding\<close>

definition pool_good :: "TxPool \<Rightarrow> bool" where
  "pool_good p \<longleftrightarrow> pool_ok p \<and> config_ok (tp_config p)"

lemma pool_good_iff: "pool_good p \<longleftrightarrow> full_inv p \<and> config_ok (tp_config p) \<and> lk_Count (tp_all p) \<le> capacity p"
  by (auto simp: pool_good_def pool_ok_def full_inv_def)

lemma pool_goodD:
  assumes "pool_good p"
  shows "full_inv p" "pool_room p" "config_ok (tp_config p)" "lk_Count (tp_all p) \<le> capacity p" "pool_inv {} p"
    "lists_full (tp_pending p)" "lists_full (tp_queue p)" "capacity p < 2 ^ 63"
  using assms by (auto simp: pool_good_iff pool_room_def full_inv_def config_ok_def capacity_def)

lemma pool_good_shrinks:
  assumes "pool_good p" "full_inv p'" "shrinks p p'"
  shows "pool_good p'"
proof -
  have "lk_Count (tp_all p') \<le> lk_Count (tp_all p)"
    using shrinks_count [of "{}" p "{}" p'] assms by (simp add: pool_good_iff full_inv_def)
  then show ?thesis using assms by (auto simp: pool_good_iff capacity_def shrinks_def)
qed

lemma enqueue_new:
  assumes "full_inv p" "gget (tp_all p) (tx_Txid tx) = None" "tx_NonceValue tx \<notin> tx_NonceValue ` lview (tp_pending p) (tx_From tx)"
  obtains r p' where "enqueueTx (tx_Txid tx) tx p = (r, p')" "full_inv p'" "tp_config p' = tp_config p" "tp_locals p' = tp_locals p"
    "tp_pending p' = tp_pending p"
    "r = Inl ErrReplaceUnderpriced \<and> tp_all p' = tp_all p \<or> r = Inr False \<and> tp_all p' = gput (tp_all p) (tx_Txid tx) tx"
proof -
  let ?a = "tx_From tx" and ?h = "tx_Txid tx"
  have inv: "pool_inv {} p" "lists_full (tp_pending p)" "lists_full (tp_queue p)" using assms(1) by (auto simp: full_inv_def)
  note B = pool_inv_listD(3) [OF inv(1)]
  show ?thesis
  proof (cases "tx_NonceValue tx \<in> tx_NonceValue ` lview (tp_queue p) ?a")
    case True
    then obtain l where l: "gget (tp_queue p) ?a = Some l" "tx_NonceValue tx \<in> tx_NonceValue ` set (tl_list l)"
      by (auto simp: lview_def split: option.splits)
    have ok: "tl_ok l" "\<not> tl_strict l" using pool_inv_listD(2) [OF inv(1) l(1)] by auto
    let ?p' = "p\<lparr>tp_queue := gput (tp_queue p) ?a l\<rparr>"
    have "pool_inv {} ?p'" using pool_take_queue [OF inv(1) l(1) ok, of "[]"] by simp
    moreover have "tl_list l \<noteq> []" using l inv(3) by (auto simp: lists_full_def)
    ultimately have "full_inv ?p'" using inv by (simp add: full_inv_def)
    moreover have "enqueueTx ?h tx p = (Inl ErrReplaceUnderpriced, ?p')"
      using l(1) tl_Add_spec(1) [OF ok(1) l(2)] by (simp add: enqueueTx_def)
    ultimately show ?thesis using that [of "Inl ErrReplaceUnderpriced" ?p'] by simp
  next
    case False
    have "tx_slot tx \<notin> tx_slot ` ran (gget (tp_all p))"
    proof
      assume "tx_slot tx \<in> tx_slot ` ran (gget (tp_all p))"
      then obtain t where t: "t \<in> filed (lview (tp_pending p)) (lview (tp_queue p))" "tx_From t = ?a" "tx_NonceValue t = tx_NonceValue tx"
        using book_okD(5) [OF B] by (auto simp: tx_slot_def)
      then have "t \<in> lview (tp_pending p) ?a \<union> lview (tp_queue p) ?a"
        using lview_own [OF inv(1), of t] by (auto simp: filed_def)
      with t(3) assms(3) False show False by (metis UnE imageI)
    qed
    from book_new [OF B assms(2) this]
    have q: "pool_inv {tx} (p\<lparr>tp_all := gput (tp_all p) ?h tx\<rparr>)" using inv(1) by (simp add: pool_inv_def)
    let ?q = "p\<lparr>tp_all := gput (tp_all p) ?h tx\<rparr>"
    obtain p' where p': "enqueueTx ?h tx ?q = (Inr False, p')" "pool_inv ({tx} - {tx}) p'" "shrinks ?q p'"
      "tp_pending p' = tp_pending ?q" "lists_full (tp_queue ?q) \<Longrightarrow> lists_full (tp_queue p')"
      by (rule enqueue_flight [OF q, of tx]) auto
    have eq: "enqueueTx ?h tx p = enqueueTx ?h tx ?q \<and> tp_all p' = gput (tp_all p) ?h tx"
    proof -
      let ?l = "case gget (tp_queue p) ?a of None \<Rightarrow> newTxList False | Some l \<Rightarrow> l"
      obtain l' where "tl_Add ?l tx = (True, None, l')"
        by (rule tl_Add_free [where m = "gget (tp_queue p) ?a" and l = ?l and b = False and tx = tx])
          (use False pool_inv_listD(2) [OF inv(1), of ?a] in \<open>auto simp: lview_def split: option.splits\<close>)
      then show ?thesis using p'(1) assms(2) by (auto simp: enqueueTx_def Let_def lk_Get_def lk_Add_def)
    qed
    moreover have "full_inv p'" using p' inv by (simp add: full_inv_def)
    ultimately show ?thesis using that [of "Inr False" p'] p' by (simp add: shrinks_def)
  qed
qed

lemma count_guard:
  assumes "\<not> word_of_nat n \<ge> (s :: u64)" "n < 2 ^ 64"
  shows "n < unat s"
  using assms by (simp add: word_less_nat_alt unat_of_nat not_le)

text \<open>A transaction that the pool does not know and whose signature is missing.\<close>

definition unreadable :: "TxPool \<Rightarrow> transaction \<Rightarrow> bool" where
  "unreadable p tx \<longleftrightarrow> lk_Get (tp_all p) (tx_Txid tx) = None \<and> signature_missing pool_signer tx"

lemma validateTx_None: "validateTx env p tx loc = None \<longleftrightarrow> signature_missing pool_signer tx"
  using Sender_panics [of "pe_sign env" pool_signer tx] by (auto simp: validateTx_def split: Option.bind_splits)

lemma pool_add_None: "pool_add env tx loc p = None \<longleftrightarrow> unreadable p tx"
  using validateTx_None [of env p tx loc] by (auto simp: pool_add_def unreadable_def Let_def)

lemma pool_add_ok:
  assumes "pool_good p" "pool_add env tx loc p = Some (r, p')"
  shows "pool_good p' \<and> tp_config p' = tp_config p \<and> ((\<exists>e. r = Inl e) \<or> r = Inr False)"
proof (cases "lk_Get (tp_all p) (tx_Txid tx) \<noteq> None \<or> validateTx env p tx loc \<noteq> Some None \<or>
    word_of_nat (lk_Count (tp_all p)) \<ge> cfg_GlobalSlots (tp_config p) + cfg_GlobalQueue (tp_config p) \<or>
    (case gget (tp_pending p) (tx_From tx) of None \<Rightarrow> False | Some l \<Rightarrow> tl_Overlaps l tx)")
  case True
  then have "p' = p \<and> ((\<exists>e. r = Inl e) \<or> r = Inr False)"
    using assms(2) by (auto simp: pool_add_def Let_def split: option.splits if_splits)
  then show ?thesis using assms(1) by blast
next
  case False
  note D = pool_goodD [OF assms(1)]
  have known: "gget (tp_all p) (tx_Txid tx) = None" using False by (simp add: lk_Get_def)
  have free: "tx_NonceValue tx \<notin> tx_NonceValue ` lview (tp_pending p) (tx_From tx)"
    using False pool_inv_listD(1) [OF D(5), of "tx_From tx"] tl_Overlaps_spec
    by (auto simp: lview_def split: option.splits)
  have cnt: "lk_Count (tp_all p) < capacity p"
    unfolding capacity_def by (rule count_guard) (use False D(4,8) in auto)
  obtain r1 p1 where e: "enqueueTx (tx_Txid tx) tx p = (r1, p1)" "full_inv p1" "tp_config p1 = tp_config p" "tp_locals p1 = tp_locals p"
    "tp_pending p1 = tp_pending p"
    "r1 = Inl ErrReplaceUnderpriced \<and> tp_all p1 = tp_all p \<or> r1 = Inr False \<and> tp_all p1 = gput (tp_all p) (tx_Txid tx) tx"
    by (rule enqueue_new [OF D(1) known free])
  have len: "lk_Count (tp_all p1) \<le> capacity p1"
    using e(3,6) cnt length_gput_new [OF known, of tx] by (auto simp: lk_Count_def capacity_def)
  then have good: "pool_good p1" using e(2,3) D(3) by (simp add: pool_good_iff)
  let ?p2 = "if loc \<and> \<not> as_contains (tp_locals p1) (tx_From tx) then p1\<lparr>tp_locals := as_add (tp_locals p1) (tx_From tx)\<rparr> else p1"
  have "pool_good ?p2" using good by (simp add: pool_good_iff full_inv_def capacity_def)
  moreover have "pool_add env tx loc p = Some (r1, if r1 = Inr False then ?p2 else p1)"
    using False e(1,6) by (auto simp: pool_add_def Let_def journalTx_def)
  ultimately show ?thesis using assms(2) good e(3,6) by auto
qed

section \<open>The other methods\<close>

text \<open>What a call that files nothing new establishes.\<close>

lemma promote_good:
  assumes "pool_good p" "env_ok env"
  obtains p' where "promoteExecutables env accounts p = Some p'" "pool_good p'" "tp_config p' = tp_config p" "within_limits p'" "shrinks p p'"
proof -
  obtain p' where p': "promoteExecutables env accounts p = Some p'" "full_inv p'" "shrinks p p'" "within_limits p'"
    by (rule promoteExecutables_ok [OF pool_goodD(1,2) [OF assms(1)] assms(2)])
  then show ?thesis using that [of p'] pool_good_shrinks [OF assms(1)] by (simp add: shrinks_def)
qed

lemma addTx_ok:
  assumes "pool_good p" "env_ok env"
  shows "addTx env tx loc p = None \<longleftrightarrow> unreadable p tx"
    "addTx env tx loc p = Some (e, p') \<Longrightarrow> pool_good p' \<and> tp_config p' = tp_config p \<and> (e = None \<longrightarrow> within_limits p')"
proof -
  have promoted: "\<exists>p2. promoteExecutables env (Some [tx_From tx]) p1 = Some p2 \<and> pool_good p2 \<and> tp_config p2 = tp_config p \<and> within_limits p2"
    if "pool_add env tx loc p = Some (r, p1)" for r p1
  proof -
    have a: "pool_good p1" "tp_config p1 = tp_config p" using pool_add_ok [OF assms(1) that] by simp_all
    obtain p2 where "promoteExecutables env (Some [tx_From tx]) p1 = Some p2" "pool_good p2" "tp_config p2 = tp_config p1" "within_limits p2"
      using promote_good [OF a(1) assms(2)] by blast
    with a(2) show ?thesis by simp
  qed
  have "addTx env tx loc p = None \<longleftrightarrow> pool_add env tx loc p = None"
  proof (cases "pool_add env tx loc p")
    case (Some rp)
    then obtain r p1 where a: "pool_add env tx loc p = Some (r, p1)" by (cases rp) simp
    then show ?thesis using promoted [OF a] by (cases r) (auto simp: addTx_def)
  qed (simp add: addTx_def)
  then show "addTx env tx loc p = None \<longleftrightarrow> unreadable p tx" by (simp add: pool_add_None)
  show "pool_good p' \<and> tp_config p' = tp_config p \<and> (e = None \<longrightarrow> within_limits p')" if some: "addTx env tx loc p = Some (e, p')"
  proof -
    obtain r p1 where a: "pool_add env tx loc p = Some (r, p1)" using some by (auto simp: addTx_def bind_eq_Some_conv)
    obtain p2 where p2: "promoteExecutables env (Some [tx_From tx]) p1 = Some p2" "pool_good p2" "tp_config p2 = tp_config p" "within_limits p2" using promoted [OF a] by blast
    show ?thesis using some pool_add_ok [OF assms(1) a] p2 by (cases r) (auto simp: addTx_def a)
  qed
qed

lemma add_all_ok:
  assumes "pool_good p"
  shows "(add_all env txs loc p = None \<longrightarrow> (\<exists>tx \<in> set txs. signature_missing pool_signer tx)) \<and>
    (\<forall>errs dirty p'. add_all env txs loc p = Some (errs, dirty, p') \<longrightarrow> pool_good p' \<and> tp_config p' = tp_config p)"
  using assms
proof (induction txs arbitrary: p)
  case (Cons tx txs)
  show ?case
  proof (cases "pool_add env tx loc p")
    case None
    then show ?thesis using pool_add_None [of env tx loc p] by (simp add: unreadable_def)
  next
    case (Some rp)
    obtain r p1 where a: "pool_add env tx loc p = Some (r, p1)" using Some by (cases rp) simp
    then have p1: "pool_good p1" "tp_config p1 = tp_config p" using pool_add_ok [OF Cons.prems] by blast+
    show ?thesis
    proof (cases "add_all env txs loc p1")
      case None
      then show ?thesis using Cons.IH [OF p1(1)] a by simp
    next
      case (Some q)
      then obtain errs dirty p2 where rest: "add_all env txs loc p1 = Some (errs, dirty, p2)" by (cases q) simp
      have "pool_good p2 \<and> tp_config p2 = tp_config p" using Cons.IH [OF p1(1)] rest p1(2) by simp
      moreover have "\<exists>errs dirty. add_all env (tx # txs) loc p = Some (errs, dirty, p2)" using a rest by (cases r) simp_all
      ultimately show ?thesis by auto
    qed
  qed
qed simp

lemma addTxsLocked_ok:
  assumes "pool_good p" "env_ok env"
  shows "(addTxsLocked env txs loc p = None \<longrightarrow> (\<exists>tx \<in> set txs. signature_missing pool_signer tx)) \<and>
    (\<forall>errs p'. addTxsLocked env txs loc p = Some (errs, p') \<longrightarrow> pool_good p' \<and> tp_config p' = tp_config p)"
proof (cases "add_all env txs loc p")
  case None
  then show ?thesis using add_all_ok [OF assms(1)] by (simp add: addTxsLocked_def)
next
  case (Some r)
  obtain errs dirty p1 where a: "add_all env txs loc p = Some (errs, dirty, p1)" using Some by (cases r) simp
  then have p1: "pool_good p1" "tp_config p1 = tp_config p" using add_all_ok [OF assms(1)] by blast+
  obtain p2 where "promoteExecutables env (Some (pe_rngA env dirty)) p1 = Some p2" "pool_good p2" "tp_config p2 = tp_config p1"
    using promote_good [OF p1(1) assms(2)] by blast
  with a p1 show ?thesis by (simp add: addTxsLocked_def)
qed

lemma demoteUnexecutables_ok:
  assumes "pool_good p" "env_ok env"
  obtains p' where "demoteUnexecutables env p = Some p'" "pool_good p'" "tp_config p' = tp_config p"
proof -
  have "\<exists>p'. demoteUnexecutables env p = Some p' \<and> full_inv p' \<and> shrinks p p'"
    unfolding demoteUnexecutables_def
  proof (rule for_each_shrinks [OF _ pool_goodD(1,2) [OF assms(1)]])
    fix a q assume "full_inv q"
    then have q: "pool_inv {} q" "lists_full (tp_pending q)" "lists_full (tp_queue q)" by (auto simp: full_inv_def)
    obtain p' where "demote_account env a q = Some p'" "pool_inv {} p'" "lists_full (tp_pending p')" "lists_full (tp_queue p')" "shrinks q p'"
      by (rule demote_account_ok [OF q])
    then show "\<exists>p'. demote_account env a q = Some p' \<and> full_inv p' \<and> shrinks q p'" by (simp add: full_inv_def)
  qed
  then obtain p' where p': "demoteUnexecutables env p = Some p'" "full_inv p'" "shrinks p p'" by blast
  then show ?thesis using that [of p'] pool_good_shrinks [OF assms(1)] by (simp add: shrinks_def)
qed

lemma pool_good_pending_recache:
  assumes "pool_good p" "go_range rng" "gget (tp_pending p) a = Some l"
  shows "pool_good (p\<lparr>tp_pending := gput (tp_pending p) a (snd (tl_Flatten rng l)), tp_pendingState := s\<rparr>)"
proof -
  note D = pool_goodD [OF assms(1)]
  let ?p = "p\<lparr>tp_pending := gput (tp_pending p) a (snd (tl_Flatten rng l)), tp_pendingState := s\<rparr>"
  have "tl_ok l" "tl_list l \<noteq> []" using pool_inv_listD(1) [OF D(5) assms(3)] D(6) assms(3) by (auto simp: lists_full_def)
  then have "tl_list (snd (tl_Flatten rng l)) \<noteq> []" using tl_Flatten_spec(4) [OF _ assms(2)] by simp
  then have "full_inv ?p" using pool_recache(2) [OF D(5) assms(2,3)] D(6,7) by (simp add: full_inv_def)
  then show ?thesis by (rule pool_good_shrinks [OF assms(1)]) simp
qed

lemma refresh_nonce_ok:
  assumes "pool_good p" "env_ok env" "gget (tp_pending p) a \<noteq> None"
  obtains p' where "refresh_nonce env a p = Some p'" "pool_good p'" "tp_config p' = tp_config p"
    "dom (gget (tp_pending p')) = dom (gget (tp_pending p))"
proof -
  obtain l where l: "gget (tp_pending p) a = Some l" using assms(3) by auto
  note D = pool_goodD [OF assms(1)]
  have rng: "go_range (pe_rngN env)" using assms(2) by (simp add: env_ok_def)
  have ok: "tl_ok l" "tl_list l \<noteq> []" using pool_inv_listD(1) [OF D(5) l] D(6) l by (auto simp: lists_full_def)
  obtain l' where fl: "tl_Flatten (pe_rngN env) l = (tl_list l, l')"
    using tl_Flatten_spec(1) [OF ok(1) rng] by (metis prod.collapse)
  let ?p' = "p\<lparr>tp_pending := gput (tp_pending p) a l',
      tp_pendingState := PendingCache_SetNonce (tp_pendingState p) a (tx_NonceValue (last (tl_list l)) + 1)\<rparr>"
  have "refresh_nonce env a p = Some ?p'" using l ok(2) fl by (simp add: refresh_nonce_def)
  moreover have "dom (gget (tp_pending ?p')) = dom (gget (tp_pending p))" using l by auto
  ultimately show ?thesis using that [of ?p'] pool_good_pending_recache [OF assms(1) rng l] fl by simp
qed

lemma refresh_all_ok:
  assumes "pool_good p" "env_ok env"
  obtains p' where "for_each (refresh_nonce env) (gkeys (pe_rngA env) (tp_pending p)) p = Some p'" "pool_good p'" "tp_config p' = tp_config p"
proof -
  let ?I = "\<lambda>as q. pool_good q \<and> tp_config q = tp_config p \<and> set as \<subseteq> dom (gget (tp_pending q))"
  have "\<exists>p'. for_each (refresh_nonce env) (gkeys (pe_rngA env) (tp_pending p)) p = Some p' \<and> ?I [] p'"
  proof (rule for_each_inv [where I = ?I])
    show "?I (gkeys (pe_rngA env) (tp_pending p)) p" using assms by (simp add: set_gkeys env_ok_def)
    fix a as q assume I: "?I (a # as) q"
    then have "gget (tp_pending q) a \<noteq> None" by (auto simp: dom_def)
    then obtain q' where "refresh_nonce env a q = Some q'" "pool_good q'" "tp_config q' = tp_config q"
      "dom (gget (tp_pending q')) = dom (gget (tp_pending q))"
      using refresh_nonce_ok [OF _ assms(2)] I by blast
    with I show "\<exists>q'. refresh_nonce env a q = Some q' \<and> ?I as q'" by simp
  qed
  then show ?thesis using that by blast
qed

lemma pool_reset_ok:
  assumes "pool_good p" "env_ok env"
  shows "(pool_reset env txs p = None \<longrightarrow> (\<exists>tx \<in> set txs. signature_missing pool_signer tx)) \<and>
    (\<forall>p'. pool_reset env txs p = Some p' \<longrightarrow> pool_good p' \<and> tp_config p' = tp_config p \<and> within_limits p')"
proof (cases "addTxsLocked env txs False p")
  case None
  then show ?thesis using addTxsLocked_ok [OF assms] by (simp add: pool_reset_def)
next
  case (Some r)
  obtain errs p1 where a: "addTxsLocked env txs False p = Some (errs, p1)" using Some by (cases r) simp
  then have p1: "pool_good p1" "tp_config p1 = tp_config p" using addTxsLocked_ok [OF assms] by blast+
  obtain p2 where p2: "demoteUnexecutables env p1 = Some p2" "pool_good p2" "tp_config p2 = tp_config p1"
    by (rule demoteUnexecutables_ok [OF p1(1) assms(2)])
  obtain p3 where p3: "for_each (refresh_nonce env) (gkeys (pe_rngA env) (tp_pending p2)) p2 = Some p3" "pool_good p3" "tp_config p3 = tp_config p2"
    by (rule refresh_all_ok [OF p2(2) assms(2)])
  obtain p4 where "promoteExecutables env None p3 = Some p4" "pool_good p4" "tp_config p4 = tp_config p3" "within_limits p4" "shrinks p3 p4"
    by (rule promote_good [OF p3(2) assms(2)])
  with a p1 p2 p3 show ?thesis by (simp add: pool_reset_def)
qed

lemma evict_account_ok:
  assumes "pool_good p" "env_ok env"
  shows "pool_good (evict_account env a p) \<and> tp_config (evict_account env a p) = tp_config p"
proof (cases "gget (tp_queue p) a")
  case None
  then show ?thesis using assms by (simp add: evict_account_def)
next
  case (Some l)
  note D = pool_goodD [OF assms(1)]
  have rng: "go_range (pe_rngN env)" using assms(2) by (simp add: env_ok_def)
  obtain txs l' where fl: "tl_Flatten (pe_rngN env) l = (txs, l')" by fastforce
  have ok: "tl_ok l" using pool_inv_listD(2) [OF D(5) Some] by simp
  have txs: "distinct txs" using tl_Flatten_spec(1) [OF ok rng] fl tl_ok_nonces [OF ok] by (auto simp: distinct_map)
  obtain p' where p': "fold (\<lambda>tx. removeTx env (tx_Txid tx)) txs (p\<lparr>tp_queue := gput (tp_queue p) a l'\<rparr>) = p'"
    "pool_inv {} p'" "lists_full (tp_pending p')" "lists_full (tp_queue p')" "shrinks p p'"
    by (rule queue_drop_step [OF D(5) rng D(6,7) Some fl txs]) auto
  then have "pool_good p'" "tp_config p' = tp_config p"
    using pool_good_shrinks [OF assms(1), of p'] by (auto simp: full_inv_def shrinks_def)
  then show ?thesis using assms(1) Some fl p'(1) by (simp add: evict_account_def)
qed

lemma pool_evict_ok:
  assumes "pool_good p" "env_ok env"
  shows "pool_good (pool_evict env p) \<and> tp_config (pool_evict env p) = tp_config p"
  unfolding pool_evict_def
  by (rule fold_inv [where I = "\<lambda>_ q. pool_good q \<and> tp_config q = tp_config p"]) (use assms evict_account_ok in auto)

section \<open>Reading the pool\<close>

lemma gget_map_val: "gget (map (\<lambda>(a, l). (a, f l)) m) a = map_option f (gget m a)"
  by (simp add: gget_def map_of_map)

lemma cache_lists_spec:
  assumes "lists_wf b m" "go_range (pe_rngN env)"
  shows "lists_wf b (cache_lists env m)" "lview (cache_lists env m) = lview m"
    "lists_full m \<Longrightarrow> lists_full (cache_lists env m)"
    "gget (flatten_lists env m) a = map_option tl_list (gget m a)"
proof -
  have g: "gget (cache_lists env m) a = map_option (\<lambda>l. snd (tl_Flatten (pe_rngN env) l)) (gget m a)" for a
    unfolding cache_lists_def by (rule gget_map_val)
  have k: "gomap_ok (cache_lists env m) = gomap_ok m"
    by (simp add: gomap_ok_def cache_lists_def comp_def case_prod_unfold)
  have ok: "tl_ok l" "tl_strict l = b" if "gget m a = Some l" for a l using assms(1) that by (auto simp: lists_wf_def)
  show "lists_wf b (cache_lists env m)"
    using assms(1) ok tl_Flatten_spec(2,3) [OF _ assms(2)] by (auto simp: lists_wf_def g k)
  show "lview (cache_lists env m) = lview m"
  proof
    show "lview (cache_lists env m) a = lview m a" for a
      using ok tl_Flatten_spec(4) [OF _ assms(2)] by (cases "gget m a") (simp_all add: lview_def g)
  qed
  show "lists_full m \<Longrightarrow> lists_full (cache_lists env m)"
    using ok tl_Flatten_spec(4) [OF _ assms(2)] by (auto simp: lists_full_def g)
  show "gget (flatten_lists env m) a = map_option tl_list (gget m a)"
    unfolding flatten_lists_def gget_map_val using ok tl_Flatten_spec(1) [OF _ assms(2)] by (cases "gget m a") simp_all
qed

lemma pool_Pending_ok:
  assumes "pool_good p" "env_ok env"
  shows "pool_good (snd (pool_Pending env p))" "pool_good (snd (pool_Content env p))"
    "tp_config (snd (pool_Pending env p)) = tp_config p" "tp_config (snd (pool_Content env p)) = tp_config p"
proof -
  note D = pool_goodD [OF assms(1)]
  have rng: "go_range (pe_rngN env)" using assms(2) by (simp add: env_ok_def)
  have wf: "lists_wf True (tp_pending p)" "lists_wf False (tp_queue p)" using D(5) by (auto simp: pool_inv_def)
  note c = cache_lists_spec [OF wf(1) rng] cache_lists_spec [OF wf(2) rng]
  have i: "full_inv (snd (pool_Pending env p))" "full_inv (snd (pool_Content env p))"
    using D(5-7) c by (simp_all add: pool_Pending_def pool_Content_def full_inv_def pool_inv_def)
  show "pool_good (snd (pool_Pending env p))" by (rule pool_good_shrinks [OF assms(1) i(1)]) (simp add: pool_Pending_def)
  show "pool_good (snd (pool_Content env p))" by (rule pool_good_shrinks [OF assms(1) i(2)]) (simp add: pool_Content_def)
qed (simp_all add: pool_Pending_def pool_Content_def)

lemma pool_good_queue_recache:
  assumes "pool_good p" "go_range rng" "gget (tp_queue p) a = Some l"
  shows "pool_good (p\<lparr>tp_queue := gput (tp_queue p) a (snd (tl_Flatten rng l))\<rparr>)"
proof -
  note D = pool_goodD [OF assms(1)]
  have "tl_ok l" "tl_list l \<noteq> []" using pool_inv_listD(2) [OF D(5) assms(3)] D(7) assms(3) by (auto simp: lists_full_def)
  then have "tl_list (snd (tl_Flatten rng l)) \<noteq> []" using tl_Flatten_spec(4) [OF _ assms(2)] by simp
  then have "full_inv (p\<lparr>tp_queue := gput (tp_queue p) a (snd (tl_Flatten rng l))\<rparr>)"
    using pool_recache(1) [OF D(5) assms(2,3)] D(6,7) by (simp add: full_inv_def)
  then show ?thesis by (rule pool_good_shrinks [OF assms(1)]) simp
qed

lemma pool_local_ok:
  assumes "pool_good p" "env_ok env"
  shows "pool_good (snd (pool_local env p)) \<and> tp_config (snd (pool_local env p)) = tp_config p"
proof -
  let ?I = "\<lambda>(_ :: address list) tq. pool_good (snd tq) \<and> tp_config (snd tq) = tp_config p"
  have rng: "go_range (pe_rngN env)" using assms(2) by (simp add: env_ok_def)
  show ?thesis
    unfolding pool_local_def
  proof (rule fold_inv [where I = ?I])
    fix a as and tq :: "(address, transaction list) gomap \<times> TxPool"
    assume I: "?I (a # as) tq"
    define q where "q = snd tq"
    define q1 where "q1 = (case gget (tp_pending q) a of None \<Rightarrow> q
       | Some l \<Rightarrow> q\<lparr>tp_pending := gput (tp_pending q) a (snd (tl_Flatten (pe_rngN env) l))\<rparr>)"
    have q1: "pool_good q1" "tp_config q1 = tp_config p"
      using I pool_good_pending_recache [OF _ rng, of q a _ "tp_pendingState q"] by (auto simp: q1_def q_def split: option.splits)
    define q2 where "q2 = (case gget (tp_queue q1) a of None \<Rightarrow> q1
       | Some l \<Rightarrow> q1\<lparr>tp_queue := gput (tp_queue q1) a (snd (tl_Flatten (pe_rngN env) l))\<rparr>)"
    have "pool_good q2" "tp_config q2 = tp_config p"
      using q1 pool_good_queue_recache [OF _ rng] by (auto simp: q2_def split: option.splits)
    then show "?I as (case tq of (txs, q) \<Rightarrow>
       let (t1, p1) = (case gget (tp_pending q) a of None \<Rightarrow> (None, q)
             | Some l \<Rightarrow> (let (ts, l') = tl_Flatten (pe_rngN env) l in (Some ts, q\<lparr>tp_pending := gput (tp_pending q) a l'\<rparr>)));
           (t2, p2) = (case gget (tp_queue p1) a of None \<Rightarrow> (None, p1)
             | Some l \<Rightarrow> (let (ts, l') = tl_Flatten (pe_rngN env) l in (Some ts, p1\<lparr>tp_queue := gput (tp_queue p1) a l'\<rparr>)))
       in (if t1 = None \<and> t2 = None then txs
           else gput txs a ((case t1 of None \<Rightarrow> [] | Some ts \<Rightarrow> ts) @ (case t2 of None \<Rightarrow> [] | Some ts \<Rightarrow> ts)), p2))"
      unfolding q2_def q1_def q_def by (simp add: case_prod_unfold Let_def split: option.splits)
  qed (use assms(1) in simp)
qed

section \<open>Runs of the pool\<close>

text \<open>The calls the rest of the node makes, one at a time under the pool's lock.\<close>

datatype pool_event = EvRecvTx "bytes option" u64 | EvHandler bytes bool | EvAddLocals "transaction list"
  | EvAddRemotes "transaction list" | EvDelTxs "transaction list option" | EvEvict | EvContent | EvPending
  | EvGetTxs int | EvLocals | EvJournal

fun pool_step :: "pool_env \<Rightarrow> pool_event \<Rightarrow> TxPool \<Rightarrow> TxPool option" where
  "pool_step env (EvRecvTx msg sender) p = map_option (\<lambda>(e, p', out). p') (RecvTx env msg sender p)"
| "pool_step env (EvHandler msg loc) p = map_option (\<lambda>(b, p', out). p') (handlerTx_step env msg loc p)"
| "pool_step env (EvAddLocals txs) p = map_option snd (AddLocals env txs p)"
| "pool_step env (EvAddRemotes txs) p = map_option snd (AddRemotes env txs p)"
| "pool_step env (EvDelTxs txs) p = DelTxs env txs p"
| "pool_step env EvEvict p = Some (pool_evict env p)"
| "pool_step env EvContent p = Some (snd (pool_Content env p))"
| "pool_step env EvPending p = Some (snd (pool_Pending env p))"
| "pool_step env (EvGetTxs n) p = Some (snd (GetTxsFromTXPool env n p))"
| "pool_step env EvLocals p = Some (snd (pool_Locals env p))"
| "pool_step env EvJournal p = Some (snd (pool_local env p))"

text \<open>The transactions that a call brings.\<close>

fun event_txs :: "pool_env \<Rightarrow> pool_event \<Rightarrow> transaction list" where
  "event_txs env (EvRecvTx (Some m) sender) = (case pe_Unmarshal env m of Inl e \<Rightarrow> [] | Inr tx \<Rightarrow> [tx])"
| "event_txs env (EvHandler msg loc) = (case pe_Unmarshal env msg of Inl e \<Rightarrow> [] | Inr tx \<Rightarrow> [tx])"
| "event_txs env (EvAddLocals txs) = txs"
| "event_txs env (EvAddRemotes txs) = txs"
| "event_txs env (EvDelTxs (Some txs)) = txs"
| "event_txs env ev = []"

text \<open>The environment of each call is its own: the ledger advances and the clock runs between calls.\<close>

inductive pool_reach :: "TxPoolConfig \<Rightarrow> TxPool \<Rightarrow> bool" where
  reach_new: "env_ok env \<Longrightarrow> NewTxPool env config = Some p \<Longrightarrow> pool_reach config p"
| reach_step: "pool_reach config p \<Longrightarrow> env_ok env \<Longrightarrow> pool_step env ev p = Some p' \<Longrightarrow> pool_reach config p'"

lemma addLocalRemote_ok:
  assumes "pool_good p" "env_ok env"
  shows "AddLocal env tx p = None \<longleftrightarrow> unreadable p tx" "AddRemote env tx p = None \<longleftrightarrow> unreadable p tx"
    "AddLocal env tx p = Some (e, p') \<Longrightarrow> pool_good p' \<and> tp_config p' = tp_config p \<and> (e = None \<longrightarrow> within_limits p')"
    "AddRemote env tx p = Some (e, p') \<Longrightarrow> pool_good p' \<and> tp_config p' = tp_config p \<and> (e = None \<longrightarrow> within_limits p')"
  unfolding AddLocal_def AddRemote_def using addTx_ok [OF assms] by blast+

lemma RecvTx_None:
  assumes "pool_good p" "env_ok env"
  shows "RecvTx env (Some m) sid p = None \<longleftrightarrow> (\<exists>tx. pe_Unmarshal env m = Inr tx \<and> unreadable p tx)"
  using addLocalRemote_ok(1,2) [OF assms] by (auto simp: RecvTx_def split: sum.split)

lemma pool_step_ok:
  assumes "pool_good p" "env_ok env"
  shows "(pool_step env ev p = None \<longrightarrow> (\<exists>tx \<in> set (event_txs env ev). signature_missing pool_signer tx)) \<and>
    (\<forall>p'. pool_step env ev p = Some p' \<longrightarrow> pool_good p' \<and> tp_config p' = tp_config p)"
proof (cases ev)
  case (EvRecvTx msg sender)
  then show ?thesis using assms addLocalRemote_ok [OF assms]
    by (cases msg) (auto simp: RecvTx_def unreadable_def split: sum.splits if_splits)
next
  case (EvHandler msg loc)
  then show ?thesis using assms addLocalRemote_ok [OF assms]
    by (auto simp: handlerTx_step_def unreadable_def split: sum.splits if_splits)
next
  case (EvAddLocals txs)
  then show ?thesis using addTxsLocked_ok [OF assms] by (auto simp: AddLocals_def)
next
  case (EvAddRemotes txs)
  then show ?thesis using addTxsLocked_ok [OF assms] by (auto simp: AddRemotes_def)
next
  case (EvDelTxs txs)
  then show ?thesis using assms(1) pool_reset_ok [OF assms] by (cases txs) (auto simp: DelTxs_def)
next
  case EvLocals
  have "pool_good (snd (pool_Locals env p))"
    using assms(1) by (simp add: pool_good_iff pool_Locals_def case_prod_unfold Let_def full_inv_def capacity_def)
  then show ?thesis by (simp add: EvLocals pool_Locals_def case_prod_unfold Let_def)
qed (use assms pool_evict_ok pool_Pending_ok pool_local_ok in \<open>simp_all add: GetTxsFromTXPool_def case_prod_unfold Let_def\<close>)

lemma empty_pool_good:
  assumes "config_ok c" "tp_pending p = []" "tp_queue p = []" "tp_all p = []" "tp_config p = sanitize c"
  shows "pool_good p"
proof -
  have "ran (gget ([] :: (hash, transaction) gomap)) = {}" by (auto simp: ran_def)
  then show ?thesis using assms by (auto simp: pool_good_iff full_inv_def pool_inv_def lists_wf_def lists_full_def lview_def book_ok_def filed_def
      lk_Count_def sanitize_def config_ok_def)
qed

lemma NewTxPool_ok:
  assumes "config_ok c" "env_ok env"
  obtains p where "NewTxPool env c = Some p" "pool_good p" "tp_config p = sanitize c"
proof -
  define p0 where "p0 = \<lparr> tp_config = sanitize c, tp_pendingState = [],
      tp_locals = fold (\<lambda>addr s. as_add s addr) (cfg_Locals (sanitize c)) newAccountSet,
      tp_journal = None, tp_pending = [], tp_queue = [], tp_beats = [], tp_all = [], tp_notify = 0 \<rparr>"
  have "pool_good p0" by (rule empty_pool_good [OF assms(1)]) (simp_all add: p0_def)
  then have reset: "pool_reset env [] p0 \<noteq> None" "\<And>p1. pool_reset env [] p0 = Some p1 \<Longrightarrow> pool_good p1 \<and> tp_config p1 = tp_config p0"
    using pool_reset_ok [OF _ assms(2), of p0 "[]"] by simp_all
  then obtain p1 where p1: "pool_reset env [] p0 = Some p1" "pool_good p1" "tp_config p1 = tp_config p0" by blast
  have j: "pool_good (p1\<lparr>tp_journal := j\<rparr>)" for j using p1(2) by (simp add: pool_good_iff full_inv_def capacity_def)
  let ?p = "if \<not> cfg_NoLocals (sanitize c) \<and> cfg_Journal (sanitize c) \<noteq> []
      then snd (pool_local env (p1\<lparr>tp_journal := Some (cfg_Journal (sanitize c))\<rparr>)) else p1"
  have "NewTxPool env c = Some ?p" using p1(1) by (simp add: NewTxPool_def p0_def Let_def)
  then show ?thesis using that [of ?p] p1(2,3) pool_local_ok [OF j assms(2)] by (simp add: p0_def)
qed

lemma pool_reach_good: "pool_reach c p \<Longrightarrow> config_ok c \<Longrightarrow> pool_good p \<and> tp_config p = sanitize c"
proof (induction rule: pool_reach.induct)
  case (reach_new env config p)
  then show ?case by (metis NewTxPool_ok option.inject)
next
  case (reach_step config p env ev p')
  then show ?case using pool_step_ok [of p env ev] by auto
qed

lemma collect_txs_take:
  "collect_txs limit xs dst n = dst @ (if n < limit then take (nat (limit - n)) xs else xs)"
proof (induction xs arbitrary: dst n)
  case (Cons x xs)
  show ?case
  proof (cases "n + 1 = limit")
    case False
    then have "nat (limit - n) = Suc (nat (limit - (n + 1)))" if "n < limit" using that by linarith
    with False Cons.IH show ?thesis by auto
  qed auto
qed simp

lemma filter_owner_concat:
  assumes "distinct as" "\<And>a tx. a \<in> set as \<Longrightarrow> tx \<in> set (f a) \<Longrightarrow> tx_From tx = a"
  shows "filter (\<lambda>tx. tx_From tx = a) (concat (map f as)) = (if a \<in> set as then f a else [])"
  using assms
proof (induction as)
  case (Cons b as)
  have "filter (\<lambda>tx. tx_From tx = a) (f b) = (if b = a then f b else [])"
    using Cons.prems(2) [of b] by (auto simp: filter_id_conv filter_empty_conv)
  with Cons show ?case by auto
qed simp

text \<open>An environment for the examples: every recovered key belongs to the zero address, every ledger nonce is zero.\<close>

definition sample_sign :: sign_env where
  "sample_sign = \<lparr> se_marshal = \<lambda>c f d n. [], se_Keccak256 = \<lambda>b. replicate 32 0, se_recover = \<lambda>s m. Some [4], se_SignWithHash = \<lambda>h. Inl ''no key'' \<rparr>"

definition signed_tx :: "u64 \<Rightarrow> transaction" where
  "signed_tx n = (sample_tx n)\<lparr>tx_V := Some 27, tx_R := Some 1, tx_S := Some 1\<rparr>"

definition sample_env :: pool_env where
  "sample_env = \<lparr> pe_GetNonce = \<lambda>a. (0, None), pe_sign = sample_sign, pe_CheckTx = \<lambda>t. None,
    pe_RunMode = ''dev'', pe_Now = \<lambda>t. 1, pe_Tick = 2, pe_Unmarshal = \<lambda>b. Inl ''bad'', pe_rngN = rev, pe_rngA = rev \<rparr>"

lemma sample_ok: "config_ok DefaultTxPoolConfig" "env_ok sample_env"
  by (simp_all add: config_ok_def DefaultTxPoolConfig_def env_ok_def sample_env_def)

definition sample_start :: "TxPool option" where
  "sample_start = NewTxPool sample_env DefaultTxPoolConfig"

definition sample_pool :: "TxPool option" where
  "sample_pool = do { p \<leftarrow> sample_start; pool_step sample_env (EvAddRemotes [signed_tx 0]) p }"

lemma sample_start_reach:
  obtains p where "sample_start = Some p" "pool_reach DefaultTxPoolConfig p"
proof -
  obtain p where p: "NewTxPool sample_env DefaultTxPoolConfig = Some p" by (rule NewTxPool_ok [OF sample_ok])
  then have "pool_reach DefaultTxPoolConfig p" by (rule reach_new [OF sample_ok(2)])
  with p show ?thesis using that by (simp add: sample_start_def)
qed

lemma signed_ok: "\<not> signature_missing pool_signer (signed_tx n)" "signature_missing pool_signer (sample_tx n)"
  by (simp_all add: signature_missing_def signed_tx_def sample_tx_def NewTransaction_def)

lemma sample_pool_reach:
  obtains p where "sample_pool = Some p" "pool_reach DefaultTxPoolConfig p"
proof -
  obtain p where p: "sample_start = Some p" "pool_reach DefaultTxPoolConfig p" by (rule sample_start_reach)
  obtain p' where p': "pool_step sample_env (EvAddRemotes [signed_tx 0]) p = Some p'"
    using pool_step_ok [THEN conjunct1, of p sample_env "EvAddRemotes [signed_tx 0]"] pool_reach_good [OF p(2) sample_ok(1)] sample_ok(2) signed_ok(1) by (simp del: pool_step.simps) blast
  have "pool_reach DefaultTxPoolConfig p'" by (rule reach_step [OF p(2) sample_ok(2) p'])
  moreover have "sample_pool = Some p'" using p' unfolding sample_pool_def p(1) by simp
  ultimately show ?thesis using that by blast
qed

lemma sample_accepted: "map_option fst (Option.bind sample_start (AddRemote sample_env (signed_tx 0))) = Some None"
  by code_simp

lemma sample_status: "map_option (\<lambda>p. pool_Status p [tx_Txid (signed_tx 0)]) sample_pool = Some [TxStatusPending]"
  by code_simp

lemma sample_batch: "map_option (\<lambda>p. fst (GetTxsFromTXPool sample_env 5 p)) sample_pool = Some [signed_tx 0]"
  by code_simp

section \<open>Properties\<close>

text \<open>Claim C8.  In every state a pool can reach, by any sequence of calls over any ledger, clock and map iteration order,
  the books agree: the lookup holds exactly the transactions filed in the pending and queued lists, each under its
  own hash and its sender's account, no account has two transactions with one nonce, the lists are well formed and not empty, and the
  pool holds at most GlobalSlots + GlobalQueue transactions.\<close>

theorem pool_books_agree:
  assumes "config_ok c" "pool_reach c p"
  shows "pool_ok p"
  using pool_reach_good [OF assms(2,1)] by (simp add: pool_good_def)

theorem pool_books_agree_witness:
  "\<exists>p. sample_pool = Some p \<and> pool_reach DefaultTxPoolConfig p \<and> pool_ok p"
proof -
  obtain p where "sample_pool = Some p" "pool_reach DefaultTxPoolConfig p" by (rule sample_pool_reach)
  with pool_books_agree [OF sample_ok(1) this(2)] show ?thesis by blast
qed

text \<open>Claim C9.  A call on a reachable pool panics or fails to return only because of a transaction whose signature is missing: not because of the indexing into sorted lists and heaps, nor of
  nil map entries, nor in the loops that equalize the pending lists of the largest senders.  A message with a transaction panics exactly if the pool does not know the hash of the transaction and the
  signature is missing: the number \<open>V\<close> is not there, or it is one that a public key would be recovered for and \<open>R\<close>, or next to a positive \<open>R\<close> the number \<open>S\<close>, is not there.  The ledger's nonces, the
  application's check and the decoder, which the pool calls, are taken to return.\<close>

theorem pool_panics_on_missing_signature:
  assumes "config_ok c" "pool_reach c p" "env_ok env"
  shows "(pool_step env ev p = None \<longrightarrow> (\<exists>tx \<in> set (event_txs env ev). signature_missing pool_signer tx)) \<and>
    (pool_step env (EvRecvTx (Some m) sid) p = None \<longleftrightarrow>
      (\<exists>tx. pe_Unmarshal env m = Inr tx \<and> lk_Get (tp_all p) (tx_Txid tx) = None \<and> signature_missing pool_signer tx))"
  using pool_step_ok [of p env ev] RecvTx_None [of p env m sid] pool_reach_good [OF assms(2,1)] assms(3) by (simp add: unreadable_def)

theorem pool_panics_on_missing_signature_witness:
  "\<exists>p p'. sample_pool = Some p \<and> pool_reach DefaultTxPoolConfig p \<and> pool_step sample_env EvEvict p = Some p' \<and>
     (\<exists>q. sample_start = Some q \<and> pool_step (sample_env\<lparr>pe_Unmarshal := \<lambda>b. Inr (sample_tx 0)\<rparr>) (EvRecvTx (Some []) 7) q = None)"
proof -
  obtain p where p: "sample_pool = Some p" "pool_reach DefaultTxPoolConfig p" by (rule sample_pool_reach)
  obtain q where q: "sample_start = Some q" "pool_reach DefaultTxPoolConfig q" by (rule sample_start_reach)
  let ?env = "sample_env\<lparr>pe_Unmarshal := \<lambda>b. Inr (sample_tx 0)\<rparr>"
  have env: "env_ok ?env" using sample_ok(2) by (simp add: env_ok_def)
  have "map_option (\<lambda>p. lk_Get (tp_all p) (tx_Txid (sample_tx 0))) sample_start = Some None" by code_simp
  then have "lk_Get (tp_all q) (tx_Txid (sample_tx 0)) = None" unfolding q(1) by simp
  then have "pool_step ?env (EvRecvTx (Some []) 7) q = None"
    using pool_panics_on_missing_signature [OF sample_ok(1) q(2) env, of EvEvict "[]" 7] signed_ok(2) by simp
  with p q(1) pool_panics_on_missing_signature [OF sample_ok(1) p(2) sample_ok(2), of EvEvict "[]" 7] show ?thesis by auto
qed

text \<open>Claim C10.  When a transaction is accepted, and when the transactions of a block have been reset, the limits hold: the pending
  transactions fit into GlobalSlots or no account other than a local one has more than AccountSlots of them, and the queued ones fit into
  GlobalQueue or belong to local accounts only.\<close>

theorem accepted_within_limits:
  assumes "config_ok c" "pool_reach c p" "env_ok env"
  shows "(\<forall>p'. AddRemote env tx p = Some (None, p') \<longrightarrow> within_limits p') \<and>
    (\<forall>p'. AddLocal env tx p = Some (None, p') \<longrightarrow> within_limits p') \<and>
    (\<forall>p'. DelTxs env (Some txs) p = Some p' \<longrightarrow> within_limits p')"
proof -
  have g: "pool_good p" using pool_reach_good [OF assms(2,1)] by simp
  show ?thesis using addLocalRemote_ok(3,4) [OF g assms(3), of tx] pool_reset_ok [OF g assms(3), of txs] by (auto simp: DelTxs_def)
qed

theorem accepted_within_limits_witness:
  "\<exists>p p'. sample_start = Some p \<and> AddRemote sample_env (signed_tx 0) p = Some (None, p') \<and> within_limits p'"
proof -
  obtain p where p: "sample_start = Some p" "pool_reach DefaultTxPoolConfig p" by (rule sample_start_reach)
  obtain p' where "AddRemote sample_env (signed_tx 0) p = Some (None, p')" using sample_accepted unfolding p(1) by auto
  with p(1) accepted_within_limits [OF sample_ok(1) p(2) sample_ok(2), of "signed_tx 0" "[]"] show ?thesis by blast
qed

text \<open>The status of a hash is Pending when the pending list of the sender holds the transaction, Queued when the
  queue does, and Unknown when neither does.\<close>

theorem status_is_where_filed:
  assumes "config_ok c" "pool_reach c p"
  shows "pool_Status p hs = map (\<lambda>h.
    if \<exists>a. \<exists>tx\<in>lview (tp_pending p) a. tx_Txid tx = h then TxStatusPending
    else if \<exists>a. \<exists>tx\<in>lview (tp_queue p) a. tx_Txid tx = h then TxStatusQueued else TxStatusUnknown) hs"
proof -
  have inv: "pool_inv {} p" using pool_reach_good [OF assms(2,1)] pool_goodD(5) by blast
  note B = pool_inv_listD(3) [OF inv]
  have known: "tx \<in> filed (lview (tp_pending p)) (lview (tp_queue p)) \<union> {}"
    if "tx \<in> lview (tp_pending p) a \<union> lview (tp_queue p) a" for tx a
    using that by (auto simp: filed_def)
  have "(case lk_Get (tp_all p) h of None \<Rightarrow> TxStatusUnknown
      | Some tx \<Rightarrow> (case gget (tp_pending p) (tx_From tx) of None \<Rightarrow> TxStatusQueued
          | Some l \<Rightarrow> if gget (sm_items (tl_txs l)) (tx_NonceValue tx) \<noteq> None then TxStatusPending else TxStatusQueued)) =
    (if \<exists>a. \<exists>tx\<in>lview (tp_pending p) a. tx_Txid tx = h then TxStatusPending
     else if \<exists>a. \<exists>tx\<in>lview (tp_queue p) a. tx_Txid tx = h then TxStatusQueued else TxStatusUnknown)" (is "?L = ?R") for h
  proof (cases "gget (tp_all p) h")
    case None
    have "tx_Txid tx \<noteq> h" if "tx \<in> lview (tp_pending p) a \<union> lview (tp_queue p) a" for tx a
      using book_lookup [OF B known [OF that]] None by auto
    then show ?thesis using None by (auto simp: lk_Get_def)
  next
    case (Some tx)
    have h: "tx_Txid tx = h" by (rule book_okD(4) [OF B Some])
    have uniq: "t = tx" if "t \<in> lview (tp_pending p) a \<union> lview (tp_queue p) a" "tx_Txid t = h" for t a
      using book_lookup [OF B known [OF that(1)]] that(2) Some by simp
    have ran: "tx \<in> ran (gget (tp_all p))" using Some by (auto simp: ran_def)
    have "?L = (if tx \<in> lview (tp_pending p) (tx_From tx) then TxStatusPending else TxStatusQueued)"
    proof (cases "gget (tp_pending p) (tx_From tx)")
      case (Some l)
      have ok: "tl_ok l" using pool_inv_listD(1) [OF inv Some] by simp
      have "gget (sm_items (tl_txs l)) (tx_NonceValue tx) \<noteq> None \<longleftrightarrow> tx_NonceValue tx \<in> tx_NonceValue ` set (tl_list l)"
        using sm_Get_None [of "tl_txs l" "tx_NonceValue tx"] ok by (simp add: sm_Get_def tl_ok_def tl_list_def)
      also have "\<dots> \<longleftrightarrow> tx \<in> lview (tp_pending p) (tx_From tx)"
        using nonce_in_view(1) [OF inv ran] Some by simp
      finally show ?thesis using \<open>gget (tp_all p) h = Some tx\<close> Some by (simp add: lk_Get_def)
    qed (simp add: \<open>gget (tp_all p) h = Some tx\<close> lk_Get_def lview_def)
    moreover have "(\<exists>a. \<exists>t\<in>lview (tp_pending p) a. tx_Txid t = h) \<longleftrightarrow> tx \<in> lview (tp_pending p) (tx_From tx)"
      using uniq h lview_own(2) [OF inv] by blast
    moreover have "(\<exists>a. \<exists>t\<in>lview (tp_queue p) a. tx_Txid t = h) \<longleftrightarrow> tx \<in> lview (tp_queue p) (tx_From tx)"
      using uniq h lview_own(1) [OF inv] by blast
    moreover have "tx \<in> lview (tp_pending p) (tx_From tx) \<or> tx \<in> lview (tp_queue p) (tx_From tx)"
    proof -
      have "tx \<in> filed (lview (tp_pending p)) (lview (tp_queue p))" using ran book_okD(5) [OF B] by blast
      then show ?thesis using lview_own [OF inv] by (fastforce simp: filed_def)
    qed
    ultimately show ?thesis by auto
  qed
  then show ?thesis by (simp add: pool_Status_def)
qed

theorem status_is_where_filed_witness:
  "\<exists>p. sample_pool = Some p \<and> (\<exists>a. \<exists>tx\<in>lview (tp_pending p) a. tx_Txid tx = tx_Txid (signed_tx 0))"
proof -
  obtain p where p: "sample_pool = Some p" "pool_reach DefaultTxPoolConfig p" by (rule sample_pool_reach)
  have "pool_Status p [tx_Txid (signed_tx 0)] = [TxStatusPending]" using sample_status unfolding p(1) by simp
  with status_is_where_filed [OF sample_ok(1) p(2), of "[tx_Txid (signed_tx 0)]"] p(1) show ?thesis
    by (auto split: if_splits)
qed

text \<open>Claim C11.  The proposer's batch: at most the requested number of transactions, every one of them pending, and of each account
  a prefix of its pending transactions in nonce order, so a batch never skips a nonce of an account.\<close>

theorem batch_is_nonce_prefix:
  assumes "config_ok c" "pool_reach c p" "env_ok env" "GetTxsFromTXPool env n p = (txs, p')"
  shows "(0 < n \<longrightarrow> int (length txs) \<le> n) \<and>
    (\<forall>a. prefix (filter (\<lambda>tx. tx_From tx = a) txs) (case gget (tp_pending p) a of None \<Rightarrow> [] | Some l \<Rightarrow> tl_list l)) \<and>
    (lists_len (tp_pending p) > 0 \<longrightarrow> txs \<noteq> [])"
proof -
  have good: "pool_good p" using pool_reach_good [OF assms(2,1)] by simp
  have inv: "pool_inv {} p" by (rule pool_goodD(5) [OF good])
  have wf: "lists_wf True (tp_pending p)" using inv by (simp add: pool_inv_def)
  have rng: "go_range (pe_rngN env)" "go_range (pe_rngA env)" using assms(3) by (auto simp: env_ok_def)
  define m where "m = flatten_lists env (tp_pending p)"
  have g: "gget m a = map_option tl_list (gget (tp_pending p) a)" for a
    unfolding m_def by (rule cache_lists_spec(4) [OF wf rng(1)])
  have "gomap_ok m" using wf by (simp add: m_def lists_wf_def gomap_ok_def flatten_lists_def comp_def case_prod_unfold)
  then have ks: "distinct (gkeys (pe_rngA env) m)" "set (gkeys (pe_rngA env) m) = dom (gget m)"
    using rng(2) by (simp_all add: distinct_gkeys set_gkeys)
  define stream where "stream = concat (map (\<lambda>a. the (gget m a)) (gkeys (pe_rngA env) m))"
  have txs: "txs = (if 0 < n then take (nat n) stream else stream)"
    using assms(4) by (auto simp: GetTxsFromTXPool_def pool_Pending_def m_def stream_def collect_txs_take)
  have own: "tx_From tx = a" if "a \<in> set (gkeys (pe_rngA env) m)" "tx \<in> set (the (gget m a))" for a tx
    using that lview_own(2) [OF inv, of tx a] ks(2) by (auto simp: g lview_def)
  have f: "filter (\<lambda>tx. tx_From tx = a) stream = (case gget (tp_pending p) a of None \<Rightarrow> [] | Some l \<Rightarrow> tl_list l)" for a
    unfolding stream_def using filter_owner_concat [OF ks(1) own, where a = a] ks(2) by (auto simp: g split: option.splits)
  have "prefix txs stream" by (simp add: txs take_is_prefix)
  then have pre: "\<forall>a. prefix (filter (\<lambda>tx. tx_From tx = a) txs) (case gget (tp_pending p) a of None \<Rightarrow> [] | Some l \<Rightarrow> tl_list l)"
    using f filter_mono_prefix by metis
  have "stream \<noteq> []" if "lists_len (tp_pending p) > 0"
  proof -
    have "pset p \<noteq> {}" using that unfolding pending_len [OF inv] by (metis card.empty less_irrefl)
    then obtain a tx where "tx \<in> lview (tp_pending p) a" by blast
    then have "(case gget (tp_pending p) a of None \<Rightarrow> [] | Some l \<Rightarrow> tl_list l) \<noteq> []" by (auto simp: lview_def split: option.splits)
    then show ?thesis using f [of a] by auto
  qed
  with pre show ?thesis by (auto simp: txs)
qed

theorem batch_is_nonce_prefix_witness:
  "\<exists>p p'. sample_pool = Some p \<and> GetTxsFromTXPool sample_env 5 p = ([signed_tx 0], p') \<and>
    prefix (filter (\<lambda>tx. tx_From tx = replicate 20 0) [signed_tx 0])
      (case gget (tp_pending p) (replicate 20 0) of None \<Rightarrow> [] | Some l \<Rightarrow> tl_list l)"
proof -
  obtain p where p: "sample_pool = Some p" "pool_reach DefaultTxPoolConfig p" by (rule sample_pool_reach)
  obtain p' where g: "GetTxsFromTXPool sample_env 5 p = ([signed_tx 0], p')" using sample_batch p(1) by (metis eq_fst_iff option.inject option.map(2))
  from batch_is_nonce_prefix [OF sample_ok(1) p(2) sample_ok(2) g] p(1) g show ?thesis by blast
qed

end
