(* ===== verification/Merkle.thy ===== *)
theory Merkle
  imports Prelude "HOL-Library.List_Lexorder" "HOL-Library.Product_Lexorder" "HOL-Library.Monad_Syntax"
begin

text \<open>
  \<open>ledger/merkle\<close> (simple Merkle trees, proofs and maps) and \<open>common/merkle\<close> (the double SHA-256 tree).  The
  digests come from packages outside the repository and are the parameters \<open>rip\<close> (RIPEMD-160) and \<open>sha\<close> (SHA-256); no
  theorem assumes anything of them.
\<close>

section \<open>types.go: length-prefixed byte strings\<close>

text \<open>\<open>binary.PutUvarint\<close>: seven bits per byte, least significant group first.\<close>

fun encodeUvarint :: "nat \<Rightarrow> bytes" where
  "encodeUvarint n = (if n < 128 then [word_of_nat n] else word_of_nat (n mod 128 + 128) # encodeUvarint (n div 128))"

declare encodeUvarint.simps [simp del]

definition encodeByteSlice :: "bytes \<Rightarrow> bytes" where
  "encodeByteSlice bz = encodeUvarint (length bz) @ bz"

section \<open>simple_tree.go\<close>

definition SimpleHashFromTwoHashes :: "(bytes \<Rightarrow> bytes) \<Rightarrow> bytes \<Rightarrow> bytes \<Rightarrow> bytes" where
  "SimpleHashFromTwoHashes rip left right = rip (encodeByteSlice left @ encodeByteSlice right)"

text \<open>The empty list hashes to nil, which is the empty byte string to every caller.\<close>

function SimpleHashFromHashes :: "(bytes \<Rightarrow> bytes) \<Rightarrow> bytes list \<Rightarrow> bytes" where
  "SimpleHashFromHashes rip hashes =
     (case hashes of [] \<Rightarrow> [] | [h] \<Rightarrow> h
      | _ \<Rightarrow> SimpleHashFromTwoHashes rip
              (SimpleHashFromHashes rip (take ((length hashes + 1) div 2) hashes))
              (SimpleHashFromHashes rip (drop ((length hashes + 1) div 2) hashes)))"
  by pat_completeness auto
termination
  by (relation "measure (\<lambda>(rip, hs). length hs)") auto

declare SimpleHashFromHashes.simps [simp del]

definition SimpleHashFromBytes :: "(bytes \<Rightarrow> bytes) \<Rightarrow> bytes \<Rightarrow> bytes" where
  "SimpleHashFromBytes rip bz = rip bz"

definition SimpleHashFromByteslices :: "(bytes \<Rightarrow> bytes) \<Rightarrow> bytes list \<Rightarrow> bytes" where
  "SimpleHashFromByteslices rip bzs = SimpleHashFromHashes rip (map (SimpleHashFromBytes rip) bzs)"

text \<open>A \<open>Hasher\<close> is represented by a function to its hash.\<close>

definition SimpleHashFromHashers :: "(bytes \<Rightarrow> bytes) \<Rightarrow> ('h \<Rightarrow> bytes) \<Rightarrow> 'h list \<Rightarrow> bytes" where
  "SimpleHashFromHashers rip Hash items = SimpleHashFromHashes rip (map Hash items)"

section \<open>simple_proof.go\<close>

text \<open>\<open>None\<close> is the nil result.\<close>

function computeHashFromAunts :: "(bytes \<Rightarrow> bytes) \<Rightarrow> int \<Rightarrow> int \<Rightarrow> bytes \<Rightarrow> bytes list \<Rightarrow> bytes option" where
  "computeHashFromAunts rip index tot leafHash innerHashes =
     (if index \<ge> tot \<or> index < 0 \<or> tot \<le> 0 then None
      else if tot = 1 then (if innerHashes \<noteq> [] then None else Some leafHash)
      else if innerHashes = [] then None
      else let numLeft = (tot + 1) div 2 in
        if index < numLeft then
          map_option (\<lambda>leftHash. SimpleHashFromTwoHashes rip leftHash (last innerHashes))
            (computeHashFromAunts rip index numLeft leafHash (butlast innerHashes))
        else
          map_option (\<lambda>rightHash. SimpleHashFromTwoHashes rip (last innerHashes) rightHash)
            (computeHashFromAunts rip (index - numLeft) (tot - numLeft) leafHash (butlast innerHashes)))"
  by pat_completeness auto
termination
  by (relation "measure (\<lambda>(rip, i, t, l, hs). length hs)") auto

declare computeHashFromAunts.simps [simp del]

definition SimpleProof_Verify :: "(bytes \<Rightarrow> bytes) \<Rightarrow> bytes list \<Rightarrow> int \<Rightarrow> int \<Rightarrow> bytes \<Rightarrow> bytes \<Rightarrow> bool" where
  "SimpleProof_Verify rip aunts index tot leafHash rootHash =
     (case computeHashFromAunts rip index tot leafHash aunts of None \<Rightarrow> False | Some h \<Rightarrow> h = rootHash)"

text \<open>The nodes live in a store indexed by their address; a pointer is nil or an address.\<close>

record SimpleProofNode =
  spn_Hash :: bytes
  spn_Parent :: "nat option"
  spn_Left :: "nat option"
  spn_Right :: "nat option"

definition new_node :: "bytes \<Rightarrow> SimpleProofNode" where
  "new_node h = \<lparr> spn_Hash = h, spn_Parent = None, spn_Left = None, spn_Right = None \<rparr>"

text \<open>Returns the trails, the root pointer and the store.\<close>

function trailsFromHashers ::
  "(bytes \<Rightarrow> bytes) \<Rightarrow> bytes list \<Rightarrow> SimpleProofNode list \<Rightarrow> nat list \<times> nat option \<times> SimpleProofNode list" where
  "trailsFromHashers rip items st =
     (case items of [] \<Rightarrow> ([], None, st)
      | [h] \<Rightarrow> ([length st], Some (length st), st @ [new_node h])
      | _ \<Rightarrow>
        let (lefts, leftRoot, st1) = trailsFromHashers rip (take ((length items + 1) div 2) items) st;
            (rights, rightRoot, st2) = trailsFromHashers rip (drop ((length items + 1) div 2) items) st1;
            l = the leftRoot; r = the rightRoot;
            rootHash = SimpleHashFromTwoHashes rip (spn_Hash (st2 ! l)) (spn_Hash (st2 ! r));
            root = length st2;
            st3 = st2 @ [new_node rootHash];
            st4 = st3[l := (st3 ! l)\<lparr>spn_Parent := Some root, spn_Right := Some r\<rparr>];
            st5 = st4[r := (st4 ! r)\<lparr>spn_Parent := Some root, spn_Left := Some l\<rparr>]
        in (lefts @ rights, Some root, st5))"
  by pat_completeness auto
termination
  by (relation "measure (\<lambda>(rip, hs, st). length hs)") auto

declare trailsFromHashers.simps [simp del]

text \<open>The walk from a leaf to the root; \<open>None\<close> would be a walk that does not end.\<close>

partial_function (option) FlattenAunts :: "SimpleProofNode list \<Rightarrow> nat option \<Rightarrow> bytes list \<Rightarrow> bytes list option" where
  "FlattenAunts st spn inner =
     (case spn of None \<Rightarrow> Some inner
      | Some a \<Rightarrow>
          (case spn_Left (st ! a) of Some l \<Rightarrow> FlattenAunts st (spn_Parent (st ! a)) (inner @ [spn_Hash (st ! l)])
           | None \<Rightarrow> (case spn_Right (st ! a) of
               Some r \<Rightarrow> FlattenAunts st (spn_Parent (st ! a)) (inner @ [spn_Hash (st ! r)])
             | None \<Rightarrow> Some inner)))"

declare FlattenAunts.simps [code]

text \<open>Proofs of no items panic: the root pointer is nil and its hash is read.\<close>

definition SimpleProofsFromHashers :: "(bytes \<Rightarrow> bytes) \<Rightarrow> bytes list \<Rightarrow> (bytes \<times> bytes list list) option" where
  "SimpleProofsFromHashers rip items =
     (let (trails, root, st) = trailsFromHashers rip items [] in do {
        r \<leftarrow> root;
        proofs \<leftarrow> those (map (\<lambda>t. FlattenAunts st (Some t) []) trails);
        Some (spn_Hash (st ! r), proofs) })"

section \<open>kvpair.go and simple_map.go\<close>

fun bytes_Compare :: "bytes \<Rightarrow> bytes \<Rightarrow> int" where
  "bytes_Compare [] [] = 0"
| "bytes_Compare [] (b # bs) = -1"
| "bytes_Compare (a # as) [] = 1"
| "bytes_Compare (a # as) (b # bs) = (if a < b then -1 else if b < a then 1 else bytes_Compare as bs)"

type_synonym KVPair = "bytes \<times> bytes"

definition KVPairs_Less :: "KVPair \<Rightarrow> KVPair \<Rightarrow> bool" where
  "KVPairs_Less x y =
     (if bytes_Compare (fst x) (fst y) = -1 then True
      else if bytes_Compare (fst x) (fst y) = 0 then bytes_Compare (snd x) (snd y) < 0
      else False)"

text \<open>\<open>sort.Sort\<close> with that order, which is total, so the result does not depend on the algorithm.\<close>

definition KVPairs_Sort :: "KVPair list \<Rightarrow> KVPair list" where
  "KVPairs_Sort kvs = sort kvs"

definition KI64Pairs_Less :: "bytes \<times> int \<Rightarrow> bytes \<times> int \<Rightarrow> bool" where
  "KI64Pairs_Less x y =
     (if bytes_Compare (fst x) (fst y) = -1 then True
      else if bytes_Compare (fst x) (fst y) = 0 then snd x < snd y
      else False)"

record SimpleMap =
  smp_kvs :: "KVPair list"
  smp_sorted :: bool

definition NewSimpleMap :: SimpleMap where
  "NewSimpleMap = \<lparr> smp_kvs = [], smp_sorted = False \<rparr>"

definition SimpleMap_Set :: "(bytes \<Rightarrow> bytes) \<Rightarrow> SimpleMap \<Rightarrow> bytes \<Rightarrow> bytes \<Rightarrow> SimpleMap" where
  "SimpleMap_Set rip m key vhash =
     m\<lparr>smp_sorted := False, smp_kvs := smp_kvs m @ [(SimpleHashFromBytes rip key, vhash)]\<rparr>"

definition SimpleMap_Sort :: "SimpleMap \<Rightarrow> SimpleMap" where
  "SimpleMap_Sort m = (if smp_sorted m then m else m\<lparr>smp_kvs := KVPairs_Sort (smp_kvs m), smp_sorted := True\<rparr>)"

definition kvPair_Hash :: "(bytes \<Rightarrow> bytes) \<Rightarrow> KVPair \<Rightarrow> bytes" where
  "kvPair_Hash rip kv = rip (encodeByteSlice (fst kv) @ encodeByteSlice (snd kv))"

definition hashKVPairs :: "(bytes \<Rightarrow> bytes) \<Rightarrow> KVPair list \<Rightarrow> bytes" where
  "hashKVPairs rip kvs = SimpleHashFromHashers rip (kvPair_Hash rip) kvs"

definition SimpleMap_Hash :: "(bytes \<Rightarrow> bytes) \<Rightarrow> SimpleMap \<Rightarrow> bytes \<times> SimpleMap" where
  "SimpleMap_Hash rip m = (let m' = SimpleMap_Sort m in (hashKVPairs rip (smp_kvs m'), m'))"

definition SimpleMap_KVPairs :: "SimpleMap \<Rightarrow> KVPair list \<times> SimpleMap" where
  "SimpleMap_KVPairs m = (let m' = SimpleMap_Sort m in (smp_kvs m', m'))"

definition SimpleHashFromMap :: "(bytes \<Rightarrow> bytes) \<Rightarrow> (bytes list \<Rightarrow> bytes list) \<Rightarrow> (bytes, bytes) gomap \<Rightarrow> bytes" where
  "SimpleHashFromMap rip rng m =
     fst (SimpleMap_Hash rip (fold (\<lambda>k sm. SimpleMap_Set rip sm k (the (gget m k))) (gkeys rng m) NewSimpleMap))"

section \<open>common/merkle/merkle.go\<close>

definition doubleSha256 :: "(bytes \<Rightarrow> bytes) \<Rightarrow> bytes list \<Rightarrow> bytes" where
  "doubleSha256 sha s = sha (sha (concat s))"

datatype merkleTreeNode = MNode (mt_Hash: bytes) (mt_Left: "merkleTreeNode option") (mt_Right: "merkleTreeNode option")

definition IsLeaf :: "merkleTreeNode \<Rightarrow> bool" where
  "IsLeaf t \<longleftrightarrow> mt_Left t = None \<and> mt_Right t = None"

definition generateLeaves :: "bytes list \<Rightarrow> merkleTreeNode list" where
  "generateLeaves hashes = map (\<lambda>d. MNode d None None) hashes"

fun levelUp :: "(bytes \<Rightarrow> bytes) \<Rightarrow> merkleTreeNode list \<Rightarrow> merkleTreeNode list" where
  "levelUp sha [] = []"
| "levelUp sha [n] = [MNode (doubleSha256 sha [mt_Hash n, mt_Hash n]) (Some n) (Some n)]"
| "levelUp sha (n # m # ns) = MNode (doubleSha256 sha [mt_Hash n, mt_Hash m]) (Some n) (Some m) # levelUp sha ns"

lemma length_levelUp [termination_simp]: "length (levelUp sha ns) = (length ns + 1) div 2"
  by (induction sha ns rule: levelUp.induct) auto

function raise_levels :: "(bytes \<Rightarrow> bytes) \<Rightarrow> merkleTreeNode list \<Rightarrow> nat \<Rightarrow> merkleTreeNode list \<times> nat" where
  "raise_levels sha nodes height =
     (if length nodes > 1 then raise_levels sha (levelUp sha nodes) (height + 1) else (nodes, height))"
  by pat_completeness auto
termination
  by (relation "measure (\<lambda>(sha, ns, h). length ns)") (auto simp: length_levelUp)

declare raise_levels.simps [simp del]

text \<open>The depth and the root; an empty input is an error.\<close>

definition newMerkleTree :: "(bytes \<Rightarrow> bytes) \<Rightarrow> bytes list \<Rightarrow> (nat \<times> merkleTreeNode) option" where
  "newMerkleTree sha hashes =
     (if hashes = [] then None
      else let (nodes, height) = raise_levels sha (generateLeaves hashes) 1 in Some (height, nodes ! 0))"

section \<open>Encodings\<close>

text \<open>The contract of an encoding that can be read back from the front of a longer string.\<close>

locale prefix_code =
  fixes enc :: "'a \<Rightarrow> bytes"
  assumes prefix_free: "enc a @ xs = enc b @ ys \<Longrightarrow> a = b \<and> xs = ys"
begin

lemma enc_inj: "enc a = enc b \<longleftrightarrow> a = b"
  using prefix_free [of a "[]" b "[]"] by auto

lemma pair_inj: "enc a @ enc b = enc c @ enc d \<longleftrightarrow> a = c \<and> b = d"
  using prefix_free [of a "enc b" c "enc d"] enc_inj by blast

end

lemma encodeUvarint_prefix: "encodeUvarint n @ xs = encodeUvarint m @ ys \<Longrightarrow> n = m \<and> xs = ys"
proof (induction n arbitrary: m rule: encodeUvarint.induct)
  case (1 n)
  have small: "unat (word_of_nat k :: byte) = k" if "k < 256" for k using that by (simp add: unat_of_nat)
  have u: "unat (hd (encodeUvarint k)) = (if k < 128 then k else k mod 128 + 128)"
    "tl (encodeUvarint k) = (if k < 128 then [] else encodeUvarint (k div 128))" "encodeUvarint k \<noteq> []" for k
    using small [of k] small [of "k mod 128 + 128"] by (subst encodeUvarint.simps; simp)+
  have hd: "hd (encodeUvarint n) = hd (encodeUvarint m)" and tl: "tl (encodeUvarint n) @ xs = tl (encodeUvarint m) @ ys"
    using "1.prems" u(3) by (metis hd_append2, metis tl_append2)
  have mods: "(if n < 128 then n else n mod 128 + 128) = (if m < 128 then m else m mod 128 + 128)"
    using hd u(1) by metis
  show ?case
  proof (cases "n < 128")
    case True
    with mods have "n = m" by (auto split: if_splits)
    with True tl u(2) show ?thesis by simp
  next
    case False
    with mods have "\<not> m < 128" "n mod 128 = m mod 128" by (auto split: if_splits)
    with "1.IH" [OF False, of "m div 128"] tl False u(2) have "n div 128 = m div 128 \<and> xs = ys" by simp
    with \<open>n mod 128 = m mod 128\<close> show ?thesis by (metis div_mult_mod_eq)
  qed
qed

interpretation slice: prefix_code encodeByteSlice
proof
  fix a b xs ys
  assume "encodeByteSlice a @ xs = encodeByteSlice b @ ys"
  then have "encodeUvarint (length a) @ (a @ xs) = encodeUvarint (length b) @ (b @ ys)" by (simp add: encodeByteSlice_def)
  from encodeUvarint_prefix [OF this] show "a = b \<and> xs = ys" by (auto simp: append_eq_append_conv)
qed

section \<open>Proofs from trails\<close>

lemma split_point:
  "2 \<le> length xs \<Longrightarrow> 0 < (length xs + 1) div 2 \<and> (length xs + 1) div 2 < length xs"
  by auto

lemma SimpleHashFromHashes_simps [simp]:
  "SimpleHashFromHashes rip [] = []" "SimpleHashFromHashes rip [h] = h"
  by (subst SimpleHashFromHashes.simps, simp)+

lemma SimpleHashFromHashes_split:
  "2 \<le> length hs \<Longrightarrow> SimpleHashFromHashes rip hs = SimpleHashFromTwoHashes rip
     (SimpleHashFromHashes rip (take ((length hs + 1) div 2) hs)) (SimpleHashFromHashes rip (drop ((length hs + 1) div 2) hs))"
  by (subst SimpleHashFromHashes.simps) (auto split: list.split)

lemma computeHashFromAunts_one [simp]: "computeHashFromAunts rip 0 1 leaf [] = Some leaf"
  by (subst computeHashFromAunts.simps) simp

lemma computeHashFromAunts_snoc:
  assumes "i < n" "2 \<le> n"
  shows "computeHashFromAunts rip (int i) (int n) leaf (aunts @ [h]) =
    (if i < (n + 1) div 2 then map_option (\<lambda>l. SimpleHashFromTwoHashes rip l h)
        (computeHashFromAunts rip (int i) (int ((n + 1) div 2)) leaf aunts)
     else map_option (\<lambda>r. SimpleHashFromTwoHashes rip h r)
        (computeHashFromAunts rip (int (i - (n + 1) div 2)) (int (n - (n + 1) div 2)) leaf aunts))"
proof -
  have e: "(int n + 1) div 2 = int ((n + 1) div 2)" by (simp add: zdiv_int)
  have c: "int i < int ((n + 1) div 2) \<longleftrightarrow> i < (n + 1) div 2" by simp
  have d: "int i - int ((n + 1) div 2) = int (i - (n + 1) div 2)" if "\<not> i < (n + 1) div 2" using that by simp
  have d2: "int n - int ((n + 1) div 2) = int (n - (n + 1) div 2)" using assms by simp
  show ?thesis
    using assms d d2 by (subst computeHashFromAunts.simps) (simp add: e Let_def del: of_nat_add of_nat_Suc)
qed

text \<open>The chain of parents from a node, with the sibling hashes it passes.\<close>

inductive trail_path :: "SimpleProofNode list \<Rightarrow> nat \<Rightarrow> bytes list \<Rightarrow> nat \<Rightarrow> bool" for st where
  path_here: "a < length st \<Longrightarrow> trail_path st a [] a"
| path_left: "a < length st \<Longrightarrow> spn_Left (st ! a) = Some l \<Longrightarrow> l < length st \<Longrightarrow> spn_Parent (st ! a) = Some b \<Longrightarrow>
    trail_path st b A r \<Longrightarrow> trail_path st a (spn_Hash (st ! l) # A) r"
| path_right: "a < length st \<Longrightarrow> spn_Left (st ! a) = None \<Longrightarrow> spn_Right (st ! a) = Some l \<Longrightarrow> l < length st \<Longrightarrow>
    spn_Parent (st ! a) = Some b \<Longrightarrow> trail_path st b A r \<Longrightarrow> trail_path st a (spn_Hash (st ! l) # A) r"

definition st_ext :: "SimpleProofNode list \<Rightarrow> SimpleProofNode list \<Rightarrow> bool" where
  "st_ext st st' \<longleftrightarrow> length st \<le> length st' \<and>
     (\<forall>a<length st. spn_Hash (st' ! a) = spn_Hash (st ! a) \<and> (spn_Parent (st ! a) \<noteq> None \<longrightarrow> st' ! a = st ! a))"

lemma trail_path_ext: "trail_path st a A r \<Longrightarrow> st_ext st st' \<Longrightarrow> trail_path st' a A r"
proof (induction rule: trail_path.induct)
  case (path_here a)
  then show ?case by (auto simp: st_ext_def intro: trail_path.path_here)
next
  case (path_left a l b A r)
  then have "st' ! a = st ! a" "spn_Hash (st' ! l) = spn_Hash (st ! l)" "length st \<le> length st'" by (auto simp: st_ext_def)
  with path_left trail_path.path_left [of a st' l b A r] show ?case by simp
next
  case (path_right a l b A r)
  then have "st' ! a = st ! a" "spn_Hash (st' ! l) = spn_Hash (st ! l)" "length st \<le> length st'" by (auto simp: st_ext_def)
  with path_right trail_path.path_right [of a st' l b A r] show ?case by simp
qed

lemma trail_path_snoc: "trail_path st a A b \<Longrightarrow> trail_path st b [h] r \<Longrightarrow> trail_path st a (A @ [h]) r"
  by (induction rule: trail_path.induct) (auto intro: trail_path.intros)

lemma FlattenAunts_path:
  "trail_path st a A r \<Longrightarrow> spn_Left (st ! r) = None \<Longrightarrow> spn_Right (st ! r) = None \<Longrightarrow>
   FlattenAunts st (Some a) inner = Some (inner @ A)"
proof (induction arbitrary: inner rule: trail_path.induct)
  case (path_here a)
  then show ?case by (subst FlattenAunts.simps) simp
next
  case (path_left a l b A r)
  then show ?case by (subst FlattenAunts.simps) simp
next
  case (path_right a l b A r)
  then show ?case by (subst FlattenAunts.simps) simp
qed

definition trails_ok :: "(bytes \<Rightarrow> bytes) \<Rightarrow> bytes list \<Rightarrow> SimpleProofNode list \<Rightarrow> nat list \<Rightarrow> nat \<Rightarrow> SimpleProofNode list \<Rightarrow> bool" where
  "trails_ok rip items st ts r st' \<longleftrightarrow> length ts = length items \<and> length st \<le> r \<and> r < length st' \<and> take (length st) st' = st \<and>
     spn_Hash (st' ! r) = SimpleHashFromHashes rip items \<and>
     spn_Parent (st' ! r) = None \<and> spn_Left (st' ! r) = None \<and> spn_Right (st' ! r) = None \<and>
     (\<forall>i<length items. \<exists>A. trail_path st' (ts ! i) A r \<and>
        computeHashFromAunts rip (int i) (int (length items)) (items ! i) A = Some (SimpleHashFromHashes rip items))"

text \<open>Joining two subtrees under a new root.\<close>

lemma trails_join:
  assumes L: "trails_ok rip ls st lts l st1" and R: "trails_ok rip rs st1 rts r st2"
    and len: "length ls = (length (ls @ rs) + 1) div 2" "rs \<noteq> []"
    and st5: "st5 = (st2 @ [new_node (SimpleHashFromTwoHashes rip (SimpleHashFromHashes rip ls) (SimpleHashFromHashes rip rs))])
      [l := (st2 ! l)\<lparr>spn_Parent := Some (length st2), spn_Right := Some r\<rparr>,
       r := (st2 ! r)\<lparr>spn_Parent := Some (length st2), spn_Left := Some l\<rparr>]"
  shows "trails_ok rip (ls @ rs) st (lts @ rts) (length st2) st5"
proof -
  let ?n = "length (ls @ rs)" and ?root = "length st2"
  have l: "length st \<le> l" "l < length st1" "take (length st) st1 = st" "spn_Hash (st1 ! l) = SimpleHashFromHashes rip ls"
    "spn_Parent (st1 ! l) = None" "spn_Left (st1 ! l) = None" "length lts = length ls"
    using L by (auto simp: trails_ok_def)
  have r: "length st1 \<le> r" "r < length st2" "take (length st1) st2 = st1" "spn_Hash (st2 ! r) = SimpleHashFromHashes rip rs"
    "spn_Parent (st2 ! r) = None" "spn_Right (st2 ! r) = None" "length rts = length rs"
    using R by (auto simp: trails_ok_def)
  have l2: "st2 ! l = st1 ! l" using l(2) r(3) by (metis nth_take)
  have len5: "length st5 = Suc ?root" by (simp add: st5)
  have nth5: "st5 ! a = (if a = r then (st2 ! r)\<lparr>spn_Parent := Some ?root, spn_Left := Some l\<rparr>
      else if a = l then (st2 ! l)\<lparr>spn_Parent := Some ?root, spn_Right := Some r\<rparr>
      else if a = ?root then new_node (SimpleHashFromTwoHashes rip (SimpleHashFromHashes rip ls) (SimpleHashFromHashes rip rs))
      else st2 ! a)" if "a \<le> ?root" for a
    using that l(2) r(1,2) by (auto simp: st5 nth_append nth_list_update)
  have ext2: "st_ext st2 st5"
    unfolding st_ext_def using l2 l(5) r(5) len5 by (auto simp: nth5 simp del: length_list_update)
  have "st_ext st1 st2" unfolding st_ext_def using r(1,2,3) by (metis less_imp_le_nat nth_take order_trans)
  have ext1: "st_ext st1 st5"
  proof -
    have "length st1 \<le> length st5" using r(1,2) len5 by simp
    moreover have "spn_Hash (st5 ! a) = spn_Hash (st1 ! a) \<and> (spn_Parent (st1 ! a) \<noteq> None \<longrightarrow> st5 ! a = st1 ! a)"
      if "a < length st1" for a
      using ext2 \<open>st_ext st1 st2\<close> that r(1,2) by (auto simp: st_ext_def)
    ultimately show ?thesis by (simp add: st_ext_def)
  qed
  have up_l: "trail_path st5 l [SimpleHashFromHashes rip rs] ?root"
    using path_right [of l st5 r ?root "[]" ?root] l(2,6) r(1,2,4) l2 nth5 len5 path_here [of ?root st5] by simp
  have up_r: "trail_path st5 r [SimpleHashFromHashes rip ls] ?root"
    using path_left [of r st5 l ?root "[]" ?root] l(2,4) r(1,2,4) l2 nth5 len5 path_here [of ?root st5] by simp
  have two: "2 \<le> ?n"
  proof -
    have "0 < length rs" using len(2) by simp
    then show ?thesis using len(1) unfolding length_append by arith
  qed
  have hash: "SimpleHashFromHashes rip (ls @ rs) =
      SimpleHashFromTwoHashes rip (SimpleHashFromHashes rip ls) (SimpleHashFromHashes rip rs)"
    by (subst SimpleHashFromHashes_split [OF two], subst (1 2) len(1) [symmetric]) simp
  have "\<exists>A. trail_path st5 ((lts @ rts) ! i) A ?root \<and>
      computeHashFromAunts rip (int i) (int ?n) ((ls @ rs) ! i) A = Some (SimpleHashFromHashes rip (ls @ rs))" if "i < ?n" for i
  proof (cases "i < length ls")
    case True
    then obtain A where A: "trail_path st1 (lts ! i) A l"
      "computeHashFromAunts rip (int i) (int (length ls)) (ls ! i) A = Some (SimpleHashFromHashes rip ls)"
      using L by (auto simp: trails_ok_def)
    have "trail_path st5 (lts ! i) (A @ [SimpleHashFromHashes rip rs]) ?root"
      by (rule trail_path_snoc [OF trail_path_ext [OF A(1) ext1] up_l])
    moreover have "computeHashFromAunts rip (int i) (int ?n) (ls ! i) (A @ [SimpleHashFromHashes rip rs]) =
        Some (SimpleHashFromHashes rip (ls @ rs))"
      unfolding computeHashFromAunts_snoc [OF that two] len(1) [symmetric] using True A(2) hash by simp
    ultimately show ?thesis using True l(7) by (metis nth_append)
  next
    case False
    let ?j = "i - length ls"
    have "?j < length rs" using False that by auto
    then obtain A where A: "trail_path st2 (rts ! ?j) A r"
      "computeHashFromAunts rip (int ?j) (int (length rs)) (rs ! ?j) A = Some (SimpleHashFromHashes rip rs)"
      using R unfolding trails_ok_def by blast
    have "trail_path st5 (rts ! ?j) (A @ [SimpleHashFromHashes rip ls]) ?root"
      by (rule trail_path_snoc [OF trail_path_ext [OF A(1) ext2] up_r])
    moreover have rl: "?n - length ls = length rs" by simp
    have "computeHashFromAunts rip (int i) (int ?n) (rs ! ?j) (A @ [SimpleHashFromHashes rip ls]) =
        Some (SimpleHashFromHashes rip (ls @ rs))"
      unfolding computeHashFromAunts_snoc [OF that two] len(1) [symmetric] rl using False A(2) hash by simp
    ultimately show ?thesis using False l(7) by (metis nth_append)
  qed
  moreover have "take (length st) st5 = st"
  proof -
    have "take (length st) st5 = take (length st) (st2 @ [new_node (SimpleHashFromTwoHashes rip (SimpleHashFromHashes rip ls) (SimpleHashFromHashes rip rs))])"
      unfolding st5 using l(1,2) r(1) by simp
    also have "\<dots> = take (length st) (take (length st1) st2)" using l(1,2) r(1,2) by (simp add: min_def)
    finally show ?thesis using r(3) l(3) by simp
  qed
  ultimately show ?thesis
    using l(1,2,7) r(1,2,7) nth5 [of ?root] len5 hash by (auto simp: trails_ok_def new_node_def)
qed

lemma trailsFromHashers_ok:
  "items \<noteq> [] \<Longrightarrow> \<exists>ts r st'. trailsFromHashers rip items st = (ts, Some r, st') \<and> trails_ok rip items st ts r st'"
proof (induction "length items" arbitrary: items st rule: less_induct)
  case less
  show ?case
  proof (cases "\<exists>h. items = [h]")
    case True
    then obtain h where h: "items = [h]" by blast
    have "trail_path (st @ [new_node h]) (length st) [] (length st)" by (rule path_here) simp
    then show ?thesis using h by (subst trailsFromHashers.simps) (auto simp: trails_ok_def new_node_def)
  next
    case False
    let ?k = "(length items + 1) div 2"
    have two: "2 \<le> length items" using False less.prems by (cases items rule: remdups_adj.cases) auto
    have k: "0 < ?k" "?k < length items" using split_point [OF two] by auto
    obtain lts l st1 where L: "trailsFromHashers rip (take ?k items) st = (lts, Some l, st1)"
      "trails_ok rip (take ?k items) st lts l st1"
      using less.hyps [of "take ?k items" st] k less.prems by auto
    obtain rts r st2 where R: "trailsFromHashers rip (drop ?k items) st1 = (rts, Some r, st2)"
      "trails_ok rip (drop ?k items) st1 rts r st2"
      using less.hyps [of "drop ?k items" st1] k by force
    have lr: "l < length st1" "length st1 \<le> r" "r < length st2" "take (length st1) st2 = st1"
      "spn_Hash (st1 ! l) = SimpleHashFromHashes rip (take ?k items)" "spn_Hash (st2 ! r) = SimpleHashFromHashes rip (drop ?k items)"
      using L(2) R(2) by (auto simp: trails_ok_def)
    then have hl: "spn_Hash (st2 ! l) = SimpleHashFromHashes rip (take ?k items)" by (metis nth_take)
    let ?st5 = "(st2 @ [new_node (SimpleHashFromTwoHashes rip (SimpleHashFromHashes rip (take ?k items)) (SimpleHashFromHashes rip (drop ?k items)))])
      [l := (st2 ! l)\<lparr>spn_Parent := Some (length st2), spn_Right := Some r\<rparr>,
       r := (st2 ! r)\<lparr>spn_Parent := Some (length st2), spn_Left := Some l\<rparr>]"
    have "trails_ok rip (take ?k items @ drop ?k items) st (lts @ rts) (length st2) ?st5"
      using k by (intro trails_join [OF L(2) R(2) _ _ refl]) auto
    moreover have "trailsFromHashers rip items st = (lts @ rts, Some (length st2), ?st5)"
    proof -
      have "\<exists>x y zs. items = x # y # zs" using two by (cases items rule: remdups_adj.cases) auto
      then show ?thesis
        using L(1) R(1) lr hl by (subst trailsFromHashers.simps) (auto simp: Let_def nth_append nth_list_update)
    qed
    ultimately show ?thesis by auto
  qed
qed

lemma those_map_Some: "(\<And>x. x \<in> set xs \<Longrightarrow> f x = Some (g x)) \<Longrightarrow> those (map f xs) = Some (map g xs)"
  by (induction xs) auto

lemma SimpleProofsFromHashers_ok:
  assumes "items \<noteq> []"
  obtains proofs where "SimpleProofsFromHashers rip items = Some (SimpleHashFromHashes rip items, proofs)" "length proofs = length items"
    "\<And>i. i < length items \<Longrightarrow> computeHashFromAunts rip (int i) (int (length items)) (items ! i) (proofs ! i) = Some (SimpleHashFromHashes rip items)"
proof -
  obtain ts r st where t: "trailsFromHashers rip items [] = (ts, Some r, st)" "trails_ok rip items [] ts r st"
    using trailsFromHashers_ok [OF assms] by blast
  then obtain f where f: "\<forall>i<length items. trail_path st (ts ! i) (f i) r \<and>
      computeHashFromAunts rip (int i) (int (length items)) (items ! i) (f i) = Some (SimpleHashFromHashes rip items)"
    unfolding trails_ok_def by metis
  have root: "spn_Hash (st ! r) = SimpleHashFromHashes rip items" "spn_Left (st ! r) = None" "spn_Right (st ! r) = None" "length ts = length items"
    using t(2) by (auto simp: trails_ok_def)
  have "map (\<lambda>t. FlattenAunts st (Some t) []) ts = map Some (map f [0..<length items])"
  proof (rule nth_equalityI)
    show "map (\<lambda>t. FlattenAunts st (Some t) []) ts ! i = map Some (map f [0..<length items]) ! i"
      if "i < length (map (\<lambda>t. FlattenAunts st (Some t) []) ts)" for i
      using FlattenAunts_path [OF _ root(2,3), of "ts ! i" "f i" "[]"] f root(4) that by simp
  qed (simp add: root(4))
  then have "those (map (\<lambda>t. FlattenAunts st (Some t) []) ts) = Some (map f [0..<length items])"
    using those_map_Some [of "map f [0..<length items]" Some "\<lambda>x. x"] by simp
  with t(1) root(1) f show ?thesis
    by (intro that [of "map f [0..<length items]"]) (simp_all add: SimpleProofsFromHashers_def)
qed

section \<open>Extracting a collision\<close>

text \<open>
  Two byte strings with one digest, read off a proof that verifies for a leaf the tree does not have at
  that position: at the level where the recomputed and the true children differ, the two encodings collide.
\<close>

function find_collision :: "(bytes \<Rightarrow> bytes) \<Rightarrow> nat \<Rightarrow> bytes list \<Rightarrow> bytes \<Rightarrow> bytes list \<Rightarrow> bytes \<times> bytes" where
  "find_collision rip i hs leaf aunts =
     (if length hs < 2 \<or> aunts = [] then ([], [])
      else let k = (length hs + 1) div 2; ls = take k hs; rs = drop k hs; h = last aunts;
               sub = (if i < k then computeHashFromAunts rip (int i) (int k) leaf (butlast aunts)
                      else computeHashFromAunts rip (int (i - k)) (int (length hs - k)) leaf (butlast aunts));
               x = (if i < k then encodeByteSlice (the sub) @ encodeByteSlice h else encodeByteSlice h @ encodeByteSlice (the sub));
               y = encodeByteSlice (SimpleHashFromHashes rip ls) @ encodeByteSlice (SimpleHashFromHashes rip rs)
           in if x \<noteq> y then (x, y)
              else if i < k then find_collision rip i ls leaf (butlast aunts)
              else find_collision rip (i - k) rs leaf (butlast aunts))"
  by pat_completeness auto
termination
  by (relation "measure (\<lambda>(rip, i, hs, l, as). length as)") auto

declare find_collision.simps [simp del]

lemma find_collision_ok:
  assumes "i < length hs" "computeHashFromAunts rip (int i) (int (length hs)) leaf aunts = Some (SimpleHashFromHashes rip hs)"
    "leaf \<noteq> hs ! i"
  shows "fst (find_collision rip i hs leaf aunts) \<noteq> snd (find_collision rip i hs leaf aunts) \<and>
    rip (fst (find_collision rip i hs leaf aunts)) = rip (snd (find_collision rip i hs leaf aunts))"
  using assms
proof (induction "length aunts" arbitrary: i hs aunts rule: less_induct)
  case less
  let ?n = "length hs" and ?k = "(length hs + 1) div 2"
  show ?case
  proof (cases "?n = 1")
    case True
    then obtain h where "hs = [h]" by (auto simp: length_Suc_conv)
    with less.prems show ?thesis by (subst (asm) computeHashFromAunts.simps) (auto split: if_splits)
  next
    case False
    with less.prems(1) have two: "2 \<le> ?n" by auto
    have k: "0 < ?k" "?k < ?n" using split_point [OF two] by auto
    have "aunts \<noteq> []" using less.prems(2) two by (subst (asm) computeHashFromAunts.simps) (auto split: if_splits)
    then obtain as h where as: "aunts = as @ [h]" by (metis append_butlast_last_id)
    let ?L = "SimpleHashFromHashes rip (take ?k hs)" and ?R = "SimpleHashFromHashes rip (drop ?k hs)"
    let ?sub = "if i < ?k then computeHashFromAunts rip (int i) (int ?k) leaf as
      else computeHashFromAunts rip (int (i - ?k)) (int (?n - ?k)) leaf as"
    let ?x = "if i < ?k then encodeByteSlice (the ?sub) @ encodeByteSlice h else encodeByteSlice h @ encodeByteSlice (the ?sub)"
    let ?y = "encodeByteSlice ?L @ encodeByteSlice ?R"
    have root: "SimpleHashFromHashes rip hs = rip ?y"
      using SimpleHashFromHashes_split [OF two, of rip] by (simp add: SimpleHashFromTwoHashes_def)
    have sub: "?sub \<noteq> None" "rip ?x = rip ?y"
      using less.prems(2) computeHashFromAunts_snoc [OF less.prems(1) two, of rip leaf as h] root
      by (auto simp: as SimpleHashFromTwoHashes_def split: if_splits)
    have step: "find_collision rip i hs leaf aunts = (if ?x \<noteq> ?y then (?x, ?y)
        else if i < ?k then find_collision rip i (take ?k hs) leaf as else find_collision rip (i - ?k) (drop ?k hs) leaf as)"
      using two by (subst find_collision.simps) (simp add: as Let_def)
    show ?thesis
    proof (cases "?x = ?y")
      case False
      then show ?thesis unfolding step using sub(2) by simp
    next
      case eq: True
      show ?thesis
      proof (cases "i < ?k")
        case True
        then have "computeHashFromAunts rip (int i) (int (length (take ?k hs))) leaf as = Some ?L"
          using eq sub(1) k slice.pair_inj by (auto simp: min_def)
        then show ?thesis unfolding step using eq True less.hyps [of as i "take ?k hs"] less.prems(3) k by (simp add: as)
      next
        case False
        then have "computeHashFromAunts rip (int (i - ?k)) (int (length (drop ?k hs))) leaf as = Some ?R"
          using eq sub(1) slice.pair_inj by auto
        then show ?thesis unfolding step using eq False less.hyps [of as "i - ?k" "drop ?k hs"] less.prems k by (simp add: as)
      qed
    qed
  qed
qed

section \<open>Sorted maps\<close>

lemma bytes_Compare_order: "bytes_Compare a b = (if a < b then -1 else if b < a then 1 else 0)"
  by (induction a b rule: bytes_Compare.induct) auto

lemma KVPairs_Less_order: "KVPairs_Less x y \<longleftrightarrow> x < y"
  by (cases x; cases y) (auto simp: KVPairs_Less_def bytes_Compare_order less_prod_simp)

lemma fold_SimpleMap_Set:
  "smp_kvs (fold (\<lambda>k sm. SimpleMap_Set rip sm k (f k)) ks m) = smp_kvs m @ map (\<lambda>k. (SimpleHashFromBytes rip k, f k)) ks"
  "ks \<noteq> [] \<Longrightarrow> smp_sorted (fold (\<lambda>k sm. SimpleMap_Set rip sm k (f k)) ks m) = False"
  by (induction ks arbitrary: m rule: rev_induct) (auto simp: SimpleMap_Set_def)

lemma SimpleHashFromMap_eq:
  "SimpleHashFromMap rip rng m = hashKVPairs rip (sort (map (\<lambda>k. (SimpleHashFromBytes rip k, the (gget m k))) (gkeys rng m)))"
proof -
  let ?sm = "fold (\<lambda>k sm. SimpleMap_Set rip sm k (the (gget m k))) (gkeys rng m) NewSimpleMap"
  have "smp_kvs ?sm = map (\<lambda>k. (SimpleHashFromBytes rip k, the (gget m k))) (gkeys rng m)"
    by (simp add: fold_SimpleMap_Set NewSimpleMap_def)
  moreover have "\<not> smp_sorted ?sm"
    using fold_SimpleMap_Set(2) [of "gkeys rng m"] by (cases "gkeys rng m = []") (simp_all add: NewSimpleMap_def)
  ultimately show ?thesis by (simp add: SimpleHashFromMap_def SimpleMap_Hash_def SimpleMap_Sort_def KVPairs_Sort_def)
qed

section \<open>Depth of the binary tree\<close>

lemma raise_levels_depth:
  assumes "nodes \<noteq> []"
  shows "length (fst (raise_levels sha nodes h)) = 1 \<and>
    (\<exists>d. snd (raise_levels sha nodes h) = h + d \<and> length nodes \<le> 2 ^ d \<and> 2 ^ d < 2 * length nodes)"
  using assms
proof (induction "length nodes" arbitrary: nodes h rule: less_induct)
  case less
  show ?case
  proof (cases "length nodes > 1")
    case False
    with less.prems have "length nodes = 1" by (cases nodes) auto
    then show ?thesis by (subst (1 2) raise_levels.simps) (auto intro: exI [of _ 0])
  next
    case True
    let ?up = "levelUp sha nodes"
    have len: "length ?up = (length nodes + 1) div 2" by (rule length_levelUp)
    then have "length ?up < length nodes" "?up \<noteq> []" using True by (auto simp flip: length_0_conv)
    from less.hyps [OF this, of "h + 1"] obtain d where ih: "length (fst (raise_levels sha ?up (h + 1))) = 1"
      "snd (raise_levels sha ?up (h + 1)) = h + 1 + d" "length ?up \<le> 2 ^ d" "2 ^ d < 2 * length ?up" by blast
    have up: "length nodes \<le> 2 * length ?up" "2 * length ?up \<le> length nodes + 1" using len by auto
    have "2 ^ Suc d < 2 * length nodes"
    proof (cases d)
      case 0
      then show ?thesis using True by simp
    next
      case (Suc e)
      then have "2 * 2 ^ e < 2 * length ?up" using ih(4) by simp
      then have "2 ^ e < length ?up" by simp
      then have "2 * 2 ^ e + 2 \<le> 2 * length ?up" by simp
      then have "2 * 2 ^ e < length nodes" using up(2) by linarith
      then show ?thesis using Suc by simp
    qed
    moreover have "length nodes \<le> 2 ^ Suc d" using up(1) ih(3) by simp
    moreover have "raise_levels sha nodes h = raise_levels sha ?up (h + 1)" using True by (subst raise_levels.simps) simp
    ultimately show ?thesis using ih(1,2) by (auto intro!: exI [of _ "Suc d"])
  qed
qed

section \<open>Properties\<close>

text \<open>A stand-in digest for the examples.\<close>

definition toy_digest :: "bytes \<Rightarrow> bytes" where
  "toy_digest bz = [fold (\<lambda>b acc. 31 * acc + b) bz 7]"

text \<open>The proofs made for a list of leaves verify: the construction through shared, mutated tree nodes ends, returns one proof per
  leaf and the Merkle root, and each proof is accepted for its index, its leaf and that root, whatever the digest.\<close>

theorem merkle_proofs_verify:
  assumes "items \<noteq> []"
  shows "\<exists>proofs. SimpleProofsFromHashers rip items = Some (SimpleHashFromHashes rip items, proofs) \<and>
    length proofs = length items \<and>
    (\<forall>i<length items. SimpleProof_Verify rip (proofs ! i) (int i) (int (length items)) (items ! i) (SimpleHashFromHashes rip items))"
proof -
  obtain proofs where "SimpleProofsFromHashers rip items = Some (SimpleHashFromHashes rip items, proofs)" "length proofs = length items"
    "\<And>i. i < length items \<Longrightarrow> computeHashFromAunts rip (int i) (int (length items)) (items ! i) (proofs ! i) = Some (SimpleHashFromHashes rip items)"
    by (rule SimpleProofsFromHashers_ok [OF assms]) blast
  then show ?thesis by (auto simp: SimpleProof_Verify_def)
qed

theorem merkle_proofs_verify_witness:
  "\<exists>proofs. SimpleProofsFromHashers toy_digest [[1], [2], [3]] = Some (SimpleHashFromHashes toy_digest [[1], [2], [3]], proofs) \<and>
    length proofs = 3 \<and>
    SimpleProof_Verify toy_digest (proofs ! 2) 2 3 [3] (SimpleHashFromHashes toy_digest [[1], [2], [3]])"
  using merkle_proofs_verify [of "[[1], [2], [3]]" toy_digest] by (auto simp: eval_nat_numeral)

text \<open>Claim C13.  A proof cannot put a wrong leaf into a tree: if a proof is accepted for an index, the tree's size and its root, then the
  leaf is the one the tree has there, or the two strings that \<open>find_collision\<close> computes from the proof are different and have one digest.\<close>

theorem merkle_proof_sound:
  assumes "SimpleProof_Verify rip aunts index (int (length hs)) leaf (SimpleHashFromHashes rip hs)"
  shows "0 \<le> index \<and> index < int (length hs) \<and>
    (leaf = hs ! nat index \<or>
     (let (x, y) = find_collision rip (nat index) hs leaf aunts in x \<noteq> y \<and> rip x = rip y))"
proof -
  obtain h where c: "computeHashFromAunts rip index (int (length hs)) leaf aunts = Some h" "h = SimpleHashFromHashes rip hs"
    using assms by (auto simp: SimpleProof_Verify_def split: option.splits)
  then have r: "0 \<le> index" "index < int (length hs)"
    by (subst (asm) computeHashFromAunts.simps, auto split: if_splits)+
  then have n: "nat index < length hs" "int (nat index) = index" by auto
  have "leaf = hs ! nat index \<or> fst (find_collision rip (nat index) hs leaf aunts) \<noteq> snd (find_collision rip (nat index) hs leaf aunts) \<and>
      rip (fst (find_collision rip (nat index) hs leaf aunts)) = rip (snd (find_collision rip (nat index) hs leaf aunts))"
    using find_collision_ok [OF n(1), of rip leaf aunts] c n(2) by auto
  with r show ?thesis by (simp add: split_beta)
qed

theorem merkle_proof_sound_witness:
  "SimpleProof_Verify toy_digest [[2]] 0 2 [1] (SimpleHashFromHashes toy_digest [[1], [2]]) \<and> [1] = [[1], [2 :: byte]] ! nat 0"
proof -
  have v: "SimpleProof_Verify toy_digest [[2]] 0 (int (length [[1], [2]])) [1] (SimpleHashFromHashes toy_digest [[1], [2]])"
    using computeHashFromAunts_snoc [of 0 2 toy_digest "[1]" "[]" "[2]"] SimpleHashFromHashes_split [of "[[1], [2]]" toy_digest]
    by (simp add: SimpleProof_Verify_def)
  from merkle_proof_sound [OF v] v show ?thesis by simp
qed

text \<open>The hash of a map does not depend on the order in which the run time iterates it, and the comparison the code sorts with
  is the lexicographic order on key and value.\<close>

theorem simple_map_hash_order_free:
  assumes "go_range rng" "go_range rng'"
  shows "SimpleHashFromMap rip rng m = SimpleHashFromMap rip rng' m \<and> (KVPairs_Less x y \<longleftrightarrow> x < y)"
proof -
  have "mset (gkeys rng m) = mset (gkeys rng' m)" using assms by (simp add: gkeys_def go_range_def)
  then have "sort (map (\<lambda>k. (SimpleHashFromBytes rip k, the (gget m k))) (gkeys rng m)) =
      sort (map (\<lambda>k. (SimpleHashFromBytes rip k, the (gget m k))) (gkeys rng' m))"
    by (intro properties_for_sort) simp_all
  then show ?thesis by (simp add: SimpleHashFromMap_eq KVPairs_Less_order)
qed

theorem simple_map_hash_order_free_witness:
  "SimpleHashFromMap toy_digest rev [([1], [5]), ([2], [6])] = SimpleHashFromMap toy_digest (\<lambda>ks. ks) [([1], [5]), ([2], [6])] \<and>
    KVPairs_Less ([1], [9]) ([2], [6])"
  using simple_map_hash_order_free [OF go_range_rev go_range_id, of toy_digest "[([1], [5]), ([2], [6])]" "([1], [9])" "([2], [6])"]
  by (simp add: less_prod_simp)

text \<open>The level-by-level construction of the SHA-256 tree ends for every non-empty list of hashes with one root, and
  the depth it records is one more than the binary logarithm of the number of leaves, rounded up.\<close>

theorem merkle_tree_depth:
  assumes "hashes \<noteq> []"
  shows "\<exists>depth root. newMerkleTree sha hashes = Some (depth, root) \<and>
    length hashes \<le> 2 ^ (depth - 1) \<and> 2 ^ (depth - 1) < 2 * length hashes"
proof -
  have "generateLeaves hashes \<noteq> []" "length (generateLeaves hashes) = length hashes" using assms by (auto simp: generateLeaves_def)
  with raise_levels_depth [of "generateLeaves hashes" sha 1] assms show ?thesis
    by (auto simp: newMerkleTree_def split_beta)
qed

theorem merkle_tree_depth_witness:
  "\<exists>depth root. newMerkleTree toy_digest [[1], [2], [3]] = Some (depth, root) \<and> 3 \<le> (2 :: nat) ^ (depth - 1) \<and> 2 ^ (depth - 1) < (6 :: nat)"
  using merkle_tree_depth [of "[[1], [2], [3]]" toy_digest] by (simp add: eval_nat_numeral)

end
