(* ===== verification/BitArray.thy ===== *)
theory BitArray
  imports Transaction "HOL-Library.Monad_Syntax"
begin

unbundle bit_operations_syntax

text \<open>
  \<open>consensus/algorand/common/bit_array.go\<close>: the bit arrays in which votes and block parts are tracked.  A
  \<open>*BitArray\<close> is an option, \<open>None\<close> being nil; the result \<open>None\<close> of an operation that may index out of
  range is the run-time panic.
\<close>

section \<open>Model\<close>

record BitArray =
  ba_Bits :: int
  ba_Elems :: "u64 list"

definition NewBitArray :: "int \<Rightarrow> BitArray option" where
  "NewBitArray bits = (if bits \<le> 0 then None
     else Some \<lparr> ba_Bits = bits, ba_Elems = replicate (nat ((bits + 63) div 64)) 0 \<rparr>)"

definition ba_Size :: "BitArray option \<Rightarrow> int" where
  "ba_Size bA = (case bA of None \<Rightarrow> 0 | Some a \<Rightarrow> ba_Bits a)"

text \<open>\<open>uint64(1) << uint(i%64)\<close>: a negative \<open>i\<close> makes the shift count huge and the mask zero.\<close>

definition bit_mask :: "int \<Rightarrow> u64" where
  "bit_mask i = (if i < 0 then 0 else push_bit (nat (i mod 64)) 1)"

text \<open>\<open>i/64\<close> truncates towards zero; a slot outside the slice panics.\<close>

definition elem_at :: "BitArray \<Rightarrow> int \<Rightarrow> nat option" where
  "elem_at a i = (if i \<le> - 64 then None
     else let k = (if i < 0 then 0 else nat (i div 64)) in if k < length (ba_Elems a) then Some k else None)"

definition ba_getIndex :: "BitArray \<Rightarrow> int \<Rightarrow> bool option" where
  "ba_getIndex a i = (if i \<ge> ba_Bits a then Some False
     else do { k \<leftarrow> elem_at a i; Some (ba_Elems a ! k AND bit_mask i > 0) })"

definition ba_setIndex :: "BitArray \<Rightarrow> int \<Rightarrow> bool \<Rightarrow> (bool \<times> BitArray) option" where
  "ba_setIndex a i v = (if i \<ge> ba_Bits a then Some (False, a)
     else do { k \<leftarrow> elem_at a i;
       Some (True, a\<lparr>ba_Elems := (ba_Elems a)[k := (if v then ba_Elems a ! k OR bit_mask i
                                                    else ba_Elems a ! k AND NOT (bit_mask i))]\<rparr>) })"

definition ba_GetIndex :: "BitArray option \<Rightarrow> int \<Rightarrow> bool option" where
  "ba_GetIndex bA i = (case bA of None \<Rightarrow> Some False | Some a \<Rightarrow> ba_getIndex a i)"

definition ba_SetIndex :: "BitArray option \<Rightarrow> int \<Rightarrow> bool \<Rightarrow> (bool \<times> BitArray option) option" where
  "ba_SetIndex bA i v = (case bA of None \<Rightarrow> Some (False, None)
     | Some a \<Rightarrow> map_option (\<lambda>(r, a'). (r, Some a')) (ba_setIndex a i v))"

definition ba_Copy :: "BitArray option \<Rightarrow> BitArray option" where
  "ba_Copy bA = map_option (\<lambda>a. \<lparr> ba_Bits = ba_Bits a, ba_Elems = ba_Elems a \<rparr>) bA"

definition ba_copyBits :: "BitArray \<Rightarrow> int \<Rightarrow> BitArray" where
  "ba_copyBits a bits = \<lparr> ba_Bits = bits, ba_Elems = go_copy (replicate (nat ((bits + 63) div 64)) 0) 0 (ba_Elems a) \<rparr>"

text \<open>Combining word by word; a word that the other array does not have is an index out of range.\<close>

definition zip_words :: "(u64 \<Rightarrow> u64 \<Rightarrow> u64) \<Rightarrow> u64 list \<Rightarrow> u64 list \<Rightarrow> u64 list option" where
  "zip_words f xs ys = (if length xs \<le> length ys then Some (map2 f xs ys) else None)"

definition ba_Or :: "BitArray option \<Rightarrow> BitArray option \<Rightarrow> BitArray option option" where
  "ba_Or bA ob = (case bA of None \<Rightarrow> Some (ba_Copy ob)
     | Some a \<Rightarrow> (case ob of None \<Rightarrow> Some (ba_Copy bA)
       | Some b \<Rightarrow> let c = ba_copyBits a (max (ba_Bits a) (ba_Bits b)) in
           map_option (\<lambda>e. Some (c\<lparr>ba_Elems := e\<rparr>)) (zip_words (\<lambda>x y. x OR y) (ba_Elems c) (ba_Elems b))))"

definition ba_and :: "BitArray \<Rightarrow> BitArray \<Rightarrow> BitArray option" where
  "ba_and a b = (let c = ba_copyBits a (min (ba_Bits a) (ba_Bits b)) in
     map_option (\<lambda>e. c\<lparr>ba_Elems := e\<rparr>) (zip_words (\<lambda>x y. x AND y) (ba_Elems c) (ba_Elems b)))"

definition ba_And :: "BitArray option \<Rightarrow> BitArray option \<Rightarrow> BitArray option option" where
  "ba_And bA ob = (case bA of None \<Rightarrow> Some None | Some a \<Rightarrow> (case ob of None \<Rightarrow> Some None | Some b \<Rightarrow> map_option Some (ba_and a b)))"

definition ba_Not :: "BitArray option \<Rightarrow> BitArray option" where
  "ba_Not bA = map_option (\<lambda>a. a\<lparr>ba_Elems := map (\<lambda>e. NOT e) (ba_Elems a)\<rparr>) bA"

text \<open>
  \<open>Sub\<close>.  The first loop of the longer-than case clears the words of the copy: it computes
  \<open>c.Elems[i] &= ^c.Elems[i]\<close>.
\<close>

definition ba_Sub :: "BitArray option \<Rightarrow> BitArray option \<Rightarrow> BitArray option option" where
  "ba_Sub bA ob = (case bA of None \<Rightarrow> Some None | Some a \<Rightarrow> (case ob of None \<Rightarrow> Some None
     | Some b \<Rightarrow>
        if ba_Bits a > ba_Bits b then
          let n = length (ba_Elems b) in
          if n - 1 > length (ba_Elems a) then None
          else let c = a\<lparr>ba_Elems := map (\<lambda>e. e AND NOT e) (take (n - 1) (ba_Elems a)) @ drop (n - 1) (ba_Elems a)\<rparr> in
            if n = 0 then Some (Some c)
            else map_option Some (for_each (\<lambda>idx c. do {
                x \<leftarrow> ba_getIndex c idx; y \<leftarrow> ba_getIndex b idx;
                (r, c') \<leftarrow> ba_setIndex c idx (x \<and> \<not> y);
                Some c' }) [int (n - 1) * 64..ba_Bits b - 1] c)
        else map_option Some (ba_and a (b\<lparr>ba_Elems := map (\<lambda>e. NOT e) (ba_Elems b)\<rparr>))))"

definition ba_IsEmpty :: "BitArray option \<Rightarrow> bool" where
  "ba_IsEmpty bA = (case bA of None \<Rightarrow> True | Some a \<Rightarrow> \<not> list_ex (\<lambda>e. e > 0) (ba_Elems a))"

text \<open>An array without words panics.\<close>

definition ba_IsFull :: "BitArray option \<Rightarrow> bool option" where
  "ba_IsFull bA = (case bA of None \<Rightarrow> Some True
     | Some a \<Rightarrow> if ba_Elems a = [] then None
         else if list_ex (\<lambda>e. NOT e \<noteq> 0) (butlast (ba_Elems a)) then Some False
         else let lastElemBits = nat ((ba_Bits a + 63) mod 64 + 1); lastElem = last (ba_Elems a)
              in Some ((lastElem + 1) AND (push_bit lastElemBits 1 - 1) = 0))"

text \<open>The bits of one word from a random start, wrapping around.\<close>

definition pick_bit :: "u64 \<Rightarrow> nat \<Rightarrow> nat \<Rightarrow> nat option" where
  "pick_bit e width start =
     List.find (\<lambda>bitIdx. e AND push_bit bitIdx 1 > 0) (map (\<lambda>j. (j + start) mod width) [0..<width])"

text \<open>
  \<open>PickRandom\<close>: \<open>randE\<close> and \<open>randB\<close> give the results of \<open>RandIntn\<close>, for the word to start at and for
  the bit to start at in each word.  \<open>None\<close> is the \<open>PanicSanity\<close>.
\<close>

fun pick_elems :: "(nat \<Rightarrow> nat \<Rightarrow> nat) \<Rightarrow> BitArray \<Rightarrow> nat list \<Rightarrow> (nat \<times> bool) option" where
  "pick_elems randB a [] = Some (0, False)"
| "pick_elems randB a (elemIdx # rest) = (
     if elemIdx < length (ba_Elems a) - 1 then
       if ba_Elems a ! elemIdx > 0 then
         (case pick_bit (ba_Elems a ! elemIdx) 64 (randB elemIdx 64) of
            Some bitIdx \<Rightarrow> Some (64 * elemIdx + bitIdx, True)
          | None \<Rightarrow> None)
       else pick_elems randB a rest
     else
       let elemBits = (if ba_Bits a mod 64 = 0 then 64 else nat (ba_Bits a mod 64)) in
       (case pick_bit (ba_Elems a ! elemIdx) elemBits (randB elemIdx elemBits) of
          Some bitIdx \<Rightarrow> Some (64 * elemIdx + bitIdx, True)
        | None \<Rightarrow> pick_elems randB a rest))"

definition ba_PickRandom :: "(nat \<Rightarrow> nat) \<Rightarrow> (nat \<Rightarrow> nat \<Rightarrow> nat) \<Rightarrow> BitArray option \<Rightarrow> (nat \<times> bool) option" where
  "ba_PickRandom randE randB bA = (case bA of None \<Rightarrow> Some (0, False)
     | Some a \<Rightarrow> let n = length (ba_Elems a) in
         if n = 0 then Some (0, False)
         else pick_elems randB a (map (\<lambda>i. (i + randE n) mod n) [0..<n]))"

definition le_bytes8 :: "u64 \<Rightarrow> bytes" where
  "le_bytes8 w = map (\<lambda>i. ucast (drop_bit (8 * i) w)) [0..<8]"

definition ba_Bytes :: "BitArray \<Rightarrow> bytes" where
  "ba_Bytes a = fold (\<lambda>i bs. go_copy bs (8 * i) (le_bytes8 (ba_Elems a ! i))) [0..<length (ba_Elems a)]
     (replicate (nat ((ba_Bits a + 7) div 8)) 0)"

definition ba_Update :: "BitArray option \<Rightarrow> BitArray option \<Rightarrow> BitArray option" where
  "ba_Update bA ob = (case bA of None \<Rightarrow> None | Some a \<Rightarrow> (case ob of None \<Rightarrow> Some a
     | Some b \<Rightarrow> Some (a\<lparr>ba_Elems := go_copy (ba_Elems a) 0 (ba_Elems b)\<rparr>)))"

section \<open>Specification\<close>

text \<open>A well-formed array, and the set of indices it holds.\<close>

definition ba_ok :: "BitArray \<Rightarrow> bool" where
  "ba_ok a \<longleftrightarrow> 0 < ba_Bits a \<and> length (ba_Elems a) = nat ((ba_Bits a + 63) div 64)"

definition raw_bit :: "BitArray \<Rightarrow> nat \<Rightarrow> bool" where
  "raw_bit a i \<longleftrightarrow> i < 64 * length (ba_Elems a) \<and> bit (ba_Elems a ! (i div 64)) (i mod 64)"

definition ba_set :: "BitArray \<Rightarrow> nat set" where
  "ba_set a = {i. int i < ba_Bits a \<and> raw_bit a i}"

section \<open>Lemmas\<close>

lemma mask_bit: "(e AND push_bit n 1 > 0) \<longleftrightarrow> bit (e :: u64) n"
  unfolding word_greater_zero_iff bit_iff_and_push_bit_not_eq_0 ..

lemma bit_push_one: "n < 64 \<Longrightarrow> bit (push_bit k 1 :: u64) n \<longleftrightarrow> n = k"
  by (auto simp: bit_push_bit_iff bit_1_iff simp del: push_bit_of_1)

lemma bit_u64_lt: "bit (e :: u64) n \<Longrightarrow> n < 64"
  using bit_imp_le_length [of e n] by simp

lemma word_pos_bit: "(e > 0) \<longleftrightarrow> (\<exists>n<64. bit (e :: u64) n)"
  using bit_eq_iff [of e 0] unfolding word_greater_zero_iff by simp

lemma div64_lt: "x < b \<Longrightarrow> x div 64 < (b + 63) div (64 :: int)"
proof -
  assume "x < b"
  then have "x div 64 \<le> (b - 1) div 64" by (intro zdiv_mono1) auto
  moreover have "(b + 63) div 64 = (b - 1) div 64 + 1" using div_add_self2 [of 64 "b - 1"] by (simp add: algebra_simps)
  ultimately show ?thesis by simp
qed

lemma ba_okD:
  assumes "ba_ok a" "int i < ba_Bits a"
  shows "i div 64 < length (ba_Elems a)" "i < 64 * length (ba_Elems a)"
proof -
  have "int i div 64 < (ba_Bits a + 63) div 64" using assms(2) by (rule div64_lt)
  then show "i div 64 < length (ba_Elems a)" using assms(1) by (auto simp: ba_ok_def zdiv_int nat_less_iff)
  then show "i < 64 * length (ba_Elems a)" by auto
qed

lemma elem_at_ok: "ba_ok a \<Longrightarrow> int i < ba_Bits a \<Longrightarrow> elem_at a (int i) = Some (i div 64)"
  using ba_okD(1) [of a i] by (simp add: elem_at_def zdiv_int [symmetric] nat_div_distrib)

lemma bit_mask_nat: "bit_mask (int i) = push_bit (i mod 64) 1"
  by (simp add: bit_mask_def zmod_int [symmetric] nat_mod_distrib)

lemma getIndex_set:
  assumes "ba_ok a"
  shows "ba_getIndex a (int i) = Some (i \<in> ba_set a)"
proof (cases "int i < ba_Bits a")
  case True
  then show ?thesis
    using elem_at_ok [OF assms True] ba_okD [OF assms True]
    by (simp only: ba_getIndex_def bit_mask_nat mask_bit) (simp add: ba_set_def raw_bit_def)
next
  case False
  then show ?thesis by (simp add: ba_getIndex_def ba_set_def)
qed

lemma raw_bit_update:
  assumes "k < length (ba_Elems a)"
  shows "raw_bit (a\<lparr>ba_Elems := (ba_Elems a)[k := e]\<rparr>) j \<longleftrightarrow> (if j div 64 = k then bit e (j mod 64) else raw_bit a j)"
  using assms by (auto simp: raw_bit_def nth_list_update)

lemma setIndex_set:
  assumes "ba_ok a" "int i < ba_Bits a"
  obtains a' where "ba_setIndex a (int i) v = Some (True, a')" "ba_ok a'" "ba_Bits a' = ba_Bits a"
    "ba_set a' = (if v then insert i (ba_set a) else ba_set a - {i})"
proof -
  let ?k = "i div 64"
  let ?e = "if v then ba_Elems a ! ?k OR bit_mask (int i) else ba_Elems a ! ?k AND NOT (bit_mask (int i))"
  let ?a' = "a\<lparr>ba_Elems := (ba_Elems a)[?k := ?e]\<rparr>"
  have eq: "ba_setIndex a (int i) v = Some (True, ?a')" using assms elem_at_ok [OF assms] by (simp add: ba_setIndex_def)
  have b: "bit ?e n \<longleftrightarrow> (if n = i mod 64 then v else bit (ba_Elems a ! ?k) n)" if "n < 64" for n
    using bit_push_one [OF that, of "i mod 64"] that unfolding bit_mask_nat
    by (auto simp: bit_or_iff bit_and_iff bit_not_iff simp del: push_bit_of_1)
  have "raw_bit ?a' j \<longleftrightarrow> (if j = i then v else raw_bit a j)" for j
  proof (cases "j div 64 = ?k")
    case True
    then have "j = i \<longleftrightarrow> j mod 64 = i mod 64" by (metis div_mult_mod_eq)
    then show ?thesis using True raw_bit_update [OF ba_okD(1) [OF assms], of ?e j] b [of "j mod 64"] ba_okD(1) [OF assms]
      by (auto simp: raw_bit_def)
  next
    case False
    then show ?thesis using raw_bit_update [OF ba_okD(1) [OF assms], of ?e j] by auto
  qed
  then have "ba_set ?a' = (if v then insert i (ba_set a) else ba_set a - {i})"
    using assms(2) by (auto simp: ba_set_def)
  moreover have "ba_ok ?a'" using assms(1) by (simp add: ba_ok_def)
  ultimately show ?thesis using that [of ?a'] eq by simp
qed

lemma NewBitArray_ok: "0 < n \<Longrightarrow> \<exists>a. NewBitArray n = Some a \<and> ba_ok a \<and> ba_Bits a = n \<and> ba_set a = {}"
  by (auto simp: NewBitArray_def ba_ok_def ba_set_def raw_bit_def)

lemma copyBits_raw:
  assumes "0 < bits"
  shows "ba_ok (ba_copyBits a bits)" "ba_Bits (ba_copyBits a bits) = bits"
    "raw_bit (ba_copyBits a bits) i \<longleftrightarrow> i < 64 * nat ((bits + 63) div 64) \<and> raw_bit a i"
proof -
  let ?n = "nat ((bits + 63) div 64)"
  have e: "ba_Elems (ba_copyBits a bits) = take ?n (ba_Elems a) @ replicate (?n - length (ba_Elems a)) 0"
    by (auto simp: ba_copyBits_def go_copy_def Let_def min_def)
  then show "ba_ok (ba_copyBits a bits)" using assms by (simp add: ba_ok_def ba_copyBits_def)
  show "ba_Bits (ba_copyBits a bits) = bits" by (simp add: ba_copyBits_def)
  have lt: "i < 64 * n \<longleftrightarrow> i div 64 < n" for n by auto
  have "ba_Elems (ba_copyBits a bits) ! (i div 64) = (if i div 64 < length (ba_Elems a) then ba_Elems a ! (i div 64) else 0)"
    if "i div 64 < ?n" using that by (simp add: e nth_append)
  moreover have "length (ba_Elems (ba_copyBits a bits)) = ?n" by (simp add: e)
  ultimately show "raw_bit (ba_copyBits a bits) i \<longleftrightarrow> i < 64 * ?n \<and> raw_bit a i"
    unfolding raw_bit_def lt by (auto split: if_splits)
qed

lemma zip_words_raw:
  assumes "length (ba_Elems a) \<le> length (ba_Elems b)" "\<And>x y n. n < 64 \<Longrightarrow> bit (f x y) n \<longleftrightarrow> g (bit x n) (bit y n)"
  shows "\<exists>e. zip_words f (ba_Elems a) (ba_Elems b) = Some e \<and> length e = length (ba_Elems a) \<and>
    (\<forall>i. raw_bit (a\<lparr>ba_Elems := e\<rparr>) i \<longleftrightarrow> i < 64 * length (ba_Elems a) \<and> g (raw_bit a i) (raw_bit b i))"
proof -
  have "i < 64 * n \<longleftrightarrow> i div 64 < n" for i n :: nat by auto
  then show ?thesis using assms by (auto simp: zip_words_def raw_bit_def)
qed

lemma ba_ok_len_mono: "ba_ok a \<Longrightarrow> ba_ok b \<Longrightarrow> ba_Bits a \<le> ba_Bits b \<Longrightarrow> length (ba_Elems a) \<le> length (ba_Elems b)"
  by (simp add: ba_ok_def nat_mono zdiv_mono1)

lemma ba_and_set:
  assumes "ba_ok a" "ba_ok b"
  obtains c where "ba_and a b = Some c" "ba_ok c" "ba_Bits c = min (ba_Bits a) (ba_Bits b)" "ba_set c = ba_set a \<inter> ba_set b"
proof -
  let ?c = "ba_copyBits a (min (ba_Bits a) (ba_Bits b))"
  have p: "0 < min (ba_Bits a) (ba_Bits b)" using assms by (simp add: ba_ok_def)
  note c = copyBits_raw [OF p, of a]
  have "length (ba_Elems ?c) \<le> length (ba_Elems b)" using ba_ok_len_mono [OF c(1) assms(2)] c(2) by simp
  from zip_words_raw [OF this, of "\<lambda>x y. x AND y" "\<lambda>x y. x \<and> y"] obtain e where
    e: "zip_words (\<lambda>x y. x AND y) (ba_Elems ?c) (ba_Elems b) = Some e" "length e = length (ba_Elems ?c)"
    "\<And>i. raw_bit (?c\<lparr>ba_Elems := e\<rparr>) i \<longleftrightarrow> i < 64 * length (ba_Elems ?c) \<and> raw_bit ?c i \<and> raw_bit b i"
    by (auto simp: bit_and_iff)
  have "ba_set (?c\<lparr>ba_Elems := e\<rparr>) = ba_set a \<inter> ba_set b"
    using e(3) c ba_okD(2) [OF c(1)] by (auto simp: ba_set_def ba_ok_def)
  then show ?thesis
    using that [of "?c\<lparr>ba_Elems := e\<rparr>"] e(1,2) c(1,2) by (simp add: ba_and_def Let_def ba_ok_def)
qed

lemma ba_Not_set:
  assumes "ba_ok a"
  shows "ba_ok (a\<lparr>ba_Elems := map (\<lambda>e. NOT e) (ba_Elems a)\<rparr>)"
    "ba_set (a\<lparr>ba_Elems := map (\<lambda>e. NOT e) (ba_Elems a)\<rparr>) = {i. int i < ba_Bits a} - ba_set a"
  using assms ba_okD [OF assms] by (auto simp: ba_ok_def ba_set_def raw_bit_def bit_not_iff)


lemma ba_Or_set:
  assumes "ba_ok a" "ba_ok b" "length (ba_Elems a) \<le> length (ba_Elems b)"
  obtains c where "ba_Or (Some a) (Some b) = Some (Some c)" "ba_ok c" "ba_Bits c = max (ba_Bits a) (ba_Bits b)"
    "\<And>i. raw_bit c i \<longleftrightarrow> raw_bit a i \<or> raw_bit b i"
proof -
  let ?c = "ba_copyBits a (max (ba_Bits a) (ba_Bits b))"
  have p: "0 < max (ba_Bits a) (ba_Bits b)" using assms by (simp add: ba_ok_def less_max_iff_disj)
  note c = copyBits_raw [OF p, of a]
  have len: "length (ba_Elems ?c) = length (ba_Elems b)"
  proof (cases "ba_Bits a \<le> ba_Bits b")
    case True
    then show ?thesis using c(1,2) assms(2) by (simp add: ba_ok_def max_absorb2)
  next
    case False
    then show ?thesis using c(1,2) assms ba_ok_len_mono [OF assms(2,1)] by (simp add: ba_ok_def max_absorb1)
  qed
  from zip_words_raw [of ?c b "\<lambda>x y. x OR y" "\<lambda>x y. x \<or> y"] len obtain e where
    e: "zip_words (\<lambda>x y. x OR y) (ba_Elems ?c) (ba_Elems b) = Some e" "length e = length (ba_Elems ?c)"
    "\<And>i. raw_bit (?c\<lparr>ba_Elems := e\<rparr>) i \<longleftrightarrow> i < 64 * length (ba_Elems ?c) \<and> (raw_bit ?c i \<or> raw_bit b i)"
    by (auto simp: bit_or_iff)
  have "raw_bit (?c\<lparr>ba_Elems := e\<rparr>) i \<longleftrightarrow> raw_bit a i \<or> raw_bit b i" for i
  proof -
    have "length (ba_Elems ?c) = nat ((max (ba_Bits a) (ba_Bits b) + 63) div 64)" using c(1,2) by (simp add: ba_ok_def)
    moreover have "raw_bit a i \<Longrightarrow> i < 64 * length (ba_Elems a)" "raw_bit b i \<Longrightarrow> i < 64 * length (ba_Elems b)"
      by (simp_all add: raw_bit_def)
    ultimately show ?thesis unfolding e(3) c(3) using len assms(3) by linarith
  qed
  then show ?thesis
    using that [of "?c\<lparr>ba_Elems := e\<rparr>"] e(1,2) c(1,2) by (simp add: ba_Or_def Let_def ba_ok_def)
qed

lemma pick_bit_Some: "pick_bit e w s = Some b \<Longrightarrow> b < w \<and> bit e b"
  unfolding pick_bit_def find_Some_iff mask_bit by auto

lemma pick_bit_None:
  assumes "pick_bit e w s = None" "b < w"
  shows "\<not> bit e b"
  using assms(1) rotation_onto [OF assms(2), of s] unfolding pick_bit_def find_None_iff mask_bit by auto


text \<open>The width of the last word: the one expression of \<open>IsFull\<close> and of \<open>PickRandom\<close>.\<close>

definition last_width :: "BitArray \<Rightarrow> nat" where
  "last_width a = (if ba_Bits a mod 64 = 0 then 64 else nat (ba_Bits a mod 64))"

lemma last_width:
  assumes "ba_ok a"
  shows "ba_Elems a \<noteq> []" "0 < last_width a" "last_width a \<le> 64"
    "ba_Bits a = 64 * int (length (ba_Elems a) - 1) + int (last_width a)"
    "nat ((ba_Bits a + 63) mod 64 + 1) = last_width a"
proof -
  define q r where "q = (ba_Bits a - 1) div 64" and "r = (ba_Bits a - 1) mod 64"
  have r: "0 \<le> r" "r < 64" by (simp_all add: r_def)
  have B: "ba_Bits a = 64 * q + r + 1" by (simp add: q_def r_def)
  have q: "0 \<le> q" using assms by (auto simp: q_def ba_ok_def pos_imp_zdiv_nonneg_iff)
  have w: "last_width a = nat (r + 1)"
  proof (cases "r = 63")
    case True
    then have "ba_Bits a mod 64 = 0" using B by simp
    then show ?thesis using True by (simp add: last_width_def)
  next
    case False
    then have "ba_Bits a mod 64 = r + 1" using B r by (simp add: add.assoc)
    then show ?thesis using r by (simp add: last_width_def)
  qed
  have e: "ba_Bits a + 63 = r + (q + 1) * 64" using B by simp
  have n: "length (ba_Elems a) = nat (q + 1)" using assms r by (simp add: ba_ok_def e del: distrib_right_numeral)
  show "ba_Elems a \<noteq> []" using n q by auto
  show "0 < last_width a" "last_width a \<le> 64" using w r by auto
  show "ba_Bits a = 64 * int (length (ba_Elems a) - 1) + int (last_width a)" using n w B r q by simp
  show "nat ((ba_Bits a + 63) mod 64 + 1) = last_width a" using w r by (simp add: e del: distrib_right_numeral)
qed

text \<open>Membership by words: every bit of the words before the last, and the low \<open>last_width\<close> bits of it.\<close>

lemma bits_words:
  assumes "ba_ok a"
  shows "int i < ba_Bits a \<longleftrightarrow> i div 64 < length (ba_Elems a) \<and> (i div 64 = length (ba_Elems a) - 1 \<longrightarrow> i mod 64 < last_width a)"
proof -
  note w = last_width [OF assms]
  obtain n where n: "length (ba_Elems a) = Suc n" using w(1) by (cases "ba_Elems a") auto
  have "int i < ba_Bits a \<longleftrightarrow> i < 64 * n + last_width a" using w(4) n by auto
  also have "\<dots> \<longleftrightarrow> i div 64 < n \<or> i div 64 = n \<and> i mod 64 < last_width a"
  proof -
    define q r where "q = i div 64" and "r = i mod 64"
    have "i = 64 * q + r" "r < 64" by (simp_all add: q_def r_def)
    then show ?thesis using w(2,3) unfolding q_def [symmetric] r_def [symmetric]
      by (cases q n rule: linorder_cases) auto
  qed
  finally show ?thesis unfolding n by auto
qed

lemma ba_set_words:
  assumes "ba_ok a"
  shows "i \<in> ba_set a \<longleftrightarrow> int i < ba_Bits a \<and> bit (ba_Elems a ! (i div 64)) (i mod 64)"
  using ba_okD [OF assms] by (auto simp: ba_set_def raw_bit_def)

lemma take_bit_succ: "take_bit w (x + 1) = 0 \<longleftrightarrow> (\<forall>i<w. i < 64 \<longrightarrow> bit (x :: u64) i)"
proof -
  have "x + 1 = - (NOT x)" by (simp add: not_eq_complement)
  then have "take_bit w (x + 1) = 0 \<longleftrightarrow> take_bit w (NOT x) = 0" by (simp only: take_bit_eq_0_iff dvd_minus_iff)
  also have "\<dots> \<longleftrightarrow> (\<forall>i<w. i < 64 \<longrightarrow> bit x i)"
    by (auto simp: bit_eq_iff bit_take_bit_iff bit_not_iff)
  finally show ?thesis .
qed

lemma all_ones: "NOT e = 0 \<longleftrightarrow> (\<forall>i<64. bit (e :: u64) i)"
  by (auto simp: bit_eq_iff bit_not_iff)

lemma IsFull_words:
  assumes "ba_ok a"
  shows "ba_IsFull (Some a) = Some (\<forall>i. int i < ba_Bits a \<longrightarrow> i \<in> ba_set a)"
proof -
  note w = last_width [OF assms]
  obtain es l where es: "ba_Elems a = es @ [l]" using w(1) by (cases "ba_Elems a" rule: rev_cases) auto
  have "(l + 1) AND (push_bit (last_width a) 1 - 1) = take_bit (last_width a) (l + 1)"
    by (simp add: take_bit_eq_mask mask_eq_exp_minus_1)
  then have "ba_IsFull (Some a) = Some ((\<forall>e\<in>set es. NOT e = 0) \<and> take_bit (last_width a) (l + 1) = 0)"
    by (simp only: ba_IsFull_def Let_def w(5) es option.case butlast_snoc last_snoc list_ex_iff) simp
  also have "\<dots> = Some ((\<forall>k<length es. \<forall>i<64. bit (es ! k) i) \<and> (\<forall>i<last_width a. bit l i))"
    using w(3) by (auto simp: take_bit_succ all_ones all_set_conv_all_nth)
  also have "((\<forall>k<length es. \<forall>i<64. bit (es ! k) i) \<and> (\<forall>i<last_width a. bit l i)) \<longleftrightarrow>
      (\<forall>i. int i < ba_Bits a \<longrightarrow> bit (ba_Elems a ! (i div 64)) (i mod 64))" (is "?L \<longleftrightarrow> ?R")
  proof
    assume ?L
    then show ?R unfolding bits_words [OF assms] es by (auto simp: nth_append less_Suc_eq)
  next
    assume R: ?R
    have "bit (es ! k) i" if "k < length es" "i < 64" for k i
      using R [unfolded bits_words [OF assms] es, rule_format, of "64 * k + i"] that by (simp add: nth_append)
    moreover have "bit l i" if "i < last_width a" for i
      using R [unfolded bits_words [OF assms] es, rule_format, of "64 * length es + i"] that w(3) by simp
    ultimately show ?L by blast
  qed
  finally show ?thesis by (simp add: ba_set_words [OF assms])
qed

lemma IsEmpty_words:
  assumes "ba_ok a" "ba_IsEmpty (Some a)"
  shows "ba_set a = {}"
proof -
  have "\<not> bit (ba_Elems a ! (i div 64)) (i mod 64)" if "int i < ba_Bits a" for i
    using assms(2) nth_mem [OF ba_okD(1) [OF assms(1) that]] unfolding ba_IsEmpty_def option.case list_ex_iff word_pos_bit
    by (meson mod_less_divisor zero_less_numeral)
  then show ?thesis by (auto simp: ba_set_words [OF assms(1)])
qed

lemma pick_elems_spec:
  assumes "ba_ok a" "\<forall>k\<in>set ks. k < length (ba_Elems a)"
  shows "\<exists>i found. pick_elems randB a ks = Some (i, found) \<and>
    (if found then i \<in> ba_set a else i = 0 \<and> (\<forall>j\<in>ba_set a. j div 64 \<notin> set ks))"
  using assms(2)
proof (induction ks)
  case (Cons k ks)
  let ?e = "ba_Elems a ! k" and ?n = "length (ba_Elems a)"
  let ?w = "if k < ?n - 1 then 64 else last_width a"
  have k: "k < ?n" using Cons.prems by simp
  have hit: "64 * k + b \<in> ba_set a" if "pick_bit ?e ?w s = Some b" for b s
    using pick_bit_Some [OF that] k last_width(3) [OF assms(1)]
    unfolding ba_set_words [OF assms(1)] bits_words [OF assms(1)] by (auto split: if_splits)
  have miss: "\<forall>j\<in>ba_set a. j div 64 \<noteq> k" if "\<And>b. b < ?w \<Longrightarrow> \<not> bit ?e b"
  proof (intro ballI notI)
    fix j assume j: "j \<in> ba_set a" "j div 64 = k"
    then have "j mod 64 < ?w" "bit ?e (j mod 64)"
      using bits_words [OF assms(1), of j] ba_set_words [OF assms(1), of j] by auto
    then show False using that by blast
  qed
  obtain i found where IH: "pick_elems randB a ks = Some (i, found)"
      "if found then i \<in> ba_set a else i = 0 \<and> (\<forall>j\<in>ba_set a. j div 64 \<notin> set ks)"
    using Cons by auto
  show ?case
  proof (cases "pick_bit ?e ?w (randB k ?w)")
    case None
    have m: "\<forall>j\<in>ba_set a. j div 64 \<noteq> k" using miss pick_bit_None [OF None] by blast
    have "k < ?n - 1 \<Longrightarrow> \<not> ?e > 0" using pick_bit_None [OF None] by (auto simp: word_pos_bit)
    then have "pick_elems randB a (k # ks) = pick_elems randB a ks"
      using None by (auto simp: last_width_def Let_def split: if_splits)
    then show ?thesis using IH m by auto
  next
    case (Some b)
    have "k < ?n - 1 \<Longrightarrow> ?e > 0" using pick_bit_Some [OF Some] by (auto simp: word_pos_bit)
    then have "pick_elems randB a (k # ks) = Some (64 * k + b, True)"
      using Some by (auto simp: last_width_def Let_def split: if_splits)
    then show ?thesis using hit [OF Some] by (intro exI [of _ "64 * k + b"] exI [of _ True]) simp
  qed
qed (auto intro: exI [of _ False])


lemma sub_loop:
  assumes "ba_ok c" "ba_ok b" "\<forall>y\<in>set ys. 0 \<le> y \<and> y < ba_Bits b \<and> y < ba_Bits c"
  shows "\<exists>c'. for_each (\<lambda>idx c. do { x \<leftarrow> ba_getIndex c idx; y \<leftarrow> ba_getIndex b idx;
      (r, c') \<leftarrow> ba_setIndex c idx (x \<and> \<not> y); Some c' }) ys c = Some c' \<and>
    (ba_ok c' \<and> ba_Bits c' = ba_Bits c \<and> ba_set c' = ba_set c - {i \<in> ba_set b. int i \<in> set ys})"
proof -
  define R where "R = ba_set c - {i \<in> ba_set b. int i \<in> set ys}"
  let ?I = "\<lambda>ys d. ba_ok d \<and> ba_Bits d = ba_Bits c \<and> (\<forall>y\<in>set ys. 0 \<le> y \<and> y < ba_Bits b \<and> y < ba_Bits c) \<and>
    ba_set d - {i \<in> ba_set b. int i \<in> set ys} = R"
  let ?f = "\<lambda>idx c. do { x \<leftarrow> ba_getIndex c idx; y \<leftarrow> ba_getIndex b idx;
      (r, c') \<leftarrow> ba_setIndex c idx (x \<and> \<not> y); Some c' }"
  have "\<exists>d'. for_each ?f ys c = Some d' \<and> ?I [] d'"
  proof (rule for_each_inv [where I = ?I])
    show "?I ys c" using assms by (simp add: R_def)
    fix x zs d assume I: "?I (x # zs) d"
    then obtain i where x: "x = int i" by (auto dest: nonneg_int_cases)
    have i: "ba_ok d" "int i < ba_Bits d" using I x by auto
    obtain d' where d': "ba_setIndex d (int i) (i \<in> ba_set d \<and> i \<notin> ba_set b) = Some (True, d')" "ba_ok d'"
        "ba_Bits d' = ba_Bits d"
        "ba_set d' = (if i \<in> ba_set d \<and> i \<notin> ba_set b then insert i (ba_set d) else ba_set d - {i})"
      by (rule setIndex_set [OF i])
    have "?f x d = Some d'" using d'(1) by (simp add: x getIndex_set [OF i(1)] getIndex_set [OF assms(2)])
    moreover have "ba_set d' - {j \<in> ba_set b. int j \<in> set zs} = ba_set d - {j \<in> ba_set b. int j \<in> set (x # zs)}"
      using d'(4) x by auto
    ultimately show "\<exists>d'. ?f x d = Some d' \<and> ?I zs d'" using d' I by auto
  qed
  then show ?thesis by (auto simp: R_def)
qed

lemma ba_Sub_longer:
  assumes "ba_ok a" "ba_ok b" "ba_Bits b < ba_Bits a"
  obtains c where "ba_Sub (Some a) (Some b) = Some (Some c)" "ba_ok c" "ba_Bits c = ba_Bits a"
    "ba_set c = {i \<in> ba_set a. 64 * (length (ba_Elems b) - 1) \<le> i} - ba_set b"
proof -
  let ?n = "length (ba_Elems b)"
  let ?es = "map (\<lambda>e. e AND NOT e) (take (?n - 1) (ba_Elems a)) @ drop (?n - 1) (ba_Elems a)"
  let ?c = "a\<lparr>ba_Elems := ?es\<rparr>"
  have n: "?n \<le> length (ba_Elems a)" using ba_ok_len_mono [OF assms(2,1)] assms(3) by simp
  have len: "length ?es = length (ba_Elems a)" using n by simp
  have c: "ba_ok ?c" using assms(1) len by (simp add: ba_ok_def)
  have nth: "?es ! k = (if k < ?n - 1 then 0 else ba_Elems a ! k)" if "k < length (ba_Elems a)" for k
    using n that by (auto simp: nth_append)
  have sc: "ba_set ?c = {i \<in> ba_set a. 64 * (?n - 1) \<le> i}"
  proof (rule set_eqI)
    fix i
    have "64 * (?n - 1) \<le> i \<longleftrightarrow> \<not> i div 64 < ?n - 1" by auto
    moreover have "i \<in> ba_set ?c \<longleftrightarrow> int i < ba_Bits a \<and> bit (?es ! (i div 64)) (i mod 64)"
      unfolding ba_set_words [OF c] by simp
    ultimately show "i \<in> ba_set ?c \<longleftrightarrow> i \<in> {i \<in> ba_set a. 64 * (?n - 1) \<le> i}"
      using nth [OF ba_okD(1) [OF assms(1)], of i] unfolding mem_Collect_eq ba_set_words [OF assms(1)] by (auto simp only: bit_0_eq bot_apply bot_bool_def split: if_splits)
  qed
  let ?ys = "[int (?n - 1) * 64..ba_Bits b - 1]"
  obtain d where d: "for_each (\<lambda>idx c. do { x \<leftarrow> ba_getIndex c idx; y \<leftarrow> ba_getIndex b idx;
      (r, c') \<leftarrow> ba_setIndex c idx (x \<and> \<not> y); Some c' }) ?ys ?c = Some d" "ba_ok d" "ba_Bits d = ba_Bits a"
      "ba_set d = ba_set ?c - {i \<in> ba_set b. int i \<in> set ?ys}"
    using sub_loop [OF c assms(2), of ?ys] assms(3) by auto
  have "ba_Sub (Some a) (Some b) = Some (Some d)"
    using assms(3) n d(1) last_width(1) [OF assms(2)] by (simp add: ba_Sub_def Let_def)
  moreover have "ba_set d = {i \<in> ba_set a. 64 * (?n - 1) \<le> i} - ba_set b"
    using d(4) sc by (auto simp: ba_set_def)
  ultimately show ?thesis using that d by blast
qed


section \<open>Properties\<close>

text \<open>A history of \<open>SetIndex\<close> calls, and the same history on sets of indices below the size.\<close>

definition set_all :: "(nat \<times> bool) list \<Rightarrow> BitArray option \<Rightarrow> BitArray option option" where
  "set_all us = for_each (\<lambda>(i, v) bA. map_option snd (ba_SetIndex bA (int i) v)) us"

definition spec_all :: "nat \<Rightarrow> (nat \<times> bool) list \<Rightarrow> nat set \<Rightarrow> nat set" where
  "spec_all n = fold (\<lambda>(i, v) S. if i < n then (if v then insert i S else S - {i}) else S)"

lemma set_all_spec:
  assumes "ba_ok a"
  shows "\<exists>c. set_all us (Some a) = Some (Some c) \<and> ba_ok c \<and> ba_Bits c = ba_Bits a \<and>
    ba_set c = spec_all (nat (ba_Bits a)) us (ba_set a)"
  using assms
proof (induction us arbitrary: a)
  case Nil
  then show ?case by (simp add: set_all_def spec_all_def)
next
  case (Cons u us)
  obtain i v where u: "u = (i, v)" by force
  show ?case
  proof (cases "int i < ba_Bits a")
    case True
    obtain a' where a': "ba_setIndex a (int i) v = Some (True, a')" "ba_ok a'" "ba_Bits a' = ba_Bits a"
      "ba_set a' = (if v then insert i (ba_set a) else ba_set a - {i})"
      by (rule setIndex_set [OF Cons.prems True])
    have "i < nat (ba_Bits a)" using True by simp
    then show ?thesis using Cons.IH [OF a'(2)] a' by (simp add: set_all_def spec_all_def u ba_SetIndex_def)
  next
    case False
    then have "ba_setIndex a (int i) v = Some (False, a)" "\<not> i < nat (ba_Bits a)" by (simp_all add: ba_setIndex_def)
    then show ?thesis using Cons.IH [OF Cons.prems] by (simp add: set_all_def spec_all_def u ba_SetIndex_def)
  qed
qed

text \<open>Claim C14.  A bit array made by \<open>NewBitArray\<close> and changed by any history of \<open>SetIndex\<close> calls, in or out of
  range, never panics and behaves as a set of indices below its size: \<open>GetIndex\<close> answers membership, and
  \<open>IsFull\<close> answers whether every index is in the set.\<close>

theorem bit_array_is_set:
  assumes "0 < n"
  shows "\<exists>bA. set_all us (NewBitArray (int n)) = Some bA \<and> ba_Size bA = int n \<and>
    (\<forall>i. ba_GetIndex bA (int i) = Some (i \<in> spec_all n us {})) \<and>
    ba_IsFull bA = Some ({0..<n} \<subseteq> spec_all n us {})"
proof -
  obtain a where a: "NewBitArray (int n) = Some a" "ba_ok a" "ba_Bits a = int n" "ba_set a = {}"
    using NewBitArray_ok [of "int n"] assms by auto
  obtain c where c: "set_all us (Some a) = Some (Some c)" "ba_ok c" "ba_Bits c = int n" "ba_set c = spec_all n us {}"
    using set_all_spec [OF a(2), of us] a by auto
  show ?thesis unfolding a(1)
    using c IsFull_words [OF c(2)] getIndex_set [OF c(2)]
    by (auto simp: ba_Size_def ba_GetIndex_def subset_iff)
qed

theorem bit_array_is_set_witness:
  "\<exists>bA. set_all [(3, True), (70, True), (3, False), (90, True)] (NewBitArray 80) = Some bA \<and>
    ba_GetIndex bA 70 = Some True \<and> ba_GetIndex bA 3 = Some False \<and> ba_GetIndex bA 90 = Some False"
proof -
  obtain bA where "set_all [(3, True), (70, True), (3, False), (90, True)] (NewBitArray 80) = Some bA"
    and g: "\<And>i. ba_GetIndex bA (int i) = Some (i \<in> spec_all 80 [(3, True), (70, True), (3, False), (90, True)] {})"
    using bit_array_is_set [of 80 "[(3, True), (70, True), (3, False), (90, True)]"] by auto
  with g [of 70] g [of 3] g [of 90] show ?thesis by (auto simp: spec_all_def)
qed

text \<open>On well-formed arrays \<open>And\<close>, \<open>Not\<close> and \<open>Sub\<close> do not panic and are intersection, complement and
  difference of the index sets, except that \<open>Sub\<close> by a shorter array also loses every index in the words of the
  shorter array before its last.  \<open>Or\<close> by an array with at least as many words is union.\<close>

theorem bit_array_algebra:
  assumes "ba_ok a" "ba_ok b"
  shows "(\<exists>c. ba_And (Some a) (Some b) = Some (Some c) \<and> ba_set c = ba_set a \<inter> ba_set b) \<and>
    (\<exists>c. ba_Not (Some a) = Some c \<and> ba_set c = {i. int i < ba_Bits a} - ba_set a) \<and>
    (\<exists>c. ba_Sub (Some a) (Some b) = Some (Some c) \<and>
      ba_set c = {i \<in> ba_set a - ba_set b. ba_Bits a \<le> ba_Bits b \<or> 64 * (length (ba_Elems b) - 1) \<le> i}) \<and>
    (length (ba_Elems a) \<le> length (ba_Elems b) \<longrightarrow>
      (\<exists>c. ba_Or (Some a) (Some b) = Some (Some c) \<and> (\<forall>i. raw_bit c i \<longleftrightarrow> raw_bit a i \<or> raw_bit b i)))"
proof (intro conjI impI)
  show "\<exists>c. ba_And (Some a) (Some b) = Some (Some c) \<and> ba_set c = ba_set a \<inter> ba_set b"
    by (rule ba_and_set [OF assms]) (simp add: ba_And_def)
  show "\<exists>c. ba_Not (Some a) = Some c \<and> ba_set c = {i. int i < ba_Bits a} - ba_set a"
    using ba_Not_set(2) [OF assms(1)] by (simp add: ba_Not_def)
  show "\<exists>c. ba_Sub (Some a) (Some b) = Some (Some c) \<and>
      ba_set c = {i \<in> ba_set a - ba_set b. ba_Bits a \<le> ba_Bits b \<or> 64 * (length (ba_Elems b) - 1) \<le> i}"
  proof (cases "ba_Bits b < ba_Bits a")
    case True
    then have eq: "{i \<in> ba_set a - ba_set b. ba_Bits a \<le> ba_Bits b \<or> 64 * (length (ba_Elems b) - 1) \<le> i}
        = {i \<in> ba_set a. 64 * (length (ba_Elems b) - 1) \<le> i} - ba_set b" by auto
    show ?thesis unfolding eq by (rule ba_Sub_longer [OF assms True]) blast
  next
    case False
    have eq: "{i \<in> ba_set a - ba_set b. ba_Bits a \<le> ba_Bits b \<or> 64 * (length (ba_Elems b) - 1) \<le> i}
        = ba_set a \<inter> ({i. int i < ba_Bits b} - ba_set b)" using False by (auto simp: ba_set_def)
    obtain c where "ba_and a (b\<lparr>ba_Elems := map (\<lambda>e. NOT e) (ba_Elems b)\<rparr>) = Some c"
        "ba_set c = ba_set a \<inter> ba_set (b\<lparr>ba_Elems := map (\<lambda>e. NOT e) (ba_Elems b)\<rparr>)"
      by (rule ba_and_set [OF assms(1) ba_Not_set(1) [OF assms(2)]])
    then show ?thesis using False unfolding eq ba_Not_set(2) [OF assms(2)] by (simp add: ba_Sub_def)
  qed
  assume "length (ba_Elems a) \<le> length (ba_Elems b)"
  then show "\<exists>c. ba_Or (Some a) (Some b) = Some (Some c) \<and> (\<forall>i. raw_bit c i \<longleftrightarrow> raw_bit a i \<or> raw_bit b i)"
    by (rule ba_Or_set [OF assms]) blast
qed

theorem bit_array_algebra_witness:
  "\<exists>c. ba_Sub (Some \<lparr>ba_Bits = 130, ba_Elems = [1, 2, 3]\<rparr>) (Some \<lparr>ba_Bits = 70, ba_Elems = [0, 2]\<rparr>) = Some (Some c) \<and>
    0 \<notin> ba_set c \<and> 128 \<in> ba_set c \<and> 65 \<notin> ba_set c"
proof -
  let ?a = "\<lparr>ba_Bits = 130, ba_Elems = [1, 2, 3]\<rparr>" and ?b = "\<lparr>ba_Bits = 70, ba_Elems = [0, 2]\<rparr>"
  obtain c where c: "ba_Sub (Some ?a) (Some ?b) = Some (Some c)"
      "ba_set c = {i \<in> ba_set ?a - ba_set ?b. ba_Bits ?a \<le> ba_Bits ?b \<or> 64 * (length (ba_Elems ?b) - 1) \<le> i}"
    using bit_array_algebra [of ?a ?b] by (auto simp: ba_ok_def)
  have "0 \<notin> ba_set c" "128 \<in> ba_set c" "65 \<notin> ba_set c" unfolding c(2) by (simp_all add: ba_set_def raw_bit_def)
  then show ?thesis using c(1) by blast
qed

text \<open>Whatever the random numbers, \<open>PickRandom\<close> on a well-formed array does not panic; it returns a member
  of the array when it reports success, and it reports failure only when the array has no member.\<close>

theorem pick_random_finds:
  assumes "ba_ok a"
  shows "\<exists>i found. ba_PickRandom randE randB (Some a) = Some (i, found) \<and>
    (found \<longleftrightarrow> ba_set a \<noteq> {}) \<and> (found \<longrightarrow> i \<in> ba_set a)"
proof -
  let ?n = "length (ba_Elems a)"
  let ?ks = "map (\<lambda>i. (i + randE ?n) mod ?n) [0..<?n]"
  have n: "0 < ?n" using last_width(1) [OF assms] by simp
  then have "\<forall>k\<in>set ?ks. k < ?n" by simp
  from pick_elems_spec [OF assms this, of randB] obtain i found where p: "pick_elems randB a ?ks = Some (i, found)"
    "if found then i \<in> ba_set a else i = 0 \<and> (\<forall>j\<in>ba_set a. j div 64 \<notin> set ?ks)" by blast
  have "k \<in> set ?ks" if "k < ?n" for k using rotation_onto [OF that, of "randE ?n"] by force
  then have "\<not> found \<Longrightarrow> ba_set a = {}" using p(2) ba_okD(1) [OF assms] by (fastforce simp: ba_set_def)
  then show ?thesis using p n by (auto simp: ba_PickRandom_def Let_def split: if_splits)
qed

theorem pick_random_finds_witness:
  "\<exists>i found. ba_PickRandom (\<lambda>n. 1) (\<lambda>k w. 5) (Some \<lparr>ba_Bits = 70, ba_Elems = [8, 0]\<rparr>) = Some (i, found) \<and> found"
proof -
  have "3 \<in> ba_set \<lparr>ba_Bits = 70, ba_Elems = [8, 0]\<rparr>" by (simp add: ba_set_def raw_bit_def bit_iff_odd_drop_bit)
  then show ?thesis
    using pick_random_finds [of "\<lparr>ba_Bits = 70, ba_Elems = [8, 0]\<rparr>" "\<lambda>n. 1" "\<lambda>k w. 5"] by (auto simp: ba_ok_def)
qed

end
