(* ===== verification/PartSet.thy ===== *)
theory PartSet
  imports Merkle BitArray
begin

text \<open>
  \<open>consensus/algorand/types/partSet.go\<close>: a block is split into parts that travel separately, each with a
  Merkle proof against the root in the part set header.  \<open>None\<close> as the result of an operation is a run-time panic.
  The digest is the parameter \<open>rip\<close>.
\<close>

section \<open>Model\<close>

record Part =
  pt_Index :: int
  pt_Bytes :: bytes
  pt_Proof :: "bytes list"
  pt_hash :: "bytes option"

text \<open>The hash is cached in the part: the call returns the part with its cache filled.\<close>

definition Part_Hash :: "(bytes \<Rightarrow> bytes) \<Rightarrow> Part \<Rightarrow> bytes \<times> Part" where
  "Part_Hash rip part = (case pt_hash part of Some h \<Rightarrow> (h, part)
     | None \<Rightarrow> (rip (pt_Bytes part), part\<lparr>pt_hash := Some (rip (pt_Bytes part))\<rparr>))"

record PartSetHeader =
  psh_Total :: int
  psh_Hash :: bytes

definition psh_IsZero :: "PartSetHeader \<Rightarrow> bool" where
  "psh_IsZero psh \<longleftrightarrow> psh_Total psh = 0"

definition psh_Equals :: "PartSetHeader \<Rightarrow> PartSetHeader \<Rightarrow> bool" where
  "psh_Equals psh other \<longleftrightarrow> psh_Total psh = psh_Total other \<and> psh_Hash psh = psh_Hash other"

record PartSet =
  ps_total :: int
  ps_hash :: bytes
  ps_parts :: "Part option list"
  ps_partsBitArray :: "BitArray option"
  ps_count :: int

definition data_slice :: "bytes \<Rightarrow> nat \<Rightarrow> nat \<Rightarrow> bytes" where
  "data_slice data lo hi = take (hi - lo) (drop lo data)"

definition mark_bit :: "nat \<Rightarrow> BitArray option \<Rightarrow> BitArray option option" where
  "mark_bit i bA = map_option snd (ba_SetIndex bA (int i) True)"

text \<open>A part size of zero divides by zero; no data at all makes the proof construction panic.\<close>

definition NewPartSetFromData :: "(bytes \<Rightarrow> bytes) \<Rightarrow> bytes \<Rightarrow> nat \<Rightarrow> PartSet option" where
  "NewPartSetFromData rip data partSize =
     (if partSize = 0 then None
      else
        let tot = (length data + partSize - 1) div partSize;
            chunks = map (\<lambda>i. data_slice data (i * partSize) (min (length data) ((i + 1) * partSize))) [0..<tot]
        in do {
          bits \<leftarrow> for_each mark_bit [0..<tot] (NewBitArray (int tot));
          (root, proofs) \<leftarrow> SimpleProofsFromHashers rip (map rip chunks);
          Some \<lparr> ps_total = int tot, ps_hash = root,
                 ps_parts = map (\<lambda>i. Some \<lparr> pt_Index = int i, pt_Bytes = chunks ! i, pt_Proof = proofs ! i,
                                            pt_hash = Some (rip (chunks ! i)) \<rparr>) [0..<tot],
                 ps_partsBitArray = bits, ps_count = int tot \<rparr> })"

definition NewPartSetFromHeader :: "PartSetHeader \<Rightarrow> PartSet option" where
  "NewPartSetFromHeader header = (if psh_Total header < 0 then None
     else Some \<lparr> ps_total = psh_Total header, ps_hash = psh_Hash header,
                 ps_parts = replicate (nat (psh_Total header)) None,
                 ps_partsBitArray = NewBitArray (psh_Total header), ps_count = 0 \<rparr>)"

definition ps_Header :: "PartSet option \<Rightarrow> PartSetHeader" where
  "ps_Header p = (case p of None \<Rightarrow> \<lparr> psh_Total = 0, psh_Hash = [] \<rparr>
     | Some ps \<Rightarrow> \<lparr> psh_Total = ps_total ps, psh_Hash = ps_hash ps \<rparr>)"

definition ps_HasHeader :: "PartSet option \<Rightarrow> PartSetHeader \<Rightarrow> bool" where
  "ps_HasHeader p header = (case p of None \<Rightarrow> False | Some ps \<Rightarrow> psh_Equals (ps_Header (Some ps)) header)"

definition ps_BitArray :: "PartSet \<Rightarrow> BitArray option" where
  "ps_BitArray ps = ba_Copy (ps_partsBitArray ps)"

definition ps_Hash :: "PartSet option \<Rightarrow> bytes" where
  "ps_Hash p = (case p of None \<Rightarrow> [] | Some ps \<Rightarrow> ps_hash ps)"

definition ps_HashesTo :: "PartSet option \<Rightarrow> bytes \<Rightarrow> bool" where
  "ps_HashesTo p h = (case p of None \<Rightarrow> False | Some ps \<Rightarrow> ps_hash ps = h)"

definition ps_Count :: "PartSet option \<Rightarrow> int" where
  "ps_Count p = (case p of None \<Rightarrow> 0 | Some ps \<Rightarrow> ps_count ps)"

definition ps_Total :: "PartSet option \<Rightarrow> int" where
  "ps_Total p = (case p of None \<Rightarrow> 0 | Some ps \<Rightarrow> ps_total ps)"

datatype part_error = ErrPartSetUnexpectedIndex | ErrPartSetInvalidProof

text \<open>An index outside the slice panics, a negative one included: only \<open>part.Index >= ps.total\<close> is tested.\<close>

definition part_slot :: "PartSet \<Rightarrow> int \<Rightarrow> nat option" where
  "part_slot ps index = (if 0 \<le> index \<and> nat index < length (ps_parts ps) then Some (nat index) else None)"

definition ps_AddPart :: "(bytes \<Rightarrow> bytes) \<Rightarrow> PartSet \<Rightarrow> Part \<Rightarrow> bool \<Rightarrow> ((bool \<times> part_error option) \<times> PartSet) option" where
  "ps_AddPart rip ps part verify =
     (if pt_Index part \<ge> ps_total ps then Some ((False, Some ErrPartSetUnexpectedIndex), ps)
      else do {
        k \<leftarrow> part_slot ps (pt_Index part);
        if ps_parts ps ! k \<noteq> None then Some ((False, None), ps)
        else
          let (leaf, hashed) = Part_Hash rip part;
              part' = (if verify then hashed else part)
          in
          if verify \<and> \<not> SimpleProof_Verify rip (pt_Proof part) (pt_Index part) (ps_total ps) leaf (ps_Hash (Some ps))
          then Some ((False, Some ErrPartSetInvalidProof), ps)
          else do {
            bits \<leftarrow> mark_bit k (ps_partsBitArray ps);
            Some ((True, None), ps\<lparr>ps_parts := (ps_parts ps)[k := Some part'], ps_partsBitArray := bits,
                                   ps_count := ps_count ps + 1\<rparr>) } })"

definition ps_GetPart :: "PartSet \<Rightarrow> int \<Rightarrow> Part option option" where
  "ps_GetPart ps index = map_option (\<lambda>k. ps_parts ps ! k) (part_slot ps index)"

definition ps_IsComplete :: "PartSet \<Rightarrow> bool" where
  "ps_IsComplete ps \<longleftrightarrow> ps_count ps = ps_total ps"

subsection \<open>Reading the parts back\<close>

text \<open>\<open>bytes.Reader\<close> over what is left of one part: at its end every read is EOF, even of nothing.\<close>

definition reader_Read :: "bytes \<Rightarrow> nat \<Rightarrow> (bytes \<times> bool) \<times> bytes" where
  "reader_Read rd n = (if rd = [] then (([], True), []) else ((take n rd, False), drop n rd))"

record PartSetReader =
  psr_i :: nat
  psr_parts :: "Part option list"
  psr_reader :: bytes

definition NewPartSetReader :: "Part option list \<Rightarrow> PartSetReader option" where
  "NewPartSetReader parts = (case parts of Some p # _ \<Rightarrow> Some \<lparr> psr_i = 0, psr_parts = parts, psr_reader = pt_Bytes p \<rparr> | _ \<Rightarrow> None)"

definition ps_GetReader :: "PartSet \<Rightarrow> PartSetReader option" where
  "ps_GetReader ps = (if ps_IsComplete ps then NewPartSetReader (ps_parts ps) else None)"

text \<open>
  \<open>Read\<close> into a buffer of \<open>n\<close> bytes: the bytes written, whether the error is EOF, and the reader after it.  The first of
  the two nested calls asks for exactly what the current part has left, so it is a read of that part.
\<close>

function psr_Read :: "PartSetReader \<Rightarrow> nat \<Rightarrow> ((bytes \<times> bool) \<times> PartSetReader) option" where
  "psr_Read psr n =
     (let readerLen = length (psr_reader psr) in
      if readerLen \<ge> n then
        let (r, rd) = reader_Read (psr_reader psr) n in Some (r, psr\<lparr>psr_reader := rd\<rparr>)
      else if readerLen > 0 then
        let ((b1, eof1), rd) = reader_Read (psr_reader psr) readerLen in
        if eof1 then Some ((b1, True), psr\<lparr>psr_reader := rd\<rparr>)
        else do {
          ((b2, eof2), psr') \<leftarrow> psr_Read (psr\<lparr>psr_reader := rd\<rparr>) (n - readerLen);
          Some ((b1 @ b2, eof2), psr') }
      else
        let psr1 = psr\<lparr>psr_i := psr_i psr + 1\<rparr> in
        if psr_i psr1 \<ge> length (psr_parts psr1) then Some (([], True), psr1)
        else (case psr_parts psr1 ! psr_i psr1 of
                None \<Rightarrow> None
              | Some p \<Rightarrow> psr_Read (psr1\<lparr>psr_reader := pt_Bytes p\<rparr>) n))"
  by pat_completeness auto
termination
  by (relation "measures [\<lambda>(psr, n). length (psr_parts psr) - psr_i psr, \<lambda>(psr, n). n]") auto

declare psr_Read.simps [simp del]

section \<open>Invariant\<close>

definition filled :: "PartSet \<Rightarrow> nat set" where
  "filled ps = {i. i < length (ps_parts ps) \<and> ps_parts ps ! i \<noteq> None}"

definition ps_ok :: "PartSet \<Rightarrow> bool" where
  "ps_ok ps \<longleftrightarrow> 0 \<le> ps_total ps \<and> length (ps_parts ps) = nat (ps_total ps) \<and>
     (case ps_partsBitArray ps of None \<Rightarrow> ps_total ps = 0
      | Some a \<Rightarrow> ba_ok a \<and> ba_Bits a = ps_total ps \<and> ba_set a = filled ps) \<and>
     ps_count ps = int (card (filled ps)) \<and>
     (\<forall>i p. i < length (ps_parts ps) \<longrightarrow> ps_parts ps ! i = Some p \<longrightarrow> pt_Index p = int i)"

text \<open>A part off the wire has no cached hash; a cache that is filled holds the hash of the bytes.\<close>

definition part_ok :: "(bytes \<Rightarrow> bytes) \<Rightarrow> Part \<Rightarrow> bool" where
  "part_ok rip p \<longleftrightarrow> (\<forall>h. pt_hash p = Some h \<longrightarrow> h = rip (pt_Bytes p))"

section \<open>Lemmas\<close>

lemma filled_finite [simp]: "finite (filled ps)"
  by (simp add: filled_def)

lemma filled_update:
  "k < length (ps_parts ps) \<Longrightarrow> filled (ps\<lparr>ps_parts := (ps_parts ps)[k := Some q], ps_partsBitArray := b, ps_count := n\<rparr>) = insert k (filled ps)"
  by (auto simp: filled_def nth_list_update)

lemma mark_bit_ok:
  assumes "ba_ok a" "int i < ba_Bits a"
  obtains a' where "mark_bit i (Some a) = Some (Some a')" "ba_ok a'" "ba_Bits a' = ba_Bits a" "ba_set a' = insert i (ba_set a)"
proof -
  obtain a' where "ba_setIndex a (int i) True = Some (True, a')" "ba_ok a'" "ba_Bits a' = ba_Bits a" "ba_set a' = insert i (ba_set a)"
    by (rule setIndex_set [OF assms, where v = True]) simp
  then show ?thesis by (intro that [of a']) (simp_all add: mark_bit_def ba_SetIndex_def)
qed

lemma set_bits_ok:
  assumes "ba_ok a" "\<forall>i\<in>set is. int i < ba_Bits a"
  shows "\<exists>a'. for_each mark_bit is (Some a) = Some (Some a') \<and> ba_ok a' \<and> ba_Bits a' = ba_Bits a \<and> ba_set a' = set is \<union> ba_set a"
  using assms
proof (induction "is" arbitrary: a)
  case (Cons i js)
  obtain a' where a': "mark_bit i (Some a) = Some (Some a')" "ba_ok a'" "ba_Bits a' = ba_Bits a" "ba_set a' = insert i (ba_set a)"
    by (rule mark_bit_ok [of a i]) (use Cons.prems in auto)
  with Cons.IH [of a'] Cons.prems show ?case by auto
qed simp

lemma Part_Hash_ok: "part_ok rip p \<Longrightarrow> fst (Part_Hash rip p) = rip (pt_Bytes p) \<and> part_ok rip (snd (Part_Hash rip p)) \<and>
    pt_Bytes (snd (Part_Hash rip p)) = pt_Bytes p \<and> pt_Index (snd (Part_Hash rip p)) = pt_Index p \<and> pt_Proof (snd (Part_Hash rip p)) = pt_Proof p"
  by (auto simp: Part_Hash_def part_ok_def split: option.splits)

lemma NewPartSetFromHeader_ok: "0 \<le> psh_Total h \<Longrightarrow> \<exists>ps. NewPartSetFromHeader h = Some ps \<and> ps_ok ps \<and> filled ps = {} \<and> ps_Header (Some ps) = h"
  using NewBitArray_ok [of "psh_Total h"]
  by (cases "psh_Total h = 0") (auto simp: NewPartSetFromHeader_def ps_ok_def filled_def ps_Header_def NewBitArray_def)

text \<open>The index of a part that is not refused and does not panic.\<close>

lemma AddPart_step:
  assumes "ps_ok ps" "part_ok rip part" "0 \<le> pt_Index part"
  obtains r ps' where "ps_AddPart rip ps part verify = Some (r, ps')" "ps_ok ps'" "ps_total ps' = ps_total ps" "ps_hash ps' = ps_hash ps"
    "if fst r then
       nat (pt_Index part) < length (ps_parts ps) \<and> ps_parts ps ! nat (pt_Index part) = None \<and>
       (verify \<longrightarrow> SimpleProof_Verify rip (pt_Proof part) (pt_Index part) (ps_total ps) (rip (pt_Bytes part)) (ps_hash ps)) \<and>
       (\<exists>q. ps_parts ps' = (ps_parts ps)[nat (pt_Index part) := Some q] \<and> pt_Bytes q = pt_Bytes part \<and> pt_Proof q = pt_Proof part)
     else ps' = ps \<and>
       (pt_Index part < ps_total ps \<and> ps_parts ps ! nat (pt_Index part) = None \<longrightarrow>
         verify \<and> \<not> SimpleProof_Verify rip (pt_Proof part) (pt_Index part) (ps_total ps) (rip (pt_Bytes part)) (ps_hash ps))"
proof (cases "pt_Index part \<ge> ps_total ps")
  case True
  then show ?thesis using that assms(1) by (simp add: ps_AddPart_def)
next
  case False
  let ?k = "nat (pt_Index part)"
  let ?V = "SimpleProof_Verify rip (pt_Proof part) (pt_Index part) (ps_total ps) (rip (pt_Bytes part)) (ps_hash ps)"
  obtain leaf hashed where H: "Part_Hash rip part = (leaf, hashed)" by force
  note h = Part_Hash_ok [OF assms(2), unfolded H fst_conv snd_conv]
  have k: "?k < length (ps_parts ps)" using False assms(1,3) by (auto simp: ps_ok_def)
  have slot: "part_slot ps (pt_Index part) = Some ?k" using k assms(3) by (simp add: part_slot_def)
  show ?thesis
  proof (cases "ps_parts ps ! ?k \<noteq> None \<or> verify \<and> \<not> ?V")
    case True
    then have "\<exists>e. ps_AddPart rip ps part verify = Some ((False, e), ps)"
      using False slot h H by (auto simp: ps_AddPart_def ps_Hash_def)
    then obtain e where eq: "ps_AddPart rip ps part verify = Some ((False, e), ps)" by blast
    show ?thesis by (rule that [OF eq]) (use assms(1) True in auto)
  next
    case new: False
    have "ps_total ps \<noteq> 0" using False assms(3) by simp
    then obtain a where a: "ps_partsBitArray ps = Some a" "ba_ok a" "ba_Bits a = ps_total ps" "ba_set a = filled ps"
      using assms(1) by (auto simp: ps_ok_def split: option.splits)
    obtain a' where a': "mark_bit ?k (Some a) = Some (Some a')" "ba_ok a'" "ba_Bits a' = ba_Bits a" "ba_set a' = insert ?k (ba_set a)"
      by (rule mark_bit_ok [OF a(2), of ?k]) (use False a(3) assms(3) in auto)
    let ?q = "if verify then hashed else part"
    let ?ps' = "ps\<lparr>ps_parts := (ps_parts ps)[?k := Some ?q], ps_partsBitArray := Some a', ps_count := ps_count ps + 1\<rparr>"
    have eq: "ps_AddPart rip ps part verify = Some ((True, None), ?ps')"
      using False slot new h H a(1) a'(1) by (simp add: ps_AddPart_def ps_Hash_def)
    have q: "pt_Index ?q = int ?k" "pt_Bytes ?q = pt_Bytes part" "pt_Proof ?q = pt_Proof part" using h assms(3) by auto
    have "?k \<notin> filled ps" using new by (simp add: filled_def)
    then have "ps_ok ?ps'" using assms(1) a a' q(1) k unfolding ps_ok_def filled_update [OF k]
      by (auto simp: nth_list_update split: if_splits)
    then show ?thesis by (rule that [OF eq]) (use new k q(2,3) in auto)
  qed
qed


subsection \<open>Reading\<close>

definition psr_left :: "PartSetReader \<Rightarrow> bytes" where
  "psr_left psr = psr_reader psr @ concat (map (\<lambda>p. pt_Bytes (the p)) (drop (Suc (psr_i psr)) (psr_parts psr)))"

lemma psr_left_next:
  "Suc (psr_i psr) < length (psr_parts psr) \<Longrightarrow> psr_reader psr = [] \<Longrightarrow>
   psr_left psr = psr_left (psr\<lparr>psr_i := Suc (psr_i psr), psr_reader := pt_Bytes (the (psr_parts psr ! Suc (psr_i psr)))\<rparr>)"
  by (simp add: psr_left_def Cons_nth_drop_Suc [symmetric])

lemma psr_Read_spec:
  assumes "\<forall>p\<in>set (psr_parts psr). p \<noteq> None" "0 < n"
  shows "\<exists>psr'. psr_Read psr n = Some ((take n (psr_left psr), length (psr_left psr) < n), psr') \<and>
    psr_left psr' = drop n (psr_left psr) \<and> psr_parts psr' = psr_parts psr"
  using assms
proof (induction psr n rule: psr_Read.induct)
  case (1 psr n)
  let ?rd = "psr_reader psr"
  consider (here) "n \<le> length ?rd" | (cross) "0 < length ?rd" "length ?rd < n" | (next_part) "?rd = []" by fastforce
  then show ?case
  proof cases
    case here
    then have "?rd \<noteq> []" using 1(4) by auto
    then show ?thesis using here by (subst psr_Read.simps) (simp add: reader_Read_def psr_left_def)
  next
    case cross
    let ?psr0 = "psr\<lparr>psr_reader := []\<rparr>"
    have left: "psr_left psr = ?rd @ psr_left ?psr0" by (simp add: psr_left_def)
    have rr: "reader_Read ?rd (length ?rd) = ((?rd, False), [])" using cross by (simp add: reader_Read_def)
    obtain psr' where "psr_Read ?psr0 (n - length ?rd) =
        Some ((take (n - length ?rd) (psr_left ?psr0), length (psr_left ?psr0) < n - length ?rd), psr')"
      "psr_left psr' = drop (n - length ?rd) (psr_left ?psr0)" "psr_parts psr' = psr_parts psr"
      using 1(1) [OF refl _ _ rr [symmetric] refl refl] cross 1(3) by auto
    then show ?thesis using cross rr by (subst psr_Read.simps) (simp add: left Let_def less_diff_conv2 less_diff_conv add.commute)
  next
    case next_part
    show ?thesis
    proof (cases "Suc (psr_i psr) < length (psr_parts psr)")
      case False
      then show ?thesis using next_part 1(4) by (subst psr_Read.simps) (simp add: psr_left_def)
    next
      case True
      then obtain p where p: "psr_parts psr ! Suc (psr_i psr) = Some p" using 1(3) nth_mem by blast
      let ?psr1 = "psr\<lparr>psr_i := Suc (psr_i psr), psr_reader := pt_Bytes p\<rparr>"
      have left: "psr_left psr = psr_left ?psr1" using psr_left_next [OF True next_part] p by simp
      have "\<exists>psr'. psr_Read ?psr1 n = Some ((take n (psr_left ?psr1), length (psr_left ?psr1) < n), psr') \<and>
          psr_left psr' = drop n (psr_left ?psr1) \<and> psr_parts psr' = psr_parts psr"
        using 1(2) [of _ _ p] next_part True 1(3,4) p by auto
      moreover have "psr_Read psr n = psr_Read ?psr1 n"
        using next_part True p 1(4) by (subst psr_Read.simps) simp
      ultimately show ?thesis unfolding left by simp
    qed
  qed
qed

subsection \<open>The parts of some data\<close>

definition num_parts :: "bytes \<Rightarrow> nat \<Rightarrow> nat" where
  "num_parts data partSize = (length data + partSize - 1) div partSize"

definition chunk :: "bytes \<Rightarrow> nat \<Rightarrow> nat \<Rightarrow> bytes" where
  "chunk data partSize i = take partSize (drop (i * partSize) data)"

lemma data_slice_chunk: "data_slice data (i * k) (min (length data) ((i + 1) * k)) = chunk data k i"
  by (simp add: data_slice_def chunk_def min_def)

lemma concat_chunks: "length data \<le> n * k \<Longrightarrow> concat (map (chunk data k) [0..<n]) = data"
proof -
  have "concat (map (chunk data k) [0..<m]) = take (m * k) data" for m
    by (induction m) (simp_all add: chunk_def take_add [symmetric] add.commute)
  then show "length data \<le> n * k \<Longrightarrow> ?thesis" by simp
qed

lemma num_parts:
  assumes "0 < k" "data \<noteq> []"
  shows "0 < num_parts data k" "length data \<le> num_parts data k * k"
proof -
  have "length data \<le> num_parts data k * k \<and> 0 < num_parts data k"
  proof -
    have "(length data + k - 1) div k * k + (length data + k - 1) mod k = length data + k - 1" by simp
    moreover have "(length data + k - 1) mod k < k" using assms(1) by simp
    moreover have "k \<le> length data + k - 1" using assms(2) by (cases data) auto
    then have "0 < (length data + k - 1) div k" using assms(1) by (simp add: div_greater_zero_iff)
    ultimately show ?thesis unfolding num_parts_def by linarith
  qed
  then show "0 < num_parts data k" "length data \<le> num_parts data k * k" by auto
qed


lemma NewPartSetFromData_ok:
  assumes "0 < k" "data \<noteq> []"
  obtains ps where "NewPartSetFromData rip data k = Some ps" "ps_ok ps" "ps_IsComplete ps" "ps_total ps = int (num_parts data k)"
    "ps_hash ps = SimpleHashFromHashes rip (map (\<lambda>i. rip (chunk data k i)) [0..<num_parts data k])"
    "\<And>i. i < num_parts data k \<Longrightarrow> \<exists>q. ps_parts ps ! i = Some q \<and> pt_Index q = int i \<and> pt_Bytes q = chunk data k i \<and> part_ok rip q \<and>
       SimpleProof_Verify rip (pt_Proof q) (int i) (ps_total ps) (rip (pt_Bytes q)) (ps_hash ps)"
proof -
  let ?n = "num_parts data k"
  let ?hs = "map (\<lambda>i. rip (chunk data k i)) [0..<?n]"
  have n: "0 < ?n" using num_parts(1) [OF assms] .
  then have "?hs \<noteq> []" by simp
  from this obtain proofs where pr: "SimpleProofsFromHashers rip ?hs = Some (SimpleHashFromHashes rip ?hs, proofs)"
    "\<And>i. i < length ?hs \<Longrightarrow> computeHashFromAunts rip (int i) (int (length ?hs)) (?hs ! i) (proofs ! i) = Some (SimpleHashFromHashes rip ?hs)"
    by (rule SimpleProofsFromHashers_ok) blast
  obtain a where a: "NewBitArray (int ?n) = Some a" "ba_ok a" "ba_Bits a = int ?n" "ba_set a = {}"
    using NewBitArray_ok [of "int ?n"] n by auto
  obtain a' where a': "for_each mark_bit [0..<?n] (Some a) = Some (Some a')" "ba_ok a'" "ba_Bits a' = int ?n" "ba_set a' = {0..<?n}"
    using set_bits_ok [OF a(2), of "[0..<?n]"] a(3,4) by auto
  let ?ps = "\<lparr> ps_total = int ?n, ps_hash = SimpleHashFromHashes rip ?hs,
    ps_parts = map (\<lambda>i. Some \<lparr> pt_Index = int i, pt_Bytes = chunk data k i, pt_Proof = proofs ! i, pt_hash = Some (rip (chunk data k i)) \<rparr>) [0..<?n],
    ps_partsBitArray = Some a', ps_count = int ?n \<rparr>"
  have eq: "NewPartSetFromData rip data k = Some ?ps"
    using assms(1) a(1) a'(1) pr(1)
    unfolding NewPartSetFromData_def num_parts_def [symmetric] Let_def data_slice_chunk by (simp add: comp_def)
  have "filled ?ps = {0..<?n}" by (auto simp: filled_def)
  then have "ps_ok ?ps" using a' by (simp add: ps_ok_def)
  then show ?thesis by (rule that [OF eq]) (use pr(2) in \<open>auto simp: part_ok_def SimpleProof_Verify_def ps_IsComplete_def\<close>)
qed

text \<open>Parts arriving one after the other, each verified.\<close>

definition feed :: "(bytes \<Rightarrow> bytes) \<Rightarrow> Part list \<Rightarrow> PartSet \<Rightarrow> PartSet option" where
  "feed rip = for_each (\<lambda>p ps. map_option snd (ps_AddPart rip ps p True))"

definition stored_all :: "(int \<Rightarrow> bytes \<Rightarrow> bytes list \<Rightarrow> bool) \<Rightarrow> PartSet \<Rightarrow> bool" where
  "stored_all P ps \<longleftrightarrow> (\<forall>i q. i < length (ps_parts ps) \<longrightarrow> ps_parts ps ! i = Some q \<longrightarrow> P (pt_Index q) (pt_Bytes q) (pt_Proof q))"

lemma feed_ok:
  assumes "ps_ok ps" "\<forall>p\<in>set parts. part_ok rip p \<and> 0 \<le> pt_Index p" "stored_all P ps"
    "\<And>p. p \<in> set parts \<Longrightarrow> SimpleProof_Verify rip (pt_Proof p) (pt_Index p) (ps_total ps) (rip (pt_Bytes p)) (ps_hash ps) \<Longrightarrow>
       P (pt_Index p) (pt_Bytes p) (pt_Proof p)"
  shows "\<exists>ps'. feed rip parts ps = Some ps' \<and> ps_ok ps' \<and> ps_total ps' = ps_total ps \<and> ps_hash ps' = ps_hash ps \<and>
    stored_all P ps' \<and> filled ps \<subseteq> filled ps' \<and>
    (\<forall>p\<in>set parts. pt_Index p < ps_total ps \<longrightarrow>
       SimpleProof_Verify rip (pt_Proof p) (pt_Index p) (ps_total ps) (rip (pt_Bytes p)) (ps_hash ps) \<longrightarrow> nat (pt_Index p) \<in> filled ps')"
  using assms
proof (induction parts arbitrary: ps)
  case Nil
  then show ?case by (simp add: feed_def)
next
  case (Cons p parts)
  let ?V = "SimpleProof_Verify rip (pt_Proof p) (pt_Index p) (ps_total ps) (rip (pt_Bytes p)) (ps_hash ps)"
  let ?k = "nat (pt_Index p)"
  have p: "part_ok rip p" "0 \<le> pt_Index p" using Cons.prems(2) by auto
  obtain r ps1 where s: "ps_AddPart rip ps p True = Some (r, ps1)" "ps_ok ps1" "ps_total ps1 = ps_total ps" "ps_hash ps1 = ps_hash ps"
    "if fst r then ?k < length (ps_parts ps) \<and> ps_parts ps ! ?k = None \<and> (True \<longrightarrow> ?V) \<and>
       (\<exists>q. ps_parts ps1 = (ps_parts ps)[?k := Some q] \<and> pt_Bytes q = pt_Bytes p \<and> pt_Proof q = pt_Proof p)
     else ps1 = ps \<and> (pt_Index p < ps_total ps \<and> ps_parts ps ! ?k = None \<longrightarrow> True \<and> \<not> ?V)"
    by (rule AddPart_step [OF Cons.prems(1) p])
  have one: "stored_all P ps1 \<and> filled ps \<subseteq> filled ps1 \<and> (pt_Index p < ps_total ps \<longrightarrow> ?V \<longrightarrow> ?k \<in> filled ps1)"
  proof (cases "fst r")
    case False
    then have "ps1 = ps" "pt_Index p < ps_total ps \<Longrightarrow> ?V \<Longrightarrow> ps_parts ps ! ?k \<noteq> None" using s(5) by auto
    moreover have "pt_Index p < ps_total ps \<Longrightarrow> ?k < length (ps_parts ps)" using Cons.prems(1) p by (auto simp: ps_ok_def)
    ultimately show ?thesis using Cons.prems(3) by (auto simp: filled_def)
  next
    case True
    then obtain q where q: "?k < length (ps_parts ps)" "?V" "ps_parts ps1 = (ps_parts ps)[?k := Some q]"
      "pt_Bytes q = pt_Bytes p" "pt_Proof q = pt_Proof p" using s(5) by auto
    have "ps_parts ps1 ! ?k = Some q" "?k < length (ps_parts ps1)" using q(1,3) by simp_all
    then have "pt_Index q = int ?k" using s(2) unfolding ps_ok_def by blast
    then have "stored_all P ps1" using Cons.prems(3) Cons.prems(4) [of p] q p(2)
      by (auto simp: stored_all_def nth_list_update)
    moreover have "filled ps1 = insert ?k (filled ps)" using q(1,3) by (auto simp: filled_def nth_list_update)
    ultimately show ?thesis by auto
  qed
  obtain ps' where "feed rip parts ps1 = Some ps' \<and> ps_ok ps' \<and> ps_total ps' = ps_total ps1 \<and> ps_hash ps' = ps_hash ps1 \<and>
      stored_all P ps' \<and> filled ps1 \<subseteq> filled ps' \<and>
      (\<forall>p\<in>set parts. pt_Index p < ps_total ps1 \<longrightarrow>
         SimpleProof_Verify rip (pt_Proof p) (pt_Index p) (ps_total ps1) (rip (pt_Bytes p)) (ps_hash ps1) \<longrightarrow> nat (pt_Index p) \<in> filled ps')"
    using Cons.IH [OF s(2)] Cons.prems(2,4) one s(3,4) by auto
  then show ?case using s(1,3,4) one by (auto simp: feed_def)
qed


lemma complete_filled: "ps_ok ps \<Longrightarrow> ps_IsComplete ps \<longleftrightarrow> (\<forall>p\<in>set (ps_parts ps). p \<noteq> None)"
proof -
  assume ok: "ps_ok ps"
  have sub: "filled ps \<subseteq> {0..<length (ps_parts ps)}" by (auto simp: filled_def)
  have "ps_IsComplete ps \<longleftrightarrow> card (filled ps) = card {0..<length (ps_parts ps)}" using ok by (auto simp: ps_IsComplete_def ps_ok_def)
  also have "\<dots> \<longleftrightarrow> filled ps = {0..<length (ps_parts ps)}" using card_subset_eq [OF _ sub] by auto
  also have "\<dots> \<longleftrightarrow> (\<forall>p\<in>set (ps_parts ps). p \<noteq> None)"
    unfolding all_set_conv_all_nth by (auto simp: filled_def)
  finally show ?thesis .
qed

lemma GetReader_data:
  assumes "ps_ok ps" "ps_IsComplete ps" "0 < ps_total ps"
  obtains psr where "ps_GetReader ps = Some psr" "psr_parts psr = ps_parts ps"
    "psr_left psr = concat (map (\<lambda>p. pt_Bytes (the p)) (ps_parts ps))"
proof -
  have "ps_parts ps \<noteq> []" using assms(1,3) by (auto simp: ps_ok_def)
  then obtain p rest where "ps_parts ps = Some p # rest"
    using complete_filled [OF assms(1)] assms(2) by (cases "ps_parts ps") auto
  then show ?thesis
    by (intro that [of "\<lparr> psr_i = 0, psr_parts = ps_parts ps, psr_reader = pt_Bytes p \<rparr>"])
      (use assms(2) in \<open>simp_all add: ps_GetReader_def NewPartSetReader_def psr_left_def\<close>)
qed

lemma complete_reads_back:
  assumes "ps_ok ps" "ps_IsComplete ps" "0 < k" "data \<noteq> []" "ps_total ps = int (num_parts data k)"
    "stored_all (\<lambda>i bs pr. bs = chunk data k (nat i)) ps"
  shows "\<exists>psr psr'. ps_GetReader ps = Some psr \<and> psr_Read psr (length data) = Some ((data, False), psr')"
proof -
  let ?n = "num_parts data k"
  note n = num_parts [OF assms(3,4)]
  have len: "length (ps_parts ps) = ?n" using assms(1,5) by (simp add: ps_ok_def)
  obtain psr where psr: "ps_GetReader ps = Some psr" "psr_parts psr = ps_parts ps"
    "psr_left psr = concat (map (\<lambda>p. pt_Bytes (the p)) (ps_parts ps))"
    by (rule GetReader_data [OF assms(1,2)]) (use n(1) assms(5) in auto)
  have full: "\<forall>p\<in>set (ps_parts ps). p \<noteq> None" using complete_filled [OF assms(1)] assms(2) by blast
  have "map (\<lambda>p. pt_Bytes (the p)) (ps_parts ps) = map (chunk data k) [0..<?n]"
  proof (rule nth_equalityI)
    fix i assume "i < length (map (\<lambda>p. pt_Bytes (the p)) (ps_parts ps))"
    then have i: "i < length (ps_parts ps)" by simp
    then obtain q where q: "ps_parts ps ! i = Some q" using full nth_mem by blast
    then have "pt_Index q = int i" using assms(1) i unfolding ps_ok_def by blast
    then show "map (\<lambda>p. pt_Bytes (the p)) (ps_parts ps) ! i = map (chunk data k) [0..<?n] ! i"
      using assms(6) q i len by (auto simp: stored_all_def)
  qed (simp add: len)
  then have "psr_left psr = data" using psr(3) concat_chunks [OF n(2)] by simp
  moreover have "0 < length data" using assms(4) by simp
  ultimately show ?thesis using psr_Read_spec [of psr "length data"] psr(1,2) full by auto
qed


section \<open>Properties\<close>

text \<open>Claim C15.  Splitting and reassembling is the identity.  The parts made from some data, delivered to a set made
  from the header in any order and any number of times as long as each comes at least once, are all accepted, make the set
  complete, and its reader gives the data back.\<close>

theorem part_set_roundtrip:
  assumes "0 < k" "data \<noteq> []" "NewPartSetFromData rip data k = Some ps0"
    "Some ` set parts = set (ps_parts ps0)"
  shows "\<exists>ps1 ps psr psr'. NewPartSetFromHeader (ps_Header (Some ps0)) = Some ps1 \<and> feed rip parts ps1 = Some ps \<and>
    ps_HasHeader (Some ps) (ps_Header (Some ps0)) \<and> ps_IsComplete ps \<and>
    ps_GetReader ps = Some psr \<and> psr_Read psr (length data) = Some ((data, False), psr')"
proof -
  let ?n = "num_parts data k"
  obtain ps0' where "NewPartSetFromData rip data k = Some ps0'" and ps0: "ps_ok ps0'" "ps_total ps0' = int ?n"
    "\<And>i. i < ?n \<Longrightarrow> \<exists>q. ps_parts ps0' ! i = Some q \<and> pt_Index q = int i \<and> pt_Bytes q = chunk data k i \<and> part_ok rip q \<and>
       SimpleProof_Verify rip (pt_Proof q) (int i) (ps_total ps0') (rip (pt_Bytes q)) (ps_hash ps0')"
    by (rule NewPartSetFromData_ok [OF assms(1,2), of rip]) blast
  then have same: "ps0' = ps0" using assms(3) by simp
  note ps0 = ps0 [unfolded same]
  have len: "length (ps_parts ps0) = ?n" using ps0(1,2) by (simp add: ps_ok_def)
  obtain ps1 where ps1: "NewPartSetFromHeader (ps_Header (Some ps0)) = Some ps1" "ps_ok ps1" "filled ps1 = {}"
    "ps_Header (Some ps1) = ps_Header (Some ps0)"
    using NewPartSetFromHeader_ok [of "ps_Header (Some ps0)"] ps0(2) by (auto simp: ps_Header_def)
  then have h1: "ps_total ps1 = ps_total ps0" "ps_hash ps1 = ps_hash ps0" by (simp_all add: ps_Header_def)
  let ?P = "\<lambda>i bs (pr :: bytes list). bs = chunk data k (nat i)"
  have gen: "\<exists>i<?n. ps_parts ps0 ! i = Some p" if "p \<in> set parts" for p
    using that assms(4) len by (metis image_eqI in_set_conv_nth)
  have good: "part_ok rip p \<and> 0 \<le> pt_Index p \<and> pt_Index p < ps_total ps0 \<and> ?P (pt_Index p) (pt_Bytes p) (pt_Proof p) \<and>
      SimpleProof_Verify rip (pt_Proof p) (pt_Index p) (ps_total ps0) (rip (pt_Bytes p)) (ps_hash ps0)" if "p \<in> set parts" for p
    using gen [OF that] ps0(2,3) by fastforce
  have "stored_all ?P ps1" using ps1(3) by (auto simp: stored_all_def filled_def)
  then have "\<exists>ps. feed rip parts ps1 = Some ps \<and> ps_ok ps \<and> ps_total ps = ps_total ps1 \<and> ps_hash ps = ps_hash ps1 \<and> stored_all ?P ps \<and>
      filled ps1 \<subseteq> filled ps \<and> (\<forall>p\<in>set parts. pt_Index p < ps_total ps1 \<longrightarrow>
        SimpleProof_Verify rip (pt_Proof p) (pt_Index p) (ps_total ps1) (rip (pt_Bytes p)) (ps_hash ps1) \<longrightarrow> nat (pt_Index p) \<in> filled ps)"
    by (intro feed_ok [OF ps1(2)]) (use good in auto)
  then obtain ps where ps: "feed rip parts ps1 = Some ps" "ps_ok ps" "ps_total ps = ps_total ps0" "ps_hash ps = ps_hash ps0"
    "stored_all ?P ps" "\<forall>p\<in>set parts. pt_Index p < ps_total ps0 \<longrightarrow>
        SimpleProof_Verify rip (pt_Proof p) (pt_Index p) (ps_total ps0) (rip (pt_Bytes p)) (ps_hash ps0) \<longrightarrow> nat (pt_Index p) \<in> filled ps"
    unfolding h1 by blast
  have "i \<in> filled ps" if i: "i < ?n" for i
  proof -
    obtain q where q: "ps_parts ps0 ! i = Some q" "pt_Index q = int i" using ps0(3) [OF i] by blast
    then have "q \<in> set parts" using assms(4) len i by (metis image_iff nth_mem option.inject)
    then show ?thesis using ps(6) good [of q] q(2) by auto
  qed
  moreover have lenps: "length (ps_parts ps) = ?n" using ps(2,3) ps0(2) by (simp add: ps_ok_def)
  ultimately have full: "ps_IsComplete ps" unfolding complete_filled [OF ps(2)] by (auto simp: filled_def in_set_conv_nth)
  have "\<exists>psr psr'. ps_GetReader ps = Some psr \<and> psr_Read psr (length data) = Some ((data, False), psr')"
    using complete_reads_back [OF ps(2) full assms(1,2)] ps(3,5) ps0(2) by simp
  moreover have "ps_HasHeader (Some ps) (ps_Header (Some ps0))" using ps(3,4) by (simp add: ps_HasHeader_def ps_Header_def psh_Equals_def)
  ultimately show ?thesis using ps1(1) ps(1) full by blast
qed

theorem part_set_roundtrip_witness:
  "\<exists>ps0 ps1 ps psr psr'. NewPartSetFromData toy_digest [1, 2, 3] 2 = Some ps0 \<and>
    NewPartSetFromHeader (ps_Header (Some ps0)) = Some ps1 \<and> feed toy_digest (rev (map the (ps_parts ps0))) ps1 = Some ps \<and>
    ps_IsComplete ps \<and> ps_GetReader ps = Some psr \<and> psr_Read psr 3 = Some (([1, 2, 3], False), psr')"
proof -
  obtain ps0 where ps0: "NewPartSetFromData toy_digest [1, 2, 3] 2 = Some ps0" "ps_ok ps0" "ps_IsComplete ps0"
    by (rule NewPartSetFromData_ok [of 2 "[1, 2, 3]" toy_digest]) simp_all
  have "Some (the p) = p" if "p \<in> set (ps_parts ps0)" for p using complete_filled [OF ps0(2)] ps0(3) that by auto
  then have "Some ` set (rev (map the (ps_parts ps0))) = set (ps_parts ps0)" by (force simp: image_iff)
  from part_set_roundtrip [OF _ _ ps0(1) this] show ?thesis using ps0(1) by (auto simp: numeral_3_eq_3)
qed

text \<open>The two strings with one digest that a stored part with wrong bytes gives.\<close>

definition part_collision :: "(bytes \<Rightarrow> bytes) \<Rightarrow> bytes \<Rightarrow> nat \<Rightarrow> Part \<Rightarrow> bytes \<times> bytes" where
  "part_collision rip data k p =
     (if rip (pt_Bytes p) = rip (chunk data k (nat (pt_Index p))) then (pt_Bytes p, chunk data k (nat (pt_Index p)))
      else find_collision rip (nat (pt_Index p)) (map (\<lambda>i. rip (chunk data k i)) [0..<num_parts data k]) (rip (pt_Bytes p)) (pt_Proof p))"

text \<open>Claim C16.  Parts cannot be forged.  Whatever parts arrive at a set made from a header of some data, no call panics and
  the invariant of the set holds after them; every stored part has the bytes of the data at its index, or
  \<open>part_collision\<close> computes a digest collision from it.  So a set that completes without a collision reads back the data.\<close>

theorem part_set_no_forgery:
  assumes "0 < k" "data \<noteq> []" "NewPartSetFromData rip data k = Some ps0"
    "NewPartSetFromHeader (ps_Header (Some ps0)) = Some ps1"
    "\<forall>p\<in>set parts. part_ok rip p \<and> 0 \<le> pt_Index p"
  shows "\<exists>ps. feed rip parts ps1 = Some ps \<and> ps_ok ps \<and>
    ((\<exists>q. Some q \<in> set (ps_parts ps) \<and> (let (x, y) = part_collision rip data k q in x \<noteq> y \<and> rip x = rip y)) \<or>
     (\<forall>q. Some q \<in> set (ps_parts ps) \<longrightarrow> pt_Bytes q = chunk data k (nat (pt_Index q))) \<and>
     (ps_IsComplete ps \<longrightarrow>
       (\<exists>psr psr'. ps_GetReader ps = Some psr \<and> psr_Read psr (length data) = Some ((data, False), psr'))))"
proof -
  let ?n = "num_parts data k"
  let ?hs = "map (\<lambda>i. rip (chunk data k i)) [0..<?n]"
  obtain ps0' where "NewPartSetFromData rip data k = Some ps0'" and ps0: "ps_total ps0' = int ?n" "ps_hash ps0' = SimpleHashFromHashes rip ?hs"
    by (rule NewPartSetFromData_ok [OF assms(1,2), of rip]) blast
  then have same: "ps0' = ps0" using assms(3) by simp
  note ps0 = ps0 [unfolded same]
  have ps1: "ps_ok ps1" "filled ps1 = {}" "ps_total ps1 = int ?n" "ps_hash ps1 = SimpleHashFromHashes rip ?hs"
    using NewPartSetFromHeader_ok [of "ps_Header (Some ps0)"] assms(4) ps0 by (auto simp: ps_Header_def)
  let ?C = "\<lambda>i bs pr. let (x, y) = part_collision rip data k \<lparr>pt_Index = i, pt_Bytes = bs, pt_Proof = pr, pt_hash = None\<rparr> in x \<noteq> y \<and> rip x = rip y"
  let ?P = "\<lambda>i bs pr. bs = chunk data k (nat i) \<or> ?C i bs pr"
  have P: "?P (pt_Index p) (pt_Bytes p) (pt_Proof p)"
    if "p \<in> set parts" and v: "SimpleProof_Verify rip (pt_Proof p) (pt_Index p) (ps_total ps1) (rip (pt_Bytes p)) (ps_hash ps1)" for p
  proof -
    have c: "computeHashFromAunts rip (pt_Index p) (int ?n) (rip (pt_Bytes p)) (pt_Proof p) = Some (SimpleHashFromHashes rip ?hs)"
      using v ps1(3,4) by (simp add: SimpleProof_Verify_def split: option.splits)
    then have r: "0 \<le> pt_Index p" "pt_Index p < int ?n" by (subst (asm) computeHashFromAunts.simps, auto split: if_splits)+
    then have i: "nat (pt_Index p) < length ?hs" "int (nat (pt_Index p)) = pt_Index p" by auto
    show ?thesis
    proof (cases "rip (pt_Bytes p) = rip (chunk data k (nat (pt_Index p)))")
      case True
      then show ?thesis by (auto simp: part_collision_def)
    next
      case False
      then have "rip (pt_Bytes p) \<noteq> ?hs ! nat (pt_Index p)" using i by simp
      from find_collision_ok [OF i(1) _ this, of rip "pt_Proof p"] c i(2) False show ?thesis
        by (simp add: part_collision_def split_beta)
    qed
  qed
  have "stored_all ?P ps1" using ps1(2) by (auto simp: stored_all_def filled_def)
  from feed_ok [OF ps1(1) assms(5) this P] obtain ps where ps: "feed rip parts ps1 = Some ps" "ps_ok ps" "ps_total ps = int ?n" "stored_all ?P ps"
    using ps1(3) by auto
  have coll: "?C (pt_Index q) (pt_Bytes q) (pt_Proof q) \<longleftrightarrow> (let (x, y) = part_collision rip data k q in x \<noteq> y \<and> rip x = rip y)" for q
    by (simp add: part_collision_def)
  show ?thesis
  proof (cases "\<exists>q. Some q \<in> set (ps_parts ps) \<and> (let (x, y) = part_collision rip data k q in x \<noteq> y \<and> rip x = rip y)")
    case True
    then show ?thesis using ps(1,2) by blast
  next
    case False
    have st: "stored_all (\<lambda>i bs pr. bs = chunk data k (nat i)) ps" unfolding stored_all_def
    proof (intro allI impI)
      fix i q assume i: "i < length (ps_parts ps)" "ps_parts ps ! i = Some q"
      then have "Some q \<in> set (ps_parts ps)" by (metis nth_mem)
      then have "\<not> ?C (pt_Index q) (pt_Bytes q) (pt_Proof q)" unfolding coll using False by blast
      then show "pt_Bytes q = chunk data k (nat (pt_Index q))" using ps(4) i unfolding stored_all_def by blast
    qed
    then have "\<forall>q. Some q \<in> set (ps_parts ps) \<longrightarrow> pt_Bytes q = chunk data k (nat (pt_Index q))"
      by (auto simp: stored_all_def in_set_conv_nth)
    moreover have "ps_IsComplete ps \<Longrightarrow> \<exists>psr psr'. ps_GetReader ps = Some psr \<and> psr_Read psr (length data) = Some ((data, False), psr')"
      using complete_reads_back [OF ps(2) _ assms(1,2) ps(3) st] by blast
    ultimately show ?thesis using ps(1,2) by blast
  qed
qed


theorem part_set_no_forgery_witness:
  "\<exists>ps0 ps1 ps. NewPartSetFromData toy_digest [1, 2, 3] 2 = Some ps0 \<and>
    NewPartSetFromHeader (ps_Header (Some ps0)) = Some ps1 \<and>
    feed toy_digest [\<lparr>pt_Index = 0, pt_Bytes = [9], pt_Proof = [], pt_hash = None\<rparr>] ps1 = Some ps \<and> ps_ok ps"
proof -
  obtain ps0 where ps0: "NewPartSetFromData toy_digest [1, 2, 3] 2 = Some ps0" "ps_ok ps0"
    by (rule NewPartSetFromData_ok [of 2 "[1, 2, 3]" toy_digest]) simp_all
  obtain ps1 where ps1: "NewPartSetFromHeader (ps_Header (Some ps0)) = Some ps1"
    using NewPartSetFromHeader_ok [of "ps_Header (Some ps0)"] ps0(2) by (auto simp: ps_Header_def ps_ok_def)
  from part_set_no_forgery [OF _ _ ps0(1) ps1, of "[\<lparr>pt_Index = 0, pt_Bytes = [9], pt_Proof = [], pt_hash = None\<rparr>]"]
  show ?thesis using ps0(1) ps1 by (auto simp: part_ok_def)
qed

end
