(* ===== verification/Validator.thy ===== *)
theory Validator
  imports Go_Heap Merkle
begin

text \<open>
  \<open>consensus/algorand/types/validator.go\<close> and the heap of \<open>consensus/algorand/common/heap.go\<close>: clipped
  64-bit arithmetic, the validator set sorted by address, and the rotation of the proposer.  \<open>None\<close> as the result
  of an operation is a run-time panic.
\<close>

section \<open>Safe arithmetic\<close>

text \<open>Go's signed division and remainder truncate towards zero.\<close>

definition go_quot :: "int \<Rightarrow> int \<Rightarrow> int" where
  "go_quot a b = sgn a * sgn b * (\<bar>a\<bar> div \<bar>b\<bar>)"

definition go_rem :: "int \<Rightarrow> int \<Rightarrow> int" where
  "go_rem a b = a - b * go_quot a b"

definition safeMul :: "int \<Rightarrow> int \<Rightarrow> int \<times> bool" where
  "safeMul a b =
     (if a = 0 \<or> b = 0 then (0, False)
      else if a = 1 then (b, False)
      else if b = 1 then (a, False)
      else if a = MinInt64 \<or> b = MinInt64 then (-1, True)
      else let c = int64 (a * b) in (c, int64 (go_quot c b) \<noteq> a))"

definition safeAdd :: "int \<Rightarrow> int \<Rightarrow> int \<times> bool" where
  "safeAdd a b =
     (if b > 0 \<and> a > int64 (MaxInt64 - b) then (-1, True)
      else if b < 0 \<and> a < int64 (MinInt64 - b) then (-1, True)
      else (int64 (a + b), False))"

definition safeSub :: "int \<Rightarrow> int \<Rightarrow> int \<times> bool" where
  "safeSub a b =
     (if b > 0 \<and> a < int64 (MinInt64 + b) then (-1, True)
      else if b < 0 \<and> a > int64 (MaxInt64 + b) then (-1, True)
      else (int64 (a - b), False))"

definition safeMulClip :: "int \<Rightarrow> int \<Rightarrow> int" where
  "safeMulClip a b = (let (c, overflow) = safeMul a b in
     if overflow then (if (a < 0 \<or> b < 0) \<and> \<not> (a < 0 \<and> b < 0) then MinInt64 else MaxInt64) else c)"

definition safeAddClip :: "int \<Rightarrow> int \<Rightarrow> int" where
  "safeAddClip a b = (let (c, overflow) = safeAdd a b in
     if overflow then (if b < 0 then MinInt64 else MaxInt64) else c)"

definition safeSubClip :: "int \<Rightarrow> int \<Rightarrow> int" where
  "safeSubClip a b = (let (c, overflow) = safeSub a b in
     if overflow then (if b > 0 then MinInt64 else MaxInt64) else c)"

section \<open>heap.go\<close>

text \<open>The items remember the slot they are in; \<open>Update\<close> relies on it.  \<open>cmp\<close> is the \<open>Less\<close> of the priorities.\<close>

record ('v, 'p) pqItem =
  pq_value :: 'v
  pq_priority :: 'p
  pq_index :: int

type_synonym ('v, 'p) Heap = "('v, 'p) pqItem list"

definition pq_Swap :: "('v, 'p) Heap \<Rightarrow> nat \<Rightarrow> nat \<Rightarrow> ('v, 'p) Heap" where
  "pq_Swap pq i j =
     (let p = exch pq i j; p1 = p[i := (p ! i)\<lparr>pq_index := int i\<rparr>] in p1[j := (p1 ! j)\<lparr>pq_index := int j\<rparr>])"

definition pq_Push :: "('v, 'p) Heap \<Rightarrow> 'v \<times> 'p \<Rightarrow> ('v, 'p) Heap" where
  "pq_Push pq x = pq @ [\<lparr> pq_value = fst x, pq_priority = snd x, pq_index = int (length pq) \<rparr>]"

definition pq_Pop :: "('v, 'p) Heap \<Rightarrow> ('v \<times> 'p) \<times> ('v, 'p) Heap" where
  "pq_Pop old = ((pq_value (last old), pq_priority (last old)), butlast old)"

definition priorityQueue :: "('p \<Rightarrow> 'p \<Rightarrow> bool) \<Rightarrow> (('v, 'p) Heap, 'v \<times> 'p) heap_iface" where
  "priorityQueue cmp = \<lparr> hi_Len = length, hi_Less = (\<lambda>pq i j. cmp (pq_priority (pq ! i)) (pq_priority (pq ! j))),
     hi_Swap = pq_Swap, hi_Push = pq_Push, hi_Pop = pq_Pop \<rparr>"

definition NewHeap :: "('v, 'p) Heap" where
  "NewHeap = []"

definition Heap_Len :: "('v, 'p) Heap \<Rightarrow> int" where
  "Heap_Len h = int (length h)"

definition Heap_PushComparable :: "('p \<Rightarrow> 'p \<Rightarrow> bool) \<Rightarrow> ('v, 'p) Heap \<Rightarrow> 'v \<Rightarrow> 'p \<Rightarrow> ('v, 'p) Heap" where
  "Heap_PushComparable cmp h v p = heap_Push (priorityQueue cmp) h (v, p)"

definition Heap_Peek :: "('v, 'p) Heap \<Rightarrow> 'v option" where
  "Heap_Peek h = (case h of [] \<Rightarrow> None | it # _ \<Rightarrow> Some (pq_value it))"

definition Heap_Update :: "('p \<Rightarrow> 'p \<Rightarrow> bool) \<Rightarrow> ('v, 'p) Heap \<Rightarrow> 'v \<Rightarrow> 'p \<Rightarrow> ('v, 'p) Heap option" where
  "Heap_Update cmp h v p = (case h of [] \<Rightarrow> None
     | it # rest \<Rightarrow> Some (heap_Fix (priorityQueue cmp) (it\<lparr>pq_value := v, pq_priority := p\<rparr> # rest) (nat (pq_index it))))"

definition Heap_Pop :: "('p \<Rightarrow> 'p \<Rightarrow> bool) \<Rightarrow> ('v, 'p) Heap \<Rightarrow> ('v \<times> ('v, 'p) Heap) option" where
  "Heap_Pop cmp h = map_option (\<lambda>((v, p), h'). (v, h')) (heap_Pop (priorityQueue cmp) h)"

definition cmpInt_Less :: "int \<Rightarrow> int \<Rightarrow> bool" where
  "cmpInt_Less i o' \<longleftrightarrow> i < o'"

definition cmpBytes_Less :: "bytes \<Rightarrow> bytes \<Rightarrow> bool" where
  "cmpBytes_Less bz o' \<longleftrightarrow> bytes_Compare bz o' < 0"

section \<open>validator.go\<close>

record Validator =
  v_Address :: bytes
  v_PubKeyStr :: string
  v_VotingPower :: int
  v_Accum :: int

definition NewValidator :: "string \<Rightarrow> bytes \<Rightarrow> int \<Rightarrow> Validator" where
  "NewValidator pubKeyStr address votingPower =
     \<lparr> v_Address = address, v_PubKeyStr = pubKeyStr, v_VotingPower = votingPower, v_Accum = 0 \<rparr>"

text \<open>Comparing two validators of one address with one accum panics.\<close>

definition CompareAccum :: "Validator option \<Rightarrow> Validator \<Rightarrow> Validator option" where
  "CompareAccum v other = (case v of None \<Rightarrow> Some other
     | Some v \<Rightarrow>
         if v_Accum v > v_Accum other then Some v
         else if v_Accum v < v_Accum other then Some other
         else let result = bytes_Compare (v_Address v) (v_Address other) in
           if result < 0 then Some v else if result > 0 then Some other else None)"

text \<open>
  The order of the heap.  The priority is a pointer to the validator; every change of its accum is followed by an
  \<open>Update\<close>, so the model keeps a copy.  The case \<open>None\<close> is the panic of \<open>CompareAccum\<close>, which only two
  validators with one address can reach.
\<close>

definition accum_Less :: "Validator \<Rightarrow> Validator \<Rightarrow> bool" where
  "accum_Less ac other = (case CompareAccum (Some ac) other of Some larger \<Rightarrow> v_Address larger = v_Address ac | None \<Rightarrow> False)"

text \<open>
  The set.  \<open>vs_Proposer\<close> is the value seen through the pointer when the call that set it returns.
\<close>

record ValidatorSet =
  vs_Validators :: "Validator list"
  vs_Proposer :: "Validator option"
  vs_BgID :: u64
  vs_BgVRFValue :: bytes
  vs_BgVRFProof :: bytes
  vs_Extend :: bytes
  vs_totalVotingPower :: int

definition TotalVotingPower :: "ValidatorSet \<Rightarrow> int \<times> ValidatorSet" where
  "TotalVotingPower valSet =
     (let t = (if vs_totalVotingPower valSet = 0
               then fold (\<lambda>val t. safeAddClip t (v_VotingPower val)) (vs_Validators valSet) (vs_totalVotingPower valSet)
               else vs_totalVotingPower valSet)
      in (t, valSet\<lparr>vs_totalVotingPower := t\<rparr>))"

text \<open>The first loop of \<open>IncrementAccum\<close>: raise every accum and push the validator.\<close>

definition accum_push :: "int \<Rightarrow> nat \<Rightarrow> Validator list \<times> (nat, Validator) Heap \<Rightarrow> Validator list \<times> (nat, Validator) Heap" where
  "accum_push tms i = (\<lambda>(vals, h).
     let val = vals ! i;
         val' = val\<lparr>v_Accum := safeAddClip (v_Accum val) (safeMulClip (v_VotingPower val) tms)\<rparr>
     in (vals[i := val'], Heap_PushComparable accum_Less h i val'))"

text \<open>One turn of the second loop; \<open>Peek\<close> of an empty heap gives nil, whose type assertion panics.\<close>

definition accum_turn :: "int \<Rightarrow> int \<Rightarrow> ValidatorSet \<times> (nat, Validator) Heap \<Rightarrow> (ValidatorSet \<times> (nat, Validator) Heap) option" where
  "accum_turn tms i = (\<lambda>(valSet, h). do {
     m \<leftarrow> Heap_Peek h;
     let (t, valSet1) = TotalVotingPower valSet;
     let mostest = vs_Validators valSet1 ! m;
     let mostest' = mostest\<lparr>v_Accum := safeSubClip (v_Accum mostest) t\<rparr>;
     let valSet2 = valSet1\<lparr>vs_Validators := (vs_Validators valSet1)[m := mostest']\<rparr>;
     h' \<leftarrow> Heap_Update accum_Less h m mostest';
     Some (if i = tms - 1 then valSet2\<lparr>vs_Proposer := Some mostest'\<rparr> else valSet2, h') })"

definition IncrementAccum :: "ValidatorSet \<Rightarrow> int \<Rightarrow> ValidatorSet option" where
  "IncrementAccum valSet tms =
     (let (vals, h) = fold (accum_push tms) [0..<length (vs_Validators valSet)] (vs_Validators valSet, NewHeap)
      in map_option fst (for_each (accum_turn tms) [0..tms - 1] (valSet\<lparr>vs_Validators := vals\<rparr>, h)))"

text \<open>\<open>None\<close> for the validators is the nil slice, for which the accums are left alone.\<close>

definition NewValidatorSet :: "Validator list option \<Rightarrow> u64 \<Rightarrow> bytes \<Rightarrow> bytes \<Rightarrow> bytes \<Rightarrow> ValidatorSet option" where
  "NewValidatorSet vals bgID vrfValue vrfProof ext =
     (let vs = \<lparr> vs_Validators = sort_key v_Address (case vals of None \<Rightarrow> [] | Some v \<Rightarrow> v), vs_Proposer = None, vs_BgID = bgID,
                 vs_BgVRFValue = vrfValue, vs_BgVRFProof = vrfProof, vs_Extend = ext, vs_totalVotingPower = 0 \<rparr>
      in if vals \<noteq> None then IncrementAccum vs 1 else Some vs)"

text \<open>Go's \<open>sort.Search\<close>.\<close>

function sort_Search :: "(nat \<Rightarrow> bool) \<Rightarrow> nat \<Rightarrow> nat \<Rightarrow> nat" where
  "sort_Search f i j = (if i < j then let h = (i + j) div 2 in if \<not> f h then sort_Search f (h + 1) j else sort_Search f i h else i)"
  by pat_completeness auto
termination
  by (relation "measure (\<lambda>(f, i, j). j - i)") auto

declare sort_Search.simps [simp del]

definition vs_search :: "ValidatorSet \<Rightarrow> bytes \<Rightarrow> nat" where
  "vs_search valSet address = sort_Search (\<lambda>i. bytes_Compare address (v_Address (vs_Validators valSet ! i)) \<le> 0)
     0 (length (vs_Validators valSet))"

definition HasAddress :: "ValidatorSet \<Rightarrow> bytes \<Rightarrow> bool" where
  "HasAddress valSet address = (let idx = vs_search valSet address in
     idx < length (vs_Validators valSet) \<and> v_Address (vs_Validators valSet ! idx) = address)"

definition GetByAddress :: "ValidatorSet \<Rightarrow> bytes \<Rightarrow> int \<times> Validator option" where
  "GetByAddress valSet address = (let idx = vs_search valSet address in
     if idx < length (vs_Validators valSet) \<and> v_Address (vs_Validators valSet ! idx) = address
     then (int idx, Some (vs_Validators valSet ! idx)) else (-1, None))"

definition GetByIndex :: "ValidatorSet \<Rightarrow> int \<Rightarrow> (bytes \<times> Validator) option" where
  "GetByIndex valSet index = (if index < 0 \<or> index \<ge> int (length (vs_Validators valSet)) then None
     else let val = vs_Validators valSet ! nat index in Some (v_Address val, val))"

definition vs_Size :: "ValidatorSet \<Rightarrow> int" where
  "vs_Size valSet = int (length (vs_Validators valSet))"

definition findProposer :: "ValidatorSet \<Rightarrow> Validator option option" where
  "findProposer valSet = for_each (\<lambda>val proposer.
     case proposer of None \<Rightarrow> map_option Some (CompareAccum None val)
     | Some p \<Rightarrow> if v_Address val \<noteq> v_Address p then map_option Some (CompareAccum (Some p) val) else Some proposer)
     (vs_Validators valSet) None"

text \<open>The inner option is the nil that an empty set gives.\<close>

definition GetProposer :: "ValidatorSet \<Rightarrow> (Validator option \<times> ValidatorSet) option" where
  "GetProposer valSet =
     (if vs_Validators valSet = [] then Some (None, valSet)
      else case vs_Proposer valSet of Some p \<Rightarrow> Some (Some p, valSet)
      | None \<Rightarrow> do { p \<leftarrow> findProposer valSet; Some (p, valSet\<lparr>vs_Proposer := p\<rparr>) })"

text \<open>\<open>int(heigth+uint64(round)) % valLength\<close>: the sum wraps, the conversion may be negative, and so may the remainder.\<close>

definition GetProposerByMod :: "ValidatorSet \<Rightarrow> u64 \<Rightarrow> int \<Rightarrow> Validator option option" where
  "GetProposerByMod valSet heigth round =
     (let valLength = length (vs_Validators valSet) in
      if valLength = 0 then Some None
      else let m = go_rem (sint (heigth + word_of_int round)) (int valLength) in
        if m < 0 then None else Some (Some (vs_Validators valSet ! nat m)))"

text \<open>\<open>vhash\<close> is the hash of a validator (amino encoding and digest).\<close>

definition vs_Hash :: "(bytes \<Rightarrow> bytes) \<Rightarrow> (bytes \<times> int \<Rightarrow> bytes) \<Rightarrow> ValidatorSet \<Rightarrow> bytes" where
  "vs_Hash rip vhash valSet = (if vs_Validators valSet = [] then []
     else SimpleHashFromHashers rip (\<lambda>v. vhash (v_Address v, v_VotingPower v)) (vs_Validators valSet))"

definition vs_Add :: "ValidatorSet \<Rightarrow> Validator \<Rightarrow> bool \<times> ValidatorSet" where
  "vs_Add valSet val =
     (let vals = vs_Validators valSet; idx = vs_search valSet (v_Address val) in
      if idx \<ge> length vals then
        (True, valSet\<lparr>vs_Validators := vals @ [val], vs_Proposer := None, vs_totalVotingPower := 0\<rparr>)
      else if v_Address (vals ! idx) = v_Address val then (False, valSet)
      else (True, valSet\<lparr>vs_Validators := take idx vals @ [val] @ drop idx vals, vs_Proposer := None, vs_totalVotingPower := 0\<rparr>))"

definition vs_Update :: "ValidatorSet \<Rightarrow> Validator \<Rightarrow> bool \<times> ValidatorSet" where
  "vs_Update valSet val =
     (let (index, sameVal) = GetByAddress valSet (v_Address val) in
      if sameVal = None then (False, valSet)
      else (True, valSet\<lparr>vs_Validators := (vs_Validators valSet)[nat index := val], vs_Proposer := None, vs_totalVotingPower := 0\<rparr>))"

definition vs_Remove :: "ValidatorSet \<Rightarrow> bytes \<Rightarrow> (Validator option \<times> bool) \<times> ValidatorSet" where
  "vs_Remove valSet address =
     (let vals = vs_Validators valSet; idx = vs_search valSet address in
      if idx \<ge> length vals \<or> v_Address (vals ! idx) \<noteq> address then ((None, False), valSet)
      else ((Some (vals ! idx), True),
            valSet\<lparr>vs_Validators := (if idx + 1 < length vals then take idx vals @ drop (idx + 1) vals else take idx vals),
                   vs_Proposer := None, vs_totalVotingPower := 0\<rparr>))"

text \<open>\<open>Iterate\<close> stops when the function says so; the function's effects are threaded through \<open>s\<close>.\<close>

fun vs_iterate :: "(nat \<Rightarrow> Validator \<Rightarrow> 's \<Rightarrow> bool \<times> 's) \<Rightarrow> nat \<Rightarrow> Validator list \<Rightarrow> 's \<Rightarrow> 's" where
  "vs_iterate fn i [] s = s"
| "vs_iterate fn i (val # vals) s = (let (stop, s') = fn i val s in if stop then s' else vs_iterate fn (i + 1) vals s')"

definition vs_Iterate :: "ValidatorSet \<Rightarrow> (nat \<Rightarrow> Validator \<Rightarrow> 's \<Rightarrow> bool \<times> 's) \<Rightarrow> 's \<Rightarrow> 's" where
  "vs_Iterate valSet fn s = vs_iterate fn 0 (vs_Validators valSet) s"

text \<open>\<open>peerIDToString\<close> stands for \<open>msp.PeerIDToString\<close>.\<close>

definition GetByPeerID :: "(bytes \<Rightarrow> string) \<Rightarrow> ValidatorSet \<Rightarrow> bytes \<Rightarrow> int \<times> Validator option" where
  "GetByPeerID peerIDToString valSet peerID =
     (case List.find (\<lambda>(i, val). peerIDToString peerID = v_PubKeyStr val) (enumerate 0 (vs_Validators valSet)) of
        None \<Rightarrow> (-1, None) | Some (i, val) \<Rightarrow> (int i, Some val))"

section \<open>Clipping\<close>

definition clip :: "int \<Rightarrow> int" where
  "clip x = max MinInt64 (min MaxInt64 x)"

lemma clip_id: "in_int64 x \<Longrightarrow> clip x = x"
  by (simp add: clip_def in_int64_def)

lemma clip_range [simp]: "in_int64 (clip x)"
  by (simp add: clip_def in_int64_def MinInt64_def MaxInt64_def)

lemmas int64_consts = MinInt64_def MaxInt64_def in_int64_def

lemma safeAddClip_clip: "in_int64 a \<Longrightarrow> in_int64 b \<Longrightarrow> safeAddClip a b = clip (a + b)"
proof -
  assume ab: "in_int64 a" "in_int64 b"
  have "b > 0 \<Longrightarrow> int64 (MaxInt64 - b) = MaxInt64 - b" "b < 0 \<Longrightarrow> int64 (MinInt64 - b) = MinInt64 - b"
    using ab by (auto simp: int64_consts)
  moreover have "in_int64 (a + b) \<Longrightarrow> int64 (a + b) = a + b" by simp
  ultimately show ?thesis using ab by (auto simp: safeAddClip_def safeAdd_def clip_def int64_consts)
qed

lemma safeSubClip_clip: "in_int64 a \<Longrightarrow> in_int64 b \<Longrightarrow> safeSubClip a b = clip (a - b)"
proof -
  assume ab: "in_int64 a" "in_int64 b"
  have "b > 0 \<Longrightarrow> int64 (MinInt64 + b) = MinInt64 + b" "b < 0 \<Longrightarrow> int64 (MaxInt64 + b) = MaxInt64 + b"
    using ab by (auto simp: int64_consts)
  moreover have "in_int64 (a - b) \<Longrightarrow> int64 (a - b) = a - b" by simp
  ultimately show ?thesis using ab by (auto simp: safeSubClip_def safeSub_def clip_def int64_consts)
qed

lemma go_quot_mult: "b \<noteq> 0 \<Longrightarrow> go_quot (a * b) b = a"
  by (cases "b > 0") (auto simp: go_quot_def abs_mult sgn_mult mult_sgn_abs)

lemma go_quot_close: "b \<noteq> 0 \<Longrightarrow> \<bar>c - b * go_quot c b\<bar> < \<bar>b\<bar>"
proof -
  assume b: "b \<noteq> 0"
  have m: "\<bar>c\<bar> = \<bar>b\<bar> * (\<bar>c\<bar> div \<bar>b\<bar>) + \<bar>c\<bar> mod \<bar>b\<bar>" by simp
  have "b * sgn b = \<bar>b\<bar>" "sgn c * \<bar>c\<bar> = c" by (simp_all add: sgn_mult_abs abs_sgn mult.commute)
  then have "c - b * go_quot c b = sgn c * (\<bar>c\<bar> - \<bar>b\<bar> * (\<bar>c\<bar> div \<bar>b\<bar>))"
    by (simp add: go_quot_def right_diff_distrib)
  also have "\<dots> = sgn c * (\<bar>c\<bar> mod \<bar>b\<bar>)" using m by (simp add: minus_mult_div_eq_mod)
  finally have "\<bar>c - b * go_quot c b\<bar> \<le> \<bar>c\<bar> mod \<bar>b\<bar>"
    using pos_mod_sign [of "\<bar>b\<bar>" "\<bar>c\<bar>"] b by (auto simp: abs_mult sgn_if)
  also have "\<dots> < \<bar>b\<bar>" using b by (intro pos_mod_bound) simp
  finally show ?thesis .
qed

text \<open>The overflow test of \<open>safeMul\<close> is exact.\<close>

lemma safeMul_test:
  assumes "in_int64 a" "in_int64 b" "b \<noteq> 0" "a \<noteq> MinInt64" "b \<noteq> MinInt64"
  shows "int64 (go_quot (int64 (a * b)) b) = a \<longleftrightarrow> in_int64 (a * b)"
proof
  assume "in_int64 (a * b)"
  then show "int64 (go_quot (int64 (a * b)) b) = a" using assms by (simp add: go_quot_mult)
next
  assume q: "int64 (go_quot (int64 (a * b)) b) = a"
  let ?c = "int64 (a * b)"
  have c: "in_int64 ?c" by simp
  have "\<bar>go_quot ?c b\<bar> \<le> \<bar>?c\<bar>"
  proof -
    have "\<bar>?c\<bar> div \<bar>b\<bar> \<le> \<bar>?c\<bar>" using zdiv_mono2 [of "\<bar>?c\<bar>" 1 "\<bar>b\<bar>"] assms(3) by simp
    then show ?thesis using assms(3) by (auto simp: go_quot_def abs_mult sgn_if pos_imp_zdiv_nonneg_iff)
  qed
  then have r: "in_int64 (go_quot ?c b) \<or> go_quot ?c b = 2 ^ 63" using c by (auto simp: int64_consts)
  have "int64 (2 ^ 63) = MinInt64" by (simp add: int64_def MinInt64_def)
  then have "go_quot ?c b = a" using q r assms(4) by auto
  then have "\<bar>?c - a * b\<bar> < \<bar>b\<bar>" using go_quot_close [OF assms(3), of ?c] by (simp add: mult.commute)
  also have "\<dots> < 2 ^ 63" using assms by (auto simp: int64_consts)
  finally have near: "\<bar>?c - a * b\<bar> < 2 ^ 63" .
  have "2 ^ 64 dvd ?c - a * b" using int64_mod [of "a * b"] by (simp add: mod_eq_dvd_iff)
  then obtain k where "?c - a * b = 2 ^ 64 * k" by (auto simp: dvd_def)
  with near have "k = 0" by (auto simp: abs_mult)
  then have "?c = a * b" using \<open>?c - a * b = 2 ^ 64 * k\<close> by simp
  then show "in_int64 (a * b)" using c by simp
qed


lemma safeMulClip_clip:
  assumes "in_int64 a" "in_int64 b"
  shows "safeMulClip a b = clip (a * b)"
proof -
  have sign: "\<not> in_int64 (a * b) \<Longrightarrow> (if (a < 0 \<or> b < 0) \<and> \<not> (a < 0 \<and> b < 0) then MinInt64 else MaxInt64) = clip (a * b)"
  proof -
    assume out: "\<not> in_int64 (a * b)"
    have "(a < 0 \<or> b < 0) \<and> \<not> (a < 0 \<and> b < 0) \<Longrightarrow> a * b \<le> 0" by (auto simp: mult_le_0_iff)
    moreover have "\<not> ((a < 0 \<or> b < 0) \<and> \<not> (a < 0 \<and> b < 0)) \<Longrightarrow> 0 \<le> a * b" by (auto simp: zero_le_mult_iff)
    ultimately show ?thesis using out
      by (cases "(a < 0 \<or> b < 0) \<and> \<not> (a < 0 \<and> b < 0)") (simp_all only: if_True if_False, simp_all add: clip_def int64_consts)
  qed
  consider (triv) "a = 0 \<or> b = 0 \<or> a = 1 \<or> b = 1"
    | (low) "a \<noteq> 0" "b \<noteq> 0" "a \<noteq> 1" "b \<noteq> 1" "a = MinInt64 \<or> b = MinInt64"
    | (other) "a \<noteq> 0" "b \<noteq> 0" "a \<noteq> 1" "b \<noteq> 1" "a \<noteq> MinInt64" "b \<noteq> MinInt64" by blast
  then show ?thesis
  proof cases
    case triv
    then have "in_int64 (a * b)" using assms by (auto simp: int64_consts)
    moreover have "safeMulClip a b = a * b" using triv by (auto simp: safeMulClip_def safeMul_def)
    ultimately show ?thesis by (simp add: clip_id)
  next
    case low
    have out: "\<not> in_int64 (MinInt64 * x)" if "x \<noteq> 0" "x \<noteq> 1" for x
      using that by (cases "x < 0") (auto simp: int64_consts)
    have "\<not> in_int64 (a * b)" using low(5) out [OF low(1,3)] out [OF low(2,4)] by (auto simp: mult.commute)
    then show ?thesis using low sign by (simp add: safeMulClip_def safeMul_def)
  next
    case other
    then show ?thesis using safeMul_test [OF assms other(2,5,6)] sign
      by (auto simp: safeMulClip_def safeMul_def Let_def clip_id)
  qed
qed


section \<open>The sorted set\<close>

definition vs_sorted :: "ValidatorSet \<Rightarrow> bool" where
  "vs_sorted valSet \<longleftrightarrow> sorted_wrt (<) (map v_Address (vs_Validators valSet))"

text \<open>The set as a map from addresses to validators.\<close>

definition vs_map :: "ValidatorSet \<Rightarrow> bytes \<rightharpoonup> Validator" where
  "vs_map valSet = map_of (map (\<lambda>v. (v_Address v, v)) (vs_Validators valSet))"

lemma sort_Search_spec:
  assumes mono: "\<And>a b. a \<le> b \<Longrightarrow> b < n \<Longrightarrow> f a \<Longrightarrow> f b"
    and inv: "i \<le> j" "j \<le> n" "\<And>k. k < i \<Longrightarrow> \<not> f k" "\<And>k. j \<le> k \<Longrightarrow> k < n \<Longrightarrow> f k"
  shows "sort_Search f i j \<le> n \<and> (\<forall>k < sort_Search f i j. \<not> f k) \<and> (\<forall>k\<ge>sort_Search f i j. k < n \<longrightarrow> f k)"
  using inv
proof (induction "j - i" arbitrary: i j rule: less_induct)
  case less
  let ?h = "(i + j) div 2"
  show ?case
  proof (cases "i < j")
    case False
    then have eq: "sort_Search f i j = i" by (subst sort_Search.simps) simp
    have ji: "j = i" using False less.prems(1) by simp
    show ?thesis unfolding eq using less.prems(2-4) unfolding ji by blast
  next
    case True
    then have h: "i \<le> ?h" "?h < j" by auto
    show ?thesis
    proof (cases "f ?h")
      case False
      have eq: "sort_Search f i j = sort_Search f (?h + 1) j" using True False by (subst sort_Search.simps) simp
      have lo: "\<not> f k" if "k < ?h + 1" for k using mono [of k ?h] that h less.prems(2) False by auto
      show ?thesis unfolding eq
        by (rule less.hyps [OF _ _ less.prems(2) lo less.prems(4)]) (use h in auto)
    next
      case fh: True
      have eq: "sort_Search f i j = sort_Search f i ?h" using True fh by (subst sort_Search.simps) simp
      have hi: "f k" if "?h \<le> k" "k < n" for k using mono [OF that fh] .
      show ?thesis unfolding eq
        by (rule less.hyps [OF _ h(1) _ less.prems(3) hi]) (use h less.prems(2) in auto)
    qed
  qed
qed

text \<open>The search splits the addresses at the one looked for.\<close>

lemma vs_search_spec:
  assumes "vs_sorted vs"
  shows "vs_search vs a \<le> length (vs_Validators vs)"
    "\<And>i. i < vs_search vs a \<Longrightarrow> v_Address (vs_Validators vs ! i) < a"
    "\<And>i. vs_search vs a \<le> i \<Longrightarrow> i < length (vs_Validators vs) \<Longrightarrow> a \<le> v_Address (vs_Validators vs ! i)"
proof -
  let ?vals = "vs_Validators vs"
  let ?f = "\<lambda>i. a \<le> v_Address (?vals ! i)"
  have "bytes_Compare a b \<le> 0 \<longleftrightarrow> a \<le> b" for b by (cases a b rule: linorder_cases) (auto simp: bytes_Compare_order)
  then have idx: "vs_search vs a = sort_Search ?f 0 (length ?vals)" by (simp add: vs_search_def)
  have mono: "v_Address (?vals ! i) \<le> v_Address (?vals ! j)" if "i \<le> j" "j < length ?vals" for i j
  proof (cases "i = j")
    case False
    then have "i < j" using that(1) by simp
    then show ?thesis using assms that(2) by (simp add: vs_sorted_def sorted_wrt_iff_nth_less less_imp_le)
  qed simp
  have "sort_Search ?f 0 (length ?vals) \<le> length ?vals \<and> (\<forall>k < sort_Search ?f 0 (length ?vals). \<not> ?f k) \<and>
      (\<forall>k\<ge>sort_Search ?f 0 (length ?vals). k < length ?vals \<longrightarrow> ?f k)"
  proof (rule sort_Search_spec)
    fix x y assume xy: "x \<le> y" "y < length ?vals" "a \<le> v_Address (?vals ! x)"
    from xy(3) mono [OF xy(1,2)] show "a \<le> v_Address (?vals ! y)" by (rule order_trans)
  qed auto
  then show "vs_search vs a \<le> length ?vals" "\<And>i. i < vs_search vs a \<Longrightarrow> v_Address (?vals ! i) < a"
    "\<And>i. vs_search vs a \<le> i \<Longrightarrow> i < length ?vals \<Longrightarrow> a \<le> v_Address (?vals ! i)"
    unfolding idx not_le by blast+
qed


lemma vs_sorted_distinct: "vs_sorted vs \<Longrightarrow> distinct (map v_Address (vs_Validators vs))"
  unfolding vs_sorted_def strict_sorted_iff by blast

lemma vs_map_Some: "vs_sorted vs \<Longrightarrow> vs_map vs a = Some v \<longleftrightarrow> v \<in> set (vs_Validators vs) \<and> v_Address v = a"
  using vs_sorted_distinct [of vs] by (force simp: vs_map_def comp_def)

lemma dom_vs_map: "dom (vs_map vs) = v_Address ` set (vs_Validators vs)"
  by (simp add: vs_map_def dom_map_of_conv_image_fst image_image)

text \<open>The slot the search returns holds the address exactly when the set has it.\<close>

lemma vs_search_hit:
  assumes "vs_sorted vs"
  shows "vs_map vs a = (let i = vs_search vs a in
    if i < length (vs_Validators vs) \<and> v_Address (vs_Validators vs ! i) = a then Some (vs_Validators vs ! i) else None)"
proof (cases "a \<in> dom (vs_map vs)")
  case True
  then obtain j where j: "j < length (vs_Validators vs)" "v_Address (vs_Validators vs ! j) = a"
    by (auto simp: dom_vs_map in_set_conv_nth)
  have "\<not> j < vs_search vs a" using vs_search_spec(2) [OF assms, of j a] j(2) by auto
  moreover have "\<not> vs_search vs a < j"
  proof
    assume lt: "vs_search vs a < j"
    then have "v_Address (vs_Validators vs ! vs_search vs a) < v_Address (vs_Validators vs ! j)"
      using assms j(1) by (simp add: vs_sorted_def sorted_wrt_iff_nth_less)
    moreover have "a \<le> v_Address (vs_Validators vs ! vs_search vs a)"
      using vs_search_spec(3) [OF assms order_refl] lt j(1) by simp
    ultimately show False using j(2) by simp
  qed
  ultimately have "vs_search vs a = j" by simp
  then show ?thesis using j vs_map_Some [OF assms, of a "vs_Validators vs ! j"] by simp
next
  case False
  then have "\<not> (vs_search vs a < length (vs_Validators vs) \<and> v_Address (vs_Validators vs ! vs_search vs a) = a)"
    unfolding dom_vs_map by (metis image_eqI nth_mem)
  then show ?thesis using False by (auto simp: Let_def)
qed

lemma HasAddress_map: "vs_sorted vs \<Longrightarrow> HasAddress vs a \<longleftrightarrow> vs_map vs a \<noteq> None"
  by (simp add: HasAddress_def vs_search_hit Let_def)

lemma GetByAddress_map:
  "vs_sorted vs \<Longrightarrow> GetByAddress vs a = (case vs_map vs a of None \<Rightarrow> (-1, None) | Some v \<Rightarrow> (int (vs_search vs a), Some v))"
  by (simp add: GetByAddress_def vs_search_hit Let_def)

text \<open>Sortedness and the map of a set whose list is split around an address.\<close>

lemma vs_sorted_split:
  "vs_sorted (vs\<lparr>vs_Validators := xs @ v # ys, vs_Proposer := p, vs_totalVotingPower := t\<rparr>) \<longleftrightarrow>
   sorted_wrt (<) (map v_Address xs) \<and> sorted_wrt (<) (map v_Address ys) \<and>
   (\<forall>x\<in>set xs. v_Address x < v_Address v) \<and> (\<forall>y\<in>set ys. v_Address v < v_Address y)"
proof
  assume "sorted_wrt (<) (map v_Address xs) \<and> sorted_wrt (<) (map v_Address ys) \<and>
   (\<forall>x\<in>set xs. v_Address x < v_Address v) \<and> (\<forall>y\<in>set ys. v_Address v < v_Address y)"
  then show "vs_sorted (vs\<lparr>vs_Validators := xs @ v # ys, vs_Proposer := p, vs_totalVotingPower := t\<rparr>)"
    by (auto simp: vs_sorted_def sorted_wrt_append intro: order.strict_trans)
qed (auto simp: vs_sorted_def sorted_wrt_append)

lemma vs_map_split:
  "(\<forall>x\<in>set xs. v_Address x \<noteq> v_Address v) \<Longrightarrow>
   vs_map (vs\<lparr>vs_Validators := xs @ v # ys, vs_Proposer := p, vs_totalVotingPower := t\<rparr>) =
   (vs_map (vs\<lparr>vs_Validators := xs @ ys\<rparr>))(v_Address v \<mapsto> v)"
  by (induction xs) (auto simp: vs_map_def)


lemma vs_Add_map:
  assumes "vs_sorted vs"
  shows "vs_sorted (snd (vs_Add vs v)) \<and> fst (vs_Add vs v) = (vs_map vs (v_Address v) = None) \<and>
    vs_map (snd (vs_Add vs v)) = (if vs_map vs (v_Address v) = None then (vs_map vs)(v_Address v \<mapsto> v) else vs_map vs)"
proof -
  let ?vals = "vs_Validators vs" and ?a = "v_Address v"
  let ?i = "vs_search vs ?a"
  note hit = vs_search_hit [OF assms, of ?a]
  note sp = vs_search_spec [OF assms, where a = ?a]
  show ?thesis
  proof (cases "vs_map vs ?a")
    case (Some w)
    then have "?i < length ?vals" "v_Address (?vals ! ?i) = ?a" using hit by (auto simp: Let_def split: if_splits)
    then show ?thesis using Some assms by (simp add: vs_Add_def Let_def)
  next
    case None
    then have ne: "?i < length ?vals \<Longrightarrow> v_Address (?vals ! ?i) \<noteq> ?a" using hit by (auto simp: Let_def split: if_splits)
    have eq: "vs_Add vs v = (True, vs\<lparr>vs_Validators := take ?i ?vals @ v # drop ?i ?vals, vs_Proposer := None, vs_totalVotingPower := 0\<rparr>)"
      using ne sp(1) by (auto simp: vs_Add_def Let_def)
    have lo: "\<forall>x\<in>set (take ?i ?vals). v_Address x < ?a" using sp(1,2) by (auto simp: in_set_conv_nth)
    have "?a \<notin> v_Address ` set ?vals" using None dom_vs_map [of vs] by blast
    moreover have "?a \<le> v_Address y" if "y \<in> set (drop ?i ?vals)" for y
      using that sp(3) by (auto simp: in_set_conv_nth)
    ultimately have hi: "\<forall>y\<in>set (drop ?i ?vals). ?a < v_Address y"
      by (metis image_eqI in_set_dropD order.not_eq_order_implies_strict)
    have "sorted_wrt (<) (map v_Address (take ?i ?vals))" "sorted_wrt (<) (map v_Address (drop ?i ?vals))"
      using assms by (simp_all add: vs_sorted_def sorted_wrt_take sorted_wrt_drop flip: take_map drop_map)
    then have "vs_sorted (snd (vs_Add vs v))" unfolding eq snd_conv vs_sorted_split using lo hi by blast
    moreover have "\<forall>x\<in>set (take ?i ?vals). v_Address x \<noteq> v_Address v" using lo by auto
    then have "vs_map (snd (vs_Add vs v)) = (vs_map vs)(?a \<mapsto> v)" unfolding eq snd_conv
      by (subst vs_map_split) (simp_all add: vs_map_def)
    ultimately show ?thesis using None eq by simp
  qed
qed

text \<open>A present address splits the list in three.\<close>

lemma vs_present_split:
  assumes "vs_sorted vs" "vs_map vs a = Some w"
  obtains xs ys where "vs_Validators vs = xs @ w # ys" "length xs = vs_search vs a" "v_Address w = a"
    "\<forall>x\<in>set xs. v_Address x < a" "\<forall>y\<in>set ys. a < v_Address y"
    "sorted_wrt (<) (map v_Address xs)" "sorted_wrt (<) (map v_Address ys)"
proof -
  let ?i = "vs_search vs a"
  have i: "?i < length (vs_Validators vs)" "v_Address (vs_Validators vs ! ?i) = a" "w = vs_Validators vs ! ?i"
    using vs_search_hit [OF assms(1), of a] assms(2) by (auto simp: Let_def split: if_splits)
  let ?xs = "take ?i (vs_Validators vs)" and ?ys = "drop (Suc ?i) (vs_Validators vs)"
  have sp: "vs_Validators vs = ?xs @ w # ?ys" using i(1,3) by (simp add: id_take_nth_drop [symmetric])
  have "vs_sorted (vs\<lparr>vs_Validators := ?xs @ w # ?ys, vs_Proposer := vs_Proposer vs, vs_totalVotingPower := vs_totalVotingPower vs\<rparr>)"
    unfolding sp [symmetric] using assms(1) by (simp add: vs_sorted_def)
  then show ?thesis using that [OF sp] i unfolding vs_sorted_split by simp
qed

lemma vs_Update_map:
  assumes "vs_sorted vs"
  shows "vs_sorted (snd (vs_Update vs v)) \<and> fst (vs_Update vs v) = (vs_map vs (v_Address v) \<noteq> None) \<and>
    vs_map (snd (vs_Update vs v)) = (if vs_map vs (v_Address v) = None then vs_map vs else (vs_map vs)(v_Address v \<mapsto> v))"
proof (cases "vs_map vs (v_Address v)")
  case None
  then show ?thesis using assms by (simp add: vs_Update_def GetByAddress_map)
next
  case (Some w)
  obtain xs ys where s: "vs_Validators vs = xs @ w # ys" "length xs = vs_search vs (v_Address v)" "v_Address w = v_Address v"
    "\<forall>x\<in>set xs. v_Address x < v_Address v" "\<forall>y\<in>set ys. v_Address v < v_Address y"
    "sorted_wrt (<) (map v_Address xs)" "sorted_wrt (<) (map v_Address ys)"
    by (rule vs_present_split [OF assms Some])
  have eq: "vs_Update vs v = (True, vs\<lparr>vs_Validators := xs @ v # ys, vs_Proposer := None, vs_totalVotingPower := 0\<rparr>)"
    using Some assms s(1,2) by (simp add: vs_Update_def GetByAddress_map flip: s(2))
  have ne: "\<forall>x\<in>set xs. v_Address x \<noteq> v_Address v" using s(4) by auto
  have "vs_map vs = (vs_map (vs\<lparr>vs_Validators := xs @ ys\<rparr>))(v_Address v \<mapsto> w)"
    using vs_map_split [where xs = xs and v = w and vs = vs and ys = ys and p = "vs_Proposer vs" and t = "vs_totalVotingPower vs"] ne s(1,3) by (simp add: vs_map_def)
  moreover have "vs_map (snd (vs_Update vs v)) = (vs_map (vs\<lparr>vs_Validators := xs @ ys\<rparr>))(v_Address v \<mapsto> v)"
    unfolding eq snd_conv by (rule vs_map_split [OF ne])
  moreover have "vs_sorted (snd (vs_Update vs v))" unfolding eq snd_conv vs_sorted_split using s(4-7) by blast
  ultimately show ?thesis using eq Some by simp
qed

lemma vs_Remove_map:
  assumes "vs_sorted vs"
  shows "vs_sorted (snd (vs_Remove vs a)) \<and> fst (vs_Remove vs a) = (vs_map vs a, vs_map vs a \<noteq> None) \<and>
    vs_map (snd (vs_Remove vs a)) = (vs_map vs)(a := None)"
proof (cases "vs_map vs a")
  case None
  then have "\<not> (vs_search vs a < length (vs_Validators vs) \<and> v_Address (vs_Validators vs ! vs_search vs a) = a)"
    using vs_search_hit [OF assms, of a] by (auto simp: Let_def split: if_splits)
  then have "vs_Remove vs a = ((None, False), vs)" by (auto simp: vs_Remove_def Let_def not_less)
  then show ?thesis using None assms by auto
next
  case (Some w)
  obtain xs ys where s: "vs_Validators vs = xs @ w # ys" "length xs = vs_search vs a" "v_Address w = a"
    "\<forall>x\<in>set xs. v_Address x < a" "\<forall>y\<in>set ys. a < v_Address y"
    "sorted_wrt (<) (map v_Address xs)" "sorted_wrt (<) (map v_Address ys)"
    by (rule vs_present_split [OF assms Some])
  have eq: "vs_Remove vs a = ((Some w, True), vs\<lparr>vs_Validators := xs @ ys, vs_Proposer := None, vs_totalVotingPower := 0\<rparr>)"
    using s(1,3) by (cases ys) (simp_all add: vs_Remove_def Let_def flip: s(2))
  have ne: "\<forall>x\<in>set xs. v_Address x \<noteq> v_Address w" using s(3,4) by auto
  have "vs_map vs = (vs_map (vs\<lparr>vs_Validators := xs @ ys\<rparr>))(a \<mapsto> w)"
    using ne vs_map_split [where xs = xs and v = w and vs = vs and ys = ys and p = "vs_Proposer vs" and t = "vs_totalVotingPower vs"] s(1,3) by (simp add: vs_map_def)
  moreover have "vs_map (vs\<lparr>vs_Validators := xs @ ys\<rparr>) a = None"
    using s(4,5) by (fastforce simp: vs_map_def map_add_None map_of_eq_None_iff)
  ultimately have "vs_map (snd (vs_Remove vs a)) = (vs_map vs)(a := None)" unfolding eq snd_conv by (auto simp: vs_map_def)
  moreover have "vs_sorted (snd (vs_Remove vs a))" unfolding eq snd_conv
    using s(4-7) by (auto simp: vs_sorted_def sorted_wrt_append intro: order.strict_trans)
  ultimately show ?thesis using eq Some by simp
qed


section \<open>The heap of validators\<close>

text \<open>Who comes first: the larger accum, and the smaller address among equals.\<close>

definition accum_before :: "Validator \<Rightarrow> Validator \<Rightarrow> bool" where
  "accum_before v w \<longleftrightarrow> v_Accum v > v_Accum w \<or> v_Accum v = v_Accum w \<and> v_Address v < v_Address w"

definition heap_pairs :: "('v, 'p) Heap \<Rightarrow> ('v \<times> 'p) list" where
  "heap_pairs h = map (\<lambda>it. (pq_value it, pq_priority it)) h"

definition heap_ok :: "('v, Validator) Heap \<Rightarrow> bool" where
  "heap_ok h \<longleftrightarrow> (\<forall>i<length h. pq_index (h ! i) = int i) \<and> distinct (map (\<lambda>it. v_Address (pq_priority it)) h)"

lemma accum_Less_before: "v_Address v \<noteq> v_Address w \<Longrightarrow> accum_Less v w \<longleftrightarrow> accum_before v w"
  by (cases "v_Address v" "v_Address w" rule: linorder_cases)
    (auto simp: accum_Less_def CompareAccum_def accum_before_def bytes_Compare_order)

lemma accum_Less_refl: "\<not> accum_Less v v"
  by (simp add: accum_Less_def CompareAccum_def bytes_Compare_order)

lemma pq_Swap_nth:
  "i < length h \<Longrightarrow> j < length h \<Longrightarrow> pq_Swap h i j ! k =
   (if k = j then (h ! i)\<lparr>pq_index := int j\<rparr> else if k = i then (h ! j)\<lparr>pq_index := int i\<rparr> else h ! k)"
  by (auto simp: pq_Swap_def Let_def exch_nth nth_list_update)

lemma length_pq_Swap [simp]: "length (pq_Swap h i j) = length h"
  by (simp add: pq_Swap_def Let_def)

lemma heap_pairs_Swap: "i < length h \<Longrightarrow> j < length h \<Longrightarrow> heap_pairs (pq_Swap h i j) = exch (heap_pairs h) i j"
  by (rule nth_equalityI) (auto simp: heap_pairs_def pq_Swap_nth exch_nth)

lemma heap_ok_addresses: "heap_ok h \<Longrightarrow> distinct (map (\<lambda>x. v_Address (snd x)) (heap_pairs h))"
  by (simp add: heap_ok_def heap_pairs_def comp_def)

interpretation vh: heap_impl "\<lambda>x y. accum_before (snd x) (snd y)" UNIV "priorityQueue accum_Less" heap_pairs heap_ok
  "\<lambda>h x. v_Address (snd x) \<notin> (\<lambda>it. v_Address (pq_priority it)) ` set h"
proof
  fix h :: "('v, Validator) Heap" and i j and x y z :: "'v \<times> Validator"
  show "accum_before (snd x) (snd y) \<Longrightarrow> \<not> accum_before (snd y) (snd x)" by (auto simp: accum_before_def)
  show "\<not> accum_before (snd x) (snd y) \<Longrightarrow> \<not> accum_before (snd y) (snd z) \<Longrightarrow> \<not> accum_before (snd x) (snd z)"
    by (auto simp: accum_before_def)
  show "heap_ok h \<Longrightarrow> hi_Len (priorityQueue accum_Less) h = length (heap_pairs h)"
    by (simp add: priorityQueue_def heap_pairs_def)
  show "hi_Less (priorityQueue accum_Less) h i j = accum_before (snd (heap_pairs h ! i)) (snd (heap_pairs h ! j))"
    if "heap_ok h" "i < length (heap_pairs h)" "j < length (heap_pairs h)"
  proof (cases "i = j")
    case True
    then show ?thesis using that by (simp add: priorityQueue_def heap_pairs_def accum_Less_refl accum_before_def)
  next
    case False
    then have "v_Address (pq_priority (h ! i)) \<noteq> v_Address (pq_priority (h ! j))"
      using that by (auto simp: heap_ok_def heap_pairs_def distinct_conv_nth)
    then show ?thesis using that by (simp add: priorityQueue_def heap_pairs_def accum_Less_before)
  qed
  show "heap_ok (hi_Swap (priorityQueue accum_Less) h i j) \<and>
      heap_pairs (hi_Swap (priorityQueue accum_Less) h i j) = exch (heap_pairs h) i j"
    if "heap_ok h" "i < length (heap_pairs h)" "j < length (heap_pairs h)"
  proof -
    have ij: "i < length h" "j < length h" using that by (simp_all add: heap_pairs_def)
    have "map (\<lambda>it. v_Address (pq_priority it)) (pq_Swap h i j) = exch (map (\<lambda>it. v_Address (pq_priority it)) h) i j"
      using ij by (intro nth_equalityI) (auto simp: pq_Swap_nth exch_nth)
    moreover have "distinct (exch (map (\<lambda>it. v_Address (pq_priority it)) h) i j)"
      using mset_eq_imp_distinct_iff [OF mset_exch, of i "map (\<lambda>it. v_Address (pq_priority it)) h" j] that(1) ij
      by (simp add: heap_ok_def)
    ultimately have "heap_ok (pq_Swap h i j)" using that(1) ij by (simp add: heap_ok_def pq_Swap_nth)
    then show ?thesis using heap_pairs_Swap [OF ij] by (simp add: priorityQueue_def)
  qed
  show "heap_ok (hi_Push (priorityQueue accum_Less) h x) \<and> heap_pairs (hi_Push (priorityQueue accum_Less) h x) = heap_pairs h @ [x]"
    if "heap_ok h" "v_Address (snd x) \<notin> (\<lambda>it. v_Address (pq_priority it)) ` set h"
    using that by (auto simp: priorityQueue_def pq_Push_def heap_ok_def heap_pairs_def nth_append)
  show "heap_ok (snd (hi_Pop (priorityQueue accum_Less) h)) \<and> fst (hi_Pop (priorityQueue accum_Less) h) = last (heap_pairs h) \<and>
      heap_pairs (snd (hi_Pop (priorityQueue accum_Less) h)) = butlast (heap_pairs h)"
    if "heap_ok h" "heap_pairs h \<noteq> []"
    using that by (cases h rule: rev_cases) (auto simp: priorityQueue_def pq_Pop_def heap_ok_def heap_pairs_def nth_append split: if_splits)
qed


section \<open>The proposer rotation against a scan\<close>

text \<open>The total as a function of the cache and the powers.\<close>

definition tvp :: "int \<Rightarrow> Validator list \<Rightarrow> int" where
  "tvp t vals = (if t = 0 then fold (\<lambda>val t. safeAddClip t (v_VotingPower val)) vals t else t)"

lemma TotalVotingPower_tvp: "TotalVotingPower vs = (tvp (vs_totalVotingPower vs) (vs_Validators vs),
    vs\<lparr>vs_totalVotingPower := tvp (vs_totalVotingPower vs) (vs_Validators vs)\<rparr>)"
  by (simp add: TotalVotingPower_def tvp_def Let_def)

lemma tvp_tvp [simp]: "tvp (tvp t vals) vals = tvp t vals"
  by (simp add: tvp_def)

lemma tvp_powers:
  assumes "map v_VotingPower vals = map v_VotingPower vals'"
  shows "tvp t vals = tvp t vals'"
proof -
  have eq: "fold (\<lambda>val t. safeAddClip t (v_VotingPower val)) vals = fold (\<lambda>p t. safeAddClip t p) (map v_VotingPower vals)" for vals
    by (simp add: fold_map comp_def)
  show ?thesis unfolding tvp_def eq assms ..
qed

text \<open>The reference: raise every accum, then in every turn take the first validator in \<open>accum_before\<close> order, by a scan,
  and lower it by the total.\<close>

definition raised :: "int \<Rightarrow> Validator \<Rightarrow> Validator" where
  "raised tms v = v\<lparr>v_Accum := clip (v_Accum v + clip (v_VotingPower v * tms))\<rparr>"

definition top_index :: "Validator list \<Rightarrow> nat option" where
  "top_index vals = List.find (\<lambda>i. list_all (\<lambda>j. j = i \<or> accum_before (vals ! i) (vals ! j)) [0..<length vals]) [0..<length vals]"

definition lowered :: "int \<Rightarrow> nat \<Rightarrow> Validator list \<Rightarrow> Validator list" where
  "lowered t m vals = vals[m := (vals ! m)\<lparr>v_Accum := clip (v_Accum (vals ! m) - t)\<rparr>]"

fun ref_turns :: "int \<Rightarrow> nat \<Rightarrow> Validator list \<Rightarrow> Validator list \<times> nat" where
  "ref_turns t 0 vals = (vals, 0)"
| "ref_turns t (Suc k) vals = (let m = the (top_index vals) in
     if k = 0 then (lowered t m vals, m) else ref_turns t k (lowered t m vals))"

text \<open>What the two loops keep.\<close>

definition in_range :: "Validator \<Rightarrow> bool" where
  "in_range v \<longleftrightarrow> in_int64 (v_Accum v) \<and> in_int64 (v_VotingPower v)"

definition heap_of :: "Validator list \<Rightarrow> nat \<Rightarrow> (nat, Validator) Heap \<Rightarrow> bool" where
  "heap_of vals n h \<longleftrightarrow> heap_ok h \<and> is_heap (\<lambda>x y. accum_before (snd x) (snd y)) (heap_pairs h) \<and>
     mset (heap_pairs h) = mset (map (\<lambda>i. (i, vals ! i)) [0..<n])"

lemma heap_of_set: "heap_of vals n h \<Longrightarrow> set (heap_pairs h) = (\<lambda>i. (i, vals ! i)) ` {0..<n}"
  unfolding heap_of_def by (elim conjE, drule mset_eq_setD) simp

lemma heap_of_length: "heap_of vals n h \<Longrightarrow> length h = n"
  unfolding heap_of_def by (elim conjE, drule mset_eq_length) (simp add: heap_pairs_def)

lemma top_index_unique:
  assumes "m < length vals" "\<And>j. j < length vals \<Longrightarrow> j \<noteq> m \<Longrightarrow> accum_before (vals ! m) (vals ! j)"
  shows "top_index vals = Some m"
proof -
  let ?P = "\<lambda>i. list_all (\<lambda>j. j = i \<or> accum_before (vals ! i) (vals ! j)) [0..<length vals]"
  have m: "?P m" unfolding list_all_iff using assms(2) by force
  have "\<not> ?P i" if "i < length vals" "i \<noteq> m" for i
    using assms that vh.asym [of "(0, vals ! i)" "(0, vals ! m)"] by (force simp: list_all_iff)
  then have "List.find ?P [0..<length vals] = Some m"
    unfolding find_Some_iff using m assms(1) by (intro exI [of _ m]) auto
  then show ?thesis by (simp add: top_index_def)
qed

lemma heap_front_top:
  assumes "heap_of vals (length vals) h" "vals \<noteq> []" "distinct (map v_Address vals)"
  obtains it rest m where "h = it # rest" "pq_value it = m" "pq_priority it = vals ! m" "pq_index it = 0" "m < length vals" "top_index vals = Some m"
proof -
  have len: "length h = length vals" using heap_of_length [OF assms(1)] .
  then obtain it rest where h: "h = it # rest" using assms(2) by (cases h) auto
  have "(pq_value it, pq_priority it) \<in> set (heap_pairs h)" by (simp add: heap_pairs_def h)
  then obtain m where m: "m < length vals" "pq_value it = m" "pq_priority it = vals ! m" using heap_of_set [OF assms(1)] by auto
  have idx: "pq_index it = 0" using assms(1) h by (force simp: heap_of_def heap_ok_def)
  have first: "\<not> accum_before (vals ! j) (vals ! m)" if "j < length vals" for j
  proof -
    have "(j, vals ! j) \<in> set (heap_pairs h)" using heap_of_set [OF assms(1)] that by auto
    then obtain k where k: "k < length (heap_pairs h)" "heap_pairs h ! k = (j, vals ! j)" by (auto simp: in_set_conv_nth)
    have "\<not> accum_before (snd (heap_pairs h ! k)) (snd (heap_pairs h ! 0))"
      using vh.is_heap_front [of "heap_pairs h" "length (heap_pairs h)" k] assms(1) k(1) by (simp add: heap_of_def is_heap_def)
    then show ?thesis using k(2) m(3) h by (simp add: heap_pairs_def)
  qed
  have "accum_before (vals ! m) (vals ! j)" if "j < length vals" "j \<noteq> m" for j
  proof -
    have "v_Address (vals ! m) \<noteq> v_Address (vals ! j)" using assms(3) that m(1) by (auto simp: distinct_conv_nth)
    then show ?thesis using first [OF that(1)] by (auto simp: accum_before_def)
  qed
  then have "top_index vals = Some m" using top_index_unique m(1) by blast
  then show ?thesis using that [OF h m(2,3) idx m(1)] by blast
qed


lemma accum_push_inv:
  assumes "heap_of vals i h" "i < length vals" "distinct (map v_Address vals)" "in_range (vals ! i)" "in_int64 tms"
  obtains h' where "accum_push tms i (vals, h) = (vals[i := raised tms (vals ! i)], h')" "heap_of (vals[i := raised tms (vals ! i)]) (Suc i) h'"
proof -
  let ?v = "raised tms (vals ! i)" and ?vals = "vals[i := raised tms (vals ! i)]"
  have v: "(vals ! i)\<lparr>v_Accum := safeAddClip (v_Accum (vals ! i)) (safeMulClip (v_VotingPower (vals ! i)) tms)\<rparr> = ?v"
    using assms(4,5) by (simp add: raised_def in_range_def safeAddClip_clip safeMulClip_clip)
  let ?h = "Heap_PushComparable accum_Less h i ?v"
  have "v_Address ?v \<notin> (\<lambda>it. v_Address (pq_priority it)) ` set h"
  proof
    assume "v_Address ?v \<in> (\<lambda>it. v_Address (pq_priority it)) ` set h"
    then obtain it where it: "it \<in> set h" "v_Address (pq_priority it) = v_Address (vals ! i)" by (auto simp: raised_def)
    then have "(pq_value it, pq_priority it) \<in> set (heap_pairs h)" by (auto simp: heap_pairs_def)
    then obtain k where "k < i" "pq_priority it = vals ! k" using heap_of_set [OF assms(1)] by auto
    then show False using it(2) assms(2,3) by (auto simp: distinct_conv_nth)
  qed
  then have p: "heap_ok ?h" "is_heap (\<lambda>x y. accum_before (snd x) (snd y)) (heap_pairs ?h)"
      "mset (heap_pairs ?h) = add_mset (i, ?v) (mset (heap_pairs h))"
    using vh.impl_Push [of h "(i, ?v)"] assms(1) by (auto simp: heap_of_def Heap_PushComparable_def)
  have "map (\<lambda>k. (k, ?vals ! k)) [0..<i] = map (\<lambda>k. (k, vals ! k)) [0..<i]" by simp
  then have "heap_of ?vals (Suc i) ?h" using p assms(1,2) by (simp add: heap_of_def del: map_eq_conv)
  then show ?thesis using that [of ?h] v by (simp add: accum_push_def Let_def)
qed

lemma accum_push_loop:
  assumes "distinct (map v_Address vals)" "\<forall>v\<in>set vals. in_range v" "in_int64 tms" "n \<le> length vals"
  shows "\<exists>h. fold (accum_push tms) [0..<n] (vals, NewHeap) = (map (raised tms) (take n vals) @ drop n vals, h) \<and>
    heap_of (map (raised tms) (take n vals) @ drop n vals) n h"
  using assms(4)
proof (induction n)
  case 0
  then show ?case by (simp add: heap_of_def NewHeap_def heap_ok_def heap_pairs_def is_heap_def heap_from_def)
next
  case (Suc n)
  let ?vn = "map (raised tms) (take n vals) @ drop n vals"
  obtain h where h: "fold (accum_push tms) [0..<n] (vals, NewHeap) = (?vn, h)" "heap_of ?vn n h" using Suc by auto
  have n: "n < length ?vn" "?vn ! n = vals ! n" using Suc.prems by (auto simp: nth_append)
  have up: "?vn[n := raised tms (vals ! n)] = map (raised tms) (take (Suc n) vals) @ drop (Suc n) vals"
    using Suc.prems by (intro nth_equalityI) (auto simp: nth_list_update nth_append min_def less_Suc_eq)
  have "map v_Address ?vn = map v_Address vals"
  proof -
    have "map v_Address (map (raised tms) (take n vals)) = map v_Address (take n vals)" by (simp add: raised_def)
    then show ?thesis by (metis append_take_drop_id map_append)
  qed
  then have d: "distinct (map v_Address ?vn)" using assms(1) by simp
  have r: "in_range (?vn ! n)" using n(2) assms(2) Suc.prems by simp
  obtain h' where "accum_push tms n (?vn, h) = (?vn[n := raised tms (?vn ! n)], h')" "heap_of (?vn[n := raised tms (?vn ! n)]) (Suc n) h'"
    by (rule accum_push_inv [OF h(2) n(1) d r assms(3)])
  then show ?case using h(1) by (simp add: n(2) up)
qed

lemma accum_turn_step:
  assumes "heap_of (vs_Validators vs) (length (vs_Validators vs)) h" "vs_Validators vs \<noteq> []"
    "distinct (map v_Address (vs_Validators vs))" "\<forall>v\<in>set (vs_Validators vs). in_int64 (v_Accum v)"
    "in_int64 (tvp (vs_totalVotingPower vs) (vs_Validators vs))"
  obtains m h' where "top_index (vs_Validators vs) = Some m" "m < length (vs_Validators vs)"
    "accum_turn tms i (vs, h) =
       (let vals' = lowered (tvp (vs_totalVotingPower vs) (vs_Validators vs)) m (vs_Validators vs);
            vs' = vs\<lparr>vs_Validators := vals', vs_totalVotingPower := tvp (vs_totalVotingPower vs) (vs_Validators vs)\<rparr>
        in Some (if i = tms - 1 then vs'\<lparr>vs_Proposer := Some (vals' ! m)\<rparr> else vs', h'))"
    "heap_of (lowered (tvp (vs_totalVotingPower vs) (vs_Validators vs)) m (vs_Validators vs)) (length (vs_Validators vs)) h'"
proof -
  let ?vals = "vs_Validators vs" and ?t = "tvp (vs_totalVotingPower vs) (vs_Validators vs)"
  obtain it rest m where f: "h = it # rest" "pq_value it = m" "pq_priority it = ?vals ! m" "pq_index it = 0" "m < length ?vals" "top_index ?vals = Some m"
    by (rule heap_front_top [OF assms(1-3)])
  let ?v = "(?vals ! m)\<lparr>v_Accum := clip (v_Accum (?vals ! m) - ?t)\<rparr>"
  let ?it = "it\<lparr>pq_value := m, pq_priority := ?v\<rparr>"
  have low: "lowered ?t m ?vals = ?vals[m := ?v]" by (simp add: lowered_def)
  have v: "(?vals ! m)\<lparr>v_Accum := safeSubClip (v_Accum (?vals ! m)) ?t\<rparr> = ?v"
    using assms(4,5) f(5) by (simp add: safeSubClip_clip)
  let ?h' = "heap_Fix (priorityQueue accum_Less) (?it # rest) 0"
  have pairs: "heap_pairs (?it # rest) = (heap_pairs h)[0 := (m, ?v)]" by (simp add: heap_pairs_def f(1))
  have ok: "heap_ok (?it # rest)"
  proof -
    have "map (\<lambda>it. v_Address (pq_priority it)) (?it # rest) = map (\<lambda>it. v_Address (pq_priority it)) h" by (simp add: f(1,3))
    moreover have "pq_index ((?it # rest) ! k) = pq_index (h ! k)" for k by (cases k) (simp_all add: f(1))
    ultimately show ?thesis using assms(1) f(1) by (simp only: heap_ok_def heap_of_def length_Cons) blast
  qed
  have fx: "heap_ok ?h'" "is_heap (\<lambda>x y. accum_before (snd x) (snd y)) (heap_pairs ?h')" "mset (heap_pairs ?h') = mset ((heap_pairs h)[0 := (m, ?v)])"
    using vh.impl_Fix [OF ok, of "heap_pairs h" "(m, ?v)" 0] assms(1) pairs f(1) by (auto simp: heap_of_def heap_pairs_def)
  have "mset ((heap_pairs h)[0 := (m, ?v)]) = mset (map (\<lambda>k. (k, ?vals[m := ?v] ! k)) [0..<length ?vals])"
  proof -
    have h0: "heap_pairs h ! 0 = (m, ?vals ! m)" "0 < length (heap_pairs h)" using f(1-3) by (simp_all add: heap_pairs_def)
    have "map (\<lambda>k. (k, ?vals[m := ?v] ! k)) [0..<length ?vals] = (map (\<lambda>k. (k, ?vals ! k)) [0..<length ?vals])[m := (m, ?v)]"
      using f(5) by (intro nth_equalityI) (auto simp: nth_list_update)
    then show ?thesis using assms(1) h0 f(5) by (simp add: mset_update heap_of_def)
  qed
  then have heap': "heap_of (lowered ?t m ?vals) (length ?vals) ?h'" using fx by (simp add: heap_of_def low)
  have "accum_turn tms i (vs, h) = (let vals' = lowered ?t m ?vals; vs' = vs\<lparr>vs_Validators := vals', vs_totalVotingPower := ?t\<rparr>
        in Some (if i = tms - 1 then vs'\<lparr>vs_Proposer := Some (vals' ! m)\<rparr> else vs', ?h'))"
    using f v by (simp add: accum_turn_def Heap_Peek_def Heap_Update_def TotalVotingPower_tvp low Let_def)
  then show ?thesis using that [OF f(6,5) _ heap'] by blast
qed


lemma lowered_simps [simp]: "length (lowered t m vals) = length vals" "map v_Address (lowered t m vals) = map v_Address vals"
  "map v_VotingPower (lowered t m vals) = map v_VotingPower vals"
  by (cases "m < length vals"; simp add: lowered_def map_update list_update_same_conv list_update_beyond)+

lemma lowered_range: "\<forall>v\<in>set vals. in_int64 (v_Accum v) \<Longrightarrow> \<forall>v\<in>set (lowered t m vals). in_int64 (v_Accum v)"
  by (auto simp: lowered_def dest!: set_update_subset_insert [THEN subsetD])

lemma accum_turn_loop:
  assumes "heap_of (vs_Validators vs) (length (vs_Validators vs)) h" "vs_Validators vs \<noteq> []"
    "distinct (map v_Address (vs_Validators vs))" "\<forall>v\<in>set (vs_Validators vs). in_int64 (v_Accum v)"
    "t = tvp (vs_totalVotingPower vs) (vs_Validators vs)" "in_int64 t" "tms = int k + lo" "0 < k"
  shows "\<exists>h' vs'. for_each (accum_turn tms) [lo..tms - 1] (vs, h) = Some (vs', h') \<and>
    vs_Validators vs' = fst (ref_turns t k (vs_Validators vs)) \<and>
    vs_Proposer vs' = Some (vs_Validators vs' ! snd (ref_turns t k (vs_Validators vs))) \<and> vs_totalVotingPower vs' = t"
  using assms
proof (induction k arbitrary: vs h lo)
  case (Suc k)
  let ?vals = "vs_Validators vs"
  have r: "in_int64 (tvp (vs_totalVotingPower vs) ?vals)" using Suc.prems(5,6) by simp
  obtain m h' where s: "top_index ?vals = Some m" "m < length ?vals"
    "accum_turn tms lo (vs, h) = (let vals' = lowered t m ?vals; vs' = vs\<lparr>vs_Validators := vals', vs_totalVotingPower := t\<rparr>
        in Some (if lo = tms - 1 then vs'\<lparr>vs_Proposer := Some (vals' ! m)\<rparr> else vs', h'))"
    "heap_of (lowered t m ?vals) (length ?vals) h'"
    unfolding Suc.prems(5) by (rule accum_turn_step [OF Suc.prems(1-4) r])
  let ?vs1 = "vs\<lparr>vs_Validators := lowered t m ?vals, vs_totalVotingPower := t\<rparr>"
  have up: "[lo..tms - 1] = lo # [lo + 1..tms - 1]" using Suc.prems(7) by (simp add: upto_rec1)
  show ?case
  proof (cases "k = 0")
    case True
    then have "lo = tms - 1" using Suc.prems(7) by simp
    then show ?thesis using True s by (simp add: up Let_def)
  next
    case False
    have t: "t = tvp (vs_totalVotingPower ?vs1) (vs_Validators ?vs1)"
      using tvp_powers [of "lowered t m ?vals" ?vals t] Suc.prems(5) by simp
    have ex: "\<exists>h'' vs'. for_each (accum_turn tms) [lo + 1..tms - 1] (?vs1, h') = Some (vs', h'') \<and>
        vs_Validators vs' = fst (ref_turns t k (vs_Validators ?vs1)) \<and>
        vs_Proposer vs' = Some (vs_Validators vs' ! snd (ref_turns t k (vs_Validators ?vs1))) \<and> vs_totalVotingPower vs' = t"
    proof (rule Suc.IH [OF _ _ _ _ t Suc.prems(6)])
      show "heap_of (vs_Validators ?vs1) (length (vs_Validators ?vs1)) h'" using s(4) by simp
      show "vs_Validators ?vs1 \<noteq> []" using Suc.prems(2) by (simp add: lowered_def)
      show "distinct (map v_Address (vs_Validators ?vs1))" using Suc.prems(3) by simp
      show "\<forall>v\<in>set (vs_Validators ?vs1). in_int64 (v_Accum v)" using lowered_range [OF Suc.prems(4)] by simp
      show "tms = int k + (lo + 1)" using Suc.prems(7) by simp
      show "0 < k" using False by simp
    qed
    have "lo \<noteq> tms - 1" using False Suc.prems(7) by simp
    then have "accum_turn tms lo (vs, h) = Some (?vs1, h')" using s(3) by (simp add: Let_def)
    moreover have "ref_turns t (Suc k) ?vals = ref_turns t k (vs_Validators ?vs1)" using False s(1) by simp
    ultimately show ?thesis using ex by (simp only: up for_each.simps option.case)
  qed
qed simp


section \<open>Round robin\<close>

lemma go_rem_nonneg: "0 \<le> a \<Longrightarrow> 0 < b \<Longrightarrow> go_rem a b = a mod b"
  by (auto simp: go_rem_def go_quot_def sgn_if minus_mult_div_eq_mod)

lemma sint_height_round:
  assumes "0 \<le> r" "uint (h :: u64) + r < 2 ^ 63"
  shows "sint (h + word_of_int r) = uint h + r"
proof -
  have "uint (h + word_of_int r) = uint h + r"
    using assms uint_ge_0 [of h] by (simp add: uint_word_ariths uint_word_of_int take_bit_eq_mod mod_simps)
  then show ?thesis using assms uint_ge_0 [of h] by (simp add: sint_uint signed_take_bit_eq_if_positive take_bit_int_eq_self bit_iff_odd)
qed

lemma GetProposerByMod_mod:
  assumes "vs_Validators vs \<noteq> []" "0 \<le> r" "uint h + r < 2 ^ 63"
  shows "GetProposerByMod vs h r = Some (Some (vs_Validators vs ! nat ((uint h + r) mod int (length (vs_Validators vs)))))"
  using assms uint_ge_0 [of h] by (simp add: GetProposerByMod_def Let_def sint_height_round go_rem_nonneg not_less)

section \<open>Properties\<close>

text \<open>The overflow tests of \<open>safeMul\<close>, \<open>safeAdd\<close> and \<open>safeSub\<close> are exact on 64-bit integers: the clipped operations return
  the exact result when it is representable, and the nearer end of the range when it is not.\<close>

theorem safe_arith_clips:
  assumes "in_int64 a" "in_int64 b"
  shows "safeAddClip a b = clip (a + b) \<and> safeSubClip a b = clip (a - b) \<and> safeMulClip a b = clip (a * b)"
  using assms by (simp add: safeAddClip_clip safeSubClip_clip safeMulClip_clip)

theorem safe_arith_clips_witness:
  "safeAddClip MaxInt64 5 = MaxInt64 \<and> safeSubClip MinInt64 5 = MinInt64 \<and> safeMulClip MinInt64 (-1) = MaxInt64"
  using safe_arith_clips [of MaxInt64 5] safe_arith_clips [of MinInt64 5] safe_arith_clips [of MinInt64 "-1"]
  by (simp add: clip_def int64_consts)

text \<open>Claim C17.  \<open>IncrementAccum\<close>, which keeps the validators in a heap of pointers and repairs it in place, computes what a scan of the list
  does: every accum is raised by the power times the number of turns, clipped; each turn lowers the validator with the largest accum, the smallest
  address among equals, by the total power; the one lowered last becomes the proposer.  It does not panic on a non-empty set with
  distinct addresses.\<close>

theorem increment_accum_is_scan:
  assumes "vs_Validators vs \<noteq> []" "distinct (map v_Address (vs_Validators vs))" "\<forall>v\<in>set (vs_Validators vs). in_range v"
    "0 < tms" "in_int64 tms" "t = fst (TotalVotingPower vs)" "in_int64 t"
  shows "\<exists>vs'. IncrementAccum vs tms = Some vs' \<and>
    vs_Validators vs' = fst (ref_turns t (nat tms) (map (raised tms) (vs_Validators vs))) \<and>
    vs_Proposer vs' = Some (vs_Validators vs' ! snd (ref_turns t (nat tms) (map (raised tms) (vs_Validators vs))))"
proof -
  let ?vals = "map (raised tms) (vs_Validators vs)"
  obtain h where h: "fold (accum_push tms) [0..<length (vs_Validators vs)] (vs_Validators vs, NewHeap) = (?vals, h)" "heap_of ?vals (length ?vals) h"
    using accum_push_loop [OF assms(2,3,5) order_refl] by auto
  let ?vs1 = "vs\<lparr>vs_Validators := ?vals\<rparr>"
  have "map v_VotingPower ?vals = map v_VotingPower (vs_Validators vs)" by (simp add: raised_def)
  then have t: "t = tvp (vs_totalVotingPower ?vs1) (vs_Validators ?vs1)"
    using tvp_powers [of ?vals "vs_Validators vs"] assms(6) by (simp add: TotalVotingPower_tvp)
  have a: "map v_Address ?vals = map v_Address (vs_Validators vs)" by (simp add: raised_def)
  have "\<exists>h' vs'. for_each (accum_turn tms) [0..tms - 1] (?vs1, h) = Some (vs', h') \<and>
      vs_Validators vs' = fst (ref_turns t (nat tms) (vs_Validators ?vs1)) \<and>
      vs_Proposer vs' = Some (vs_Validators vs' ! snd (ref_turns t (nat tms) (vs_Validators ?vs1))) \<and> vs_totalVotingPower vs' = t"
  proof (rule accum_turn_loop [OF _ _ _ _ t assms(7)])
    show "heap_of (vs_Validators ?vs1) (length (vs_Validators ?vs1)) h" using h(2) by simp
    show "vs_Validators ?vs1 \<noteq> []" using assms(1) by simp
    show "distinct (map v_Address (vs_Validators ?vs1))" using assms(2) unfolding a [symmetric] by simp
    show "\<forall>v\<in>set (vs_Validators ?vs1). in_int64 (v_Accum v)" by (auto simp: raised_def)
    show "tms = int (nat tms) + 0" "0 < nat tms" using assms(4) by auto
  qed
  then show ?thesis using h(1) by (auto simp: IncrementAccum_def)
qed

definition sample_vals :: "Validator list" where
  "sample_vals = [\<lparr>v_Address = [1], v_PubKeyStr = ''a'', v_VotingPower = 1, v_Accum = 0\<rparr>,
                  \<lparr>v_Address = [2], v_PubKeyStr = ''b'', v_VotingPower = 3, v_Accum = 0\<rparr>]"

definition sample_set :: ValidatorSet where
  "sample_set = \<lparr> vs_Validators = sample_vals, vs_Proposer = None, vs_BgID = 0, vs_BgVRFValue = [], vs_BgVRFProof = [],
     vs_Extend = [], vs_totalVotingPower = 0 \<rparr>"

theorem increment_accum_is_scan_witness:
  "\<exists>vs'. IncrementAccum sample_set 1 = Some vs' \<and> map v_Accum (vs_Validators vs') = [1, -1] \<and>
    vs_Proposer vs' = Some (vs_Validators vs' ! 1)"
proof -
  have t: "fst (TotalVotingPower sample_set) = 4"
    by (simp add: TotalVotingPower_def sample_set_def sample_vals_def safeAddClip_clip clip_def int64_consts)
  have r: "ref_turns 4 1 (map (raised 1) sample_vals) =
    ([(sample_vals ! 0)\<lparr>v_Accum := 1\<rparr>, (sample_vals ! 1)\<lparr>v_Accum := -1\<rparr>], 1)"
    by (simp add: sample_vals_def raised_def top_index_def lowered_def accum_before_def clip_def int64_consts)
  show ?thesis
    using increment_accum_is_scan [of sample_set 1 4] t r
    by (auto simp: sample_set_def sample_vals_def in_range_def int64_consts)
qed

text \<open>\<open>GetProposerByMod\<close>, which only the unused method \<open>isProposer\<close> calls, goes round robin: as long as height plus round stays below \<open>2^63\<close>, it never
  panics, and over as many consecutive rounds as there are validators each of them proposes exactly once.\<close>

theorem proposer_round_robin:
  assumes "vs_Validators vs \<noteq> []" "0 \<le> r" "uint h + r + int (length (vs_Validators vs)) \<le> 2 ^ 63"
  shows "mset (map (\<lambda>k. GetProposerByMod vs h (r + int k)) [0..<length (vs_Validators vs)]) =
    mset (map (\<lambda>v. Some (Some v)) (vs_Validators vs))"
proof -
  let ?n = "length (vs_Validators vs)" and ?c = "nat (uint h + r)"
  have n: "0 < ?n" using assms(1) by simp
  have "GetProposerByMod vs h (r + int k) = Some (Some (vs_Validators vs ! ((k + ?c) mod ?n)))" if "k < ?n" for k
  proof -
    have "uint h + (r + int k) = int (k + ?c)" using assms(2) uint_ge_0 [of h] by simp
    then have "nat ((uint h + (r + int k)) mod int ?n) = (k + ?c) mod ?n" by (simp only: zmod_int [symmetric] nat_int)
    moreover have "0 \<le> r + int k" "uint h + (r + int k) < 2 ^ 63" using assms(2,3) that by auto
    ultimately show ?thesis using GetProposerByMod_mod [OF assms(1), of "r + int k" h] by simp
  qed
  then have "map (\<lambda>k. GetProposerByMod vs h (r + int k)) [0..<?n] =
      map (\<lambda>i. Some (Some (vs_Validators vs ! i))) (map (\<lambda>k. (k + ?c) mod ?n) [0..<?n])" by simp
  also have "mset \<dots> = image_mset (\<lambda>i. Some (Some (vs_Validators vs ! i))) (mset [0..<?n])"
    unfolding mset_map rotation_mset [OF n, unfolded mset_map] ..
  also have "\<dots> = mset (map (\<lambda>v. Some (Some v)) (map ((!) (vs_Validators vs)) [0..<?n]))" by (simp add: comp_def)
  finally show ?thesis by (simp add: map_nth)
qed

theorem proposer_round_robin_witness:
  "mset (map (\<lambda>k. GetProposerByMod sample_set 5 (0 + int k)) [0..<length (vs_Validators sample_set)]) =
    mset (map (\<lambda>v. Some (Some v)) (vs_Validators sample_set))"
  using proposer_round_robin [of sample_set 0 5] by (simp add: sample_set_def sample_vals_def)

text \<open>Calls that change the set, and the map each stands for.\<close>

datatype vs_op = OpAdd Validator | OpUpdate Validator | OpRemove bytes

fun vs_exec :: "vs_op \<Rightarrow> ValidatorSet \<Rightarrow> ValidatorSet" where
  "vs_exec (OpAdd v) vs = snd (vs_Add vs v)"
| "vs_exec (OpUpdate v) vs = snd (vs_Update vs v)"
| "vs_exec (OpRemove a) vs = snd (vs_Remove vs a)"

fun map_exec :: "vs_op \<Rightarrow> (bytes \<rightharpoonup> Validator) \<Rightarrow> (bytes \<rightharpoonup> Validator)" where
  "map_exec (OpAdd v) m = (if m (v_Address v) = None then m(v_Address v \<mapsto> v) else m)"
| "map_exec (OpUpdate v) m = (if m (v_Address v) = None then m else m(v_Address v \<mapsto> v))"
| "map_exec (OpRemove a) m = m(a := None)"

lemma vs_exec_map: "vs_sorted vs \<Longrightarrow> vs_sorted (vs_exec op vs) \<and> vs_map (vs_exec op vs) = map_exec op (vs_map vs)"
  by (cases op) (simp_all add: vs_Add_map vs_Update_map vs_Remove_map)

text \<open>The address-sorted slice with binary search refines a map: after any sequence of \<open>Add\<close>, \<open>Update\<close> and \<open>Remove\<close> on a set sorted by
  address it is still sorted, and \<open>HasAddress\<close>, \<open>GetByAddress\<close> and \<open>GetByIndex\<close> answer as the map does.\<close>

theorem validator_set_refines_map:
  assumes "vs_sorted vs"
  shows "let vs' = fold vs_exec ops vs; m = fold map_exec ops (vs_map vs) in
    vs_sorted vs' \<and> HasAddress vs' a = (m a \<noteq> None) \<and> snd (GetByAddress vs' a) = m a \<and>
    (case m a of None \<Rightarrow> fst (GetByAddress vs' a) = -1 | Some v \<Rightarrow> GetByIndex vs' (fst (GetByAddress vs' a)) = Some (a, v))"
proof -
  have "vs_sorted (fold vs_exec ops vs) \<and> vs_map (fold vs_exec ops vs) = fold map_exec ops (vs_map vs)"
    using assms by (induction ops arbitrary: vs) (simp_all add: vs_exec_map)
  then obtain vs' where vs': "vs' = fold vs_exec ops vs" "vs_sorted vs'" "vs_map vs' = fold map_exec ops (vs_map vs)" by blast
  have "GetByIndex vs' (int (vs_search vs' a)) = Some (a, v)" if "vs_map vs' a = Some v" for v
    using vs_search_hit [OF vs'(2), of a] that by (auto simp: GetByIndex_def Let_def split: if_splits)
  then show ?thesis unfolding vs'(1) [symmetric] vs'(3) [symmetric] Let_def
    using vs'(2) by (simp add: HasAddress_map GetByAddress_map split: option.split)
qed

theorem validator_set_refines_map_witness:
  "let vs' = fold vs_exec [OpRemove [1], OpAdd (sample_vals ! 0)] sample_set in vs_sorted vs' \<and> HasAddress vs' [1]"
proof -
  have "vs_sorted sample_set" by (simp add: vs_sorted_def sample_set_def sample_vals_def)
  from validator_set_refines_map [OF this, of "[OpRemove [1], OpAdd (sample_vals ! 0)]" "[1]"] show ?thesis
    by (simp add: Let_def sample_vals_def)
qed

end
