(* ===== verification/Vote.thy ===== *)
theory Vote
  imports PartSet Validator
begin

text \<open>
  \<open>consensus/algorand/types/vote.go\<close>, \<open>height_vote_set.go\<close>, the commits and block ids of \<open>block.go\<close> and the commit check of
  \<open>validator.go\<close>.  \<open>None\<close> as the result of an operation is a run-time panic, or a loop that does not end; mutexes are left out.  The digest of a part set header
  (SHA-256 of its JSON) is the parameter \<open>dig\<close>.
\<close>

section \<open>Block ids and votes\<close>

text \<open>
  JSON writes a nil byte slice as \<open>null\<close> and an empty one as an empty string, so the digest sees a difference that \<open>bytes.Equal\<close> does
  not: \<open>bid_PartsNil\<close> says that the hash of the parts header is the nil slice.
\<close>

record BlockID =
  bid_Hash :: bytes
  bid_PartsHeader :: PartSetHeader
  bid_PartsNil :: bool

type_synonym header_digest = "PartSetHeader \<times> bool \<Rightarrow> bytes"

definition bid_IsZero :: "BlockID \<Rightarrow> bool" where
  "bid_IsZero b \<longleftrightarrow> length (bid_Hash b) = 0 \<and> psh_IsZero (bid_PartsHeader b)"

definition bid_Equals :: "BlockID \<Rightarrow> BlockID \<Rightarrow> bool" where
  "bid_Equals b other \<longleftrightarrow> bid_Hash b = bid_Hash other \<and> psh_Equals (bid_PartsHeader b) (bid_PartsHeader other)"

definition bid_Key :: "header_digest \<Rightarrow> BlockID \<Rightarrow> bytes" where
  "bid_Key dig b = bid_Hash b @ dig (bid_PartsHeader b, bid_PartsNil b)"

definition VoteTypePrevote :: byte where "VoteTypePrevote = 1"
definition VoteTypePrecommit :: byte where "VoteTypePrecommit = 2"

definition IsVoteTypeValid :: "byte \<Rightarrow> bool" where
  "IsVoteTypeValid type = (if type = VoteTypePrevote then True else if type = VoteTypePrecommit then True else False)"

record Vote =
  vt_ValidatorAddress :: bytes
  vt_ValidatorIndex :: int
  vt_Height :: u64
  vt_Round :: int
  vt_Timestamp :: int
  vt_Type :: byte
  vt_BlockID :: BlockID
  vt_Signature :: bytes

section \<open>Votes for one block\<close>

record blockVotes =
  bv_peerMaj23 :: bool
  bv_bitArray :: "BitArray option"
  bv_votes :: "Vote option list"
  bv_sum :: int

definition newBlockVotes :: "bool \<Rightarrow> int \<Rightarrow> blockVotes" where
  "newBlockVotes peerMaj23 numValidators = \<lparr> bv_peerMaj23 = peerMaj23, bv_bitArray = NewBitArray numValidators,
     bv_votes = replicate (nat numValidators) None, bv_sum = 0 \<rparr>"

text \<open>A slot of a slice of votes, or the panic.\<close>

definition vote_slot :: "Vote option list \<Rightarrow> int \<Rightarrow> nat option" where
  "vote_slot votes i = (if 0 \<le> i \<and> nat i < length votes then Some (nat i) else None)"

text \<open>The sums count slots of a slice, so they cannot overflow.\<close>

definition bv_addVerifiedVote :: "blockVotes \<Rightarrow> Vote \<Rightarrow> int \<Rightarrow> blockVotes option" where
  "bv_addVerifiedVote vs vote votingPower = do {
     k \<leftarrow> vote_slot (bv_votes vs) (vt_ValidatorIndex vote);
     if bv_votes vs ! k = None then do {
       bits \<leftarrow> mark_bit k (bv_bitArray vs);
       Some (vs\<lparr>bv_bitArray := bits, bv_votes := (bv_votes vs)[k := Some vote], bv_sum := bv_sum vs + votingPower\<rparr>) }
     else Some vs }"

definition bv_getByIndex :: "blockVotes option \<Rightarrow> int \<Rightarrow> Vote option option" where
  "bv_getByIndex vs index = (case vs of None \<Rightarrow> Some None
     | Some vs \<Rightarrow> map_option (\<lambda>k. bv_votes vs ! k) (vote_slot (bv_votes vs) index))"

section \<open>Vote sets\<close>

record VoteSet =
  vset_height :: u64
  vset_round :: int
  vset_type :: byte
  vset_valSet :: ValidatorSet
  vset_votesBitArray :: "BitArray option"
  vset_votes :: "Vote option list"
  vset_sum :: int
  vset_maj23 :: "BlockID option"
  vset_votesByBlock :: "(bytes, blockVotes) gomap"
  vset_peerMaj23s :: "(bytes, BlockID) gomap"

definition NewVoteSet :: "u64 \<Rightarrow> int \<Rightarrow> byte \<Rightarrow> ValidatorSet \<Rightarrow> VoteSet option" where
  "NewVoteSet height round type valSet = (if height = 0 then None
     else Some \<lparr> vset_height = height, vset_round = round, vset_type = type, vset_valSet = valSet,
                 vset_votesBitArray = NewBitArray (vs_Size valSet), vset_votes = replicate (nat (vs_Size valSet)) None,
                 vset_sum = 0, vset_maj23 = None, vset_votesByBlock = [], vset_peerMaj23s = [] \<rparr>)"

definition vset_Height :: "VoteSet option \<Rightarrow> u64" where
  "vset_Height p = (case p of None \<Rightarrow> 0 | Some v \<Rightarrow> vset_height v)"

definition vset_Round :: "VoteSet option \<Rightarrow> int" where
  "vset_Round p = (case p of None \<Rightarrow> -1 | Some v \<Rightarrow> vset_round v)"

definition vset_Type :: "VoteSet option \<Rightarrow> byte" where
  "vset_Type p = (case p of None \<Rightarrow> 0 | Some v \<Rightarrow> vset_type v)"

definition vset_Size :: "VoteSet option \<Rightarrow> int" where
  "vset_Size p = (case p of None \<Rightarrow> 0 | Some v \<Rightarrow> vs_Size (vset_valSet v))"

text \<open>
  The total power and its fractions in 64-bit arithmetic.  The call fills a cache in the shared validator set; the value it returns does not depend on
  whether the cache is filled, so the vote sets keep the set as it is.
\<close>

definition total_power :: "ValidatorSet \<Rightarrow> int" where
  "total_power vs = fst (TotalVotingPower vs)"

definition two_thirds :: "ValidatorSet \<Rightarrow> int" where
  "two_thirds vs = go_quot (int64 (total_power vs * 2)) 3"

datatype vote_error = ErrVoteNil | ErrVoteInvalidValidatorIndex | ErrVoteInvalidValidatorAddress | ErrVoteUnexpectedStep
  | ErrVoteNonDeterministicSignature | ErrVoteConfict

definition vset_getVote :: "header_digest \<Rightarrow> VoteSet \<Rightarrow> int \<Rightarrow> bytes \<Rightarrow> Vote option option" where
  "vset_getVote dig vset valIndex blockKey = do {
     k \<leftarrow> vote_slot (vset_votes vset) valIndex;
     case vset_votes vset ! k of
       Some existing \<Rightarrow> if bid_Key dig (vt_BlockID existing) = blockKey then Some (Some existing)
                        else bv_getByIndex (gget (vset_votesByBlock vset) blockKey) valIndex
     | None \<Rightarrow> bv_getByIndex (gget (vset_votesByBlock vset) blockKey) valIndex }"

text \<open>The primary slot: a first vote is recorded and counted; a conflicting one replaces the old only if it is for the majority block.\<close>

definition record_primary :: "header_digest \<Rightarrow> VoteSet \<Rightarrow> Vote \<Rightarrow> bytes \<Rightarrow> int \<Rightarrow> (Vote option \<times> VoteSet) option" where
  "record_primary dig vset vote blockKey votingPower = do {
     k \<leftarrow> vote_slot (vset_votes vset) (vt_ValidatorIndex vote);
     case vset_votes vset ! k of
       Some existing \<Rightarrow>
         if bid_Equals (vt_BlockID existing) (vt_BlockID vote) then None
         else if map_option (bid_Key dig) (vset_maj23 vset) = Some blockKey then do {
           bits \<leftarrow> mark_bit k (vset_votesBitArray vset);
           Some (Some existing, vset\<lparr>vset_votes := (vset_votes vset)[k := Some vote], vset_votesBitArray := bits\<rparr>) }
         else Some (Some existing, vset)
     | None \<Rightarrow> do {
         bits \<leftarrow> mark_bit k (vset_votesBitArray vset);
         Some (None, vset\<lparr>vset_votes := (vset_votes vset)[k := Some vote], vset_votesBitArray := bits, vset_sum := vset_sum vset + votingPower\<rparr>) } }"

text \<open>The first block to reach the quorum becomes the majority, and its votes are copied over the primary ones.\<close>

definition overlay :: "Vote option list \<Rightarrow> Vote option list \<Rightarrow> Vote option list" where
  "overlay new old = map2 (\<lambda>n o'. if n \<noteq> None then n else o') new old"

definition count_vote :: "VoteSet \<Rightarrow> Vote \<Rightarrow> bytes \<Rightarrow> blockVotes \<Rightarrow> int \<Rightarrow> Vote option \<Rightarrow> ((bool \<times> Vote option) \<times> VoteSet) option" where
  "count_vote vset vote blockKey bv votingPower conflicting = do {
     let origSum = bv_sum bv;
     let quorum = int64 (two_thirds (vset_valSet vset) + 1);
     bv' \<leftarrow> bv_addVerifiedVote bv vote votingPower;
     let vset1 = vset\<lparr>vset_votesByBlock := gput (vset_votesByBlock vset) blockKey bv'\<rparr>;
     Some ((True, conflicting),
       if origSum < quorum \<and> quorum \<le> bv_sum bv' \<and> vset_maj23 vset1 = None
       then vset1\<lparr>vset_maj23 := Some (vt_BlockID vote), vset_votes := overlay (bv_votes bv') (vset_votes vset1)\<rparr>
       else vset1) }"

text \<open>The parameter \<open>power\<close> is overwritten by 1.\<close>

definition vset_addVerifiedVote :: "header_digest \<Rightarrow> VoteSet \<Rightarrow> Vote \<Rightarrow> bytes \<Rightarrow> int \<Rightarrow> ((bool \<times> Vote option) \<times> VoteSet) option" where
  "vset_addVerifiedVote dig vset vote blockKey pow = (let votingPower = 1 in do {
     (conflicting, vset1) \<leftarrow> record_primary dig vset vote blockKey votingPower;
     (case gget (vset_votesByBlock vset1) blockKey of
        Some bv \<Rightarrow> if conflicting \<noteq> None \<and> \<not> bv_peerMaj23 bv then Some ((False, conflicting), vset1)
                   else count_vote vset1 vote blockKey bv votingPower conflicting
      | None \<Rightarrow> if conflicting \<noteq> None then Some ((False, conflicting), vset1)
                else count_vote vset1 vote blockKey (newBlockVotes False (vs_Size (vset_valSet vset1))) votingPower conflicting) })"

definition vset_addVote :: "header_digest \<Rightarrow> VoteSet \<Rightarrow> Vote option \<Rightarrow> ((bool \<times> vote_error option) \<times> VoteSet) option" where
  "vset_addVote dig vset p = (case p of None \<Rightarrow> Some ((False, Some ErrVoteNil), vset)
     | Some vote \<Rightarrow>
       let valIndex = vt_ValidatorIndex vote; valAddr = vt_ValidatorAddress vote; blockKey = bid_Key dig (vt_BlockID vote) in
       if valIndex < 0 then Some ((False, Some ErrVoteInvalidValidatorIndex), vset)
       else if length valAddr = 0 then Some ((False, Some ErrVoteInvalidValidatorAddress), vset)
       else if vt_Height vote \<noteq> vset_height vset \<or> vt_Round vote \<noteq> vset_round vset \<or> vt_Type vote \<noteq> vset_type vset
       then Some ((False, Some ErrVoteUnexpectedStep), vset)
       else (case GetByIndex (vset_valSet vset) valIndex of
           None \<Rightarrow> Some ((False, Some ErrVoteInvalidValidatorIndex), vset)
         | Some (lookupAddr, val) \<Rightarrow>
           if valAddr \<noteq> lookupAddr then Some ((False, Some ErrVoteInvalidValidatorAddress), vset)
           else do {
             existing \<leftarrow> vset_getVote dig vset valIndex blockKey;
             if existing \<noteq> None then Some ((False, Some ErrVoteNonDeterministicSignature), vset)
             else do {
               ((added, conflicting), vset') \<leftarrow> vset_addVerifiedVote dig vset vote blockKey (v_VotingPower val);
               if conflicting \<noteq> None then Some ((added, Some ErrVoteConfict), vset')
               else if \<not> added then None
               else Some ((added, None), vset') } }))"

definition vset_AddVote :: "header_digest \<Rightarrow> VoteSet option \<Rightarrow> Vote option \<Rightarrow> ((bool \<times> vote_error option) \<times> VoteSet option) option" where
  "vset_AddVote dig p vote = (case p of None \<Rightarrow> None | Some vset \<Rightarrow> map_option (\<lambda>(r, v). (r, Some v)) (vset_addVote dig vset vote))"

text \<open>The error of a conflicting claim of one peer is \<open>True\<close>.\<close>

definition vset_SetPeerMaj23 :: "header_digest \<Rightarrow> VoteSet \<Rightarrow> bytes \<Rightarrow> BlockID \<Rightarrow> bool \<times> VoteSet" where
  "vset_SetPeerMaj23 dig vset peerID blockID =
     (let blockKey = bid_Key dig blockID in
      case gget (vset_peerMaj23s vset) peerID of
        Some existing \<Rightarrow> (\<not> bid_Equals existing blockID, vset)
      | None \<Rightarrow>
        let vset1 = vset\<lparr>vset_peerMaj23s := gput (vset_peerMaj23s vset) peerID blockID\<rparr> in
        (False, case gget (vset_votesByBlock vset1) blockKey of
           Some bv \<Rightarrow> if bv_peerMaj23 bv then vset1
                      else vset1\<lparr>vset_votesByBlock := gput (vset_votesByBlock vset1) blockKey (bv\<lparr>bv_peerMaj23 := True\<rparr>)\<rparr>
         | None \<Rightarrow> vset1\<lparr>vset_votesByBlock := gput (vset_votesByBlock vset1) blockKey (newBlockVotes True (vs_Size (vset_valSet vset1)))\<rparr>))"

definition vset_BitArray :: "VoteSet option \<Rightarrow> BitArray option" where
  "vset_BitArray p = (case p of None \<Rightarrow> None | Some v \<Rightarrow> ba_Copy (vset_votesBitArray v))"

definition vset_BitArrayByBlockID :: "header_digest \<Rightarrow> VoteSet option \<Rightarrow> BlockID \<Rightarrow> BitArray option" where
  "vset_BitArrayByBlockID dig p blockID = (case p of None \<Rightarrow> None
     | Some v \<Rightarrow> (case gget (vset_votesByBlock v) (bid_Key dig blockID) of Some bv \<Rightarrow> ba_Copy (bv_bitArray bv) | None \<Rightarrow> None))"

definition vset_GetByIndex :: "VoteSet option \<Rightarrow> int \<Rightarrow> Vote option option" where
  "vset_GetByIndex p valIndex = (case p of None \<Rightarrow> Some None | Some v \<Rightarrow> map_option (\<lambda>k. vset_votes v ! k) (vote_slot (vset_votes v) valIndex))"

definition vset_GetByAddress :: "VoteSet option \<Rightarrow> bytes \<Rightarrow> Vote option option" where
  "vset_GetByAddress p address = (case p of None \<Rightarrow> Some None
     | Some v \<Rightarrow> (let (valIndex, val) = GetByAddress (vset_valSet v) address in
         if val = None then None else map_option (\<lambda>k. vset_votes v ! k) (vote_slot (vset_votes v) valIndex)))"

definition HasTwoThirdsMajority :: "VoteSet option \<Rightarrow> bool" where
  "HasTwoThirdsMajority p = (case p of None \<Rightarrow> False | Some v \<Rightarrow> vset_maj23 v \<noteq> None)"

definition vset_IsCommit :: "VoteSet option \<Rightarrow> bool" where
  "vset_IsCommit p = (case p of None \<Rightarrow> False | Some v \<Rightarrow> if vset_type v \<noteq> VoteTypePrecommit then False else vset_maj23 v \<noteq> None)"

definition HasTwoThirdsAny :: "VoteSet option \<Rightarrow> bool" where
  "HasTwoThirdsAny p = (case p of None \<Rightarrow> False | Some v \<Rightarrow> vset_sum v > two_thirds (vset_valSet v))"

definition HasHalfAny :: "VoteSet option \<Rightarrow> bool" where
  "HasHalfAny p = (case p of None \<Rightarrow> False | Some v \<Rightarrow> vset_sum v > go_quot (total_power (vset_valSet v) * 1) 3)"

definition HasAll :: "VoteSet \<Rightarrow> bool" where
  "HasAll v \<longleftrightarrow> vset_sum v = total_power (vset_valSet v)"

definition zero_blockID :: BlockID where
  "zero_blockID = \<lparr> bid_Hash = [], bid_PartsHeader = \<lparr> psh_Total = 0, psh_Hash = [] \<rparr>, bid_PartsNil = True \<rparr>"

definition TwoThirdsMajority :: "VoteSet option \<Rightarrow> BlockID \<times> bool" where
  "TwoThirdsMajority p = (case p of None \<Rightarrow> (zero_blockID, False)
     | Some v \<Rightarrow> (case vset_maj23 v of Some b \<Rightarrow> (b, True) | None \<Rightarrow> (zero_blockID, False)))"

section \<open>Commits\<close>

text \<open>The volatile caches hold what the functions recompute and are left out.\<close>

record Commit =
  cm_BlockID :: BlockID
  cm_Precommits :: "Vote option list"

definition MakeCommit :: "VoteSet \<Rightarrow> Commit option" where
  "MakeCommit v = (if vset_type v \<noteq> VoteTypePrecommit then None
     else (case vset_maj23 v of None \<Rightarrow> None | Some b \<Rightarrow> Some \<lparr> cm_BlockID = b, cm_Precommits = vset_votes v \<rparr>))"

definition empty_precommit :: Vote where
  "empty_precommit = \<lparr> vt_ValidatorAddress = [], vt_ValidatorIndex = 0, vt_Height = 0, vt_Round = 0, vt_Timestamp = 0,
     vt_Type = VoteTypePrecommit, vt_BlockID = zero_blockID, vt_Signature = [] \<rparr>"

definition FirstPrecommit :: "Commit \<Rightarrow> Vote option" where
  "FirstPrecommit c = (if cm_Precommits c = [] then None
     else (case List.find (\<lambda>p. p \<noteq> None) (cm_Precommits c) of Some v \<Rightarrow> v | None \<Rightarrow> Some empty_precommit))"

definition cm_Height :: "Commit \<Rightarrow> u64" where
  "cm_Height c = (if cm_Precommits c = [] then 0 else vt_Height (the (FirstPrecommit c)))"

definition cm_Round :: "Commit \<Rightarrow> int" where
  "cm_Round c = (if cm_Precommits c = [] then 0 else vt_Round (the (FirstPrecommit c)))"

definition cm_Size :: "Commit option \<Rightarrow> int" where
  "cm_Size c = (case c of None \<Rightarrow> 0 | Some c \<Rightarrow> int (length (cm_Precommits c)))"

definition cm_BitArray :: "Commit \<Rightarrow> BitArray option option" where
  "cm_BitArray c = for_each (\<lambda>(i, p) bA. map_option snd (ba_SetIndex bA (int i) (p \<noteq> None)))
     (enumerate 0 (cm_Precommits c)) (NewBitArray (int (length (cm_Precommits c))))"

definition cm_GetByIndex :: "Commit \<Rightarrow> int \<Rightarrow> Vote option option" where
  "cm_GetByIndex c index = map_option (\<lambda>k. cm_Precommits c ! k) (vote_slot (cm_Precommits c) index)"

definition cm_IsCommit :: "Commit \<Rightarrow> bool" where
  "cm_IsCommit c \<longleftrightarrow> length (cm_Precommits c) \<noteq> 0"

datatype commit_error = NilBlock | NoPrecommits | NotPrecommit | WrongHeight | WrongRound | BadSignature | VerifyFailed | InsufficientPower

fun check_precommits :: "u64 \<Rightarrow> int \<Rightarrow> Vote option list \<Rightarrow> commit_error option" where
  "check_precommits height round [] = None"
| "check_precommits height round (None # ps) = check_precommits height round ps"
| "check_precommits height round (Some precommit # ps) =
     (if vt_Type precommit \<noteq> VoteTypePrecommit then Some NotPrecommit
      else if vt_Height precommit \<noteq> height then Some WrongHeight
      else if vt_Round precommit \<noteq> round then Some WrongRound
      else check_precommits height round ps)"

definition cm_ValidateBasic :: "Commit \<Rightarrow> commit_error option" where
  "cm_ValidateBasic c = (if bid_IsZero (cm_BlockID c) then Some NilBlock
     else if cm_Precommits c = [] then Some NoPrecommits
     else check_precommits (cm_Height c) (cm_Round c) (cm_Precommits c))"

text \<open>\<open>vhash\<close> is \<open>AminoHasher\<close> on a precommit, nil for a missing one.\<close>

definition cm_Hash :: "(bytes \<Rightarrow> bytes) \<Rightarrow> (Vote option \<Rightarrow> bytes) \<Rightarrow> Commit \<Rightarrow> bytes" where
  "cm_Hash rip vhash c = SimpleHashFromHashers rip vhash (cm_Precommits c)"

section \<open>Checking a commit against a validator set\<close>

text \<open>
  \<open>marshal\<close> stands for \<open>json.Marshal\<close> of a vote and \<open>mspVerify\<close> for \<open>msp.Verify\<close> with the key of a validator; \<open>None\<close> is their error.  An index outside
  the set makes \<open>GetByIndex\<close> return nil, whose key is read: a panic.
\<close>

type_synonym verifier = "string \<Rightarrow> bytes \<Rightarrow> bytes \<Rightarrow> bool option"

definition VerifyVoteSign :: "(Vote \<Rightarrow> bytes option) \<Rightarrow> verifier \<Rightarrow> ValidatorSet \<Rightarrow> Vote option \<Rightarrow> commit_error option option" where
  "VerifyVoteSign marshal mspVerify valSet p = (case p of None \<Rightarrow> Some None
     | Some vote \<Rightarrow>
       (case marshal (vote\<lparr>vt_Signature := []\<rparr>) of
          None \<Rightarrow> Some (Some VerifyFailed)
        | Some voteBytes \<Rightarrow> do {
            (addr, val) \<leftarrow> GetByIndex valSet (vt_ValidatorIndex vote);
            (case mspVerify (v_PubKeyStr val) (vt_Signature vote) voteBytes of
               None \<Rightarrow> Some (Some VerifyFailed)
             | Some valid \<Rightarrow> if \<not> valid then Some (Some BadSignature) else Some None) }))"

fun tally_commit :: "(Vote \<Rightarrow> bytes option) \<Rightarrow> verifier \<Rightarrow> ValidatorSet \<Rightarrow> u64 \<Rightarrow> int \<Rightarrow> Vote option list \<Rightarrow> int \<Rightarrow> (commit_error + int) option" where
  "tally_commit marshal mspVerify valSet height round [] tallied = Some (Inr tallied)"
| "tally_commit marshal mspVerify valSet height round (None # ps) tallied = tally_commit marshal mspVerify valSet height round ps tallied"
| "tally_commit marshal mspVerify valSet height round (Some precommit # ps) tallied =
     (if vt_Height precommit \<noteq> height then Some (Inl WrongHeight)
      else if vt_Round precommit \<noteq> round then Some (Inl WrongRound)
      else if vt_Type precommit \<noteq> VoteTypePrecommit then Some (Inl NotPrecommit)
      else do {
        err \<leftarrow> VerifyVoteSign marshal mspVerify valSet (Some precommit);
        (case err of Some e \<Rightarrow> Some (Inl e)
         | None \<Rightarrow> do {
             (addr, val) \<leftarrow> GetByIndex valSet (vt_ValidatorIndex precommit);
             tally_commit marshal mspVerify valSet height round ps (int64 (tallied + v_VotingPower val)) }) })"

definition VerifyCommitVoteSign :: "(Vote \<Rightarrow> bytes option) \<Rightarrow> verifier \<Rightarrow> ValidatorSet \<Rightarrow> u64 \<Rightarrow> Commit \<Rightarrow> commit_error option option" where
  "VerifyCommitVoteSign marshal mspVerify valSet height commit =
     (if height \<noteq> cm_Height commit then Some (Some WrongHeight)
      else map_option (\<lambda>r. case r of Inl e \<Rightarrow> Some e
          | Inr tallied \<Rightarrow> if tallied > two_thirds valSet then None else Some InsufficientPower)
        (tally_commit marshal mspVerify valSet height (cm_Round commit) (cm_Precommits commit) 0))"

section \<open>Vote sets of one height\<close>

record RoundVoteSet =
  rvs_Prevotes :: VoteSet
  rvs_Precommits :: VoteSet

record HeightVoteSet =
  hvs_height :: u64
  hvs_valSet :: ValidatorSet
  hvs_round :: int
  hvs_roundVoteSets :: "(int, RoundVoteSet) gomap"
  hvs_peerCatchupRounds :: "(bytes, int list) gomap"

text \<open>An existing round is only remarked on, and replaced.\<close>

definition hvs_addRound :: "HeightVoteSet \<Rightarrow> int \<Rightarrow> HeightVoteSet option" where
  "hvs_addRound hvs round = do {
     prevotes \<leftarrow> NewVoteSet (hvs_height hvs) round VoteTypePrevote (hvs_valSet hvs);
     precommits \<leftarrow> NewVoteSet (hvs_height hvs) round VoteTypePrecommit (hvs_valSet hvs);
     Some (hvs\<lparr>hvs_roundVoteSets := gput (hvs_roundVoteSets hvs) round \<lparr> rvs_Prevotes = prevotes, rvs_Precommits = precommits \<rparr>\<rparr>) }"

definition hvs_Reset :: "HeightVoteSet \<Rightarrow> u64 \<Rightarrow> ValidatorSet \<Rightarrow> HeightVoteSet option" where
  "hvs_Reset hvs height valSet = map_option (\<lambda>h. h\<lparr>hvs_round := 0\<rparr>)
     (hvs_addRound (hvs\<lparr>hvs_height := height, hvs_valSet := valSet, hvs_roundVoteSets := [], hvs_peerCatchupRounds := []\<rparr>) 0)"

definition NewBlkNumVoteSet :: "u64 \<Rightarrow> ValidatorSet \<Rightarrow> HeightVoteSet option" where
  "NewBlkNumVoteSet height valSet = hvs_Reset \<lparr> hvs_height = 0, hvs_valSet = valSet, hvs_round = 0, hvs_roundVoteSets = [], hvs_peerCatchupRounds = [] \<rparr> height valSet"

text \<open>
  The loop counts in 32 bits while \<open>r <= round\<close>: for the largest 32-bit round it does not end, so that a set never has that round itself, and
  \<open>hvs.round + 1\<close> does not wrap.
\<close>

definition hvs_SetRound :: "HeightVoteSet \<Rightarrow> int \<Rightarrow> HeightVoteSet option" where
  "hvs_SetRound hvs round = (if round = 2 ^ 31 - 1 then None
     else map_option (\<lambda>h. h\<lparr>hvs_round := round\<rparr>)
       (for_each (\<lambda>r h. if gget (hvs_roundVoteSets h) r \<noteq> None then Some h else hvs_addRound h r) [hvs_round hvs + 1..round] hvs))"

definition hvs_getVoteSet :: "HeightVoteSet \<Rightarrow> int \<Rightarrow> byte \<Rightarrow> VoteSet option" where
  "hvs_getVoteSet hvs round type = (case gget (hvs_roundVoteSets hvs) round of None \<Rightarrow> None
     | Some rvs \<Rightarrow> if type = VoteTypePrevote then Some (rvs_Prevotes rvs)
                   else if type = VoteTypePrecommit then Some (rvs_Precommits rvs) else None)"

text \<open>Writing back a vote set that was reached through the pointer in the map.\<close>

definition put_vset :: "HeightVoteSet \<Rightarrow> int \<Rightarrow> byte \<Rightarrow> VoteSet \<Rightarrow> HeightVoteSet" where
  "put_vset hvs round type v = (case gget (hvs_roundVoteSets hvs) round of None \<Rightarrow> hvs
     | Some rvs \<Rightarrow> hvs\<lparr>hvs_roundVoteSets := gput (hvs_roundVoteSets hvs) round
         (if type = VoteTypePrevote then rvs\<lparr>rvs_Prevotes := v\<rparr> else rvs\<lparr>rvs_Precommits := v\<rparr>)\<rparr>)"

definition hvs_AddVote :: "header_digest \<Rightarrow> HeightVoteSet \<Rightarrow> Vote \<Rightarrow> bytes \<Rightarrow> ((bool \<times> vote_error option) \<times> HeightVoteSet) option" where
  "hvs_AddVote dig hvs vote pubKeyID =
     (if \<not> IsVoteTypeValid (vt_Type vote) then Some ((False, None), hvs)
      else do {
        hvs1 \<leftarrow> (case hvs_getVoteSet hvs (vt_Round vote) (vt_Type vote) of
            Some _ \<Rightarrow> Some hvs
          | None \<Rightarrow> do {
              h \<leftarrow> hvs_addRound hvs (vt_Round vote);
              Some (h\<lparr>hvs_peerCatchupRounds := gput (hvs_peerCatchupRounds h) pubKeyID
                (case gget (hvs_peerCatchupRounds hvs) pubKeyID of None \<Rightarrow> [vt_Round vote] | Some rndz \<Rightarrow> rndz @ [vt_Round vote])\<rparr>) });
        (r, v) \<leftarrow> vset_AddVote dig (hvs_getVoteSet hvs1 (vt_Round vote) (vt_Type vote)) (Some vote);
        Some (r, case v of None \<Rightarrow> hvs1 | Some v \<Rightarrow> put_vset hvs1 (vt_Round vote) (vt_Type vote) v) })"

definition hvs_Prevotes :: "HeightVoteSet \<Rightarrow> int \<Rightarrow> VoteSet option" where
  "hvs_Prevotes hvs round = hvs_getVoteSet hvs round VoteTypePrevote"

definition hvs_Precommits :: "HeightVoteSet \<Rightarrow> int \<Rightarrow> VoteSet option" where
  "hvs_Precommits hvs round = hvs_getVoteSet hvs round VoteTypePrecommit"

definition hvs_POLInfo :: "HeightVoteSet \<Rightarrow> int \<times> BlockID" where
  "hvs_POLInfo hvs = (case List.find (\<lambda>r. snd (TwoThirdsMajority (hvs_getVoteSet hvs r VoteTypePrevote))) (rev [0..hvs_round hvs]) of
     Some r \<Rightarrow> (r, fst (TwoThirdsMajority (hvs_getVoteSet hvs r VoteTypePrevote))) | None \<Rightarrow> (-1, zero_blockID))"

definition hvs_SetPeerMaj23 :: "header_digest \<Rightarrow> HeightVoteSet \<Rightarrow> int \<Rightarrow> byte \<Rightarrow> bytes \<Rightarrow> BlockID \<Rightarrow> bool \<times> HeightVoteSet" where
  "hvs_SetPeerMaj23 dig hvs round type pubKeyID blockID =
     (if \<not> IsVoteTypeValid type then (True, hvs)
      else (case hvs_getVoteSet hvs round type of None \<Rightarrow> (False, hvs)
        | Some v \<Rightarrow> let (err, v') = vset_SetPeerMaj23 dig v pubKeyID blockID in (err, put_vset hvs round type v')))"

end
