(* ===== verification/Vote_Inv.thy ===== *)
theory Vote_Inv
  imports Vote
begin

text \<open>
  The books of a vote set: the invariant of \<open>VoteSet\<close>, one preservation lemma per operation, and the properties of majorities and commits.
\<close>

section \<open>Slots\<close>

definition filled_slots :: "Vote option list \<Rightarrow> nat set" where
  "filled_slots votes = {i. i < length votes \<and> votes ! i \<noteq> None}"

text \<open>A slice of votes, its bit array and its count.\<close>

definition slots_ok :: "nat \<Rightarrow> BitArray option \<Rightarrow> Vote option list \<Rightarrow> int \<Rightarrow> bool" where
  "slots_ok n bits votes cnt \<longleftrightarrow> length votes = n \<and>
     (case bits of None \<Rightarrow> n = 0 | Some a \<Rightarrow> ba_ok a \<and> ba_Bits a = int n \<and> ba_set a = filled_slots votes) \<and>
     cnt = int (card (filled_slots votes))"

lemma filled_slots_finite [simp]: "finite (filled_slots votes)"
  by (simp add: filled_slots_def)

lemma filled_slots_put: "k < length votes \<Longrightarrow> filled_slots (votes[k := Some w]) = insert k (filled_slots votes)"
  by (auto simp: filled_slots_def nth_list_update)

lemma filled_slots_replicate [simp]: "filled_slots (replicate n None) = {}"
  by (auto simp: filled_slots_def)

lemma filled_slots_Nil [simp]: "filled_slots [] = {}"
  by (simp add: filled_slots_def)

lemma slots_ok_new: "slots_ok n (NewBitArray (int n)) (replicate n None) 0"
  using NewBitArray_ok [of "int n"] by (cases "n = 0") (auto simp: slots_ok_def NewBitArray_def)

lemma slots_ok_put:
  assumes "slots_ok n bits votes cnt" "k < n"
  obtains bits' where "mark_bit k bits = Some bits'"
    "slots_ok n bits' (votes[k := Some w]) (if votes ! k = None then cnt + 1 else cnt)"
proof -
  obtain a where a: "bits = Some a" "ba_ok a" "ba_Bits a = int n" "ba_set a = filled_slots votes"
    using assms by (auto simp: slots_ok_def split: option.splits)
  obtain a' where a': "mark_bit k (Some a) = Some (Some a')" "ba_ok a'" "ba_Bits a' = ba_Bits a" "ba_set a' = insert k (ba_set a)"
    by (rule mark_bit_ok [OF a(2), of k]) (use a(3) assms(2) in auto)
  have len: "length votes = n" using assms(1) by (simp add: slots_ok_def)
  have "card (insert k (filled_slots votes)) = (if votes ! k = None then Suc (card (filled_slots votes)) else card (filled_slots votes))"
    using assms(2) len by (auto simp: filled_slots_def insert_absorb)
  then have "slots_ok n (Some a') (votes[k := Some w]) (if votes ! k = None then cnt + 1 else cnt)"
    using assms a a' len by (simp add: slots_ok_def filled_slots_put)
  then show ?thesis using that [of "Some a'"] a'(1) a(1) by simp
qed

lemma vote_slot_ok: "0 \<le> i \<Longrightarrow> i < int (length votes) \<Longrightarrow> vote_slot votes i = Some (nat i)"
  by (simp add: vote_slot_def nat_less_iff)

section \<open>The invariant\<close>

definition vset_n :: "VoteSet \<Rightarrow> nat" where
  "vset_n v = length (vs_Validators (vset_valSet v))"

definition vset_quorum :: "VoteSet \<Rightarrow> int" where
  "vset_quorum v = int64 (two_thirds (vset_valSet v) + 1)"

text \<open>A vote in slot \<open>i\<close> is by validator \<open>i\<close>, under its address, for the height, round and type of the set.\<close>

definition vote_fits :: "VoteSet \<Rightarrow> nat \<Rightarrow> Vote \<Rightarrow> bool" where
  "vote_fits v i w \<longleftrightarrow> vt_ValidatorIndex w = int i \<and> i < vset_n v \<and> vt_ValidatorAddress w = v_Address (vs_Validators (vset_valSet v) ! i) \<and>
     vt_Height w = vset_height v \<and> vt_Round w = vset_round v \<and> vt_Type w = vset_type v"

definition bv_fits :: "header_digest \<Rightarrow> VoteSet \<Rightarrow> bytes \<Rightarrow> blockVotes \<Rightarrow> bool" where
  "bv_fits dig v key bv \<longleftrightarrow> slots_ok (vset_n v) (bv_bitArray bv) (bv_votes bv) (bv_sum bv) \<and>
     (\<forall>i w. i < vset_n v \<longrightarrow> bv_votes bv ! i = Some w \<longrightarrow> vote_fits v i w \<and> bid_Key dig (vt_BlockID w) = key \<and> vset_votes v ! i \<noteq> None)"

definition majority_ok :: "header_digest \<Rightarrow> VoteSet \<Rightarrow> bool" where
  "majority_ok dig v \<longleftrightarrow> (case vset_maj23 v of
     None \<Rightarrow> (\<forall>key bv. gget (vset_votesByBlock v) key = Some bv \<longrightarrow> 0 < vset_quorum v \<longrightarrow> bv_sum bv < vset_quorum v)
   | Some b \<Rightarrow> 0 < vset_quorum v \<and> (\<exists>bv. gget (vset_votesByBlock v) (bid_Key dig b) = Some bv \<and> vset_quorum v \<le> bv_sum bv \<and>
       (\<forall>i<vset_n v. bv_votes bv ! i \<noteq> None \<longrightarrow> (\<exists>w. vset_votes v ! i = Some w \<and> bid_Key dig (vt_BlockID w) = bid_Key dig b))))"

definition vset_ok :: "header_digest \<Rightarrow> VoteSet \<Rightarrow> bool" where
  "vset_ok dig v \<longleftrightarrow> slots_ok (vset_n v) (vset_votesBitArray v) (vset_votes v) (vset_sum v) \<and>
     (\<forall>i w. i < vset_n v \<longrightarrow> vset_votes v ! i = Some w \<longrightarrow> vote_fits v i w) \<and>
     gomap_ok (vset_votesByBlock v) \<and> (\<forall>key bv. gget (vset_votesByBlock v) key = Some bv \<longrightarrow> bv_fits dig v key bv) \<and>
     majority_ok dig v"

text \<open>What no operation changes.\<close>

definition same_frame :: "VoteSet \<Rightarrow> VoteSet \<Rightarrow> bool" where
  "same_frame v v' \<longleftrightarrow> vset_height v' = vset_height v \<and> vset_round v' = vset_round v \<and> vset_type v' = vset_type v \<and> vset_valSet v' = vset_valSet v"

lemma same_frame_fits: "same_frame v v' \<Longrightarrow> vset_n v' = vset_n v \<and> vset_quorum v' = vset_quorum v \<and> vote_fits v' = vote_fits v"
  by (auto simp: same_frame_def vset_n_def vset_quorum_def vote_fits_def fun_eq_iff)

lemma NewVoteSet_ok:
  assumes "h \<noteq> 0"
  shows "\<exists>v. NewVoteSet h r t vs = Some v \<and> vset_ok dig v \<and> vset_maj23 v = None \<and> vset_height v = h \<and> vset_round v = r \<and> vset_type v = t \<and> vset_valSet v = vs"
  using assms slots_ok_new [of "length (vs_Validators vs)"]
  by (auto simp: NewVoteSet_def vset_ok_def majority_ok_def vset_n_def vs_Size_def)

text \<open>
  Block ids that \<open>Equals\<close> takes for the same although their keys differ.  The only field \<open>Equals\<close> does not see is whether an empty hash of the parts
  is the nil slice, so one of the two was written with an empty hash where the other has none.
\<close>

definition clash :: "header_digest \<Rightarrow> BlockID \<Rightarrow> BlockID \<Rightarrow> bool" where
  "clash dig b b' \<longleftrightarrow> bid_Equals b b' \<and> bid_Key dig b \<noteq> bid_Key dig b'"

lemma clash_PartsNil: "clash dig b b' \<Longrightarrow> bid_Hash b = bid_Hash b' \<and> bid_PartsHeader b = bid_PartsHeader b' \<and> bid_PartsNil b \<noteq> bid_PartsNil b'"
  by (cases "bid_PartsHeader b"; cases "bid_PartsHeader b'"; cases "bid_PartsNil b"; cases "bid_PartsNil b'") (auto simp: clash_def bid_Equals_def psh_Equals_def bid_Key_def)

lemma bv_add_ok:
  assumes "bv_fits dig v key bv" "vote_fits v k w" "bid_Key dig (vt_BlockID w) = key" "vset_votes v ! k \<noteq> None" "bv_votes bv ! k = None"
  obtains bv' where "bv_addVerifiedVote bv w 1 = Some bv'" "bv_fits dig v key bv'" "bv_sum bv' = bv_sum bv + 1" "bv_votes bv' = (bv_votes bv)[k := Some w]"
proof -
  have s: "slots_ok (vset_n v) (bv_bitArray bv) (bv_votes bv) (bv_sum bv)" and k: "k < vset_n v" "vt_ValidatorIndex w = int k"
    using assms by (auto simp: bv_fits_def vote_fits_def)
  then have slot: "vote_slot (bv_votes bv) (vt_ValidatorIndex w) = Some k" by (simp add: vote_slot_def slots_ok_def)
  obtain bits' where b: "mark_bit k (bv_bitArray bv) = Some bits'"
    "slots_ok (vset_n v) bits' ((bv_votes bv)[k := Some w]) (if bv_votes bv ! k = None then bv_sum bv + 1 else bv_sum bv)"
    by (rule slots_ok_put [OF s k(1)])
  let ?bv = "bv\<lparr>bv_bitArray := bits', bv_votes := (bv_votes bv)[k := Some w], bv_sum := bv_sum bv + 1\<rparr>"
  have "bv_addVerifiedVote bv w 1 = Some ?bv" using slot b(1) assms(5) by (simp add: bv_addVerifiedVote_def)
  moreover have "bv_fits dig v key ?bv" using assms b(2) s k(1)
    by (auto simp: bv_fits_def nth_list_update slots_ok_def split: if_splits)
  ultimately show ?thesis using that by simp
qed


text \<open>The primary slot after \<open>record_primary\<close>: everything but the majority is kept, and the slot of the voter is filled.\<close>

definition primary_step :: "VoteSet \<Rightarrow> nat \<Rightarrow> Vote \<Rightarrow> bool \<Rightarrow> VoteSet \<Rightarrow> bool" where
  "primary_step v k w put v1 \<longleftrightarrow> same_frame v v1 \<and> vset_votesByBlock v1 = vset_votesByBlock v \<and> vset_maj23 v1 = vset_maj23 v \<and>
     slots_ok (vset_n v) (vset_votesBitArray v1) (vset_votes v1) (vset_sum v1) \<and>
     vset_votes v1 = (if put then (vset_votes v)[k := Some w] else vset_votes v) \<and> vset_votes v1 ! k \<noteq> None"

definition puts :: "header_digest \<Rightarrow> VoteSet \<Rightarrow> nat \<Rightarrow> bytes \<Rightarrow> bool" where
  "puts dig v k key \<longleftrightarrow> vset_votes v ! k = None \<or> map_option (bid_Key dig) (vset_maj23 v) = Some key"

lemma primary_stepD:
  assumes "primary_step v k w put v1"
  shows "same_frame v v1" "vset_votesByBlock v1 = vset_votesByBlock v" "vset_maj23 v1 = vset_maj23 v"
    "slots_ok (vset_n v) (vset_votesBitArray v1) (vset_votes v1) (vset_sum v1)" "vset_votes v1 ! k \<noteq> None"
    "vset_n v1 = vset_n v" "vset_quorum v1 = vset_quorum v" "vote_fits v1 = vote_fits v"
  using assms same_frame_fits [of v v1] unfolding primary_step_def by blast+

lemma record_primary_ok:
  assumes "vset_ok dig v" "vote_fits v k w" "key = bid_Key dig (vt_BlockID w)"
    "\<And>e. vset_votes v ! k = Some e \<Longrightarrow> bid_Key dig (vt_BlockID e) \<noteq> key \<and> \<not> clash dig (vt_BlockID e) (vt_BlockID w)"
  obtains v1 where "record_primary dig v w key 1 = Some (vset_votes v ! k, v1)"
    "primary_step v k w (puts dig v k key) v1"
proof -
  have s: "slots_ok (vset_n v) (vset_votesBitArray v) (vset_votes v) (vset_sum v)" and k: "k < vset_n v" "vt_ValidatorIndex w = int k"
    using assms(1,2) by (auto simp: vset_ok_def vote_fits_def)
  have len: "length (vset_votes v) = vset_n v" using s by (simp add: slots_ok_def)
  then have slot: "vote_slot (vset_votes v) (vt_ValidatorIndex w) = Some k" using k by (simp add: vote_slot_def)
  obtain bits' where b: "mark_bit k (vset_votesBitArray v) = Some bits'"
    "slots_ok (vset_n v) bits' ((vset_votes v)[k := Some w]) (if vset_votes v ! k = None then vset_sum v + 1 else vset_sum v)"
    by (rule slots_ok_put [OF s k(1)])
  show ?thesis
  proof (cases "vset_votes v ! k")
    case None
    let ?v1 = "v\<lparr>vset_votes := (vset_votes v)[k := Some w], vset_votesBitArray := bits', vset_sum := vset_sum v + 1\<rparr>"
    have "record_primary dig v w key 1 = Some (None, ?v1)" using slot None b(1) by (simp add: record_primary_def)
    moreover have "primary_step v k w True ?v1" using b(2) None k(1) len by (simp add: primary_step_def same_frame_def)
    moreover have "puts dig v k key" using None by (simp add: puts_def)
    ultimately show ?thesis using that [of ?v1] None by simp
  next
    case (Some e)
    have ne: "\<not> bid_Equals (vt_BlockID e) (vt_BlockID w)" using assms(3) assms(4) [OF Some] by (auto simp: clash_def)
    show ?thesis
    proof (cases "map_option (bid_Key dig) (vset_maj23 v) = Some key")
      case True
      let ?v1 = "v\<lparr>vset_votes := (vset_votes v)[k := Some w], vset_votesBitArray := bits'\<rparr>"
      have "record_primary dig v w key 1 = Some (Some e, ?v1)" using slot Some ne True b(1) by (simp add: record_primary_def)
      moreover have "primary_step v k w True ?v1" using b(2) Some k(1) len by (simp add: primary_step_def same_frame_def)
      moreover have "puts dig v k key" unfolding puts_def using True by blast
      ultimately show ?thesis using that [of ?v1] Some by simp
    next
      case False
      then have "record_primary dig v w key 1 = Some (Some e, v)" using slot Some ne by (auto simp: record_primary_def)
      moreover have "primary_step v k w False v" using s Some by (simp add: primary_step_def same_frame_def)
      moreover have "\<not> puts dig v k key" unfolding puts_def using False Some by simp
      ultimately show ?thesis using that [of v] Some by simp
    qed
  qed
qed

text \<open>The votes by block still fit, since no primary slot was emptied.\<close>

lemma primary_step_fits:
  assumes "vset_ok dig v" "vote_fits v k w" "primary_step v k w put v1"
  shows "\<And>i u. i < vset_n v1 \<Longrightarrow> vset_votes v1 ! i = Some u \<Longrightarrow> vote_fits v1 i u"
    "\<And>key bv. bv_fits dig v key bv \<Longrightarrow> bv_fits dig v1 key bv"
proof -
  have f: "vset_n v1 = vset_n v" "vset_quorum v1 = vset_quorum v" "vote_fits v1 = vote_fits v"
    using same_frame_fits assms(3) by (auto simp: primary_step_def)
  have len: "length (vset_votes v) = vset_n v" using assms(1) by (simp add: vset_ok_def slots_ok_def)
  have k: "k < vset_n v" using assms(2) by (simp add: vote_fits_def)
  have nth: "vset_votes v1 ! i = (if put \<and> i = k then Some w else vset_votes v ! i)" for i
    using assms(3) len k by (auto simp: primary_step_def)
  show "vote_fits v1 i u" if "i < vset_n v1" "vset_votes v1 ! i = Some u" for i u
    using that nth [of i] f assms(1,2) by (auto simp: vset_ok_def split: if_splits)
  show "bv_fits dig v1 key bv" if "bv_fits dig v key bv" for key bv
    using that nth f by (auto simp: bv_fits_def)
qed


lemma primary_step_nth:
  assumes "vset_ok dig v" "vote_fits v k w" "primary_step v k w put v1"
  shows "vset_votes v1 ! i = (if put \<and> i = k then Some w else vset_votes v ! i)"
  using assms by (auto simp: primary_step_def vset_ok_def slots_ok_def vote_fits_def)

text \<open>The majority block's voters keep votes for it in the primary slots.\<close>

lemma primary_step_majority:
  assumes "vset_ok dig v" "vote_fits v k w" "key = bid_Key dig (vt_BlockID w)" "primary_step v k w (puts dig v k key) v1"
    "vset_maj23 v = Some b" "gget (vset_votesByBlock v) (bid_Key dig b) = Some bv" "i < vset_n v" "bv_votes bv ! i \<noteq> None"
  shows "\<exists>u. vset_votes v1 ! i = Some u \<and> bid_Key dig (vt_BlockID u) = bid_Key dig b"
proof -
  obtain u where u: "vset_votes v ! i = Some u" "bid_Key dig (vt_BlockID u) = bid_Key dig b"
    using assms(1,5-8) by (auto simp: vset_ok_def majority_ok_def)
  show ?thesis
  proof (cases "puts dig v k key \<and> i = k")
    case True
    then have "bid_Key dig b = key" using u(1) assms(5) by (auto simp: puts_def)
    then show ?thesis using True primary_step_nth [OF assms(1,2,4), of i] assms(3) by simp
  next
    case False
    then have "vset_votes v1 ! i = vset_votes v ! i" using primary_step_nth [OF assms(1,2,4), of i] by (simp only: if_False)
    then show ?thesis using u by simp
  qed
qed

lemma primary_step_ok:
  assumes "vset_ok dig v" "vote_fits v k w" "key = bid_Key dig (vt_BlockID w)" "primary_step v k w (puts dig v k key) v1"
  shows "vset_ok dig v1"
proof -
  note f = primary_stepD [OF assms(4)]
  note fits = primary_step_fits [OF assms(1,2,4)]
  have "majority_ok dig v1"
  proof (cases "vset_maj23 v")
    case None
    then show ?thesis using assms(1) f by (simp add: vset_ok_def majority_ok_def)
  next
    case (Some b)
    then obtain bv where bv: "0 < vset_quorum v" "gget (vset_votesByBlock v) (bid_Key dig b) = Some bv" "vset_quorum v \<le> bv_sum bv"
      using assms(1) by (auto simp: vset_ok_def majority_ok_def)
    have "\<forall>i<vset_n v. bv_votes bv ! i \<noteq> None \<longrightarrow> (\<exists>u. vset_votes v1 ! i = Some u \<and> bid_Key dig (vt_BlockID u) = bid_Key dig b)"
      using primary_step_majority [OF assms(1-4) Some bv(2)] by blast
    then show ?thesis using bv Some f by (simp add: majority_ok_def)
  qed
  then show ?thesis using assms(1) f fits unfolding vset_ok_def by simp
qed

lemma overlay_nth: "length new = length old \<Longrightarrow> i < length old \<Longrightarrow> overlay new old ! i = (if new ! i \<noteq> None then new ! i else old ! i)"
  by (simp add: overlay_def)

lemma overlay_filled:
  "length new = length old \<Longrightarrow> (\<forall>i<length old. new ! i \<noteq> None \<longrightarrow> old ! i \<noteq> None) \<Longrightarrow> filled_slots (overlay new old) = filled_slots old"
  by (auto simp: filled_slots_def overlay_nth) (auto simp: overlay_def)


text \<open>Replacing the primary votes and one entry of the votes by block, once the new entry and the new slots fit.\<close>

lemma vset_ok_update:
  assumes "vset_ok dig v1" "bv_fits dig v1 key bv'"
    "v2 = v1\<lparr>vset_votesByBlock := gput (vset_votesByBlock v1) key bv', vset_maj23 := m, vset_votes := votes\<rparr>"
    "length votes = vset_n v1" "filled_slots votes = filled_slots (vset_votes v1)"
    "\<And>i u. i < vset_n v1 \<Longrightarrow> votes ! i = Some u \<Longrightarrow> vote_fits v1 i u" "majority_ok dig v2"
  shows "vset_ok dig v2"
proof -
  have frame: "same_frame v1 v2" using assms(3) by (simp add: same_frame_def)
  note f = same_frame_fits [OF frame]
  have "i \<in> filled_slots votes \<longleftrightarrow> i \<in> filled_slots (vset_votes v1)" for i using assms(5) by simp
  then have sl: "votes ! i \<noteq> None \<longleftrightarrow> vset_votes v1 ! i \<noteq> None" if "i < vset_n v1" for i
    using that assms(1,4) by (auto simp: filled_slots_def vset_ok_def slots_ok_def)
  have "bv_fits dig v2 key' b" if "bv_fits dig v1 key' b" for key' b
    using that sl f assms(3) by (auto simp: bv_fits_def)
  then show ?thesis using assms f by (auto simp: vset_ok_def slots_ok_def split: option.splits)
qed

lemma count_vote_ok:
  assumes ok: "vset_ok dig v1" and fit: "vote_fits v1 k w" and key: "key = bid_Key dig (vt_BlockID w)"
    and bv: "bv_fits dig v1 key bv" "bv_votes bv ! k = None"
    and entry: "gget (vset_votesByBlock v1) key = Some bv \<or> gget (vset_votesByBlock v1) key = None \<and> bv_sum bv = 0"
    and slot: "vset_votes v1 ! k \<noteq> None"
    and put: "map_option (bid_Key dig) (vset_maj23 v1) = Some key \<Longrightarrow> vset_votes v1 ! k = Some w"
  obtains v2 where "count_vote v1 w key bv 1 c = Some ((True, c), v2)" "vset_ok dig v2" "same_frame v1 v2"
    "\<And>b. vset_maj23 v1 = Some b \<Longrightarrow> vset_maj23 v2 = Some b"
proof -
  let ?q = "vset_quorum v1" and ?n = "vset_n v1"
  have k: "k < ?n" using fit by (simp add: vote_fits_def)
  obtain bv' where bv': "bv_addVerifiedVote bv w 1 = Some bv'" "bv_fits dig v1 key bv'" "bv_sum bv' = bv_sum bv + 1"
      "bv_votes bv' = (bv_votes bv)[k := Some w]"
    using bv_add_ok [OF bv(1) fit key [symmetric] slot bv(2)] by blast
  have lens: "length (bv_votes bv') = ?n" "length (vset_votes v1) = ?n" "0 \<le> bv_sum bv"
    using bv'(2) bv(1) ok by (auto simp: bv_fits_def vset_ok_def slots_ok_def)
  have bvlen: "length (bv_votes bv) = ?n" using bv(1) by (simp add: bv_fits_def slots_ok_def)
  let ?cross = "bv_sum bv < ?q \<and> ?q \<le> bv_sum bv' \<and> vset_maj23 v1 = None"
  let ?m = "if ?cross then Some (vt_BlockID w) else vset_maj23 v1"
  let ?votes = "if ?cross then overlay (bv_votes bv') (vset_votes v1) else vset_votes v1"
  let ?v2 = "v1\<lparr>vset_votesByBlock := gput (vset_votesByBlock v1) key bv', vset_maj23 := ?m, vset_votes := ?votes\<rparr>"
  have eq: "count_vote v1 w key bv 1 c = Some ((True, c), ?v2)"
    using bv'(1) by (auto simp: count_vote_def vset_quorum_def Let_def)
  have f: "vset_n ?v2 = ?n" "vset_quorum ?v2 = ?q" by (simp_all add: vset_n_def vset_quorum_def)
  have sub: "\<forall>i<length (vset_votes v1). bv_votes bv' ! i \<noteq> None \<longrightarrow> vset_votes v1 ! i \<noteq> None"
    using bv'(2) lens(2) by (auto simp: bv_fits_def)
  have "majority_ok dig ?v2"
  proof (cases "vset_maj23 v1")
    case None
    show ?thesis
    proof (cases ?cross)
      case True
      have "\<exists>u. ?votes ! i = Some u \<and> bid_Key dig (vt_BlockID u) = key" if "i < ?n" "bv_votes bv' ! i \<noteq> None" for i
        using that bv'(2) lens True by (auto simp: overlay_nth bv_fits_def)
      then show ?thesis using True lens(3) f key unfolding majority_ok_def by simp
    next
      case False
      then have "\<not> ?q \<le> bv_sum bv'" if "0 < ?q"
        using None entry ok that by (auto simp: vset_ok_def majority_ok_def)
      then show ?thesis using False None ok f by (auto simp: majority_ok_def vset_ok_def)
    qed
  next
    case (Some b)
    then obtain bv0 where bv0: "0 < ?q" "gget (vset_votesByBlock v1) (bid_Key dig b) = Some bv0" "?q \<le> bv_sum bv0"
        "\<And>i. i < ?n \<Longrightarrow> bv_votes bv0 ! i \<noteq> None \<Longrightarrow> \<exists>u. vset_votes v1 ! i = Some u \<and> bid_Key dig (vt_BlockID u) = bid_Key dig b"
      using ok by (auto simp: vset_ok_def majority_ok_def)
    show ?thesis
    proof (cases "bid_Key dig b = key")
      case False
      then show ?thesis using Some bv0 f by (auto simp: majority_ok_def)
    next
      case True
      then have b0: "bv0 = bv" using bv0(2) entry by auto
      have "\<exists>u. vset_votes v1 ! i = Some u \<and> bid_Key dig (vt_BlockID u) = key" if i: "i < ?n" "bv_votes bv' ! i \<noteq> None" for i
      proof (cases "i = k")
        case True
        then show ?thesis using put Some \<open>bid_Key dig b = key\<close> key by simp
      next
        case False
        then have "bv_votes bv ! i \<noteq> None" using i(2) bv'(4) by simp
        then show ?thesis using bv0(4) [OF i(1)] b0 True by simp
      qed
      then show ?thesis using True Some bv0(1,3) b0 bv'(3) f by (auto simp: majority_ok_def)
    qed
  qed
  then have "vset_ok dig ?v2"
  proof (rule vset_ok_update [OF ok bv'(2) refl, rotated 3])
    show "length ?votes = ?n" using lens by (simp add: overlay_def)
    show "filled_slots ?votes = filled_slots (vset_votes v1)" using overlay_filled [OF _ sub] lens by simp
    show "vote_fits v1 i u" if "i < ?n" "?votes ! i = Some u" for i u
      using that ok bv'(2) lens by (auto simp: overlay_nth vset_ok_def bv_fits_def split: if_splits)
  qed
  then show ?thesis using that [OF eq] by (simp add: same_frame_def)
qed


lemma newBlockVotes_fits: "bv_fits dig v key (newBlockVotes p (vs_Size (vset_valSet v)))"
  using slots_ok_new [of "vset_n v"] by (auto simp: newBlockVotes_def bv_fits_def vs_Size_def vset_n_def)

lemma getVote_spec:
  assumes "vset_ok dig v" "k < vset_n v"
  obtains e where "vset_getVote dig v (int k) key = Some e"
    "e = None \<Longrightarrow> (\<forall>u. vset_votes v ! k = Some u \<longrightarrow> bid_Key dig (vt_BlockID u) \<noteq> key) \<and>
       (\<forall>bv. gget (vset_votesByBlock v) key = Some bv \<longrightarrow> bv_votes bv ! k = None)"
proof -
  have slot: "vote_slot (vset_votes v) (int k) = Some k" using assms by (simp add: vote_slot_def vset_ok_def slots_ok_def)
  have "\<exists>e. bv_getByIndex (gget (vset_votesByBlock v) key) (int k) = Some e \<and>
      (e = None \<longrightarrow> (\<forall>bv. gget (vset_votesByBlock v) key = Some bv \<longrightarrow> bv_votes bv ! k = None))"
  proof (cases "gget (vset_votesByBlock v) key")
    case (Some bv)
    then have "bv_fits dig v key bv" using assms(1) by (simp add: vset_ok_def)
    then have "vote_slot (bv_votes bv) (int k) = Some k" using assms(2) by (simp add: vote_slot_def bv_fits_def slots_ok_def)
    then show ?thesis using Some by (simp add: bv_getByIndex_def)
  qed (simp add: bv_getByIndex_def)
  then obtain e where e: "bv_getByIndex (gget (vset_votesByBlock v) key) (int k) = Some e"
      "e = None \<longrightarrow> (\<forall>bv. gget (vset_votesByBlock v) key = Some bv \<longrightarrow> bv_votes bv ! k = None)" by blast
  show ?thesis
  proof (cases "\<exists>u. vset_votes v ! k = Some u \<and> bid_Key dig (vt_BlockID u) = key")
    case True
    then show ?thesis using that slot by (auto simp: vset_getVote_def)
  next
    case False
    then have "vset_getVote dig v (int k) key = Some e" using slot e(1) by (auto simp: vset_getVote_def split: option.splits)
    then show ?thesis using that [of e] e(2) False by blast
  qed
qed

lemma addVerifiedVote_ok:
  assumes ok: "vset_ok dig v" and fit: "vote_fits v k w" and key: "key = bid_Key dig (vt_BlockID w)"
    and new: "\<forall>u. vset_votes v ! k = Some u \<longrightarrow> bid_Key dig (vt_BlockID u) \<noteq> key \<and> \<not> clash dig (vt_BlockID u) (vt_BlockID w)"
      "\<forall>bv. gget (vset_votesByBlock v) key = Some bv \<longrightarrow> bv_votes bv ! k = None"
  obtains added v' where "vset_addVerifiedVote dig v w key p = Some ((added, vset_votes v ! k), v')" "vset_ok dig v'" "same_frame v v'"
    "\<And>b. vset_maj23 v = Some b \<Longrightarrow> vset_maj23 v' = Some b" "vset_votes v ! k = None \<Longrightarrow> added"
proof -
  obtain v1 where v1: "record_primary dig v w key 1 = Some (vset_votes v ! k, v1)" "primary_step v k w (puts dig v k key) v1"
    by (rule record_primary_ok [OF ok fit key]) (use new(1) in auto)
  note st = primary_stepD [OF v1(2)]
  have ok1: "vset_ok dig v1" by (rule primary_step_ok [OF ok fit key v1(2)])
  let ?c = "vset_votes v ! k"
  let ?go = "\<lambda>bv. count_vote v1 w key bv 1 ?c"
  have go: "\<exists>v'. ?go bv = Some ((True, ?c), v') \<and> vset_ok dig v' \<and> same_frame v v' \<and> (\<forall>b. vset_maj23 v = Some b \<longrightarrow> vset_maj23 v' = Some b)"
    if g: "bv_fits dig v1 key bv" "bv_votes bv ! k = None"
      "gget (vset_votesByBlock v1) key = Some bv \<or> gget (vset_votesByBlock v1) key = None \<and> bv_sum bv = 0" for bv
  proof -
    have put: "vset_votes v1 ! k = Some w" if "map_option (bid_Key dig) (vset_maj23 v1) = Some key"
      using primary_step_nth [OF ok fit v1(2), of k] that st(3) by (simp add: puts_def)
    obtain v2 where "?go bv = Some ((True, ?c), v2)" "vset_ok dig v2" "same_frame v1 v2" "\<And>b. vset_maj23 v1 = Some b \<Longrightarrow> vset_maj23 v2 = Some b"
      by (rule count_vote_ok [OF ok1 _ key g(1) g(2) g(3) st(5) put, of ?c]) (use fit st(8) in auto)
    then show ?thesis using st(1,3) by (auto simp: same_frame_def)
  qed
  have unf: "vset_addVerifiedVote dig v w key p =
      (case gget (vset_votesByBlock v) key of
        Some bv \<Rightarrow> if ?c \<noteq> None \<and> \<not> bv_peerMaj23 bv then Some ((False, ?c), v1) else ?go bv
      | None \<Rightarrow> if ?c \<noteq> None then Some ((False, ?c), v1) else ?go (newBlockVotes False (vs_Size (vset_valSet v1))))"
    using v1(1) st(2) by (simp add: vset_addVerifiedVote_def)
  show ?thesis
  proof (cases "gget (vset_votesByBlock v) key")
    case None
    have "bv_votes (newBlockVotes False (vs_Size (vset_valSet v1))) ! k = None"
      using fit st(6) by (simp add: newBlockVotes_def vote_fits_def vset_n_def vs_Size_def)
    then have "\<exists>v'. ?go (newBlockVotes False (vs_Size (vset_valSet v1))) = Some ((True, ?c), v') \<and> vset_ok dig v' \<and> same_frame v v' \<and>
        (\<forall>b. vset_maj23 v = Some b \<longrightarrow> vset_maj23 v' = Some b)"
      using None st(2) by (intro go newBlockVotes_fits) (simp_all add: newBlockVotes_def)
    then show ?thesis using that unf None ok1 st(1,3) by (cases "?c = None") auto
  next
    case (Some bv)
    then have "bv_fits dig v1 key bv" using ok1 st(2) by (simp add: vset_ok_def)
    then have "\<exists>v'. ?go bv = Some ((True, ?c), v') \<and> vset_ok dig v' \<and> same_frame v v' \<and> (\<forall>b. vset_maj23 v = Some b \<longrightarrow> vset_maj23 v' = Some b)"
      using Some new(2) st(2) by (intro go) simp_all
    then show ?thesis using that unf Some ok1 st(1,3) by (cases "?c \<noteq> None \<and> \<not> bv_peerMaj23 bv") auto
  qed
qed

text \<open>
  Adding a vote keeps the books; the one way to panic is a vote whose block id clashes with the one in the slot of the same validator.
\<close>

lemma addVote_cases:
  assumes "vset_ok dig v"
  obtains (rej) e where "vset_addVote dig v (Some w) = Some ((False, Some e), v)"
    | (go) k val where "vt_ValidatorIndex w = int k" "k < vset_n v" "vote_fits v k w" "GetByIndex (vset_valSet v) (int k) = Some (vt_ValidatorAddress w, val)"
      "vt_ValidatorAddress w \<noteq> []" "vt_Height w = vset_height v" "vt_Round w = vset_round v" "vt_Type w = vset_type v"
      "vset_getVote dig v (int k) (bid_Key dig (vt_BlockID w)) = Some None"
      "\<forall>u. vset_votes v ! k = Some u \<longrightarrow> bid_Key dig (vt_BlockID u) \<noteq> bid_Key dig (vt_BlockID w)"
      "\<forall>bv. gget (vset_votesByBlock v) (bid_Key dig (vt_BlockID w)) = Some bv \<longrightarrow> bv_votes bv ! k = None"
proof (cases "vt_ValidatorIndex w < 0 \<or> vt_ValidatorAddress w = [] \<or> vt_Height w \<noteq> vset_height v \<or> vt_Round w \<noteq> vset_round v \<or> vt_Type w \<noteq> vset_type v \<or>
      vt_ValidatorIndex w \<ge> int (vset_n v) \<or> vt_ValidatorAddress w \<noteq> v_Address (vs_Validators (vset_valSet v) ! nat (vt_ValidatorIndex w))")
  case True
  then have "\<exists>e. vset_addVote dig v (Some w) = Some ((False, Some e), v)"
    by (auto simp: vset_addVote_def GetByIndex_def vset_n_def Let_def)
  then show ?thesis using rej by blast
next
  case False
  then obtain k where k: "vt_ValidatorIndex w = int k" "k < vset_n v" using nonneg_int_cases [of "vt_ValidatorIndex w"] by (metis not_less of_nat_less_iff)
  let ?key = "bid_Key dig (vt_BlockID w)"
  have g: "GetByIndex (vset_valSet v) (int k) = Some (vt_ValidatorAddress w, vs_Validators (vset_valSet v) ! k)" "vote_fits v k w"
    using k False by (auto simp: vote_fits_def GetByIndex_def vset_n_def Let_def)
  obtain e where e: "vset_getVote dig v (int k) ?key = Some e"
      "e = None \<Longrightarrow> (\<forall>u. vset_votes v ! k = Some u \<longrightarrow> bid_Key dig (vt_BlockID u) \<noteq> ?key) \<and>
        (\<forall>bv. gget (vset_votesByBlock v) ?key = Some bv \<longrightarrow> bv_votes bv ! k = None)"
    by (rule getVote_spec [OF assms k(2)]) blast
  show ?thesis
  proof (cases e)
    case None
    then show ?thesis using go [OF k(1,2) g(2,1)] False e by blast
  next
    case (Some u)
    then have "vset_addVote dig v (Some w) = Some ((False, Some ErrVoteNonDeterministicSignature), v)"
      using False k g(1) e(1) by (auto simp: vset_addVote_def Let_def)
    then show ?thesis using rej by blast
  qed
qed

lemma addVote_total:
  assumes ok: "vset_ok dig v"
  shows "(\<exists>r v'. vset_addVote dig v (Some w) = Some (r, v') \<and> vset_ok dig v' \<and> same_frame v v' \<and> (\<forall>b. vset_maj23 v = Some b \<longrightarrow> vset_maj23 v' = Some b)) \<or>
    (vset_addVote dig v (Some w) = None \<and>
      (\<exists>e k. k < vset_n v \<and> vt_ValidatorIndex w = int k \<and> vset_votes v ! k = Some e \<and> clash dig (vt_BlockID e) (vt_BlockID w)))"
proof (rule addVote_cases [OF ok, of w])
  fix e assume "vset_addVote dig v (Some w) = Some ((False, Some e), v)"
  then show ?thesis using ok by (auto simp: same_frame_def)
next
  fix k val
  let ?key = "bid_Key dig (vt_BlockID w)"
  assume go: "vt_ValidatorIndex w = int k" "k < vset_n v" "vote_fits v k w" "GetByIndex (vset_valSet v) (int k) = Some (vt_ValidatorAddress w, val)"
      "vt_ValidatorAddress w \<noteq> []" "vt_Height w = vset_height v" "vt_Round w = vset_round v" "vt_Type w = vset_type v"
      "vset_getVote dig v (int k) ?key = Some None"
      "\<forall>u. vset_votes v ! k = Some u \<longrightarrow> bid_Key dig (vt_BlockID u) \<noteq> ?key"
      "\<forall>bv. gget (vset_votesByBlock v) ?key = Some bv \<longrightarrow> bv_votes bv ! k = None"
  show ?thesis
  proof (cases "\<exists>e. vset_votes v ! k = Some e \<and> clash dig (vt_BlockID e) (vt_BlockID w)")
    case True
    then obtain e where e: "vset_votes v ! k = Some e" "clash dig (vt_BlockID e) (vt_BlockID w)" by blast
    have "vote_slot (vset_votes v) (int k) = Some k" using ok go(2) by (simp add: vote_slot_def vset_ok_def slots_ok_def)
    then have "record_primary dig v w ?key 1 = None" using go(1) e by (simp add: record_primary_def clash_def)
    then have "vset_addVote dig v (Some w) = None" using go by (simp add: vset_addVote_def vset_addVerifiedVote_def Let_def)
    then show ?thesis using e go(1,2) by blast
  next
    case False
    obtain added v' where a: "vset_addVerifiedVote dig v w ?key (v_VotingPower val) = Some ((added, vset_votes v ! k), v')" "vset_ok dig v'" "same_frame v v'"
        "\<And>b. vset_maj23 v = Some b \<Longrightarrow> vset_maj23 v' = Some b" "vset_votes v ! k = None \<Longrightarrow> added"
      by (rule addVerifiedVote_ok [OF ok go(3) refl _ go(11), where p = "v_VotingPower val"]) (use False go(10) that in auto)
    have "\<exists>r. vset_addVote dig v (Some w) = Some (r, v')" using go a(1,5) by (auto simp: vset_addVote_def Let_def)
    then show ?thesis using a(2-4) by blast
  qed
qed

lemma addVote_ok:
  assumes "vset_ok dig v" "vset_addVote dig v (Some w) = Some (r, v')"
  shows "vset_ok dig v'" "same_frame v v'" "vset_maj23 v = Some b \<Longrightarrow> vset_maj23 v' = Some b"
  using addVote_total [OF assms(1), of w] assms(2) by auto


lemma SetPeerMaj23_ok:
  assumes "vset_ok dig v"
  shows "vset_ok dig (snd (vset_SetPeerMaj23 dig v peer b))" "same_frame v (snd (vset_SetPeerMaj23 dig v peer b))"
    "vset_maj23 (snd (vset_SetPeerMaj23 dig v peer b)) = vset_maj23 v"
proof -
  let ?key = "bid_Key dig b" and ?p = "gput (vset_peerMaj23s v) peer b"
  have put: "vset_ok dig (v\<lparr>vset_peerMaj23s := ?p, vset_votesByBlock := gput (vset_votesByBlock v) ?key bv\<rparr>)"
    if bv: "bv_fits dig v ?key bv"
      "\<And>old. gget (vset_votesByBlock v) ?key = Some old \<Longrightarrow> bv_votes bv = bv_votes old \<and> bv_sum bv = bv_sum old"
      "gget (vset_votesByBlock v) ?key = None \<Longrightarrow> bv_sum bv = 0" for bv
  proof -
    have "majority_ok dig v" using assms by (simp add: vset_ok_def)
    then have "majority_ok dig (v\<lparr>vset_peerMaj23s := ?p, vset_votesByBlock := gput (vset_votesByBlock v) ?key bv\<rparr>)"
      using bv(2,3) by (cases "gget (vset_votesByBlock v) ?key")
        (fastforce simp: majority_ok_def vset_quorum_def vset_n_def split: option.splits if_splits)+
    then show ?thesis using assms bv(1)
      by (auto simp: vset_ok_def vset_n_def vote_fits_def bv_fits_def split: if_splits)
  qed
  have set: "vset_ok dig (v\<lparr>vset_peerMaj23s := ?p\<rparr>)"
    using assms by (simp add: vset_ok_def vset_n_def vote_fits_def bv_fits_def majority_ok_def vset_quorum_def cong: option.case_cong)
  show "vset_ok dig (snd (vset_SetPeerMaj23 dig v peer b))"
  proof (cases "gget (vset_votesByBlock v) ?key")
    case None
    then show ?thesis using assms put [OF newBlockVotes_fits [of dig v ?key True]]
      by (auto simp: vset_SetPeerMaj23_def Let_def newBlockVotes_def split: option.splits)
  next
    case (Some bv)
    then have "bv_fits dig v ?key (bv\<lparr>bv_peerMaj23 := True\<rparr>)" using assms by (simp add: vset_ok_def bv_fits_def)
    then show ?thesis using assms set Some put [of "bv\<lparr>bv_peerMaj23 := True\<rparr>"]
      by (auto simp: vset_SetPeerMaj23_def Let_def split: option.splits)
  qed
  show "same_frame v (snd (vset_SetPeerMaj23 dig v peer b))" "vset_maj23 (snd (vset_SetPeerMaj23 dig v peer b)) = vset_maj23 v"
    by (auto simp: vset_SetPeerMaj23_def Let_def same_frame_def split: option.splits)
qed

section \<open>Runs of a vote set\<close>

datatype vset_op = Add Vote | PeerMaj bytes BlockID

fun vset_step :: "header_digest \<Rightarrow> vset_op \<Rightarrow> VoteSet \<Rightarrow> VoteSet option" where
  "vset_step dig (Add w) v = map_option snd (vset_addVote dig v (Some w))"
| "vset_step dig (PeerMaj peer b) v = Some (snd (vset_SetPeerMaj23 dig v peer b))"

definition run_vset :: "header_digest \<Rightarrow> vset_op list \<Rightarrow> VoteSet \<Rightarrow> VoteSet option" where
  "run_vset dig ops v = for_each (vset_step dig) ops v"

text \<open>The votes a set holds, and the validators it counts for a block.\<close>

definition recorded :: "VoteSet \<Rightarrow> Vote set" where
  "recorded v = {w. Some w \<in> set (vset_votes v) \<or> (\<exists>key bv. gget (vset_votesByBlock v) key = Some bv \<and> Some w \<in> set (bv_votes bv))}"

definition voters_for :: "VoteSet \<Rightarrow> bytes \<Rightarrow> nat set" where
  "voters_for v key = (case gget (vset_votesByBlock v) key of None \<Rightarrow> {} | Some bv \<Rightarrow> filled_slots (bv_votes bv))"

lemma set_update_Some: "Some w \<in> set (xs[k := Some u]) \<Longrightarrow> w = u \<or> Some w \<in> set xs"
  using set_update_subset_insert [of xs k "Some u"] by auto

lemma set_overlay: "Some w \<in> set (overlay new old) \<Longrightarrow> Some w \<in> set new \<or> Some w \<in> set old"
  by (auto simp: overlay_def set_zip split: if_splits dest: nth_mem)

lemma record_primary_recorded: "record_primary dig v w key p = Some (c, v1) \<Longrightarrow> recorded v1 \<subseteq> insert w (recorded v) \<and> vset_votesByBlock v1 = vset_votesByBlock v"
  by (auto simp: record_primary_def recorded_def split: option.splits if_splits Option.bind_splits dest!: set_update_Some)

lemma bv_add_recorded: "bv_addVerifiedVote bv w p = Some bv' \<Longrightarrow> Some u \<in> set (bv_votes bv') \<Longrightarrow> u = w \<or> Some u \<in> set (bv_votes bv)"
  by (auto simp: bv_addVerifiedVote_def split: option.splits if_splits Option.bind_splits dest!: set_update_Some)

lemma count_vote_recorded:
  assumes "count_vote v w key bv p c = Some (r, v')" "gget (vset_votesByBlock v) key = Some bv \<or> (\<forall>u. Some u \<notin> set (bv_votes bv))"
  shows "recorded v' \<subseteq> insert w (recorded v)"
proof -
  obtain bv' where bv': "bv_addVerifiedVote bv w p = Some bv'" and v': "vset_votesByBlock v' = gput (vset_votesByBlock v) key bv'"
    "vset_votes v' = vset_votes v \<or> vset_votes v' = overlay (bv_votes bv') (vset_votes v)"
    using assms(1) by (auto simp: count_vote_def Let_def split: Option.bind_splits if_splits)
  have new: "u = w \<or> u \<in> recorded v" if "Some u \<in> set (bv_votes bv')" for u
    using bv_add_recorded [OF bv' that] assms(2) by (auto simp: recorded_def)
  show ?thesis
  proof
    fix u assume "u \<in> recorded v'"
    then consider "Some u \<in> set (vset_votes v)" | "Some u \<in> set (bv_votes bv')"
        | key' bv'' where "gget (vset_votesByBlock v) key' = Some bv''" "Some u \<in> set (bv_votes bv'')"
      using v' by (auto simp: recorded_def split: if_splits dest!: set_overlay)
    then show "u \<in> insert w (recorded v)" using new by cases (auto simp: recorded_def)
  qed
qed

lemma newBlockVotes_recorded: "Some u \<notin> set (bv_votes (newBlockVotes p n))"
  by (simp add: newBlockVotes_def)

lemma addVerifiedVote_recorded:
  assumes "vset_addVerifiedVote dig v w key p = Some (r, v')"
  shows "recorded v' \<subseteq> insert w (recorded v)"
proof -
  obtain c v1 where v1: "record_primary dig v w key 1 = Some (c, v1)"
    using assms by (auto simp: vset_addVerifiedVote_def split: Option.bind_splits)
  consider "v' = v1" | bv where "count_vote v1 w key bv 1 c = Some (r, v')" "gget (vset_votesByBlock v1) key = Some bv \<or> (\<forall>u. Some u \<notin> set (bv_votes bv))"
    using assms v1 newBlockVotes_recorded by (auto simp: vset_addVerifiedVote_def split: option.splits if_splits)
  then show ?thesis using record_primary_recorded [OF v1] count_vote_recorded by cases blast+
qed

lemma addVote_recorded: "vset_addVote dig v (Some w) = Some (r, v') \<Longrightarrow> recorded v' \<subseteq> insert w (recorded v)"
  by (auto simp: vset_addVote_def Let_def split: option.splits if_splits prod.splits Option.bind_splits dest!: addVerifiedVote_recorded)

lemma SetPeerMaj23_recorded: "recorded (snd (vset_SetPeerMaj23 dig v peer b)) \<subseteq> recorded v"
  by (auto simp: vset_SetPeerMaj23_def Let_def recorded_def newBlockVotes_def split: option.splits if_splits)

lemma vset_step_ok:
  assumes "vset_ok dig v" "vset_step dig opn v = Some v'"
  shows "vset_ok dig v' \<and> same_frame v v' \<and> (\<forall>b. vset_maj23 v = Some b \<longrightarrow> vset_maj23 v' = Some b) \<and> recorded v' \<subseteq> recorded v \<union> {w. opn = Add w}"
proof (cases opn)
  case (Add w)
  then obtain r where r: "vset_addVote dig v (Some w) = Some (r, v')" using assms(2) by auto
  then show ?thesis using Add addVote_ok [OF assms(1) r] addVote_recorded [OF r] by auto
next
  case (PeerMaj peer b)
  then show ?thesis using assms(2) SetPeerMaj23_ok [OF assms(1), of peer b] SetPeerMaj23_recorded [of dig v peer b] by auto
qed

lemma vset_step_panics:
  assumes "vset_ok dig v" "vset_step dig opn v = None"
  shows "\<exists>w e. opn = Add w \<and> e \<in> recorded v \<and> vt_ValidatorIndex e = vt_ValidatorIndex w \<and> clash dig (vt_BlockID e) (vt_BlockID w)"
proof -
  obtain w where w: "opn = Add w" "vset_addVote dig v (Some w) = None" using assms(2) by (cases opn) auto
  then obtain e k where e: "k < vset_n v" "vt_ValidatorIndex w = int k" "vset_votes v ! k = Some e" "clash dig (vt_BlockID e) (vt_BlockID w)"
    using addVote_total [OF assms(1), of w] by auto
  have "length (vset_votes v) = vset_n v" "vote_fits v k e" using assms(1) e(1,3) by (auto simp: vset_ok_def slots_ok_def)
  then have "e \<in> recorded v" "vt_ValidatorIndex e = int k" using e(1,3) by (auto simp: recorded_def vote_fits_def in_set_conv_nth)
  then show ?thesis using w(1) e(2,4) by auto
qed

lemma run_vset_ok:
  assumes "vset_ok dig v" "run_vset dig ops v = Some v'"
  shows "vset_ok dig v' \<and> same_frame v v' \<and> (\<forall>b. vset_maj23 v = Some b \<longrightarrow> vset_maj23 v' = Some b) \<and> recorded v' \<subseteq> recorded v \<union> {w. Add w \<in> set ops}"
  using assms
proof (induction ops arbitrary: v)
  case Nil
  then show ?case by (auto simp: run_vset_def same_frame_def)
next
  case (Cons opn ops)
  obtain v1 where v1: "vset_step dig opn v = Some v1" "run_vset dig ops v1 = Some v'"
    using Cons.prems(2) by (auto simp: run_vset_def split: option.splits)
  then show ?case using vset_step_ok [OF Cons.prems(1) v1(1)] Cons.IH [OF _ v1(2)] by (auto simp: same_frame_def)
qed

lemma run_vset_panics:
  assumes "vset_ok dig v" "run_vset dig ops v = None"
  shows "\<exists>w e. Add w \<in> set ops \<and> (e \<in> recorded v \<or> Add e \<in> set ops) \<and> vt_ValidatorIndex e = vt_ValidatorIndex w \<and> clash dig (vt_BlockID e) (vt_BlockID w)"
  using assms
proof (induction ops arbitrary: v)
  case (Cons opn ops)
  show ?case
  proof (cases "vset_step dig opn v")
    case None
    then show ?thesis using vset_step_panics [OF Cons.prems(1) None] by auto
  next
    case (Some v1)
    then have "run_vset dig ops v1 = None" using Cons.prems(2) by (simp add: run_vset_def)
    then show ?thesis using vset_step_ok [OF Cons.prems(1) Some] Cons.IH [of v1] by fastforce
  qed
qed (simp add: run_vset_def)

lemma run_new_ok:
  assumes "h \<noteq> 0" "NewVoteSet h r t vs = Some v0" "run_vset dig ops v0 = Some v"
  shows "vset_ok dig v" "vset_height v = h" "vset_round v = r" "vset_type v = t" "vset_valSet v = vs" "recorded v \<subseteq> {w. Add w \<in> set ops}"
proof -
  have "vset_ok dig v0" "vset_height v0 = h" "vset_round v0 = r" "vset_type v0 = t" "vset_valSet v0 = vs"
    using NewVoteSet_ok [OF assms(1), of r t vs dig] assms(2) by auto
  moreover have "recorded v0 = {}" using assms(2) by (auto simp: NewVoteSet_def recorded_def split: if_splits)
  ultimately show "vset_ok dig v" "vset_height v = h" "vset_round v = r" "vset_type v = t" "vset_valSet v = vs" "recorded v \<subseteq> {w. Add w \<in> set ops}"
    using run_vset_ok [OF _ assms(3)] by (auto simp: same_frame_def)
qed

lemma run_new_panics:
  assumes "h \<noteq> 0" "NewVoteSet h r t vs = Some v0" "run_vset dig ops v0 = None"
  shows "\<exists>w e. Add w \<in> set ops \<and> Add e \<in> set ops \<and> vt_ValidatorIndex e = vt_ValidatorIndex w \<and> clash dig (vt_BlockID e) (vt_BlockID w)"
proof -
  have "vset_ok dig v0" using NewVoteSet_ok [OF assms(1), of r t vs dig] assms(2) by auto
  moreover have "recorded v0 = {}" using assms(2) by (auto simp: NewVoteSet_def recorded_def split: if_splits)
  ultimately show ?thesis using run_vset_panics [OF _ assms(3)] by simp
qed

lemma run_vset_append: "run_vset dig (xs @ ys) v = Option.bind (run_vset dig xs v) (run_vset dig ys)"
  unfolding run_vset_def [abs_def] by (rule for_each_append)

end
