(* ===== verification/Quorum.thy ===== *)
theory Quorum
  imports Vote_Inv
begin

text \<open>
  What the books of vote sets give the consensus: quorums overlap in more than a third of the validators, so that two majorities for different
  blocks expose the validators that voted twice; and a commit cut from a majority is accepted by the checks of \<open>block.go\<close> and \<open>validator.go\<close>.
\<close>

section \<open>Quorums\<close>

text \<open>Sets of more than two thirds of a finite set.\<close>

locale quorums =
  fixes U :: "'v set" and Q :: "'v set \<Rightarrow> bool"
  assumes finU: "finite U" and within: "Q A \<Longrightarrow> A \<subseteq> U" and large: "Q A \<Longrightarrow> 2 * card U < 3 * card A"
begin

lemma overlap:
  assumes "Q A" "Q B"
  shows "card U < 3 * card (A \<inter> B)"
proof -
  have fin: "finite A" "finite B" using assms within finU finite_subset by blast+
  have "card (A \<union> B) \<le> card U" using assms within finU by (intro card_mono) auto
  then show ?thesis using card_Un_Int [OF fin] large [OF assms(1)] large [OF assms(2)] by linarith
qed

lemma quorum_nonempty: "Q A \<Longrightarrow> A \<noteq> {}"
  using large by fastforce

lemma one_third_blocks: "B \<subseteq> U \<Longrightarrow> 3 * card B \<le> card U \<Longrightarrow> Q A \<Longrightarrow> \<exists>x\<in>A. x \<notin> B"
  using large [of A] card_mono [OF finite_subset [OF _ finU], of B A] by fastforce

end

text \<open>Every validator counts once, and the set is small enough for the doubled total to fit a machine integer.\<close>

definition unit_power :: "ValidatorSet \<Rightarrow> bool" where
  "unit_power vs \<longleftrightarrow> total_power vs = int (length (vs_Validators vs)) \<and> length (vs_Validators vs) < 2 ^ 62"

definition majority_of :: "header_digest \<Rightarrow> ValidatorSet \<Rightarrow> nat set \<Rightarrow> bool" where
  "majority_of dig vs A \<longleftrightarrow> unit_power vs \<and>
     (\<exists>v b. vset_ok dig v \<and> vset_valSet v = vs \<and> vset_maj23 v = Some b \<and> A = voters_for v (bid_Key dig b))"

lemma unit_quorum:
  assumes "unit_power vs"
  shows "two_thirds vs = int (2 * length (vs_Validators vs) div 3)" "int64 (two_thirds vs + 1) = two_thirds vs + 1"
proof -
  let ?n = "length (vs_Validators vs)"
  have tot: "total_power vs = int ?n" and n: "int ?n < 2 ^ 62"
    using assms by (simp_all add: unit_power_def)
  have "int64 (int ?n * 2) = int ?n * 2" using n by (intro int64_id) (simp add: int64_consts)
  then have *: "two_thirds vs = int ?n * 2 div 3" unfolding two_thirds_def tot by (auto simp: go_quot_def sgn_if)
  then show "two_thirds vs = int (2 * ?n div 3)" by (simp add: zdiv_int mult.commute)
  show "int64 (two_thirds vs + 1) = two_thirds vs + 1" using n by (intro int64_id) (simp add: int64_consts *)
qed

lemma voters_for_subset: "vset_ok dig v \<Longrightarrow> voters_for v key \<subseteq> {..<vset_n v}"
  by (auto simp: voters_for_def vset_ok_def bv_fits_def slots_ok_def filled_slots_def split: option.splits)

lemma voters_for_sum: "vset_ok dig v \<Longrightarrow> gget (vset_votesByBlock v) key = Some bv \<Longrightarrow> bv_sum bv = int (card (voters_for v key))"
  by (simp add: voters_for_def vset_ok_def bv_fits_def slots_ok_def)

lemma voters_for_vote:
  assumes "vset_ok dig v" "i \<in> voters_for v key"
  obtains w where "w \<in> recorded v" "vote_fits v i w" "bid_Key dig (vt_BlockID w) = key"
proof -
  obtain bv w where bv: "gget (vset_votesByBlock v) key = Some bv" "i < length (bv_votes bv)" "bv_votes bv ! i = Some w"
    using assms(2) by (auto simp: voters_for_def filled_slots_def split: option.splits)
  then have "Some w \<in> set (bv_votes bv)" by (metis nth_mem)
  then have "w \<in> recorded v" using bv(1) by (auto simp: recorded_def)
  moreover have "bv_fits dig v key bv" using assms(1) bv(1) by (simp add: vset_ok_def)
  ultimately show ?thesis using that bv(2,3) by (simp add: bv_fits_def slots_ok_def)
qed

lemma majority_voters:
  assumes "vset_ok dig v" "vset_maj23 v = Some b"
  shows "vset_quorum v \<le> int (card (voters_for v (bid_Key dig b)))"
    "\<And>i. i \<in> voters_for v (bid_Key dig b) \<Longrightarrow> \<exists>w. vset_votes v ! i = Some w \<and> bid_Key dig (vt_BlockID w) = bid_Key dig b"
proof -
  have maj: "majority_ok dig v" using assms(1) by (simp add: vset_ok_def)
  then obtain bv where bv: "gget (vset_votesByBlock v) (bid_Key dig b) = Some bv" "vset_quorum v \<le> bv_sum bv"
    "\<forall>i<vset_n v. bv_votes bv ! i \<noteq> None \<longrightarrow> (\<exists>w. vset_votes v ! i = Some w \<and> bid_Key dig (vt_BlockID w) = bid_Key dig b)"
    using assms(2) by (auto simp: majority_ok_def)
  show "vset_quorum v \<le> int (card (voters_for v (bid_Key dig b)))" using voters_for_sum [OF assms(1) bv(1)] bv(2) by simp
  show "\<exists>w. vset_votes v ! i = Some w \<and> bid_Key dig (vt_BlockID w) = bid_Key dig b" if i: "i \<in> voters_for v (bid_Key dig b)" for i
  proof -
    have "i < vset_n v" using voters_for_subset [OF assms(1)] i by blast
    moreover have "bv_votes bv ! i \<noteq> None" using i bv(1) by (simp add: voters_for_def filled_slots_def)
    ultimately show ?thesis using bv(3) by blast
  qed
qed

interpretation maj: quorums "{..<length (vs_Validators vs)}" "majority_of dig vs" for dig vs
proof unfold_locales
  fix A assume A: "majority_of dig vs A"
  then obtain v b where v: "vset_ok dig v" "vset_valSet v = vs" "vset_maj23 v = Some b" "A = voters_for v (bid_Key dig b)" "unit_power vs"
    by (auto simp: majority_of_def)
  show "A \<subseteq> {..<length (vs_Validators vs)}" using voters_for_subset [OF v(1)] v(2,4) by (auto simp: vset_n_def)
  have "int (2 * length (vs_Validators vs) div 3) + 1 \<le> int (card A)"
    using majority_voters(1) [OF v(1,3)] unit_quorum [OF v(5)] v(2,4) by (simp add: vset_quorum_def)
  then show "2 * card {..<length (vs_Validators vs)} < 3 * card A" by simp
qed simp

section \<open>Properties of vote sets\<close>

lemma majority_none:
  assumes "vset_ok dig v" "vset_maj23 v = None" "0 < vset_quorum v"
  shows "int (card (voters_for v key)) < vset_quorum v"
proof (cases "gget (vset_votesByBlock v) key")
  case None
  then show ?thesis using assms(3) by (simp add: voters_for_def)
next
  case (Some bv)
  then have "bv_sum bv < vset_quorum v" using assms by (auto simp: vset_ok_def majority_ok_def)
  then show ?thesis using voters_for_sum [OF assms(1) Some] by simp
qed

lemma recorded_fits:
  assumes "vset_ok dig v" "w \<in> recorded v"
  shows "\<exists>i<vset_n v. vote_fits v i w"
proof -
  have len: "length (vset_votes v) = vset_n v" using assms(1) by (simp add: vset_ok_def slots_ok_def)
  have "length (bv_votes bv) = vset_n v \<and> bv_fits dig v key bv" if "gget (vset_votesByBlock v) key = Some bv" for key bv
    using assms(1) that by (auto simp: vset_ok_def bv_fits_def slots_ok_def)
  then show ?thesis using assms len by (fastforce simp: recorded_def in_set_conv_nth vset_ok_def bv_fits_def)
qed

lemma recorded_added:
  assumes "h \<noteq> 0" "NewVoteSet h r t vs = Some v0" "run_vset dig ops v0 = Some v"
  shows "\<forall>w \<in> recorded v. Add w \<in> set ops \<and> vt_Height w = h \<and> vt_Round w = r \<and> vt_Type w = t \<and>
      (\<exists>i < length (vs_Validators vs). vt_ValidatorIndex w = int i \<and> vt_ValidatorAddress w = v_Address (vs_Validators vs ! i))"
proof
  note v = run_new_ok [OF assms]
  fix w assume w: "w \<in> recorded v"
  obtain i where "i < vset_n v" "vote_fits v i w" using recorded_fits [OF v(1) w] by blast
  then show "Add w \<in> set ops \<and> vt_Height w = h \<and> vt_Round w = r \<and> vt_Type w = t \<and>
      (\<exists>i < length (vs_Validators vs). vt_ValidatorIndex w = int i \<and> vt_ValidatorAddress w = v_Address (vs_Validators vs ! i))"
    using v w by (auto simp: vote_fits_def vset_n_def)
qed

text \<open>Claim C19.  A vote set started at a non-zero height and given any votes and any claims of peers, in any order, panics only if two of the votes were
  added for one validator and name the same block by ids that \<open>Equals\<close> takes for equal although their keys differ: same hash, same parts
  header, but an empty hash of the parts written as the nil slice in one and not in the other.  In every run that does not panic the sum is the number of validators with
  a recorded vote and the bit array is their set; every recorded vote is one that was added, by a validator of the set and of the right height, round
  and type.  When the 64-bit value of the quorum is positive, the set has a majority exactly when some block has a quorum of voters; the majority block always
  has one, its votes are the ones shown in the voters' slots, and further operations never change a majority.\<close>

theorem vote_set_books:
  assumes "h \<noteq> 0" "NewVoteSet h r t vs = Some v0"
  shows "(run_vset dig ops v0 = None \<longrightarrow> (\<exists>w w'. Add w \<in> set ops \<and> Add w' \<in> set ops \<and> vt_ValidatorIndex w = vt_ValidatorIndex w' \<and>
      bid_Equals (vt_BlockID w) (vt_BlockID w') \<and> bid_PartsNil (vt_BlockID w) \<noteq> bid_PartsNil (vt_BlockID w'))) \<and>
   (\<forall>v. run_vset dig ops v0 = Some v \<longrightarrow>
    vset_sum v = int (card (filled_slots (vset_votes v))) \<and>
    (\<forall>a. vset_votesBitArray v = Some a \<longrightarrow> ba_set a = filled_slots (vset_votes v)) \<and>
    (\<forall>w \<in> recorded v. Add w \<in> set ops \<and> vt_Height w = h \<and> vt_Round w = r \<and> vt_Type w = t \<and>
      (\<exists>i < length (vs_Validators vs). vt_ValidatorIndex w = int i \<and> vt_ValidatorAddress w = v_Address (vs_Validators vs ! i))) \<and>
    (0 < int64 (two_thirds vs + 1) \<longrightarrow>
      (HasTwoThirdsMajority (Some v) \<longleftrightarrow> (\<exists>key. int64 (two_thirds vs + 1) \<le> int (card (voters_for v key))))) \<and>
    (\<forall>b. vset_maj23 v = Some b \<longrightarrow> int64 (two_thirds vs + 1) \<le> int (card (voters_for v (bid_Key dig b))) \<and>
      (\<forall>i \<in> voters_for v (bid_Key dig b). \<exists>w. vset_votes v ! i = Some w \<and> bid_Key dig (vt_BlockID w) = bid_Key dig b) \<and>
      (\<forall>later v'. run_vset dig (ops @ later) v0 = Some v' \<longrightarrow> vset_maj23 v' = Some b)))"
    (is "(_ \<longrightarrow> ?clash) \<and> (\<forall>v. _ \<longrightarrow> ?books v)")
proof (rule conjI; intro allI impI)
  assume "run_vset dig ops v0 = None"
  then obtain w e where "Add w \<in> set ops" "Add e \<in> set ops" "vt_ValidatorIndex e = vt_ValidatorIndex w" "clash dig (vt_BlockID e) (vt_BlockID w)"
    using run_new_panics [OF assms] by blast
  then show ?clash using clash_PartsNil [of dig "vt_BlockID e" "vt_BlockID w"] by (auto simp: clash_def)
next
  fix v
  assume run: "run_vset dig ops v0 = Some v"
  note v = run_new_ok [OF assms run]
  have q: "vset_quorum v = int64 (two_thirds vs + 1)" by (simp add: vset_quorum_def v(5))
  have later: "vset_maj23 v' = Some b" if "vset_maj23 v = Some b" "run_vset dig (ops @ later) v0 = Some v'" for b later v'
    using run_vset_ok [OF v(1), of later v'] that run by (simp add: run_vset_append)
  have maj: "HasTwoThirdsMajority (Some v) \<longleftrightarrow> (\<exists>key. int64 (two_thirds vs + 1) \<le> int (card (voters_for v key)))"
    if "0 < int64 (two_thirds vs + 1)"
    using that majority_none [OF v(1)] majority_voters(1) [OF v(1)] q
    by (cases "vset_maj23 v") (auto simp: HasTwoThirdsMajority_def not_le)
  have sl: "vset_sum v = int (card (filled_slots (vset_votes v)))" "\<forall>a. vset_votesBitArray v = Some a \<longrightarrow> ba_set a = filled_slots (vset_votes v)"
    using v(1) by (auto simp: vset_ok_def slots_ok_def)
  have block: "\<forall>b. vset_maj23 v = Some b \<longrightarrow> int64 (two_thirds vs + 1) \<le> int (card (voters_for v (bid_Key dig b))) \<and>
      (\<forall>i \<in> voters_for v (bid_Key dig b). \<exists>w. vset_votes v ! i = Some w \<and> bid_Key dig (vt_BlockID w) = bid_Key dig b) \<and>
      (\<forall>later v'. run_vset dig (ops @ later) v0 = Some v' \<longrightarrow> vset_maj23 v' = Some b)"
  proof (intro allI impI conjI)
    fix b assume b: "vset_maj23 v = Some b"
    show "int64 (two_thirds vs + 1) \<le> int (card (voters_for v (bid_Key dig b)))" using majority_voters(1) [OF v(1) b] q by simp
    show "\<forall>i \<in> voters_for v (bid_Key dig b). \<exists>w. vset_votes v ! i = Some w \<and> bid_Key dig (vt_BlockID w) = bid_Key dig b"
      using majority_voters(2) [OF v(1) b] by blast
    fix later v' assume "run_vset dig (ops @ later) v0 = Some v'"
    then show "vset_maj23 v' = Some b" by (rule later [OF b])
  qed
  show "?books v" by (intro conjI sl recorded_added [OF assms run] block impI maj)
qed

definition sample_voters :: ValidatorSet where
  "sample_voters = sample_set\<lparr>vs_Validators := map (\<lambda>i. \<lparr>v_Address = [of_nat i + 1], v_PubKeyStr = ''k'', v_VotingPower = 1, v_Accum = 0\<rparr>) [0..<4]\<rparr>"

definition sample_vote :: "nat \<Rightarrow> byte \<Rightarrow> Vote" where
  "sample_vote i h = \<lparr> vt_ValidatorAddress = [of_nat i + 1], vt_ValidatorIndex = int i, vt_Height = 7, vt_Round = 0, vt_Timestamp = 0,
     vt_Type = VoteTypePrecommit, vt_BlockID = \<lparr> bid_Hash = [h], bid_PartsHeader = \<lparr> psh_Total = 1, psh_Hash = [h] \<rparr>, bid_PartsNil = False \<rparr>,
     vt_Signature = [] \<rparr>"

text \<open>A digest of a header, here its hash.\<close>

definition sample_dig :: header_digest where
  "sample_dig p = psh_Hash (fst p)"

definition sample_start :: VoteSet where
  "sample_start = the (NewVoteSet 7 0 VoteTypePrecommit sample_voters)"

lemma sample_start: "NewVoteSet 7 0 VoteTypePrecommit sample_voters = Some sample_start"
  by (simp add: sample_start_def NewVoteSet_def)

lemma sample_two_thirds: "two_thirds sample_voters = 2" "unit_power sample_voters"
  by (simp_all add: two_thirds_def unit_power_def total_power_def TotalVotingPower_def sample_voters_def sample_set_def sample_vals_def
      safeAddClip_clip clip_def int64_consts int64_def go_quot_def upt_rec)

text \<open>A run that panics: the nil block, named once with a nil hash of the parts and once with an empty one.\<close>

definition nil_vote :: "bool \<Rightarrow> Vote" where
  "nil_vote null = (sample_vote 0 5)\<lparr>vt_BlockID := zero_blockID\<lparr>bid_PartsNil := null\<rparr>\<rparr>"

definition null_dig :: header_digest where
  "null_dig p = (if snd p then [0] else [1])"

theorem vote_set_books_witness:
  "(\<exists>v v'. run_vset sample_dig [Add (sample_vote 0 5)] sample_start = Some v \<and>
     run_vset sample_dig [Add (sample_vote 0 5), Add (sample_vote 1 5)] sample_start = Some v' \<and>
     vset_sum v = int (card (filled_slots (vset_votes v))) \<and> (\<forall>w \<in> recorded v. w = sample_vote 0 5)) \<and>
   run_vset null_dig [Add (nil_vote True), Add (nil_vote False)] sample_start = None"
proof -
  let ?ops = "[Add (sample_vote 0 5), Add (sample_vote 1 5)]"
  have "run_vset sample_dig ?ops sample_start \<noteq> None"
    using vote_set_books [of 7 0 VoteTypePrecommit sample_voters sample_start sample_dig ?ops] sample_start by (auto simp: sample_vote_def)
  moreover have "run_vset sample_dig [Add (sample_vote 0 5)] sample_start \<noteq> None"
    using vote_set_books [of 7 0 VoteTypePrecommit sample_voters sample_start sample_dig "[Add (sample_vote 0 5)]"] sample_start by auto
  moreover have "run_vset null_dig [Add (nil_vote True), Add (nil_vote False)] sample_start = None" by code_simp
  ultimately show ?thesis
    using vote_set_books [of 7 0 VoteTypePrecommit sample_voters sample_start sample_dig "[Add (sample_vote 0 5)]"] sample_start by auto
qed

text \<open>Claim C20.  Accountability, for a validator set of fewer than 2^62 validators whose total power is the number of its validators (every validator has power one): if two vote sets
  over it for the same height, round and type (on the same or on different nodes, whatever votes they were given) find
  majorities for different blocks, then more than a third of the validators each voted in both for different blocks, and their two votes are
  among the votes that were added: no majority block can change unless more than a third of the validators equivocate.\<close>

theorem conflicting_majorities_expose_equivocators:
  assumes "h \<noteq> 0" "NewVoteSet h r t vs = Some v0" "unit_power vs"
    "run_vset dig ops1 v0 = Some v1" "run_vset dig ops2 v0 = Some v2"
    "vset_maj23 v1 = Some b1" "vset_maj23 v2 = Some b2" "bid_Key dig b1 \<noteq> bid_Key dig b2"
  shows "\<exists>S. S \<subseteq> {..<length (vs_Validators vs)} \<and> length (vs_Validators vs) < 3 * card S \<and>
    (\<forall>i\<in>S. \<exists>w1 w2. Add w1 \<in> set ops1 \<and> Add w2 \<in> set ops2 \<and>
      (\<forall>w \<in> {w1, w2}. vt_ValidatorIndex w = int i \<and> vt_ValidatorAddress w = v_Address (vs_Validators vs ! i) \<and>
         vt_Height w = h \<and> vt_Round w = r \<and> vt_Type w = t) \<and> vt_BlockID w1 \<noteq> vt_BlockID w2)"
proof -
  note v1 = run_new_ok [OF assms(1,2,4)] and v2 = run_new_ok [OF assms(1,2,5)]
  let ?A = "voters_for v1 (bid_Key dig b1)" and ?B = "voters_for v2 (bid_Key dig b2)"
  have AB: "majority_of dig vs ?A" "majority_of dig vs ?B"
    using v1(1,5) v2(1,5) assms(3,6,7) unfolding majority_of_def by blast+
  have "\<exists>w1 w2. Add w1 \<in> set ops1 \<and> Add w2 \<in> set ops2 \<and>
      (\<forall>w \<in> {w1, w2}. vt_ValidatorIndex w = int i \<and> vt_ValidatorAddress w = v_Address (vs_Validators vs ! i) \<and>
         vt_Height w = h \<and> vt_Round w = r \<and> vt_Type w = t) \<and> vt_BlockID w1 \<noteq> vt_BlockID w2" if i: "i \<in> ?A \<inter> ?B" for i
  proof -
    obtain w1 where w1: "w1 \<in> recorded v1" "vote_fits v1 i w1" "bid_Key dig (vt_BlockID w1) = bid_Key dig b1"
      by (rule voters_for_vote [OF v1(1), of i "bid_Key dig b1"]) (use i in auto)
    obtain w2 where w2: "w2 \<in> recorded v2" "vote_fits v2 i w2" "bid_Key dig (vt_BlockID w2) = bid_Key dig b2"
      by (rule voters_for_vote [OF v2(1), of i "bid_Key dig b2"]) (use i in auto)
    show ?thesis using v1 v2 w1 w2 assms(8) by (intro exI [of _ w1] exI [of _ w2]) (auto simp: vote_fits_def)
  qed
  moreover have "?A \<inter> ?B \<subseteq> {..<length (vs_Validators vs)}" using maj.within [OF AB(1)] by blast
  ultimately show ?thesis using maj.overlap [OF AB] by (intro exI [of _ "?A \<inter> ?B"]) simp
qed

definition votes_by :: "nat list \<Rightarrow> byte \<Rightarrow> vset_op list" where
  "votes_by is h = map (\<lambda>i. Add (sample_vote i h)) is"

lemma sample_majorities:
  "map_option vset_maj23 (run_vset sample_dig (votes_by [0, 1, 2] 5) sample_start) = Some (Some (vt_BlockID (sample_vote 0 5)))"
  "map_option vset_maj23 (run_vset sample_dig (votes_by [1, 2, 3] 6) sample_start) = Some (Some (vt_BlockID (sample_vote 0 6)))"
  by code_simp+

theorem conflicting_majorities_expose_equivocators_witness:
  "\<exists>S. S \<subseteq> {..<4} \<and> 4 < 3 * card S \<and> (\<forall>i\<in>S. \<exists>w1 w2. Add w1 \<in> set (votes_by [0, 1, 2] 5) \<and> Add w2 \<in> set (votes_by [1, 2, 3] 6) \<and>
     vt_ValidatorIndex w1 = int i \<and> vt_ValidatorIndex w2 = int i \<and> vt_BlockID w1 \<noteq> vt_BlockID w2)"
proof -
  let ?one = "votes_by [0, 1, 2] 5" and ?two = "votes_by [1, 2, 3] 6"
  obtain v1 v2 where v: "run_vset sample_dig ?one sample_start = Some v1" "run_vset sample_dig ?two sample_start = Some v2"
    "vset_maj23 v1 = Some (vt_BlockID (sample_vote 0 5))" "vset_maj23 v2 = Some (vt_BlockID (sample_vote 0 6))"
    using sample_majorities by auto
  have ne: "bid_Key sample_dig (vt_BlockID (sample_vote 0 5)) \<noteq> bid_Key sample_dig (vt_BlockID (sample_vote 0 6))" by code_simp
  have len: "length (vs_Validators sample_voters) = 4" by (simp add: sample_voters_def)
  show ?thesis
    using conflicting_majorities_expose_equivocators [OF _ sample_start sample_two_thirds(2) v ne] unfolding len by (simp del: One_nat_def) meson
qed

section \<open>Commits\<close>

definition signed_by :: "(Vote \<Rightarrow> bytes option) \<Rightarrow> verifier \<Rightarrow> ValidatorSet \<Rightarrow> Vote \<Rightarrow> bool" where
  "signed_by marshal mspVerify vs w \<longleftrightarrow> (\<exists>m addr val. marshal (w\<lparr>vt_Signature := []\<rparr>) = Some m \<and> GetByIndex vs (vt_ValidatorIndex w) = Some (addr, val) \<and>
     mspVerify (v_PubKeyStr val) (vt_Signature w) m = Some True)"

lemma VerifyVoteSign_ok: "VerifyVoteSign marshal mspVerify vs (Some w) = Some None \<longleftrightarrow> signed_by marshal mspVerify vs w"
  by (auto simp: VerifyVoteSign_def signed_by_def split: option.splits if_splits Option.bind_splits)

text \<open>The power of the validator a vote names.\<close>

definition voter_power :: "ValidatorSet \<Rightarrow> Vote \<Rightarrow> int" where
  "voter_power vs w = (case GetByIndex vs (vt_ValidatorIndex w) of None \<Rightarrow> 0 | Some (addr, val) \<Rightarrow> v_VotingPower val)"

definition present :: "Vote option list \<Rightarrow> Vote list" where
  "present ps = List.map_filter (\<lambda>p. p) ps"

lemma present_simps [simp]: "present [] = []" "present (None # ps) = present ps" "present (Some w # ps) = w # present ps"
  by (simp_all add: present_def List.map_filter_simps)

lemma set_present [simp]: "set (present ps) = {w. Some w \<in> set ps}"
proof (induction ps)
  case (Cons p ps)
  then show ?case by (cases p) auto
qed simp

lemma length_present: "length (present ps) = card (filled_slots ps)"
proof (induction ps)
  case (Cons p ps)
  have "filled_slots (p # ps) = (if p \<noteq> None then {0} else {}) \<union> Suc ` filled_slots ps"
  proof (rule set_eqI)
    fix i show "i \<in> filled_slots (p # ps) \<longleftrightarrow> i \<in> (if p \<noteq> None then {0} else {}) \<union> Suc ` filled_slots ps"
      by (cases i) (auto simp: filled_slots_def)
  qed
  then show ?case using Cons by (cases p) (auto simp: card_image)
qed simp

lemma length_present_le: "length (present ps) \<le> length ps"
  by (simp add: present_def List.map_filter_def)

definition good_precommit :: "u64 \<Rightarrow> int \<Rightarrow> Vote \<Rightarrow> bool" where
  "good_precommit h r w \<longleftrightarrow> vt_Height w = h \<and> vt_Round w = r \<and> vt_Type w = VoteTypePrecommit"

lemma check_precommits_ok: "check_precommits h r ps = None \<longleftrightarrow> (\<forall>w \<in> set (present ps). good_precommit h r w)"
  by (induction h r ps rule: check_precommits.induct) (auto simp: good_precommit_def)

text \<open>The tally of an accepted list is the wrapped sum of the powers of the voters.\<close>

fun wrapped_sum :: "(Vote \<Rightarrow> int) \<Rightarrow> Vote list \<Rightarrow> int \<Rightarrow> int" where
  "wrapped_sum f [] acc = acc"
| "wrapped_sum f (w # ws) acc = wrapped_sum f ws (int64 (acc + f w))"

lemma tally_commit_ok:
  "tally_commit marshal mspVerify vs h r ps acc = Some (Inr s) \<longleftrightarrow>
     (\<forall>w \<in> set (present ps). good_precommit h r w \<and> signed_by marshal mspVerify vs w) \<and> s = wrapped_sum (voter_power vs) (present ps) acc"
proof (induction marshal mspVerify vs h r ps acc rule: tally_commit.induct)
  case (3 marshal mspVerify vs h r w ps acc)
  show ?case
  proof (cases "good_precommit h r w \<and> signed_by marshal mspVerify vs w")
    case True
    then obtain addr val where g: "GetByIndex vs (vt_ValidatorIndex w) = Some (addr, val)" by (auto simp: signed_by_def)
    have "VerifyVoteSign marshal mspVerify vs (Some w) = Some None" using True VerifyVoteSign_ok by blast
    then show ?thesis using 3 True g by (auto simp: good_precommit_def voter_power_def)
  next
    case False
    then have "tally_commit marshal mspVerify vs h r (Some w # ps) acc \<noteq> Some (Inr s)"
      using VerifyVoteSign_ok [of marshal mspVerify vs w] by (auto simp: good_precommit_def split: Option.bind_splits option.splits)
    then show ?thesis using False by auto
  qed
qed auto

lemma wrapped_sum_id:
  assumes "\<forall>w \<in> set ws. f w = 1" "0 \<le> acc" "acc + int (length ws) < 2 ^ 63"
  shows "wrapped_sum f ws acc = acc + int (length ws)"
  using assms
proof (induction ws arbitrary: acc)
  case (Cons w ws)
  have "int64 (acc + f w) = acc + 1" using Cons.prems by (simp add: int64_id int64_consts)
  then show ?case using Cons.IH [of "acc + 1"] Cons.prems by simp
qed simp

lemma verify_commit_iff:
  "VerifyCommitVoteSign marshal mspVerify vs h c = Some None \<longleftrightarrow>
     h = cm_Height c \<and> (\<forall>w \<in> set (present (cm_Precommits c)). good_precommit h (cm_Round c) w \<and> signed_by marshal mspVerify vs w) \<and>
     two_thirds vs < wrapped_sum (voter_power vs) (present (cm_Precommits c)) 0"
proof -
  have "VerifyCommitVoteSign marshal mspVerify vs h c = Some None \<longleftrightarrow>
      h = cm_Height c \<and> (\<exists>s. tally_commit marshal mspVerify vs h (cm_Round c) (cm_Precommits c) 0 = Some (Inr s) \<and> two_thirds vs < s)"
  proof (cases "tally_commit marshal mspVerify vs h (cm_Round c) (cm_Precommits c) 0")
    case (Some a)
    then show ?thesis by (cases a) (auto simp: VerifyCommitVoteSign_def split: if_splits)
  qed (auto simp: VerifyCommitVoteSign_def)
  then show ?thesis unfolding tally_commit_ok by auto
qed

text \<open>Height and round of a commit are those of its first precommit.\<close>

lemma find_present: "List.find (\<lambda>p. p \<noteq> None) ps = (case present ps of [] \<Rightarrow> None | w # ws \<Rightarrow> Some (Some w))"
proof (induction ps)
  case (Cons p ps)
  then show ?case by (cases p) auto
qed simp

lemma cm_first:
  assumes "\<forall>w \<in> set (present (cm_Precommits c)). good_precommit h r w" "present (cm_Precommits c) \<noteq> []"
  shows "cm_Height c = h" "cm_Round c = r" "cm_Precommits c \<noteq> []"
proof -
  obtain w ws where p: "present (cm_Precommits c) = w # ws" using assms(2) by (cases "present (cm_Precommits c)") auto
  then have "good_precommit h r w" using assms(1) by (metis list.set_intros(1))
  moreover show "cm_Precommits c \<noteq> []" using p by auto
  moreover have "FirstPrecommit c = Some w" using p find_present [of "cm_Precommits c"] by (auto simp: FirstPrecommit_def)
  ultimately show "cm_Height c = h" "cm_Round c = r" by (simp_all add: cm_Height_def cm_Round_def good_precommit_def)
qed

text \<open>Claim C21.  A commit that \<open>MakeCommit\<close> cuts from a precommit set with a majority for a real block passes both checks on the receiving side, the basic
  validation and the check of the signatures and of the two thirds, provided that every validator has power one (and there are fewer than 2^62) and that every vote added to the
  set under the index of a validator carries a signature this validator's key verifies: adding a vote does not check its signature, so that this is what the callers have to
  see to.\<close>

theorem commit_of_majority_accepted:
  assumes "h \<noteq> 0" "NewVoteSet h r VoteTypePrecommit vs = Some v0" "run_vset dig ops v0 = Some v"
    "vset_maj23 v = Some b" "\<not> bid_IsZero b" "unit_power vs" "\<forall>val \<in> set (vs_Validators vs). v_VotingPower val = 1"
    "\<forall>w. Add w \<in> set ops \<longrightarrow> vt_ValidatorIndex w < vs_Size vs \<longrightarrow> 0 \<le> vt_ValidatorIndex w \<longrightarrow> signed_by marshal mspVerify vs w"
  shows "\<exists>c. MakeCommit v = Some c \<and> cm_BlockID c = b \<and> cm_ValidateBasic c = None \<and> VerifyCommitVoteSign marshal mspVerify vs h c = Some None"
proof -
  note v = run_new_ok [OF assms(1-3)]
  let ?c = "\<lparr> cm_BlockID = b, cm_Precommits = vset_votes v \<rparr>" and ?ws = "present (vset_votes v)"
  have rec: "good_precommit h r w \<and> signed_by marshal mspVerify vs w \<and> voter_power vs w = 1" if w: "w \<in> set ?ws" for w
  proof -
    have "w \<in> recorded v" using w by (simp add: recorded_def)
    moreover from this obtain i where "i < vset_n v" "vote_fits v i w" using recorded_fits [OF v(1)] by blast
    ultimately show ?thesis using v assms(7,8)
      by (auto simp: vote_fits_def good_precommit_def vset_n_def vs_Size_def voter_power_def GetByIndex_def Let_def)
  qed
  have len: "length (vset_votes v) = length (vs_Validators vs)" using v(1,5) by (simp add: vset_ok_def slots_ok_def vset_n_def)
  have "voters_for v (bid_Key dig b) \<subseteq> filled_slots (vset_votes v)"
    using majority_voters(2) [OF v(1) assms(4)] voters_for_subset [OF v(1)] len v(5) by (fastforce simp: filled_slots_def vset_n_def)
  then have "card (voters_for v (bid_Key dig b)) \<le> length ?ws" unfolding length_present by (intro card_mono) auto
  then have "two_thirds vs < int (length ?ws)"
    using majority_voters(1) [OF v(1) assms(4)] unit_quorum(2) [OF assms(6)] v(5) by (simp add: vset_quorum_def)
  moreover have "length ?ws < 2 ^ 62"
    using assms(6) len le_less_trans [OF length_present_le [of "vset_votes v"]] by (simp add: unit_power_def)
  ultimately have big: "two_thirds vs < wrapped_sum (voter_power vs) ?ws 0" "?ws \<noteq> []"
    using wrapped_sum_id [of ?ws "voter_power vs" 0] rec unit_quorum(1) [OF assms(6)] by auto
  have first: "cm_Height ?c = h" "cm_Round ?c = r" "cm_Precommits ?c \<noteq> []"
    using cm_first [of ?c h r] rec big(2) by auto
  have "cm_ValidateBasic ?c = None" unfolding cm_ValidateBasic_def first using first(3) assms(5) rec by (simp add: check_precommits_ok)
  moreover have "VerifyCommitVoteSign marshal mspVerify vs h ?c = Some None" unfolding verify_commit_iff first using rec big by simp
  moreover have "MakeCommit v = Some ?c" using v(4) assms(4) by (simp add: MakeCommit_def)
  ultimately show ?thesis by (intro exI [of _ ?c]) simp
qed

text \<open>A message format and a key check for examples: the bytes of the block hash, signed by the address.\<close>

definition sample_marshal :: "Vote \<Rightarrow> bytes option" where
  "sample_marshal w = Some (bid_Hash (vt_BlockID w))"

definition sample_verify :: verifier where
  "sample_verify pub sig m = Some (pub = ''k'' \<and> sig = [])"

lemma sample_signed: "0 \<le> vt_ValidatorIndex w \<Longrightarrow> vt_ValidatorIndex w < vs_Size sample_voters \<Longrightarrow> vt_Signature w = [] \<Longrightarrow> signed_by sample_marshal sample_verify sample_voters w"
  by (auto simp: signed_by_def sample_marshal_def sample_verify_def sample_voters_def GetByIndex_def vs_Size_def Let_def)

theorem commit_of_majority_accepted_witness:
  "\<exists>v c. run_vset sample_dig (votes_by [0, 1, 2] 5) sample_start = Some v \<and> MakeCommit v = Some c \<and> cm_ValidateBasic c = None \<and>
     VerifyCommitVoteSign sample_marshal sample_verify sample_voters 7 c = Some None"
proof -
  obtain v where v: "run_vset sample_dig (votes_by [0, 1, 2] 5) sample_start = Some v" "vset_maj23 v = Some (vt_BlockID (sample_vote 0 5))"
    using sample_majorities(1) by auto
  have "\<not> bid_IsZero (vt_BlockID (sample_vote 0 5))" by code_simp
  moreover have "\<forall>val \<in> set (vs_Validators sample_voters). v_VotingPower val = 1" by (simp add: sample_voters_def)
  moreover have "\<forall>w. Add w \<in> set (votes_by [0, 1, 2] 5) \<longrightarrow> vt_ValidatorIndex w < vs_Size sample_voters \<longrightarrow> 0 \<le> vt_ValidatorIndex w \<longrightarrow>
      signed_by sample_marshal sample_verify sample_voters w"
    using sample_signed by (auto simp: votes_by_def sample_vote_def)
  ultimately show ?thesis
    using commit_of_majority_accepted [OF _ sample_start v _ sample_two_thirds(2)] v(1) by fastforce
qed

text \<open>Claim C22.  What an accepted commit proves: \<open>VerifyCommitVoteSign\<close> answers without error exactly when the first precommit is of the expected height,
  every precommit is a precommit of that height and of one round whose signature is verified by the key of the validator it names, and the powers of the
  validators the precommits name (in 64-bit arithmetic, a validator named twice counted twice) sum up to more than two thirds of the total.\<close>

theorem verify_commit_exact:
  "VerifyCommitVoteSign marshal mspVerify vs h c = Some None \<longleftrightarrow>
     h = cm_Height c \<and>
     (\<forall>w. Some w \<in> set (cm_Precommits c) \<longrightarrow> vt_Height w = h \<and> vt_Round w = cm_Round c \<and> vt_Type w = VoteTypePrecommit \<and> signed_by marshal mspVerify vs w) \<and>
     two_thirds vs < wrapped_sum (voter_power vs) (present (cm_Precommits c)) 0"
  using verify_commit_iff [of marshal mspVerify vs h c] by (auto simp: good_precommit_def)

theorem verify_commit_exact_witness:
  "VerifyCommitVoteSign sample_marshal sample_verify sample_voters 7
     \<lparr> cm_BlockID = vt_BlockID (sample_vote 0 5), cm_Precommits = [Some (sample_vote 0 5), Some (sample_vote 0 5), Some (sample_vote 0 6)] \<rparr> = Some None"
proof -
  let ?c = "\<lparr> cm_BlockID = vt_BlockID (sample_vote 0 5), cm_Precommits = [Some (sample_vote 0 5), Some (sample_vote 0 5), Some (sample_vote 0 6)] \<rparr>"
  have "wrapped_sum (voter_power sample_voters) (present (cm_Precommits ?c)) 0 = 3" by code_simp
  moreover have "cm_Height ?c = 7" "cm_Round ?c = 0" by code_simp+
  ultimately show ?thesis
    using verify_commit_exact [of sample_marshal sample_verify sample_voters 7 ?c] sample_two_thirds(1) sample_signed
    by (auto simp: sample_vote_def vs_Size_def sample_voters_def)
qed

section \<open>Vote sets of a height\<close>

definition rvs_ok :: "header_digest \<Rightarrow> u64 \<Rightarrow> ValidatorSet \<Rightarrow> int \<Rightarrow> byte \<Rightarrow> VoteSet \<Rightarrow> bool" where
  "rvs_ok dig h vs r t v \<longleftrightarrow> vset_ok dig v \<and> vset_height v = h \<and> vset_valSet v = vs \<and> vset_round v = r \<and> vset_type v = t"

definition hvs_ok :: "header_digest \<Rightarrow> HeightVoteSet \<Rightarrow> bool" where
  "hvs_ok dig hvs \<longleftrightarrow> hvs_height hvs \<noteq> 0 \<and> gomap_ok (hvs_roundVoteSets hvs) \<and>
     (\<forall>r rvs. gget (hvs_roundVoteSets hvs) r = Some rvs \<longrightarrow>
        rvs_ok dig (hvs_height hvs) (hvs_valSet hvs) r VoteTypePrevote (rvs_Prevotes rvs) \<and>
        rvs_ok dig (hvs_height hvs) (hvs_valSet hvs) r VoteTypePrecommit (rvs_Precommits rvs)) \<and>
     (\<forall>r. 0 \<le> r \<longrightarrow> r \<le> hvs_round hvs \<longrightarrow> gget (hvs_roundVoteSets hvs) r \<noteq> None)"

lemma rvs_ok_new: "h \<noteq> 0 \<Longrightarrow> \<exists>v. NewVoteSet h r t vs = Some v \<and> rvs_ok dig h vs r t v"
  using NewVoteSet_ok [of h r t vs dig] by (auto simp: rvs_ok_def)

lemma addRound_ok:
  assumes "hvs_ok dig hvs"
  obtains h where "hvs_addRound hvs r = Some h" "hvs_ok dig h" "hvs_height h = hvs_height hvs" "hvs_valSet h = hvs_valSet hvs" "hvs_round h = hvs_round hvs"
    "hvs_peerCatchupRounds h = hvs_peerCatchupRounds hvs"
    "\<And>r'. gget (hvs_roundVoteSets h) r' \<noteq> None \<longleftrightarrow> r' = r \<or> gget (hvs_roundVoteSets hvs) r' \<noteq> None"
proof -
  have nz: "hvs_height hvs \<noteq> 0" using assms by (simp add: hvs_ok_def)
  obtain v1 v2 where v: "NewVoteSet (hvs_height hvs) r VoteTypePrevote (hvs_valSet hvs) = Some v1"
      "rvs_ok dig (hvs_height hvs) (hvs_valSet hvs) r VoteTypePrevote v1"
      "NewVoteSet (hvs_height hvs) r VoteTypePrecommit (hvs_valSet hvs) = Some v2"
      "rvs_ok dig (hvs_height hvs) (hvs_valSet hvs) r VoteTypePrecommit v2"
    using rvs_ok_new [OF nz] by meson
  let ?h = "hvs\<lparr>hvs_roundVoteSets := gput (hvs_roundVoteSets hvs) r \<lparr> rvs_Prevotes = v1, rvs_Precommits = v2 \<rparr>\<rparr>"
  have "hvs_addRound hvs r = Some ?h" using v by (simp add: hvs_addRound_def)
  moreover have "hvs_ok dig ?h" using assms v by (auto simp: hvs_ok_def)
  ultimately show ?thesis using that [of ?h] by auto
qed

definition adds_rounds :: "HeightVoteSet \<Rightarrow> HeightVoteSet \<Rightarrow> bool" where
  "adds_rounds hvs h \<longleftrightarrow> hvs_height h = hvs_height hvs \<and> hvs_valSet h = hvs_valSet hvs \<and> hvs_round h = hvs_round hvs \<and>
     (\<forall>r. gget (hvs_roundVoteSets hvs) r \<noteq> None \<longrightarrow> gget (hvs_roundVoteSets h) r \<noteq> None)"

lemma set_round_loop:
  assumes "hvs_ok dig hvs"
  shows "\<exists>h. for_each (\<lambda>r h. if gget (hvs_roundVoteSets h) r \<noteq> None then Some h else hvs_addRound h r) rs hvs = Some h \<and>
    hvs_ok dig h \<and> adds_rounds hvs h \<and> (\<forall>r \<in> set rs. gget (hvs_roundVoteSets h) r \<noteq> None)"
  using assms
proof (induction rs arbitrary: hvs)
  case (Cons r rs)
  let ?f = "\<lambda>r h. if gget (hvs_roundVoteSets h) r \<noteq> None then Some h else hvs_addRound h r"
  obtain h1 where h1: "?f r hvs = Some h1" "hvs_ok dig h1" "adds_rounds hvs h1" "gget (hvs_roundVoteSets h1) r \<noteq> None"
  proof (cases "gget (hvs_roundVoteSets hvs) r = None")
    case True
    show ?thesis by (rule addRound_ok [OF Cons.prems, of r]) (rule that, use True in \<open>auto simp: adds_rounds_def\<close>)
  next
    case False
    then show ?thesis using that [of hvs] Cons.prems by (auto simp: adds_rounds_def)
  qed
  show ?case using Cons.IH [OF h1(2)] h1 by (auto simp: adds_rounds_def)
qed (simp add: adds_rounds_def)

lemma SetRound_ok:
  assumes "hvs_ok dig hvs" "r \<noteq> 2 ^ 31 - 1"
  shows "\<exists>h. hvs_SetRound hvs r = Some h \<and> hvs_ok dig h \<and> hvs_height h = hvs_height hvs \<and> hvs_valSet h = hvs_valSet hvs \<and> hvs_round h = r"
proof -
  obtain h where h: "for_each (\<lambda>r h. if gget (hvs_roundVoteSets h) r \<noteq> None then Some h else hvs_addRound h r) [hvs_round hvs + 1..r] hvs = Some h"
    "hvs_ok dig h" "adds_rounds hvs h" "\<forall>x \<in> {hvs_round hvs + 1..r}. gget (hvs_roundVoteSets h) x \<noteq> None"
    using set_round_loop [OF assms(1), of "[hvs_round hvs + 1..r]"] by auto
  have "gget (hvs_roundVoteSets h) x \<noteq> None" if "0 \<le> x" "x \<le> r" for x
    using that h(3,4) assms(1) by (cases "x \<le> hvs_round hvs") (auto simp: adds_rounds_def hvs_ok_def)
  then have "hvs_ok dig (h\<lparr>hvs_round := r\<rparr>)" using h(2) by (simp add: hvs_ok_def)
  then show ?thesis using h(1,3) assms(2) by (simp add: hvs_SetRound_def adds_rounds_def)
qed

lemma SetRound_stops: "hvs_ok dig hvs \<Longrightarrow> hvs_SetRound hvs r = None \<longleftrightarrow> r = 2 ^ 31 - 1"
  using SetRound_ok [of dig hvs r] by (auto simp: hvs_SetRound_def)

text \<open>The votes recorded in any of the sets.\<close>

definition hvs_recorded :: "HeightVoteSet \<Rightarrow> Vote set" where
  "hvs_recorded hvs = {w. \<exists>r t v. hvs_getVoteSet hvs r t = Some v \<and> w \<in> recorded v}"

lemma NewVoteSet_recorded: "NewVoteSet h r t vs = Some v \<Longrightarrow> recorded v = {}"
  by (auto simp: NewVoteSet_def recorded_def split: if_splits)

lemma addRound_recorded: "hvs_addRound hvs r = Some h \<Longrightarrow> hvs_recorded h \<subseteq> hvs_recorded hvs"
  by (fastforce simp: hvs_addRound_def hvs_recorded_def hvs_getVoteSet_def bind_eq_Some_conv dest: NewVoteSet_recorded split: option.splits if_splits)

lemma set_round_loop_recorded:
  "for_each (\<lambda>r h. if gget (hvs_roundVoteSets h) r \<noteq> None then Some h else hvs_addRound h r) rs hvs = Some h \<Longrightarrow> hvs_recorded h \<subseteq> hvs_recorded hvs"
  by (induction rs arbitrary: hvs) (auto split: option.splits if_splits dest!: addRound_recorded)

lemma SetRound_recorded: "hvs_SetRound hvs r = Some h \<Longrightarrow> hvs_recorded h \<subseteq> hvs_recorded hvs"
proof -
  assume "hvs_SetRound hvs r = Some h"
  then obtain h1 where h1: "for_each (\<lambda>r h. if gget (hvs_roundVoteSets h) r \<noteq> None then Some h else hvs_addRound h r) [hvs_round hvs + 1..r] hvs = Some h1"
      "h = h1\<lparr>hvs_round := r\<rparr>" unfolding hvs_SetRound_def by (auto simp del: not_None_eq split: if_splits)
  have "hvs_recorded h = hvs_recorded h1" using h1(2) by (simp add: hvs_recorded_def hvs_getVoteSet_def)
  then show ?thesis using set_round_loop_recorded [OF h1(1)] by simp
qed

lemma NewBlkNumVoteSet_ok:
  assumes "height \<noteq> 0"
  shows "\<exists>h. NewBlkNumVoteSet height vs = Some h \<and> hvs_ok dig h \<and> hvs_height h = height \<and> hvs_valSet h = vs \<and> hvs_round h = 0"
proof -
  let ?e = "\<lparr> hvs_height = height, hvs_valSet = vs, hvs_round = -1, hvs_roundVoteSets = [], hvs_peerCatchupRounds = [] \<rparr>"
  have "hvs_ok dig ?e" using assms by (simp add: hvs_ok_def)
  then obtain h where h: "hvs_SetRound ?e 0 = Some h" "hvs_ok dig h" "hvs_height h = height" "hvs_valSet h = vs" "hvs_round h = 0"
    using SetRound_ok [of dig ?e 0] by auto
  then have "NewBlkNumVoteSet height vs = Some h"
    by (auto simp: NewBlkNumVoteSet_def hvs_Reset_def hvs_SetRound_def hvs_addRound_def split: Option.bind_splits option.splits)
  then show ?thesis using h by blast
qed

lemma NewBlkNumVoteSet_recorded: "NewBlkNumVoteSet height vs = Some h \<Longrightarrow> hvs_recorded h = {}"
proof -
  assume "NewBlkNumVoteSet height vs = Some h"
  then obtain h1 where h1: "hvs_addRound \<lparr> hvs_height = height, hvs_valSet = vs, hvs_round = 0, hvs_roundVoteSets = [], hvs_peerCatchupRounds = [] \<rparr> 0 = Some h1"
      "h = h1\<lparr>hvs_round := 0\<rparr>" by (auto simp: NewBlkNumVoteSet_def hvs_Reset_def)
  have "hvs_recorded h1 = {}" using addRound_recorded [OF h1(1)] by (auto simp: hvs_recorded_def hvs_getVoteSet_def gget_def)
  then show ?thesis using h1(2) by (simp add: hvs_recorded_def hvs_getVoteSet_def)
qed

lemma hvs_getVoteSet_ok:
  assumes "hvs_ok dig hvs" "hvs_getVoteSet hvs r t = Some v"
  shows "rvs_ok dig (hvs_height hvs) (hvs_valSet hvs) r t v" "t = VoteTypePrevote \<or> t = VoteTypePrecommit" "gget (hvs_roundVoteSets hvs) r \<noteq> None"
  using assms by (auto simp: hvs_getVoteSet_def hvs_ok_def split: option.splits if_splits)

lemma put_vset_ok:
  assumes "hvs_ok dig hvs" "hvs_getVoteSet hvs r t = Some v" "vset_ok dig v'" "same_frame v v'"
  shows "hvs_ok dig (put_vset hvs r t v')" "hvs_round (put_vset hvs r t v') = hvs_round hvs"
    "hvs_height (put_vset hvs r t v') = hvs_height hvs" "hvs_valSet (put_vset hvs r t v') = hvs_valSet hvs"
proof -
  have "rvs_ok dig (hvs_height hvs) (hvs_valSet hvs) r t v'"
    using hvs_getVoteSet_ok(1) [OF assms(1,2)] assms(3,4) by (simp add: rvs_ok_def same_frame_def)
  then show "hvs_ok dig (put_vset hvs r t v')" using assms(1) hvs_getVoteSet_ok(2) [OF assms(1,2)]
    by (auto simp: hvs_ok_def put_vset_def VoteTypePrevote_def VoteTypePrecommit_def split: option.splits)
qed (simp_all add: put_vset_def split: option.splits)

lemma put_vset_recorded:
  assumes "recorded v' \<subseteq> S" "t = VoteTypePrevote \<or> t = VoteTypePrecommit"
  shows "hvs_recorded (put_vset hvs r t v') \<subseteq> hvs_recorded hvs \<union> S"
proof
  fix w assume "w \<in> hvs_recorded (put_vset hvs r t v')"
  then obtain r' t' v where v: "hvs_getVoteSet (put_vset hvs r t v') r' t' = Some v" "w \<in> recorded v" by (auto simp: hvs_recorded_def)
  then have "v = v' \<or> hvs_getVoteSet hvs r' t' = Some v" using assms(2)
    by (auto simp: put_vset_def hvs_getVoteSet_def VoteTypePrevote_def VoteTypePrecommit_def split: option.splits if_splits)
  then show "w \<in> hvs_recorded hvs \<union> S" using v(2) assms(1) by (auto simp: hvs_recorded_def)
qed

text \<open>The vote set that \<open>AddVote\<close> reaches, opened if the round has none.\<close>

definition open_round :: "HeightVoteSet \<Rightarrow> Vote \<Rightarrow> bytes \<Rightarrow> HeightVoteSet option" where
  "open_round hvs w peer = (case hvs_getVoteSet hvs (vt_Round w) (vt_Type w) of Some _ \<Rightarrow> Some hvs
    | None \<Rightarrow> do { h \<leftarrow> hvs_addRound hvs (vt_Round w);
        Some (h\<lparr>hvs_peerCatchupRounds := gput (hvs_peerCatchupRounds h) peer
          (case gget (hvs_peerCatchupRounds hvs) peer of None \<Rightarrow> [vt_Round w] | Some rndz \<Rightarrow> rndz @ [vt_Round w])\<rparr>) })"

lemma open_round_ok:
  assumes ok: "hvs_ok dig hvs" and t: "IsVoteTypeValid (vt_Type w)"
  obtains h v where "open_round hvs w peer = Some h" "hvs_ok dig h" "hvs_height h = hvs_height hvs" "hvs_valSet h = hvs_valSet hvs" "hvs_round h = hvs_round hvs"
    "hvs_recorded h \<subseteq> hvs_recorded hvs" "hvs_getVoteSet h (vt_Round w) (vt_Type w) = Some v" "recorded v \<subseteq> hvs_recorded hvs"
proof -
  obtain h where h: "open_round hvs w peer = Some h" "hvs_ok dig h" "hvs_height h = hvs_height hvs" "hvs_valSet h = hvs_valSet hvs" "hvs_round h = hvs_round hvs"
      "hvs_recorded h \<subseteq> hvs_recorded hvs" "gget (hvs_roundVoteSets h) (vt_Round w) \<noteq> None"
  proof (cases "hvs_getVoteSet hvs (vt_Round w) (vt_Type w)")
    case None
    obtain h where h: "hvs_addRound hvs (vt_Round w) = Some h" "hvs_ok dig h" "hvs_height h = hvs_height hvs" "hvs_valSet h = hvs_valSet hvs"
        "hvs_round h = hvs_round hvs" "gget (hvs_roundVoteSets h) (vt_Round w) \<noteq> None"
      by (rule addRound_ok [OF ok, of "vt_Round w"]) blast
    let ?h = "h\<lparr>hvs_peerCatchupRounds := gput (hvs_peerCatchupRounds h) peer
      (case gget (hvs_peerCatchupRounds hvs) peer of None \<Rightarrow> [vt_Round w] | Some rndz \<Rightarrow> rndz @ [vt_Round w])\<rparr>"
    have "hvs_recorded ?h = hvs_recorded h" by (simp add: hvs_recorded_def hvs_getVoteSet_def)
    then show ?thesis using that [of ?h] None h addRound_recorded [OF h(1)] by (auto simp: hvs_ok_def open_round_def)
  next
    case (Some v)
    then show ?thesis using that [of hvs] ok hvs_getVoteSet_ok(3) [OF ok Some] by (auto simp: open_round_def)
  qed
  obtain v where v: "hvs_getVoteSet h (vt_Round w) (vt_Type w) = Some v"
    using h(7) t by (auto simp: hvs_getVoteSet_def IsVoteTypeValid_def split: option.splits if_splits)
  have "recorded v \<subseteq> hvs_recorded h" using v by (auto simp: hvs_recorded_def)
  then show ?thesis using that [OF h(1-6) v] h(6) by blast
qed

lemma hvs_AddVote_total:
  assumes ok: "hvs_ok dig hvs"
  shows "(\<exists>res h. hvs_AddVote dig hvs w peer = Some (res, h) \<and> hvs_ok dig h \<and> hvs_height h = hvs_height hvs \<and> hvs_valSet h = hvs_valSet hvs \<and>
      hvs_round h = hvs_round hvs \<and> hvs_recorded h \<subseteq> insert w (hvs_recorded hvs)) \<or>
    (hvs_AddVote dig hvs w peer = None \<and>
      (\<exists>e \<in> hvs_recorded hvs. vt_ValidatorIndex e = vt_ValidatorIndex w \<and> vt_Round e = vt_Round w \<and> vt_Type e = vt_Type w \<and> clash dig (vt_BlockID e) (vt_BlockID w)))"
proof (cases "IsVoteTypeValid (vt_Type w)")
  case True
  obtain h1 v where h1: "open_round hvs w peer = Some h1" "hvs_ok dig h1" "hvs_height h1 = hvs_height hvs" "hvs_valSet h1 = hvs_valSet hvs" "hvs_round h1 = hvs_round hvs"
      "hvs_recorded h1 \<subseteq> hvs_recorded hvs" and v: "hvs_getVoteSet h1 (vt_Round w) (vt_Type w) = Some v" "recorded v \<subseteq> hvs_recorded hvs"
    by (rule open_round_ok [OF ok True])
  have vok: "vset_ok dig v" "vset_round v = vt_Round w" "vset_type v = vt_Type w" using hvs_getVoteSet_ok(1) [OF h1(2) v(1)] by (auto simp: rvs_ok_def)
  have eq: "hvs_AddVote dig hvs w peer = map_option (\<lambda>(r, v'). (r, put_vset h1 (vt_Round w) (vt_Type w) v')) (vset_addVote dig v (Some w))"
    using True h1(1) v(1) unfolding hvs_AddVote_def open_round_def by (cases "vset_addVote dig v (Some w)") (auto simp: vset_AddVote_def)
  show ?thesis
  proof (cases "vset_addVote dig v (Some w)")
    case None
    then obtain e where "e \<in> recorded v" "vt_ValidatorIndex e = vt_ValidatorIndex w" "clash dig (vt_BlockID e) (vt_BlockID w)"
      using vset_step_panics [OF vok(1), of "Add w"] by auto
    moreover from this(1) have "vt_Round e = vt_Round w" "vt_Type e = vt_Type w" using recorded_fits [OF vok(1)] vok by (auto simp: vote_fits_def)
    ultimately show ?thesis using None eq v(2) by auto
  next
    case (Some p)
    then obtain r v' where p: "vset_addVote dig v (Some w) = Some (r, v')" by (cases p) auto
    have "hvs_recorded (put_vset h1 (vt_Round w) (vt_Type w) v') \<subseteq> hvs_recorded h1 \<union> insert w (hvs_recorded hvs)"
      using put_vset_recorded [of v' "insert w (hvs_recorded hvs)" "vt_Type w"] addVote_recorded [OF p] v hvs_getVoteSet_ok(2) [OF h1(2) v(1)] by blast
    then show ?thesis using put_vset_ok [OF h1(2) v(1) addVote_ok(1,2) [OF vok(1) p]] h1 eq p by auto
  qed
qed (use ok in \<open>auto simp: hvs_AddVote_def\<close>)

lemma hvs_AddVote_ok:
  assumes "hvs_ok dig hvs" "hvs_AddVote dig hvs w peer = Some (res, h)"
  shows "hvs_ok dig h" "hvs_height h = hvs_height hvs" "hvs_valSet h = hvs_valSet hvs" "hvs_round h = hvs_round hvs" "hvs_recorded h \<subseteq> insert w (hvs_recorded hvs)"
  using hvs_AddVote_total [OF assms(1), of w peer] assms(2) by auto

lemma hvs_SetPeerMaj23_ok:
  assumes "hvs_ok dig hvs"
  shows "\<exists>err h. hvs_SetPeerMaj23 dig hvs r t peer b = (err, h) \<and> hvs_ok dig h \<and> hvs_height h = hvs_height hvs \<and> hvs_valSet h = hvs_valSet hvs \<and> hvs_round h = hvs_round hvs \<and>
    hvs_recorded h \<subseteq> hvs_recorded hvs"
proof (cases "IsVoteTypeValid t \<and> hvs_getVoteSet hvs r t \<noteq> None")
  case True
  then obtain v where v: "hvs_getVoteSet hvs r t = Some v" by blast
  then have "vset_ok dig v" using hvs_getVoteSet_ok(1) [OF assms] by (simp add: rvs_ok_def)
  moreover have "recorded v \<subseteq> hvs_recorded hvs" using v by (auto simp: hvs_recorded_def)
  then have "hvs_recorded (put_vset hvs r t (snd (vset_SetPeerMaj23 dig v peer b))) \<subseteq> hvs_recorded hvs"
    using put_vset_recorded [of "snd (vset_SetPeerMaj23 dig v peer b)" "hvs_recorded hvs" t hvs r] SetPeerMaj23_recorded [of dig v peer b] hvs_getVoteSet_ok(2) [OF assms v] by blast
  ultimately show ?thesis using put_vset_ok [OF assms v, of "snd (vset_SetPeerMaj23 dig v peer b)"] SetPeerMaj23_ok True v
    by (auto simp: hvs_SetPeerMaj23_def split: prod.splits)
qed (use assms in \<open>auto simp: hvs_SetPeerMaj23_def\<close>)

datatype hvs_op = HAdd Vote bytes | HRound int | HPeerMaj int byte bytes BlockID

fun hvs_step :: "header_digest \<Rightarrow> hvs_op \<Rightarrow> HeightVoteSet \<Rightarrow> HeightVoteSet option" where
  "hvs_step dig (HAdd w peer) hvs = map_option snd (hvs_AddVote dig hvs w peer)"
| "hvs_step dig (HRound r) hvs = hvs_SetRound hvs r"
| "hvs_step dig (HPeerMaj r t peer b) hvs = Some (snd (hvs_SetPeerMaj23 dig hvs r t peer b))"

lemma hvs_step_ok:
  assumes "hvs_ok dig hvs" "hvs_step dig opn hvs = Some h"
  shows "hvs_ok dig h \<and> hvs_height h = hvs_height hvs \<and> hvs_valSet h = hvs_valSet hvs \<and> hvs_recorded h \<subseteq> hvs_recorded hvs \<union> {w. \<exists>peer. opn = HAdd w peer}"
proof (cases opn)
  case (HAdd w peer)
  then obtain res where "hvs_AddVote dig hvs w peer = Some (res, h)" using assms(2) by auto
  then show ?thesis
    using hvs_AddVote_ok [OF assms(1), of w peer res h] HAdd by auto
next
  case (HRound r)
  then show ?thesis
    using SetRound_ok [OF assms(1), of r] SetRound_stops [OF assms(1), of r] SetRound_recorded [of hvs r h] assms(2) by auto
next
  case (HPeerMaj r t peer b)
  then show ?thesis
    using hvs_SetPeerMaj23_ok [OF assms(1), of r t peer b] assms(2) by auto
qed

lemma hvs_step_stops:
  assumes "hvs_ok dig hvs" "hvs_step dig opn hvs = None"
  shows "opn = HRound (2 ^ 31 - 1) \<or> (\<exists>w peer. opn = HAdd w peer \<and>
    (\<exists>e \<in> hvs_recorded hvs. vt_ValidatorIndex e = vt_ValidatorIndex w \<and> vt_Round e = vt_Round w \<and> vt_Type e = vt_Type w \<and> clash dig (vt_BlockID e) (vt_BlockID w)))"
proof (cases opn)
  case (HAdd w peer)
  then show ?thesis using hvs_AddVote_total [OF assms(1), of w peer] assms(2) by auto
qed (use assms SetRound_stops [OF assms(1)] in auto)

lemma hvs_run_ok:
  assumes "hvs_ok dig hvs" "for_each (hvs_step dig) ops hvs = Some h"
  shows "hvs_ok dig h \<and> hvs_height h = hvs_height hvs \<and> hvs_valSet h = hvs_valSet hvs \<and> hvs_recorded h \<subseteq> hvs_recorded hvs \<union> {w. \<exists>peer. HAdd w peer \<in> set ops}"
  using assms
proof (induction ops arbitrary: hvs)
  case (Cons opn ops)
  obtain h1 where h1: "hvs_step dig opn hvs = Some h1" "for_each (hvs_step dig) ops h1 = Some h" using Cons.prems(2) by (auto split: option.splits)
  note st = hvs_step_ok [OF Cons.prems(1) h1(1)]
  show ?case using Cons.IH [OF _ h1(2)] st by auto
qed simp

lemma hvs_run_stops:
  assumes "hvs_ok dig hvs" "for_each (hvs_step dig) ops hvs = None"
  shows "HRound (2 ^ 31 - 1) \<in> set ops \<or> (\<exists>w peer e. HAdd w peer \<in> set ops \<and> (e \<in> hvs_recorded hvs \<or> (\<exists>peer'. HAdd e peer' \<in> set ops)) \<and>
    vt_ValidatorIndex e = vt_ValidatorIndex w \<and> vt_Round e = vt_Round w \<and> vt_Type e = vt_Type w \<and> clash dig (vt_BlockID e) (vt_BlockID w))"
  using assms
proof (induction ops arbitrary: hvs)
  case (Cons opn ops)
  show ?case
  proof (cases "hvs_step dig opn hvs")
    case None
    then show ?thesis using hvs_step_stops [OF Cons.prems(1) None] by auto
  next
    case (Some h1)
    then have "for_each (hvs_step dig) ops h1 = None" using Cons.prems(2) by simp
    then have "HRound (2 ^ 31 - 1) \<in> set ops \<or> (\<exists>w peer e. HAdd w peer \<in> set ops \<and> (e \<in> hvs_recorded h1 \<or> (\<exists>peer'. HAdd e peer' \<in> set ops)) \<and>
        vt_ValidatorIndex e = vt_ValidatorIndex w \<and> vt_Round e = vt_Round w \<and> vt_Type e = vt_Type w \<and> clash dig (vt_BlockID e) (vt_BlockID w))"
      using hvs_step_ok [OF Cons.prems(1) Some] Cons.IH [of h1] by blast
    then show ?thesis using hvs_step_ok [OF Cons.prems(1) Some] by (simp only: list.set insert_iff) blast
  qed
qed simp

lemma find_append: "List.find P (xs @ ys) = (case List.find P xs of None \<Rightarrow> List.find P ys | Some x \<Rightarrow> Some x)"
  by (induction xs) auto

lemma find_rev_upto:
  fixes a b :: int
  shows "case List.find P (rev [a..b]) of
      Some m \<Rightarrow> a \<le> m \<and> m \<le> b \<and> P m \<and> (\<forall>r. m < r \<longrightarrow> r \<le> b \<longrightarrow> \<not> P r)
    | None \<Rightarrow> \<forall>r. a \<le> r \<longrightarrow> r \<le> b \<longrightarrow> \<not> P r"
proof (induction "nat (b - a + 1)" arbitrary: b)
  case 0
  then show ?case by simp
next
  case (Suc k)
  then have ab: "a \<le> b" by simp
  then have split: "rev [a..b] = b # rev [a..b - 1]" using upto_rec2 [of a b] by simp
  show ?case
  proof (cases "P b")
    case True
    then show ?thesis using ab by (simp add: split)
  next
    case False
    have le: "r \<le> b - 1" if "r \<le> b" "P r" for r using that False by (cases "r = b") auto
    have "k = nat (b - 1 - a + 1)" using Suc.hyps(2) by simp
    from Suc.hyps(1) [OF this] show ?thesis using False le by (cases "List.find P (rev [a..b - 1])") (auto simp: split)
  qed
qed

lemma two_thirds_maj: "snd (TwoThirdsMajority p) = HasTwoThirdsMajority p" "HasTwoThirdsMajority (Some v) \<Longrightarrow> vset_maj23 v = Some (fst (TwoThirdsMajority (Some v)))"
  by (auto simp: TwoThirdsMajority_def HasTwoThirdsMajority_def split: option.splits)

lemma POLInfo_spec:
  assumes "hvs_POLInfo hvs = (r, b)"
  shows "if \<exists>r'. 0 \<le> r' \<and> r' \<le> hvs_round hvs \<and> HasTwoThirdsMajority (hvs_Prevotes hvs r')
    then 0 \<le> r \<and> r \<le> hvs_round hvs \<and> (\<exists>v. hvs_Prevotes hvs r = Some v \<and> vset_maj23 v = Some b) \<and>
      (\<forall>r'. r < r' \<longrightarrow> r' \<le> hvs_round hvs \<longrightarrow> \<not> HasTwoThirdsMajority (hvs_Prevotes hvs r'))
    else r = -1 \<and> b = zero_blockID"
proof -
  let ?P = "\<lambda>r. HasTwoThirdsMajority (hvs_Prevotes hvs r)"
  have eq: "hvs_POLInfo hvs = (case List.find ?P (rev [0..hvs_round hvs]) of
      Some r \<Rightarrow> (r, fst (TwoThirdsMajority (hvs_Prevotes hvs r))) | None \<Rightarrow> (-1, zero_blockID))"
    unfolding hvs_POLInfo_def two_thirds_maj(1) hvs_Prevotes_def ..
  show ?thesis
  proof (cases "List.find ?P (rev [0..hvs_round hvs])")
    case None
    then show ?thesis using find_rev_upto [of 0 "hvs_round hvs" ?P] assms unfolding eq by auto
  next
    case (Some m)
    then have m: "0 \<le> m" "m \<le> hvs_round hvs" "?P m" "\<forall>r. m < r \<longrightarrow> r \<le> hvs_round hvs \<longrightarrow> \<not> ?P r"
      using find_rev_upto [of 0 "hvs_round hvs" ?P] by simp_all
    obtain v where v: "hvs_Prevotes hvs m = Some v" using m(3) by (cases "hvs_Prevotes hvs m") (auto simp: HasTwoThirdsMajority_def)
    then have "vset_maj23 v = Some (fst (TwoThirdsMajority (Some v)))" using m(3) two_thirds_maj(2) [of v] by simp
    moreover have "r = m" "b = fst (TwoThirdsMajority (Some v))" using assms Some v unfolding eq by simp_all
    moreover have "\<exists>r'. 0 \<le> r' \<and> r' \<le> hvs_round hvs \<and> ?P r'" using m by blast
    ultimately show ?thesis using m v by simp
  qed
qed

text \<open>The proof-of-lock round is read off a consistent set.\<close>

lemma POLInfo_quorum:
  assumes "hvs_ok dig hvs" "hvs_POLInfo hvs = (r, b)"
  shows "if \<exists>r'. 0 \<le> r' \<and> r' \<le> hvs_round hvs \<and> HasTwoThirdsMajority (hvs_Prevotes hvs r')
       then 0 \<le> r \<and> r \<le> hvs_round hvs \<and>
         (\<exists>v. hvs_Prevotes hvs r = Some v \<and> int64 (two_thirds (hvs_valSet hvs) + 1) \<le> int (card (voters_for v (bid_Key dig b)))) \<and>
         (\<forall>r'. r < r' \<longrightarrow> r' \<le> hvs_round hvs \<longrightarrow> \<not> HasTwoThirdsMajority (hvs_Prevotes hvs r'))
       else r = -1"
proof (cases "\<exists>r'. 0 \<le> r' \<and> r' \<le> hvs_round hvs \<and> HasTwoThirdsMajority (hvs_Prevotes hvs r')")
  case True
  obtain v where v: "hvs_Prevotes hvs r = Some v" "vset_maj23 v = Some b"
    using POLInfo_spec [OF assms(2)] unfolding if_P [OF True] by blast
  then have "rvs_ok dig (hvs_height hvs) (hvs_valSet hvs) r VoteTypePrevote v" using hvs_getVoteSet_ok(1) [OF assms(1)] by (simp add: hvs_Prevotes_def)
  then have "int64 (two_thirds (hvs_valSet hvs) + 1) \<le> int (card (voters_for v (bid_Key dig b)))"
    using majority_voters(1) [of dig v b] v(2) by (simp add: rvs_ok_def vset_quorum_def)
  then show ?thesis using POLInfo_spec [OF assms(2)] v(1) unfolding if_P [OF True] by blast
next
  case False
  show ?thesis using POLInfo_spec [OF assms(2)] unfolding if_not_P [OF False] by blast
qed

text \<open>Claim C23.  The vote sets of a non-zero height, driven by votes for any rounds, claims of peers and moves to other rounds in any order, stop in two cases
  only: \<open>SetRound\<close> is called for the largest 32-bit round, when its loop never ends, or two votes of one validator, round and type name the same
  block by ids that \<open>Equals\<close> takes for equal although an empty hash of the parts is the nil slice in one of them only, when \<open>AddVote\<close> panics.
  Otherwise the prevotes and precommits of every round up to the current one exist, each set holds votes of its own height, round and type only, all of them votes
  that were added, and \<open>POLInfo\<close> finds the last round up to the current one with a quorum of prevotes for one block, or answers round -1 when there is none.\<close>

theorem height_vote_set_sound:
  assumes "height \<noteq> 0" "run = Option.bind (NewBlkNumVoteSet height vs) (for_each (hvs_step dig) ops)"
  shows "(run = None \<longrightarrow> HRound (2 ^ 31 - 1) \<in> set ops \<or>
      (\<exists>w w' peer peer'. HAdd w peer \<in> set ops \<and> HAdd w' peer' \<in> set ops \<and> vt_ValidatorIndex w = vt_ValidatorIndex w' \<and> vt_Round w = vt_Round w' \<and>
         vt_Type w = vt_Type w' \<and> bid_Equals (vt_BlockID w) (vt_BlockID w') \<and> bid_PartsNil (vt_BlockID w) \<noteq> bid_PartsNil (vt_BlockID w'))) \<and>
   (\<forall>hvs. run = Some hvs \<longrightarrow>
    (\<forall>r. 0 \<le> r \<longrightarrow> r \<le> hvs_round hvs \<longrightarrow> hvs_Prevotes hvs r \<noteq> None \<and> hvs_Precommits hvs r \<noteq> None) \<and>
    (\<forall>r t v w. hvs_getVoteSet hvs r t = Some v \<longrightarrow> w \<in> recorded v \<longrightarrow>
       vt_Height w = height \<and> vt_Round w = r \<and> vt_Type w = t \<and> (\<exists>peer. HAdd w peer \<in> set ops)) \<and>
    (let (r, b) = hvs_POLInfo hvs in
       if \<exists>r'. 0 \<le> r' \<and> r' \<le> hvs_round hvs \<and> HasTwoThirdsMajority (hvs_Prevotes hvs r')
       then 0 \<le> r \<and> r \<le> hvs_round hvs \<and>
         (\<exists>v. hvs_Prevotes hvs r = Some v \<and> int64 (two_thirds vs + 1) \<le> int (card (voters_for v (bid_Key dig b)))) \<and>
         (\<forall>r'. r < r' \<longrightarrow> r' \<le> hvs_round hvs \<longrightarrow> \<not> HasTwoThirdsMajority (hvs_Prevotes hvs r'))
       else r = -1))" (is "(_ \<longrightarrow> ?stop) \<and> (\<forall>hvs. _ \<longrightarrow> ?sets hvs \<and> ?votes hvs \<and> ?pol hvs)")
proof -
  obtain h0 where h0: "NewBlkNumVoteSet height vs = Some h0" "hvs_ok dig h0" "hvs_height h0 = height" "hvs_valSet h0 = vs" "hvs_recorded h0 = {}"
    using NewBlkNumVoteSet_ok [OF assms(1), of vs dig] NewBlkNumVoteSet_recorded by blast
  have run: "run = for_each (hvs_step dig) ops h0" using assms(2) h0(1) by simp
  have "?stop" if "run = None"
  proof -
    have "HRound (2 ^ 31 - 1) \<in> set ops \<or> (\<exists>w peer e. HAdd w peer \<in> set ops \<and> (\<exists>peer'. HAdd e peer' \<in> set ops) \<and>
        vt_ValidatorIndex e = vt_ValidatorIndex w \<and> vt_Round e = vt_Round w \<and> vt_Type e = vt_Type w \<and> clash dig (vt_BlockID e) (vt_BlockID w))"
      using hvs_run_stops [OF h0(2)] that h0(5) unfolding run by simp
    then show ?thesis using clash_PartsNil [of dig] unfolding clash_def by metis
  qed
  moreover have "?sets hvs \<and> ?votes hvs \<and> ?pol hvs" if "run = Some hvs" for hvs
  proof (intro conjI allI impI)
    have h: "hvs_ok dig hvs" "hvs_height hvs = height" "hvs_valSet hvs = vs" "hvs_recorded hvs \<subseteq> {w. \<exists>peer. HAdd w peer \<in> set ops}"
      using hvs_run_ok [OF h0(2)] that h0(3-5) unfolding run by auto
    show "hvs_Prevotes hvs r \<noteq> None" "hvs_Precommits hvs r \<noteq> None" if "0 \<le> r" "r \<le> hvs_round hvs" for r
      using h(1) that by (fastforce simp: hvs_ok_def hvs_Prevotes_def hvs_Precommits_def hvs_getVoteSet_def VoteTypePrevote_def VoteTypePrecommit_def split: option.splits)+
    fix r t v w assume v: "hvs_getVoteSet hvs r t = Some v" "w \<in> recorded v"
    have "w \<in> hvs_recorded hvs" using v by (auto simp: hvs_recorded_def)
    then show "\<exists>peer. HAdd w peer \<in> set ops" using h(4) by blast
    show "vt_Height w = height" "vt_Round w = r" "vt_Type w = t"
      using hvs_getVoteSet_ok(1) [OF h(1) v(1)] recorded_fits [of dig v w] v(2) h(2) by (auto simp: rvs_ok_def vote_fits_def)
  next
    have h: "hvs_ok dig hvs" "hvs_valSet hvs = vs" using hvs_run_ok [OF h0(2)] that h0(4) unfolding run by auto
    obtain r b where rb: "hvs_POLInfo hvs = (r, b)" by fastforce
    show "?pol hvs" using POLInfo_quorum [OF h(1) rb] unfolding rb h(2) Let_def prod.case .
  qed
  ultimately show ?thesis by blast
qed

theorem height_vote_set_sound_witness:
  "\<exists>hvs. Option.bind (NewBlkNumVoteSet 7 sample_voters) (for_each (hvs_step sample_dig) [HRound 2, HAdd (sample_vote 0 5) [1], HRound 1]) = Some hvs \<and>
     (\<forall>r. 0 \<le> r \<longrightarrow> r \<le> hvs_round hvs \<longrightarrow> hvs_Prevotes hvs r \<noteq> None \<and> hvs_Precommits hvs r \<noteq> None)"
  using height_vote_set_sound [of 7 _ sample_voters sample_dig "[HRound 2, HAdd (sample_vote 0 5) [1], HRound 1]", OF _ refl]
  by (cases "Option.bind (NewBlkNumVoteSet 7 sample_voters) (for_each (hvs_step sample_dig) [HRound 2, HAdd (sample_vote 0 5) [1], HRound 1])") auto

text \<open>The panic is real: when a validator has voted for a block id and a second, otherwise acceptable vote of it names the same
  block with an id that \<open>Equals\<close> the first but was written differently (a null hash where the first has an empty one), so that its key differs, the vote set panics.\<close>

theorem equal_ids_with_different_keys_panic:
  assumes "vset_ok dig v" "vset_votes v ! k = Some e" "vt_ValidatorIndex w = int k" "k < vset_n v"
    "vt_ValidatorAddress w = v_Address (vs_Validators (vset_valSet v) ! k)" "vt_ValidatorAddress w \<noteq> []"
    "vt_Height w = vset_height v" "vt_Round w = vset_round v" "vt_Type w = vset_type v"
    "bid_Equals (vt_BlockID e) (vt_BlockID w)" "bid_Key dig (vt_BlockID e) \<noteq> bid_Key dig (vt_BlockID w)"
    "gget (vset_votesByBlock v) (bid_Key dig (vt_BlockID w)) = None"
  shows "vset_AddVote dig (Some v) (Some w) = None"
proof -
  have slot: "vote_slot (vset_votes v) (int k) = Some k" using assms(1,4) by (simp add: vote_slot_def vset_ok_def slots_ok_def)
  have "vset_getVote dig v (int k) (bid_Key dig (vt_BlockID w)) = Some None"
    using slot assms(2,11,12) by (simp add: vset_getVote_def bv_getByIndex_def)
  moreover have "record_primary dig v w (bid_Key dig (vt_BlockID w)) 1 = None"
    using slot assms(2,3,10) by (simp add: record_primary_def)
  ultimately show ?thesis using assms
    by (simp add: vset_AddVote_def vset_addVote_def vset_addVerifiedVote_def GetByIndex_def vset_n_def Let_def)
qed

theorem equal_ids_with_different_keys_panic_witness:
  "\<exists>v. run_vset null_dig [Add (nil_vote True)] sample_start = Some v \<and> vset_AddVote null_dig (Some v) (Some (nil_vote False)) = None"
proof -
  have "map_option vset_sum (run_vset null_dig [Add (nil_vote True)] sample_start) = Some 1" by code_simp
  then obtain v where v: "run_vset null_dig [Add (nil_vote True)] sample_start = Some v" "vset_ok null_dig v"
      "vset_height v = 7" "vset_round v = 0" "vset_type v = VoteTypePrecommit" "vset_valSet v = sample_voters"
    using run_new_ok [OF _ sample_start, of null_dig "[Add (nil_vote True)]"] by auto
  have n: "vset_n v = 4" by (simp add: vset_n_def v(6) sample_voters_def)
  have "map_option (\<lambda>v. (vset_votes v ! 0, map_option bv_sum (gget (vset_votesByBlock v) (bid_Key null_dig (vt_BlockID (nil_vote False))))))
      (run_vset null_dig [Add (nil_vote True)] sample_start) = Some (Some (nil_vote True), None)" by code_simp
  then have "vset_votes v ! 0 = Some (nil_vote True)" "gget (vset_votesByBlock v) (bid_Key null_dig (vt_BlockID (nil_vote False))) = None" using v(1) by auto
  moreover have "bid_Equals (vt_BlockID (nil_vote True)) (vt_BlockID (nil_vote False))"
    "bid_Key null_dig (vt_BlockID (nil_vote True)) \<noteq> bid_Key null_dig (vt_BlockID (nil_vote False))"
    "vt_ValidatorAddress (nil_vote False) = v_Address (vs_Validators sample_voters ! 0)" "v_Address (vs_Validators sample_voters ! 0) \<noteq> []" by code_simp+
  ultimately have "vset_AddVote null_dig (Some v) (Some (nil_vote False)) = None"
    using equal_ids_with_different_keys_panic [of null_dig v 0 "nil_vote True" "nil_vote False"] v n by (simp add: nil_vote_def sample_vote_def)
  then show ?thesis using v(1) by blast
qed

end
