(* ===== verification/KVStore.thy ===== *)
theory KVStore
  imports Prelude "HOL-Library.Monad_Syntax"
begin

text \<open>
  \<open>db/leveldbImpl/leveldb.go\<close>, the key-value store below the ledger.  LevelDB itself is a library: its contents are a map from keys to values, and the
  parameter \<open>flt\<close> says which calls fail and what a failing call leaves behind.
\<close>

section \<open>Model\<close>

type_synonym kvdata = "bytes \<rightharpoonup> bytes"

text \<open>A batch lists what is to be put (\<open>Some\<close>) or deleted (\<open>None\<close>).\<close>

type_synonym batch = "(bytes \<times> bytes option) list"

datatype db_op = OpPut bytes bytes | OpGet bytes | OpHas bytes | OpDelete bytes | OpWrite batch

type_synonym faults = "db_op \<Rightarrow> kvdata \<Rightarrow> kvdata option"

datatype db_error = DbError

record LevelDBStore =
  lv_db :: kvdata
  lv_batch :: "batch option"
  lv_closed :: bool

definition lv_open :: LevelDBStore where
  "lv_open = \<lparr> lv_db = Map.empty, lv_batch = None, lv_closed = False \<rparr>"

text \<open>Every call on a closed database fails.\<close>

definition lv_fails :: "faults \<Rightarrow> db_op \<Rightarrow> LevelDBStore \<Rightarrow> kvdata option" where
  "lv_fails flt opn s = (if lv_closed s then Some (lv_db s) else flt opn (lv_db s))"

text \<open>The error of a write is \<open>True\<close>.\<close>

definition lv_Put :: "faults \<Rightarrow> bytes \<Rightarrow> bytes \<Rightarrow> LevelDBStore \<Rightarrow> bool \<times> LevelDBStore" where
  "lv_Put flt key val s = (case lv_fails flt (OpPut key val) s of
     Some d \<Rightarrow> (True, s\<lparr>lv_db := d\<rparr>) | None \<Rightarrow> (False, s\<lparr>lv_db := (lv_db s)(key \<mapsto> val)\<rparr>))"

definition lv_Get :: "faults \<Rightarrow> bytes \<Rightarrow> LevelDBStore \<Rightarrow> db_error + bytes option" where
  "lv_Get flt key s = (case lv_fails flt (OpGet key) s of Some d \<Rightarrow> Inl DbError | None \<Rightarrow> Inr (lv_db s key))"

definition lv_Has :: "faults \<Rightarrow> bytes \<Rightarrow> LevelDBStore \<Rightarrow> db_error + bool" where
  "lv_Has flt key s = (case lv_fails flt (OpHas key) s of Some d \<Rightarrow> Inl DbError | None \<Rightarrow> Inr (lv_db s key \<noteq> None))"

definition lv_Delete :: "faults \<Rightarrow> bytes \<Rightarrow> LevelDBStore \<Rightarrow> bool \<times> LevelDBStore" where
  "lv_Delete flt key s = (case lv_fails flt (OpDelete key) s of
     Some d \<Rightarrow> (True, s\<lparr>lv_db := d\<rparr>) | None \<Rightarrow> (False, s\<lparr>lv_db := (lv_db s)(key := None)\<rparr>))"

definition lv_NewBatch :: "LevelDBStore \<Rightarrow> LevelDBStore" where
  "lv_NewBatch s = s\<lparr>lv_batch := Some []\<rparr>"

text \<open>Without a batch these two panic.\<close>

definition lv_BatchPut :: "bytes \<Rightarrow> bytes \<Rightarrow> LevelDBStore \<Rightarrow> LevelDBStore option" where
  "lv_BatchPut key val s = map_option (\<lambda>b. s\<lparr>lv_batch := Some (b @ [(key, Some val)])\<rparr>) (lv_batch s)"

definition lv_BatchDelete :: "bytes \<Rightarrow> LevelDBStore \<Rightarrow> LevelDBStore option" where
  "lv_BatchDelete key s = map_option (\<lambda>b. s\<lparr>lv_batch := Some (b @ [(key, None)])\<rparr>) (lv_batch s)"

definition apply_batch :: "batch \<Rightarrow> kvdata \<Rightarrow> kvdata" where
  "apply_batch = fold (\<lambda>(key, v) d. d(key := v))"

text \<open>Writing no batch or an empty one does nothing.\<close>

definition lv_BatchCommit :: "faults \<Rightarrow> LevelDBStore \<Rightarrow> bool \<times> LevelDBStore" where
  "lv_BatchCommit flt s = (let b = (case lv_batch s of None \<Rightarrow> [] | Some b \<Rightarrow> b) in
     case lv_fails flt (OpWrite b) s of
       Some d \<Rightarrow> (True, s\<lparr>lv_db := d\<rparr>) | None \<Rightarrow> (False, s\<lparr>lv_db := apply_batch b (lv_db s), lv_batch := None\<rparr>))"

definition lv_Close :: "LevelDBStore \<Rightarrow> LevelDBStore" where
  "lv_Close s = s\<lparr>lv_closed := True\<rparr>"

section \<open>A store that does not fail\<close>

definition healthy :: "faults \<Rightarrow> LevelDBStore \<Rightarrow> bool" where
  "healthy flt s \<longleftrightarrow> \<not> lv_closed s \<and> (\<forall>opn d. flt opn d = None)"

named_theorems kv_simps "calls on a store that does not fail"

lemma healthy_Put [kv_simps]: "healthy flt s \<Longrightarrow> lv_Put flt key val s = (False, s\<lparr>lv_db := (lv_db s)(key \<mapsto> val)\<rparr>)"
  by (simp add: healthy_def lv_Put_def lv_fails_def)

lemma healthy_Get [kv_simps]: "healthy flt s \<Longrightarrow> lv_Get flt key s = Inr (lv_db s key)"
  by (simp add: healthy_def lv_Get_def lv_fails_def)

lemma healthy_Delete [kv_simps]: "healthy flt s \<Longrightarrow> lv_Delete flt key s = (False, s\<lparr>lv_db := (lv_db s)(key := None)\<rparr>)"
  by (simp add: healthy_def lv_Delete_def lv_fails_def)

lemma healthy_Commit [kv_simps]:
  "healthy flt s \<Longrightarrow> lv_BatchCommit flt s = (False, s\<lparr>lv_db := apply_batch (case lv_batch s of None \<Rightarrow> [] | Some b \<Rightarrow> b) (lv_db s), lv_batch := None\<rparr>)"
  by (simp add: healthy_def lv_BatchCommit_def lv_fails_def Let_def)

lemma healthy_upd [simp]: "healthy flt (s\<lparr>lv_db := d\<rparr>) = healthy flt s" "healthy flt (s\<lparr>lv_batch := b\<rparr>) = healthy flt s"
  by (simp_all add: healthy_def)

lemma apply_batch_Nil [simp]: "apply_batch [] d = d"
  by (simp add: apply_batch_def)

end
