(* ===== verification/Ledger.thy ===== *)
theory Ledger
  imports Strconv KVStore Transaction
begin

text \<open>
  The ledger: \<open>ledger/ledger.go\<close>, \<open>base.go\<close>, \<open>index.go\<close> and the stores \<open>blockStore\<close>, \<open>stateStore\<close>, \<open>nonceStore\<close>, \<open>wrongStore\<close> with their
  caches.  The package variables are one state.  The two database handles may be the same store, so stores are kept at addresses.  Caches are maps; which
  entries the cache library evicts when one is set is a parameter.  JSON encoders and decoders and the hash of a header are parameters too.  Where a
  result is an option, \<open>None\<close> is a run-time panic.
\<close>

section \<open>Data\<close>

record Header =
  hd_BlockNum :: u64
  hd_PreviousHash :: bytes
  hd_CreateTime :: u64
  hd_SenderId :: bytes
  hd_ConsArgs :: bytes
  hd_Ext :: bytes
  hd_TxsHash :: bytes
  hd_StateHash :: bytes

record Block =
  bk_Header :: "Header option"
  bk_Txs :: "transaction list"

definition zero_block :: Block where
  "zero_block = \<lparr> bk_Header = None, bk_Txs = [] \<rparr>"

datatype ItemState = StNone | StChanged | StDeleted

record StateItem =
  si_Key :: bytes
  si_Value :: bytes
  si_State :: ItemState
  si_ChainID :: string

record NonceItem =
  ni_Key :: address
  ni_Nonce :: u64

record indexStore =
  is_BlockNum :: u64
  is_Offset :: "32 word"

type_synonym ('k, 'v) eviction = "('k \<rightharpoonup> 'v) \<Rightarrow> 'k \<Rightarrow> 'k set"

record ledger_env =
  le_flt :: faults
  le_evS :: "(bytes, bytes) eviction"
  le_evB :: "(u64, Block) eviction"
  le_evN :: "(bytes, u64) eviction"
  le_encBlock :: "Block \<Rightarrow> bytes"
  le_decBlock :: "bytes \<Rightarrow> Block option"
  le_encIndex :: "indexStore \<Rightarrow> bytes"
  le_decIndex :: "bytes \<Rightarrow> indexStore option"
  le_headerHash :: "Header option \<Rightarrow> db_error + bytes"

record Ledger =
  lg_stores :: "nat \<Rightarrow> LevelDBStore"
  lg_db :: nat
  lg_blockDB :: nat
  lg_stateCache :: "bytes \<rightharpoonup> bytes"
  lg_blockCache :: "u64 \<rightharpoonup> Block"
  lg_nonceCache :: "bytes \<rightharpoonup> u64"
  lg_height :: u64

definition InitLedger :: "nat \<Rightarrow> nat \<Rightarrow> (nat \<Rightarrow> LevelDBStore) \<Rightarrow> Ledger" where
  "InitLedger db blockDB stores = \<lparr> lg_stores = stores, lg_db = db, lg_blockDB = blockDB,
     lg_stateCache = Map.empty, lg_blockCache = Map.empty, lg_nonceCache = Map.empty, lg_height = 0 \<rparr>"

section \<open>Stores and caches\<close>

definition cache_set :: "('k, 'v) eviction \<Rightarrow> 'k \<Rightarrow> 'v \<Rightarrow> ('k \<rightharpoonup> 'v) \<Rightarrow> ('k \<rightharpoonup> 'v)" where
  "cache_set ev key v c = (\<lambda>x. if x \<in> ev c key then None else (c(key \<mapsto> v)) x)"

text \<open>A call on the store at an address.\<close>

definition on_store :: "nat \<Rightarrow> (LevelDBStore \<Rightarrow> 'a \<times> LevelDBStore) \<Rightarrow> Ledger \<Rightarrow> 'a \<times> Ledger" where
  "on_store a f L = (let (r, s) = f (lg_stores L a) in (r, L\<lparr>lg_stores := (lg_stores L)(a := s)\<rparr>))"

definition db_put :: "ledger_env \<Rightarrow> bytes \<Rightarrow> bytes \<Rightarrow> Ledger \<Rightarrow> bool \<times> Ledger" where
  "db_put env key v L = on_store (lg_db L) (lv_Put (le_flt env) key v) L"

definition db_get :: "ledger_env \<Rightarrow> bytes \<Rightarrow> Ledger \<Rightarrow> db_error + bytes option" where
  "db_get env key L = lv_Get (le_flt env) key (lg_stores L (lg_db L))"

definition state_key :: "string \<Rightarrow> bytes \<Rightarrow> bytes" where
  "state_key chainID key = ascii (chainID @ ''#'') @ key"

definition ss_GetState :: "ledger_env \<Rightarrow> string \<Rightarrow> bytes \<Rightarrow> Ledger \<Rightarrow> db_error + bytes option" where
  "ss_GetState env chainID key L = (let key1 = state_key chainID key in
     case lg_stateCache L key1 of Some v \<Rightarrow> Inr (Some v) | None \<Rightarrow> db_get env key1 L)"

definition ss_SetState :: "ledger_env \<Rightarrow> string \<Rightarrow> bytes \<Rightarrow> bytes \<Rightarrow> Ledger \<Rightarrow> bool \<times> Ledger" where
  "ss_SetState env chainID key state L = (let key1 = state_key chainID key in
     db_put env key1 state (L\<lparr>lg_stateCache := cache_set (le_evS env) key1 state (lg_stateCache L)\<rparr>))"

definition ss_DeleteState :: "ledger_env \<Rightarrow> string \<Rightarrow> bytes \<Rightarrow> Ledger \<Rightarrow> bool \<times> Ledger" where
  "ss_DeleteState env chainID key L = (let key1 = state_key chainID key; L1 = L\<lparr>lg_stateCache := (lg_stateCache L)(key1 := None)\<rparr> in
     on_store (lg_db L1) (lv_Delete (le_flt env) key1) L1)"

definition nonce_key :: "address \<Rightarrow> bytes" where
  "nonce_key address = ascii ''nonce'' @ address"

definition ns_SetNonce :: "ledger_env \<Rightarrow> address \<Rightarrow> u64 \<Rightarrow> Ledger \<Rightarrow> bool \<times> Ledger" where
  "ns_SetNonce env address nonce L = (let key = nonce_key address in
     db_put env key (be_uint64 nonce) (L\<lparr>lg_nonceCache := cache_set (le_evN env) key nonce (lg_nonceCache L)\<rparr>))"

text \<open>What the nonce cache answers is not used.\<close>

definition ns_GetNonce :: "ledger_env \<Rightarrow> address \<Rightarrow> Ledger \<Rightarrow> (db_error + u64) option" where
  "ns_GetNonce env address L = (case db_get env (nonce_key address) L of
     Inl e \<Rightarrow> Some (Inl e) | Inr None \<Rightarrow> Some (Inr 0) | Inr (Some b) \<Rightarrow> map_option Inr (be_read64 b))"

definition wrong_key :: "bytes \<Rightarrow> bytes" where
  "wrong_key txid = ascii ''wrong'' @ txid"

definition GetWrongIndex :: "ledger_env \<Rightarrow> bytes \<Rightarrow> Ledger \<Rightarrow> db_error + bytes" where
  "GetWrongIndex env txid L = (case db_get env (wrong_key txid) L of Inl e \<Rightarrow> Inl e | Inr None \<Rightarrow> Inr [] | Inr (Some r) \<Rightarrow> Inr r)"

definition SetWrongIndex :: "ledger_env \<Rightarrow> bytes \<Rightarrow> bytes \<Rightarrow> Ledger \<Rightarrow> bool \<times> Ledger" where
  "SetWrongIndex env txid reason L = db_put env (wrong_key txid) reason L"

text \<open>The mark the application manager leaves for an installed contract.\<close>

definition contract_key :: "string \<Rightarrow> bytes" where
  "contract_key name = ascii (''contract#'' @ name)"

definition bs_WriteBlock :: "ledger_env \<Rightarrow> Block \<Rightarrow> Ledger \<Rightarrow> (bool \<times> Ledger) option" where
  "bs_WriteBlock env block L = (case bk_Header block of None \<Rightarrow> None
     | Some h \<Rightarrow> Some (on_store (lg_blockDB L) (lv_Put (le_flt env) (be_uint64 (hd_BlockNum h)) (le_encBlock env block))
         (L\<lparr>lg_blockCache := cache_set (le_evB env) (hd_BlockNum h) block (lg_blockCache L)\<rparr>)))"

definition bs_RollbackBlock :: "ledger_env \<Rightarrow> u64 \<Rightarrow> Ledger \<Rightarrow> Ledger" where
  "bs_RollbackBlock env blkNum L =
     (let L1 = (case lg_blockCache L blkNum of None \<Rightarrow> L | Some b \<Rightarrow> L\<lparr>lg_blockCache := (lg_blockCache L)(blkNum := None)\<rparr>) in
      snd (on_store (lg_blockDB L1) (lv_Delete (le_flt env) (be_uint64 blkNum)) L1))"

text \<open>A block that is missing is decoded from nothing, which is an error; the second component is the error.\<close>

definition bs_GetBlock :: "ledger_env \<Rightarrow> u64 \<Rightarrow> Ledger \<Rightarrow> Block option \<times> bool" where
  "bs_GetBlock env blkNum L = (case lg_blockCache L blkNum of Some b \<Rightarrow> (Some b, False)
     | None \<Rightarrow> (case lv_Get (le_flt env) (be_uint64 blkNum) (lg_stores L (lg_blockDB L)) of
         Inl e \<Rightarrow> (None, True)
       | Inr None \<Rightarrow> (Some zero_block, True)
       | Inr (Some d) \<Rightarrow> (case le_decBlock env d of None \<Rightarrow> (Some zero_block, True) | Some b \<Rightarrow> (Some b, False))))"

definition bs_CalcBlockHash :: "ledger_env \<Rightarrow> Block \<Rightarrow> db_error + bytes" where
  "bs_CalcBlockHash env blk = le_headerHash env (bk_Header blk)"

definition bs_GetBlockHash :: "ledger_env \<Rightarrow> u64 \<Rightarrow> Ledger \<Rightarrow> db_error + bytes" where
  "bs_GetBlockHash env blkNum L = (case bs_GetBlock env blkNum L of (Some b, False) \<Rightarrow> bs_CalcBlockHash env b | _ \<Rightarrow> Inl DbError)"

section \<open>Height and index\<close>

definition HEIGHTKEY :: bytes where
  "HEIGHTKEY = ascii ''height''"

definition SetBlockHeight :: "ledger_env \<Rightarrow> u64 \<Rightarrow> Ledger \<Rightarrow> bool \<times> Ledger" where
  "SetBlockHeight env height L = (let (err, L1) = db_put env HEIGHTKEY (be_uint64 height) L in (err, L1\<lparr>lg_height := height\<rparr>))"

definition GetBlockHeight :: "ledger_env \<Rightarrow> Ledger \<Rightarrow> ((db_error + u64) \<times> Ledger) option" where
  "GetBlockHeight env L = (case db_get env HEIGHTKEY L of
     Inl e \<Rightarrow> Some (Inl e, L) | Inr None \<Rightarrow> Some (Inr 0, L)
   | Inr (Some b) \<Rightarrow> map_option (\<lambda>height. (Inr height, L\<lparr>lg_height := height\<rparr>)) (be_read64 b))"

definition index_key :: "bytes \<Rightarrow> bytes" where
  "index_key txid = ascii ''index'' @ txid"

text \<open>The loop stops at the first failing write.\<close>

fun index_txs :: "ledger_env \<Rightarrow> u64 \<Rightarrow> nat \<Rightarrow> transaction list \<Rightarrow> Ledger \<Rightarrow> bool \<times> Ledger" where
  "index_txs env blkNum i [] L = (False, L)"
| "index_txs env blkNum i (v # txs) L =
     (let (err, L1) = db_put env (index_key (tx_Txid v)) (le_encIndex env \<lparr> is_BlockNum = blkNum, is_Offset = of_nat i \<rparr>) L in
      if err then (True, L1) else index_txs env blkNum (Suc i) txs L1)"

definition SetHashIndex :: "ledger_env \<Rightarrow> Block \<Rightarrow> Ledger \<Rightarrow> (bool \<times> Ledger) option" where
  "SetHashIndex env block L = (case bk_Txs block of [] \<Rightarrow> Some (False, L)
     | _ \<Rightarrow> map_option (\<lambda>h. index_txs env (hd_BlockNum h) 0 (bk_Txs block) L) (bk_Header block))"

definition FindHashIndex :: "ledger_env \<Rightarrow> bytes \<Rightarrow> Ledger \<Rightarrow> db_error + indexStore option" where
  "FindHashIndex env txid L = (case db_get env (index_key txid) L of Inl e \<Rightarrow> Inl e | Inr None \<Rightarrow> Inr None
     | Inr (Some d) \<Rightarrow> (case le_decIndex env d of None \<Rightarrow> Inl DbError | Some x \<Rightarrow> Inr (Some x)))"

section \<open>Ledger operations\<close>

definition write_item :: "ledger_env \<Rightarrow> StateItem \<Rightarrow> Ledger \<Rightarrow> Ledger" where
  "write_item env v L = snd (if si_State v = StDeleted then ss_DeleteState env (si_ChainID v) (si_Key v) L
     else ss_SetState env (si_ChainID v) (si_Key v) (si_Value v) L)"

definition new_batch :: "Ledger \<Rightarrow> Ledger" where
  "new_batch L = snd (on_store (lg_db L) (\<lambda>s. ((), lv_NewBatch s)) L)"

definition batch_commit :: "ledger_env \<Rightarrow> Ledger \<Rightarrow> Ledger" where
  "batch_commit env L = snd (on_store (lg_db L) (lv_BatchCommit (le_flt env)) L)"

definition close_db :: "Ledger \<Rightarrow> Ledger" where
  "close_db L = snd (on_store (lg_db L) (\<lambda>s. ((), lv_Close s)) L)"

definition SetContractState :: "ledger_env \<Rightarrow> StateItem list \<Rightarrow> Ledger \<Rightarrow> Ledger" where
  "SetContractState env items L = batch_commit env (fold (write_item env) items (new_batch L))"

datatype ledger_error = HeightInvalid | WriteFailed

text \<open>
  A failing read of the height ends the call without an error; a failing write of the height or of the index closes the database.  Nothing is
  written through the batch that is opened and committed.
\<close>

definition WriteLedger :: "ledger_env \<Rightarrow> Block \<Rightarrow> StateItem list \<Rightarrow> NonceItem list \<Rightarrow> Ledger \<Rightarrow> (ledger_error option \<times> Ledger) option" where
  "WriteLedger env block items nonces L = do {
     (h, L0) \<leftarrow> GetBlockHeight env L;
     case h of Inl e \<Rightarrow> Some (None, L0)
     | Inr h \<Rightarrow> do {
         header \<leftarrow> bk_Header block;
         if hd_BlockNum header \<noteq> h then Some (Some HeightInvalid, L0)
         else do {
           (_, L1) \<leftarrow> bs_WriteBlock env block (new_batch L0);
           let L2 = fold (write_item env) items L1;
           let (err, L3) = SetBlockHeight env (hd_BlockNum header + 1) L2;
           if err then Some (Some WriteFailed, close_db L3)
           else do {
             (err, L4) \<leftarrow> SetHashIndex env block L3;
             if err then Some (Some WriteFailed, close_db L4)
             else Some (None, batch_commit env (fold (\<lambda>v L. snd (ns_SetNonce env (ni_Key v) (ni_Nonce v) L)) nonces L4)) } } } }"

definition GetContractState :: "ledger_env \<Rightarrow> string \<Rightarrow> bytes \<Rightarrow> Ledger \<Rightarrow> db_error + bytes option" where
  "GetContractState env chainID key L = ss_GetState env chainID key L"

text \<open>The offset is a 32-bit number and so is the number after it.\<close>

definition GetTransaction :: "ledger_env \<Rightarrow> u64 \<Rightarrow> 32 word \<Rightarrow> Ledger \<Rightarrow> (db_error + transaction) option" where
  "GetTransaction env blkNum offset L = (case bs_GetBlock env blkNum L of
     (Some blk, False) \<Rightarrow>
       if (of_nat (length (bk_Txs blk)) :: 32 word) < offset + 1 then Some (Inl DbError)
       else if unat offset < length (bk_Txs blk) then Some (Inr (bk_Txs blk ! unat offset)) else None
   | _ \<Rightarrow> Some (Inl DbError))"

end
