(* ===== verification/Ledger_Inv.thy ===== *)
theory Ledger_Inv
  imports Ledger
begin

text \<open>
  The ledger as a set of maps: keys of different kinds never meet in the database, the caches agree with it, and so every read returns what was last
  written.  The abstract ledger is the chain of blocks with its state, nonces and index; \<open>WriteLedger\<close> implements its transition.
\<close>

section \<open>Kinds of keys\<close>

datatype lkey = KHeight | KState string bytes | KNonce bytes | KIndex bytes | KWrong bytes | KContract string

fun enc_key :: "lkey \<Rightarrow> bytes" where
  "enc_key KHeight = HEIGHTKEY"
| "enc_key (KState c x) = state_key c x"
| "enc_key (KNonce a) = nonce_key a"
| "enc_key (KIndex t) = index_key t"
| "enc_key (KWrong t) = wrong_key t"
| "enc_key (KContract c) = contract_key c"

definition contract_chain :: "string \<Rightarrow> bool" where
  "contract_chain c \<longleftrightarrow> c = HGS \<or> c = HNB"

fun key_ok :: "lkey \<Rightarrow> bool" where
  "key_ok (KState c x) = contract_chain c"
| "key_ok k = True"

lemma ascii_lits:
  "ascii ''height'' = [104, 101, 105, 103, 104, 116]" "ascii ''nonce'' = [110, 111, 110, 99, 101]" "ascii ''index'' = [105, 110, 100, 101, 120]"
  "ascii ''contract#'' = [99, 111, 110, 116, 114, 97, 99, 116, 35]" "ascii ''wrong'' = [119, 114, 111, 110, 103]" "ascii ''hgs#'' = [104, 103, 115, 35]" "ascii ''hnb#'' = [104, 110, 98, 35]"
  by code_simp+

lemma byte_of_char_inj: "(of_char c :: byte) = of_char d \<longleftrightarrow> c = d"
proof
  assume "(of_char c :: byte) = of_char d"
  then have "unat (of_nat (of_char c) :: byte) = unat (of_nat (of_char d) :: byte)" by (simp add: of_nat_of_char)
  moreover have "(of_char c :: nat) < 256" "(of_char d :: nat) < 256" by (rule nat_of_char_less_256)+
  ultimately have "(of_char c :: nat) = of_char d" by (simp add: unat_of_nat)
  then show "c = d" by simp
qed simp

lemma ascii_inj [simp]: "ascii s = ascii t \<longleftrightarrow> s = t"
  unfolding ascii_def by (rule inj_map_eq_map) (simp add: inj_def byte_of_char_inj)

lemma enc_key_unfold:
  "enc_key KHeight = [104, 101, 105, 103, 104, 116]" "enc_key (KNonce a) = [110, 111, 110, 99, 101] @ a" "enc_key (KIndex t) = [105, 110, 100, 101, 120] @ t"
  "enc_key (KWrong t) = [119, 114, 111, 110, 103] @ t" "enc_key (KState HGS x) = [104, 103, 115, 35] @ x" "enc_key (KState HNB x) = [104, 110, 98, 35] @ x"
  by (simp_all add: HEIGHTKEY_def nonce_key_def index_key_def wrong_key_def state_key_def HGS_def HNB_def ascii_lits)

lemma enc_key_contract: "enc_key (KContract c) = [99, 111, 110, 116, 114, 97, 99, 116, 35] @ ascii c"
proof -
  have "enc_key (KContract c) = ascii ''contract#'' @ ascii c" by (simp add: contract_key_def ascii_def)
  then show ?thesis by (simp only: ascii_lits)
qed

lemma enc_key_inj:
  assumes "key_ok a" "key_ok b"
  shows "enc_key a = enc_key b \<longleftrightarrow> a = b"
proof -
  have ne: "HGS \<noteq> HNB" by (simp add: HGS_def HNB_def)
  show ?thesis using assms ne
    by (cases a; cases b) (auto simp: enc_key_unfold enc_key_contract contract_chain_def simp del: enc_key.simps)
qed

text \<open>Block numbers below \<open>2 ^ 56\<close> are never taken for another key.\<close>

definition small :: "u64 \<Rightarrow> bool" where
  "small n \<longleftrightarrow> unat n < 2 ^ 56"

lemma hd_be_uint64: "small n \<Longrightarrow> hd (be_uint64 n) = 0"
proof -
  assume "small n"
  then have "n < 2 ^ 56" by (simp add: small_def word_less_nat_alt)
  then have "drop_bit 56 n = 0" by (simp add: drop_bit_eq_div div_word_less)
  then show ?thesis by (simp add: be_uint64_def upt_rec)
qed

lemma enc_key_not_block: "key_ok a \<Longrightarrow> small n \<Longrightarrow> enc_key a \<noteq> be_uint64 n"
proof
  assume "key_ok a" "small n" "enc_key a = be_uint64 n"
  then have "hd (enc_key a) = 0" using hd_be_uint64 by simp
  then show False using \<open>key_ok a\<close> by (cases a) (auto simp: enc_key_unfold enc_key_contract contract_chain_def simp del: enc_key.simps)
qed

lemma be_uint64_inj [simp]: "be_uint64 m = be_uint64 n \<longleftrightarrow> m = n"
  by (metis be_read64_uint64 option.inject)

section \<open>The invariant\<close>

definition lview :: "Ledger \<Rightarrow> lkey \<Rightarrow> bytes option" where
  "lview L x = lv_db (lg_stores L (lg_db L)) (enc_key x)"

definition bview :: "Ledger \<Rightarrow> u64 \<Rightarrow> bytes option" where
  "bview L n = lv_db (lg_stores L (lg_blockDB L)) (be_uint64 n)"

definition ledger_ok :: "ledger_env \<Rightarrow> Ledger \<Rightarrow> bool" where
  "ledger_ok env L \<longleftrightarrow> healthy (le_flt env) (lg_stores L (lg_db L)) \<and> healthy (le_flt env) (lg_stores L (lg_blockDB L)) \<and>
     lv_batch (lg_stores L (lg_db L)) \<in> {None, Some []} \<and>
     (\<forall>k v. lg_stateCache L k = Some v \<longrightarrow> (\<exists>c x. k = state_key c x \<and> contract_chain c \<and> lview L (KState c x) = Some v)) \<and>
     (\<forall>n b. lg_blockCache L n = Some b \<longrightarrow> small n \<and> bview L n = Some (le_encBlock env b) \<and> le_decBlock env (le_encBlock env b) = Some b) \<and>
     (\<forall>b. lview L KHeight = Some b \<longrightarrow> length b = 8) \<and> (\<forall>a b. lview L (KNonce a) = Some b \<longrightarrow> length b = 8)"

text \<open>\<open>L'\<close> is \<open>L\<close> with another value under one key; block reads are as before.\<close>

definition put_at :: "ledger_env \<Rightarrow> Ledger \<Rightarrow> lkey \<Rightarrow> bytes option \<Rightarrow> Ledger \<Rightarrow> bool" where
  "put_at env L x v L' \<longleftrightarrow> ledger_ok env L' \<and> (\<forall>y. key_ok y \<longrightarrow> lview L' y = ((lview L)(x := v)) y) \<and> (\<forall>n. small n \<longrightarrow> bview L' n = bview L n) \<and>
     lg_blockCache L' = lg_blockCache L \<and> lg_db L' = lg_db L \<and> lg_blockDB L' = lg_blockDB L"

text \<open>A write to the database under a key of the ledger, with the cache entry that goes with it.\<close>

definition raw_put :: "lkey \<Rightarrow> bytes option \<Rightarrow> Ledger \<Rightarrow> Ledger" where
  "raw_put x v L = L\<lparr>lg_stores := (lg_stores L)(lg_db L := (lg_stores L (lg_db L))\<lparr>lv_db := (lv_db (lg_stores L (lg_db L)))(enc_key x := v)\<rparr>)\<rparr>"

lemma raw_put_view:
  assumes "key_ok x"
  shows "key_ok y \<Longrightarrow> lview (raw_put x v L) y = ((lview L)(x := v)) y" "small n \<Longrightarrow> bview (raw_put x v L) n = bview L n"
  using assms enc_key_inj [of y x] enc_key_not_block [of x n] by (auto simp: lview_def bview_def raw_put_def)

lemma raw_put_other [simp]:
  "lg_stateCache (raw_put x v L) = lg_stateCache L" "lg_blockCache (raw_put x v L) = lg_blockCache L" "lg_nonceCache (raw_put x v L) = lg_nonceCache L"
  "lg_db (raw_put x v L) = lg_db L" "lg_blockDB (raw_put x v L) = lg_blockDB L"
  by (simp_all add: raw_put_def)

lemma raw_put_healthy:
  "healthy flt (lg_stores (raw_put x v L) (lg_db L)) = healthy flt (lg_stores L (lg_db L))"
  "healthy flt (lg_stores (raw_put x v L) (lg_blockDB L)) = healthy flt (lg_stores L (lg_blockDB L))"
  by (auto simp: raw_put_def)

lemma db_put_raw:
  assumes "ledger_ok env L"
  shows "db_put env (enc_key x) v L = (False, raw_put x (Some v) L)"
  using assms by (simp add: db_put_def on_store_def ledger_ok_def raw_put_def kv_simps)

lemma ledger_ok_frame [simp]:
  "ledger_ok env (L\<lparr>lg_nonceCache := c\<rparr>) = ledger_ok env L" "ledger_ok env (L\<lparr>lg_height := h\<rparr>) = ledger_ok env L"
  by (simp_all add: ledger_ok_def lview_def bview_def)

lemma put_at_frame [simp]:
  "put_at env (L\<lparr>lg_nonceCache := c\<rparr>) x v L' = put_at env L x v L'" "put_at env L x v (L'\<lparr>lg_height := h\<rparr>) = put_at env L x v L'"
  "put_at env (L\<lparr>lg_stateCache := sc\<rparr>) x v L' = put_at env L x v L'"
  by (simp_all add: put_at_def lview_def bview_def fun_upd_def)

lemma raw_put_ok:
  assumes "ledger_ok env L" "key_ok x" "x \<in> {KHeight} \<union> range KNonce \<Longrightarrow> \<exists>b. v = Some b \<and> length b = 8"
    "\<And>c y. x = KState c y \<Longrightarrow> lg_stateCache L (state_key c y) = None \<or> lg_stateCache L (state_key c y) = v"
  shows "put_at env L x v (raw_put x v L)"
proof -
  note view = raw_put_view [OF assms(2)]
  have "ledger_ok env (raw_put x v L)"
    unfolding ledger_ok_def
  proof (intro conjI allI impI)
    show "healthy (le_flt env) (lg_stores (raw_put x v L) (lg_db (raw_put x v L)))" "healthy (le_flt env) (lg_stores (raw_put x v L) (lg_blockDB (raw_put x v L)))"
      using assms(1) by (simp_all add: raw_put_healthy ledger_ok_def)
    show "lv_batch (lg_stores (raw_put x v L) (lg_db (raw_put x v L))) \<in> {None, Some []}"
      using assms(1) by (simp add: raw_put_def ledger_ok_def)
    fix k s assume "lg_stateCache (raw_put x v L) k = Some s"
    then have cache: "lg_stateCache L k = Some s" by simp
    have "\<forall>k v. lg_stateCache L k = Some v \<longrightarrow> (\<exists>c x. k = state_key c x \<and> contract_chain c \<and> lview L (KState c x) = Some v)"
      using assms(1) by (simp add: ledger_ok_def)
    then obtain c y where "k = state_key c y" "contract_chain c" "lview L (KState c y) = Some s" using cache by blast
    then show "\<exists>c y. k = state_key c y \<and> contract_chain c \<and> lview (raw_put x v L) (KState c y) = Some s"
      using view(1) [of "KState c y"] assms(4) [of c y] cache by (auto intro!: exI [of _ c] exI [of _ y])
  next
    fix n b assume "lg_blockCache (raw_put x v L) n = Some b"
    then have b: "small n" "bview L n = Some (le_encBlock env b)" "le_decBlock env (le_encBlock env b) = Some b"
      using assms(1) by (simp_all add: ledger_ok_def)
    show "small n" by (rule b(1))
    show "bview (raw_put x v L) n = Some (le_encBlock env b)" using b(2) view(2) [OF b(1)] by simp
    show "le_decBlock env (le_encBlock env b) = Some b" by (rule b(3))
  next
    fix b assume "lview (raw_put x v L) KHeight = Some b"
    then show "length b = 8" using assms(1,3) view(1) [of KHeight] by (auto simp: ledger_ok_def split: if_splits)
  next
    fix a b assume "lview (raw_put x v L) (KNonce a) = Some b"
    then show "length b = 8" using assms(1,3) view(1) [of "KNonce a"] by (auto simp: ledger_ok_def split: if_splits)
  qed
  then show ?thesis using view by (simp add: put_at_def)
qed

section \<open>Every operation is a write under one key\<close>

lemma ss_GetState_view:
  assumes "ledger_ok env L" "contract_chain c"
  shows "GetContractState env c key L = Inr (lview L (KState c key))"
proof (cases "lg_stateCache L (state_key c key)")
  case None
  then show ?thesis using assms(1) by (simp add: GetContractState_def ss_GetState_def db_get_def ledger_ok_def lview_def kv_simps)
next
  case (Some v)
  have "\<forall>k v. lg_stateCache L k = Some v \<longrightarrow> (\<exists>c x. k = state_key c x \<and> contract_chain c \<and> lview L (KState c x) = Some v)"
    using assms(1) by (simp add: ledger_ok_def)
  then obtain c' x where "state_key c key = state_key c' x" "contract_chain c'" "lview L (KState c' x) = Some v" using Some by blast
  then have "lview L (KState c key) = Some v" using enc_key_inj [of "KState c key" "KState c' x"] assms(2) by auto
  then show ?thesis using Some by (simp add: GetContractState_def ss_GetState_def)
qed

lemma db_get_view: "ledger_ok env L \<Longrightarrow> db_get env (enc_key x) L = Inr (lview L x)"
  by (simp add: db_get_def ledger_ok_def lview_def kv_simps)

text \<open>Changing cache entries for one key keeps the invariant when the entry is dropped or agrees with what is then written.\<close>

lemma stateCache_drop:
  assumes "ledger_ok env L" "\<And>k v. sc k = Some v \<Longrightarrow> lg_stateCache L k = Some v"
  shows "ledger_ok env (L\<lparr>lg_stateCache := sc\<rparr>)"
  using assms by (simp add: ledger_ok_def lview_def bview_def)

lemma SetState_put:
  assumes "ledger_ok env L" "contract_chain c"
  shows "put_at env L (KState c key) (Some v) (snd (ss_SetState env c key v L))"
proof -
  let ?k = "state_key c key"
  let ?sc = "cache_set (le_evS env) ?k v (lg_stateCache L)"
  let ?L0 = "L\<lparr>lg_stateCache := ?sc(?k := None)\<rparr>"
  have ok0: "ledger_ok env ?L0" by (rule stateCache_drop [OF assms(1)]) (auto simp: cache_set_def split: if_splits)
  have put: "put_at env L (KState c key) (Some v) (raw_put (KState c key) (Some v) ?L0)"
    using raw_put_ok [OF ok0, of "KState c key" "Some v"] assms(2) by auto
  have eq: "snd (ss_SetState env c key v L) = (raw_put (KState c key) (Some v) ?L0)\<lparr>lg_stateCache := ?sc\<rparr>"
    using assms(1) db_put_raw [of env L "KState c key" v]
    by (simp add: ss_SetState_def Let_def db_put_def on_store_def raw_put_def ledger_ok_def kv_simps)
  have "ledger_ok env ((raw_put (KState c key) (Some v) ?L0)\<lparr>lg_stateCache := ?sc\<rparr>)"
  proof -
    let ?R = "raw_put (KState c key) (Some v) ?L0"
    have R: "ledger_ok env ?R" "lview ?R (KState c key) = Some v" using put assms(2) by (auto simp: put_at_def)
    have "\<exists>c x. k = state_key c x \<and> contract_chain c \<and> lview ?R (KState c x) = Some w" if "?sc k = Some w" for k w
    proof (cases "k = ?k")
      case True
      then show ?thesis using that R(2) assms(2) by (auto simp: cache_set_def split: if_splits)
    next
      case False
      have "\<forall>k v. lg_stateCache ?R k = Some v \<longrightarrow> (\<exists>c x. k = state_key c x \<and> contract_chain c \<and> lview ?R (KState c x) = Some v)"
        using R(1) unfolding ledger_ok_def by blast
      then show ?thesis using that False by simp
    qed
    then show ?thesis using R(1) by (simp add: ledger_ok_def lview_def bview_def)
  qed
  then show ?thesis using put unfolding eq by (simp add: put_at_def lview_def bview_def)
qed

lemma DeleteState_put:
  assumes "ledger_ok env L" "contract_chain c"
  shows "put_at env L (KState c key) None (snd (ss_DeleteState env c key L))"
proof -
  let ?L0 = "L\<lparr>lg_stateCache := (lg_stateCache L)(state_key c key := None)\<rparr>"
  have ok0: "ledger_ok env ?L0" by (rule stateCache_drop [OF assms(1)]) (auto split: if_splits)
  have "snd (ss_DeleteState env c key L) = raw_put (KState c key) None ?L0"
    using ok0 by (simp add: ss_DeleteState_def Let_def on_store_def raw_put_def ledger_ok_def kv_simps)
  then show ?thesis using raw_put_ok [OF ok0, of "KState c key" None] assms(2) by auto
qed

lemma SetNonce_put:
  assumes "ledger_ok env L"
  shows "put_at env L (KNonce a) (Some (be_uint64 n)) (snd (ns_SetNonce env a n L))"
proof -
  let ?L0 = "L\<lparr>lg_nonceCache := cache_set (le_evN env) (nonce_key a) n (lg_nonceCache L)\<rparr>"
  have "snd (ns_SetNonce env a n L) = raw_put (KNonce a) (Some (be_uint64 n)) ?L0"
    using db_put_raw [of env ?L0 "KNonce a"] assms by (simp add: ns_SetNonce_def Let_def)
  then show ?thesis using raw_put_ok [of env ?L0 "KNonce a" "Some (be_uint64 n)"] assms by simp
qed

lemma SetBlockHeight_put:
  assumes "ledger_ok env L"
  shows "\<exists>L'. SetBlockHeight env h L = (False, L') \<and> put_at env L KHeight (Some (be_uint64 h)) L'"
  using db_put_raw [OF assms, of KHeight] raw_put_ok [OF assms, of KHeight "Some (be_uint64 h)"] by (simp add: SetBlockHeight_def)

lemma index_put:
  assumes "ledger_ok env L"
  shows "\<exists>L'. db_put env (index_key t) d L = (False, L') \<and> put_at env L (KIndex t) (Some d) L'"
  using db_put_raw [OF assms, of "KIndex t"] raw_put_ok [OF assms, of "KIndex t" "Some d"] by (auto simp: image_iff)

lemma SetWrongIndex_put:
  assumes "ledger_ok env L"
  shows "\<exists>L'. SetWrongIndex env t r L = (False, L') \<and> put_at env L (KWrong t) (Some r) L'"
  using db_put_raw [OF assms, of "KWrong t"] raw_put_ok [OF assms, of "KWrong t" "Some r"] by (auto simp: SetWrongIndex_def image_iff)

section \<open>Sequences of writes\<close>

definition put_all :: "(lkey \<times> bytes option) list \<Rightarrow> (lkey \<Rightarrow> bytes option) \<Rightarrow> lkey \<Rightarrow> bytes option" where
  "put_all = fold (\<lambda>(x, v) m. m(x := v))"

definition puts_at :: "ledger_env \<Rightarrow> Ledger \<Rightarrow> (lkey \<times> bytes option) list \<Rightarrow> Ledger \<Rightarrow> bool" where
  "puts_at env L xs L' \<longleftrightarrow> ledger_ok env L' \<and> (\<forall>y. key_ok y \<longrightarrow> lview L' y = put_all xs (lview L) y) \<and> (\<forall>n. small n \<longrightarrow> bview L' n = bview L n) \<and>
     lg_blockCache L' = lg_blockCache L \<and> lg_db L' = lg_db L \<and> lg_blockDB L' = lg_blockDB L"

lemma put_all_simps [simp]: "put_all [] m = m" "put_all ((x, v) # xs) m = put_all xs (m(x := v))" "put_all (xs @ ys) m = put_all ys (put_all xs m)"
  by (simp_all add: put_all_def)

lemma put_all_cong: "(\<And>y. key_ok y \<Longrightarrow> m y = m' y) \<Longrightarrow> key_ok y \<Longrightarrow> put_all xs m y = put_all xs m' y"
proof (induction xs arbitrary: m m')
  case (Cons p xs)
  obtain x v where p: "p = (x, v)" by fastforce
  show ?case unfolding p put_all_simps by (rule Cons.IH) (use Cons.prems in auto)
qed simp

lemma puts_at_refl: "ledger_ok env L \<Longrightarrow> puts_at env L [] L"
  by (simp add: puts_at_def)

lemma puts_at_trans:
  assumes "puts_at env L xs L1" "puts_at env L1 ys L2"
  shows "puts_at env L (xs @ ys) L2"
proof -
  have "lview L2 y = put_all ys (put_all xs (lview L)) y" if "key_ok y" for y
    using assms that put_all_cong [of "lview L1" "put_all xs (lview L)" y ys] by (simp add: puts_at_def)
  then show ?thesis using assms by (simp add: puts_at_def)
qed

lemma put_at_puts: "put_at env L x v L' \<Longrightarrow> puts_at env L [(x, v)] L'"
  by (simp add: put_at_def puts_at_def)

lemma puts_at_ok: "puts_at env L xs L' \<Longrightarrow> ledger_ok env L'"
  by (simp add: puts_at_def)

lemma puts_at_fold:
  assumes "ledger_ok env L" "\<And>v L. v \<in> set vs \<Longrightarrow> ledger_ok env L \<Longrightarrow> put_at env L (fst (g v)) (snd (g v)) (f v L)"
  shows "puts_at env L (map g vs) (fold f vs L)"
  using assms
proof (induction vs arbitrary: L)
  case (Cons v vs)
  have 1: "puts_at env L [g v] (f v L)" using put_at_puts [OF Cons.prems(2) [of v L]] Cons.prems(1) by simp
  have 2: "puts_at env (f v L) (map g vs) (fold f vs (f v L))" using Cons.IH [of "f v L"] puts_at_ok [OF 1] Cons.prems(2) by simp
  show ?case using puts_at_trans [OF 1 2] by simp
qed (simp add: puts_at_refl)

definition item_put :: "StateItem \<Rightarrow> lkey \<times> bytes option" where
  "item_put v = (KState (si_ChainID v) (si_Key v), if si_State v = StDeleted then None else Some (si_Value v))"

lemma write_items_puts:
  assumes "ledger_ok env L" "\<forall>v \<in> set items. contract_chain (si_ChainID v)"
  shows "puts_at env L (map item_put items) (fold (write_item env) items L)"
proof (rule puts_at_fold [OF assms(1)])
  fix v L assume "v \<in> set items" "ledger_ok env L"
  then show "put_at env L (fst (item_put v)) (snd (item_put v)) (write_item env v L)"
    using assms(2) SetState_put [of env L "si_ChainID v" "si_Key v" "si_Value v"] DeleteState_put [of env L "si_ChainID v" "si_Key v"]
    by (simp add: item_put_def write_item_def)
qed

definition nonce_put :: "NonceItem \<Rightarrow> lkey \<times> bytes option" where
  "nonce_put v = (KNonce (ni_Key v), Some (be_uint64 (ni_Nonce v)))"

lemma nonces_puts:
  assumes "ledger_ok env L"
  shows "puts_at env L (map nonce_put nonces) (fold (\<lambda>v L. snd (ns_SetNonce env (ni_Key v) (ni_Nonce v) L)) nonces L)"
  by (rule puts_at_fold [OF assms]) (simp add: nonce_put_def SetNonce_put)

definition index_put_of :: "ledger_env \<Rightarrow> u64 \<Rightarrow> nat \<times> transaction \<Rightarrow> lkey \<times> bytes option" where
  "index_put_of env h = (\<lambda>(i, tx). (KIndex (tx_Txid tx), Some (le_encIndex env \<lparr> is_BlockNum = h, is_Offset = of_nat i \<rparr>)))"

lemma index_txs_puts:
  assumes "ledger_ok env L"
  shows "\<exists>L'. index_txs env h i txs L = (False, L') \<and> puts_at env L (map (index_put_of env h) (enumerate i txs)) L'"
  using assms
proof (induction txs arbitrary: i L)
  case (Cons tx txs)
  obtain L1 where L1: "db_put env (index_key (tx_Txid tx)) (le_encIndex env \<lparr> is_BlockNum = h, is_Offset = of_nat i \<rparr>) L = (False, L1)"
      "puts_at env L [index_put_of env h (i, tx)] L1"
    using index_put [OF Cons.prems] put_at_puts by (fastforce simp: index_put_of_def)
  obtain L' where "index_txs env h (Suc i) txs L1 = (False, L')" "puts_at env L1 (map (index_put_of env h) (enumerate (Suc i) txs)) L'"
    using Cons.IH [OF puts_at_ok [OF L1(2)]] by blast
  then show ?case using L1 puts_at_trans [OF L1(2)] by fastforce
qed (simp add: puts_at_refl)

lemma SetHashIndex_puts:
  assumes "ledger_ok env L" "bk_Header block = Some h"
  shows "\<exists>L'. SetHashIndex env block L = Some (False, L') \<and> puts_at env L (map (index_put_of env (hd_BlockNum h)) (enumerate 0 (bk_Txs block))) L'"
  using index_txs_puts [OF assms(1), of "hd_BlockNum h" 0 "bk_Txs block"] assms
  by (cases "bk_Txs block") (auto simp: SetHashIndex_def puts_at_refl)

lemma ledger_ok_stores:
  assumes "ledger_ok env L" "\<And>a. lv_db (st a) = lv_db (lg_stores L a)" "\<And>a. lv_closed (st a) = lv_closed (lg_stores L a)"
    "lv_batch (st (lg_db L)) \<in> {None, Some []}"
  shows "puts_at env L [] (L\<lparr>lg_stores := st\<rparr>)"
  using assms by (simp add: puts_at_def ledger_ok_def lview_def bview_def healthy_def)

lemma new_batch_puts: "ledger_ok env L \<Longrightarrow> puts_at env L [] (new_batch L)"
  unfolding new_batch_def on_store_def lv_NewBatch_def by (simp add: ledger_ok_stores)

lemma batch_commit_puts:
  assumes "ledger_ok env L"
  shows "puts_at env L [] (batch_commit env L)"
proof -
  let ?s = "lg_stores L (lg_db L)"
  have "lv_BatchCommit (le_flt env) ?s = (False, ?s\<lparr>lv_batch := None\<rparr>)"
    using assms by (auto simp: ledger_ok_def kv_simps)
  then have "batch_commit env L = L\<lparr>lg_stores := (lg_stores L)(lg_db L := ?s\<lparr>lv_batch := None\<rparr>)\<rparr>"
    by (simp add: batch_commit_def on_store_def)
  then show ?thesis using ledger_ok_stores [OF assms, of "(lg_stores L)(lg_db L := ?s\<lparr>lv_batch := None\<rparr>)"] by simp
qed

text \<open>Writing a block.\<close>

lemma WriteBlock_ok:
  assumes "ledger_ok env L" "bk_Header block = Some h" "small (hd_BlockNum h)" "le_decBlock env (le_encBlock env block) = Some block"
  shows "\<exists>L'. bs_WriteBlock env block L = Some (False, L') \<and> ledger_ok env L' \<and> (\<forall>y. key_ok y \<longrightarrow> lview L' y = lview L y) \<and>
    (\<forall>n. bview L' n = ((bview L)(hd_BlockNum h \<mapsto> le_encBlock env block)) n)"
proof -
  let ?n = "hd_BlockNum h" and ?s = "lg_stores L (lg_blockDB L)" and ?v = "le_encBlock env block"
  let ?c = "cache_set (le_evB env) ?n block (lg_blockCache L)"
  let ?L = "L\<lparr>lg_blockCache := ?c, lg_stores := (lg_stores L)(lg_blockDB L := ?s\<lparr>lv_db := (lv_db ?s)(be_uint64 ?n \<mapsto> ?v)\<rparr>)\<rparr>"
  have "bs_WriteBlock env block L = Some (False, ?L)"
    using assms(1,2) by (simp add: bs_WriteBlock_def on_store_def ledger_ok_def kv_simps)
  moreover have lv: "lview ?L y = lview L y" if "key_ok y" for y
    using enc_key_not_block [OF that assms(3)] by (simp add: lview_def)
  moreover have bv: "bview ?L n = ((bview L)(?n \<mapsto> ?v)) n" for n by (simp add: bview_def)
  moreover have "ledger_ok env ?L"
    unfolding ledger_ok_def
  proof (intro conjI allI impI)
    show "healthy (le_flt env) (lg_stores ?L (lg_db ?L))" "healthy (le_flt env) (lg_stores ?L (lg_blockDB ?L))"
      "lv_batch (lg_stores ?L (lg_db ?L)) \<in> {None, Some []}"
      using assms(1) by (auto simp: ledger_ok_def)
    fix k v assume k: "lg_stateCache ?L k = Some v"
    have "\<forall>k v. lg_stateCache L k = Some v \<longrightarrow> (\<exists>c x. k = state_key c x \<and> contract_chain c \<and> lview L (KState c x) = Some v)"
      using assms(1) by (simp add: ledger_ok_def)
    then obtain c x where "k = state_key c x" "contract_chain c" "lview L (KState c x) = Some v" using k by fastforce
    then show "\<exists>c x. k = state_key c x \<and> contract_chain c \<and> lview ?L (KState c x) = Some v" using lv [of "KState c x"] by auto
  next
    fix n b assume "lg_blockCache ?L n = Some b"
    then have "n = ?n \<and> b = block \<or> n \<noteq> ?n \<and> lg_blockCache L n = Some b" by (auto simp: cache_set_def split: if_splits)
    then have "small n \<and> bview ?L n = Some (le_encBlock env b) \<and> le_decBlock env (le_encBlock env b) = Some b"
      using assms(1,3,4) bv by (auto simp: ledger_ok_def)
    then show "small n" "bview ?L n = Some (le_encBlock env b)" "le_decBlock env (le_encBlock env b) = Some b" by blast+
  next
    fix b assume "lview ?L KHeight = Some b"
    then show "length b = 8" using assms(1) lv [of KHeight] by (simp add: ledger_ok_def)
  next
    fix a b assume "lview ?L (KNonce a) = Some b"
    then show "length b = 8" using assms(1) lv [of "KNonce a"] by (simp add: ledger_ok_def)
  qed
  ultimately show ?thesis by blast
qed

section \<open>The abstract ledger\<close>

record chain_state =
  ch_height :: u64
  ch_blocks :: "u64 \<rightharpoonup> Block"
  ch_state :: "string \<Rightarrow> bytes \<rightharpoonup> bytes"
  ch_nonce :: "address \<Rightarrow> u64"
  ch_index :: "bytes \<rightharpoonup> indexStore"

definition empty_chain :: chain_state where
  "empty_chain = \<lparr> ch_height = 0, ch_blocks = Map.empty, ch_state = (\<lambda>c. Map.empty), ch_nonce = (\<lambda>a. 0), ch_index = Map.empty \<rparr>"

definition apply_item :: "StateItem \<Rightarrow> (string \<Rightarrow> bytes \<rightharpoonup> bytes) \<Rightarrow> string \<Rightarrow> bytes \<rightharpoonup> bytes" where
  "apply_item v st = st(si_ChainID v := (st (si_ChainID v))(si_Key v := if si_State v = StDeleted then None else Some (si_Value v)))"

definition extend_chain :: "Header \<Rightarrow> Block \<Rightarrow> StateItem list \<Rightarrow> NonceItem list \<Rightarrow> chain_state \<Rightarrow> chain_state" where
  "extend_chain h block items nonces A = A\<lparr> ch_height := hd_BlockNum h + 1, ch_blocks := (ch_blocks A)(hd_BlockNum h \<mapsto> block),
     ch_state := fold apply_item items (ch_state A),
     ch_nonce := fold (\<lambda>v m. m(ni_Key v := ni_Nonce v)) nonces (ch_nonce A),
     ch_index := fold (\<lambda>(i, tx) m. m(tx_Txid tx \<mapsto> \<lparr> is_BlockNum = hd_BlockNum h, is_Offset = of_nat i \<rparr>)) (enumerate 0 (bk_Txs block)) (ch_index A) \<rparr>"

definition chain_write :: "Block \<times> StateItem list \<times> NonceItem list \<Rightarrow> chain_state \<Rightarrow> chain_state" where
  "chain_write w A = (case w of (block, items, nonces) \<Rightarrow> case bk_Header block of None \<Rightarrow> A
     | Some h \<Rightarrow> if hd_BlockNum h = ch_height A then extend_chain h block items nonces A else A)"

text \<open>The ledger read through its interface is the abstract one.\<close>

definition reads_as :: "ledger_env \<Rightarrow> Ledger \<Rightarrow> chain_state \<Rightarrow> bool" where
  "reads_as env L A \<longleftrightarrow> (\<exists>L'. GetBlockHeight env L = Some (Inr (ch_height A), L')) \<and>
     (\<forall>n. small n \<longrightarrow> bs_GetBlock env n L = (case ch_blocks A n of Some b \<Rightarrow> (Some b, False) | None \<Rightarrow> (Some zero_block, True))) \<and>
     (\<forall>c k. contract_chain c \<longrightarrow> GetContractState env c k L = Inr (ch_state A c k)) \<and>
     (\<forall>a. ns_GetNonce env a L = Some (Inr (ch_nonce A a))) \<and> (\<forall>t. FindHashIndex env t L = Inr (ch_index A t))"

text \<open>The same over the contents of the database.\<close>

definition views_as :: "ledger_env \<Rightarrow> Ledger \<Rightarrow> chain_state \<Rightarrow> bool" where
  "views_as env L A \<longleftrightarrow> (case lview L KHeight of None \<Rightarrow> ch_height A = 0 | Some b \<Rightarrow> b = be_uint64 (ch_height A)) \<and>
     (\<forall>n. small n \<longrightarrow> (case ch_blocks A n of None \<Rightarrow> bview L n = None | Some b \<Rightarrow> bview L n = Some (le_encBlock env b) \<and> le_decBlock env (le_encBlock env b) = Some b)) \<and>
     (\<forall>c k. contract_chain c \<longrightarrow> lview L (KState c k) = ch_state A c k) \<and>
     (\<forall>a. (case lview L (KNonce a) of None \<Rightarrow> ch_nonce A a = 0 | Some b \<Rightarrow> b = be_uint64 (ch_nonce A a))) \<and>
     (\<forall>t. lview L (KIndex t) = map_option (le_encIndex env) (ch_index A t))"

lemma views_reads:
  assumes "ledger_ok env L" "views_as env L A" "\<And>x. le_decIndex env (le_encIndex env x) = Some x"
  shows "reads_as env L A"
  unfolding reads_as_def
proof (intro conjI allI impI)
  have h: "db_get env HEIGHTKEY L = Inr (lview L KHeight)" using db_get_view [OF assms(1), of KHeight] by simp
  show "\<exists>L'. GetBlockHeight env L = Some (Inr (ch_height A), L')"
    using assms(2) h by (cases "lview L KHeight") (auto simp: GetBlockHeight_def views_as_def)
  fix n assume n: "small n"
  have b: "lv_Get (le_flt env) (be_uint64 n) (lg_stores L (lg_blockDB L)) = Inr (bview L n)"
    using assms(1) by (simp add: ledger_ok_def bview_def kv_simps)
  show "bs_GetBlock env n L = (case ch_blocks A n of Some b \<Rightarrow> (Some b, False) | None \<Rightarrow> (Some zero_block, True))"
  proof (cases "lg_blockCache L n")
    case None
    then show ?thesis using assms(2) n b by (auto simp: bs_GetBlock_def views_as_def split: option.splits)
  next
    case (Some blk)
    then have "bview L n = Some (le_encBlock env blk)" "le_decBlock env (le_encBlock env blk) = Some blk"
      using assms(1) by (auto simp: ledger_ok_def)
    moreover have "case ch_blocks A n of None \<Rightarrow> bview L n = None | Some b \<Rightarrow> bview L n = Some (le_encBlock env b) \<and> le_decBlock env (le_encBlock env b) = Some b"
      using assms(2) n by (simp add: views_as_def)
    ultimately show ?thesis using Some by (auto simp: bs_GetBlock_def split: option.splits)
  qed
next
  fix c k assume "contract_chain c"
  then show "GetContractState env c k L = Inr (ch_state A c k)"
    using assms(2) ss_GetState_view [OF assms(1)] by (simp add: views_as_def)
next
  fix a
  have "case lview L (KNonce a) of None \<Rightarrow> ch_nonce A a = 0 | Some b \<Rightarrow> b = be_uint64 (ch_nonce A a)" using assms(2) by (simp add: views_as_def)
  then show "ns_GetNonce env a L = Some (Inr (ch_nonce A a))"
    using db_get_view [OF assms(1), of "KNonce a"] by (auto simp: ns_GetNonce_def split: option.splits)
next
  fix t
  show "FindHashIndex env t L = Inr (ch_index A t)"
    using assms(2,3) db_get_view [OF assms(1), of "KIndex t"] by (cases "ch_index A t") (auto simp: FindHashIndex_def views_as_def)
qed

text \<open>Writes of one kind leave the other kinds alone.\<close>

lemma put_all_state:
  "put_all (map item_put items) m (KState c k) = fold apply_item items (\<lambda>c k. m (KState c k)) c k"
  "\<forall>c k. y \<noteq> KState c k \<Longrightarrow> put_all (map item_put items) m y = m y"
proof -
  show "put_all (map item_put items) m (KState c k) = fold apply_item items (\<lambda>c k. m (KState c k)) c k"
  proof (induction items arbitrary: m)
    case (Cons v items)
    have "(\<lambda>c k. (m(fst (item_put v) := snd (item_put v))) (KState c k)) = apply_item v (\<lambda>c k. m (KState c k))"
      by (auto simp: item_put_def apply_item_def fun_eq_iff)
    then show ?case using Cons.IH [of "m(fst (item_put v) := snd (item_put v))"] by (simp add: put_all_def case_prod_unfold fun_upd_def)
  qed simp
  show "\<forall>c k. y \<noteq> KState c k \<Longrightarrow> put_all (map item_put items) m y = m y"
    by (induction items arbitrary: m) (auto simp: item_put_def put_all_def)
qed

lemma put_all_nonce:
  "put_all (map nonce_put ns) m (KNonce a) = fold (\<lambda>v f. f(ni_Key v := Some (be_uint64 (ni_Nonce v)))) ns (\<lambda>a. m (KNonce a)) a"
  "\<forall>a. y \<noteq> KNonce a \<Longrightarrow> put_all (map nonce_put ns) m y = m y"
proof -
  show "put_all (map nonce_put ns) m (KNonce a) = fold (\<lambda>v f. f(ni_Key v := Some (be_uint64 (ni_Nonce v)))) ns (\<lambda>a. m (KNonce a)) a"
  proof (induction ns arbitrary: m)
    case (Cons v ns)
    have "(\<lambda>a. (m(KNonce (ni_Key v) := w)) (KNonce a)) = (\<lambda>a. m (KNonce a))(ni_Key v := w)" for w by auto
    then show ?case using Cons.IH by (simp add: put_all_def nonce_put_def)
  qed simp
  show "\<forall>a. y \<noteq> KNonce a \<Longrightarrow> put_all (map nonce_put ns) m y = m y"
    by (induction ns arbitrary: m) (auto simp: nonce_put_def put_all_def)
qed

lemma put_all_index:
  "put_all (map (index_put_of env h) xs) m (KIndex t) =
     fold (\<lambda>(i, tx) f. f(tx_Txid tx := Some (le_encIndex env \<lparr> is_BlockNum = h, is_Offset = of_nat i \<rparr>))) xs (\<lambda>t. m (KIndex t)) t"
  "\<forall>t. y \<noteq> KIndex t \<Longrightarrow> put_all (map (index_put_of env h) xs) m y = m y"
proof -
  show "put_all (map (index_put_of env h) xs) m (KIndex t) =
     fold (\<lambda>(i, tx) f. f(tx_Txid tx := Some (le_encIndex env \<lparr> is_BlockNum = h, is_Offset = of_nat i \<rparr>))) xs (\<lambda>t. m (KIndex t)) t"
  proof (induction xs arbitrary: m)
    case (Cons p xs)
    have "(\<lambda>t. (m(KIndex u := w)) (KIndex t)) = (\<lambda>t. m (KIndex t))(u := w)" for u w by auto
    then show ?case using Cons.IH by (simp add: put_all_def index_put_of_def case_prod_unfold)
  qed simp
  show "\<forall>t. y \<noteq> KIndex t \<Longrightarrow> put_all (map (index_put_of env h) xs) m y = m y"
    by (induction xs arbitrary: m) (auto simp: index_put_of_def put_all_def case_prod_unfold)
qed

lemma fold_map_option:
  "(\<And>a. F a = map_option e (G a)) \<Longrightarrow> fold (\<lambda>(i, tx) f. f(tx_Txid tx := Some (e (g i)))) xs F a = map_option e (fold (\<lambda>(i, tx) f. f(tx_Txid tx := Some (g i))) xs G a)"
proof (induction xs arbitrary: F G)
  case (Cons p xs)
  show ?case unfolding fold_simps comp_apply by (rule Cons.IH) (use Cons.prems in \<open>auto split: prod.splits\<close>)
qed simp

lemma fold_nonces:
  "(\<And>a. case F a of None \<Rightarrow> G a = 0 | Some b \<Rightarrow> b = be_uint64 (G a)) \<Longrightarrow>
   (case fold (\<lambda>v f. f(ni_Key v := Some (be_uint64 (ni_Nonce v)))) ns F a of None \<Rightarrow> fold (\<lambda>v m. m(ni_Key v := ni_Nonce v)) ns G a = 0
    | Some b \<Rightarrow> b = be_uint64 (fold (\<lambda>v m. m(ni_Key v := ni_Nonce v)) ns G a))"
proof (induction ns arbitrary: F G)
  case (Cons v ns)
  show ?case unfolding fold_simps comp_apply
  proof (rule Cons.IH)
    fix a
    show "case (F(ni_Key v := Some (be_uint64 (ni_Nonce v)))) a of None \<Rightarrow> (G(ni_Key v := ni_Nonce v)) a = 0 | Some b \<Rightarrow> b = be_uint64 ((G(ni_Key v := ni_Nonce v)) a)"
      using Cons.prems [of a] by (cases "F a"; cases "a = ni_Key v") auto
  qed
next
  case Nil
  show ?case unfolding fold_simps by (rule Nil.prems)
qed

lemma fold_items_cong: "(\<And>k. F c k = G c k) \<Longrightarrow> fold apply_item items F c k = fold apply_item items G c k"
proof (induction items arbitrary: F G)
  case (Cons v items)
  show ?case unfolding fold_simps comp_apply by (rule Cons.IH) (use Cons.prems in \<open>auto simp: apply_item_def\<close>)
qed simp

lemma extend_views:
  assumes "views_as env L A" "bk_Header block = Some h" "le_decBlock env (le_encBlock env block) = Some block"
    "\<forall>y. key_ok y \<longrightarrow> lview L' y = put_all (map item_put items @ [(KHeight, Some (be_uint64 (hd_BlockNum h + 1)))] @
       map (index_put_of env (hd_BlockNum h)) (enumerate 0 (bk_Txs block)) @ map nonce_put nonces) (lview L) y"
    "\<forall>n. small n \<longrightarrow> bview L' n = ((bview L)(hd_BlockNum h \<mapsto> le_encBlock env block)) n"
  shows "views_as env L' (extend_chain h block items nonces A)"
  unfolding views_as_def
proof (intro conjI allI impI)
  note simps = put_all_state(2) put_all_nonce(2) put_all_index(2)
  show "case lview L' KHeight of None \<Rightarrow> ch_height (extend_chain h block items nonces A) = 0 | Some b \<Rightarrow> b = be_uint64 (ch_height (extend_chain h block items nonces A))"
    using assms(4) by (simp add: simps extend_chain_def)
  fix n assume "small n"
  then show "case ch_blocks (extend_chain h block items nonces A) n of None \<Rightarrow> bview L' n = None
      | Some b \<Rightarrow> bview L' n = Some (le_encBlock env b) \<and> le_decBlock env (le_encBlock env b) = Some b"
    using assms(1,3,5) by (cases "n = hd_BlockNum h"; cases "ch_blocks A n") (auto simp: views_as_def extend_chain_def)
next
  fix c k assume c: "contract_chain c"
  then have "lview L' (KState c k) = fold apply_item items (\<lambda>c k. lview L (KState c k)) c k"
    using assms(4) by (simp add: put_all_state(1) put_all_nonce(2) put_all_index(2))
  also have "\<dots> = fold apply_item items (ch_state A) c k" using assms(1) c by (intro fold_items_cong) (simp add: views_as_def)
  finally show "lview L' (KState c k) = ch_state (extend_chain h block items nonces A) c k" by (simp add: extend_chain_def)
next
  fix a
  have "lview L' (KNonce a) = fold (\<lambda>v f. f(ni_Key v := Some (be_uint64 (ni_Nonce v)))) nonces (\<lambda>a. lview L (KNonce a)) a"
    using assms(4) by (simp add: put_all_nonce(1) put_all_state(2) put_all_index(2))
  moreover have "ch_nonce (extend_chain h block items nonces A) = fold (\<lambda>v m. m(ni_Key v := ni_Nonce v)) nonces (ch_nonce A)" by (simp add: extend_chain_def)
  moreover have "case lview L (KNonce a) of None \<Rightarrow> ch_nonce A a = 0 | Some b \<Rightarrow> b = be_uint64 (ch_nonce A a)" for a using assms(1) by (simp add: views_as_def)
  ultimately show "case lview L' (KNonce a) of None \<Rightarrow> ch_nonce (extend_chain h block items nonces A) a = 0 | Some b \<Rightarrow> b = be_uint64 (ch_nonce (extend_chain h block items nonces A) a)"
    using fold_nonces [where F = "\<lambda>a. lview L (KNonce a)" and G = "ch_nonce A" and ns = nonces and a = a] by (simp cong: option.case_cong)
next
  fix t
  have "lview L' (KIndex t) =
     fold (\<lambda>(i, tx) f. f(tx_Txid tx := Some (le_encIndex env \<lparr> is_BlockNum = hd_BlockNum h, is_Offset = of_nat i \<rparr>))) (enumerate 0 (bk_Txs block)) (\<lambda>t. lview L (KIndex t)) t"
    using assms(4) by (simp add: put_all_index(1) put_all_state(2) put_all_nonce(2))
  then show "lview L' (KIndex t) = map_option (le_encIndex env) (ch_index (extend_chain h block items nonces A) t)"
    using fold_map_option [of "\<lambda>t. lview L (KIndex t)" "le_encIndex env" "ch_index A" "\<lambda>i. \<lparr> is_BlockNum = hd_BlockNum h, is_Offset = of_nat i \<rparr>"] assms(1)
    by (simp add: views_as_def extend_chain_def)
qed

section \<open>Properties\<close>

lemma WriteLedger_step:
  assumes "ledger_ok env L" "views_as env L A" "bk_Header block = Some h" "small (hd_BlockNum h)"
    "le_decBlock env (le_encBlock env block) = Some block" "\<forall>v \<in> set items. contract_chain (si_ChainID v)"
  shows "\<exists>err L'. WriteLedger env block items nonces L = Some (err, L') \<and> err = (if hd_BlockNum h = ch_height A then None else Some HeightInvalid) \<and>
    ledger_ok env L' \<and> views_as env L' (chain_write (block, items, nonces) A)"
proof -
  obtain L0 where L0: "GetBlockHeight env L = Some (Inr (ch_height A), L0)" "L0 = L \<or> (\<exists>x. L0 = L\<lparr>lg_height := x\<rparr>)"
    using assms(2) db_get_view [OF assms(1), of KHeight] by (auto simp: GetBlockHeight_def views_as_def split: option.splits)
  have ok0: "ledger_ok env L0" and v0: "lview L0 = lview L" "bview L0 = bview L" using L0(2) assms(1) by (auto simp: lview_def bview_def fun_eq_iff)
  show ?thesis
  proof (cases "hd_BlockNum h = ch_height A")
    case False
    then have "WriteLedger env block items nonces L = Some (Some HeightInvalid, L0)" using L0(1) assms(3) by (simp add: WriteLedger_def)
    moreover have "views_as env L0 A" using assms(2) unfolding views_as_def v0 .
    ultimately show ?thesis using False ok0 assms(3) by (simp add: chain_write_def)
  next
    case True
    obtain L1 where L1: "puts_at env L0 [] (new_batch L0)" "bs_WriteBlock env block (new_batch L0) = Some (False, L1)" "ledger_ok env L1"
        "\<forall>y. key_ok y \<longrightarrow> lview L1 y = lview (new_batch L0) y" "\<forall>n. bview L1 n = ((bview (new_batch L0))(hd_BlockNum h \<mapsto> le_encBlock env block)) n"
      using new_batch_puts [OF ok0] WriteBlock_ok [OF puts_at_ok [OF new_batch_puts [OF ok0]] assms(3,4,5)] by blast
    let ?L2 = "fold (write_item env) items L1"
    have L2: "puts_at env L1 (map item_put items) ?L2" by (rule write_items_puts [OF L1(3) assms(6)])
    obtain L3 where L3: "SetBlockHeight env (hd_BlockNum h + 1) ?L2 = (False, L3)" "puts_at env ?L2 [(KHeight, Some (be_uint64 (hd_BlockNum h + 1)))] L3"
      using SetBlockHeight_put [OF puts_at_ok [OF L2]] put_at_puts by blast
    obtain L4 where L4: "SetHashIndex env block L3 = Some (False, L4)" "puts_at env L3 (map (index_put_of env (hd_BlockNum h)) (enumerate 0 (bk_Txs block))) L4"
      using SetHashIndex_puts [OF puts_at_ok [OF L3(2)] assms(3)] by blast
    let ?L5 = "fold (\<lambda>v L. snd (ns_SetNonce env (ni_Key v) (ni_Nonce v) L)) nonces L4"
    have L5: "puts_at env L4 (map nonce_put nonces) ?L5" by (rule nonces_puts [OF puts_at_ok [OF L4(2)]])
    let ?xs = "map item_put items @ [(KHeight, Some (be_uint64 (hd_BlockNum h + 1)))] @
       map (index_put_of env (hd_BlockNum h)) (enumerate 0 (bk_Txs block)) @ map nonce_put nonces"
    have all: "puts_at env L1 ?xs (batch_commit env ?L5)"
      using puts_at_trans [OF L2 puts_at_trans [OF L3(2) puts_at_trans [OF L4(2) puts_at_trans [OF L5 batch_commit_puts [OF puts_at_ok [OF L5]]]]]] by simp
    have base: "lview L1 y = lview L y" if "key_ok y" for y using that L1(1,4) v0(1) by (simp add: puts_at_def)
    have "views_as env (batch_commit env ?L5) (extend_chain h block items nonces A)"
    proof (rule extend_views [OF assms(2,3,5)])
      show "\<forall>y. key_ok y \<longrightarrow> lview (batch_commit env ?L5) y = put_all ?xs (lview L) y"
      proof (intro allI impI)
        fix y assume y: "key_ok y"
        then have "lview (batch_commit env ?L5) y = put_all ?xs (lview L1) y" using all unfolding puts_at_def by blast
        also have "\<dots> = put_all ?xs (lview L) y" by (rule put_all_cong [OF base y])
        finally show "lview (batch_commit env ?L5) y = put_all ?xs (lview L) y" .
      qed
      show "\<forall>n. small n \<longrightarrow> bview (batch_commit env ?L5) n = ((bview L)(hd_BlockNum h \<mapsto> le_encBlock env block)) n"
        using all L1(1,5) v0(2) by (simp add: puts_at_def)
    qed
    moreover have "WriteLedger env block items nonces L = Some (None, batch_commit env ?L5)"
      using L0(1) assms(3) True L1(2) L3(1) L4(1) by (simp add: WriteLedger_def)
    ultimately show ?thesis using True puts_at_ok [OF all] assms(3) by (simp add: chain_write_def)
  qed
qed

fun run_writes :: "ledger_env \<Rightarrow> (Block \<times> StateItem list \<times> NonceItem list) list \<Rightarrow> Ledger \<Rightarrow> Ledger option" where
  "run_writes env ws L = for_each (\<lambda>(block, items, nonces) L. map_option snd (WriteLedger env block items nonces L)) ws L"

fun write_ok :: "ledger_env \<Rightarrow> Block \<times> StateItem list \<times> NonceItem list \<Rightarrow> bool" where
  "write_ok env (block, items, nonces) \<longleftrightarrow> (\<exists>h. bk_Header block = Some h \<and> small (hd_BlockNum h)) \<and>
     le_decBlock env (le_encBlock env block) = Some block \<and> (\<forall>v \<in> set items. contract_chain (si_ChainID v))"

lemma run_writes_ok:
  assumes "ledger_ok env L" "views_as env L A" "\<forall>w \<in> set ws. write_ok env w"
  shows "\<exists>L'. run_writes env ws L = Some L' \<and> ledger_ok env L' \<and> views_as env L' (fold chain_write ws A)"
  using assms
proof (induction ws arbitrary: L A)
  case (Cons w ws)
  obtain block items nonces where w: "w = (block, items, nonces)" by (cases w)
  obtain h where "bk_Header block = Some h" "small (hd_BlockNum h)" using Cons.prems(3) w by auto
  then obtain err L1 where "WriteLedger env block items nonces L = Some (err, L1)" "ledger_ok env L1" "views_as env L1 (chain_write w A)"
    using WriteLedger_step [OF Cons.prems(1,2), of block h items nonces] Cons.prems(3) w by auto
  then show ?case using Cons.IH [of L1 "chain_write w A"] Cons.prems(3) w by simp
qed simp

text \<open>Claim C24.  Whatever blocks are offered to a new ledger, in whatever order, with a database that does not fail and with caches that evict what they
  like, the ledger read back through its interface (height, blocks, contract state, nonces, transaction index) is the chain built from the blocks that came
  at the next height, each applied in full and the others ignored.\<close>

theorem ledger_refines_chain:
  assumes "\<forall>opn d. le_flt env opn d = None" "\<forall>x. le_decIndex env (le_encIndex env x) = Some x" "\<forall>w \<in> set ws. write_ok env w"
  shows "\<exists>L. run_writes env ws (InitLedger db blockDB (\<lambda>_. lv_open)) = Some L \<and> reads_as env L (fold chain_write ws empty_chain)"
proof -
  let ?L = "InitLedger db blockDB (\<lambda>_. lv_open)"
  have "ledger_ok env ?L" "views_as env ?L empty_chain"
    using assms(1) by (simp_all add: InitLedger_def lv_open_def ledger_ok_def healthy_def lview_def bview_def views_as_def empty_chain_def)
  then show ?thesis using run_writes_ok [of env ?L empty_chain ws] views_reads assms(2,3) by blast
qed

text \<open>A ledger over one database, with caches that keep nothing and an index written as two numbers.\<close>

definition sample_header :: "u64 \<Rightarrow> Header" where
  "sample_header n = \<lparr> hd_BlockNum = n, hd_PreviousHash = [], hd_CreateTime = 0, hd_SenderId = [], hd_ConsArgs = [], hd_Ext = [], hd_TxsHash = [], hd_StateHash = [] \<rparr>"

definition sample_block :: "u64 \<Rightarrow> Block" where
  "sample_block n = \<lparr> bk_Header = Some (sample_header n), bk_Txs = [NewTransaction] \<rparr>"

definition sample_env :: ledger_env where
  "sample_env = \<lparr> le_flt = (\<lambda>_ _. None), le_evS = (\<lambda>_ _. {}), le_evB = (\<lambda>_ k. {k}), le_evN = (\<lambda>_ _. {}),
     le_encBlock = (\<lambda>b. case bk_Header b of None \<Rightarrow> [] | Some h \<Rightarrow> be_uint64 (hd_BlockNum h)), le_decBlock = (\<lambda>d. map_option sample_block (be_read64 d)),
     le_encIndex = (\<lambda>x. be_uint64 (is_BlockNum x) @ be_uint64 (ucast (is_Offset x))),
     le_decIndex = (\<lambda>d. case (be_read64 d, be_read64 (drop 8 d)) of (Some n, Some k) \<Rightarrow> Some \<lparr> is_BlockNum = n, is_Offset = ucast k \<rparr> | _ \<Rightarrow> None),
     le_headerHash = (\<lambda>h. Inr []) \<rparr>"

lemma be_read64_append [simp]: "be_read64 (be_uint64 n @ xs) = Some n"
  using be_read64_uint64 [of n] by (simp add: be_read64_def)

lemma ucast_32_64: "ucast (ucast (k :: 32 word) :: u64) = k"
  by (rule bit_word_eqI) (auto simp: bit_simps)

lemma sample_env_ok: "\<forall>opn d. le_flt sample_env opn d = None" "\<forall>x. le_decIndex sample_env (le_encIndex sample_env x) = Some x"
  by (simp_all add: sample_env_def ucast_32_64)

theorem ledger_refines_chain_witness:
  "\<exists>L. run_writes sample_env [(sample_block 0, [], []), (sample_block 5, [], []), (sample_block 1, [], [])] (InitLedger 0 0 (\<lambda>_. lv_open)) = Some L \<and>
     bs_GetBlock sample_env 1 L = (Some (sample_block 1), False) \<and> (\<exists>L'. GetBlockHeight sample_env L = Some (Inr 2, L')) \<and>
     FindHashIndex sample_env (tx_Txid NewTransaction) L = Inr (Some \<lparr> is_BlockNum = 1, is_Offset = 0 \<rparr>)"
proof -
  let ?ws = "[(sample_block 0, [], []), (sample_block 5, [], []), (sample_block 1, [], [])]"
  have "\<forall>w \<in> set ?ws. write_ok sample_env w" by (simp add: sample_env_def sample_block_def sample_header_def small_def)
  then obtain L where L: "run_writes sample_env ?ws (InitLedger 0 0 (\<lambda>_. lv_open)) = Some L" "reads_as sample_env L (fold chain_write ?ws empty_chain)"
    using ledger_refines_chain [OF sample_env_ok, of ?ws 0 0] by blast
  have "fold chain_write ?ws empty_chain = extend_chain (sample_header 1) (sample_block 1) [] [] (extend_chain (sample_header 0) (sample_block 0) [] [] empty_chain)"
    by (simp add: chain_write_def sample_block_def sample_header_def extend_chain_def empty_chain_def)
  then have "ch_height (fold chain_write ?ws empty_chain) = 2" "ch_blocks (fold chain_write ?ws empty_chain) 1 = Some (sample_block 1)"
    "ch_index (fold chain_write ?ws empty_chain) (tx_Txid NewTransaction) = Some \<lparr> is_BlockNum = 1, is_Offset = 0 \<rparr>"
    by (simp_all add: extend_chain_def sample_header_def sample_block_def)
  then show ?thesis using L by (auto simp: reads_as_def small_def)
qed

text \<open>Asking for the transaction at offset \<open>2 ^ 32 - 1\<close> of any block that can be read panics: the number after the offset wraps to zero, and
  the bounds check passes.\<close>

theorem get_transaction_offset_wraps:
  assumes "bs_GetBlock env blkNum L = (Some blk, False)" "length (bk_Txs blk) < 2 ^ 32 - 1"
  shows "GetTransaction env blkNum (- 1) L = None"
proof -
  have "unat (- 1 :: 32 word) = 2 ^ 32 - 1" by (simp add: unsigned_minus_1_eq_mask mask_eq_exp_minus_1)
  then show ?thesis using assms by (simp add: GetTransaction_def)
qed

theorem get_transaction_offset_wraps_witness:
  "\<exists>L. run_writes sample_env [(sample_block 0, [], [])] (InitLedger 0 0 (\<lambda>_. lv_open)) = Some L \<and> GetTransaction sample_env 0 (- 1) L = None"
proof -
  let ?ws = "[(sample_block 0, [], [])]" and ?I = "InitLedger 0 0 (\<lambda>_. lv_open)"
  have "ledger_ok sample_env ?I" "views_as sample_env ?I empty_chain" "\<forall>w \<in> set ?ws. write_ok sample_env w"
    by (simp_all add: sample_env_def sample_block_def sample_header_def small_def InitLedger_def lv_open_def ledger_ok_def healthy_def lview_def bview_def views_as_def empty_chain_def)
  then obtain L where L: "run_writes sample_env ?ws ?I = Some L" "reads_as sample_env L (fold chain_write ?ws empty_chain)"
    using run_writes_ok [of sample_env ?I empty_chain ?ws] views_reads sample_env_ok(2) by blast
  then have "bs_GetBlock sample_env 0 L = (Some (sample_block 0), False)"
    by (simp add: reads_as_def small_def chain_write_def sample_block_def sample_header_def extend_chain_def empty_chain_def)
  then show ?thesis using L(1) get_transaction_offset_wraps [of sample_env 0 L "sample_block 0"] by (auto simp: sample_block_def)
qed

end
