(* ===== verification/Contract_Api.thy ===== *)
theory Contract_Api
  imports Ledger_Inv
begin

text \<open>
  \<open>appMgr/memory_cache.go\<close> and \<open>state.go\<close>: what a contract sees of the state.  Writes go to a cache that lies over the committed state.  A Go map is a
  reference; the caches of all contracts live in one store \<open>mems\<close> and a \<open>contractApi\<close> holds the address of its own, so that a snapshot, which is the
  reference and not a copy, sees the writes that follow it.  The committed state is a parameter \<open>led\<close>, the function \<open>GetContractState\<close> of the ledger.
\<close>

section \<open>Model\<close>

type_synonym mems = "nat \<Rightarrow> (bytes, StateItem) gomap"
type_synonym committed = "string \<Rightarrow> bytes \<Rightarrow> db_error + bytes option"

definition cache_key :: "string \<Rightarrow> bytes \<Rightarrow> bytes" where
  "cache_key chainID key = ascii chainID @ key"

definition sc_Put :: "string \<Rightarrow> bytes \<Rightarrow> bytes \<Rightarrow> (bytes, StateItem) gomap \<Rightarrow> (bytes, StateItem) gomap" where
  "sc_Put chainID key val m = gput m (cache_key chainID key) \<lparr> si_Key = key, si_Value = val, si_State = StChanged, si_ChainID = chainID \<rparr>"

definition sc_Get :: "string \<Rightarrow> bytes \<Rightarrow> (bytes, StateItem) gomap \<Rightarrow> StateItem option" where
  "sc_Get chainID key m = gget m (cache_key chainID key)"

definition sc_Delete :: "string \<Rightarrow> bytes \<Rightarrow> (bytes, StateItem) gomap \<Rightarrow> (bytes, StateItem) gomap" where
  "sc_Delete chainID key m = (case gget m (cache_key chainID key) of
     Some v \<Rightarrow> gput m (cache_key chainID key) (v\<lparr>si_State := StDeleted\<rparr>)
   | None \<Rightarrow> gput m (cache_key chainID key) \<lparr> si_Key = key, si_Value = [], si_State = StDeleted, si_ChainID = chainID \<rparr>)"

definition sc_Find :: "(bytes list \<Rightarrow> bytes list) \<Rightarrow> (bytes, StateItem) gomap \<Rightarrow> StateItem list" where
  "sc_Find rng m = map (\<lambda>k. the (gget m k)) (gkeys rng m)"

record contractApi =
  ca_args :: bytes
  ca_memory :: nat
  ca_chainID :: string
  ca_from :: address

text \<open>A new cache is an empty map at an address that is not in use.\<close>

definition GetContractApi :: "string \<Rightarrow> nat \<Rightarrow> mems \<Rightarrow> contractApi \<times> mems" where
  "GetContractApi chainID new w = (\<lparr> ca_args = [], ca_memory = new, ca_chainID = chainID, ca_from = replicate 20 0 \<rparr>, w(new := []))"

definition GetSnapshot :: "contractApi \<Rightarrow> nat" where
  "GetSnapshot s = ca_memory s"

definition SnapshotRestore :: "nat \<Rightarrow> contractApi \<Rightarrow> contractApi" where
  "SnapshotRestore si s = s\<lparr>ca_memory := si\<rparr>"

definition isDelState :: "contractApi \<Rightarrow> string \<Rightarrow> bytes \<Rightarrow> mems \<Rightarrow> bool" where
  "isDelState s chainID key w = (case sc_Get chainID key (w (ca_memory s)) of None \<Rightarrow> False | Some v \<Rightarrow> si_State v = StDeleted)"

definition GetOtherState :: "committed \<Rightarrow> contractApi \<Rightarrow> string \<Rightarrow> bytes \<Rightarrow> mems \<Rightarrow> db_error + bytes option" where
  "GetOtherState led s chainID key w = (if isDelState s chainID key w then Inr None
     else (case sc_Get chainID key (w (ca_memory s)) of None \<Rightarrow> led chainID key | Some v \<Rightarrow> Inr (Some (si_Value v))))"

definition PutOtherState :: "contractApi \<Rightarrow> string \<Rightarrow> bytes \<Rightarrow> bytes \<Rightarrow> mems \<Rightarrow> mems" where
  "PutOtherState s chainID key val w = w(ca_memory s := sc_Put chainID key val (w (ca_memory s)))"

definition GetState :: "committed \<Rightarrow> contractApi \<Rightarrow> bytes \<Rightarrow> mems \<Rightarrow> db_error + bytes option" where
  "GetState led s key w = GetOtherState led s (ca_chainID s) key w"

definition PutState :: "contractApi \<Rightarrow> bytes \<Rightarrow> bytes \<Rightarrow> mems \<Rightarrow> mems" where
  "PutState s key val w = w(ca_memory s := sc_Put (ca_chainID s) key val (w (ca_memory s)))"

definition DelState :: "contractApi \<Rightarrow> bytes \<Rightarrow> mems \<Rightarrow> mems" where
  "DelState s key w = w(ca_memory s := sc_Delete (ca_chainID s) key (w (ca_memory s)))"

definition GetAllState :: "(bytes list \<Rightarrow> bytes list) \<Rightarrow> contractApi \<Rightarrow> mems \<Rightarrow> StateItem list" where
  "GetAllState rng s w = sc_Find rng (w (ca_memory s))"

definition api_Merge :: "contractApi \<Rightarrow> StateItem list \<Rightarrow> mems \<Rightarrow> mems" where
  "api_Merge s src w = fold (\<lambda>v w. case si_State v of
     StChanged \<Rightarrow> PutOtherState s (si_ChainID v) (si_Key v) (si_Value v) w | StDeleted \<Rightarrow> DelState s (si_Key v) w | StNone \<Rightarrow> w) src w"

section \<open>The view of a contract\<close>

definition reliable :: "committed \<Rightarrow> bool" where
  "reliable led \<longleftrightarrow> (\<forall>c k. \<exists>v. led c k = Inr v)"

definition api_view :: "committed \<Rightarrow> contractApi \<Rightarrow> string \<Rightarrow> mems \<Rightarrow> bytes \<Rightarrow> bytes option" where
  "api_view led s c w key = (case GetOtherState led s c key w of Inr v \<Rightarrow> v | Inl e \<Rightarrow> None)"

lemma cache_key_inj: "contract_chain c \<Longrightarrow> contract_chain c' \<Longrightarrow> cache_key c k = cache_key c' k' \<longleftrightarrow> c = c' \<and> k = k'"
  by (auto simp: cache_key_def contract_chain_def HGS_def HNB_def ascii_def)

lemma GetOtherState_view: "reliable led \<Longrightarrow> GetOtherState led s c key w = Inr (api_view led s c w key)"
  unfolding api_view_def GetOtherState_def by (auto simp: reliable_def split: option.splits sum.splits) (metis Inr_Inl_False)

lemma GetState_view: "reliable led \<Longrightarrow> GetState led s key w = Inr (api_view led s (ca_chainID s) w key)"
  by (simp add: GetState_def GetOtherState_view)

lemma api_view_PutOther:
  assumes "contract_chain c" "contract_chain c'"
  shows "api_view led s c (PutOtherState s c' key v w) = (if c = c' then (api_view led s c w)(key \<mapsto> v) else api_view led s c w)"
  using assms by (auto simp: api_view_def GetOtherState_def PutOtherState_def isDelState_def sc_Put_def sc_Get_def cache_key_inj fun_eq_iff)

lemma api_view_Del:
  assumes "contract_chain c" "contract_chain (ca_chainID s)"
  shows "api_view led s c (DelState s key w) = (if c = ca_chainID s then (api_view led s c w)(key := None) else api_view led s c w)"
  using assms by (auto simp: api_view_def GetOtherState_def DelState_def isDelState_def sc_Delete_def sc_Get_def cache_key_inj fun_eq_iff split: option.splits)

lemma PutState_Other: "PutState s key v = PutOtherState s (ca_chainID s) key v"
  by (simp add: PutState_def PutOtherState_def fun_eq_iff)

lemma api_view_from [simp]: "api_view led (s\<lparr>ca_from := a\<rparr>) = api_view led s" "api_view led (s\<lparr>ca_args := b\<rparr>) = api_view led s"
  by (simp_all add: api_view_def GetOtherState_def isDelState_def fun_eq_iff)

text \<open>Restoring a snapshot changes nothing, whatever was written in between.\<close>

lemma restore_is_noop: "SnapshotRestore (GetSnapshot s) s = s"
  by (simp add: SnapshotRestore_def GetSnapshot_def)

section \<open>Balances\<close>

text \<open>Moving an amount keeps the sum of the accounts in 64-bit arithmetic.\<close>

lemma sum_transfer_mod:
  fixes f :: "'k \<Rightarrow> int"
  assumes "finite A" "a \<in> A" "b \<in> A" "a \<noteq> b"
  shows "(\<Sum>x\<in>A. (f(a := int64 (f a - n), b := int64 (f b + n))) x) mod 2 ^ 64 = (\<Sum>x\<in>A. f x) mod 2 ^ 64"
proof -
  let ?g = "f(a := int64 (f a - n), b := int64 (f b + n))"
  have split: "(\<Sum>x\<in>A. g x) = g a + g b + (\<Sum>x\<in>A - {a} - {b}. g x)" for g :: "'k \<Rightarrow> int"
    using assms by (simp add: sum.remove [of A a] sum.remove [of "A - {a}" b])
  have "(\<Sum>x\<in>A - {a} - {b}. ?g x) = (\<Sum>x\<in>A - {a} - {b}. f x)" by (rule sum.cong) auto
  then have "(\<Sum>x\<in>A. ?g x) = int64 (f a - n) + int64 (f b + n) + (\<Sum>x\<in>A - {a} - {b}. f x)" using split [of ?g] assms(4) by simp
  moreover have "(\<Sum>x\<in>A. f x) = (f a - n) + (f b + n) + (\<Sum>x\<in>A - {a} - {b}. f x)" using split [of f] by simp
  ultimately show ?thesis using mod_add_cong [OF mod_add_cong [OF int64_mod int64_mod] refl] by simp
qed

text \<open>The interface the token contracts use: numbers kept under keys.\<close>

locale token_book =
  fixes bal :: "'s \<Rightarrow> 'k \<Rightarrow> int" and setb :: "'k \<Rightarrow> int \<Rightarrow> 's \<Rightarrow> 's"
  assumes bal_set: "in_int64 v \<Longrightarrow> bal (setb k v s) k' = (if k' = k then v else bal s k')"
begin

lemma set_two: "in_int64 u \<Longrightarrow> in_int64 v \<Longrightarrow> bal (setb b v (setb a u s)) = (bal s)(a := u, b := v)"
  by (simp add: bal_set fun_eq_iff)

lemma transfer_sum_mod:
  assumes "finite A" "a \<in> A" "b \<in> A" "a \<noteq> b"
  shows "(\<Sum>x\<in>A. bal (setb b (int64 (bal s b + n)) (setb a (int64 (bal s a - n)) s)) x) mod 2 ^ 64 = (\<Sum>x\<in>A. bal s x) mod 2 ^ 64"
  using sum_transfer_mod [OF assms, of "bal s" n] by (simp only: set_two int64_range)

lemma set_sequence:
  assumes "\<forall>(k, v) \<in> set kvs. in_int64 v" "k \<notin> fst ` set kvs"
  shows "bal (fold (\<lambda>(k, v). setb k v) kvs s) k = bal s k"
  using assms by (induction kvs arbitrary: s) (auto simp: bal_set)

end

definition num_of :: "bytes option \<Rightarrow> int" where
  "num_of v = (case v of None \<Rightarrow> 0 | Some b \<Rightarrow> fst (ParseInt b))"

definition api_bal :: "committed \<Rightarrow> contractApi \<Rightarrow> string \<Rightarrow> mems \<Rightarrow> bytes \<Rightarrow> int" where
  "api_bal led s c w key = num_of (api_view led s c w key)"

interpretation hnb_book: token_book "api_bal led s HNB" "\<lambda>k v. PutOtherState s HNB k (FormatInt v)" for led s
  by unfold_locales (auto simp: api_bal_def num_of_def api_view_PutOther contract_chain_def)

interpretation hgs_book: token_book "api_bal led s HGS" "\<lambda>k v. PutOtherState s HGS k (FormatInt v)" for led s
  by unfold_locales (auto simp: api_bal_def num_of_def api_view_PutOther contract_chain_def)

lemma other_chain_bal:
  "api_bal led s HGS (PutOtherState s HNB k v w) = api_bal led s HGS w" "api_bal led s HNB (PutOtherState s HGS k v w) = api_bal led s HNB w"
  by (simp_all add: api_bal_def api_view_PutOther contract_chain_def HGS_def HNB_def fun_eq_iff)

end
