(* ===== verification/Contracts.thy ===== *)
theory Contracts
  imports Contract_Api
begin

text \<open>
  The two token contracts, \<open>contract/hgs/hgs.go\<close> and \<open>contract/hnb/hnb.go\<close> with the votes for witnesses of \<open>contract/hnb/vote.go\<close>.  Amounts are 64-bit
  integers kept as decimal strings.  The JSON decoders and encoders of the payloads and records are parameters in \<open>contract_codec\<close>; \<open>None\<close> from
  a decoder is its error.
\<close>

section \<open>Data\<close>

record SameTx =
  sx_OutputAddr :: bytes
  sx_Amount :: int

record DiffTx =
  dx_OutputAddr :: bytes
  dx_Amount :: int
  dx_InAmount :: int

record HnbTx =
  hx_TxType :: byte
  hx_PayLoad :: bytes

text \<open>Byte slices that the code compares with nil are options.\<close>

record VoteInfo =
  vi_FromAddr :: "bytes option"
  vi_Candidate :: "bytes option"
  vi_VotingPower :: int
  vi_VoteEpoch :: u64

record VoteRecord =
  vr_FromAddr :: bytes
  vr_VotingPower :: int

record PeerInfo =
  pi_VotingPower :: int
  pi_PeerID :: bytes

record contract_codec =
  cc_decTx :: "bytes \<Rightarrow> HnbTx option"
  cc_encTx :: "HnbTx \<Rightarrow> bytes"
  cc_decSame :: "bytes \<Rightarrow> SameTx option"
  cc_decDiff :: "bytes \<Rightarrow> DiffTx option"
  cc_decVote :: "bytes \<Rightarrow> VoteInfo option"
  cc_decVotes :: "bytes \<Rightarrow> (string, int) gomap option"
  cc_encVotes :: "(string, int) gomap \<Rightarrow> bytes"
  cc_decRecords :: "bytes \<Rightarrow> VoteRecord list option"
  cc_encRecords :: "VoteRecord list \<Rightarrow> bytes"
  cc_encPeers :: "bytes list \<Rightarrow> bytes"
  cc_decPeers :: "bytes \<Rightarrow> bytes list option"

definition SAME :: byte where "SAME = 1"
definition DIFF :: byte where "DIFF = 2"
definition POS_VOTE_TRANSCATION :: byte where "POS_VOTE_TRANSCATION = 3"
definition UNFREEZE_TOKEN :: byte where "UNFREEZE_TOKEN = 4"

definition BALANCE :: byte where "BALANCE = 1"
definition VOTESUM :: byte where "VOTESUM = 2"
definition TOKENORDER :: byte where "TOKENORDER = 3"

datatype contract_error = LedgerError | JsonError | ParseError | SameAddress | Insufficient | InputNotExist | VoteParams | VotePowerLower

text \<open>The result of a handler: an error or none, and the caches.\<close>

type_synonym handled = "contract_error option \<times> mems"

section \<open>HGS\<close>

text \<open>The balance of the sender, which has to exist.\<close>

definition hgs_input :: "committed \<Rightarrow> contractApi \<Rightarrow> bytes \<Rightarrow> mems \<Rightarrow> contract_error + int" where
  "hgs_input led ca from w = (case GetState led ca from w of
     Inl e \<Rightarrow> Inl LedgerError | Inr None \<Rightarrow> Inl InputNotExist
   | Inr (Some input) \<Rightarrow> (let (inputAmount, err) = ParseInt input in if err then Inl ParseError else Inr inputAmount))"

definition hgs_CheckSamePro :: "committed \<Rightarrow> contractApi \<Rightarrow> SameTx \<Rightarrow> mems \<Rightarrow> contract_error option" where
  "hgs_CheckSamePro led ca hx w = (let from = Address_GetBytes (ca_from ca) in
     if from = sx_OutputAddr hx then Some SameAddress
     else (case hgs_input led ca from w of Inl e \<Rightarrow> Some e
       | Inr inputAmount \<Rightarrow> if inputAmount < sx_Amount hx then Some Insufficient else None))"

text \<open>The error of parsing the receiver's balance is dropped.\<close>

definition hgs_SamePro :: "committed \<Rightarrow> contractApi \<Rightarrow> SameTx \<Rightarrow> mems \<Rightarrow> handled" where
  "hgs_SamePro led ca hx w = (let from = Address_GetBytes (ca_from ca) in
     if from = sx_OutputAddr hx then (Some SameAddress, w)
     else (case hgs_input led ca from w of Inl e \<Rightarrow> (Some e, w)
       | Inr inputAmount \<Rightarrow>
         if inputAmount < sx_Amount hx then (Some Insufficient, w)
         else (case GetState led ca (sx_OutputAddr hx) w of Inl e \<Rightarrow> (Some LedgerError, w)
           | Inr output \<Rightarrow>
             let bAmount = (case output of None \<Rightarrow> 0 | Some b \<Rightarrow> fst (ParseInt b));
                 a = FormatInt (int64 (inputAmount - sx_Amount hx));
                 b = FormatInt (int64 (bAmount + sx_Amount hx))
             in (None, PutState ca (sx_OutputAddr hx) b (PutState ca from a w)))))"

definition hgs_CheckDiffPro :: "committed \<Rightarrow> contractApi \<Rightarrow> DiffTx \<Rightarrow> mems \<Rightarrow> contract_error option" where
  "hgs_CheckDiffPro led ca hx w = (case hgs_input led ca (Address_GetBytes (ca_from ca)) w of Inl e \<Rightarrow> Some e
     | Inr inputAmount \<Rightarrow> if inputAmount < dx_InAmount hx then Some Insufficient else None)"

definition hgs_DiffPro :: "committed \<Rightarrow> contractApi \<Rightarrow> DiffTx \<Rightarrow> mems \<Rightarrow> handled" where
  "hgs_DiffPro led ca hx w = (let from = Address_GetBytes (ca_from ca) in
     case hgs_input led ca from w of Inl e \<Rightarrow> (Some e, w)
     | Inr inputAmount \<Rightarrow>
       if inputAmount < dx_InAmount hx then (Some Insufficient, w)
       else (case GetOtherState led ca HNB (dx_OutputAddr hx) w of Inl e \<Rightarrow> (Some LedgerError, w)
         | Inr output \<Rightarrow>
           let (bAmount, err) = (case output of None \<Rightarrow> (0, False) | Some b \<Rightarrow> ParseInt b) in
           if err then (Some ParseError, w)
           else let a = FormatInt (int64 (inputAmount - dx_InAmount hx)); b = FormatInt (int64 (bAmount + dx_Amount hx))
             in (None, PutOtherState ca HNB (dx_OutputAddr hx) b (PutState ca from a w))))"

definition hgs_CheckTx :: "contract_codec \<Rightarrow> committed \<Rightarrow> contractApi \<Rightarrow> mems \<Rightarrow> contract_error option" where
  "hgs_CheckTx cc led ca w = (case cc_decTx cc (ca_args ca) of None \<Rightarrow> Some JsonError
     | Some hx \<Rightarrow>
       if hx_TxType hx = SAME then (case cc_decSame cc (hx_PayLoad hx) of None \<Rightarrow> Some JsonError | Some t \<Rightarrow> hgs_CheckSamePro led ca t w)
       else if hx_TxType hx = DIFF then (case cc_decDiff cc (hx_PayLoad hx) of None \<Rightarrow> Some JsonError | Some t \<Rightarrow> hgs_CheckDiffPro led ca t w)
       else None)"

definition hgs_Invoke :: "contract_codec \<Rightarrow> committed \<Rightarrow> contractApi \<Rightarrow> mems \<Rightarrow> handled" where
  "hgs_Invoke cc led ca w = (case cc_decTx cc (ca_args ca) of None \<Rightarrow> (Some JsonError, w)
     | Some hx \<Rightarrow>
       if hx_TxType hx = SAME then (case cc_decSame cc (hx_PayLoad hx) of None \<Rightarrow> (Some JsonError, w) | Some t \<Rightarrow> hgs_SamePro led ca t w)
       else if hx_TxType hx = DIFF then (case cc_decDiff cc (hx_PayLoad hx) of None \<Rightarrow> (Some JsonError, w) | Some t \<Rightarrow> hgs_DiffPro led ca t w)
       else (None, w))"

definition hgs_Query :: "contract_codec \<Rightarrow> committed \<Rightarrow> contractApi \<Rightarrow> mems \<Rightarrow> contract_error + bytes option" where
  "hgs_Query cc led ca w = (case cc_decTx cc (ca_args ca) of None \<Rightarrow> Inl JsonError
     | Some qh \<Rightarrow> if hx_TxType qh = BALANCE
         then (case GetState led ca (hx_PayLoad qh) w of Inl e \<Rightarrow> Inl LedgerError | Inr v \<Rightarrow> Inr v) else Inr None)"

section \<open>HNB\<close>

definition read_balance :: "db_error + bytes option \<Rightarrow> contract_error + int" where
  "read_balance r = (case r of Inl e \<Rightarrow> Inl LedgerError | Inr None \<Rightarrow> Inr 0
     | Inr (Some input) \<Rightarrow> (let (amount, err) = ParseInt input in if err then Inl ParseError else Inr amount))"

definition SetBalance :: "contractApi \<Rightarrow> bytes \<Rightarrow> int \<Rightarrow> mems \<Rightarrow> mems" where
  "SetBalance ca addr amount w = PutState ca addr (FormatInt amount) w"

definition GetBalance :: "committed \<Rightarrow> contractApi \<Rightarrow> bytes \<Rightarrow> mems \<Rightarrow> contract_error + int" where
  "GetBalance led ca addr w = read_balance (GetState led ca addr w)"

definition SetOtherStateBalance :: "contractApi \<Rightarrow> string \<Rightarrow> bytes \<Rightarrow> int \<Rightarrow> mems \<Rightarrow> mems" where
  "SetOtherStateBalance ca chainID addr amount w = PutOtherState ca chainID addr (FormatInt amount) w"

definition GetOtherStateBalance :: "committed \<Rightarrow> contractApi \<Rightarrow> string \<Rightarrow> bytes \<Rightarrow> mems \<Rightarrow> contract_error + int" where
  "GetOtherStateBalance led ca chainID addr w = read_balance (GetOtherState led ca chainID addr w)"

definition hnb_CheckSamePro :: "committed \<Rightarrow> contractApi \<Rightarrow> SameTx \<Rightarrow> mems \<Rightarrow> contract_error option" where
  "hnb_CheckSamePro led ca hx w = (let from = Address_GetBytes (ca_from ca) in
     if from = sx_OutputAddr hx then Some SameAddress
     else (case GetBalance led ca from w of Inl e \<Rightarrow> Some e
       | Inr inputAmount \<Rightarrow> if inputAmount < sx_Amount hx then Some Insufficient else None))"

definition hnb_CheckDiffPro :: "committed \<Rightarrow> contractApi \<Rightarrow> DiffTx \<Rightarrow> mems \<Rightarrow> contract_error option" where
  "hnb_CheckDiffPro led ca hx w = (case GetBalance led ca (Address_GetBytes (ca_from ca)) w of Inl e \<Rightarrow> Some e
     | Inr inputAmount \<Rightarrow> if inputAmount < dx_InAmount hx then Some Insufficient else None)"

definition hnb_SamePro :: "committed \<Rightarrow> contractApi \<Rightarrow> SameTx \<Rightarrow> mems \<Rightarrow> handled" where
  "hnb_SamePro led ca hx w = (let from = Address_GetBytes (ca_from ca) in
     if from = sx_OutputAddr hx then (Some SameAddress, w)
     else (case GetBalance led ca from w of Inl e \<Rightarrow> (Some e, w)
       | Inr inputAmount \<Rightarrow>
         if inputAmount < sx_Amount hx then (Some Insufficient, w)
         else (case GetBalance led ca (sx_OutputAddr hx) w of Inl e \<Rightarrow> (Some e, w)
           | Inr bAmount \<Rightarrow> (None, SetBalance ca (sx_OutputAddr hx) (int64 (bAmount + sx_Amount hx))
               (SetBalance ca from (int64 (inputAmount - sx_Amount hx)) w)))))"

definition hnb_DiffPro :: "committed \<Rightarrow> contractApi \<Rightarrow> DiffTx \<Rightarrow> mems \<Rightarrow> handled" where
  "hnb_DiffPro led ca hx w = (let from = Address_GetBytes (ca_from ca) in
     case GetBalance led ca from w of Inl e \<Rightarrow> (Some e, w)
     | Inr inputAmount \<Rightarrow>
       if inputAmount < dx_InAmount hx then (Some Insufficient, w)
       else (case GetOtherStateBalance led ca HGS (dx_OutputAddr hx) w of Inl e \<Rightarrow> (Some e, w)
         | Inr bAmount \<Rightarrow> (None, SetOtherStateBalance ca HGS (dx_OutputAddr hx) (int64 (bAmount + dx_Amount hx))
             (SetBalance ca from (int64 (inputAmount - dx_InAmount hx)) w))))"

definition GetEpochKey :: "u64 \<Rightarrow> bytes" where
  "GetEpochKey epoch = ascii ''epoch#'' @ FormatUint epoch"

definition GetEpochRecordKey :: "u64 \<Rightarrow> bytes" where
  "GetEpochRecordKey epoch = ascii ''record_epoch#'' @ FormatUint epoch"

section \<open>Votes for witnesses\<close>

text \<open>The candidates' sums of an epoch; a missing entry is an empty map.\<close>

definition read_votes :: "contract_codec \<Rightarrow> bytes option \<Rightarrow> (string, int) gomap option" where
  "read_votes cc v = (case v of None \<Rightarrow> Some [] | Some d \<Rightarrow> cc_decVotes cc d)"

definition read_records :: "contract_codec \<Rightarrow> bytes option \<Rightarrow> VoteRecord list option" where
  "read_records cc v = (case v of None \<Rightarrow> Some [] | Some d \<Rightarrow> cc_decRecords cc d)"

definition vote_amount :: "(string, int) gomap \<Rightarrow> string \<Rightarrow> int" where
  "vote_amount m key = (case gget m key of None \<Rightarrow> 0 | Some a \<Rightarrow> a)"

text \<open>A failing read of the epoch's entry ends the call without an error.\<close>

definition SaveTokenTotal :: "contract_codec \<Rightarrow> committed \<Rightarrow> contractApi \<Rightarrow> VoteInfo \<Rightarrow> mems \<Rightarrow> handled" where
  "SaveTokenTotal cc led ca vi w = (case (vi_Candidate vi, vi_FromAddr vi) of
     (Some candidate, Some fromAddr) \<Rightarrow>
       if vi_VotingPower vi = 0 \<or> vi_VoteEpoch vi = 0 then (Some VoteParams, w)
       else (case GetState led ca fromAddr w of
           Inl e \<Rightarrow> (Some LedgerError, w)
         | Inr None \<Rightarrow> (Some InputNotExist, w)
         | Inr (Some input) \<Rightarrow> (let (inputAmount, err) = ParseInt input in
             if err then (Some ParseError, w)
             else if inputAmount < vi_VotingPower vi then (Some VotePowerLower, w)
             else (case GetState led ca (GetEpochKey (vi_VoteEpoch vi)) w of
                 Inl e \<Rightarrow> (None, w)
               | Inr voteRecord \<Rightarrow> (case read_votes cc voteRecord of
                   None \<Rightarrow> (Some JsonError, w)
                 | Some voteRecordMap \<Rightarrow>
                   let key = ByteToHex candidate;
                       voteAmount = vote_amount voteRecordMap key;
                       vote = cc_encVotes cc (gput voteRecordMap key (int64 (voteAmount + vi_VotingPower vi)));
                       w1 = PutState ca (GetEpochKey (vi_VoteEpoch vi)) vote w
                   in (None, PutState ca fromAddr (FormatInt (int64 (inputAmount - vi_VotingPower vi))) w1)))))
   | _ \<Rightarrow> (Some VoteParams, w))"

definition SaveTokenFromInfo :: "contract_codec \<Rightarrow> committed \<Rightarrow> contractApi \<Rightarrow> VoteInfo \<Rightarrow> mems \<Rightarrow> handled" where
  "SaveTokenFromInfo cc led ca vi w = (case GetState led ca (GetEpochRecordKey (vi_VoteEpoch vi)) w of
     Inl e \<Rightarrow> (None, w)
   | Inr voteRecord \<Rightarrow> (case read_records cc voteRecord of
       None \<Rightarrow> (Some JsonError, w)
     | Some vrs \<Rightarrow>
       let vr = \<lparr> vr_FromAddr = (case vi_FromAddr vi of None \<Rightarrow> [] | Some a \<Rightarrow> a), vr_VotingPower = vi_VotingPower vi \<rparr> in
       (None, PutState ca (GetEpochRecordKey (vi_VoteEpoch vi)) (cc_encRecords cc (vrs @ [vr])) w)))"

definition VotePro :: "contract_codec \<Rightarrow> committed \<Rightarrow> contractApi \<Rightarrow> VoteInfo \<Rightarrow> mems \<Rightarrow> handled" where
  "VotePro cc led ca vi w = (let (err, w1) = SaveTokenTotal cc led ca vi w in
     if err \<noteq> None then (err, w1) else SaveTokenFromInfo cc led ca vi w1)"

text \<open>
  Sorting by falling power; the sort is not stable and the entries come in map order, so the order of equal entries is the one \<open>rng\<close> gives.
\<close>

definition GetVoteTokenOrder :: "(string list \<Rightarrow> string list) \<Rightarrow> contract_codec \<Rightarrow> committed \<Rightarrow> contractApi \<Rightarrow> u64 \<Rightarrow> mems \<Rightarrow> contract_error + bytes list option" where
  "GetVoteTokenOrder rng cc led ca epochNo w = (case GetState led ca (GetEpochKey epochNo) w of
     Inl e \<Rightarrow> Inr None
   | Inr voteRecord \<Rightarrow> (case read_votes cc voteRecord of None \<Rightarrow> Inl JsonError
     | Some m \<Rightarrow>
       let pis = map (\<lambda>k. \<lparr> pi_VotingPower = the (gget m k), pi_PeerID = HexToByte k \<rparr>) (gkeys rng m)
       in Inr (Some (map pi_PeerID (sort_key (\<lambda>p. - pi_VotingPower p) pis)))))"

definition hnb_GetVoteSum :: "(string list \<Rightarrow> string list) \<Rightarrow> contract_codec \<Rightarrow> committed \<Rightarrow> contractApi \<Rightarrow> u64 \<Rightarrow> mems \<Rightarrow> contract_error + int" where
  "hnb_GetVoteSum rng cc led ca epochNo w = (case GetState led ca (GetEpochKey epochNo) w of
     Inl e \<Rightarrow> Inr 0
   | Inr voteRecord \<Rightarrow> (case read_votes cc voteRecord of None \<Rightarrow> Inl JsonError
     | Some m \<Rightarrow> Inr (fold (\<lambda>k acc. int64 (acc + the (gget m k))) (gkeys rng m) 0)))"

fun unfreeze_loop :: "committed \<Rightarrow> contractApi \<Rightarrow> VoteRecord list \<Rightarrow> mems \<Rightarrow> handled" where
  "unfreeze_loop led ca [] w = (None, w)"
| "unfreeze_loop led ca (v # vrs) w = (case GetBalance led ca (vr_FromAddr v) w of Inl e \<Rightarrow> (Some e, w)
     | Inr amount \<Rightarrow> unfreeze_loop led ca vrs (SetBalance ca (vr_FromAddr v) (int64 (amount + vr_VotingPower v)) w))"

definition UnFreezePro :: "contract_codec \<Rightarrow> committed \<Rightarrow> contractApi \<Rightarrow> u64 \<Rightarrow> mems \<Rightarrow> handled" where
  "UnFreezePro cc led ca epochNo w = (case GetState led ca (GetEpochRecordKey epochNo) w of
     Inl e \<Rightarrow> (None, w)
   | Inr voteRecord \<Rightarrow> (case read_records cc voteRecord of None \<Rightarrow> (Some JsonError, w)
     | Some vrs \<Rightarrow> (let (err, w1) = unfreeze_loop led ca vrs w in
         if err \<noteq> None then (err, w1)
         else (None, DelState ca (GetEpochKey epochNo) (DelState ca (GetEpochRecordKey epochNo) w1)))))"

section \<open>Handlers of HNB\<close>

definition genesis_user :: bytes where
  "genesis_user = HexToByte ''68175250cadc6f2524f55e891e244116fec4b690''"

definition InstallContract :: "contractApi \<Rightarrow> mems \<Rightarrow> mems" where
  "InstallContract ca w = PutState ca genesis_user (FormatInt 10000000) w"

definition hnb_Invoke :: "contract_codec \<Rightarrow> committed \<Rightarrow> contractApi \<Rightarrow> mems \<Rightarrow> handled" where
  "hnb_Invoke cc led ca w = (case cc_decTx cc (ca_args ca) of None \<Rightarrow> (Some JsonError, w)
     | Some hx \<Rightarrow>
       if hx_TxType hx = SAME then (case cc_decSame cc (hx_PayLoad hx) of None \<Rightarrow> (Some JsonError, w) | Some t \<Rightarrow> hnb_SamePro led ca t w)
       else if hx_TxType hx = DIFF then (case cc_decDiff cc (hx_PayLoad hx) of None \<Rightarrow> (Some JsonError, w) | Some t \<Rightarrow> hnb_DiffPro led ca t w)
       else if hx_TxType hx = POS_VOTE_TRANSCATION then
         (case cc_decVote cc (hx_PayLoad hx) of None \<Rightarrow> (Some JsonError, w) | Some v \<Rightarrow> VotePro cc led ca v w)
       else if hx_TxType hx = UNFREEZE_TOKEN then
         (let (epochNo, err) = ParseUint (hx_PayLoad hx) in if err then (Some ParseError, w) else UnFreezePro cc led ca epochNo w)
       else (None, w))"

text \<open>Votes are not checked; checking an unfreezing carries it out on the caller's cache.\<close>

definition hnb_CheckTx :: "contract_codec \<Rightarrow> committed \<Rightarrow> contractApi \<Rightarrow> mems \<Rightarrow> handled" where
  "hnb_CheckTx cc led ca w = (case cc_decTx cc (ca_args ca) of None \<Rightarrow> (Some JsonError, w)
     | Some hx \<Rightarrow>
       if hx_TxType hx = SAME then (case cc_decSame cc (hx_PayLoad hx) of None \<Rightarrow> (Some JsonError, w) | Some t \<Rightarrow> (hnb_CheckSamePro led ca t w, w))
       else if hx_TxType hx = DIFF then (case cc_decDiff cc (hx_PayLoad hx) of None \<Rightarrow> (Some JsonError, w) | Some t \<Rightarrow> (hnb_CheckDiffPro led ca t w, w))
       else if hx_TxType hx = POS_VOTE_TRANSCATION then (None, w)
       else if hx_TxType hx = UNFREEZE_TOKEN then
         (let (epochNo, err) = ParseUint (hx_PayLoad hx) in if err then (Some ParseError, w) else UnFreezePro cc led ca epochNo w)
       else (None, w))"

text \<open>The bytes a query returns, with nil for none.\<close>

definition hnb_Query :: "(string list \<Rightarrow> string list) \<Rightarrow> contract_codec \<Rightarrow> committed \<Rightarrow> contractApi \<Rightarrow> mems \<Rightarrow> contract_error + bytes option" where
  "hnb_Query rng cc led ca w = (case cc_decTx cc (ca_args ca) of None \<Rightarrow> Inl JsonError
     | Some qh \<Rightarrow>
       if hx_TxType qh = BALANCE then (case GetState led ca (hx_PayLoad qh) w of Inl e \<Rightarrow> Inl LedgerError | Inr v \<Rightarrow> Inr v)
       else if hx_TxType qh = VOTESUM then
         (let (epochNo, err) = ParseUint (hx_PayLoad qh) in
          if err then Inl ParseError
          else (case hnb_GetVoteSum rng cc led ca epochNo w of Inl e \<Rightarrow> Inl e | Inr s \<Rightarrow> Inr (Some (FormatInt s))))
       else if hx_TxType qh = TOKENORDER then
         (let (epochNo, err) = ParseUint (hx_PayLoad qh) in
          if err then Inl ParseError
          else (case GetVoteTokenOrder rng cc led ca epochNo w of Inl e \<Rightarrow> Inl e
            | Inr None \<Rightarrow> Inr (Some (ascii ''null'')) | Inr (Some ps) \<Rightarrow> Inr (Some (cc_encPeers cc ps))))
       else Inr None)"

end
