(* ===== verification/Contracts_Inv.thy ===== *)
theory Contracts_Inv
  imports Contracts "HOL-Library.Countable"
begin

text \<open>
  What the token contracts guarantee: transfers move an amount between two accounts and keep the supply, a failed handler writes nothing, and unfreezing an epoch
  gives back exactly what its votes had frozen.  Two properties record what the missing checks allow.
\<close>

section \<open>Transfers\<close>

lemma GetBalance_bal:
  assumes "reliable led" "GetBalance led ca a w = Inr v"
  shows "v = api_bal led ca (ca_chainID ca) w a"
  using assms by (auto simp: GetBalance_def read_balance_def GetState_view api_bal_def num_of_def split: option.splits prod.splits if_splits)

lemma GetOtherStateBalance_bal:
  assumes "reliable led" "GetOtherStateBalance led ca c a w = Inr v"
  shows "v = api_bal led ca c w a"
  using assms by (auto simp: GetOtherStateBalance_def read_balance_def GetOtherState_view api_bal_def num_of_def split: option.splits prod.splits if_splits)

lemma hgs_input_bal:
  assumes "reliable led" "hgs_input led ca a w = Inr v"
  shows "v = api_bal led ca (ca_chainID ca) w a"
  using assms by (auto simp: hgs_input_def GetState_view api_bal_def num_of_def split: option.splits prod.splits if_splits)

text \<open>The successful outcome of a transfer within one chain.\<close>

definition moved :: "committed \<Rightarrow> contractApi \<Rightarrow> string \<Rightarrow> mems \<Rightarrow> bytes \<Rightarrow> bytes \<Rightarrow> int \<Rightarrow> mems \<Rightarrow> bool" where
  "moved led ca c w a b n w' \<longleftrightarrow> a \<noteq> b \<and> n \<le> api_bal led ca c w a \<and>
     api_bal led ca c w' = (api_bal led ca c w)(a := int64 (api_bal led ca c w a - n), b := int64 (api_bal led ca c w b + n))"

lemma hnb_SamePro_moved:
  assumes "reliable led" "ca_chainID ca = HNB" "hnb_SamePro led ca hx w = (err, w')"
  shows "if err = None then moved led ca HNB w (Address_GetBytes (ca_from ca)) (sx_OutputAddr hx) (sx_Amount hx) w' \<and> api_bal led ca HGS w' = api_bal led ca HGS w
         else w' = w"
proof -
  let ?a = "Address_GetBytes (ca_from ca)" and ?b = "sx_OutputAddr hx" and ?n = "sx_Amount hx"
  let ?put = "\<lambda>k v. PutOtherState ca HNB k (FormatInt v)"
  have "err \<noteq> None \<and> w' = w \<or> err = None \<and> ?a \<noteq> ?b \<and> ?n \<le> api_bal led ca HNB w ?a \<and>
      w' = ?put ?b (int64 (api_bal led ca HNB w ?b + ?n)) (?put ?a (int64 (api_bal led ca HNB w ?a - ?n)) w)"
    using assms(3) GetBalance_bal [OF assms(1), of ca] assms(2)
    by (auto simp: hnb_SamePro_def Let_def SetBalance_def PutState_Other split: if_splits sum.splits)
  then show ?thesis by (auto simp: moved_def hnb_book.set_two other_chain_bal)
qed

lemma hgs_SamePro_moved:
  assumes "reliable led" "ca_chainID ca = HGS" "hgs_SamePro led ca hx w = (err, w')"
  shows "if err = None then moved led ca HGS w (Address_GetBytes (ca_from ca)) (sx_OutputAddr hx) (sx_Amount hx) w' \<and> api_bal led ca HNB w' = api_bal led ca HNB w
         else w' = w"
proof -
  let ?a = "Address_GetBytes (ca_from ca)" and ?b = "sx_OutputAddr hx" and ?n = "sx_Amount hx"
  let ?put = "\<lambda>k v. PutOtherState ca HGS k (FormatInt v)"
  have out: "(case api_view led ca HGS w ?b of None \<Rightarrow> 0 | Some b \<Rightarrow> fst (ParseInt b)) = api_bal led ca HGS w ?b"
    by (simp add: api_bal_def num_of_def)
  have "err \<noteq> None \<and> w' = w \<or> err = None \<and> ?a \<noteq> ?b \<and> ?n \<le> api_bal led ca HGS w ?a \<and>
      w' = ?put ?b (int64 (api_bal led ca HGS w ?b + ?n)) (?put ?a (int64 (api_bal led ca HGS w ?a - ?n)) w)"
    using assms(3) hgs_input_bal [OF assms(1), of ca] assms(2) GetState_view [OF assms(1), of ca]
    by (auto simp: hgs_SamePro_def Let_def out PutState_Other split: if_splits sum.splits)
  then show ?thesis by (auto simp: moved_def hgs_book.set_two other_chain_bal)
qed

text \<open>A move keeps the total of any set of accounts around it.\<close>

lemma moved_sum:
  assumes "moved led ca c w a b n w'" "finite A" "a \<in> A" "b \<in> A"
  shows "(\<Sum>x\<in>A. api_bal led ca c w' x) mod 2 ^ 64 = (\<Sum>x\<in>A. api_bal led ca c w x) mod 2 ^ 64"
  using assms sum_transfer_mod [OF assms(2-4), of "api_bal led ca c w" n] by (simp add: moved_def)

lemma moved_exact:
  assumes "moved led ca c w a b n w'" "0 \<le> n" "api_bal led ca c w b + n \<le> MaxInt64" "in_int64 (api_bal led ca c w a)" "in_int64 (api_bal led ca c w b)"
    "0 \<le> api_bal led ca c w a"
  shows "api_bal led ca c w' = (api_bal led ca c w)(a := api_bal led ca c w a - n, b := api_bal led ca c w b + n)"
    "0 \<le> api_bal led ca c w' a"
proof -
  have "in_int64 (api_bal led ca c w a - n)" "in_int64 (api_bal led ca c w b + n)" "n \<le> api_bal led ca c w a" "a \<noteq> b"
    using assms by (auto simp: moved_def in_int64_def MinInt64_def MaxInt64_def)
  then show "api_bal led ca c w' = (api_bal led ca c w)(a := api_bal led ca c w a - n, b := api_bal led ca c w b + n)" "0 \<le> api_bal led ca c w' a"
    using assms(1) by (simp_all add: moved_def)
qed

text \<open>Claim C27.  A transfer in either token contract either fails and writes nothing, or moves the amount: only the sender, who has at least that much, and the
  receiver change, the other token is untouched, and the balances of any set of accounts that holds both sum up to the same in 64-bit arithmetic; when the
  amount is not negative and the receiver's balance does not overflow, the sender pays and the receiver gets exactly the amount.\<close>

theorem transfer_conserves_supply:
  assumes "reliable led" "(c, oth, pro) \<in> {(HNB, HGS, hnb_SamePro), (HGS, HNB, hgs_SamePro)}" "ca_chainID ca = c"
    "a = Address_GetBytes (ca_from ca)" "b = sx_OutputAddr hx" "n = sx_Amount hx" "pro led ca hx w = (err, w')"
  shows "if err \<noteq> None then w' = w
    else a \<noteq> b \<and> n \<le> api_bal led ca c w a \<and> (\<forall>x. x \<noteq> a \<longrightarrow> x \<noteq> b \<longrightarrow> api_bal led ca c w' x = api_bal led ca c w x) \<and>
      api_bal led ca oth w' = api_bal led ca oth w \<and>
      (\<forall>A. finite A \<longrightarrow> a \<in> A \<longrightarrow> b \<in> A \<longrightarrow> (\<Sum>x\<in>A. api_bal led ca c w' x) mod 2 ^ 64 = (\<Sum>x\<in>A. api_bal led ca c w x) mod 2 ^ 64) \<and>
      (0 \<le> n \<longrightarrow> 0 \<le> api_bal led ca c w a \<longrightarrow> in_int64 (api_bal led ca c w a) \<longrightarrow> in_int64 (api_bal led ca c w b) \<longrightarrow> api_bal led ca c w b + n \<le> MaxInt64 \<longrightarrow>
        api_bal led ca c w' a = api_bal led ca c w a - n \<and> api_bal led ca c w' b = api_bal led ca c w b + n)"
proof -
  have "if err = None then moved led ca c w a b n w' \<and> api_bal led ca oth w' = api_bal led ca oth w else w' = w"
    using assms hnb_SamePro_moved [OF assms(1), of ca hx w err w'] hgs_SamePro_moved [OF assms(1), of ca hx w err w'] by auto
  then show ?thesis using moved_sum [of led ca c w a b n w'] moved_exact(1) [of led ca c w a b n w'] by (auto simp: moved_def)
qed

definition sample_led :: committed where
  "sample_led c k = Inr (if k = [1] then Some (FormatInt 100) else if length k = 20 then Some (FormatInt 7) else None)"

definition sample_api :: contractApi where
  "sample_api = \<lparr> ca_args = [], ca_memory = 0, ca_chainID = HNB, ca_from = replicate 20 9 \<rparr>"

lemma sample_from [simp]: "replicate 20 9 \<noteq> [1 :: byte]"
  by code_simp

lemma sample_reliable: "reliable sample_led"
  by (simp add: reliable_def sample_led_def)

theorem transfer_conserves_supply_witness:
  "\<exists>w'. hnb_SamePro sample_led sample_api \<lparr> sx_OutputAddr = [1], sx_Amount = 3 \<rparr> (\<lambda>_. []) = (None, w') \<and>
     api_bal sample_led sample_api HNB w' (replicate 20 9) = 4 \<and> api_bal sample_led sample_api HNB w' [1] = 103"
proof -
  let ?hx = "\<lparr> sx_OutputAddr = [1], sx_Amount = 3 \<rparr>" and ?a = "replicate 20 9 :: bytes"
  obtain err w' where r: "hnb_SamePro sample_led sample_api ?hx (\<lambda>_. []) = (err, w')" by fastforce
  have bal: "api_bal sample_led sample_api HNB (\<lambda>_. []) ?a = 7" "api_bal sample_led sample_api HNB (\<lambda>_. []) [1] = 100"
    by (simp_all add: api_bal_def api_view_def GetOtherState_def isDelState_def sc_Get_def sample_led_def num_of_def in_int64_def MinInt64_def MaxInt64_def)
  have "err = None" using r
    by (auto simp: hnb_SamePro_def GetBalance_def read_balance_def GetState_def GetOtherState_def isDelState_def sc_Get_def sample_led_def sample_api_def
        Address_GetBytes_def go_copy_def in_int64_def MinInt64_def MaxInt64_def Let_def split: if_splits)
  have mem: "(HNB, HGS, hnb_SamePro) \<in> {(HNB, HGS, hnb_SamePro), (HGS, HNB, hgs_SamePro)}" by blast
  have ca: "ca_chainID sample_api = HNB" "?a = Address_GetBytes (ca_from sample_api)" by (simp_all add: sample_api_def)
  have out: "[1] = sx_OutputAddr ?hx" "3 = sx_Amount ?hx" by simp_all
  show ?thesis
    using transfer_conserves_supply [OF sample_reliable mem ca out r] r bal \<open>err = None\<close> by (simp add: in_int64_def MinInt64_def MaxInt64_def)
qed

text \<open>Claim C30.  The sign of an amount is not checked: a transfer of a negative amount succeeds for a sender with any balance that is not below it, credits the
  sender and debits the receiver, who did not sign anything.\<close>

theorem negative_transfer_debits_receiver:
  assumes "reliable led" "ca_chainID ca = HNB" "a = Address_GetBytes (ca_from ca)" "b = sx_OutputAddr hx" "a \<noteq> b" "sx_Amount hx = - k" "0 < k"
    "GetBalance led ca a w = Inr x" "GetBalance led ca b w = Inr y" "0 \<le> x" "x + k \<le> MaxInt64" "k \<le> y" "y \<le> MaxInt64"
  shows "\<exists>w'. hnb_SamePro led ca hx w = (None, w') \<and> api_bal led ca HNB w' a = x + k \<and> api_bal led ca HNB w' b = y - k"
proof -
  obtain err w' where r: "hnb_SamePro led ca hx w = (err, w')" by fastforce
  have bal: "api_bal led ca HNB w a = x" "api_bal led ca HNB w b = y"
    using GetBalance_bal [OF assms(1) assms(8)] GetBalance_bal [OF assms(1) assms(9)] assms(2) by simp_all
  have "err = None" using r assms by (auto simp: hnb_SamePro_def Let_def)
  then have "moved led ca HNB w a b (- k) w'" using hnb_SamePro_moved [OF assms(1,2) r] assms(3,4,6) by simp
  moreover have "in_int64 (x + k)" "in_int64 (y - k)" using assms by (auto simp: in_int64_def MinInt64_def MaxInt64_def)
  ultimately show ?thesis using r \<open>err = None\<close> bal assms(5) by (auto simp: moved_def)
qed

theorem negative_transfer_debits_receiver_witness:
  "\<exists>w'. hnb_SamePro sample_led sample_api \<lparr> sx_OutputAddr = [1], sx_Amount = - 60 \<rparr> (\<lambda>_. []) = (None, w') \<and>
     api_bal sample_led sample_api HNB w' (replicate 20 9) = 67 \<and> api_bal sample_led sample_api HNB w' [1] = 40"
proof -
  have "GetBalance sample_led sample_api (replicate 20 9) (\<lambda>_. []) = Inr 7" "GetBalance sample_led sample_api [1] (\<lambda>_. []) = Inr 100"
    by (simp_all add: GetBalance_def read_balance_def GetState_def GetOtherState_def isDelState_def sc_Get_def sample_led_def sample_api_def in_int64_def MinInt64_def MaxInt64_def)
  moreover have "ca_chainID sample_api = HNB" "Address_GetBytes (ca_from sample_api) = replicate 20 9" by (simp_all add: sample_api_def)
  ultimately show ?thesis
    using negative_transfer_debits_receiver [OF sample_reliable, of sample_api "replicate 20 9" "[1]" "\<lparr> sx_OutputAddr = [1], sx_Amount = - 60 \<rparr>" 60 "\<lambda>_. []" 7 100]
    by (simp add: MaxInt64_def)
qed

section \<open>Freezing and unfreezing\<close>

text \<open>JSON gives back the entries of a map, in some order, and the elements of a list; a decimal number is no object.\<close>

definition codec_ok :: "contract_codec \<Rightarrow> bool" where
  "codec_ok cc \<longleftrightarrow> (\<forall>m. \<exists>m'. cc_decVotes cc (cc_encVotes cc m) = Some m' \<and> mset m' = mset m) \<and> (\<forall>rs. cc_decRecords cc (cc_encRecords cc rs) = Some rs)"

definition epoch_keys :: "u64 \<Rightarrow> bytes set" where
  "epoch_keys e = {GetEpochKey e, GetEpochRecordKey e}"

lemma epoch_keys_differ: "GetEpochKey e \<noteq> GetEpochRecordKey e"
  by (simp add: GetEpochKey_def GetEpochRecordKey_def ascii_def)

text \<open>The votes of an epoch as the state holds them.\<close>

definition frozen :: "contract_codec \<Rightarrow> committed \<Rightarrow> contractApi \<Rightarrow> u64 \<Rightarrow> VoteRecord list \<Rightarrow> mems \<Rightarrow> bool" where
  "frozen cc led ca e rs w \<longleftrightarrow> read_records cc (api_view led ca HNB w (GetEpochRecordKey e)) = Some rs \<and>
     (\<exists>m. read_votes cc (api_view led ca HNB w (GetEpochKey e)) = Some m \<and> gomap_ok m \<and>
        sum_list (map snd m) mod 2 ^ 64 = sum_list (map vr_VotingPower rs) mod 2 ^ 64)"

lemma sum_list_gput:
  assumes "gomap_ok m"
  shows "sum_list (map snd (gput m k v)) = sum_list (map snd m) - vote_amount m k + (v :: int)"
  using assms unfolding gomap_ok_def gput_def gget_def vote_amount_def
  by (induction m) (auto split: option.splits dest: map_of_SomeD simp: rev_image_eqI)

definition vote_record :: "VoteInfo \<Rightarrow> VoteRecord" where
  "vote_record vi = \<lparr> vr_FromAddr = the (vi_FromAddr vi), vr_VotingPower = vi_VotingPower vi \<rparr>"

lemma api_view_Put:
  "ca_chainID ca = HNB \<Longrightarrow> api_view led ca HNB (PutState ca k v w) = (api_view led ca HNB w)(k \<mapsto> v)"
  by (simp add: PutState_Other api_view_PutOther contract_chain_def)

text \<open>A successful vote, step by step.\<close>

lemma VotePro_success:
  assumes "reliable led" "ca_chainID ca = HNB" "VotePro cc led ca vi w = (None, w')" "vi_VoteEpoch vi = e"
    "\<And>a. vi_FromAddr vi = Some a \<Longrightarrow> a \<notin> epoch_keys e" "frozen cc led ca e rs w"
  obtains src cand m where "vi_FromAddr vi = Some src" "read_votes cc (api_view led ca HNB w (GetEpochKey e)) = Some m"
    "vi_VotingPower vi \<le> api_bal led ca HNB w src"
    "api_view led ca HNB w' = (api_view led ca HNB w)(GetEpochKey e \<mapsto> cc_encVotes cc (gput m cand (int64 (vote_amount m cand + vi_VotingPower vi))),
        src \<mapsto> FormatInt (int64 (api_bal led ca HNB w src - vi_VotingPower vi)), GetEpochRecordKey e \<mapsto> cc_encRecords cc (rs @ [vote_record vi]))"
proof -
  obtain w1 where t: "SaveTokenTotal cc led ca vi w = (None, w1)" "SaveTokenFromInfo cc led ca vi w1 = (None, w')"
    using assms(3) by (auto simp: VotePro_def split: prod.splits if_splits)
  obtain src cand input m where m0: "vi_FromAddr vi = Some src" "api_view led ca HNB w src = Some input" "vi_VotingPower vi \<le> fst (ParseInt input)"
      "read_votes cc (api_view led ca HNB w (GetEpochKey e)) = Some m"
      "w1 = PutState ca src (FormatInt (int64 (fst (ParseInt input) - vi_VotingPower vi)))
        (PutState ca (GetEpochKey e) (cc_encVotes cc (gput m cand (int64 (vote_amount m cand + vi_VotingPower vi)))) w)"
    using t(1) assms(1,2,4) by (auto simp: SaveTokenTotal_def GetState_view Let_def split: option.splits prod.splits if_splits)
  then have m: "vi_FromAddr vi = Some src" "read_votes cc (api_view led ca HNB w (GetEpochKey e)) = Some m" "vi_VotingPower vi \<le> api_bal led ca HNB w src"
      "w1 = PutState ca src (FormatInt (int64 (api_bal led ca HNB w src - vi_VotingPower vi)))
        (PutState ca (GetEpochKey e) (cc_encVotes cc (gput m cand (int64 (vote_amount m cand + vi_VotingPower vi)))) w)"
    by (simp_all add: api_bal_def num_of_def)
  have src: "src \<noteq> GetEpochKey e" "src \<noteq> GetEpochRecordKey e" using assms(5) [OF m(1)] by (auto simp: epoch_keys_def)
  have v1: "api_view led ca HNB w1 = (api_view led ca HNB w)(GetEpochKey e \<mapsto> cc_encVotes cc (gput m cand (int64 (vote_amount m cand + vi_VotingPower vi))),
        src \<mapsto> FormatInt (int64 (api_bal led ca HNB w src - vi_VotingPower vi)))"
    unfolding m(4) by (simp add: api_view_Put [OF assms(2)])
  then have "api_view led ca HNB w1 (GetEpochRecordKey e) = api_view led ca HNB w (GetEpochRecordKey e)" using src epoch_keys_differ [of e] by auto
  then have "w' = PutState ca (GetEpochRecordKey e) (cc_encRecords cc (rs @ [vote_record vi])) w1"
    using t(2) assms(1,2,4,6) m(1) by (auto simp: SaveTokenFromInfo_def GetState_view frozen_def vote_record_def Let_def split: option.splits)
  then show ?thesis using that [OF m(1-3)] v1 by (simp add: api_view_Put [OF assms(2)])
qed

fun vote_all :: "contract_codec \<Rightarrow> committed \<Rightarrow> contractApi \<Rightarrow> VoteInfo list \<Rightarrow> mems \<Rightarrow> mems option" where
  "vote_all cc led ca [] w = Some w"
| "vote_all cc led ca (vi # vis) w = (case VotePro cc led ca vi w of (None, w1) \<Rightarrow> vote_all cc led ca vis w1 | (Some e, w1) \<Rightarrow> None)"

text \<open>What an account has frozen, and accounts whose entry is a written number.\<close>

definition paid :: "VoteRecord list \<Rightarrow> bytes \<Rightarrow> int" where
  "paid rs a = sum_list (map vr_VotingPower (filter (\<lambda>r. vr_FromAddr r = a) rs))"

definition numbered :: "committed \<Rightarrow> contractApi \<Rightarrow> mems \<Rightarrow> bytes \<Rightarrow> bool" where
  "numbered led ca w a \<longleftrightarrow> (\<exists>v. in_int64 v \<and> api_view led ca HNB w a = Some (FormatInt v))"

lemma paid_simps [simp]: "paid [] a = 0" "paid (r # rs) a = (if vr_FromAddr r = a then vr_VotingPower r else 0) + paid rs a"
  "paid (rs @ ss) a = paid rs a + paid ss a"
  by (simp_all add: paid_def)

lemma api_bal_range [simp]: "in_int64 (api_bal led ca c w a)"
proof (cases "api_view led ca c w a")
  case None
  then show ?thesis by (simp add: api_bal_def num_of_def in_int64_def MinInt64_def MaxInt64_def)
qed (simp add: api_bal_def num_of_def)

lemma numbered_upd:
  assumes "api_view led ca HNB w' a = (if a = src then Some (FormatInt (int64 v)) else api_view led ca HNB w a)" "numbered led ca w a \<or> a = src"
  shows "numbered led ca w' a"
proof (cases "a = src")
  case True
  then show ?thesis using assms(1) unfolding numbered_def by (intro exI [of _ "int64 v"]) simp
next
  case False
  then show ?thesis using assms by (simp add: numbered_def)
qed

text \<open>The state after the votes \<open>rs\<close> of epoch \<open>e\<close>, started in \<open>w\<close>.\<close>

definition froze :: "contract_codec \<Rightarrow> committed \<Rightarrow> contractApi \<Rightarrow> u64 \<Rightarrow> mems \<Rightarrow> VoteRecord list \<Rightarrow> mems \<Rightarrow> bool" where
  "froze cc led ca e w rs w1 \<longleftrightarrow> frozen cc led ca e rs w1 \<and> (\<forall>r \<in> set rs. vr_FromAddr r \<notin> epoch_keys e \<and> numbered led ca w1 (vr_FromAddr r)) \<and>
     (\<forall>a. a \<notin> epoch_keys e \<longrightarrow> api_bal led ca HNB w1 a mod 2 ^ 64 = (api_bal led ca HNB w a - paid rs a) mod 2 ^ 64)"

lemma frozen_vote:
  assumes "codec_ok cc" "frozen cc led ca e rs w" "read_votes cc (api_view led ca HNB w (GetEpochKey e)) = Some m" "src \<notin> epoch_keys e"
    "api_view led ca HNB w' = (api_view led ca HNB w)(GetEpochKey e \<mapsto> cc_encVotes cc (gput m cand (int64 (vote_amount m cand + vr_VotingPower r))),
        src \<mapsto> d, GetEpochRecordKey e \<mapsto> cc_encRecords cc (rs @ [r]))"
  shows "frozen cc led ca e (rs @ [r]) w'"
proof -
  let ?m = "gput m cand (int64 (vote_amount m cand + vr_VotingPower r))"
  obtain m' where m': "cc_decVotes cc (cc_encVotes cc ?m) = Some m'" "mset m' = mset ?m" using assms(1) by (auto simp: codec_ok_def)
  have m: "gomap_ok m" "sum_list (map snd m) mod 2 ^ 64 = sum_list (map vr_VotingPower rs) mod 2 ^ 64" using assms(2,3) by (auto simp: frozen_def)
  have ms: "mset (map fst m') = mset (map fst ?m)" "mset (map snd m') = mset (map snd ?m)" using m'(2) by simp_all
  have "gomap_ok m'" using gomap_ok_gput [OF m(1)] mset_eq_imp_distinct_iff [OF ms(1)] unfolding gomap_ok_def by blast
  moreover have "sum_list (map snd m') = sum_list (map snd ?m)" using ms(2) by (metis sum_mset_sum_list)
  moreover have "sum_list (map snd ?m) mod 2 ^ 64 = (sum_list (map vr_VotingPower rs) + vr_VotingPower r) mod 2 ^ 64"
  proof -
    have "sum_list (map snd ?m) = (sum_list (map snd m) - vote_amount m cand) + int64 (vote_amount m cand + vr_VotingPower r)"
      using sum_list_gput [OF m(1)] by simp
    also have "\<dots> mod 2 ^ 64 = ((sum_list (map snd m) - vote_amount m cand) + (vote_amount m cand + vr_VotingPower r)) mod 2 ^ 64"
      by (rule mod_add_cong [OF refl int64_mod])
    also have "\<dots> = (sum_list (map snd m) + vr_VotingPower r) mod 2 ^ 64" by simp
    also have "\<dots> = (sum_list (map vr_VotingPower rs) + vr_VotingPower r) mod 2 ^ 64" by (rule mod_add_cong [OF m(2) refl])
    finally show ?thesis .
  qed
  moreover have "api_view led ca HNB w' (GetEpochKey e) = Some (cc_encVotes cc ?m)" "api_view led ca HNB w' (GetEpochRecordKey e) = Some (cc_encRecords cc (rs @ [r]))"
    using assms(4,5) epoch_keys_differ [of e] by (auto simp: epoch_keys_def)
  ultimately show ?thesis using m'(1) assms(1) by (auto simp: frozen_def read_votes_def read_records_def codec_ok_def)
qed

lemma vote_froze:
  assumes "reliable led" "ca_chainID ca = HNB" "codec_ok cc" "froze cc led ca e w rs w1" "VotePro cc led ca vi w1 = (None, w2)" "vi_VoteEpoch vi = e"
    "\<And>a. vi_FromAddr vi = Some a \<Longrightarrow> a \<notin> epoch_keys e"
  shows "froze cc led ca e w (rs @ [vote_record vi]) w2"
proof -
  have fz: "frozen cc led ca e rs w1" using assms(4) by (simp add: froze_def)
  obtain src cand m where v: "vi_FromAddr vi = Some src" "read_votes cc (api_view led ca HNB w1 (GetEpochKey e)) = Some m"
    "api_view led ca HNB w2 = (api_view led ca HNB w1)(GetEpochKey e \<mapsto> cc_encVotes cc (gput m cand (int64 (vote_amount m cand + vi_VotingPower vi))),
        src \<mapsto> FormatInt (int64 (api_bal led ca HNB w1 src - vi_VotingPower vi)), GetEpochRecordKey e \<mapsto> cc_encRecords cc (rs @ [vote_record vi]))"
    by (rule VotePro_success [OF assms(1,2,5,6,7) fz]) auto
  have src: "src \<notin> epoch_keys e" by (rule assms(7) [OF v(1)])
  have rec: "vr_FromAddr (vote_record vi) = src" "vr_VotingPower (vote_record vi) = vi_VotingPower vi" using v(1) by (simp_all add: vote_record_def)
  have "frozen cc led ca e (rs @ [vote_record vi]) w2" by (rule frozen_vote [OF assms(3) fz v(2) src]) (use v(3) rec in simp)
  moreover have bal: "api_bal led ca HNB w2 a = (if a = src then int64 (api_bal led ca HNB w1 a - vi_VotingPower vi) else api_bal led ca HNB w1 a)" if "a \<notin> epoch_keys e" for a
    using that v(3) by (auto simp: api_bal_def num_of_def epoch_keys_def)
  moreover have "numbered led ca w2 a" if "numbered led ca w1 a \<or> a = src" "a \<notin> epoch_keys e" for a
    by (rule numbered_upd [OF _ that(1)]) (use that src v(3) in \<open>auto simp: epoch_keys_def\<close>)
  moreover have "api_bal led ca HNB w2 a mod 2 ^ 64 = (api_bal led ca HNB w a - paid (rs @ [vote_record vi]) a) mod 2 ^ 64" if "a \<notin> epoch_keys e" for a
  proof -
    have old: "api_bal led ca HNB w1 a mod 2 ^ 64 = (api_bal led ca HNB w a - paid rs a) mod 2 ^ 64" using assms(4) that by (simp add: froze_def)
    show ?thesis
    proof (cases "a = src")
      case True
      then have "api_bal led ca HNB w2 a mod 2 ^ 64 = (api_bal led ca HNB w1 a - vi_VotingPower vi) mod 2 ^ 64" using bal [OF that] int64_mod by simp
      also have "\<dots> = (api_bal led ca HNB w a - paid rs a - vi_VotingPower vi) mod 2 ^ 64" by (rule mod_diff_cong [OF old refl])
      finally show ?thesis using True rec by (simp add: algebra_simps)
    next
      case False
      then show ?thesis using bal [OF that] old rec by simp
    qed
  qed
  ultimately show ?thesis using assms(4) src rec by (auto simp: froze_def)
qed

lemma vote_all_froze:
  assumes "reliable led" "ca_chainID ca = HNB" "codec_ok cc" "froze cc led ca e w rs w1" "vote_all cc led ca vis w1 = Some w2"
    "\<forall>vi \<in> set vis. vi_VoteEpoch vi = e \<and> (\<forall>a. vi_FromAddr vi = Some a \<longrightarrow> a \<notin> epoch_keys e)"
  shows "froze cc led ca e w (rs @ map vote_record vis) w2"
  using assms(4-6)
proof (induction vis arbitrary: rs w1)
  case (Cons vi vis)
  obtain w1' where s: "VotePro cc led ca vi w1 = (None, w1')" "vote_all cc led ca vis w1' = Some w2"
    using Cons.prems(2) by (auto split: prod.splits option.splits)
  have "froze cc led ca e w (rs @ [vote_record vi]) w1'"
    by (rule vote_froze [OF assms(1-3) Cons.prems(1) s(1)]) (use Cons.prems(3) in auto)
  then show ?case using Cons.IH [OF _ s(2)] Cons.prems(3) by fastforce
qed simp

lemma unfreeze_loop_ok:
  assumes "reliable led" "ca_chainID ca = HNB" "\<forall>r \<in> set rs. vr_FromAddr r \<notin> epoch_keys e \<and> numbered led ca w (vr_FromAddr r)"
  shows "\<exists>w'. unfreeze_loop led ca rs w = (None, w') \<and> (\<forall>a. api_bal led ca HNB w' a mod 2 ^ 64 = (api_bal led ca HNB w a + paid rs a) mod 2 ^ 64) \<and>
    (\<forall>k \<in> epoch_keys e. api_view led ca HNB w' k = api_view led ca HNB w k) \<and> api_bal led ca HGS w' = api_bal led ca HGS w"
  using assms(3)
proof (induction rs arbitrary: w)
  case (Cons r rs)
  let ?a = "vr_FromAddr r"
  let ?v = "int64 (api_bal led ca HNB w ?a + vr_VotingPower r)"
  let ?w = "SetBalance ca ?a ?v w"
  have a: "?a \<notin> epoch_keys e" "numbered led ca w ?a" using Cons.prems by auto
  then have bal: "GetBalance led ca ?a w = Inr (api_bal led ca HNB w ?a)"
    using assms(1,2) by (auto simp: GetBalance_def read_balance_def GetState_view numbered_def api_bal_def num_of_def)
  have view: "api_view led ca HNB ?w = (api_view led ca HNB w)(?a \<mapsto> FormatInt ?v)" by (simp add: SetBalance_def api_view_Put [OF assms(2)])
  then have bal1: "api_bal led ca HNB ?w x = (if x = ?a then ?v else api_bal led ca HNB w x)" for x by (simp add: api_bal_def num_of_def)
  have "\<forall>r \<in> set rs. vr_FromAddr r \<notin> epoch_keys e \<and> numbered led ca ?w (vr_FromAddr r)"
    using Cons.prems view numbered_upd [of led ca ?w _ ?a "api_bal led ca HNB w ?a + vr_VotingPower r" w] by auto
  then obtain w' where w': "unfreeze_loop led ca rs ?w = (None, w')" "\<forall>a. api_bal led ca HNB w' a mod 2 ^ 64 = (api_bal led ca HNB ?w a + paid rs a) mod 2 ^ 64"
      "\<forall>k \<in> epoch_keys e. api_view led ca HNB w' k = api_view led ca HNB ?w k" "api_bal led ca HGS w' = api_bal led ca HGS ?w"
    using Cons.IH by blast
  have "api_bal led ca HNB w' x mod 2 ^ 64 = (api_bal led ca HNB w x + paid (r # rs) x) mod 2 ^ 64" for x
  proof (cases "x = ?a")
    case True
    have "api_bal led ca HNB w' x mod 2 ^ 64 = (?v + paid rs x) mod 2 ^ 64" using w'(2) bal1 True by simp
    also have "\<dots> = ((api_bal led ca HNB w ?a + vr_VotingPower r) + paid rs x) mod 2 ^ 64" by (rule mod_add_cong [OF int64_mod refl])
    finally show ?thesis using True by (simp add: algebra_simps)
  next
    case False
    then show ?thesis using w'(2) bal1 by simp
  qed
  moreover have "api_bal led ca HGS ?w = api_bal led ca HGS w" by (simp add: SetBalance_def PutState_Other assms(2) other_chain_bal)
  ultimately show ?case using w' bal view a(1) by (auto simp: fun_upd_def)
qed simp

lemma wrapped_fold: "fold (\<lambda>k acc. int64 (acc + f k)) ks acc mod 2 ^ 64 = (acc + sum_list (map f ks)) mod 2 ^ 64"
proof (induction ks arbitrary: acc)
  case (Cons k ks)
  have "fold (\<lambda>k acc. int64 (acc + f k)) (k # ks) acc mod 2 ^ 64 = (int64 (acc + f k) + sum_list (map f ks)) mod 2 ^ 64" using Cons.IH by simp
  also have "\<dots> = ((acc + f k) + sum_list (map f ks)) mod 2 ^ 64" by (rule mod_add_cong [OF int64_mod refl])
  finally show ?case by (simp add: algebra_simps)
qed simp

lemma wrapped_fold_range: "in_int64 acc \<Longrightarrow> in_int64 (fold (\<lambda>k acc. int64 (acc + f k)) ks acc)"
  by (induction ks arbitrary: acc) simp_all

lemma sum_gkeys:
  fixes m :: "(string, int) gomap"
  assumes "go_range rng" "gomap_ok m"
  shows "sum_list (map (\<lambda>k. the (gget m k)) (gkeys rng m)) = sum_list (map snd m)"
proof -
  have "mset (gkeys rng m) = mset (map fst m)" using assms(1) by (simp add: gkeys_def go_range_def)
  then have "sum_mset (mset (map (\<lambda>k. the (gget m k)) (gkeys rng m))) = sum_mset (mset (map (\<lambda>k. the (gget m k)) (map fst m)))" unfolding mset_map by simp
  then have "sum_list (map (\<lambda>k. the (gget m k)) (gkeys rng m)) = sum_list (map (\<lambda>k. the (gget m k)) (map fst m))" unfolding sum_mset_sum_list .
  also have "map (\<lambda>k. the (gget m k)) (map fst m) = map snd m"
    unfolding map_map comp_def
  proof (rule map_cong [OF refl])
    fix p assume "p \<in> set m"
    then show "the (gget m (fst p)) = snd p" using gomap_ok_mem [OF assms(2), of "fst p" "snd p"] by simp
  qed
  finally show ?thesis .
qed

text \<open>Claim C28.  Tokens frozen by votes are given back: after any accepted votes for an epoch that had none, the vote sum of the epoch is the sum of their powers (in
  64-bit arithmetic), and unfreezing the epoch succeeds, restores the balance of every account, whoever voted how often, removes both entries of the epoch
  and leaves the other token alone.\<close>

theorem unfreeze_restores_balances:
  assumes "reliable led" "ca_chainID ca = HNB" "codec_ok cc" "go_range rng" "\<forall>k \<in> epoch_keys e. api_view led ca HNB w k = None"
    "\<forall>vi \<in> set vis. vi_VoteEpoch vi = e \<and> (\<forall>a. vi_FromAddr vi = Some a \<longrightarrow> a \<notin> epoch_keys e)" "vote_all cc led ca vis w = Some w1"
  shows "hnb_GetVoteSum rng cc led ca e w1 = Inr (int64 (sum_list (map vi_VotingPower vis))) \<and>
    (\<exists>w2. UnFreezePro cc led ca e w1 = (None, w2) \<and> (\<forall>a. api_bal led ca HNB w2 a = api_bal led ca HNB w a) \<and>
      (\<forall>k \<in> epoch_keys e. api_view led ca HNB w2 k = None) \<and> api_bal led ca HGS w2 = api_bal led ca HGS w1)"
proof -
  let ?rs = "map vote_record vis"
  have "froze cc led ca e w [] w" using assms(5) by (simp add: froze_def frozen_def epoch_keys_def read_records_def read_votes_def)
  then have fz: "froze cc led ca e w ?rs w1" using vote_all_froze [OF assms(1-3) _ assms(7,6), of w "[]"] by simp
  have powers: "map vr_VotingPower ?rs = map vi_VotingPower vis" by (simp add: vote_record_def)
  obtain m where m: "read_votes cc (api_view led ca HNB w1 (GetEpochKey e)) = Some m" "gomap_ok m" "sum_list (map snd m) mod 2 ^ 64 = sum_list (map vi_VotingPower vis) mod 2 ^ 64"
    and rs: "read_records cc (api_view led ca HNB w1 (GetEpochRecordKey e)) = Some ?rs"
    using fz unfolding froze_def frozen_def powers by blast
  have "fold (\<lambda>k acc. int64 (acc + the (gget m k))) (gkeys rng m) 0 = int64 (sum_list (map vi_VotingPower vis))"
  proof (rule int64_mod_eq)
    show "in_int64 (fold (\<lambda>k acc. int64 (acc + the (gget m k))) (gkeys rng m) 0)"
      by (rule wrapped_fold_range) (simp add: in_int64_def MinInt64_def MaxInt64_def)
    show "fold (\<lambda>k acc. int64 (acc + the (gget m k))) (gkeys rng m) 0 mod 2 ^ 64 = int64 (sum_list (map vi_VotingPower vis)) mod 2 ^ 64"
      unfolding wrapped_fold int64_mod sum_gkeys [OF assms(4) m(2)] using m(3) by simp
  qed simp
  then have "hnb_GetVoteSum rng cc led ca e w1 = Inr (int64 (sum_list (map vi_VotingPower vis)))"
    using m(1) assms(1,2) by (simp add: hnb_GetVoteSum_def GetState_view)
  moreover obtain w' where w': "unfreeze_loop led ca ?rs w1 = (None, w')" "\<forall>a. api_bal led ca HNB w' a mod 2 ^ 64 = (api_bal led ca HNB w1 a + paid ?rs a) mod 2 ^ 64"
      "api_bal led ca HGS w' = api_bal led ca HGS w1"
    using unfreeze_loop_ok [OF assms(1,2), of ?rs e w1] fz by (auto simp: froze_def)
  let ?w2 = "DelState ca (GetEpochKey e) (DelState ca (GetEpochRecordKey e) w')"
  have un: "UnFreezePro cc led ca e w1 = (None, ?w2)" using rs w'(1) assms(1,2) by (simp add: UnFreezePro_def GetState_view)
  have view: "api_view led ca HNB ?w2 = (api_view led ca HNB w')(GetEpochRecordKey e := None, GetEpochKey e := None)"
    "api_view led ca HGS ?w2 = api_view led ca HGS w'"
    using assms(2) by (simp_all add: api_view_Del contract_chain_def HGS_def HNB_def)
  have "api_bal led ca HNB ?w2 a = api_bal led ca HNB w a" for a
  proof (cases "a \<in> epoch_keys e")
    case True
    then show ?thesis using view(1) assms(5) by (auto simp: api_bal_def epoch_keys_def)
  next
    case False
    have "api_bal led ca HNB ?w2 a = api_bal led ca HNB w' a" using view(1) False by (simp add: api_bal_def epoch_keys_def)
    moreover have "api_bal led ca HNB w' a mod 2 ^ 64 = api_bal led ca HNB w a mod 2 ^ 64"
    proof -
      have "api_bal led ca HNB w1 a mod 2 ^ 64 = (api_bal led ca HNB w a - paid ?rs a) mod 2 ^ 64" using fz False by (simp add: froze_def)
      then have "(api_bal led ca HNB w1 a + paid ?rs a) mod 2 ^ 64 = ((api_bal led ca HNB w a - paid ?rs a) + paid ?rs a) mod 2 ^ 64" by (rule mod_add_cong [OF _ refl])
      then show ?thesis using w'(2) by simp
    qed
    ultimately show ?thesis by (auto intro: int64_mod_eq)
  qed
  moreover have "api_bal led ca HGS ?w2 = api_bal led ca HGS w1" using view(2) w'(3) by (simp add: api_bal_def fun_eq_iff)
  ultimately show ?thesis using un view(1) by (auto simp: epoch_keys_def)
qed

text \<open>A codec in unary, for examples.\<close>

definition sample_codec :: contract_codec where
  "sample_codec = \<lparr> cc_decTx = (\<lambda>d. None), cc_encTx = (\<lambda>t. []), cc_decSame = (\<lambda>d. None), cc_decDiff = (\<lambda>d. None), cc_decVote = (\<lambda>d. None),
     cc_decVotes = (\<lambda>d. if set d \<subseteq> {0} then Some (from_nat (length d)) else None), cc_encVotes = (\<lambda>m. replicate (to_nat m) 0),
     cc_decRecords = (\<lambda>d. Some (map (\<lambda>(a, v). \<lparr> vr_FromAddr = map word_of_int a, vr_VotingPower = v \<rparr>) (from_nat (length d) :: (int list \<times> int) list))),
     cc_encRecords = (\<lambda>rs. replicate (to_nat (map (\<lambda>r. (map uint (vr_FromAddr r), vr_VotingPower r)) rs)) 0), cc_encPeers = concat, cc_decPeers = (\<lambda>d. None) \<rparr>"

lemma sample_codec_ok: "codec_ok sample_codec"
proof -
  have "map (\<lambda>(a, v). \<lparr> vr_FromAddr = map word_of_int a, vr_VotingPower = v \<rparr>) (map (\<lambda>r. (map uint (vr_FromAddr r), vr_VotingPower r)) rs) = rs" for rs :: "VoteRecord list"
    by (induction rs) (simp_all add: comp_def)
  then show ?thesis by (auto simp: codec_ok_def sample_codec_def)
qed

definition sample_vi :: "int \<Rightarrow> VoteInfo" where
  "sample_vi p = \<lparr> vi_FromAddr = Some [1], vi_Candidate = Some [2], vi_VotingPower = p, vi_VoteEpoch = 5 \<rparr>"

lemma sample_epoch_keys: "GetEpochKey 5 \<noteq> [1]" "GetEpochRecordKey 5 \<noteq> [1]" "length (GetEpochKey 5) = 7" "length (GetEpochRecordKey 5) = 14"
  by code_simp+

lemma sample_view:
  "api_view sample_led sample_api HNB (\<lambda>_. []) k = (if k = [1] then Some (FormatInt 100) else if length k = 20 then Some (FormatInt 7) else None)"
  by (simp add: api_view_def GetOtherState_def isDelState_def sc_Get_def sample_led_def)

lemma sample_vote_succeeds: "\<exists>w1. VotePro sample_codec sample_led sample_api (sample_vi 30) (\<lambda>_. []) = (None, w1)"
proof -
  have ca: "ca_chainID sample_api = HNB" by (simp add: sample_api_def)
  let ?w = "PutState sample_api [1] (FormatInt 70) (PutState sample_api (GetEpochKey 5) (cc_encVotes sample_codec (gput [] (ByteToHex [2]) 30)) (\<lambda>_. []))"
  have t: "SaveTokenTotal sample_codec sample_led sample_api (sample_vi 30) (\<lambda>_. []) = (None, ?w)"
    using sample_epoch_keys
    by (simp add: SaveTokenTotal_def sample_vi_def GetState_view [OF sample_reliable] ca sample_view read_votes_def vote_amount_def in_int64_def MinInt64_def MaxInt64_def)
  have "api_view sample_led sample_api HNB ?w (GetEpochRecordKey 5) = None"
    using sample_epoch_keys epoch_keys_differ [of 5] by (simp add: api_view_Put [OF ca] sample_view)
  then have "\<exists>w1. SaveTokenFromInfo sample_codec sample_led sample_api (sample_vi 30) ?w = (None, w1)"
    by (simp add: SaveTokenFromInfo_def sample_vi_def GetState_view [OF sample_reliable] ca read_records_def)
  then show ?thesis using t by (simp add: VotePro_def)
qed

theorem unfreeze_restores_balances_witness:
  "\<exists>w1 w2. vote_all sample_codec sample_led sample_api [sample_vi 30] (\<lambda>_. []) = Some w1 \<and>
     hnb_GetVoteSum rev sample_codec sample_led sample_api 5 w1 = Inr 30 \<and> UnFreezePro sample_codec sample_led sample_api 5 w1 = (None, w2) \<and>
     api_bal sample_led sample_api HNB w2 [1] = 100"
proof -
  have ca: "ca_chainID sample_api = HNB" by (simp add: sample_api_def)
  have none: "\<forall>k \<in> epoch_keys 5. api_view sample_led sample_api HNB (\<lambda>_. []) k = None"
    using sample_epoch_keys by (auto simp: epoch_keys_def sample_view)
  obtain w1 where w1: "vote_all sample_codec sample_led sample_api [sample_vi 30] (\<lambda>_. []) = Some w1" using sample_vote_succeeds by auto
  have vis: "\<forall>vi \<in> set [sample_vi 30]. vi_VoteEpoch vi = 5 \<and> (\<forall>a. vi_FromAddr vi = Some a \<longrightarrow> a \<notin> epoch_keys 5)"
    using sample_epoch_keys by (auto simp: sample_vi_def epoch_keys_def)
  have "int64 (sum_list (map vi_VotingPower [sample_vi 30])) = 30" "api_bal sample_led sample_api HNB (\<lambda>_. []) [1] = 100"
    by (simp_all add: sample_vi_def api_bal_def num_of_def sample_view in_int64_def MinInt64_def MaxInt64_def)
  then show ?thesis using unfreeze_restores_balances [OF sample_reliable ca sample_codec_ok go_range_rev none vis w1] w1 by metis
qed

text \<open>Addresses and records share one name space: after anybody has transferred tokens to the \<open>address\<close> that is the key of an epoch without votes, no
  vote for that epoch succeeds.\<close>

theorem transfer_to_epoch_key_blocks_votes:
  assumes "reliable led" "ca_chainID ca = HNB" "\<forall>v. cc_decVotes cc (FormatInt v) = None" "hnb_SamePro led ca \<lparr> sx_OutputAddr = GetEpochKey e, sx_Amount = n \<rparr> w = (None, w1)"
    "vi_VoteEpoch vi = e" "ca_chainID ca' = HNB" "ca_memory ca' = ca_memory ca"
  shows "fst (VotePro cc led ca' vi w1) \<noteq> None"
proof -
  have same: "api_view led ca' = api_view led ca" using assms(7) by (simp add: api_view_def GetOtherState_def isDelState_def fun_eq_iff)
  obtain v where "api_view led ca HNB w1 (GetEpochKey e) = Some (FormatInt v)"
    using assms(4) by (auto simp: hnb_SamePro_def Let_def SetBalance_def api_view_Put [OF assms(2)] split: if_splits sum.splits)
  then have "read_votes cc (api_view led ca' HNB w1 (GetEpochKey e)) = None" using assms(3) same by (simp add: read_votes_def)
  then have "fst (SaveTokenTotal cc led ca' vi w1) \<noteq> None"
    using assms(5) by (auto simp: SaveTokenTotal_def GetState_view [OF assms(1)] assms(6) Let_def split: option.splits prod.splits)
  then show ?thesis by (auto simp: VotePro_def split: prod.splits)
qed

lemma sample_codec_rejects: "cc_decVotes sample_codec (FormatInt v) = None"
proof -
  have "FormatInt v \<noteq> [] \<and> hd (FormatInt v) \<noteq> 0"
    using format_uint_Cons [of "nat v"] by (auto simp: FormatInt_def is_digit_def)
  then show ?thesis by (cases "FormatInt v") (auto simp: sample_codec_def)
qed

theorem transfer_to_epoch_key_blocks_votes_witness:
  "\<exists>w1. hnb_SamePro sample_led sample_api \<lparr> sx_OutputAddr = GetEpochKey 5, sx_Amount = 1 \<rparr> (\<lambda>_. []) = (None, w1) \<and>
     fst (VotePro sample_codec sample_led sample_api (sample_vi 30) w1) \<noteq> None"
proof -
  have ca: "ca_chainID sample_api = HNB" "Address_GetBytes (ca_from sample_api) = replicate 20 9" by (simp_all add: sample_api_def)
  have "GetBalance sample_led sample_api (replicate 20 9) (\<lambda>_. []) = Inr 7" "GetBalance sample_led sample_api (GetEpochKey 5) (\<lambda>_. []) = Inr 0"
    using sample_epoch_keys by (simp_all add: GetBalance_def read_balance_def GetState_view [OF sample_reliable] ca(1) sample_view in_int64_def MinInt64_def MaxInt64_def)
  moreover have "replicate 20 9 \<noteq> GetEpochKey 5" by code_simp
  ultimately obtain w1 where w1: "hnb_SamePro sample_led sample_api \<lparr> sx_OutputAddr = GetEpochKey 5, sx_Amount = 1 \<rparr> (\<lambda>_. []) = (None, w1)"
    by (simp add: hnb_SamePro_def ca(2) Let_def)
  have "vi_VoteEpoch (sample_vi 30) = 5" by (simp add: sample_vi_def)
  then show ?thesis
    using transfer_to_epoch_key_blocks_votes [OF sample_reliable ca(1) _ w1 _ ca(1) refl, of sample_codec "sample_vi 30"] sample_codec_rejects w1 by auto
qed

end
