(* ===== verification/AppMgr.thy ===== *)
theory AppMgr
  imports Contracts_Inv
begin

text \<open>
  \<open>appMgr/manager.go\<close>: installing the two contracts, running the transactions of a block and writing the result to the ledger.  The state is the table of
  installed contracts, the store of the contracts' caches and the ledger.  \<open>None\<close> is a run-time panic.
\<close>

section \<open>Model\<close>

datatype contract = HgsContract | HnbContract

record App =
  ap_scs :: "(string, contract) gomap"
  ap_mems :: mems
  ap_next :: nat
  ap_ledger :: Ledger

text \<open>
  Parameters: the stores below, the codecs, the text of an error, the hash of the state change (computed while the list of changes is still empty, so a function of the
  nonces), and the orders in which the maps are ranged over.
\<close>

record app_env =
  ae_led :: ledger_env
  ae_cc :: contract_codec
  ae_errText :: "contract_error \<Rightarrow> bytes"
  ae_stateHash :: "NonceItem list \<Rightarrow> bytes"
  ae_rngA :: "string list \<Rightarrow> string list"
  ae_rngK :: "bytes list \<Rightarrow> bytes list"
  ae_rngV :: "string list \<Rightarrow> string list"

definition committed_of :: "app_env \<Rightarrow> App \<Rightarrow> committed" where
  "committed_of env A = (\<lambda>c k. GetContractState (ae_led env) c k (ap_ledger A))"

definition new_api :: "string \<Rightarrow> App \<Rightarrow> contractApi \<times> App" where
  "new_api chainID A = (let (h, w) = GetContractApi chainID (ap_next A) (ap_mems A) in (h, A\<lparr>ap_mems := w, ap_next := Suc (ap_next A)\<rparr>))"

definition setHandler :: "string \<Rightarrow> contract \<Rightarrow> App \<Rightarrow> App" where
  "setHandler chainID c A = A\<lparr>ap_scs := gput (ap_scs A) chainID c\<rparr>"

definition getHandler :: "string \<Rightarrow> App \<Rightarrow> contract option" where
  "getHandler chainID A = gget (ap_scs A) chainID"

definition handler_Invoke :: "app_env \<Rightarrow> contract \<Rightarrow> contractApi \<Rightarrow> App \<Rightarrow> contract_error option \<times> App" where
  "handler_Invoke env c h A =
     (let (err, w) = (case c of HgsContract \<Rightarrow> hgs_Invoke (ae_cc env) (committed_of env A) h (ap_mems A)
                               | HnbContract \<Rightarrow> hnb_Invoke (ae_cc env) (committed_of env A) h (ap_mems A))
      in (err, A\<lparr>ap_mems := w\<rparr>))"

definition handler_CheckTx :: "app_env \<Rightarrow> contract \<Rightarrow> contractApi \<Rightarrow> App \<Rightarrow> contract_error option" where
  "handler_CheckTx env c h A = (case c of HgsContract \<Rightarrow> hgs_CheckTx (ae_cc env) (committed_of env A) h (ap_mems A)
     | HnbContract \<Rightarrow> fst (hnb_CheckTx (ae_cc env) (committed_of env A) h (ap_mems A)))"

definition handler_Query :: "app_env \<Rightarrow> contract \<Rightarrow> contractApi \<Rightarrow> App \<Rightarrow> contract_error + bytes option" where
  "handler_Query env c h A = (case c of HgsContract \<Rightarrow> hgs_Query (ae_cc env) (committed_of env A) h (ap_mems A)
     | HnbContract \<Rightarrow> hnb_Query (ae_rngV env) (ae_cc env) (committed_of env A) h (ap_mems A))"

text \<open>
  At start the marks of installed contracts are looked up, but only the one of HGS is taken into account.  Errors of the writes are ignored.
\<close>

definition install_one :: "app_env \<Rightarrow> string \<Rightarrow> contract \<Rightarrow> bool \<Rightarrow> App \<Rightarrow> App" where
  "install_one env name c installed A =
     (let A1 = (if installed then A else
          let (h, A0) = new_api name A;
              w = InstallContract h (ap_mems A0);
              L = SetContractState (ae_led env) (GetAllState (ae_rngK env) h w) (ap_ledger A0)
          in A0\<lparr>ap_mems := w, ap_ledger := snd (db_put (ae_led env) (contract_key name) (ascii ''active'') L)\<rparr>)
      in setHandler name c A1)"

definition InitAppMgr :: "app_env \<Rightarrow> Ledger \<Rightarrow> App" where
  "InitAppMgr env L =
     (let A = \<lparr> ap_scs = [], ap_mems = (\<lambda>_. []), ap_next = 0, ap_ledger = L \<rparr>;
          hgsInstalled = (lv_db (lg_stores L (lg_db L)) (contract_key HGS) \<noteq> None)
      in install_one env HNB HnbContract False (install_one env HGS HgsContract hgsInstalled A))"

datatype app_error = ChainNotExist | ContractFailed contract_error | LedgerFailed ledger_error | NilBlk | AppParse

definition am_CheckTx :: "app_env \<Rightarrow> transaction \<Rightarrow> App \<Rightarrow> app_error option" where
  "am_CheckTx env tx A = (case getHandler (tx_ContractName tx) A of None \<Rightarrow> Some ChainNotExist
     | Some c \<Rightarrow> (let (h, A1) = new_api (tx_ContractName tx) A in
         map_option ContractFailed (handler_CheckTx env c (h\<lparr>ca_args := tx_Payload tx, ca_from := tx_From tx\<rparr>) A1)))"

text \<open>The handler is not checked before it is called.\<close>

definition am_Query :: "app_env \<Rightarrow> string \<Rightarrow> bytes \<Rightarrow> App \<Rightarrow> (contract_error + bytes option) option" where
  "am_Query env chainID args A = map_option (\<lambda>c. let (h, A1) = new_api chainID A in handler_Query env c (h\<lparr>ca_args := args\<rparr>) A1) (getHandler chainID A)"

text \<open>
  One transaction of a block: the contract runs on the cache of its name, shared by the transactions of the block for that contract; a failure is noted in the ledger, and
  the snapshot that is then restored is the cache itself.
\<close>

type_synonym apis = "(string, contractApi) gomap"

definition api_for :: "string \<Rightarrow> apis \<times> App \<Rightarrow> contractApi \<times> apis \<times> App" where
  "api_for name s = (case s of (apis, A) \<Rightarrow> (case gget apis name of Some h \<Rightarrow> (h, apis, A)
     | None \<Rightarrow> (let (h, A1) = new_api name A in (h, gput apis name h, A1))))"

definition process_tx :: "app_env \<Rightarrow> transaction \<Rightarrow> apis \<times> NonceItem list \<times> App \<Rightarrow> app_error option \<times> apis \<times> NonceItem list \<times> App" where
  "process_tx env tx s = (case s of (apis, ni, A) \<Rightarrow> (case getHandler (tx_ContractName tx) A of
     None \<Rightarrow> (Some ChainNotExist, apis, ni, A)
   | Some c \<Rightarrow>
     let (h0, apis0, A0) = api_for (tx_ContractName tx) (apis, A);
         h1 = h0\<lparr>ca_args := tx_Payload tx, ca_from := tx_From tx\<rparr>;
         snapshot = GetSnapshot h1;
         (err, A1) = handler_Invoke env c h1 A0;
         (h2, A2) = (case err of None \<Rightarrow> (h1, A1)
           | Some e \<Rightarrow> (SnapshotRestore snapshot h1, A1\<lparr>ap_ledger := snd (SetWrongIndex (ae_led env) (tx_Txid tx) (ae_errText env e) (ap_ledger A1))\<rparr>))
     in (None, gput apis0 (tx_ContractName tx) h2, ni @ [\<lparr> ni_Key = tx_From tx, ni_Nonce = tx_NonceValue tx + 1 \<rparr>], A2)))"

fun process_txs :: "app_env \<Rightarrow> transaction list \<Rightarrow> apis \<times> NonceItem list \<times> App \<Rightarrow> app_error option \<times> apis \<times> NonceItem list \<times> App" where
  "process_txs env [] s = (None, s)"
| "process_txs env (tx # txs) s = (case process_tx env tx s of (Some e, s1) \<Rightarrow> (Some e, s1) | (None, s1) \<Rightarrow> process_txs env txs s1)"

definition all_changes :: "app_env \<Rightarrow> apis \<Rightarrow> mems \<Rightarrow> StateItem list" where
  "all_changes env apis w = concat (map (\<lambda>k. GetAllState (ae_rngK env) (the (gget apis k)) w) (gkeys (ae_rngA env) apis))"

definition BlockProcess :: "app_env \<Rightarrow> Block option \<Rightarrow> App \<Rightarrow> (app_error option \<times> App) option" where
  "BlockProcess env p A = (case p of None \<Rightarrow> Some (Some NilBlk, A)
     | Some blk \<Rightarrow> (case process_txs env (bk_Txs blk) ([], [], A) of
         (Some e, apis, ni, A1) \<Rightarrow> Some (Some e, A1)
       | (None, apis, ni, A1) \<Rightarrow> do {
           header \<leftarrow> bk_Header blk;
           let blk' = blk\<lparr>bk_Header := Some (header\<lparr>hd_StateHash := ae_stateHash env ni\<rparr>)\<rparr>;
           (err, L) \<leftarrow> WriteLedger (ae_led env) blk' (all_changes env apis (ap_mems A1)) ni (ap_ledger A1);
           Some (map_option LedgerFailed err, A1\<lparr>ap_ledger := L\<rparr>) }))"

definition UnfreezeToken :: "app_env \<Rightarrow> u64 \<Rightarrow> App \<Rightarrow> app_error option \<times> App" where
  "UnfreezeToken env epochNo A = (case getHandler HNB A of None \<Rightarrow> (Some ChainNotExist, A)
     | Some c \<Rightarrow>
       let (h, A1) = new_api HNB A;
           payload = cc_encTx (ae_cc env) \<lparr> hx_TxType = UNFREEZE_TOKEN, hx_PayLoad = FormatUint epochNo \<rparr>;
           (err, A2) = handler_Invoke env c (h\<lparr>ca_args := payload\<rparr>) A1
       in (case err of Some e \<Rightarrow> (Some (ContractFailed e), A2)
         | None \<Rightarrow> (None, A2\<lparr>ap_ledger := SetContractState (ae_led env) (GetAllState (ae_rngK env) h (ap_mems A2)) (ap_ledger A2)\<rparr>)))"

definition am_GetVoteSum :: "app_env \<Rightarrow> u64 \<Rightarrow> App \<Rightarrow> (app_error + int) option" where
  "am_GetVoteSum env epochNo A = map_option (\<lambda>r. case r of Inl e \<Rightarrow> Inl (ContractFailed e)
       | Inr d \<Rightarrow> (let (s, err) = ParseInt (case d of None \<Rightarrow> [] | Some d \<Rightarrow> d) in if err then Inl AppParse else Inr s))
     (am_Query env HNB (cc_encTx (ae_cc env) \<lparr> hx_TxType = VOTESUM, hx_PayLoad = FormatUint epochNo \<rparr>) A)"

definition GetVotePeerIDOrderToken :: "app_env \<Rightarrow> u64 \<Rightarrow> App \<Rightarrow> (app_error + bytes list) option" where
  "GetVotePeerIDOrderToken env epochNo A = map_option (\<lambda>r. case r of Inl e \<Rightarrow> Inl (ContractFailed e)
       | Inr d \<Rightarrow> (case cc_decPeers (ae_cc env) (case d of None \<Rightarrow> [] | Some d \<Rightarrow> d) of None \<Rightarrow> Inl AppParse | Some ps \<Rightarrow> Inr ps))
     (am_Query env HNB (cc_encTx (ae_cc env) \<lparr> hx_TxType = TOKENORDER, hx_PayLoad = FormatUint epochNo \<rparr>) A)"

end
