(* ===== verification/AppMgr_Inv.thy ===== *)
theory AppMgr_Inv
  imports AppMgr
begin

text \<open>
  Processing a block extends the chain: the invariant of caches and tables, what is committed at the end of a block, and the properties of \<open>BlockProcess\<close> and of the start.
\<close>

section \<open>Caches\<close>

definition cache_ok :: "(bytes, StateItem) gomap \<Rightarrow> bool" where
  "cache_ok m \<longleftrightarrow> gomap_ok m \<and> (\<forall>k v. gget m k = Some v \<longrightarrow> contract_chain (si_ChainID v) \<and> k = cache_key (si_ChainID v) (si_Key v))"

definition mems_ok :: "mems \<Rightarrow> bool" where
  "mems_ok w \<longleftrightarrow> (\<forall>a. cache_ok (w a))"

named_theorems mems_intros "operations that keep the caches well-formed"

lemma PutOtherState_ok [mems_intros]: "mems_ok w \<Longrightarrow> contract_chain c \<Longrightarrow> mems_ok (PutOtherState s c k v w)"
  by (auto simp: mems_ok_def cache_ok_def PutOtherState_def sc_Put_def split: if_splits)

lemma PutState_ok [mems_intros]: "mems_ok w \<Longrightarrow> contract_chain (ca_chainID s) \<Longrightarrow> mems_ok (PutState s k v w)"
  by (simp add: PutState_Other PutOtherState_ok)

lemma DelState_ok [mems_intros]: "mems_ok w \<Longrightarrow> contract_chain (ca_chainID s) \<Longrightarrow> mems_ok (DelState s k w)"
  by (auto simp: mems_ok_def cache_ok_def DelState_def sc_Delete_def split: if_splits option.splits)

lemma contract_chains [simp]: "contract_chain HGS" "contract_chain HNB"
  by (simp_all add: contract_chain_def)

lemma hgs_Invoke_ok:
  assumes "mems_ok w" "contract_chain (ca_chainID ca)"
  shows "mems_ok (snd (hgs_Invoke cc led ca w))"
proof -
  have "mems_ok (snd (hgs_SamePro led ca t w))" for t using assms by (auto simp: hgs_SamePro_def Let_def mems_intros split: sum.splits)
  moreover have "mems_ok (snd (hgs_DiffPro led ca t w))" for t using assms by (auto simp: hgs_DiffPro_def Let_def mems_intros split: sum.splits option.splits prod.splits)
  ultimately show ?thesis using assms by (auto simp: hgs_Invoke_def split: option.splits)
qed

lemma unfreeze_loop_mems: "mems_ok w \<Longrightarrow> contract_chain (ca_chainID ca) \<Longrightarrow> mems_ok (snd (unfreeze_loop led ca rs w))"
  by (induction rs arbitrary: w) (auto simp: SetBalance_def mems_intros split: sum.splits)

lemma hnb_Invoke_ok:
  assumes "mems_ok w" "contract_chain (ca_chainID ca)"
  shows "mems_ok (snd (hnb_Invoke cc led ca w))"
proof -
  have "mems_ok (snd (hnb_SamePro led ca t w))" for t using assms by (auto simp: hnb_SamePro_def Let_def SetBalance_def mems_intros split: sum.splits)
  moreover have "mems_ok (snd (hnb_DiffPro led ca t w))" for t
    using assms by (auto simp: hnb_DiffPro_def Let_def SetBalance_def SetOtherStateBalance_def mems_intros split: sum.splits)
  moreover have "mems_ok (snd (VotePro cc led ca t w))" for t
  proof -
    have "mems_ok (snd (SaveTokenTotal cc led ca t w))"
      using assms by (auto simp: SaveTokenTotal_def Let_def mems_intros split: sum.splits option.splits prod.splits)
    moreover have "mems_ok w1 \<Longrightarrow> mems_ok (snd (SaveTokenFromInfo cc led ca t w1))" for w1
      using assms(2) by (auto simp: SaveTokenFromInfo_def Let_def mems_intros split: sum.splits option.splits)
    ultimately show ?thesis by (auto simp: VotePro_def split: prod.splits)
  qed
  moreover have "mems_ok (snd (UnFreezePro cc led ca e w))" for e
    using assms unfreeze_loop_mems [OF assms, of led] by (auto simp: UnFreezePro_def mems_intros split: sum.splits option.splits prod.splits) (metis snd_conv mems_intros(3))+
  ultimately show ?thesis using assms by (auto simp: hnb_Invoke_def Let_def split: option.splits prod.splits)
qed

text \<open>Writing the changes of a cache gives what the contract saw.\<close>

lemma commit_is_view:
  assumes "cache_ok m" "go_range rng" "contract_chain c"
  shows "fold apply_item (sc_Find rng m) st c key =
    (case gget m (cache_key c key) of None \<Rightarrow> st c key | Some v \<Rightarrow> if si_State v = StDeleted then None else Some (si_Value v))"
proof -
  have "fold apply_item (map (\<lambda>k. the (gget m k)) ks) st c key =
      (if cache_key c key \<in> set ks then (let v = the (gget m (cache_key c key)) in if si_State v = StDeleted then None else Some (si_Value v)) else st c key)"
    if "distinct ks" "set ks \<subseteq> dom (gget m)" for ks
    using that
  proof (induction ks arbitrary: st)
    case (Cons k ks)
    obtain v where v: "gget m k = Some v" using Cons.prems(2) by auto
    then have k: "contract_chain (si_ChainID v)" "k = cache_key (si_ChainID v) (si_Key v)" using assms(1) by (auto simp: cache_ok_def)
    have eq: "k = cache_key c key \<longleftrightarrow> si_ChainID v = c \<and> si_Key v = key" using k cache_key_inj [OF k(1) assms(3)] by auto
    have hit: "apply_item v st c key = (if k = cache_key c key then (if si_State v = StDeleted then None else Some (si_Value v)) else st c key)"
      using eq by (auto simp: apply_item_def)
    show ?case using Cons.IH [of "apply_item v st"] Cons.prems v hit by (auto simp: Let_def)
  qed simp
  from this [of "gkeys rng m"] show ?thesis
    using assms distinct_gkeys [of rng m] set_gkeys [of rng m] by (auto simp: sc_Find_def cache_ok_def Let_def split: option.splits)
qed

lemma commit_api_view:
  assumes "cache_ok (w (ca_memory h))" "go_range rng" "contract_chain c" "\<And>k. led c k = Inr (st c k)"
  shows "fold apply_item (GetAllState rng h w) st c key = api_view led h c w key"
  using commit_is_view [OF assms(1-3), of st key] assms(3,4)
  by (auto simp: GetAllState_def api_view_def GetOtherState_def isDelState_def sc_Get_def split: option.splits)

section \<open>The node between blocks\<close>

text \<open>The ledger holds the chain \<open>C\<close>, the two contracts are installed and the caches are well-formed.\<close>

definition app_ok :: "app_env \<Rightarrow> App \<Rightarrow> chain_state \<Rightarrow> bool" where
  "app_ok env A C \<longleftrightarrow> ledger_ok (ae_led env) (ap_ledger A) \<and> views_as (ae_led env) (ap_ledger A) C \<and> mems_ok (ap_mems A) \<and>
     getHandler HGS A = Some HgsContract \<and> getHandler HNB A = Some HnbContract \<and> (\<forall>c. getHandler c A \<noteq> None \<longrightarrow> contract_chain c)"

lemma getHandler_frame [simp]:
  "getHandler c (A\<lparr>ap_mems := w\<rparr>) = getHandler c A" "getHandler c (A\<lparr>ap_next := n\<rparr>) = getHandler c A" "getHandler c (A\<lparr>ap_ledger := L\<rparr>) = getHandler c A"
  by (simp_all add: getHandler_def)

lemma app_ok_handler: "app_ok env A C \<Longrightarrow> getHandler c A = Some h \<longleftrightarrow> c = HGS \<and> h = HgsContract \<or> c = HNB \<and> h = HnbContract"
  by (auto simp: app_ok_def contract_chain_def)

text \<open>A failed transaction is noted under a key of its own.\<close>

lemma wrong_index_views:
  assumes "ledger_ok env L" "views_as env L C"
  shows "ledger_ok env (snd (SetWrongIndex env t r L)) \<and> views_as env (snd (SetWrongIndex env t r L)) C"
proof -
  obtain L' where L': "snd (SetWrongIndex env t r L) = L'" "put_at env L (KWrong t) (Some r) L'"
    using SetWrongIndex_put [OF assms(1), of t r] by (metis snd_conv)
  then have "lview L' y = lview L y" if "key_ok y" "\<forall>t. y \<noteq> KWrong t" for y using that by (auto simp: put_at_def)
  then show ?thesis using L' assms(2) by (auto simp: put_at_def views_as_def cong: option.case_cong)
qed

lemma empty_cache_ok [simp]: "cache_ok []"
  by (simp add: cache_ok_def gomap_ok_def gget_def)

lemma new_api_ok:
  assumes "app_ok env A C" "new_api c A = (h, A1)"
  shows "app_ok env A1 C" "ca_chainID h = c" "ca_memory h = ap_next A" "ap_next A1 = Suc (ap_next A)" "ap_mems A1 = (ap_mems A)(ap_next A := [])" "ap_ledger A1 = ap_ledger A"
  using assms by (auto simp: new_api_def GetContractApi_def app_ok_def mems_ok_def)

lemma handler_Invoke_ok:
  assumes "app_ok env A C" "contract_chain (ca_chainID h)" "handler_Invoke env c h A = (err, A1)"
  shows "app_ok env A1 C" "ap_next A1 = ap_next A" "ap_ledger A1 = ap_ledger A"
proof -
  have "mems_ok (ap_mems A)" using assms(1) by (simp add: app_ok_def)
  then show "app_ok env A1 C" "ap_next A1 = ap_next A" "ap_ledger A1 = ap_ledger A"
    using assms hgs_Invoke_ok [of "ap_mems A" h] hnb_Invoke_ok [of "ap_mems A" h]
    by (auto simp: handler_Invoke_def app_ok_def split: contract.splits prod.splits) (metis snd_conv)+
qed

section \<open>The transactions of a block\<close>

definition apis_ok :: "apis \<Rightarrow> bool" where
  "apis_ok apis \<longleftrightarrow> gomap_ok apis \<and> (\<forall>k h. gget apis k = Some h \<longrightarrow> ca_chainID h = k \<and> contract_chain k)"

definition nonce_items :: "transaction list \<Rightarrow> NonceItem list" where
  "nonce_items = map (\<lambda>tx. \<lparr> ni_Key = tx_From tx, ni_Nonce = tx_NonceValue tx + 1 \<rparr>)"

lemma process_tx_eq:
  assumes "getHandler (tx_ContractName tx) A = Some c" "api_for (tx_ContractName tx) (apis, A) = (h0, apis0, A0)"
    "handler_Invoke env c (h0\<lparr>ca_args := tx_Payload tx, ca_from := tx_From tx\<rparr>) A0 = (e, A1)"
  shows "process_tx env tx (apis, ni, A) = (None, gput apis0 (tx_ContractName tx) (h0\<lparr>ca_args := tx_Payload tx, ca_from := tx_From tx\<rparr>), ni @ nonce_items [tx],
    case e of None \<Rightarrow> A1 | Some x \<Rightarrow> A1\<lparr>ap_ledger := snd (SetWrongIndex (ae_led env) (tx_Txid tx) (ae_errText env x) (ap_ledger A1))\<rparr>)"
  using assms by (cases e) (simp_all add: process_tx_def Let_def restore_is_noop nonce_items_def)

lemma process_tx_ok:
  assumes "app_ok env A C" "apis_ok apis" "process_tx env tx (apis, ni, A) = (err, apis', ni', A')"
  shows "app_ok env A' C \<and> apis_ok apis' \<and> (if contract_chain (tx_ContractName tx) then err = None \<and> ni' = ni @ nonce_items [tx] else err = Some ChainNotExist)"
proof (cases "getHandler (tx_ContractName tx) A")
  case None
  then have "\<not> contract_chain (tx_ContractName tx)" using assms(1) by (auto simp: app_ok_def contract_chain_def)
  then show ?thesis using None assms by (auto simp: process_tx_def)
next
  case (Some c)
  let ?c = "tx_ContractName tx"
  have chain: "contract_chain ?c" using Some assms(1) by (auto simp: app_ok_def)
  obtain h0 apis0 A0 where f: "api_for ?c (apis, A) = (h0, apis0, A0)" by (metis prod_cases3)
  have 0: "app_ok env A0 C" "apis_ok apis0" "ca_chainID h0 = ?c"
    using f assms(1,2) chain new_api_ok(1,2) [OF assms(1)] by (auto simp: api_for_def apis_ok_def gget_gput split: option.splits prod.splits if_splits)
  let ?h = "h0\<lparr>ca_args := tx_Payload tx, ca_from := tx_From tx\<rparr>"
  obtain e A1 where i: "handler_Invoke env c ?h A0 = (e, A1)" by fastforce
  have 1: "app_ok env A1 C" using handler_Invoke_ok(1) [OF 0(1) _ i] 0(3) chain by simp
  have "app_ok env (A1\<lparr>ap_ledger := snd (SetWrongIndex (ae_led env) t r (ap_ledger A1))\<rparr>) C" for t r
    using 1 wrong_index_views [of "ae_led env" "ap_ledger A1" C t r] by (simp add: app_ok_def)
  moreover have "apis_ok (gput apis0 ?c ?h)" using 0(2,3) chain by (auto simp: apis_ok_def)
  ultimately show ?thesis using assms(3) process_tx_eq [OF Some f i] 1 chain by (auto split: option.splits)
qed

lemma process_txs_ok:
  assumes "app_ok env A C" "apis_ok apis" "process_txs env txs (apis, ni, A) = (err, apis', ni', A')"
  shows "app_ok env A' C \<and> apis_ok apis' \<and>
    (if \<forall>tx \<in> set txs. contract_chain (tx_ContractName tx) then err = None \<and> ni' = ni @ nonce_items txs else err = Some ChainNotExist)"
  using assms
proof (induction txs arbitrary: apis ni A)
  case Nil
  then show ?case by (simp add: nonce_items_def)
next
  case (Cons tx txs)
  obtain e apis1 ni1 A1 where t: "process_tx env tx (apis, ni, A) = (e, apis1, ni1, A1)" by (metis prod_cases4)
  note step = process_tx_ok [OF Cons.prems(1,2) t]
  show ?case
  proof (cases "contract_chain (tx_ContractName tx)")
    case True
    then have "process_txs env txs (apis1, ni1, A1) = (err, apis', ni', A')" using t step Cons.prems(3) by simp
    then show ?thesis using Cons.IH [of A1 apis1 ni1] step True by (auto simp: nonce_items_def)
  next
    case False
    then show ?thesis using t step Cons.prems(3) by auto
  qed
qed

lemma all_changes_chain:
  assumes "apis_ok apis" "mems_ok w" "go_range (ae_rngA env)" "go_range (ae_rngK env)"
  shows "\<forall>v \<in> set (all_changes env apis w). contract_chain (si_ChainID v)"
proof
  fix v assume "v \<in> set (all_changes env apis w)"
  then obtain k where "v \<in> set (sc_Find (ae_rngK env) (w (ca_memory (the (gget apis k)))))" by (auto simp: all_changes_def GetAllState_def)
  moreover have "contract_chain (si_ChainID v)" if "cache_ok m" "v \<in> set (sc_Find (ae_rngK env) m)" for m
    using that set_gkeys [OF assms(4), of m] by (auto simp: sc_Find_def cache_ok_def)
  ultimately show "contract_chain (si_ChainID v)" using assms(2) by (auto simp: mems_ok_def)
qed

section \<open>Transfers in a block\<close>

text \<open>What a cache holds for its own contract only.\<close>

definition own_cache :: "string \<Rightarrow> (bytes, StateItem) gomap \<Rightarrow> bool" where
  "own_cache c m \<longleftrightarrow> (\<forall>k v. gget m k = Some v \<longrightarrow> si_ChainID v = c)"

lemma own_cache_Put: "own_cache c (w (ca_memory s)) \<Longrightarrow> own_cache c (PutOtherState s c k v w (ca_memory s))"
  by (auto simp: own_cache_def PutOtherState_def sc_Put_def split: if_splits)

text \<open>Any transaction whose payload is a transfer, or no proper payload, between accounts of a set.\<close>

definition transfer_tx :: "contract_codec \<Rightarrow> bytes set \<Rightarrow> transaction \<Rightarrow> bool" where
  "transfer_tx cc Acc tx \<longleftrightarrow> Address_GetBytes (tx_From tx) \<in> Acc \<and> (\<forall>hx. cc_decTx cc (tx_Payload tx) = Some hx \<longrightarrow>
     hx_TxType hx = SAME \<and> (\<forall>t. cc_decSame cc (hx_PayLoad hx) = Some t \<longrightarrow> sx_OutputAddr t \<in> Acc))"

definition token_sum :: "(bytes \<Rightarrow> int) \<Rightarrow> bytes set \<Rightarrow> int" where
  "token_sum f Acc = (\<Sum>x\<in>Acc. f x) mod 2 ^ 64"

lemma SamePro_own:
  "hnb_SamePro led ca hx w = (err, w') \<Longrightarrow> ca_chainID ca = HNB \<Longrightarrow> own_cache HNB (w (ca_memory ca)) \<Longrightarrow> own_cache HNB (w' (ca_memory ca)) \<and> (\<forall>a. a \<noteq> ca_memory ca \<longrightarrow> w' a = w a)"
  "hgs_SamePro led ca hx w = (err, w') \<Longrightarrow> ca_chainID ca = HGS \<Longrightarrow> own_cache HGS (w (ca_memory ca)) \<Longrightarrow> own_cache HGS (w' (ca_memory ca)) \<and> (\<forall>a. a \<noteq> ca_memory ca \<longrightarrow> w' a = w a)"
  by (auto simp: hnb_SamePro_def hgs_SamePro_def SetBalance_def PutState_Other Let_def own_cache_Put split: if_splits sum.splits)
     (auto simp: PutOtherState_def)

lemma handler_transfer:
  assumes "app_ok env A C" "getHandler c A = Some k" "ca_chainID h = c" "ca_args h = tx_Payload tx" "ca_from h = tx_From tx" "transfer_tx (ae_cc env) Acc tx" "finite Acc"
    "reliable (committed_of env A)" "own_cache c (ap_mems A (ca_memory h))" "handler_Invoke env k h A = (err, A1)"
  shows "own_cache c (ap_mems A1 (ca_memory h)) \<and> (\<forall>a. a \<noteq> ca_memory h \<longrightarrow> ap_mems A1 a = ap_mems A a) \<and>
    token_sum (api_bal (committed_of env A) h c (ap_mems A1)) Acc = token_sum (api_bal (committed_of env A) h c (ap_mems A)) Acc"
proof -
  let ?led = "committed_of env A" and ?w = "ap_mems A"
  have sup: "token_sum (api_bal ?led h c w') Acc = token_sum (api_bal ?led h c ?w) Acc"
    if "if e = None then moved ?led h c ?w (Address_GetBytes (ca_from h)) (sx_OutputAddr t) (sx_Amount t) w' \<and> z else w' = ?w" "sx_OutputAddr t \<in> Acc" for e t w' z
    using that moved_sum [OF _ assms(7), of ?led h c ?w "Address_GetBytes (ca_from h)" "sx_OutputAddr t" "sx_Amount t" w'] assms(5,6)
    by (cases "e = None") (auto simp: token_sum_def transfer_tx_def)
  consider "c = HGS" "k = HgsContract" | "c = HNB" "k = HnbContract" using assms(1,2) app_ok_handler by blast
  then show ?thesis
  proof cases
    case 1
    then obtain w' where w': "hgs_Invoke (ae_cc env) ?led h ?w = (err, w')" "A1 = A\<lparr>ap_mems := w'\<rparr>" using assms(10) by (auto simp: handler_Invoke_def split: prod.splits)
    then consider "w' = ?w" | t where "hgs_SamePro ?led h t ?w = (err, w')" "sx_OutputAddr t \<in> Acc"
      using assms(4,6) by (auto simp: hgs_Invoke_def transfer_tx_def split: option.splits)
    then show ?thesis
    proof cases
      case (2 t)
      have h: "ca_chainID h = HGS" "own_cache HGS (?w (ca_memory h))" using \<open>c = HGS\<close> assms(3,9) by simp_all
      note m = hgs_SamePro_moved [OF assms(8) h(1) 2(1)]
      show ?thesis using SamePro_own(2) [OF 2(1) h] sup [OF m [folded \<open>c = HGS\<close>] 2(2)] w'(2) \<open>c = HGS\<close> by simp
    qed (use w'(2) assms(9) in simp)
  next
    case 2
    then obtain w' where w': "hnb_Invoke (ae_cc env) ?led h ?w = (err, w')" "A1 = A\<lparr>ap_mems := w'\<rparr>" using assms(10) by (auto simp: handler_Invoke_def split: prod.splits)
    then consider "w' = ?w" | t where "hnb_SamePro ?led h t ?w = (err, w')" "sx_OutputAddr t \<in> Acc"
      using assms(4,6) by (auto simp: hnb_Invoke_def transfer_tx_def split: option.splits)
    then show ?thesis
    proof cases
      case (2 t)
      have h: "ca_chainID h = HNB" "own_cache HNB (?w (ca_memory h))" using \<open>c = HNB\<close> assms(3,9) by simp_all
      note m = hnb_SamePro_moved [OF assms(8) h(1) 2(1)]
      show ?thesis using SamePro_own(1) [OF 2(1) h] sup [OF m [folded \<open>c = HNB\<close>] 2(2)] w'(2) \<open>c = HNB\<close> by simp
    qed (use w'(2) assms(9) in simp)
  qed
qed

lemma committed_reliable: "app_ok env A C \<Longrightarrow> reliable (committed_of env A)"
  unfolding reliable_def committed_of_def GetContractState_def
  by (auto simp: app_ok_def ledger_ok_def ss_GetState_def db_get_def kv_simps Let_def split: option.splits)

lemma committed_chain: "app_ok env A C \<Longrightarrow> contract_chain c \<Longrightarrow> committed_of env A c x = Inr (ch_state C c x)"
  using ss_GetState_view [of "ae_led env" "ap_ledger A" c] by (simp add: committed_of_def app_ok_def views_as_def)

lemma api_bal_cong:
  "(\<And>x. led c x = led' c x) \<Longrightarrow> w (ca_memory h) = w' (ca_memory h') \<Longrightarrow> api_bal led h c w = api_bal led' h' c w'"
  by (simp add: api_bal_def api_view_def GetOtherState_def isDelState_def sc_Get_def fun_eq_iff cong: option.case_cong)

definition chain_sum :: "chain_state \<Rightarrow> string \<Rightarrow> bytes set \<Rightarrow> int" where
  "chain_sum C c = token_sum (\<lambda>x. num_of (ch_state C c x))"

text \<open>While a block of transfers is processed: every contract has a cache of its own, which holds its own entries and keeps the sum.\<close>

definition cache_keeps :: "app_env \<Rightarrow> chain_state \<Rightarrow> bytes set \<Rightarrow> App \<Rightarrow> string \<Rightarrow> contractApi \<Rightarrow> bool" where
  "cache_keeps env C Acc A k h \<longleftrightarrow> ca_memory h < ap_next A \<and> own_cache k (ap_mems A (ca_memory h)) \<and>
     token_sum (api_bal (committed_of env A) h k (ap_mems A)) Acc = chain_sum C k Acc"

definition transfer_inv :: "app_env \<Rightarrow> chain_state \<Rightarrow> bytes set \<Rightarrow> apis \<Rightarrow> App \<Rightarrow> bool" where
  "transfer_inv env C Acc apis A \<longleftrightarrow> app_ok env A C \<and> apis_ok apis \<and> (\<forall>k h. gget apis k = Some h \<longrightarrow> cache_keeps env C Acc A k h) \<and>
     (\<forall>k h k' h'. gget apis k = Some h \<longrightarrow> gget apis k' = Some h' \<longrightarrow> ca_memory h = ca_memory h' \<longrightarrow> k = k')"

text \<open>A cache is as before when neither its contents nor the chain have changed.\<close>

lemma cache_keeps_cong:
  assumes "cache_keeps env C Acc A k h" "app_ok env A C" "app_ok env A' C" "contract_chain k" "ap_next A \<le> ap_next A'" "ca_memory h' = ca_memory h"
    "ap_mems A' (ca_memory h) = ap_mems A (ca_memory h)"
  shows "cache_keeps env C Acc A' k h'"
proof -
  have "api_bal (committed_of env A') h' k (ap_mems A') = api_bal (committed_of env A) h k (ap_mems A)"
    by (rule api_bal_cong) (use assms in \<open>simp_all add: committed_chain\<close>)
  then show ?thesis using assms by (simp add: cache_keeps_def)
qed

lemma api_for_inv:
  assumes "transfer_inv env C Acc apis A" "contract_chain c" "api_for c (apis, A) = (h, apis', A')"
  shows "transfer_inv env C Acc apis' A' \<and> gget apis' c = Some h"
proof (cases "gget apis c")
  case None
  obtain h' A1 where n: "new_api c A = (h', A1)" by fastforce
  have ok: "app_ok env A C" "apis_ok apis" using assms(1) by (simp_all add: transfer_inv_def)
  note na = new_api_ok [OF ok(1) n]
  have r: "h = h'" "apis' = gput apis c h'" "A' = A1" using assms(3) None n by (auto simp: api_for_def)
  have "api_bal (committed_of env A1) h' c (ap_mems A1) = (\<lambda>x. num_of (ch_state C c x))"
    using committed_chain [OF na(1) assms(2)] na(3,5) by (simp add: api_bal_def api_view_def GetOtherState_def isDelState_def sc_Get_def gget_def fun_eq_iff)
  then have new: "cache_keeps env C Acc A1 c h'" using na by (simp add: cache_keeps_def own_cache_def gget_def chain_sum_def)
  have old: "cache_keeps env C Acc A1 k x \<and> ca_memory x < ap_next A" if "gget apis k = Some x" for k x
  proof -
    have x: "cache_keeps env C Acc A k x" "contract_chain k" using assms(1) that by (auto simp: transfer_inv_def apis_ok_def)
    then have "ca_memory x < ap_next A" by (simp add: cache_keeps_def)
    then show ?thesis using cache_keeps_cong [OF x(1) ok(1) na(1) x(2), of x] na(4,5) by simp
  qed
  have "apis_ok (gput apis c h')" using ok(2) na(2) assms(2) by (auto simp: apis_ok_def)
  then show ?thesis using assms(1) na(1,3) new old r by (fastforce simp: transfer_inv_def)
qed (use assms in \<open>auto simp: api_for_def\<close>)

lemma process_tx_transfer:
  assumes "transfer_inv env C Acc apis A" "transfer_tx (ae_cc env) Acc tx" "finite Acc" "process_tx env tx (apis, ni, A) = (None, apis', ni', A')"
  shows "transfer_inv env C Acc apis' A'"
proof -
  let ?c = "tx_ContractName tx"
  obtain c where hd: "getHandler ?c A = Some c" using assms(4) by (auto simp: process_tx_def split: option.splits)
  have chain: "contract_chain ?c" using hd assms(1) by (auto simp: transfer_inv_def app_ok_def)
  obtain h0 apis0 A0 where f: "api_for ?c (apis, A) = (h0, apis0, A0)" by (metis prod_cases3)
  note i0 = api_for_inv [OF assms(1) chain f]
  let ?h = "h0\<lparr>ca_args := tx_Payload tx, ca_from := tx_From tx\<rparr>"
  obtain e A1 where i: "handler_Invoke env c ?h A0 = (e, A1)" by fastforce
  have 0: "app_ok env A0 C" "apis_ok apis0" "ca_chainID ?h = ?c" "cache_keeps env C Acc A0 ?c h0" using i0 by (auto simp: transfer_inv_def apis_ok_def)
  have hd0: "getHandler ?c A0 = Some c" using hd app_ok_handler [OF 0(1)] app_ok_handler [of env A C] assms(1) by (simp add: transfer_inv_def)
  note inv = handler_Invoke_ok [OF 0(1) _ i] handler_transfer [OF 0(1) hd0 0(3) _ _ assms(2,3) committed_reliable [OF 0(1)] _ i]
  have 1: "app_ok env A1 C" "ap_next A1 = ap_next A0" "ap_ledger A1 = ap_ledger A0" using inv(1-3) 0(3) chain by simp_all
  have bal: "api_bal (committed_of env A1) ?h ?c (ap_mems A1) = api_bal (committed_of env A0) ?h ?c (ap_mems A1)"
    "api_bal (committed_of env A0) ?h ?c (ap_mems A0) = api_bal (committed_of env A0) h0 ?c (ap_mems A0)"
    by (rule api_bal_cong; simp add: committed_chain [OF 0(1) chain] committed_chain [OF 1(1) chain])+
  have self: "cache_keeps env C Acc A1 ?c ?h" and mem: "\<forall>a. a \<noteq> ca_memory h0 \<longrightarrow> ap_mems A1 a = ap_mems A0 a"
    using inv(4) 0(4) bal 1(2) by (auto simp: cache_keeps_def)
  have eq: "process_tx env tx (apis, ni, A) = (None, gput apis0 ?c ?h, ni @ nonce_items [tx],
    case e of None \<Rightarrow> A1 | Some x \<Rightarrow> A1\<lparr>ap_ledger := snd (SetWrongIndex (ae_led env) (tx_Txid tx) (ae_errText env x) (ap_ledger A1))\<rparr>)" by (rule process_tx_eq [OF hd f i])
  have ok: "app_ok env A' C" "apis_ok apis'"
    using process_tx_ok [of env A C apis tx ni None apis' ni' A'] assms(1,4) by (simp_all add: transfer_inv_def)
  have A': "ap_mems A' = ap_mems A1" "ap_next A' = ap_next A1" "apis' = gput apis0 ?c ?h" using eq assms(4) by (auto split: option.splits)
  have keep: "cache_keeps env C Acc A' k h" if "gget apis' k = Some h" for k h
  proof (cases "k = ?c")
    case True
    then show ?thesis using that A' cache_keeps_cong [OF self 1(1) ok(1) chain, of ?h] by simp
  next
    case False
    then have k: "gget apis0 k = Some h" using that A'(3) by simp
    then have "ca_memory h \<noteq> ca_memory h0" "cache_keeps env C Acc A0 k h" "contract_chain k" using i0 False by (auto simp: transfer_inv_def apis_ok_def)
    then show ?thesis using cache_keeps_cong [OF _ 0(1) ok(1), of Acc k h h] A' mem 1(2) by simp
  qed
  moreover have "k = k'" if "gget apis' k = Some h" "gget apis' k' = Some h'" "ca_memory h = ca_memory h'" for k k' h h'
  proof -
    have "\<exists>x. gget apis0 k = Some x \<and> ca_memory x = ca_memory h" "\<exists>x. gget apis0 k' = Some x \<and> ca_memory x = ca_memory h'"
      using that(1,2) A'(3) i0 by (auto split: if_splits)
    then show ?thesis using that(3) i0 by (auto simp: transfer_inv_def)
  qed
  ultimately show ?thesis using ok by (simp add: transfer_inv_def)
qed

lemma process_txs_transfer:
  assumes "transfer_inv env C Acc apis A" "\<forall>tx \<in> set txs. transfer_tx (ae_cc env) Acc tx" "finite Acc" "process_txs env txs (apis, ni, A) = (None, apis', ni', A')"
  shows "transfer_inv env C Acc apis' A'"
  using assms
proof (induction txs arbitrary: apis ni A)
  case (Cons tx txs)
  obtain e apis1 ni1 A1 where t: "process_tx env tx (apis, ni, A) = (e, apis1, ni1, A1)" by (metis prod_cases4)
  then have e: "e = None" "process_txs env txs (apis1, ni1, A1) = (None, apis', ni', A')" using Cons.prems(4) by (auto split: option.splits)
  show ?case by (rule Cons.IH [OF process_tx_transfer [OF Cons.prems(1) _ Cons.prems(3)] _ Cons.prems(3) e(2)]) (use t e(1) Cons.prems(2) in auto)
qed simp

text \<open>Writing caches that hold their own entries.\<close>

lemma commit_other_chain:
  assumes "own_cache k m" "go_range rng" "c \<noteq> k"
  shows "fold apply_item (sc_Find rng m) st c = st c"
proof -
  have "fold apply_item vs st c = st c" if "\<forall>v \<in> set vs. si_ChainID v = k" for vs
    using that assms(3) by (induction vs arbitrary: st) (auto simp: apply_item_def)
  moreover have "\<forall>v \<in> set (sc_Find rng m). si_ChainID v = k" using assms(1) set_gkeys [OF assms(2), of m] by (auto simp: sc_Find_def own_cache_def)
  ultimately show ?thesis by blast
qed

lemma all_changes_sum:
  assumes "transfer_inv env C Acc apis A" "go_range (ae_rngA env)" "go_range (ae_rngK env)" "contract_chain c"
  shows "token_sum (\<lambda>x. num_of (fold apply_item (all_changes env apis (ap_mems A)) (ch_state C) c x)) Acc = chain_sum C c Acc"
proof -
  let ?w = "ap_mems A"
  have ok: "app_ok env A C" "gomap_ok apis" using assms(1) by (auto simp: transfer_inv_def apis_ok_def)
  have own: "own_cache k (?w (ca_memory (the (gget apis k))))" if "k \<in> dom (gget apis)" for k using that assms(1) by (auto simp: transfer_inv_def cache_keeps_def)
  have fold: "fold apply_item (concat (map (\<lambda>k. GetAllState (ae_rngK env) (the (gget apis k)) ?w) ks)) st c x =
      (if c \<in> set ks then api_view (committed_of env A) (the (gget apis c)) c ?w x else st c x)"
    if "distinct ks" "set ks \<subseteq> dom (gget apis)" "st c = ch_state C c" for ks st x
    using that
  proof (induction ks arbitrary: st)
    case (Cons k ks)
    let ?h = "the (gget apis k)" and ?st = "fold apply_item (GetAllState (ae_rngK env) (the (gget apis k)) ?w) st"
    show ?case
    proof (cases "c = k")
      case False
      then have "?st c = st c" using commit_other_chain [OF own assms(3), of k c st] Cons.prems(2) by (simp add: GetAllState_def)
      then show ?thesis using Cons.IH [of ?st] Cons.prems False by simp
    next
      case True
      have "fold apply_item (concat (map (\<lambda>k. GetAllState (ae_rngK env) (the (gget apis k)) ?w) js)) u c = u c" if "k \<notin> set js" "set js \<subseteq> dom (gget apis)" for js u
        using that True commit_other_chain [OF own assms(3), of _ c] by (induction js arbitrary: u) (auto simp: GetAllState_def)
      moreover have "?st c x = api_view (committed_of env A) ?h c ?w x"
        by (rule commit_api_view [OF _ assms(3,4)]) (use ok(1) Cons.prems(3) committed_chain [OF ok(1) assms(4)] in \<open>auto simp: app_ok_def mems_ok_def\<close>)
      ultimately show ?thesis using Cons.prems True by simp
    qed
  qed simp
  note f = fold [of "gkeys (ae_rngA env) apis" "ch_state C", OF distinct_gkeys [OF assms(2) ok(2)]]
  have keep: "token_sum (api_bal (committed_of env A) h c ?w) Acc = chain_sum C c Acc" if "gget apis c = Some h" for h using that assms(1) by (simp add: transfer_inv_def cache_keeps_def)
  have "(\<lambda>x. num_of (fold apply_item (all_changes env apis ?w) (ch_state C) c x)) = (case gget apis c of None \<Rightarrow> \<lambda>x. num_of (ch_state C c x) | Some h \<Rightarrow> api_bal (committed_of env A) h c ?w)"
    using f set_gkeys [OF assms(2), of apis] by (auto simp: all_changes_def api_bal_def fun_eq_iff split: option.splits)
  then show ?thesis using keep by (auto simp: chain_sum_def split: option.splits)
qed

section \<open>Starting the node\<close>

text \<open>Writing state items outside of a block, and the marks of installed contracts.\<close>

lemma puts_state_views:
  assumes "puts_at env L (map item_put items) L'" "views_as env L C"
  shows "views_as env L' (C\<lparr>ch_state := fold apply_item items (ch_state C)\<rparr>)"
proof -
  have "lview L' y = lview L y" if "key_ok y" "\<forall>c k. y \<noteq> KState c k" for y using assms(1) that by (simp add: puts_at_def put_all_state(2))
  moreover have "lview L' (KState c k) = fold apply_item items (ch_state C) c k" if "contract_chain c" for c k
  proof -
    have "lview L' (KState c k) = fold apply_item items (\<lambda>c k. lview L (KState c k)) c k" using assms(1) that by (simp add: puts_at_def put_all_state(1))
    also have "\<dots> = fold apply_item items (ch_state C) c k" using assms(2) that by (intro fold_items_cong) (simp add: views_as_def)
    finally show ?thesis .
  qed
  moreover have "bview L' n = bview L n" if "small n" for n using assms(1) that by (simp add: puts_at_def)
  ultimately show ?thesis using assms(2) by (auto simp: views_as_def cong: option.case_cong)
qed

lemma SetContractState_views:
  assumes "ledger_ok env L" "views_as env L C" "\<forall>v \<in> set items. contract_chain (si_ChainID v)"
  shows "ledger_ok env (SetContractState env items L) \<and> views_as env (SetContractState env items L) (C\<lparr>ch_state := fold apply_item items (ch_state C)\<rparr>) \<and>
    lview (SetContractState env items L) (KContract c) = lview L (KContract c)"
proof -
  note n = new_batch_puts [OF assms(1)]
  note w = write_items_puts [OF puts_at_ok [OF n] assms(3)]
  have "puts_at env L (map item_put items) (SetContractState env items L)"
    using puts_at_trans [OF n puts_at_trans [OF w batch_commit_puts [OF puts_at_ok [OF w]]]] by (simp add: SetContractState_def)
  then show ?thesis using puts_state_views [OF _ assms(2)] by (auto simp: puts_at_def put_all_state(2))
qed

lemma contract_mark_views:
  assumes "ledger_ok env L" "views_as env L C"
  shows "ledger_ok env (snd (db_put env (contract_key c) v L)) \<and> views_as env (snd (db_put env (contract_key c) v L)) C \<and>
    lview (snd (db_put env (contract_key c) v L)) (KContract c') = (if c' = c then Some v else lview L (KContract c'))"
proof -
  obtain L' where L': "snd (db_put env (contract_key c) v L) = L'" "put_at env L (KContract c) (Some v) L'"
    using db_put_raw [OF assms(1), of "KContract c" v] raw_put_ok [OF assms(1), of "KContract c" "Some v"] by auto
  then have "lview L' y = lview L y" if "key_ok y" "\<forall>t. y \<noteq> KContract t" for y using that by (auto simp: put_at_def)
  then show ?thesis using L' assms(2) by (auto simp: put_at_def views_as_def cong: option.case_cong)
qed

definition genesis_item :: "string \<Rightarrow> StateItem" where
  "genesis_item c = \<lparr> si_Key = genesis_user, si_Value = FormatInt 10000000, si_State = StChanged, si_ChainID = c \<rparr>"

lemma install_one_ok:
  assumes "ledger_ok (ae_led env) (ap_ledger A)" "views_as (ae_led env) (ap_ledger A) C" "mems_ok (ap_mems A)" "go_range (ae_rngK env)" "contract_chain c"
  shows "ledger_ok (ae_led env) (ap_ledger (install_one env c k False A)) \<and> mems_ok (ap_mems (install_one env c k False A)) \<and>
    views_as (ae_led env) (ap_ledger (install_one env c k False A)) (C\<lparr>ch_state := apply_item (genesis_item c) (ch_state C)\<rparr>) \<and>
    lview (ap_ledger (install_one env c k False A)) (KContract c') = (if c' = c then Some (ascii ''active'') else lview (ap_ledger A) (KContract c'))"
proof -
  let ?w = "(ap_mems A)(ap_next A := [(cache_key c genesis_user, genesis_item c)])"
  have rng: "ae_rngK env [x] = [x]" for x
  proof -
    have "mset (ae_rngK env [x]) = {#x#}" using assms(4) by (simp add: go_range_def)
    then show ?thesis by simp
  qed
  obtain h A0 where n: "new_api c A = (h, A0)" by fastforce
  have h: "ca_memory h = ap_next A" "ca_chainID h = c" "ap_mems A0 = (ap_mems A)(ap_next A := [])" "ap_ledger A0 = ap_ledger A"
    using n by (auto simp: new_api_def GetContractApi_def)
  have w: "InstallContract h (ap_mems A0) = ?w"
    using h by (simp add: InstallContract_def PutState_def sc_Put_def genesis_item_def gput_def)
  have items: "GetAllState (ae_rngK env) h ?w = [genesis_item c]" using h rng by (simp add: GetAllState_def sc_Find_def gkeys_def gget_def)
  have "mems_ok ?w" using assms(3,5) by (auto simp: mems_ok_def cache_ok_def gomap_ok_def gget_def genesis_item_def split: if_splits)
  moreover have "\<forall>v \<in> set [genesis_item c]. contract_chain (si_ChainID v)" using assms(5) by (simp add: genesis_item_def)
  note st = SetContractState_views [OF assms(1,2) this]
  have "ap_ledger (install_one env c k False A) = snd (db_put (ae_led env) (contract_key c) (ascii ''active'') (SetContractState (ae_led env) [genesis_item c] (ap_ledger A)))"
    "ap_mems (install_one env c k False A) = ?w"
    using n h w items by (simp_all add: install_one_def setHandler_def)
  moreover have "fold apply_item [genesis_item c] (ch_state C) = apply_item (genesis_item c) (ch_state C)" by simp
  ultimately show ?thesis
    using contract_mark_views [OF st [THEN conjunct1] st [THEN conjunct2, THEN conjunct1], of c "ascii ''active''" c'] st by (simp add: \<open>mems_ok ?w\<close>)
qed

lemma InitLedger_restart:
  fixes L :: Ledger
  defines "R \<equiv> InitLedger (lg_db L) (lg_blockDB L) (lg_stores L)"
  assumes "ledger_ok env L" "views_as env L C"
  shows "ledger_ok env R \<and> views_as env R C \<and> lview R = lview L"
proof -
  have v: "lview R = lview L" "bview R = bview L" by (simp_all add: R_def InitLedger_def lview_def bview_def fun_eq_iff)
  have "views_as env R C" using assms(3) unfolding views_as_def v .
  moreover have "ledger_ok env R" using assms(2) unfolding ledger_ok_def v by (simp add: R_def InitLedger_def)
  ultimately show ?thesis using v by blast
qed

lemma InitAppMgr_ok:
  assumes "ledger_ok (ae_led env) L" "views_as (ae_led env) L C" "go_range (ae_rngK env)"
  shows "app_ok env (InitAppMgr env L) (C\<lparr>ch_state := apply_item (genesis_item HNB)
      (if lview L (KContract HGS) = None then apply_item (genesis_item HGS) (ch_state C) else ch_state C)\<rparr>) \<and>
    lview (ap_ledger (InitAppMgr env L)) (KContract HGS) \<noteq> None"
proof -
  define A where "A = \<lparr> ap_scs = [], ap_mems = (\<lambda>_. []), ap_next = 0, ap_ledger = L \<rparr>"
  define A1 where "A1 = install_one env HGS HgsContract (lview L (KContract HGS) \<noteq> None) A"
  have A: "ledger_ok (ae_led env) (ap_ledger A)" "views_as (ae_led env) (ap_ledger A) C" "mems_ok (ap_mems A)" "ap_ledger A = L"
    using assms by (simp_all add: A_def mems_ok_def)
  have init: "InitAppMgr env L = install_one env HNB HnbContract False A1" by (simp add: InitAppMgr_def A1_def A_def lview_def Let_def)
  have ne: "HGS \<noteq> HNB" by (simp add: HGS_def HNB_def)
  have 1: "ledger_ok (ae_led env) (ap_ledger A1)" "mems_ok (ap_mems A1)"
     "views_as (ae_led env) (ap_ledger A1) (C\<lparr>ch_state := if lview L (KContract HGS) = None then apply_item (genesis_item HGS) (ch_state C) else ch_state C\<rparr>)"
     "lview (ap_ledger A1) (KContract HGS) \<noteq> None"
    using install_one_ok [OF A(1-3) assms(3), of HGS HgsContract HGS] A by (auto simp: A1_def install_one_def setHandler_def)
  have scs: "ap_scs (install_one env c k b B) = gput (ap_scs B) c k" for c k b B
    by (simp add: install_one_def setHandler_def Let_def new_api_def split: prod.splits)
  then have "getHandler HGS (InitAppMgr env L) = Some HgsContract" "getHandler HNB (InitAppMgr env L) = Some HnbContract"
    "\<forall>c. getHandler c (InitAppMgr env L) \<noteq> None \<longrightarrow> contract_chain c"
    using ne by (auto simp: init A1_def A_def getHandler_def contract_chain_def gget_def gput_def split: if_splits)
  then show ?thesis using install_one_ok [OF 1(1,3,2) assms(3), of HNB HnbContract HGS] 1(4) by (simp add: app_ok_def init)
qed

section \<open>Properties\<close>

definition processed_header :: "app_env \<Rightarrow> Block \<Rightarrow> Header \<Rightarrow> Header" where
  "processed_header env blk h = h\<lparr>hd_StateHash := ae_stateHash env (nonce_items (bk_Txs blk))\<rparr>"

definition processed_block :: "app_env \<Rightarrow> Block \<Rightarrow> Header \<Rightarrow> Block" where
  "processed_block env blk h = blk\<lparr>bk_Header := Some (processed_header env blk h)\<rparr>"

lemma processed_simps [simp]:
  "hd_BlockNum (processed_header env blk h) = hd_BlockNum h" "bk_Header (processed_block env blk h) = Some (processed_header env blk h)" "bk_Txs (processed_block env blk h) = bk_Txs blk"
  by (simp_all add: processed_header_def processed_block_def)

text \<open>What becomes of a block, with the changes it writes.\<close>

lemma BlockProcess_step:
  assumes "app_ok env A C" "bk_Header blk = Some h" "small (hd_BlockNum h)" "go_range (ae_rngA env)" "go_range (ae_rngK env)"
    "le_decBlock (ae_led env) (le_encBlock (ae_led env) (processed_block env blk h)) = Some (processed_block env blk h)"
    "process_txs env (bk_Txs blk) ([], [], A) = (None, apis, ni, A1)"
  shows "\<exists>A'. BlockProcess env (Some blk) A = Some (if hd_BlockNum h = ch_height C then None else Some (LedgerFailed HeightInvalid), A') \<and>
    app_ok env A' (if hd_BlockNum h = ch_height C
      then extend_chain (processed_header env blk h) (processed_block env blk h) (all_changes env apis (ap_mems A1)) (nonce_items (bk_Txs blk)) C else C)"
proof -
  have "apis_ok []" by (simp add: apis_ok_def gomap_ok_def gget_def)
  note p = process_txs_ok [OF assms(1) this assms(7)]
  then have ok: "app_ok env A1 C" "apis_ok apis" "ni = nonce_items (bk_Txs blk)" by (auto split: if_splits)
  let ?items = "all_changes env apis (ap_mems A1)" and ?blk = "processed_block env blk h"
  have "\<forall>v \<in> set ?items. contract_chain (si_ChainID v)" by (rule all_changes_chain [OF ok(2) _ assms(4,5)]) (use ok(1) in \<open>simp add: app_ok_def\<close>)
  then obtain err L where L: "WriteLedger (ae_led env) ?blk ?items ni (ap_ledger A1) = Some (err, L)" "err = (if hd_BlockNum h = ch_height C then None else Some HeightInvalid)"
      "ledger_ok (ae_led env) L" "views_as (ae_led env) L (chain_write (?blk, ?items, ni) C)"
    using WriteLedger_step [of "ae_led env" "ap_ledger A1" C ?blk "processed_header env blk h" ?items ni] ok(1) assms(3,6) by (auto simp: app_ok_def)
  have "BlockProcess env (Some blk) A = Some (map_option LedgerFailed err, A1\<lparr>ap_ledger := L\<rparr>)"
    using assms(2,7) L(1) ok(3) by (simp add: BlockProcess_def processed_block_def processed_header_def)
  moreover have "app_ok env (A1\<lparr>ap_ledger := L\<rparr>) (chain_write (?blk, ?items, ni) C)" using ok(1) L(3,4) by (simp add: app_ok_def)
  ultimately show ?thesis using L(2) ok(3) by (auto simp: chain_write_def split: if_splits)
qed

text \<open>Claim C25.  Processing a block at the next height extends the chain by it: the block, with the hash of the nonces in its header, can be read, the height is one
  more, every transaction is indexed, and the nonce of each sender is one above that of its last transaction, failed transactions included.  A block at another
  height, or with a transaction for a contract that is not installed, is refused and leaves the chain as it was.\<close>

theorem block_process_extends_chain:
  assumes "app_ok env A C" "bk_Header blk = Some h" "small (hd_BlockNum h)" "go_range (ae_rngA env)" "go_range (ae_rngK env)"
    "le_decBlock (ae_led env) (le_encBlock (ae_led env) (processed_block env blk h)) = Some (processed_block env blk h)"
    "\<forall>x. le_decIndex (ae_led env) (le_encIndex (ae_led env) x) = Some x"
  shows "\<exists>err A' C'. BlockProcess env (Some blk) A = Some (err, A') \<and> app_ok env A' C' \<and> reads_as (ae_led env) (ap_ledger A') C' \<and>
    (if \<exists>tx \<in> set (bk_Txs blk). tx_ContractName tx \<notin> {HGS, HNB} then err = Some ChainNotExist \<and> C' = C
     else if hd_BlockNum h \<noteq> ch_height C then err = Some (LedgerFailed HeightInvalid) \<and> C' = C
     else err = None \<and> (\<exists>items. C' = extend_chain (processed_header env blk h) (processed_block env blk h) items (nonce_items (bk_Txs blk)) C))"
proof -
  obtain e apis ni A1 where p: "process_txs env (bk_Txs blk) ([], [], A) = (e, apis, ni, A1)" by (metis prod_cases4)
  have "apis_ok []" by (simp add: apis_ok_def gomap_ok_def gget_def)
  note q = process_txs_ok [OF assms(1) this p]
  have reads: "reads_as (ae_led env) (ap_ledger B) D" if "app_ok env B D" for B D using that views_reads assms(7) by (simp add: app_ok_def)
  show ?thesis
  proof (cases "\<forall>tx \<in> set (bk_Txs blk). contract_chain (tx_ContractName tx)")
    case True
    then have "process_txs env (bk_Txs blk) ([], [], A) = (None, apis, ni, A1)" using q p by simp
    note BlockProcess_step [OF assms(1-6) this]
    then show ?thesis using True reads by (fastforce simp: contract_chain_def)
  next
    case False
    then have "e = Some ChainNotExist" "app_ok env A1 C" using q by auto
    then have "BlockProcess env (Some blk) A = Some (Some ChainNotExist, A1)" using p by (simp add: BlockProcess_def)
    then show ?thesis using False reads [OF \<open>app_ok env A1 C\<close>] \<open>app_ok env A1 C\<close> by (auto simp: contract_chain_def)
  qed
qed

text \<open>A node whose blocks hold one transfer of 5 tokens from the first account to the address \<open>[1]\<close>.\<close>

definition app_tx :: transaction where
  "app_tx = NewTransaction\<lparr>tx_ContractName := HNB, tx_From := genesis_user, tx_NonceValue := 7\<rparr>"

definition app_block :: "u64 \<Rightarrow> Block" where
  "app_block n = \<lparr> bk_Header = Some (sample_header n), bk_Txs = [app_tx] \<rparr>"

definition app_sample :: app_env where
  "app_sample = \<lparr> ae_led = sample_env\<lparr>le_decBlock := (\<lambda>d. map_option app_block (be_read64 d))\<rparr>,
     ae_cc = sample_codec\<lparr>cc_decTx := (\<lambda>d. Some \<lparr> hx_TxType = SAME, hx_PayLoad = [] \<rparr>), cc_decSame := (\<lambda>d. Some \<lparr> sx_OutputAddr = [1], sx_Amount = 5 \<rparr>)\<rparr>,
     ae_errText = (\<lambda>e. []), ae_stateHash = (\<lambda>ni. []), ae_rngA = rev, ae_rngK = rev, ae_rngV = rev \<rparr>"

definition app_start :: App where
  "app_start = InitAppMgr app_sample (InitLedger 0 0 (\<lambda>_. lv_open))"

definition boot_chain :: chain_state where
  "boot_chain = empty_chain\<lparr>ch_state := apply_item (genesis_item HNB) (apply_item (genesis_item HGS) (ch_state empty_chain))\<rparr>"

lemma app_sample_ranges: "go_range (ae_rngA app_sample)" "go_range (ae_rngK app_sample)"
  by (simp_all add: app_sample_def go_range_rev)

lemma app_sample_index: "\<forall>x. le_decIndex (ae_led app_sample) (le_encIndex (ae_led app_sample) x) = Some x"
  using sample_env_ok(2) by (simp add: app_sample_def sample_env_def)

lemma app_start_ok: "app_ok app_sample app_start boot_chain" "lview (ap_ledger app_start) (KContract HGS) \<noteq> None"
proof -
  let ?L = "InitLedger 0 0 (\<lambda>_. lv_open)"
  have "ledger_ok (ae_led app_sample) ?L" "views_as (ae_led app_sample) ?L empty_chain" "lview ?L (KContract HGS) = None"
    by (simp_all add: app_sample_def sample_env_def InitLedger_def lv_open_def ledger_ok_def healthy_def lview_def bview_def views_as_def empty_chain_def)
  from InitAppMgr_ok [OF this(1,2) app_sample_ranges(2)] this(3)
  show "app_ok app_sample app_start boot_chain" "lview (ap_ledger app_start) (KContract HGS) \<noteq> None" by (simp_all add: app_start_def boot_chain_def)
qed

lemma app_block_round: "bk_Header (app_block n) = Some (sample_header n)"
  "le_decBlock (ae_led app_sample) (le_encBlock (ae_led app_sample) (processed_block app_sample (app_block n) (sample_header n))) = Some (processed_block app_sample (app_block n) (sample_header n))"
  by (simp_all add: app_sample_def sample_env_def app_block_def processed_block_def processed_header_def sample_header_def)

theorem block_process_extends_chain_witness:
  "\<exists>A'. BlockProcess app_sample (Some (app_block 0)) app_start = Some (None, A') \<and> ns_GetNonce (ae_led app_sample) genesis_user (ap_ledger A') = Some (Inr 8) \<and>
     (\<exists>L. GetBlockHeight (ae_led app_sample) (ap_ledger A') = Some (Inr 1, L))"
proof -
  have "small (hd_BlockNum (sample_header 0))" by (simp add: small_def sample_header_def)
  from block_process_extends_chain [OF app_start_ok(1) app_block_round(1) this app_sample_ranges app_block_round(2) app_sample_index]
  obtain A' items where "BlockProcess app_sample (Some (app_block 0)) app_start = Some (None, A')"
     "reads_as (ae_led app_sample) (ap_ledger A') (extend_chain (processed_header app_sample (app_block 0) (sample_header 0)) (processed_block app_sample (app_block 0) (sample_header 0)) items
        (nonce_items (bk_Txs (app_block 0))) boot_chain)"
    by (auto simp: app_block_def app_tx_def boot_chain_def empty_chain_def sample_header_def)
  then show ?thesis by (auto simp: reads_as_def extend_chain_def nonce_items_def app_block_def app_tx_def sample_header_def)
qed

text \<open>Claim C29.  The mark that the HNB contract is installed is written but not looked at: whenever the node restarts on its database, the contract is installed again,
  and the balance of the first account is ten million again, whatever it was, while the rest of the chain is as before.\<close>

theorem restart_resets_genesis_balance:
  assumes "app_ok env A C" "lview (ap_ledger A) (KContract HGS) \<noteq> None" "go_range (ae_rngK env)" "\<forall>x. le_decIndex (ae_led env) (le_encIndex (ae_led env) x) = Some x"
  shows "reads_as (ae_led env) (ap_ledger (InitAppMgr env (InitLedger (lg_db (ap_ledger A)) (lg_blockDB (ap_ledger A)) (lg_stores (ap_ledger A)))))
    (C\<lparr>ch_state := (ch_state C)(HNB := (ch_state C HNB)(genesis_user \<mapsto> FormatInt 10000000))\<rparr>)"
proof -
  let ?L = "InitLedger (lg_db (ap_ledger A)) (lg_blockDB (ap_ledger A)) (lg_stores (ap_ledger A))"
  obtain m where L: "ledger_ok (ae_led env) ?L" "views_as (ae_led env) ?L C" "lview ?L (KContract HGS) = Some m"
    using InitLedger_restart [of "ae_led env" "ap_ledger A" C] assms(1,2) by (auto simp: app_ok_def)
  have "apply_item (genesis_item HNB) (ch_state C) = (ch_state C)(HNB := (ch_state C HNB)(genesis_user \<mapsto> FormatInt 10000000))"
    by (simp add: apply_item_def genesis_item_def)
  then have "app_ok env (InitAppMgr env ?L) (C\<lparr>ch_state := (ch_state C)(HNB := (ch_state C HNB)(genesis_user \<mapsto> FormatInt 10000000))\<rparr>)"
    using InitAppMgr_ok [OF L(1,2) assms(3)] L(3) by simp
  then show ?thesis using views_reads assms(4) by (simp add: app_ok_def)
qed

theorem restart_resets_genesis_balance_witness:
  "\<exists>A :: App. GetContractState (ae_led app_sample) HNB genesis_user (ap_ledger A) = Inr (Some (FormatInt 5)) \<and>
     GetContractState (ae_led app_sample) HNB genesis_user
       (ap_ledger (InitAppMgr app_sample (InitLedger (lg_db (ap_ledger A)) (lg_blockDB (ap_ledger A)) (lg_stores (ap_ledger A))))) = Inr (Some (FormatInt 10000000))"
proof -
  let ?v = "(genesis_item HNB)\<lparr>si_Value := FormatInt 5\<rparr>"
  let ?A = "app_start\<lparr>ap_ledger := SetContractState (ae_led app_sample) [?v] (ap_ledger app_start)\<rparr>"
  let ?C = "boot_chain\<lparr>ch_state := apply_item ?v (ch_state boot_chain)\<rparr>"
  have "\<forall>v \<in> set [?v]. contract_chain (si_ChainID v)" by (simp add: genesis_item_def)
  from SetContractState_views [OF _ _ this, of "ae_led app_sample" "ap_ledger app_start" boot_chain HGS] app_start_ok
  have ok: "app_ok app_sample ?A ?C" "lview (ap_ledger ?A) (KContract HGS) \<noteq> None" by (simp_all add: app_ok_def)
  have "GetContractState (ae_led app_sample) HNB genesis_user (ap_ledger ?A) = Inr (ch_state ?C HNB genesis_user)"
    using ok(1) ss_GetState_view [of "ae_led app_sample" "ap_ledger ?A" HNB] by (simp add: app_ok_def views_as_def)
  moreover have "ch_state ?C HNB genesis_user = Some (FormatInt 5)" by (simp add: apply_item_def genesis_item_def)
  moreover note restart_resets_genesis_balance [OF ok app_sample_ranges(2) app_sample_index]
  ultimately have "GetContractState (ae_led app_sample) HNB genesis_user (ap_ledger ?A) = Inr (Some (FormatInt 5)) \<and> GetContractState (ae_led app_sample) HNB genesis_user
       (ap_ledger (InitAppMgr app_sample (InitLedger (lg_db (ap_ledger ?A)) (lg_blockDB (ap_ledger ?A)) (lg_stores (ap_ledger ?A))))) = Inr (Some (FormatInt 10000000))"
    by (simp only: reads_as_def) simp
  then show ?thesis by (rule exI)
qed

text \<open>What the ledger holds for an account.\<close>

definition committed_bal :: "app_env \<Rightarrow> App \<Rightarrow> string \<Rightarrow> bytes \<Rightarrow> int" where
  "committed_bal env A c x = (case GetContractState (ae_led env) c x (ap_ledger A) of Inr v \<Rightarrow> num_of v | Inl e \<Rightarrow> 0)"

lemma committed_bal_sum: "app_ok env A C \<Longrightarrow> contract_chain c \<Longrightarrow> (\<Sum>x\<in>Acc. committed_bal env A c x) mod 2 ^ 64 = chain_sum C c Acc"
  using committed_chain [of env A C c] by (simp add: committed_bal_def chain_sum_def token_sum_def committed_of_def)

text \<open>Claim C26.  A block of transfers, in both tokens and in any order, keeps the supply: whether the block is accepted or refused and whichever of its transfers
  fail, the balances in the ledger of any set of accounts that holds the senders and receivers sum up to the same as before, in 64-bit arithmetic.\<close>

theorem block_of_transfers_keeps_supply:
  assumes "app_ok env A C" "bk_Header blk = Some h" "small (hd_BlockNum h)" "go_range (ae_rngA env)" "go_range (ae_rngK env)"
    "le_decBlock (ae_led env) (le_encBlock (ae_led env) (processed_block env blk h)) = Some (processed_block env blk h)"
    "finite Acc" "\<forall>tx \<in> set (bk_Txs blk). transfer_tx (ae_cc env) Acc tx" "c \<in> {HGS, HNB}" "BlockProcess env (Some blk) A = Some (err, A')"
  shows "(\<Sum>x\<in>Acc. committed_bal env A' c x) mod 2 ^ 64 = (\<Sum>x\<in>Acc. committed_bal env A c x) mod 2 ^ 64"
proof -
  have c: "contract_chain c" using assms(9) by (auto simp: contract_chain_def)
  obtain e apis ni A1 where p: "process_txs env (bk_Txs blk) ([], [], A) = (e, apis, ni, A1)" by (metis prod_cases4)
  have "apis_ok []" by (simp add: apis_ok_def gomap_ok_def gget_def)
  then have inv: "transfer_inv env C Acc [] A" using assms(1) by (simp add: transfer_inv_def gget_def)
  have "\<exists>C'. app_ok env A' C' \<and> chain_sum C' c Acc = chain_sum C c Acc"
  proof (cases e)
    case None
    note p' = p [unfolded None]
    note inv1 = process_txs_transfer [OF inv assms(8,7) p']
    note step = BlockProcess_step [OF assms(1-6) p']
    then show ?thesis
    proof (cases "hd_BlockNum h = ch_height C")
      case True
      then show ?thesis using step assms(10) all_changes_sum [OF inv1 assms(4,5) c] by (auto simp: extend_chain_def chain_sum_def)
    next
      case False
      then show ?thesis using step assms(10) by auto
    qed
  next
    case (Some x)
    then have "A' = A1" using p assms(10) by (simp add: BlockProcess_def)
    then show ?thesis using process_txs_ok [OF assms(1) \<open>apis_ok []\<close> p] by auto
  qed
  then show ?thesis using committed_bal_sum [OF _ c] assms(1) by metis
qed

theorem block_of_transfers_keeps_supply_witness:
  "\<exists>A'. BlockProcess app_sample (Some (app_block 0)) app_start = Some (None, A') \<and>
     (\<Sum>x\<in>{genesis_user, [1]}. committed_bal app_sample A' HNB x) mod 2 ^ 64 = 10000000"
proof -
  have sm: "small (hd_BlockNum (sample_header 0))" by (simp add: small_def sample_header_def)
  have "process_txs app_sample (bk_Txs (app_block 0)) ([], [], app_start) = (None, snd (process_txs app_sample (bk_Txs (app_block 0)) ([], [], app_start)))"
  proof -
    have "apis_ok []" by (simp add: apis_ok_def gomap_ok_def gget_def)
    moreover obtain e apis ni A1 where p: "process_txs app_sample (bk_Txs (app_block 0)) ([], [], app_start) = (e, apis, ni, A1)" by (metis prod_cases4)
    ultimately have "e = None" using process_txs_ok [OF app_start_ok(1) _ p] by (simp add: app_block_def app_tx_def)
    then show ?thesis using p by simp
  qed
  then obtain apis ni A1 where p: "process_txs app_sample (bk_Txs (app_block 0)) ([], [], app_start) = (None, apis, ni, A1)" by (metis prod_cases3)
  have "hd_BlockNum (sample_header 0) = ch_height boot_chain" by (simp add: sample_header_def boot_chain_def empty_chain_def)
  then obtain A' where A': "BlockProcess app_sample (Some (app_block 0)) app_start = Some (None, A')"
    using BlockProcess_step [OF app_start_ok(1) app_block_round(1) sm app_sample_ranges app_block_round(2) p] by auto
  have gen: "Address_GetBytes genesis_user = genesis_user" "genesis_user \<noteq> [1]" by code_simp+
  have "\<forall>tx \<in> set (bk_Txs (app_block 0)). transfer_tx (ae_cc app_sample) {genesis_user, [1]} tx"
    by (simp add: app_block_def app_tx_def transfer_tx_def app_sample_def gen)
  from block_of_transfers_keeps_supply [OF app_start_ok(1) app_block_round(1) sm app_sample_ranges app_block_round(2) _ this _ A', of HNB]
  have "(\<Sum>x\<in>{genesis_user, [1]}. committed_bal app_sample A' HNB x) mod 2 ^ 64 = (\<Sum>x\<in>{genesis_user, [1]}. committed_bal app_sample app_start HNB x) mod 2 ^ 64" by simp
  also have "\<dots> = chain_sum boot_chain HNB {genesis_user, [1]}" by (rule committed_bal_sum [OF app_start_ok(1)]) simp
  also have "\<dots> = 10000000"
    using gen(2) by (simp add: chain_sum_def token_sum_def boot_chain_def empty_chain_def apply_item_def genesis_item_def num_of_def HGS_def HNB_def in_int64_def MinInt64_def MaxInt64_def)
  finally show ?thesis using A' by blast
qed

end
