(* ===== verification/ConsBlock.thy ===== *)
theory ConsBlock
  imports Vote Ledger
begin

text \<open>
  The blocks of the consensus layer: \<open>consensus/algorand/types/tx.go\<close>, \<open>evidence.go\<close>, \<open>params.go\<close>, the header, data and block of \<open>block.go\<close>, the
  conversions of \<open>util.go\<close> between these blocks and those of the ledger, and \<open>consensus/algorand/state\<close>.

  Parameters: the RIPEMD160 of the Merkle trees, \<open>msp.Hash256\<close>, the hashers over the amino and JSON encodings of single values, the
  codecs, and the order in which a map is ranged over.  \<open>None\<close> as the result of an operation is a run-time panic.  A nil and an empty hash are both \<open>[]\<close>: the code
  compares hashes with \<open>bytes.Equal\<close>, and amino decodes an empty field to nil.  The caches of hashes hold what the functions recompute and are left out, but for
  the one of the transactions, which a block read from the ledger brings along.  Times are integers.
\<close>

section \<open>Parameters\<close>

datatype hash_item = ItU64 u64 | ItInt int | ItTime int | ItBlockID BlockID | ItBytes bytes

record hash_env =
  he_rip :: "bytes \<Rightarrow> bytes"
  he_h256 :: "bytes \<Rightarrow> bytes option"
  he_amino :: "hash_item \<Rightarrow> bytes"
  he_json :: "hash_item \<Rightarrow> bytes"
  he_vote :: "Vote option \<Rightarrow> bytes"
  he_val :: "bytes \<times> int \<Rightarrow> bytes"
  he_rng :: "bytes list \<Rightarrow> bytes list"

section \<open>Transactions\<close>

type_synonym Tx = bytes

definition Tx_Hash :: "hash_env \<Rightarrow> Tx \<Rightarrow> bytes" where
  "Tx_Hash he tx = (case he_h256 he tx of None \<Rightarrow> [] | Some digest \<Rightarrow> digest)"

fun Txs_Hash :: "hash_env \<Rightarrow> Tx list \<Rightarrow> bytes" where
  "Txs_Hash he txs = (case length txs of 0 \<Rightarrow> [] | Suc 0 \<Rightarrow> Tx_Hash he (txs ! 0)
     | _ \<Rightarrow> let m = (length txs + 1) div 2;
               left = Txs_Hash he (take m txs);
               right = Txs_Hash he (drop m txs)
           in SimpleHashFromTwoHashes (he_rip he) left right)"

declare Txs_Hash.simps [simp del]

fun find_index :: "('a \<Rightarrow> bool) \<Rightarrow> nat \<Rightarrow> 'a list \<Rightarrow> int" where
  "find_index P i [] = -1"
| "find_index P i (x # xs) = (if P x then int i else find_index P (i + 1) xs)"

definition Txs_Index :: "Tx list \<Rightarrow> Tx \<Rightarrow> int" where
  "Txs_Index txs tx = find_index (\<lambda>x. x = tx) 0 txs"

definition Txs_IndexByHash :: "hash_env \<Rightarrow> Tx list \<Rightarrow> bytes \<Rightarrow> int" where
  "Txs_IndexByHash he txs hash = find_index (\<lambda>x. Tx_Hash he x = hash) 0 txs"

record TxProof =
  tp_Index :: int
  tp_Total :: int
  tp_RootHash :: bytes
  tp_Data :: Tx
  tp_Proof :: "bytes list"

definition Txs_Proof :: "hash_env \<Rightarrow> Tx list \<Rightarrow> int \<Rightarrow> TxProof option" where
  "Txs_Proof he txs i = do {
     (root, proofs) \<leftarrow> SimpleProofsFromHashers (he_rip he) (map (Tx_Hash he) txs);
     if 0 \<le> i \<and> nat i < length txs \<and> nat i < length proofs
     then Some \<lparr> tp_Index = i, tp_Total = int (length txs), tp_RootHash = root, tp_Data = txs ! nat i, tp_Proof = proofs ! nat i \<rparr>
     else None }"

definition LeafHash :: "hash_env \<Rightarrow> TxProof \<Rightarrow> bytes" where
  "LeafHash he tp = Tx_Hash he (tp_Data tp)"

datatype tx_proof_error = DifferentHash | NegativeIndex | NoTotal | Inconsistent

definition TxProof_Validate :: "hash_env \<Rightarrow> TxProof \<Rightarrow> bytes \<Rightarrow> tx_proof_error option" where
  "TxProof_Validate he tp dataHash =
     (if dataHash \<noteq> tp_RootHash tp then Some DifferentHash
      else if tp_Index tp < 0 then Some NegativeIndex
      else if tp_Total tp \<le> 0 then Some NoTotal
      else if \<not> SimpleProof_Verify (he_rip he) (tp_Proof tp) (tp_Index tp) (tp_Total tp) (LeafHash he tp) (tp_RootHash tp) then Some Inconsistent
      else None)"

section \<open>Evidence\<close>

text \<open>The two mocks share the fields of \<open>MockGoodEvidence\<close>.\<close>

datatype Evidence =
    DuplicateVoteEvidence "Vote option" "Vote option"
  | MockGoodEvidence u64 bytes int
  | MockBadEvidence u64 bytes int

fun Evidence_Height :: "Evidence \<Rightarrow> u64 option" where
  "Evidence_Height (DuplicateVoteEvidence a b) = map_option vt_Height a"
| "Evidence_Height (MockGoodEvidence h addr i) = Some h"
| "Evidence_Height (MockBadEvidence h addr i) = Some h"

fun Evidence_Address :: "Evidence \<Rightarrow> bytes" where
  "Evidence_Address (DuplicateVoteEvidence a b) = []"
| "Evidence_Address (MockGoodEvidence h addr i) = addr"
| "Evidence_Address (MockBadEvidence h addr i) = addr"

fun Evidence_Index :: "Evidence \<Rightarrow> int option" where
  "Evidence_Index (DuplicateVoteEvidence a b) = map_option vt_ValidatorIndex a"
| "Evidence_Index (MockGoodEvidence h addr i) = Some i"
| "Evidence_Index (MockBadEvidence h addr i) = Some i"

definition mock_hash :: "u64 \<Rightarrow> int \<Rightarrow> bytes" where
  "mock_hash h i = FormatUint h @ ascii ''-'' @ FormatInt i"

fun Evidence_Hash :: "Evidence \<Rightarrow> bytes" where
  "Evidence_Hash (DuplicateVoteEvidence a b) = []"
| "Evidence_Hash (MockGoodEvidence h addr i) = mock_hash h i"
| "Evidence_Hash (MockBadEvidence h addr i) = mock_hash h i"

datatype evidence_error = EvStepMismatch | EvAddressMismatch | EvIndexMismatch | EvSameBlock | EvBadMock

fun Evidence_Verify :: "Evidence \<Rightarrow> evidence_error option option" where
  "Evidence_Verify (DuplicateVoteEvidence a b) = do {
     va \<leftarrow> a;
     vb \<leftarrow> b;
     Some (if vt_Height va \<noteq> vt_Height vb \<or> vt_Round va \<noteq> vt_Round vb \<or> vt_Type va \<noteq> vt_Type vb then Some EvStepMismatch
       else if vt_ValidatorAddress va \<noteq> vt_ValidatorAddress vb then Some EvAddressMismatch
       else if vt_ValidatorIndex va \<noteq> vt_ValidatorIndex vb then Some EvIndexMismatch
       else if bid_Equals (vt_BlockID va) (vt_BlockID vb) then Some EvSameBlock
       else None) }"
| "Evidence_Verify (MockGoodEvidence h addr i) = Some None"
| "Evidence_Verify (MockBadEvidence h addr i) = Some (Some EvBadMock)"

text \<open>Two pieces of duplicate vote evidence are always equal; a mock compared with another kind fails its type assertion.\<close>

fun Evidence_Equal :: "Evidence \<Rightarrow> Evidence \<Rightarrow> bool option" where
  "Evidence_Equal (DuplicateVoteEvidence a b) ev = Some True"
| "Evidence_Equal (MockGoodEvidence h addr i) (MockGoodEvidence h2 addr2 i2) = Some (h = h2 \<and> addr = addr2 \<and> i = i2)"
| "Evidence_Equal (MockBadEvidence h addr i) (MockBadEvidence h2 addr2 i2) = Some (h = h2 \<and> addr = addr2 \<and> i = i2)"
| "Evidence_Equal _ _ = None"

fun EvidenceList_Hash :: "hash_env \<Rightarrow> Evidence list \<Rightarrow> bytes" where
  "EvidenceList_Hash he evl = (case length evl of 0 \<Rightarrow> [] | Suc 0 \<Rightarrow> Evidence_Hash (evl ! 0)
     | _ \<Rightarrow> let m = (length evl + 1) div 2;
               left = EvidenceList_Hash he (take m evl);
               right = EvidenceList_Hash he (drop m evl)
           in SimpleHashFromTwoHashes (he_rip he) left right)"

declare EvidenceList_Hash.simps [simp del]

fun EvidenceList_Has :: "Evidence list \<Rightarrow> Evidence \<Rightarrow> bool option" where
  "EvidenceList_Has [] ev = Some False"
| "EvidenceList_Has (e # es) ev = do { eq \<leftarrow> Evidence_Equal e ev; if eq then Some True else EvidenceList_Has es ev }"

section \<open>Consensus parameters\<close>

record ConsensusParams =
  pr_MaxBytes :: int
  pr_MaxTxs :: int
  pr_MaxGas :: int
  pr_TxMaxBytes :: int
  pr_TxMaxGas :: int
  pr_BlockPartSizeBytes :: int
  pr_MaxAge :: u64

definition MaxBlockSizeBytes :: int where
  "MaxBlockSizeBytes = 104857600"

definition zero_params :: ConsensusParams where
  "zero_params = \<lparr> pr_MaxBytes = 0, pr_MaxTxs = 0, pr_MaxGas = 0, pr_TxMaxBytes = 0, pr_TxMaxGas = 0, pr_BlockPartSizeBytes = 0, pr_MaxAge = 0 \<rparr>"

definition DefaultConsensusParams :: ConsensusParams where
  "DefaultConsensusParams = \<lparr> pr_MaxBytes = 22020096, pr_MaxTxs = 100000, pr_MaxGas = -1, pr_TxMaxBytes = 10240, pr_TxMaxGas = -1,
     pr_BlockPartSizeBytes = 65536, pr_MaxAge = 100000 \<rparr>"

datatype params_error = NoMaxBytes | NoPartSize | MaxBytesTooBig

definition params_Validate :: "ConsensusParams \<Rightarrow> params_error option" where
  "params_Validate p = (if pr_MaxBytes p \<le> 0 then Some NoMaxBytes
     else if pr_BlockPartSizeBytes p \<le> 0 then Some NoPartSize
     else if pr_MaxBytes p > MaxBlockSizeBytes then Some MaxBytesTooBig
     else None)"

definition params_Hash :: "hash_env \<Rightarrow> ConsensusParams \<Rightarrow> bytes" where
  "params_Hash he p = SimpleHashFromMap (he_rip he) (he_rng he)
     [(ascii ''block_gossip_part_size_bytes'', he_json he (ItInt (pr_BlockPartSizeBytes p))),
      (ascii ''block_size_max_bytes'', he_json he (ItInt (pr_MaxBytes p))),
      (ascii ''block_size_max_gas'', he_json he (ItInt (pr_MaxGas p))),
      (ascii ''block_size_max_txs'', he_json he (ItInt (pr_MaxTxs p))),
      (ascii ''tx_size_max_bytes'', he_json he (ItInt (pr_TxMaxBytes p))),
      (ascii ''tx_size_max_gas'', he_json he (ItInt (pr_TxMaxGas p)))]"

section \<open>Headers, data and blocks\<close>

record TDMHeader =
  th_BlockNum :: u64
  th_Time :: int
  th_NumTxs :: int
  th_LastBlockID :: BlockID
  th_TotalTxs :: int
  th_LastCommitHash :: bytes
  th_DataHash :: bytes
  th_ValidatorsHash :: bytes
  th_ConsensusHash :: bytes
  th_AppHash :: bytes
  th_LastResultsHash :: bytes
  th_BlkVRFValue :: bytes
  th_BlkVRFProof :: bytes
  th_EvidenceHash :: bytes

definition Header_Hash :: "hash_env \<Rightarrow> TDMHeader option \<Rightarrow> bytes" where
  "Header_Hash he p = (case p of None \<Rightarrow> []
     | Some h \<Rightarrow> if length (th_ValidatorsHash h) = 0 then []
       else SimpleHashFromMap (he_rip he) (he_rng he)
         [(ascii ''BlockNum'', he_amino he (ItU64 (th_BlockNum h))),
          (ascii ''Time'', he_amino he (ItTime (th_Time h))),
          (ascii ''NumTxs'', he_amino he (ItInt (th_NumTxs h))),
          (ascii ''TotalTxs'', he_amino he (ItInt (th_TotalTxs h))),
          (ascii ''LastBlockID'', he_amino he (ItBlockID (th_LastBlockID h))),
          (ascii ''LastCommit'', he_amino he (ItBytes (th_LastCommitHash h))),
          (ascii ''Data'', he_amino he (ItBytes (th_DataHash h))),
          (ascii ''Validators'', he_amino he (ItBytes (th_ValidatorsHash h))),
          (ascii ''App'', he_amino he (ItBytes (th_AppHash h))),
          (ascii ''Consensus'', he_amino he (ItBytes (th_ConsensusHash h))),
          (ascii ''Results'', he_amino he (ItBytes (th_LastResultsHash h))),
          (ascii ''Evidence'', he_amino he (ItBytes (th_EvidenceHash h))),
          (ascii ''VRFValue'', he_amino he (ItBytes (th_BlkVRFValue h))),
          (ascii ''VRFProof'', he_amino he (ItBytes (th_BlkVRFProof h)))])"

text \<open>The transactions and the cache of their hash.\<close>

record TDMData =
  td_Txs :: "Tx list"
  td_hash :: bytes

definition Data_Hash :: "hash_env \<Rightarrow> TDMData option \<Rightarrow> bytes" where
  "Data_Hash he p = (case p of None \<Rightarrow> Txs_Hash he []
     | Some d \<Rightarrow> if td_hash d = [] then Txs_Hash he (td_Txs d) else td_hash d)"

text \<open>The receiver after a call of \<open>Hash\<close>, which fills the cache.\<close>

definition Data_cache :: "hash_env \<Rightarrow> TDMData option \<Rightarrow> TDMData option" where
  "Data_cache he p = map_option (\<lambda>d. d\<lparr>td_hash := Data_Hash he (Some d)\<rparr>) p"

record ValidatorInfo =
  vi_Validators :: "ValidatorSet option"
  vi_LastHeightChanged :: u64

record TDMBlock =
  tb_Header :: "TDMHeader option"
  tb_Data :: "TDMData option"
  tb_Evidence :: "Evidence list"
  tb_LastCommit :: "Commit option"
  tb_CurrentCommit :: "Commit option"
  tb_ValidatorInfo :: "ValidatorInfo option"

text \<open>\<open>fillHeader\<close>, for a block that has a header and a commit: what is nil in the header is computed from the block.\<close>

definition fillHeader :: "hash_env \<Rightarrow> TDMBlock \<Rightarrow> TDMBlock option" where
  "fillHeader he b = do {
     h \<leftarrow> tb_Header b;
     h1 \<leftarrow> (if th_LastCommitHash h = [] then map_option (\<lambda>c. h\<lparr>th_LastCommitHash := cm_Hash (he_rip he) (he_vote he) c\<rparr>) (tb_LastCommit b) else Some h);
     let h2 = (if th_DataHash h1 = [] then h1\<lparr>th_DataHash := Data_Hash he (tb_Data b)\<rparr> else h1);
     let h3 = (if th_EvidenceHash h2 = [] then h2\<lparr>th_EvidenceHash := EvidenceList_Hash he (tb_Evidence b)\<rparr> else h2);
     Some (b\<lparr>tb_Header := Some h3, tb_Data := if th_DataHash h1 = [] then Data_cache he (tb_Data b) else tb_Data b\<rparr>) }"

text \<open>\<open>Hash\<close> fills the header of the block it is called on; the second component is that block.\<close>

definition Block_Hash :: "hash_env \<Rightarrow> TDMBlock option \<Rightarrow> bytes \<times> TDMBlock option" where
  "Block_Hash he p = (case p of None \<Rightarrow> ([], None)
     | Some b \<Rightarrow> if tb_Header b = None \<or> tb_Data b = None \<or> tb_LastCommit b = None then ([], Some b)
       else (case fillHeader he b of None \<Rightarrow> ([], Some b) | Some b' \<Rightarrow> (Header_Hash he (tb_Header b'), Some b')))"

definition blk_hash :: "hash_env \<Rightarrow> TDMBlock option \<Rightarrow> bytes" where
  "blk_hash he p = fst (Block_Hash he p)"

definition HashesTo :: "hash_env \<Rightarrow> TDMBlock option \<Rightarrow> bytes \<Rightarrow> bool" where
  "HashesTo he p hash = (if length hash = 0 then False else if p = None then False else blk_hash he p = hash)"

definition zero_header :: TDMHeader where
  "zero_header = \<lparr> th_BlockNum = 0, th_Time = 0, th_NumTxs = 0, th_LastBlockID = zero_blockID, th_TotalTxs = 0, th_LastCommitHash = [], th_DataHash = [],
     th_ValidatorsHash = [], th_ConsensusHash = [], th_AppHash = [], th_LastResultsHash = [], th_BlkVRFValue = [], th_BlkVRFProof = [], th_EvidenceHash = [] \<rparr>"

text \<open>\<open>now\<close> is the time of the call.\<close>

definition types_MakeBlock :: "hash_env \<Rightarrow> int \<Rightarrow> u64 \<Rightarrow> Tx list \<Rightarrow> Commit option \<Rightarrow> TDMBlock option" where
  "types_MakeBlock he now blkNum txs commit = fillHeader he
     \<lparr> tb_Header = Some (zero_header\<lparr>th_BlockNum := blkNum, th_Time := now, th_NumTxs := int (length txs)\<rparr>),
       tb_Data = Some \<lparr> td_Txs = txs, td_hash = [] \<rparr>, tb_Evidence = [], tb_LastCommit = commit, tb_CurrentCommit = None, tb_ValidatorInfo = None \<rparr>"

definition AddEvidence :: "TDMBlock \<Rightarrow> Evidence list \<Rightarrow> TDMBlock" where
  "AddEvidence b evidence = b\<lparr>tb_Evidence := tb_Evidence b @ evidence\<rparr>"

datatype block_error = NilBlockErr | WrongNumTxs | WrongLastCommitHash | BadLastCommit commit_error | WrongDataHash | WrongEvidenceHash
  | WrongBlockNum | WrongLastBlockID | WrongTotalTxs | WrongConsensusHash | WrongValidatorsHash | FirstBlockHasCommit | WrongCommitSize

text \<open>The fields of the header are read through the embedded pointer, which panics when it is nil.\<close>

definition Block_ValidateBasic :: "hash_env \<Rightarrow> TDMBlock option \<Rightarrow> block_error option option" where
  "Block_ValidateBasic he p = (case p of None \<Rightarrow> Some (Some NilBlockErr)
     | Some b \<Rightarrow> do {
         h \<leftarrow> tb_Header b;
         if tb_Data b \<noteq> None \<and> th_NumTxs h \<noteq> int (length (td_Txs (the (tb_Data b)))) then Some (Some WrongNumTxs)
         else do {
           c \<leftarrow> tb_LastCommit b;
           if th_LastCommitHash h \<noteq> cm_Hash (he_rip he) (he_vote he) c then Some (Some WrongLastCommitHash)
           else if th_BlockNum h \<noteq> 1 \<and> cm_ValidateBasic c \<noteq> None then Some (Some (BadLastCommit (the (cm_ValidateBasic c))))
           else if th_DataHash h \<noteq> Data_Hash he (tb_Data b) then Some (Some WrongDataHash)
           else if th_EvidenceHash h \<noteq> EvidenceList_Hash he (tb_Evidence b) then Some (Some WrongEvidenceHash)
           else Some None } })"

section \<open>The state between two blocks\<close>

record State =
  st_LastBlockNum :: u64
  st_LastBlockTotalTx :: int
  st_LastBlockID :: BlockID
  st_LastBlockTime :: int
  st_Validators :: "ValidatorSet option"
  st_LastValidators :: "ValidatorSet option"
  st_LastHeightValidatorsChanged :: u64
  st_ConsensusParams :: ConsensusParams
  st_LastHeightConsensusParamsChanged :: int
  st_LastResultsHash :: bytes
  st_PreviousHash :: bytes
  st_PrevVRFValue :: bytes
  st_PrevVRFProof :: bytes

definition State_IsEmpty :: "State \<Rightarrow> bool" where
  "State_IsEmpty s \<longleftrightarrow> st_Validators s = None"

text \<open>A copy leaves out the consensus parameters, the previous hash and the VRF; copying a nil set of validators panics.\<close>

definition State_Copy :: "State \<Rightarrow> State option" where
  "State_Copy s = (if st_Validators s = None \<or> st_LastValidators s = None then None
     else Some (s\<lparr>st_ConsensusParams := zero_params, st_PreviousHash := [], st_PrevVRFValue := [], st_PrevVRFProof := []\<rparr>))"

definition GetValidators :: "State \<Rightarrow> ValidatorSet option \<times> ValidatorSet option" where
  "GetValidators s = (st_LastValidators s, st_Validators s)"

text \<open>\<open>marshal\<close> and \<open>mspVerify\<close> are those of the check of a commit.  Its error is printed and dropped.\<close>

definition ValidateBlock :: "hash_env \<Rightarrow> (Vote \<Rightarrow> bytes option) \<Rightarrow> verifier \<Rightarrow> State \<Rightarrow> TDMBlock option \<Rightarrow> block_error option option" where
  "ValidateBlock he marshal mspVerify s p = do {
     err \<leftarrow> Block_ValidateBasic he p;
     if err \<noteq> None then Some err
     else do {
       b \<leftarrow> p;
       h \<leftarrow> tb_Header b;
       c \<leftarrow> tb_LastCommit b;
       if th_BlockNum h \<noteq> st_LastBlockNum s + 1 then Some (Some WrongBlockNum)
       else if \<not> bid_Equals (th_LastBlockID h) (st_LastBlockID s) then Some (Some WrongLastBlockID)
       else do {
         d \<leftarrow> tb_Data b;
         if th_TotalTxs h \<noteq> int64 (st_LastBlockTotalTx s + int (length (td_Txs d))) then Some (Some WrongTotalTxs)
         else if th_ConsensusHash h \<noteq> params_Hash he (st_ConsensusParams s) then Some (Some WrongConsensusHash)
         else do {
           vals \<leftarrow> st_Validators s;
           if th_ValidatorsHash h \<noteq> vs_Hash (he_rip he) (he_val he) vals
           then (if tb_ValidatorInfo b = None then None else Some (Some WrongValidatorsHash))
           else if th_BlockNum h = 1 then Some (if length (cm_Precommits c) \<noteq> 0 then Some FirstBlockHasCommit else None)
           else do {
             last \<leftarrow> st_LastValidators s;
             if int (length (cm_Precommits c)) \<noteq> vs_Size last then Some (Some WrongCommitSize)
             else do {
               ignored \<leftarrow> VerifyCommitVoteSign marshal mspVerify last (th_BlockNum h - 1) c;
               Some None } } } } } }"

section \<open>New blocks\<close>

record BlkMaterial =
  bm_Height :: u64
  bm_NumTxs :: u64
  bm_Txs :: "Tx list"
  bm_Commit :: "Commit option"
  bm_Proposer :: "Validator option"
  bm_BlkVRFValue :: bytes
  bm_BlkVRFProof :: bytes

text \<open>\<open>enc\<close> is \<open>Codec.MarshalBinary\<close> of a block; its failure is a panic.\<close>

definition part_size :: nat where
  "part_size = 1024 * 1024"

definition MakePartSet :: "hash_env \<Rightarrow> (TDMBlock \<Rightarrow> bytes option) \<Rightarrow> TDMBlock \<Rightarrow> nat \<Rightarrow> PartSet option" where
  "MakePartSet he enc b partSize = do { bz \<leftarrow> enc b; NewPartSetFromData (he_rip he) bz partSize }"

text \<open>What the state adds to the header.\<close>

definition state_header :: "hash_env \<Rightarrow> State \<Rightarrow> ValidatorSet \<Rightarrow> TDMHeader \<Rightarrow> TDMHeader" where
  "state_header he s vals h = h\<lparr>th_TotalTxs := int64 (st_LastBlockTotalTx s + th_NumTxs h), th_LastBlockID := st_LastBlockID s,
     th_ValidatorsHash := vs_Hash (he_rip he) (he_val he) vals, th_ConsensusHash := params_Hash he (st_ConsensusParams s)\<rparr>"

definition State_MakeBlock :: "hash_env \<Rightarrow> (TDMBlock \<Rightarrow> bytes option) \<Rightarrow> int \<Rightarrow> State \<Rightarrow> u64 \<Rightarrow> Tx list \<Rightarrow> Commit option \<Rightarrow> (TDMBlock \<times> PartSet) option" where
  "State_MakeBlock he enc now s blkNum txs commit = do {
     b \<leftarrow> types_MakeBlock he now blkNum txs commit;
     h \<leftarrow> tb_Header b;
     vals \<leftarrow> st_Validators s;
     let info = \<lparr> vi_Validators = (if st_LastHeightValidatorsChanged s = blkNum then Some vals else None), vi_LastHeightChanged = st_LastHeightValidatorsChanged s \<rparr>;
     let b' = b\<lparr>tb_Header := Some (state_header he s vals h), tb_ValidatorInfo := Some info\<rparr>;
     ps \<leftarrow> MakePartSet he enc b' part_size;
     Some (b', ps) }"

text \<open>The proposer is written into the set of validators, which is nil unless the validators changed at this height.\<close>

definition MakeBlockVRF :: "hash_env \<Rightarrow> (TDMBlock \<Rightarrow> bytes option) \<Rightarrow> int \<Rightarrow> State \<Rightarrow> BlkMaterial \<Rightarrow> (TDMBlock \<times> PartSet) option" where
  "MakeBlockVRF he enc now s material = do {
     b \<leftarrow> types_MakeBlock he now (bm_Height material) (bm_Txs material) (bm_Commit material);
     h \<leftarrow> tb_Header b;
     vals \<leftarrow> st_Validators s;
     let h' = (state_header he s vals h)\<lparr>th_BlkVRFValue := bm_BlkVRFValue material, th_BlkVRFProof := bm_BlkVRFProof material\<rparr>;
     vs \<leftarrow> (if st_LastHeightValidatorsChanged s = bm_Height material then Some vals else None);
     let info = \<lparr> vi_Validators = Some (vs\<lparr>vs_Proposer := bm_Proposer material\<rparr>), vi_LastHeightChanged = st_LastHeightValidatorsChanged s \<rparr>;
     let b' = b\<lparr>tb_Header := Some h', tb_ValidatorInfo := Some info\<rparr>;
     ps \<leftarrow> MakePartSet he enc b' part_size;
     Some (b', ps) }"

definition MakeBlockDPoS :: "hash_env \<Rightarrow> (TDMBlock \<Rightarrow> bytes option) \<Rightarrow> int \<Rightarrow> State \<Rightarrow> BlkMaterial \<Rightarrow> (TDMBlock \<times> PartSet) option" where
  "MakeBlockDPoS he enc now s material = do {
     b \<leftarrow> types_MakeBlock he now (bm_Height material) (bm_Txs material) (bm_Commit material);
     h \<leftarrow> tb_Header b;
     vals \<leftarrow> st_Validators s;
     let h' = state_header he s vals (h\<lparr>th_NumTxs := sint (bm_NumTxs material)\<rparr>);
     let info = \<lparr> vi_Validators = Some (vals\<lparr>vs_Proposer := bm_Proposer material\<rparr>), vi_LastHeightChanged = st_LastHeightValidatorsChanged s \<rparr>;
     let b' = b\<lparr>tb_Header := Some h', tb_ValidatorInfo := Some info\<rparr>;
     ps \<leftarrow> MakePartSet he enc b' part_size;
     Some (b', ps) }"

section \<open>Blocks of the ledger\<close>

record CustomTDMHeader =
  ch_Header :: "TDMHeader option"
  ch_Evidence :: "Evidence list"
  ch_LastCommit :: "Commit option"
  ch_DataHash :: bytes
  ch_ValidatorInfo :: "ValidatorInfo option"

text \<open>The codecs: amino for the header and for the extension that holds the current commit, JSON for transactions.  \<open>None\<close> is their error.\<close>

record tdm_codec =
  tc_encHeader :: "CustomTDMHeader \<Rightarrow> bytes option"
  tc_decHeader :: "bytes \<Rightarrow> CustomTDMHeader option"
  tc_encExt :: "Commit option \<Rightarrow> bytes option"
  tc_decExt :: "bytes \<Rightarrow> Commit option option"
  tc_encTx :: "transaction \<Rightarrow> bytes option"
  tc_decTx :: "bytes \<Rightarrow> transaction option"

datatype conv_error = EncodeFailed | DecodeFailed | HashFailed

definition conv :: "conv_error \<Rightarrow> 'a option \<Rightarrow> conv_error + 'a" where
  "conv e x = (case x of None \<Rightarrow> Inl e | Some y \<Rightarrow> Inr y)"

fun map_conv :: "('a \<Rightarrow> conv_error + 'b) \<Rightarrow> 'a list \<Rightarrow> conv_error + 'b list" where
  "map_conv f [] = Inr []"
| "map_conv f (x # xs) = (case f x of Inl e \<Rightarrow> Inl e | Inr y \<Rightarrow> (case map_conv f xs of Inl e \<Rightarrow> Inl e | Inr ys \<Rightarrow> Inr (y # ys)))"

definition MakeHasher :: "hash_env \<Rightarrow> tdm_codec \<Rightarrow> transaction list \<Rightarrow> conv_error + bytes list" where
  "MakeHasher he tc txs = map_conv (\<lambda>tx. case conv EncodeFailed (tc_encTx tc tx) of Inl e \<Rightarrow> Inl e | Inr txBytes \<Rightarrow> conv HashFailed (he_h256 he txBytes)) txs"

text \<open>\<open>Data.hash\<close> is copied as it stands: it is nil in a block on which \<open>Data.Hash\<close> was never called, as the genesis block.  A negative number of transactions, or one beyond them, panics before or in the loop.\<close>

definition ConsToStandard :: "hash_env \<Rightarrow> tdm_codec \<Rightarrow> TDMBlock \<Rightarrow> (conv_error + Block) option" where
  "ConsToStandard he tc b = do {
     d \<leftarrow> tb_Data b;
     (case tc_encHeader tc \<lparr> ch_Header = tb_Header b, ch_Evidence = tb_Evidence b, ch_LastCommit = tb_LastCommit b, ch_DataHash = td_hash d,
                             ch_ValidatorInfo = tb_ValidatorInfo b \<rparr> of
        None \<Rightarrow> Some (Inl EncodeFailed)
      | Some customHeaderData \<Rightarrow>
     (case tc_encExt tc (tb_CurrentCommit b) of
        None \<Rightarrow> Some (Inl EncodeFailed)
      | Some customTDMExtData \<Rightarrow> do {
     h \<leftarrow> tb_Header b;
     if th_NumTxs h < 0 then None
     else (case map_conv (\<lambda>tx. conv DecodeFailed (tc_decTx tc tx)) (take (nat (th_NumTxs h)) (td_Txs d)) of
        Inl e \<Rightarrow> Some (Inl e)
      | Inr uniformTxs \<Rightarrow>
     if length (td_Txs d) < nat (th_NumTxs h) then None
     else (case MakeHasher he tc uniformTxs of
        Inl e \<Rightarrow> Some (Inl e)
      | Inr hasher \<Rightarrow> do {
     sender \<leftarrow> (if th_BlockNum h \<noteq> 0
                then do { info \<leftarrow> tb_ValidatorInfo b; vs \<leftarrow> vi_Validators info; proposer \<leftarrow> vs_Proposer vs; Some (v_Address proposer) }
                else Some []);
     Some (Inr \<lparr> bk_Header = Some \<lparr> hd_BlockNum = th_BlockNum h, hd_PreviousHash = [], hd_CreateTime = word_of_int (go_quot (th_Time h) 1000000),
                   hd_SenderId = sender, hd_ConsArgs = customHeaderData, hd_Ext = customTDMExtData,
                   hd_TxsHash = SimpleHashFromByteslices (he_rip he) hasher, hd_StateHash = [] \<rparr>,
                 bk_Txs = uniformTxs \<rparr>) })) })) }"

definition Standard2Cons :: "tdm_codec \<Rightarrow> Block \<Rightarrow> (conv_error + TDMBlock) option" where
  "Standard2Cons tc blk = do {
     h \<leftarrow> bk_Header blk;
     Some (case tc_decHeader tc (hd_ConsArgs h) of None \<Rightarrow> Inl DecodeFailed
       | Some customHeader \<Rightarrow>
      (case tc_decExt tc (hd_Ext h) of None \<Rightarrow> Inl DecodeFailed
       | Some currentCommit \<Rightarrow>
      (case map_conv (\<lambda>tx. conv EncodeFailed (tc_encTx tc tx)) (bk_Txs blk) of Inl e \<Rightarrow> Inl e
       | Inr tdmTxs \<Rightarrow> Inr \<lparr> tb_Header = ch_Header customHeader, tb_Data = Some \<lparr> td_Txs = tdmTxs, td_hash = ch_DataHash customHeader \<rparr>,
           tb_Evidence = ch_Evidence customHeader, tb_LastCommit = ch_LastCommit customHeader, tb_CurrentCommit = currentCommit,
           tb_ValidatorInfo = ch_ValidatorInfo customHeader \<rparr>))) }"

definition Tx2TDMTx :: "tdm_codec \<Rightarrow> transaction list \<Rightarrow> conv_error + Tx list" where
  "Tx2TDMTx tc txs = map_conv (\<lambda>tx. conv EncodeFailed (tc_encTx tc tx)) txs"

end
