(* ===== verification/ConsMsg.thy ===== *)
theory ConsMsg
  imports Vote
begin

text \<open>
  The messages of the consensus: the wire types of \<open>consensus/algorand/common/msg.go\<close>, \<open>types/proposal.go\<close>, the builders and readers of
  \<open>msgHandler/enterPrecommitHandler.go\<close>, \<open>enterProposeHandler.go\<close>, \<open>proposalMsgHandler.go\<close> and \<open>blockPartMsgHandler.go\<close>, and \<open>signAndVerify.go\<close>.

  JSON encoders and decoders, the signer and the verifier of \<open>msp\<close> are parameters; \<open>None\<close> as the result of one of them is its error.  Where a function can
  dereference nil, the result is an option and \<open>None\<close> is the panic.  The time of a vote is in seconds, as the code makes it.
\<close>

section \<open>Wire types\<close>

record NetPartSetHeader =
  nh_Total :: "32 word"
  nh_Hash :: bytes
  nh_Nil :: bool

record NetBlockID =
  nb_Hash :: bytes
  nb_PartsHeader :: "NetPartSetHeader option"

record VoteMessage =
  vm_ValidatorAddress :: bytes
  vm_ValidatorIndex :: "32 word"
  vm_Height :: u64
  vm_Round :: "32 word"
  vm_Timestamp :: u64
  vm_VoteType :: "32 word"
  vm_BlockID :: "NetBlockID option"
  vm_Signature :: bytes

record ProposalMessage =
  pm_Height :: u64
  pm_Round :: "32 word"
  pm_Timestamp :: u64
  pm_BlockPartsHeader :: "NetPartSetHeader option"
  pm_PoLRound :: "32 word"
  pm_PoLBlockID :: "NetBlockID option"

record NetPart =
  np_Index :: "32 word"
  np_Bytes :: bytes
  np_Proof :: "bytes list"

record BlockPartMessage =
  bpm_Height :: u64
  bpm_Round :: "32 word"
  bpm_Part :: "NetPart option"

datatype TDMType = MsgProposal | MsgVote | MsgBlockPart | MsgProposalHeartBeat | MsgNewRoundStep | MsgCommitStep | MsgProposalPOL | MsgHasVote
  | MsgVoteSetMaj23 | MsgVoteSetBits | MsgHeightReq | MsgHeihtResp | MsgBgAdvice | MsgBgDemand | MsgBinaryBlockHashReq | MsgBinaryBlockHashResp | MsgCheckFork

record TDMMessage =
  tm_Type :: TDMType
  tm_Payload :: bytes
  tm_Signature :: bytes

record PeerMessage =
  me_Msg :: bytes
  me_PeerID :: u64
  me_Sender :: bytes
  me_IsBroadCast :: bool
  me_Flag :: int

text \<open>\<open>consensusType.Tendermint\<close>.\<close>

definition Tendermint :: int where
  "Tendermint = 2"

text \<open>A proposal; its time is in nanoseconds.\<close>

record Proposal =
  pp_Height :: u64
  pp_Round :: int
  pp_Timestamp :: int
  pp_BlockPartsHeader :: PartSetHeader
  pp_POLRound :: int
  pp_POLBlockID :: BlockID

definition NewProposal :: "int \<Rightarrow> u64 \<Rightarrow> int \<Rightarrow> PartSetHeader \<Rightarrow> int \<Rightarrow> BlockID \<Rightarrow> Proposal" where
  "NewProposal now height round blockPartsHeader polRound polBlockID = \<lparr> pp_Height = height, pp_Round = round, pp_Timestamp = now,
     pp_BlockPartsHeader = blockPartsHeader, pp_POLRound = polRound, pp_POLBlockID = polBlockID \<rparr>"

section \<open>Signing and sending\<close>

record net_env =
  ne_encVote :: "VoteMessage \<Rightarrow> bytes option"
  ne_decVote :: "bytes \<Rightarrow> VoteMessage option"
  ne_encProposal :: "ProposalMessage \<Rightarrow> bytes option"
  ne_decProposal :: "bytes \<Rightarrow> ProposalMessage option"
  ne_encPart :: "BlockPartMessage \<Rightarrow> bytes option"
  ne_decPart :: "bytes \<Rightarrow> BlockPartMessage option"
  ne_encTDM :: "TDMMessage \<Rightarrow> bytes option"
  ne_decTDM :: "bytes \<Rightarrow> TDMMessage option"
  ne_encCons :: "int \<times> bytes \<Rightarrow> bytes option"
  ne_decCons :: "bytes \<Rightarrow> (int \<times> bytes) option"
  ne_encVoteJSON :: "Vote \<Rightarrow> bytes option"
  ne_sign :: "bytes \<Rightarrow> bytes option"
  ne_verify :: "bytes \<Rightarrow> bytes \<Rightarrow> bytes \<Rightarrow> bool option"
  ne_ID :: bytes

definition tdm_Sign :: "net_env \<Rightarrow> TDMMessage \<Rightarrow> TDMMessage option" where
  "tdm_Sign ne message = do { c \<leftarrow> ne_encTDM ne message; sign \<leftarrow> ne_sign ne c; Some (message\<lparr>tm_Signature := sign\<rparr>) }"

text \<open>The signature is taken off, the rest is encoded again and checked with the key of the sender.\<close>

definition tdm_Verify :: "net_env \<Rightarrow> TDMMessage \<Rightarrow> bytes \<Rightarrow> bool" where
  "tdm_Verify ne message pubKeyID = (case ne_encTDM ne (message\<lparr>tm_Signature := []\<rparr>) of None \<Rightarrow> False
     | Some c \<Rightarrow> ne_verify ne pubKeyID (tm_Signature message) c = Some True)"

definition mySignVote :: "net_env \<Rightarrow> Vote \<Rightarrow> Vote option" where
  "mySignVote ne vote = do { voteBytes \<leftarrow> ne_encVoteJSON ne vote; signature \<leftarrow> ne_sign ne voteBytes; Some (vote\<lparr>vt_Signature := signature\<rparr>) }"

text \<open>The common tail of the three builders: sign, encode twice and wrap.\<close>

definition wrap_msg :: "net_env \<Rightarrow> TDMType \<Rightarrow> bytes \<Rightarrow> PeerMessage option" where
  "wrap_msg ne ty payload = do {
     tdmMsgSign \<leftarrow> tdm_Sign ne \<lparr> tm_Type = ty, tm_Payload = payload, tm_Signature = [] \<rparr>;
     tdmData \<leftarrow> ne_encTDM ne tdmMsgSign;
     conData \<leftarrow> ne_encCons ne (Tendermint, tdmData);
     Some \<lparr> me_Msg = conData, me_PeerID = 0, me_Sender = ne_ID ne, me_IsBroadCast = False, me_Flag = 0 \<rparr> }"

definition net_header :: "PartSetHeader \<Rightarrow> bool \<Rightarrow> NetPartSetHeader" where
  "net_header psh isNil = \<lparr> nh_Total = word_of_int (psh_Total psh), nh_Hash = psh_Hash psh, nh_Nil = isNil \<rparr>"

definition net_blockID :: "BlockID \<Rightarrow> NetBlockID" where
  "net_blockID b = \<lparr> nb_Hash = bid_Hash b, nb_PartsHeader = Some (net_header (bid_PartsHeader b) (bid_PartsNil b)) \<rparr>"

definition vote_message :: "Vote \<Rightarrow> VoteMessage" where
  "vote_message vote = \<lparr> vm_ValidatorAddress = vt_ValidatorAddress vote, vm_ValidatorIndex = word_of_int (vt_ValidatorIndex vote), vm_Height = vt_Height vote,
     vm_Round = word_of_int (vt_Round vote), vm_Timestamp = word_of_int (vt_Timestamp vote), vm_VoteType = ucast (vt_Type vote - 1),
     vm_BlockID = Some (net_blockID (vt_BlockID vote)), vm_Signature = vt_Signature vote \<rparr>"

definition buildVoteMsgFromType :: "net_env \<Rightarrow> Vote \<Rightarrow> PeerMessage option" where
  "buildVoteMsgFromType ne vote = do { voteData \<leftarrow> ne_encVote ne (vote_message vote); wrap_msg ne MsgVote voteData }"

text \<open>\<open>nowMs\<close> is the clock in milliseconds: the message carries the time of its building, not that of the proposal.\<close>

definition proposal_message :: "u64 \<Rightarrow> Proposal \<Rightarrow> ProposalMessage" where
  "proposal_message nowMs proposal = \<lparr> pm_Height = pp_Height proposal, pm_Round = word_of_int (pp_Round proposal), pm_Timestamp = nowMs,
     pm_BlockPartsHeader = Some (net_header (pp_BlockPartsHeader proposal) False), pm_PoLRound = word_of_int (pp_POLRound proposal),
     pm_PoLBlockID = Some (net_blockID (pp_POLBlockID proposal)) \<rparr>"

definition buildProposalMsgFromType :: "net_env \<Rightarrow> u64 \<Rightarrow> Proposal \<Rightarrow> PeerMessage option" where
  "buildProposalMsgFromType ne nowMs proposal = do { proposalData \<leftarrow> ne_encProposal ne (proposal_message nowMs proposal); wrap_msg ne MsgProposal proposalData }"

definition part_message :: "u64 \<Rightarrow> int \<Rightarrow> Part \<Rightarrow> BlockPartMessage" where
  "part_message height round part = \<lparr> bpm_Height = height, bpm_Round = word_of_int round,
     bpm_Part = Some \<lparr> np_Index = word_of_int (pt_Index part), np_Bytes = pt_Bytes part, np_Proof = pt_Proof part \<rparr> \<rparr>"

definition buildBlockPartMsgFromType :: "net_env \<Rightarrow> u64 \<Rightarrow> int \<Rightarrow> Part \<Rightarrow> PeerMessage option" where
  "buildBlockPartMsgFromType ne height round part = do { blkPartData \<leftarrow> ne_encPart ne (part_message height round part); wrap_msg ne MsgBlockPart blkPartData }"

section \<open>Reading\<close>

definition type_blockID :: "NetBlockID \<Rightarrow> BlockID option" where
  "type_blockID nb = map_option (\<lambda>nh. \<lparr> bid_Hash = nb_Hash nb,
     bid_PartsHeader = \<lparr> psh_Total = uint (nh_Total nh), psh_Hash = nh_Hash nh \<rparr>, bid_PartsNil = nh_Nil nh \<rparr>) (nb_PartsHeader nb)"

definition vote_of_message :: "VoteMessage \<Rightarrow> Vote option" where
  "vote_of_message vm = do {
     nb \<leftarrow> vm_BlockID vm;
     blockId \<leftarrow> type_blockID nb;
     Some \<lparr> vt_ValidatorAddress = vm_ValidatorAddress vm, vt_ValidatorIndex = sint (vm_ValidatorIndex vm), vt_Height = vm_Height vm, vt_Round = sint (vm_Round vm),
            vt_Timestamp = sint (vm_Timestamp vm), vt_Type = ucast (vm_VoteType vm + 1), vt_BlockID = blockId, vt_Signature = vm_Signature vm \<rparr> }"

text \<open>The inner result is the error of the decoder.  The message decoded by an error is nil, and both callers go on with it, which panics.\<close>

definition buildTypeFromVoteMsg :: "net_env \<Rightarrow> TDMMessage \<Rightarrow> Vote option option" where
  "buildTypeFromVoteMsg ne tdmMsg = (case ne_decVote ne (tm_Payload tdmMsg) of None \<Rightarrow> Some None | Some vm \<Rightarrow> map_option Some (vote_of_message vm))"

definition buildTypeProposalFromNetMsg :: "ProposalMessage \<Rightarrow> Proposal option" where
  "buildTypeProposalFromNetMsg pm = do {
     nb \<leftarrow> pm_PoLBlockID pm;
     polBlockID \<leftarrow> type_blockID nb;
     nh \<leftarrow> pm_BlockPartsHeader pm;
     Some \<lparr> pp_Height = pm_Height pm, pp_Round = sint (pm_Round pm),
            pp_Timestamp = sint (pm_Timestamp pm div 1000) * 10 ^ 9 + sint (pm_Timestamp pm mod 1000),
            pp_BlockPartsHeader = \<lparr> psh_Total = uint (nh_Total nh), psh_Hash = nh_Hash nh \<rparr>,
            pp_POLRound = sint (pm_PoLRound pm), pp_POLBlockID = polBlockID \<rparr> }"

definition buildTypeBlkPartFromNetMsg :: "BlockPartMessage \<Rightarrow> Part option" where
  "buildTypeBlkPartFromNetMsg bpm = map_option (\<lambda>np. \<lparr> pt_Index = uint (np_Index np), pt_Bytes = np_Bytes np, pt_Proof = np_Proof np, pt_hash = None \<rparr>) (bpm_Part bpm)"

text \<open>What \<open>DeliverMsg\<close> does with the bytes of a message of a peer before it looks at its type.\<close>

definition open_peer_msg :: "net_env \<Rightarrow> PeerMessage \<Rightarrow> TDMMessage option" where
  "open_peer_msg ne peerMsg = do {
     consensusMsg \<leftarrow> ne_decCons ne (me_Msg peerMsg);
     tdmMsg \<leftarrow> ne_decTDM ne (snd consensusMsg);
     if tdm_Verify ne tdmMsg (me_Sender peerMsg) then Some tdmMsg else None }"

definition open_internal_msg :: "net_env \<Rightarrow> PeerMessage \<Rightarrow> TDMMessage option" where
  "open_internal_msg ne peerMsg = do { consensusMsg \<leftarrow> ne_decCons ne (me_Msg peerMsg); ne_decTDM ne (snd consensusMsg) }"

end
