(* ===== verification/Round.thy ===== *)
theory Round
  imports ConsBlock ConsMsg AppMgr
begin

text \<open>
  The round state machine of the consensus, \<open>consensus/algorand/msgHandler\<close>: the handler's state (\<open>types/round_state.go\<close>, \<open>handler.go\<close>), the functions that enter
  a step (\<open>enterNewRoundHandler.go\<close>, \<open>enterProposeHandler.go\<close>, \<open>enterPrevoteMsgHandler.go\<close>, \<open>enterPrecommitHandler.go\<close>), \<open>roundstate.go\<close>, the message handlers
  and the event loop (\<open>msgdeliver.go\<close>).

  Every function takes the handler and returns it changed; \<open>None\<close> is a run-time panic, or a mutex or loop that never comes back.  What the handler sends to itself and to
  its peers, the timeouts it schedules, the blocks it hands to the application (one it committed, or one it was given by synchronisation), the heights it opens and the votes it receives are
  appended to a log.  The rest of the node (application, ledger, pool) is a value of
  type \<open>'w\<close> behind the operations of the environment.  Statistics and log output are left out, and so is the aliasing of the proposed and the locked block, which are not
  written to after they are complete, but for the commit that is attached to a block just before it is saved.
\<close>

section \<open>Steps\<close>

datatype RoundStepType = RoundStepNone | RoundStepNewHeight | RoundStepNewRound | RoundStepPropose | RoundStepPrevote | RoundStepPrevoteWait | RoundStepPrecommit
  | RoundStepPrecommitWait | RoundStepCommit

fun step_num :: "RoundStepType \<Rightarrow> nat" where
  "step_num RoundStepNone = 0"
| "step_num RoundStepNewHeight = 1"
| "step_num RoundStepNewRound = 2"
| "step_num RoundStepPropose = 3"
| "step_num RoundStepPrevote = 4"
| "step_num RoundStepPrevoteWait = 5"
| "step_num RoundStepPrecommit = 6"
| "step_num RoundStepPrecommitWait = 7"
| "step_num RoundStepCommit = 8"

lemma step_num_inject: "step_num s = step_num t \<longleftrightarrow> s = t"
  by (cases s; cases t) simp_all

instantiation RoundStepType :: linorder
begin

definition less_eq_RoundStepType :: "RoundStepType \<Rightarrow> RoundStepType \<Rightarrow> bool" where
  "less_eq_RoundStepType s t \<longleftrightarrow> step_num s \<le> step_num t"

definition less_RoundStepType :: "RoundStepType \<Rightarrow> RoundStepType \<Rightarrow> bool" where
  "less_RoundStepType s t \<longleftrightarrow> step_num s < step_num t"

instance
  by standard (auto simp: less_eq_RoundStepType_def less_RoundStepType_def step_num_inject)

end

text \<open>Rounds are 32-bit.\<close>

definition int32 :: "int \<Rightarrow> int" where
  "int32 x = (x + 2 ^ 31) mod 2 ^ 32 - 2 ^ 31"

section \<open>State\<close>

datatype out =
    OutProposal Proposal PeerMessage
  | OutPart Part PeerMessage
  | OutVote Vote PeerMessage
  | OutTimeout int u64 int RoundStepType
  | OutBlock TDMBlock Block
  | OutSyncBlock TDMBlock Block
  | OutHeight u64 ValidatorSet
  | InVote Vote

record 'w TDMMsgHandler =
  h_digestAddr :: bytes
  h_mtx :: bool
  h_Height :: u64
  h_Round :: int
  h_Step :: RoundStepType
  h_Validators :: "ValidatorSet option"
  h_Proposal :: "Proposal option"
  h_ProposalBlock :: "TDMBlock option"
  h_ProposalBlockParts :: "PartSet option"
  h_LockedRound :: int
  h_LockedBlock :: "TDMBlock option"
  h_LockedBlockParts :: "PartSet option"
  h_Votes :: "HeightVoteSet option"
  h_CommitRound :: int
  h_LastCommit :: "VoteSet option"
  h_LastValidators :: "ValidatorSet option"
  h_TryProposalTimes :: int
  h_LastCommitState :: State
  h_isSyncStatus :: bool
  h_syncVersion :: "32 word"
  h_IsContinueConsensus :: bool
  h_JustStarted :: bool
  h_world :: 'w
  h_log :: "out list"

record config =
  cf_TimeoutNewRound :: int
  cf_TimeoutPropose :: int
  cf_TimeoutPrevote :: int
  cf_TimeoutPrevoteWait :: int
  cf_TimeoutPrecommit :: int
  cf_TimeoutPrecommitWait :: int
  cf_TimeoutWaitFortx :: int
  cf_SkipTimeoutCommit :: bool
  cf_CreateEmptyBlocks :: bool
  cf_CreateEmptyBlocksInterval :: int

text \<open>
  The environment: hashes, codecs, the configuration, the functions registered with the handler (who proposes, how a block is made and checked, what is called after a
  commit), the decoder of a block, the clock, and the operations of the rest of the node.  \<open>ce_process\<close> is \<open>appMgr.BlockProcess\<close> and also gives the block as that call
  leaves it; \<open>ce_other\<close> stands for the handlers of the synchronisation and fork messages, which are not modelled here.
\<close>

record 'w cons_env =
  ce_he :: hash_env
  ce_tc :: tdm_codec
  ce_ne :: net_env
  ce_dig :: header_digest
  ce_mspVerify :: verifier
  ce_conf :: config
  ce_peerID :: u64
  ce_peerString :: "bytes \<Rightarrow> string"
  ce_decodeBlock :: "PartSetReader \<Rightarrow> TDMBlock option"
  ce_decHasVote :: "bytes \<Rightarrow> (u64 \<times> int \<times> 32 word) option"
  ce_isProposer :: "'w TDMMsgHandler \<Rightarrow> u64 \<Rightarrow> int \<Rightarrow> (bool \<times> Validator option) option"
  ce_geneProposalBlk :: "'w TDMMsgHandler \<Rightarrow> ((TDMBlock \<times> PartSet option) option \<times> 'w) option"
  ce_validateProposalBlk :: "'w TDMMsgHandler \<Rightarrow> TDMBlock \<Rightarrow> bool option"
  ce_consSucceed :: "TDMBlock \<Rightarrow> 'w TDMMsgHandler \<Rightarrow> 'w TDMMsgHandler option"
  ce_statusUpdated :: "'w TDMMsgHandler \<Rightarrow> 'w TDMMsgHandler option"
  ce_now :: "'w \<Rightarrow> int"
  ce_txsLenZero :: "'w \<Rightarrow> bool \<times> 'w"
  ce_delTxs :: "transaction list \<Rightarrow> 'w \<Rightarrow> 'w option"
  ce_process :: "Block \<Rightarrow> 'w \<Rightarrow> ((app_error option \<times> Block) \<times> 'w) option"
  ce_blockHash :: "Block \<Rightarrow> db_error + bytes"
  ce_ledgerHeight :: "'w \<Rightarrow> (u64 \<times> 'w) option"
  ce_getBlock :: "u64 \<Rightarrow> 'w \<Rightarrow> Block option \<times> bool"
  ce_other :: "TDMMessage \<Rightarrow> u64 \<Rightarrow> 'w TDMMsgHandler \<Rightarrow> 'w TDMMsgHandler option"

type_synonym 'w handler = "'w TDMMsgHandler \<Rightarrow> 'w TDMMsgHandler option"

abbreviation ce_rip :: "'w cons_env \<Rightarrow> bytes \<Rightarrow> bytes" where
  "ce_rip ce \<equiv> he_rip (ce_he ce)"

definition log_out :: "out \<Rightarrow> 'w TDMMsgHandler \<Rightarrow> 'w TDMMsgHandler" where
  "log_out x h = h\<lparr>h_log := h_log h @ [x]\<rparr>"

definition updateRoundStep :: "int \<Rightarrow> RoundStepType \<Rightarrow> 'w TDMMsgHandler \<Rightarrow> 'w TDMMsgHandler" where
  "updateRoundStep rnd step h = h\<lparr>h_Round := rnd, h_Step := step\<rparr>"

section \<open>Timeouts\<close>

text \<open>Milliseconds.\<close>

definition AddTimeOut :: "int \<Rightarrow> 'w TDMMsgHandler \<Rightarrow> int" where
  "AddTimeOut timeout h = (let timer = 3 in if h_Round h > timer then timeout + timer * 1000 else timeout + int32 (h_Round h * 1000))"

definition scheduleTimeout :: "int \<Rightarrow> u64 \<Rightarrow> int \<Rightarrow> RoundStepType \<Rightarrow> 'w TDMMsgHandler \<Rightarrow> 'w TDMMsgHandler" where
  "scheduleTimeout duration height rnd step h = log_out (OutTimeout duration height rnd step) h"

section \<open>Own messages\<close>

definition send :: "'w cons_env \<Rightarrow> int \<Rightarrow> (PeerMessage \<Rightarrow> out) \<Rightarrow> PeerMessage \<Rightarrow> 'w TDMMsgHandler \<Rightarrow> 'w TDMMsgHandler" where
  "send ce flag mk msg h = log_out (mk (msg\<lparr>me_PeerID := ce_peerID ce, me_Flag := flag\<rparr>)) h"

text \<open>The block id of a vote.  The hash of a part set is nil when it is empty.\<close>

definition mk_blockID :: "bytes \<Rightarrow> PartSetHeader \<Rightarrow> BlockID" where
  "mk_blockID hash header = \<lparr> bid_Hash = hash, bid_PartsHeader = header, bid_PartsNil = (psh_Hash header = []) \<rparr>"

definition own_vote :: "'w cons_env \<Rightarrow> byte \<Rightarrow> BlockID \<Rightarrow> ValidatorSet \<Rightarrow> 'w TDMMsgHandler \<Rightarrow> Vote" where
  "own_vote ce ty blockID vals h = \<lparr> vt_ValidatorAddress = h_digestAddr h, vt_ValidatorIndex = fst (GetByAddress vals (h_digestAddr h)), vt_Height = h_Height h,
     vt_Round = h_Round h, vt_Timestamp = ce_now ce (h_world h), vt_Type = ty, vt_BlockID = blockID, vt_Signature = [] \<rparr>"

definition signVote :: "'w cons_env \<Rightarrow> byte \<Rightarrow> BlockID \<Rightarrow> 'w TDMMsgHandler \<Rightarrow> Vote option option" where
  "signVote ce ty blockID h = do { vals \<leftarrow> h_Validators h; Some (mySignVote (ce_ne ce) (own_vote ce ty blockID vals h)) }"

text \<open>The error of building the message is dropped and the nil message written to.\<close>

definition send_vote :: "'w cons_env \<Rightarrow> int \<Rightarrow> Vote option \<Rightarrow> 'w handler" where
  "send_vote ce flag p h = (case p of None \<Rightarrow> Some h
     | Some vote \<Rightarrow> do { msg \<leftarrow> buildVoteMsgFromType (ce_ne ce) vote; Some (send ce flag (OutVote vote) msg h) })"

definition signAddVote :: "'w cons_env \<Rightarrow> byte \<Rightarrow> BlockID \<Rightarrow> 'w handler" where
  "signAddVote ce ty blockID h =
     (if h_digestAddr h = [] then Some h
      else do {
        vals \<leftarrow> h_Validators h;
        if \<not> HasAddress vals (h_digestAddr h) then Some h
        else do { p \<leftarrow> signVote ce ty blockID h; send_vote ce 1 p h } })"

text \<open>The precommits are sent without asking whether the node is a validator.\<close>

definition applyAddVote :: "'w cons_env \<Rightarrow> byte \<Rightarrow> BlockID \<Rightarrow> 'w handler" where
  "applyAddVote ce ty blockID h = do { p \<leftarrow> signVote ce ty blockID h; send_vote ce 2 p h }"

section \<open>Prevote\<close>

definition validate_block :: "'w cons_env \<Rightarrow> State \<Rightarrow> TDMBlock option \<Rightarrow> block_error option option" where
  "validate_block ce s b = ValidateBlock (ce_he ce) (ne_encVoteJSON (ce_ne ce)) (ce_mspVerify ce) s b"

definition defaultDoPrevote :: "'w cons_env \<Rightarrow> 'w TDMMsgHandler \<Rightarrow> (int \<times> 'w TDMMsgHandler) option" where
  "defaultDoPrevote ce h =
     (if h_ProposalBlock h = None \<and> h_TryProposalTimes h < 2 then Some (1, h\<lparr>h_TryProposalTimes := h_TryProposalTimes h + 1\<rparr>)
      else do {
        locked \<leftarrow> (if h_LockedBlock h \<noteq> None \<and> \<not> HashesTo (ce_he ce) (h_LockedBlock h) (blk_hash (ce_he ce) (h_ProposalBlock h))
                   then map_option (\<lambda>vals. int32 (h_Round h - h_LockedRound h) < int (length (vs_Validators vals))) (h_Validators h)
                   else Some False);
        if locked then map_option (Pair 0) (signAddVote ce VoteTypePrevote (mk_blockID (blk_hash (ce_he ce) (h_LockedBlock h)) (ps_Header (h_LockedBlockParts h))) h)
        else if h_ProposalBlock h = None then map_option (Pair 0) (signAddVote ce VoteTypePrevote zero_blockID h)
        else do {
          err \<leftarrow> validate_block ce (h_LastCommitState h) (h_ProposalBlock h);
          map_option (Pair 0) (signAddVote ce VoteTypePrevote
            (if err \<noteq> None then zero_blockID else mk_blockID (blk_hash (ce_he ce) (h_ProposalBlock h)) (ps_Header (h_ProposalBlockParts h))) h) } })"

definition stale :: "u64 \<Rightarrow> int \<Rightarrow> RoundStepType \<Rightarrow> 'w TDMMsgHandler \<Rightarrow> bool" where
  "stale height rnd step h \<longleftrightarrow> h_Height h \<noteq> height \<or> rnd < h_Round h \<or> (h_Round h = rnd \<and> step \<le> h_Step h)"

definition enterPrevote :: "'w cons_env \<Rightarrow> u64 \<Rightarrow> int \<Rightarrow> 'w handler" where
  "enterPrevote ce height rnd h =
     (if stale height rnd RoundStepPrevote h then Some h
      else do {
        (result, h1) \<leftarrow> defaultDoPrevote ce h;
        if result = 1 then Some (scheduleTimeout (AddTimeOut 1000 h1) height rnd RoundStepPropose h1)
        else Some (updateRoundStep rnd RoundStepPrevote (scheduleTimeout (AddTimeOut (cf_TimeoutPrevote (ce_conf ce)) h1) height rnd RoundStepPrevote h1)) })"

definition enterPrevoteWait :: "'w cons_env \<Rightarrow> u64 \<Rightarrow> int \<Rightarrow> 'w TDMMsgHandler \<Rightarrow> 'w TDMMsgHandler" where
  "enterPrevoteWait ce height rnd h =
     (if stale height rnd RoundStepPrevoteWait h then h
      else updateRoundStep rnd RoundStepPrevoteWait (scheduleTimeout (AddTimeOut (cf_TimeoutPrevoteWait (ce_conf ce)) h) height rnd RoundStepPrevoteWait h))"

section \<open>Propose\<close>

definition isProposalComplete :: "'w TDMMsgHandler \<Rightarrow> bool option" where
  "isProposalComplete h = (case h_Proposal h of None \<Rightarrow> Some False
     | Some p \<Rightarrow> if h_ProposalBlock h = None then Some False
       else if pp_POLRound p < 0 then Some True
       else map_option (\<lambda>votes. HasTwoThirdsMajority (hvs_Prevotes votes (pp_POLRound p))) (h_Votes h))"

text \<open>Sending the parts stops at the first message that cannot be built; a missing part panics.\<close>

fun send_parts :: "'w cons_env \<Rightarrow> Part option list \<Rightarrow> 'w handler" where
  "send_parts ce [] h = Some h"
| "send_parts ce (None # ps) h = None"
| "send_parts ce (Some part # ps) h = (case buildBlockPartMsgFromType (ce_ne ce) (h_Height h) (h_Round h) part of
     None \<Rightarrow> Some h | Some msg \<Rightarrow> send_parts ce ps (send ce 3 (OutPart part) msg h))"

definition send_proposal :: "'w cons_env \<Rightarrow> u64 \<Rightarrow> int \<Rightarrow> PartSet option \<Rightarrow> 'w handler" where
  "send_proposal ce height rnd blockParts h = do {
     votes \<leftarrow> h_Votes h;
     let (polRound, polBlockID) = hvs_POLInfo votes;
     let now = ce_now ce (h_world h);
     let proposal = NewProposal now height rnd (ps_Header blockParts) polRound polBlockID;
     (case buildProposalMsgFromType (ce_ne ce) (word_of_int (go_quot now 1000000)) proposal of None \<Rightarrow> Some h
      | Some msg \<Rightarrow> send_parts ce (case blockParts of None \<Rightarrow> [] | Some ps \<Rightarrow> take (nat (ps_total ps)) (ps_parts ps)) (send ce 0 (OutProposal proposal) msg h)) }"

definition decideProposal :: "'w cons_env \<Rightarrow> u64 \<Rightarrow> int \<Rightarrow> 'w handler" where
  "decideProposal ce height rnd h =
     (if h_LockedBlock h \<noteq> None then send_proposal ce height rnd (h_LockedBlockParts h) h
      else do {
        (r, w) \<leftarrow> ce_geneProposalBlk ce h;
        let h1 = h\<lparr>h_world := w\<rparr>;
        (case r of None \<Rightarrow> Some h1 | Some (block, blockParts) \<Rightarrow> send_proposal ce height rnd blockParts h1) })"

definition propose_body :: "'w cons_env \<Rightarrow> u64 \<Rightarrow> int \<Rightarrow> 'w handler" where
  "propose_body ce height rnd h =
     (if h_digestAddr h = [] then Some h
      else do {
        vals \<leftarrow> h_Validators h;
        if \<not> HasAddress vals (h_digestAddr h) then Some h
        else do {
          (selected, val) \<leftarrow> ce_isProposer ce h height rnd;
          if val = None then Some h else if selected then decideProposal ce height rnd h else Some h } })"

definition enterPropose :: "'w cons_env \<Rightarrow> u64 \<Rightarrow> int \<Rightarrow> 'w handler" where
  "enterPropose ce height rnd h =
     (if stale height rnd RoundStepPropose h then Some h
      else do {
        let h1 = h\<lparr>h_TryProposalTimes := 0\<rparr>;
        h2 \<leftarrow> propose_body ce height rnd (scheduleTimeout (AddTimeOut (cf_TimeoutPropose (ce_conf ce)) h1) height rnd RoundStepPropose h1);
        let h3 = updateRoundStep rnd RoundStepPropose h2;
        complete \<leftarrow> isProposalComplete h3;
        if complete then enterPrevote ce height (h_Round h3) h3 else Some h3 })"

section \<open>New round\<close>

text \<open>A call of \<open>SetRound\<close> on the votes of the handler.\<close>

definition votes_SetRound :: "int \<Rightarrow> 'w handler" where
  "votes_SetRound rnd h = do {
     votes \<leftarrow> h_Votes h;
     votes' \<leftarrow> hvs_SetRound votes rnd;
     Some (h\<lparr>h_Votes := Some votes'\<rparr>) }"

definition WaitForTxs :: "'w cons_env \<Rightarrow> bool" where
  "WaitForTxs ce \<longleftrightarrow> \<not> cf_CreateEmptyBlocks (ce_conf ce)"

definition dealNewRound :: "'w cons_env \<Rightarrow> 'w handler" where
  "dealNewRound ce h =
     (if WaitForTxs ce then
        let (empty, w) = ce_txsLenZero ce (h_world h); h1 = h\<lparr>h_world := w\<rparr> in
        if \<not> empty then enterPropose ce (h_Height h1) (h_Round h1) h1
        else Some (scheduleTimeout (AddTimeOut (cf_TimeoutWaitFortx (ce_conf ce)) h1) (h_Height h1) (h_Round h1) RoundStepNewRound h1)
      else if cf_CreateEmptyBlocksInterval (ce_conf ce) > 0 then
        Some (scheduleTimeout (cf_CreateEmptyBlocksInterval (ce_conf ce)) (h_Height h) (h_Round h) RoundStepNewRound h)
      else enterPropose ce (h_Height h) (h_Round h) h)"

definition enterNewRound :: "'w cons_env \<Rightarrow> u64 \<Rightarrow> int \<Rightarrow> 'w handler" where
  "enterNewRound ce height rnd h =
     (if h_Height h \<noteq> height \<or> rnd < h_Round h \<or> (h_Round h = rnd \<and> h_Step h \<noteq> RoundStepNewHeight) then Some h
      else do {
        validators \<leftarrow> (if h_Round h < rnd then do { vals \<leftarrow> h_Validators h; map_option Some (IncrementAccum vals (int32 (rnd - h_Round h))) }
                       else Some (h_Validators h));
        let h1 = (updateRoundStep rnd RoundStepNewRound h)\<lparr>h_Validators := validators\<rparr>;
        let h2 = (if rnd \<noteq> 0 then h1\<lparr>h_Proposal := None, h_ProposalBlock := None, h_ProposalBlockParts := None\<rparr> else h1);
        h3 \<leftarrow> votes_SetRound (int32 (rnd + 1)) h2;
        dealNewRound ce h3 })"

definition scheduleRound0 :: "'w cons_env \<Rightarrow> 'w handler" where
  "scheduleRound0 ce h =
     (if h_JustStarted h then Some (scheduleTimeout (AddTimeOut (cf_TimeoutNewRound (ce_conf ce)) h) (h_Height h) 0 RoundStepNewHeight h)
      else enterNewRound ce (h_Height h) 0 h)"

section \<open>Precommit\<close>

text \<open>The vote of \<open>enterPrecommit\<close> and what it does to the lock.\<close>

definition precommit_body :: "'w cons_env \<Rightarrow> int \<Rightarrow> 'w handler" where
  "precommit_body ce rnd h = do {
     votes \<leftarrow> h_Votes h;
     let (blockID, ok) = TwoThirdsMajority (hvs_Prevotes votes rnd);
     if \<not> ok then applyAddVote ce VoteTypePrecommit zero_blockID h
     else if length (bid_Hash blockID) = 0 then applyAddVote ce VoteTypePrecommit zero_blockID h
     else if HashesTo (ce_he ce) (h_ProposalBlock h) (bid_Hash blockID) then
       applyAddVote ce VoteTypePrecommit blockID (h\<lparr>h_LockedRound := rnd, h_LockedBlock := h_ProposalBlock h, h_LockedBlockParts := h_ProposalBlockParts h\<rparr>)
     else applyAddVote ce VoteTypePrecommit zero_blockID (h\<lparr>h_LockedRound := 0, h_LockedBlock := None, h_LockedBlockParts := None\<rparr>) }"

definition enterPrecommit :: "'w cons_env \<Rightarrow> u64 \<Rightarrow> int \<Rightarrow> 'w handler" where
  "enterPrecommit ce height rnd h =
     (if stale height rnd RoundStepPrecommit h then Some h
      else do {
        h1 \<leftarrow> precommit_body ce rnd h;
        let h2 = updateRoundStep rnd RoundStepPrecommit h1;
        Some (scheduleTimeout (AddTimeOut (cf_TimeoutPrecommit (ce_conf ce)) h2) height rnd RoundStepPrecommit h2) })"

text \<open>The step is updated by a deferred function, which runs when the guard refuses the call too.\<close>

definition enterPrecommitWait :: "'w cons_env \<Rightarrow> u64 \<Rightarrow> int \<Rightarrow> 'w handler" where
  "enterPrecommitWait ce height rnd h =
     (if \<not> stale height rnd RoundStepPrecommitWait h \<and> h_Votes h = None then None
      else let h1 = updateRoundStep rnd RoundStepPrecommitWait h in
        Some (scheduleTimeout (AddTimeOut (cf_TimeoutPrecommitWait (ce_conf ce)) h1) height rnd RoundStepPrecommitWait h1))"

section \<open>Moving to the next height\<close>

text \<open>The first component is the error.\<close>

definition updateToState :: "State \<Rightarrow> 'w TDMMsgHandler \<Rightarrow> (bool \<times> 'w TDMMsgHandler) option" where
  "updateToState s h =
     (let cur = h_LastCommitState h in
      if h_CommitRound h > -1 \<and> 0 < h_Height h \<and> h_Height h \<noteq> st_LastBlockNum s then Some (True, h)
      else if \<not> State_IsEmpty cur \<and> st_LastBlockNum cur + 1 \<noteq> h_Height h then Some (True, h)
      else if \<not> State_IsEmpty cur \<and> st_LastBlockNum s \<le> st_LastBlockNum cur then Some (False, h)
      else do {
        lastPrecommits \<leftarrow> (case h_Votes h of Some votes \<Rightarrow>
             if h_CommitRound h > -1 then (if \<not> HasTwoThirdsMajority (hvs_Precommits votes (h_CommitRound h)) then None
                                            else Some (hvs_Precommits votes (h_CommitRound h)))
             else Some None
           | None \<Rightarrow> Some None);
        let nextBlkNum = st_LastBlockNum s + 1;
        validators \<leftarrow> st_Validators s;
        votes' \<leftarrow> NewBlkNumVoteSet nextBlkNum validators;
        Some (False, (updateRoundStep 0 RoundStepNewHeight (log_out (OutHeight nextBlkNum validators) (h\<lparr>h_Height := nextBlkNum\<rparr>)))
          \<lparr>h_Validators := Some validators, h_Proposal := None, h_ProposalBlock := None, h_ProposalBlockParts := None, h_Votes := Some votes',
           h_CommitRound := -1, h_LastCommit := lastPrecommits, h_LastValidators := st_LastValidators s, h_LastCommitState := s\<rparr>) })"

definition getcurrentPrecommits :: "'w TDMMsgHandler \<Rightarrow> VoteSet option option" where
  "getcurrentPrecommits h = (case h_Votes h of
     Some votes \<Rightarrow> if h_CommitRound h > -1 then (if \<not> HasTwoThirdsMajority (hvs_Precommits votes (h_CommitRound h)) then None
                                                  else Some (hvs_Precommits votes (h_CommitRound h)))
                   else Some None
   | None \<Rightarrow> Some None)"

definition updateState :: "State \<Rightarrow> BlockID \<Rightarrow> TDMHeader \<Rightarrow> State option" where
  "updateState s blockID header = do {
     prevValSet \<leftarrow> st_Validators s;
     nextValSet \<leftarrow> IncrementAccum prevValSet 1;
     Some \<lparr> st_LastBlockNum = th_BlockNum header, st_LastBlockTotalTx = int64 (st_LastBlockTotalTx s + th_NumTxs header), st_LastBlockID = blockID,
            st_LastBlockTime = th_Time header, st_Validators = Some nextValSet, st_LastValidators = Some prevValSet,
            st_LastHeightValidatorsChanged = st_LastHeightValidatorsChanged s, st_ConsensusParams = st_ConsensusParams s,
            st_LastHeightConsensusParamsChanged = st_LastHeightConsensusParamsChanged s, st_LastResultsHash = [], st_PreviousHash = st_PreviousHash s,
            st_PrevVRFValue = th_BlkVRFValue header, st_PrevVRFProof = th_BlkVRFProof header \<rparr> }"

datatype apply_error = InvalidBlock block_error | ProcessFailed app_error | BlockHashFailed

text \<open>The error of the conversion is dropped; the nil block it comes with is then written to.\<close>

definition saveBlock :: "'w cons_env \<Rightarrow> TDMBlock \<Rightarrow> State \<Rightarrow> 'w TDMMsgHandler \<Rightarrow> ((apply_error + State) \<times> 'w TDMMsgHandler) option" where
  "saveBlock ce block s h = do {
     r \<leftarrow> ConsToStandard (ce_he ce) (ce_tc ce) block;
     (case r of Inl e \<Rightarrow> None
      | Inr blk \<Rightarrow> do {
          header \<leftarrow> bk_Header blk;
          let blk1 = blk\<lparr>bk_Header := Some (header\<lparr>hd_PreviousHash := st_PreviousHash (h_LastCommitState h)\<rparr>)\<rparr>;
          ((err, blk2), w) \<leftarrow> ce_process ce blk1 (h_world h);
          let h1 = log_out (OutBlock block blk1) (h\<lparr>h_world := w\<rparr>);
          (case err of Some e \<Rightarrow> Some (Inl (ProcessFailed e), h1)
           | None \<Rightarrow> (case ce_blockHash ce blk2 of Inl e \<Rightarrow> Some (Inl BlockHashFailed, h1)
             | Inr hash \<Rightarrow> do { w2 \<leftarrow> ce_delTxs ce (bk_Txs blk2) w; Some (Inr (s\<lparr>st_PreviousHash := hash\<rparr>), h1\<lparr>h_world := w2\<rparr>) })) }) }"

text \<open>A block that passes the validation has had \<open>Data.Hash\<close> called on it.\<close>

definition ApplyBlock :: "'w cons_env \<Rightarrow> State \<Rightarrow> BlockID \<Rightarrow> TDMBlock \<Rightarrow> 'w TDMMsgHandler \<Rightarrow> ((apply_error + State) \<times> 'w TDMMsgHandler) option" where
  "ApplyBlock ce s blockID block h = do {
     p \<leftarrow> getcurrentPrecommits h;
     currentPrecommits \<leftarrow> p;
     commit \<leftarrow> MakeCommit currentPrecommits;
     let block1 = block\<lparr>tb_CurrentCommit := Some commit\<rparr>;
     err \<leftarrow> validate_block ce s (Some block1);
     (case err of Some e \<Rightarrow> Some (Inl (InvalidBlock e), h)
      | None \<Rightarrow> do {
          (r, h1) \<leftarrow> saveBlock ce (block1\<lparr>tb_Data := Data_cache (ce_he ce) (tb_Data block1)\<rparr>) s h;
          (case r of Inl e \<Rightarrow> Some (Inl e, h1)
           | Inr sSave \<Rightarrow> do {
               header \<leftarrow> tb_Header block1;
               s' \<leftarrow> updateState sSave blockID header;
               Some (Inr s', if h_LockedBlock h1 \<noteq> None then h1\<lparr>h_LockedRound := 0, h_LockedBlock := None, h_LockedBlockParts := None\<rparr> else h1) }) }) }"

section \<open>Commit\<close>

text \<open>What follows a block that was applied.\<close>

definition block_applied :: "'w cons_env \<Rightarrow> TDMBlock \<Rightarrow> State \<Rightarrow> 'w handler" where
  "block_applied ce block s h = do {
     h1 \<leftarrow> ce_consSucceed ce block h;
     (err, h2) \<leftarrow> updateToState s h1;
     h3 \<leftarrow> ce_statusUpdated ce h2;
     let h4 = h3\<lparr>h_JustStarted := False\<rparr>;
     if h_IsContinueConsensus h4 then scheduleRound0 ce h4 else Some h4 }"

definition finalizeCommit :: "'w cons_env \<Rightarrow> u64 \<Rightarrow> 'w handler" where
  "finalizeCommit ce height h =
     (if h_Height h \<noteq> height \<or> h_Step h \<noteq> RoundStepCommit then Some h
      else do {
        votes \<leftarrow> h_Votes h;
        let (blockID, ok) = TwoThirdsMajority (hvs_Precommits votes (h_CommitRound h));
        if \<not> ok then None
        else if \<not> ps_HasHeader (h_ProposalBlockParts h) (bid_PartsHeader blockID) then None
        else if \<not> HashesTo (ce_he ce) (h_ProposalBlock h) (bid_Hash blockID) then None
        else do {
          block \<leftarrow> h_ProposalBlock h;
          (ledgerHeight, w) \<leftarrow> ce_ledgerHeight ce (h_world h);
          stateCopy \<leftarrow> State_Copy (h_LastCommitState h);
          (r, h1) \<leftarrow> ApplyBlock ce stateCopy (mk_blockID (blk_hash (ce_he ce) (Some block)) (ps_Header (h_ProposalBlockParts h))) block (h\<lparr>h_world := w\<rparr>);
          (case r of Inl e \<Rightarrow> enterNewRound ce height (int32 (h_Round h1 + 1)) h1
           | Inr s \<Rightarrow> block_applied ce block s h1) } })"

text \<open>A failed attempt goes to the next round and then on to \<open>finalizeCommit\<close>, which is refused there.\<close>

definition tryFinalizeCommit :: "'w cons_env \<Rightarrow> u64 \<Rightarrow> 'w handler" where
  "tryFinalizeCommit ce height h =
     (if h_Height h \<noteq> height then None
      else do {
        votes \<leftarrow> h_Votes h;
        let (blockID, ok) = TwoThirdsMajority (hvs_Precommits votes (h_CommitRound h));
        h1 \<leftarrow> (if \<not> ok \<or> length (bid_Hash blockID) = 0 then enterNewRound ce (h_Height h) (int32 (h_Round h + 1)) h else Some h);
        h2 \<leftarrow> (if \<not> HashesTo (ce_he ce) (h_ProposalBlock h1) (bid_Hash blockID) then
                 if HashesTo (ce_he ce) (h_LockedBlock h1) (bid_Hash blockID) then Some (h1\<lparr>h_ProposalBlock := h_LockedBlock h1\<rparr>)
                 else enterNewRound ce (h_Height h1) (int32 (h_Round h1 + 1)) h1
               else Some h1);
        finalizeCommit ce height h2 })"

definition enterCommit :: "'w cons_env \<Rightarrow> u64 \<Rightarrow> int \<Rightarrow> 'w handler" where
  "enterCommit ce height commitRound h =
     (if h_Height h \<noteq> height \<or> RoundStepCommit \<le> h_Step h then Some h
      else do {
        votes \<leftarrow> h_Votes h;
        let (blockID, ok) = TwoThirdsMajority (hvs_Precommits votes commitRound);
        if \<not> ok then None
        else do {
          h1 \<leftarrow> (if \<not> HashesTo (ce_he ce) (h_ProposalBlock h) (bid_Hash blockID) \<and> \<not> ps_HasHeader (h_ProposalBlockParts h) (bid_PartsHeader blockID)
                 then map_option (\<lambda>ps. h\<lparr>h_ProposalBlock := None, h_ProposalBlockParts := Some ps\<rparr>) (NewPartSetFromHeader (bid_PartsHeader blockID))
                 else Some h);
          tryFinalizeCommit ce height ((updateRoundStep (h_Round h1) RoundStepCommit h1)\<lparr>h_CommitRound := commitRound\<rparr>) } })"

section \<open>Votes\<close>

datatype add_vote_error = AddVoteHeightMismatch | AddVoteFailed vote_error

text \<open>A precommit of the previous height, while the handler waits for the new one.\<close>

definition add_last_precommit :: "'w cons_env \<Rightarrow> Vote \<Rightarrow> 'w TDMMsgHandler \<Rightarrow> ((bool \<times> add_vote_error option) \<times> 'w TDMMsgHandler) option" where
  "add_last_precommit ce vote h =
     (if \<not> (h_Step h = RoundStepNewHeight \<and> vt_Type vote = VoteTypePrecommit) then Some ((False, None), h)
      else do {
        ((added, err), lc) \<leftarrow> vset_AddVote (ce_dig ce) (h_LastCommit h) (Some vote);
        let h1 = h\<lparr>h_LastCommit := lc\<rparr>;
        if \<not> added then Some ((added, map_option AddVoteFailed err), h1)
        else do {
          lastCommit \<leftarrow> lc;
          h2 \<leftarrow> (if cf_SkipTimeoutCommit (ce_conf ce) \<and> HasAll lastCommit then enterNewRound ce (h_Height h1) 0 h1 else Some h1);
          Some ((added, map_option AddVoteFailed err), h2) } })"

definition prevote_added :: "'w cons_env \<Rightarrow> Vote \<Rightarrow> 'w handler" where
  "prevote_added ce vote h = do {
     let height = h_Height h;
     votes \<leftarrow> h_Votes h;
     let prevotes = hvs_Prevotes votes (vt_Round vote);
     h1 \<leftarrow> (if h_Round h < vt_Round vote \<and> HasHalfAny prevotes then enterNewRound ce height (vt_Round vote) h else Some h);
     if h_Round h1 \<le> vt_Round vote \<and> HasTwoThirdsAny prevotes then do {
       h2 \<leftarrow> enterNewRound ce height (vt_Round vote) h1;
       if HasTwoThirdsMajority prevotes then enterPrecommit ce height (vt_Round vote) h2
       else do { h3 \<leftarrow> enterPrevote ce height (vt_Round vote) h2; Some (enterPrevoteWait ce height (vt_Round vote) h3) } }
     else if (case h_Proposal h1 of None \<Rightarrow> False | Some p \<Rightarrow> 0 \<le> pp_POLRound p \<and> pp_POLRound p = vt_Round vote) then do {
       complete \<leftarrow> isProposalComplete h1;
       if complete then enterPrevote ce height (h_Round h1) h1 else Some h1 }
     else Some h1 }"

definition precommit_added :: "'w cons_env \<Rightarrow> Vote \<Rightarrow> 'w handler" where
  "precommit_added ce vote h = do {
     let height = h_Height h;
     votes \<leftarrow> h_Votes h;
     precommits \<leftarrow> hvs_Precommits votes (vt_Round vote);
     let (blockID, ok) = TwoThirdsMajority (Some precommits);
     if ok then
       if length (bid_Hash blockID) = 0 then enterNewRound ce height (int32 (vt_Round vote + 1)) h
       else do {
         h1 \<leftarrow> enterNewRound ce height (vt_Round vote) h;
         h2 \<leftarrow> enterPrecommit ce height (vt_Round vote) h1;
         h3 \<leftarrow> enterCommit ce height (vt_Round vote) h2;
         if cf_SkipTimeoutCommit (ce_conf ce) \<and> HasAll precommits then enterNewRound ce (h_Height h3) 0 h3 else Some h3 }
     else if h_Round h \<le> vt_Round vote \<and> HasTwoThirdsAny (Some precommits) then do {
       h1 \<leftarrow> enterNewRound ce height (vt_Round vote) h;
       h2 \<leftarrow> enterPrecommit ce height (vt_Round vote) h1;
       enterPrecommitWait ce height (vt_Round vote) h2 }
     else Some h }"

text \<open>The round of the vote is opened before anything about the vote is checked.\<close>

definition addVote :: "'w cons_env \<Rightarrow> Vote \<Rightarrow> bytes \<Rightarrow> 'w TDMMsgHandler \<Rightarrow> ((bool \<times> add_vote_error option) \<times> 'w TDMMsgHandler) option" where
  "addVote ce vote pubKeyID h = do {
     h1 \<leftarrow> (if vt_Round vote > h_Round h then votes_SetRound (vt_Round vote) h else Some h);
     if vt_Height vote + 1 = h_Height h1 then add_last_precommit ce vote h1
     else if vt_Height vote \<noteq> h_Height h1 then Some ((False, Some AddVoteHeightMismatch), h1)
     else do {
       votes \<leftarrow> h_Votes h1;
       ((added, err), votes') \<leftarrow> hvs_AddVote (ce_dig ce) votes vote pubKeyID;
       let h2 = h1\<lparr>h_Votes := Some votes'\<rparr>;
       if \<not> added then Some ((added, map_option AddVoteFailed err), h2)
       else do {
         h3 \<leftarrow> (if vt_Type vote = VoteTypePrevote then prevote_added ce vote h2
                else if vt_Type vote = VoteTypePrecommit then precommit_added ce vote h2
                else None);
         Some ((added, map_option AddVoteFailed err), h3) } } }"

datatype try_vote_error = ErrVoteHeightMismatch | ErrAddingVote

definition tryAddVote :: "'w cons_env \<Rightarrow> Vote \<Rightarrow> bytes \<Rightarrow> 'w TDMMsgHandler \<Rightarrow> (try_vote_error option \<times> 'w TDMMsgHandler) option" where
  "tryAddVote ce vote pubKeyID h = map_option (\<lambda>((added, err), h').
     (case err of None \<Rightarrow> None | Some AddVoteHeightMismatch \<Rightarrow> Some ErrVoteHeightMismatch | Some _ \<Rightarrow> Some ErrAddingVote, h')) (addVote ce vote pubKeyID h)"

text \<open>A vote that cannot be decoded is nil, and both handlers read it.\<close>

definition HandleVoteMsg :: "'w cons_env \<Rightarrow> TDMMessage \<Rightarrow> bytes \<Rightarrow> 'w handler" where
  "HandleVoteMsg ce tdmMsg pubKeyID h = do {
     p \<leftarrow> buildTypeFromVoteMsg (ce_ne ce) tdmMsg;
     vote \<leftarrow> p;
     (err, h') \<leftarrow> tryAddVote ce vote pubKeyID (log_out (InVote vote) h);
     Some h' }"

section \<open>Proposals and parts\<close>

definition setProposal :: "Proposal \<Rightarrow> 'w handler" where
  "setProposal proposal h =
     (if h_Proposal h \<noteq> None then Some h
      else if pp_Height proposal \<noteq> h_Height h \<or> pp_Round proposal \<noteq> h_Round h then Some h
      else if RoundStepCommit \<le> h_Step h then Some h
      else map_option (\<lambda>ps. h\<lparr>h_Proposal := Some proposal, h_ProposalBlockParts := Some ps\<rparr>) (NewPartSetFromHeader (pp_BlockPartsHeader proposal)))"

definition HandleInnerProposalMsg :: "'w cons_env \<Rightarrow> TDMMessage \<Rightarrow> 'w handler" where
  "HandleInnerProposalMsg ce tdmMsg h = (case ne_decProposal (ce_ne ce) (tm_Payload tdmMsg) of None \<Rightarrow> Some h
     | Some pm \<Rightarrow> do { proposal \<leftarrow> buildTypeProposalFromNetMsg pm; setProposal proposal h })"

definition HandleOuterProposalMsg :: "'w cons_env \<Rightarrow> TDMMessage \<Rightarrow> bytes \<Rightarrow> 'w handler" where
  "HandleOuterProposalMsg ce tdmMsg pubKeyID h = do {
     (selected, p) \<leftarrow> ce_isProposer ce h (h_Height h) (h_Round h);
     other \<leftarrow> (if selected then Some False else map_option (\<lambda>proposer. v_PubKeyStr proposer \<noteq> ce_peerString ce pubKeyID) p);
     if other then Some h else HandleInnerProposalMsg ce tdmMsg h }"

text \<open>The block is complete: it is decoded, checked by the registered function and kept; the log line that follows reads its header and its last commit.\<close>

definition proposal_block :: "'w cons_env \<Rightarrow> PartSet \<Rightarrow> 'w TDMMsgHandler \<Rightarrow> (bool \<times> 'w TDMMsgHandler) option" where
  "proposal_block ce ps h = do {
     reader \<leftarrow> ps_GetReader ps;
     (case ce_decodeBlock ce reader of None \<Rightarrow> Some (False, h)
      | Some blk \<Rightarrow> do {
          ok \<leftarrow> ce_validateProposalBlk ce h blk;
          if \<not> ok then Some (False, h)
          else if tb_LastCommit blk = None \<or> tb_Header blk = None then None
          else Some (True, h\<lparr>h_ProposalBlock := snd (Block_Hash (ce_he ce) (Some blk))\<rparr>) }) }"

definition addProposalBlockPart :: "'w cons_env \<Rightarrow> u64 \<Rightarrow> Part \<Rightarrow> bool \<Rightarrow> 'w handler" where
  "addProposalBlockPart ce height part verify h =
     (if h_Height h \<noteq> height then Some h
      else (case h_ProposalBlockParts h of None \<Rightarrow> Some h
        | Some ps \<Rightarrow> do {
            ((added, err), ps') \<leftarrow> ps_AddPart (ce_rip ce) ps part verify;
            let h1 = h\<lparr>h_ProposalBlockParts := Some ps'\<rparr>;
            if err \<noteq> None \<or> \<not> (added \<and> ps_IsComplete ps') then Some h1
            else do {
              (kept, h2) \<leftarrow> proposal_block ce ps' h1;
              if \<not> kept then Some h2
              else if h_Step h2 = RoundStepPropose then enterPrevote ce height (h_Round h2) h2
              else if h_Step h2 = RoundStepCommit then tryFinalizeCommit ce height h2
              else Some h2 } }))"

definition HandleBlockPartMsg :: "'w cons_env \<Rightarrow> TDMMessage \<Rightarrow> 'w handler" where
  "HandleBlockPartMsg ce tdmMsg h = (case ne_decPart (ce_ne ce) (tm_Payload tdmMsg) of None \<Rightarrow> Some h
     | Some bpm \<Rightarrow> do { part \<leftarrow> buildTypeBlkPartFromNetMsg bpm; addProposalBlockPart ce (bpm_Height bpm) part True h })"

section \<open>Claims about majorities\<close>

definition lock :: "'w handler" where
  "lock h = (if h_mtx h then None else Some (h\<lparr>h_mtx := True\<rparr>))"

definition unlock :: "'w TDMMsgHandler \<Rightarrow> 'w TDMMsgHandler" where
  "unlock h = h\<lparr>h_mtx := False\<rparr>"

text \<open>The second lock is never released.\<close>

definition HandleVoteSetMaj23Msg :: "'w cons_env \<Rightarrow> TDMMessage \<Rightarrow> 'w handler" where
  "HandleVoteSetMaj23Msg ce tdmMsg h = do {
     h0 \<leftarrow> lock h;
     h1 \<leftarrow> lock (unlock h0);
     (case ce_decHasVote ce (tm_Payload tdmMsg) of None \<Rightarrow> Some h1
      | Some (height, rnd, voteType) \<Rightarrow>
        if h_Height h \<noteq> height then Some h1
        else do {
          votes \<leftarrow> h_Votes h1;
          Some (h1\<lparr>h_Votes := Some (snd (hvs_SetPeerMaj23 (ce_dig ce) votes rnd (ucast voteType) (ne_ID (ce_ne ce)) (st_LastBlockID (h_LastCommitState h1))))\<rparr>) }) }"

text \<open>When the message cannot be decoded the lock is kept.\<close>

definition HandleHasVoteMsg :: "'w cons_env \<Rightarrow> TDMMessage \<Rightarrow> 'w handler" where
  "HandleHasVoteMsg ce tdmMsg h = do {
     h1 \<leftarrow> lock h;
     (case ce_decHasVote ce (tm_Payload tdmMsg) of None \<Rightarrow> Some h1 | Some _ \<Rightarrow> Some (unlock h1)) }"

section \<open>The event loop\<close>

definition inbgGroup :: "'w TDMMsgHandler \<Rightarrow> bool option" where
  "inbgGroup h = map_option (\<lambda>vals. \<exists>val\<in>set (vs_Validators vals). v_Address val = h_digestAddr h) (h_Validators h)"

text \<open>The argument is not looked at.\<close>

definition isPeerInbgGroup :: "bytes \<Rightarrow> 'w TDMMsgHandler \<Rightarrow> bool option" where
  "isPeerInbgGroup pubKeyID h = map_option (\<lambda>vals. \<exists>val\<in>set (vs_Validators vals). v_Address val = h_digestAddr h) (h_Validators h)"

definition checkContinue :: "'w TDMMsgHandler \<Rightarrow> bool" where
  "checkContinue h = (if h_isSyncStatus h then False else if \<not> h_IsContinueConsensus h then False else True)"

text \<open>The messages of heartbeats, steps, proofs of lock and vote bits are decoded and dropped.\<close>

definition processOuterMsg :: "'w cons_env \<Rightarrow> TDMMessage \<Rightarrow> bytes \<Rightarrow> u64 \<Rightarrow> 'w handler" where
  "processOuterMsg ce tdmMsg pubKeyID peerID h = (case tm_Type tdmMsg of
       MsgProposal \<Rightarrow> HandleOuterProposalMsg ce tdmMsg pubKeyID h
     | MsgVote \<Rightarrow> HandleVoteMsg ce tdmMsg pubKeyID h
     | MsgBlockPart \<Rightarrow> HandleBlockPartMsg ce tdmMsg h
     | MsgHasVote \<Rightarrow> HandleHasVoteMsg ce tdmMsg h
     | MsgVoteSetMaj23 \<Rightarrow> HandleVoteSetMaj23Msg ce tdmMsg h
     | MsgHeightReq \<Rightarrow> ce_other ce tdmMsg peerID h
     | MsgHeihtResp \<Rightarrow> ce_other ce tdmMsg peerID h
     | _ \<Rightarrow> Some h)"

definition processInnerMsg :: "'w cons_env \<Rightarrow> TDMMessage \<Rightarrow> bytes \<Rightarrow> 'w handler" where
  "processInnerMsg ce tdmMsg pubKeyID h = (case tm_Type tdmMsg of
       MsgProposal \<Rightarrow> HandleInnerProposalMsg ce tdmMsg h
     | MsgVote \<Rightarrow> HandleVoteMsg ce tdmMsg pubKeyID h
     | MsgBlockPart \<Rightarrow> HandleBlockPartMsg ce tdmMsg h
     | MsgHasVote \<Rightarrow> HandleHasVoteMsg ce tdmMsg h
     | MsgVoteSetMaj23 \<Rightarrow> HandleVoteSetMaj23Msg ce tdmMsg h
     | _ \<Rightarrow> Some h)"

definition handleTxsAvailable :: "'w cons_env \<Rightarrow> u64 \<Rightarrow> 'w handler" where
  "handleTxsAvailable ce height h = do {
     h1 \<leftarrow> lock h;
     inside \<leftarrow> inbgGroup h1;
     h2 \<leftarrow> (if inside then enterPropose ce height 0 h1 else Some h1);
     Some (unlock h2) }"

definition timeout_switch :: "'w cons_env \<Rightarrow> u64 \<Rightarrow> int \<Rightarrow> RoundStepType \<Rightarrow> 'w handler" where
  "timeout_switch ce height rnd step h = (case step of
       RoundStepNewHeight \<Rightarrow> enterNewRound ce height 0 h
     | RoundStepNewRound \<Rightarrow> enterPropose ce height rnd h
     | RoundStepPropose \<Rightarrow> enterPrevote ce height rnd h
     | RoundStepPrevote \<Rightarrow> Some (enterPrevoteWait ce height rnd h)
     | RoundStepPrevoteWait \<Rightarrow> enterPrecommit ce height rnd h
     | RoundStepPrecommit \<Rightarrow> enterPrecommitWait ce height rnd h
     | RoundStepPrecommitWait \<Rightarrow> enterNewRound ce height (int32 (rnd + 1)) h
     | _ \<Rightarrow> Some h)"

definition handleTimeout :: "'w cons_env \<Rightarrow> u64 \<Rightarrow> int \<Rightarrow> RoundStepType \<Rightarrow> 'w handler" where
  "handleTimeout ce height rnd step h =
     (if height \<noteq> h_Height h \<or> rnd < h_Round h \<or> (rnd = h_Round h \<and> step < h_Step h) then Some h
      else do { h1 \<leftarrow> lock h; h2 \<leftarrow> timeout_switch ce height rnd step h1; Some (unlock h2) })"

definition deliver_peer :: "'w cons_env \<Rightarrow> PeerMessage \<Rightarrow> 'w handler" where
  "deliver_peer ce peerMsg h =
     (if \<not> checkContinue h then Some h
      else (case open_peer_msg (ce_ne ce) peerMsg of None \<Rightarrow> Some h
        | Some tdmMsg \<Rightarrow>
          if tm_Type tdmMsg = MsgCheckFork then ce_other ce tdmMsg (me_PeerID peerMsg) h
          else do {
            peerIn \<leftarrow> isPeerInbgGroup (me_Sender peerMsg) h;
            selfIn \<leftarrow> inbgGroup h;
            if \<not> peerIn \<or> \<not> selfIn then Some h
            else processOuterMsg ce tdmMsg (me_Sender peerMsg) (me_PeerID peerMsg) h }))"

definition deliver_internal :: "'w cons_env \<Rightarrow> PeerMessage \<Rightarrow> 'w handler" where
  "deliver_internal ce peerMsg h =
     (if \<not> checkContinue h then Some h
      else (case open_internal_msg (ce_ne ce) peerMsg of None \<Rightarrow> Some h
        | Some tdmMsg \<Rightarrow> processInnerMsg ce tdmMsg (ne_ID (ce_ne ce)) h))"

section \<open>The state of a block in the ledger\<close>

text \<open>An error is \<open>Inl ()\<close>.  A block that cannot be converted is nil, and its height of change is read before the error is looked at.\<close>

definition LoadValidators :: "'w cons_env \<Rightarrow> Block \<Rightarrow> 'w \<Rightarrow> (unit + ValidatorSet) option" where
  "LoadValidators ce blk w = do {
     r \<leftarrow> Standard2Cons (ce_tc ce) blk;
     (case r of Inl e \<Rightarrow> None
      | Inr tdmBlk \<Rightarrow> do {
          info \<leftarrow> tb_ValidatorInfo tdmBlk;
          (case vi_Validators info of Some vals \<Rightarrow> Some (Inr vals)
           | None \<Rightarrow> (case ce_getBlock ce (vi_LastHeightChanged info) w of
               (Some lastBlk, False) \<Rightarrow> do {
                 r2 \<leftarrow> Standard2Cons (ce_tc ce) lastBlk;
                 (case r2 of Inl e \<Rightarrow> Some (Inl ())
                  | Inr lastTdmBlk \<Rightarrow> do {
                      info2 \<leftarrow> tb_ValidatorInfo lastTdmBlk;
                      Some (case vi_Validators info2 of None \<Rightarrow> Inl () | Some vals \<Rightarrow> Inr vals) }) }
             | _ \<Rightarrow> Some (Inl ()))) }) }"

definition loaded_state :: "TDMBlock \<Rightarrow> BlockID \<Rightarrow> ValidatorSet \<Rightarrow> ValidatorSet option \<Rightarrow> State option" where
  "loaded_state tdmBlk lastBlkID vals lastVals = do {
     h \<leftarrow> tb_Header tdmBlk;
     info \<leftarrow> tb_ValidatorInfo tdmBlk;
     Some \<lparr> st_LastBlockNum = th_BlockNum h, st_LastBlockTotalTx = th_TotalTxs h, st_LastBlockID = lastBlkID, st_LastBlockTime = th_Time h,
            st_Validators = Some vals, st_LastValidators = lastVals, st_LastHeightValidatorsChanged = vi_LastHeightChanged info,
            st_ConsensusParams = zero_params, st_LastHeightConsensusParamsChanged = 0, st_LastResultsHash = [], st_PreviousHash = [],
            st_PrevVRFValue = th_BlkVRFValue h, st_PrevVRFProof = th_BlkVRFProof h \<rparr> }"

definition LoadLastCommitStateFromBlkAndMem :: "'w cons_env \<Rightarrow> Block \<Rightarrow> 'w TDMMsgHandler \<Rightarrow> (unit + State) option" where
  "LoadLastCommitStateFromBlkAndMem ce newBlk h = do {
     header \<leftarrow> bk_Header newBlk;
     if hd_BlockNum header = 0 then Some (Inl ())
     else do {
       r \<leftarrow> Standard2Cons (ce_tc ce) newBlk;
       (case r of Inl e \<Rightarrow> Some (Inl ())
        | Inr tdmBlk \<Rightarrow> do {
            v \<leftarrow> LoadValidators ce newBlk (h_world h);
            (case v of Inl e \<Rightarrow> Some (Inl ())
             | Inr vals \<Rightarrow> do {
                 c \<leftarrow> tb_CurrentCommit tdmBlk;
                 map_option Inr (loaded_state tdmBlk (cm_BlockID c) vals (st_Validators (h_LastCommitState h))) }) }) } }"

definition LoadLastCommitStateFromBlk :: "'w cons_env \<Rightarrow> Block \<Rightarrow> 'w TDMMsgHandler \<Rightarrow> (unit + State) option" where
  "LoadLastCommitStateFromBlk ce block h = do {
     r \<leftarrow> Standard2Cons (ce_tc ce) block;
     (case r of Inl e \<Rightarrow> Some (Inl ())
      | Inr tdmBlk \<Rightarrow> do {
          v \<leftarrow> LoadValidators ce block (h_world h);
          (case v of Inl e \<Rightarrow> Some (Inl ())
           | Inr vals \<Rightarrow> do {
               header \<leftarrow> bk_Header block;
               lv \<leftarrow> (if hd_BlockNum header = 0 then map_option Inr (NewValidatorSet None 0 [] [] [])
                     else (case ce_getBlock ce (hd_BlockNum header - 1) (h_world h) of
                         (Some prevBlk, False) \<Rightarrow> LoadValidators ce prevBlk (h_world h)
                       | _ \<Rightarrow> Some (Inl ())));
               (case lv of Inl e \<Rightarrow> Some (Inl ())
                | Inr lastVals \<Rightarrow> do {
                    th \<leftarrow> tb_Header tdmBlk;
                    lastBlkID \<leftarrow> (if th_BlockNum th \<noteq> 0 then map_option cm_BlockID (tb_CurrentCommit tdmBlk) else Some zero_blockID);
                    map_option Inr (loaded_state tdmBlk lastBlkID vals (Some lastVals)) }) }) }) }"

definition LoadSeenCommit :: "'w cons_env \<Rightarrow> u64 \<Rightarrow> Block option \<Rightarrow> 'w TDMMsgHandler \<Rightarrow> (unit + Commit option) option" where
  "LoadSeenCommit ce blkNum p h =
     (case (case p of Some blk \<Rightarrow> Some blk | None \<Rightarrow> (case ce_getBlock ce blkNum (h_world h) of (r, err) \<Rightarrow> if err then None else r)) of
        None \<Rightarrow> Some (Inl ())
      | Some blk \<Rightarrow> do {
          r \<leftarrow> Standard2Cons (ce_tc ce) blk;
          Some (case r of Inl e \<Rightarrow> Inl () | Inr tdmBlk \<Rightarrow> Inr (tb_CurrentCommit tdmBlk)) })"

text \<open>The loop over the precommits; \<open>Some None\<close> is the error.\<close>

fun add_precommits :: "header_digest \<Rightarrow> Vote option list \<Rightarrow> VoteSet \<Rightarrow> VoteSet option option" where
  "add_precommits dig [] v = Some (Some v)"
| "add_precommits dig (None # ps) v = add_precommits dig ps v"
| "add_precommits dig (Some w # ps) v = do {
     ((added, err), v') \<leftarrow> vset_addVote dig v (Some w);
     if \<not> added \<or> err \<noteq> None then Some None else add_precommits dig ps v' }"

definition reconstructLastCommit :: "'w cons_env \<Rightarrow> State \<Rightarrow> Block option \<Rightarrow> 'w TDMMsgHandler \<Rightarrow> (bool \<times> 'w TDMMsgHandler) option" where
  "reconstructLastCommit ce s blk h =
     (if st_LastBlockNum s = 0 then Some (False, h)
      else do {
        r \<leftarrow> LoadSeenCommit ce (st_LastBlockNum s) blk h;
        (case r of Inl e \<Rightarrow> Some (True, h)
         | Inr p \<Rightarrow> do {
             seenCommit \<leftarrow> p;
             vals \<leftarrow> st_Validators s;
             new \<leftarrow> NewVoteSet (st_LastBlockNum s) (cm_Round seenCommit) VoteTypePrecommit vals;
             v \<leftarrow> add_precommits (ce_dig ce) (cm_Precommits seenCommit) new;
             Some (case v of None \<Rightarrow> (True, h)
               | Some lastPrecommits \<Rightarrow> if st_LastBlockNum s \<noteq> 1 \<and> \<not> HasTwoThirdsMajority (Some lastPrecommits) then (True, h)
                   else (False, h\<lparr>h_LastCommit := Some lastPrecommits\<rparr>)) }) })"

section \<open>Start, reset and synchronisation\<close>

text \<open>A handler with the zero values of its fields.\<close>

definition zero_state :: State where
  "zero_state = \<lparr> st_LastBlockNum = 0, st_LastBlockTotalTx = 0, st_LastBlockID = zero_blockID, st_LastBlockTime = 0, st_Validators = None, st_LastValidators = None,
     st_LastHeightValidatorsChanged = 0, st_ConsensusParams = zero_params, st_LastHeightConsensusParamsChanged = 0, st_LastResultsHash = [], st_PreviousHash = [],
     st_PrevVRFValue = [], st_PrevVRFProof = [] \<rparr>"

definition zero_handler :: "bytes \<Rightarrow> 'w \<Rightarrow> 'w TDMMsgHandler" where
  "zero_handler digestAddr w = \<lparr> h_digestAddr = digestAddr, h_mtx = False, h_Height = 0, h_Round = 0, h_Step = RoundStepNone, h_Validators = None, h_Proposal = None,
     h_ProposalBlock = None, h_ProposalBlockParts = None, h_LockedRound = 0, h_LockedBlock = None, h_LockedBlockParts = None, h_Votes = None, h_CommitRound = 0,
     h_LastCommit = None, h_LastValidators = None, h_TryProposalTimes = 0, h_LastCommitState = zero_state, h_isSyncStatus = False, h_syncVersion = 0,
     h_IsContinueConsensus = True, h_JustStarted = True, h_world = w, h_log = [] \<rparr>"

definition NewTDMMsgHandler :: "'w cons_env \<Rightarrow> bytes \<Rightarrow> State \<Rightarrow> 'w \<Rightarrow> (unit + 'w TDMMsgHandler) option" where
  "NewTDMMsgHandler ce digestAddr lastCommitState w = do {
     (err, h1) \<leftarrow> updateToState lastCommitState (zero_handler digestAddr w);
     if err then Some (Inl ())
     else do {
       (err2, h2) \<leftarrow> reconstructLastCommit ce lastCommitState None h1;
       Some (if err2 then Inl () else Inr h2) } }"

definition setTimeout :: "'w cons_env \<Rightarrow> 'w handler" where
  "setTimeout ce h = (let sched = (\<lambda>t rnd step. Some (scheduleTimeout (AddTimeOut t h) (h_Height h) rnd step h)) in
     case h_Step h of
       RoundStepPropose \<Rightarrow> sched (cf_TimeoutPropose (ce_conf ce)) (h_Round h) RoundStepPropose
     | RoundStepPrevote \<Rightarrow> sched (cf_TimeoutPrevote (ce_conf ce)) (h_Round h) RoundStepPrevote
     | RoundStepPrevoteWait \<Rightarrow> sched (cf_TimeoutPrevoteWait (ce_conf ce)) (h_Round h) RoundStepPrevoteWait
     | RoundStepPrecommit \<Rightarrow> sched (cf_TimeoutPrecommit (ce_conf ce)) (h_Round h) RoundStepPrecommit
     | RoundStepPrecommitWait \<Rightarrow> sched (cf_TimeoutPrecommitWait (ce_conf ce)) (h_Round h) RoundStepPrecommitWait
     | RoundStepNewHeight \<Rightarrow> sched (cf_TimeoutNewRound (ce_conf ce)) 0 RoundStepNewHeight
     | RoundStepNewRound \<Rightarrow> dealNewRound ce h
     | _ \<Rightarrow> Some h)"

definition OnStart :: "'w cons_env \<Rightarrow> 'w handler" where
  "OnStart ce h = do {
     inside \<leftarrow> inbgGroup h;
     h1 \<leftarrow> (if inside then (if h_Round h = 0 \<and> h_Step h = RoundStepNewHeight then scheduleRound0 ce h else setTimeout ce h) else Some h);
     Some (h1\<lparr>h_IsContinueConsensus := True\<rparr>) }"

text \<open>The step goes back to \<open>RoundStepNewRound\<close> whatever was voted in the round.\<close>

definition OnReset :: "'w TDMMsgHandler \<Rightarrow> 'w TDMMsgHandler" where
  "OnReset h = updateRoundStep (h_Round h) RoundStepNewRound (h\<lparr>h_isSyncStatus := False\<rparr>)"

definition resetSync :: "'w TDMMsgHandler \<Rightarrow> 'w TDMMsgHandler" where
  "resetSync h = h\<lparr>h_syncVersion := h_syncVersion h + 1, h_isSyncStatus := False\<rparr>"

text \<open>A block that arrives by synchronisation.  First what follows a block that was written, then the writing, in which the error of \<open>BlockProcess\<close> is dropped.\<close>

definition sync_applied :: "'w cons_env \<Rightarrow> Block \<Rightarrow> TDMBlock \<Rightarrow> State \<Rightarrow> 'w handler" where
  "sync_applied ce block tdmBlk status h = do {
     (err, h1) \<leftarrow> updateToState status h;
     if err then Some (resetSync h1)
     else do {
       (err2, h2) \<leftarrow> reconstructLastCommit ce status (Some block) h1;
       if err2 then Some (resetSync h2)
       else do { h3 \<leftarrow> ce_consSucceed ce tdmBlk h2; ce_statusUpdated ce h3 } } }"

definition sync_write :: "'w cons_env \<Rightarrow> Block \<Rightarrow> TDMBlock \<Rightarrow> State \<Rightarrow> 'w handler" where
  "sync_write ce block tdmBlk status h = do {
     ((ignored, block2), w) \<leftarrow> ce_process ce block (h_world h);
     let h1 = log_out (OutSyncBlock tdmBlk block) (h\<lparr>h_world := w\<rparr>);
     (case ce_blockHash ce block2 of Inl e \<Rightarrow> Some (resetSync h1)
      | Inr hash \<Rightarrow> do {
          w2 \<leftarrow> (if bk_Txs block2 \<noteq> [] then ce_delTxs ce (bk_Txs block2) w else Some w);
          sync_applied ce block tdmBlk (status\<lparr>st_PreviousHash := hash\<rparr>) (h1\<lparr>h_world := w2\<rparr>) }) }"

definition sync_block :: "'w cons_env \<Rightarrow> Block \<Rightarrow> 'w handler" where
  "sync_block ce block h = do {
     r \<leftarrow> Standard2Cons (ce_tc ce) block;
     (case r of Inl e \<Rightarrow> Some (resetSync h)
      | Inr tdmBlk \<Rightarrow> do {
          ls \<leftarrow> LoadLastCommitStateFromBlkAndMem ce block h;
          (case ls of Inl e \<Rightarrow> Some (resetSync h)
           | Inr status \<Rightarrow> do {
               let cur = h_LastCommitState h;
               let h1 = (if st_LastHeightValidatorsChanged cur < st_LastHeightValidatorsChanged status
                         then h\<lparr>h_LastCommitState := cur\<lparr>st_Validators := st_Validators status\<rparr>\<rparr> else h);
               err \<leftarrow> validate_block ce (h_LastCommitState h1) (Some tdmBlk);
               if err \<noteq> None then Some (resetSync h1) else sync_write ce block tdmBlk status h1 }) }) }"

definition deliver_sync :: "'w cons_env \<Rightarrow> 32 word \<Rightarrow> bool \<Rightarrow> Block option \<Rightarrow> 'w handler" where
  "deliver_sync ce version finishFlag block h =
     (if \<not> h_IsContinueConsensus h then Some h
      else if version \<noteq> h_syncVersion h then Some h
      else if finishFlag then Some (h\<lparr>h_isSyncStatus := False, h_syncVersion := h_syncVersion h + 1\<rparr>)
      else (case block of None \<Rightarrow> Some (resetSync h) | Some b \<Rightarrow> do { header \<leftarrow> bk_Header b; sync_block ce b h }))"

section \<open>Runs\<close>

text \<open>The events of the loop \<open>DeliverMsg\<close>.\<close>

datatype event =
    EvTxsAvailable u64
  | EvPeerMsg PeerMessage
  | EvInternalMsg PeerMessage
  | EvTimeout u64 int RoundStepType
  | EvSync "32 word" bool "Block option"

fun deliver :: "'w cons_env \<Rightarrow> event \<Rightarrow> 'w handler" where
  "deliver ce (EvTxsAvailable height) h = (if \<not> checkContinue h then Some h else handleTxsAvailable ce height h)"
| "deliver ce (EvPeerMsg m) h = deliver_peer ce m h"
| "deliver ce (EvInternalMsg m) h = deliver_internal ce m h"
| "deliver ce (EvTimeout height rnd step) h = (if \<not> checkContinue h then Some h else handleTimeout ce height rnd step h)"
| "deliver ce (EvSync version finishFlag block) h = deliver_sync ce version finishFlag block h"

end
