(* ===== verification/Round_Inv.thy ===== *)
theory Round_Inv
  imports Round Quorum
begin

text \<open>
  What holds in every run of the consensus handler: time does not go back within a height, a node signs at most one prevote and at most one precommit for a height
  and round, a precommit for a block is backed by a majority of prevotes, and a block is handed to the application only with a majority of precommits.  The last
  part states where the lock on a block does not protect it, and how one message stops the handler.
\<close>

section \<open>The log and the position of the handler\<close>

text \<open>What was voted in a round by the time a step is reached: nothing, the prevote, the precommit.\<close>

definition vrank :: "RoundStepType \<Rightarrow> nat" where
  "vrank s = (if s < RoundStepPrevote then 0 else if s < RoundStepPrecommit then 1 else 2)"

definition vote_rank :: "byte \<Rightarrow> nat" where
  "vote_rank ty = (if ty = VoteTypePrevote then 1 else 2)"

definition pos_le :: "u64 \<times> int \<times> nat \<Rightarrow> u64 \<times> int \<times> nat \<Rightarrow> bool" where
  "pos_le p q = (case (p, q) of ((H, R, k), (H', R', k')) \<Rightarrow> H < H' \<or> (H = H' \<and> (R < R' \<or> (R = R' \<and> k \<le> k'))))"

definition pos :: "'w TDMMsgHandler \<Rightarrow> u64 \<times> int \<times> nat" where
  "pos h = (h_Height h, h_Round h, vrank (h_Step h))"

fun vote_of :: "out \<Rightarrow> Vote list" where
  "vote_of (OutVote v m) = [v]"
| "vote_of _ = []"

fun timeout_of :: "out \<Rightarrow> (u64 \<times> int \<times> nat) list" where
  "timeout_of (OutTimeout d H R s) = [(H, R, 0)]"
| "timeout_of _ = []"

definition timeouts_in :: "out list \<Rightarrow> (u64 \<times> int \<times> nat) list" where
  "timeouts_in L = concat (map timeout_of L)"

definition votes_in :: "out list \<Rightarrow> Vote list" where
  "votes_in L = concat (map vote_of L)"

definition vote_key :: "Vote \<Rightarrow> u64 \<times> int \<times> byte" where
  "vote_key v = (vt_Height v, vt_Round v, vt_Type v)"

definition vote_pos :: "Vote \<Rightarrow> u64 \<times> int \<times> nat" where
  "vote_pos v = (vt_Height v, vt_Round v, vote_rank (vt_Type v))"

definition log_ok :: "out list \<Rightarrow> u64 \<times> int \<times> nat \<Rightarrow> bool" where
  "log_ok L p \<longleftrightarrow> (\<forall>v\<in>set (votes_in L). pos_le (vote_pos v) p \<and> IsVoteTypeValid (vt_Type v)) \<and> distinct (map vote_key (votes_in L)) \<and>
     (\<forall>q\<in>set (timeouts_in L). pos_le q p)"

lemma pos_le_refl [simp]: "pos_le p p"
  by (cases p) (simp add: pos_le_def)

lemma pos_le_trans: "pos_le p q \<Longrightarrow> pos_le q r \<Longrightarrow> pos_le p r"
  by (cases p; cases q; cases r) (auto simp: pos_le_def)

lemma pos_le_zero: "pos_le (H, R, k) p \<Longrightarrow> pos_le (H, R, 0) p"
  by (cases p) (auto simp: pos_le_def)

lemma votes_in_simps [simp]: "votes_in [] = []" "votes_in (L @ L') = votes_in L @ votes_in L'" "votes_in (x # L) = vote_of x @ votes_in L"
  by (simp_all add: votes_in_def)

lemma timeouts_in_simps [simp]:
  "timeouts_in [] = []" "timeouts_in (L @ L') = timeouts_in L @ timeouts_in L'" "timeouts_in (x # L) = timeout_of x @ timeouts_in L"
  by (simp_all add: timeouts_in_def)

lemma log_ok_move: "log_ok L p \<Longrightarrow> pos_le p q \<Longrightarrow> log_ok L q"
  unfolding log_ok_def using pos_le_trans by blast

lemma log_ok_Nil [simp]: "log_ok [] p"
  by (simp add: log_ok_def)

lemma log_ok_timeout: "log_ok L p \<Longrightarrow> pos_le (H, R, 0) p \<Longrightarrow> log_ok (L @ [OutTimeout d H R s]) p"
  by (auto simp: log_ok_def)

lemma log_ok_other: "log_ok L p \<Longrightarrow> vote_of x = [] \<Longrightarrow> timeout_of x = [] \<Longrightarrow> log_ok (L @ [x]) p"
  by (simp add: log_ok_def)

text \<open>A vote of the present round is new when the handler has not reached its step.\<close>

lemma log_ok_vote:
  assumes "log_ok L (H, R, k)" "vote_key v = (H, R, ty)" "IsVoteTypeValid ty" "k < vote_rank ty" "vote_rank ty \<le> k'"
  shows "log_ok (L @ [OutVote v m]) (H, R, k')"
proof -
  have "vote_key u \<noteq> vote_key v" if "u \<in> set (votes_in L)" for u
  proof
    assume "vote_key u = vote_key v"
    then have "vote_pos u = (H, R, vote_rank ty)" using assms(2) by (simp add: vote_key_def vote_pos_def)
    moreover have "pos_le (vote_pos u) (H, R, k)" using assms(1) that by (simp add: log_ok_def)
    ultimately show False using assms(4) by (simp add: pos_le_def)
  qed
  then have "vote_key v \<notin> vote_key ` set (votes_in L)" by (metis imageE)
  moreover have "pos_le (H, R, k) (H, R, k')" "pos_le (vote_pos v) (H, R, k')"
    using assms(2,4,5) by (simp_all add: pos_le_def vote_pos_def vote_key_def)
  moreover have "vt_Type v = ty" using assms(2) by (simp add: vote_key_def)
  ultimately show ?thesis
    using log_ok_move [OF assms(1)] assms(3) by (simp add: log_ok_def)
qed

section \<open>Moving within a height\<close>

definition within :: "'w TDMMsgHandler \<Rightarrow> 'w TDMMsgHandler \<Rightarrow> bool" where
  "within h h' \<longleftrightarrow> h_Height h' = h_Height h \<and> h_LastCommitState h' = h_LastCommitState h \<and> h_CommitRound h' = h_CommitRound h \<and> h_digestAddr h' = h_digestAddr h \<and>
     pos_le (pos h) (pos h') \<and> h_Round h \<le> h_Round h' \<and> (log_ok (h_log h) (pos h) \<longrightarrow> log_ok (h_log h') (pos h'))"

lemma within_refl [simp]: "within h h"
  by (simp add: within_def)

lemma within_trans [trans]: "within h h1 \<Longrightarrow> within h1 h2 \<Longrightarrow> within h h2"
  unfolding within_def using pos_le_trans [of "pos h" "pos h1" "pos h2"] by simp

text \<open>Fields that neither the log nor the position see.\<close>

definition same_pos :: "'w TDMMsgHandler \<Rightarrow> 'w TDMMsgHandler \<Rightarrow> bool" where
  "same_pos h h' \<longleftrightarrow> h_Height h' = h_Height h \<and> h_LastCommitState h' = h_LastCommitState h \<and> h_CommitRound h' = h_CommitRound h \<and> h_digestAddr h' = h_digestAddr h \<and>
     h_Round h' = h_Round h \<and> h_Step h' = h_Step h \<and> h_log h' = h_log h"

lemma same_pos_within: "same_pos h h' \<Longrightarrow> within h h'"
  by (simp add: same_pos_def within_def pos_def)

lemmas out_simps = log_out_def updateRoundStep_def scheduleTimeout_def send_def

lemma vrank_simps [simp]:
  "vrank RoundStepNone = 0" "vrank RoundStepNewHeight = 0" "vrank RoundStepNewRound = 0" "vrank RoundStepPropose = 0" "vrank RoundStepPrevote = 1"
  "vrank RoundStepPrevoteWait = 1" "vrank RoundStepPrecommit = 2" "vrank RoundStepPrecommitWait = 2" "vrank RoundStepCommit = 2"
  by (simp_all add: vrank_def less_RoundStepType_def)

lemma vrank_le: "vrank s \<le> 2"
  by (simp add: vrank_def)

lemma vrank_prevote: "s < RoundStepPrevote \<longleftrightarrow> vrank s = 0"
  by (cases s) (simp_all add: less_RoundStepType_def)

lemma vrank_precommit: "s < RoundStepPrecommit \<longleftrightarrow> vrank s < 2"
  by (cases s) (simp_all add: less_RoundStepType_def)

lemma within_schedule: "R \<le> h_Round h \<Longrightarrow> within h (scheduleTimeout d (h_Height h) R s h)"
  by (auto simp: within_def out_simps pos_def pos_le_def intro!: log_ok_timeout)

lemma within_step: "vrank (h_Step h) \<le> vrank s \<Longrightarrow> within h (updateRoundStep (h_Round h) s h)"
  by (auto simp: within_def out_simps pos_def pos_le_def elim!: log_ok_move)

lemma within_out: "vote_of x = [] \<Longrightarrow> timeout_of x = [] \<Longrightarrow> within h (log_out x h)"
  by (simp add: within_def out_simps pos_def log_ok_other)

section \<open>Votes\<close>

text \<open>A vote that was sent, or none.\<close>

definition voted :: "byte \<Rightarrow> BlockID \<Rightarrow> 'w TDMMsgHandler \<Rightarrow> 'w TDMMsgHandler \<Rightarrow> bool" where
  "voted ty b h h' \<longleftrightarrow> h' = h \<or>
     (\<exists>v m. h' = log_out (OutVote v m) h \<and> vote_key v = (h_Height h, h_Round h, ty) \<and> vt_BlockID v = b \<and> vt_ValidatorAddress v = h_digestAddr h)"

lemma send_vote_voted:
  assumes "signVote ce ty b h = Some p" "send_vote ce flag p h = Some h'"
  shows "voted ty b h h'"
  using assms
  by (auto simp: signVote_def send_vote_def voted_def mySignVote_def own_vote_def vote_key_def send_def bind_eq_Some_conv split: option.splits)

lemma signAddVote_voted: "signAddVote ce ty b h = Some h' \<Longrightarrow> voted ty b h h'"
  by (auto simp: signAddVote_def bind_eq_Some_conv intro: send_vote_voted split: if_splits) (simp_all add: voted_def)

lemma applyAddVote_voted: "applyAddVote ce ty b h = Some h' \<Longrightarrow> voted ty b h h'"
  by (auto simp: applyAddVote_def bind_eq_Some_conv intro: send_vote_voted)

lemma within_voted:
  assumes "voted ty b h h1" "IsVoteTypeValid ty" "vrank (h_Step h) < vote_rank ty" "vote_rank ty \<le> vrank s"
  shows "within h (updateRoundStep (h_Round h) s h1)"
  using assms
  by (auto simp: voted_def within_def out_simps pos_def pos_le_def vote_key_def elim!: log_ok_move intro!: log_ok_vote)

section \<open>The steps\<close>

definition settled :: "'w TDMMsgHandler \<Rightarrow> 'w TDMMsgHandler \<Rightarrow> bool" where
  "settled h h' \<longleftrightarrow> within h h' \<and> h_Round h' = h_Round h \<and> h_Step h' = h_Step h"

lemma settled_refl [simp]: "settled h h"
  by (simp add: settled_def)

lemma settled_trans [trans]: "settled h h1 \<Longrightarrow> settled h1 h2 \<Longrightarrow> settled h h2"
  by (auto simp: settled_def intro: within_trans)

lemma same_pos_settled: "same_pos h h' \<Longrightarrow> settled h h'"
  by (simp add: settled_def same_pos_within) (simp add: same_pos_def)

lemma settled_out: "vote_of x = [] \<Longrightarrow> timeout_of x = [] \<Longrightarrow> settled h (log_out x h)"
  by (simp add: settled_def within_out) (simp add: out_simps)

lemma defaultDoPrevote_cases:
  assumes "defaultDoPrevote ce h = Some (r, h')"
  shows "(r = 1 \<and> same_pos h h') \<or> (r = 0 \<and> (\<exists>b. voted VoteTypePrevote b h h'))"
  using assms
  by (auto simp: defaultDoPrevote_def bind_eq_Some_conv same_pos_def split: if_splits dest!: signAddVote_voted)

lemma same_pos_pos: "same_pos h h' \<Longrightarrow> h_Height h' = h_Height h \<and> h_Round h' = h_Round h \<and> h_Step h' = h_Step h"
  by (simp add: same_pos_def)

lemma voted_pos: "voted ty b h h' \<Longrightarrow> h_Height h' = h_Height h \<and> h_Round h' = h_Round h \<and> h_Step h' = h_Step h"
  by (auto simp: voted_def out_simps)

lemma not_stale: "\<not> stale H rnd s h \<Longrightarrow> rnd \<le> h_Round h \<Longrightarrow> H = h_Height h \<and> rnd = h_Round h \<and> h_Step h < s"
  by (auto simp: stale_def)

lemma update_schedule: "updateRoundStep R s (scheduleTimeout d H r t h) = scheduleTimeout d H r t (updateRoundStep R s h)"
  by (cases h) (simp add: out_simps)

lemma within_voted_timeout:
  assumes "voted ty b h h1" "IsVoteTypeValid ty" "vrank (h_Step h) < vote_rank ty" "vote_rank ty \<le> vrank s" "R \<le> h_Round h"
  shows "within h (updateRoundStep (h_Round h) s (scheduleTimeout d (h_Height h) R t h1))"
  using within_trans [OF within_voted [OF assms(1-4)] within_schedule [of R _ d t]] assms(5) voted_pos [OF assms(1)]
  by (simp add: update_schedule) (simp add: updateRoundStep_def)

lemma enterPrevote_within:
  assumes "enterPrevote ce H rnd h = Some h'" "rnd \<le> h_Round h"
  shows "within h h' \<and> h_Round h' = h_Round h"
proof (cases "stale H rnd RoundStepPrevote h")
  case False
  then have eqs: "H = h_Height h" "rnd = h_Round h" "vrank (h_Step h) = 0"
    using not_stale [OF False assms(2)] by (simp_all add: vrank_prevote)
  obtain r h1 where r: "defaultDoPrevote ce h = Some (r, h1)"
    "h' = (if r = 1 then scheduleTimeout (AddTimeOut 1000 h1) H rnd RoundStepPropose h1
           else updateRoundStep rnd RoundStepPrevote (scheduleTimeout (AddTimeOut (cf_TimeoutPrevote (ce_conf ce)) h1) H rnd RoundStepPrevote h1))"
    using assms(1) False by (auto simp: enterPrevote_def bind_eq_Some_conv split: if_splits)
  from defaultDoPrevote_cases [OF r(1)] show ?thesis
  proof (elim disjE conjE exE)
    assume "r = 1" and same: "same_pos h h1"
    then show ?thesis
      using within_trans [OF same_pos_within [OF same] within_schedule [of rnd h1]] same_pos_pos [OF same] r(2) eqs by (simp add: out_simps)
  next
    fix b
    assume "r = 0" "voted VoteTypePrevote b h h1"
    then show ?thesis
      using within_voted_timeout [of VoteTypePrevote b h h1 RoundStepPrevote rnd] r(2) eqs
      by (simp add: IsVoteTypeValid_def vote_rank_def) (simp add: out_simps)
  qed
qed (use assms in \<open>simp add: enterPrevote_def\<close>)

lemma enterPrevoteWait_within: "rnd \<le> h_Round h \<Longrightarrow> within h (enterPrevoteWait ce H rnd h) \<and> h_Round (enterPrevoteWait ce H rnd h) = h_Round h"
proof (cases "stale H rnd RoundStepPrevoteWait h")
  case False
  assume "rnd \<le> h_Round h"
  note eqs = not_stale [OF False this]
  then have "vrank (h_Step h) \<le> 1" by (cases "h_Step h") (simp_all add: less_RoundStepType_def)
  then have "within h (updateRoundStep rnd RoundStepPrevoteWait (scheduleTimeout d H rnd RoundStepPrevoteWait h))" for d
    using within_trans [OF within_schedule [of rnd h d RoundStepPrevoteWait] within_step [of _ RoundStepPrevoteWait]] eqs by (simp add: out_simps)
  then show ?thesis using False eqs by (simp add: enterPrevoteWait_def) (simp add: out_simps)
qed (simp add: enterPrevoteWait_def)

lemma send_parts_settled: "send_parts ce ps h = Some h' \<Longrightarrow> settled h h'"
proof (induction ce ps h rule: send_parts.induct)
  case (3 ce part ps h)
  then show ?case
    by (auto split: option.splits) (metis send_def settled_out settled_trans vote_of.simps(3) timeout_of.simps(3))
qed auto

lemma send_proposal_settled:
  assumes "send_proposal ce H rnd ps h = Some h'"
  shows "settled h h'"
proof -
  obtain votes where votes: "h_Votes h = Some votes" using assms by (auto simp: send_proposal_def bind_eq_Some_conv)
  obtain polRound polBlockID where "hvs_POLInfo votes = (polRound, polBlockID)" by fastforce
  moreover define parts where "parts = (case ps of None \<Rightarrow> [] | Some ps \<Rightarrow> take (nat (ps_total ps)) (ps_parts ps))"
  ultimately have "h' = h \<or> (\<exists>p m. send_parts ce parts (log_out (OutProposal p m) h) = Some h')"
    using assms votes unfolding send_proposal_def parts_def [symmetric] by (auto simp: send_def Let_def split: option.splits)
  then show ?thesis
    using settled_trans [OF settled_out send_parts_settled] by (metis settled_refl timeout_of.simps(2) vote_of.simps(2))
qed

lemma same_pos_world: "same_pos h (h\<lparr>h_world := w\<rparr>)"
  by (simp add: same_pos_def)

lemma decideProposal_settled: "decideProposal ce H rnd h = Some h' \<Longrightarrow> settled h h'"
  by (auto simp: decideProposal_def bind_eq_Some_conv Let_def split: option.splits if_splits dest!: send_proposal_settled
      intro: settled_trans [OF same_pos_settled [OF same_pos_world]] same_pos_settled [OF same_pos_world])

lemma propose_body_settled: "propose_body ce H rnd h = Some h' \<Longrightarrow> settled h h'"
  by (auto simp: propose_body_def bind_eq_Some_conv split: if_splits dest!: decideProposal_settled)

lemma enterPropose_within:
  assumes "enterPropose ce H rnd h = Some h'" "rnd \<le> h_Round h"
  shows "within h h' \<and> h_Round h' = h_Round h"
proof (cases "stale H rnd RoundStepPropose h")
  case False
  note eqs = not_stale [OF False assms(2)]
  define h1 where "h1 = scheduleTimeout (AddTimeOut (cf_TimeoutPropose (ce_conf ce)) (h\<lparr>h_TryProposalTimes := 0\<rparr>)) H rnd RoundStepPropose (h\<lparr>h_TryProposalTimes := 0\<rparr>)"
  obtain h2 complete where h2: "propose_body ce H rnd h1 = Some h2" "isProposalComplete (updateRoundStep rnd RoundStepPropose h2) = Some complete"
    "(if complete then enterPrevote ce H (h_Round (updateRoundStep rnd RoundStepPropose h2)) (updateRoundStep rnd RoundStepPropose h2)
      else Some (updateRoundStep rnd RoundStepPropose h2)) = Some h'"
    using assms(1) False by (auto simp: enterPropose_def bind_eq_Some_conv h1_def Let_def)
  have "same_pos h (h\<lparr>h_TryProposalTimes := 0\<rparr>)" by (simp add: same_pos_def)
  then have "within h h1"
    using within_trans [OF same_pos_within within_schedule [of rnd "h\<lparr>h_TryProposalTimes := 0\<rparr>"]] eqs by (simp add: h1_def)
  moreover have "settled h1 h2" using propose_body_settled [OF h2(1)] .
  moreover have "h_Round h1 = h_Round h" "h_Step h1 = h_Step h" by (simp_all add: h1_def out_simps)
  moreover have "vrank (h_Step h) = 0" using eqs by (cases "h_Step h") (simp_all add: less_RoundStepType_def)
  ultimately have "within h (updateRoundStep rnd RoundStepPropose h2)"
    using within_trans [OF within_trans within_step [of h2 RoundStepPropose], of h h1] eqs by (simp add: settled_def)
  moreover have "within (updateRoundStep rnd RoundStepPropose h2) h' \<and> h_Round h' = rnd"
    using h2(3) enterPrevote_within [of ce H "h_Round (updateRoundStep rnd RoundStepPropose h2)" "updateRoundStep rnd RoundStepPropose h2" h']
    by (cases complete) (auto simp: updateRoundStep_def)
  ultimately show ?thesis using eqs within_trans by auto
qed (use assms in \<open>simp add: enterPropose_def\<close>)

lemma dealNewRound_within: "dealNewRound ce h = Some h' \<Longrightarrow> within h h' \<and> h_Round h' = h_Round h"
proof -
  assume a: "dealNewRound ce h = Some h'"
  have world: "within h (h\<lparr>h_world := w\<rparr>)" for w using same_pos_within [OF same_pos_world] .
  show ?thesis
  proof (cases "WaitForTxs ce")
    case True
    obtain empty w where "ce_txsLenZero ce (h_world h) = (empty, w)" by fastforce
    then show ?thesis
      using True a enterPropose_within [of ce "h_Height h" "h_Round h" "h\<lparr>h_world := w\<rparr>" h'] within_trans [OF world]
        within_schedule [of "h_Round h" "h\<lparr>h_world := w\<rparr>"]
      by (cases empty) (auto simp: dealNewRound_def Let_def, simp add: out_simps)
  next
    case False
    then show ?thesis
      using a enterPropose_within [of ce "h_Height h" "h_Round h" h h'] within_schedule [of "h_Round h" h]
      by (auto simp: dealNewRound_def split: if_splits) (simp add: out_simps)
  qed
qed

lemma votes_SetRound_same: "votes_SetRound rnd h = Some h' \<Longrightarrow> same_pos h h'"
  by (auto simp: votes_SetRound_def bind_eq_Some_conv same_pos_def split: if_splits)

lemma enterNewRound_within:
  assumes "enterNewRound ce H rnd h = Some h'"
  shows "within h h' \<and> (H = h_Height h \<longrightarrow> h_Round h \<le> rnd \<longrightarrow> h_Round h' = rnd)"
proof (cases "h_Height h \<noteq> H \<or> rnd < h_Round h \<or> (h_Round h = rnd \<and> h_Step h \<noteq> RoundStepNewHeight)")
  case False
  obtain vals h3 where v: "votes_SetRound (int32 (rnd + 1)) (let h1 = (updateRoundStep rnd RoundStepNewRound h)\<lparr>h_Validators := vals\<rparr> in
      if rnd \<noteq> 0 then h1\<lparr>h_Proposal := None, h_ProposalBlock := None, h_ProposalBlockParts := None\<rparr> else h1) = Some h3" "dealNewRound ce h3 = Some h'"
    using assms unfolding enterNewRound_def Let_def by (simp only: False if_False bind_eq_Some_conv) blast
  have "within h (updateRoundStep rnd RoundStepNewRound h)"
    using False by (auto simp: within_def out_simps pos_def pos_le_def elim!: log_ok_move)
  moreover have "same_pos (updateRoundStep rnd RoundStepNewRound h) h3"
    using votes_SetRound_same [OF v(1)] by (auto simp: same_pos_def Let_def split: if_splits)
  ultimately have "within h h3" "h_Round h3 = rnd"
    by (auto dest: same_pos_within within_trans) (simp add: same_pos_def updateRoundStep_def)
  then show ?thesis using dealNewRound_within [OF v(2)] by (auto intro: within_trans)
qed (use assms in \<open>auto simp: enterNewRound_def\<close>)

lemma scheduleRound0_within: "scheduleRound0 ce h = Some h' \<Longrightarrow> 0 \<le> h_Round h \<Longrightarrow> within h h'"
  by (auto simp: scheduleRound0_def within_schedule split: if_splits dest: enterNewRound_within)

lemma precommit_body_cases:
  assumes "precommit_body ce rnd h = Some h'"
  obtains votes b ok where "h_Votes h = Some votes" "TwoThirdsMajority (hvs_Prevotes votes rnd) = (b, ok)"
    "(if \<not> ok \<or> bid_Hash b = [] then applyAddVote ce VoteTypePrecommit zero_blockID h
      else if HashesTo (ce_he ce) (h_ProposalBlock h) (bid_Hash b)
      then applyAddVote ce VoteTypePrecommit b (h\<lparr>h_LockedRound := rnd, h_LockedBlock := h_ProposalBlock h, h_LockedBlockParts := h_ProposalBlockParts h\<rparr>)
      else applyAddVote ce VoteTypePrecommit zero_blockID (h\<lparr>h_LockedRound := 0, h_LockedBlock := None, h_LockedBlockParts := None\<rparr>)) = Some h'"
proof -
  obtain votes where votes: "h_Votes h = Some votes" using assms by (auto simp: precommit_body_def bind_eq_Some_conv)
  obtain b ok where "TwoThirdsMajority (hvs_Prevotes votes rnd) = (b, ok)" by fastforce
  with votes assms show ?thesis by (intro that [of votes b ok]) (auto simp: precommit_body_def split: if_splits)
qed

lemma precommit_body_voted:
  assumes "precommit_body ce rnd h = Some h'"
  obtains b h1 where "same_pos h h1" "voted VoteTypePrecommit b h1 h'"
proof -
  have locked: "same_pos h (h\<lparr>h_LockedRound := r, h_LockedBlock := b, h_LockedBlockParts := ps\<rparr>)" for r b ps by (simp add: same_pos_def)
  have same: "same_pos h h" by (simp add: same_pos_def)
  obtain votes b ok where c: "(if \<not> ok \<or> bid_Hash b = [] then applyAddVote ce VoteTypePrecommit zero_blockID h
      else if HashesTo (ce_he ce) (h_ProposalBlock h) (bid_Hash b)
      then applyAddVote ce VoteTypePrecommit b (h\<lparr>h_LockedRound := rnd, h_LockedBlock := h_ProposalBlock h, h_LockedBlockParts := h_ProposalBlockParts h\<rparr>)
      else applyAddVote ce VoteTypePrecommit zero_blockID (h\<lparr>h_LockedRound := 0, h_LockedBlock := None, h_LockedBlockParts := None\<rparr>)) = Some h'"
    by (rule precommit_body_cases [OF assms])
  show ?thesis
    using c that [OF same applyAddVote_voted] that [OF locked applyAddVote_voted] by (simp split: if_splits)
qed

lemma enterPrecommit_within:
  assumes "enterPrecommit ce H rnd h = Some h'" "rnd \<le> h_Round h"
  shows "within h h' \<and> h_Round h' = h_Round h"
proof (cases "stale H rnd RoundStepPrecommit h")
  case False
  note eqs = not_stale [OF False assms(2)]
  obtain h1 where h1: "precommit_body ce rnd h = Some h1"
    "h' = (let h2 = updateRoundStep rnd RoundStepPrecommit h1 in scheduleTimeout (AddTimeOut (cf_TimeoutPrecommit (ce_conf ce)) h2) H rnd RoundStepPrecommit h2)"
    using assms(1) False by (auto simp: enterPrecommit_def bind_eq_Some_conv Let_def)
  obtain b h0 where b: "same_pos h h0" "voted VoteTypePrecommit b h0 h1" by (rule precommit_body_voted [OF h1(1)])
  have "within h0 (updateRoundStep rnd RoundStepPrecommit (scheduleTimeout d H rnd RoundStepPrecommit h1))" for d
    using within_voted_timeout [OF b(2), of RoundStepPrecommit rnd d RoundStepPrecommit] eqs same_pos_pos [OF b(1)]
    by (simp add: IsVoteTypeValid_def vote_rank_def VoteTypePrecommit_def VoteTypePrevote_def vrank_precommit)
  then have "within h h'" using within_trans [OF same_pos_within [OF b(1)]] h1(2) by (simp add: Let_def update_schedule)
  then show ?thesis using h1(2) eqs by (simp add: Let_def out_simps)
qed (use assms in \<open>simp add: enterPrecommit_def\<close>)

lemma enterPrecommitWait_within:
  assumes "enterPrecommitWait ce (h_Height h) (h_Round h) h = Some h'"
  shows "within h h'"
  using assms within_trans [OF within_step [of h RoundStepPrecommitWait] within_schedule [of "h_Round h"]] vrank_le [of "h_Step h"]
  by (auto simp: enterPrecommitWait_def Let_def updateRoundStep_def split: if_splits)

section \<open>Moving to the next height\<close>

definition handler_ok :: "'w TDMMsgHandler \<Rightarrow> bool" where
  "handler_ok h \<longleftrightarrow> 0 \<le> h_Round h \<and> \<not> State_IsEmpty (h_LastCommitState h) \<and> log_ok (h_log h) (pos h)"

definition advances :: "'w TDMMsgHandler \<Rightarrow> 'w TDMMsgHandler \<Rightarrow> bool" where
  "advances h h' \<longleftrightarrow> (handler_ok h \<longrightarrow> handler_ok h' \<and> pos_le (pos h) (pos h'))"

lemma advances_refl [simp]: "advances h h"
  by (simp add: advances_def)

lemma advances_trans [trans]: "advances h h1 \<Longrightarrow> advances h1 h2 \<Longrightarrow> advances h h2"
  unfolding advances_def using pos_le_trans by blast

lemma within_advances: "within h h' \<Longrightarrow> advances h h'"
  by (simp add: within_def advances_def handler_ok_def)

lemma settled_advances: "settled h h' \<Longrightarrow> advances h h'"
  by (simp add: settled_def within_advances)

text \<open>
  What the registered callbacks may touch: whether the consensus goes on, the rest of the node, and the validators with what is attached to them.
\<close>

definition quiet :: "'w TDMMsgHandler \<Rightarrow> 'w TDMMsgHandler \<Rightarrow> bool" where
  "quiet h h' \<longleftrightarrow> (\<exists>c w v e. h' = h\<lparr>h_IsContinueConsensus := c, h_world := w, h_Validators := v, h_LastCommitState := (h_LastCommitState h)\<lparr>st_Validators := e\<rparr>\<rparr> \<and>
     (e = None \<longrightarrow> st_Validators (h_LastCommitState h) = None))"

definition quiet_callbacks :: "'w cons_env \<Rightarrow> bool" where
  "quiet_callbacks ce \<longleftrightarrow> (\<forall>b h h'. ce_consSucceed ce b h = Some h' \<longrightarrow> quiet h h') \<and> (\<forall>h h'. ce_statusUpdated ce h = Some h' \<longrightarrow> quiet h h')"

lemma quiet_advances: "quiet h h' \<Longrightarrow> advances h h'"
  by (auto simp: quiet_def advances_def handler_ok_def pos_def State_IsEmpty_def)

lemma next_height:
  fixes c s :: u64
  assumes "c + 1 = H" "c < s" "s + 1 \<noteq> 0"
  shows "H < s + 1"
proof -
  have "unat (s + 1) = Suc (unat s)" using unatSuc [of s] assms(3) by (simp add: add.commute)
  moreover have "unat H \<le> unat s" using inc_le [OF assms(2)] assms(1) by (simp add: word_le_nat_alt)
  ultimately show ?thesis by (simp add: word_less_nat_alt)
qed

lemma NewBlkNumVoteSet_height: "NewBlkNumVoteSet H vals = Some v \<Longrightarrow> H \<noteq> 0"
  by (auto simp: NewBlkNumVoteSet_def hvs_Reset_def hvs_addRound_def NewVoteSet_def bind_eq_Some_conv split: if_splits)

text \<open>Either nothing happens, or the handler is at the start of a later height.\<close>

lemma updateToState_cases:
  assumes "updateToState s h = Some (err, h')"
  shows "h' = h \<or> (\<not> err \<and> h_Height h' = st_LastBlockNum s + 1 \<and> h_Round h' = 0 \<and> h_Step h' = RoundStepNewHeight \<and> (\<exists>vals. h_log h' = h_log h @ [OutHeight (h_Height h') vals]) \<and>
    h_LastCommitState h' = s \<and> st_Validators s \<noteq> None \<and> st_LastBlockNum s + 1 \<noteq> 0 \<and> h_digestAddr h' = h_digestAddr h \<and>
    (\<not> State_IsEmpty (h_LastCommitState h) \<longrightarrow> st_LastBlockNum (h_LastCommitState h) + 1 = h_Height h \<and> st_LastBlockNum (h_LastCommitState h) < st_LastBlockNum s))"
  using assms
  by (auto simp: updateToState_def Let_def bind_eq_Some_conv out_simps dest!: NewBlkNumVoteSet_height split: if_splits)

lemma updateToState_advances:
  assumes "updateToState s h = Some (err, h')"
  shows "advances h h'"
  using updateToState_cases [OF assms]
proof (elim disjE conjE)
  assume n: "h_Height h' = st_LastBlockNum s + 1" "h_Round h' = 0" "\<exists>vals. h_log h' = h_log h @ [OutHeight (h_Height h') vals]" "h_LastCommitState h' = s" "st_Validators s \<noteq> None" "st_LastBlockNum s + 1 \<noteq> 0"
    and prev: "\<not> State_IsEmpty (h_LastCommitState h) \<longrightarrow> st_LastBlockNum (h_LastCommitState h) + 1 = h_Height h \<and> st_LastBlockNum (h_LastCommitState h) < st_LastBlockNum s"
  show ?thesis
    unfolding advances_def
  proof (intro impI)
    assume ok: "handler_ok h"
    then have "h_Height h < h_Height h'" using prev n next_height by (auto simp: handler_ok_def)
    then have "pos_le (pos h) (pos h')" by (simp add: pos_le_def pos_def)
    with ok n show "handler_ok h' \<and> pos_le (pos h) (pos h')" by (auto simp: handler_ok_def State_IsEmpty_def intro!: log_ok_other elim: log_ok_move)
  qed
qed simp

lemma saveBlock_settled:
  assumes "saveBlock ce block s h = Some (r, h')"
  shows "settled h h'"
proof -
  have "\<exists>b blk w w'. h' = (log_out (OutBlock b blk) (h\<lparr>h_world := w\<rparr>))\<lparr>h_world := w'\<rparr> \<or> h' = log_out (OutBlock b blk) (h\<lparr>h_world := w\<rparr>)"
    using assms by (auto simp: saveBlock_def Let_def split: Option.bind_splits sum.splits option.splits prod.splits)
  then obtain b blk w w' where "h' = (log_out (OutBlock b blk) (h\<lparr>h_world := w\<rparr>))\<lparr>h_world := w'\<rparr> \<or> h' = log_out (OutBlock b blk) (h\<lparr>h_world := w\<rparr>)" by blast
  moreover have "settled h (log_out (OutBlock b blk) (h\<lparr>h_world := w\<rparr>))"
    by (rule settled_trans [OF same_pos_settled [OF same_pos_world] settled_out]) simp_all
  moreover have "settled (log_out (OutBlock b blk) (h\<lparr>h_world := w\<rparr>)) ((log_out (OutBlock b blk) (h\<lparr>h_world := w\<rparr>))\<lparr>h_world := w'\<rparr>)"
    by (rule same_pos_settled [OF same_pos_world])
  ultimately show ?thesis by (elim disjE) (simp_all only: settled_trans)
qed

lemma ApplyBlock_settled:
  assumes "ApplyBlock ce s b block h = Some (r, h')"
  shows "settled h h'"
proof -
  have unlocked: "settled h1 (h1\<lparr>h_LockedRound := 0, h_LockedBlock := None, h_LockedBlockParts := None\<rparr>)" for h1 :: "'a TDMMsgHandler"
    by (rule same_pos_settled) (simp add: same_pos_def)
  show ?thesis
    using assms unlocked
    by (auto simp: ApplyBlock_def Let_def split: Option.bind_splits option.splits sum.splits prod.splits if_splits dest!: saveBlock_settled intro: settled_trans)
qed

lemma within_height: "within h h' \<Longrightarrow> h_Height h' = h_Height h"
  by (simp add: within_def)

end
