(* ===== verification/Round_Rel.thy ===== *)
theory Round_Rel
  imports Round_Inv
begin

text \<open>
  What the steps of a round have in common is lifted to the events: a relation between handlers that is reflexive and transitive and holds across the functions that
  enter a step, the move to a height, the application of a block and the bookkeeping of votes, holds across every event of the loop.  The relation is the parameter of
  a locale; it is interpreted here with \<open>advances\<close>, which gives that a node signs at most one prevote and one precommit for a round.
\<close>

section \<open>The interface\<close>

definition frame :: "'w TDMMsgHandler \<Rightarrow> 'w TDMMsgHandler \<Rightarrow> bool" where
  "frame h h' \<longleftrightarrow> same_pos h h' \<and> h_Votes h' = h_Votes h"

text \<open>
  The events that are followed: messages whose handlers are modelled, and timeouts that were scheduled.
\<close>

definition modelled_type :: "TDMType \<Rightarrow> bool" where
  "modelled_type t \<longleftrightarrow> t \<notin> {MsgCheckFork, MsgHeightReq, MsgHeihtResp}"

fun allowed :: "'w cons_env \<Rightarrow> event \<Rightarrow> 'w TDMMsgHandler \<Rightarrow> bool" where
  "allowed ce (EvPeerMsg m) h = (case open_peer_msg (ce_ne ce) m of None \<Rightarrow> True | Some t \<Rightarrow> modelled_type (tm_Type t))"
| "allowed ce (EvTimeout H R s) h = ((H, R, 0) \<in> set (timeouts_in (h_log h)))"
| "allowed ce _ h = True"

locale handler_rel =
  fixes ce :: "'w cons_env" and Q :: "'w TDMMsgHandler \<Rightarrow> 'w TDMMsgHandler \<Rightarrow> bool"
  assumes Q_refl: "Q h h"
    and Q_trans: "Q h h1 \<Longrightarrow> Q h1 h2 \<Longrightarrow> Q h h2"
    and Q_frame: "frame h h' \<Longrightarrow> Q h h'"
    and Q_quiet: "quiet h h' \<Longrightarrow> Q h h'"
    and Q_schedule: "R \<le> h_Round h \<Longrightarrow> Q h (scheduleTimeout d (h_Height h) R step h)"
    and Q_commit: "Q h ((updateRoundStep (h_Round h) RoundStepCommit h)\<lparr>h_CommitRound := r\<rparr>)"
    and Q_newRound: "enterNewRound ce H R h = Some h' \<Longrightarrow> Q h h'"
    and Q_deal: "dealNewRound ce h = Some h' \<Longrightarrow> Q h h'"
    and Q_propose: "enterPropose ce H R h = Some h' \<Longrightarrow> R \<le> h_Round h \<Longrightarrow> Q h h'"
    and Q_prevote: "enterPrevote ce H R h = Some h' \<Longrightarrow> R \<le> h_Round h \<Longrightarrow> Q h h'"
    and Q_prevoteWait: "R \<le> h_Round h \<Longrightarrow> Q h (enterPrevoteWait ce H R h)"
    and Q_precommit: "enterPrecommit ce H R h = Some h' \<Longrightarrow> R \<le> h_Round h \<Longrightarrow> Q h h'"
    and Q_precommitWait: "enterPrecommitWait ce (h_Height h) (h_Round h) h = Some h' \<Longrightarrow> Q h h'"
    and Q_height: "updateToState s h = Some (err, h') \<Longrightarrow> Q h h'"
    and Q_apply: "h_Votes h = Some votes \<Longrightarrow> TwoThirdsMajority (hvs_Precommits votes (h_CommitRound h)) = (b, True) \<Longrightarrow>
      h_ProposalBlock h = Some block \<Longrightarrow> HashesTo (ce_he ce) (Some block) (bid_Hash b) \<Longrightarrow> State_Copy (h_LastCommitState h) = Some s \<Longrightarrow>
      ApplyBlock ce s bid block (h\<lparr>h_world := w\<rparr>) = Some (res, h') \<Longrightarrow> Q h h'"
    and Q_setRound: "votes_SetRound R h = Some h' \<Longrightarrow> Q h h'"
    and Q_count: "h_Votes h = Some votes \<Longrightarrow> hvs_AddVote (ce_dig ce) votes vote k = Some (added, votes') \<Longrightarrow> InVote vote \<in> set (h_log h) \<Longrightarrow>
      Q h (h\<lparr>h_Votes := Some votes'\<rparr>)"
    and Q_peerMaj: "h_Votes h = Some votes \<Longrightarrow> Q h (h\<lparr>h_Votes := Some (snd (hvs_SetPeerMaj23 (ce_dig ce) votes R ty k b))\<rparr>)"
    and Q_sync: "Q h (log_out (OutSyncBlock blk sblk) h)"
    and Q_in: "Q h (log_out (InVote vote) h)"
begin

lemma Q_world: "Q h (h\<lparr>h_world := w\<rparr>)"
  by (rule Q_frame) (simp add: frame_def same_pos_def)

lemma Q_outside: "Q h (h\<lparr>h_world := w, h_isSyncStatus := b, h_syncVersion := n\<rparr>)"
  by (rule Q_frame) (simp add: frame_def same_pos_def)

lemma Q_quiets: "quiet_callbacks ce \<Longrightarrow> ce_consSucceed ce b h = Some h' \<or> ce_statusUpdated ce h = Some h' \<Longrightarrow> Q h h'"
  unfolding quiet_callbacks_def using Q_quiet by blast

lemma block_applied_Q:
  assumes "block_applied ce block s h = Some h'" "quiet_callbacks ce"
  shows "Q h h'"
proof -
  obtain h1 err h2 h3 where c: "ce_consSucceed ce block h = Some h1" "updateToState s h1 = Some (err, h2)" "ce_statusUpdated ce h2 = Some h3"
    "(if h_IsContinueConsensus (h3\<lparr>h_JustStarted := False\<rparr>) then scheduleRound0 ce (h3\<lparr>h_JustStarted := False\<rparr>) else Some (h3\<lparr>h_JustStarted := False\<rparr>)) = Some h'"
    using assms(1) by (auto simp: block_applied_def bind_eq_Some_conv Let_def)
  have "Q h h1" "Q h2 h3" using Q_quiets [OF assms(2)] c(1,3) by blast+
  moreover have "Q h1 h2" using Q_height [OF c(2)] .
  moreover have "Q h3 (h3\<lparr>h_JustStarted := False\<rparr>)" by (rule Q_frame) (simp add: frame_def same_pos_def)
  moreover have "Q (h3\<lparr>h_JustStarted := False\<rparr>) h'"
    using c(4) Q_newRound by (auto simp: scheduleRound0_def Q_refl split: if_splits)
  ultimately show ?thesis by (meson Q_trans)
qed

section \<open>Commit\<close>

lemma finalizeCommit_Q:
  assumes "finalizeCommit ce H h = Some h'" "quiet_callbacks ce"
  shows "Q h h'"
proof (cases "h_Height h \<noteq> H \<or> h_Step h \<noteq> RoundStepCommit")
  case False
  obtain votes where votes: "h_Votes h = Some votes" using assms(1) False by (auto simp: finalizeCommit_def bind_eq_Some_conv)
  obtain blockID ok where maj: "TwoThirdsMajority (hvs_Precommits votes (h_CommitRound h)) = (blockID, ok)" by fastforce
  obtain block s bid w r h1 where c: "ok" "h_ProposalBlock h = Some block" "HashesTo (ce_he ce) (Some block) (bid_Hash blockID)"
    "State_Copy (h_LastCommitState h) = Some s" "ApplyBlock ce s bid block (h\<lparr>h_world := w\<rparr>) = Some (r, h1)"
    "(case r of Inl e \<Rightarrow> enterNewRound ce H (int32 (h_Round h1 + 1)) h1 | Inr s \<Rightarrow> block_applied ce block s h1) = Some h'"
    using assms(1) False votes maj by (auto simp: finalizeCommit_def Let_def split: Option.bind_splits prod.splits if_splits)
  have "Q h h1" using Q_apply [OF votes _ c(2-5)] maj c(1) by simp
  moreover have "Q h1 h'"
    using c(6) by (auto split: sum.splits intro: Q_newRound block_applied_Q [OF _ assms(2)])
  ultimately show ?thesis by (rule Q_trans)
qed (use assms(1) Q_refl in \<open>auto simp: finalizeCommit_def\<close>)

lemma tryFinalizeCommit_Q:
  assumes "tryFinalizeCommit ce H h = Some h'" "quiet_callbacks ce"
  shows "Q h h'"
proof -
  obtain blockID :: BlockID and ok h1 h2 where c: "(if \<not> ok \<or> length (bid_Hash blockID) = 0 then enterNewRound ce (h_Height h) (int32 (h_Round h + 1)) h else Some h) = Some h1"
    "(if \<not> HashesTo (ce_he ce) (h_ProposalBlock h1) (bid_Hash blockID) then
        if HashesTo (ce_he ce) (h_LockedBlock h1) (bid_Hash blockID) then Some (h1\<lparr>h_ProposalBlock := h_LockedBlock h1\<rparr>)
        else enterNewRound ce (h_Height h1) (int32 (h_Round h1 + 1)) h1
      else Some h1) = Some h2"
    "finalizeCommit ce H h2 = Some h'"
  proof -
    have H: "h_Height h = H" using assms(1) by (auto simp: tryFinalizeCommit_def split: if_splits)
    obtain votes where votes: "h_Votes h = Some votes" using assms(1) H by (auto simp: tryFinalizeCommit_def bind_eq_Some_conv)
    obtain blockID ok where "TwoThirdsMajority (hvs_Precommits votes (h_CommitRound h)) = (blockID, ok)" by fastforce
    with assms(1) H votes that [of ok blockID] show thesis by (auto simp: tryFinalizeCommit_def bind_eq_Some_conv simp del: length_0_conv)
  qed
  have "Q h h1" using c(1) Q_newRound Q_refl by (auto split: if_splits)
  moreover have "Q h1 (h1\<lparr>h_ProposalBlock := h_LockedBlock h1\<rparr>)" by (rule Q_frame) (simp add: frame_def same_pos_def)
  then have "Q h1 h2" using c(2) Q_newRound Q_refl by (auto split: if_splits)
  ultimately show ?thesis using finalizeCommit_Q [OF c(3) assms(2)] by (meson Q_trans)
qed

lemma enterCommit_Q:
  assumes "enterCommit ce H r h = Some h'" "quiet_callbacks ce"
  shows "Q h h'"
proof (cases "h_Height h \<noteq> H \<or> RoundStepCommit \<le> h_Step h")
  case False
  then obtain blk ps where c: "tryFinalizeCommit ce H ((updateRoundStep (h_Round h) RoundStepCommit (h\<lparr>h_ProposalBlock := blk, h_ProposalBlockParts := ps\<rparr>))\<lparr>h_CommitRound := r\<rparr>) = Some h'"
    using assms(1)
    by (auto simp: enterCommit_def Let_def updateRoundStep_def split: Option.bind_splits prod.splits if_splits intro: that [of "h_ProposalBlockParts h" "h_ProposalBlock h"])
  have "Q h (h\<lparr>h_ProposalBlock := blk, h_ProposalBlockParts := ps\<rparr>)" by (rule Q_frame) (simp add: frame_def same_pos_def)
  then show ?thesis using tryFinalizeCommit_Q [OF c assms(2)] Q_commit [of "h\<lparr>h_ProposalBlock := blk, h_ProposalBlockParts := ps\<rparr>" r] by (auto intro: Q_trans)
qed (use assms(1) Q_refl in \<open>auto simp: enterCommit_def\<close>)

section \<open>Votes\<close>

lemma prevote_added_Q:
  assumes "prevote_added ce vote h = Some h'"
  shows "Q h h'"
proof -
  obtain votes where votes: "h_Votes h = Some votes" using assms by (auto simp: prevote_added_def bind_eq_Some_conv Let_def)
  define H where "H = h_Height h"
  define pv where "pv = hvs_Prevotes votes (vt_Round vote)"
  obtain h1 where h1: "(if h_Round h < vt_Round vote \<and> HasHalfAny pv then enterNewRound ce H (vt_Round vote) h else Some h) = Some h1"
    and rest: "(if h_Round h1 \<le> vt_Round vote \<and> HasTwoThirdsAny pv then do {
       h2 \<leftarrow> enterNewRound ce H (vt_Round vote) h1;
       if HasTwoThirdsMajority pv then enterPrecommit ce H (vt_Round vote) h2
       else do { h3 \<leftarrow> enterPrevote ce H (vt_Round vote) h2; Some (enterPrevoteWait ce H (vt_Round vote) h3) } }
     else if (case h_Proposal h1 of None \<Rightarrow> False | Some p \<Rightarrow> 0 \<le> pp_POLRound p \<and> pp_POLRound p = vt_Round vote) then do {
       complete \<leftarrow> isProposalComplete h1;
       if complete then enterPrevote ce H (h_Round h1) h1 else Some h1 }
     else Some h1) = Some h'"
    using assms votes unfolding prevote_added_def Let_def H_def [symmetric] pv_def by (auto simp: bind_eq_Some_conv)
  have "h1 = h \<or> enterNewRound ce H (vt_Round vote) h = Some h1" using h1 by (auto split: if_splits)
  then have w1: "h_Height h1 = H" "Q h h1"
    using enterNewRound_within within_height Q_newRound Q_refl unfolding H_def by blast+
  have "Q h1 h'"
  proof (cases "h_Round h1 \<le> vt_Round vote \<and> HasTwoThirdsAny pv")
    case True
    then obtain h2 where h2: "enterNewRound ce H (vt_Round vote) h1 = Some h2"
      "(if HasTwoThirdsMajority pv then enterPrecommit ce H (vt_Round vote) h2
        else do { h3 \<leftarrow> enterPrevote ce H (vt_Round vote) h2; Some (enterPrevoteWait ce H (vt_Round vote) h3) }) = Some h'"
      using rest by (simp add: bind_eq_Some_conv) blast
    have r: "h_Round h2 = vt_Round vote" using enterNewRound_within [OF h2(1)] True w1(1) by simp
    have "Q h2 h'"
    proof (cases "HasTwoThirdsMajority pv")
      case False
      then obtain h3 where h3: "enterPrevote ce H (vt_Round vote) h2 = Some h3" "h' = enterPrevoteWait ce H (vt_Round vote) h3"
        using h2(2) by (auto simp: bind_eq_Some_conv)
      then have "h_Round h3 = vt_Round vote" using enterPrevote_within [OF h3(1)] r by simp
      then show ?thesis using h3 Q_trans [OF Q_prevote [OF h3(1)] Q_prevoteWait] r by simp
    qed (use h2(2) Q_precommit r in simp)
    then show ?thesis using Q_trans [OF Q_newRound [OF h2(1)]] by blast
  next
    case False
    then show ?thesis using rest Q_prevote [of H "h_Round h1" h1 h'] Q_refl by (auto simp: bind_eq_Some_conv split: if_splits)
  qed
  then show ?thesis using Q_trans w1(2) by blast
qed

lemma precommit_added_Q:
  assumes "precommit_added ce vote h = Some h'" "quiet_callbacks ce"
  shows "Q h h'"
proof -
  define H where "H = h_Height h"
  obtain votes pc where votes: "h_Votes h = Some votes" "hvs_Precommits votes (vt_Round vote) = Some pc"
    using assms(1) by (auto simp: precommit_added_def bind_eq_Some_conv Let_def)
  obtain blockID ok where maj: "TwoThirdsMajority (Some pc) = (blockID, ok)" by fastforce
  note eq = assms(1) [unfolded precommit_added_def Let_def H_def [symmetric]]
  show ?thesis
  proof (cases ok)
    case True
    show ?thesis
    proof (cases "bid_Hash blockID = []")
      case nil: True
      then show ?thesis using eq True Q_newRound [of H "int32 (vt_Round vote + 1)" h h'] by (simp add: votes maj)
    next
      case False
      obtain h1 h2 h3 where c: "enterNewRound ce H (vt_Round vote) h = Some h1" "enterPrecommit ce H (vt_Round vote) h1 = Some h2"
        "enterCommit ce H (vt_Round vote) h2 = Some h3"
        "(if cf_SkipTimeoutCommit (ce_conf ce) \<and> HasAll pc then enterNewRound ce (h_Height h3) 0 h3 else Some h3) = Some h'"
        using eq True False by (auto simp: votes maj bind_eq_Some_conv)
      have "vt_Round vote \<le> h_Round h1" using enterNewRound_within [OF c(1)] unfolding within_def H_def by (auto simp: not_le)
      then have "Q h h2" using Q_trans [OF Q_newRound [OF c(1)] Q_precommit [OF c(2)]] by blast
      moreover have "Q h3 h'" using c(4) Q_newRound [of "h_Height h3" 0 h3 h'] Q_refl by (auto split: if_splits)
      ultimately show ?thesis using enterCommit_Q [OF c(3) assms(2)] by (meson Q_trans)
    qed
  next
    case False
    show ?thesis
    proof (cases "h_Round h \<le> vt_Round vote \<and> HasTwoThirdsAny (Some pc)")
      case wait: True
      obtain h1 h2 where c: "enterNewRound ce H (vt_Round vote) h = Some h1" "enterPrecommit ce H (vt_Round vote) h1 = Some h2"
        "enterPrecommitWait ce H (vt_Round vote) h2 = Some h'"
        using eq False wait by (auto simp: votes maj bind_eq_Some_conv)
      have h1: "within h h1" "h_Round h1 = vt_Round vote" using enterNewRound_within [OF c(1)] wait by (simp_all add: H_def)
      then have h2: "within h1 h2" "h_Round h2 = vt_Round vote" using enterPrecommit_within [OF c(2)] by simp_all
      then have "h_Height h2 = H" using h1 by (simp add: H_def within_height)
      then have "Q h2 h'" using c(3) h2 Q_precommitWait [of h2 h'] by simp
      moreover have "Q h h2" using Q_trans [OF Q_newRound [OF c(1)] Q_precommit [OF c(2)]] h1(2) by simp
      ultimately show ?thesis using Q_trans by blast
    next
      case none: False
      then show ?thesis using eq False Q_refl by (auto simp: votes maj)
    qed
  qed
qed

lemma add_last_precommit_Q:
  assumes "add_last_precommit ce vote h = Some (r, h')"
  shows "Q h h'"
proof -
  have "Q h (h\<lparr>h_LastCommit := lc\<rparr>)" for lc by (rule Q_frame) (simp add: frame_def same_pos_def)
  then show ?thesis
    using assms by (auto simp: add_last_precommit_def Let_def Q_refl split: Option.bind_splits if_splits prod.splits dest!: Q_newRound intro: Q_trans)
qed

lemma addVote_Q:
  assumes "addVote ce vote k h = Some (r, h')" "quiet_callbacks ce" "InVote vote \<in> set (h_log h)"
  shows "Q h h'"
proof -
  obtain h1 where h1: "(if vt_Round vote > h_Round h then votes_SetRound (vt_Round vote) h else Some h) = Some h1"
    using assms(1) by (auto simp: addVote_def bind_eq_Some_conv)
  then have "Q h h1" using Q_setRound Q_refl by (auto split: if_splits)
  moreover have "h_log h1 = h_log h" using h1 by (auto simp: votes_SetRound_def bind_eq_Some_conv split: if_splits)
  then have count: "Q h1 (h1\<lparr>h_Votes := Some votes'\<rparr>)" if "h_Votes h1 = Some votes" "hvs_AddVote (ce_dig ce) votes vote k = Some (added, votes')" for votes added votes'
    using Q_count [OF that] assms(3) by simp
  have "Q h1 h'"
    using assms(1) h1
    by (auto simp: addVote_def Let_def Q_refl split: Option.bind_splits if_splits prod.splits
        dest!: add_last_precommit_Q prevote_added_Q precommit_added_Q [OF _ assms(2)] intro: Q_trans [OF count])
  ultimately show ?thesis by (rule Q_trans)
qed


lemma HandleVoteMsg_Q:
  assumes "HandleVoteMsg ce m k h = Some h'" "quiet_callbacks ce"
  shows "Q h h'"
proof -
  obtain v r where v: "buildTypeFromVoteMsg (ce_ne ce) m = Some (Some v)" "addVote ce v k (log_out (InVote v) h) = Some (r, h')"
    using assms(1) by (auto simp: HandleVoteMsg_def tryAddVote_def split: Option.bind_splits)
  have "Q (log_out (InVote v) h) h'" using addVote_Q [OF v(2) assms(2)] by (simp add: log_out_def)
  then show ?thesis by (rule Q_trans [OF Q_in])
qed

section \<open>Proposals, parts and claims\<close>

lemma setProposal_Q: "setProposal p h = Some h' \<Longrightarrow> Q h h'"
  by (auto simp: setProposal_def frame_def same_pos_def Q_refl split: if_splits intro!: Q_frame)

lemma HandleInnerProposalMsg_Q: "HandleInnerProposalMsg ce m h = Some h' \<Longrightarrow> Q h h'"
  by (auto simp: HandleInnerProposalMsg_def Q_refl split: option.splits Option.bind_splits dest!: setProposal_Q)

lemma HandleOuterProposalMsg_Q: "HandleOuterProposalMsg ce m k h = Some h' \<Longrightarrow> Q h h'"
  by (auto simp: HandleOuterProposalMsg_def Q_refl split: Option.bind_splits if_splits dest!: HandleInnerProposalMsg_Q)

lemma proposal_block_Q: "proposal_block ce ps h = Some (kept, h') \<Longrightarrow> Q h h'"
  by (auto simp: proposal_block_def frame_def same_pos_def Q_refl split: Option.bind_splits option.splits if_splits intro!: Q_frame)

lemma addProposalBlockPart_Q:
  assumes "addProposalBlockPart ce H part verify h = Some h'" "quiet_callbacks ce"
  shows "Q h h'"
proof -
  have parts: "Q h (h\<lparr>h_ProposalBlockParts := ps\<rparr>)" for ps by (rule Q_frame) (simp add: frame_def same_pos_def)
  consider "h' = h" | ps where "h' = h\<lparr>h_ProposalBlockParts := ps\<rparr>"
    | ps q h2 where "proposal_block ce q (h\<lparr>h_ProposalBlockParts := ps\<rparr>) = Some (True, h2)"
        "h' = h2 \<or> enterPrevote ce H (h_Round h2) h2 = Some h' \<or> tryFinalizeCommit ce H h2 = Some h'"
    | ps q where "proposal_block ce q (h\<lparr>h_ProposalBlockParts := ps\<rparr>) = Some (False, h')"
    using assms(1) by (auto simp: addProposalBlockPart_def Let_def split: option.splits Option.bind_splits prod.splits if_splits)
  then show ?thesis
  proof cases
    case (3 ps q h2)
    have "Q h h2" using parts proposal_block_Q [OF 3(1)] by (rule Q_trans)
    moreover have "Q h2 h'"
      using 3(2) Q_prevote [of H "h_Round h2" h2 h'] tryFinalizeCommit_Q [OF _ assms(2)] Q_refl by blast
    ultimately show ?thesis by (rule Q_trans)
  next
    case (4 ps q)
    show ?thesis using parts proposal_block_Q [OF 4] by (rule Q_trans)
  qed (simp_all add: parts Q_refl)
qed

lemma HandleBlockPartMsg_Q: "HandleBlockPartMsg ce m h = Some h' \<Longrightarrow> quiet_callbacks ce \<Longrightarrow> Q h h'"
  by (auto simp: HandleBlockPartMsg_def Q_refl split: option.splits Option.bind_splits dest!: addProposalBlockPart_Q)

lemma lock_Q: "lock h = Some h' \<Longrightarrow> Q h h'" "Q h (unlock h)"
  by (auto simp: lock_def unlock_def frame_def same_pos_def split: if_splits intro!: Q_frame)

lemma HandleVoteSetMaj23Msg_Q:
  assumes "HandleVoteSetMaj23Msg ce m h = Some h'"
  shows "Q h h'"
proof -
  obtain h0 h1 where h1: "lock h = Some h0" "lock (unlock h0) = Some h1" using assms by (auto simp: HandleVoteSetMaj23Msg_def bind_eq_Some_conv)
  then have "Q h h1" using lock_Q Q_trans by metis
  moreover have "Q h1 h'"
    using assms h1 by (auto simp: HandleVoteSetMaj23Msg_def Q_refl split: Option.bind_splits option.splits if_splits prod.splits intro: Q_peerMaj)
  ultimately show ?thesis by (rule Q_trans)
qed

lemma HandleHasVoteMsg_Q: "HandleHasVoteMsg ce m h = Some h' \<Longrightarrow> Q h h'"
  by (auto simp: HandleHasVoteMsg_def split: Option.bind_splits option.splits dest!: lock_Q(1) intro: Q_trans [OF _ lock_Q(2)])

section \<open>Synchronisation\<close>

lemma resetSync_Q: "Q h h' \<Longrightarrow> Q h (resetSync h')"
  by (erule Q_trans, rule Q_frame) (simp add: resetSync_def frame_def same_pos_def)

lemma reconstructLastCommit_Q: "reconstructLastCommit ce s blk h = Some (err, h') \<Longrightarrow> Q h h'"
  by (rule Q_frame) (auto simp: reconstructLastCommit_def frame_def same_pos_def split: Option.bind_splits sum.splits option.splits if_splits)

lemma sync_applied_Q:
  assumes "sync_applied ce blk b s h = Some h'" "quiet_callbacks ce"
  shows "Q h h'"
proof -
  obtain err h1 where h1: "updateToState s h = Some (err, h1)" using assms(1) by (auto simp: sync_applied_def bind_eq_Some_conv)
  then have "Q h h1" by (rule Q_height)
  moreover have "Q h1 h'"
  proof (cases err)
    case True
    then show ?thesis using assms(1) h1 resetSync_Q [OF Q_refl, of h1] by (simp add: sync_applied_def)
  next
    case False
    obtain err2 h2 where h2: "reconstructLastCommit ce s (Some blk) h1 = Some (err2, h2)"
      using assms(1) h1 False by (auto simp: sync_applied_def bind_eq_Some_conv)
    then have "Q h1 h2" by (rule reconstructLastCommit_Q)
    moreover have "Q h2 h'"
    proof (cases err2)
      case True
      then show ?thesis using assms(1) h1 h2 False resetSync_Q [OF Q_refl, of h2] by (simp add: sync_applied_def)
    next
      case ok: False
      obtain h3 where "ce_consSucceed ce b h2 = Some h3" "ce_statusUpdated ce h3 = Some h'"
        using assms(1) h1 h2 False ok by (auto simp: sync_applied_def bind_eq_Some_conv)
      then show ?thesis using Q_quiets [OF assms(2)] Q_trans by blast
    qed
    ultimately show ?thesis by (rule Q_trans)
  qed
  ultimately show ?thesis by (rule Q_trans)
qed

lemma sync_write_Q:
  assumes "sync_write ce blk b s h = Some h'" "quiet_callbacks ce"
  shows "Q h h'"
proof -
  have out: "Q h (log_out (OutSyncBlock b blk) (h\<lparr>h_world := w\<rparr>))" for w using Q_world Q_sync by (rule Q_trans)
  have out2: "Q h ((log_out (OutSyncBlock b blk) (h\<lparr>h_world := w\<rparr>))\<lparr>h_world := w2\<rparr>)" for w w2
    using out Q_world by (rule Q_trans)
  show ?thesis
    using assms(1) Q_trans [OF out2 sync_applied_Q [OF _ assms(2)]]
    by (auto simp: sync_write_def Let_def split: Option.bind_splits prod.splits sum.splits if_splits intro: resetSync_Q [OF out])
qed

lemma loaded_nonempty: "LoadLastCommitStateFromBlkAndMem ce blk h = Some (Inr s) \<Longrightarrow> st_Validators s \<noteq> None"
  by (auto simp: LoadLastCommitStateFromBlkAndMem_def loaded_state_def split: Option.bind_splits sum.splits if_splits)

lemma sync_block_Q:
  assumes "sync_block ce blk h = Some h'" "quiet_callbacks ce"
  shows "Q h h'"
proof -
  have "quiet h (h\<lparr>h_LastCommitState := (h_LastCommitState h)\<lparr>st_Validators := st_Validators s\<rparr>\<rparr>)"
    if "LoadLastCommitStateFromBlkAndMem ce blk h = Some (Inr s)" for s
    unfolding quiet_def
    by (rule exI [of _ "h_IsContinueConsensus h"], rule exI [of _ "h_world h"], rule exI [of _ "h_Validators h"], rule exI [of _ "st_Validators s"])
      (simp add: loaded_nonempty [OF that])
  then have upd: "Q h (h\<lparr>h_LastCommitState := (h_LastCommitState h)\<lparr>st_Validators := st_Validators s\<rparr>\<rparr>)"
    if "LoadLastCommitStateFromBlkAndMem ce blk h = Some (Inr s)" for s
    using that Q_quiet by blast
  show ?thesis
    using assms(1) sync_write_Q [OF _ assms(2)] resetSync_Q [OF upd]
    by (auto simp: sync_block_def Let_def Q_refl split: Option.bind_splits sum.splits if_splits intro: resetSync_Q Q_trans [OF upd])
qed

lemma deliver_sync_Q: "deliver_sync ce v f b h = Some h' \<Longrightarrow> quiet_callbacks ce \<Longrightarrow> Q h h'"
proof -
  have "Q h (h\<lparr>h_isSyncStatus := False, h_syncVersion := v\<rparr>)" for v by (rule Q_frame) (simp add: frame_def same_pos_def)
  then show "deliver_sync ce v f b h = Some h' \<Longrightarrow> quiet_callbacks ce \<Longrightarrow> Q h h'"
    by (auto simp: deliver_sync_def Q_refl split: if_splits option.splits Option.bind_splits dest: sync_block_Q intro: resetSync_Q)
qed

section \<open>Events\<close>

lemmas message_Q = HandleInnerProposalMsg_Q HandleOuterProposalMsg_Q HandleBlockPartMsg_Q HandleHasVoteMsg_Q HandleVoteSetMaj23Msg_Q

lemma processOuterMsg_Q:
  assumes "processOuterMsg ce m k p h = Some h'" "modelled_type (tm_Type m)" "quiet_callbacks ce"
  shows "Q h h'"
  using assms by (auto simp: processOuterMsg_def modelled_type_def Q_refl split: TDMType.splits dest: message_Q HandleVoteMsg_Q)

lemma processInnerMsg_Q:
  assumes "processInnerMsg ce m k h = Some h'" "quiet_callbacks ce"
  shows "Q h h'"
  using assms by (auto simp: processInnerMsg_def Q_refl split: TDMType.splits dest: message_Q HandleVoteMsg_Q)

lemma deliver_peer_Q:
  assumes "deliver_peer ce m h = Some h'" "allowed ce (EvPeerMsg m) h" "quiet_callbacks ce"
  shows "Q h h'"
  using assms by (auto simp: deliver_peer_def modelled_type_def Q_refl split: option.splits if_splits Option.bind_splits intro: processOuterMsg_Q)

lemma deliver_internal_Q:
  assumes "deliver_internal ce m h = Some h'" "quiet_callbacks ce"
  shows "Q h h'"
  using assms by (auto simp: deliver_internal_def Q_refl split: option.splits if_splits dest: processInnerMsg_Q)

lemma timeout_switch_Q:
  assumes "timeout_switch ce (h_Height h) (h_Round h) step h = Some h'"
  shows "Q h h'"
proof -
  consider r where "enterNewRound ce (h_Height h) r h = Some h'" | "enterPropose ce (h_Height h) (h_Round h) h = Some h'"
    | "enterPrevote ce (h_Height h) (h_Round h) h = Some h'" | "h' = enterPrevoteWait ce (h_Height h) (h_Round h) h"
    | "enterPrecommit ce (h_Height h) (h_Round h) h = Some h'" | "enterPrecommitWait ce (h_Height h) (h_Round h) h = Some h'" | "h' = h"
    using assms by (cases step) (auto simp: timeout_switch_def)
  then show ?thesis
    by cases (auto simp: Q_refl intro: Q_newRound Q_propose Q_prevote Q_prevoteWait Q_precommit Q_precommitWait)
qed

lemma scheduled_round: "handler_ok h \<Longrightarrow> (h_Height h, R, 0) \<in> set (timeouts_in (h_log h)) \<Longrightarrow> R \<le> h_Round h"
  by (auto simp: handler_ok_def log_ok_def pos_le_def pos_def)

lemma handleTimeout_Q:
  assumes "handleTimeout ce H R s h = Some h'" "allowed ce (EvTimeout H R s) h" "handler_ok h"
  shows "Q h h'"
proof (cases "H \<noteq> h_Height h \<or> R < h_Round h \<or> (R = h_Round h \<and> s < h_Step h)")
  case False
  then have "H = h_Height h" "R = h_Round h" using assms(2,3) scheduled_round [of h R] by auto
  moreover obtain h1 h2 where h1: "lock h = Some h1" "timeout_switch ce H R s h1 = Some h2" "h' = unlock h2"
    using assms(1) False by (auto simp: handleTimeout_def bind_eq_Some_conv)
  moreover have "h_Height h1 = h_Height h" "h_Round h1 = h_Round h" using h1(1) by (auto simp: lock_def split: if_splits)
  ultimately have "Q h1 h2" using timeout_switch_Q [of h1 s h2] by simp
  then show ?thesis using Q_trans [OF lock_Q(1) [OF h1(1)]] Q_trans [OF _ lock_Q(2)] h1(3) by blast
next
  case True
  then show ?thesis using assms(1) Q_refl by (auto simp: handleTimeout_def)
qed

lemma handleTxsAvailable_Q:
  assumes "handleTxsAvailable ce H h = Some h'" "handler_ok h"
  shows "Q h h'"
proof -
  obtain h1 inside h2 where h1: "lock h = Some h1" "(if inside then enterPropose ce H 0 h1 else Some h1) = Some h2" "h' = unlock h2"
    using assms by (auto simp: handleTxsAvailable_def bind_eq_Some_conv)
  moreover have "0 \<le> h_Round h1" using h1(1) assms(2) by (auto simp: lock_def handler_ok_def split: if_splits)
  moreover have "h2 = h1 \<or> enterPropose ce H 0 h1 = Some h2" using h1(2) by (auto split: if_splits)
  ultimately have "Q h1 h2" using Q_propose [of H 0 h1 h2] Q_refl by blast
  then show ?thesis using Q_trans [OF lock_Q(1) [OF h1(1)]] Q_trans [OF _ lock_Q(2)] h1(3) by blast
qed

lemma deliver_Q:
  assumes "deliver ce ev h = Some h'" "allowed ce ev h" "quiet_callbacks ce" "handler_ok h"
  shows "Q h h'"
proof (cases ev)
  case (EvTxsAvailable H)
  then show ?thesis using assms(1,4) Q_refl by (auto split: if_splits dest: handleTxsAvailable_Q)
next
  case (EvTimeout H R s)
  then show ?thesis using assms(1) Q_refl handleTimeout_Q [OF _ assms(2) [unfolded EvTimeout] assms(4)] by (auto split: if_splits)
qed (use assms deliver_peer_Q deliver_internal_Q deliver_sync_Q in auto)

lemma OnStart_Q:
  assumes "OnStart ce h = Some h'" "0 \<le> h_Round h"
  shows "Q h h'"
proof -
  obtain h1 where h1: "h1 = h \<or> scheduleRound0 ce h = Some h1 \<or> setTimeout ce h = Some h1" "h' = h1\<lparr>h_IsContinueConsensus := True\<rparr>"
    using assms(1) by (auto simp: OnStart_def bind_eq_Some_conv split: if_splits)
  have "setTimeout ce h = Some h1 \<Longrightarrow> Q h h1"
    using assms(2) Q_deal [of h h1] Q_refl by (cases "h_Step h") (auto simp: setTimeout_def Let_def intro: Q_schedule)
  moreover have "scheduleRound0 ce h = Some h1 \<Longrightarrow> Q h h1" using assms(2) Q_newRound by (auto simp: scheduleRound0_def intro: Q_schedule split: if_splits)
  ultimately have "Q h h1" using h1(1) Q_refl by blast
  moreover have "Q h1 h'" unfolding h1(2) by (rule Q_frame) (simp add: frame_def same_pos_def)
  ultimately show ?thesis by (rule Q_trans)
qed

end

section \<open>Runs\<close>

text \<open>
  What happens from one start of the handler to the next: the events of its loop, in any order, and between them whatever other parts of the node do to the ledger, the pool and
  the tables of a manager (the world) and to the synchronisation.
\<close>

inductive node_run :: "'w cons_env \<Rightarrow> 'w TDMMsgHandler \<Rightarrow> bool" for ce where
  start: "NewTDMMsgHandler ce addr s w = Some (Inr h0) \<Longrightarrow> OnStart ce h0 = Some h \<Longrightarrow> node_run ce h"
| event: "node_run ce h \<Longrightarrow> allowed ce ev h \<Longrightarrow> deliver ce ev h = Some h' \<Longrightarrow> node_run ce h'"
| outside: "node_run ce h \<Longrightarrow> node_run ce (h\<lparr>h_world := w, h_isSyncStatus := b, h_syncVersion := n\<rparr>)"

lemma advances_votes: "advances h (h\<lparr>h_Votes := v\<rparr>)"
  by (simp add: advances_def handler_ok_def pos_def)

interpretation adv: handler_rel ce advances for ce :: "'w cons_env"
proof unfold_locales
  fix h :: "'w TDMMsgHandler" and r
  have "within h (updateRoundStep (h_Round h) RoundStepCommit h)" by (rule within_step) (simp add: vrank_le)
  then show "advances h ((updateRoundStep (h_Round h) RoundStepCommit h)\<lparr>h_CommitRound := r\<rparr>)"
    by (auto simp: within_def advances_def handler_ok_def pos_def)
next
  fix h h' :: "'w TDMMsgHandler" and b s bid block w res
  assume "ApplyBlock ce s bid block (h\<lparr>h_world := w\<rparr>) = Some (res, h')"
  then have "settled h h'" by (rule settled_trans [OF same_pos_settled [OF same_pos_world] ApplyBlock_settled])
  then show "advances h h'" by (rule settled_advances)
next
  fix h h' :: "'w TDMMsgHandler"
  assume "frame h h'"
  then show "advances h h'" by (auto simp: frame_def intro: settled_advances same_pos_settled)
next
  fix h :: "'w TDMMsgHandler" and blk sblk
  show "advances h (log_out (OutSyncBlock blk sblk) h)" by (rule within_advances [OF within_out]) simp_all
next
  fix h :: "'w TDMMsgHandler" and vote
  show "advances h (log_out (InVote vote) h)" by (rule within_advances [OF within_out]) simp_all
qed (auto intro: advances_trans quiet_advances updateToState_advances advances_votes within_advances within_schedule enterPrecommitWait_within
  dest: enterNewRound_within dealNewRound_within enterPropose_within enterPrevote_within enterPrecommit_within votes_SetRound_same settled_advances [OF same_pos_settled]
  simp: enterPrevoteWait_within)

lemma updateToState_zero: "updateToState s (zero_handler addr w) = Some (err, h) \<Longrightarrow> h \<noteq> zero_handler addr w"
  by (auto simp: updateToState_def zero_handler_def zero_state_def State_IsEmpty_def Let_def bind_eq_Some_conv out_simps)

lemma NewTDMMsgHandler_ok:
  assumes "NewTDMMsgHandler ce addr s w = Some (Inr h)"
  shows "handler_ok h"
proof -
  obtain h1 where h1: "updateToState s (zero_handler addr w) = Some (False, h1)" "reconstructLastCommit ce s None h1 = Some (False, h)"
    using assms by (auto simp: NewTDMMsgHandler_def bind_eq_Some_conv split: if_splits)
  have "handler_ok h1"
    using updateToState_cases [OF h1(1)] updateToState_zero [OF h1(1)] by (auto simp: handler_ok_def State_IsEmpty_def zero_handler_def log_ok_def)
  then show ?thesis using adv.reconstructLastCommit_Q [OF h1(2)] by (simp add: advances_def)
qed

lemma node_run_ok: "node_run ce h \<Longrightarrow> quiet_callbacks ce \<Longrightarrow> handler_ok h"
proof (induction rule: node_run.induct)
  case (start addr s w h0 h)
  have "handler_ok h0" using NewTDMMsgHandler_ok [OF start(1)] .
  then show ?case using adv.OnStart_Q [OF start(2)] by (simp add: handler_ok_def advances_def)
next
  case (event h ev h')
  then show ?case using adv.deliver_Q [of ce ev h h'] by (simp add: advances_def)
next
  case (outside h w b n)
  then show ?case using adv.Q_outside [of h w b n] by (simp add: advances_def)
qed

end
