(* ===== verification/Round_Quorum.thy ===== *)
theory Round_Quorum
  imports Round_Rel
begin

text \<open>
  What a run leaves in the log is backed by votes: a precommit for a block by a majority of prevotes of its round, a block that was committed by a majority of precommits,
  both among the validators that the height was opened with.  The interface of the steps is interpreted a second time, with the relation that keeps this.
\<close>

section \<open>Evidence\<close>

text \<open>A vote set of votes that the log shows as received, of a height that it shows as opened with the validators of the set, and in which a block has the majority.\<close>

definition certified :: "'w cons_env \<Rightarrow> out list \<Rightarrow> byte \<Rightarrow> u64 \<Rightarrow> int \<Rightarrow> BlockID \<Rightarrow> VoteSet \<Rightarrow> bool" where
  "certified ce L ty H R b v \<longleftrightarrow> vset_ok (ce_dig ce) v \<and> vset_type v = ty \<and> vset_height v = H \<and> vset_round v = R \<and> vset_maj23 v = Some b \<and>
     OutHeight H (vset_valSet v) \<in> set L \<and> (\<forall>w\<in>recorded v. InVote w \<in> set L)"

fun backed :: "'w cons_env \<Rightarrow> out list \<Rightarrow> out \<Rightarrow> bool" where
  "backed ce L (OutVote w m) \<longleftrightarrow> (vt_Type w = VoteTypePrecommit \<longrightarrow> bid_Hash (vt_BlockID w) \<noteq> [] \<longrightarrow>
     (\<exists>v. certified ce L VoteTypePrevote (vt_Height w) (vt_Round w) (vt_BlockID w) v))"
| "backed ce L (OutBlock blk sblk) \<longleftrightarrow> (\<exists>v b header. certified ce L VoteTypePrecommit (th_BlockNum header) (vset_round v) b v \<and> tb_Header blk = Some header \<and>
     tb_CurrentCommit blk = Some \<lparr> cm_BlockID = b, cm_Precommits = vset_votes v \<rparr> \<and> HashesTo (ce_he ce) (Some blk) (bid_Hash b))"
| "backed ce L _ \<longleftrightarrow> True"

fun free :: "out \<Rightarrow> bool" where
  "free (OutVote w m) \<longleftrightarrow> vt_Type w \<noteq> VoteTypePrecommit \<or> bid_Hash (vt_BlockID w) = []"
| "free (OutBlock blk sblk) \<longleftrightarrow> False"
| "free _ \<longleftrightarrow> True"

lemma free_backed: "free x \<Longrightarrow> backed ce L x"
  by (cases x) auto

lemma certified_mono: "certified ce L ty H R b v \<Longrightarrow> set L \<subseteq> set L' \<Longrightarrow> certified ce L' ty H R b v"
  by (auto simp: certified_def)

lemma certified_append: "certified ce L ty H R b v \<Longrightarrow> certified ce (L @ L') ty H R b v"
  by (auto simp: certified_def)

lemma backed_mono: "backed ce L x \<Longrightarrow> set L \<subseteq> set L' \<Longrightarrow> backed ce L' x"
  using certified_mono [of ce L _ _ _ _ _ L'] by (cases x) (simp_all, blast+)

definition log_backed :: "'w cons_env \<Rightarrow> out list \<Rightarrow> bool" where
  "log_backed ce L \<longleftrightarrow> (\<forall>x\<in>set L. backed ce L x)"

lemma log_backed_append: "log_backed ce L \<Longrightarrow> \<forall>x\<in>set L'. backed ce (L @ L') x \<Longrightarrow> log_backed ce (L @ L')"
  unfolding log_backed_def using backed_mono [of ce L _ "L @ L'"] by auto

text \<open>The votes that are being collected are those of the height, which was opened with their validators.\<close>

definition votes_ok :: "'w cons_env \<Rightarrow> 'w TDMMsgHandler \<Rightarrow> bool" where
  "votes_ok ce h \<longleftrightarrow> h_Height h = st_LastBlockNum (h_LastCommitState h) + 1 \<and>
     (\<forall>votes. h_Votes h = Some votes \<longrightarrow> hvs_ok (ce_dig ce) votes \<and> hvs_height votes = h_Height h \<and> OutHeight (h_Height h) (hvs_valSet votes) \<in> set (h_log h) \<and>
       (\<forall>w\<in>hvs_recorded votes. InVote w \<in> set (h_log h)))"

definition sound :: "'w cons_env \<Rightarrow> 'w TDMMsgHandler \<Rightarrow> 'w TDMMsgHandler \<Rightarrow> bool" where
  "sound ce h h' \<longleftrightarrow> (votes_ok ce h \<and> log_backed ce (h_log h) \<longrightarrow> votes_ok ce h' \<and> log_backed ce (h_log h'))"

lemma sound_refl [simp]: "sound ce h h"
  by (simp add: sound_def)

lemma sound_trans: "sound ce h h1 \<Longrightarrow> sound ce h1 h2 \<Longrightarrow> sound ce h h2"
  by (simp add: sound_def)

text \<open>The same, seen from the log: more than two thirds of the power of the validators, counted as the code counts it, were received as votes of one kind for one block.\<close>

definition quorum_received :: "header_digest \<Rightarrow> out list \<Rightarrow> byte \<Rightarrow> u64 \<Rightarrow> int \<Rightarrow> BlockID \<Rightarrow> bool" where
  "quorum_received dig L ty H R b \<longleftrightarrow> (\<exists>vals voters. OutHeight H vals \<in> set L \<and> voters \<subseteq> {..<length (vs_Validators vals)} \<and> int64 (two_thirds vals + 1) \<le> int (card voters) \<and>
     (\<forall>i\<in>voters. \<exists>w. InVote w \<in> set L \<and> vt_ValidatorIndex w = int i \<and> vt_ValidatorAddress w = v_Address (vs_Validators vals ! i) \<and> vt_Height w = H \<and> vt_Round w = R \<and>
        vt_Type w = ty \<and> bid_Key dig (vt_BlockID w) = bid_Key dig b))"

lemma certified_quorum:
  assumes "certified ce L ty H R b v"
  shows "quorum_received (ce_dig ce) L ty H R b"
proof -
  have v: "vset_ok (ce_dig ce) v" "vset_type v = ty" "vset_height v = H" "vset_round v = R" "vset_maj23 v = Some b" "OutHeight H (vset_valSet v) \<in> set L"
    "\<And>w. w \<in> recorded v \<Longrightarrow> InVote w \<in> set L"
    using assms by (auto simp: certified_def)
  let ?voters = "voters_for v (bid_Key (ce_dig ce) b)"
  have "?voters \<subseteq> {..<length (vs_Validators (vset_valSet v))}" using voters_for_subset [OF v(1)] by (simp add: vset_n_def)
  moreover have "int64 (two_thirds (vset_valSet v) + 1) \<le> int (card ?voters)" using majority_voters(1) [OF v(1,5)] by (simp add: vset_quorum_def)
  moreover have "\<exists>w. InVote w \<in> set L \<and> vt_ValidatorIndex w = int i \<and> vt_ValidatorAddress w = v_Address (vs_Validators (vset_valSet v) ! i) \<and> vt_Height w = H \<and> vt_Round w = R \<and>
      vt_Type w = ty \<and> bid_Key (ce_dig ce) (vt_BlockID w) = bid_Key (ce_dig ce) b" if i: "i \<in> ?voters" for i
  proof -
    obtain w where "w \<in> recorded v" "vote_fits v i w" "bid_Key (ce_dig ce) (vt_BlockID w) = bid_Key (ce_dig ce) b" by (rule voters_for_vote [OF v(1) i])
    then show ?thesis using v(2-4,7) by (auto simp: vote_fits_def)
  qed
  ultimately show ?thesis using v(6) unfolding quorum_received_def by blast
qed

section \<open>Steps that need no evidence\<close>

definition plain :: "'w TDMMsgHandler \<Rightarrow> 'w TDMMsgHandler \<Rightarrow> bool" where
  "plain h h' \<longleftrightarrow> h_Votes h' = h_Votes h \<and> h_Height h' = h_Height h \<and> h_LastCommitState h' = h_LastCommitState h \<and>
     (\<exists>L. h_log h' = h_log h @ L \<and> (\<forall>x\<in>set L. free x))"

lemma plain_sound: "plain h h' \<Longrightarrow> sound ce h h'"
  by (auto simp: plain_def sound_def votes_ok_def intro!: log_backed_append free_backed)

lemma plain_same: "h_Votes h' = h_Votes h \<Longrightarrow> h_Height h' = h_Height h \<Longrightarrow> h_LastCommitState h' = h_LastCommitState h \<Longrightarrow> h_log h' = h_log h \<Longrightarrow> plain h h'"
  by (simp add: plain_def)

lemma plain_refl [simp]: "plain h h"
  by (simp add: plain_same)

lemma plain_trans: "plain h h1 \<Longrightarrow> plain h1 h2 \<Longrightarrow> plain h h2"
  unfolding plain_def by (metis append.assoc set_append UnE)

lemma plain_out: "free x \<Longrightarrow> plain h h1 \<Longrightarrow> plain h (log_out x h1)"
  by (auto simp: plain_def log_out_def)

lemma plain_after: "plain (log_out x h) h' \<Longrightarrow> free x \<Longrightarrow> plain h h'"
  by (auto simp: plain_def log_out_def)

lemma plain_update [simp]:
  "plain h (updateRoundStep R s h1) \<longleftrightarrow> plain h h1" "plain h (h1\<lparr>h_world := w\<rparr>) \<longleftrightarrow> plain h h1" "plain (h\<lparr>h_world := w\<rparr>) h1 \<longleftrightarrow> plain h h1"
  "plain h (h1\<lparr>h_TryProposalTimes := n\<rparr>) \<longleftrightarrow> plain h h1"
  by (simp_all add: plain_def updateRoundStep_def)

lemma plain_schedule: "plain h h1 \<Longrightarrow> plain h (scheduleTimeout d H R s h1)"
  by (simp add: scheduleTimeout_def plain_out)

lemma voted_plain: "voted ty b h h' \<Longrightarrow> ty \<noteq> VoteTypePrecommit \<or> bid_Hash b = [] \<Longrightarrow> plain h h'"
  by (auto simp: voted_def vote_key_def intro!: plain_out)

lemma prevote_plain: "signAddVote ce VoteTypePrevote b h = Some h' \<Longrightarrow> plain h h'"
  by (drule signAddVote_voted, erule voted_plain) (simp add: VoteTypePrevote_def VoteTypePrecommit_def)

lemma defaultDoPrevote_plain: "defaultDoPrevote ce h = Some (r, h') \<Longrightarrow> plain h h'"
  by (auto simp: defaultDoPrevote_def bind_eq_Some_conv split: if_splits dest!: prevote_plain)

lemma enterPrevote_plain: "enterPrevote ce H R h = Some h' \<Longrightarrow> plain h h'"
  by (auto simp: enterPrevote_def bind_eq_Some_conv split: if_splits dest!: defaultDoPrevote_plain intro: plain_schedule)

lemma enterPrevoteWait_plain: "plain h (enterPrevoteWait ce H R h)"
  by (auto simp: enterPrevoteWait_def intro: plain_schedule)

lemma send_parts_plain: "send_parts ce ps h = Some h' \<Longrightarrow> plain h h'"
proof (induction ce ps h rule: send_parts.induct)
  case (3 ce part ps h)
  then show ?case by (auto simp: send_def split: option.splits dest!: plain_after)
qed auto

lemma send_proposal_plain:
  assumes "send_proposal ce H R ps h = Some h'"
  shows "plain h h'"
proof -
  obtain votes where votes: "h_Votes h = Some votes" using assms by (auto simp: send_proposal_def bind_eq_Some_conv)
  obtain polRound polBlockID where "hvs_POLInfo votes = (polRound, polBlockID)" by fastforce
  moreover define parts where "parts = (case ps of None \<Rightarrow> [] | Some ps \<Rightarrow> take (nat (ps_total ps)) (ps_parts ps))"
  ultimately have "h' = h \<or> (\<exists>p m. send_parts ce parts (log_out (OutProposal p m) h) = Some h')"
    using assms votes unfolding send_proposal_def parts_def [symmetric] by (auto simp: send_def Let_def split: option.splits)
  then show ?thesis by (auto dest!: send_parts_plain plain_after)
qed

lemma decideProposal_plain: "decideProposal ce H R h = Some h' \<Longrightarrow> plain h h'"
  by (auto simp: decideProposal_def bind_eq_Some_conv Let_def split: option.splits if_splits dest!: send_proposal_plain)

lemma propose_body_plain: "propose_body ce H R h = Some h' \<Longrightarrow> plain h h'"
  by (auto simp: propose_body_def bind_eq_Some_conv split: if_splits dest!: decideProposal_plain)

lemma enterPropose_plain:
  assumes "enterPropose ce H R h = Some h'"
  shows "plain h h'"
proof (cases "stale H R RoundStepPropose h")
  case False
  obtain d h2 complete where h2: "propose_body ce H R (scheduleTimeout d H R RoundStepPropose (h\<lparr>h_TryProposalTimes := 0\<rparr>)) = Some h2"
    "h' = updateRoundStep R RoundStepPropose h2 \<or> enterPrevote ce H R (updateRoundStep R RoundStepPropose h2) = Some h'"
    using assms False by (auto simp: enterPropose_def bind_eq_Some_conv Let_def updateRoundStep_def split: if_splits)
  have "plain h (scheduleTimeout d H R RoundStepPropose (h\<lparr>h_TryProposalTimes := 0\<rparr>))" by (simp add: plain_schedule)
  then have "plain h (updateRoundStep R RoundStepPropose h2)" using plain_trans [OF _ propose_body_plain [OF h2(1)]] by simp
  then show ?thesis using h2(2) enterPrevote_plain plain_trans by blast
qed (use assms in \<open>simp add: enterPropose_def\<close>)

lemma dealNewRound_plain: "dealNewRound ce h = Some h' \<Longrightarrow> plain h h'"
  by (auto simp: dealNewRound_def Let_def split: if_splits prod.splits dest!: enterPropose_plain intro: plain_schedule)

lemma enterPrecommitWait_plain: "enterPrecommitWait ce H R h = Some h' \<Longrightarrow> plain h h'"
  by (auto simp: enterPrecommitWait_def Let_def split: if_splits intro: plain_schedule)

section \<open>Steps that change the votes\<close>

lemma sound_votes:
  assumes "\<And>votes. h_Votes h = Some votes \<Longrightarrow> hvs_ok (ce_dig ce) votes \<Longrightarrow>
    hvs_ok (ce_dig ce) votes' \<and> hvs_height votes' = hvs_height votes \<and> hvs_valSet votes' = hvs_valSet votes \<and>
    hvs_recorded votes' \<subseteq> hvs_recorded votes \<union> {w. InVote w \<in> set (h_log h)}" "h_Votes h \<noteq> None"
  shows "sound ce h (h\<lparr>h_Votes := Some votes'\<rparr>)"
  using assms by (fastforce simp: sound_def votes_ok_def)

lemma votes_SetRound_sound:
  assumes "votes_SetRound R h = Some h'"
  shows "sound ce h h'"
proof -
  obtain votes votes' where v: "h_Votes h = Some votes" "hvs_SetRound votes R = Some votes'" "h' = h\<lparr>h_Votes := Some votes'\<rparr>"
    using assms by (auto simp: votes_SetRound_def bind_eq_Some_conv split: if_splits)
  show ?thesis unfolding v(3) by (rule sound_votes) (use v SetRound_ok [of "ce_dig ce" votes R] SetRound_stops [of "ce_dig ce" votes R] SetRound_recorded [OF v(2)] in auto)
qed

lemma enterNewRound_sound:
  assumes "enterNewRound ce H R h = Some h'"
  shows "sound ce h h'"
proof (cases "h_Height h \<noteq> H \<or> R < h_Round h \<or> (h_Round h = R \<and> h_Step h \<noteq> RoundStepNewHeight)")
  case False
  obtain h2 h3 where c: "plain h h2" "votes_SetRound (int32 (R + 1)) h2 = Some h3" "dealNewRound ce h3 = Some h'"
  proof -
    obtain vals h3 where "votes_SetRound (int32 (R + 1)) (if R \<noteq> 0 then ((updateRoundStep R RoundStepNewRound h)\<lparr>h_Validators := vals\<rparr>)\<lparr>h_Proposal := None, h_ProposalBlock := None, h_ProposalBlockParts := None\<rparr>
        else (updateRoundStep R RoundStepNewRound h)\<lparr>h_Validators := vals\<rparr>) = Some h3" "dealNewRound ce h3 = Some h'"
      using assms False by (auto simp: enterNewRound_def bind_eq_Some_conv Let_def)
    then show thesis by (rule that [rotated]) (simp add: plain_same updateRoundStep_def)
  qed
  show ?thesis
    using plain_sound [OF c(1)] votes_SetRound_sound [OF c(2)] plain_sound [OF dealNewRound_plain [OF c(3)]] sound_trans by blast
qed (use assms in \<open>auto simp: enterNewRound_def\<close>)

lemma two_thirds_certified:
  assumes "votes_ok ce h" "h_Votes h = Some votes" "TwoThirdsMajority (hvs_getVoteSet votes R ty) = (b, True)"
  obtains v where "hvs_getVoteSet votes R ty = Some v" "certified ce (h_log h) ty (h_Height h) R b v"
proof -
  obtain v where v: "hvs_getVoteSet votes R ty = Some v" "vset_maj23 v = Some b"
    using assms(3) by (auto simp: TwoThirdsMajority_def split: option.splits)
  moreover have "rvs_ok (ce_dig ce) (h_Height h) (hvs_valSet votes) R ty v" "OutHeight (h_Height h) (hvs_valSet votes) \<in> set (h_log h)"
    "\<forall>w\<in>recorded v. InVote w \<in> set (h_log h)"
    using hvs_getVoteSet_ok(1) [of "ce_dig ce" votes R ty v] assms(1,2) v(1) unfolding votes_ok_def hvs_recorded_def by auto
  ultimately show ?thesis using that by (auto simp: certified_def rvs_ok_def)
qed

lemma voted_sound:
  assumes "voted ty b h h'" "votes_ok ce h \<Longrightarrow> ty = VoteTypePrecommit \<Longrightarrow> bid_Hash b \<noteq> [] \<Longrightarrow> \<exists>v. certified ce (h_log h) VoteTypePrevote (h_Height h) (h_Round h) b v"
  shows "sound ce h h'"
proof (cases "h' = h")
  case False
  then obtain w m where w: "h' = log_out (OutVote w m) h" "vote_key w = (h_Height h, h_Round h, ty)" "vt_BlockID w = b" using assms(1) by (auto simp: voted_def)
  show ?thesis
    unfolding sound_def
  proof (intro impI, elim conjE)
    assume ok: "votes_ok ce h" "log_backed ce (h_log h)"
    have "backed ce (h_log h @ [OutVote w m]) (OutVote w m)"
      using assms(2) [OF ok(1)] w by (auto simp: vote_key_def intro: certified_append)
    then show "votes_ok ce h' \<and> log_backed ce (h_log h')"
      using ok w(1) log_backed_append [of ce "h_log h" "[OutVote w m]"] by (auto simp: votes_ok_def log_out_def)
  qed
qed simp

lemma precommit_body_sound:
  assumes "precommit_body ce (h_Round h) h = Some h'"
  shows "sound ce h h'"
proof (rule precommit_body_cases [OF assms])
  fix votes b ok
  let ?lock = "h\<lparr>h_LockedRound := h_Round h, h_LockedBlock := h_ProposalBlock h, h_LockedBlockParts := h_ProposalBlockParts h\<rparr>"
  let ?free = "h\<lparr>h_LockedRound := 0, h_LockedBlock := None, h_LockedBlockParts := None\<rparr>"
  assume votes: "h_Votes h = Some votes" and maj: "TwoThirdsMajority (hvs_Prevotes votes (h_Round h)) = (b, ok)"
    and c: "(if \<not> ok \<or> bid_Hash b = [] then applyAddVote ce VoteTypePrecommit zero_blockID h
      else if HashesTo (ce_he ce) (h_ProposalBlock h) (bid_Hash b) then applyAddVote ce VoteTypePrecommit b ?lock
      else applyAddVote ce VoteTypePrecommit zero_blockID ?free) = Some h'"
  have pl: "sound ce h ?lock" "sound ce h ?free" by (simp_all add: plain_sound plain_same)
  have nil: "sound ce k h'" if "applyAddVote ce VoteTypePrecommit zero_blockID k = Some h'" for k
    by (rule plain_sound, rule voted_plain [OF applyAddVote_voted [OF that]]) (simp add: zero_blockID_def)
  show ?thesis
  proof (cases "ok \<and> bid_Hash b \<noteq> [] \<and> HashesTo (ce_he ce) (h_ProposalBlock h) (bid_Hash b)")
    case True
    then have "voted VoteTypePrecommit b ?lock h'" using c applyAddVote_voted by auto
    then have "sound ce ?lock h'"
    proof (rule voted_sound)
      assume "votes_ok ce ?lock"
      then have "votes_ok ce h" by (auto simp: votes_ok_def)
      then obtain v where "certified ce (h_log h) VoteTypePrevote (h_Height h) (h_Round h) b v"
        using two_thirds_certified [OF _ votes maj [unfolded hvs_Prevotes_def, simplified True]] True by (auto simp: hvs_Prevotes_def)
      then show "\<exists>v. certified ce (h_log ?lock) VoteTypePrevote (h_Height ?lock) (h_Round ?lock) b v" by auto
    qed
    then show ?thesis by (rule sound_trans [OF pl(1)])
  next
    case False
    then show ?thesis using c nil [of h] sound_trans [OF pl(2) nil] by (auto split: if_splits)
  qed
qed

lemma enterPrecommit_sound:
  assumes "enterPrecommit ce H R h = Some h'" "R \<le> h_Round h"
  shows "sound ce h h'"
proof (cases "stale H R RoundStepPrecommit h")
  case False
  then have "R = h_Round h" using not_stale [OF False assms(2)] by blast
  moreover obtain h1 where h1: "precommit_body ce R h = Some h1" "plain h1 h'"
    using assms(1) False by (auto simp: enterPrecommit_def bind_eq_Some_conv Let_def plain_schedule)
  ultimately show ?thesis using precommit_body_sound [of ce h h1] sound_trans [OF _ plain_sound [OF h1(2)]] by simp
qed (use assms in \<open>simp add: enterPrecommit_def\<close>)

section \<open>Heights and blocks\<close>

lemma updateToState_new:
  assumes "updateToState s h = Some (err, h')" "h' \<noteq> h" "log_backed ce (h_log h)"
  shows "votes_ok ce h' \<and> log_backed ce (h_log h')"
proof -
  obtain vals votes where n: "NewBlkNumVoteSet (st_LastBlockNum s + 1) vals = Some votes" "h_Votes h' = Some votes" "h_Height h' = st_LastBlockNum s + 1"
    "h_LastCommitState h' = s" "h_log h' = h_log h @ [OutHeight (st_LastBlockNum s + 1) vals]"
    using assms by (auto simp: updateToState_def Let_def bind_eq_Some_conv out_simps split: if_splits)
  have "hvs_ok (ce_dig ce) votes \<and> hvs_height votes = st_LastBlockNum s + 1 \<and> hvs_valSet votes = vals"
    using n(1) NewBlkNumVoteSet_ok [OF NewBlkNumVoteSet_height [OF n(1)], of vals "ce_dig ce"] by auto
  then show ?thesis using n(2-5) assms(3) NewBlkNumVoteSet_recorded [OF n(1)] by (auto simp: votes_ok_def intro!: log_backed_append)
qed

lemma updateToState_sound: "updateToState s h = Some (err, h') \<Longrightarrow> sound ce h h'"
  using updateToState_new [of s h err h' ce] by (cases "h' = h") (auto simp: sound_def)

lemma saveBlock_log:
  assumes "saveBlock ce block s h = Some (r, h')"
  obtains sblk where "h_log h' = h_log h @ [OutBlock block sblk]" "h_Votes h' = h_Votes h" "h_Height h' = h_Height h" "h_LastCommitState h' = h_LastCommitState h"
  using assms by (auto simp: saveBlock_def Let_def log_out_def split: Option.bind_splits sum.splits option.splits prod.splits)

lemma ApplyBlock_log:
  assumes "ApplyBlock ce s bid block h = Some (r, h')"
  obtains "h' = h" | votes v b header sblk where "h_Votes h = Some votes" "hvs_Precommits votes (h_CommitRound h) = Some v" "vset_type v = VoteTypePrecommit" "vset_maj23 v = Some b"
    "tb_Header block = Some header" "th_BlockNum header = st_LastBlockNum s + 1"
    "h_log h' = h_log h @ [OutBlock (block\<lparr>tb_CurrentCommit := Some \<lparr> cm_BlockID = b, cm_Precommits = vset_votes v \<rparr>, tb_Data := Data_cache (ce_he ce) (tb_Data block)\<rparr>) sblk]"
    "h_Votes h' = h_Votes h" "h_Height h' = h_Height h" "h_LastCommitState h' = h_LastCommitState h"
proof -
  obtain v commit err where v: "getcurrentPrecommits h = Some (Some v)" "MakeCommit v = Some commit"
    "validate_block ce s (Some (block\<lparr>tb_CurrentCommit := Some commit\<rparr>)) = Some err"
    using assms by (auto simp: ApplyBlock_def bind_eq_Some_conv Let_def)
  obtain votes where votes: "h_Votes h = Some votes" "hvs_Precommits votes (h_CommitRound h) = Some v"
    using v(1) by (auto simp: getcurrentPrecommits_def split: option.splits if_splits)
  obtain b where b: "vset_type v = VoteTypePrecommit" "vset_maj23 v = Some b" "commit = \<lparr> cm_BlockID = b, cm_Precommits = vset_votes v \<rparr>"
    using v(2) by (auto simp: MakeCommit_def split: option.splits if_splits)
  show ?thesis
  proof (cases err)
    case (Some e)
    then show ?thesis using assms v that(1) by (auto simp: ApplyBlock_def)
  next
    case None
    obtain header where header: "tb_Header block = Some header" "th_BlockNum header = st_LastBlockNum s + 1"
      using v(3) None by (auto simp: validate_block_def ValidateBlock_def split: Option.bind_splits if_splits)
    obtain res h1 where h1: "saveBlock ce (block\<lparr>tb_CurrentCommit := Some commit, tb_Data := Data_cache (ce_he ce) (tb_Data block)\<rparr>) s h = Some (res, h1)"
      "h_log h' = h_log h1 \<and> h_Votes h' = h_Votes h1 \<and> h_Height h' = h_Height h1 \<and> h_LastCommitState h' = h_LastCommitState h1"
      using assms v None by (auto simp: ApplyBlock_def Let_def split: Option.bind_splits sum.splits)
    obtain sblk where "h_log h1 = h_log h @ [OutBlock (block\<lparr>tb_CurrentCommit := Some commit, tb_Data := Data_cache (ce_he ce) (tb_Data block)\<rparr>) sblk]" "h_Votes h1 = h_Votes h" "h_Height h1 = h_Height h"
      "h_LastCommitState h1 = h_LastCommitState h" by (rule saveBlock_log [OF h1(1)])
    then show ?thesis using that(2) [OF votes b(1,2) header] h1(2) b(3) by simp
  qed
qed

lemma Data_Hash_cache: "Data_Hash he (Data_cache he p) = Data_Hash he p"
  by (simp add: Data_Hash_def Data_cache_def split: option.split)

text \<open>Neither the commit nor the cache is part of what the hash of a block covers.\<close>

lemma HashesTo_sealed: "HashesTo he (Some (block\<lparr>tb_CurrentCommit := c, tb_Data := Data_cache he (tb_Data block)\<rparr>)) hash = HashesTo he (Some block) hash"
proof (cases "tb_Header block = None \<or> tb_LastCommit block = None")
  case False
  then obtain header commit where "tb_Header block = Some header" "tb_LastCommit block = Some commit" by auto
  moreover have "Data_cache he (tb_Data block) = None \<longleftrightarrow> tb_Data block = None" by (simp add: Data_cache_def)
  ultimately show ?thesis by (simp add: HashesTo_def blk_hash_def Block_Hash_def fillHeader_def Let_def Data_Hash_cache)
qed (auto simp: HashesTo_def blk_hash_def Block_Hash_def)

lemma ApplyBlock_sound:
  assumes "h_Votes h = Some votes" "TwoThirdsMajority (hvs_Precommits votes (h_CommitRound h)) = (b, True)"
    "HashesTo (ce_he ce) (Some block) (bid_Hash b)" "State_Copy (h_LastCommitState h) = Some s" "ApplyBlock ce s bid block (h\<lparr>h_world := w\<rparr>) = Some (res, h')"
  shows "sound ce h h'"
proof (rule ApplyBlock_log [OF assms(5)])
  fix votes' header sblk and v :: VoteSet and b' :: BlockID
  let ?blk = "block\<lparr>tb_CurrentCommit := Some \<lparr> cm_BlockID = b', cm_Precommits = vset_votes v \<rparr>, tb_Data := Data_cache (ce_he ce) (tb_Data block)\<rparr>"
  assume v: "h_Votes (h\<lparr>h_world := w\<rparr>) = Some votes'" "hvs_Precommits votes' (h_CommitRound (h\<lparr>h_world := w\<rparr>)) = Some v" "vset_type v = VoteTypePrecommit" "vset_maj23 v = Some b'"
    and header: "tb_Header block = Some header" "th_BlockNum header = st_LastBlockNum s + 1"
    and log: "h_log h' = h_log (h\<lparr>h_world := w\<rparr>) @ [OutBlock ?blk sblk]"
    and same: "h_Votes h' = h_Votes (h\<lparr>h_world := w\<rparr>)" "h_Height h' = h_Height (h\<lparr>h_world := w\<rparr>)" "h_LastCommitState h' = h_LastCommitState (h\<lparr>h_world := w\<rparr>)"
  have b: "b' = b" "votes' = votes" using v assms(1,2) by (auto simp: TwoThirdsMajority_def)
  have num: "st_LastBlockNum s = st_LastBlockNum (h_LastCommitState h)" using assms(4) by (auto simp: State_Copy_def split: if_splits)
  show ?thesis
    unfolding sound_def
  proof (intro impI, elim conjE)
    assume ok: "votes_ok ce h" "log_backed ce (h_log h)"
    obtain v' where "hvs_getVoteSet votes (h_CommitRound h) VoteTypePrecommit = Some v'" "certified ce (h_log h) VoteTypePrecommit (h_Height h) (h_CommitRound h) b v'"
      by (rule two_thirds_certified [OF ok(1) assms(1) assms(2) [unfolded hvs_Precommits_def]])
    then have "certified ce (h_log h) VoteTypePrecommit (th_BlockNum header) (vset_round v) b v"
      using v(2) b(2) header(2) num ok(1) by (auto simp: hvs_Precommits_def certified_def votes_ok_def)
    then have "backed ce (h_log h @ [OutBlock ?blk sblk]) (OutBlock ?blk sblk)"
      using header(1) assms(3) b(1) certified_append by (fastforce simp: HashesTo_sealed)
    then show "votes_ok ce h' \<and> log_backed ce (h_log h')"
      using ok log same log_backed_append [of ce "h_log h" "[OutBlock ?blk sblk]"] by (auto simp: votes_ok_def)
  qed
qed (simp add: plain_sound)

lemma quiet_sound: "quiet h h' \<Longrightarrow> sound ce h h'"
  by (auto simp: quiet_def sound_def votes_ok_def)

section \<open>Runs\<close>

lemma count_sound:
  assumes "h_Votes h = Some votes" "hvs_AddVote (ce_dig ce) votes vote k = Some (res, votes')" "InVote vote \<in> set (h_log h)"
  shows "sound ce h (h\<lparr>h_Votes := Some votes'\<rparr>)"
  by (rule sound_votes) (use assms(1,3) hvs_AddVote_ok [OF _ assms(2)] in auto)

lemma peerMaj_sound: "h_Votes h = Some votes \<Longrightarrow> sound ce h (h\<lparr>h_Votes := Some (snd (hvs_SetPeerMaj23 (ce_dig ce) votes R ty k b))\<rparr>)"
  using hvs_SetPeerMaj23_ok [of "ce_dig ce" votes R ty k b] by (intro sound_votes) auto

interpretation cert: handler_rel ce "sound ce" for ce :: "'w cons_env"
proof unfold_locales
  fix h :: "'w TDMMsgHandler" and r
  show "sound ce h ((updateRoundStep (h_Round h) RoundStepCommit h)\<lparr>h_CommitRound := r\<rparr>)" by (simp add: plain_sound plain_same updateRoundStep_def)
next
  fix h h' :: "'w TDMMsgHandler"
  assume "frame h h'"
  then show "sound ce h h'" by (simp add: plain_sound plain_same frame_def same_pos_def)
next
  fix h :: "'w TDMMsgHandler" and blk sblk
  show "sound ce h (log_out (OutSyncBlock blk sblk) h)" by (rule plain_sound, rule plain_out) simp_all
next
  fix h :: "'w TDMMsgHandler" and vote
  show "sound ce h (log_out (InVote vote) h)" by (rule plain_sound, rule plain_out) simp_all
qed (auto intro: sound_trans quiet_sound enterNewRound_sound updateToState_sound ApplyBlock_sound votes_SetRound_sound count_sound peerMaj_sound enterPrecommit_sound
  plain_sound plain_sound [OF plain_schedule [OF plain_refl]] dealNewRound_plain enterPropose_plain enterPrevote_plain enterPrevoteWait_plain enterPrecommitWait_plain)

lemma NewTDMMsgHandler_backed:
  assumes "NewTDMMsgHandler ce addr s w = Some (Inr h)"
  shows "votes_ok ce h \<and> log_backed ce (h_log h)"
proof -
  obtain h1 where h1: "updateToState s (zero_handler addr w) = Some (False, h1)" "reconstructLastCommit ce s None h1 = Some (False, h)"
    using assms by (auto simp: NewTDMMsgHandler_def bind_eq_Some_conv split: if_splits)
  have "votes_ok ce h1 \<and> log_backed ce (h_log h1)"
    using updateToState_new [OF h1(1) updateToState_zero [OF h1(1)]] by (simp add: zero_handler_def log_backed_def)
  then show ?thesis using cert.reconstructLastCommit_Q [OF h1(2)] by (simp add: sound_def)
qed

lemma node_run_backed: "node_run ce h \<Longrightarrow> quiet_callbacks ce \<Longrightarrow> votes_ok ce h \<and> log_backed ce (h_log h)"
proof (induction rule: node_run.induct)
  case (start addr s w h0 h)
  have "0 \<le> h_Round h0" using NewTDMMsgHandler_ok [OF start(1)] by (simp add: handler_ok_def)
  then show ?case using NewTDMMsgHandler_backed [OF start(1)] cert.OnStart_Q [OF start(2)] by (simp add: sound_def)
next
  case (event h ev h')
  then show ?case using cert.deliver_Q [of ce ev h h'] node_run_ok [of ce h] by (simp add: sound_def)
next
  case (outside h w b n)
  then show ?case using cert.Q_outside [of ce h w b n] by (simp add: sound_def)
qed

end
