(* ===== verification/Round_Props.thy ===== *)
theory Round_Props
  imports Round_Quorum
begin

text \<open>
  The properties of the consensus handler: what holds in every run, and two places where the code does not do what the algorithm asks for.  The witnesses run a node that
  is the only validator through the first height, from the start to the commit of a block.
\<close>

section \<open>A node that is alone\<close>

definition run_events :: "'w cons_env \<Rightarrow> event list \<Rightarrow> 'w handler" where
  "run_events ce evs h = for_each (\<lambda>ev h. if allowed ce ev h then deliver ce ev h else None) evs h"

definition start_node :: "'w cons_env \<Rightarrow> bytes \<Rightarrow> State \<Rightarrow> 'w \<Rightarrow> 'w TDMMsgHandler option" where
  "start_node ce addr s w = (case NewTDMMsgHandler ce addr s w of Some (Inr h) \<Rightarrow> OnStart ce h | _ \<Rightarrow> None)"

lemma start_node_run: "start_node ce addr s w = Some h \<Longrightarrow> node_run ce h"
  by (auto simp: start_node_def split: option.splits sum.splits intro: node_run.start)

lemma run_events_run: "node_run ce h \<Longrightarrow> run_events ce evs h = Some h' \<Longrightarrow> node_run ce h'"
proof (induction evs arbitrary: h)
  case (Cons ev evs)
  then show ?case by (auto simp: run_events_def split: if_splits option.splits intro: node_run.event)
qed (simp add: run_events_def)

definition demo_val :: Validator where
  "demo_val = \<lparr> v_Address = [1], v_PubKeyStr = ''a'', v_VotingPower = 1, v_Accum = 0 \<rparr>"

definition demo_vals :: ValidatorSet where
  "demo_vals = \<lparr> vs_Validators = [demo_val], vs_Proposer = Some demo_val, vs_BgID = 0, vs_BgVRFValue = [], vs_BgVRFProof = [], vs_Extend = [], vs_totalVotingPower = 0 \<rparr>"

definition demo_he :: hash_env where
  "demo_he = \<lparr> he_rip = (\<lambda>b. [7]), he_h256 = (\<lambda>b. Some [7]), he_amino = (\<lambda>i. [7]), he_json = (\<lambda>i. [7]), he_vote = (\<lambda>v. [7]), he_val = (\<lambda>v. [7]), he_rng = (\<lambda>l. l) \<rparr>"

definition demo_commit :: Commit where
  "demo_commit = \<lparr> cm_BlockID = zero_blockID, cm_Precommits = [] \<rparr>"

definition demo_block :: TDMBlock where
  "demo_block = \<lparr> tb_Header = Some (zero_header\<lparr>th_BlockNum := 1, th_LastCommitHash := cm_Hash (he_rip demo_he) (he_vote demo_he) demo_commit,
      th_ValidatorsHash := vs_Hash (he_rip demo_he) (he_val demo_he) demo_vals, th_ConsensusHash := params_Hash demo_he zero_params\<rparr>),
    tb_Data = Some \<lparr> td_Txs = [], td_hash = [] \<rparr>, tb_Evidence = [], tb_LastCommit = Some demo_commit, tb_CurrentCommit = None,
    tb_ValidatorInfo = Some \<lparr> vi_Validators = Some demo_vals, vi_LastHeightChanged = 0 \<rparr> \<rparr>"

definition demo_netID :: NetBlockID where
  "demo_netID = \<lparr> nb_Hash = [7], nb_PartsHeader = Some \<lparr> nh_Total = 1, nh_Hash = [7], nh_Nil = False \<rparr> \<rparr>"

definition demo_vm :: "32 word \<Rightarrow> VoteMessage" where
  "demo_vm ty = \<lparr> vm_ValidatorAddress = [1], vm_ValidatorIndex = 0, vm_Height = 1, vm_Round = 0, vm_Timestamp = 0, vm_VoteType = ty, vm_BlockID = Some demo_netID,
     vm_Signature = [5] \<rparr>"

definition demo_ne :: net_env where
  "demo_ne = \<lparr> ne_encVote = (\<lambda>v. Some []), ne_decVote = (\<lambda>b. if b = [3] then Some (demo_vm 0) else if b = [4] then Some (demo_vm 1) else None),
     ne_encProposal = (\<lambda>p. Some []),
     ne_decProposal = (\<lambda>b. Some \<lparr> pm_Height = 1, pm_Round = 0, pm_Timestamp = 0, pm_BlockPartsHeader = nb_PartsHeader demo_netID, pm_PoLRound = -1, pm_PoLBlockID = Some demo_netID \<rparr>),
     ne_encPart = (\<lambda>p. Some []),
     ne_decPart = (\<lambda>b. Some \<lparr> bpm_Height = 1, bpm_Round = 0, bpm_Part = Some \<lparr> np_Index = 0, np_Bytes = [8], np_Proof = [] \<rparr> \<rparr>),
     ne_encTDM = (\<lambda>t. Some []),
     ne_decTDM = (\<lambda>b. Some \<lparr> tm_Type = (if b = [1] then MsgProposal else if b = [2] then MsgBlockPart else if b = [5] then MsgVoteSetMaj23 else MsgVote), tm_Payload = b, tm_Signature = [] \<rparr>),
     ne_encCons = (\<lambda>c. Some []), ne_decCons = (\<lambda>b. Some (2, b)), ne_encVoteJSON = (\<lambda>v. Some []), ne_sign = (\<lambda>b. Some [5]), ne_verify = (\<lambda>k s b. Some True),
     ne_ID = [1] \<rparr>"

definition demo_tc :: tdm_codec where
  "demo_tc = \<lparr> tc_encHeader = (\<lambda>h. Some []), tc_decHeader = (\<lambda>b. None), tc_encExt = (\<lambda>c. Some []), tc_decExt = (\<lambda>b. None), tc_encTx = (\<lambda>t. Some []), tc_decTx = (\<lambda>b. None) \<rparr>"

definition demo_conf :: config where
  "demo_conf = \<lparr> cf_TimeoutNewRound = 1, cf_TimeoutPropose = 1, cf_TimeoutPrevote = 1, cf_TimeoutPrevoteWait = 1, cf_TimeoutPrecommit = 1, cf_TimeoutPrecommitWait = 1,
     cf_TimeoutWaitFortx = 1, cf_SkipTimeoutCommit = False, cf_CreateEmptyBlocks = True, cf_CreateEmptyBlocksInterval = 0 \<rparr>"

definition demo :: "unit cons_env" where
  "demo = \<lparr> ce_he = demo_he, ce_tc = demo_tc, ce_ne = demo_ne, ce_dig = (\<lambda>p. []), ce_mspVerify = (\<lambda>a b c. None), ce_conf = demo_conf, ce_peerID = 0, ce_peerString = (\<lambda>k. ''''),
     ce_decodeBlock = (\<lambda>r. Some demo_block), ce_decHasVote = (\<lambda>b. None), ce_isProposer = (\<lambda>h H R. Some (False, Some demo_val)), ce_geneProposalBlk = (\<lambda>h. None),
     ce_validateProposalBlk = (\<lambda>h b. Some True), ce_consSucceed = (\<lambda>b h. Some h), ce_statusUpdated = (\<lambda>h. Some h), ce_now = (\<lambda>w. 0), ce_txsLenZero = (\<lambda>w. (True, w)),
     ce_delTxs = (\<lambda>txs w. Some w), ce_process = (\<lambda>b w. Some ((None, b), w)), ce_blockHash = (\<lambda>b. Inr [9]), ce_ledgerHeight = (\<lambda>w. Some (0, w)),
     ce_getBlock = (\<lambda>n w. (None, True)), ce_other = (\<lambda>m p h. Some h) \<rparr>"

definition demo_state :: State where
  "demo_state = zero_state\<lparr>st_Validators := Some demo_vals, st_LastValidators := Some demo_vals\<rparr>"

definition demo_msg :: "byte \<Rightarrow> event" where
  "demo_msg b = EvInternalMsg \<lparr> me_Msg = [b], me_PeerID = 0, me_Sender = [1], me_IsBroadCast = False, me_Flag = 0 \<rparr>"

definition demo_events :: "event list" where
  "demo_events = [EvTimeout 1 0 RoundStepNewHeight, demo_msg 1, demo_msg 2, demo_msg 3, demo_msg 4]"

definition demo_run :: "unit TDMMsgHandler option" where
  "demo_run = Option.bind (start_node demo [1] demo_state ()) (run_events demo demo_events)"

text \<open>Evaluation: the parts of the environment, and congruences that keep the simplifier out of what is not reached.\<close>

lemma demo_simps [simp]:
  "ce_he demo = demo_he" "ce_tc demo = demo_tc" "ce_ne demo = demo_ne" "ce_dig demo = (\<lambda>p. [])" "ce_conf demo = demo_conf" "ce_peerID demo = 0"
  "ce_decodeBlock demo r = Some demo_block" "ce_decHasVote demo b = None" "ce_isProposer demo h H R = Some (False, Some demo_val)" "ce_validateProposalBlk demo h blk = Some True"
  "ce_consSucceed demo blk h = Some h" "ce_statusUpdated demo h = Some h" "ce_now demo w = 0" "ce_txsLenZero demo w = (True, w)" "ce_delTxs demo txs w = Some w"
  "ce_process demo sblk w = Some ((None, sblk), w)" "ce_blockHash demo sblk = Inr [9]" "ce_ledgerHeight demo w = Some (0, w)" "ce_getBlock demo n w = (None, True)"
  by (simp_all add: demo_def)

lemma bind_weak: "x = y \<Longrightarrow> Option.bind x f = Option.bind y f"
  by simp

lemma Let_weak: "x = y \<Longrightarrow> Let x f = Let y f"
  by simp

lemmas lazy = bind_weak Let_weak

definition demo_fresh :: "int \<Rightarrow> byte \<Rightarrow> VoteSet" where
  "demo_fresh R ty = \<lparr> vset_height = 1, vset_round = R, vset_type = ty, vset_valSet = demo_vals, vset_votesBitArray = Some \<lparr> ba_Bits = 1, ba_Elems = [0] \<rparr>, vset_votes = [None],
     vset_sum = 0, vset_maj23 = None, vset_votesByBlock = [], vset_peerMaj23s = [] \<rparr>"

definition demo_bid :: BlockID where
  "demo_bid = \<lparr> bid_Hash = [7], bid_PartsHeader = \<lparr> psh_Total = 1, psh_Hash = [7] \<rparr>, bid_PartsNil = False \<rparr>"

definition demo_vote :: "byte \<Rightarrow> Vote" where
  "demo_vote ty = \<lparr> vt_ValidatorAddress = [1], vt_ValidatorIndex = 0, vt_Height = 1, vt_Round = 0, vt_Timestamp = 0, vt_Type = ty, vt_BlockID = demo_bid, vt_Signature = [5] \<rparr>"

definition demo_cast :: "byte \<Rightarrow> VoteSet" where
  "demo_cast ty = (demo_fresh 0 ty)\<lparr>vset_votesBitArray := Some \<lparr> ba_Bits = 1, ba_Elems = [1] \<rparr>, vset_votes := [Some (demo_vote ty)], vset_sum := 1, vset_maj23 := Some demo_bid,
     vset_votesByBlock := [([7], \<lparr> bv_peerMaj23 = False, bv_bitArray = Some \<lparr> ba_Bits = 1, ba_Elems = [1] \<rparr>, bv_votes = [Some (demo_vote ty)], bv_sum = 1 \<rparr>)]\<rparr>"

definition demo_votes :: "VoteSet \<Rightarrow> VoteSet \<Rightarrow> HeightVoteSet" where
  "demo_votes pv pc = \<lparr> hvs_height = 1, hvs_valSet = demo_vals, hvs_round = 1, hvs_roundVoteSets = [(0, \<lparr> rvs_Prevotes = pv, rvs_Precommits = pc \<rparr>),
     (1, \<lparr> rvs_Prevotes = demo_fresh 1 VoteTypePrevote, rvs_Precommits = demo_fresh 1 VoteTypePrecommit \<rparr>)], hvs_peerCatchupRounds = [] \<rparr>"

definition demo_parts :: PartSet where
  "demo_parts = \<lparr> ps_total = 1, ps_hash = [7], ps_parts = [Some \<lparr> pt_Index = 0, pt_Bytes = [8], pt_Proof = [], pt_hash = Some [7] \<rparr>],
     ps_partsBitArray = Some \<lparr> ba_Bits = 1, ba_Elems = [1] \<rparr>, ps_count = 1 \<rparr>"

definition demo_out :: "int \<Rightarrow> PeerMessage" where
  "demo_out flag = \<lparr> me_Msg = [], me_PeerID = 0, me_Sender = [1], me_IsBroadCast = False, me_Flag = flag \<rparr>"

definition demo_h0 :: "unit TDMMsgHandler" where
  "demo_h0 = (zero_handler [1] ())\<lparr>h_Height := 1, h_Step := RoundStepNewHeight, h_Validators := Some demo_vals,
     h_Votes := Some \<lparr> hvs_height = 1, hvs_valSet = demo_vals, hvs_round = 0,
       hvs_roundVoteSets = [(0, \<lparr> rvs_Prevotes = demo_fresh 0 VoteTypePrevote, rvs_Precommits = demo_fresh 0 VoteTypePrecommit \<rparr>)], hvs_peerCatchupRounds = [] \<rparr>,
     h_CommitRound := -1, h_LastValidators := Some demo_vals, h_LastCommitState := demo_state, h_log := [OutHeight 1 demo_vals, OutTimeout 1 1 0 RoundStepNewHeight]\<rparr>"

definition demo_h1 :: "unit TDMMsgHandler" where
  "demo_h1 = demo_h0\<lparr>h_Step := RoundStepPropose, h_Votes := Some (demo_votes (demo_fresh 0 VoteTypePrevote) (demo_fresh 0 VoteTypePrecommit)),
     h_log := h_log demo_h0 @ [OutTimeout 1 1 0 RoundStepPropose]\<rparr>"

definition demo_h2 :: "unit TDMMsgHandler" where
  "demo_h2 = demo_h1\<lparr>h_Proposal := Some \<lparr> pp_Height = 1, pp_Round = 0, pp_Timestamp = 0, pp_BlockPartsHeader = \<lparr> psh_Total = 1, psh_Hash = [7] \<rparr>, pp_POLRound = -1, pp_POLBlockID = demo_bid \<rparr>,
     h_ProposalBlockParts := Some (demo_parts\<lparr>ps_parts := [None], ps_partsBitArray := Some \<lparr> ba_Bits = 1, ba_Elems = [0] \<rparr>, ps_count := 0\<rparr>)\<rparr>"

definition demo_h3 :: "unit TDMMsgHandler" where
  "demo_h3 = demo_h2\<lparr>h_ProposalBlockParts := Some demo_parts, h_ProposalBlock := Some demo_block, h_Step := RoundStepPrevote,
     h_log := h_log demo_h2 @ [OutVote (demo_vote VoteTypePrevote) (demo_out 1), OutTimeout 1 1 0 RoundStepPrevote]\<rparr>"

definition demo_h4 :: "unit TDMMsgHandler" where
  "demo_h4 = demo_h3\<lparr>h_Votes := Some (demo_votes (demo_cast VoteTypePrevote) (demo_fresh 0 VoteTypePrecommit)), h_Step := RoundStepPrecommit,
     h_LockedRound := 0, h_LockedBlock := Some demo_block, h_LockedBlockParts := Some demo_parts,
     h_log := h_log demo_h3 @ [InVote (demo_vote VoteTypePrevote), OutVote (demo_vote VoteTypePrecommit) (demo_out 2), OutTimeout 1 1 0 RoundStepPrecommit]\<rparr>"

lemma demo_world [simp]: "(h :: unit TDMMsgHandler)\<lparr>h_world := u\<rparr> = h"
  by (cases h) simp

lemma demo_vals_simps [simp]: "vs_Validators demo_vals = [demo_val]" "v_Address demo_val = [1]" "v_VotingPower demo_val = 1" "vs_totalVotingPower demo_vals = 0" "vs_Proposer demo_vals = Some demo_val"
  by (simp_all add: demo_vals_def demo_val_def)

lemma demo_NewVoteSet [simp]: "NewVoteSet 1 R ty demo_vals = Some (demo_fresh R ty)"
  by (simp add: NewVoteSet_def demo_fresh_def vs_Size_def NewBitArray_def)

lemma demo_start: "start_node demo [1] demo_state () = Some demo_h0"
  by (simp cong: lazy add: start_node_def NewTDMMsgHandler_def updateToState_def out_simps zero_handler_def zero_state_def demo_state_def State_IsEmpty_def NewBlkNumVoteSet_def
      hvs_Reset_def hvs_addRound_def gput_def reconstructLastCommit_def OnStart_def inbgGroup_def scheduleRound0_def AddTimeOut_def int32_def demo_conf_def demo_h0_def Let_def)

lemma const_root: "hs \<noteq> [] \<Longrightarrow> \<forall>h\<in>set hs. h = r \<Longrightarrow> SimpleHashFromHashes (\<lambda>b. r) hs = r"
proof (cases "2 \<le> length hs")
  case True
  then show ?thesis by (subst SimpleHashFromHashes_split) (simp_all add: SimpleHashFromTwoHashes_def)
next
  case False
  assume "hs \<noteq> []" "\<forall>h\<in>set hs. h = r"
  then show ?thesis using False by (cases hs) (auto simp: not_le less_Suc_eq_le)
qed

lemma const_map_root: "m \<noteq> [] \<Longrightarrow> SimpleHashFromMap (\<lambda>b. r) (\<lambda>l. l) m = r"
  unfolding SimpleHashFromMap_eq hashKVPairs_def SimpleHashFromHashers_def by (rule const_root) (auto simp: kvPair_Hash_def gkeys_def dest: arg_cong [of _ _ length])

lemma demo_he_simps [simp]: "he_rip demo_he = (\<lambda>b. [7])" "he_rng demo_he = (\<lambda>l. l)" "he_vote demo_he v = [7]" "he_val demo_he x = [7]"
  by (simp_all add: demo_he_def)

lemma demo_params [simp]: "params_Hash demo_he p = [7]"
  by (simp add: params_Hash_def const_map_root)

lemma demo_Header_Hash: "th_ValidatorsHash header \<noteq> [] \<Longrightarrow> Header_Hash demo_he (Some header) = [7]"
  by (simp add: Header_Hash_def const_map_root)

lemmas demo_block_defs = demo_block_def demo_commit_def zero_header_def cm_Hash_def vs_Hash_def SimpleHashFromHashers_def

lemma demo_hash: "blk_hash demo_he (Some demo_block) = [7]" "snd (Block_Hash demo_he (Some demo_block)) = Some demo_block"
  "tb_Header demo_block \<noteq> None" "tb_LastCommit demo_block \<noteq> None"
  by (simp_all cong: lazy add: blk_hash_def Block_Hash_def fillHeader_def demo_block_defs Data_cache_def Data_Hash_def Txs_Hash.simps EvidenceList_Hash.simps demo_Header_Hash Let_def)

lemma demo_valid: "ValidateBlock demo_he m f demo_state (Some (demo_block\<lparr>tb_CurrentCommit := c\<rparr>)) = Some None"
  by (simp cong: lazy add: ValidateBlock_def Block_ValidateBasic_def demo_block_defs Data_Hash_def Txs_Hash.simps EvidenceList_Hash.simps demo_state_def zero_state_def
      bid_Equals_def psh_Equals_def int64_def)

lemma demo_lookup [simp]: "HasAddress demo_vals [1]" "GetByAddress demo_vals [1] = (0, Some demo_val)"
  by code_simp+

lemma demo_e1: "deliver demo (EvTimeout 1 0 RoundStepNewHeight) demo_h0 = Some demo_h1"
  by (simp cong: lazy add: checkContinue_def handleTimeout_def lock_def unlock_def timeout_switch_def enterNewRound_def updateRoundStep_def votes_SetRound_def hvs_SetRound_def
      hvs_addRound_def gput_def gget_def int32_def dealNewRound_def WaitForTxs_def demo_conf_def enterPropose_def stale_def out_simps AddTimeOut_def propose_body_def
      isProposalComplete_def demo_h0_def demo_h1_def zero_handler_def demo_votes_def Let_def less_RoundStepType_def less_eq_RoundStepType_def)

lemma demo_e2: "deliver demo (demo_msg 1) demo_h1 = Some demo_h2"
  by (simp cong: lazy add: demo_msg_def deliver_internal_def checkContinue_def open_internal_msg_def demo_ne_def processInnerMsg_def HandleInnerProposalMsg_def
      buildTypeProposalFromNetMsg_def type_blockID_def demo_netID_def setProposal_def less_eq_RoundStepType_def NewPartSetFromHeader_def NewBitArray_def
      demo_h2_def demo_h1_def demo_h0_def zero_handler_def demo_parts_def demo_bid_def)

lemma demo_mark [simp]: "mark_bit 0 (Some \<lparr> ba_Bits = 1, ba_Elems = [0] \<rparr>) = Some (Some \<lparr> ba_Bits = 1, ba_Elems = [1] \<rparr>)"
  by code_simp

lemma demo_add: "ps_AddPart (\<lambda>b. [7]) (demo_parts\<lparr>ps_parts := [None], ps_partsBitArray := Some \<lparr> ba_Bits = 1, ba_Elems = [0] \<rparr>, ps_count := 0\<rparr>)
    \<lparr> pt_Index = 0, pt_Bytes = [8], pt_Proof = [], pt_hash = None \<rparr> True = Some ((True, None), demo_parts)"
  by (simp add: ps_AddPart_def part_slot_def Part_Hash_def SimpleProof_Verify_def computeHashFromAunts.simps ps_Hash_def demo_parts_def)

lemma demo_complete: "ps_IsComplete demo_parts" "ps_GetReader demo_parts \<noteq> None" "ps_Header (Some demo_parts) = \<lparr> psh_Total = 1, psh_Hash = [7] \<rparr>"
  by code_simp+

lemma demo_send: "mySignVote demo_ne w = Some (w\<lparr>vt_Signature := [5]\<rparr>)"
    "buildVoteMsgFromType demo_ne w = Some (demo_out 0)"
  by (simp_all add: mySignVote_def buildVoteMsgFromType_def wrap_msg_def tdm_Sign_def demo_ne_def demo_out_def)

lemma demo_own: "h_digestAddr h = [1] \<Longrightarrow> h_Height h = 1 \<Longrightarrow> h_Round h = 0 \<Longrightarrow> (own_vote demo ty demo_bid demo_vals h)\<lparr>vt_Signature := [5]\<rparr> = demo_vote ty"
  by (simp add: own_vote_def demo_vote_def)

lemma demo_internal: "deliver demo (demo_msg b) h = (if checkContinue h then processInnerMsg demo \<lparr> tm_Type = (if b = 1 then MsgProposal else if b = 2 then MsgBlockPart else
    if b = 5 then MsgVoteSetMaj23 else MsgVote), tm_Payload = [b], tm_Signature = [] \<rparr> [1] h else Some h)"
  by (simp add: demo_msg_def deliver_internal_def open_internal_msg_def demo_ne_def)

lemma demo_proposal_block: "proposal_block demo demo_parts h = Some (True, h\<lparr>h_ProposalBlock := Some demo_block\<rparr>)"
  using demo_complete(2) demo_hash by (auto simp: proposal_block_def)

lemma demo_blockID: "mk_blockID (blk_hash demo_he (Some demo_block)) (ps_Header (Some demo_parts)) = demo_bid"
  by (simp add: mk_blockID_def demo_hash demo_complete demo_bid_def)

lemma demo_no_commit: "demo_block\<lparr>tb_CurrentCommit := None\<rparr> = demo_block"
  by (simp add: demo_block_def)

lemmas demo_state_defs = demo_h4_def demo_h3_def demo_h2_def demo_h1_def demo_h0_def zero_handler_def

lemma demo_prevote: "enterPrevote demo 1 0 (demo_h2\<lparr>h_ProposalBlockParts := Some demo_parts, h_ProposalBlock := Some demo_block\<rparr>) = Some demo_h3"
  using demo_valid [of _ _ None]
  by (simp cong: lazy add: enterPrevote_def stale_def less_eq_RoundStepType_def defaultDoPrevote_def validate_block_def demo_no_commit signAddVote_def signVote_def send_vote_def
      demo_send demo_own demo_blockID out_simps AddTimeOut_def int32_def demo_conf_def demo_out_def demo_state_defs)

lemma demo_e3: "deliver demo (demo_msg 2) demo_h2 = Some demo_h3"
proof -
  have part: "HandleBlockPartMsg demo m h = addProposalBlockPart demo 1 \<lparr> pt_Index = 0, pt_Bytes = [8], pt_Proof = [], pt_hash = None \<rparr> True h" for m h
    by (simp add: HandleBlockPartMsg_def buildTypeBlkPartFromNetMsg_def demo_ne_def)
  have h2: "h_Height demo_h2 = 1" "h_Round demo_h2 = 0" "h_Step demo_h2 = RoundStepPropose" "checkContinue demo_h2"
    "h_ProposalBlockParts demo_h2 = Some (demo_parts\<lparr>ps_parts := [None], ps_partsBitArray := Some \<lparr> ba_Bits = 1, ba_Elems = [0] \<rparr>, ps_count := 0\<rparr>)"
    by (simp_all add: demo_state_defs checkContinue_def)
  show ?thesis
    using demo_prevote by (simp cong: lazy add: demo_internal processInnerMsg_def part addProposalBlockPart_def demo_add demo_complete demo_proposal_block h2)
qed

lemma demo_quorum [simp]: "vs_Size demo_vals = 1" "two_thirds demo_vals = 0" "int64 1 = 1"
  by code_simp+

lemma demo_counted:
  "hvs_AddVote (\<lambda>p. []) (demo_votes (demo_fresh 0 VoteTypePrevote) pc) (demo_vote VoteTypePrevote) k = Some ((True, None), demo_votes (demo_cast VoteTypePrevote) pc)"
  "hvs_AddVote (\<lambda>p. []) (demo_votes pv (demo_fresh 0 VoteTypePrecommit)) (demo_vote VoteTypePrecommit) k = Some ((True, None), demo_votes pv (demo_cast VoteTypePrecommit))"
  by (simp_all cong: lazy add: hvs_AddVote_def IsVoteTypeValid_def demo_vote_def hvs_getVoteSet_def demo_votes_def gget_def vset_AddVote_def vset_addVote_def demo_fresh_def GetByIndex_def
      vset_getVote_def vote_slot_def bv_getByIndex_def vset_addVerifiedVote_def record_primary_def count_vote_def newBlockVotes_def NewBitArray_def bv_addVerifiedVote_def
      put_vset_def gput_def demo_cast_def bid_Key_def demo_bid_def overlay_def VoteTypePrevote_def VoteTypePrecommit_def Let_def)

lemma demo_cast_simps: "HasTwoThirdsAny (Some (demo_cast ty))" "HasTwoThirdsMajority (Some (demo_cast ty))" "TwoThirdsMajority (Some (demo_cast ty)) = (demo_bid, True)"
  by (simp_all add: HasTwoThirdsAny_def HasTwoThirdsMajority_def TwoThirdsMajority_def demo_cast_def demo_fresh_def)

lemma demo_sets [simp]: "hvs_Prevotes (demo_votes pv pc) 0 = Some pv" "hvs_Precommits (demo_votes pv pc) 0 = Some pc"
  by (simp_all add: hvs_Prevotes_def hvs_Precommits_def hvs_getVoteSet_def demo_votes_def gget_def VoteTypePrevote_def VoteTypePrecommit_def)

lemma demo_read: "buildTypeFromVoteMsg demo_ne \<lparr> tm_Type = MsgVote, tm_Payload = [3], tm_Signature = [] \<rparr> = Some (Some (demo_vote VoteTypePrevote))"
  "buildTypeFromVoteMsg demo_ne \<lparr> tm_Type = MsgVote, tm_Payload = [4], tm_Signature = [] \<rparr> = Some (Some (demo_vote VoteTypePrecommit))"
  by (simp_all add: buildTypeFromVoteMsg_def demo_ne_def demo_vm_def demo_netID_def vote_of_message_def type_blockID_def demo_vote_def demo_bid_def VoteTypePrevote_def VoteTypePrecommit_def)

lemma demo_bid_hash [simp]: "bid_Hash demo_bid = [7]" "bid_PartsHeader demo_bid = \<lparr> psh_Total = 1, psh_Hash = [7] \<rparr>"
  by (simp_all add: demo_bid_def)

lemma demo_precommit: "enterPrecommit demo 1 0 (demo_h3\<lparr>h_log := h_log demo_h3 @ [InVote (demo_vote VoteTypePrevote)],
    h_Votes := Some (demo_votes (demo_cast VoteTypePrevote) (demo_fresh 0 VoteTypePrecommit))\<rparr>) = Some demo_h4"
  by (simp cong: lazy add: enterPrecommit_def stale_def less_eq_RoundStepType_def precommit_body_def demo_cast_simps HashesTo_def demo_hash applyAddVote_def
      signVote_def send_vote_def demo_send demo_own out_simps AddTimeOut_def int32_def demo_conf_def demo_out_def demo_state_defs)

lemma demo_e4: "deliver demo (demo_msg 3) demo_h3 = Some demo_h4"
proof -
  have h3: "h_Height demo_h3 = 1" "h_Round demo_h3 = 0" "h_Step demo_h3 = RoundStepPrevote" "checkContinue demo_h3"
    "h_Votes demo_h3 = Some (demo_votes (demo_fresh 0 VoteTypePrevote) (demo_fresh 0 VoteTypePrecommit))"
    by (simp_all add: demo_state_defs checkContinue_def)
  have vote: "vt_Height (demo_vote ty) = 1" "vt_Round (demo_vote ty) = 0" "vt_Type (demo_vote ty) = ty" for ty by (simp_all add: demo_vote_def)
  show ?thesis
    using demo_precommit
    by (simp cong: lazy add: demo_internal processInnerMsg_def HandleVoteMsg_def demo_read log_out_def tryAddVote_def addVote_def h3 vote demo_counted prevote_added_def demo_cast_simps enterNewRound_def)
qed

definition demo_h5 :: "unit TDMMsgHandler" where
  "demo_h5 = demo_h4\<lparr>h_Votes := Some (demo_votes (demo_cast VoteTypePrevote) (demo_cast VoteTypePrecommit)), h_Step := RoundStepCommit, h_CommitRound := 0,
     h_log := h_log demo_h4 @ [InVote (demo_vote VoteTypePrecommit)]\<rparr>"

fun committed :: "out \<Rightarrow> bool" where
  "committed (OutBlock blk sblk) = True"
| "committed _ = False"

definition demo_sealed :: TDMBlock where
  "demo_sealed = demo_block\<lparr>tb_CurrentCommit := Some \<lparr> cm_BlockID = demo_bid, cm_Precommits = [Some (demo_vote VoteTypePrecommit)] \<rparr>\<rparr>"

definition demo_sblk :: Block where
  "demo_sblk = \<lparr> bk_Header = Some \<lparr> hd_BlockNum = 1, hd_PreviousHash = [], hd_CreateTime = 0, hd_SenderId = [1], hd_ConsArgs = [], hd_Ext = [], hd_TxsHash = [], hd_StateHash = [] \<rparr>, bk_Txs = [] \<rparr>"

definition demo_next :: State where
  "demo_next = demo_state\<lparr>st_LastBlockNum := 1, st_LastBlockID := demo_bid, st_Validators := Some (demo_vals\<lparr>vs_totalVotingPower := 1\<rparr>), st_PreviousHash := [9]\<rparr>"

definition demo_h6 :: "unit TDMMsgHandler" where
  "demo_h6 = demo_h5\<lparr>h_log := h_log demo_h5 @ [OutBlock demo_sealed demo_sblk], h_LockedRound := 0, h_LockedBlock := None, h_LockedBlockParts := None\<rparr>"

lemma demo_convert: "ConsToStandard demo_he demo_tc demo_sealed = Some (Inr demo_sblk)"
  by (simp add: ConsToStandard_def demo_sealed_def demo_block_defs demo_tc_def Data_Hash_def Txs_Hash.simps MakeHasher_def SimpleHashFromByteslices_def demo_sblk_def go_quot_def)

lemma demo_accum: "IncrementAccum demo_vals 1 = Some (demo_vals\<lparr>vs_totalVotingPower := 1\<rparr>)"
  by code_simp

lemma demo_apply: "ApplyBlock demo demo_state demo_bid demo_block demo_h5 = Some (Inr demo_next, demo_h6)"
proof -
  have h5: "h_CommitRound demo_h5 = 0" "h_Votes demo_h5 = Some (demo_votes (demo_cast VoteTypePrevote) (demo_cast VoteTypePrecommit))" "h_LastCommitState demo_h5 = demo_state"
    "h_LockedBlock demo_h5 = Some demo_block"
    by (simp_all add: demo_h5_def demo_state_defs)
  have make: "MakeCommit (demo_cast VoteTypePrecommit) = Some \<lparr> cm_BlockID = demo_bid, cm_Precommits = [Some (demo_vote VoteTypePrecommit)] \<rparr>"
    by (simp add: MakeCommit_def demo_cast_def demo_fresh_def)
  have save: "saveBlock demo demo_sealed demo_state demo_h5 = Some (Inr (demo_state\<lparr>st_PreviousHash := [9]\<rparr>), log_out (OutBlock demo_sealed demo_sblk) demo_h5)"
    by (simp cong: lazy add: saveBlock_def demo_convert h5 Let_def demo_state_def zero_state_def log_out_def) (simp cong: lazy add: demo_sblk_def h5 demo_state_def zero_state_def log_out_def)
  have cache: "demo_sealed\<lparr>tb_Data := Data_cache demo_he (tb_Data demo_sealed)\<rparr> = demo_sealed"
    by (simp add: demo_sealed_def demo_block_defs Data_cache_def Data_Hash_def Txs_Hash.simps)
  obtain header where header: "tb_Header demo_block = Some header" "tb_Header demo_sealed = Some header" using demo_hash(3) by (auto simp: demo_sealed_def)
  then have update: "updateState (demo_state\<lparr>st_PreviousHash := [9]\<rparr>) demo_bid header = Some demo_next"
    by (auto simp: updateState_def demo_state_def zero_state_def demo_accum demo_block_def zero_header_def demo_next_def int64_def)
  have valid: "ValidateBlock demo_he m f demo_state (Some demo_sealed) = Some None" for m f by (simp add: demo_valid demo_sealed_def)
  show ?thesis
    by (simp cong: lazy add: ApplyBlock_def getcurrentPrecommits_def h5 demo_cast_simps make validate_block_def demo_sealed_def [symmetric] Let_def cache save valid header update)
      (simp add: demo_h6_def log_out_def h5)
qed

lemma demo_applied: "\<exists>h. block_applied demo demo_block demo_next demo_h6 = Some h \<and> set (h_log demo_h6) \<subseteq> set (h_log h)"
proof -
  let ?vals = "demo_vals\<lparr>vs_totalVotingPower := 1\<rparr>"
  obtain v2 where v2: "NewBlkNumVoteSet 2 ?vals = Some v2" "hvs_ok (\<lambda>p. []) v2" using NewBlkNumVoteSet_ok [of 2 ?vals "\<lambda>p. []"] by auto
  obtain v3 where v3: "hvs_SetRound v2 1 = Some v3" using SetRound_ok [OF v2(2), of 1] by auto
  show ?thesis
    by (simp cong: lazy add: block_applied_def updateToState_def State_IsEmpty_def demo_next_def demo_cast_simps v2 v3 out_simps scheduleRound0_def enterNewRound_def votes_SetRound_def int32_def
        dealNewRound_def WaitForTxs_def demo_conf_def enterPropose_def stale_def less_eq_RoundStepType_def less_RoundStepType_def AddTimeOut_def propose_body_def isProposalComplete_def
        demo_h6_def demo_h5_def demo_state_defs demo_state_def zero_state_def Let_def)
qed

lemma demo_e5: "\<exists>h. deliver demo (demo_msg 4) demo_h4 = Some h \<and> OutBlock demo_sealed demo_sblk \<in> set (h_log h)"
proof -
  obtain h where h: "block_applied demo demo_block demo_next demo_h6 = Some h" "set (h_log demo_h6) \<subseteq> set (h_log h)" using demo_applied by blast
  have h5: "h_Height demo_h5 = 1" "h_Round demo_h5 = 0" "h_Step demo_h5 = RoundStepCommit" "h_CommitRound demo_h5 = 0" "h_ProposalBlock demo_h5 = Some demo_block"
    "h_Votes demo_h5 = Some (demo_votes (demo_cast VoteTypePrevote) (demo_cast VoteTypePrecommit))" "h_ProposalBlockParts demo_h5 = Some demo_parts"
    "h_LastCommitState demo_h5 = demo_state"
    by (simp_all add: demo_h5_def demo_state_defs)
  have copy: "State_Copy demo_state = Some demo_state" by (simp add: State_Copy_def demo_state_def zero_state_def)
  have has: "ps_HasHeader (Some demo_parts) \<lparr> psh_Total = 1, psh_Hash = [7] \<rparr>" by code_simp
  have "finalizeCommit demo 1 demo_h5 = Some h"
    using h(1) demo_apply by (simp cong: lazy add: finalizeCommit_def h5 demo_cast_simps has HashesTo_def demo_hash copy demo_blockID [unfolded demo_hash])
  then have fin: "tryFinalizeCommit demo 1 demo_h5 = Some h"
    by (simp cong: lazy add: tryFinalizeCommit_def h5 demo_cast_simps HashesTo_def demo_hash)
  define h4 where "h4 = demo_h4\<lparr>h_log := h_log demo_h4 @ [InVote (demo_vote VoteTypePrecommit)], h_Votes := Some (demo_votes (demo_cast VoteTypePrevote) (demo_cast VoteTypePrecommit))\<rparr>"
  have h4: "h_Height h4 = 1" "h_Round h4 = 0" "h_Step h4 = RoundStepPrecommit" "h_ProposalBlock h4 = Some demo_block"
    "h_Votes h4 = Some (demo_votes (demo_cast VoteTypePrevote) (demo_cast VoteTypePrecommit))" "(updateRoundStep 0 RoundStepCommit h4)\<lparr>h_CommitRound := 0\<rparr> = demo_h5"
    by (simp_all add: h4_def demo_state_defs demo_h5_def updateRoundStep_def)
  have pre: "h_Height demo_h4 = 1" "h_Round demo_h4 = 0" "checkContinue demo_h4" "h_Votes demo_h4 = Some (demo_votes (demo_cast VoteTypePrevote) (demo_fresh 0 VoteTypePrecommit))"
    by (simp_all add: demo_state_defs checkContinue_def)
  have vote: "vt_Height (demo_vote ty) = 1" "vt_Round (demo_vote ty) = 0" "vt_Type (demo_vote ty) = ty" for ty by (simp_all add: demo_vote_def)
  have "precommit_added demo (demo_vote VoteTypePrecommit) h4 = Some h"
    using fin by (simp cong: lazy add: precommit_added_def h4 vote demo_cast_simps enterNewRound_def enterPrecommit_def stale_def less_eq_RoundStepType_def enterCommit_def HashesTo_def
        demo_hash demo_conf_def Let_def)
  moreover have "VoteTypePrecommit \<noteq> VoteTypePrevote" by (simp add: VoteTypePrevote_def VoteTypePrecommit_def)
  ultimately have "deliver demo (demo_msg 4) demo_h4 = Some h"
    by (simp cong: lazy add: demo_internal processInnerMsg_def HandleVoteMsg_def demo_read log_out_def tryAddVote_def addVote_def pre vote demo_counted h4_def [symmetric])
  then show ?thesis using h(2) by (auto simp: demo_h6_def)
qed

lemma demo_runs: "node_run demo demo_h4" "\<exists>h. node_run demo h \<and> OutBlock demo_sealed demo_sblk \<in> set (h_log h)"
proof -
  have "allowed demo (EvTimeout 1 0 RoundStepNewHeight) demo_h0" by (simp add: demo_h0_def)
  then have "node_run demo demo_h1" using node_run.event [OF start_node_run [OF demo_start] _ demo_e1] by blast
  moreover have ok: "allowed demo (demo_msg b) h" for b h by (simp add: demo_msg_def)
  ultimately show h4: "node_run demo demo_h4" using node_run.event [OF _ ok] demo_e2 demo_e3 demo_e4 by metis
  show "\<exists>h. node_run demo h \<and> OutBlock demo_sealed demo_sblk \<in> set (h_log h)" using demo_e5 node_run.event [OF h4 ok] by blast
qed

lemma quiet_refl: "quiet h h"
  unfolding quiet_def
  by (rule exI [of _ "h_IsContinueConsensus h"], rule exI [of _ "h_world h"], rule exI [of _ "h_Validators h"], rule exI [of _ "st_Validators (h_LastCommitState h)"]) simp

lemma demo_env: "quiet_callbacks demo"
  by (simp add: quiet_callbacks_def quiet_refl)

section \<open>Properties of every run\<close>

text \<open>Claim C1.  Whatever messages, timeouts and synchronised blocks a node is given from a start of its handler to the next, and whatever happens to the ledger and the pool in between, with callbacks of the
  embedding consensus that leave the handler's own fields alone, it signs at most one prevote and at most one precommit for a height and
  round; its votes are prevotes and precommits of heights and rounds it has reached, and its height and round never go back while it runs.\<close>

theorem node_votes_once:
  assumes "node_run ce h" "quiet_callbacks ce"
  shows "distinct (map vote_key (votes_in (h_log h))) \<and>
    (\<forall>v\<in>set (votes_in (h_log h)). IsVoteTypeValid (vt_Type v) \<and> (vt_Height v < h_Height h \<or> (vt_Height v = h_Height h \<and> vt_Round v \<le> h_Round h))) \<and>
    (\<forall>ev h'. allowed ce ev h \<longrightarrow> deliver ce ev h = Some h' \<longrightarrow> h_Height h < h_Height h' \<or> (h_Height h' = h_Height h \<and> h_Round h \<le> h_Round h'))"
proof -
  have ok: "handler_ok h" using node_run_ok [OF assms] .
  have "h_Height h < h_Height h' \<or> (h_Height h' = h_Height h \<and> h_Round h \<le> h_Round h')" if "allowed ce ev h" "deliver ce ev h = Some h'" for ev h'
  proof -
    have "pos_le (pos h) (pos h')" using adv.deliver_Q [OF that(2,1) assms(2) ok] ok by (simp add: advances_def)
    then show ?thesis by (auto simp: pos_le_def pos_def)
  qed
  moreover have "log_ok (h_log h) (pos h)" using ok by (simp add: handler_ok_def)
  ultimately show ?thesis by (fastforce simp: log_ok_def pos_le_def vote_pos_def pos_def)
qed

theorem node_votes_once_witness: "length (votes_in (h_log demo_h4)) = 2 \<and> distinct (map vote_key (votes_in (h_log demo_h4)))"
  using node_votes_once [OF demo_runs(1) demo_env] by (simp add: demo_state_defs)

text \<open>Claim C2.  In every run, with callbacks of the embedding consensus that leave the handler's own fields alone, a node signs a precommit for a block only after it has received
  prevotes for that block (votes with the same key), of the same height and round, from a quorum of the validators that it opened the height with: as many validators as make
  two thirds of the total power plus one, in the 64-bit arithmetic of the code, each counted once whatever its power.\<close>

theorem precommit_backed_by_prevotes:
  assumes "node_run ce h" "quiet_callbacks ce" "OutVote w m \<in> set (h_log h)" "vt_Type w = VoteTypePrecommit" "bid_Hash (vt_BlockID w) \<noteq> []"
  shows "quorum_received (ce_dig ce) (h_log h) VoteTypePrevote (vt_Height w) (vt_Round w) (vt_BlockID w)"
proof -
  have "backed ce (h_log h) (OutVote w m)" using node_run_backed [OF assms(1,2)] assms(3) unfolding log_backed_def by blast
  then show ?thesis using assms(4,5) certified_quorum by auto
qed

theorem precommit_backed_by_prevotes_witness: "quorum_received (ce_dig demo) (h_log demo_h4) VoteTypePrevote 1 0 demo_bid"
  using precommit_backed_by_prevotes [OF demo_runs(1) demo_env, of "demo_vote VoteTypePrecommit" "demo_out 2"] by (simp add: demo_state_defs demo_vote_def)

text \<open>Claim C3.  In every run, with callbacks of the embedding consensus that leave the handler's own fields alone, every block that a node commits and hands to the application carries a certificate of precommits that the node has received, all of one round and of the
  block's own number; they are for the hash of the block, and those for it come from a quorum of the validators that the node opened the height with (two thirds of the total power plus one, in
  the 64-bit arithmetic of the code, each validator counted once whatever its power).\<close>

theorem committed_block_certified:
  assumes "node_run ce h" "quiet_callbacks ce" "OutBlock blk sblk \<in> set (h_log h)"
  shows "\<exists>header c R. tb_Header blk = Some header \<and> tb_CurrentCommit blk = Some c \<and> HashesTo (ce_he ce) (Some blk) (bid_Hash (cm_BlockID c)) \<and>
    quorum_received (ce_dig ce) (h_log h) VoteTypePrecommit (th_BlockNum header) R (cm_BlockID c) \<and>
    (\<forall>w. Some w \<in> set (cm_Precommits c) \<longrightarrow> InVote w \<in> set (h_log h) \<and> vt_Height w = th_BlockNum header \<and> vt_Round w = R \<and> vt_Type w = VoteTypePrecommit)"
proof -
  have "backed ce (h_log h) (OutBlock blk sblk)" using node_run_backed [OF assms(1,2)] assms(3) unfolding log_backed_def by blast
  then obtain v b header where v: "certified ce (h_log h) VoteTypePrecommit (th_BlockNum header) (vset_round v) b v" "tb_Header blk = Some header"
      "tb_CurrentCommit blk = Some \<lparr> cm_BlockID = b, cm_Precommits = vset_votes v \<rparr>" "HashesTo (ce_he ce) (Some blk) (bid_Hash b)" by auto
  have "InVote w \<in> set (h_log h) \<and> vt_Height w = th_BlockNum header \<and> vt_Round w = vset_round v \<and> vt_Type w = VoteTypePrecommit" if "Some w \<in> set (vset_votes v)" for w
  proof -
    have w: "w \<in> recorded v" using that by (simp add: recorded_def)
    then obtain i where "vote_fits v i w" using v(1) recorded_fits [of "ce_dig ce" v w] by (auto simp: certified_def)
    then show ?thesis using v(1) w by (auto simp: certified_def vote_fits_def)
  qed
  then show ?thesis using v certified_quorum [OF v(1)] by (intro exI [of _ header] exI [of _ "\<lparr> cm_BlockID = b, cm_Precommits = vset_votes v \<rparr>"] exI [of _ "vset_round v"]) simp
qed

theorem committed_block_certified_witness:
  "\<exists>h R. node_run demo h \<and> OutBlock demo_sealed demo_sblk \<in> set (h_log h) \<and> quorum_received (ce_dig demo) (h_log h) VoteTypePrecommit 1 R demo_bid"
proof -
  obtain h where h: "node_run demo h" "OutBlock demo_sealed demo_sblk \<in> set (h_log h)" using demo_runs(2) by blast
  obtain header c R where "tb_Header demo_sealed = Some header" "tb_CurrentCommit demo_sealed = Some c"
      "quorum_received (ce_dig demo) (h_log h) VoteTypePrecommit (th_BlockNum header) R (cm_BlockID c)"
    using committed_block_certified [OF h(1) demo_env h(2)] by blast
  then have "quorum_received (ce_dig demo) (h_log h) VoteTypePrecommit 1 R demo_bid" by (auto simp: demo_sealed_def demo_block_def)
  then show ?thesis using h by blast
qed

section \<open>Where the code departs from the algorithm\<close>

text \<open>Claim C31.  The lock does not protect a block against a majority for it: when a node that is locked on a block sees a majority of prevotes for that very block in a round in which
  another block, or none, was proposed to it, it gives up the lock and signs a precommit for nothing, although the algorithm asks it to precommit the block and keep the lock.\<close>

theorem majority_for_locked_block_unlocks:
  assumes "\<not> stale H R RoundStepPrecommit h" "h_Votes h = Some votes" "TwoThirdsMajority (hvs_Prevotes votes R) = (b, True)"
    "HashesTo (ce_he ce) (h_LockedBlock h) (bid_Hash b)" "\<not> HashesTo (ce_he ce) (h_ProposalBlock h) (bid_Hash b)" "enterPrecommit ce H R h = Some h'"
  shows "h_LockedBlock h' = None \<and> h_LockedBlockParts h' = None \<and> (\<exists>vs. votes_in (h_log h') = votes_in (h_log h) @ vs \<and> (\<forall>v\<in>set vs. bid_Hash (vt_BlockID v) = []))"
proof -
  have "bid_Hash b \<noteq> []" using assms(4) by (auto simp: HashesTo_def)
  then obtain h1 where h1: "applyAddVote ce VoteTypePrecommit zero_blockID (h\<lparr>h_LockedRound := 0, h_LockedBlock := None, h_LockedBlockParts := None\<rparr>) = Some h1"
    "h' = (let h2 = updateRoundStep R RoundStepPrecommit h1 in scheduleTimeout (AddTimeOut (cf_TimeoutPrecommit (ce_conf ce)) h2) H R RoundStepPrecommit h2)"
    using assms by (auto simp: enterPrecommit_def precommit_body_def bind_eq_Some_conv Let_def)
  have "voted VoteTypePrecommit zero_blockID (h\<lparr>h_LockedRound := 0, h_LockedBlock := None, h_LockedBlockParts := None\<rparr>) h1" using applyAddVote_voted [OF h1(1)] .
  then show ?thesis
    by (elim voted_def [THEN iffD1, THEN disjE] exE conjE) (simp_all add: h1(2) Let_def out_simps zero_blockID_def)
qed

theorem majority_for_locked_block_unlocks_witness:
  "\<exists>h'. enterPrecommit demo 1 0 (demo_h4\<lparr>h_Step := RoundStepPrevote, h_ProposalBlock := None\<rparr>) = Some h' \<and> h_LockedBlock h' = None"
proof -
  let ?h = "demo_h4\<lparr>h_Step := RoundStepPrevote, h_ProposalBlock := None\<rparr>"
  have h: "\<not> stale 1 0 RoundStepPrecommit ?h" "h_Votes ?h = Some (demo_votes (demo_cast VoteTypePrevote) (demo_fresh 0 VoteTypePrecommit))"
    "HashesTo (ce_he demo) (h_LockedBlock ?h) (bid_Hash demo_bid)" "\<not> HashesTo (ce_he demo) (h_ProposalBlock ?h) (bid_Hash demo_bid)"
    by (simp_all add: stale_def less_eq_RoundStepType_def HashesTo_def demo_hash demo_state_defs)
  have maj: "TwoThirdsMajority (hvs_Prevotes (demo_votes (demo_cast VoteTypePrevote) (demo_fresh 0 VoteTypePrecommit)) 0) = (demo_bid, True)" by (simp add: demo_cast_simps)
  have "\<exists>h'. enterPrecommit demo 1 0 ?h = Some h'"
    using h by (simp cong: lazy add: enterPrecommit_def precommit_body_def demo_cast_simps applyAddVote_def signVote_def send_vote_def demo_send Let_def) (simp add: demo_state_defs send_vote_def demo_send Let_def)
  then show ?thesis using majority_for_locked_block_unlocks [OF h(1,2) maj h(3,4)] by blast
qed

text \<open>Claim C32.  Every message that claims a majority, whatever it holds and whether or not it can be decoded, that is handled while the lock of the consensus is free and the votes of a height
  are open leaves the lock taken for good: its handler takes the lock a second time and nothing gives it back.  From then on the handlers that take the lock never return, namely that of a timeout of the present
  height that is not behind the node's round and step, that of the arrival of transactions, that of a further claim of a majority and that of an announcement of a vote.\<close>

theorem majority_claim_blocks_handler:
  assumes "\<not> h_mtx h" "h_Votes h = Some votes"
  shows "\<exists>h'. HandleVoteSetMaj23Msg ce m h = Some h' \<and> h_mtx h' \<and> h_Height h' = h_Height h \<and> h_Round h' = h_Round h \<and> h_Step h' = h_Step h \<and>
    (\<forall>H. handleTxsAvailable ce H h' = None) \<and> (\<forall>R s. h_Round h < R \<or> (h_Round h = R \<and> h_Step h \<le> s) \<longrightarrow> handleTimeout ce (h_Height h) R s h' = None) \<and>
    (\<forall>m2. HandleVoteSetMaj23Msg ce m2 h' = None \<and> HandleHasVoteMsg ce m2 h' = None)"
proof -
  have "HandleVoteSetMaj23Msg ce m h \<noteq> None"
    using assms by (auto simp: HandleVoteSetMaj23Msg_def lock_def unlock_def split: option.splits prod.splits if_splits)
  then obtain h' where h': "HandleVoteSetMaj23Msg ce m h = Some h'" by blast
  then have "h_mtx h'" "h_Height h' = h_Height h" "h_Round h' = h_Round h" "h_Step h' = h_Step h"
    by (auto simp: HandleVoteSetMaj23Msg_def lock_def unlock_def split: Option.bind_splits option.splits if_splits prod.splits)
  then show ?thesis using h'
    by (intro exI [of _ h']) (auto simp: handleTxsAvailable_def handleTimeout_def HandleVoteSetMaj23Msg_def HandleHasVoteMsg_def lock_def)
qed

theorem majority_claim_blocks_handler_witness:
  "\<exists>h'. deliver demo (demo_msg 5) demo_h4 = Some h' \<and> handleTimeout demo 1 0 RoundStepPrecommit h' = None"
proof -
  let ?m = "\<lparr> tm_Type = MsgVoteSetMaj23, tm_Payload = [5], tm_Signature = [] \<rparr>"
  have "\<not> h_mtx demo_h4" "h_Votes demo_h4 \<noteq> None" "checkContinue demo_h4" "h_Height demo_h4 = 1" "h_Round demo_h4 = 0" "h_Step demo_h4 = RoundStepPrecommit"
    by (simp_all add: checkContinue_def demo_state_defs)
  then show ?thesis using majority_claim_blocks_handler [of demo_h4 _ demo ?m] by (auto simp: demo_internal processInnerMsg_def)
qed

end
