(* ===== verification/Rlp.thy ===== *)
theory Rlp
  imports Strconv Transaction
begin

text \<open>
  \<open>rlp\<close>: the encoding in which clients submit raw transactions.  The sources are reflection over Go types; here a Go type is a value of \<open>gtype\<close> and a Go value
  a value of \<open>gval\<close>, and the writers and decoders that \<open>makeWriter\<close> and \<open>makeDecoder\<close> choose for a type are the equations of \<open>writer\<close> and \<open>decode\<close>.  Types are finite
  trees, the target of a decoder is a zero value, nil and empty slices are one value, the input is a \<open>bytes.Reader\<close>, and no type has an \<open>EncodeRLP\<close> or \<open>DecodeRLP\<close>
  method (none of the repository has).  The type cache is a memo of what it returns and is left out.
\<close>

section \<open>Types, values and errors\<close>

text \<open>A field of a struct: its name, whether it is exported, and the text of its \<open>rlp\<close> tag.\<close>

record fld =
  fd_Name :: string
  fd_exported :: bool
  fd_tag :: string

text \<open>\<open>TUint\<close> has the width in bits, \<open>TInterface\<close> the number of methods; \<open>TOther\<close> is every kind that cannot be serialised.\<close>

datatype gtype = TRawValue | TBigIntPtr | TBigInt | TUint nat | TBool | TString | TSlice gtype | TArray nat gtype | TStruct "(fld \<times> gtype) list"
  | TPtr gtype | TInterface nat | TOther

text \<open>\<open>VBytes\<close> holds strings, byte slices, byte arrays and raw values; an interface holds a value with its type.\<close>

datatype gval = VBytes bytes | VUint u64 | VBool bool | VBig int | VList "gval list" | VStruct "gval list" | VPtr "gval option" | VIface "(gtype \<times> gval) option"

record tags =
  tg_nilOK :: bool
  tg_tail :: bool
  tg_ignored :: bool

definition no_tags :: tags where
  "no_tags = \<lparr> tg_nilOK = False, tg_tail = False, tg_ignored = False \<rparr>"

datatype type_error = NotSerializable gtype | TailNotLast | TailNotSlice | UnknownTag string

datatype err_ctx = CtxIndex nat | CtxField string | CtxTarget gtype

datatype dec_msg = MsgCanonInt | MsgCanonSize | MsgExpectedList | MsgExpectedString | MsgTooLong | MsgTooShort | MsgTooMany | MsgTooFew

datatype rlp_error = EOL | EOF | ErrUnexpectedEOF | ErrExpectedString | ErrExpectedList | ErrCanonInt | ErrCanonSize | ErrElemTooLarge | ErrValueTooLarge
  | ErrMoreThanOneValue | ErrNotInList | ErrNotAtEOL | ErrUintOverflow | ErrInvalidBool u64 | ErrNegativeBigInt | ErrType type_error
  | DecErr dec_msg gtype "err_ctx list" | Mistyped

fun zero_val :: "gtype \<Rightarrow> gval" where
  "zero_val TRawValue = VBytes []"
| "zero_val TBigIntPtr = VPtr None"
| "zero_val TBigInt = VBig 0"
| "zero_val (TUint b) = VUint 0"
| "zero_val TBool = VBool False"
| "zero_val TString = VBytes []"
| "zero_val (TSlice t) = (if t = TUint 8 then VBytes [] else VList [])"
| "zero_val (TArray n t) = (if t = TUint 8 then VBytes (replicate n 0) else VList (replicate n (zero_val t)))"
| "zero_val (TStruct fs) = VStruct (map (\<lambda>(f, t). zero_val t) fs)"
| "zero_val (TPtr t) = VPtr None"
| "zero_val (TInterface m) = VIface None"
| "zero_val TOther = VPtr None"

section \<open>Type information\<close>

text \<open>\<open>strings.Split\<close> at a character and \<open>strings.TrimSpace\<close> on ASCII.\<close>

fun go_split :: "char \<Rightarrow> string \<Rightarrow> string list" where
  "go_split c [] = [[]]"
| "go_split c (x # xs) = (if x = c then [] # go_split c xs else (case go_split c xs of [] \<Rightarrow> [[x]] | w # ws \<Rightarrow> (x # w) # ws))"

definition is_space :: "char \<Rightarrow> bool" where
  "is_space c \<longleftrightarrow> (of_char c :: nat) \<in> {9, 10, 11, 12, 13, 32}"

definition trim_space :: "string \<Rightarrow> string" where
  "trim_space s = rev (dropWhile is_space (rev (dropWhile is_space s)))"

definition is_slice :: "gtype \<Rightarrow> bool" where
  "is_slice t \<longleftrightarrow> (case t of TRawValue \<Rightarrow> True | TSlice _ \<Rightarrow> True | _ \<Rightarrow> False)"

fun parse_tags :: "bool \<Rightarrow> gtype \<Rightarrow> string list \<Rightarrow> tags \<Rightarrow> type_error + tags" where
  "parse_tags is_last typ [] ts = Inr ts"
| "parse_tags is_last typ (x # xs) ts = (let t = trim_space x in
     if t = '''' then parse_tags is_last typ xs ts
     else if t = ''-'' then parse_tags is_last typ xs (ts\<lparr>tg_ignored := True\<rparr>)
     else if t = ''nil'' then parse_tags is_last typ xs (ts\<lparr>tg_nilOK := True\<rparr>)
     else if t = ''tail'' then
       (if \<not> is_last then Inl TailNotLast
        else if \<not> is_slice typ then Inl TailNotSlice
        else parse_tags is_last typ xs (ts\<lparr>tg_tail := True\<rparr>))
     else Inl (UnknownTag t))"

definition parseStructTag :: "bool \<Rightarrow> fld \<Rightarrow> gtype \<Rightarrow> type_error + tags" where
  "parseStructTag is_last f typ = parse_tags is_last typ (go_split (CHR '','') (fd_tag f)) no_tags"

text \<open>The error of generating the decoder and the writer of a type; \<open>structFields\<close> goes through the exported fields that are not ignored.\<close>

fun genTypeInfo :: "gtype \<Rightarrow> type_error option"
  and structFields :: "(fld \<times> gtype) list \<Rightarrow> type_error option" where
  "genTypeInfo (TSlice t) = (if t = TUint 8 then None else genTypeInfo t)"
| "genTypeInfo (TArray n t) = (if t = TUint 8 then None else genTypeInfo t)"
| "genTypeInfo (TStruct fs) = structFields fs"
| "genTypeInfo (TPtr t) = genTypeInfo t"
| "genTypeInfo TOther = Some (NotSerializable TOther)"
| "genTypeInfo TRawValue = None"
| "genTypeInfo TBigIntPtr = None"
| "genTypeInfo TBigInt = None"
| "genTypeInfo (TUint b) = None"
| "genTypeInfo TBool = None"
| "genTypeInfo TString = None"
| "genTypeInfo (TInterface m) = None"
| "structFields [] = None"
| "structFields ((f, t) # fs) =
     (if \<not> fd_exported f then structFields fs
      else (case parseStructTag (fs = []) f t of Inl e \<Rightarrow> Some e
            | Inr ts \<Rightarrow> if tg_ignored ts then structFields fs
                else (case genTypeInfo t of Some e \<Rightarrow> Some e | None \<Rightarrow> structFields fs)))"

section \<open>Encoding\<close>

record listhead =
  lh_offset :: nat
  lh_size :: nat

record encbuf =
  eb_str :: bytes
  eb_lheads :: "listhead list"
  eb_lhsize :: nat

definition eb_reset :: encbuf where
  "eb_reset = \<lparr> eb_str = [], eb_lheads = [], eb_lhsize = 0 \<rparr>"

function intsize :: "u64 \<Rightarrow> nat" where
  "intsize i = (let j = drop_bit 8 i in if j = 0 then 1 else Suc (intsize j))"
  by pat_completeness auto
termination
proof (relation "measure unat", simp)
  fix i j :: u64 assume j: "j = drop_bit 8 i" "j \<noteq> 0"
  have "unat j = unat i div 256" by (simp add: j(1) drop_bit_eq_div unat_div_distrib)
  moreover have "unat j \<noteq> 0" using j(2) by (simp add: unat_eq_0)
  ultimately show "(j, i) \<in> measure unat" by simp
qed

declare intsize.simps [simp del]

definition headsize :: "u64 \<Rightarrow> nat" where
  "headsize sz = (if sz < 56 then 1 else 1 + intsize sz)"

text \<open>The bytes that \<open>putint\<close> writes; their number is its result.\<close>

definition putint :: "u64 \<Rightarrow> bytes" where
  "putint i =
     (if i < 2 ^ 8 then [ucast i]
      else if i < 2 ^ 16 then [ucast (drop_bit 8 i), ucast i]
      else if i < 2 ^ 24 then [ucast (drop_bit 16 i), ucast (drop_bit 8 i), ucast i]
      else if i < 2 ^ 32 then [ucast (drop_bit 24 i), ucast (drop_bit 16 i), ucast (drop_bit 8 i), ucast i]
      else if i < 2 ^ 40 then [ucast (drop_bit 32 i), ucast (drop_bit 24 i), ucast (drop_bit 16 i), ucast (drop_bit 8 i), ucast i]
      else if i < 2 ^ 48 then [ucast (drop_bit 40 i), ucast (drop_bit 32 i), ucast (drop_bit 24 i), ucast (drop_bit 16 i), ucast (drop_bit 8 i), ucast i]
      else if i < 2 ^ 56 then [ucast (drop_bit 48 i), ucast (drop_bit 40 i), ucast (drop_bit 32 i), ucast (drop_bit 24 i), ucast (drop_bit 16 i), ucast (drop_bit 8 i), ucast i]
      else [ucast (drop_bit 56 i), ucast (drop_bit 48 i), ucast (drop_bit 40 i), ucast (drop_bit 32 i), ucast (drop_bit 24 i), ucast (drop_bit 16 i), ucast (drop_bit 8 i), ucast i])"

definition puthead :: "byte \<Rightarrow> byte \<Rightarrow> u64 \<Rightarrow> bytes" where
  "puthead smalltag largetag sz =
     (if sz < 56 then [smalltag + ucast sz]
      else let b = putint sz in (largetag + of_nat (length b)) # b)"

definition lh_encode :: "listhead \<Rightarrow> bytes" where
  "lh_encode head = puthead 0xC0 0xF7 (of_nat (lh_size head))"

definition eb_append :: "bytes \<Rightarrow> encbuf \<Rightarrow> encbuf" where
  "eb_append b w = w\<lparr>eb_str := eb_str w @ b\<rparr>"

definition encodeStringHeader :: "nat \<Rightarrow> encbuf \<Rightarrow> encbuf" where
  "encodeStringHeader sz w =
     (if sz < 56 then eb_append [0x80 + of_nat sz] w
      else let b = putint (of_nat sz) in eb_append ((0xB7 + of_nat (length b)) # b) w)"

definition encodeString :: "bytes \<Rightarrow> encbuf \<Rightarrow> encbuf" where
  "encodeString b w =
     (if length b = 1 \<and> hd b \<le> 0x7F then eb_append [hd b] w
      else eb_append b (encodeStringHeader (length b) w))"

definition eb_size :: "encbuf \<Rightarrow> nat" where
  "eb_size w = length (eb_str w) + eb_lhsize w"

text \<open>The header of a list is a pointer into the buffer: its index.\<close>

definition eb_list :: "encbuf \<Rightarrow> nat \<times> encbuf" where
  "eb_list w = (length (eb_lheads w), w\<lparr>eb_lheads := eb_lheads w @ [\<lparr> lh_offset = length (eb_str w), lh_size = eb_lhsize w \<rparr>]\<rparr>)"

definition listEnd :: "nat \<Rightarrow> encbuf \<Rightarrow> encbuf" where
  "listEnd i w = (let lh = eb_lheads w ! i; sz = eb_size w - lh_offset lh - lh_size lh in
     w\<lparr>eb_lheads := (eb_lheads w)[i := lh\<lparr>lh_size := sz\<rparr>],
       eb_lhsize := eb_lhsize w + (if sz < 56 then 1 else 1 + intsize (of_nat sz))\<rparr>)"

text \<open>The output of \<open>toBytes\<close> is allocated with the size of the buffer before it is filled.\<close>

fun put_pieces :: "bytes \<Rightarrow> nat \<Rightarrow> listhead list \<Rightarrow> bytes" where
  "put_pieces str strpos [] = drop strpos str"
| "put_pieces str strpos (head # heads) =
     (let piece = take (lh_offset head - strpos) (drop strpos str) in piece @ lh_encode head @ put_pieces str (strpos + length piece) heads)"

definition toBytes :: "encbuf \<Rightarrow> bytes option" where
  "toBytes w = (let b = put_pieces (eb_str w) 0 (eb_lheads w) in
     if length b \<le> eb_size w then Some (b @ replicate (eb_size w - length b) 0) else None)"

text \<open>The destination of \<open>toWriter\<close> is any \<open>io.Writer\<close>: given its state and the bytes it returns how many it took, whether it failed, and its new state.\<close>

type_synonym 's io_writer = "'s \<Rightarrow> bytes \<Rightarrow> nat \<times> bool \<times> 's"

fun write_pieces :: "'s io_writer \<Rightarrow> bytes \<Rightarrow> nat \<Rightarrow> listhead list \<Rightarrow> 's \<Rightarrow> bool \<times> 's" where
  "write_pieces out str strpos [] st =
     (if strpos < length str then (let (n, err, st1) = out st (drop strpos str) in (err, st1)) else (False, st))"
| "write_pieces out str strpos (head # heads) st =
     (let (strpos1, err, st1) = (if lh_offset head - strpos > 0
            then (let (n, err, st1) = out st (take (lh_offset head - strpos) (drop strpos str)) in (strpos + n, err, st1)) else (strpos, False, st)) in
      if err then (True, st1)
      else let (n, err, st2) = out st1 (lh_encode head) in
        if err then (True, st2) else write_pieces out str strpos1 heads st2)"

definition toWriter :: "'s io_writer \<Rightarrow> encbuf \<Rightarrow> 's \<Rightarrow> bool \<times> 's" where
  "toWriter out w st = write_pieces out (eb_str w) 0 (eb_lheads w) st"

text \<open>The reader of \<open>EncodeToReader\<close>.  A list header beyond the string data would panic.\<close>

record encReader =
  er_buf :: "encbuf option"
  er_lhpos :: nat
  er_strpos :: nat
  er_piece :: "bytes option"

definition er_next :: "encReader \<Rightarrow> (bytes option \<times> encReader) option" where
  "er_next r = (case er_buf r of
       None \<Rightarrow> Some (None, r)
     | Some buf \<Rightarrow>
     (case er_piece r of
       Some p \<Rightarrow> Some (Some p, r)
     | None \<Rightarrow>
     if er_lhpos r < length (eb_lheads buf) then
       (let head = eb_lheads buf ! er_lhpos r in
        if lh_offset head > er_strpos r then
          (if lh_offset head > length (eb_str buf) then None
           else Some (Some (drop (er_strpos r) (take (lh_offset head) (eb_str buf))), r\<lparr>er_strpos := lh_offset head\<rparr>))
        else Some (Some (lh_encode head), r\<lparr>er_lhpos := Suc (er_lhpos r)\<rparr>))
     else if er_strpos r < length (eb_str buf) then Some (Some (drop (er_strpos r) (eb_str buf)), r\<lparr>er_strpos := length (eb_str buf)\<rparr>)
     else Some (None, r)))"

text \<open>What is left to hand out, to bound the loop of \<open>Read\<close>.\<close>

definition er_left :: "encReader \<Rightarrow> nat" where
  "er_left r = (case er_buf r of None \<Rightarrow> 0
     | Some buf \<Rightarrow> (length (eb_lheads buf) - er_lhpos r) + (length (eb_str buf) - er_strpos r) + (case er_piece r of None \<Rightarrow> 0 | Some p \<Rightarrow> 1))"

text \<open>\<open>Read\<close> into a slice of \<open>space\<close> bytes: the bytes copied, whether the end was reached, and the reader.\<close>

function er_Read :: "nat \<Rightarrow> encReader \<Rightarrow> (bytes \<times> bool \<times> encReader) option" where
  "er_Read space r = (case er_next r of None \<Rightarrow> None
     | Some (None, r1) \<Rightarrow> Some ([], True, r1\<lparr>er_piece := None, er_buf := None\<rparr>)
     | Some (Some p, r1) \<Rightarrow>
         if space < length p then Some (take space p, False, r1\<lparr>er_piece := Some (drop space p)\<rparr>)
         else (case er_Read (space - length p) (r1\<lparr>er_piece := None\<rparr>) of None \<Rightarrow> None
               | Some (b, eof, r2) \<Rightarrow> Some (p @ b, eof, r2)))"
  by pat_completeness auto
termination
  by (relation "measure (\<lambda>(space, r). er_left r)")
     (auto simp: er_next_def er_left_def Let_def split: option.splits if_splits)

declare er_Read.simps [simp del]

subsection \<open>The writers\<close>

definition writeUint :: "u64 \<Rightarrow> encbuf \<Rightarrow> encbuf" where
  "writeUint i w =
     (if i = 0 then eb_append [0x80] w
      else if i < 128 then eb_append [ucast i] w
      else let b = putint i in eb_append ((0x80 + of_nat (length b)) # b) w)"

definition writeBool :: "bool \<Rightarrow> encbuf \<Rightarrow> encbuf" where
  "writeBool b w = (if b then eb_append [0x01] w else eb_append [0x80] w)"

definition writeBigInt :: "int \<Rightarrow> encbuf \<Rightarrow> rlp_error + encbuf" where
  "writeBigInt i w = (if i < 0 then Inl ErrNegativeBigInt
     else if i = 0 then Inr (eb_append [0x80] w)
     else Inr (encodeString (big_Bytes (nat i)) w))"

definition writeString :: "bytes \<Rightarrow> encbuf \<Rightarrow> encbuf" where
  "writeString s w =
     (if length s = 1 \<and> hd s \<le> 0x7F then eb_append [hd s] w
      else eb_append s (encodeStringHeader (length s) w))"

text \<open>How many interfaces a value is nested in; only an interface leads to a type that is not part of the type at hand.\<close>

fun ifaces :: "gval \<Rightarrow> nat" where
  "ifaces (VList vs) = sum_list (map ifaces vs)"
| "ifaces (VStruct vs) = sum_list (map ifaces vs)"
| "ifaces (VPtr (Some v)) = ifaces v"
| "ifaces (VIface (Some (t, v))) = Suc (ifaces v)"
| "ifaces v = 0"

lemma ifaces_zero_val [simp]: "ifaces (zero_val t) = 0"
  by (induction t rule: zero_val.induct) (auto simp: sum_list_eq_0_iff)

definition is_byte_array :: "gtype \<Rightarrow> bool" where
  "is_byte_array t \<longleftrightarrow> (case t of TArray n e \<Rightarrow> e = TUint 8 | _ \<Rightarrow> False)"

definition is_struct_or_array :: "gtype \<Rightarrow> bool" where
  "is_struct_or_array t \<longleftrightarrow> (case t of TArray n e \<Rightarrow> True | TStruct fs \<Rightarrow> True | TBigInt \<Rightarrow> True | _ \<Rightarrow> False)"

text \<open>
  The writer of a type, applied to a value of it.  A nil pointer to a struct or an array is written as an empty list, to a byte array as an empty string, and any other
  as the zero value.  \<open>Mistyped\<close> stands for a value that is not of the type, which reflection excludes.
\<close>

function writer :: "gtype \<Rightarrow> tags \<Rightarrow> gval \<Rightarrow> encbuf \<Rightarrow> rlp_error + encbuf"
  and write_elems :: "gtype \<Rightarrow> gval list \<Rightarrow> encbuf \<Rightarrow> rlp_error + encbuf"
  and write_fields :: "(fld \<times> gtype) list \<Rightarrow> gval list \<Rightarrow> encbuf \<Rightarrow> rlp_error + encbuf"
where
  "writer TRawValue ts v w = (case v of VBytes b \<Rightarrow> Inr (eb_append b w) | _ \<Rightarrow> Inl Mistyped)"
| "writer (TInterface m) ts v w =
     (case v of VIface None \<Rightarrow> Inr (eb_append [0xC0] w)
      | VIface (Some (t, u)) \<Rightarrow> (case genTypeInfo t of Some e \<Rightarrow> Inl (ErrType e) | None \<Rightarrow> writer t no_tags u w)
      | _ \<Rightarrow> Inl Mistyped)"
| "writer TBigIntPtr ts v w =
     (case v of VPtr None \<Rightarrow> Inr (eb_append [0x80] w) | VPtr (Some (VBig i)) \<Rightarrow> writeBigInt i w | _ \<Rightarrow> Inl Mistyped)"
| "writer TBigInt ts v w = (case v of VBig i \<Rightarrow> writeBigInt i w | _ \<Rightarrow> Inl Mistyped)"
| "writer (TUint b) ts v w = (case v of VUint i \<Rightarrow> Inr (writeUint i w) | _ \<Rightarrow> Inl Mistyped)"
| "writer TBool ts v w = (case v of VBool b \<Rightarrow> Inr (writeBool b w) | _ \<Rightarrow> Inl Mistyped)"
| "writer TString ts v w = (case v of VBytes s \<Rightarrow> Inr (writeString s w) | _ \<Rightarrow> Inl Mistyped)"
| "writer (TSlice t) ts v w =
     (if t = TUint 8 then (case v of VBytes b \<Rightarrow> Inr (encodeString b w) | _ \<Rightarrow> Inl Mistyped)
      else (case v of VList vs \<Rightarrow>
        if tg_tail ts then write_elems t vs w
        else let (lh, w1) = eb_list w in (case write_elems t vs w1 of Inl e \<Rightarrow> Inl e | Inr w2 \<Rightarrow> Inr (listEnd lh w2))
       | _ \<Rightarrow> Inl Mistyped))"
| "writer (TArray n t) ts v w =
     (if t = TUint 8 then (case v of VBytes b \<Rightarrow> Inr (encodeString b w) | _ \<Rightarrow> Inl Mistyped)
      else (case v of VList vs \<Rightarrow>
        if tg_tail ts then write_elems t vs w
        else let (lh, w1) = eb_list w in (case write_elems t vs w1 of Inl e \<Rightarrow> Inl e | Inr w2 \<Rightarrow> Inr (listEnd lh w2))
       | _ \<Rightarrow> Inl Mistyped))"
| "writer (TStruct fs) ts v w =
     (case v of VStruct vs \<Rightarrow>
        (let (lh, w1) = eb_list w in (case write_fields fs vs w1 of Inl e \<Rightarrow> Inl e | Inr w2 \<Rightarrow> Inr (listEnd lh w2)))
      | _ \<Rightarrow> Inl Mistyped)"
| "writer (TPtr t) ts v w =
     (case v of VPtr None \<Rightarrow>
        (if is_byte_array t then Inr (eb_append [0x80] w)
         else if is_struct_or_array t then (let (lh, w1) = eb_list w in Inr (listEnd lh w1))
         else writer t no_tags (zero_val t) w)
      | VPtr (Some u) \<Rightarrow> writer t no_tags u w
      | _ \<Rightarrow> Inl Mistyped)"
| "writer TOther ts v w = Inl (ErrType (NotSerializable TOther))"
| "write_elems t [] w = Inr w"
| "write_elems t (v # vs) w = (case writer t no_tags v w of Inl e \<Rightarrow> Inl e | Inr w1 \<Rightarrow> write_elems t vs w1)"
| "write_fields [] vs w = Inr w"
| "write_fields ((f, t) # fs) vs w =
     (case vs of [] \<Rightarrow> Inl Mistyped
      | v # vs' \<Rightarrow>
        if \<not> fd_exported f then write_fields fs vs' w
        else (case parseStructTag (fs = []) f t of Inl e \<Rightarrow> Inl (ErrType e)
              | Inr ts \<Rightarrow> if tg_ignored ts then write_fields fs vs' w
                  else (case writer t ts v w of Inl e \<Rightarrow> Inl e | Inr w1 \<Rightarrow> write_fields fs vs' w1)))"
  by pat_completeness auto
termination
  by (relation "measures [
       (\<lambda>x. case x of Inl (t, ts, v, w) \<Rightarrow> ifaces v | Inr (Inl (t, vs, w)) \<Rightarrow> sum_list (map ifaces vs) | Inr (Inr (fs, vs, w)) \<Rightarrow> sum_list (map ifaces vs)),
       (\<lambda>x. case x of Inl (t, ts, v, w) \<Rightarrow> size t | Inr (Inl (t, vs, w)) \<Rightarrow> size t | Inr (Inr (fs, vs, w)) \<Rightarrow> size_list (size_prod (\<lambda>_. 0) size) fs),
       (\<lambda>x. case x of Inl _ \<Rightarrow> 0 | Inr (Inl (t, vs, w)) \<Rightarrow> Suc (length vs) | Inr (Inr _) \<Rightarrow> 0)]")
     auto

definition eb_encode :: "gtype \<Rightarrow> gval \<Rightarrow> encbuf \<Rightarrow> rlp_error + encbuf" where
  "eb_encode t v w = (case genTypeInfo t of Some e \<Rightarrow> Inl (ErrType e) | None \<Rightarrow> writer t no_tags v w)"

definition EncodeToBytes :: "gtype \<Rightarrow> gval \<Rightarrow> (rlp_error + bytes) option" where
  "EncodeToBytes t v = (case eb_encode t v eb_reset of Inl e \<Rightarrow> Some (Inl e) | Inr eb \<Rightarrow> map_option Inr (toBytes eb))"

definition Encode :: "'s io_writer \<Rightarrow> gtype \<Rightarrow> gval \<Rightarrow> 's \<Rightarrow> rlp_error + bool \<times> 's" where
  "Encode out t v st = (case eb_encode t v eb_reset of Inl e \<Rightarrow> Inl e | Inr eb \<Rightarrow> Inr (toWriter out eb st))"

definition EncodeToReader :: "gtype \<Rightarrow> gval \<Rightarrow> rlp_error + nat \<times> encReader" where
  "EncodeToReader t v = (case eb_encode t v eb_reset of Inl e \<Rightarrow> Inl e
     | Inr eb \<Rightarrow> Inr (eb_size eb, \<lparr> er_buf = Some eb, er_lhpos = 0, er_strpos = 0, er_piece = None \<rparr>))"

section \<open>The input stream\<close>

datatype Kind = Byte | String | List

text \<open>\<open>s_kind\<close> is the kind of the value ahead once it has been read, \<open>None\<close> for -1; the innermost list is the head of the stack.\<close>

record Stream =
  s_r :: bytes
  s_remaining :: u64
  s_limited :: bool
  s_kind :: "Kind option"
  s_size :: u64
  s_byteval :: byte
  s_kinderr :: "rlp_error option"
  s_stack :: "(u64 \<times> u64) list"

definition NewStream :: "bytes \<Rightarrow> u64 \<Rightarrow> Stream" where
  "NewStream r inputLimit = \<lparr> s_r = r, s_remaining = (if inputLimit > 0 then inputLimit else of_nat (length r)), s_limited = True,
     s_kind = None, s_size = 0, s_byteval = 0, s_kinderr = None, s_stack = [] \<rparr>"

definition NewListStream :: "bytes \<Rightarrow> u64 \<Rightarrow> Stream" where
  "NewListStream r len = (NewStream r len)\<lparr>s_kind := Some List, s_size := len\<rparr>"

definition willRead :: "u64 \<Rightarrow> Stream \<Rightarrow> rlp_error option \<times> Stream" where
  "willRead n s0 = (let s = s0\<lparr>s_kind := None\<rparr> in
     case s_stack s of
       [] \<Rightarrow> if s_limited s \<and> n > s_remaining s then (Some ErrValueTooLarge, s)
             else (None, if s_limited s then s\<lparr>s_remaining := s_remaining s - n\<rparr> else s)
     | (pos, sz) # rest \<Rightarrow>
         if n > sz - pos then (Some ErrElemTooLarge, s)
         else let s1 = s\<lparr>s_stack := (pos + n, sz) # rest\<rparr> in
           if s_limited s1 \<and> n > s_remaining s1 then (Some ErrValueTooLarge, s1)
           else (None, if s_limited s1 then s1\<lparr>s_remaining := s_remaining s1 - n\<rparr> else s1))"

definition readByte :: "Stream \<Rightarrow> (rlp_error + byte) \<times> Stream" where
  "readByte s = (case willRead 1 s of (Some err, s1) \<Rightarrow> (Inl err, s1)
     | (None, s1) \<Rightarrow> (case s_r s1 of [] \<Rightarrow> (Inl ErrUnexpectedEOF, s1) | b # r \<Rightarrow> (Inr b, s1\<lparr>s_r := r\<rparr>)))"

text \<open>Fills a buffer of the given size; a reader that ends before it has been drained.\<close>

definition readFull :: "u64 \<Rightarrow> Stream \<Rightarrow> (rlp_error + bytes) \<times> Stream" where
  "readFull n s = (case willRead n s of (Some err, s1) \<Rightarrow> (Inl err, s1)
     | (None, s1) \<Rightarrow> if length (s_r s1) < unat n then (Inl ErrUnexpectedEOF, s1\<lparr>s_r := []\<rparr>)
         else (Inr (take (unat n) (s_r s1)), s1\<lparr>s_r := drop (unat n) (s_r s1)\<rparr>))"

text \<open>The integer in the eight bytes of the auxiliary buffer, whose unused front is zero.\<close>

definition be_val :: "bytes \<Rightarrow> u64" where
  "be_val bs = fold (\<lambda>c acc. push_bit 8 acc OR ucast c) bs 0"

text \<open>The callers pass at most eight.\<close>

definition readUint :: "byte \<Rightarrow> Stream \<Rightarrow> (rlp_error + u64) \<times> Stream" where
  "readUint sz s =
     (if sz = 0 then (Inr 0, s\<lparr>s_kind := None\<rparr>)
      else if sz = 1 then (case readByte s of (Inl e, s1) \<Rightarrow> (Inl e, s1) | (Inr b, s1) \<Rightarrow> (Inr (ucast b), s1))
      else (case readFull (ucast sz) s of (Inl e, s1) \<Rightarrow> (Inl e, s1)
            | (Inr bs, s1) \<Rightarrow> if hd bs = 0 then (Inl ErrCanonSize, s1) else (Inr (be_val bs), s1)))"

text \<open>A size that is read ahead of a string or a list.\<close>

definition read_size :: "Kind \<Rightarrow> byte \<Rightarrow> Stream \<Rightarrow> (Kind \<times> u64 \<times> rlp_error option) \<times> Stream" where
  "read_size k n s = (case readUint n s of (Inl e, s1) \<Rightarrow> ((k, 0, Some e), s1)
     | (Inr sz, s1) \<Rightarrow> ((k, sz, if sz < 56 then Some ErrCanonSize else None), s1))"

definition s_readKind :: "Stream \<Rightarrow> (Kind \<times> u64 \<times> rlp_error option) \<times> Stream" where
  "s_readKind s = (case readByte s of
       (Inl err, s1) \<Rightarrow>
         ((Byte, 0, Some (if s_stack s1 = [] \<and> (err = ErrUnexpectedEOF \<or> err = ErrValueTooLarge) then EOF else err)), s1)
     | (Inr b, s1) \<Rightarrow>
         let s2 = s1\<lparr>s_byteval := 0\<rparr> in
         if b < 0x80 then ((Byte, 0, None), s2\<lparr>s_byteval := b\<rparr>)
         else if b < 0xB8 then ((String, ucast (b - 0x80), None), s2)
         else if b < 0xC0 then read_size String (b - 0xB7) s2
         else if b < 0xF8 then ((List, ucast (b - 0xC0), None), s2)
         else read_size List (b - 0xF7) s2)"

text \<open>The error is part of the cached information: it is returned until the kind is read anew.\<close>

definition s_Kind :: "Stream \<Rightarrow> (rlp_error + Kind \<times> u64) \<times> Stream" where
  "s_Kind s = (case s_kind s of
       Some k \<Rightarrow> (case s_kinderr s of Some e \<Rightarrow> Inl e | None \<Rightarrow> Inr (k, s_size s), s)
     | None \<Rightarrow>
         let s0 = s\<lparr>s_kinderr := None\<rparr> in
         if (case s_stack s0 of (pos, sz) # _ \<Rightarrow> pos = sz | [] \<Rightarrow> False) then (Inl EOL, s0)
         else let ((k, sz, err), s1) = s_readKind s0;
                  err1 = (case err of Some e \<Rightarrow> Some e
                          | None \<Rightarrow> (case s_stack s0 of
                              [] \<Rightarrow> if s_limited s1 \<and> sz > s_remaining s1 then Some ErrValueTooLarge else None
                            | _ # _ \<Rightarrow> (case s_stack s1 of (pos, lsz) # _ \<Rightarrow> if sz > lsz - pos then Some ErrElemTooLarge else None | [] \<Rightarrow> None)));
                  s2 = s1\<lparr>s_kind := Some k, s_size := sz, s_kinderr := err1\<rparr>
              in (case err1 of Some e \<Rightarrow> Inl e | None \<Rightarrow> Inr (k, sz), s2))"

definition s_Bytes :: "Stream \<Rightarrow> (rlp_error + bytes) \<times> Stream" where
  "s_Bytes s = (case s_Kind s of (Inl e, s1) \<Rightarrow> (Inl e, s1)
     | (Inr (Byte, sz), s1) \<Rightarrow> (Inr [s_byteval s1], s1\<lparr>s_kind := None\<rparr>)
     | (Inr (String, sz), s1) \<Rightarrow> (case readFull sz s1 of (Inl e, s2) \<Rightarrow> (Inl e, s2)
         | (Inr b, s2) \<Rightarrow> if sz = 1 \<and> hd b < 128 then (Inl ErrCanonSize, s2) else (Inr b, s2))
     | (Inr (List, sz), s1) \<Rightarrow> (Inl ErrExpectedString, s1))"

definition s_Raw :: "Stream \<Rightarrow> (rlp_error + bytes) \<times> Stream" where
  "s_Raw s = (case s_Kind s of (Inl e, s1) \<Rightarrow> (Inl e, s1)
     | (Inr (Byte, sz), s1) \<Rightarrow> (Inr [s_byteval s1], s1\<lparr>s_kind := None\<rparr>)
     | (Inr (k, sz), s1) \<Rightarrow> (case readFull sz s1 of (Inl e, s2) \<Rightarrow> (Inl e, s2)
         | (Inr b, s2) \<Rightarrow> (Inr ((if k = String then puthead 0x80 0xB7 sz else puthead 0xC0 0xF7 sz) @ b), s2)))"

definition s_uint :: "nat \<Rightarrow> Stream \<Rightarrow> (rlp_error + u64) \<times> Stream" where
  "s_uint maxbits s = (case s_Kind s of (Inl e, s1) \<Rightarrow> (Inl e, s1)
     | (Inr (Byte, sz), s1) \<Rightarrow> if s_byteval s1 = 0 then (Inl ErrCanonInt, s1) else (Inr (ucast (s_byteval s1)), s1\<lparr>s_kind := None\<rparr>)
     | (Inr (String, sz), s1) \<Rightarrow>
         if sz > of_nat (maxbits div 8) then (Inl ErrUintOverflow, s1)
         else (case readUint (ucast sz) s1 of
             (Inl e, s2) \<Rightarrow> (Inl (if e = ErrCanonSize then ErrCanonInt else e), s2)
           | (Inr v, s2) \<Rightarrow> if sz > 0 \<and> v < 128 then (Inl ErrCanonSize, s2) else (Inr v, s2))
     | (Inr (List, sz), s1) \<Rightarrow> (Inl ErrExpectedString, s1))"

definition s_Bool :: "Stream \<Rightarrow> (rlp_error + bool) \<times> Stream" where
  "s_Bool s = (case s_uint 8 s of (Inl e, s1) \<Rightarrow> (Inl e, s1)
     | (Inr num, s1) \<Rightarrow> (if num = 0 then Inr False else if num = 1 then Inr True else Inl (ErrInvalidBool num), s1))"

definition s_List :: "Stream \<Rightarrow> (rlp_error + u64) \<times> Stream" where
  "s_List s = (case s_Kind s of (Inl e, s1) \<Rightarrow> (Inl e, s1)
     | (Inr (k, sz), s1) \<Rightarrow> if k \<noteq> List then (Inl ErrExpectedList, s1)
         else (Inr sz, s1\<lparr>s_stack := (0, sz) # s_stack s1, s_kind := None, s_size := 0\<rparr>))"

definition s_ListEnd :: "Stream \<Rightarrow> rlp_error option \<times> Stream" where
  "s_ListEnd s = (case s_stack s of [] \<Rightarrow> (Some ErrNotInList, s)
     | (pos, sz) # rest \<Rightarrow>
         if pos \<noteq> sz then (Some ErrNotAtEOL, s)
         else (None, s\<lparr>s_stack := (case rest of [] \<Rightarrow> [] | (pos1, sz1) # rest1 \<Rightarrow> (pos1 + sz, sz1) # rest1), s_kind := None, s_size := 0\<rparr>))"

section \<open>Decoding\<close>

definition wrapStreamError :: "rlp_error \<Rightarrow> gtype \<Rightarrow> rlp_error" where
  "wrapStreamError err typ = (case err of
       ErrCanonInt \<Rightarrow> DecErr MsgCanonInt typ []
     | ErrCanonSize \<Rightarrow> DecErr MsgCanonSize typ []
     | ErrExpectedList \<Rightarrow> DecErr MsgExpectedList typ []
     | ErrExpectedString \<Rightarrow> DecErr MsgExpectedString typ []
     | ErrUintOverflow \<Rightarrow> DecErr MsgTooLong typ []
     | ErrNotAtEOL \<Rightarrow> DecErr MsgTooMany typ []
     | _ \<Rightarrow> err)"

definition addErrorContext :: "rlp_error \<Rightarrow> err_ctx \<Rightarrow> rlp_error" where
  "addErrorContext err ctx = (case err of DecErr m t cs \<Rightarrow> DecErr m t (cs @ [ctx]) | _ \<Rightarrow> err)"

text \<open>A result of the stream, turned into a value of the type or an error that names it.\<close>

definition dec_with :: "gtype \<Rightarrow> ('a \<Rightarrow> rlp_error + gval) \<Rightarrow> (rlp_error + 'a) \<times> Stream \<Rightarrow> (rlp_error + gval) \<times> Stream" where
  "dec_with typ f res = (case res of (Inl e, s) \<Rightarrow> (Inl (wrapStreamError e typ), s) | (Inr x, s) \<Rightarrow> (f x, s))"

definition big_of_bytes :: "gtype \<Rightarrow> bytes \<Rightarrow> rlp_error + int" where
  "big_of_bytes typ b = (if length b > 0 \<and> hd b = 0 then Inl (wrapStreamError ErrCanonInt typ) else Inr (big_SetBytes b))"

text \<open>For an array of one byte the error of \<open>Uint\<close> is dropped.\<close>

definition decodeByteArray :: "gtype \<Rightarrow> nat \<Rightarrow> Stream \<Rightarrow> (rlp_error + gval) \<times> Stream" where
  "decodeByteArray typ vlen s = (case s_Kind s of (Inl e, s1) \<Rightarrow> (Inl e, s1)
     | (Inr (Byte, sz), s1) \<Rightarrow>
         if vlen = 0 then (Inl (DecErr MsgTooLong typ []), s1)
         else if vlen > 1 then (Inl (DecErr MsgTooShort typ []), s1)
         else (case s_uint 64 s1 of (Inl e, s2) \<Rightarrow> (Inr (VBytes [0]), s2) | (Inr bv, s2) \<Rightarrow> (Inr (VBytes [ucast bv]), s2))
     | (Inr (String, sz), s1) \<Rightarrow>
         if vlen < unat sz then (Inl (DecErr MsgTooLong typ []), s1)
         else if vlen > unat sz then (Inl (DecErr MsgTooShort typ []), s1)
         else (case readFull sz s1 of (Inl e, s2) \<Rightarrow> (Inl e, s2)
               | (Inr b, s2) \<Rightarrow> if sz = 1 \<and> hd b < 128 then (Inl (wrapStreamError ErrCanonSize typ), s2) else (Inr (VBytes b), s2))
     | (Inr (List, sz), s1) \<Rightarrow> (Inl (wrapStreamError ErrExpectedString typ), s1))"

definition list_end :: "(rlp_error \<Rightarrow> rlp_error) \<Rightarrow> gval \<Rightarrow> Stream \<Rightarrow> (rlp_error + gval) \<times> Stream" where
  "list_end wrap v s = (case s_ListEnd s of (Some e, s1) \<Rightarrow> (Inl (wrap e), s1) | (None, s1) \<Rightarrow> (Inr v, s1))"

text \<open>
  The decoder of a type.  The loop over the elements of a slice ends when the stream reports the end of the list, so it and the nesting of interfaces take fuel; \<open>None\<close>
  is a decoder that has not returned.  \<open>slice_elems\<close> is \<open>decodeSliceElems\<close> and \<open>list_slice\<close> is \<open>decodeListSlice\<close>; \<open>array_elems\<close> and \<open>dec_fields\<close> are the loops of
  \<open>decodeListArray\<close> and of the struct decoder.
\<close>

function (sequential) decode :: "nat \<Rightarrow> gtype \<Rightarrow> tags \<Rightarrow> Stream \<Rightarrow> ((rlp_error + gval) \<times> Stream) option"
  and slice_elems :: "nat \<Rightarrow> gtype \<Rightarrow> nat \<Rightarrow> gval list \<Rightarrow> Stream \<Rightarrow> ((rlp_error + gval list) \<times> Stream) option"
  and list_slice :: "nat \<Rightarrow> gtype \<Rightarrow> Stream \<Rightarrow> ((rlp_error + gval) \<times> Stream) option"
  and array_elems :: "nat \<Rightarrow> gtype \<Rightarrow> nat \<Rightarrow> nat \<Rightarrow> Stream \<Rightarrow> ((rlp_error + gval list) \<times> Stream) option"
  and dec_fields :: "nat \<Rightarrow> (fld \<times> gtype) list \<Rightarrow> Stream \<Rightarrow> ((rlp_error + gval list) \<times> Stream) option"
where
  "decode n TRawValue ts s = Some (case s_Raw s of (Inl e, s1) \<Rightarrow> (Inl e, s1) | (Inr b, s1) \<Rightarrow> (Inr (VBytes b), s1))"
| "decode n TBigIntPtr ts s = Some (dec_with TBigIntPtr (\<lambda>b. map_sum id (\<lambda>i. VPtr (Some (VBig i))) (big_of_bytes TBigIntPtr b)) (s_Bytes s))"
| "decode n TBigInt ts s = Some (dec_with TBigIntPtr (\<lambda>b. map_sum id VBig (big_of_bytes TBigIntPtr b)) (s_Bytes s))"
| "decode n (TUint b) ts s = Some (dec_with (TUint b) (\<lambda>num. Inr (VUint num)) (s_uint b s))"
| "decode n TBool ts s = Some (dec_with TBool (\<lambda>b. Inr (VBool b)) (s_Bool s))"
| "decode n TString ts s = Some (dec_with TString (\<lambda>b. Inr (VBytes b)) (s_Bytes s))"
| "decode n (TSlice t) ts s =
     (if t = TUint 8 then Some (dec_with (TSlice t) (\<lambda>b. Inr (VBytes b)) (s_Bytes s))
      else if tg_tail ts then map_option (\<lambda>(r, s1). (map_sum id VList r, s1)) (slice_elems n t 0 [] s)
      else list_slice n t s)"
| "decode n (TArray k t) ts s =
     (if t = TUint 8 then Some (decodeByteArray (TArray k t) k s)
      else (case s_List s of (Inl e, s1) \<Rightarrow> Some (Inl (wrapStreamError e (TArray k t)), s1)
            | (Inr _, s1) \<Rightarrow> (case array_elems n t k 0 s1 of None \<Rightarrow> None
                | Some (Inl e, s2) \<Rightarrow> Some (Inl (if e = EOL then DecErr MsgTooFew (TArray k t) [] else e), s2)
                | Some (Inr vs, s2) \<Rightarrow> Some (list_end (\<lambda>e. wrapStreamError e (TArray k t)) (VList vs) s2))))"
| "decode n (TStruct fs) ts s =
     (case s_List s of (Inl e, s1) \<Rightarrow> Some (Inl (wrapStreamError e (TStruct fs)), s1)
      | (Inr _, s1) \<Rightarrow> (case dec_fields n fs s1 of None \<Rightarrow> None
          | Some (Inl e, s2) \<Rightarrow> Some (Inl (if e = EOL then DecErr MsgTooFew (TStruct fs) [] else e), s2)
          | Some (Inr vs, s2) \<Rightarrow> Some (list_end (\<lambda>e. wrapStreamError e (TStruct fs)) (VStruct vs) s2)))"
| "decode n (TPtr t) ts s =
     (if tg_nilOK ts then
        (case s_Kind s of (Inl e, s1) \<Rightarrow> Some (Inl e, s1\<lparr>s_kind := None\<rparr>)
         | (Inr (k, sz), s1) \<Rightarrow>
             if sz = 0 \<and> k \<noteq> Byte then Some (Inr (VPtr None), s1\<lparr>s_kind := None\<rparr>)
             else map_option (\<lambda>(r, s2). (map_sum id (\<lambda>v. VPtr (Some v)) r, s2)) (decode n t no_tags s1))
      else map_option (\<lambda>(r, s1). (map_sum id (\<lambda>v. VPtr (Some v)) r, s1)) (decode n t no_tags s))"
| "decode n (TInterface m) ts s =
     (if m \<noteq> 0 then Some (Inl (ErrType (NotSerializable (TInterface m))), s)
      else (case s_Kind s of (Inl e, s1) \<Rightarrow> Some (Inl e, s1)
            | (Inr (k, sz), s1) \<Rightarrow>
                if k = List then (case n of 0 \<Rightarrow> None
                  | Suc n' \<Rightarrow> map_option (\<lambda>(r, s2). (map_sum id (\<lambda>v. VIface (Some (TSlice (TInterface 0), v))) r, s2)) (list_slice n' (TInterface 0) s1))
                else Some (case s_Bytes s1 of (Inl e, s2) \<Rightarrow> (Inl e, s2)
                  | (Inr b, s2) \<Rightarrow> (Inr (VIface (Some (TSlice (TUint 8), VBytes b))), s2))))"
| "decode n TOther ts s = Some (Inl (ErrType (NotSerializable TOther)), s)"
| "slice_elems 0 t i acc s = None"
| "slice_elems (Suc n) t i acc s =
     (case decode (Suc n) t no_tags s of None \<Rightarrow> None
      | Some (Inl e, s1) \<Rightarrow> Some (if e = EOL then Inr acc else Inl (addErrorContext e (CtxIndex i)), s1)
      | Some (Inr v, s1) \<Rightarrow> slice_elems n t (Suc i) (acc @ [v]) s1)"
| "list_slice n t s =
     (case s_List s of (Inl e, s1) \<Rightarrow> Some (Inl (wrapStreamError e (TSlice t)), s1)
      | (Inr sz, s1) \<Rightarrow>
          if sz = 0 then Some (list_end id (VList []) s1)
          else (case slice_elems n t 0 [] s1 of None \<Rightarrow> None
            | Some (Inl e, s2) \<Rightarrow> Some (Inl e, s2)
            | Some (Inr vs, s2) \<Rightarrow> Some (list_end id (VList vs) s2)))"
| "array_elems n t 0 i s = Some (Inr [], s)"
| "array_elems n t (Suc k) i s =
     (case decode n t no_tags s of None \<Rightarrow> None
      | Some (Inl e, s1) \<Rightarrow> Some (Inl (if e = EOL then EOL else addErrorContext e (CtxIndex i)), s1)
      | Some (Inr v, s1) \<Rightarrow> map_option (\<lambda>(r, s2). (map_sum id (\<lambda>vs. v # vs) r, s2)) (array_elems n t k (Suc i) s1))"
| "dec_fields n [] s = Some (Inr [], s)"
| "dec_fields n ((f, t) # fs) s =
     (if \<not> fd_exported f then map_option (\<lambda>(r, s1). (map_sum id (\<lambda>vs. zero_val t # vs) r, s1)) (dec_fields n fs s)
      else (case parseStructTag (fs = []) f t of Inl e \<Rightarrow> Some (Inl (ErrType e), s)
            | Inr ts \<Rightarrow>
              if tg_ignored ts then map_option (\<lambda>(r, s1). (map_sum id (\<lambda>vs. zero_val t # vs) r, s1)) (dec_fields n fs s)
              else (case decode n t ts s of None \<Rightarrow> None
                | Some (Inl e, s1) \<Rightarrow> Some (Inl (if e = EOL then EOL else addErrorContext e (CtxField (fd_Name f))), s1)
                | Some (Inr v, s1) \<Rightarrow> map_option (\<lambda>(r, s2). (map_sum id (\<lambda>vs. v # vs) r, s2)) (dec_fields n fs s1))))"
  by pat_completeness auto
termination
  by (relation "measures [
       (\<lambda>x. case x of Inl (Inl (n, t, ts, s)) \<Rightarrow> n | Inl (Inr (n, t, i, acc, s)) \<Rightarrow> n | Inr (Inl (n, t, s)) \<Rightarrow> n | Inr (Inr (Inl (n, t, k, i, s))) \<Rightarrow> n
          | Inr (Inr (Inr (n, fs, s))) \<Rightarrow> n),
       (\<lambda>x. case x of Inl (Inl (n, t, ts, s)) \<Rightarrow> 3 * size t | Inl (Inr (n, t, i, acc, s)) \<Rightarrow> 3 * size t + 1 | Inr (Inl (n, t, s)) \<Rightarrow> 3 * size t + 2
          | Inr (Inr (Inl (n, t, k, i, s))) \<Rightarrow> 3 * size t + 1 | Inr (Inr (Inr (n, fs, s))) \<Rightarrow> 3 * size_list (size_prod (\<lambda>_. 0) size) fs),
       (\<lambda>x. case x of Inr (Inr (Inl (n, t, k, i, s))) \<Rightarrow> k | _ \<Rightarrow> 0)]")
     auto

text \<open>\<open>Stream.Decode\<close> into a fresh value of the type.\<close>

definition s_Decode :: "nat \<Rightarrow> gtype \<Rightarrow> Stream \<Rightarrow> ((rlp_error + gval) \<times> Stream) option" where
  "s_Decode n t s = (case genTypeInfo t of Some e \<Rightarrow> Some (Inl (ErrType e), s)
     | None \<Rightarrow> map_option (\<lambda>(r, s1). (map_sum (\<lambda>e. case e of DecErr m typ (c # cs) \<Rightarrow> DecErr m typ (c # cs @ [CtxTarget t]) | _ \<Rightarrow> e) id r, s1)) (decode n t no_tags s))"

definition DecodeBytes :: "nat \<Rightarrow> bytes \<Rightarrow> gtype \<Rightarrow> (rlp_error + gval) option" where
  "DecodeBytes n b t = map_option (\<lambda>(r, s). case r of Inl e \<Rightarrow> Inl e | Inr v \<Rightarrow> if length (s_r s) > 0 then Inl ErrMoreThanOneValue else Inr v)
     (s_Decode n t (NewStream b (of_nat (length b))))"

section \<open>Raw values\<close>

definition ListSize :: "u64 \<Rightarrow> u64" where
  "ListSize contentSize = of_nat (headsize contentSize) + contentSize"

text \<open>Each case of \<open>readSize\<close> shifts the bytes together; there are one to eight.\<close>

definition readSize :: "bytes \<Rightarrow> byte \<Rightarrow> rlp_error + u64" where
  "readSize b slen =
     (if unat slen > length b then Inl ErrUnexpectedEOF
      else let s = be_val (take (unat slen) b) in if s < 56 \<or> hd b = 0 then Inl ErrCanonSize else Inr s)"

definition readKind :: "bytes \<Rightarrow> rlp_error + Kind \<times> u64 \<times> u64" where
  "readKind buf = (case buf of [] \<Rightarrow> Inl ErrUnexpectedEOF
     | b # rest \<Rightarrow>
       let check = (\<lambda>(k, tagsize, contentsize). if contentsize > of_nat (length buf) - tagsize then Inl ErrValueTooLarge else Inr (k, tagsize, contentsize)) in
       if b < 0x80 then check (Byte, 0, 1)
       else if b < 0xB8 then
         (if ucast (b - 0x80) = (1 :: u64) \<and> length buf > 1 \<and> hd rest < 128 then Inl ErrCanonSize else check (String, 1, ucast (b - 0x80)))
       else if b < 0xC0 then (case readSize rest (b - 0xB7) of Inl e \<Rightarrow> Inl e | Inr contentsize \<Rightarrow> check (String, ucast (b - 0xB7) + 1, contentsize))
       else if b < 0xF8 then check (List, 1, ucast (b - 0xC0))
       else (case readSize rest (b - 0xF7) of Inl e \<Rightarrow> Inl e | Inr contentsize \<Rightarrow> check (List, ucast (b - 0xF7) + 1, contentsize)))"

text \<open>A slice expression out of range would panic.\<close>

definition go_slice :: "bytes \<Rightarrow> u64 \<Rightarrow> u64 \<Rightarrow> bytes option" where
  "go_slice b lo hi = (if lo \<le> hi \<and> unat hi \<le> length b then Some (drop (unat lo) (take (unat hi) b)) else None)"

definition Split :: "bytes \<Rightarrow> (rlp_error + Kind \<times> bytes \<times> bytes) option" where
  "Split b = (case readKind b of Inl e \<Rightarrow> Some (Inl e)
     | Inr (k, ts, cs) \<Rightarrow> (case (go_slice b ts (ts + cs), go_slice b (ts + cs) (of_nat (length b))) of
         (Some content, Some rest) \<Rightarrow> Some (Inr (k, content, rest)) | _ \<Rightarrow> None))"

definition SplitString :: "bytes \<Rightarrow> (rlp_error + bytes \<times> bytes) option" where
  "SplitString b = map_option (\<lambda>r. case r of Inl e \<Rightarrow> Inl e
     | Inr (k, content, rest) \<Rightarrow> if k = List then Inl ErrExpectedString else Inr (content, rest)) (Split b)"

definition SplitList :: "bytes \<Rightarrow> (rlp_error + bytes \<times> bytes) option" where
  "SplitList b = map_option (\<lambda>r. case r of Inl e \<Rightarrow> Inl e
     | Inr (k, content, rest) \<Rightarrow> if k \<noteq> List then Inl ErrExpectedList else Inr (content, rest)) (Split b)"

text \<open>The loop of \<open>CountValues\<close>; a value takes at least one byte, but that needs a proof, so the loop takes fuel.\<close>

fun count_loop :: "nat \<Rightarrow> nat \<Rightarrow> bytes \<Rightarrow> (rlp_error + nat) option" where
  "count_loop 0 i b = None"
| "count_loop (Suc n) i b =
     (if b = [] then Some (Inr i)
      else (case readKind b of Inl e \<Rightarrow> Some (Inl e)
            | Inr (k, tagsize, sz) \<Rightarrow> (case go_slice b (tagsize + sz) (of_nat (length b)) of None \<Rightarrow> None | Some rest \<Rightarrow> count_loop n (Suc i) rest)))"

definition CountValues :: "nat \<Rightarrow> bytes \<Rightarrow> (rlp_error + nat) option" where
  "CountValues n b = count_loop n 0 b"

end
