(* ===== verification/Rlp_Enc.thy ===== *)
theory Rlp_Enc
  imports Rlp
begin

text \<open>
  The writers of \<open>Rlp\<close> against the definition of the encoding.  The reference \<open>enc\<close> is compositional: a string or a list is its header and its content.  The buffer of
  the code keeps the headers apart and merges them at the end; \<open>emits\<close> relates the two, and the three ways of output (bytes, writer, reader) are shown to agree.
\<close>

section \<open>The reference encoding\<close>

definition rlp_str :: "bytes \<Rightarrow> bytes" where
  "rlp_str b = (if length b = 1 \<and> hd b < 0x80 then b else puthead 0x80 0xB7 (of_nat (length b)) @ b)"

definition rlp_lst :: "bytes \<Rightarrow> bytes" where
  "rlp_lst p = puthead 0xC0 0xF7 (of_nat (length p)) @ p"

function enc :: "gtype \<Rightarrow> tags \<Rightarrow> gval \<Rightarrow> bytes" and enc_elems :: "gtype \<Rightarrow> gval list \<Rightarrow> bytes" and enc_fields :: "(fld \<times> gtype) list \<Rightarrow> gval list \<Rightarrow> bytes" where
  "enc TRawValue ts v = (case v of VBytes b \<Rightarrow> b | _ \<Rightarrow> [])"
| "enc (TInterface m) ts v = (case v of VIface None \<Rightarrow> rlp_lst [] | VIface (Some (t, u)) \<Rightarrow> enc t no_tags u | _ \<Rightarrow> [])"
| "enc TBigIntPtr ts v = (case v of VPtr None \<Rightarrow> rlp_str [] | VPtr (Some (VBig i)) \<Rightarrow> rlp_str (big_Bytes (nat i)) | _ \<Rightarrow> [])"
| "enc TBigInt ts v = (case v of VBig i \<Rightarrow> rlp_str (big_Bytes (nat i)) | _ \<Rightarrow> [])"
| "enc (TUint b) ts v = (case v of VUint i \<Rightarrow> rlp_str (big_Bytes (unat i)) | _ \<Rightarrow> [])"
| "enc TBool ts v = (case v of VBool b \<Rightarrow> rlp_str (if b then [1] else []) | _ \<Rightarrow> [])"
| "enc TString ts v = (case v of VBytes s \<Rightarrow> rlp_str s | _ \<Rightarrow> [])"
| "enc (TSlice t) ts v =
     (if t = TUint 8 then (case v of VBytes b \<Rightarrow> rlp_str b | _ \<Rightarrow> [])
      else (case v of VList vs \<Rightarrow> if tg_tail ts then enc_elems t vs else rlp_lst (enc_elems t vs) | _ \<Rightarrow> []))"
| "enc (TArray n t) ts v =
     (if t = TUint 8 then (case v of VBytes b \<Rightarrow> rlp_str b | _ \<Rightarrow> [])
      else (case v of VList vs \<Rightarrow> if tg_tail ts then enc_elems t vs else rlp_lst (enc_elems t vs) | _ \<Rightarrow> []))"
| "enc (TStruct fs) ts v = (case v of VStruct vs \<Rightarrow> rlp_lst (enc_fields fs vs) | _ \<Rightarrow> [])"
| "enc (TPtr t) ts v =
     (case v of VPtr None \<Rightarrow> (if is_byte_array t then rlp_str [] else if is_struct_or_array t then rlp_lst [] else enc t no_tags (zero_val t))
      | VPtr (Some u) \<Rightarrow> enc t no_tags u
      | _ \<Rightarrow> [])"
| "enc TOther ts v = []"
| "enc_elems t [] = []"
| "enc_elems t (v # vs) = enc t no_tags v @ enc_elems t vs"
| "enc_fields [] vs = []"
| "enc_fields ((f, t) # fs) vs =
     (case vs of [] \<Rightarrow> []
      | v # vs' \<Rightarrow>
        if \<not> fd_exported f then enc_fields fs vs'
        else (case parseStructTag (fs = []) f t of Inl e \<Rightarrow> []
              | Inr ts \<Rightarrow> if tg_ignored ts then enc_fields fs vs' else enc t ts v @ enc_fields fs vs'))"
  by pat_completeness auto
termination
  by (relation "measures [
       (\<lambda>x. case x of Inl (t, ts, v) \<Rightarrow> ifaces v | Inr (Inl (t, vs)) \<Rightarrow> sum_list (map ifaces vs) | Inr (Inr (fs, vs)) \<Rightarrow> sum_list (map ifaces vs)),
       (\<lambda>x. case x of Inl (t, ts, v) \<Rightarrow> size t | Inr (Inl (t, vs)) \<Rightarrow> size t | Inr (Inr (fs, vs)) \<Rightarrow> size_list (size_prod (\<lambda>_. 0) size) fs),
       (\<lambda>x. case x of Inl _ \<Rightarrow> 0 | Inr (Inl (t, vs)) \<Rightarrow> Suc (length vs) | Inr (Inr _) \<Rightarrow> 0)]")
     auto

section \<open>Integers\<close>

lemma big_Bytes_0 [simp]: "big_Bytes 0 = []"
  by (simp add: big_Bytes.simps)

lemma big_Bytes_step: "n \<noteq> 0 \<Longrightarrow> big_Bytes n = big_Bytes (n div 256) @ [of_nat n]"
  using big_Bytes.simps [of n] by (simp add: word_of_nat_eq_iff take_bit_eq_mod)

lemma big_Bytes_eq_Nil [simp]: "big_Bytes n = [] \<longleftrightarrow> n = 0"
  by (cases "n = 0") (simp_all add: big_Bytes_step)

lemma big_Bytes_digits:
  assumes "256 ^ k \<le> n" "n < 256 ^ Suc k"
  shows "big_Bytes n = map (\<lambda>j. of_nat (n div 256 ^ j)) (rev [0..<Suc k])"
  using assms
proof (induction k arbitrary: n)
  case 0
  then show ?case by (simp add: big_Bytes_step)
next
  case (Suc k)
  have n: "n \<noteq> 0" "256 ^ k \<le> n div 256" "n div 256 < 256 ^ Suc k"
    using Suc.prems by (auto simp: less_mult_imp_div_less mult.commute div_le_mono [of "256 ^ Suc k" n 256, simplified])
  have "rev [0..<Suc (Suc k)] = map Suc (rev [0..<Suc k]) @ [0]" by (simp add: upt_conv_Cons [of 0 "Suc (Suc k)"] map_Suc_upt flip: rev_map del: upt_Suc)
  moreover have "n div 256 div 256 ^ j = n div 256 ^ Suc j" for j by (simp add: div_mult2_eq)
  ultimately show ?case using Suc.IH [OF n(2,3)] n(1) by (simp add: big_Bytes_step del: upt_Suc)
qed

lemma unat_lt64: "unat (i :: u64) < 2 ^ 64"
  using unsigned_less [of i] by simp

lemma ucast_drop_bit: "ucast (drop_bit (8 * j) (i :: u64)) = (of_nat (unat i div 256 ^ j) :: byte)"
proof -
  have "ucast (drop_bit (8 * j) i) = (of_nat (unat (drop_bit (8 * j) i)) :: byte)" by (simp only: of_nat_unat)
  moreover have "unat (drop_bit (8 * j) i) = unat i div 2 ^ (8 * j)" using unat_drop_bit_eq [of "8 * j" i] by (simp only: drop_bit_eq_div [of _ "unat i"])
  ultimately show ?thesis by (simp add: power_mult)
qed

text \<open>\<open>putint\<close> writes the digits of its argument to the base 256.\<close>

lemma putint_big:
  assumes "i \<noteq> 0"
  shows "putint i = big_Bytes (unat i)"
proof -
  have d: "unat i < 256 ^ 8" using unat_lt64 [of i] by simp
  have n: "unat i \<noteq> 0" using assms by (simp add: unat_eq_0)
  note D = big_Bytes_digits [of _ "unat i"] and U = ucast_drop_bit [of _ i]
  consider "unat i < 256 ^ 1" | "256 ^ 1 \<le> unat i" "unat i < 256 ^ 2" | "256 ^ 2 \<le> unat i" "unat i < 256 ^ 3" | "256 ^ 3 \<le> unat i" "unat i < 256 ^ 4"
    | "256 ^ 4 \<le> unat i" "unat i < 256 ^ 5" | "256 ^ 5 \<le> unat i" "unat i < 256 ^ 6" | "256 ^ 6 \<le> unat i" "unat i < 256 ^ 7" | "256 ^ 7 \<le> unat i"
    by linarith
  then show ?thesis
    using n d D [of 0] D [of 1] D [of 2] D [of 3] D [of 4] D [of 5] D [of 6] D [of 7] U [of 0] U [of 1] U [of 2] U [of 3] U [of 4] U [of 5] U [of 6] U [of 7]
    by cases (simp_all add: putint_def word_less_nat_alt upt_rec)
qed

lemma putint_0: "putint 0 = [0]"
  by (simp add: putint_def)

lemma intsize_length: "i \<noteq> 0 \<Longrightarrow> intsize i = length (big_Bytes (unat i))"
proof (induction i rule: intsize.induct)
  case (1 i)
  have n: "unat (drop_bit 8 i) = unat i div 256" by (simp add: drop_bit_eq_div unat_div_distrib)
  have "unat i \<noteq> 0" using "1.prems" by (simp add: unat_eq_0)
  with 1 n show ?case
    using intsize.simps [of i] by (cases "drop_bit 8 i = 0") (simp_all add: Let_def big_Bytes_step [of "unat i"])
qed

lemma length_puthead: "length (puthead a b sz) = headsize sz"
proof (cases "sz < 56")
  case False
  then have "sz \<noteq> 0" by auto
  then show ?thesis using False by (simp add: puthead_def headsize_def putint_big intsize_length Let_def)
qed (simp add: puthead_def headsize_def)

lemma of_nat_lt56: "n < 2 ^ 64 \<Longrightarrow> (of_nat n :: u64) < 56 \<longleftrightarrow> n < 56"
  by (simp add: word_less_nat_alt unat_of_nat)

lemma byte_le127: "((b :: byte) \<le> 0x7F) = (b < 0x80)"
  by (auto simp: word_le_nat_alt word_less_nat_alt)

lemma lt_ucast: "x < 56 \<Longrightarrow> (ucast (of_nat x :: u64) :: byte) = of_nat x"
  by (simp add: word_unat_eq_iff unat_of_nat unsigned_ucast_eq take_bit_eq_mod)

section \<open>The buffer\<close>

lemma eb_append_append: "eb_append c (eb_append b w) = eb_append (b @ c) w"
  by (simp add: eb_append_def)

lemma encodeStringHeader_eq: "n < 2 ^ 64 \<Longrightarrow> encodeStringHeader n w = eb_append (puthead 0x80 0xB7 (of_nat n)) w"
  by (auto simp: encodeStringHeader_def puthead_def of_nat_lt56 lt_ucast Let_def)

lemma encodeString_eq: "length b < 2 ^ 64 \<Longrightarrow> encodeString b w = eb_append (rlp_str b) w"
  by (cases b) (auto simp: encodeString_def rlp_str_def byte_le127 encodeStringHeader_eq eb_append_append)

lemma writeString_eq: "length b < 2 ^ 64 \<Longrightarrow> writeString b w = eb_append (rlp_str b) w"
  using encodeString_eq by (simp add: writeString_def encodeString_def)

lemma rlp_str_Nil: "rlp_str [] = [0x80]"
  by (simp add: rlp_str_def puthead_def)

lemma rlp_lst_Nil: "rlp_lst [] = [0xC0]"
  by (simp add: rlp_lst_def puthead_def)

lemma length_big_Bytes: "n < 256 ^ k \<Longrightarrow> length (big_Bytes n) \<le> k"
proof (induction k arbitrary: n)
  case (Suc k)
  then have "n div 256 < 256 ^ k" by (simp add: less_mult_imp_div_less mult.commute)
  then show ?case using Suc.IH [of "n div 256"] by (cases "n = 0") (simp_all add: big_Bytes_step)
qed simp

lemma length_big_u64: "length (big_Bytes (unat (i :: u64))) \<le> 8"
  using unat_lt64 [of i] by (intro length_big_Bytes) simp

lemma writeUint_eq: "writeUint i w = eb_append (rlp_str (big_Bytes (unat i))) w"
proof (cases "i = 0")
  case False
  define b where "b = big_Bytes (unat i)"
  have b: "b \<noteq> []" "length b \<le> 8" "putint i = b" using False length_big_u64 [of i] by (simp_all add: b_def putint_big unat_eq_0)
  have u: "unat i \<noteq> 0" using False by (simp add: unat_eq_0)
  show ?thesis
  proof (cases "i < 128")
    case True
    then have n: "unat i < 128" by (simp add: word_less_nat_alt)
    then have "b = [of_nat (unat i)]" using u by (simp add: b_def big_Bytes_step)
    moreover have "(of_nat (unat i) :: byte) < 0x80" using n by (simp add: word_less_nat_alt unat_of_nat del: of_nat_unat)
    ultimately show ?thesis using True False by (simp add: writeUint_def rlp_str_def flip: b_def)
  next
    case big: False
    then have n: "128 \<le> unat i" by (simp add: word_less_nat_alt)
    have "\<not> (length b = 1 \<and> hd b < 0x80)"
    proof
      assume one: "length b = 1 \<and> hd b < 0x80"
      then have "big_Bytes (unat i div 256) = []" using u by (simp add: b_def big_Bytes_step)
      then have "unat i < 256" by simp
      moreover from one have "hd b = of_nat (unat i)" using u by (simp add: b_def big_Bytes_step)
      ultimately show False using one n by (simp add: word_less_nat_alt unat_of_nat del: of_nat_unat)
    qed
    moreover have "of_nat (length b) < (56 :: u64)" using b(2) of_nat_lt56 [of "length b"] by simp
    ultimately show ?thesis using False big b
      by (auto simp: writeUint_def rlp_str_def puthead_def lt_ucast Let_def simp flip: b_def)
  qed
qed (simp add: writeUint_def rlp_str_Nil)

lemma writeBool_eq: "writeBool b w = eb_append (rlp_str (if b then [1] else [])) w"
  by (simp add: writeBool_def rlp_str_Nil) (simp add: rlp_str_def word_less_nat_alt)

lemma writeBigInt_eq: "writeBigInt i w = Inr w' \<Longrightarrow> length (big_Bytes (nat i)) < 2 ^ 64 \<Longrightarrow> w' = eb_append (rlp_str (big_Bytes (nat i))) w"
  by (auto simp: writeBigInt_def rlp_str_Nil encodeString_eq split: if_splits)

lemma put_pieces_skip:
  assumes "p \<le> q" "q \<le> length str" "\<forall>h\<in>set x. q \<le> lh_offset h"
  shows "put_pieces str p x = take (q - p) (drop p str) @ put_pieces str q x"
proof -
  have cut: "take (m - p) (drop p str) = take (q - p) (drop p str) @ take (m - q) (drop q str)" if "q \<le> m" for m
    using assms(1) that take_add [of "q - p" "m - q" "drop p str"] by simp
  show ?thesis
  proof (cases x)
    case Nil
    then show ?thesis using assms(1,2) append_take_drop_id [of "q - p" "drop p str"] by simp
  next
    case (Cons h hs)
    let ?n = "\<lambda>m. length (take (lh_offset h - m) (drop m str))"
    have "q \<le> lh_offset h" using assms(3) Cons by simp
    moreover from this have "p + ?n p = q + ?n q" using assms(1,2) by simp
    ultimately show ?thesis using Cons cut [of "lh_offset h"] by (simp add: Let_def)
  qed
qed

definition head_len :: "listhead list \<Rightarrow> nat" where
  "head_len hs = sum_list (map (\<lambda>h. length (lh_encode h)) hs)"

lemma head_len_simps [simp]: "head_len [] = 0" "head_len (h # hs) = length (lh_encode h) + head_len hs" "head_len (hs @ hs') = head_len hs + head_len hs'"
  by (simp_all add: head_len_def)

text \<open>\<open>w'\<close> is \<open>w\<close> with \<open>bs\<close> written behind it: as string data with list headers that, merged, are \<open>bs\<close>.\<close>

definition emits :: "encbuf \<Rightarrow> encbuf \<Rightarrow> bytes \<Rightarrow> bool" where
  "emits w w' bs \<longleftrightarrow> (\<exists>s hs. w' = w\<lparr>eb_str := eb_str w @ s, eb_lheads := eb_lheads w @ hs, eb_lhsize := eb_lhsize w + head_len hs\<rparr> \<and>
     (\<forall>h\<in>set hs. length (eb_str w) \<le> lh_offset h \<and> lh_offset h \<le> length (eb_str w @ s)) \<and> sorted (map lh_offset hs) \<and> length bs = length s + head_len hs \<and>
     (\<forall>post x. (\<forall>h\<in>set x. length (eb_str w @ s) \<le> lh_offset h) \<longrightarrow>
        put_pieces (eb_str w @ s @ post) (length (eb_str w)) (hs @ x) = bs @ put_pieces (eb_str w @ s @ post) (length (eb_str w @ s)) x))"

lemma emits_append: "emits w (eb_append b w) b"
  unfolding emits_def by (intro exI [of _ b] exI [of _ "[]"]) (auto simp: eb_append_def put_pieces_skip [of "length (eb_str w)" "length (eb_str w) + length b"])

lemma emits_refl: "emits w w []"
  using emits_append [of w "[]"] by (simp add: eb_append_def)

lemma emits_trans:
  assumes "emits w w1 b1" "emits w1 w2 b2"
  shows "emits w w2 (b1 @ b2)"
proof -
  from assms(1) obtain s1 h1 where 1: "w1 = w\<lparr>eb_str := eb_str w @ s1, eb_lheads := eb_lheads w @ h1, eb_lhsize := eb_lhsize w + head_len h1\<rparr>"
    "\<forall>h\<in>set h1. length (eb_str w) \<le> lh_offset h \<and> lh_offset h \<le> length (eb_str w @ s1)" "sorted (map lh_offset h1)" "length b1 = length s1 + head_len h1"
    "\<And>post x. \<forall>h\<in>set x. length (eb_str w @ s1) \<le> lh_offset h \<Longrightarrow>
        put_pieces (eb_str w @ s1 @ post) (length (eb_str w)) (h1 @ x) = b1 @ put_pieces (eb_str w @ s1 @ post) (length (eb_str w @ s1)) x"
    unfolding emits_def by blast
  from assms(2) obtain s2 h2 where 2: "w2 = w1\<lparr>eb_str := eb_str w1 @ s2, eb_lheads := eb_lheads w1 @ h2, eb_lhsize := eb_lhsize w1 + head_len h2\<rparr>"
    "\<forall>h\<in>set h2. length (eb_str w1) \<le> lh_offset h \<and> lh_offset h \<le> length (eb_str w1 @ s2)" "sorted (map lh_offset h2)" "length b2 = length s2 + head_len h2"
    "\<And>post x. \<forall>h\<in>set x. length (eb_str w1 @ s2) \<le> lh_offset h \<Longrightarrow>
        put_pieces (eb_str w1 @ s2 @ post) (length (eb_str w1)) (h2 @ x) = b2 @ put_pieces (eb_str w1 @ s2 @ post) (length (eb_str w1 @ s2)) x"
    unfolding emits_def by blast
  have str: "eb_str w1 = eb_str w @ s1" by (simp add: 1(1))
  have "put_pieces (eb_str w @ (s1 @ s2) @ post) (length (eb_str w)) ((h1 @ h2) @ x)
      = (b1 @ b2) @ put_pieces (eb_str w @ (s1 @ s2) @ post) (length (eb_str w @ s1 @ s2)) x" if "\<forall>h\<in>set x. length (eb_str w @ s1 @ s2) \<le> lh_offset h" for post x
    using 1(5) [of "h2 @ x" "s2 @ post"] 2(5) [of x post] 2(2) that by (force simp: str)
  moreover have "w2 = w\<lparr>eb_str := eb_str w @ (s1 @ s2), eb_lheads := eb_lheads w @ (h1 @ h2), eb_lhsize := eb_lhsize w + head_len (h1 @ h2)\<rparr>" by (simp add: 1(1) 2(1))
  moreover have "\<forall>h\<in>set (h1 @ h2). length (eb_str w) \<le> lh_offset h \<and> lh_offset h \<le> length (eb_str w @ (s1 @ s2))" using 1(2) 2(2) by (auto simp: str)
  moreover have "sorted (map lh_offset (h1 @ h2))" using 1(2,3) 2(2,3) by (force simp: str sorted_append)
  ultimately show ?thesis unfolding emits_def using 1(4) 2(4) by (intro exI [of _ "s1 @ s2"] exI [of _ "h1 @ h2"]) simp
qed

lemma emits_list:
  assumes "emits (snd (eb_list w)) w2 p" "length p < 2 ^ 64"
  shows "emits w (listEnd (fst (eb_list w)) w2) (rlp_lst p)"
proof -
  define h0 where "h0 = \<lparr> lh_offset = length (eb_str w), lh_size = eb_lhsize w \<rparr>"
  from assms(1) obtain s hs where 1: "w2 = w\<lparr>eb_str := eb_str w @ s, eb_lheads := (eb_lheads w @ [h0]) @ hs, eb_lhsize := eb_lhsize w + head_len hs\<rparr>"
    "\<forall>h\<in>set hs. length (eb_str w) \<le> lh_offset h \<and> lh_offset h \<le> length (eb_str w @ s)" "sorted (map lh_offset hs)" "length p = length s + head_len hs"
    "\<And>post x. \<forall>h\<in>set x. length (eb_str w @ s) \<le> lh_offset h \<Longrightarrow>
        put_pieces (eb_str w @ s @ post) (length (eb_str w)) (hs @ x) = p @ put_pieces (eb_str w @ s @ post) (length (eb_str w @ s)) x"
    unfolding emits_def by (auto simp: eb_list_def h0_def)
  define h where "h = \<lparr> lh_offset = length (eb_str w), lh_size = length p \<rparr>"
  have enc: "lh_encode h @ p = rlp_lst p" by (simp add: h_def lh_encode_def rlp_lst_def)
  have len: "length (lh_encode h) = (if length p < 56 then 1 else 1 + intsize (of_nat (length p)))"
    using assms(2) by (simp add: h_def lh_encode_def length_puthead headsize_def of_nat_lt56)
  have "eb_size w2 - lh_offset h0 - lh_size h0 = length p" by (simp add: 1(1,4) eb_size_def h0_def)
  then have "listEnd (fst (eb_list w)) w2 = w\<lparr>eb_str := eb_str w @ s, eb_lheads := eb_lheads w @ (h # hs), eb_lhsize := eb_lhsize w + head_len (h # hs)\<rparr>"
    using len by (simp add: listEnd_def eb_list_def 1(1) h0_def h_def nth_append Let_def)
  moreover have "put_pieces (eb_str w @ s @ post) (length (eb_str w)) ((h # hs) @ x) = rlp_lst p @ put_pieces (eb_str w @ s @ post) (length (eb_str w @ s)) x"
    if "\<forall>h\<in>set x. length (eb_str w @ s) \<le> lh_offset h" for post x
    using 1(5) [OF that, of post] enc by (simp add: h_def Let_def flip: append_assoc)
  moreover have "length (rlp_lst p) = length s + head_len (h # hs)" using enc 1(4) by (metis add.left_commute head_len_simps(2) length_append)
  ultimately show ?thesis unfolding emits_def using 1(2,3)
    by (intro exI [of _ s] exI [of _ "h # hs"]) (auto simp: h_def)
qed

section \<open>The writers\<close>

lemma rlp_str_longer: "length b \<le> length (rlp_str b)"
  by (simp add: rlp_str_def)

lemma rlp_lst_longer: "length p \<le> length (rlp_lst p)"
  by (simp add: rlp_lst_def)

lemma emits_string: "length (rlp_str b) < 2 ^ 64 \<Longrightarrow> emits w (encodeString b w) (rlp_str b)"
  using rlp_str_longer [of b] by (simp add: encodeString_eq emits_append)

lemma emits_writeString: "length (rlp_str b) < 2 ^ 64 \<Longrightarrow> emits w (writeString b w) (rlp_str b)"
  using rlp_str_longer [of b] by (simp add: writeString_eq emits_append)

lemma emits_big: "writeBigInt i w = Inr w' \<Longrightarrow> length (rlp_str (big_Bytes (nat i))) < 2 ^ 64 \<Longrightarrow> emits w w' (rlp_str (big_Bytes (nat i)))"
  using rlp_str_longer [of "big_Bytes (nat i)"] writeBigInt_eq [of i w w'] by (simp add: emits_append)

lemma emits_empty_list: "emits w (listEnd (fst (eb_list w)) (snd (eb_list w))) (rlp_lst [])"
  using emits_list [OF emits_refl] by simp

lemma emits_list_of:
  assumes "(let (lh, w1) = eb_list w in (case write_it w1 of Inl e \<Rightarrow> Inl e | Inr w2 \<Rightarrow> Inr (listEnd lh w2))) = Inr w'"
    "\<And>lh w1 w2. (lh, w1) = eb_list w \<Longrightarrow> write_it w1 = Inr w2 \<Longrightarrow> length p < 2 ^ 64 \<Longrightarrow> emits w1 w2 p" "length (rlp_lst p) < 2 ^ 64"
  shows "emits w w' (rlp_lst p)"
proof -
  have p: "length p < 2 ^ 64" using assms(3) rlp_lst_longer [of p] by simp
  from assms(1) obtain w2 where w2: "write_it (snd (eb_list w)) = Inr w2" "w' = listEnd (fst (eb_list w)) w2"
    by (auto simp: case_prod_beta Let_def split: sum.splits)
  show ?thesis using emits_list [OF assms(2) [OF prod.collapse w2(1) p] p] by (simp add: w2(2))
qed

text \<open>What a writer appends is the encoding of the value, as long as the whole stays within the sizes that a header can hold.\<close>

lemma writer_emits:
  "writer t ts v w = Inr w' \<Longrightarrow> length (enc t ts v) < 2 ^ 64 \<Longrightarrow> emits w w' (enc t ts v)"
  "write_elems t vs w = Inr w' \<Longrightarrow> length (enc_elems t vs) < 2 ^ 64 \<Longrightarrow> emits w w' (enc_elems t vs)"
  "write_fields fs vs w = Inr w' \<Longrightarrow> length (enc_fields fs vs) < 2 ^ 64 \<Longrightarrow> emits w w' (enc_fields fs vs)"
proof (induction t ts v w and t vs w and fs vs w arbitrary: w' and w' and w' rule: writer_write_elems_write_fields.induct)
  case (8 t ts v w)
  show ?case
  proof (cases "t = TUint 8")
    case False
    then obtain vs where v: "v = VList vs" using "8.prems"(1) by (auto split: gval.splits)
    show ?thesis
      using "8.prems" emits_list_of [where write_it = "write_elems t vs", OF _ "8.IH"(2) [OF False v _ refl]] "8.IH"(1) [OF False v] False v
      by (cases "tg_tail ts") simp_all
  qed (use "8.prems" in \<open>auto split: gval.splits simp: emits_string\<close>)
next
  case (9 n t ts v w)
  show ?case
  proof (cases "t = TUint 8")
    case False
    then obtain vs where v: "v = VList vs" using "9.prems"(1) by (auto split: gval.splits)
    show ?thesis
      using "9.prems" emits_list_of [where write_it = "write_elems t vs", OF _ "9.IH"(2) [OF False v _ refl]] "9.IH"(1) [OF False v] False v
      by (cases "tg_tail ts") simp_all
  qed (use "9.prems" in \<open>auto split: gval.splits simp: emits_string\<close>)
next
  case (10 fs ts v w)
  then obtain vs where v: "v = VStruct vs" by (auto split: gval.splits)
  then show ?case using "10.prems" emits_list_of [where write_it = "write_fields fs vs", OF _ "10.IH" [OF v refl]] by simp
next
  case (11 t ts v w)
  then obtain p where "v = VPtr p" by (auto split: gval.splits)
  then show ?case using 11
    by (cases p) (auto simp: emits_append rlp_str_Nil case_prod_beta Let_def emits_empty_list split: if_splits)
next
  case (14 t v vs w)
  then obtain w1 where "writer t no_tags v w = Inr w1" "write_elems t vs w1 = Inr w'" by (auto split: sum.splits)
  then show ?case using "14.IH" "14.prems"(2) emits_trans by fastforce
next
  case (16 f t fs vs w)
  then obtain v vs' where vs: "vs = v # vs'" by (auto split: list.splits)
  show ?case
  proof (cases "fd_exported f")
    case ex: True
    then obtain ts where ts: "parseStructTag (fs = []) f t = Inr ts" using "16.prems"(1) vs by (auto split: sum.splits)
    show ?thesis
    proof (cases "tg_ignored ts")
      case False
      then obtain w1 where w1: "writer t ts v w = Inr w1" "write_fields fs vs' w1 = Inr w'" using "16.prems"(1) vs ex ts by (auto split: sum.splits)
      have len: "length (enc t ts v) < 2 ^ 64" "length (enc_fields fs vs') < 2 ^ 64" using "16.prems"(2) vs ex ts False by simp_all
      then show ?thesis using emits_trans [OF "16.IH"(3) [OF vs _ ts False w1(1)] "16.IH"(4) [OF vs _ ts False w1]] vs ex ts False by simp
    qed (use 16 vs ex ts in simp)
  qed (use 16 vs in simp)
qed (auto split: gval.splits option.splits simp: emits_append emits_refl emits_big emits_writeString rlp_lst_Nil rlp_str_Nil writeUint_eq writeBool_eq)

section \<open>The three outputs\<close>

definition heads_ok :: "encbuf \<Rightarrow> bool" where
  "heads_ok w \<longleftrightarrow> sorted (map lh_offset (eb_lheads w)) \<and> (\<forall>h\<in>set (eb_lheads w). lh_offset h \<le> length (eb_str w))"

lemma eb_encode_correct:
  assumes "eb_encode t v eb_reset = Inr w" "length (enc t no_tags v) < 2 ^ 64"
  shows "put_pieces (eb_str w) 0 (eb_lheads w) = enc t no_tags v" "eb_size w = length (enc t no_tags v)" "heads_ok w"
proof -
  have "emits eb_reset w (enc t no_tags v)" using assms writer_emits(1) by (auto simp: eb_encode_def split: option.splits)
  then obtain s hs where w: "w = \<lparr> eb_str = s, eb_lheads = hs, eb_lhsize = head_len hs \<rparr>" "\<forall>h\<in>set hs. lh_offset h \<le> length s" "sorted (map lh_offset hs)"
    "length (enc t no_tags v) = length s + head_len hs"
    "\<And>post x. \<forall>h\<in>set x. length s \<le> lh_offset h \<Longrightarrow> put_pieces (s @ post) 0 (hs @ x) = enc t no_tags v @ put_pieces (s @ post) (length s) x"
    unfolding emits_def by (auto simp: eb_reset_def)
  show "put_pieces (eb_str w) 0 (eb_lheads w) = enc t no_tags v" using w(5) [of "[]" "[]"] by (simp add: w(1))
  show "eb_size w = length (enc t no_tags v)" "heads_ok w" using w by (simp_all add: eb_size_def heads_ok_def)
qed

lemma EncodeToBytes_correct:
  assumes "eb_encode t v eb_reset = Inr w" "length (enc t no_tags v) < 2 ^ 64"
  shows "EncodeToBytes t v = Some (Inr (enc t no_tags v))"
  using eb_encode_correct [OF assms] assms(1) by (simp add: EncodeToBytes_def toBytes_def)

lemma write_pieces_append:
  "sorted (map lh_offset hs) \<Longrightarrow> \<forall>h\<in>set hs. p \<le> lh_offset h \<and> lh_offset h \<le> length str \<Longrightarrow>
   write_pieces (\<lambda>st b. (length b, False, st @ b)) str p hs st = (False, st @ put_pieces str p hs)"
  by (induction hs arbitrary: p st) (auto simp: Let_def min_absorb2 diff_le_mono)

lemma toWriter_correct: "heads_ok w \<Longrightarrow> toWriter (\<lambda>st b. (length b, False, st @ b)) w st = (False, st @ put_pieces (eb_str w) 0 (eb_lheads w))"
  by (simp add: toWriter_def heads_ok_def write_pieces_append)

text \<open>What a reader still has to hand out.\<close>

definition er_rest :: "encReader \<Rightarrow> bytes" where
  "er_rest r = (case er_buf r of None \<Rightarrow> []
     | Some w \<Rightarrow> (case er_piece r of None \<Rightarrow> [] | Some p \<Rightarrow> p) @ put_pieces (eb_str w) (er_strpos r) (drop (er_lhpos r) (eb_lheads w)))"

definition er_ok :: "encReader \<Rightarrow> bool" where
  "er_ok r \<longleftrightarrow> (case er_buf r of None \<Rightarrow> True | Some w \<Rightarrow> heads_ok w \<and> er_strpos r \<le> length (eb_str w) \<and>
     (\<forall>h\<in>set (drop (er_lhpos r) (eb_lheads w)). er_strpos r \<le> lh_offset h)) \<and> er_piece r \<noteq> Some []"

lemma lh_encode_nonempty [simp]: "lh_encode h \<noteq> []"
  by (simp add: lh_encode_def puthead_def Let_def)

lemma er_next_rest:
  assumes "er_ok r"
  shows "\<exists>p r1. er_next r = Some (p, r1) \<and> er_ok (r1\<lparr>er_piece := None\<rparr>) \<and> er_buf r1 = er_buf r \<and>
    (case p of None \<Rightarrow> er_rest r = [] | Some b \<Rightarrow> b \<noteq> [] \<and> er_rest r = b @ er_rest (r1\<lparr>er_piece := None\<rparr>))"
proof (cases "er_buf r")
  case None
  then show ?thesis using assms by (simp add: er_next_def er_ok_def er_rest_def)
next
  case (Some w)
  show ?thesis
  proof (cases "er_piece r")
    case None
    show ?thesis
    proof (cases "er_lhpos r < length (eb_lheads w)")
      case True
      define h where "h = eb_lheads w ! er_lhpos r"
      have d: "drop (er_lhpos r) (eb_lheads w) = h # drop (Suc (er_lhpos r)) (eb_lheads w)" using True by (simp add: h_def Cons_nth_drop_Suc)
      have h: "h \<in> set (eb_lheads w)" "er_strpos r \<le> lh_offset h" "lh_offset h \<le> length (eb_str w)" using assms Some True d by (auto simp: er_ok_def heads_ok_def h_def)
      have "sorted (map lh_offset (drop (er_lhpos r) (eb_lheads w)))" using assms Some by (simp add: er_ok_def heads_ok_def sorted_wrt_drop flip: drop_map)
      then have "\<forall>x\<in>set (drop (er_lhpos r) (eb_lheads w)). lh_offset h \<le> lh_offset x" by (auto simp: d)
      moreover have "drop (er_strpos r) (take (lh_offset h) (eb_str w)) = take (lh_offset h - er_strpos r) (drop (er_strpos r) (eb_str w))" by (simp add: drop_take)
      ultimately show ?thesis using assms Some None True h put_pieces_skip [of "er_strpos r" "lh_offset h" "eb_str w" "drop (er_lhpos r) (eb_lheads w)"]
        by (cases "lh_offset h > er_strpos r") (auto simp: er_next_def er_ok_def er_rest_def Let_def d simp flip: h_def)
    qed (use assms Some None in \<open>auto simp: er_next_def er_ok_def er_rest_def\<close>)
  qed (use assms Some in \<open>auto simp: er_next_def er_ok_def er_rest_def\<close>)
qed

lemma er_Read_rest:
  "er_ok r \<Longrightarrow> \<exists>eof r1. er_Read k r = Some (take k (er_rest r), eof, r1) \<and> er_ok r1 \<and> er_rest r1 = drop k (er_rest r) \<and> (eof \<longleftrightarrow> length (er_rest r) \<le> k)"
proof (induction k r rule: er_Read.induct)
  case (1 k r)
  from er_next_rest [OF "1.prems"] obtain p r1 where n: "er_next r = Some (p, r1)" "er_ok (r1\<lparr>er_piece := None\<rparr>)" "er_buf r1 = er_buf r"
    "case p of None \<Rightarrow> er_rest r = [] | Some b \<Rightarrow> b \<noteq> [] \<and> er_rest r = b @ er_rest (r1\<lparr>er_piece := None\<rparr>)" by blast
  show ?case
  proof (cases p)
    case None
    then show ?thesis using n by (auto simp: er_Read.simps [of k r] er_ok_def er_rest_def)
  next
    case (Some b)
    show ?thesis
    proof (cases "k < length b")
      case True
      obtain w where "er_buf r1 = Some w" using n Some by (cases "er_buf r") (auto simp: er_next_def)
      then show ?thesis using n Some True by (auto simp: er_Read.simps [of k r] er_ok_def er_rest_def)
    next
      case False
      then show ?thesis using "1.IH" [OF n(1) _ _ False n(2)] n Some by (auto simp: er_Read.simps [of k r])
    qed
  qed
qed

text \<open>The bytes that come out of reads with buffers of the given sizes.\<close>

fun read_all :: "nat list \<Rightarrow> encReader \<Rightarrow> bytes option" where
  "read_all [] r = Some []"
| "read_all (k # ks) r = (case er_Read k r of None \<Rightarrow> None | Some (b, eof, r1) \<Rightarrow> map_option ((@) b) (read_all ks r1))"

lemma read_all_rest: "er_ok r \<Longrightarrow> read_all ks r = Some (take (sum_list ks) (er_rest r))"
proof (induction ks arbitrary: r)
  case (Cons k ks)
  from er_Read_rest [OF Cons.prems, of k] obtain eof r1 where "er_Read k r = Some (take k (er_rest r), eof, r1)" "er_ok r1" "er_rest r1 = drop k (er_rest r)" by blast
  then show ?case using Cons.IH [of r1] by (simp add: take_add)
qed simp

lemma EncodeToReader_correct:
  assumes "eb_encode t v eb_reset = Inr w" "length (enc t no_tags v) < 2 ^ 64"
  shows "\<exists>r. EncodeToReader t v = Inr (length (enc t no_tags v), r) \<and> (\<forall>ks. read_all ks r = Some (take (sum_list ks) (enc t no_tags v)))"
proof -
  let ?r = "\<lparr> er_buf = Some w, er_lhpos = 0, er_strpos = 0, er_piece = None \<rparr>"
  have "er_ok ?r" "er_rest ?r = enc t no_tags v" using eb_encode_correct [OF assms] by (simp_all add: er_ok_def er_rest_def)
  then show ?thesis using assms(1) eb_encode_correct(2) [OF assms] read_all_rest [of ?r] by (simp add: EncodeToReader_def)
qed

end
