(* ===== verification/Rlp_Dec.thy ===== *)
theory Rlp_Dec
  imports Rlp_Enc
begin

text \<open>
  The decoders of \<open>Rlp\<close> against the encoding.  A stream is viewed as its remaining input and the room that is left in each open list; \<open>took s e s'\<close> says that \<open>s'\<close> is
  \<open>s\<close> after the bytes \<open>e\<close>.  What a decoder accepts is exactly the encoding of what it returns, every successful decoder moves ahead, so that decoding ends, and the encoding
  of a value is decoded to it.
\<close>

section \<open>Integers\<close>

definition nat_val :: "bytes \<Rightarrow> nat" where
  "nat_val bs = foldl (\<lambda>acc c. acc * 256 + unat c) 0 bs"

lemma nat_val_simps [simp]: "nat_val [] = 0" "nat_val (bs @ [c]) = nat_val bs * 256 + unat c"
  by (simp_all add: nat_val_def)

lemma unat_byte: "unat (c :: byte) < 256"
  using unsigned_less [of c] by simp

lemma nat_val_less: "nat_val bs < 256 ^ length bs"
proof (induction bs rule: rev_induct)
  case (snoc c bs)
  then have "nat_val bs * 256 + unat c < (nat_val bs + 1) * 256" "(nat_val bs + 1) * 256 \<le> 256 ^ length bs * 256" using unat_byte [of c] by simp_all
  then show ?case by (simp add: mult.commute)
qed simp

lemma nat_val_big_Bytes [simp]: "nat_val (big_Bytes n) = n"
proof (induction n rule: big_Bytes.induct)
  case (1 n)
  then show ?case by (cases "n = 0") (simp_all add: big_Bytes_step unat_of_nat)
qed

lemma nat_val_eq_0: "nat_val bs = 0 \<Longrightarrow> bs = [] \<or> hd bs = 0"
proof (induction bs rule: rev_induct)
  case (snoc c bs)
  then have "nat_val bs = 0" "unat c = 0" by simp_all
  then show ?case using snoc.IH by (cases bs) (simp_all add: unat_eq_0)
qed simp

lemma big_Bytes_nat_val: "bs = [] \<or> hd bs \<noteq> 0 \<Longrightarrow> big_Bytes (nat_val bs) = bs"
proof (induction bs rule: rev_induct)
  case (snoc c bs)
  have c: "unat c < 256" by (rule unat_byte)
  have n: "nat_val bs * 256 + unat c \<noteq> 0"
  proof
    assume "nat_val bs * 256 + unat c = 0"
    then have "nat_val (bs @ [c]) = 0" by simp
    then show False using nat_val_eq_0 snoc.prems by blast
  qed
  have "bs = [] \<or> hd bs \<noteq> 0" using snoc.prems by (cases bs) simp_all
  moreover have "of_nat (nat_val bs * 256 + unat c) = (of_nat (unat c) :: byte)" by (simp only: word_of_nat_eq_iff take_bit_eq_mod) simp
  ultimately show ?case using snoc.IH c n big_Bytes_step [OF n] by simp
qed simp

lemma hd_big_Bytes: "n \<noteq> 0 \<Longrightarrow> hd (big_Bytes n) \<noteq> 0"
proof (induction n rule: big_Bytes.induct)
  case (1 n)
  show ?case
  proof (cases "n div 256 = 0")
    case True
    then show ?thesis using "1.prems" by (auto simp: big_Bytes_step word_unat_eq_iff unat_of_nat)
  next
    case False
    then show ?thesis using "1.IH" "1.prems" big_Bytes_step [OF "1.prems"] by simp
  qed
qed

lemma shift_in: "push_bit 8 (acc :: u64) OR ucast (c :: byte) = acc * 256 + ucast c"
proof -
  have "bit (push_bit 8 acc) k \<Longrightarrow> bit (ucast c :: u64) k \<Longrightarrow> False" for k by (auto simp: bit_simps dest: bit_imp_le_length)
  then have "push_bit 8 acc + ucast c = push_bit 8 acc OR (ucast c :: u64)" by (intro disjunctive_add) auto
  then show ?thesis by (simp add: push_bit_eq_mult mult.commute)
qed

lemma be_val_nat: "be_val bs = of_nat (nat_val bs)"
  unfolding be_val_def by (induction bs rule: rev_induct) (simp_all add: shift_in)

lemma unat_be_val: "length bs \<le> 8 \<Longrightarrow> unat (be_val bs) = nat_val bs"
proof -
  assume "length bs \<le> 8"
  then have "(256 :: nat) ^ length bs \<le> 256 ^ 8" by (rule power_increasing) simp
  with nat_val_less [of bs] have "nat_val bs < 256 ^ 8" by (rule less_le_trans)
  then show ?thesis unfolding be_val_nat unat_of_nat by (intro mod_less) simp
qed

lemma big_SetBytes_nat: "big_SetBytes bs = int (nat_val bs)"
  unfolding big_SetBytes_def by (induction bs rule: rev_induct) simp_all

section \<open>Streams\<close>

text \<open>The room left in each open list once the lists inside it are closed; the positions are kept in machine integers, whose differences \<open>wfp\<close> keeps from wrapping.\<close>

fun netp :: "nat \<Rightarrow> (u64 \<times> u64) list \<Rightarrow> nat list" where
  "netp c [] = []"
| "netp c ((p, z) # rest) = (unat z - unat p - c) # netp (unat z) rest"

fun wfp :: "nat \<Rightarrow> (u64 \<times> u64) list \<Rightarrow> bool" where
  "wfp c [] = True"
| "wfp c ((p, z) # rest) = (unat p + c \<le> unat z \<and> wfp (unat z) rest)"

definition rooms :: "Stream \<Rightarrow> nat list" where
  "rooms s = netp 0 (s_stack s)"

definition sok :: "Stream \<Rightarrow> bool" where
  "sok s \<longleftrightarrow> s_limited s \<and> unat (s_remaining s) = length (s_r s) \<and> wfp 0 (s_stack s)"

fun take_room :: "nat \<Rightarrow> nat list \<Rightarrow> nat list" where
  "take_room n [] = []"
| "take_room n (m # ms) = (m - n) # ms"

fun has_room :: "nat \<Rightarrow> nat list \<Rightarrow> bool" where
  "has_room n [] = True"
| "has_room n (m # ms) = (n \<le> m)"

definition fits :: "nat \<Rightarrow> Stream \<Rightarrow> bool" where
  "fits n s \<longleftrightarrow> n \<le> length (s_r s) \<and> has_room n (rooms s)"

definition took :: "Stream \<Rightarrow> bytes \<Rightarrow> Stream \<Rightarrow> bool" where
  "took s e s' \<longleftrightarrow> sok s' \<and> s_kind s' = None \<and> s_r s = e @ s_r s' \<and> has_room (length e) (rooms s) \<and> rooms s' = take_room (length e) (rooms s)"

lemma sok_updates [simp]:
  "sok (s\<lparr>s_kind := k\<rparr>) = sok s" "sok (s\<lparr>s_size := z\<rparr>) = sok s" "sok (s\<lparr>s_byteval := b\<rparr>) = sok s" "sok (s\<lparr>s_kinderr := e\<rparr>) = sok s"
  by (simp_all add: sok_def)

lemma rooms_updates [simp]:
  "rooms (s\<lparr>s_kind := k\<rparr>) = rooms s" "rooms (s\<lparr>s_size := z\<rparr>) = rooms s" "rooms (s\<lparr>s_byteval := b\<rparr>) = rooms s" "rooms (s\<lparr>s_kinderr := e\<rparr>) = rooms s"
  "rooms (s\<lparr>s_r := r\<rparr>) = rooms s" "rooms (s\<lparr>s_remaining := m\<rparr>) = rooms s"
  by (simp_all add: rooms_def)

lemma fits_updates [simp]:
  "fits n (s\<lparr>s_kind := k\<rparr>) = fits n s" "fits n (s\<lparr>s_size := z\<rparr>) = fits n s" "fits n (s\<lparr>s_byteval := b\<rparr>) = fits n s" "fits n (s\<lparr>s_kinderr := e\<rparr>) = fits n s"
  by (simp_all add: fits_def)

lemma take_room_add [simp]: "take_room n (take_room m rs) = take_room (m + n) rs"
  by (cases rs) simp_all

lemma take_room_0 [simp]: "take_room 0 rs = rs" "has_room 0 rs"
  by (cases rs; simp)+

lemma has_room_add: "has_room m rs \<Longrightarrow> has_room n (take_room m rs) \<longleftrightarrow> has_room (m + n) rs"
  by (cases rs) auto

lemma took_refl: "sok s \<Longrightarrow> s_kind s = None \<Longrightarrow> took s [] s"
  by (simp add: took_def)

lemma took_trans: "took s e s1 \<Longrightarrow> took s1 e' s2 \<Longrightarrow> took s (e @ e') s2"
  by (auto simp: took_def has_room_add)

lemma took_ok: "took s e s1 \<Longrightarrow> sok s1" "took s e s1 \<Longrightarrow> s_kind s1 = None" "took s e s1 \<Longrightarrow> s_r s = e @ s_r s1"
  by (simp_all add: took_def)

lemma took_start [simp]: "took (s\<lparr>s_kind := k\<rparr>) e s1 = took s e s1" "took (s\<lparr>s_byteval := b\<rparr>) e s1 = took s e s1"
    "took (s\<lparr>s_kinderr := x\<rparr>) e s1 = took s e s1" "took (s\<lparr>s_size := z\<rparr>) e s1 = took s e s1"
  by (simp_all add: took_def)

lemma took_end [simp]: "took s e (s1\<lparr>s_byteval := b\<rparr>) = took s e s1" "took s e (s1\<lparr>s_kinderr := x\<rparr>) = took s e s1" "took s e (s1\<lparr>s_size := z\<rparr>) = took s e s1"
  by (simp_all add: took_def)

lemma willRead_fits:
  assumes "sok s" "fits (unat n) s"
  shows "\<exists>s1. willRead n s = (None, s1) \<and> s_r s1 = s_r s \<and> s_limited s1 \<and> unat (s_remaining s1) = length (s_r s) - unat n \<and> wfp 0 (s_stack s1) \<and>
    rooms s1 = take_room (unat n) (rooms s) \<and> s_kind s1 = None \<and> s_byteval s1 = s_byteval s"
proof -
  have r: "\<not> n > s_remaining s" "unat (s_remaining s - n) = length (s_r s) - unat n"
    using assms by (auto simp: sok_def fits_def word_less_nat_alt unat_sub word_le_nat_alt)
  show ?thesis
  proof (cases "s_stack s")
    case Nil
    then show ?thesis using assms r by (simp add: willRead_def sok_def rooms_def)
  next
    case (Cons pz rest)
    obtain p z where pz: "pz = (p, z)" by (cases pz)
    have w: "unat p \<le> unat z" "wfp (unat z) rest" using assms(1) Cons pz by (simp_all add: sok_def)
    have n: "unat n \<le> unat z - unat p" using assms(2) Cons pz by (simp add: fits_def rooms_def)
    have zp: "unat (z - p) = unat z - unat p" using w(1) by (simp add: unat_sub word_le_nat_alt)
    have "unat p + unat n < 2 ^ 64" using n w(1) unat_lt64 [of z] by linarith
    then have pn: "unat (p + n) = unat p + unat n" by (simp add: unat_word_ariths)
    show ?thesis using assms(1) r Cons pz n w zp pn by (simp add: willRead_def sok_def rooms_def word_less_nat_alt Let_def)
  qed
qed

lemma willRead_None:
  assumes "sok s" "willRead n s = (None, s1)"
  shows "fits (unat n) s"
proof (cases "s_stack s")
  case Nil
  then show ?thesis using assms by (auto simp: willRead_def sok_def fits_def rooms_def word_less_nat_alt Let_def split: if_splits)
next
  case (Cons pz rest)
  obtain p z where pz: "pz = (p, z)" by (cases pz)
  have "unat (z - p) = unat z - unat p" using assms(1) Cons pz by (simp add: sok_def unat_sub word_le_nat_alt)
  then show ?thesis using assms Cons pz by (auto simp: willRead_def sok_def fits_def rooms_def word_less_nat_alt Let_def split: if_splits)
qed

lemma willRead_noEOL: "willRead n s = (Some e, s1) \<Longrightarrow> e \<noteq> EOL"
  by (auto simp: willRead_def Let_def split: list.splits if_splits)

lemma readFull_fits:
  assumes "sok s" "fits (unat n) s"
  shows "\<exists>s1. readFull n s = (Inr (take (unat n) (s_r s)), s1) \<and> took s (take (unat n) (s_r s)) s1 \<and> s_byteval s1 = s_byteval s"
proof -
  from willRead_fits [OF assms] obtain s1 where "willRead n s = (None, s1)" "s_r s1 = s_r s" "s_limited s1" "unat (s_remaining s1) = length (s_r s) - unat n" "wfp 0 (s_stack s1)"
    "rooms s1 = take_room (unat n) (rooms s)" "s_kind s1 = None" "s_byteval s1 = s_byteval s" by blast
  then show ?thesis using assms by (simp add: readFull_def fits_def took_def sok_def)
qed

lemma readFull_Inr:
  assumes "sok s" "readFull n s = (Inr b, s1)"
  shows "took s b s1" "length b = unat n" "fits (unat n) s" "s_byteval s1 = s_byteval s"
proof -
  show f: "fits (unat n) s" using assms willRead_None [OF assms(1), of n] by (auto simp: readFull_def split: prod.splits option.splits)
  then show "length b = unat n" "took s b s1" "s_byteval s1 = s_byteval s" using readFull_fits [OF assms(1) f] assms(2) by (auto simp: fits_def)
qed

lemma readFull_noEOL: "readFull n s = (Inl e, s1) \<Longrightarrow> e \<noteq> EOL"
  using willRead_noEOL by (auto simp: readFull_def split: prod.splits option.splits if_splits)

lemma readByte_fits:
  assumes "sok s" "fits 1 s"
  shows "\<exists>s1. readByte s = (Inr (hd (s_r s)), s1) \<and> took s [hd (s_r s)] s1 \<and> s_byteval s1 = s_byteval s"
proof -
  have "fits (unat (1 :: u64)) s" using assms(2) by simp
  from willRead_fits [OF assms(1) this] obtain s1 where "willRead 1 s = (None, s1)" "s_r s1 = s_r s" "s_limited s1" "unat (s_remaining s1) = length (s_r s) - 1" "wfp 0 (s_stack s1)"
    "rooms s1 = take_room 1 (rooms s)" "s_kind s1 = None" "s_byteval s1 = s_byteval s" by auto
  then show ?thesis using assms by (cases "s_r s") (simp_all add: readByte_def fits_def took_def sok_def)
qed

lemma readByte_Inr:
  assumes "sok s" "readByte s = (Inr b, s1)"
  shows "took s [b] s1" "s_byteval s1 = s_byteval s"
proof -
  have "fits 1 s" using assms(2) willRead_None [OF assms(1), of 1] by (auto simp: readByte_def split: prod.splits option.splits)
  then show "took s [b] s1" "s_byteval s1 = s_byteval s" using readByte_fits [OF assms(1)] assms(2) by auto
qed

lemma readByte_noEOL: "readByte s = (Inl e, s1) \<Longrightarrow> e \<noteq> EOL"
  using willRead_noEOL by (auto simp: readByte_def split: prod.splits option.splits list.splits)

subsection \<open>Headers\<close>

lemma unat_ucast_byte: "unat (ucast (b :: byte) :: u64) = unat b"
  using unat_byte [of b] by (simp add: unsigned_ucast_eq take_bit_eq_mod)

lemma ucast_ucast_byte [simp]: "ucast (ucast (b :: byte) :: u64) = b"
  by (rule bit_word_eqI) (simp add: bit_simps)

lemma readUint_Inr:
  assumes "sok s" "readUint sz s = (Inr v, s1)"
  shows "\<exists>bs. took s bs s1 \<and> length bs = unat sz \<and> v = be_val bs \<and> (2 \<le> unat sz \<longrightarrow> hd bs \<noteq> 0) \<and> s_byteval s1 = s_byteval s"
proof -
  consider "sz = 0" | "sz = 1" | "sz \<noteq> 0" "sz \<noteq> 1" by blast
  then show ?thesis
  proof cases
    case 1
    then show ?thesis using assms by (auto simp: readUint_def be_val_def took_def)
  next
    case 2
    then obtain b where b: "readByte s = (Inr b, s1)" "v = ucast b" using assms(2) by (auto simp: readUint_def split: prod.splits sum.splits)
    then show ?thesis using readByte_Inr [OF assms(1) b(1)] 2 by (intro exI [of _ "[b]"]) (simp add: be_val_def)
  next
    case 3
    then obtain bs where b: "readFull (ucast sz) s = (Inr bs, s1)" "v = be_val bs" "hd bs \<noteq> 0"
      using assms(2) by (auto simp: readUint_def split: prod.splits sum.splits if_splits)
    then show ?thesis using readFull_Inr [OF assms(1) b(1)] by (intro exI [of _ bs]) (simp add: unat_ucast_byte)
  qed
qed

lemma readUint_fits:
  assumes "sok s" "fits (unat sz) s" "s_r s = bs @ rest" "length bs = unat sz" "2 \<le> unat sz \<Longrightarrow> hd bs \<noteq> 0"
  shows "\<exists>s1. readUint sz s = (Inr (be_val bs), s1) \<and> took s bs s1 \<and> s_byteval s1 = s_byteval s"
proof -
  consider "sz = 0" | "sz = 1" | "sz \<noteq> 0" "sz \<noteq> 1" by blast
  then show ?thesis
  proof cases
    case 1
    then show ?thesis using assms by (auto simp: readUint_def be_val_def took_def)
  next
    case 2
    then obtain b where "bs = [b]" using assms(4) by (cases bs) auto
    then show ?thesis using readByte_fits [OF assms(1)] 2 assms by (auto simp: readUint_def be_val_def)
  next
    case 3
    then have "2 \<le> unat sz" by (metis One_nat_def less_2_cases not_le unat_1 unat_eq_0 word_unat_eq_iff)
    then show ?thesis using readFull_fits [OF assms(1), of "ucast sz"] 3 assms by (auto simp: readUint_def unat_ucast_byte)
  qed
qed

lemma readUint_noEOL: "readUint n s = (Inl e, s1) \<Longrightarrow> e \<noteq> EOL"
  using readByte_noEOL readFull_noEOL by (auto simp: readUint_def split: if_splits prod.splits sum.splits)

text \<open>The bytes in front of a value of a kind and size; a single byte is its own header.\<close>

definition khead :: "Kind \<Rightarrow> u64 \<Rightarrow> byte \<Rightarrow> bytes" where
  "khead k sz b = (case k of Byte \<Rightarrow> [b] | String \<Rightarrow> puthead 0x80 0xB7 sz | List \<Rightarrow> puthead 0xC0 0xF7 sz)"

definition khead_ok :: "Kind \<Rightarrow> u64 \<Rightarrow> byte \<Rightarrow> bool" where
  "khead_ok k sz b \<longleftrightarrow> (k = Byte \<longrightarrow> b < 0x80 \<and> sz = 0)"

lemma khead_nonempty [simp]: "khead k sz b \<noteq> []"
  by (cases k) (simp_all add: khead_def puthead_def Let_def)

lemma small_head: "unat (b - tag) < 56 \<Longrightarrow> puthead tag largetag (ucast (b - tag)) = [b]"
  by (simp add: puthead_def word_less_nat_alt unat_ucast_byte)

lemma large_head:
  assumes "unat (b - tag) \<le> 8" "length bs = unat (b - tag)" "2 \<le> unat (b - tag) \<longrightarrow> hd bs \<noteq> 0" "\<not> be_val bs < 56"
  shows "puthead smalltag tag (be_val bs) = b # bs"
proof -
  have n: "unat (be_val bs) = nat_val bs" using assms(1,2) by (simp add: unat_be_val)
  have "be_val bs \<noteq> 0" using assms(4) by auto
  have "hd bs \<noteq> 0"
  proof
    assume h: "hd bs = 0"
    then have "length bs = 1 \<or> length bs = 0" using assms(2,3) by linarith
    then have "nat_val bs = 0" using h by (cases bs) (auto simp: nat_val_def)
    then show False using \<open>be_val bs \<noteq> 0\<close> n by (simp add: unat_eq_0)
  qed
  then have "putint (be_val bs) = bs" using n putint_big [OF \<open>be_val bs \<noteq> 0\<close>] big_Bytes_nat_val [of bs] by simp
  moreover have "tag + of_nat (length bs) = b" by (simp add: assms(2))
  ultimately show ?thesis using assms(4) by (simp add: puthead_def Let_def)
qed

lemma read_size_Inr:
  assumes "sok s" "read_size k n s = ((k', sz, None), s1)" "unat n \<le> 8" "n \<noteq> 0"
  shows "\<exists>bs. took s bs s1 \<and> puthead smalltag tag sz = (tag + n) # bs" "k' = k"
proof -
  from assms(2) have r: "readUint n s = (Inr sz, s1)" "\<not> sz < 56" "k' = k" by (auto simp: read_size_def split: prod.splits sum.splits if_splits)
  from readUint_Inr [OF assms(1) r(1)] obtain bs where bs: "took s bs s1" "length bs = unat n" "sz = be_val bs" "2 \<le> unat n \<longrightarrow> hd bs \<noteq> 0" by blast
  have "puthead smalltag tag sz = (tag + n) # bs" unfolding bs(3) using bs r(2) assms(3) by (intro large_head) simp_all
  with bs(1) r(3) show "\<exists>bs. took s bs s1 \<and> puthead smalltag tag sz = (tag + n) # bs" "k' = k" by blast+
qed

lemma s_readKind_Inr:
  assumes "sok s" "s_readKind s = ((k, sz, None), s1)"
  shows "took s (khead k sz (s_byteval s1)) s1" "khead_ok k sz (s_byteval s1)"
proof -
  from assms(2) obtain b s0 where b: "readByte s = (Inr b, s0)" by (auto simp: s_readKind_def split: prod.splits sum.splits)
  define s2 where "s2 = s0\<lparr>s_byteval := 0\<rparr>"
  have t: "took s [b] s2" using readByte_Inr [OF assms(1) b] by (simp add: s2_def)
  have ok: "sok s2" using t by (rule took_ok)
  have big: "took s (puthead st tag sz) s1 \<and> k = k'" if r: "read_size k' (b - tag) s2 = ((k, sz, None), s1)" "unat (b - tag) \<le> 8" "b \<noteq> tag" for k' st tag
  proof -
    have "b - tag \<noteq> 0" using r(3) by simp
    from read_size_Inr [OF ok r(1,2) this] obtain bs where "took s2 bs s1" "puthead st tag sz = (tag + (b - tag)) # bs" "k = k'" by blast
    then show ?thesis using took_trans [OF t, of bs s1] by simp
  qed
  consider "b < 0x80" | "\<not> b < 0x80" "b < 0xB8" | "\<not> b < 0x80" "\<not> b < 0xB8" "b < 0xC0" | "\<not> b < 0x80" "\<not> b < 0xB8" "\<not> b < 0xC0" "b < 0xF8"
    | "\<not> b < 0x80" "\<not> b < 0xB8" "\<not> b < 0xC0" "\<not> b < 0xF8" by blast
  then have "took s (khead k sz (s_byteval s1)) s1 \<and> khead_ok k sz (s_byteval s1)"
  proof cases
    case 1
    then show ?thesis using assms(2) b t by (auto simp: s_readKind_def khead_def khead_ok_def s2_def)
  next
    case 2
    then have "unat (b - 0x80) < 56" by (simp add: unat_sub word_less_nat_alt word_le_nat_alt)
    then show ?thesis using assms(2) b t 2 small_head [of b "0x80"] by (auto simp: s_readKind_def khead_def khead_ok_def s2_def)
  next
    case 3
    then have "unat (b - 0xB7) \<le> 8" "b \<noteq> 0xB7" by (auto simp: unat_sub word_less_nat_alt word_le_nat_alt)
    then show ?thesis using assms(2) b 3 big [where k' = String and tag = "0xB7" and st = "0x80"] by (simp add: s_readKind_def s2_def khead_def khead_ok_def Let_def)
  next
    case 4
    then have "unat (b - 0xC0) < 56" by (simp add: unat_sub word_less_nat_alt word_le_nat_alt)
    then show ?thesis using assms(2) b t 4 small_head [of b "0xC0"] by (auto simp: s_readKind_def khead_def khead_ok_def s2_def)
  next
    case 5
    then have "unat (b - 0xF7) \<le> 8" "b \<noteq> 0xF7" using unat_byte [of b] by (auto simp: unat_sub word_less_nat_alt word_le_nat_alt)
    then show ?thesis using assms(2) b 5 big [where k' = List and tag = "0xF7" and st = "0xC0"] by (simp add: s_readKind_def s2_def khead_def khead_ok_def Let_def)
  qed
  then show "took s (khead k sz (s_byteval s1)) s1" "khead_ok k sz (s_byteval s1)" by simp_all
qed

text \<open>The first byte of a header determines its kind and size.\<close>

lemma length_putint: "\<not> sz < 56 \<Longrightarrow> length (putint sz) \<le> 8 \<and> 0 < length (putint sz)"
  using length_big_u64 [of sz] putint_big [of sz] by (cases "sz = 0") (auto simp: unat_eq_0)

lemma read_size_fits:
  assumes "sok s" "\<not> sz < 56" "s_r s = putint sz @ rest" "fits (length (putint sz)) s"
  shows "\<exists>s1. read_size k (of_nat (length (putint sz))) s = ((k, sz, None), s1) \<and> took s (putint sz) s1"
proof -
  let ?n = "of_nat (length (putint sz)) :: byte"
  have n: "unat ?n = length (putint sz)" using length_putint [OF assms(2)] by (simp add: unat_of_nat)
  have nz: "sz \<noteq> 0" "unat sz \<noteq> 0" using assms(2) by (auto simp: unat_eq_0)
  have "hd (putint sz) \<noteq> 0" using nz hd_big_Bytes by (simp add: putint_big)
  moreover have "be_val (putint sz) = sz" using nz by (simp add: putint_big be_val_nat)
  ultimately show ?thesis using readUint_fits [OF assms(1), of ?n "putint sz" rest] assms n by (auto simp: read_size_def)
qed

lemma small_size:
  assumes "(sz :: u64) < 56"
  shows "unat tag \<le> 0xC0 \<Longrightarrow> unat (tag + ucast sz :: byte) = unat tag + unat sz" "ucast (ucast sz :: byte) = sz"
proof -
  have n: "unat sz < 56" using assms by (simp add: word_less_nat_alt)
  then have u: "unat (ucast sz :: byte) = unat sz" by (simp add: unsigned_ucast_eq take_bit_eq_mod)
  then show "ucast (ucast sz :: byte) = sz" by (simp only: word_unat_eq_iff unat_ucast_byte)
  show "unat tag \<le> 0xC0 \<Longrightarrow> unat (tag + ucast sz :: byte) = unat tag + unat sz" using n u by (simp add: unat_word_ariths)
qed

lemma large_size:
  assumes "\<not> (sz :: u64) < 56" "unat tag \<le> 0xF7"
  shows "unat (tag + of_nat (length (putint sz)) :: byte) = unat tag + length (putint sz)"
  using length_putint [OF assms(1)] assms(2) by (simp add: unat_word_ariths unat_of_nat)

lemma s_readKind_fits:
  assumes "sok s" "khead_ok k sz b" "s_r s = khead k sz b @ rest" "fits (length (khead k sz b)) s"
  shows "\<exists>s1. s_readKind s = ((k, sz, None), s1) \<and> took s (khead k sz b) s1 \<and> (k = Byte \<longrightarrow> s_byteval s1 = b)"
proof -
  obtain c cs where kh: "khead k sz b = c # cs" using khead_nonempty [of k sz b] by (cases "khead k sz b") auto
  have "fits 1 s" using assms(4) kh by (cases "rooms s") (auto simp: fits_def)
  then obtain s0 where s0: "readByte s = (Inr c, s0)" "took s [c] s0" using readByte_fits [OF assms(1)] assms(3) kh by auto
  define s2 where "s2 = s0\<lparr>s_byteval := 0\<rparr>"
  have s2: "took s [c] s2" "sok s2" "s_r s2 = cs @ rest" using s0(2) took_ok [OF s0(2)] assms(3) kh by (simp_all add: s2_def)
  have f: "fits (length cs) s2" using assms(3,4) s2 kh by (cases "rooms s") (auto simp: fits_def took_def)
  show ?thesis
  proof (cases "k = Byte")
    case True
    then show ?thesis using assms(2) kh s0 s2 by (simp add: khead_def khead_ok_def s_readKind_def Let_def)
  next
    case k: False
    show ?thesis
    proof (cases "sz < 56")
      case True
      have "unat sz < 56" using True by (simp add: word_less_nat_alt)
      then show ?thesis using k kh s0 s2 small_size [OF True]
        by (cases k) (auto simp: khead_def puthead_def True s_readKind_def s2_def word_less_nat_alt)
    next
      case False
      have cs: "cs = putint sz" using kh k False by (cases k) (simp_all add: khead_def puthead_def Let_def)
      obtain s1 where s1: "read_size k (of_nat (length (putint sz))) s2 = ((k, sz, None), s1)" "took s2 (putint sz) s1"
        using read_size_fits [OF s2(2) False] s2(3) f cs by blast
      have "took s (khead k sz b) s1" using took_trans [OF s2(1) s1(2)] kh cs by simp
      moreover have "s_readKind s = read_size k (of_nat (length (putint sz))) s2"
        using k kh s0 large_size [OF False] length_putint [OF False] False
        by (cases k) (auto simp: khead_def puthead_def s_readKind_def s2_def word_less_nat_alt Let_def)
      ultimately show ?thesis using s1(1) k by simp
    qed
  qed
qed

subsection \<open>Kind\<close>

lemma readByte_stack: "readByte s = (x, s1) \<Longrightarrow> s_stack s1 = [] \<longleftrightarrow> s_stack s = []"
  by (auto simp: readByte_def willRead_def Let_def split: list.splits if_splits prod.splits option.splits)

lemma s_readKind_noEOL: "s_readKind s = ((k, sz, Some e), s1) \<Longrightarrow> e \<noteq> EOL"
  using readByte_noEOL readUint_noEOL
  by (auto simp: s_readKind_def read_size_def Let_def split: prod.splits sum.splits if_splits)

lemma s_Kind_cached: "s_kind s = Some k \<Longrightarrow> s_Kind s = (case s_kinderr s of Some e \<Rightarrow> Inl e | None \<Rightarrow> Inr (k, s_size s), s)"
  by (simp add: s_Kind_def)

lemma s_Kind_cases:
  assumes "s_kind s = None" "s_Kind s = (r, s1)"
  obtains "s1 = s\<lparr>s_kinderr := None\<rparr>" "r = Inl EOL" "case s_stack s of (pos, sz) # _ \<Rightarrow> pos = sz | [] \<Rightarrow> False"
  | k sz err s2 where "s_kind s1 = Some k" "r = (case s_kinderr s1 of Some e \<Rightarrow> Inl e | None \<Rightarrow> Inr (k, s_size s1))" "s_readKind (s\<lparr>s_kinderr := None\<rparr>) = ((k, sz, err), s2)"
     "s_kinderr s1 = Some EOL \<longrightarrow> err = Some EOL"
proof (cases "case s_stack s of (pos, sz) # _ \<Rightarrow> pos = sz | [] \<Rightarrow> False")
  case True
  then show ?thesis using assms that(1) by (auto simp: s_Kind_def Let_def)
next
  case False
  obtain k sz err s2 where "s_readKind (s\<lparr>s_kinderr := None\<rparr>) = ((k, sz, err), s2)" by (metis prod.exhaust)
  then show ?thesis using False assms by (intro that(2) [of k sz err s2]) (auto simp: s_Kind_def Let_def split: option.splits list.splits if_splits)
qed

lemma s_Kind_again: "s_Kind s = (r, s1) \<Longrightarrow> s_Kind s1 = (r, s1)"
proof (cases "s_kind s")
  case None
  assume r: "s_Kind s = (r, s1)"
  from None r show ?thesis
  proof (cases rule: s_Kind_cases)
    case 1
    then show ?thesis using None by (simp add: s_Kind_def)
  next
    case 2
    then show ?thesis using s_Kind_cached [OF 2(1)] by simp
  qed
qed (auto simp: s_Kind_cached split: option.splits)

lemma s_Kind_EOL:
  assumes "s_kind s = None" "s_Kind s = (Inl EOL, s1)"
  shows "s1 = s\<lparr>s_kinderr := None\<rparr>"
  using assms by (cases rule: s_Kind_cases) (auto dest: s_readKind_noEOL split: option.splits)

lemma s_Kind_Inr:
  assumes "sok s" "s_kind s = None" "s_Kind s = (Inr (k, sz), s1)"
  shows "took s (khead k sz (s_byteval s1)) (s1\<lparr>s_kind := None\<rparr>)" "khead_ok k sz (s_byteval s1)" "has_room (unat sz) (rooms s1)" "sok s1"
proof -
  let ?s0 = "s\<lparr>s_kinderr := None\<rparr>"
  obtain s2 where s2: "s_readKind ?s0 = ((k, sz, None), s2)" "s1 = s2\<lparr>s_kind := Some k, s_size := sz, s_kinderr := None\<rparr>"
    using assms(2,3) by (auto simp: s_Kind_def Let_def split: option.splits if_splits prod.splits list.splits)
  have ok: "sok ?s0" using assms(1) by simp
  have t: "took s (khead k sz (s_byteval s2)) s2" "khead_ok k sz (s_byteval s2)" using s_readKind_Inr [OF ok s2(1)] by simp_all
  have k2: "s_kind s2 = None" using t(1) by (rule took_ok)
  then have eq: "s1\<lparr>s_kind := None\<rparr> = s2\<lparr>s_size := sz, s_kinderr := None\<rparr>" by (simp add: s2(2))
  show "took s (khead k sz (s_byteval s1)) (s1\<lparr>s_kind := None\<rparr>)" "khead_ok k sz (s_byteval s1)" using t unfolding eq by (simp_all add: s2(2))
  show "sok s1" using took_ok(1) [OF t(1)] by (simp add: s2(2))
  show "has_room (unat sz) (rooms s1)"
  proof (cases "s_stack s2")
    case Nil
    then show ?thesis by (simp add: s2(2) rooms_def)
  next
    case (Cons pz rest)
    obtain p z where pz: "pz = (p, z)" by (cases pz)
    have "unat (z - p) = unat z - unat p" using \<open>sok s1\<close> Cons pz by (simp add: s2(2) sok_def unat_sub word_le_nat_alt)
    moreover have "s_stack s \<noteq> []"
    proof
      assume "s_stack s = []"
      then have "rooms s = []" by (simp add: rooms_def)
      then have "rooms s2 = []" using t(1) by (simp add: took_def)
      then show False using Cons pz by (simp add: rooms_def)
    qed
    ultimately have "\<not> sz > z - p" using assms(2,3) s2(1) Cons pz by (auto simp: s_Kind_def Let_def split: option.splits if_splits prod.splits list.splits)
    then show ?thesis using Cons pz \<open>unat (z - p) = unat z - unat p\<close> by (simp add: s2(2) rooms_def word_less_nat_alt)
  qed
qed

lemma s_Kind_fits:
  assumes "sok s" "s_kind s = None" "khead_ok k sz b" "s_r s = khead k sz b @ rest" "fits (length (khead k sz b) + unat sz) s"
  shows "\<exists>s1. s_Kind s = (Inr (k, sz), s1) \<and> took s (khead k sz b) (s1\<lparr>s_kind := None\<rparr>) \<and> (k = Byte \<longrightarrow> s_byteval s1 = b) \<and> fits (unat sz) s1 \<and> sok s1"
proof -
  let ?s0 = "s\<lparr>s_kinderr := None\<rparr>"
  have f: "fits (length (khead k sz b)) ?s0" using assms(5) by (cases "rooms s") (auto simp: fits_def)
  obtain s2 where s2: "s_readKind ?s0 = ((k, sz, None), s2)" "took s (khead k sz b) s2" "k = Byte \<longrightarrow> s_byteval s2 = b"
    using s_readKind_fits [of ?s0 k sz b rest] assms f by auto
  have fz: "fits (unat sz) s2" using assms(4,5) s2(2) by (cases "rooms s") (auto simp: fits_def took_def)
  have ok: "sok s2" "s_kind s2 = None" using took_ok s2(2) by auto
  have "\<not> (case s_stack s of (pos, sz) # _ \<Rightarrow> pos = sz | [] \<Rightarrow> False)"
    using assms(5) khead_nonempty [of k sz b] by (cases "s_stack s"; cases "khead k sz b") (auto simp: fits_def rooms_def split: prod.splits)
  moreover have "\<not> sz > s_remaining s2" using fz ok by (simp add: fits_def sok_def word_less_nat_alt)
  moreover have "\<not> sz > z - p" if "s_stack s2 = (p, z) # r" for p z r
  proof -
    have "unat (z - p) = unat z - unat p" using ok that by (simp add: sok_def unat_sub word_le_nat_alt)
    then show ?thesis using fz that by (simp add: fits_def rooms_def word_less_nat_alt)
  qed
  ultimately have "s_Kind s = (Inr (k, sz), s2\<lparr>s_kind := Some k, s_size := sz, s_kinderr := None\<rparr>)"
    using assms(2) s2(1) by (auto simp: s_Kind_def Let_def split: list.splits)
  moreover have "took s (khead k sz b) (s2\<lparr>s_size := sz, s_kinderr := None, s_kind := None\<rparr>)" using s2(2) by (simp add: took_def)
  ultimately show ?thesis using s2(3) fz ok by simp
qed

subsection \<open>Strings and integers\<close>

lemma rlp_str_eq: "\<not> (length b = 1 \<and> hd b < 0x80) \<Longrightarrow> length b = unat sz \<Longrightarrow> rlp_str b = khead String sz c @ b"
  by (auto simp: rlp_str_def khead_def)

lemma rlp_str_byte: "b < 0x80 \<Longrightarrow> rlp_str [b] = [b]"
  by (simp add: rlp_str_def)

lemma s_Bytes_Inr:
  assumes "sok s" "s_kind s = None" "s_Bytes s = (Inr b, s2)"
  shows "took s (rlp_str b) s2" "length b < 2 ^ 64"
proof -
  from assms(3) obtain k sz s1 where k: "s_Kind s = (Inr (k, sz), s1)" "k \<noteq> List" by (auto simp: s_Bytes_def split: prod.splits sum.splits Kind.splits)
  note K = s_Kind_Inr [OF assms(1,2) k(1)]
  have "took s (rlp_str b) s2 \<and> length b < 2 ^ 64"
  proof (cases k)
    case Byte
    then show ?thesis using assms(3) k K by (auto simp: s_Bytes_def khead_def khead_ok_def rlp_str_byte)
  next
    case String
    then have r: "readFull sz s1 = (Inr b, s2)" "\<not> (sz = 1 \<and> hd b < 0x80)" using assms(3) k by (auto simp: s_Bytes_def split: prod.splits sum.splits if_splits)
    note R = readFull_Inr [OF K(4) r(1)]
    have "\<not> (length b = 1 \<and> hd b < 0x80)" using r(2) R(2) by (metis One_nat_def unat_1 word_unat_eq_iff)
    then have "rlp_str b = khead String sz (s_byteval s1) @ b" using R(2) by (rule rlp_str_eq)
    then show ?thesis using took_trans [OF K(1), of b s2] R(1,2) String unat_lt64 [of sz] by simp
  qed (use k in simp)
  then show "took s (rlp_str b) s2" "length b < 2 ^ 64" by simp_all
qed

lemma s_Bytes_fits:
  assumes "sok s" "s_kind s = None" "s_r s = rlp_str b @ rest" "fits (length (rlp_str b)) s" "length b < 2 ^ 64"
  shows "\<exists>s2. s_Bytes s = (Inr b, s2) \<and> took s (rlp_str b) s2"
proof (cases "length b = 1 \<and> hd b < 0x80")
  case True
  then obtain c where c: "b = [c]" "c < 0x80" by (cases b) auto
  then show ?thesis using s_Kind_fits [OF assms(1,2), of Byte 0 c rest] assms(3,4)
    by (auto simp: s_Bytes_def khead_def khead_ok_def rlp_str_byte)
next
  case False
  define sz :: u64 where "sz = of_nat (length b)"
  have z: "unat sz = length b" using assms(5) by (simp add: sz_def unat_of_nat)
  have e: "rlp_str b = khead String sz 0 @ b" using rlp_str_eq [OF False z [symmetric]] .
  obtain s1 where s1: "s_Kind s = (Inr (String, sz), s1)" "took s (khead String sz 0) (s1\<lparr>s_kind := None\<rparr>)" "fits (unat sz) s1" "sok s1"
    using s_Kind_fits [OF assms(1,2), of String sz 0 "b @ rest"] assms(3,4) e z by (auto simp: khead_ok_def)
  have r: "s_r s1 = b @ rest" using took_ok(3) [OF s1(2)] assms(3) e by simp
  obtain s2 where s2: "readFull sz s1 = (Inr b, s2)" "took s1 b s2" using readFull_fits [OF s1(4,3)] r z by auto
  have "\<not> (sz = 1 \<and> hd b < 0x80)" using False z by auto
  moreover have "took s (rlp_str b) s2" using took_trans [OF s1(2), of b s2] s2(2) e by simp
  ultimately show ?thesis using s1(1) s2(1) by (auto simp: s_Bytes_def)
qed

text \<open>A raw value is a header with as many bytes as it announces.\<close>

definition raw_ok :: "bytes \<Rightarrow> bool" where
  "raw_ok b \<longleftrightarrow> (\<exists>k sz x c. b = khead k sz x @ c \<and> khead_ok k sz x \<and> length c = unat sz)"

lemma s_Raw_Inr:
  assumes "sok s" "s_kind s = None" "s_Raw s = (Inr b, s2)"
  shows "took s b s2" "raw_ok b"
proof -
  from assms(3) obtain k sz s1 where k: "s_Kind s = (Inr (k, sz), s1)" by (auto simp: s_Raw_def split: prod.splits sum.splits)
  note K = s_Kind_Inr [OF assms(1,2) k]
  have "took s b s2 \<and> raw_ok b"
  proof (cases "k = Byte")
    case True
    then have "b = khead k sz (s_byteval s1) @ []" "s2 = s1\<lparr>s_kind := None\<rparr>" using assms(3) k by (auto simp: s_Raw_def khead_def)
    then show ?thesis using K True unfolding raw_ok_def by (auto simp: khead_ok_def intro!: exI [of _ "s_byteval s1"] exI [of _ Byte] exI [of _ "0 :: u64"])
  next
    case False
    then obtain c where c: "readFull sz s1 = (Inr c, s2)" "b = khead k sz (s_byteval s1) @ c"
      using assms(3) k by (cases k) (auto simp: s_Raw_def khead_def split: prod.splits sum.splits)
    note R = readFull_Inr [OF K(4) c(1)]
    then show ?thesis using took_trans [OF K(1), of c s2] c(2) K(2) unfolding raw_ok_def by auto
  qed
  then show "took s b s2" "raw_ok b" by simp_all
qed

lemma s_Raw_fits:
  assumes "sok s" "s_kind s = None" "s_r s = b @ rest" "fits (length b) s" "raw_ok b"
  shows "\<exists>s2. s_Raw s = (Inr b, s2) \<and> took s b s2"
proof -
  obtain k sz x c where b: "b = khead k sz x @ c" "khead_ok k sz x" "length c = unat sz" using assms(5) unfolding raw_ok_def by blast
  obtain s1 where s1: "s_Kind s = (Inr (k, sz), s1)" "took s (khead k sz x) (s1\<lparr>s_kind := None\<rparr>)" "k = Byte \<longrightarrow> s_byteval s1 = x" "fits (unat sz) s1" "sok s1"
    using s_Kind_fits [OF assms(1,2) b(2), of "c @ rest"] assms(3,4) b by auto
  show ?thesis
  proof (cases "k = Byte")
    case True
    then have "b = [x]" using b by (simp add: khead_def khead_ok_def)
    then show ?thesis using s1 True by (auto simp: s_Raw_def khead_def)
  next
    case False
    have r: "s_r s1 = c @ rest" using took_ok(3) [OF s1(2)] assms(3) b(1) by simp
    obtain s2 where s2: "readFull sz s1 = (Inr c, s2)" "took s1 c s2" using readFull_fits [OF s1(5,4)] r b(3) by auto
    have "took s b s2" using took_trans [OF s1(2), of c s2] s2(2) b(1) by simp
    then show ?thesis using s1(1) s2(1) b(1) False by (cases k) (auto simp: s_Raw_def khead_def)
  qed
qed

lemma raw_ok_nonempty: "raw_ok b \<Longrightarrow> b \<noteq> []"
  by (auto simp: raw_ok_def)

lemma big_Bytes_byte: "b \<noteq> 0 \<Longrightarrow> big_Bytes (unat b) = [b :: byte]"
  using big_Bytes_nat_val [of "[b]"] by (simp add: nat_val_def)

lemma le_maxbits: "maxbits div 8 \<le> 8 \<Longrightarrow> (sz > of_nat (maxbits div 8)) = (unat (sz :: u64) > maxbits div 8)"
  by (simp add: word_less_nat_alt unat_of_nat)

lemma ucast_size: "unat (sz :: u64) \<le> 8 \<Longrightarrow> unat (ucast sz :: byte) = unat sz"
  by (simp add: unsigned_ucast_eq take_bit_eq_mod)

lemma s_uint_Inr:
  assumes "sok s" "s_kind s = None" "s_uint maxbits s = (Inr v, s2)" "maxbits div 8 \<le> 8" "8 \<le> maxbits"
  shows "took s (rlp_str (big_Bytes (unat v))) s2" "unat v < 256 ^ (maxbits div 8)"
proof -
  from assms(3) obtain k sz s1 where k: "s_Kind s = (Inr (k, sz), s1)" "k \<noteq> List" by (auto simp: s_uint_def split: prod.splits sum.splits Kind.splits)
  note K = s_Kind_Inr [OF assms(1,2) k(1)]
  have m: "(256 :: nat) \<le> 256 ^ (maxbits div 8)" using assms(5) power_increasing [of 1 "maxbits div 8" "256 :: nat"] by simp
  have "took s (rlp_str (big_Bytes (unat v))) s2 \<and> unat v < 256 ^ (maxbits div 8)"
  proof (cases k)
    case Byte
    then have v: "s_byteval s1 \<noteq> 0" "v = ucast (s_byteval s1)" "s2 = s1\<lparr>s_kind := None\<rparr>" using assms(3) k by (auto simp: s_uint_def split: if_splits)
    then show ?thesis using Byte K m unat_byte [of "s_byteval s1"] by (simp add: unat_ucast_byte big_Bytes_byte khead_def khead_ok_def rlp_str_byte)
  next
    case String
    then have r: "readUint (ucast sz) s1 = (Inr v, s2)" "\<not> (sz > 0 \<and> v < 128)" "unat sz \<le> maxbits div 8"
      using assms(3,4) k by (auto simp: s_uint_def le_maxbits split: prod.splits sum.splits if_splits)
    have z: "unat (ucast sz :: byte) = unat sz" using r(3) assms(4) by (intro ucast_size) simp
    from readUint_Inr [OF K(4) r(1)] obtain bs where bs: "took s1 bs s2" "length bs = unat sz" "v = be_val bs" "2 \<le> unat sz \<longrightarrow> hd bs \<noteq> 0" unfolding z by blast
    have v: "unat v = nat_val bs" using bs(2,3) r(3) assms(4) by (simp add: unat_be_val)
    have b1: "\<not> (length bs = 1 \<and> hd bs < 0x80)"
    proof
      assume one: "length bs = 1 \<and> hd bs < 0x80"
      then have "unat v = unat (hd bs)" using v by (cases bs) (auto simp: nat_val_def)
      then have "v < 128" using one by (simp add: word_less_nat_alt)
      moreover have "sz > 0" using one bs(2) by (simp add: word_less_nat_alt)
      ultimately show False using r(2) by simp
    qed
    have "bs = [] \<or> hd bs \<noteq> 0"
    proof (cases "length bs = 1")
      case True
      then show ?thesis using b1 by auto
    qed (use bs(2,4) in \<open>cases bs; cases "tl bs"; auto\<close>)
    then have "big_Bytes (unat v) = bs" using v by (simp add: big_Bytes_nat_val)
    moreover have "rlp_str bs = khead String sz (s_byteval s1) @ bs" using rlp_str_eq [OF b1 bs(2)] .
    moreover have "nat_val bs < 256 ^ (maxbits div 8)"
      by (rule less_le_trans [OF nat_val_less power_increasing]) (use bs(2) r(3) in simp_all)
    ultimately show ?thesis using took_trans [OF K(1), of bs s2] bs(1) String v by simp
  qed (use k in simp)
  then show "took s (rlp_str (big_Bytes (unat v))) s2" "unat v < 256 ^ (maxbits div 8)" by simp_all
qed

lemma s_uint_fits:
  assumes "sok s" "s_kind s = None" "s_r s = rlp_str (big_Bytes (unat v)) @ rest" "fits (length (rlp_str (big_Bytes (unat v)))) s" "unat v < 256 ^ (maxbits div 8)" "maxbits div 8 \<le> 8"
  shows "\<exists>s2. s_uint maxbits s = (Inr v, s2) \<and> took s (rlp_str (big_Bytes (unat v))) s2"
proof -
  define b where "b = big_Bytes (unat v)"
  have len: "length b \<le> maxbits div 8" using length_big_Bytes [OF assms(5)] by (simp add: b_def)
  show ?thesis
  proof (cases "length b = 1 \<and> hd b < 0x80")
    case True
    then obtain c where c: "b = [c]" "c < 0x80" by (cases b) auto
    then have v: "unat v = unat c" using nat_val_big_Bytes [of "unat v"] by (simp add: nat_val_def flip: b_def)
    have "c \<noteq> 0" using c hd_big_Bytes [of "unat v"] by (cases "v = 0") (auto simp: b_def unat_eq_0)
    moreover have "v = ucast c" using v by (simp add: word_unat_eq_iff unat_ucast_byte)
    moreover have "rlp_str (big_Bytes (unat v)) = [c]" using c by (simp add: rlp_str_byte flip: b_def)
    ultimately show ?thesis using s_Kind_fits [OF assms(1,2), of Byte 0 c rest] assms(3,4) c
      by (auto simp: s_uint_def khead_def khead_ok_def)
  next
    case False
    define sz :: u64 where "sz = of_nat (length b)"
    have z: "unat sz = length b" using len assms(6) by (simp add: sz_def unat_of_nat)
    have e: "rlp_str b = khead String sz 0 @ b" using rlp_str_eq [OF False z [symmetric]] .
    obtain s1 where s1: "s_Kind s = (Inr (String, sz), s1)" "took s (khead String sz 0) (s1\<lparr>s_kind := None\<rparr>)" "fits (unat sz) s1" "sok s1"
      using s_Kind_fits [OF assms(1,2), of String sz 0 "b @ rest"] assms(3,4) e z by (auto simp: khead_ok_def simp flip: b_def)
    have r: "s_r s1 = b @ rest" using took_ok(3) [OF s1(2)] assms(3) e by (simp flip: b_def)
    have zz: "unat (ucast sz :: byte) = unat sz" using z len assms(6) by (intro ucast_size) simp
    have v: "be_val b = v" by (simp add: be_val_nat b_def)
    have h: "2 \<le> unat (ucast sz :: byte) \<Longrightarrow> hd b \<noteq> 0" using hd_big_Bytes [of "unat v"] z zz by (cases "unat v = 0") (simp_all add: b_def)
    have f: "fits (unat (ucast sz :: byte)) s1" "length b = unat (ucast sz :: byte)" using s1(3) z unfolding zz by simp_all
    obtain s2 where s2: "readUint (ucast sz) s1 = (Inr v, s2)" "took s1 b s2"
      using readUint_fits [OF s1(4) f(1) r f(2) h] v by blast
    have "took s (rlp_str b) s2" using took_trans [OF s1(2), of b s2] s2(2) e by simp
    moreover have "\<not> (sz > 0 \<and> v < 128)"
    proof
      assume v: "sz > 0 \<and> v < 128"
      then have n: "unat v < 128" "unat v \<noteq> 0" using z by (auto simp: word_less_nat_alt b_def unat_eq_0 intro!: gr0I)
      then have "b = [of_nat (unat v)]" by (simp add: b_def big_Bytes_step)
      then show False using False n by (simp add: word_less_nat_alt unat_of_nat del: of_nat_unat)
    qed
    ultimately show ?thesis using s1(1) s2(1) z len assms(6) by (auto simp: s_uint_def le_maxbits simp flip: b_def)
  qed
qed

subsection \<open>Lists\<close>

lemma s_List_Inr:
  assumes "sok s" "s_kind s = None" "s_List s = (Inr sz, s1)"
  shows "s_r s = puthead 0xC0 0xF7 sz @ s_r s1" "sok s1" "s_kind s1 = None" "has_room (length (puthead 0xC0 0xF7 sz) + unat sz) (rooms s)"
    "rooms s1 = unat sz # take_room (length (puthead 0xC0 0xF7 sz) + unat sz) (rooms s)"
proof -
  from assms(3) obtain s0 where k: "s_Kind s = (Inr (List, sz), s0)" "s1 = s0\<lparr>s_stack := (0, sz) # s_stack s0, s_kind := None, s_size := 0\<rparr>"
    by (auto simp: s_List_def split: prod.splits sum.splits if_splits)
  note K = s_Kind_Inr [OF assms(1,2) k(1)]
  show "s_r s = puthead 0xC0 0xF7 sz @ s_r s1" using took_ok(3) [OF K(1)] by (simp add: k(2) khead_def)
  show "has_room (length (puthead 0xC0 0xF7 sz) + unat sz) (rooms s)" using K(1,3) by (simp add: took_def khead_def has_room_add)
  show "sok s1" using K(3,4) by (cases "s_stack s0") (auto simp: sok_def k(2) rooms_def)
  show "s_kind s1 = None" by (simp add: k(2))
  have "rooms s0 = take_room (length (puthead 0xC0 0xF7 sz)) (rooms s)" using K(1) by (simp add: took_def khead_def)
  moreover have "rooms s1 = unat sz # take_room (unat sz) (rooms s0)"
    by (cases "s_stack s0") (auto simp: k(2) rooms_def)
  ultimately show "rooms s1 = unat sz # take_room (length (puthead 0xC0 0xF7 sz) + unat sz) (rooms s)" by simp
qed

lemma s_List_fits:
  assumes "sok s" "s_kind s = None" "s_r s = rlp_lst p @ rest" "fits (length (rlp_lst p)) s" "length p < 2 ^ 64"
  shows "\<exists>s1. s_List s = (Inr (of_nat (length p)), s1) \<and> s_r s1 = p @ rest"
proof -
  let ?sz = "of_nat (length p) :: u64"
  have z: "unat ?sz = length p" using assms(5) by (simp add: unat_of_nat)
  have e: "rlp_lst p = khead List ?sz 0 @ p" by (simp add: rlp_lst_def khead_def)
  obtain s0 where "s_Kind s = (Inr (List, ?sz), s0)" "took s (khead List ?sz 0) (s0\<lparr>s_kind := None\<rparr>)"
    using s_Kind_fits [OF assms(1,2), of List ?sz 0 "p @ rest"] assms(3,4) e z by (auto simp: khead_ok_def)
  then show ?thesis using assms(3) e by (auto simp: s_List_def took_def)
qed

lemma s_ListEnd_None:
  assumes "sok s" "s_ListEnd s = (None, s1)"
  shows "rooms s = 0 # rooms s1" "sok s1" "s_kind s1 = None" "s_r s1 = s_r s"
proof -
  from assms(2) obtain z rest where st: "s_stack s = (z, z) # rest" by (auto simp: s_ListEnd_def split: list.splits if_splits)
  show "s_kind s1 = None" "s_r s1 = s_r s" using assms(2) st by (auto simp: s_ListEnd_def)
  show "rooms s = 0 # rooms s1" "sok s1"
  proof (atomize (full), cases rest)
    case (Cons pz rest1)
    obtain p1 z1 where pz: "pz = (p1, z1)" by (cases pz)
    have w: "unat p1 + unat z \<le> unat z1" using assms(1) st Cons pz by (simp add: sok_def)
    then have "unat (p1 + z) = unat p1 + unat z" using unat_lt64 [of z1] by (simp add: unat_word_ariths)
    then show "rooms s = 0 # rooms s1 \<and> sok s1" using assms st Cons pz w by (auto simp: s_ListEnd_def rooms_def sok_def)
  qed (use assms st in \<open>auto simp: s_ListEnd_def rooms_def sok_def\<close>)
qed

lemma s_ListEnd_fits:
  assumes "sok s" "rooms s = 0 # rs"
  shows "\<exists>s1. s_ListEnd s = (None, s1)"
proof -
  obtain p z rest where "s_stack s = (p, z) # rest" using assms(2) by (cases "s_stack s") (auto simp: rooms_def)
  moreover from this have "p = z" using assms by (auto simp: sok_def rooms_def word_unat_eq_iff)
  ultimately show ?thesis by (simp add: s_ListEnd_def)
qed

text \<open>A list that was opened, read to its end and closed.\<close>

lemma list_took:
  assumes "sok s" "s_kind s = None" "s_List s = (Inr sz, s1)" "took s1 p s2" "s_ListEnd s2 = (None, s3)"
  shows "took s (rlp_lst p) s3"
proof -
  note L = s_List_Inr [OF assms(1-3)] and E = s_ListEnd_None [OF took_ok(1) [OF assms(4)] assms(5)]
  have "unat sz = length p" using assms(4) L(5) E(1) by (simp add: took_def)
  moreover from this [symmetric] have "rlp_lst p = puthead 0xC0 0xF7 sz @ p" by (simp add: rlp_lst_def)
  ultimately show ?thesis using assms(4) L E by (simp add: took_def)
qed

end
