(* ===== verification/Rlp_Inverse.thy ===== *)
theory Rlp_Inverse
  imports Rlp_Dec
begin

text \<open>
  The decoder of \<open>rlp\<close> against the reference encoding.  A type is \<open>plain\<close> when it has no array of one byte, no \<open>nil\<close> tag and only kinds that can be serialised.  On such types the decoder is
  sound (what it returns encodes to the bytes it took), complete (it returns the value from its encoding), and it ends within a fuel of the length of the input.
\<close>

section \<open>Types and values\<close>

fun plain :: "gtype \<Rightarrow> bool" and plain_fields :: "(fld \<times> gtype) list \<Rightarrow> bool" where
  "plain (TUint b) \<longleftrightarrow> b \<in> {8, 16, 32, 64}"
| "plain (TSlice t) \<longleftrightarrow> plain t"
| "plain (TArray n t) \<longleftrightarrow> plain t \<and> (t = TUint 8 \<longrightarrow> n \<noteq> 1)"
| "plain (TStruct fs) \<longleftrightarrow> plain_fields fs"
| "plain (TPtr t) \<longleftrightarrow> plain t"
| "plain (TInterface m) \<longleftrightarrow> m = 0"
| "plain TOther \<longleftrightarrow> False"
| "plain TRawValue \<longleftrightarrow> True"
| "plain TBigIntPtr \<longleftrightarrow> True"
| "plain TBigInt \<longleftrightarrow> True"
| "plain TBool \<longleftrightarrow> True"
| "plain TString \<longleftrightarrow> True"
| "plain_fields [] \<longleftrightarrow> True"
| "plain_fields ((f, t) # fs) \<longleftrightarrow> plain_fields fs \<and>
     (fd_exported f \<longrightarrow> (case parseStructTag (fs = []) f t of Inl e \<Rightarrow> False | Inr ts \<Rightarrow> tg_ignored ts \<or> plain t \<and> \<not> tg_nilOK ts))"

text \<open>A value of the type as a decoder makes it: integers in their range, pointers that are not nil, fields that are skipped at zero, an interface with bytes or a list in it.\<close>

function has_type :: "gtype \<Rightarrow> gval \<Rightarrow> bool" and have_type :: "gtype \<Rightarrow> gval list \<Rightarrow> bool" and fields_typed :: "(fld \<times> gtype) list \<Rightarrow> gval list \<Rightarrow> bool" where
  "has_type TRawValue v \<longleftrightarrow> (case v of VBytes b \<Rightarrow> raw_ok b | _ \<Rightarrow> False)"
| "has_type (TInterface m) v \<longleftrightarrow> (case v of VIface (Some (t, u)) \<Rightarrow> m = 0 \<and> (t = TSlice (TUint 8) \<or> t = TSlice (TInterface 0)) \<and> has_type t u | _ \<Rightarrow> False)"
| "has_type TBigIntPtr v \<longleftrightarrow> (case v of VPtr (Some (VBig i)) \<Rightarrow> 0 \<le> i | _ \<Rightarrow> False)"
| "has_type TBigInt v \<longleftrightarrow> (case v of VBig i \<Rightarrow> 0 \<le> i | _ \<Rightarrow> False)"
| "has_type (TUint b) v \<longleftrightarrow> (case v of VUint i \<Rightarrow> unat i < 256 ^ (b div 8) | _ \<Rightarrow> False)"
| "has_type TBool v \<longleftrightarrow> (case v of VBool b \<Rightarrow> True | _ \<Rightarrow> False)"
| "has_type TString v \<longleftrightarrow> (case v of VBytes s \<Rightarrow> True | _ \<Rightarrow> False)"
| "has_type (TSlice t) v \<longleftrightarrow> (if t = TUint 8 then (case v of VBytes b \<Rightarrow> True | _ \<Rightarrow> False) else (case v of VList vs \<Rightarrow> have_type t vs | _ \<Rightarrow> False))"
| "has_type (TArray n t) v \<longleftrightarrow>
     (if t = TUint 8 then (case v of VBytes b \<Rightarrow> length b = n | _ \<Rightarrow> False) else (case v of VList vs \<Rightarrow> length vs = n \<and> have_type t vs | _ \<Rightarrow> False))"
| "has_type (TStruct fs) v \<longleftrightarrow> (case v of VStruct vs \<Rightarrow> fields_typed fs vs | _ \<Rightarrow> False)"
| "has_type (TPtr t) v \<longleftrightarrow> (case v of VPtr (Some u) \<Rightarrow> has_type t u | _ \<Rightarrow> False)"
| "has_type TOther v \<longleftrightarrow> False"
| "have_type t [] \<longleftrightarrow> True"
| "have_type t (v # vs) \<longleftrightarrow> has_type t v \<and> have_type t vs"
| "fields_typed [] vs \<longleftrightarrow> vs = []"
| "fields_typed ((f, t) # fs) vs \<longleftrightarrow>
     (case vs of [] \<Rightarrow> False
      | v # vs' \<Rightarrow> fields_typed fs vs' \<and>
        (if \<not> fd_exported f then v = zero_val t
         else (case parseStructTag (fs = []) f t of Inl e \<Rightarrow> False | Inr ts \<Rightarrow> if tg_ignored ts then v = zero_val t else has_type t v)))"
  by pat_completeness auto
termination
  by (relation "measures [
       (\<lambda>x. case x of Inl (t, v) \<Rightarrow> ifaces v | Inr (Inl (t, vs)) \<Rightarrow> sum_list (map ifaces vs) | Inr (Inr (fs, vs)) \<Rightarrow> sum_list (map ifaces vs)),
       (\<lambda>x. case x of Inl (t, v) \<Rightarrow> size t | Inr (Inl (t, vs)) \<Rightarrow> size t | Inr (Inr (fs, vs)) \<Rightarrow> size_list (size_prod (\<lambda>_. 0) size) fs),
       (\<lambda>x. case x of Inl _ \<Rightarrow> 0 | Inr (Inl (t, vs)) \<Rightarrow> Suc (length vs) | Inr (Inr _) \<Rightarrow> 0)]")
     auto

lemma parse_tags_tail: "parse_tags l t xs ts0 = Inr ts \<Longrightarrow> tg_tail ts \<Longrightarrow> tg_tail ts0 \<or> (l \<and> is_slice t)"
  by (induction l t xs ts0 rule: parse_tags.induct) (auto simp: Let_def split: if_splits)

lemma parseStructTag_tail: "parseStructTag l f t = Inr ts \<Longrightarrow> tg_tail ts \<Longrightarrow> l \<and> is_slice t"
  using parse_tags_tail [of l t _ no_tags ts] by (auto simp: parseStructTag_def no_tags_def)

lemma no_tags_simps [simp]: "\<not> tg_tail no_tags" "\<not> tg_nilOK no_tags"
  by (simp_all add: no_tags_def)

lemma map_sum_id [simp]: "map_sum id f x = Inl e \<longleftrightarrow> x = Inl e" "map_sum id f x = Inr y \<longleftrightarrow> (\<exists>z. x = Inr z \<and> y = f z)"
  by (cases x; auto)+

declare list_slice.simps [simp del]

section \<open>The end of a list\<close>

text \<open>An operation after \<open>Kind\<close> does what it does without.\<close>

lemma after_Kind:
  assumes "s_Kind s = (r, s1)"
  shows "s_Bytes s1 = s_Bytes s" "s_List s1 = s_List s" "list_slice n t s1 = list_slice n t s"
  using assms s_Kind_again [OF assms] by (simp_all add: s_Bytes_def s_List_def list_slice.simps)

definition at_end :: "Stream \<Rightarrow> Stream" where
  "at_end s = s\<lparr>s_kinderr := None\<rparr>"

lemma wrap_EOL [simp]: "wrapStreamError e t = EOL \<longleftrightarrow> e = EOL"
  by (cases e) (simp_all add: wrapStreamError_def)

lemma wrapStreamError_EOL [simp]: "wrapStreamError EOL t = EOL"
  by (simp add: wrapStreamError_def)

lemma addErrorContext_EOL [simp]: "addErrorContext e c = EOL \<longleftrightarrow> e = EOL"
  by (cases e) (simp_all add: addErrorContext_def)

lemma s_uint_EOL: "s_kind s = None \<Longrightarrow> s_uint b s = (Inl EOL, s1) \<Longrightarrow> s1 = at_end s"
  by (auto simp: s_uint_def at_end_def split: prod.splits sum.splits Kind.splits if_splits dest: s_Kind_EOL readUint_noEOL)

lemma op_EOL:
  assumes "s_kind s = None"
  shows "s_Bytes s = (Inl EOL, s1) \<Longrightarrow> s1 = at_end s" "s_Raw s = (Inl EOL, s1) \<Longrightarrow> s1 = at_end s"
    "s_Bool s = (Inl EOL, s1) \<Longrightarrow> s1 = at_end s" "s_List s = (Inl EOL, s1) \<Longrightarrow> s1 = at_end s" "decodeByteArray t n s = (Inl EOL, s1) \<Longrightarrow> s1 = at_end s"
proof -
  show "s_Bytes s = (Inl EOL, s1) \<Longrightarrow> s1 = at_end s"
    using assms by (auto simp: s_Bytes_def at_end_def split: prod.splits sum.splits Kind.splits if_splits dest: s_Kind_EOL readFull_noEOL)
  show "s_Raw s = (Inl EOL, s1) \<Longrightarrow> s1 = at_end s"
    using assms by (auto simp: s_Raw_def at_end_def split: prod.splits sum.splits Kind.splits if_splits dest: s_Kind_EOL readFull_noEOL)
  show "s_Bool s = (Inl EOL, s1) \<Longrightarrow> s1 = at_end s"
    using assms by (auto simp: s_Bool_def split: prod.splits sum.splits if_splits dest: s_uint_EOL)
  show "s_List s = (Inl EOL, s1) \<Longrightarrow> s1 = at_end s"
    using assms by (auto simp: s_List_def at_end_def split: prod.splits sum.splits if_splits dest: s_Kind_EOL)
  show "decodeByteArray t n s = (Inl EOL, s1) \<Longrightarrow> s1 = at_end s"
    using assms by (auto simp: decodeByteArray_def at_end_def split: prod.splits sum.splits Kind.splits if_splits dest: s_Kind_EOL readFull_noEOL)
qed

lemma list_end_EOL: "list_end wrap v s \<noteq> (Inl EOL, s1)" if "\<And>e. wrap e = EOL \<Longrightarrow> e = EOL"
  using that by (auto simp: list_end_def s_ListEnd_def split: prod.splits option.splits list.splits if_splits)

lemma slice_elems_EOL: "slice_elems n t i acc s \<noteq> Some (Inl EOL, s1)"
  by (induction n arbitrary: i acc s) (auto split: option.splits prod.splits sum.splits if_splits)

lemma list_slice_EOL: "s_kind s = None \<Longrightarrow> list_slice n t s = Some (Inl EOL, s1) \<Longrightarrow> s1 = at_end s"
  using slice_elems_EOL [of n t 0 "[]"] list_end_EOL [of id] op_EOL(4)
  by (auto simp: list_slice.simps split: prod.splits sum.splits if_splits option.splits)

text \<open>A decoder reports the end of the list only when it has read nothing.\<close>

lemma decode_EOL: "decode n t ts s = Some (Inl EOL, s1) \<Longrightarrow> s_kind s = None \<Longrightarrow> plain t \<Longrightarrow> \<not> tg_nilOK ts \<Longrightarrow> s1 = at_end s"
proof (induction t arbitrary: ts)
  case (TSlice t)
  show ?case
  proof (cases "t = TUint 8")
    case True
    then show ?thesis using TSlice.prems by (auto simp: dec_with_def split: prod.splits sum.splits dest: op_EOL)
  next
    case False
    then show ?thesis using TSlice.prems list_slice_EOL [of s n t s1] slice_elems_EOL [of n t 0 "[]" s s1] by (auto split: if_splits)
  qed
next
  case (TArray k t)
  have "list_end (\<lambda>e. wrapStreamError e (TArray k t)) v s2 \<noteq> (Inl EOL, s1)" for v s2 by (rule list_end_EOL) simp
  then show ?case using TArray.prems by (auto split: if_splits prod.splits sum.splits option.splits dest: op_EOL)
next
  case (TStruct fs)
  have "list_end (\<lambda>e. wrapStreamError e (TStruct fs)) v s2 \<noteq> (Inl EOL, s1)" for v s2 by (rule list_end_EOL) simp
  then show ?case using TStruct.prems by (auto split: if_splits prod.splits sum.splits option.splits dest: op_EOL)
next
  case (TPtr t)
  then show ?case by auto
next
  case (TInterface m)
  obtain r s2 where k: "s_Kind s = (r, s2)" by fastforce
  show ?case using TInterface.prems k s_Kind_EOL [of s s2] list_slice_EOL [of s _ "TInterface 0" s1] op_EOL(1) [of s s1] after_Kind [OF k]
    by (auto simp: at_end_def split: prod.splits sum.splits if_splits nat.splits)
qed (use op_EOL s_uint_EOL in \<open>auto simp: dec_with_def big_of_bytes_def split: prod.splits sum.splits if_splits\<close>)

section \<open>What is accepted\<close>

lemma list_end_Inr: "list_end wrap v s = (Inr v', s1) \<Longrightarrow> v' = v \<and> s_ListEnd s = (None, s1)"
  by (auto simp: list_end_def split: prod.splits option.splits)

lemma rlp_nonempty [simp]: "rlp_str b \<noteq> []" "rlp_lst p \<noteq> []"
  by (auto simp: rlp_str_def rlp_lst_def puthead_def Let_def)

lemma big_of_bytes_Inr: "big_of_bytes t b = Inr i \<Longrightarrow> 0 \<le> i \<and> big_Bytes (nat i) = b"
  by (auto simp: big_of_bytes_def big_SetBytes_nat big_Bytes_nat_val split: if_splits)

lemma s_Bool_Inr:
  assumes "sok s" "s_kind s = None" "s_Bool s = (Inr b, s1)"
  shows "took s (rlp_str (if b then [1] else [])) s1"
proof -
  from assms(3) obtain num where "s_uint 8 s = (Inr num, s1)" "num = (if b then 1 else 0)" by (auto simp: s_Bool_def split: prod.splits sum.splits if_splits)
  then show ?thesis using s_uint_Inr(1) [OF assms(1,2), of 8 num s1] by (simp add: big_Bytes_step split: if_splits)
qed

lemma decodeByteArray_Inr:
  assumes "sok s" "s_kind s = None" "decodeByteArray t n s = (Inr v, s2)" "n \<noteq> 1"
  shows "\<exists>b. v = VBytes b \<and> length b = n \<and> took s (rlp_str b) s2"
proof -
  from assms(3,4) obtain sz s1 where k: "s_Kind s = (Inr (String, sz), s1)"
    by (auto simp: decodeByteArray_def split: prod.splits sum.splits Kind.splits if_splits)
  then obtain b where b: "readFull sz s1 = (Inr b, s2)" "\<not> (sz = 1 \<and> hd b < 0x80)" "v = VBytes b" "unat sz = n"
    using assms(3) by (auto simp: decodeByteArray_def split: prod.splits sum.splits if_splits)
  moreover have "s_Bytes s = (Inr b, s2)" using k b by (auto simp: s_Bytes_def)
  ultimately show ?thesis using s_Bytes_Inr(1) [OF assms(1,2)] readFull_Inr(2) [OF s_Kind_Inr(4) [OF assms(1,2) k] b(1)] by auto
qed

text \<open>What a decoder has taken from the stream is the encoding of the value it returns.\<close>

lemma decode_sound:
  "decode n t ts s = Some (Inr v, s') \<Longrightarrow> sok s \<Longrightarrow> s_kind s = None \<Longrightarrow> plain t \<Longrightarrow> \<not> tg_nilOK ts \<Longrightarrow> tg_tail ts \<longrightarrow> is_slice t \<Longrightarrow>
     took s (enc t ts v) s' \<and> has_type t v \<and> (\<not> tg_tail ts \<longrightarrow> enc t ts v \<noteq> [])"
  "slice_elems n t i acc s = Some (Inr vs, s') \<Longrightarrow> sok s \<Longrightarrow> s_kind s = None \<Longrightarrow> plain t \<Longrightarrow> \<exists>us. vs = acc @ us \<and> took s (enc_elems t us) s' \<and> have_type t us"
  "list_slice n t s = Some (Inr v, s') \<Longrightarrow> sok s0 \<Longrightarrow> s_kind s0 = None \<Longrightarrow> plain t \<Longrightarrow> s = s0 \<or> (\<exists>r. s_Kind s0 = (r, s)) \<Longrightarrow>
     \<exists>us. v = VList us \<and> took s0 (rlp_lst (enc_elems t us)) s' \<and> have_type t us"
  "array_elems n t k i s = Some (Inr vs, s') \<Longrightarrow> sok s \<Longrightarrow> s_kind s = None \<Longrightarrow> plain t \<Longrightarrow> length vs = k \<and> took s (enc_elems t vs) s' \<and> have_type t vs"
  "dec_fields n fs s = Some (Inr vs, s') \<Longrightarrow> sok s \<Longrightarrow> s_kind s = None \<Longrightarrow> plain_fields fs \<Longrightarrow> took s (enc_fields fs vs) s' \<and> fields_typed fs vs"
proof (induction n t ts s and n t i acc s and n t s and n t k i s and n fs s arbitrary: v s' and vs s' and v s' s0 and vs s' and vs s'
    rule: decode_slice_elems_list_slice_array_elems_dec_fields.induct)
  case (1 n ts s)
  then show ?case by (auto split: prod.splits sum.splits dest: s_Raw_Inr raw_ok_nonempty)
next
  case (2 n ts s)
  then show ?case by (auto simp: dec_with_def split: prod.splits sum.splits dest: s_Bytes_Inr(1) big_of_bytes_Inr)
next
  case (3 n ts s)
  then show ?case by (auto simp: dec_with_def split: prod.splits sum.splits dest: s_Bytes_Inr(1) big_of_bytes_Inr)
next
  case (4 n b ts s)
  then obtain num where "s_uint b s = (Inr num, s')" "v = VUint num" by (auto simp: dec_with_def split: prod.splits sum.splits)
  then show ?case using s_uint_Inr [OF "4.prems"(2,3), of b num s'] "4.prems"(4) by auto
next
  case (5 n ts s)
  then show ?case by (auto simp: dec_with_def split: prod.splits sum.splits dest: s_Bool_Inr)
next
  case (6 n ts s)
  then show ?case by (auto simp: dec_with_def split: prod.splits sum.splits dest: s_Bytes_Inr(1))
next
  case (7 n t ts s)
  show ?case
  proof (cases "t = TUint 8")
    case True
    then show ?thesis using "7.prems" by (auto simp: dec_with_def split: prod.splits sum.splits dest: s_Bytes_Inr(1))
  next
    case False
    then show ?thesis using "7.prems" "7.IH"(1) [OF False] "7.IH"(2) [OF False] by (cases "tg_tail ts") (fastforce split: prod.splits)+
  qed
next
  case (8 n k t ts s)
  show ?case
  proof (cases "t = TUint 8")
    case True
    then show ?thesis using "8.prems" decodeByteArray_Inr [of s "TArray k t" k v s'] by (auto simp: is_slice_def)
  next
    case False
    then obtain sz s1 vs s2 where d: "s_List s = (Inr sz, s1)" "array_elems n t k 0 s1 = Some (Inr vs, s2)" "v = VList vs" "s_ListEnd s2 = (None, s')"
      using "8.prems"(1) by (auto split: prod.splits sum.splits option.splits dest: list_end_Inr)
    have ok: "sok s1" "s_kind s1 = None" using s_List_Inr(2,3) [OF "8.prems"(2,3) d(1)] .
    have "length vs = k \<and> took s1 (enc_elems t vs) s2 \<and> have_type t vs" using "8.IH" [OF False d(1) [symmetric] refl d(2) ok] "8.prems"(4) by simp
    then show ?thesis using list_took [OF "8.prems"(2,3) d(1) _ d(4)] False "8.prems"(6) by (auto simp: d(3) is_slice_def)
  qed
next
  case (9 n fs ts s)
  then obtain sz s1 vs s2 where d: "s_List s = (Inr sz, s1)" "dec_fields n fs s1 = Some (Inr vs, s2)" "v = VStruct vs" "s_ListEnd s2 = (None, s')"
    by (auto split: prod.splits sum.splits option.splits dest: list_end_Inr)
  have ok: "sok s1" "s_kind s1 = None" using s_List_Inr(2,3) [OF "9.prems"(2,3) d(1)] .
  have "took s1 (enc_fields fs vs) s2 \<and> fields_typed fs vs" using "9.IH" [OF d(1) [symmetric] refl d(2) ok] "9.prems"(4) by simp
  then show ?case using list_took [OF "9.prems"(2,3) d(1) _ d(4)] by (auto simp: d(3))
next
  case (10 n t ts s)
  then show ?case by (auto split: if_splits)
next
  case (11 n m ts s)
  then obtain k sz s1 where k: "s_Kind s = (Inr (k, sz), s1)" by (auto split: prod.splits sum.splits if_splits)
  show ?case
  proof (cases "k = List")
    case True
    then obtain n' u where n: "n = Suc n'" "list_slice n' (TInterface 0) s1 = Some (Inr u, s')" "v = VIface (Some (TSlice (TInterface 0), u))"
      using "11.prems"(1,4) k by (auto split: nat.splits)
    have "m = 0" using "11.prems"(4) by simp
    with "11.IH" [OF _ k [symmetric] refl refl True n(1,2) "11.prems"(2,3)] k
    obtain us where "u = VList us" "took s (rlp_lst (enc_elems (TInterface 0) us)) s'" "have_type (TInterface 0) us" by auto
    then show ?thesis using \<open>m = 0\<close> by (simp add: n(3))
  next
    case False
    then obtain b where "s_Bytes s = (Inr b, s')" "v = VIface (Some (TSlice (TUint 8), VBytes b))"
      using "11.prems"(1,4) k after_Kind(1) [OF k] by (auto split: prod.splits sum.splits)
    then show ?thesis using s_Bytes_Inr(1) [OF "11.prems"(2,3)] "11.prems"(4) by simp
  qed
next
  case (12 n ts s)
  then show ?case by simp
next
  case (13 t i acc s)
  then show ?case by simp
next
  case (14 n t i acc s)
  show ?case
  proof (cases "\<exists>s1. decode (Suc n) t no_tags s = Some (Inl EOL, s1)")
    case True
    then have "vs = acc" "s' = at_end s" using "14.prems" decode_EOL by fastforce+
    then show ?thesis using "14.prems"(2,3) took_refl [of s] by (intro exI [of _ "[]"]) (simp add: at_end_def)
  next
    case False
    then obtain u s1 where d: "decode (Suc n) t no_tags s = Some (Inr u, s1)" "slice_elems n t (Suc i) (acc @ [u]) s1 = Some (Inr vs, s')"
      using "14.prems"(1) by (auto split: option.splits prod.splits sum.splits if_splits)
    have u: "took s (enc t no_tags u) s1" "has_type t u" using "14.IH"(1) [OF d(1) "14.prems"(2-4)] by simp_all
    from "14.IH"(2) [OF d(1) refl refl d(2) took_ok(1,2) [OF u(1)] "14.prems"(4)] obtain us where "vs = (acc @ [u]) @ us" "took s1 (enc_elems t us) s'" "have_type t us" by blast
    then show ?thesis using took_trans [OF u(1)] u(2) by (intro exI [of _ "u # us"]) simp
  qed
next
  case (15 n t s)
  then obtain sz s1 where l: "s_List s = (Inr sz, s1)" by (auto simp: list_slice.simps split: prod.splits sum.splits)
  have l0: "s_List s0 = (Inr sz, s1)" using l "15.prems"(5) after_Kind(2) by auto
  note ok = s_List_Inr(2,3) [OF "15.prems"(2,3) l0]
  show ?case
  proof (cases "sz = 0")
    case True
    then have "v = VList [] \<and> s_ListEnd s1 = (None, s')" using "15.prems"(1) l by (auto simp: list_slice.simps dest: list_end_Inr)
    then show ?thesis using list_took [OF "15.prems"(2,3) l0 took_refl [OF ok]] by (intro exI [of _ "[]"]) simp
  next
    case False
    then obtain vs s2 where d: "slice_elems n t 0 [] s1 = Some (Inr vs, s2)" "v = VList vs" "s_ListEnd s2 = (None, s')"
      using "15.prems"(1) l by (auto simp: list_slice.simps split: option.splits sum.splits dest!: list_end_Inr)
    from "15.IH" [OF l [symmetric] refl False d(1) ok "15.prems"(4)] have "took s1 (enc_elems t vs) s2" "have_type t vs" by auto
    then show ?thesis using list_took [OF "15.prems"(2,3) l0 _ d(3)] by (intro exI [of _ vs]) (simp add: d(2))
  qed
next
  case (16 n t i s)
  then show ?case by (simp add: took_refl)
next
  case (17 n t k i s)
  then obtain u s1 us where d: "decode n t no_tags s = Some (Inr u, s1)" "array_elems n t k (Suc i) s1 = Some (Inr us, s')" "vs = u # us"
    by (auto split: option.splits prod.splits sum.splits)
  have u: "took s (enc t no_tags u) s1" "has_type t u" using "17.IH"(1) [OF d(1) "17.prems"(2-4)] by simp_all
  then show ?case using "17.IH"(2) [OF d(1) refl refl d(2) took_ok(1,2) [OF u(1)] "17.prems"(4)] took_trans [OF u(1)] by (simp add: d(3))
next
  case (18 n s)
  then show ?case by (simp add: took_refl)
next
  case (19 n f t fs s)
  show ?case
  proof (cases "fd_exported f")
    case ex: True
    then obtain ts where ts: "parseStructTag (fs = []) f t = Inr ts" using "19.prems"(4) by (auto split: sum.splits)
    show ?thesis
    proof (cases "tg_ignored ts")
      case False
      then obtain u s1 us where d: "decode n t ts s = Some (Inr u, s1)" "dec_fields n fs s1 = Some (Inr us, s')" "vs = u # us"
        using "19.prems"(1) ex ts by (auto split: option.splits prod.splits sum.splits)
      have p: "plain t" "\<not> tg_nilOK ts" "tg_tail ts \<longrightarrow> is_slice t" "plain_fields fs" using "19.prems"(4) ex ts False parseStructTag_tail [OF ts] by auto
      have u: "took s (enc t ts u) s1" "has_type t u" using "19.IH"(3) [OF _ ts False d(1) "19.prems"(2,3) p(1-3)] ex by simp_all
      then show ?thesis using "19.IH"(4) [OF _ ts False d(1) refl refl d(2) took_ok(1,2) [OF u(1)] p(4)] took_trans [OF u(1)] ex ts False by (simp add: d(3))
    qed (use 19 ex ts in auto)
  qed (use 19 in auto)
qed

section \<open>Decoding ends\<close>

lemma took_shorter: "took s e s' \<Longrightarrow> length (s_r s') \<le> length (s_r s) \<and> (e \<noteq> [] \<longrightarrow> length (s_r s') < length (s_r s))"
  by (auto simp: took_def)

text \<open>Every element of a list takes a byte at least, so the length of the input bounds the loops.\<close>

lemma decode_ends:
  "length (s_r s) < n \<Longrightarrow> sok s \<Longrightarrow> s_kind s = None \<Longrightarrow> plain t \<Longrightarrow> \<not> tg_nilOK ts \<Longrightarrow> decode n t ts s \<noteq> None"
  "length (s_r s) < n \<Longrightarrow> sok s \<Longrightarrow> s_kind s = None \<Longrightarrow> plain t \<Longrightarrow> slice_elems n t i acc s \<noteq> None"
  "length (s_r s0) \<le> n \<Longrightarrow> sok s0 \<Longrightarrow> s_kind s0 = None \<Longrightarrow> plain t \<Longrightarrow> s = s0 \<or> (\<exists>r. s_Kind s0 = (r, s)) \<Longrightarrow> list_slice n t s \<noteq> None"
  "length (s_r s) < n \<Longrightarrow> sok s \<Longrightarrow> s_kind s = None \<Longrightarrow> plain t \<Longrightarrow> array_elems n t k i s \<noteq> None"
  "length (s_r s) < n \<Longrightarrow> sok s \<Longrightarrow> s_kind s = None \<Longrightarrow> plain_fields fs \<Longrightarrow> dec_fields n fs s \<noteq> None"
proof (induction n t ts s and n t i acc s and n t s and n t k i s and n fs s arbitrary: and and s0 and and
    rule: decode_slice_elems_list_slice_array_elems_dec_fields.induct)
  case (7 n t ts s)
  then show ?case using "7.IH"(2) [of s] by auto
next
  case (8 n k t ts s)
  show ?case
  proof (cases "t = TUint 8")
    case False
    show ?thesis
    proof (cases "s_List s")
      case (Pair r s1)
      show ?thesis
      proof (cases r)
        case (Inr sz)
        have l: "s_List s = (Inr sz, s1)" using Pair Inr by simp
        note L = s_List_Inr [OF "8.prems"(2,3) l]
        have "array_elems n t k 0 s1 \<noteq> None" using "8.IH" [OF False l [symmetric] refl _ L(2,3)] "8.prems"(1,4) L(1) by simp
        then show ?thesis using False l by (auto split: option.splits sum.splits)
      qed (use False Pair in simp)
    qed
  qed simp
next
  case (9 n fs ts s)
  show ?case
  proof (cases "s_List s")
    case (Pair r s1)
    show ?thesis
    proof (cases r)
      case (Inr sz)
      have l: "s_List s = (Inr sz, s1)" using Pair Inr by simp
      note L = s_List_Inr [OF "9.prems"(2,3) l]
      have "dec_fields n fs s1 \<noteq> None" using "9.IH" [OF l [symmetric] refl _ L(2,3)] "9.prems"(1,4) L(1) by simp
      then show ?thesis using l by (auto split: option.splits sum.splits)
    qed (use Pair in simp)
  qed
next
  case (10 n t ts s)
  then show ?case by auto
next
  case (11 n m ts s)
  then obtain n' where n: "n = Suc n'" by (cases n) auto
  have "m = 0" using "11.prems"(4) by simp
  then show ?case using "11.IH" [where ?s0.0 = s] "11.prems" n by (fastforce split: prod.splits sum.splits)
next
  case (14 n t i acc s)
  have d: "decode (Suc n) t no_tags s \<noteq> None" using "14.IH"(1) "14.prems" by simp
  show ?case
  proof (cases "decode (Suc n) t no_tags s")
    case (Some rs)
    obtain r s1 where rs: "rs = (r, s1)" by (cases rs)
    show ?thesis
    proof (cases r)
      case (Inr u)
      have du: "decode (Suc n) t no_tags s = Some (Inr u, s1)" using Some rs Inr by simp
      have u: "took s (enc t no_tags u) s1" "enc t no_tags u \<noteq> []" using decode_sound(1) [OF du "14.prems"(2-4)] by simp_all
      have "slice_elems n t (Suc i) (acc @ [u]) s1 \<noteq> None"
        using "14.IH"(2) [OF du refl refl _ took_ok(1,2) [OF u(1)] "14.prems"(4)] took_shorter [OF u(1)] u(2) "14.prems"(1) by simp
      then show ?thesis by (simp add: du)
    qed (use Some rs in simp)
  qed (use d in simp)
next
  case (15 n t s)
  show ?case
  proof (cases "s_List s")
    case (Pair r s1)
    show ?thesis
    proof (cases r)
      case (Inr sz)
      have l: "s_List s = (Inr sz, s1)" "s_List s0 = (Inr sz, s1)" using Pair Inr "15.prems"(5) after_Kind(2) by auto
      note L = s_List_Inr [OF "15.prems"(2,3) l(2)]
      have "length (s_r s1) < n" using L(1) "15.prems"(1) by (auto simp: puthead_def Let_def split: if_splits)
      then have "sz \<noteq> 0 \<Longrightarrow> slice_elems n t 0 [] s1 \<noteq> None" using "15.IH" [OF l(1) [symmetric] refl _ _ L(2,3) "15.prems"(4)] by simp
      then show ?thesis using l(1) by (cases "sz = 0") (auto simp: list_slice.simps split: option.splits sum.splits)
    qed (use Pair in \<open>simp add: list_slice.simps\<close>)
  qed
next
  case (17 n t k i s)
  have d: "decode n t no_tags s \<noteq> None" using "17.IH"(1) "17.prems" by simp
  show ?case
  proof (cases "\<exists>u s1. decode n t no_tags s = Some (Inr u, s1)")
    case True
    then obtain u s1 where du: "decode n t no_tags s = Some (Inr u, s1)" by blast
    have u: "took s (enc t no_tags u) s1" using decode_sound(1) [OF du "17.prems"(2-4)] by simp
    have "array_elems n t k (Suc i) s1 \<noteq> None"
      using "17.IH"(2) [OF du refl refl _ took_ok(1,2) [OF u] "17.prems"(4)] took_shorter [OF u] "17.prems"(1) by simp
    then show ?thesis by (auto simp: du)
  qed (use d in \<open>auto split: option.splits sum.splits prod.splits\<close>)
next
  case (19 n f t fs s)
  show ?case
  proof (cases "fd_exported f")
    case ex: True
    then obtain ts where ts: "parseStructTag (fs = []) f t = Inr ts" using "19.prems"(4) by (auto split: sum.splits)
    show ?thesis
    proof (cases "tg_ignored ts")
      case False
      have p: "plain t" "\<not> tg_nilOK ts" "tg_tail ts \<longrightarrow> is_slice t" "plain_fields fs" using "19.prems"(4) ex ts False parseStructTag_tail [OF ts] by auto
      have d: "decode n t ts s \<noteq> None" using "19.IH"(3) [OF _ ts False "19.prems"(1-3) p(1,2)] ex by simp
      show ?thesis
      proof (cases "\<exists>u s1. decode n t ts s = Some (Inr u, s1)")
        case True
        then obtain u s1 where du: "decode n t ts s = Some (Inr u, s1)" by blast
        have u: "took s (enc t ts u) s1" using decode_sound(1) [OF du "19.prems"(2,3) p(1-3)] by simp
        have "dec_fields n fs s1 \<noteq> None"
          using "19.IH"(4) [OF _ ts False du refl refl _ took_ok(1,2) [OF u] p(4)] ex took_shorter [OF u] "19.prems"(1) by simp
        then show ?thesis using ex ts False by (auto simp: du)
      qed (use d ex ts False in \<open>auto split: option.splits sum.splits prod.splits\<close>)
    qed (use 19 ex ts in auto)
  qed (use 19 in auto)
qed auto

text \<open>More fuel does not change a result.\<close>

lemma decode_mono:
  "decode n t ts s = Some x \<Longrightarrow> decode (Suc n) t ts s = Some x"
  "slice_elems n t i acc s = Some y \<Longrightarrow> slice_elems (Suc n) t i acc s = Some y"
  "list_slice n t s = Some x \<Longrightarrow> list_slice (Suc n) t s = Some x"
  "array_elems n t k i s = Some y \<Longrightarrow> array_elems (Suc n) t k i s = Some y"
  "dec_fields n fs s = Some y \<Longrightarrow> dec_fields (Suc n) fs s = Some y"
proof (induction n t ts s and n t i acc s and n t s and n t k i s and n fs s arbitrary: x and y and x and y and y
    rule: decode_slice_elems_list_slice_array_elems_dec_fields.induct)
  case (7 n t ts s)
  then show ?case by (cases "t = TUint 8"; cases "tg_tail ts") auto
next
  case (8 n k t ts s)
  show ?case
  proof (cases "\<exists>sz s1. s_List s = (Inr sz, s1) \<and> t \<noteq> TUint 8")
    case True
    then obtain sz s1 where l: "s_List s = (Inr sz, s1)" "t \<noteq> TUint 8" by blast
    then obtain y where y: "array_elems n t k 0 s1 = Some y" using "8.prems" by (auto split: option.splits)
    show ?thesis using "8.prems" l y "8.IH" [OF l(2) l(1) [symmetric] refl y] by simp
  qed (use "8.prems" in \<open>auto split: prod.splits sum.splits if_splits\<close>)
next
  case (9 n fs ts s)
  show ?case
  proof (cases "\<exists>sz s1. s_List s = (Inr sz, s1)")
    case True
    then obtain sz s1 where l: "s_List s = (Inr sz, s1)" by blast
    then obtain y where y: "dec_fields n fs s1 = Some y" using "9.prems" by (auto split: option.splits)
    show ?thesis using "9.prems" l y "9.IH" [OF l [symmetric] refl y] by simp
  qed (use "9.prems" in \<open>auto split: prod.splits sum.splits\<close>)
next
  case (10 n t ts s)
  show ?case
  proof (cases "tg_nilOK ts")
    case True
    then show ?thesis using 10 by (auto split: prod.splits sum.splits if_splits)
  qed (use 10 in auto)
next
  case (11 n m ts s)
  then show ?case by (cases n) (auto split: prod.splits sum.splits if_splits)
next
  case (14 n t i acc s)
  show ?case
  proof (cases "\<exists>u s1. decode (Suc n) t no_tags s = Some (Inr u, s1)")
    case True
    then obtain u s1 where d: "decode (Suc n) t no_tags s = Some (Inr u, s1)" by blast
    then have "slice_elems (Suc n) t (Suc i) (acc @ [u]) s1 = Some y" using 14 by simp
    then show ?thesis using "14.IH"(1) [OF d] by simp
  next
    case False
    then obtain e s1 where d: "decode (Suc n) t no_tags s = Some (Inl e, s1)" using "14.prems" by (auto split: option.splits prod.splits sum.splits)
    then show ?thesis using "14.IH"(1) [OF d] "14.prems" by simp
  qed
next
  case (15 n t s)
  show ?case
  proof (cases "\<exists>sz s1. s_List s = (Inr sz, s1) \<and> sz \<noteq> 0")
    case True
    then obtain sz s1 where l: "s_List s = (Inr sz, s1)" "sz \<noteq> 0" by blast
    then obtain y where y: "slice_elems n t 0 [] s1 = Some y" using "15.prems" by (auto simp: list_slice.simps split: option.splits)
    have "slice_elems (Suc n) t 0 [] s1 = Some y" using "15.IH" [OF l(1) [symmetric] refl l(2) y] .
    then show ?thesis using "15.prems" l y by (simp add: list_slice.simps del: slice_elems.simps)
  qed (use "15.prems" in \<open>auto simp: list_slice.simps split: prod.splits sum.splits if_splits\<close>)
next
  case (17 n t k i s)
  then obtain z where z: "decode n t no_tags s = Some z" by (auto split: option.splits)
  then have "decode (Suc n) t no_tags s = Some z" using "17.IH"(1) by blast
  with z 17 show ?case by (auto split: prod.splits sum.splits)
next
  case (19 n f t fs s)
  show ?case
  proof (cases "\<exists>ts. fd_exported f \<and> parseStructTag (fs = []) f t = Inr ts \<and> \<not> tg_ignored ts")
    case True
    then obtain ts where c: "fd_exported f" "parseStructTag (fs = []) f t = Inr ts" "\<not> tg_ignored ts" by blast
    then obtain r s1 where z: "decode n t ts s = Some (r, s1)" using "19.prems" by (auto split: option.splits)
    then have z': "decode (Suc n) t ts s = Some (r, s1)" using "19.IH"(3) c by blast
    show ?thesis
    proof (cases r)
      case (Inr u)
      then show ?thesis using "19.IH"(4) [OF _ c(2,3) z refl Inr] "19.prems" c z z' by auto
    qed (use "19.prems" c z z' in auto)
  qed (use 19 in \<open>auto split: sum.splits if_splits\<close>)
qed simp_all

lemma decode_fuel: "n \<le> m \<Longrightarrow> decode n t ts s = Some x \<Longrightarrow> decode m t ts s = Some x"
  by (induction m rule: dec_induct) (auto dest: decode_mono(1))

section \<open>Encodings are decoded\<close>

lemma s_Kind_end: "sok s \<Longrightarrow> s_kind s = None \<Longrightarrow> rooms s = 0 # rs \<Longrightarrow> s_Kind s = (Inl EOL, at_end s)"
  by (cases "s_stack s") (auto simp: s_Kind_def at_end_def rooms_def sok_def word_unat_eq_iff Let_def)

lemma decode_end: "sok s \<Longrightarrow> s_kind s = None \<Longrightarrow> rooms s = 0 # rs \<Longrightarrow> plain t \<Longrightarrow> decode n t no_tags s = Some (Inl EOL, at_end s)"
proof (induction t)
  case (TPtr t)
  then show ?case by simp
qed (auto simp: s_Kind_end dec_with_def s_Bytes_def s_Raw_def s_uint_def s_Bool_def s_List_def decodeByteArray_def list_slice.simps wrapStreamError_def)

lemma enc_nonempty:
  "has_type t v \<Longrightarrow> \<not> tg_tail ts \<Longrightarrow> enc t ts v \<noteq> []"
  "have_type t vs \<Longrightarrow> True" "fields_typed fs vs \<Longrightarrow> True"
  by (induction t v and t vs and fs vs arbitrary: ts and and rule: has_type_have_type_fields_typed.induct)
     (auto split: gval.splits option.splits if_splits dest: raw_ok_nonempty)

lemma s_Bool_fits:
  assumes "sok s" "s_kind s = None" "s_r s = rlp_str (if b then [1] else []) @ rest" "fits (length (rlp_str (if b then [1] else []))) s"
  shows "\<exists>s2. s_Bool s = (Inr b, s2) \<and> took s (rlp_str (if b then [1] else [])) s2"
proof -
  define v :: u64 where "v = (if b then 1 else 0)"
  have v: "big_Bytes (unat v) = (if b then [1] else [])" by (simp add: v_def big_Bytes_step)
  have "unat v < 256 ^ (8 div 8)" by (simp add: v_def)
  then obtain s2 where "s_uint 8 s = (Inr v, s2)" "took s (rlp_str (if b then [1] else [])) s2"
    using s_uint_fits [OF assms(1,2), of v rest 8, unfolded v, OF assms(3,4)] by auto
  then show ?thesis by (simp add: s_Bool_def v_def)
qed

lemma decodeByteArray_fits:
  assumes "sok s" "s_kind s = None" "s_r s = rlp_str b @ rest" "fits (length (rlp_str b)) s" "length b < 2 ^ 64" "length b \<noteq> 1"
  shows "\<exists>s2. decodeByteArray t (length b) s = (Inr (VBytes b), s2) \<and> took s (rlp_str b) s2"
proof -
  define sz :: u64 where "sz = of_nat (length b)"
  have z: "unat sz = length b" using assms(5) by (simp add: sz_def unat_of_nat)
  have e: "rlp_str b = khead String sz 0 @ b" by (rule rlp_str_eq) (use assms(6) z in simp_all)
  obtain s1 where s1: "s_Kind s = (Inr (String, sz), s1)" "took s (khead String sz 0) (s1\<lparr>s_kind := None\<rparr>)" "fits (unat sz) s1" "sok s1"
    using s_Kind_fits [OF assms(1,2), of String sz 0 "b @ rest"] assms(3,4) e z by (auto simp: khead_ok_def)
  have r: "s_r s1 = b @ rest" using took_ok(3) [OF s1(2)] assms(3) e by simp
  obtain s2 where s2: "readFull sz s1 = (Inr b, s2)" "took s1 b s2" using readFull_fits [OF s1(4,3)] r z by auto
  have "took s (rlp_str b) s2" using took_trans [OF s1(2), of b s2] s2(2) e by simp
  moreover have "sz \<noteq> 1" using assms(6) z by auto
  ultimately show ?thesis using s1(1) s2(1) z by (auto simp: decodeByteArray_def)
qed

lemma big_of_big_Bytes: "0 \<le> i \<Longrightarrow> big_of_bytes t (big_Bytes (nat i)) = Inr i"
  using hd_big_Bytes [of "nat i"] by (auto simp: big_of_bytes_def big_SetBytes_nat)

text \<open>A list whose content is decoded inside it.\<close>

lemma list_fits:
  assumes "sok s" "s_kind s = None" "s_r s = rlp_lst p @ rest" "fits (length (rlp_lst p)) s" "length p < 2 ^ 64"
  obtains s1 where "s_List s = (Inr (of_nat (length p)), s1)" "sok s1" "s_kind s1 = None" "s_r s1 = p @ rest" "\<exists>rs. rooms s1 = length p # rs"
    "\<And>wrap v s2. took s1 p s2 \<Longrightarrow> \<exists>s3. list_end wrap v s2 = (Inr v, s3) \<and> took s (rlp_lst p) s3"
proof -
  obtain s1 where l: "s_List s = (Inr (of_nat (length p)), s1)" "s_r s1 = p @ rest" using s_List_fits [OF assms] by blast
  note L = s_List_Inr [OF assms(1,2) l(1)]
  have rm: "rooms s1 = length p # take_room (length (puthead 0xC0 0xF7 (of_nat (length p))) + length p) (rooms s)" using L(5) assms(5) by (simp add: unat_of_nat)
  have "\<exists>s3. list_end wrap v s2 = (Inr v, s3) \<and> took s (rlp_lst p) s3" if t: "took s1 p s2" for wrap v s2
  proof -
    have "rooms s2 = 0 # take_room (length (puthead 0xC0 0xF7 (of_nat (length p))) + length p) (rooms s)" using t rm by (simp add: took_def)
    then obtain s3 where e: "s_ListEnd s2 = (None, s3)" using s_ListEnd_fits [OF took_ok(1) [OF t]] by blast
    then show ?thesis using list_took [OF assms(1,2) l(1) t e] by (simp add: list_end_def)
  qed
  then show ?thesis using that [OF l(1) L(2,3) l(2)] rm by blast
qed

text \<open>
  The encoding of a value, wherever it stands in the input, is decoded to the value; a \<open>tail\<close> slice takes all that is left of the list it stands in.  The fuel covers a step
  for each byte and for each interface.
\<close>

lemma decode_complete:
  "has_type t v \<Longrightarrow> plain t \<Longrightarrow> \<not> tg_nilOK ts \<Longrightarrow> tg_tail ts \<longrightarrow> is_slice t \<and> (\<exists>rs. rooms s = length (enc t ts v) # rs) \<Longrightarrow> sok s \<Longrightarrow> s_kind s = None \<Longrightarrow>
     s_r s = enc t ts v @ rest \<Longrightarrow> fits (length (enc t ts v)) s \<Longrightarrow> length (enc t ts v) < 2 ^ 64 \<Longrightarrow> length (enc t ts v) + ifaces v < n \<Longrightarrow>
     \<exists>s'. decode n t ts s = Some (Inr v, s') \<and> took s (enc t ts v) s'"
  "have_type t vs \<Longrightarrow> plain t \<Longrightarrow> sok s \<Longrightarrow> s_kind s = None \<Longrightarrow> s_r s = enc_elems t vs @ rest \<Longrightarrow> rooms s = length (enc_elems t vs) # rs \<Longrightarrow>
     length (enc_elems t vs) < 2 ^ 64 \<Longrightarrow> length (enc_elems t vs) + sum_list (map ifaces vs) < n \<Longrightarrow>
     (\<exists>s'. slice_elems n t i acc s = Some (Inr (acc @ vs), s') \<and> took s (enc_elems t vs) s') \<and> (\<exists>s'. array_elems n t (length vs) i s = Some (Inr vs, s') \<and> took s (enc_elems t vs) s')"
  "fields_typed fs vs \<Longrightarrow> plain_fields fs \<Longrightarrow> sok s \<Longrightarrow> s_kind s = None \<Longrightarrow> s_r s = enc_fields fs vs @ rest \<Longrightarrow> rooms s = length (enc_fields fs vs) # rs \<Longrightarrow>
     length (enc_fields fs vs) < 2 ^ 64 \<Longrightarrow> length (enc_fields fs vs) + sum_list (map ifaces vs) < n \<Longrightarrow> \<exists>s'. dec_fields n fs s = Some (Inr vs, s') \<and> took s (enc_fields fs vs) s'"
proof (induction t v and t vs and fs vs arbitrary: ts s rest n and s rest rs n i acc and s rest rs n rule: has_type_have_type_fields_typed.induct)
  case (1 v)
  then show ?case using s_Raw_fits [OF "1.prems"(5,6)] by (fastforce split: gval.splits)
next
  case (2 m v)
  then obtain t u where v: "v = VIface (Some (t, u))" "m = 0" "t = TSlice (TUint 8) \<or> t = TSlice (TInterface 0)" "has_type t u" by (auto split: gval.splits option.splits)
  obtain n' where n: "n = Suc n'" using "2.prems"(10) by (cases n) auto
  have "length (enc t no_tags u) + ifaces u < n'" using "2.prems"(10) v(1) n by simp
  then obtain s' where d: "decode n' t no_tags s = Some (Inr u, s')" "took s (enc t no_tags u) s'"
    using "2.IH" [OF v(1) refl refl v(4), of no_tags s rest n'] "2.prems"(5-9) v by auto
  obtain r s1 where k: "s_Kind s = (r, s1)" by fastforce
  show ?case
  proof (cases "t = TSlice (TUint 8)")
    case True
    then obtain b where b: "s_Bytes s = (Inr b, s')" "u = VBytes b" using d(1) by (auto simp: dec_with_def split: prod.splits sum.splits)
    then obtain k' sz where "r = Inr (k', sz)" "k' \<noteq> List" using k by (auto simp: s_Bytes_def split: sum.splits Kind.splits)
    then show ?thesis using k after_Kind(1) [OF k] b d(2) v True by simp
  next
    case False
    then have l: "list_slice n' (TInterface 0) s = Some (Inr u, s')" using d(1) v(3) by simp
    then obtain sz where "r = Inr (List, sz)" using k by (auto simp: list_slice.simps s_List_def split: sum.splits prod.splits if_splits)
    then show ?thesis using k after_Kind(3) [OF k] l d(2) v False n by simp
  qed
next
  case (3 v)
  then obtain i where v: "v = VPtr (Some (VBig i))" "0 \<le> i" by (auto split: gval.splits option.splits)
  have "length (big_Bytes (nat i)) < 2 ^ 64" using "3.prems"(9) v rlp_str_longer [of "big_Bytes (nat i)"] by simp
  then show ?case using s_Bytes_fits [OF "3.prems"(5,6), of "big_Bytes (nat i)" rest] "3.prems"(7,8) v by (auto simp: dec_with_def big_of_big_Bytes)
next
  case (4 v)
  then obtain i where v: "v = VBig i" "0 \<le> i" by (auto split: gval.splits)
  have "length (big_Bytes (nat i)) < 2 ^ 64" using "4.prems"(9) v rlp_str_longer [of "big_Bytes (nat i)"] by simp
  then show ?case using s_Bytes_fits [OF "4.prems"(5,6), of "big_Bytes (nat i)" rest] "4.prems"(7,8) v by (auto simp: dec_with_def big_of_big_Bytes)
next
  case (5 b v)
  then obtain i where v: "v = VUint i" "unat i < 256 ^ (b div 8)" by (auto split: gval.splits)
  have "b div 8 \<le> 8" using "5.prems"(2) by auto
  then obtain s2 where "s_uint b s = (Inr i, s2)" "took s (enc (TUint b) ts v) s2"
    using s_uint_fits [OF "5.prems"(5,6), of i rest b] "5.prems"(7,8) v by auto
  then show ?case by (simp add: dec_with_def v(1))
next
  case (6 v)
  then obtain b where v: "v = VBool b" by (auto split: gval.splits)
  then obtain s2 where "s_Bool s = (Inr b, s2)" "took s (enc TBool ts v) s2" using s_Bool_fits [OF "6.prems"(5,6), of b rest] "6.prems"(7,8) by auto
  then show ?case by (simp add: dec_with_def v)
next
  case (7 v)
  then obtain b where v: "v = VBytes b" by (auto split: gval.splits)
  have "length b < 2 ^ 64" using "7.prems"(9) v rlp_str_longer [of b] by simp
  then show ?case using s_Bytes_fits [OF "7.prems"(5,6), of b rest] "7.prems"(7,8) v by (auto simp: dec_with_def)
next
  case (8 t v)
  show ?case
  proof (cases "t = TUint 8")
    case True
    then obtain b where v: "v = VBytes b" using "8.prems"(1) by (auto split: gval.splits)
    have "length b < 2 ^ 64" using "8.prems"(9) v True rlp_str_longer [of b] by simp
    then show ?thesis using s_Bytes_fits [OF "8.prems"(5,6), of b rest] "8.prems"(7,8) v True by (auto simp: dec_with_def)
  next
    case False
    then obtain vs where v: "v = VList vs" "have_type t vs" using "8.prems"(1) by (auto split: gval.splits)
    define p where "p = enc_elems t vs"
    have pl: "plain t" using "8.prems"(2) by simp
    show ?thesis
    proof (cases "tg_tail ts")
      case True
      then obtain rs where "rooms s = length p # rs" using "8.prems"(4) False v by (auto simp: p_def)
      then show ?thesis using "8.IH" [OF False v pl "8.prems"(5,6), of rest rs n 0 "[]"] "8.prems"(7,9,10) False v True by (auto simp: p_def)
    next
      case tail: False
      have e: "enc (TSlice t) ts v = rlp_lst p" using False tail v by (simp add: p_def)
      have len: "length p < 2 ^ 64" "length p + sum_list (map ifaces vs) < n" using "8.prems"(9,10) rlp_lst_longer [of p] unfolding e by (simp_all add: v)
      obtain s1 rs where s1: "s_List s = (Inr (of_nat (length p)), s1)" "sok s1" "s_kind s1 = None" "s_r s1 = p @ rest" "rooms s1 = length p # rs"
        "\<And>wrap v s2. took s1 p s2 \<Longrightarrow> \<exists>s3. list_end wrap v s2 = (Inr v, s3) \<and> took s (rlp_lst p) s3"
        using list_fits [OF "8.prems"(5,6) _ _ len(1), of rest] "8.prems"(7,8) unfolding e by metis
      show ?thesis
      proof (cases "vs = []")
        case True
        then show ?thesis using s1(1) s1(6) [of s1 id "VList []"] took_refl [OF s1(2,3)] False tail v e by (auto simp: p_def list_slice.simps)
      next
        case ne: False
        then have "p \<noteq> []" using v(2) enc_nonempty(1) [of t _ no_tags] by (cases vs) (auto simp: p_def)
        moreover have "unat (of_nat (length p) :: u64) = length p" using len(1) by (simp add: unat_of_nat)
        ultimately have nz: "of_nat (length p) \<noteq> (0 :: u64)" by (auto simp: word_unat_eq_iff)
        obtain s2 where s2: "slice_elems n t 0 [] s1 = Some (Inr vs, s2)" "took s1 p s2"
          using "8.IH" [OF False v pl s1(2,3), of rest rs n 0 "[]"] s1(4,5) len unfolding p_def by auto
        then show ?thesis using s1(1) nz s1(6) [OF s2(2), of id "VList vs"] e False tail v(1) by (auto simp: list_slice.simps)
      qed
    qed
  qed
next
  case (9 k t v)
  have tail: "\<not> tg_tail ts" using "9.prems"(4) by (auto simp: is_slice_def)
  show ?case
  proof (cases "t = TUint 8")
    case True
    then obtain b where v: "v = VBytes b" "length b = k" using "9.prems"(1) by (auto split: gval.splits)
    have "length b < 2 ^ 64" "length b \<noteq> 1" using "9.prems"(2,9) v True rlp_str_longer [of b] by simp_all
    then show ?thesis using decodeByteArray_fits [OF "9.prems"(5,6), of b rest] "9.prems"(7,8) v True by auto
  next
    case False
    then obtain vs where v: "v = VList vs" "length vs = k" "have_type t vs" using "9.prems"(1) by (auto split: gval.splits)
    define p where "p = enc_elems t vs"
    have e: "enc (TArray k t) ts v = rlp_lst p" using False tail v by (simp add: p_def)
    have len: "length p < 2 ^ 64" "length p + sum_list (map ifaces vs) < n" using "9.prems"(9,10) rlp_lst_longer [of p] unfolding e by (simp_all add: v)
    obtain s1 rs where s1: "s_List s = (Inr (of_nat (length p)), s1)" "sok s1" "s_kind s1 = None" "s_r s1 = p @ rest" "rooms s1 = length p # rs"
      "\<And>wrap v s2. took s1 p s2 \<Longrightarrow> \<exists>s3. list_end wrap v s2 = (Inr v, s3) \<and> took s (rlp_lst p) s3"
      using list_fits [OF "9.prems"(5,6) _ _ len(1), of rest] "9.prems"(7,8) unfolding e by metis
    have "plain t" using "9.prems"(2) by simp
    then obtain s2 where s2: "array_elems n t k 0 s1 = Some (Inr vs, s2)" "took s1 p s2"
      using "9.IH" [OF False v(1,3) _ s1(2,3), of rest rs n 0] s1(4,5) len v(2) unfolding p_def by blast
    then show ?thesis using s1(1) s1(6) [OF s2(2), of "\<lambda>e. wrapStreamError e (TArray k t)" "VList vs"] e False v(1) by auto
  qed
next
  case (10 fs v)
  then obtain vs where v: "v = VStruct vs" "fields_typed fs vs" by (auto split: gval.splits)
  define p where "p = enc_fields fs vs"
  have e: "enc (TStruct fs) ts v = rlp_lst p" using v by (simp add: p_def)
  have len: "length p < 2 ^ 64" "length p + sum_list (map ifaces vs) < n" using "10.prems"(9,10) rlp_lst_longer [of p] unfolding e by (simp_all add: v)
  obtain s1 rs where s1: "s_List s = (Inr (of_nat (length p)), s1)" "sok s1" "s_kind s1 = None" "s_r s1 = p @ rest" "rooms s1 = length p # rs"
    "\<And>wrap v s2. took s1 p s2 \<Longrightarrow> \<exists>s3. list_end wrap v s2 = (Inr v, s3) \<and> took s (rlp_lst p) s3"
    using list_fits [OF "10.prems"(5,6) _ _ len(1), of rest] "10.prems"(7,8) unfolding e by metis
  have "plain_fields fs" using "10.prems"(2) by simp
  then obtain s2 where s2: "dec_fields n fs s1 = Some (Inr vs, s2)" "took s1 p s2"
    using "10.IH" [OF v _ s1(2,3), of rest rs n] s1(4,5) len unfolding p_def by blast
  then show ?case using s1(1) s1(6) [OF s2(2), of "\<lambda>e. wrapStreamError e (TStruct fs)" "VStruct vs"] e v(1) by auto
next
  case (11 t v)
  then show ?case by (auto split: gval.splits option.splits)
next
  case (12 v)
  then show ?case by simp
next
  case (13 t)
  then obtain n' where "n = Suc n'" by (cases n) auto
  then show ?case using decode_end [OF "13.prems"(3,4) _ "13.prems"(2), of rs n] "13.prems"(6) took_refl [OF "13.prems"(3,4)] by (auto simp: at_end_def)
next
  case (14 t v vs)
  then obtain n' where n: "n = Suc n'" by (cases n) auto
  have ty: "has_type t v" "have_type t vs" using "14.prems"(1) by simp_all
  have ne: "enc t no_tags v \<noteq> []" using enc_nonempty(1) [OF ty(1)] by simp
  have "fits (length (enc t no_tags v)) s" using "14.prems"(5,6) by (simp add: fits_def)
  then obtain s1 where d: "decode n t no_tags s = Some (Inr v, s1)" "took s (enc t no_tags v) s1"
    using "14.IH"(1) [OF ty(1) "14.prems"(2), of no_tags s "enc_elems t vs @ rest" n] "14.prems"(3-8) by auto
  have s1: "s_r s1 = enc_elems t vs @ rest" "rooms s1 = length (enc_elems t vs) # rs" using d(2) "14.prems"(5,6) by (auto simp: took_def)
  have "length (enc_elems t vs) < 2 ^ 64" using "14.prems"(7) by simp
  note IH = "14.IH"(2) [OF ty(2) "14.prems"(2) took_ok(1,2) [OF d(2)] s1 this]
  have "length (enc_elems t vs) + sum_list (map ifaces vs) < n'" using "14.prems"(8) n ne by (cases "enc t no_tags v") auto
  from IH [OF this, of "Suc i" "acc @ [v]"] obtain s2 where a: "slice_elems n' t (Suc i) (acc @ [v]) s1 = Some (Inr (acc @ v # vs), s2)" "took s1 (enc_elems t vs) s2" by auto
  have "length (enc_elems t vs) + sum_list (map ifaces vs) < n" using "14.prems"(8) by simp
  from IH [OF this, of "Suc i"] obtain s3 where b: "array_elems n t (length vs) (Suc i) s1 = Some (Inr vs, s3)" "took s1 (enc_elems t vs) s3" by auto
  show ?case using d a b n took_trans [OF d(2)] by simp
next
  case (15 vs)
  then show ?case by (simp add: took_refl)
next
  case (16 f t fs vs)
  then obtain v us where vs: "vs = v # us" "fields_typed fs us" by (auto split: list.splits)
  have pf: "plain_fields fs" using "16.prems"(2) by simp
  show ?case
  proof (cases "\<exists>ts. fd_exported f \<and> parseStructTag (fs = []) f t = Inr ts \<and> \<not> tg_ignored ts")
    case True
    then obtain ts where c: "fd_exported f" "parseStructTag (fs = []) f t = Inr ts" "\<not> tg_ignored ts" by blast
    have ty: "has_type t v" "plain t" "\<not> tg_nilOK ts" using "16.prems"(1,2) c vs by auto
    have e: "enc_fields ((f, t) # fs) vs = enc t ts v @ enc_fields fs us" using vs c by simp
    have tl: "tg_tail ts \<longrightarrow> is_slice t \<and> (\<exists>rs. rooms s = length (enc t ts v) # rs)" using parseStructTag_tail [OF c(2)] "16.prems"(6) unfolding e by auto
    have "fits (length (enc t ts v)) s" using "16.prems"(5,6) unfolding e by (simp add: fits_def)
    then obtain s1 where d: "decode n t ts s = Some (Inr v, s1)" "took s (enc t ts v) s1"
      using "16.IH"(2) [OF vs(1) _ c(2,3) ty tl "16.prems"(3,4), of "enc_fields fs us @ rest" n] c(1) "16.prems"(5,7,8) unfolding e by (auto simp: vs(1))
    have s1: "s_r s1 = enc_fields fs us @ rest" "rooms s1 = length (enc_fields fs us) # rs" using d(2) "16.prems"(5,6) unfolding e by (auto simp: took_def)
    have "length (enc_fields fs us) < 2 ^ 64" "length (enc_fields fs us) + sum_list (map ifaces us) < n" using "16.prems"(7,8) unfolding e by (simp_all add: vs(1))
    then obtain s2 where "dec_fields n fs s1 = Some (Inr us, s2)" "took s1 (enc_fields fs us) s2" using "16.IH"(1) [OF vs pf took_ok(1,2) [OF d(2)] s1] by blast
    then show ?thesis using d(1) c took_trans [OF d(2)] unfolding e by (auto simp: vs(1))
  next
    case False
    have "enc_fields ((f, t) # fs) vs = enc_fields fs us \<and> v = zero_val t" using False "16.prems"(1,2) vs(1) by (auto split: sum.splits if_splits)
    then show ?thesis using "16.IH"(1) [OF vs pf "16.prems"(3,4), of rest rs n] "16.prems"(2,5-8) False vs(1) by (auto split: sum.splits if_splits)
  qed
qed

end
