(* ===== verification/Rlp_Props.thy ===== *)
theory Rlp_Props
  imports Rlp_Inverse
begin

text \<open>
  What the package \<open>rlp\<close> promises.  For a type without arrays of one byte and without \<open>nil\<close> tags, decoding accepts exactly the encodings of the values of the type, and it
  always ends; on an array of one zero byte the decoder does not move ahead, and a list of them keeps it busy for ever.  The three ways to get at an encoding agree.
\<close>

section \<open>The package\<close>

lemma plain_genTypeInfo: "plain t \<Longrightarrow> genTypeInfo t = None" "plain_fields fs \<Longrightarrow> structFields fs = None"
  by (induction t and fs rule: genTypeInfo_structFields.induct) (auto split: sum.splits)

lemma writer_ok:
  "has_type t v \<Longrightarrow> plain t \<Longrightarrow> \<exists>w'. writer t ts v w = Inr w'"
  "have_type t vs \<Longrightarrow> plain t \<Longrightarrow> \<exists>w'. write_elems t vs w = Inr w'"
  "fields_typed fs vs \<Longrightarrow> plain_fields fs \<Longrightarrow> \<exists>w'. write_fields fs vs w = Inr w'"
proof (induction t v and t vs and fs vs arbitrary: ts w and w and w rule: has_type_have_type_fields_typed.induct)
  case (2 m v)
  then obtain t u where v: "v = VIface (Some (t, u))" "t = TSlice (TUint 8) \<or> t = TSlice (TInterface 0)" "has_type t u" by (auto split: gval.splits option.splits)
  then have t: "plain t" "genTypeInfo t = None" by auto
  show ?case using "2.IH" [OF v(1) refl refl v(3) t(1)] v(1) t(2) by simp
next
  case (8 t v)
  then show ?case by (cases "t = TUint 8"; cases v; simp add: case_prod_beta Let_def split: sum.splits) (metis old.sum.exhaust sum.distinct(1))
next
  case (9 k t v)
  then show ?case by (cases "t = TUint 8"; cases v; simp add: case_prod_beta Let_def split: sum.splits) (metis old.sum.exhaust sum.distinct(1))
next
  case (10 fs v)
  then show ?case by (cases v; simp add: case_prod_beta Let_def split: sum.splits) (metis old.sum.exhaust sum.distinct(1))
next
  case (14 t v vs)
  then have "\<exists>w1. writer t no_tags v w = Inr w1" by simp
  then obtain w1 where "writer t no_tags v w = Inr w1" ..
  then show ?case using "14.IH"(2) [of w1] "14.prems" by simp
next
  case (16 f t fs vs)
  then obtain v us where vs: "vs = v # us" "fields_typed fs us" by (auto split: list.splits)
  have IH: "\<exists>w'. write_fields fs us w1 = Inr w'" for w1 using "16.IH"(1) [OF vs] "16.prems"(2) by simp
  show ?case
  proof (cases "\<exists>ts. fd_exported f \<and> parseStructTag (fs = []) f t = Inr ts \<and> \<not> tg_ignored ts")
    case True
    then obtain ts where c: "fd_exported f" "parseStructTag (fs = []) f t = Inr ts" "\<not> tg_ignored ts" by blast
    then obtain w1 where "writer t ts v w = Inr w1" using "16.IH"(2) [OF vs(1) _ c(2,3), of ts w] "16.prems" vs(1) by auto
    then show ?thesis using c vs(1) IH by simp
  qed (use "16.prems" vs(1) IH in \<open>auto split: sum.splits if_splits\<close>)
qed (auto split: gval.splits option.splits simp: writeBigInt_def)

lemma NewStream_ok: "length b < 2 ^ 64 \<Longrightarrow> sok (NewStream b (of_nat (length b))) \<and> rooms (NewStream b (of_nat (length b))) = []"
  by (simp add: NewStream_def sok_def rooms_def unat_of_nat)

lemma NewStream_simps [simp]: "s_r (NewStream b l) = b" "s_kind (NewStream b l) = None"
  by (simp_all add: NewStream_def)

lemma DecodeBytes_plain: "plain t \<Longrightarrow> DecodeBytes n b t = Some (Inr v) \<longleftrightarrow> (\<exists>s. decode n t no_tags (NewStream b (of_nat (length b))) = Some (Inr v, s) \<and> s_r s = [])"
  by (cases "decode n t no_tags (NewStream b (of_nat (length b)))"; cases "fst (the (decode n t no_tags (NewStream b (of_nat (length b)))))")
     (auto simp: DecodeBytes_def s_Decode_def plain_genTypeInfo split: if_splits)

lemma encode_plain:
  assumes "plain t" "has_type t v" "length (enc t no_tags v) < 2 ^ 64"
  shows "EncodeToBytes t v = Some (Inr (enc t no_tags v))"
proof -
  from writer_ok(1) [OF assms(2,1)] obtain w where "eb_encode t v eb_reset = Inr w" by (auto simp: eb_encode_def plain_genTypeInfo assms(1))
  then show ?thesis using EncodeToBytes_correct assms(3) by blast
qed

lemma decode_plain:
  assumes "plain t" "has_type t v" "length (enc t no_tags v) < 2 ^ 64" "length (enc t no_tags v) < n"
  shows "DecodeBytes n (enc t no_tags v) t = Some (Inr v)"
proof -
  let ?b = "enc t no_tags v" and ?s = "NewStream (enc t no_tags v) (of_nat (length (enc t no_tags v)))"
  have ok: "sok ?s" "rooms ?s = []" using NewStream_ok [OF assms(3)] by simp_all
  obtain r where r: "decode n t no_tags ?s = Some r" using decode_ends(1) [of ?s n t no_tags] assms(1,4) ok(1) by auto
  define m where "m = n + ifaces v"
  have "decode m t no_tags ?s = Some r" using decode_fuel [OF _ r, of m] by (simp add: m_def)
  moreover obtain s' where "decode m t no_tags ?s = Some (Inr v, s')" "took ?s ?b s'"
    using decode_complete(1) [OF assms(2,1), of no_tags ?s "[]" m] ok assms(3,4) by (auto simp: fits_def m_def)
  ultimately show ?thesis using r by (auto simp: DecodeBytes_plain assms(1) took_def)
qed

lemma accepted_is_encoding:
  assumes "plain t" "length b < 2 ^ 64" "DecodeBytes n b t = Some (Inr v)"
  shows "has_type t v" "EncodeToBytes t v = Some (Inr b)"
proof -
  obtain s where s: "decode n t no_tags (NewStream b (of_nat (length b))) = Some (Inr v, s)" "s_r s = []" using assms(3) by (auto simp: DecodeBytes_plain [OF assms(1)])
  have "took (NewStream b (of_nat (length b))) (enc t no_tags v) s \<and> has_type t v" using decode_sound(1) [OF s(1)] NewStream_ok [OF assms(2)] assms(1) by simp
  moreover from this have "enc t no_tags v = b" using s(2) by (simp add: took_def)
  ultimately show "has_type t v" "EncodeToBytes t v = Some (Inr b)" using encode_plain [OF assms(1), of v] assms(2) by auto
qed

text \<open>Claim C33.  Decoding and encoding are inverse to each other, for every type without one-byte arrays and \<open>nil\<close> tags.  What \<open>DecodeBytes\<close> accepts is a value of the type
  whose encoding is the input, byte for byte, so no value has two encodings; and a value of the type is encoded to bytes from which it is read back.\<close>

theorem rlp_decode_inverts_encode:
  assumes "plain t"
  shows "(\<forall>n b v. length b < 2 ^ 64 \<longrightarrow> DecodeBytes n b t = Some (Inr v) \<longrightarrow> has_type t v \<and> EncodeToBytes t v = Some (Inr b)) \<and>
    (\<forall>v. has_type t v \<longrightarrow> length (enc t no_tags v) < 2 ^ 64 \<longrightarrow> (\<exists>b. EncodeToBytes t v = Some (Inr b) \<and> (\<forall>n>length b. DecodeBytes n b t = Some (Inr v))))"
proof (intro conjI allI impI)
  fix n b v assume "length b < 2 ^ 64" "DecodeBytes n b t = Some (Inr v)"
  then show "has_type t v" "EncodeToBytes t v = Some (Inr b)" by (fact accepted_is_encoding [OF assms])+
next
  fix v assume "has_type t v" "length (enc t no_tags v) < 2 ^ 64"
  then show "\<exists>b. EncodeToBytes t v = Some (Inr b) \<and> (\<forall>n>length b. DecodeBytes n b t = Some (Inr v))"
    using encode_plain [OF assms, of v] decode_plain [OF assms, of v] by blast
qed

lemma uints_encoding: "EncodeToBytes (TSlice (TUint 64)) (VList [VUint 5, VUint 1000]) = Some (Inr [0xC4, 5, 0x82, 3, 0xE8])"
  by code_simp

lemma uints_enc: "enc (TSlice (TUint 64)) no_tags (VList [VUint 5, VUint 1000]) = [0xC4, 5, 0x82, 3, 0xE8]"
  by code_simp

theorem rlp_decode_inverts_encode_witness:
  "EncodeToBytes (TSlice (TUint 64)) (VList [VUint 5, VUint 1000]) = Some (Inr [0xC4, 5, 0x82, 3, 0xE8]) \<and>
   DecodeBytes 6 [0xC4, 5, 0x82, 3, 0xE8] (TSlice (TUint 64)) = Some (Inr (VList [VUint 5, VUint 1000]))"
  using rlp_decode_inverts_encode [of "TSlice (TUint 64)", THEN conjunct2, rule_format, of "VList [VUint 5, VUint 1000]"] uints_encoding
  by (simp add: uints_enc unat_of_nat del: enc.simps)

lemma DecodeBytes_fuel: "n \<le> m \<Longrightarrow> DecodeBytes n b t = Some r \<Longrightarrow> DecodeBytes m b t = Some r"
  using decode_fuel [of n m t no_tags "NewStream b (of_nat (length b))"] by (auto simp: DecodeBytes_def s_Decode_def split: option.splits)

text \<open>Claim C34.  Decoding ends on every input, well formed or not: with a fuel beyond the length of the input, \<open>DecodeBytes\<close> into a type without one-byte arrays and \<open>nil\<close> tags has
  returned, with a value or an error, and more fuel does not change what it returns.\<close>

theorem rlp_decoding_ends:
  assumes "plain t" "length b < 2 ^ 64" "length b < n"
  shows "\<exists>r. \<forall>m\<ge>n. DecodeBytes m b t = Some r"
proof -
  have "decode n t no_tags (NewStream b (of_nat (length b))) \<noteq> None" using decode_ends(1) [of "NewStream b (of_nat (length b))" n t no_tags] NewStream_ok [OF assms(2)] assms by simp
  then obtain r where "DecodeBytes n b t = Some r" by (auto simp: DecodeBytes_def s_Decode_def plain_genTypeInfo assms(1))
  then show ?thesis using DecodeBytes_fuel [of n _ b t r] by blast
qed

theorem rlp_decoding_ends_witness: "\<exists>r. \<forall>m\<ge>3. DecodeBytes m [0xC1, 0] (TSlice (TUint 64)) = Some r"
  using rlp_decoding_ends [of "TSlice (TUint 64)" "[0xC1, 0]" 3] by simp

section \<open>One-byte arrays\<close>

text \<open>The stream inside the list of one zero byte, once the kind of the byte has been read: \<open>Uint\<close> refuses it and leaves it there.\<close>

definition stuck :: "Stream \<Rightarrow> bool" where
  "stuck s \<longleftrightarrow> s_kind s = Some Byte \<and> s_kinderr s = None \<and> s_byteval s = 0"

lemma stuck_byte: "stuck s \<Longrightarrow> decode n (TArray (Suc 0) (TUint 8)) ts s = Some (Inr (VBytes [0]), s)"
  by (simp add: decodeByteArray_def s_Kind_def s_uint_def stuck_def)

lemma stuck_list: "stuck s \<Longrightarrow> slice_elems n (TArray 1 (TUint 8)) i acc s = None"
  by (induction n arbitrary: i acc) (simp_all add: stuck_byte del: decode.simps)

lemma zero_byte_list:
  assumes "s_Kind s = (Inr (List, 1), s1)" "s_r s1 = 0 # r" "s_limited s1" "1 \<le> s_remaining s1"
  shows "list_slice n (TArray 1 (TUint 8)) s = None"
proof -
  let ?s2 = "s1\<lparr>s_stack := (0, 1) # s_stack s1, s_kind := None, s_size := 0\<rparr>"
  obtain s3 where k: "s_Kind ?s2 = (Inr (Byte, 0), s3)" "stuck s3"
    using assms(2-4) by (auto simp: s_Kind_def s_readKind_def readByte_def willRead_def Let_def stuck_def word_le_nat_alt word_less_nat_alt)
  have "slice_elems n (TArray (Suc 0) (TUint 8)) 0 [] ?s2 = None"
  proof (cases n)
    case (Suc m)
    have "decode n (TArray (Suc 0) (TUint 8)) no_tags ?s2 = Some (Inr (VBytes [0]), s3)" using k by (simp add: decodeByteArray_def s_uint_def s_Kind_def [of s3] stuck_def)
    then show ?thesis using stuck_list [OF k(2)] by (simp add: Suc del: decode.simps)
  qed simp
  then show ?thesis using assms(1) by (simp add: list_slice.simps s_List_def)
qed

text \<open>The struct with an array of one byte and a number, and the list of such arrays.\<close>

definition pair_type :: gtype where
  "pair_type = TStruct [(\<lparr> fd_Name = ''A'', fd_exported = True, fd_tag = [] \<rparr>, TArray 1 (TUint 8)), (\<lparr> fd_Name = ''B'', fd_exported = True, fd_tag = [] \<rparr>, TUint 64)]"

text \<open>An array of one zero byte is written as the byte itself, which \<open>Uint\<close> refuses; \<open>decodeByteArray\<close> drops that error and the stream keeps standing before the byte.  So the
  encoding of a struct with such an array before a number is refused, and decoding the two bytes that encode a list of one such array never ends.\<close>

theorem rlp_zero_byte_array_is_not_read:
  "EncodeToBytes pair_type (VStruct [VBytes [0], VUint 5]) = Some (Inr [0xC2, 0, 5]) \<and>
   DecodeBytes n [0xC2, 0, 5] pair_type = Some (Inl (DecErr MsgCanonInt (TUint 64) [CtxField ''B'', CtxTarget pair_type])) \<and>
   EncodeToBytes (TSlice (TArray 1 (TUint 8))) (VList [VBytes [0]]) = Some (Inr [0xC1, 0]) \<and>
   DecodeBytes n [0xC1, 0] (TSlice (TArray 1 (TUint 8))) = None"
proof (intro conjI)
  show "EncodeToBytes pair_type (VStruct [VBytes [0], VUint 5]) = Some (Inr [0xC2, 0, 5])" by code_simp
  show "EncodeToBytes (TSlice (TArray 1 (TUint 8))) (VList [VBytes [0]]) = Some (Inr [0xC1, 0])" by code_simp
  have "DecodeBytes 0 [0xC2, 0, 5] pair_type = Some (Inl (DecErr MsgCanonInt (TUint 64) [CtxField ''B'', CtxTarget pair_type]))" by code_simp
  then show "DecodeBytes n [0xC2, 0, 5] pair_type = Some (Inl (DecErr MsgCanonInt (TUint 64) [CtxField ''B'', CtxTarget pair_type]))" by (rule DecodeBytes_fuel [rotated]) simp
  let ?s = "NewStream [0xC1, 0] 2"
  define s1 where "s1 = snd (s_Kind ?s)"
  have "s_Kind ?s = (Inr (List, 1), s1)" "s_r s1 = [0]" "s_limited s1" "1 \<le> s_remaining s1" unfolding s1_def by code_simp+
  then have "list_slice n (TArray 1 (TUint 8)) ?s = None" by (rule zero_byte_list)
  then show "DecodeBytes n [0xC1, 0] (TSlice (TArray 1 (TUint 8))) = None" by (simp add: DecodeBytes_def s_Decode_def)
qed

section \<open>Three ways to an encoding\<close>

text \<open>Claim C35.  The bytes of \<open>EncodeToBytes\<close>, what \<open>Encode\<close> hands to a writer that takes everything, and what comes out of the reader of \<open>EncodeToReader\<close> when it is read with buffers of
  any sizes are the encoding of the value, and the size that \<open>EncodeToReader\<close> announces is its length.\<close>

theorem rlp_outputs_agree:
  assumes "eb_encode t v eb_reset = Inr w" "length (enc t no_tags v) < 2 ^ 64"
  shows "EncodeToBytes t v = Some (Inr (enc t no_tags v)) \<and>
    Encode (\<lambda>st b. (length b, False, st @ b)) t v out = Inr (False, out @ enc t no_tags v) \<and>
    (\<exists>r. EncodeToReader t v = Inr (length (enc t no_tags v), r) \<and> (\<forall>ks. read_all ks r = Some (take (sum_list ks) (enc t no_tags v))))"
  using EncodeToBytes_correct [OF assms] EncodeToReader_correct [OF assms] eb_encode_correct [OF assms] toWriter_correct [of w out] assms(1) by (simp add: Encode_def)

theorem rlp_outputs_agree_witness:
  "Encode (\<lambda>st b. (length b, False, st @ b)) (TSlice (TUint 64)) (VList [VUint 5, VUint 1000]) [7] = Inr (False, [7, 0xC4, 5, 0x82, 3, 0xE8])"
proof -
  obtain w where w: "eb_encode (TSlice (TUint 64)) (VList [VUint 5, VUint 1000]) eb_reset = Inr w" by (cases "eb_encode (TSlice (TUint 64)) (VList [VUint 5, VUint 1000]) eb_reset") (auto simp: eb_encode_def eb_list_def)
  show ?thesis using rlp_outputs_agree [OF w, of "[7]"] by (simp add: uints_enc del: enc.simps)
qed

end
