(* ===== verification/Rlp_Tx.thy ===== *)
theory Rlp_Tx
  imports Rlp_Props
begin

text \<open>
  The way of a raw transaction from the command line to the node: the client encodes it with \<open>rlp\<close> and writes it as a hexadecimal string, and \<open>SendTxMsg\<close> reads it back.
  \<open>tx_type\<close> is the struct \<open>common.Transaction\<close> as reflection sees it.
\<close>

section \<open>Model\<close>

definition ToHex :: "bytes \<Rightarrow> string" where
  "ToHex b = (let hex = ByteToHex b in ''0x'' @ (if length hex = 0 then ''0'' else hex))"

definition FromHex :: "string \<Rightarrow> bytes" where
  "FromHex s0 = (let s = (if length s0 > 1 \<and> (take 2 s0 = ''0x'' \<or> take 2 s0 = ''0X'') then drop 2 s0 else s0) in
     HexToByte (if length s mod 2 = 1 then CHR ''0'' # s else s))"

definition tx_type :: gtype where
  "tx_type = TStruct (map (\<lambda>(n, t). (\<lparr> fd_Name = n, fd_exported = True, fd_tag = [] \<rparr>, t))
     [(''ContractName'', TString), (''Payload'', TSlice (TUint 8)), (''Txid'', TArray 32 (TUint 8)), (''From'', TArray 20 (TUint 8)), (''NonceValue'', TUint 64),
      (''V'', TBigIntPtr), (''R'', TBigIntPtr), (''S'', TBigIntPtr)])"

definition tx_gval :: "transaction \<Rightarrow> gval" where
  "tx_gval tx = VStruct [VBytes (ascii (tx_ContractName tx)), VBytes (tx_Payload tx), VBytes (tx_Txid tx), VBytes (tx_From tx), VUint (tx_NonceValue tx),
     VPtr (map_option VBig (tx_V tx)), VPtr (map_option VBig (tx_R tx)), VPtr (map_option VBig (tx_S tx))]"

definition big_gval :: "gval option \<Rightarrow> int option" where
  "big_gval v = (case v of Some (VBig i) \<Rightarrow> Some i | _ \<Rightarrow> None)"

definition gval_tx :: "gval \<Rightarrow> transaction option" where
  "gval_tx v = (case v of VStruct [VBytes cn, VBytes p, VBytes i, VBytes f, VUint n, VPtr vv, VPtr r, VPtr s] \<Rightarrow>
       Some \<lparr> tx_ContractName = map (\<lambda>c. char_of (unat c)) cn, tx_Payload = p, tx_Txid = i, tx_From = f, tx_NonceValue = n, tx_V = big_gval vv, tx_R = big_gval r, tx_S = big_gval s \<rparr>
     | _ \<Rightarrow> None)"

text \<open>The parameter string of \<open>sendRawTransaction\<close>; \<open>msp.SignTx\<close> returns a pointer to the transaction.  An error of the encoder is dropped and the string is of no bytes.\<close>

definition raw_transaction :: "transaction \<Rightarrow> string option" where
  "raw_transaction tx = map_option (\<lambda>r. ToHex (case r of Inl e \<Rightarrow> [] | Inr mt \<Rightarrow> mt)) (EncodeToBytes (TPtr tx_type) (VPtr (Some (tx_gval tx))))"

text \<open>\<open>SendTxMsg\<close> from the string to the transaction whose identifier is to be computed.\<close>

definition decode_raw :: "nat \<Rightarrow> string \<Rightarrow> (rlp_error + transaction) option" where
  "decode_raw n rawTransaction = (case DecodeBytes n (FromHex rawTransaction) tx_type of None \<Rightarrow> None
     | Some (Inl err) \<Rightarrow> Some (Inl err)
     | Some (Inr v) \<Rightarrow> (case gval_tx v of None \<Rightarrow> Some (Inl Mistyped) | Some msgTx \<Rightarrow> Some (Inr (msgTx\<lparr>tx_Txid := replicate 32 0\<rparr>))))"

section \<open>Hexadecimal strings\<close>

lemma length_ByteToHex [simp]: "length (ByteToHex b) = 2 * length b"
  by (induction b) (simp_all add: ByteToHex_def)

lemma FromHex_ToHex [simp]: "b \<noteq> [] \<Longrightarrow> FromHex (ToHex b) = b"
  using length_ByteToHex [of b] by (auto simp: FromHex_def ToHex_def Let_def simp del: length_ByteToHex)

lemma FromHex_shorter: "length (FromHex s) \<le> length s"
proof -
  have "length (HexToByte h) = length h div 2" for h by (induction h rule: HexToByte.induct) simp_all
  moreover have "Suc k div 2 \<le> k" if "k mod 2 = 1" for k :: nat using that by (cases k) auto
  moreover have "(k - 2) div 2 \<le> k" "Suc (k - 2) div 2 \<le> k" if "1 < k" for k :: nat using that by auto
  ultimately show ?thesis by (simp add: FromHex_def Let_def)
qed

section \<open>Transactions\<close>

lemma untagged [simp]: "fd_tag f = [] \<Longrightarrow> parseStructTag l f t = Inr no_tags"
  by (simp add: parseStructTag_def trim_space_def)

lemma not_ignored [simp]: "\<not> tg_ignored no_tags"
  by (simp add: no_tags_def)

lemma plain_tx_type [simp]: "plain tx_type"
  by (simp add: tx_type_def)

lemma ascii_inverse [simp]: "map (\<lambda>c. char_of (unat c)) (ascii s) = s" "ascii (map (\<lambda>c. char_of (unat c)) b) = b"
proof -
  have c: "char_of (unat (of_char c :: byte)) = c" for c
  proof -
    have "unat (of_nat (of_char c) :: byte) = of_char c" by (simp add: unat_of_nat)
    then show ?thesis by (simp add: of_nat_of_char)
  qed
  have "(of_char (char_of (unat x)) :: byte) = x" for x
  proof -
    have "unat x < 2 ^ LENGTH(8)" by (rule unsigned_less)
    then have "(of_nat (of_char (char_of (unat x))) :: byte) = x" by (simp add: of_char_of)
    then show ?thesis by (simp only: of_nat_of_char)
  qed
  with c show "map (\<lambda>c. char_of (unat c)) (ascii s) = s" "ascii (map (\<lambda>c. char_of (unat c)) b) = b" by (simp_all add: ascii_def o_def)
qed

text \<open>A transaction of the struct type with a signature that is not negative, and the transaction with the numbers that are there in place of nil.\<close>

definition tx_valid :: "transaction \<Rightarrow> bool" where
  "tx_valid tx \<longleftrightarrow> length (tx_Txid tx) = 32 \<and> length (tx_From tx) = 20 \<and> (\<forall>x\<in>{tx_V tx, tx_R tx, tx_S tx}. case x of None \<Rightarrow> True | Some i \<Rightarrow> 0 \<le> i)"

definition big_or_zero :: "int option \<Rightarrow> int option" where
  "big_or_zero x = Some (case x of None \<Rightarrow> 0 | Some i \<Rightarrow> i)"

definition tx_filled :: "transaction \<Rightarrow> transaction" where
  "tx_filled tx = tx\<lparr>tx_V := big_or_zero (tx_V tx), tx_R := big_or_zero (tx_R tx), tx_S := big_or_zero (tx_S tx)\<rparr>"

lemma tx_filled_there: "tx_V (tx_filled tx) \<noteq> None \<and> tx_R (tx_filled tx) \<noteq> None \<and> tx_S (tx_filled tx) \<noteq> None"
  by (simp add: tx_filled_def big_or_zero_def)

lemma tx_filled_typed: "tx_valid tx \<Longrightarrow> has_type tx_type (tx_gval (tx_filled tx))"
  using unat_lt64 [of "tx_NonceValue tx"]
  by (auto simp: tx_valid_def tx_filled_def big_or_zero_def tx_type_def tx_gval_def split: option.splits)

lemma gval_tx_inverse: "gval_tx (tx_gval tx) = Some tx"
  by (simp add: gval_tx_def tx_gval_def big_gval_def split: option.splits)

lemma typed_big: "has_type TBigIntPtr v \<longleftrightarrow> (\<exists>i\<ge>0. v = VPtr (Some (VBig i)))"
  by (auto split: gval.splits option.splits)

lemma typed_bytes:
  "has_type TString v \<longleftrightarrow> (\<exists>b. v = VBytes b)" "has_type (TSlice (TUint 8)) v \<longleftrightarrow> (\<exists>b. v = VBytes b)"
  "has_type (TArray n (TUint 8)) v \<longleftrightarrow> (\<exists>b. length b = n \<and> v = VBytes b)" "has_type (TUint 64) v \<longrightarrow> (\<exists>i. v = VUint i)"
  by (auto split: gval.splits)

lemma typed_struct: "has_type (TStruct fs) v \<longleftrightarrow> (\<exists>vs. v = VStruct vs \<and> fields_typed fs vs)"
  by (auto split: gval.splits)

lemma typed_field: "fd_exported f \<Longrightarrow> fd_tag f = [] \<Longrightarrow> fields_typed ((f, t) # fs) vs \<longleftrightarrow> (\<exists>v us. vs = v # us \<and> has_type t v \<and> fields_typed fs us)"
  by (auto split: list.splits)

lemma typed_tx:
  assumes "has_type tx_type v"
  obtains tx where "v = tx_gval tx" "tx_valid tx" "tx_filled tx = tx"
proof -
  from assms obtain cn p i f n x y z where v: "v = VStruct [VBytes cn, VBytes p, VBytes i, VBytes f, VUint n, VPtr (Some (VBig x)), VPtr (Some (VBig y)), VPtr (Some (VBig z))]"
    "length i = 32" "length f = 20" "0 \<le> x" "0 \<le> y" "0 \<le> z"
    by (auto simp: tx_type_def typed_struct typed_field typed_big typed_bytes(1-3) simp del: has_type.simps fields_typed.simps(2) dest!: typed_bytes(4) [rule_format])
  show thesis
    by (rule that [of "\<lparr> tx_ContractName = map (\<lambda>c. char_of (unat c)) cn, tx_Payload = p, tx_Txid = i, tx_From = f, tx_NonceValue = n, tx_V = Some x, tx_R = Some y, tx_S = Some z \<rparr>"])
       (use v in \<open>simp_all add: tx_gval_def tx_valid_def tx_filled_def big_or_zero_def\<close>)
qed

lemma write_big_filled: "writer TBigIntPtr ts (VPtr (map_option VBig (big_or_zero x))) w = writer TBigIntPtr ts (VPtr (map_option VBig x)) w"
  by (cases x) (simp_all add: big_or_zero_def writeBigInt_def)

lemma encode_filled: "EncodeToBytes (TPtr tx_type) (VPtr (Some (tx_gval tx))) = EncodeToBytes tx_type (tx_gval (tx_filled tx))"
  by (simp add: EncodeToBytes_def eb_encode_def plain_genTypeInfo tx_type_def tx_gval_def tx_filled_def write_big_filled del: writer.simps(3) cong: sum.case_cong)

lemma enc_big_filled: "enc TBigIntPtr ts (VPtr (map_option VBig (big_or_zero x))) = enc TBigIntPtr ts (VPtr (map_option VBig x))"
  by (cases x) (simp_all add: big_or_zero_def)

lemma enc_filled: "enc tx_type no_tags (tx_gval (tx_filled tx)) = enc tx_type no_tags (tx_gval tx)"
  by (simp add: tx_type_def tx_gval_def tx_filled_def enc_big_filled del: enc.simps(3))

lemma encode_negative:
  assumes "tx_V tx = Some i \<or> tx_R tx = Some i \<or> tx_S tx = Some i" "i < 0"
  shows "EncodeToBytes (TPtr tx_type) (VPtr (Some (tx_gval tx))) = Some (Inl ErrNegativeBigInt)"
  using assms by (auto simp: EncodeToBytes_def eb_encode_def plain_genTypeInfo tx_type_def tx_gval_def eb_list_def writeBigInt_def split: option.splits)

lemma decode_zero: "DecodeBytes n [0] tx_type = Some (Inl (DecErr MsgExpectedList tx_type []))"
proof -
  have "DecodeBytes 0 [0] tx_type = Some (Inl (DecErr MsgExpectedList tx_type []))" by code_simp
  then show ?thesis by (rule DecodeBytes_fuel [rotated]) simp
qed

lemma tx_valid_cases:
  assumes "length (tx_Txid tx) = 32" "length (tx_From tx) = 20"
  obtains "tx_valid tx" | i where "\<not> tx_valid tx" "tx_V tx = Some i \<or> tx_R tx = Some i \<or> tx_S tx = Some i" "i < 0"
  using assms by (fastforce simp: tx_valid_def split: option.splits)

lemma tx_enc_nonempty: "enc tx_type no_tags (tx_gval tx) \<noteq> []"
  by (simp add: tx_type_def tx_gval_def rlp_lst_def puthead_def Let_def)

lemma length_ToHex: "b \<noteq> [] \<Longrightarrow> length (ToHex b) = 2 + 2 * length b"
  using length_ByteToHex [of b] by (auto simp: ToHex_def Let_def simp del: length_ByteToHex)

lemma raw_of_valid:
  assumes "tx_valid tx" "length (enc tx_type no_tags (tx_gval tx)) < 2 ^ 64"
  shows "raw_transaction tx = Some (ToHex (enc tx_type no_tags (tx_gval tx)))"
  using encode_plain [OF plain_tx_type tx_filled_typed [OF assms(1)]] assms(2) by (simp add: raw_transaction_def encode_filled enc_filled)

lemma decode_of_valid:
  assumes "tx_valid tx" "length (enc tx_type no_tags (tx_gval tx)) < 2 ^ 64" "length (ToHex (enc tx_type no_tags (tx_gval tx))) < n"
  shows "decode_raw n (ToHex (enc tx_type no_tags (tx_gval tx))) = Some (Inr ((tx_filled tx)\<lparr>tx_Txid := replicate 32 0\<rparr>))"
proof -
  have "DecodeBytes n (enc tx_type no_tags (tx_gval tx)) tx_type = Some (Inr (tx_gval (tx_filled tx)))"
    using decode_plain [OF plain_tx_type tx_filled_typed [OF assms(1)], of n] assms(2,3) length_ToHex [OF tx_enc_nonempty, of tx] by (simp add: enc_filled)
  then show ?thesis using tx_enc_nonempty by (simp add: decode_raw_def gval_tx_inverse)
qed

text \<open>A transaction as a client signs it.\<close>

definition sample_signed_tx :: transaction where
  "sample_signed_tx = NewTransaction\<lparr>tx_ContractName := HGS, tx_Payload := [1, 2], tx_NonceValue := 7, tx_V := Some 27, tx_R := Some 300, tx_S := Some 5\<rparr>"

lemma sample_signed_length: "length (enc tx_type no_tags (tx_gval sample_signed_tx)) = 69"
  by code_simp

lemma sample_signed_fields [simp]: "length (tx_Txid sample_signed_tx) = 32" "length (tx_From sample_signed_tx) = 20" "tx_valid sample_signed_tx" "tx_filled sample_signed_tx = sample_signed_tx"
  by (simp_all add: sample_signed_tx_def NewTransaction_def tx_valid_def tx_filled_def big_or_zero_def)

text \<open>Claim C36.  What a client sends of a transaction is what the node reads: the fields come back, apart from the identifier, which the node clears and computes anew, and from the
  numbers of the signature that are nil, which come back as 0.  A transaction with a negative number in its signature is sent as no bytes and refused.\<close>

theorem raw_transaction_round_trip:
  assumes "length (tx_Txid tx) = 32" "length (tx_From tx) = 20" "length (enc tx_type no_tags (tx_gval tx)) < 2 ^ 64"
  shows "\<exists>raw. raw_transaction tx = Some raw \<and>
    (\<forall>n>length raw. decode_raw n raw = Some (if tx_valid tx then Inr ((tx_filled tx)\<lparr>tx_Txid := replicate 32 0\<rparr>) else Inl (DecErr MsgExpectedList tx_type [])))"
  using assms(1,2)
proof (cases rule: tx_valid_cases)
  case 1
  then show ?thesis using raw_of_valid decode_of_valid assms(3) by simp
next
  case (2 i)
  have "FromHex ''0x0'' = [0]" by code_simp
  then show ?thesis using encode_negative [OF 2(2,3)] 2(1) decode_zero by (simp add: raw_transaction_def ToHex_def ByteToHex_def decode_raw_def)
qed

theorem raw_transaction_round_trip_witness:
  "\<exists>raw. raw_transaction sample_signed_tx = Some raw \<and> decode_raw (Suc (length raw)) raw = Some (Inr (sample_signed_tx\<lparr>tx_Txid := replicate 32 0\<rparr>))"
  using raw_transaction_round_trip [of sample_signed_tx] by (auto simp: sample_signed_length)

text \<open>Claim C37.  Every raw transaction that the node accepts is well formed: an address of 20 bytes, a cleared identifier of 32, and three numbers that are there and are not negative;
  and the bytes of the string are the one encoding of that transaction with the identifier that was sent.\<close>

theorem raw_transaction_well_formed:
  assumes "length raw < 2 ^ 64" "decode_raw n raw = Some (Inr tx)"
  shows "tx_Txid tx = replicate 32 0 \<and> length (tx_From tx) = 20 \<and> (\<forall>x\<in>{tx_V tx, tx_R tx, tx_S tx}. \<exists>i\<ge>0. x = Some i) \<and>
    (\<exists>i. length i = 32 \<and> EncodeToBytes tx_type (tx_gval (tx\<lparr>tx_Txid := i\<rparr>)) = Some (Inr (FromHex raw)))"
proof -
  from assms(2) obtain v tx0 where v: "DecodeBytes n (FromHex raw) tx_type = Some (Inr v)" "gval_tx v = Some tx0" "tx = tx0\<lparr>tx_Txid := replicate 32 0\<rparr>"
    by (auto simp: decode_raw_def split: option.splits sum.splits)
  have "length (FromHex raw) < 2 ^ 64" using FromHex_shorter [of raw] assms(1) by simp
  with v(1) have e: "has_type tx_type v" "EncodeToBytes tx_type v = Some (Inr (FromHex raw))" using accepted_is_encoding by auto
  from e(1) obtain tx' where t: "v = tx_gval tx'" "tx_valid tx'" "tx_filled tx' = tx'" by (rule typed_tx)
  then have "tx' = tx0" using v(2) by (simp add: gval_tx_inverse)
  moreover have "tx_V tx' \<noteq> None \<and> tx_R tx' \<noteq> None \<and> tx_S tx' \<noteq> None" using tx_filled_there [of tx'] by (simp add: t(3))
  ultimately show ?thesis using t e(2) v(3) by (auto simp: tx_valid_def split: option.splits intro!: exI [of _ "tx_Txid tx0"])
qed

theorem raw_transaction_well_formed_witness: "\<exists>i. length i = 32 \<and> EncodeToBytes tx_type (tx_gval (sample_signed_tx\<lparr>tx_Txid := i\<rparr>)) = Some (Inr (FromHex (the (raw_transaction sample_signed_tx))))"
proof -
  let ?raw = "ToHex (enc tx_type no_tags (tx_gval sample_signed_tx))"
  have "length ?raw = 140" using length_ToHex [OF tx_enc_nonempty, of sample_signed_tx] by (simp add: sample_signed_length)
  moreover have "raw_transaction sample_signed_tx = Some ?raw" "decode_raw 141 ?raw = Some (Inr (sample_signed_tx\<lparr>tx_Txid := replicate 32 0\<rparr>))"
    using raw_of_valid [of sample_signed_tx] decode_of_valid [of sample_signed_tx 141] calculation by (simp_all add: sample_signed_length)
  ultimately show ?thesis using raw_transaction_well_formed [of ?raw 141] by simp
qed

end
