(* ===== verification/Dbft.thy ===== *)
theory Dbft
  imports Round
begin

text \<open>
  Delegated proof of stake, \<open>consensus/dbft\<close>: epochs and their cache (\<open>epoch.go\<close>, \<open>epochList.go\<close>), the messages and tables of an epoch change (\<open>common/msg.go\<close>, \<open>epochChange.go\<close>),
  the selection of witnesses (\<open>witnessSelection.go\<close>), signing (\<open>security.go\<close>), and the functions that are registered with the round state machine (\<open>dpos2TdmRegFunc.go\<close>).

  The manager is part of the world of the handler.  An epoch is a struct that the cache and the manager share, so epochs live in a store and both hold addresses.  JSON codecs, keys, the
  ledger, the pool, the contracts and the server that lists the candidates of an epoch are parameters.  \<open>None\<close> as a result is a run-time panic or a loop that does not end.
\<close>

unbundle bit_operations_syntax

section \<open>Epochs\<close>

record Epoch =
  ep_EpochNo :: u64
  ep_DependEpochNo :: u64
  ep_BeginNum :: u64
  ep_EndNum :: u64
  ep_TargetBlkNum :: int
  ep_WitnessList :: "Validator list"
  ep_IsToTarget :: bool

definition Epoch_IsExist :: "Epoch \<Rightarrow> bytes \<Rightarrow> bool" where
  "Epoch_IsExist eh digestAddr \<longleftrightarrow> digestAddr \<noteq> [] \<and> (\<exists>v\<in>set (ep_WitnessList eh). v_Address v = digestAddr)"

definition ReSetBeginBlk :: "u64 \<Rightarrow> Epoch \<Rightarrow> Epoch" where
  "ReSetBeginBlk height eb = eb\<lparr>ep_BeginNum := height, ep_EndNum := height\<rparr>"

definition IsBlksToTarget :: "Epoch \<Rightarrow> int \<Rightarrow> bool" where
  "IsBlksToTarget eb targetCount = (if ep_BeginNum eb > ep_EndNum eb then False else ep_EndNum eb - ep_BeginNum eb \<ge> word_of_int targetCount)"

section \<open>Messages\<close>

record EpochChange =
  ec_EpochNo :: u64
  ec_DependEpochNo :: u64
  ec_DigestAddr :: bytes
  ec_Height :: u64
  ec_Hash :: bytes
  ec_IsTimeout :: bool

record NewEpoch =
  nw_EpochNo :: u64
  nw_DependEpochNo :: u64
  nw_DigestAddr :: bytes
  nw_Witnesss :: bytes
  nw_Begin :: u64
  nw_End :: u64

definition DPoSType_MsgEpochChange :: int where
  "DPoSType_MsgEpochChange = 0"

definition DPoSType_MsgNewEpoch :: int where
  "DPoSType_MsgNewEpoch = 1"

record DPoSMessage =
  dp_Type :: int
  dp_ChainId :: string
  dp_Payload :: bytes
  dp_Signature :: bytes

text \<open>\<open>consensusType.DBFT\<close>.\<close>

definition DBFT :: int where
  "DBFT = 4"

section \<open>The manager\<close>

text \<open>What the manager broadcasts.\<close>

datatype dout = SentEpochChange EpochChange PeerMessage | SentNewEpoch NewEpoch PeerMessage

text \<open>
  \<open>dm_epochs\<close> is the store of epochs.  \<open>dm_started\<close> and \<open>dm_stopped\<close> are the flags of the service of the handler, \<open>dm_waiting\<close> is the epoch that the goroutine of the block timeout waits
  for, and \<open>dm_fullQ\<close> and \<open>dm_blkQ\<close> are the requests that were handed to the two goroutines that start an epoch.
\<close>

record DBFTManager =
  dm_ChainID :: string
  dm_TotalValidators :: "ValidatorSet option"
  dm_CurHeight :: u64
  dm_BlkTimeoutCount :: byte
  dm_BftNumber :: byte
  dm_candidateNo :: u64
  dm_epochs :: "Epoch list"
  dm_epoch :: nat
  dm_epochList :: "(u64, nat) gomap"
  dm_EpochChange :: "(u64, EpochChange list) gomap"
  dm_NewEpoch :: "(u64, NewEpoch) gomap"
  dm_newEpochNotify :: "(u64, unit) gomap"
  dm_epochChangeCache :: "(u64, unit) gomap"
  dm_votedCache :: "(int, bool) gomap"
  dm_InternalMsgQueue :: "PeerMessage list"
  dm_started :: bool
  dm_stopped :: bool
  dm_waiting :: "u64 option"
  dm_fullQ :: "u64 list"
  dm_blkQ :: "nat list"
  dm_log :: "dout list"

record 'w dbft_world =
  dw_mgr :: DBFTManager
  dw_rest :: 'w

type_synonym 'w dnode = "'w dbft_world TDMMsgHandler"

text \<open>
  The environment.  \<open>de_decEpoch\<close> gives the error and the pointer that the decoder leaves behind; \<open>de_kvGet\<close> the data of \<open>db.KVDB\<close>, empty on an error; \<open>de_epochInfo\<close> the keys that the
  server lists once it lists more than four, or \<open>None\<close> if that never happens; \<open>de_syncToTarget\<close> and the writes return an error flag.
\<close>

record 'w dbft_env =
  de_ce :: "'w dbft_world cons_env"
  de_target :: int
  de_encEpoch :: "Epoch \<Rightarrow> bytes option"
  de_decEpoch :: "bytes \<Rightarrow> bool \<times> Epoch option"
  de_encEC :: "EpochChange \<Rightarrow> bytes option"
  de_decEC :: "bytes \<Rightarrow> EpochChange option"
  de_encNE :: "NewEpoch \<Rightarrow> bytes option"
  de_decNE :: "bytes \<Rightarrow> NewEpoch option"
  de_encDP :: "DPoSMessage \<Rightarrow> bytes option"
  de_decDP :: "bytes \<Rightarrow> DPoSMessage option"
  de_encVals :: "Validator list \<Rightarrow> bytes option"
  de_decVals :: "bytes \<Rightarrow> Validator option list option"
  de_kvGet :: "bytes \<Rightarrow> 'w \<Rightarrow> bytes"
  de_kvPut :: "bytes \<Rightarrow> bytes \<Rightarrow> 'w \<Rightarrow> bool \<times> 'w"
  de_getBlockHash :: "u64 \<Rightarrow> 'w \<Rightarrow> bytes option"
  de_getHeight :: "'w \<Rightarrow> u64 option"
  de_voteSum :: "u64 \<Rightarrow> 'w \<Rightarrow> int option"
  de_votePeers :: "u64 \<Rightarrow> 'w \<Rightarrow> bytes list option"
  de_unfreeze :: "u64 \<Rightarrow> 'w \<Rightarrow> bool \<times> 'w"
  de_getTxs :: "'w \<Rightarrow> transaction list option \<times> 'w"
  de_txsLenZero :: "'w \<Rightarrow> bool \<times> 'w"
  de_geneValidators :: "string list"
  de_address :: "string \<Rightarrow> bytes"
  de_epochInfo :: "u64 \<Rightarrow> string list option"
  de_vrf :: "u64 \<Rightarrow> bytes \<Rightarrow> bytes \<times> bytes"
  de_encBlock :: "TDMBlock \<Rightarrow> bytes option"
  de_syncToTarget :: "u64 \<Rightarrow> u64 \<Rightarrow> u64 \<Rightarrow> 32 word \<Rightarrow> 'w \<Rightarrow> bool \<times> 'w"

abbreviation mgr :: "'w dnode \<Rightarrow> DBFTManager" where
  "mgr h \<equiv> dw_mgr (h_world h)"

abbreviation rest :: "'w dnode \<Rightarrow> 'w" where
  "rest h \<equiv> dw_rest (h_world h)"

definition set_mgr :: "DBFTManager \<Rightarrow> 'w dnode \<Rightarrow> 'w dnode" where
  "set_mgr dm h = h\<lparr>h_world := (h_world h)\<lparr>dw_mgr := dm\<rparr>\<rparr>"

definition set_rest :: "'w \<Rightarrow> 'w dnode \<Rightarrow> 'w dnode" where
  "set_rest w h = h\<lparr>h_world := (h_world h)\<lparr>dw_rest := w\<rparr>\<rparr>"

datatype dbft_error = DecodeError | EncodeError | StaleEpoch | NoBlock | WrongHash | AlreadyEnough | NoValidators | WrongSender | NotEnough | NoMatch | VoteError
  | UnfreezeError | NotStopped | AlreadyStarted | AlreadyStopped | StoreError | TotalEmpty

text \<open>An error ends a function early.\<close>

definition on_ok :: "(dbft_error + 'a) \<times> 's \<Rightarrow> ('a \<Rightarrow> 's \<Rightarrow> ((dbft_error + 'b) \<times> 's) option) \<Rightarrow> ((dbft_error + 'b) \<times> 's) option" where
  "on_ok r f = (case r of (Inl e, s) \<Rightarrow> Some (Inl e, s) | (Inr x, s) \<Rightarrow> f x s)"

definition cur_epoch :: "DBFTManager \<Rightarrow> Epoch" where
  "cur_epoch dm = dm_epochs dm ! dm_epoch dm"

definition alloc_epoch :: "Epoch \<Rightarrow> DBFTManager \<Rightarrow> nat \<times> DBFTManager" where
  "alloc_epoch e dm = (length (dm_epochs dm), dm\<lparr>dm_epochs := dm_epochs dm @ [e]\<rparr>)"

section \<open>The cache of epochs\<close>

definition GetKey :: "string \<Rightarrow> u64 \<Rightarrow> bytes" where
  "GetKey chainId epochNo = ascii chainId @ FormatUint epochNo"

text \<open>The error of the database is overwritten; empty data is an error of the decoder.\<close>

definition LoadEpochInfo :: "'w dbft_env \<Rightarrow> string \<Rightarrow> u64 \<Rightarrow> 'w \<Rightarrow> dbft_error + Epoch option" where
  "LoadEpochInfo de chainid epochNo w = (case de_decEpoch de (de_kvGet de (GetKey chainid epochNo) w) of (err, p) \<Rightarrow> if err then Inl DecodeError else Inr p)"

text \<open>An epoch that is only in the database is looked up there and reported as missing.\<close>

definition elc_isExist :: "'w dbft_env \<Rightarrow> u64 \<Rightarrow> 'w \<Rightarrow> DBFTManager \<Rightarrow> bool" where
  "elc_isExist de epochNo w dm = (let ok = gget (dm_epochList dm) epochNo \<noteq> None in
     if \<not> ok then (case LoadEpochInfo de (dm_ChainID dm) epochNo w of Inl e \<Rightarrow> False | Inr None \<Rightarrow> False | Inr (Some e) \<Rightarrow> ok) else ok)"

definition GetEpoch :: "'w dbft_env \<Rightarrow> u64 \<Rightarrow> 'w \<Rightarrow> DBFTManager \<Rightarrow> nat option \<times> DBFTManager" where
  "GetEpoch de epochNo w dm = (case gget (dm_epochList dm) epochNo of Some a \<Rightarrow> (Some a, dm)
     | None \<Rightarrow> (case LoadEpochInfo de (dm_ChainID dm) epochNo w of Inl e \<Rightarrow> (None, dm) | Inr None \<Rightarrow> (None, dm)
         | Inr (Some epochInfo) \<Rightarrow> (let (a, dm1) = alloc_epoch epochInfo dm in (Some a, dm1\<lparr>dm_epochList := gput (dm_epochList dm1) epochNo a\<rparr>))))"

definition SetEpoch :: "nat \<Rightarrow> DBFTManager \<Rightarrow> DBFTManager" where
  "SetEpoch a dm = dm\<lparr>dm_epochList := gput (dm_epochList dm) (ep_EpochNo (dm_epochs dm ! a)) a\<rparr>"

definition DelEpoch :: "u64 \<Rightarrow> DBFTManager \<Rightarrow> DBFTManager" where
  "DelEpoch epochNo dm = dm\<lparr>dm_epochList := gdel (dm_epochList dm) epochNo\<rparr>"

definition RecordEpochInfo :: "'w dbft_env \<Rightarrow> string \<Rightarrow> Epoch \<Rightarrow> 'w \<Rightarrow> dbft_error option \<times> 'w" where
  "RecordEpochInfo de chainid epochInfo w = (case de_encEpoch de epochInfo of None \<Rightarrow> (Some EncodeError, w)
     | Some epochData \<Rightarrow> (let (err, w1) = de_kvPut de (GetKey chainid (ep_EpochNo epochInfo)) epochData w in (if err then Some StoreError else None, w1)))"

section \<open>The tables of an epoch change\<close>

definition ec_list :: "DBFTManager \<Rightarrow> u64 \<Rightarrow> EpochChange list" where
  "ec_list dm epochNo = (case gget (dm_EpochChange dm) epochNo of None \<Rightarrow> [] | Some l \<Rightarrow> l)"

definition ecm_IsExist :: "EpochChange \<Rightarrow> DBFTManager \<Rightarrow> bool" where
  "ecm_IsExist epoch dm \<longleftrightarrow> (\<exists>e\<in>set (ec_list dm (ec_EpochNo epoch)). ec_DigestAddr e = ec_DigestAddr epoch)"

definition SetEpochChange :: "EpochChange \<Rightarrow> DBFTManager \<Rightarrow> DBFTManager" where
  "SetEpochChange epoch dm = dm\<lparr>dm_EpochChange := gput (dm_EpochChange dm) (ec_EpochNo epoch) (ec_list dm (ec_EpochNo epoch) @ [epoch])\<rparr>"

definition IsMajorityToCandidates :: "u64 \<Rightarrow> nat \<Rightarrow> DBFTManager \<Rightarrow> bool" where
  "IsMajorityToCandidates epochNo candidatesNum dm \<longleftrightarrow> length (ec_list dm epochNo) > candidatesNum * 2 div 3"

definition IsMoreThanOneThridToCandidates :: "u64 \<Rightarrow> nat \<Rightarrow> DBFTManager \<Rightarrow> bool" where
  "IsMoreThanOneThridToCandidates epochNo candidatesNum dm \<longleftrightarrow> length (ec_list dm epochNo) > candidatesNum div 3"

section \<open>Signing\<close>

definition dpos_Sign :: "'w dbft_env \<Rightarrow> DPoSMessage \<Rightarrow> DPoSMessage option" where
  "dpos_Sign de message = do { c \<leftarrow> de_encDP de message; sign \<leftarrow> ne_sign (ce_ne (de_ce de)) c; Some (message\<lparr>dp_Signature := sign\<rparr>) }"

definition dpos_Verify :: "'w dbft_env \<Rightarrow> DPoSMessage \<Rightarrow> bytes \<Rightarrow> bool" where
  "dpos_Verify de message pubKeyID = (case de_encDP de (message\<lparr>dp_Signature := []\<rparr>) of None \<Rightarrow> False
     | Some c \<Rightarrow> ne_verify (ce_ne (de_ce de)) pubKeyID (dp_Signature message) c = Some True)"

text \<open>The common tail of the two builders.\<close>

definition dpos_wrap :: "'w dbft_env \<Rightarrow> int \<Rightarrow> bytes \<Rightarrow> 'w dnode \<Rightarrow> PeerMessage option" where
  "dpos_wrap de ty payload h = do {
     dposMsgSign \<leftarrow> dpos_Sign de \<lparr> dp_Type = ty, dp_ChainId = dm_ChainID (mgr h), dp_Payload = payload, dp_Signature = [] \<rparr>;
     dposData \<leftarrow> de_encDP de dposMsgSign;
     conData \<leftarrow> ne_encCons (ce_ne (de_ce de)) (DBFT, dposData);
     Some \<lparr> me_Msg = conData, me_PeerID = 0, me_Sender = ne_ID (ce_ne (de_ce de)), me_IsBroadCast = False, me_Flag = 0 \<rparr> }"

section \<open>The selection of witnesses\<close>

text \<open>\<open>float32\<close> of an integer: 24 significant bits, rounded to the nearest, ties to even.\<close>

fun f32_shift :: "nat \<Rightarrow> nat" where
  "f32_shift n = (if n < 2 ^ 24 then 0 else Suc (f32_shift (n div 2)))"

declare f32_shift.simps [simp del]

definition float32 :: "int \<Rightarrow> int" where
  "float32 i = (let k = f32_shift (nat \<bar>i\<bar>); q = \<bar>i\<bar> div 2 ^ k; r = \<bar>i\<bar> mod 2 ^ k;
     up = (if 2 * r > 2 ^ k \<or> (2 * r = 2 ^ k \<and> odd q) then 1 else 0) in sgn i * ((q + up) * 2 ^ k))"

text \<open>\<open>TOTAL_BALANCE * TOKEN_THRESHOLD\<close>, a constant expression.\<close>

definition token_threshold :: int where
  "token_threshold = 10000000 * 51 div 100"

definition isVoteSatisfied :: "'w dbft_env \<Rightarrow> u64 \<Rightarrow> 'w \<Rightarrow> bool" where
  "isVoteSatisfied de epochNo w = (case de_voteSum de epochNo w of None \<Rightarrow> False | Some token \<Rightarrow> float32 token > token_threshold)"

text \<open>The validators whose index is not taken, once over.\<close>

definition not_taken :: "int set \<Rightarrow> Validator list \<Rightarrow> Validator list" where
  "not_taken taken vals = map snd (filter (\<lambda>(i, v). int i \<notin> taken) (enumerate 0 vals))"

text \<open>The loop that fills up the list appends all of them in each turn and only then compares the length.\<close>

partial_function (option) fill_witnesses :: "nat \<Rightarrow> Validator list \<Rightarrow> Validator list \<Rightarrow> Validator list option" where
  "fill_witnesses n others ws = (if length ws = n then Some ws else fill_witnesses n others (ws @ others))"

fun top_witnesses :: "(bytes \<Rightarrow> string) \<Rightarrow> ValidatorSet \<Rightarrow> nat \<Rightarrow> bytes list \<Rightarrow> Validator list \<times> int set \<Rightarrow> Validator list \<times> int set" where
  "top_witnesses pstr vset n [] acc = acc"
| "top_witnesses pstr vset n (p # ps) (ws, taken) =
     (if length ws = n then (ws, taken)
      else (case GetByPeerID pstr vset p of (i, Some v) \<Rightarrow> top_witnesses pstr vset n ps (ws @ [v], insert i taken)
            | (i, None) \<Rightarrow> top_witnesses pstr vset n ps (ws, taken)))"

definition peer_validator :: "'w dbft_env \<Rightarrow> string \<Rightarrow> Validator" where
  "peer_validator de key = \<lparr> v_Address = de_address de key, v_PubKeyStr = key, v_VotingPower = 1, v_Accum = 0 \<rparr>"

text \<open>The candidates of an epoch: those of the configuration for number 0, else those that the server lists.\<close>

definition LoadTotalValidators :: "'w dbft_env \<Rightarrow> u64 \<Rightarrow> DBFTManager \<Rightarrow> ValidatorSet option" where
  "LoadTotalValidators de candidateEpochNo dm = do {
     keys \<leftarrow> (if candidateEpochNo = 0 then Some (de_geneValidators de) else de_epochInfo de candidateEpochNo);
     NewValidatorSet (Some (sort_key v_Address (map (peer_validator de) keys))) (ep_EpochNo (cur_epoch dm)) [] [] [] }"

text \<open>The candidates that are loaded here are only logged.\<close>

definition getWitnessesByToken :: "'w dbft_env \<Rightarrow> u64 \<Rightarrow> ValidatorSet \<Rightarrow> 'w dnode \<Rightarrow> (dbft_error + Validator list) option" where
  "getWitnessesByToken de epochNo validatorSet h = (case de_votePeers de epochNo (rest h) of None \<Rightarrow> Some (Inl VoteError)
     | Some peerIDs \<Rightarrow> do {
         allValidators \<leftarrow> LoadTotalValidators de (dm_candidateNo (mgr h)) (mgr h);
         let n = unat (dm_BftNumber (mgr h));
         let (ws, taken) = top_witnesses (ce_peerString (de_ce de)) validatorSet n peerIDs ([], {});
         map_option Inr (fill_witnesses n (not_taken taken (vs_Validators validatorSet)) ws) })"

text \<open>The last epoch below the given one that is cached, down to 1; 0 if there is none.\<close>

fun last_cached :: "'w dbft_env \<Rightarrow> 'w \<Rightarrow> DBFTManager \<Rightarrow> nat \<Rightarrow> u64" where
  "last_cached de w dm 0 = 0"
| "last_cached de w dm (Suc i) = (if elc_isExist de (of_nat (Suc i)) w dm then of_nat (Suc i) else last_cached de w dm i)"

definition getLastWitnesses :: "'w dbft_env \<Rightarrow> u64 \<Rightarrow> 'w dnode \<Rightarrow> ((Validator list \<times> u64) \<times> 'w dnode) option" where
  "getLastWitnesses de dependEpochNo h =
     (let new = last_cached de (rest h) (mgr h) (unat dependEpochNo - 1); (p, dm) = GetEpoch de new (rest h) (mgr h) in
      case p of None \<Rightarrow> None | Some a \<Rightarrow> Some ((ep_WitnessList (dm_epochs dm ! a), new), set_mgr dm h))"

definition shuffle_mul :: u64 where
  "shuffle_mul = 2685821657736338717"

definition shuffle_rand :: "u64 \<Rightarrow> nat \<Rightarrow> u64" where
  "shuffle_rand seed i = (let k0 = seed + of_nat i * shuffle_mul; k1 = k0 XOR drop_bit 12 k0; k2 = k1 XOR push_bit 25 k1; k3 = k2 XOR drop_bit 27 k2 in k3 * shuffle_mul)"

function shuffle_loop :: "u64 \<Rightarrow> nat \<Rightarrow> 'a list \<Rightarrow> 'a list" where
  "shuffle_loop seed i dList =
     (if i < length dList then
        (let j = unat (of_nat i + shuffle_rand seed i mod of_nat (length dList - i)) in shuffle_loop seed (Suc i) (dList[i := dList ! j, j := dList ! i]))
      else dList)"
  by pat_completeness auto
termination
  by (relation "measure (\<lambda>(seed, i, d). length d - i)") (auto simp: Let_def)

declare shuffle_loop.simps [simp del]

definition witnessShuffle :: "u64 \<Rightarrow> Validator list \<Rightarrow> Validator list" where
  "witnessShuffle seed sList = shuffle_loop seed 0 sList"

definition beginWitnessSelection :: "'w dbft_env \<Rightarrow> Epoch \<Rightarrow> ValidatorSet \<Rightarrow> 'w dnode \<Rightarrow> ((dbft_error + Validator list \<times> u64) \<times> 'w dnode) option" where
  "beginWitnessSelection de epoch validatorSet h =
     (if isVoteSatisfied de (ep_EpochNo epoch) (rest h) then do {
        r \<leftarrow> getWitnessesByToken de (ep_EpochNo epoch) validatorSet h;
        Some (case r of Inl e \<Rightarrow> Inl e | Inr witness \<Rightarrow> Inr (witnessShuffle (ep_EpochNo epoch) witness, dm_candidateNo (mgr h)), h) }
      else do {
        ((witness, dependEpochNo), h1) \<leftarrow> getLastWitnesses de (ep_DependEpochNo epoch) h;
        Some (Inr (witnessShuffle (ep_EpochNo epoch) witness, dependEpochNo), h1) })"

definition GetWitnesses :: "'w dbft_env \<Rightarrow> 'w dnode \<Rightarrow> ((dbft_error + Validator list \<times> u64) \<times> 'w dnode) option" where
  "GetWitnesses de h = do { totalVals \<leftarrow> dm_TotalValidators (mgr h); beginWitnessSelection de (cur_epoch (mgr h)) totalVals h }"

definition zero_epoch :: Epoch where
  "zero_epoch = \<lparr> ep_EpochNo = 0, ep_DependEpochNo = 0, ep_BeginNum = 0, ep_EndNum = 0, ep_TargetBlkNum = 0, ep_WitnessList = [], ep_IsToTarget = False \<rparr>"

definition BuildNewEpoch :: "'w dbft_env \<Rightarrow> 'w dnode \<Rightarrow> ((dbft_error + Epoch) \<times> 'w dnode) option" where
  "BuildNewEpoch de h = do {
     r \<leftarrow> GetWitnesses de h;
     on_ok r (\<lambda>(witnesses, dependEpochNo) h1. Some (Inr (zero_epoch\<lparr>ep_DependEpochNo := dependEpochNo, ep_WitnessList := witnesses\<rparr>), h1)) }"

section \<open>The registered functions\<close>

text \<open>The index of the last proposer is taken from the last validators, and used for the witnesses of the epoch.\<close>

definition isProposerByDPoS :: "'w dbft_env \<Rightarrow> 'w dnode \<Rightarrow> u64 \<Rightarrow> int \<Rightarrow> ((bool \<times> Validator option) \<times> DBFTManager) option" where
  "isProposerByDPoS de h height rnd =
     (let (p, dm) = GetEpoch de (ep_EpochNo (cur_epoch (mgr h))) (rest h) (mgr h) in
      case p of None \<Rightarrow> Some ((False, None), dm)
      | Some a \<Rightarrow> let validators = ep_WitnessList (dm_epochs dm ! a) in
        if length validators = 0 then Some ((False, None), dm)
        else do {
          valIndex \<leftarrow> (if height = ep_BeginNum (cur_epoch dm) then Some 0
            else do {
              last \<leftarrow> h_LastValidators h;
              lastProposer \<leftarrow> vs_Proposer last;
              let i = fst (GetByAddress last (v_Address lastProposer)) + 1;
              Some (if i = int (length validators) then 0 else i) });
          let m = go_rem (int64 (valIndex + rnd)) (int (length validators));
          if m < 0 then None
          else let newProposer = validators ! nat m in Some ((h_digestAddr h = v_Address newProposer, Some newProposer), dm) })"

definition validateProposalBlkByDPoS :: "'w dnode \<Rightarrow> TDMBlock \<Rightarrow> bool option" where
  "validateProposalBlkByDPoS h proposalBlk = Some True"

definition geneProposalBlkByDPoS :: "'w dbft_env \<Rightarrow> 'w dnode \<Rightarrow> ((TDMBlock \<times> PartSet option) option \<times> 'w dbft_world) option" where
  "geneProposalBlkByDPoS de h =
     (let ce = de_ce de; w = h_world h;
          commit = (if h_Height h = 1 then Some (Some \<lparr> cm_BlockID = zero_blockID, cm_Precommits = [] \<rparr>)
                    else if HasTwoThirdsMajority (h_LastCommit h) then map_option Some (Option.bind (h_LastCommit h) MakeCommit) else Some None) in
      Option.bind commit (\<lambda>c. case c of None \<Rightarrow> Some (None, w)
      | Some cmt \<Rightarrow>
        let (pool, w1) = de_getTxs de (rest h); world = w\<lparr>dw_rest := w1\<rparr>;
            txs = (case pool of None \<Rightarrow> None | Some l \<Rightarrow> if l = [] then None else Some (Tx2TDMTx (ce_tc ce) l));
            chosen = (case txs of None \<Rightarrow> if cf_CreateEmptyBlocks (ce_conf ce) then Some [] else None | Some (Inl e) \<Rightarrow> None | Some (Inr ts) \<Rightarrow> Some ts) in
        (case chosen of None \<Rightarrow> Some (None, world)
         | Some ts \<Rightarrow> do {
             vals \<leftarrow> h_Validators h;
             let (vrfValue, vrfProof) = de_vrf de (h_Height h) (st_PrevVRFValue (h_LastCommitState h));
             let material = \<lparr> bm_Height = h_Height h, bm_NumTxs = of_nat (length ts), bm_Txs = ts, bm_Commit = Some cmt, bm_Proposer = snd (GetByAddress vals (h_digestAddr h)),
                              bm_BlkVRFValue = vrfValue, bm_BlkVRFProof = vrfProof \<rparr>;
             (block, parts) \<leftarrow> MakeBlockDPoS (ce_he ce) (de_encBlock de) (ce_now ce w) (h_LastCommitState h) material;
             Some (Some (block, Some parts), world) })))"

definition set_extend :: "bytes \<Rightarrow> ValidatorSet \<Rightarrow> ValidatorSet" where
  "set_extend data vs = vs\<lparr>vs_Extend := data\<rparr>"

text \<open>The rest of \<open>CheckEpochChange\<close> for an epoch that goes on.\<close>

definition epoch_goes_on :: "'w dbft_env \<Rightarrow> Epoch \<Rightarrow> ValidatorSet \<Rightarrow> 'w dnode \<Rightarrow> 'w dnode option" where
  "epoch_goes_on de e vals h =
     (let info = zero_epoch\<lparr>ep_EpochNo := ep_EpochNo e, ep_DependEpochNo := ep_DependEpochNo e, ep_BeginNum := ep_BeginNum e, ep_EndNum := ep_EndNum e, ep_TargetBlkNum := de_target de\<rparr> in
      case de_encEpoch de info of None \<Rightarrow> Some h
      | Some data \<Rightarrow>
        let h1 = h\<lparr>h_Validators := Some (set_extend data vals)\<rparr>;
            h2 = (if ep_EndNum e - ep_BeginNum e = 1 then set_rest (snd (RecordEpochInfo de (dm_ChainID (mgr h1)) (info\<lparr>ep_WitnessList := ep_WitnessList e\<rparr>) (rest h1))) h1 else h1) in
        map_option (\<lambda>cv. h2\<lparr>h_LastCommitState := (h_LastCommitState h2)\<lparr>st_Validators := Some (set_extend data cv)\<rparr>\<rparr>) (st_Validators (h_LastCommitState h2)))"

text \<open>Called after the state of the handler has moved on.  The decoder's error is only logged.\<close>

definition CheckEpochChange :: "'w dbft_env \<Rightarrow> 'w dnode \<Rightarrow> 'w dnode option" where
  "CheckEpochChange de h = do {
     vals \<leftarrow> h_Validators h;
     pre \<leftarrow> snd (de_decEpoch de (vs_Extend vals));
     let cur = cur_epoch (mgr h);
     if ep_EpochNo cur \<noteq> ep_EpochNo pre then
       (let (a, dm) = alloc_epoch (pre\<lparr>ep_WitnessList := vs_Validators vals, ep_EndNum := h_Height h\<rparr>) (mgr h) in
        Some ((set_mgr (dm\<lparr>dm_blkQ := dm_blkQ dm @ [a]\<rparr>) h)\<lparr>h_IsContinueConsensus := False\<rparr>))
     else
       (let e = cur\<lparr>ep_EpochNo := ep_EpochNo pre, ep_DependEpochNo := ep_DependEpochNo pre, ep_WitnessList := vs_Validators vals, ep_BeginNum := ep_BeginNum pre,
                    ep_EndNum := h_Height h, ep_TargetBlkNum := ep_TargetBlkNum pre\<rparr>;
            dm = (mgr h)\<lparr>dm_epochs := (dm_epochs (mgr h))[dm_epoch (mgr h) := e]\<rparr> in
        if IsBlksToTarget e (de_target de) then Some ((set_mgr (dm\<lparr>dm_fullQ := dm_fullQ dm @ [ep_EpochNo e]\<rparr>) h)\<lparr>h_IsContinueConsensus := False\<rparr>)
        else epoch_goes_on de e vals (set_mgr dm h)) }"

text \<open>The environment of the round state machine with the functions registered.\<close>

definition dbft_cons_env :: "'w dbft_env \<Rightarrow> 'w dbft_world cons_env" where
  "dbft_cons_env de = (de_ce de)\<lparr>ce_isProposer := (\<lambda>h height rnd. map_option fst (isProposerByDPoS de h height rnd)), ce_geneProposalBlk := geneProposalBlkByDPoS de,
     ce_validateProposalBlk := validateProposalBlkByDPoS, ce_consSucceed := (\<lambda>b h. Some h), ce_statusUpdated := CheckEpochChange de\<rparr>"

end
