(* ===== verification/Dbft_Mgr.thy ===== *)
theory Dbft_Mgr
  imports Dbft
begin

text \<open>
  The manager of delegated proof of stake at work: \<open>dbftManager.go\<close> and \<open>epochChangeHandler.go\<close> with the service flags of \<open>algorand/common/service.go\<close> and the entry to the
  synchronisation of \<open>msgHandler/sync.go\<close>.  Each goroutine of the manager is an event: a message of a peer or of the node itself, the two servers that start an epoch, the block timeout
  and the end of the wait for a new epoch.  A channel without a buffer hands over at once to the goroutine at its other end.
\<close>

section \<open>Synchronisation\<close>

text \<open>The counts of synchronised blocks are bookkeeping and left out, and so are the timers.\<close>

definition updateSync :: "'w dbft_env \<Rightarrow> u64 \<Rightarrow> u64 \<Rightarrow> u64 \<Rightarrow> 'w dnode \<Rightarrow> 'w dnode" where
  "updateSync de beginBlockNum endBlockNum reciver h =
     (if h_isSyncStatus h then h
      else let (err, w) = de_syncToTarget de beginBlockNum endBlockNum reciver (h_syncVersion h) (rest h) in (set_rest w h)\<lparr>h_isSyncStatus := \<not> err\<rparr>)"

definition SyncEntrance :: "'w dbft_env \<Rightarrow> u64 \<Rightarrow> u64 \<Rightarrow> 'w dnode \<Rightarrow> 'w dnode" where
  "SyncEntrance de toHeight sendID h =
     (if h_isSyncStatus h then h
      else let h1 = h\<lparr>h_syncVersion := h_syncVersion h + 1\<rparr> in
        if toHeight > 10 \<and> toHeight - 10 \<ge> h_Height h then updateSync de (h_Height h) (h_Height h + 9) sendID h1
        else updateSync de (h_Height h) (toHeight - 1) sendID h1)"

section \<open>The service of the handler\<close>

definition svc_Stop :: "'w dnode \<Rightarrow> dbft_error option \<times> 'w dnode" where
  "svc_Stop h = (if \<not> dm_stopped (mgr h) then (None, set_mgr ((mgr h)\<lparr>dm_stopped := True\<rparr>) h) else (Some AlreadyStopped, h))"

definition svc_Reset :: "'w dnode \<Rightarrow> dbft_error option \<times> 'w dnode" where
  "svc_Reset h = (if dm_stopped (mgr h) then (None, OnReset (set_mgr ((mgr h)\<lparr>dm_stopped := False, dm_started := False\<rparr>) h)) else (Some NotStopped, h))"

definition svc_Start :: "'w dbft_env \<Rightarrow> 'w dnode \<Rightarrow> (dbft_error option \<times> 'w dnode) option" where
  "svc_Start de h =
     (if \<not> dm_started (mgr h) then
        (let h1 = set_mgr ((mgr h)\<lparr>dm_started := True\<rparr>) h in
         if dm_stopped (mgr h1) then Some (Some AlreadyStopped, h1) else map_option (Pair None) (OnStart (dbft_cons_env de) h1))
      else Some (Some AlreadyStarted, h))"

definition svc_running :: "'w dnode \<Rightarrow> bool" where
  "svc_running h \<longleftrightarrow> dm_started (mgr h) \<and> \<not> dm_stopped (mgr h)"

section \<open>Messages\<close>

definition messageQueueSize :: nat where
  "messageQueueSize = 19999"

definition to_self :: "PeerMessage \<Rightarrow> DBFTManager \<Rightarrow> DBFTManager" where
  "to_self m dm = (if length (dm_InternalMsgQueue dm) < messageQueueSize then dm\<lparr>dm_InternalMsgQueue := dm_InternalMsgQueue dm @ [m]\<rparr> else dm)"

definition BroadcastMsgToAllVP :: "dout \<Rightarrow> DBFTManager \<Rightarrow> DBFTManager" where
  "BroadcastMsgToAllVP x dm = dm\<lparr>dm_log := dm_log dm @ [x]\<rparr>"

text \<open>The hash is nil when the ledger has no such block.\<close>

definition BuildEpochChangeMsg :: "'w dbft_env \<Rightarrow> u64 \<Rightarrow> u64 \<Rightarrow> 'w dnode \<Rightarrow> (EpochChange \<times> PeerMessage) option" where
  "BuildEpochChangeMsg de height epochNo h =
     (let blkHash = (case de_getBlockHash de (height - 1) (rest h) of None \<Rightarrow> [] | Some b \<Rightarrow> b);
          epochChange = \<lparr> ec_EpochNo = epochNo, ec_DependEpochNo = 0, ec_DigestAddr = h_digestAddr h, ec_Height = height, ec_Hash = blkHash, ec_IsTimeout = False \<rparr> in
      do { payload \<leftarrow> de_encEC de epochChange; msg \<leftarrow> dpos_wrap de DPoSType_MsgEpochChange payload h; Some (epochChange, msg) })"

definition BuildNewEpochMsg :: "'w dbft_env \<Rightarrow> u64 \<Rightarrow> 'w dnode \<Rightarrow> ((dbft_error + NewEpoch \<times> PeerMessage) \<times> 'w dnode) option" where
  "BuildNewEpochMsg de newEpochNo h = do {
     r \<leftarrow> BuildNewEpoch de h;
     on_ok r (\<lambda>epoch h1. Some (case de_encVals de (ep_WitnessList epoch) of None \<Rightarrow> Inl EncodeError
       | Some witnessesData \<Rightarrow>
         let newEpoch = \<lparr> nw_EpochNo = newEpochNo, nw_DependEpochNo = ep_DependEpochNo epoch, nw_DigestAddr = h_digestAddr h1, nw_Witnesss = witnessesData,
                          nw_Begin = h_Height h1, nw_End = h_Height h1 \<rparr> in
         (case de_encNE de newEpoch of None \<Rightarrow> Inl EncodeError
          | Some payload \<Rightarrow> (case dpos_wrap de DPoSType_MsgNewEpoch payload h1 of None \<Rightarrow> Inl EncodeError | Some msg \<Rightarrow> Inr (newEpoch, msg))), h1)) }"

section \<open>Starting an epoch\<close>

text \<open>What \<open>ResetEpoch\<close> does to the tables once the handler has its new validators.\<close>

definition epoch_tables :: "u64 \<Rightarrow> u64 \<Rightarrow> nat \<Rightarrow> DBFTManager \<Rightarrow> DBFTManager" where
  "epoch_tables height epochNo a dm =
     (let dm1 = SetEpoch a (dm\<lparr>dm_BlkTimeoutCount := 0, dm_candidateNo := epochNo + 1, dm_epochChangeCache := gput (dm_epochChangeCache dm) height ()\<rparr>); prev = epochNo - 1 in
      (DelEpoch prev (dm1\<lparr>dm_EpochChange := gdel (dm_EpochChange dm1) prev, dm_NewEpoch := gdel (dm_NewEpoch dm1) prev\<rparr>))\<lparr>dm_votedCache := []\<rparr>)"

text \<open>The address is that of the new epoch.\<close>

definition install_epoch :: "'w dbft_env \<Rightarrow> nat \<Rightarrow> 'w dnode \<Rightarrow> ((dbft_error + unit) \<times> 'w dnode) option" where
  "install_epoch de a h =
     (let e = dm_epochs (mgr h) ! a;
          info = zero_epoch\<lparr>ep_EpochNo := ep_EpochNo e, ep_DependEpochNo := ep_DependEpochNo e, ep_BeginNum := h_Height h, ep_EndNum := h_Height h, ep_TargetBlkNum := de_target de\<rparr> in
      case de_encEpoch de info of None \<Rightarrow> Some (Inl EncodeError, h)
      | Some data \<Rightarrow> do {
          vals \<leftarrow> NewValidatorSet (Some (ep_WitnessList e)) (ep_EpochNo e) [] [] data;
          votes \<leftarrow> NewBlkNumVoteSet (h_Height h) vals;
          let dm1 = (mgr h)\<lparr>dm_epoch := a\<rparr>;
          totalVals \<leftarrow> LoadTotalValidators de (ep_EpochNo e) dm1;
          let s = (h_LastCommitState h)\<lparr>st_Validators := Some vals\<rparr>;
          let s1 = (if Epoch_IsExist e (h_digestAddr h) then s\<lparr>st_LastHeightValidatorsChanged := h_Height h\<rparr> else s);
          let h1 = (set_mgr (epoch_tables (h_Height h) (ep_EpochNo e) a (dm1\<lparr>dm_TotalValidators := Some totalVals\<rparr>)) h)
                     \<lparr>h_Validators := Some vals, h_Votes := Some votes, h_LastCommitState := s1\<rparr>;
          (err, h2) \<leftarrow> svc_Start de h1;
          Some (case err of None \<Rightarrow> Inr () | Some x \<Rightarrow> Inl x, h2) })"

text \<open>Waiting for the goroutines of the handler to end is not an event of its own.\<close>

definition ResetEpoch :: "'w dbft_env \<Rightarrow> nat \<Rightarrow> 'w dnode \<Rightarrow> ((dbft_error + unit) \<times> 'w dnode) option" where
  "ResetEpoch de a h =
     (let (err, w) = de_unfreeze de (ep_EpochNo (cur_epoch (mgr h))) (rest h); h1 = set_rest w h in
      if err then Some (Inl UnfreezeError, h1)
      else let h2 = snd (svc_Stop h1); (rerr, h3) = svc_Reset h2 in
        (case rerr of Some x \<Rightarrow> Some (Inl x, h3) | None \<Rightarrow> install_epoch de a h3))"

section \<open>Epoch change messages\<close>

definition GetNewEpochSenderAddr :: "u64 \<Rightarrow> ValidatorSet \<Rightarrow> dbft_error + bytes" where
  "GetNewEpochSenderAddr epochNo totalVals =
     (let n = length (vs_Validators totalVals) in
      if n = 0 then Inl NoValidators else Inr (v_Address (sort_key v_Address (vs_Validators totalVals) ! unat (epochNo mod of_nat n))))"

definition CheckNewEpochSender :: "u64 \<Rightarrow> ValidatorSet \<Rightarrow> bytes \<Rightarrow> bool" where
  "CheckNewEpochSender bgNum totalVals digestAddr = (case GetNewEpochSenderAddr bgNum totalVals of Inl e \<Rightarrow> False | Inr addr \<Rightarrow> digestAddr = addr)"

definition CheckEnterNewEpoch :: "'w dbft_env \<Rightarrow> EpochChange \<Rightarrow> 'w dnode \<Rightarrow> ((dbft_error + unit) \<times> 'w dnode) option" where
  "CheckEnterNewEpoch de epochChange h = do {
     totalVals \<leftarrow> dm_TotalValidators (mgr h);
     if IsMajorityToCandidates (ec_EpochNo epochChange) (length (vs_Validators totalVals)) (mgr h) \<and> CheckNewEpochSender (ec_EpochNo epochChange) totalVals (h_digestAddr h)
     then do {
       r \<leftarrow> BuildNewEpochMsg de (ec_EpochNo epochChange) h;
       on_ok r (\<lambda>(newEpoch, msg) h1. Some (Inr (), set_mgr (to_self msg (BroadcastMsgToAllVP (SentNewEpoch newEpoch msg) (mgr h1))) h1)) }
     else Some (Inr (), h) }"

text \<open>What follows a message that was counted: whether the node sends its own is asked of the table that the message has just been added to.\<close>

definition epoch_change_counted :: "'w dbft_env \<Rightarrow> EpochChange \<Rightarrow> 'w dnode \<Rightarrow> ((dbft_error + unit) \<times> 'w dnode) option" where
  "epoch_change_counted de epochChange h = do {
     totalVals \<leftarrow> dm_TotalValidators (mgr h);
     let epochNum = ec_EpochNo epochChange;
     if IsMoreThanOneThridToCandidates epochNum (length (vs_Validators totalVals)) (mgr h) then
       (case BuildEpochChangeMsg de (dm_CurHeight (mgr h)) epochNum h of None \<Rightarrow> Some (Inl EncodeError, h)
        | Some (own, msg) \<Rightarrow>
          let dm1 = (if epochNum > dm_candidateNo (mgr h) then (mgr h)\<lparr>dm_candidateNo := epochNum\<rparr> else mgr h);
              dm2 = (if \<not> ecm_IsExist epochChange dm1 then to_self msg (BroadcastMsgToAllVP (SentEpochChange own msg) dm1) else dm1) in
          CheckEnterNewEpoch de epochChange (set_mgr dm2 h))
     else CheckEnterNewEpoch de epochChange h }"

definition HandleEpochChange :: "'w dbft_env \<Rightarrow> DPoSMessage \<Rightarrow> u64 \<Rightarrow> 'w dnode \<Rightarrow> ((dbft_error + unit) \<times> 'w dnode) option" where
  "HandleEpochChange de dposMsg senderID h = (case de_decEC de (dp_Payload dposMsg) of None \<Rightarrow> Some (Inl DecodeError, h)
     | Some epochChange \<Rightarrow>
       if ec_EpochNo epochChange < dm_candidateNo (mgr h) - 1 then Some (Inl StaleEpoch, h)
       else if ec_Height epochChange > dm_CurHeight (mgr h) then Some (Inr (), SyncEntrance de (ec_Height epochChange) senderID h)
       else (case de_getBlockHash de (ec_Height epochChange - 1) (rest h) of None \<Rightarrow> Some (Inl NoBlock, h)
         | Some hash \<Rightarrow>
           if hash \<noteq> ec_Hash epochChange then Some (Inl WrongHash, h)
           else if gget (dm_NewEpoch (mgr h)) (ec_EpochNo epochChange) \<noteq> None then Some (Inl AlreadyEnough, h)
           else epoch_change_counted de epochChange (set_mgr (SetEpochChange epochChange (mgr h)) h)))"

section \<open>New epoch messages\<close>

definition val_hash :: "'w dbft_env \<Rightarrow> Validator \<Rightarrow> bytes" where
  "val_hash de v = he_val (ce_he (de_ce de)) (v_Address v, v_VotingPower v)"

text \<open>A witness that is null in the message is dereferenced.\<close>

fun match_witnesses :: "'w dbft_env \<Rightarrow> Validator option list \<Rightarrow> Validator list \<Rightarrow> bool option" where
  "match_witnesses de [] self = Some True"
| "match_witnesses de (None # net) self = None"
| "match_witnesses de (Some v # net) self = (if \<exists>u\<in>set self. val_hash de v = val_hash de u then match_witnesses de net self else Some False)"

definition checkNewEpochMatch :: "'w dbft_env \<Rightarrow> Epoch \<Rightarrow> Validator option list \<Rightarrow> Epoch \<Rightarrow> bool option" where
  "checkNewEpochMatch de net witnesses self =
     (if ep_BeginNum net \<noteq> ep_BeginNum self \<or> ep_EndNum net \<noteq> ep_EndNum self \<or> ep_DependEpochNo net \<noteq> ep_DependEpochNo self
         \<or> length witnesses \<noteq> length (ep_WitnessList self) then Some False
      else match_witnesses de witnesses (ep_WitnessList self))"

text \<open>The epoch of the message is compared with the one the node would have built.\<close>

definition new_epoch_checked :: "'w dbft_env \<Rightarrow> NewEpoch \<Rightarrow> 'w dnode \<Rightarrow> ((dbft_error + NewEpoch) \<times> 'w dnode) option" where
  "new_epoch_checked de newEpoch h = do {
     r \<leftarrow> BuildNewEpoch de h;
     on_ok r (\<lambda>selfEpoch h1. (case de_decVals de (nw_Witnesss newEpoch) of None \<Rightarrow> Some (Inl DecodeError, h1)
       | Some witnessesList \<Rightarrow> do {
           let net = zero_epoch\<lparr>ep_EpochNo := nw_EpochNo newEpoch, ep_DependEpochNo := nw_DependEpochNo newEpoch, ep_BeginNum := nw_Begin newEpoch, ep_EndNum := nw_End newEpoch\<rparr>;
           ok \<leftarrow> checkNewEpochMatch de net witnessesList (ReSetBeginBlk (h_Height h1) selfEpoch);
           if \<not> ok then Some (Inl NoMatch, h1)
           else let (a, dm) = alloc_epoch (net\<lparr>ep_WitnessList := map the witnessesList\<rparr>) (mgr h1) in do {
             r2 \<leftarrow> ResetEpoch de a (set_mgr dm h1);
             on_ok r2 (\<lambda>_ h2. Some (Inr newEpoch, h2)) } })) }"

definition HandleNewEpoch :: "'w dbft_env \<Rightarrow> DPoSMessage \<Rightarrow> 'w dnode \<Rightarrow> ((dbft_error + NewEpoch) \<times> 'w dnode) option" where
  "HandleNewEpoch de dposMsg h = (case de_decNE de (dp_Payload dposMsg) of None \<Rightarrow> Some (Inl DecodeError, h)
     | Some newEpoch \<Rightarrow>
       if nw_EpochNo newEpoch < dm_candidateNo (mgr h) then Some (Inl StaleEpoch, h)
       else do {
         totalVals \<leftarrow> dm_TotalValidators (mgr h);
         (case GetNewEpochSenderAddr (nw_EpochNo newEpoch) totalVals of Inl e \<Rightarrow> Some (Inl e, h)
          | Inr addr \<Rightarrow>
            if nw_DigestAddr newEpoch \<noteq> addr then Some (Inl WrongSender, h)
            else if \<not> IsMoreThanOneThridToCandidates (nw_EpochNo newEpoch) (length (vs_Validators totalVals)) (mgr h) then Some (Inl NotEnough, h)
            else new_epoch_checked de newEpoch h) })"

section \<open>The goroutines\<close>

text \<open>The goroutine that waits takes the number of the new epoch; it goes on waiting unless the number is the one before the next candidate.\<close>

definition notify_waiter :: "u64 \<Rightarrow> DBFTManager \<Rightarrow> DBFTManager" where
  "notify_waiter epochNo dm =
     (if gget (dm_newEpochNotify dm) epochNo \<noteq> None \<and> epochNo = dm_candidateNo dm - 1
      then dm\<lparr>dm_newEpochNotify := gdel (dm_newEpochNotify dm) epochNo, dm_waiting := None\<rparr> else dm)"

definition handle_dpos :: "'w dbft_env \<Rightarrow> DPoSMessage \<Rightarrow> u64 \<Rightarrow> 'w dnode \<Rightarrow> 'w dnode option" where
  "handle_dpos de dposMsg peerID h =
     (if dp_Type dposMsg = DPoSType_MsgEpochChange then map_option snd (HandleEpochChange de dposMsg peerID h)
      else if dp_Type dposMsg = DPoSType_MsgNewEpoch then do {
        (r, h1) \<leftarrow> HandleNewEpoch de dposMsg h;
        Some (case r of Inl e \<Rightarrow> h1
          | Inr newEpoch \<Rightarrow> set_mgr (notify_waiter (nw_EpochNo newEpoch) ((mgr h1)\<lparr>dm_NewEpoch := gput (dm_NewEpoch (mgr h1)) (nw_EpochNo newEpoch) newEpoch\<rparr>)) h1) }
      else Some h)"

text \<open>A message with another chain is only logged.  The messages of the rounds are passed on to the handler.\<close>

definition dpos_peer :: "'w dbft_env \<Rightarrow> PeerMessage \<Rightarrow> 'w dnode \<Rightarrow> 'w dnode option" where
  "dpos_peer de peerMsg h = (case ne_decCons (ce_ne (de_ce de)) (me_Msg peerMsg) of None \<Rightarrow> Some h
     | Some (ty, payload) \<Rightarrow>
       if ty \<noteq> DBFT then Some h
       else (case de_decDP de payload of None \<Rightarrow> Some h
         | Some dposMsg \<Rightarrow> if dpos_Verify de dposMsg (me_Sender peerMsg) then handle_dpos de dposMsg (me_PeerID peerMsg) h else Some h))"

definition dpos_internal :: "'w dbft_env \<Rightarrow> 'w dnode \<Rightarrow> 'w dnode option" where
  "dpos_internal de h = (case dm_InternalMsgQueue (mgr h) of [] \<Rightarrow> Some h
     | msg # q \<Rightarrow>
       let h1 = set_mgr ((mgr h)\<lparr>dm_InternalMsgQueue := q\<rparr>) h in
       (case Option.bind (ne_decCons (ce_ne (de_ce de)) (me_Msg msg)) (\<lambda>(ty, payload). de_decDP de payload) of None \<Rightarrow> Some h1
        | Some dposMsg \<Rightarrow> handle_dpos de dposMsg (me_PeerID msg) h1))"

definition FullBlkChangeServer :: "'w dbft_env \<Rightarrow> 'w dnode \<Rightarrow> 'w dnode option" where
  "FullBlkChangeServer de h = (case dm_fullQ (mgr h) of [] \<Rightarrow> Some h
     | _ # q \<Rightarrow> do {
         (r, h1) \<leftarrow> BuildNewEpoch de (set_mgr ((mgr h)\<lparr>dm_fullQ := q\<rparr>) h);
         (case r of Inl e \<Rightarrow> Some h1
          | Inr epoch \<Rightarrow> let (a, dm) = alloc_epoch (ReSetBeginBlk (h_Height h1) (epoch\<lparr>ep_EpochNo := dm_candidateNo (mgr h1)\<rparr>)) (mgr h1) in
              map_option snd (ResetEpoch de a (set_mgr dm h1))) })"

definition FindEpochChange :: "'w dbft_env \<Rightarrow> 'w dnode \<Rightarrow> 'w dnode option" where
  "FindEpochChange de h = (case dm_blkQ (mgr h) of [] \<Rightarrow> Some h
     | a # q \<Rightarrow> map_option snd (ResetEpoch de a (set_mgr ((mgr h)\<lparr>dm_blkQ := q\<rparr>) h)))"

definition IsNeedCheckEpoch :: "'w dbft_env \<Rightarrow> DBFTManager \<Rightarrow> bool option" where
  "IsNeedCheckEpoch de dm = do {
     totalVals \<leftarrow> LoadTotalValidators de (dm_candidateNo dm) dm;
     let ws = ep_WitnessList (cur_epoch dm);
     Some (if length (vs_Validators totalVals) < length ws then False
           else if length (vs_Validators totalVals) > length ws then True
           else \<exists>v\<in>set (vs_Validators totalVals). \<forall>u\<in>set ws. val_hash de v \<noteq> val_hash de u) }"

text \<open>A request for a new epoch that cannot be sent, or that was waited for in vain: the candidate number moves on and the handler starts again.\<close>

definition epoch_change_failed :: "'w dbft_env \<Rightarrow> u64 \<Rightarrow> 'w dnode \<Rightarrow> 'w dnode option" where
  "epoch_change_failed de candidateBgNum h =
     (let dm = mgr h; h1 = set_mgr (if dm_candidateNo dm = candidateBgNum then dm\<lparr>dm_candidateNo := dm_candidateNo dm + 1\<rparr> else dm) h in
      map_option snd (svc_Start de (snd (svc_Reset h1))))"

text \<open>Up to the wait.\<close>

definition ReqEpochChange :: "'w dbft_env \<Rightarrow> u64 \<Rightarrow> 'w dnode \<Rightarrow> 'w dnode option" where
  "ReqEpochChange de height h =
     (let epochNum = dm_candidateNo (mgr h) in
      case BuildEpochChangeMsg de height epochNum h of None \<Rightarrow> epoch_change_failed de epochNum h
      | Some (own, msg) \<Rightarrow>
        let dm = to_self msg (BroadcastMsgToAllVP (SentEpochChange own msg) (mgr h)) in
        Some (set_mgr (dm\<lparr>dm_newEpochNotify := gput (dm_newEpochNotify dm) epochNum (), dm_waiting := Some epochNum\<rparr>) h))"

definition BlkTimeoutRoutineScanner :: "'w dbft_env \<Rightarrow> 'w dnode \<Rightarrow> 'w dnode option" where
  "BlkTimeoutRoutineScanner de h =
     (if dm_waiting (mgr h) \<noteq> None then Some h
      else (case de_getHeight de (rest h) of None \<Rightarrow> Some h
        | Some height \<Rightarrow>
          if height \<noteq> dm_CurHeight (mgr h) then Some (set_mgr ((mgr h)\<lparr>dm_CurHeight := height\<rparr>) h)
          else let (zero, w) = de_txsLenZero de (rest h); h1 = set_rest w h in
            if zero then Some h1
            else do {
              need \<leftarrow> IsNeedCheckEpoch de (mgr h1);
              if \<not> need then Some h1
              else if dm_BlkTimeoutCount (mgr h1) = 1 then ReqEpochChange de height (snd (svc_Stop h1))
              else Some (set_mgr ((mgr h1)\<lparr>dm_BlkTimeoutCount := 1\<rparr>) h1) }))"

definition wait_timeout :: "'w dbft_env \<Rightarrow> 'w dnode \<Rightarrow> 'w dnode option" where
  "wait_timeout de h = (case dm_waiting (mgr h) of None \<Rightarrow> Some h
     | Some epochNo \<Rightarrow> epoch_change_failed de epochNo (set_mgr ((mgr h)\<lparr>dm_newEpochNotify := gdel (dm_newEpochNotify (mgr h)) epochNo, dm_waiting := None\<rparr>) h))"

section \<open>Runs\<close>

datatype dbft_event = RoundEvent event | DposPeer PeerMessage | DposInternal | FullBlkChange | BlkChange | BlkTimeout | WaitTimeout

fun dbft_deliver :: "'w dbft_env \<Rightarrow> dbft_event \<Rightarrow> 'w dnode \<Rightarrow> 'w dnode option" where
  "dbft_deliver de (RoundEvent ev) h = (if svc_running h then deliver (dbft_cons_env de) ev h else Some h)"
| "dbft_deliver de (DposPeer m) h = dpos_peer de m h"
| "dbft_deliver de DposInternal h = dpos_internal de h"
| "dbft_deliver de FullBlkChange h = FullBlkChangeServer de h"
| "dbft_deliver de BlkChange h = FindEpochChange de h"
| "dbft_deliver de BlkTimeout h = BlkTimeoutRoutineScanner de h"
| "dbft_deliver de WaitTimeout h = wait_timeout de h"

end
