(* ===== verification/Dbft_Start.thy ===== *)
theory Dbft_Start
  imports Dbft_Mgr
begin

text \<open>
  How delegated proof of stake starts: \<open>dbft.go\<close>, with the genesis block and the state that a restart loads from the last block, and \<open>NewDBFTManager\<close>.  The ledger, the hash of
  a transaction and the configuration are parameters.  The lemmas show that a node restarted on the genesis block finds the state that the genesis left behind, but for the time of the
  block.
\<close>

section \<open>The configuration and the ledger\<close>

text \<open>\<open>ge_bftGroup\<close> is \<open>GeneBftGroup\<close>, keys and powers; \<open>ge_writeLedger\<close> is \<open>WriteLedger\<close> without state and nonces.\<close>

record 'w start_env =
  ge_de :: "'w dbft_env"
  ge_bftGroup :: "(string \<times> int) list"
  ge_genesisTime :: int
  ge_BftNum :: int
  ge_signerHash :: "transaction \<Rightarrow> bytes"
  ge_writeLedger :: "Block \<Rightarrow> 'w \<Rightarrow> bool \<times> 'w"
  ge_calcBlockHash :: "Block \<Rightarrow> bytes option"

definition ge_tc :: "'w start_env \<Rightarrow> tdm_codec" where
  "ge_tc ge = ce_tc (de_ce (ge_de ge))"

section \<open>Genesis\<close>

definition gene_validator :: "'w start_env \<Rightarrow> string \<times> int \<Rightarrow> Validator" where
  "gene_validator ge kp = \<lparr> v_Address = de_address (ge_de ge) (fst kp), v_PubKeyStr = fst kp, v_VotingPower = snd kp, v_Accum = 0 \<rparr>"

text \<open>The proposer is the last of the group as it is configured, before the set is sorted and the accums are incremented.\<close>

definition LoadGeneValidators :: "'w start_env \<Rightarrow> (dbft_error + ValidatorSet) option" where
  "LoadGeneValidators ge =
     (let validators = map (gene_validator ge) (ge_bftGroup ge);
          epochInfo = zero_epoch\<lparr>ep_EpochNo := 1, ep_BeginNum := 1, ep_EndNum := 1, ep_TargetBlkNum := de_target (ge_de ge), ep_WitnessList := validators\<rparr> in
      case de_encEpoch (ge_de ge) epochInfo of None \<Rightarrow> Some (Inl EncodeError)
      | Some data \<Rightarrow> do {
          vset \<leftarrow> NewValidatorSet (Some validators) 1 [] [] data;
          Some (Inr (if validators \<noteq> [] then vset\<lparr>vs_Proposer := Some (last validators)\<rparr> else vset)) })"

text \<open>2018-10-19 00:00:00 in nanoseconds.\<close>

definition genesis_time :: int where
  "genesis_time = 1539907200 * 10 ^ 9"

definition genesis_tx :: "'w start_env \<Rightarrow> transaction" where
  "genesis_tx ge =
     (let tx = \<lparr> tx_ContractName = HNB, tx_Payload = ascii ''genesis'', tx_Txid = replicate 32 0, tx_From = replicate 20 0, tx_NonceValue = 0, tx_V = None, tx_R = None, tx_S = None \<rparr> in
      tx\<lparr>tx_Txid := ge_signerHash ge tx\<rparr>)"

text \<open>The map with the group and its number that is built here is not used.\<close>

definition MakeGenesisBlk :: "'w start_env \<Rightarrow> (dbft_error + TDMBlock) option" where
  "MakeGenesisBlk ge = do {
     r \<leftarrow> LoadGeneValidators ge;
     Some (case r of Inl e \<Rightarrow> Inl e
       | Inr validatorSet \<Rightarrow>
         (case Tx2TDMTx (ge_tc ge) [genesis_tx ge] of Inl e \<Rightarrow> Inl EncodeError
          | Inr geneTDMTxs \<Rightarrow> Inr \<lparr> tb_Header = Some (zero_header\<lparr>th_BlockNum := 0, th_Time := genesis_time, th_NumTxs := int (length geneTDMTxs)\<rparr>),
              tb_Data = Some \<lparr> td_Txs = geneTDMTxs, td_hash = [] \<rparr>, tb_Evidence = [], tb_LastCommit = Some \<lparr> cm_BlockID = zero_blockID, cm_Precommits = [] \<rparr>,
              tb_CurrentCommit = Some \<lparr> cm_BlockID = zero_blockID, cm_Precommits = [] \<rparr>,
              tb_ValidatorInfo = Some \<lparr> vi_Validators = Some validatorSet, vi_LastHeightChanged = 0 \<rparr> \<rparr>)) }"

text \<open>The time is that of the configuration.\<close>

definition MakeGenesisLastCommitState :: "'w start_env \<Rightarrow> Block \<Rightarrow> (dbft_error + State) option" where
  "MakeGenesisLastCommitState ge blk = do {
     r \<leftarrow> LoadGeneValidators ge;
     (case r of Inl e \<Rightarrow> Some (Inl e)
      | Inr validatorSet \<Rightarrow>
        (case ge_calcBlockHash ge blk of None \<Rightarrow> Some (Inl NoBlock)
         | Some preblkHash \<Rightarrow> do {
             none \<leftarrow> NewValidatorSet None 0 [] [] [];
             Some (Inr (zero_state\<lparr>st_LastBlockTime := ge_genesisTime ge, st_Validators := Some validatorSet, st_LastValidators := Some none, st_PreviousHash := preblkHash\<rparr>)) })) }"

definition GeneRecordEpochInfo :: "'w start_env \<Rightarrow> Epoch \<Rightarrow> 'w \<Rightarrow> dbft_error option \<times> 'w" where
  "GeneRecordEpochInfo ge epochInfo w = (case de_encEpoch (ge_de ge) (epochInfo\<lparr>ep_TargetBlkNum := de_target (ge_de ge)\<rparr>) of None \<Rightarrow> (Some EncodeError, w)
     | Some data \<Rightarrow> (let (err, w1) = de_kvPut (ge_de ge) (GetKey HNB (ep_EpochNo epochInfo)) data w in (if err then Some StoreError else None, w1)))"

section \<open>The state of the last block\<close>

text \<open>The body of \<open>LoadValidators\<close> is that of the function of the same name in the message handler, down to the height that is read of a block that could not be converted.\<close>

definition core_LoadValidators :: "'w start_env \<Rightarrow> Block \<Rightarrow> 'w dbft_world \<Rightarrow> (unit + ValidatorSet) option" where
  "core_LoadValidators ge blk w = LoadValidators (de_ce (ge_de ge)) blk w"

text \<open>The previous hash is that of the block; the random value of the block is not kept.\<close>

definition core_LoadLastCommitStateFromBlk :: "'w start_env \<Rightarrow> Block \<Rightarrow> 'w dbft_world \<Rightarrow> (dbft_error + State) option" where
  "core_LoadLastCommitStateFromBlk ge block w = do {
     r \<leftarrow> Standard2Cons (ge_tc ge) block;
     (case r of Inl e \<Rightarrow> Some (Inl DecodeError)
      | Inr tdmBlk \<Rightarrow> do {
          v \<leftarrow> core_LoadValidators ge block w;
          (case v of Inl e \<Rightarrow> Some (Inl NoValidators)
           | Inr curValidators \<Rightarrow> do {
               header \<leftarrow> bk_Header block;
               lv \<leftarrow> (if hd_BlockNum header = 0 then map_option Inr (NewValidatorSet None 0 [] [] [])
                     else (case ce_getBlock (de_ce (ge_de ge)) (hd_BlockNum header - 1) w of (Some prevBlk, False) \<Rightarrow> core_LoadValidators ge prevBlk w | _ \<Rightarrow> Some (Inl ())));
               (case lv of Inl e \<Rightarrow> Some (Inl NoValidators)
                | Inr lastValidators \<Rightarrow> do {
                    th \<leftarrow> tb_Header tdmBlk;
                    lastBlkID \<leftarrow> (if th_BlockNum th \<noteq> 0 then map_option cm_BlockID (tb_CurrentCommit tdmBlk) else Some zero_blockID);
                    (case ge_calcBlockHash ge block of None \<Rightarrow> Some (Inl NoBlock)
                     | Some previousHash \<Rightarrow> do {
                         info \<leftarrow> tb_ValidatorInfo tdmBlk;
                         Some (Inr (zero_state\<lparr>st_LastBlockNum := th_BlockNum th, st_LastBlockTime := th_Time th, st_LastBlockID := lastBlkID, st_LastBlockTotalTx := th_TotalTxs th,
                           st_Validators := Some curValidators, st_LastValidators := Some lastValidators, st_LastHeightValidatorsChanged := vi_LastHeightChanged info,
                           st_PreviousHash := previousHash\<rparr>)) }) }) }) }) }"

text \<open>What \<open>Init\<close> does on an empty ledger; the error of the record of epoch 0 is dropped.\<close>

definition init_genesis :: "'w start_env \<Rightarrow> 'w dbft_world \<Rightarrow> ((dbft_error + State) \<times> 'w dbft_world) option" where
  "init_genesis ge w = do {
     g \<leftarrow> MakeGenesisBlk ge;
     (case g of Inl e \<Rightarrow> Some (Inl e, w)
      | Inr genesisBlk \<Rightarrow> do {
          u \<leftarrow> ConsToStandard (ce_he (de_ce (ge_de ge))) (ge_tc ge) genesisBlk;
          (case u of Inl e \<Rightarrow> Some (Inl EncodeError, w)
           | Inr uniformBlk \<Rightarrow>
             let (err, r1) = ge_writeLedger ge uniformBlk (dw_rest w); w1 = w\<lparr>dw_rest := r1\<rparr> in
             if err then Some (Inl StoreError, w1)
             else do {
               s \<leftarrow> MakeGenesisLastCommitState ge uniformBlk;
               (case s of Inl e \<Rightarrow> Some (Inl e, w1)
                | Inr lastCommitState \<Rightarrow> do {
                    vals \<leftarrow> st_Validators lastCommitState;
                    (case de_decEpoch (ge_de ge) (vs_Extend vals) of (err2, p) \<Rightarrow>
                       if err2 then Some (Inl DecodeError, w1)
                       else do {
                         epochInfo \<leftarrow> p;
                         let (_, r2) = GeneRecordEpochInfo ge (epochInfo\<lparr>ep_EpochNo := 0, ep_BeginNum := 0, ep_EndNum := 1\<rparr>) (dw_rest w1);
                         Some (Inr lastCommitState, w1\<lparr>dw_rest := r2\<rparr>) }) }) }) }) }"

definition core_Init :: "'w start_env \<Rightarrow> 'w dbft_world \<Rightarrow> ((dbft_error + State) \<times> 'w dbft_world) option" where
  "core_Init ge w = (case de_getHeight (ge_de ge) (dw_rest w) of None \<Rightarrow> Some (Inl NoBlock, w)
     | Some curH \<Rightarrow>
       if curH = 0 then init_genesis ge w
       else (case ce_getBlock (de_ce (ge_de ge)) (curH - 1) w of
           (Some blk, False) \<Rightarrow> map_option (\<lambda>r. (r, w)) (core_LoadLastCommitStateFromBlk ge blk w)
         | _ \<Rightarrow> Some (Inl NoBlock, w)))"

section \<open>The manager\<close>

definition NewDBFTManager :: "'w start_env \<Rightarrow> State \<Rightarrow> (dbft_error + DBFTManager) option" where
  "NewDBFTManager ge lastCommitState = do {
     vals \<leftarrow> st_Validators lastCommitState;
     (case de_decEpoch (ge_de ge) (vs_Extend vals) of (err, p) \<Rightarrow>
        if err then Some (Inl DecodeError)
        else do {
          info \<leftarrow> p;
          let epochInfo = info\<lparr>ep_WitnessList := vs_Validators vals\<rparr>;
          let dm = \<lparr> dm_ChainID = HNB, dm_TotalValidators = None, dm_CurHeight = st_LastBlockNum lastCommitState + 1, dm_BlkTimeoutCount = 0, dm_BftNumber = word_of_int (ge_BftNum ge),
                     dm_candidateNo = ep_EpochNo epochInfo + 1, dm_epochs = [epochInfo], dm_epoch = 0, dm_epochList = [], dm_EpochChange = [], dm_NewEpoch = [], dm_newEpochNotify = [],
                     dm_epochChangeCache = [], dm_votedCache = [], dm_InternalMsgQueue = [], dm_started = False, dm_stopped = False, dm_waiting = None, dm_fullQ = [], dm_blkQ = [],
                     dm_log = [] \<rparr>;
          let dm1 = SetEpoch 0 dm;
          totalVals \<leftarrow> LoadTotalValidators (ge_de ge) 0 dm1;
          Some (if length (vs_Validators totalVals) = 0 then Inl TotalEmpty else Inr (dm1\<lparr>dm_TotalValidators := Some totalVals\<rparr>)) }) }"

text \<open>The handler is made before the manager; \<open>Start\<close> of the manager starts it, and what that returns is not looked at.\<close>

definition NewConsensusCore :: "'w start_env \<Rightarrow> bytes \<Rightarrow> 'w dbft_world \<Rightarrow> (dbft_error + 'w dnode) option" where
  "NewConsensusCore ge addr w = do {
     (r, w1) \<leftarrow> core_Init ge w;
     (case r of Inl e \<Rightarrow> Some (Inl e)
      | Inr lastCommitState \<Rightarrow> do {
          hr \<leftarrow> NewTDMMsgHandler (dbft_cons_env (ge_de ge)) addr lastCommitState w1;
          (case hr of Inl e \<Rightarrow> Some (Inl StoreError)
           | Inr handler \<Rightarrow> do {
               mr \<leftarrow> NewDBFTManager ge lastCommitState;
               (case mr of Inl e \<Rightarrow> Some (Inl e)
                | Inr dm \<Rightarrow> do {
                    (err, h) \<leftarrow> svc_Start (ge_de ge) (set_mgr dm handler);
                    Some (Inr h) }) }) }) }"

end
