(* ===== verification/Dbft_Props.thy ===== *)
theory Dbft_Props
  imports Dbft_Start Round_Props
begin

text \<open>
  What delegated proof of stake adds to the rounds.  The selection of witnesses: when it ends and what it returns.  The rotation of the node that announces an epoch and of
  the proposers.  The functions registered with the round machine keep within what its properties allow, from one start of the handler to the next.  What a node that is restarted finds after the genesis.  The properties of the kind \<open>error\<close> show where an
  epoch change and a restart do not do what they mean to.
\<close>

section \<open>Shuffling\<close>

lemma swap_mset: "i < length xs \<Longrightarrow> j < length xs \<Longrightarrow> mset (xs[i := xs ! j, j := xs ! i]) = mset xs"
  by (simp add: mset_swap)

lemma shuffle_index:
  assumes "i < n" "n < 2 ^ 64"
  shows "unat (of_nat i + r mod of_nat (n - i) :: u64) < n"
proof -
  have m: "unat (of_nat (n - i) :: u64) = n - i" using assms by (simp add: unat_of_nat del: of_nat_diff)
  have "unat (r mod of_nat (n - i)) < n - i" using assms m by (simp add: unat_mod del: of_nat_diff)
  moreover have "unat (of_nat i + r mod of_nat (n - i)) \<le> unat (of_nat i :: u64) + unat (r mod of_nat (n - i))" by (simp add: unat_word_ariths(1))
  moreover have "unat (of_nat i :: u64) = i" using assms by (simp add: unat_of_nat)
  ultimately show ?thesis using assms(1) by (simp del: of_nat_diff)
qed

lemma mset_shuffle: "length d < 2 ^ 64 \<Longrightarrow> mset (shuffle_loop seed i d) = mset d"
proof (induction seed i d rule: shuffle_loop.induct)
  case (1 seed i d)
  show ?case
  proof (cases "i < length d")
    case True
    define j where "j = unat (of_nat i + shuffle_rand seed i mod of_nat (length d - i))"
    have "j < length d" unfolding j_def using True "1.prems" by (rule shuffle_index)
    then have "mset (d[i := d ! j, j := d ! i]) = mset d" using True by (rule swap_mset [rotated])
    then show ?thesis using "1.IH" [OF True j_def] "1.prems" True by (simp add: shuffle_loop.simps [of seed i d] Let_def del: of_nat_diff flip: j_def)
  qed (simp add: shuffle_loop.simps [of seed i d])
qed

section \<open>Filling up\<close>

lemma fill_turns: "fill_witnesses (length ws + k * length others) others ws = Some (ws @ concat (replicate k others))"
proof (induction k arbitrary: ws)
  case 0
  then show ?case by (simp add: fill_witnesses.simps)
next
  case (Suc k)
  show ?case
  proof (cases "others = []")
    case True
    then show ?thesis by (simp add: fill_witnesses.simps)
  next
    case False
    then show ?thesis using Suc [of "ws @ others"] by (subst fill_witnesses.simps) (simp add: add.assoc)
  qed
qed

lemma fill_sound: "fill_witnesses n others ws = Some r \<Longrightarrow> \<exists>k. length ws + k * length others = n"
proof (erule fill_witnesses.raw_induct [where P = "\<lambda>n others ws r. \<exists>k. length ws + k * length others = n", rotated])
  fix fw n and others ws r :: "Validator list"
  assume IH: "\<And>n others ws r. fw n others ws = Some r \<Longrightarrow> \<exists>k. length ws + k * length others = n" and step: "(if length ws = n then Some ws else fw n others (ws @ others)) = Some r"
  show "\<exists>k. length ws + k * length others = n"
  proof (cases "length ws = n")
    case False
    then obtain k where "length (ws @ others) + k * length others = n" using IH [of n others "ws @ others" r] step by auto
    then show ?thesis by (intro exI [of _ "Suc k"]) simp
  qed (auto intro: exI [of _ 0])
qed

lemma fill_exact: "fill_witnesses n others ws = Some r \<longleftrightarrow> (\<exists>k. length ws + k * length others = n \<and> r = ws @ concat (replicate k others))"
proof
  assume r: "fill_witnesses n others ws = Some r"
  then obtain k where "length ws + k * length others = n" using fill_sound by blast
  then show "\<exists>k. length ws + k * length others = n \<and> r = ws @ concat (replicate k others)" using fill_turns [of ws k others] r by auto
qed (auto simp: fill_turns)

lemma top_witnesses_ok:
  assumes "top_witnesses pstr vset n ps (ws, taken) = (ws', taken')" "length ws \<le> n" "set ws \<subseteq> set (vs_Validators vset)"
  shows "length ws' \<le> n \<and> set ws' \<subseteq> set (vs_Validators vset)"
  using assms
proof (induction pstr vset n ps "(ws, taken)" arbitrary: ws taken rule: top_witnesses.induct)
  case (2 pstr vset n p ps ws taken)
  have "GetByPeerID pstr vset p = (i, Some v) \<Longrightarrow> v \<in> set (vs_Validators vset)" for i v
    by (auto simp: GetByPeerID_def find_Some_iff nth_enumerate_eq split: option.splits)
  then show ?case using 2 by (auto split: if_splits prod.splits option.splits)
qed simp

lemma not_taken_subset: "set (not_taken taken vals) \<subseteq> set vals"
  by (auto simp: not_taken_def in_set_enumerate_eq)

section \<open>The threshold\<close>

lemma f32_shift_small: "n < 2 ^ 24 \<Longrightarrow> f32_shift n = 0"
  by (simp add: f32_shift.simps)

lemma f32_shift_large: "2 ^ 24 \<le> n \<Longrightarrow> 2 ^ 24 \<le> n div 2 ^ f32_shift n * 2 ^ f32_shift n"
proof (induction n rule: f32_shift.induct)
  case (1 n)
  have k: "f32_shift n = Suc (f32_shift (n div 2))" using "1.prems" by (subst f32_shift.simps) simp
  show ?case
  proof (cases "n div 2 < 2 ^ 24")
    case True
    have "2 ^ 24 \<le> n div 2 * 2" using "1.prems" by simp
    then show ?thesis using True by (simp add: k f32_shift_small)
  next
    case False
    let ?m = "n div 2 div 2 ^ f32_shift (n div 2) * 2 ^ f32_shift (n div 2)"
    have "2 ^ 24 \<le> ?m" using 1 False by simp
    moreover have "n div 2 ^ f32_shift n * 2 ^ f32_shift n = 2 * ?m" by (simp add: k div_mult2_eq)
    ultimately show ?thesis by linarith
  qed
qed

text \<open>The rounding of the conversion does not matter.\<close>

lemma float32_threshold: "float32 token > token_threshold \<longleftrightarrow> token > 5100000"
proof (cases "\<bar>token\<bar> < 2 ^ 24")
  case True
  then have "float32 token = token" by (simp add: float32_def f32_shift_small nat_less_iff Let_def mult_sgn_abs)
  then show ?thesis by (simp add: token_threshold_def)
next
  case False
  define k where "k = f32_shift (nat \<bar>token\<bar>)"
  define q where "q = \<bar>token\<bar> div 2 ^ k"
  have "2 ^ 24 \<le> nat \<bar>token\<bar> div 2 ^ k * 2 ^ k" using f32_shift_large [of "nat \<bar>token\<bar>"] False by (simp add: k_def nat_le_iff)
  then have "(2 :: int) ^ 24 \<le> int (nat \<bar>token\<bar> div 2 ^ k * 2 ^ k)" by (simp only: of_nat_le_iff [where ?'a = int, symmetric] of_nat_power of_nat_numeral)
  then have q: "2 ^ 24 \<le> q * 2 ^ k" by (simp add: q_def zdiv_int)
  define up :: int where "up = (if 2 * (\<bar>token\<bar> mod 2 ^ k) > 2 ^ k \<or> (2 * (\<bar>token\<bar> mod 2 ^ k) = 2 ^ k \<and> odd q) then 1 else 0)"
  have "float32 token = sgn token * ((q + up) * 2 ^ k)" by (simp only: float32_def Let_def k_def [symmetric] q_def [symmetric] up_def)
  moreover have "q * 2 ^ k \<le> (q + up) * 2 ^ k" by (intro mult_right_mono) (simp_all add: up_def)
  then have "2 ^ 24 \<le> (q + up) * 2 ^ k" using q by linarith
  ultimately show ?thesis using False by (cases "token > 0") (auto simp: token_threshold_def sgn_if)
qed

lemma isVoteSatisfied_iff: "isVoteSatisfied de epochNo w \<longleftrightarrow> (\<exists>token. de_voteSum de epochNo w = Some token \<and> token > 5100000)"
  by (auto simp: isVoteSatisfied_def float32_threshold split: option.splits)

section \<open>The selection\<close>

definition remaining :: "ValidatorSet \<Rightarrow> int set \<Rightarrow> Validator list" where
  "remaining vset taken = not_taken taken (vs_Validators vset)"

lemma getWitnessesByToken_exact:
  assumes "de_votePeers de no (rest h) = Some ps" "LoadTotalValidators de (dm_candidateNo (mgr h)) (mgr h) \<noteq> None"
    "top_witnesses (ce_peerString (de_ce de)) vset (unat (dm_BftNumber (mgr h))) ps ([], {}) = (ws, taken)"
  shows "getWitnessesByToken de no vset h = map_option Inr (fill_witnesses (unat (dm_BftNumber (mgr h))) (remaining vset taken) ws)"
  using assms by (auto simp: getWitnessesByToken_def remaining_def)

lemma byte_lt: "unat (b :: byte) < 2 ^ 64"
proof -
  have "unat b < 2 ^ LENGTH(8)" by (rule unsigned_less)
  then show ?thesis by simp
qed

text \<open>Claim C5.  What the selection of witnesses by votes does, once more than 51% of the tokens have voted.  The candidates with the most votes are taken first; then the list is filled up
  by all other candidates at a time.  The selection returns if and only if the wanted number is met exactly after some turns; otherwise it never ends.  What it returns is a
  permutation of the list, of the wanted length, and all of it candidates.\<close>

theorem witness_selection_exact:
  assumes "de_voteSum de (ep_EpochNo e) (rest h) = Some token" "token > 5100000" "de_votePeers de (ep_EpochNo e) (rest h) = Some ps"
    "LoadTotalValidators de (dm_candidateNo (mgr h)) (mgr h) \<noteq> None"
    "top_witnesses (ce_peerString (de_ce de)) vset (unat (dm_BftNumber (mgr h))) ps ([], {}) = (ws, taken)"
  shows "(beginWitnessSelection de e vset h = None \<longleftrightarrow> (\<forall>k. length ws + k * length (remaining vset taken) \<noteq> unat (dm_BftNumber (mgr h)))) \<and>
    (\<forall>x. beginWitnessSelection de e vset h = Some x \<longrightarrow> (\<exists>sel k. x = (Inr (sel, dm_candidateNo (mgr h)), h) \<and> mset sel = mset (ws @ concat (replicate k (remaining vset taken))) \<and>
       length sel = unat (dm_BftNumber (mgr h)) \<and> set sel \<subseteq> set (vs_Validators vset)))"
proof -
  let ?n = "unat (dm_BftNumber (mgr h))" and ?others = "remaining vset taken"
  have sel: "beginWitnessSelection de e vset h = map_option (\<lambda>r. (Inr (witnessShuffle (ep_EpochNo e) r, dm_candidateNo (mgr h)), h)) (fill_witnesses ?n ?others ws)"
    using assms(1,2) getWitnessesByToken_exact [OF assms(3,4,5)] by (cases "fill_witnesses ?n ?others ws") (simp_all add: beginWitnessSelection_def isVoteSatisfied_iff)
  have ws: "set ws \<subseteq> set (vs_Validators vset)" using top_witnesses_ok [OF assms(5)] by simp
  have "\<exists>sel k. x = (Inr (sel, dm_candidateNo (mgr h)), h) \<and> mset sel = mset (ws @ concat (replicate k ?others)) \<and> length sel = ?n \<and> set sel \<subseteq> set (vs_Validators vset)"
    if "beginWitnessSelection de e vset h = Some x" for x
  proof -
    obtain r where r: "fill_witnesses ?n ?others ws = Some r" "x = (Inr (witnessShuffle (ep_EpochNo e) r, dm_candidateNo (mgr h)), h)" using \<open>_ = Some x\<close> sel by auto
    obtain k where k: "length ws + k * length ?others = ?n" "r = ws @ concat (replicate k ?others)" using r(1) by (auto simp: fill_exact)
    have len: "length r = ?n" using k by (simp add: length_concat sum_list_replicate)
    then have m: "mset (witnessShuffle (ep_EpochNo e) r) = mset r" using byte_lt mset_shuffle [of r] by (simp add: witnessShuffle_def)
    have "set r \<subseteq> set (vs_Validators vset)" using ws not_taken_subset [of taken "vs_Validators vset"] k(2) by (auto simp: remaining_def)
    then have "x = (Inr (witnessShuffle (ep_EpochNo e) r, dm_candidateNo (mgr h)), h) \<and> mset (witnessShuffle (ep_EpochNo e) r) = mset (ws @ concat (replicate k ?others)) \<and>
        length (witnessShuffle (ep_EpochNo e) r) = ?n \<and> set (witnessShuffle (ep_EpochNo e) r) \<subseteq> set (vs_Validators vset)"
      using r(2) m len mset_eq_length [OF m] mset_eq_setD [OF m] by (simp add: k(2))
    then show ?thesis by blast
  qed
  moreover have "beginWitnessSelection de e vset h = None \<longleftrightarrow> (\<forall>k. length ws + k * length ?others \<noteq> ?n)"
    using sel fill_exact [of ?n ?others ws] by (cases "fill_witnesses ?n ?others ws") auto
  ultimately show ?thesis by blast
qed

section \<open>Who announces an epoch\<close>

lemma add_mod_inj: "(a + i) mod n = (a + j) mod n \<Longrightarrow> i < n \<Longrightarrow> j < n \<Longrightarrow> i = (j :: nat)"
proof (induction i j rule: linorder_wlog)
  case (le i j)
  then have "n dvd (a + j) - (a + i)" by (metis mod_eq_dvd_iff_nat add_le_mono le_refl)
  then have "n dvd j - i" by simp
  moreover have "j - i < n" using le by simp
  ultimately show ?case using le(1) nat_dvd_not_less [of "j - i" n] by auto
qed simp

lemma sender_addr:
  assumes "vs_Validators vset \<noteq> []" "unat e + i < 2 ^ 64" "length (vs_Validators vset) < 2 ^ 64"
  shows "GetNewEpochSenderAddr (e + of_nat i) vset = Inr (map v_Address (sort_key v_Address (vs_Validators vset)) ! ((unat e + i) mod length (vs_Validators vset)))"
proof -
  let ?n = "length (vs_Validators vset)"
  have "unat (e + of_nat i) = unat e + i" using assms(2) by (simp add: unat_word_ariths(1) unat_of_nat)
  then have "unat ((e + of_nat i) mod of_nat ?n) = (unat e + i) mod ?n" using assms(3) by (simp add: unat_mod unat_of_nat)
  then show ?thesis using assms(1) by (simp add: GetNewEpochSenderAddr_def Let_def)
qed

text \<open>Of as many consecutive epochs as there are candidates, each candidate announces exactly one.\<close>

theorem new_epoch_sender_rotates:
  assumes "distinct (map v_Address (vs_Validators vset))" "v \<in> set (vs_Validators vset)" "unat e + length (vs_Validators vset) < 2 ^ 64"
  shows "\<exists>!i. i < length (vs_Validators vset) \<and> GetNewEpochSenderAddr (e + of_nat i) vset = Inr (v_Address v)"
proof -
  let ?n = "length (vs_Validators vset)" and ?as = "map v_Address (sort_key v_Address (vs_Validators vset))"
  have ne: "vs_Validators vset \<noteq> []" "0 < ?n" using assms(2) by auto
  have addr: "GetNewEpochSenderAddr (e + of_nat i) vset = Inr (?as ! ((unat e + i) mod ?n))" if "i < ?n" for i using sender_addr [OF ne(1), of e i] that assms(3) by simp
  have as: "distinct ?as" "length ?as = ?n" "v_Address v \<in> set ?as" using assms(1,2) by (simp_all add: distinct_map)
  then obtain j where j: "j < ?n" "?as ! j = v_Address v" by (metis in_set_conv_nth)
  define i where "i = (j + (?n - unat e mod ?n)) mod ?n"
  have "(unat e + i) mod ?n = (unat e mod ?n + (j + (?n - unat e mod ?n))) mod ?n" by (simp add: i_def mod_simps)
  also have "unat e mod ?n + (j + (?n - unat e mod ?n)) = j + ?n" using mod_less_divisor [OF ne(2), of "unat e"] by linarith
  also have "(j + ?n) mod ?n = j" using j(1) by simp
  finally have i: "i < ?n" "(unat e + i) mod ?n = j" using ne(2) by (simp_all add: i_def)
  show ?thesis
  proof (rule ex1I [of _ i])
    show "i < ?n \<and> GetNewEpochSenderAddr (e + of_nat i) vset = Inr (v_Address v)" using i j addr by simp
  next
    fix i' assume i': "i' < ?n \<and> GetNewEpochSenderAddr (e + of_nat i') vset = Inr (v_Address v)"
    then have "Inr (?as ! ((unat e + i') mod ?n)) = (Inr (v_Address v) :: dbft_error + bytes)" using addr [of i'] by argo
    then have "?as ! ((unat e + i') mod ?n) = ?as ! j" unfolding j(2) by (rule sum.inject(2) [THEN iffD1])
    then have "(unat e + i') mod ?n = j" using nth_eq_iff_index_eq [OF as(1), of "(unat e + i') mod ?n" j] as(2) j(1) mod_less_divisor [OF ne(2)] by metis
    then show "i' = i" using add_mod_inj [of "unat e" i' ?n i] i i' by simp
  qed
qed

theorem new_epoch_sender_rotates_witness:
  "\<exists>!i. i < length (vs_Validators demo_vals) \<and> GetNewEpochSenderAddr (5 + of_nat i) demo_vals = Inr (v_Address demo_val)"
  using new_epoch_sender_rotates [of demo_vals demo_val 5] by simp

section \<open>Who proposes\<close>

text \<open>The index that the proposers of a height are counted from, \<open>None\<close> if a nil pointer is read.\<close>

definition first_proposer :: "'w dnode \<Rightarrow> DBFTManager \<Rightarrow> u64 \<Rightarrow> nat \<Rightarrow> int option" where
  "first_proposer h dm height n = (if height = ep_BeginNum (cur_epoch dm) then Some 0
     else do { last \<leftarrow> h_LastValidators h; p \<leftarrow> vs_Proposer last; let i = fst (GetByAddress last (v_Address p)) + 1; Some (if i = int n then 0 else i) })"

lemma first_proposer_nonneg: "first_proposer h dm height n = Some i \<Longrightarrow> 0 \<le> i"
  by (auto simp: first_proposer_def GetByAddress_def bind_eq_Some_conv Let_def split: if_splits)

lemma isProposer_nth:
  assumes "GetEpoch de (ep_EpochNo (cur_epoch (mgr h))) (rest h) (mgr h) = (Some a, dm)" "ws = ep_WitnessList (dm_epochs dm ! a)" "ws \<noteq> []"
    "first_proposer h dm height (length ws) = Some i" "0 \<le> R" "i + R < 2 ^ 63"
  shows "isProposerByDPoS de h height R = Some ((h_digestAddr h = v_Address (ws ! (nat (i + R) mod length ws)), Some (ws ! (nat (i + R) mod length ws))), dm)"
proof -
  have i: "0 \<le> i" by (rule first_proposer_nonneg [OF assms(4)])
  have "int64 (i + R) = i + R" using i assms(5,6) by (intro int64_id) (simp add: int64_consts)
  moreover have "go_rem (i + R) (int (length ws)) = int (nat (i + R) mod length ws)" using i assms(5) by (simp add: go_rem_def go_quot_def zmod_int minus_mult_div_eq_mod sgn_if)
  ultimately show ?thesis using assms(1-4) by (auto simp: isProposerByDPoS_def first_proposer_def bind_eq_Some_conv Let_def)
qed

text \<open>Claim C18.  The proposers of delegated proof of stake take turns.  At a height at which the epoch of the node is known and has witnesses, and no nil pointer is read, the proposers that the registered
  function names for as many consecutive rounds as there are witnesses are the witnesses in their order, starting at some place and going round: each place of the list has exactly one turn.  The node
  is told to propose in the rounds of its own address.  At the first height of an epoch round 0 is the turn of the first witness.  The rounds and the first index are assumed not to exceed a 64-bit
  integer together.\<close>

theorem dpos_proposers_rotate:
  assumes "GetEpoch de (ep_EpochNo (cur_epoch (mgr h))) (rest h) (mgr h) = (Some a, dm)" "ws = ep_WitnessList (dm_epochs dm ! a)" "ws \<noteq> []"
    "first_proposer h dm height (length ws) = Some i" "0 \<le> R" "i + R + int (length ws) < 2 ^ 63"
  shows "(\<exists>k. \<forall>r < length ws. isProposerByDPoS de h height (R + int r) = Some ((h_digestAddr h = v_Address (rotate k ws ! r), Some (rotate k ws ! r)), dm)) \<and>
    (height = ep_BeginNum (cur_epoch dm) \<longrightarrow> (\<forall>r < length ws. isProposerByDPoS de h height (int r) = Some ((h_digestAddr h = v_Address (ws ! r), Some (ws ! r)), dm)))"
proof -
  have i: "0 \<le> i" by (rule first_proposer_nonneg [OF assms(4)])
  have turn: "isProposerByDPoS de h height (R + int r) = Some ((h_digestAddr h = v_Address (rotate (nat (i + R)) ws ! r), Some (rotate (nat (i + R)) ws ! r)), dm)" if r: "r < length ws" for r
  proof -
    have "nat (i + (R + int r)) = nat (i + R) + r" using i assms(5) by simp
    then have "rotate (nat (i + R)) ws ! r = ws ! (nat (i + (R + int r)) mod length ws)" using r by (simp add: nth_rotate)
    then show ?thesis using isProposer_nth [OF assms(1-4), of "R + int r"] assms(5,6) r by simp
  qed
  have "isProposerByDPoS de h height (int r) = Some ((h_digestAddr h = v_Address (ws ! r), Some (ws ! r)), dm)" if "height = ep_BeginNum (cur_epoch dm)" "r < length ws" for r
    using isProposer_nth [OF assms(1-4), of "int r"] that assms(4,5,6) by (simp add: first_proposer_def)
  then show ?thesis using turn by blast
qed

section \<open>Counting epoch changes\<close>

fun is_change :: "dout \<Rightarrow> bool" where
  "is_change (SentEpochChange e m) = True"
| "is_change (SentNewEpoch n m) = False"

definition changes_sent :: "'w dnode \<Rightarrow> dout list" where
  "changes_sent h = filter is_change (dm_log (mgr h))"

lemma set_mgr_simps [simp]: "mgr (set_mgr dm h) = dm" "rest (set_mgr dm h) = rest h" "mgr (set_rest w h) = mgr h" "rest (set_rest w h) = w" "h_digestAddr (set_mgr dm h) = h_digestAddr h"
  "h_Height (set_mgr dm h) = h_Height h" "set_mgr dm (set_mgr dm' h) = set_mgr dm h"
  by (simp_all add: set_mgr_def set_rest_def)

lemma set_mgr_id [simp]: "set_mgr (mgr h) h = h"
  by (simp add: set_mgr_def)

lemma mgr_updates_commute: "dm\<lparr>dm_candidateNo := c, dm_EpochChange := t\<rparr> = dm\<lparr>dm_EpochChange := t, dm_candidateNo := c\<rparr>"
  by simp

lemma GetEpoch_log: "GetEpoch de n w dm = (p, dm') \<Longrightarrow> dm_log dm' = dm_log dm"
  by (auto simp: GetEpoch_def alloc_epoch_def split: option.splits sum.splits)

lemma BuildNewEpoch_log: "BuildNewEpoch de h = Some (r, h') \<Longrightarrow> dm_log (mgr h') = dm_log (mgr h)"
  by (auto simp: BuildNewEpoch_def GetWitnesses_def beginWitnessSelection_def getLastWitnesses_def on_ok_def Let_def split: Option.bind_splits if_splits prod.splits sum.splits option.splits dest: GetEpoch_log)

lemma BuildNewEpochMsg_log: "BuildNewEpochMsg de n h = Some (r, h') \<Longrightarrow> dm_log (mgr h') = dm_log (mgr h)"
  by (auto simp: BuildNewEpochMsg_def on_ok_def split: Option.bind_splits prod.splits sum.splits dest!: BuildNewEpoch_log)

lemma CheckEnterNewEpoch_changes: "CheckEnterNewEpoch de ec h = Some (r, h') \<Longrightarrow> changes_sent h' = changes_sent h"
  by (auto simp: CheckEnterNewEpoch_def on_ok_def changes_sent_def to_self_def BroadcastMsgToAllVP_def split: Option.bind_splits if_splits prod.splits sum.splits dest!: BuildNewEpochMsg_log)

lemma counted_exists: "ecm_IsExist ec (dm\<lparr>dm_candidateNo := c\<rparr>) = ecm_IsExist ec dm" "ecm_IsExist ec (SetEpochChange ec dm)"
  by (simp_all add: ecm_IsExist_def ec_list_def SetEpochChange_def)

lemma epoch_change_counted_changes:
  assumes "epoch_change_counted de ec (set_mgr (SetEpochChange ec (mgr h)) h) = Some (r, h')"
  shows "changes_sent h' = changes_sent h"
proof -
  have log: "changes_sent (set_mgr (dm\<lparr>dm_candidateNo := c\<rparr>) h) = filter is_change (dm_log dm)" "changes_sent (set_mgr dm h) = filter is_change (dm_log dm)" for dm c
    by (simp_all add: changes_sent_def)
  have "dm_log (SetEpochChange ec (mgr h)) = dm_log (mgr h)" by (simp add: SetEpochChange_def)
  then show ?thesis
    using assms by (auto simp: epoch_change_counted_def counted_exists Let_def log changes_sent_def split: Option.bind_splits if_splits option.splits prod.splits dest!: CheckEnterNewEpoch_changes)
qed

text \<open>The node whose table holds \<open>k\<close> more copies of the message.\<close>

definition with_copies :: "EpochChange \<Rightarrow> nat \<Rightarrow> u64 \<Rightarrow> 'w dnode \<Rightarrow> 'w dnode" where
  "with_copies ec k c h = set_mgr ((mgr h)\<lparr>dm_EpochChange := (if k = 0 then dm_EpochChange (mgr h)
     else gput (dm_EpochChange (mgr h)) (ec_EpochNo ec) (ec_list (mgr h) (ec_EpochNo ec) @ replicate k ec)), dm_candidateNo := c\<rparr>) h"

primrec repeat_change :: "'w dbft_env \<Rightarrow> DPoSMessage \<Rightarrow> u64 \<Rightarrow> nat \<Rightarrow> 'w dnode \<Rightarrow> 'w dnode option" where
  "repeat_change de m sid 0 h = Some h"
| "repeat_change de m sid (Suc k) h = Option.bind (repeat_change de m sid k h) (\<lambda>h1. map_option snd (HandleEpochChange de m sid h1))"

text \<open>What a message must be for a node to count it, when the node is not the one to announce the epoch.\<close>

definition counted_message :: "'w dbft_env \<Rightarrow> DPoSMessage \<Rightarrow> EpochChange \<Rightarrow> ValidatorSet \<Rightarrow> 'w dnode \<Rightarrow> bool" where
  "counted_message de m ec totalVals h \<longleftrightarrow> de_decEC de (dp_Payload m) = Some ec \<and> \<not> ec_EpochNo ec < dm_candidateNo (mgr h) - 1 \<and> ec_Height ec \<le> dm_CurHeight (mgr h) \<and>
     de_getBlockHash de (ec_Height ec - 1) (rest h) = Some (ec_Hash ec) \<and> gget (dm_NewEpoch (mgr h)) (ec_EpochNo ec) = None \<and> dm_TotalValidators (mgr h) = Some totalVals \<and>
     \<not> CheckNewEpochSender (ec_EpochNo ec) totalVals (h_digestAddr h) \<and> BuildEpochChangeMsg de (dm_CurHeight (mgr h)) (ec_EpochNo ec) h \<noteq> None"

lemma with_copies_simps [simp]:
  "ec_list (mgr (with_copies ec k c h)) (ec_EpochNo ec) = ec_list (mgr h) (ec_EpochNo ec) @ replicate k ec" "dm_candidateNo (mgr (with_copies ec k c h)) = c"
  "dm_CurHeight (mgr (with_copies ec k c h)) = dm_CurHeight (mgr h)" "rest (with_copies ec k c h) = rest h" "dm_NewEpoch (mgr (with_copies ec k c h)) = dm_NewEpoch (mgr h)"
  "dm_TotalValidators (mgr (with_copies ec k c h)) = dm_TotalValidators (mgr h)" "h_digestAddr (with_copies ec k c h) = h_digestAddr h" "dm_log (mgr (with_copies ec k c h)) = dm_log (mgr h)"
  "BuildEpochChangeMsg de x y (with_copies ec k c h) = BuildEpochChangeMsg de x y h"
  by (simp_all add: with_copies_def ec_list_def BuildEpochChangeMsg_def dpos_wrap_def)

lemma add_copy: "set_mgr (SetEpochChange ec (mgr (with_copies ec k c h))) (with_copies ec k c h) = with_copies ec (Suc k) c h"
proof -
  have "gput (gput m n x) n y = gput m n y" for m :: "(u64, EpochChange list) gomap" and n x y by (simp add: gput_def)
  then show ?thesis by (simp only: SetEpochChange_def with_copies_def) (simp add: ec_list_def replicate_append_same [symmetric] mgr_updates_commute)
qed

lemma copies_candidate: "set_mgr ((mgr (with_copies ec k c h))\<lparr>dm_candidateNo := c'\<rparr>) (with_copies ec k c h) = with_copies ec k c' h"
  by (simp add: with_copies_def)

lemma not_before: "(c :: u64) < x \<Longrightarrow> \<not> x < x - 1"
  using unat_minus_one [of x] by (cases "x = 0") (auto simp: word_less_nat_alt)

lemma counted_once:
  assumes "counted_message de m ec totalVals (with_copies ec k c h)"
  shows "\<exists>c'. map_option snd (HandleEpochChange de m sid (with_copies ec k c h)) = Some (with_copies ec (Suc k) c' h) \<and> counted_message de m ec totalVals (with_copies ec (Suc k) c' h)"
proof -
  let ?h = "with_copies ec (Suc k) c h"
  obtain x where x: "BuildEpochChangeMsg de (dm_CurHeight (mgr h)) (ec_EpochNo ec) h = Some x" using assms by (auto simp: counted_message_def)
  have last: "CheckEnterNewEpoch de ec (with_copies ec (Suc k) c' h) = Some (Inr (), with_copies ec (Suc k) c' h)" for c'
    using assms by (simp add: CheckEnterNewEpoch_def counted_message_def)
  have ex: "ecm_IsExist ec (mgr (with_copies ec (Suc k) c' h))" for c' by (simp add: ecm_IsExist_def)
  define c' where "c' = (if IsMoreThanOneThridToCandidates (ec_EpochNo ec) (length (vs_Validators totalVals)) (mgr ?h) \<and> ec_EpochNo ec > c then ec_EpochNo ec else c)"
  have "epoch_change_counted de ec ?h = Some (Inr (), with_copies ec (Suc k) c' h)"
    using assms x last [of c] last [of "ec_EpochNo ec"] copies_candidate [where ec = ec and k = "Suc k" and c = c and h = h and c' = "ec_EpochNo ec"] ex [of c] ex [of "ec_EpochNo ec"]
    by (cases x) (auto simp: epoch_change_counted_def counted_message_def Let_def c'_def counted_exists(1))
  then have "map_option snd (HandleEpochChange de m sid (with_copies ec k c h)) = Some (with_copies ec (Suc k) c' h)"
    using assms by (auto simp: HandleEpochChange_def counted_message_def add_copy)
  moreover have "counted_message de m ec totalVals (with_copies ec (Suc k) c' h)" using assms not_before [of c "ec_EpochNo ec"] by (auto simp: counted_message_def c'_def)
  ultimately show ?thesis by blast
qed

lemma counted_repeats:
  assumes "counted_message de m ec totalVals h"
  shows "\<exists>c. repeat_change de m sid k h = Some (with_copies ec k c h) \<and> counted_message de m ec totalVals (with_copies ec k c h)"
proof (induction k)
  case 0
  have "with_copies ec 0 (dm_candidateNo (mgr h)) h = h" by (simp add: with_copies_def set_mgr_def)
  then show ?case using assms by (intro exI [of _ "dm_candidateNo (mgr h)"]) simp
next
  case (Suc k)
  then obtain c where "repeat_change de m sid k h = Some (with_copies ec k c h)" "counted_message de m ec totalVals (with_copies ec k c h)" by blast
  then show ?case using counted_once [of de m ec totalVals k c h sid] by auto
qed

text \<open>Claim C39.  Epoch change messages are counted without looking at who sent them: one message, sent again and again, makes the majority that lets a new epoch start.  And a node never
  joins in: whatever epoch change message it handles, it sends none of its own, since it asks for its own message and finds the one that it has just filed.\<close>

theorem epoch_change_counts_repeats:
  assumes "counted_message de m ec totalVals h"
  shows "(\<exists>h'. repeat_change de m sid (Suc (length (vs_Validators totalVals) * 2 div 3)) h = Some h' \<and> IsMajorityToCandidates (ec_EpochNo ec) (length (vs_Validators totalVals)) (mgr h')) \<and>
    (\<forall>m' sid' h1 r h2. HandleEpochChange de m' sid' h1 = Some (r, h2) \<longrightarrow> changes_sent h2 = changes_sent h1)"
proof
  show "\<exists>h'. repeat_change de m sid (Suc (length (vs_Validators totalVals) * 2 div 3)) h = Some h' \<and> IsMajorityToCandidates (ec_EpochNo ec) (length (vs_Validators totalVals)) (mgr h')"
    using counted_repeats [OF assms, of sid "Suc (length (vs_Validators totalVals) * 2 div 3)"] by (fastforce simp: IsMajorityToCandidates_def)
  have sync: "changes_sent (SyncEntrance de n s h1) = changes_sent h1" for n s h1 by (simp add: SyncEntrance_def updateSync_def changes_sent_def set_rest_def Let_def split: prod.splits)
  show "\<forall>m' sid' h1 r h2. HandleEpochChange de m' sid' h1 = Some (r, h2) \<longrightarrow> changes_sent h2 = changes_sent h1"
    by (auto simp: HandleEpochChange_def sync split: option.splits if_splits dest: epoch_change_counted_changes)
qed

section \<open>The registered functions\<close>





text \<open>What a node does with an epoch change message stays outside the rounds.\<close>

definition outside :: "'w TDMMsgHandler \<Rightarrow> 'w TDMMsgHandler \<Rightarrow> bool" where
  "outside h h' \<longleftrightarrow> (\<exists>w b n. h' = h\<lparr>h_world := w, h_isSyncStatus := b, h_syncVersion := n\<rparr>)"

lemma outsideI: "h' = h\<lparr>h_world := h_world h', h_isSyncStatus := h_isSyncStatus h', h_syncVersion := h_syncVersion h'\<rparr> \<Longrightarrow> outside h h'"
  unfolding outside_def by blast

lemma outside_refl [simp]: "outside h h"
  by (rule outsideI) simp











section \<open>A restart\<close>

text \<open>Proposing only adds to the log, and no votes.\<close>

definition proposes :: "'w TDMMsgHandler \<Rightarrow> 'w TDMMsgHandler \<Rightarrow> bool" where
  "proposes h h' \<longleftrightarrow> (\<exists>w L. h' = h\<lparr>h_world := w, h_log := h_log h @ L\<rparr> \<and> votes_in L = [])"

lemma proposesI: "h' = h\<lparr>h_world := w, h_log := h_log h @ L\<rparr> \<Longrightarrow> votes_in L = [] \<Longrightarrow> proposes h h'"
  unfolding proposes_def by blast

lemma proposes_refl [simp]: "proposes h h"
  by (rule proposesI [where w = "h_world h" and L = "[]"]) simp_all

lemma proposes_trans: "proposes h h1 \<Longrightarrow> proposes h1 h2 \<Longrightarrow> proposes h h2"
  unfolding proposes_def by (elim exE conjE) (rule exI, rule exI, auto)

lemma proposes_send: "votes_in [mk m'] = [] \<Longrightarrow> proposes h (log_out (mk m') h)"
  by (rule proposesI [where w = "h_world h" and L = "[mk m']"]) (simp_all add: log_out_def)

lemma send_parts_proposes: "send_parts ce ps h = Some h' \<Longrightarrow> proposes h h'"
proof (induction ce ps h rule: send_parts.induct)
  case (3 ce part ps h)
  have "proposes h (send ce 3 (OutPart part) msg h)" for msg unfolding send_def by (rule proposes_send) simp
  then show ?case using 3 by (auto split: option.splits intro: proposes_trans)
qed simp_all

lemma send_proposal_proposes:
  assumes "send_proposal ce H R ps h = Some h'"
  shows "proposes h h'"
proof -
  obtain votes polRound polBlockID where "h_Votes h = Some votes" "hvs_POLInfo votes = (polRound, polBlockID)"
    using assms by (cases "h_Votes h") (auto simp: send_proposal_def intro: prod.exhaust)
  then have "h' = h \<or> (\<exists>p msg parts. send_parts ce parts (send ce 0 (OutProposal p) msg h) = Some h')"
    using assms by (cases "buildProposalMsgFromType (ce_ne ce) (word_of_int (go_quot (ce_now ce (h_world h)) 1000000)) (NewProposal (ce_now ce (h_world h)) H R (ps_Header ps) polRound polBlockID)")
      (auto simp: send_proposal_def Let_def)
  moreover have "proposes h (send ce 0 (OutProposal p) msg h)" for p msg unfolding send_def by (rule proposes_send) simp
  ultimately show ?thesis by (auto dest!: send_parts_proposes intro: proposes_trans)
qed

lemma decideProposal_proposes:
  assumes "decideProposal ce H R h = Some h'"
  shows "proposes h h'"
proof -
  have world: "proposes h (h\<lparr>h_world := w\<rparr>)" for w by (rule proposesI [where w = w and L = "[]"]) simp_all
  consider "\<exists>ps. send_proposal ce H R ps h = Some h'" | w where "h' = h\<lparr>h_world := w\<rparr>" | w ps where "send_proposal ce H R ps (h\<lparr>h_world := w\<rparr>) = Some h'"
    using assms by (auto simp: decideProposal_def Let_def split: if_splits Option.bind_splits option.splits prod.splits)
  then show ?thesis using world by cases (auto dest!: send_proposal_proposes intro: proposes_trans [OF world])
qed

lemma propose_body_proposes: "propose_body ce H R h = Some h' \<Longrightarrow> proposes h h'"
  by (auto simp: propose_body_def split: if_splits Option.bind_splits dest!: decideProposal_proposes)

text \<open>A validator that can sign and holds a complete proposal that it accepts, with no lock.\<close>

definition ready_to_prevote :: "'w cons_env \<Rightarrow> TDMBlock \<Rightarrow> 'w TDMMsgHandler \<Rightarrow> bool" where
  "ready_to_prevote ce blk h \<longleftrightarrow> h_digestAddr h \<noteq> [] \<and>
     (\<exists>vals. h_Validators h = Some vals \<and> HasAddress vals (h_digestAddr h) \<and> (\<exists>val \<in> set (vs_Validators vals). v_Address val = h_digestAddr h)) \<and>
     (\<exists>p. h_Proposal h = Some p \<and> pp_POLRound p < 0) \<and> h_ProposalBlock h = Some blk \<and> h_LockedBlock h = None \<and>
     validate_block ce (h_LastCommitState h) (Some blk) = Some None \<and> (\<forall>v. mySignVote (ce_ne ce) v \<noteq> None)"

text \<open>The node goes on to propose as soon as it enters a round: there are transactions, or empty blocks are made at once.\<close>

definition proposes_at_once :: "'w cons_env \<Rightarrow> 'w \<Rightarrow> bool" where
  "proposes_at_once ce w \<longleftrightarrow> (if WaitForTxs ce then \<not> fst (ce_txsLenZero ce w) else cf_CreateEmptyBlocksInterval (ce_conf ce) \<le> 0)"

lemma prevote_signed:
  assumes "ready_to_prevote ce blk h" "h_Step h < RoundStepPrevote" "enterPrevote ce (h_Height h) (h_Round h) h = Some h'"
  shows "\<exists>v. votes_in (h_log h') = votes_in (h_log h) @ [v] \<and> vote_key v = (h_Height h, h_Round h, VoteTypePrevote) \<and> bid_Hash (vt_BlockID v) = blk_hash (ce_he ce) (Some blk)"
proof -
  let ?b = "mk_blockID (blk_hash (ce_he ce) (Some blk)) (ps_Header (h_ProposalBlockParts h))"
  obtain vals where vals: "h_Validators h = Some vals" "HasAddress vals (h_digestAddr h)" using assms(1) by (auto simp: ready_to_prevote_def)
  obtain v where v: "mySignVote (ce_ne ce) (own_vote ce VoteTypePrevote ?b vals h) = Some v" using assms(1) by (auto simp: ready_to_prevote_def)
  have new: "vote_key v = (h_Height h, h_Round h, VoteTypePrevote)" "bid_Hash (vt_BlockID v) = blk_hash (ce_he ce) (Some blk)"
    using v by (auto simp: mySignVote_def own_vote_def vote_key_def mk_blockID_def bind_eq_Some_conv)
  have "\<not> stale (h_Height h) (h_Round h) RoundStepPrevote h" using assms(2) by (simp add: stale_def not_le)
  then obtain h1 where h1: "defaultDoPrevote ce h = Some (0, h1)"
      "h' = updateRoundStep (h_Round h) RoundStepPrevote (scheduleTimeout (AddTimeOut (cf_TimeoutPrevote (ce_conf ce)) h1) (h_Height h) (h_Round h) RoundStepPrevote h1)"
    using assms(1,3) by (auto simp: enterPrevote_def defaultDoPrevote_def ready_to_prevote_def bind_eq_Some_conv)
  have "signAddVote ce VoteTypePrevote ?b h = Some h1" using h1(1) assms(1) by (simp add: defaultDoPrevote_def ready_to_prevote_def)
  then obtain m where "h1 = send ce 1 (OutVote v) m h"
    using vals v assms(1) by (auto simp: signAddVote_def signVote_def send_vote_def ready_to_prevote_def bind_eq_Some_conv)
  then have "votes_in (h_log h') = votes_in (h_log h) @ [v]" by (simp add: h1(2) out_simps)
  then show ?thesis using new by blast
qed

lemma propose_signed:
  assumes "ready_to_prevote ce blk h" "h_Step h = RoundStepNewRound" "enterPropose ce (h_Height h) (h_Round h) h = Some h'"
  shows "\<exists>v. votes_in (h_log h') = votes_in (h_log h) @ [v] \<and> vote_key v = (h_Height h, h_Round h, VoteTypePrevote) \<and> bid_Hash (vt_BlockID v) = blk_hash (ce_he ce) (Some blk)"
proof -
  let ?t = "OutTimeout (AddTimeOut (cf_TimeoutPropose (ce_conf ce)) (h\<lparr>h_TryProposalTimes := 0\<rparr>)) (h_Height h) (h_Round h) RoundStepPropose"
  have "\<not> stale (h_Height h) (h_Round h) RoundStepPropose h" using assms(2) by (simp add: stale_def less_eq_RoundStepType_def)
  then obtain h2 complete where h2: "propose_body ce (h_Height h) (h_Round h) (log_out ?t (h\<lparr>h_TryProposalTimes := 0\<rparr>)) = Some h2"
      "isProposalComplete (updateRoundStep (h_Round h) RoundStepPropose h2) = Some complete"
      "(if complete then enterPrevote ce (h_Height h) (h_Round (updateRoundStep (h_Round h) RoundStepPropose h2)) (updateRoundStep (h_Round h) RoundStepPropose h2)
        else Some (updateRoundStep (h_Round h) RoundStepPropose h2)) = Some h'"
    using assms(3) by (auto simp: enterPropose_def scheduleTimeout_def Let_def bind_eq_Some_conv)
  obtain w L where L: "h2 = h\<lparr>h_TryProposalTimes := 0, h_world := w, h_log := h_log h @ ?t # L\<rparr>" "votes_in L = []"
    using propose_body_proposes [OF h2(1)] by (auto simp: proposes_def log_out_def)
  let ?h3 = "h\<lparr>h_Step := RoundStepPropose, h_TryProposalTimes := 0, h_world := w, h_log := h_log h @ ?t # L\<rparr>"
  have h3: "updateRoundStep (h_Round h) RoundStepPropose h2 = ?h3" by (simp add: L(1) updateRoundStep_def)
  have ready: "ready_to_prevote ce blk ?h3" using assms(1) by (simp add: ready_to_prevote_def)
  have "isProposalComplete ?h3 = Some True" using assms(1) by (auto simp: isProposalComplete_def ready_to_prevote_def)
  then have "enterPrevote ce (h_Height ?h3) (h_Round ?h3) ?h3 = Some h'" using h2(2,3) unfolding h3 by simp
  then obtain v where "votes_in (h_log h') = votes_in (h_log ?h3) @ [v]" "vote_key v = (h_Height ?h3, h_Round ?h3, VoteTypePrevote)" "bid_Hash (vt_BlockID v) = blk_hash (ce_he ce) (Some blk)"
    using prevote_signed [OF ready] by (auto simp: less_RoundStepType_def less_eq_RoundStepType_def)
  then show ?thesis using L(2) by auto
qed

lemma deal_signed:
  assumes "ready_to_prevote ce blk h" "h_Step h = RoundStepNewRound" "proposes_at_once ce (h_world h)" "dealNewRound ce h = Some h'"
  shows "\<exists>v. votes_in (h_log h') = votes_in (h_log h) @ [v] \<and> vote_key v = (h_Height h, h_Round h, VoteTypePrevote) \<and> bid_Hash (vt_BlockID v) = blk_hash (ce_he ce) (Some blk)"
proof -
  obtain w where w: "enterPropose ce (h_Height (h\<lparr>h_world := w\<rparr>)) (h_Round (h\<lparr>h_world := w\<rparr>)) (h\<lparr>h_world := w\<rparr>) = Some h'"
  proof (cases "WaitForTxs ce")
    case True
    then show ?thesis using assms(3,4) that by (auto simp: dealNewRound_def proposes_at_once_def Let_def split: prod.splits)
  next
    case False
    then show ?thesis using assms(3,4) that [of "h_world h"] by (auto simp: dealNewRound_def proposes_at_once_def)
  qed
  have "ready_to_prevote ce blk (h\<lparr>h_world := w\<rparr>)" using assms(1) by (simp add: ready_to_prevote_def)
  from propose_signed [OF this _ w] show ?thesis using assms(2) by simp
qed

text \<open>Claim C38.  A restart forgets that the node has voted.  When a new epoch was waited for in vain, the manager resets the handler and starts it again.  Take any node whose handler was stopped for the
  wait, that is a validator, can sign and holds a complete proposal without a proof of lock that it accepts, is not locked and goes on to propose at once when it enters a round (there are transactions, or empty blocks are made
  without delay).  If the end of the wait returns, the node has signed one more prevote of its height and round, for the block of the proposal, whatever it had voted before: if it had prevoted in this round,
  for nothing or for another block, it has now signed two prevotes for it.\<close>

theorem failed_epoch_change_votes_again:
  assumes "dm_waiting (mgr h) = Some e" "dm_stopped (mgr h)" "ready_to_prevote (dbft_cons_env de) blk h" "\<forall>dm. proposes_at_once (dbft_cons_env de) ((h_world h)\<lparr>dw_mgr := dm\<rparr>)"
    "dbft_deliver de WaitTimeout h = Some h'"
  shows "\<exists>v. votes_in (h_log h') = votes_in (h_log h) @ [v] \<and> vote_key v = (h_Height h, h_Round h, VoteTypePrevote) \<and> bid_Hash (vt_BlockID v) = blk_hash (ce_he (de_ce de)) (Some blk) \<and>
    (\<forall>u \<in> set (votes_in (h_log h)). vote_key u = (h_Height h, h_Round h, VoteTypePrevote) \<longrightarrow> \<not> distinct (map vote_key (votes_in (h_log h'))))"
proof -
  let ?ce = "dbft_cons_env de"
  obtain dm where start: "OnStart ?ce (h\<lparr>h_isSyncStatus := False, h_Step := RoundStepNewRound, h_world := (h_world h)\<lparr>dw_mgr := dm\<rparr>\<rparr>) = Some h'"
    using assms(1,2,5) by (auto simp: wait_timeout_def epoch_change_failed_def svc_Reset_def svc_Start_def OnReset_def updateRoundStep_def set_mgr_def Let_def split: if_splits)
  let ?g = "h\<lparr>h_isSyncStatus := False, h_Step := RoundStepNewRound, h_world := (h_world h)\<lparr>dw_mgr := dm\<rparr>\<rparr>"
  have ready: "ready_to_prevote ?ce blk ?g" using assms(3) by (simp add: ready_to_prevote_def)
  have "inbgGroup ?g = Some True" using assms(3) by (auto simp: inbgGroup_def ready_to_prevote_def)
  then obtain h1 where h1: "dealNewRound ?ce ?g = Some h1" "h' = h1\<lparr>h_IsContinueConsensus := True\<rparr>"
    using start by (auto simp: OnStart_def setTimeout_def Let_def bind_eq_Some_conv)
  have "ce_he ?ce = ce_he (de_ce de)" by (simp add: dbft_cons_env_def)
  then obtain v where v: "votes_in (h_log h') = votes_in (h_log h) @ [v]" "vote_key v = (h_Height h, h_Round h, VoteTypePrevote)" "bid_Hash (vt_BlockID v) = blk_hash (ce_he (de_ce de)) (Some blk)"
    using deal_signed [OF ready _ _ h1(1)] assms(4) h1(2) by auto
  then show ?thesis by (intro exI [of _ v]) (auto intro: rev_image_eqI)
qed

section \<open>A node\<close>

definition dbft_ce :: "unit dbft_world cons_env" where
  "dbft_ce = \<lparr> ce_he = demo_he, ce_tc = demo_tc, ce_ne = demo_ne, ce_dig = (\<lambda>p. []), ce_mspVerify = (\<lambda>a b c. None), ce_conf = demo_conf, ce_peerID = 0, ce_peerString = (\<lambda>k. ''a''),
     ce_decodeBlock = (\<lambda>r. Some demo_block), ce_decHasVote = (\<lambda>b. None), ce_isProposer = (\<lambda>h H R. None), ce_geneProposalBlk = (\<lambda>h. None),
     ce_validateProposalBlk = (\<lambda>h b. None), ce_consSucceed = (\<lambda>b h. Some h), ce_statusUpdated = (\<lambda>h. Some h), ce_now = (\<lambda>w. 0), ce_txsLenZero = (\<lambda>w. (True, w)),
     ce_delTxs = (\<lambda>txs w. Some w), ce_process = (\<lambda>b w. Some ((None, b), w)), ce_blockHash = (\<lambda>b. Inr [9]), ce_ledgerHeight = (\<lambda>w. Some (0, w)),
     ce_getBlock = (\<lambda>n w. (None, True)), ce_other = (\<lambda>m p h. Some h) \<rparr>"

definition dbft_change :: EpochChange where
  "dbft_change = \<lparr> ec_EpochNo = 1, ec_DependEpochNo = 0, ec_DigestAddr = [3], ec_Height = 1, ec_Hash = [9], ec_IsTimeout = False \<rparr>"

definition dbft_demo :: "unit dbft_env" where
  "dbft_demo = \<lparr> de_ce = dbft_ce, de_target = 10, de_encEpoch = (\<lambda>e. Some []), de_decEpoch = (\<lambda>b. (False, Some zero_epoch)), de_encEC = (\<lambda>c. Some []),
     de_decEC = (\<lambda>b. Some dbft_change), de_encNE = (\<lambda>n. Some []), de_decNE = (\<lambda>b. None), de_encDP = (\<lambda>m. Some []), de_decDP = (\<lambda>b. None), de_encVals = (\<lambda>v. Some []),
     de_decVals = (\<lambda>b. None), de_kvGet = (\<lambda>k w. []), de_kvPut = (\<lambda>k b w. (False, w)), de_getBlockHash = (\<lambda>n w. Some [9]), de_getHeight = (\<lambda>w. Some 1),
     de_voteSum = (\<lambda>n w. Some 6000000), de_votePeers = (\<lambda>n w. Some [[1]]), de_unfreeze = (\<lambda>n w. (False, w)), de_getTxs = (\<lambda>w. (None, w)), de_txsLenZero = (\<lambda>w. (False, w)),
     de_geneValidators = [''a''], de_address = (\<lambda>k. ascii k), de_epochInfo = (\<lambda>n. Some [''a'', ''b'', ''c'', ''d'', ''e'']), de_vrf = (\<lambda>n b. ([], [])),
     de_encBlock = (\<lambda>b. Some []), de_syncToTarget = (\<lambda>a b c v w. (False, w)) \<rparr>"

definition dbft_mgr :: "byte \<Rightarrow> DBFTManager" where
  "dbft_mgr n = \<lparr> dm_ChainID = ''hnb'', dm_TotalValidators = Some demo_vals, dm_CurHeight = 1, dm_BlkTimeoutCount = 0, dm_BftNumber = n, dm_candidateNo = 1, dm_epochs = [zero_epoch],
     dm_epoch = 0, dm_epochList = [(0, 0)], dm_EpochChange = [], dm_NewEpoch = [], dm_newEpochNotify = [], dm_epochChangeCache = [], dm_votedCache = [], dm_InternalMsgQueue = [],
     dm_started = False, dm_stopped = False, dm_waiting = None, dm_fullQ = [], dm_blkQ = [], dm_log = [] \<rparr>"

definition dbft_node :: "byte \<Rightarrow> bytes \<Rightarrow> unit dnode" where
  "dbft_node n addr = zero_handler addr \<lparr> dw_mgr = dbft_mgr n, dw_rest = () \<rparr>"

lemma dbft_node_mgr [simp]: "mgr (dbft_node n addr) = dbft_mgr n" "rest (dbft_node n addr) = ()" "h_digestAddr (dbft_node n addr) = addr"
  by (simp_all add: dbft_node_def zero_handler_def)

lemma dbft_candidates: "LoadTotalValidators dbft_demo 1 (dbft_mgr n) \<noteq> None"
proof -
  have "NewValidatorSet (Some (sort_key v_Address (map (\<lambda>k. \<lparr> v_Address = ascii k, v_PubKeyStr = k, v_VotingPower = 1, v_Accum = 0 \<rparr>) [''a'', ''b'', ''c'', ''d'', ''e'']))) 0 [] [] [] \<noteq> None"
    by code_simp
  then show ?thesis by (simp only: LoadTotalValidators_def) (simp add: dbft_demo_def dbft_mgr_def cur_epoch_def zero_epoch_def peer_validator_def [abs_def] del: list.map sort_key_simps)
qed

lemma dbft_top: "top_witnesses (ce_peerString (de_ce dbft_demo)) demo_vals 1 [[1]] ([], {}) = ([demo_val], {0})" "top_witnesses (ce_peerString (de_ce dbft_demo)) demo_vals 2 [[1]] ([], {}) = ([demo_val], {0})"
  "remaining demo_vals {0} = []"
  by (simp_all add: dbft_demo_def dbft_ce_def GetByPeerID_def demo_vals_def demo_val_def remaining_def not_taken_def)

theorem witness_selection_exact_witness:
  "(\<exists>x. beginWitnessSelection dbft_demo zero_epoch demo_vals (dbft_node 1 [2]) = Some x) \<and> beginWitnessSelection dbft_demo zero_epoch demo_vals (dbft_node 2 [2]) = None"
proof -
  have env: "de_voteSum dbft_demo n u = Some 6000000" "de_votePeers dbft_demo n u = Some [[1]]" for n u by (simp_all add: dbft_demo_def)
  have m: "unat (dm_BftNumber (dbft_mgr 1)) = 1" "unat (dm_BftNumber (dbft_mgr 2)) = 2" "dm_candidateNo (dbft_mgr n) = 1" for n by (simp_all add: dbft_mgr_def)
  have sel: "beginWitnessSelection dbft_demo zero_epoch demo_vals (dbft_node n [2]) = None \<longleftrightarrow> (\<forall>k. length [demo_val] + k * length (remaining demo_vals {0}) \<noteq> unat (dm_BftNumber (mgr (dbft_node n [2]))))"
    if "top_witnesses (ce_peerString (de_ce dbft_demo)) demo_vals (unat (dm_BftNumber (mgr (dbft_node n [2])))) [[1]] ([], {}) = ([demo_val], {0})" for n
    using witness_selection_exact [of dbft_demo zero_epoch "dbft_node n [2]" 6000000 "[[1]]" demo_vals "[demo_val]" "{0}"] that dbft_candidates by (simp add: env m)
  show ?thesis using sel [of 1] sel [of 2] dbft_top by (simp add: m)
qed

theorem epoch_change_counts_repeats_witness:
  "\<exists>h'. repeat_change dbft_demo \<lparr> dp_Type = 0, dp_ChainId = [], dp_Payload = [], dp_Signature = [] \<rparr> 7 1 (dbft_node 1 [2]) = Some h' \<and> IsMajorityToCandidates 1 1 (mgr h')"
proof -
  have "counted_message dbft_demo \<lparr> dp_Type = 0, dp_ChainId = [], dp_Payload = [], dp_Signature = [] \<rparr> dbft_change demo_vals (dbft_node 1 [2])"
    by (simp add: counted_message_def dbft_demo_def dbft_change_def dbft_mgr_def CheckNewEpochSender_def GetNewEpochSenderAddr_def BuildEpochChangeMsg_def dpos_wrap_def dpos_Sign_def dbft_ce_def
        demo_ne_def gget_def)
  then show ?thesis using epoch_change_counts_repeats [of dbft_demo _ dbft_change demo_vals "dbft_node 1 [2]" 7] by (simp add: dbft_change_def)
qed

subsection \<open>A run with a vote\<close>

text \<open>The one validator waits three times for a proposal and prevotes nothing.\<close>

definition dbft_world0 :: "unit dbft_world" where
  "dbft_world0 = \<lparr> dw_mgr = dbft_mgr 1, dw_rest = () \<rparr>"

definition dbft_h0 :: "unit dnode" where
  "dbft_h0 = (zero_handler [1] dbft_world0)\<lparr>h_Height := 1, h_Step := RoundStepNewHeight, h_Validators := Some demo_vals,
     h_Votes := Some \<lparr> hvs_height = 1, hvs_valSet = demo_vals, hvs_round = 0,
       hvs_roundVoteSets = [(0, \<lparr> rvs_Prevotes = demo_fresh 0 VoteTypePrevote, rvs_Precommits = demo_fresh 0 VoteTypePrecommit \<rparr>)], hvs_peerCatchupRounds = [] \<rparr>,
     h_CommitRound := -1, h_LastValidators := Some demo_vals, h_LastCommitState := demo_state, h_log := [OutHeight 1 demo_vals, OutTimeout 1 1 0 RoundStepNewHeight]\<rparr>"

definition dbft_h1 :: "unit dnode" where
  "dbft_h1 = dbft_h0\<lparr>h_Step := RoundStepPropose, h_Votes := Some (demo_votes (demo_fresh 0 VoteTypePrevote) (demo_fresh 0 VoteTypePrecommit)),
     h_log := h_log dbft_h0 @ [OutTimeout 1 1 0 RoundStepPropose]\<rparr>"

definition late_h0 :: "unit dnode" where
  "late_h0 = dbft_h1\<lparr>h_TryProposalTimes := 1, h_log := h_log dbft_h1 @ [OutTimeout 1000 1 0 RoundStepPropose]\<rparr>"

definition late_h1 :: "unit dnode" where
  "late_h1 = late_h0\<lparr>h_TryProposalTimes := 2, h_log := h_log late_h0 @ [OutTimeout 1000 1 0 RoundStepPropose]\<rparr>"

definition late_vote :: Vote where
  "late_vote = (demo_vote VoteTypePrevote)\<lparr>vt_BlockID := zero_blockID\<rparr>"

definition late_h2 :: "unit dnode" where
  "late_h2 = late_h1\<lparr>h_Step := RoundStepPrevote, h_log := h_log late_h1 @ [OutVote late_vote (demo_out 1), OutTimeout 1 1 0 RoundStepPrevote]\<rparr>"

abbreviation dbft_env0 :: "unit dbft_world cons_env" where
  "dbft_env0 \<equiv> dbft_cons_env dbft_demo"

lemma dbft_env0_simps [simp]:
  "ce_he dbft_env0 = demo_he" "ce_ne dbft_env0 = demo_ne" "ce_conf dbft_env0 = demo_conf" "ce_peerID dbft_env0 = 0" "ce_now dbft_env0 w = 0" "ce_decodeBlock dbft_env0 r = Some demo_block"
  "ce_validateProposalBlk dbft_env0 h blk = Some True" "ce_mspVerify dbft_env0 = (\<lambda>a b c. None)"
  by (simp_all add: dbft_cons_env_def dbft_demo_def dbft_ce_def validateProposalBlkByDPoS_def)

lemma dbft_no_witnesses: "dm_epochs (mgr h) = [zero_epoch] \<Longrightarrow> dm_epoch (mgr h) = 0 \<Longrightarrow> dm_epochList (mgr h) = [(0, 0)] \<Longrightarrow> ce_isProposer dbft_env0 h H R = Some (False, None)"
  by (simp add: dbft_cons_env_def isProposerByDPoS_def GetEpoch_def cur_epoch_def gget_def zero_epoch_def)

lemma dbft_isProposer [simp]: "h_world h = dbft_world0 \<Longrightarrow> ce_isProposer dbft_env0 h H R = Some (False, None)"
  by (rule dbft_no_witnesses) (simp_all add: dbft_world0_def dbft_mgr_def)

lemmas late_defs = late_h2_def late_h1_def late_h0_def dbft_h1_def dbft_h0_def zero_handler_def

lemma dbft_start: "start_node dbft_env0 [1] demo_state dbft_world0 = Some dbft_h0"
  by (simp cong: lazy add: start_node_def NewTDMMsgHandler_def updateToState_def out_simps zero_handler_def zero_state_def demo_state_def State_IsEmpty_def NewBlkNumVoteSet_def
      hvs_Reset_def hvs_addRound_def gput_def reconstructLastCommit_def OnStart_def inbgGroup_def scheduleRound0_def AddTimeOut_def int32_def demo_conf_def dbft_h0_def Let_def)

lemma dbft_e1: "deliver dbft_env0 (EvTimeout 1 0 RoundStepNewHeight) dbft_h0 = Some dbft_h1"
  by (simp cong: lazy add: checkContinue_def handleTimeout_def lock_def unlock_def timeout_switch_def enterNewRound_def updateRoundStep_def votes_SetRound_def hvs_SetRound_def
      hvs_addRound_def gput_def gget_def int32_def dealNewRound_def WaitForTxs_def demo_conf_def enterPropose_def stale_def out_simps AddTimeOut_def propose_body_def
      isProposalComplete_def dbft_h0_def dbft_h1_def zero_handler_def demo_votes_def Let_def less_RoundStepType_def less_eq_RoundStepType_def)

lemma late_e1: "deliver dbft_env0 (EvTimeout 1 0 RoundStepPropose) dbft_h1 = Some late_h0" "deliver dbft_env0 (EvTimeout 1 0 RoundStepPropose) late_h0 = Some late_h1"
  by (simp_all cong: lazy add: checkContinue_def handleTimeout_def lock_def unlock_def timeout_switch_def enterPrevote_def stale_def defaultDoPrevote_def out_simps AddTimeOut_def int32_def
      less_RoundStepType_def less_eq_RoundStepType_def late_defs Let_def)

lemma late_e2: "deliver dbft_env0 (EvTimeout 1 0 RoundStepPropose) late_h1 = Some late_h2"
  by (simp cong: lazy add: checkContinue_def handleTimeout_def lock_def unlock_def timeout_switch_def enterPrevote_def stale_def defaultDoPrevote_def signAddVote_def signVote_def send_vote_def
      demo_send own_vote_def late_vote_def demo_vote_def out_simps AddTimeOut_def int32_def demo_conf_def demo_out_def less_RoundStepType_def less_eq_RoundStepType_def late_defs Let_def)

lemma late_run: "node_run dbft_env0 late_h2"
proof -
  have h1: "node_run dbft_env0 dbft_h1" using node_run.event [OF start_node_run [OF dbft_start] _ dbft_e1] by (simp add: dbft_h0_def)
  have t: "allowed dbft_env0 (EvTimeout 1 0 RoundStepPropose) dbft_h1" "allowed dbft_env0 (EvTimeout 1 0 RoundStepPropose) late_h0" "allowed dbft_env0 (EvTimeout 1 0 RoundStepPropose) late_h1"
    by (simp_all add: late_defs)
  show ?thesis using node_run.event [OF node_run.event [OF node_run.event [OF h1 t(1) late_e1(1)] t(2) late_e1(2)] t(3) late_e2] .
qed


text \<open>Then the proposal arrives, the manager asks for a new epoch and waits in vain.\<close>

definition late_h3 :: "unit dnode" where
  "late_h3 = late_h2\<lparr>h_Proposal := Some \<lparr> pp_Height = 1, pp_Round = 0, pp_Timestamp = 0, pp_BlockPartsHeader = \<lparr> psh_Total = 1, psh_Hash = [7] \<rparr>, pp_POLRound = -1, pp_POLBlockID = demo_bid \<rparr>,
     h_ProposalBlockParts := Some demo_parts, h_ProposalBlock := Some demo_block\<rparr>"

lemma late_e3: "Option.bind (deliver dbft_env0 (demo_msg 1) late_h2) (deliver dbft_env0 (demo_msg 2)) = Some late_h3"
proof -
  define h where "h = late_h3\<lparr>h_ProposalBlock := None, h_ProposalBlockParts := Some (demo_parts\<lparr>ps_parts := [None], ps_partsBitArray := Some \<lparr> ba_Bits = 1, ba_Elems = [0] \<rparr>, ps_count := 0\<rparr>)\<rparr>"
  have "deliver dbft_env0 (demo_msg 1) late_h2 = Some h"
    by (simp cong: lazy add: demo_msg_def deliver_internal_def checkContinue_def open_internal_msg_def demo_ne_def processInnerMsg_def HandleInnerProposalMsg_def
        buildTypeProposalFromNetMsg_def type_blockID_def demo_netID_def setProposal_def less_eq_RoundStepType_def NewPartSetFromHeader_def NewBitArray_def
        h_def late_h3_def late_defs demo_parts_def demo_bid_def)
  moreover have "deliver dbft_env0 (demo_msg 2) h = Some late_h3"
  proof -
    have part: "HandleBlockPartMsg dbft_env0 m g = addProposalBlockPart dbft_env0 1 \<lparr> pt_Index = 0, pt_Bytes = [8], pt_Proof = [], pt_hash = None \<rparr> True g" for m g
      by (simp add: HandleBlockPartMsg_def buildTypeBlkPartFromNetMsg_def demo_ne_def)
    have h: "h_Height h = 1" "h_Step h = RoundStepPrevote" "checkContinue h"
      "h_ProposalBlockParts h = Some (demo_parts\<lparr>ps_parts := [None], ps_partsBitArray := Some \<lparr> ba_Bits = 1, ba_Elems = [0] \<rparr>, ps_count := 0\<rparr>)"
      by (simp_all add: h_def late_h3_def late_defs checkContinue_def)
    have msg: "deliver dbft_env0 (demo_msg 2) h = processInnerMsg dbft_env0 \<lparr> tm_Type = MsgBlockPart, tm_Payload = [2], tm_Signature = [] \<rparr> [1] h"
      using h(3) by (simp add: demo_msg_def deliver_internal_def open_internal_msg_def demo_ne_def)
    have blk: "proposal_block dbft_env0 demo_parts g = Some (True, g\<lparr>h_ProposalBlock := Some demo_block\<rparr>)" for g
      using demo_complete(2) by (auto simp: proposal_block_def demo_hash)
    show ?thesis unfolding msg
      by (simp cong: lazy add: processInnerMsg_def part addProposalBlockPart_def demo_add demo_complete blk h) (simp add: h_def late_h3_def)
  qed
  ultimately show ?thesis by simp
qed

lemma dbft_candidates_count:
  assumes "ep_EpochNo (cur_epoch dm) = 0"
  shows "\<exists>vals. LoadTotalValidators dbft_demo 1 dm = Some vals \<and> length (vs_Validators vals) = 5"
proof -
  have "map_option (\<lambda>v. length (vs_Validators v)) (NewValidatorSet (Some (sort_key v_Address (map (\<lambda>k. \<lparr> v_Address = ascii k, v_PubKeyStr = k, v_VotingPower = 1, v_Accum = 0 \<rparr>)
      [''a'', ''b'', ''c'', ''d'', ''e'']))) 0 [] [] []) = Some 5" by code_simp
  then have "map_option (\<lambda>v. length (vs_Validators v)) (LoadTotalValidators dbft_demo 1 dm) = Some 5"
    by (simp only: LoadTotalValidators_def assms) (simp add: dbft_demo_def peer_validator_def [abs_def] del: list.map sort_key_simps)
  then show ?thesis by auto
qed

text \<open>The manager after \<open>n\<close> scans that found no new block.\<close>

definition late_mgr :: DBFTManager where
  "late_mgr = (dbft_mgr 1)\<lparr>dm_BlkTimeoutCount := 1\<rparr>"

lemma late_need: "IsNeedCheckEpoch dbft_demo (dbft_mgr 1) = Some True" "IsNeedCheckEpoch dbft_demo late_mgr = Some True"
  using dbft_candidates_count [of "dbft_mgr 1"] dbft_candidates_count [of late_mgr]
  by (auto simp: IsNeedCheckEpoch_def late_mgr_def dbft_mgr_def cur_epoch_def zero_epoch_def)

lemma late_h3_mgr: "mgr late_h3 = dbft_mgr 1" "rest late_h3 = ()"
  by (simp_all add: late_h3_def late_defs dbft_world0_def)

lemma dbft_demo_env: "de_getHeight dbft_demo u = Some 1" "de_txsLenZero dbft_demo u = (False, u)"
  by (simp_all add: dbft_demo_def)

lemma set_rest_unit: "set_rest () g = (g :: unit dnode)"
  by (simp add: set_rest_def)

lemma late_blk1: "dbft_deliver dbft_demo BlkTimeout late_h3 = Some (set_mgr late_mgr late_h3)"
proof -
  have m: "dm_waiting (dbft_mgr 1) = None" "dm_CurHeight (dbft_mgr 1) = 1" "dm_BlkTimeoutCount (dbft_mgr 1) = 0" by (simp_all add: dbft_mgr_def)
  show ?thesis using late_need(1) by (simp add: BlkTimeoutRoutineScanner_def m late_h3_mgr dbft_demo_env set_rest_unit late_mgr_def Let_def)
qed

lemma late_blk2: "\<exists>dm. dbft_deliver dbft_demo BlkTimeout (set_mgr late_mgr late_h3) = Some (set_mgr dm late_h3) \<and> dm_waiting dm = Some 1 \<and> dm_stopped dm \<and>
    dm_epochs dm = [zero_epoch] \<and> dm_epoch dm = 0 \<and> dm_epochList dm = [(0, 0)]"
proof -
  have m: "dm_waiting late_mgr = None" "dm_CurHeight late_mgr = 1" "dm_BlkTimeoutCount late_mgr = 1" "dm_stopped late_mgr = False" "dm_candidateNo late_mgr = 1"
    "dm_epochs late_mgr = [zero_epoch]" "dm_epoch late_mgr = 0" "dm_epochList late_mgr = [(0, 0)]" by (simp_all add: late_mgr_def dbft_mgr_def)
  obtain own msg where msg: "BuildEpochChangeMsg dbft_demo 1 1 (set_mgr (late_mgr\<lparr>dm_stopped := True\<rparr>) late_h3) = Some (own, msg)"
    by (simp add: BuildEpochChangeMsg_def dpos_wrap_def dpos_Sign_def dbft_demo_def dbft_ce_def demo_ne_def Let_def)
  show ?thesis using late_need(2)
    by (simp add: BlkTimeoutRoutineScanner_def m dbft_demo_env late_h3_mgr set_rest_unit svc_Stop_def ReqEpochChange_def msg Let_def)
      (auto simp: to_self_def BroadcastMsgToAllVP_def m Let_def intro!: exI)
qed

lemma late_e3_run: "node_run dbft_env0 late_h3"
proof -
  have ok: "allowed dbft_env0 (demo_msg b) h" for b h by (simp add: demo_msg_def)
  obtain g where "deliver dbft_env0 (demo_msg 1) late_h2 = Some g" "deliver dbft_env0 (demo_msg 2) g = Some late_h3" using late_e3 by (auto simp: bind_eq_Some_conv)
  then show ?thesis using node_run.event [OF node_run.event [OF late_run ok] ok] by blast
qed

lemma late_ready: "ready_to_prevote dbft_env0 demo_block (set_mgr dm late_h3)"
  using demo_valid [of _ _ None]
  by (simp add: ready_to_prevote_def late_h3_def late_defs set_mgr_def validate_block_def demo_no_commit demo_ne_def mySignVote_def)

lemma late_wait:
  assumes "dm_waiting dm = Some 1" "dm_stopped dm" "dm_epochs dm = [zero_epoch]" "dm_epoch dm = 0" "dm_epochList dm = [(0, 0)]"
  shows "\<exists>h'. dbft_deliver dbft_demo WaitTimeout (set_mgr dm late_h3) = Some h'"
  using assms demo_valid [of _ _ None]
  by (simp cong: lazy add: wait_timeout_def epoch_change_failed_def svc_Reset_def svc_Start_def OnStart_def OnReset_def inbgGroup_def setTimeout_def dealNewRound_def WaitForTxs_def enterPropose_def
      propose_body_def isProposalComplete_def enterPrevote_def stale_def
      less_eq_RoundStepType_def defaultDoPrevote_def validate_block_def demo_no_commit signAddVote_def signVote_def send_vote_def
      demo_send demo_own demo_blockID out_simps AddTimeOut_def int32_def demo_conf_def demo_out_def late_h3_def late_defs set_mgr_def dbft_no_witnesses Let_def)

theorem failed_epoch_change_votes_again_witness:
  "\<exists>h h' v. node_run dbft_env0 late_h3 \<and> Option.bind (dbft_deliver dbft_demo BlkTimeout late_h3) (dbft_deliver dbft_demo BlkTimeout) = Some h \<and>
     dbft_deliver dbft_demo WaitTimeout h = Some h' \<and> votes_in (h_log h') = [late_vote, v] \<and> vote_key v = vote_key late_vote \<and>
     bid_Hash (vt_BlockID v) \<noteq> bid_Hash (vt_BlockID late_vote) \<and> \<not> distinct (map vote_key (votes_in (h_log h')))"
proof -
  obtain dm where dm: "dm_waiting dm = Some 1" "dm_stopped dm" "dm_epochs dm = [zero_epoch]" "dm_epoch dm = 0" "dm_epochList dm = [(0, 0)]"
    and blk2: "dbft_deliver dbft_demo BlkTimeout (set_mgr late_mgr late_h3) = Some (set_mgr dm late_h3)" using late_blk2 by auto
  let ?h = "set_mgr dm late_h3"
  obtain h' where h': "dbft_deliver dbft_demo WaitTimeout ?h = Some h'" using late_wait [OF dm] by blast
  have run: "Option.bind (dbft_deliver dbft_demo BlkTimeout late_h3) (dbft_deliver dbft_demo BlkTimeout) = Some ?h" using late_blk1 blk2 by simp
  have h: "votes_in (h_log ?h) = [late_vote]" "h_Height ?h = 1" "h_Round ?h = 0" by (simp_all add: late_h3_def late_defs set_mgr_def)
  have key: "vote_key late_vote = (1, 0, VoteTypePrevote)" "bid_Hash (vt_BlockID late_vote) = []" by (simp_all add: vote_key_def late_vote_def demo_vote_def zero_blockID_def)
  have "proposes_at_once dbft_env0 w" for w by (simp add: proposes_at_once_def WaitForTxs_def demo_conf_def)
  then obtain v where v: "votes_in (h_log h') = votes_in (h_log ?h) @ [v]" "vote_key v = (h_Height ?h, h_Round ?h, VoteTypePrevote)"
      "bid_Hash (vt_BlockID v) = blk_hash (ce_he (de_ce dbft_demo)) (Some demo_block)" "\<not> distinct (map vote_key (votes_in (h_log h')))"
    using failed_epoch_change_votes_again [of ?h 1 dbft_demo demo_block h'] dm late_ready h' h key by auto
  then show ?thesis using run late_e3_run h' h key by (intro exI [of _ ?h] exI [of _ h'] exI [of _ v]) (auto simp: demo_hash dbft_demo_def dbft_ce_def)
qed

subsection \<open>An epoch with two witnesses\<close>

definition turn_ws :: "Validator list" where
  "turn_ws = [demo_val, demo_val\<lparr>v_Address := [2], v_PubKeyStr := ''b''\<rparr>]"

definition turn_node :: "unit dnode" where
  "turn_node = set_mgr ((dbft_mgr 1)\<lparr>dm_epochs := [zero_epoch\<lparr>ep_BeginNum := 4, ep_WitnessList := turn_ws\<rparr>]\<rparr>) (dbft_node 1 [1])"

theorem dpos_proposers_rotate_witness:
  "map (\<lambda>R. map_option fst (isProposerByDPoS dbft_demo turn_node 4 R)) [0, 1] = [Some (True, Some (turn_ws ! 0)), Some (False, Some (turn_ws ! 1))]"
proof -
  have e: "GetEpoch dbft_demo (ep_EpochNo (cur_epoch (mgr turn_node))) (rest turn_node) (mgr turn_node) = (Some 0, mgr turn_node)"
    by (simp add: turn_node_def GetEpoch_def dbft_mgr_def cur_epoch_def gget_def zero_epoch_def)
  have w: "turn_ws = ep_WitnessList (dm_epochs (mgr turn_node) ! 0)" "ep_BeginNum (cur_epoch (mgr turn_node)) = 4" "h_digestAddr turn_node = [1]"
    by (simp_all add: turn_node_def dbft_mgr_def cur_epoch_def)
  have n: "turn_ws \<noteq> []" "length turn_ws = 2" and i: "first_proposer turn_node (mgr turn_node) 4 (length turn_ws) = Some 0" by (simp_all add: turn_ws_def first_proposer_def w(2))
  have "\<forall>r < length turn_ws. isProposerByDPoS dbft_demo turn_node 4 (int r) =
      Some ((h_digestAddr turn_node = v_Address (turn_ws ! r), Some (turn_ws ! r)), mgr turn_node)"
    using dpos_proposers_rotate [of dbft_demo turn_node 0 "mgr turn_node" turn_ws 4 0 0, OF e w(1) n(1) i] n(2) w(2) by simp
  from this [rule_format, of 0] this [rule_format, of 1] show ?thesis by (simp add: w(3) n(2)) (simp add: turn_ws_def demo_val_def)
qed

section \<open>Genesis and restart\<close>

text \<open>What the encoding of a header loses: the total of the voting powers is a cache that is not encoded.\<close>

definition uncached :: "ValidatorSet \<Rightarrow> ValidatorSet" where
  "uncached v = v\<lparr>vs_totalVotingPower := 0\<rparr>"

definition uncached_header :: "CustomTDMHeader \<Rightarrow> CustomTDMHeader" where
  "uncached_header x = x\<lparr>ch_ValidatorInfo := map_option (\<lambda>i. i\<lparr>vi_Validators := map_option uncached (vi_Validators i)\<rparr>) (ch_ValidatorInfo x)\<rparr>"

definition codec_inverts :: "tdm_codec \<Rightarrow> bool" where
  "codec_inverts tc \<longleftrightarrow> (\<forall>x b. tc_encHeader tc x = Some b \<longrightarrow> tc_decHeader tc b = Some (uncached_header x)) \<and> (\<forall>c b. tc_encExt tc c = Some b \<longrightarrow> tc_decExt tc b = Some c) \<and>
     (\<forall>t b. tc_encTx tc t = Some b \<longrightarrow> tc_decTx tc b = Some t)"

lemma genesis_block:
  assumes "codec_inverts (ge_tc ge)" "MakeGenesisBlk ge = Some (Inr b)" "ConsToStandard he (ge_tc ge) b = Some (Inr blk)"
  shows "\<exists>vals c header. LoadGeneValidators ge = Some (Inr vals) \<and> bk_Header blk = Some header \<and> hd_BlockNum header = 0 \<and>
    Standard2Cons (ge_tc ge) blk = Some (Inr (b\<lparr>tb_ValidatorInfo := Some \<lparr> vi_Validators = Some (uncached vals), vi_LastHeightChanged = 0 \<rparr>\<rparr>)) \<and>
    tb_Header b = Some (zero_header\<lparr>th_Time := genesis_time, th_NumTxs := c\<rparr>)"
proof -
  obtain vals t where v: "LoadGeneValidators ge = Some (Inr vals)" "tc_encTx (ge_tc ge) (genesis_tx ge) = Some t"
    and b: "b = \<lparr> tb_Header = Some (zero_header\<lparr>th_BlockNum := 0, th_Time := genesis_time, th_NumTxs := 1\<rparr>), tb_Data = Some \<lparr> td_Txs = [t], td_hash = [] \<rparr>, tb_Evidence = [],
      tb_LastCommit = Some \<lparr> cm_BlockID = zero_blockID, cm_Precommits = [] \<rparr>, tb_CurrentCommit = Some \<lparr> cm_BlockID = zero_blockID, cm_Precommits = [] \<rparr>,
      tb_ValidatorInfo = Some \<lparr> vi_Validators = Some vals, vi_LastHeightChanged = 0 \<rparr> \<rparr>"
    using assms(2) by (auto simp: MakeGenesisBlk_def Tx2TDMTx_def conv_def split: Option.bind_splits sum.splits option.splits)
  have t: "tc_decTx (ge_tc ge) t = Some (genesis_tx ge)" using v(2) assms(1) by (simp add: codec_inverts_def)
  define x where "x = \<lparr> ch_Header = tb_Header b, ch_Evidence = tb_Evidence b, ch_LastCommit = tb_LastCommit b, ch_DataHash = [], ch_ValidatorInfo = tb_ValidatorInfo b \<rparr>"
  obtain xb cb header where enc: "tc_encHeader (ge_tc ge) x = Some xb" "tc_encExt (ge_tc ge) (tb_CurrentCommit b) = Some cb"
    and blk: "bk_Header blk = Some header" "hd_BlockNum header = 0" "hd_ConsArgs header = xb" "hd_Ext header = cb" "bk_Txs blk = [genesis_tx ge]"
    using assms(3) t by (auto simp: ConsToStandard_def x_def b conv_def zero_header_def split: option.splits sum.splits)
  have dec: "tc_decHeader (ge_tc ge) xb = Some (uncached_header x)" "tc_decExt (ge_tc ge) cb = Some (tb_CurrentCommit b)" using enc assms(1) by (simp_all add: codec_inverts_def)
  have "Standard2Cons (ge_tc ge) blk = Some (Inr (b\<lparr>tb_ValidatorInfo := Some \<lparr> vi_Validators = Some (uncached vals), vi_LastHeightChanged = 0 \<rparr>\<rparr>))"
    by (simp add: Standard2Cons_def blk dec conv_def v(2) uncached_header_def) (simp add: x_def b)
  moreover have "tb_Header b = Some (zero_header\<lparr>th_Time := genesis_time, th_NumTxs := 1\<rparr>)" by (simp add: b zero_header_def)
  ultimately show ?thesis using v(1) blk(1,2) by blast
qed

text \<open>Claim C6.  A node that is restarted on the genesis block finds what the genesis left behind.  Let \<open>b\<close> be the block that \<open>MakeGenesisBlk\<close> makes and \<open>blk\<close> what \<open>ConsToStandard\<close> turns it into.
  If \<open>Init\<close> starts a chain, it writes \<open>blk\<close>, without an error, and then the record of epoch 0.  And \<open>Init\<close> on a ledger of height 1 whose block 0 is \<open>blk\<close> loads the same state, but for the time
  of the block, which is a constant in the block and is taken from the configuration for the state, and for a cache in the set of validators.  Converting \<open>blk\<close> back gives \<open>b\<close> but for that cache.
  The codecs of headers, commits and transactions are assumed to invert.\<close>

theorem genesis_restart:
  assumes "codec_inverts (ge_tc ge)" "MakeGenesisBlk ge = Some (Inr b)" "ConsToStandard (ce_he (de_ce (ge_de ge))) (ge_tc ge) b = Some (Inr blk)"
    "init_genesis ge w = Some (Inr s, w')"
  shows "\<not> fst (ge_writeLedger ge blk (dw_rest w)) \<and>
    (\<exists>e. ep_EpochNo e = 0 \<and> w' = w\<lparr>dw_rest := snd (GeneRecordEpochInfo ge e (snd (ge_writeLedger ge blk (dw_rest w))))\<rparr>) \<and>
    (\<exists>vals. st_Validators s = Some vals \<and> Standard2Cons (ge_tc ge) blk = Some (Inr (b\<lparr>tb_ValidatorInfo := Some \<lparr> vi_Validators = Some (uncached vals), vi_LastHeightChanged = 0 \<rparr>\<rparr>))) \<and>
    (\<forall>w2. de_getHeight (ge_de ge) (dw_rest w2) = Some 1 \<longrightarrow> ce_getBlock (de_ce (ge_de ge)) 0 w2 = (Some blk, False) \<longrightarrow>
      core_Init ge w2 = Some (Inr (s\<lparr>st_LastBlockTime := genesis_time, st_Validators := map_option uncached (st_Validators s)\<rparr>), w2))"
proof -
  have "\<exists>e. \<not> fst (ge_writeLedger ge blk (dw_rest w)) \<and> MakeGenesisLastCommitState ge blk = Some (Inr s) \<and>
      w' = w\<lparr>dw_rest := snd (GeneRecordEpochInfo ge (e\<lparr>ep_EpochNo := 0, ep_BeginNum := 0, ep_EndNum := 1\<rparr>) (snd (ge_writeLedger ge blk (dw_rest w))))\<rparr>"
    using assms(2-4) by (auto simp: init_genesis_def Let_def split_beta split: Option.bind_splits sum.splits if_splits)
  then obtain e where ok: "\<not> fst (ge_writeLedger ge blk (dw_rest w))" and s: "MakeGenesisLastCommitState ge blk = Some (Inr s)"
    and w': "w' = w\<lparr>dw_rest := snd (GeneRecordEpochInfo ge (e\<lparr>ep_EpochNo := 0, ep_BeginNum := 0, ep_EndNum := 1\<rparr>) (snd (ge_writeLedger ge blk (dw_rest w))))\<rparr>" by blast
  have rec: "\<exists>e. ep_EpochNo e = 0 \<and> w' = w\<lparr>dw_rest := snd (GeneRecordEpochInfo ge e (snd (ge_writeLedger ge blk (dw_rest w))))\<rparr>"
    by (rule exI [of _ "e\<lparr>ep_EpochNo := 0, ep_BeginNum := 0, ep_EndNum := 1\<rparr>"]) (simp add: w')
  obtain vals c header where v: "LoadGeneValidators ge = Some (Inr vals)" "bk_Header blk = Some header" "hd_BlockNum header = 0" "tb_Header b = Some (zero_header\<lparr>th_Time := genesis_time, th_NumTxs := c\<rparr>)"
    and conv: "Standard2Cons (ge_tc ge) blk = Some (Inr (b\<lparr>tb_ValidatorInfo := Some \<lparr> vi_Validators = Some (uncached vals), vi_LastHeightChanged = 0 \<rparr>\<rparr>))"
    using genesis_block [OF assms(1-3)] by blast
  have cur: "core_LoadValidators ge blk w2 = Some (Inr (uncached vals))" for w2 using conv by (simp add: core_LoadValidators_def LoadValidators_def ge_tc_def)
  have none: "NewValidatorSet None 0 [] [] [] \<noteq> None" by (simp add: NewValidatorSet_def)
  have vals: "st_Validators s = Some vals" using s v(1) by (auto simp: MakeGenesisLastCommitState_def bind_eq_Some_conv split: option.splits)
  have "core_LoadLastCommitStateFromBlk ge blk w2 = Some (Inr (s\<lparr>st_LastBlockTime := genesis_time, st_Validators := map_option uncached (st_Validators s)\<rparr>))" for w2
    using s v none by (auto simp: core_LoadLastCommitStateFromBlk_def conv cur MakeGenesisLastCommitState_def zero_header_def zero_state_def bind_eq_Some_conv split: option.splits)
  then show ?thesis using ok rec conv vals by (auto simp: core_Init_def)
qed

definition start_val :: Validator where
  "start_val = \<lparr> v_Address = ascii ''a'', v_PubKeyStr = ''a'', v_VotingPower = 1, v_Accum = 0 \<rparr>"

definition start_vals :: ValidatorSet where
  "start_vals = \<lparr> vs_Validators = [start_val], vs_Proposer = Some start_val, vs_BgID = 1, vs_BgVRFValue = [], vs_BgVRFProof = [], vs_Extend = [], vs_totalVotingPower = 1 \<rparr>"

definition start_tx :: transaction where
  "start_tx = NewTransaction\<lparr>tx_ContractName := HNB, tx_Payload := ascii ''genesis'', tx_Txid := replicate 32 1\<rparr>"

definition start_header :: CustomTDMHeader where
  "start_header = \<lparr> ch_Header = Some (zero_header\<lparr>th_Time := genesis_time, th_NumTxs := 1\<rparr>), ch_Evidence = [], ch_LastCommit = Some \<lparr> cm_BlockID = zero_blockID, cm_Precommits = [] \<rparr>,
     ch_DataHash = [], ch_ValidatorInfo = Some \<lparr> vi_Validators = Some start_vals, vi_LastHeightChanged = 0 \<rparr> \<rparr>"

definition start_commit :: "Commit option" where
  "start_commit = Some \<lparr> cm_BlockID = zero_blockID, cm_Precommits = [] \<rparr>"

definition start_tc :: tdm_codec where
  "start_tc = \<lparr> tc_encHeader = (\<lambda>h. if h = start_header then Some [] else None), tc_decHeader = (\<lambda>b. Some (uncached_header start_header)),
     tc_encExt = (\<lambda>c. if c = start_commit then Some [] else None), tc_decExt = (\<lambda>b. Some start_commit), tc_encTx = (\<lambda>t. if t = start_tx then Some [] else None), tc_decTx = (\<lambda>b. Some start_tx) \<rparr>"

definition start_demo :: "unit start_env" where
  "start_demo = \<lparr> ge_de = dbft_demo\<lparr>de_ce := dbft_ce\<lparr>ce_tc := start_tc\<rparr>\<rparr>, ge_bftGroup = [(''a'', 1)], ge_genesisTime = 0, ge_BftNum = 1, ge_signerHash = (\<lambda>t. replicate 32 1),
     ge_writeLedger = (\<lambda>b w. (False, w)), ge_calcBlockHash = (\<lambda>b. Some [9]) \<rparr>"

lemma start_set: "NewValidatorSet (Some [start_val]) 1 [] [] [] = Some start_vals"
  by code_simp

lemma start_codec: "codec_inverts (ge_tc start_demo)"
  by (simp add: codec_inverts_def ge_tc_def start_demo_def start_tc_def)

lemma start_init: "\<exists>b blk s w'. MakeGenesisBlk start_demo = Some (Inr b) \<and> ConsToStandard (ce_he (de_ce (ge_de start_demo))) (ge_tc start_demo) b = Some (Inr blk) \<and>
  init_genesis start_demo \<lparr> dw_mgr = dbft_mgr 1, dw_rest = () \<rparr> = Some (Inr s, w')"
proof -
  have vals: "LoadGeneValidators start_demo = Some (Inr start_vals)"
    using start_set by (simp add: LoadGeneValidators_def start_demo_def dbft_demo_def gene_validator_def start_val_def [symmetric] Let_def) (simp add: start_vals_def)
  have tx: "genesis_tx start_demo = start_tx" by (simp add: genesis_tx_def start_demo_def start_tx_def NewTransaction_def Let_def)
  have tc: "ge_tc start_demo = start_tc" by (simp add: ge_tc_def start_demo_def)
  have txs: "Tx2TDMTx start_tc [start_tx] = Inr [[]]" by (simp add: Tx2TDMTx_def start_tc_def conv_def)
  have he: "ce_he (de_ce (ge_de start_demo)) = demo_he" by (simp add: start_demo_def dbft_ce_def)
  define b where "b = \<lparr> tb_Header = ch_Header start_header, tb_Data = Some \<lparr> td_Txs = [[]], td_hash = [] \<rparr>, tb_Evidence = [], tb_LastCommit = start_commit, tb_CurrentCommit = start_commit,
    tb_ValidatorInfo = ch_ValidatorInfo start_header \<rparr>"
  have b: "MakeGenesisBlk start_demo = Some (Inr b)" by (simp add: MakeGenesisBlk_def vals tc tx txs b_def start_header_def start_commit_def zero_header_def)
  have "tc_encHeader start_tc \<lparr> ch_Header = tb_Header b, ch_Evidence = tb_Evidence b, ch_LastCommit = tb_LastCommit b, ch_DataHash = [], ch_ValidatorInfo = tb_ValidatorInfo b \<rparr> = Some []"
    by (simp add: b_def start_header_def start_commit_def start_tc_def)
  moreover have "tb_Header b = Some (zero_header\<lparr>th_Time := genesis_time, th_NumTxs := 1\<rparr>)" "tb_Data b = Some \<lparr> td_Txs = [[]], td_hash = [] \<rparr>" "tb_CurrentCommit b = start_commit"
    by (simp_all add: b_def start_header_def)
  moreover have "tc_encExt start_tc start_commit = Some []" "tc_decTx start_tc [] = Some start_tx" "tc_encTx start_tc start_tx = Some []" "he_h256 demo_he [] = Some [7]"
    by (simp_all add: start_tc_def demo_he_def)
  ultimately have "\<exists>blk. ConsToStandard demo_he start_tc b = Some (Inr blk)"
    by (simp add: ConsToStandard_def zero_header_def MakeHasher_def conv_def)
  then obtain blk where "ConsToStandard demo_he start_tc b = Some (Inr blk)" by blast
  moreover have "ge_writeLedger start_demo blk w = (False, w)" "de_decEpoch (ge_de start_demo) d = (False, Some zero_epoch)" for w d by (simp_all add: start_demo_def dbft_demo_def)
  moreover have "\<exists>s. MakeGenesisLastCommitState start_demo blk = Some (Inr s) \<and> st_Validators s = Some start_vals"
    by (simp add: MakeGenesisLastCommitState_def vals) (simp add: start_demo_def NewValidatorSet_def)
  ultimately show ?thesis by (intro exI [of _ b] exI [of _ blk]) (auto simp: init_genesis_def b he tc Let_def split: prod.splits)
qed

theorem genesis_restart_witness:
  "\<exists>b blk s w' vals. init_genesis start_demo \<lparr> dw_mgr = dbft_mgr 1, dw_rest = () \<rparr> = Some (Inr s, w') \<and> MakeGenesisBlk start_demo = Some (Inr b) \<and> \<not> fst (ge_writeLedger start_demo blk ()) \<and>
     Standard2Cons (ge_tc start_demo) blk = Some (Inr (b\<lparr>tb_ValidatorInfo := Some \<lparr> vi_Validators = Some (uncached vals), vi_LastHeightChanged = 0 \<rparr>\<rparr>))"
proof -
  obtain b blk s w' where s: "MakeGenesisBlk start_demo = Some (Inr b)" "ConsToStandard (ce_he (de_ce (ge_de start_demo))) (ge_tc start_demo) b = Some (Inr blk)"
      "init_genesis start_demo \<lparr> dw_mgr = dbft_mgr 1, dw_rest = () \<rparr> = Some (Inr s, w')" using start_init by blast
  then show ?thesis using genesis_restart [OF start_codec s] by auto
qed

end
