(* ===== verification/Sync.thy ===== *)
theory Sync
  imports Ledger Validator
begin

text \<open>
  Block synchronisation, \<open>sync\<close>: serving blocks to a peer (\<open>processRequestBlocks\<close>), asking a peer for a range of blocks (\<open>getRemoteBlocks\<close>) and handing them on in pieces
  (\<open>syncBlock\<close>).  The goroutine that synchronises waits for a response, a signal to stop or a timer; what happens is a list that it consumes, and \<open>NotYet\<close> says that it still waits.
  A response is queued by the goroutine of the network, which waits itself when the queue is full; the order is the same, so the queue has no bound here.  The JSON codecs, the ledger and
  the notified function are parameters; notifications and sent messages are logged.  \<open>None\<close> is a run-time panic.
\<close>

section \<open>Messages\<close>

record SyncInfo =
  yi_ChainID :: string
  yi_SyncState :: byte
  yi_BeginCursor :: u64
  yi_EndCursor :: u64
  yi_FromID :: u64

record SyncNotify =
  sn_SenderID :: u64
  sn_Block :: "Block option"
  sn_FinishFlag :: bool
  sn_Version :: "32 word"

record RequestBlocks =
  rq_ChainID :: string
  rq_BeginIndex :: u64
  rq_EndIndex :: u64
  rq_Version :: u64

text \<open>The blocks are a slice of pointers; \<open>None\<close> is the nil slice.\<close>

record ResponseBlocks =
  rs_ChainID :: string
  rs_Blocks :: "Block option list option"
  rs_Version :: u64

record SyncMessage =
  sm_Type :: int
  sm_Payload :: bytes
  sm_Sender :: u64

definition REQUEST_BLOCKS_EVENT :: int where
  "REQUEST_BLOCKS_EVENT = 0"

definition RESPONSE_BLOCKS_EVENT :: int where
  "RESPONSE_BLOCKS_EVENT = 1"

record sync_env =
  ye_encReq :: "RequestBlocks \<Rightarrow> bytes option"
  ye_decReq :: "bytes \<Rightarrow> RequestBlocks option"
  ye_encRes :: "ResponseBlocks \<Rightarrow> bytes option"
  ye_decRes :: "bytes \<Rightarrow> ResponseBlocks option"
  ye_encMsg :: "SyncMessage \<Rightarrow> bytes option"
  ye_decMsg :: "bytes \<Rightarrow> SyncMessage option"
  ye_getBlock :: "u64 \<Rightarrow> Block option"
  ye_localID :: u64

section \<open>The handlers\<close>

record syncChainHandler =
  sc_chainID :: string
  sc_chainSyncVersion :: u64
  sc_syncBlockChannel :: "ResponseBlocks list"
  sc_syncInfo :: SyncInfo
  sc_notifyHandler :: bool
  sc_exitTask :: bool
  sc_interval :: "(u64, int) gomap"
  sc_sent :: "(u64 \<times> bytes) list"
  sc_notified :: "SyncNotify list"

record blockSyncReq =
  br_chainID :: string
  br_beginIndex :: u64
  br_endIndex :: u64
  br_peerID :: u64
  br_version :: "32 word"

record SyncHandler =
  sh_reqMaxBlocksCount :: int
  sh_syncHandler :: "(string, syncChainHandler) gomap"
  sh_syncReq :: "blockSyncReq list"
  sh_sent :: "(u64 \<times> bytes) list"

datatype sync_error = NotYet | StopSync | Retransmitted | SyncMarshal | NoChain | Syncing

definition addSyncHandler :: "string \<Rightarrow> SyncHandler \<Rightarrow> SyncHandler" where
  "addSyncHandler chainID sh = sh\<lparr>sh_syncHandler := gput (sh_syncHandler sh) chainID
     \<lparr> sc_chainID = chainID, sc_chainSyncVersion = 1, sc_syncBlockChannel = [],
       sc_syncInfo = \<lparr> yi_ChainID = chainID, yi_SyncState = 0, yi_BeginCursor = 0, yi_EndCursor = 0, yi_FromID = 0 \<rparr>, sc_notifyHandler = False, sc_exitTask = False,
       sc_interval = [], sc_sent = [], sc_notified = [] \<rparr>\<rparr>"


definition setSyncState :: "byte \<Rightarrow> u64 \<Rightarrow> u64 \<Rightarrow> u64 \<Rightarrow> syncChainHandler \<Rightarrow> syncChainHandler" where
  "setSyncState syncFlag beginCursor endCursor peerId sch =
     sch\<lparr>sc_syncInfo := \<lparr> yi_ChainID = sc_chainID sch, yi_SyncState = syncFlag, yi_BeginCursor = beginCursor, yi_EndCursor = endCursor, yi_FromID = peerId \<rparr>\<rparr>"

definition GetSyncState :: "string \<Rightarrow> SyncHandler \<Rightarrow> sync_error + byte" where
  "GetSyncState chainID sh = (case gget (sh_syncHandler sh) chainID of None \<Rightarrow> Inl NoChain | Some sch \<Rightarrow> Inr (yi_SyncState (sc_syncInfo sch)))"

text \<open>The signal is dropped when there is one already.\<close>

definition sch_exit :: "syncChainHandler \<Rightarrow> syncChainHandler" where
  "sch_exit sch = (if yi_SyncState (sc_syncInfo sch) = 0 then sch else sch\<lparr>sc_exitTask := True\<rparr>)"

definition SyncExit :: "string \<Rightarrow> SyncHandler \<Rightarrow> sync_error option \<times> SyncHandler" where
  "SyncExit chainID sh = (case gget (sh_syncHandler sh) chainID of None \<Rightarrow> (Some NoChain, sh)
     | Some sch \<Rightarrow> (None, sh\<lparr>sh_syncHandler := gput (sh_syncHandler sh) chainID (sch_exit sch)\<rparr>))"

text \<open>The caller does not wait for the end.\<close>

definition SyncToTarget :: "string \<Rightarrow> u64 \<Rightarrow> u64 \<Rightarrow> u64 \<Rightarrow> 32 word \<Rightarrow> SyncHandler \<Rightarrow> sync_error option \<times> SyncHandler" where
  "SyncToTarget chainID beginCursor endCursor peerId version sh =
     (let sh1 = (if gget (sh_syncHandler sh) chainID = None then addSyncHandler chainID sh else sh) in
      case gget (sh_syncHandler sh1) chainID of None \<Rightarrow> (Some NoChain, sh1)
      | Some sch \<Rightarrow>
        if yi_SyncState (sc_syncInfo sch) = 1 then (Some Syncing, sh1)
        else (None, sh1\<lparr>sh_syncHandler := gput (sh_syncHandler sh1) chainID (setSyncState 1 beginCursor endCursor peerId sch),
               sh_syncReq := sh_syncReq sh1 @ [\<lparr> br_chainID = chainID, br_beginIndex = beginCursor, br_endIndex = endCursor, br_peerID = peerId, br_version = version \<rparr>]\<rparr>))"

section \<open>Serving blocks\<close>

text \<open>The number of a block; a nil pointer is dereferenced.\<close>

definition blk_num :: "Block option \<Rightarrow> u64 option" where
  "blk_num p = Option.bind p (\<lambda>b. map_option hd_BlockNum (bk_Header b))"




text \<open>What a message does to the handler of one chain: a response is queued when it answers the last request.\<close>

definition recv_response :: "sync_env \<Rightarrow> bytes \<Rightarrow> syncChainHandler \<Rightarrow> syncChainHandler" where
  "recv_response ye msg sch = (case ye_decMsg ye msg of None \<Rightarrow> sch
     | Some syncMsg \<Rightarrow>
       if sm_Type syncMsg \<noteq> RESPONSE_BLOCKS_EVENT then sch
       else (case ye_decRes ye (sm_Payload syncMsg) of None \<Rightarrow> sch
         | Some res \<Rightarrow> if rs_ChainID res = sc_chainID sch \<and> sc_chainSyncVersion sch - 1 = rs_Version res
             then sch\<lparr>sc_syncBlockChannel := sc_syncBlockChannel sch @ [res]\<rparr> else sch))"


section \<open>Asking for blocks\<close>

definition genRemoteBlocksRequest :: "sync_env \<Rightarrow> u64 \<Rightarrow> u64 \<Rightarrow> syncChainHandler \<Rightarrow> bytes option \<times> syncChainHandler" where
  "genRemoteBlocksRequest ye beginIndex endIndex sch =
     (let version = sc_chainSyncVersion sch in
      (do { payload \<leftarrow> ye_encReq ye \<lparr> rq_ChainID = sc_chainID sch, rq_BeginIndex = beginIndex, rq_EndIndex = endIndex, rq_Version = version \<rparr>;
            ye_encMsg ye \<lparr> sm_Type = REQUEST_BLOCKS_EVENT, sm_Payload = payload, sm_Sender = ye_localID ye \<rparr> },
       sch\<lparr>sc_chainSyncVersion := version + 1\<rparr>))"

definition SetInterval :: "u64 \<Rightarrow> int \<Rightarrow> syncChainHandler \<Rightarrow> syncChainHandler" where
  "SetInterval peerID interval sch = sch\<lparr>sc_interval := gput (sc_interval sch) peerID interval\<rparr>"

definition getBlocksScope :: "Block option list \<Rightarrow> (u64 \<times> u64) option" where
  "getBlocksScope blocks = (if blocks = [] then None else do { a \<leftarrow> blk_num (hd blocks); b \<leftarrow> blk_num (last blocks); Some (a, b) })"

text \<open>What happens while the goroutine waits, or, for \<open>Meanwhile\<close>, a message that comes when the goroutine has stopped waiting and has not sent its next request yet.\<close>

datatype happening = Message bytes | Meanwhile bytes | ExitSignal | TimerFired

datatype waited = WResponse ResponseBlocks | WTimer | WNothing

fun meanwhile :: "sync_env \<Rightarrow> happening list \<Rightarrow> syncChainHandler \<Rightarrow> happening list \<times> syncChainHandler" where
  "meanwhile ye (Meanwhile m # evs) sch = meanwhile ye evs (recv_response ye m sch)"
| "meanwhile ye evs sch = (evs, sch)"

fun wait_sync :: "sync_env \<Rightarrow> happening list \<Rightarrow> syncChainHandler \<Rightarrow> waited \<times> happening list \<times> syncChainHandler" where
  "wait_sync ye [] sch = (case sc_syncBlockChannel sch of r # q \<Rightarrow> (WResponse r, [], sch\<lparr>sc_syncBlockChannel := q\<rparr>) | [] \<Rightarrow> (WNothing, [], sch))"
| "wait_sync ye (ev # evs) sch = (case sc_syncBlockChannel sch of r # q \<Rightarrow> (WResponse r, meanwhile ye (ev # evs) (sch\<lparr>sc_syncBlockChannel := q\<rparr>))
     | [] \<Rightarrow> (case ev of Message m \<Rightarrow> wait_sync ye evs (recv_response ye m sch) | Meanwhile m \<Rightarrow> wait_sync ye evs (recv_response ye m sch)
         | ExitSignal \<Rightarrow> wait_sync ye evs (sch_exit sch) | TimerFired \<Rightarrow> (WTimer, meanwhile ye evs sch)))"

text \<open>What is left for the goroutine to consume.\<close>

definition pending_work :: "happening list \<Rightarrow> syncChainHandler \<Rightarrow> nat" where
  "pending_work evs sch = 2 * length evs + length (sc_syncBlockChannel sch)"

lemma recv_response_work: "pending_work evs (recv_response ye m sch) \<le> Suc (pending_work evs sch)"
  by (simp add: recv_response_def pending_work_def split: option.splits)

lemma sch_exit_work [simp]: "pending_work evs (sch_exit sch) = pending_work evs sch"
  by (simp add: sch_exit_def pending_work_def)

lemma meanwhile_work: "meanwhile ye evs sch = (evs', sch') \<Longrightarrow> pending_work evs' sch' \<le> pending_work evs sch"
proof (induction ye evs sch rule: meanwhile.induct)
  case (1 ye m evs sch)
  have "pending_work (Meanwhile m # evs) sch = pending_work evs sch + 2" by (simp add: pending_work_def)
  then show ?case using 1 recv_response_work [of evs ye m sch] by simp
qed simp_all

lemma wait_sync_work: "wait_sync ye evs sch = (x, evs', sch') \<Longrightarrow> x \<noteq> WNothing \<Longrightarrow> pending_work evs' sch' < pending_work evs sch"
proof (induction ye evs sch rule: wait_sync.induct)
  case (1 ye sch)
  then show ?case by (auto simp: pending_work_def split: list.splits)
next
  case (2 ye ev evs sch)
  have step: "pending_work (ev # evs) sch = pending_work evs sch + 2" by (simp add: pending_work_def)
  show ?case
  proof (cases "sc_syncBlockChannel sch")
    case Nil
    show ?thesis
    proof (cases ev)
      case (Message m)
      then show ?thesis using "2.IH"(1) [OF Nil] "2.prems" Nil step recv_response_work [of evs ye m sch] by simp
    next
      case (Meanwhile m)
      then show ?thesis using "2.IH"(2) [OF Nil] "2.prems" Nil step recv_response_work [of evs ye m sch] by simp
    next
      case ExitSignal
      then show ?thesis using "2.IH"(3) [OF Nil] "2.prems" Nil step by simp
    next
      case TimerFired
      then show ?thesis using "2.prems" Nil step meanwhile_work [of ye evs sch evs' sch'] by simp
    qed
  next
    case (Cons r q)
    then show ?thesis using "2.prems" meanwhile_work [of ye "ev # evs" "sch\<lparr>sc_syncBlockChannel := q\<rparr>" evs' sch'] by (simp add: pending_work_def)
  qed
qed

lemma turn_work:
  "(x, evs', sch') = wait_sync ye evs (sch\<lparr>sc_chainSyncVersion := v, sc_sent := l\<rparr>) \<Longrightarrow> x \<noteq> WNothing \<Longrightarrow> pending_work evs' sch' < pending_work evs sch"
  using wait_sync_work [of ye evs "sch\<lparr>sc_chainSyncVersion := v, sc_sent := l\<rparr>" x evs' sch'] by (simp add: pending_work_def)

text \<open>The next range after a timeout: half the interval after the first and the third.\<close>

definition sync_timeout :: "u64 \<Rightarrow> u64 \<Rightarrow> u64 \<Rightarrow> byte \<Rightarrow> syncChainHandler \<Rightarrow> u64 \<times> syncChainHandler" where
  "sync_timeout tmpBeginIndex tmpEndIndex peerID retransmissions sch =
     (if retransmissions = 1 \<or> retransmissions = 3 then
        (let v = (case gget (sc_interval sch) peerID of None \<Rightarrow> 0 | Some v \<Rightarrow> v); half = go_quot v 2; interval = (if half < 1 then 1 else half) in
         (tmpBeginIndex + word_of_int interval - 1, SetInterval peerID interval sch))
      else (tmpEndIndex, sch))"

lemma sync_timeout_work: "(e, sch') = sync_timeout b e0 p n sch \<Longrightarrow> pending_work evs sch' = pending_work evs sch"
  by (simp add: sync_timeout_def SetInterval_def pending_work_def Let_def split: if_splits)

text \<open>
  One turn sends the request, looks for the signal to stop and waits.  An id is never negative, so the peer is the one that was asked for; the wait for neighbours is left out.
\<close>

function getRemoteBlocks :: "sync_env \<Rightarrow> u64 \<Rightarrow> u64 \<Rightarrow> u64 \<Rightarrow> byte \<Rightarrow> happening list \<Rightarrow> syncChainHandler \<Rightarrow>
    ((sync_error + Block option list option) \<times> happening list \<times> syncChainHandler) option" where
  "getRemoteBlocks ye beginIndex endIndex peerID n evs sch =
     (case genRemoteBlocksRequest ye beginIndex endIndex sch of (None, sch1) \<Rightarrow> Some (Inl SyncMarshal, evs, sch1)
      | (Some msg, sch1) \<Rightarrow>
        let sch2 = sch1\<lparr>sc_sent := sc_sent sch1 @ [(peerID, msg)]\<rparr> in
        if sc_exitTask sch2 then Some (Inl StopSync, evs, sch2\<lparr>sc_exitTask := False, sc_chainSyncVersion := sc_chainSyncVersion sch2 + 1\<rparr>)
        else (case wait_sync ye evs sch2 of
            (WNothing, evs1, sch3) \<Rightarrow> Some (Inl NotYet, evs1, sch3)
          | (WTimer, evs1, sch3) \<Rightarrow>
              (case sync_timeout beginIndex endIndex peerID (n + 1) sch3 of (end1, sch4) \<Rightarrow>
                 if n + 1 = 5 then Some (Inl Retransmitted, evs1, sch4) else getRemoteBlocks ye beginIndex end1 peerID (n + 1) evs1 sch4)
          | (WResponse res, evs1, sch3) \<Rightarrow>
              (case rs_Blocks res of None \<Rightarrow> Some (Inr None, evs1, sch3)
               | Some blocks \<Rightarrow> (case getBlocksScope blocks of None \<Rightarrow> None
                   | Some (recvBegin, recvEnd) \<Rightarrow>
                     if recvBegin \<noteq> beginIndex \<or> recvEnd \<noteq> endIndex then getRemoteBlocks ye beginIndex endIndex peerID (n + 1) evs1 sch3
                     else Some (Inr (Some blocks), evs1, sch3)))))"
  by pat_completeness auto
termination
  by (relation "measure (\<lambda>(ye, b, e, p, n, evs, sch). pending_work evs sch)")
    (auto simp: genRemoteBlocksRequest_def sync_timeout_work Let_def dest: turn_work simp del: One_nat_def)

declare getRemoteBlocks.simps [simp del]

text \<open>The responses that may still be taken.\<close>

definition responses :: "sync_env \<Rightarrow> happening list \<Rightarrow> syncChainHandler \<Rightarrow> ResponseBlocks set" where
  "responses ye evs sch = set (sc_syncBlockChannel sch) \<union>
     {res. \<exists>m syncMsg. (Message m \<in> set evs \<or> Meanwhile m \<in> set evs) \<and> ye_decMsg ye m = Some syncMsg \<and> ye_decRes ye (sm_Payload syncMsg) = Some res}"

text \<open>What asking for blocks leaves alone.\<close>

definition same_client :: "syncChainHandler \<Rightarrow> syncChainHandler \<Rightarrow> bool" where
  "same_client sch sch' \<longleftrightarrow> sc_notified sch' = sc_notified sch \<and> sc_notifyHandler sch' = sc_notifyHandler sch \<and> sc_chainID sch' = sc_chainID sch"

lemma recv_ok:
  "same_client sch (recv_response ye m sch)" "ev = Message m \<or> ev = Meanwhile m \<Longrightarrow> responses ye evs (recv_response ye m sch) \<subseteq> responses ye (ev # evs) sch"
  by (auto simp: recv_response_def same_client_def responses_def split: option.splits if_splits)

lemma meanwhile_ok: "meanwhile ye evs sch = (evs', sch') \<Longrightarrow> same_client sch sch' \<and> responses ye evs' sch' \<subseteq> responses ye evs sch"
proof (induction ye evs sch rule: meanwhile.induct)
  case (1 ye m evs sch)
  then show ?case using recv_ok(1) [of sch ye m] recv_ok(2) [of "Meanwhile m" m ye evs sch] by (auto simp: same_client_def)
qed (simp_all add: same_client_def)

lemma wait_sync_ok:
  "wait_sync ye evs sch = (x, evs', sch') \<Longrightarrow> same_client sch sch' \<and> responses ye evs' sch' \<subseteq> responses ye evs sch \<and> (\<forall>res. x = WResponse res \<longrightarrow> res \<in> responses ye evs sch)"
proof (induction ye evs sch rule: wait_sync.induct)
  case (1 ye sch)
  then show ?case by (auto simp: same_client_def responses_def split: list.splits)
next
  case (2 ye ev evs sch)
  show ?case
  proof (cases "sc_syncBlockChannel sch")
    case Nil
    have exit: "same_client sch (sch_exit sch)" "responses ye evs (sch_exit sch) \<subseteq> responses ye (ev # evs) sch" "responses ye evs sch \<subseteq> responses ye (ev # evs) sch"
      by (auto simp: sch_exit_def same_client_def responses_def)
    show ?thesis
    proof (cases ev)
      case (Message m)
      then show ?thesis using "2.IH"(1) [OF Nil] "2.prems" Nil recv_ok(1) [of sch ye m] recv_ok(2) [of ev m ye evs sch] by (auto simp: same_client_def)
    next
      case (Meanwhile m)
      then show ?thesis using "2.IH"(2) [OF Nil] "2.prems" Nil recv_ok(1) [of sch ye m] recv_ok(2) [of ev m ye evs sch] by (auto simp: same_client_def)
    next
      case ExitSignal
      then show ?thesis using "2.IH"(3) [OF Nil] "2.prems" Nil exit by (auto simp: same_client_def)
    next
      case TimerFired
      then show ?thesis using "2.prems" Nil exit(3) meanwhile_ok [of ye evs sch evs' sch'] by auto
    qed
  next
    case (Cons r q)
    then have x: "x = WResponse r" "meanwhile ye (ev # evs) (sch\<lparr>sc_syncBlockChannel := q\<rparr>) = (evs', sch')" using "2.prems" by simp_all
    have "responses ye (ev # evs) (sch\<lparr>sc_syncBlockChannel := q\<rparr>) \<subseteq> responses ye (ev # evs) sch" "r \<in> responses ye (ev # evs) sch" using Cons by (auto simp: responses_def)
    then show ?thesis using meanwhile_ok [OF x(2)] x(1) by (auto simp: same_client_def)
  qed
qed

lemma sync_timeout_ok:
  "sync_timeout b e p n sch = (e1, sch') \<Longrightarrow> same_client sch sch' \<and> responses ye evs sch' = responses ye evs sch"
  by (auto simp: sync_timeout_def SetInterval_def same_client_def responses_def Let_def split: if_splits)

definition remote_ok :: "sync_env \<Rightarrow> u64 \<Rightarrow> happening list \<Rightarrow> syncChainHandler \<Rightarrow> (sync_error + Block option list option) \<times> happening list \<times> syncChainHandler \<Rightarrow> bool" where
  "remote_ok ye b evs sch = (\<lambda>(r, evs', sch'). same_client sch sch' \<and> responses ye evs' sch' \<subseteq> responses ye evs sch \<and>
     (\<forall>x. r = Inr x \<longrightarrow> pending_work evs' sch' < pending_work evs sch \<and> (\<exists>res\<in>responses ye evs sch. rs_Blocks res = x)) \<and>
     (\<forall>blocks. r = Inr (Some blocks) \<longrightarrow> (\<exists>e. getBlocksScope blocks = Some (b, e))))"

lemma remote_ok_trans:
  assumes "remote_ok ye b evs1 sch1 res" "same_client sch sch1" "responses ye evs1 sch1 \<subseteq> responses ye evs sch" "pending_work evs1 sch1 \<le> pending_work evs sch"
  shows "remote_ok ye b evs sch res"
  using assms by (cases res) (fastforce simp: remote_ok_def same_client_def)

lemma getRemoteBlocks_ok: "getRemoteBlocks ye b e p n evs sch = Some res \<Longrightarrow> remote_ok ye b evs sch res"
proof (induction ye b e p n evs sch rule: getRemoteBlocks.induct)
  case (1 ye b e p n evs sch)
  obtain sent sch1 where gen: "genRemoteBlocksRequest ye b e sch = (sent, sch1)" and sch1: "sch1 = sch\<lparr>sc_chainSyncVersion := sc_chainSyncVersion sch + 1\<rparr>"
    by (simp add: genRemoteBlocksRequest_def Let_def)
  have stop: "remote_ok ye b evs sch (Inl err, evs, sch1\<lparr>sc_sent := l, sc_exitTask := x, sc_chainSyncVersion := v\<rparr>)" "remote_ok ye b evs sch (Inl err, evs, sch1)" for err l x v
    by (auto simp: remote_ok_def same_client_def responses_def sch1)
  show ?case
  proof (cases sent)
    case None
    then show ?thesis using "1.prems" stop by (auto simp: getRemoteBlocks.simps [of ye b e p n evs sch] gen)
  next
    case (Some msg)
    define sch2 where "sch2 = sch1\<lparr>sc_sent := sc_sent sch1 @ [(p, msg)]\<rparr>"
    show ?thesis
    proof (cases "sc_exitTask sch2")
      case True
      then show ?thesis using "1.prems" stop Some by (auto simp: getRemoteBlocks.simps [of ye b e p n evs sch] gen sch2_def Let_def)
    next
      case False
      obtain x evs1 sch3 where w: "wait_sync ye evs sch2 = (x, evs1, sch3)" by (cases "wait_sync ye evs sch2")
      have wait: "same_client sch sch3" "responses ye evs1 sch3 \<subseteq> responses ye evs sch" "\<And>r. x = WResponse r \<Longrightarrow> r \<in> responses ye evs sch"
        using wait_sync_ok [OF w] by (simp_all add: sch2_def sch1 same_client_def responses_def)
      have less: "x \<noteq> WNothing \<Longrightarrow> pending_work evs1 sch3 < pending_work evs sch" using wait_sync_work [OF w] by (simp add: sch2_def sch1 pending_work_def)
      note run = "1.prems" [unfolded getRemoteBlocks.simps [of ye b e p n evs sch] gen Some prod.case option.case Let_def, folded sch2_def]
      note again = refl [of "Some msg"] sch2_def False w [symmetric]
      show ?thesis
      proof (cases x)
        case (WResponse r)
        have fin: "remote_ok ye b evs sch (Inr (rs_Blocks r), evs1, sch3)" if "\<And>blocks. rs_Blocks r = Some blocks \<Longrightarrow> \<exists>e'. getBlocksScope blocks = Some (b, e')"
          using that wait(1,2) wait(3) [OF WResponse] less WResponse by (auto simp: remote_ok_def)
        show ?thesis
        proof (cases "rs_Blocks r")
          case None
          then show ?thesis using run False w WResponse fin by simp
        next
          case blocks: (Some blocks)
          obtain b' e' where scope: "getBlocksScope blocks = Some (b', e')" using run False w WResponse blocks by (cases "getBlocksScope blocks") auto
          show ?thesis
          proof (cases "b' \<noteq> b \<or> e' \<noteq> e")
            case True
            then have "getRemoteBlocks ye b e p (n + 1) evs1 sch3 = Some res" using run False w WResponse blocks scope by simp
            then have "remote_ok ye b evs1 sch3 res" using "1.IH"(1) [OF gen [symmetric, unfolded Some] again WResponse refl blocks scope refl True] by simp
            then show ?thesis by (rule remote_ok_trans [OF _ wait(1,2)]) (use less WResponse in simp)
          next
            case False
            then show ?thesis using run \<open>\<not> sc_exitTask sch2\<close> w WResponse blocks scope fin by simp
          qed
        qed
      next
        case WTimer
        obtain e1 sch4 where t: "sync_timeout b e p (n + 1) sch3 = (e1, sch4)" by (cases "sync_timeout b e p (n + 1) sch3")
        have keep: "same_client sch sch4" "responses ye evs1 sch4 \<subseteq> responses ye evs sch" "pending_work evs1 sch4 \<le> pending_work evs sch"
          using wait(1,2) less WTimer sync_timeout_work [OF t [symmetric], of evs1] sync_timeout_ok [OF t, of ye evs1] by (simp_all add: same_client_def)
        have "remote_ok ye b evs sch (Inl Retransmitted, evs1, sch4)" using keep by (simp add: remote_ok_def)
        moreover have "remote_ok ye b evs1 sch4 res" if "n + 1 \<noteq> 5" "getRemoteBlocks ye b e1 p (n + 1) evs1 sch4 = Some res"
          using "1.IH"(2) [OF gen [symmetric, unfolded Some] again WTimer refl t [symmetric] that] .
        ultimately show ?thesis using run remote_ok_trans [OF _ keep, of b res] False w WTimer t by (auto split: if_splits)
      next
        case WNothing
        then show ?thesis using run False w wait by (auto simp: remote_ok_def)
      qed
    qed
  qed
qed

section \<open>Handing the blocks on\<close>

text \<open>The number of a block is logged after the notification.\<close>

fun notify_blocks :: "u64 \<Rightarrow> 32 word \<Rightarrow> Block option list \<Rightarrow> syncChainHandler \<Rightarrow> syncChainHandler option" where
  "notify_blocks peerID version [] sch = Some sch"
| "notify_blocks peerID version (v # blocks) sch = do {
     let sch1 = sch\<lparr>sc_notified := sc_notified sch @ [\<lparr> sn_SenderID = peerID, sn_Block = v, sn_FinishFlag = False, sn_Version = version \<rparr>]\<rparr>;
     num \<leftarrow> blk_num v;
     notify_blocks peerID version blocks sch1 }"

text \<open>The interval of a peer, set to the maximum when it is not known or the last range was long.\<close>

definition sync_interval :: "int \<Rightarrow> u64 \<Rightarrow> u64 \<Rightarrow> u64 \<Rightarrow> syncChainHandler \<Rightarrow> int \<times> syncChainHandler" where
  "sync_interval maxCount beginIndex endIndex peerID sch =
     (case gget (sc_interval sch) peerID of
        Some v \<Rightarrow> if endIndex - beginIndex > 20 then (maxCount, SetInterval peerID maxCount sch) else (v, sch)
      | None \<Rightarrow> (maxCount, SetInterval peerID maxCount sch))"

lemma notify_blocks_state:
  "notify_blocks p v blocks sch = Some sch' \<Longrightarrow>
     sch' = sch\<lparr>sc_notified := sc_notified sch @ map (\<lambda>b. \<lparr> sn_SenderID = p, sn_Block = b, sn_FinishFlag = False, sn_Version = v \<rparr>) blocks\<rparr>"
  by (induction p v blocks sch rule: notify_blocks.induct) (auto simp: bind_eq_Some_conv)

lemma sync_interval_ok:
  "sync_interval m b e p sch = (i, sch') \<Longrightarrow> same_client sch sch' \<and> responses ye evs sch' = responses ye evs sch \<and> pending_work evs sch' = pending_work evs sch"
  by (auto simp: sync_interval_def SetInterval_def same_client_def responses_def pending_work_def split: option.splits if_splits)

lemma sync_turn_work:
  assumes "sync_interval m b e p sch = (i, sch1)" "getRemoteBlocks ye b e1 p 0 evs sch1 = Some (Inr x, evs1, sch2)" "notify_blocks p v blocks sch2 = Some sch3"
  shows "pending_work evs1 sch3 < pending_work evs sch"
proof -
  have "pending_work evs1 sch2 < pending_work evs sch1" using getRemoteBlocks_ok [OF assms(2)] by (simp add: remote_ok_def)
  moreover have "pending_work evs sch1 = pending_work evs sch" using sync_interval_ok [OF assms(1)] by blast
  moreover have "pending_work evs1 sch3 = pending_work evs1 sch2" using notify_blocks_state [OF assms(3)] by (simp add: pending_work_def)
  ultimately show ?thesis by simp
qed

text \<open>\<open>reqEnd\<close> is the end of the last range asked for, at first that of the request.\<close>

function syncBlock :: "sync_env \<Rightarrow> int \<Rightarrow> u64 \<Rightarrow> 32 word \<Rightarrow> u64 \<Rightarrow> u64 \<Rightarrow> u64 \<Rightarrow> happening list \<Rightarrow> syncChainHandler \<Rightarrow>
    ((sync_error + unit) \<times> happening list \<times> syncChainHandler) option" where
  "syncBlock ye maxCount peerID version endIndex beginIndex reqEnd evs sch =
     (case sync_interval maxCount beginIndex reqEnd peerID sch of (interval, sch1) \<Rightarrow>
      let rangeEnd = (if endIndex - beginIndex + 1 > word_of_int interval then beginIndex + word_of_int interval - 1 else endIndex) in
      (case getRemoteBlocks ye beginIndex rangeEnd peerID 0 evs sch1 of None \<Rightarrow> None
       | Some (Inl err, evs1, sch2) \<Rightarrow> Some (Inl err, evs1, sch2)
       | Some (Inr None, evs1, sch2) \<Rightarrow> Some (Inr (), evs1, sch2)
       | Some (Inr (Some blocks), evs1, sch2) \<Rightarrow>
           (case getBlocksScope blocks of None \<Rightarrow> None
            | Some (_, recvEnd) \<Rightarrow>
              if \<not> sc_notifyHandler sch2 then Some (Inr (), evs1, sch2)
              else (case notify_blocks peerID version blocks sch2 of None \<Rightarrow> None
                | Some sch3 \<Rightarrow> if recvEnd + 1 > endIndex then Some (Inr (), evs1, sch3)
                    else syncBlock ye maxCount peerID version endIndex (recvEnd + 1) recvEnd evs1 sch3))))"
  by pat_completeness auto
termination
  by (relation "measure (\<lambda>(ye, m, p, v, e, b, re, evs, sch). pending_work evs sch)") (auto dest: sync_turn_work [OF sym])

declare syncBlock.simps [simp del]

text \<open>While it waits, the request is not finished.\<close>

definition blockSyncProcess :: "sync_env \<Rightarrow> int \<Rightarrow> blockSyncReq \<Rightarrow> happening list \<Rightarrow> syncChainHandler \<Rightarrow> (happening list \<times> syncChainHandler) option" where
  "blockSyncProcess ye maxCount req evs sch = do {
     (r, evs1, sch1) \<leftarrow> syncBlock ye maxCount (br_peerID req) (br_version req) (br_endIndex req) (br_beginIndex req) (br_endIndex req) evs
                          (sch\<lparr>sc_exitTask := False, sc_notifyHandler := True\<rparr>);
     Some (evs1, if r = Inl NotYet then sch1
       else (setSyncState 0 0 0 0 (sch1\<lparr>sc_notified := sc_notified sch1 @
         [\<lparr> sn_SenderID = br_peerID req, sn_Block = None, sn_FinishFlag = (case r of Inl e \<Rightarrow> False | Inr u \<Rightarrow> True), sn_Version = br_version req \<rparr>]\<rparr>))\<lparr>sc_notifyHandler := False\<rparr>) }"

definition blockSyncThread :: "sync_env \<Rightarrow> happening list \<Rightarrow> SyncHandler \<Rightarrow> (happening list \<times> SyncHandler) option" where
  "blockSyncThread ye evs sh = (case sh_syncReq sh of [] \<Rightarrow> Some (evs, sh)
     | req # q \<Rightarrow>
       let sh1 = sh\<lparr>sh_syncReq := q\<rparr> in
       (case gget (sh_syncHandler sh1) (br_chainID req) of None \<Rightarrow> Some (evs, sh1)
        | Some sch \<Rightarrow> do {
            (evs1, sch1) \<leftarrow> blockSyncProcess ye (sh_reqMaxBlocksCount sh1) req evs sch;
            Some (evs1, sh1\<lparr>sh_syncHandler := gput (sh_syncHandler sh1) (br_chainID req) sch1\<rparr>) }))"

section \<open>The order of the blocks\<close>

text \<open>Blocks with the numbers from \<open>k\<close> on.\<close>

definition consecutive :: "u64 \<Rightarrow> Block option list \<Rightarrow> bool" where
  "consecutive k blocks \<longleftrightarrow> map blk_num blocks = map (\<lambda>i. Some (k + of_nat i)) [0..<length blocks] \<and> unat k + length blocks < 2 ^ 64"

text \<open>Peers that answer with consecutive blocks, of whatever range, or refuse.\<close>

definition in_sequence :: "sync_env \<Rightarrow> happening list \<Rightarrow> syncChainHandler \<Rightarrow> bool" where
  "in_sequence ye evs sch \<longleftrightarrow> (\<forall>res\<in>responses ye evs sch. \<forall>blocks. rs_Blocks res = Some blocks \<longrightarrow> (\<exists>k. consecutive k blocks))"

lemma consecutive_nth: "consecutive k blocks \<Longrightarrow> i < length blocks \<Longrightarrow> blk_num (blocks ! i) = Some (k + of_nat i)"
  unfolding consecutive_def by (drule conjunct1, drule arg_cong [of _ _ "\<lambda>l. l ! i"]) simp

lemma consecutive_scope:
  assumes "consecutive k blocks" "getBlocksScope blocks = Some (b, e)"
  shows "k = b \<and> blocks \<noteq> [] \<and> e + 1 = b + of_nat (length blocks) \<and> unat (e + 1) = unat b + length blocks"
proof -
  have ne: "blocks \<noteq> []" "blk_num (hd blocks) = Some b" "blk_num (last blocks) = Some e" using assms(2) by (auto simp: getBlocksScope_def bind_eq_Some_conv split: if_splits)
  then have "b = k" using consecutive_nth [OF assms(1), of 0] by (simp add: hd_conv_nth)
  moreover have "e = k + of_nat (length blocks - 1)" using consecutive_nth [OF assms(1), of "length blocks - 1"] ne by (simp add: last_conv_nth del: of_nat_diff)
  moreover have "(of_nat (length blocks - 1) :: u64) + 1 = of_nat (length blocks)" using ne(1) by (cases "length blocks") (simp_all add: add.commute)
  ultimately have "k = b" "e + 1 = b + of_nat (length blocks)" by (simp_all add: add.assoc del: of_nat_diff)
  moreover have "unat (b + of_nat (length blocks)) = unat b + length blocks" using assms(1) \<open>b = k\<close> by (simp add: consecutive_def unat_word_ariths(1) unat_of_nat)
  ultimately show ?thesis using ne(1) by simp
qed

lemma consecutive_append:
  assumes "consecutive b xs" "consecutive (b + of_nat (length xs)) ys" "unat (b + of_nat (length xs) :: u64) = unat b + length xs"
  shows "consecutive b (xs @ ys)"
proof -
  have "map blk_num (xs @ ys) = map (\<lambda>i. Some (b + of_nat i)) [0..<length xs + length ys]"
    by (rule nth_equalityI) (use assms(1,2) in \<open>auto simp: nth_append consecutive_nth add.assoc simp flip: of_nat_add\<close>)
  then show ?thesis using assms(2,3) by (simp add: consecutive_def)
qed

text \<open>Claim C7.  When the peers answer with consecutive blocks, whatever happens while the node synchronises (late, repeated or wrong answers, timeouts, a signal to stop), the blocks that are
  handed on have the numbers from the first that was asked for on, in order, without a gap and without a repetition.  When the synchronisation succeeds, they reach the last one that
  was asked for, unless the peer refused.\<close>

theorem sync_blocks_in_order:
  assumes "syncBlock ye m p v e b re evs sch = Some (r, evs', sch')" "in_sequence ye evs sch" "sc_notifyHandler sch"
  shows "\<exists>news. sc_notified sch' = sc_notified sch @ news \<and> consecutive b (map sn_Block news) \<and>
    (r = Inr () \<longrightarrow> unat e < unat b + length news \<or> (\<exists>res\<in>responses ye evs sch. rs_Blocks res = None))"
  using assms
proof (induction ye m p v e b re evs sch rule: syncBlock.induct)
  case (1 ye m p v e b re evs sch)
  have "unat b < 2 ^ LENGTH(64)" by (rule unsigned_less)
  then have nil: "consecutive b (map sn_Block [])" by (simp add: consecutive_def)
  obtain i sch1 where i: "sync_interval m b re p sch = (i, sch1)" by (cases "sync_interval m b re p sch")
  define e1 where "e1 = (if e - b + 1 > word_of_int i then b + word_of_int i - 1 else e)"
  have sch1: "same_client sch sch1" "responses ye evs sch1 = responses ye evs sch" using sync_interval_ok [OF i] by blast+
  note run = "1.prems"(1) [unfolded syncBlock.simps [of ye m p v e b re evs sch] i prod.case Let_def, folded e1_def]
  obtain r0 evs1 sch2 where g: "getRemoteBlocks ye b e1 p 0 evs sch1 = Some (r0, evs1, sch2)" using run by (cases "getRemoteBlocks ye b e1 p 0 evs sch1") auto
  have ok: "same_client sch sch2" "responses ye evs1 sch2 \<subseteq> responses ye evs sch" "\<And>x. r0 = Inr x \<Longrightarrow> \<exists>res\<in>responses ye evs sch. rs_Blocks res = x"
    "\<And>blocks. r0 = Inr (Some blocks) \<Longrightarrow> \<exists>e'. getBlocksScope blocks = Some (b, e')"
    using getRemoteBlocks_ok [OF g] sch1 by (auto simp: remote_ok_def same_client_def)
  have same: "sc_notified sch2 = sc_notified sch" "sc_notifyHandler sch2" using ok(1) "1.prems"(3) by (simp_all add: same_client_def)
  show ?case
  proof (cases r0)
    case (Inl err)
    then show ?thesis using run g same nil by (intro exI [of _ "[]"]) auto
  next
    case (Inr x)
    show ?thesis
    proof (cases x)
      case None
      then show ?thesis using run g same nil ok(3) [OF Inr] Inr by (intro exI [of _ "[]"]) auto
    next
      case (Some blocks)
      obtain e' where scope: "getBlocksScope blocks = Some (b, e')" using ok(4) Inr Some by blast
      obtain res k where "res \<in> responses ye evs sch" "rs_Blocks res = Some blocks" "consecutive k blocks" using ok(3) [OF Inr] Some "1.prems"(2) unfolding in_sequence_def by blast
      then have c: "consecutive b blocks" "e' + 1 = b + of_nat (length blocks)" "unat (e' + 1) = unat b + length blocks" using consecutive_scope [OF _ scope, of k] by argo+
      obtain sch3 where n: "notify_blocks p v blocks sch2 = Some sch3" using run g Inr Some scope same by (cases "notify_blocks p v blocks sch2") auto
      define new where "new = map (\<lambda>b. \<lparr> sn_SenderID = p, sn_Block = b, sn_FinishFlag = False, sn_Version = v \<rparr>) blocks"
      have sch3: "sch3 = sch2\<lparr>sc_notified := sc_notified sch @ new\<rparr>" using notify_blocks_state [OF n] same by (simp add: new_def)
      have new: "map sn_Block new = blocks" "length new = length blocks" by (simp_all add: new_def comp_def)
      show ?thesis
      proof (cases "e' + 1 > e")
        case True
        then have "unat e < unat b + length new" using c(3) new(2) by (simp add: word_less_nat_alt)
        then show ?thesis using run g Inr Some scope same n True sch3 c(1) new(1) by (intro exI [of _ new]) auto
      next
        case False
        have rest: "syncBlock ye m p v e (e' + 1) e' evs1 sch3 = Some (r, evs', sch')" using run g Inr Some scope same n False by simp
        have sub: "responses ye evs1 sch3 \<subseteq> responses ye evs sch" using ok(2) sch3 by (simp add: responses_def)
        then have seq: "in_sequence ye evs1 sch3" using "1.prems"(2) by (auto simp: in_sequence_def)
        have "\<not> \<not> sc_notifyHandler sch2" "sc_notifyHandler sch3" using same sch3 by simp_all
        then obtain news where news: "sc_notified sch' = sc_notified sch3 @ news" "consecutive (e' + 1) (map sn_Block news)"
            "r = Inr () \<longrightarrow> unat e < unat (e' + 1) + length news \<or> (\<exists>res\<in>responses ye evs sch. rs_Blocks res = None)"
          using "1.IH" [OF i [symmetric] e1_def g refl Inr Some refl scope refl _ n False rest seq] sub by blast
        have "consecutive b (map sn_Block (new @ news))" using consecutive_append [OF c(1)] news(2) c(2,3) new(1) by simp
        then show ?thesis using news c(3) new(2) sch3 by (intro exI [of _ "new @ news"]) (auto simp: add.assoc)
      qed
    qed
  qed
qed

definition sync_blk :: "u64 \<Rightarrow> Block option" where
  "sync_blk n = Some \<lparr> bk_Header = Some \<lparr> hd_BlockNum = n, hd_PreviousHash = [], hd_CreateTime = 0, hd_SenderId = [], hd_ConsArgs = [], hd_Ext = [], hd_TxsHash = [], hd_StateHash = [] \<rparr>, bk_Txs = [] \<rparr>"

definition sync_demo :: sync_env where
  "sync_demo = \<lparr> ye_encReq = (\<lambda>r. Some []), ye_decReq = (\<lambda>b. Some \<lparr> rq_ChainID = HNB, rq_BeginIndex = 2, rq_EndIndex = 0, rq_Version = 1 \<rparr>), ye_encRes = (\<lambda>r. Some []),
     ye_decRes = (\<lambda>b. Some \<lparr> rs_ChainID = HNB, rs_Blocks = Some (if b = [1] then [sync_blk 7] else [sync_blk 1, sync_blk 2]), rs_Version = (if b = [1] then 1 else 2) \<rparr>),
     ye_encMsg = (\<lambda>m. Some []), ye_decMsg = (\<lambda>b. Some \<lparr> sm_Type = (if b = [9] then 0 else 1), sm_Payload = b, sm_Sender = 4 \<rparr>), ye_getBlock = (\<lambda>n. None), ye_localID = 3 \<rparr>"

definition sync_chain :: syncChainHandler where
  "sync_chain = \<lparr> sc_chainID = HNB, sc_chainSyncVersion = 1, sc_syncBlockChannel = [],
     sc_syncInfo = \<lparr> yi_ChainID = HNB, yi_SyncState = 1, yi_BeginCursor = 1, yi_EndCursor = 2, yi_FromID = 4 \<rparr>, sc_notifyHandler = True, sc_exitTask = False,
     sc_interval = [], sc_sent = [], sc_notified = [] \<rparr>"

lemma sync_demo_run: "\<exists>sch. syncBlock sync_demo 5 4 1 2 1 2 [Message [1], Message [2]] sync_chain = Some (Inr (), [], sch)"
proof -
  have "case syncBlock sync_demo 5 4 1 2 1 2 [Message [1], Message [2]] sync_chain of Some (Inr u, [], sch) \<Rightarrow> True | _ \<Rightarrow> False" by code_simp
  moreover obtain r evs sch where "syncBlock sync_demo 5 4 1 2 1 2 [Message [1], Message [2]] sync_chain = Some (r, evs, sch)"
    using calculation by (cases "syncBlock sync_demo 5 4 1 2 1 2 [Message [1], Message [2]] sync_chain") auto
  ultimately show ?thesis by (cases r; cases evs) simp_all
qed

lemma sync_demo_sequence: "in_sequence sync_demo [Message [1], Message [2]] sync_chain" "\<not> (\<exists>res\<in>responses sync_demo [Message [1], Message [2]] sync_chain. rs_Blocks res = None)"
proof -
  have "consecutive 7 [sync_blk 7]" "consecutive 1 [sync_blk 1, sync_blk 2]" by (simp_all add: consecutive_def sync_blk_def blk_num_def)
  then show "in_sequence sync_demo [Message [1], Message [2]] sync_chain" "\<not> (\<exists>res\<in>responses sync_demo [Message [1], Message [2]] sync_chain. rs_Blocks res = None)"
    by (auto simp: in_sequence_def responses_def sync_demo_def sync_chain_def split: if_splits)
qed

theorem sync_blocks_in_order_witness:
  "\<exists>sch. syncBlock sync_demo 5 4 1 2 1 2 [Message [1], Message [2]] sync_chain = Some (Inr (), [], sch) \<and> consecutive 1 (map sn_Block (sc_notified sch)) \<and> 2 \<le> length (sc_notified sch)"
proof -
  obtain sch where sch: "syncBlock sync_demo 5 4 1 2 1 2 [Message [1], Message [2]] sync_chain = Some (Inr (), [], sch)" using sync_demo_run by blast
  have "sc_notifyHandler sync_chain" "sc_notified sync_chain = []" by (simp_all add: sync_chain_def)
  then show ?thesis using sync_blocks_in_order [OF sch sync_demo_sequence(1)] sync_demo_sequence(2) sch by auto
qed

section \<open>A request that stops the node\<close>



end
