(* ===== verification/Spec2Isabelle.thy ===== *)
theory Spec2Isabelle
  imports Prelude Go_Heap Prque Transaction TxList TxPool TxPool_Inv TxPool_Cap TxPool_Safe Merkle BitArray PartSet Validator Quorum Ledger_Inv AppMgr_Inv Round_Props Rlp_Tx Dbft_Props Sync
begin

text \<open>
  \<^bold>\<open>The HNB blockchain node.\<close>  A node keeps a pool of transactions, agrees with the other validators on blocks of them, runs the two token contracts on every block and
  writes the result to a ledger.  This library models these parts from their Go sources (paths are relative to \<open>src/HNB\<close>) and proves what makes each of them correct.

  \<^bold>\<open>The parts and how they work together.\<close>  A client encodes a signed transaction with \<open>rlp\<close> and sends it as a hexadecimal string; the node decodes it and hands it to the
  transaction pool, which files it per account by nonce and hands batches to the proposer of a block.  The consensus works in heights and rounds: a proposal travels in
  parts, each with a Merkle proof; validators prevote and precommit; vote sets count them; a block with precommits of more than two thirds is committed.  Delegated proof of
  stake registers its functions with the rounds: every epoch has its witnesses, chosen by votes of the token contracts, who are the validators until it ends.  The application
  manager then runs the transactions of the block on the contracts, through a cache over the committed state, and writes block, state, nonces and index to the ledger, which
  lies on a key-value store.

  \<^bold>\<open>Theories.\<close>
    \<^item> \<open>Prelude\<close>: machine integers, Go maps (\<open>gomap\<close>, an association list whose iteration order is the parameter \<open>go_range\<close>), generic lemmas.  \<open>Strconv\<close>: decimal,
      hexadecimal and big-endian numbers (\<open>strconv\<close>, \<open>encoding/binary\<close>, \<open>util/byteAndStringConv.go\<close>).
    \<^item> \<open>Go_Heap\<close>: \<open>container/heap\<close> of the standard library with the locale \<open>heap_impl\<close> for its users; \<open>Prque\<close>: \<open>common/prque\<close>.
    \<^item> \<open>Transaction\<close>: \<open>common/transaction.go\<close>; \<open>Signer\<close>: \<open>msp/tx_sign.go\<close>, the sender recovered from a signature; \<open>TxList\<close>: \<open>txpool/tx_list.go\<close>; \<open>TxPool\<close>: \<open>txpool/tx_pool.go\<close>, \<open>store.go\<close>, \<open>txpoolServer.go\<close>, whose record \<open>TxPool\<close> is the pool behind
      its mutex.  \<open>TxPool_Inv\<close>, \<open>TxPool_Cap\<close>, \<open>TxPool_Safe\<close>: its invariant, the fairness loops, the properties.
    \<^item> \<open>Merkle\<close>: \<open>ledger/merkle\<close>, \<open>common/merkle\<close>; \<open>BitArray\<close>: \<open>consensus/algorand/common/bit_array.go\<close>; \<open>PartSet\<close>: \<open>consensus/algorand/types/partSet.go\<close>.
    \<^item> \<open>Validator\<close>: \<open>types/validator.go\<close>; \<open>Vote\<close>: votes, vote sets, height vote sets, commits; \<open>Vote_Inv\<close>, \<open>Quorum\<close>: their books and what majorities mean.
    \<^item> \<open>ConsBlock\<close>, \<open>ConsMsg\<close>: blocks, state and messages of the consensus; \<open>Round\<close>: the round state machine of \<open>consensus/algorand/msgHandler\<close>, whose event loop
      \<open>DeliverMsg\<close> is \<open>deliver\<close>.  \<open>Round_Inv\<close>, \<open>Round_Rel\<close>, \<open>Round_Quorum\<close>, \<open>Round_Props\<close>: relations across the steps, lifted to all events by a locale
      that is interpreted twice, and the properties of every run.
    \<^item> \<open>Dbft\<close>, \<open>Dbft_Mgr\<close>, \<open>Dbft_Start\<close>: delegated proof of stake, \<open>consensus/dbft\<close>, around the round machine: epochs, witnesses and the registered functions; epoch changes, each
      goroutine of the manager as an event; genesis and start.  The manager is part of the world of the handler.  \<open>Dbft_Props\<close>: their properties.
    \<^item> \<open>Sync\<close>: block synchronisation, \<open>sync\<close>; its goroutine consumes a list of what happens while it waits.
    \<^item> \<open>KVStore\<close>: \<open>db/leveldbImpl\<close>; \<open>Ledger\<close>: \<open>ledger\<close> with its stores and caches; \<open>Ledger_Inv\<close>: the ledger as an abstract chain.
    \<^item> \<open>Contract_Api\<close>, \<open>Contracts\<close>, \<open>AppMgr\<close>: \<open>appMgr\<close>, \<open>contract/hgs\<close>, \<open>contract/hnb\<close>; \<open>Contracts_Inv\<close>, \<open>AppMgr_Inv\<close>: balances, votes, blocks.
    \<^item> \<open>Rlp\<close>: \<open>rlp\<close>; \<open>Rlp_Enc\<close>, \<open>Rlp_Dec\<close>, \<open>Rlp_Inverse\<close>, \<open>Rlp_Props\<close>: the reference encoding, the stream, the decoder against it; \<open>Rlp_Tx\<close>: raw transactions
      from \<open>cli/tx.go\<close> to \<open>access/rest/transaction.go\<close>.

  \<^bold>\<open>How the code is translated.\<close>  A struct is a record, a method a function that takes the state and returns it changed, an error a value.  Where the result is an option,
  \<open>None\<close> is a run-time panic, a mutex that is never released or a loop that does not end.  Lengths that would need an unbounded memory to overflow are natural numbers; arithmetic that
  can overflow is done on words or wrapped by \<open>int64\<close> and \<open>int32\<close>.  A package variable is a field of the state.  Code outside the repository is a parameter: digests,
  signatures, the JSON and amino codecs, LevelDB, the eviction of caches, random numbers, clocks, and the order of map iterations.

  \<^bold>\<open>What is proved.\<close>  Pool: in every reachable state the books agree and the limits hold, a call panics only on a transaction whose signature is missing, batches are prefixes in nonce order; the sorted map refines a sorted list.
  Merkle trees and parts: proofs verify, a proof or part that should not verify exhibits a collision, a block is put together from its parts in any order.  Validators: the heap
  computes the proposer of a scan; the set refines a map.  Votes: the books of a vote set, what two majorities expose, which commits are accepted.
  Round machine: for every sequence of events from one start of the handler to the next, whatever votes peers send, a node signs at most one prevote and precommit in a round, precommits only what a quorum prevoted and applies only what a
  quorum precommitted.  Delegated proof of stake: its functions keep to what the round machine asks of them; when the selection of witnesses ends and what it returns; who announces an
  epoch; how the proposers take turns; that a failed change of epoch makes a node vote again; what a restart finds after the genesis.  Synchronisation: the blocks handed on are in order and without gaps.  Ledger: it refines the chain of accepted blocks.  Contracts: supply, failed handlers, votes and their release.  RLP: decoding inverts
  encoding, ends, and the three outputs agree; a raw transaction arrives as it was sent.  Properties of the kind \<open>error\<close> record where the code does not do what it means to.

  \<^bold>\<open>Bounds and fuel.\<close>  Block numbers are below \<open>2 ^ 56\<close> where keys of the ledger must not collide (\<open>small\<close>).  \<open>SetRound\<close> is \<open>None\<close> for the largest 32-bit round, for which its loop never ends.
  Properties that count validators assume equal powers where they say so.  The runs of the round machine take messages whose handlers are modelled and
  callbacks of the embedding consensus that leave the handler's own fields alone; between two events the world around the handler and the flags of the synchronisation may change.  A run ends with the
  restart of the handler, after which a node may vote again.  The loops of the pool and the heap are functions with a termination proof or have a
  fuel that is shown to be enough.  The loop that fills up the witnesses is a partial function, with the condition under which it ends.  The decoder of \<open>rlp\<close> takes fuel; more than the length of the input is enough for a type without one-byte arrays, and no fuel is enough for the others.

  \<^bold>\<open>Not modelled.\<close>  Bookkeeping about peers, statistics and the timer goroutine of the consensus (the model delivers any timeout at any moment).  The change of validator groups, the search for
  forks and the roll-back, which work through network requests and timers around the round machine.  The requests for heights that start a synchronisation.  The queues between the goroutines of delegated proof of stake and the HTTP client that
  lists the candidates of an epoch (its answer is a parameter).  Sockets, TLS and connection tables.  Elliptic
  curves, the recovery of a public key and wrappers of cryptography.  Command line, HTTP and gRPC, configuration, logging.  In \<open>rlp\<close>, types with their own encoders, of which the repository has none, and recursive types.
\<close>

end
